(* ===== verification/Prelude.thy ===== *)
theory Prelude
  imports Main "HOL-Library.Word" "HOL-Library.State_Monad"
begin

text \<open>
  Shared vocabulary of the development: the machine types of the C++ sources, the errors their
  exceptions become, ranges of a buffer given by two iterators, big-endian integers, and the
  generic lemmas the component theories use.

  A C++ exception is a value of \<open>error\<close>, one constructor per exception class, carrying the text
  the source throws. A function that may throw returns \<open>'a res\<close>, with \<open>Inl\<close> for the exception.
  Reads the C++ standard leaves undefined are the constructor \<open>UndefinedBehaviour\<close>, so that a
  theorem about a normal result also says the read was defined.
\<close>

named_theorems wire_simps \<open>bytes written and read back by the encoders and decoders\<close>
named_theorems size_simps \<open>sizes of encodings\<close>

type_synonym byte = "8 word"
type_synonym u16 = "16 word"
type_synonym u32 = "32 word"
type_synonym u64 = "64 word"

datatype error =
    TlvError string
  | BlockError string
  | ComponentError string
  | NameError string
  | ExcludeError string
  | SelectorsError string
  | InterestError string
  | DataError string
  | MetaInfoError string
  | RepoError string
  | StdError string
  | UndefinedBehaviour string

type_synonym 'a res = "error + 'a"

section \<open>Ranges of a buffer\<close>

text \<open>The bytes of the half-open iterator range \<open>[b, e)\<close> of a buffer, iterators being offsets.\<close>

definition slice :: "nat \<Rightarrow> nat \<Rightarrow> 'a list \<Rightarrow> 'a list" where
  "slice b e xs = take (e - b) (drop b xs)"

lemma length_slice [simp]: "e \<le> length xs \<Longrightarrow> length (slice b e xs) = e - b"
  by (simp add: slice_def)

lemma slice_all [simp]: "slice 0 (length xs) xs = xs"
  by (simp add: slice_def)

lemma slice_0 [simp]: "slice 0 e xs = take e xs"
  by (simp add: slice_def)

lemma slice_same [simp]: "slice b b xs = []"
  by (simp add: slice_def)

lemma slice_slice: "b \<le> e \<Longrightarrow> e' \<le> e - b \<Longrightarrow> slice b' e' (slice b e xs) = slice (b + b') (b + e') xs"
  by (auto simp: slice_def drop_take min_def add.commute)

lemma slice_append_mid [simp]:
  "slice (length xs) (length xs + length ys) (xs @ ys @ zs) = ys"
  by (simp add: slice_def)

lemma slice_drop_end: "slice b (length xs) xs = drop b xs"
  by (simp add: slice_def)

lemma drop_slice: "drop k (slice b e xs) = slice (b + k) e xs"
  by (simp add: slice_def drop_take add.commute)

lemma slice_split: "b \<le> m \<Longrightarrow> m \<le> e \<Longrightarrow> e \<le> length xs \<Longrightarrow> slice b m xs @ slice m e xs = slice b e xs"
proof -
  assume "b \<le> m" "m \<le> e" "e \<le> length xs"
  then have "take (m - b) (drop b xs) @ take (e - m) (drop (m - b) (drop b xs)) = take ((m - b) + (e - m)) (drop b xs)"
    by (simp only: take_add)
  with \<open>b \<le> m\<close> \<open>m \<le> e\<close> show ?thesis by (simp add: slice_def)
qed

section \<open>Big-endian integers\<close>

text \<open>
  \<open>be_bytes k n\<close>: the \<open>k\<close> bytes in memory of a \<open>k\<close>-byte unsigned integer after \<open>htobe\<close>, that is
  the most significant byte first, the value taken modulo \<open>256 ^ k\<close> as the cast to the narrower
  type does. \<open>be_value\<close> is the number \<open>be16toh\<close>, \<open>be32toh\<close> and \<open>be64toh\<close> read from memory.
\<close>

fun be_bytes :: "nat \<Rightarrow> nat \<Rightarrow> byte list" where
  "be_bytes 0 n = []"
| "be_bytes (Suc k) n = be_bytes k (n div 256) @ [word_of_nat (n mod 256)]"

definition be_value :: "byte list \<Rightarrow> nat" where
  "be_value bs = foldl (\<lambda>acc b. acc * 256 + unat b) 0 bs"

lemma length_be_bytes [simp, size_simps]: "length (be_bytes k n) = k"
  by (induction k arbitrary: n) auto

lemma be_value_Nil [simp]: "be_value [] = 0"
  by (simp add: be_value_def)

lemma be_value_snoc [simp]: "be_value (bs @ [b]) = be_value bs * 256 + unat b"
  by (simp add: be_value_def)

lemma unat_byte_of_mod: "unat (word_of_nat (n mod 256) :: byte) = n mod 256"
  by (simp add: unat_of_nat)

lemma be_value_be_bytes: "be_value (be_bytes k n) = n mod 256 ^ k"
proof (induction k arbitrary: n)
  case 0
  then show ?case by simp
next
  case (Suc k)
  have "n mod 256 ^ Suc k = 256 * (n div 256 mod 256 ^ k) + n mod 256"
    by (simp add: mod_mult2_eq)
  with Suc show ?case by (simp add: unat_byte_of_mod)
qed

lemma be_value_bound: "be_value bs < 256 ^ length bs"
proof (induction bs rule: rev_induct)
  case Nil
  then show ?case by simp
next
  case (snoc b bs)
  have "unat b < 256" using unsigned_less [of b] by simp
  moreover have "Suc (be_value bs) * 256 \<le> 256 ^ length bs * 256"
    using snoc by (intro mult_right_mono) auto
  ultimately show ?case by simp
qed

lemma be_bytes_be_value: "be_bytes (length bs) (be_value bs) = bs"
proof (induction bs rule: rev_induct)
  case Nil
  then show ?case by simp
next
  case (snoc b bs)
  have b: "unat b < 256" using unsigned_less [of b] by simp
  then have "(be_value bs * 256 + unat b) div 256 = be_value bs" "(be_value bs * 256 + unat b) mod 256 = unat b"
    by auto
  with snoc show ?case by simp
qed

lemma be_value_eq_iff: "length xs = length ys \<Longrightarrow> be_value xs = be_value ys \<longleftrightarrow> xs = ys"
  by (metis be_bytes_be_value)

lemma be_value_Cons: "be_value (x # xs) = unat x * 256 ^ length xs + be_value xs"
proof (induction xs rule: rev_induct)
  case Nil
  then show ?case by (simp add: be_value_def)
next
  case (snoc y ys)
  then show ?case using be_value_snoc [of "x # ys" y] by (simp add: algebra_simps)
qed

lemma be_bytes_eq_iff: "m < 256 ^ k \<Longrightarrow> n < 256 ^ k \<Longrightarrow> be_bytes k m = be_bytes k n \<longleftrightarrow> m = n"
  by (metis be_value_be_bytes mod_less)

section \<open>Times\<close>

text \<open>
  \<^verbatim>\<open>ndn::time\<close> counts nanoseconds in 64 bits. A duration that comes from a packet or a command counts
  milliseconds; before it is compared with a time, or added to one, it is converted, and both the
  product and the sum may overflow, which the standard leaves undefined and the compiled code lets
  wrap around.
\<close>

definition chrono64 :: "int \<Rightarrow> int" where
  "chrono64 t = sint (word_of_int t :: u64)"

definition ns_of_ms :: "int \<Rightarrow> int" where
  "ns_of_ms ms = chrono64 (ms * 10 ^ 6)"

definition time_after :: "int \<Rightarrow> int \<Rightarrow> int" where
  "time_after now ms = chrono64 (now + ns_of_ms ms)"

definition time_since :: "int \<Rightarrow> int \<Rightarrow> int" where
  "time_since start now = chrono64 (now - start)"

lemma chrono64_id: "- (2 ^ 63) \<le> t \<Longrightarrow> t < 2 ^ 63 \<Longrightarrow> chrono64 t = t"
  by (simp add: chrono64_def signed_of_int signed_take_bit_int_eq_self)

lemma chrono64_bounds: "- (2 ^ 63) \<le> chrono64 t \<and> chrono64 t < 2 ^ 63"
  using sint_range_size [of "word_of_int t :: u64"] by (simp add: chrono64_def word_size)

text \<open>For 292 years a time is the exact one.\<close>

lemma time_after_exact:
  assumes "0 \<le> now" and "0 \<le> ms" and "now + ms * 10 ^ 6 < 2 ^ 63"
  shows "time_after now ms = now + ms * 10 ^ 6"
  using assms by (simp add: time_after_def ns_of_ms_def chrono64_id)

end
