(* ===== verification/Tlv.thy ===== *)
theory Tlv
  imports Prelude
begin

text \<open>
  The NDN-TLV number formats of \<^verbatim>\<open>ndn-cxx/src/encoding/tlv.hpp\<close>: VAR-NUMBER, TLV type codes and
  nonNegativeInteger, each read from a contiguous buffer (\<open>readVarNumber\<close>) and from a stream
  iterator (\<open>readVarNumber_stream\<close>), and written to an output stream. An input iterator pair
  \<open>begin\<close>, \<open>end\<close> is the list of the bytes between them; a successful read returns the value with
  the bytes after it. An output stream is the list of the bytes written so far.
\<close>

section \<open>Type codes and limits\<close>

definition MAX_NDN_PACKET_SIZE :: nat where
  "MAX_NDN_PACKET_SIZE = 8800"

definition tlv_Interest :: u32 where "tlv_Interest = 5"
definition tlv_Data :: u32 where "tlv_Data = 6"
definition tlv_Name :: u32 where "tlv_Name = 7"
definition tlv_ImplicitSha256DigestComponent :: u32 where "tlv_ImplicitSha256DigestComponent = 1"
definition tlv_NameComponent :: u32 where "tlv_NameComponent = 8"
definition tlv_Selectors :: u32 where "tlv_Selectors = 9"
definition tlv_Nonce :: u32 where "tlv_Nonce = 10"
definition tlv_InterestLifetime :: u32 where "tlv_InterestLifetime = 12"
definition tlv_MinSuffixComponents :: u32 where "tlv_MinSuffixComponents = 13"
definition tlv_MaxSuffixComponents :: u32 where "tlv_MaxSuffixComponents = 14"
definition tlv_PublisherPublicKeyLocator :: u32 where "tlv_PublisherPublicKeyLocator = 15"
definition tlv_Exclude :: u32 where "tlv_Exclude = 16"
definition tlv_ChildSelector :: u32 where "tlv_ChildSelector = 17"
definition tlv_MustBeFresh :: u32 where "tlv_MustBeFresh = 18"
definition tlv_Any :: u32 where "tlv_Any = 19"
definition tlv_MetaInfo :: u32 where "tlv_MetaInfo = 20"
definition tlv_Content :: u32 where "tlv_Content = 21"
definition tlv_SignatureInfo :: u32 where "tlv_SignatureInfo = 22"
definition tlv_SignatureValue :: u32 where "tlv_SignatureValue = 23"
definition tlv_ContentType :: u32 where "tlv_ContentType = 24"
definition tlv_FreshnessPeriod :: u32 where "tlv_FreshnessPeriod = 25"
definition tlv_FinalBlockId :: u32 where "tlv_FinalBlockId = 26"
definition tlv_SignatureType :: u32 where "tlv_SignatureType = 27"
definition tlv_KeyLocator :: u32 where "tlv_KeyLocator = 28"
definition tlv_KeyDigest :: u32 where "tlv_KeyDigest = 29"
definition tlv_LinkPreference :: u32 where "tlv_LinkPreference = 30"
definition tlv_LinkDelegation :: u32 where "tlv_LinkDelegation = 31"
definition tlv_SelectedDelegation :: u32 where "tlv_SelectedDelegation = 32"
definition tlv_ValidityPeriod :: u32 where "tlv_ValidityPeriod = 253"

lemmas tlv_codes = tlv_Interest_def tlv_Data_def tlv_Name_def tlv_ImplicitSha256DigestComponent_def
  tlv_NameComponent_def tlv_Selectors_def tlv_Nonce_def tlv_InterestLifetime_def
  tlv_MinSuffixComponents_def tlv_MaxSuffixComponents_def tlv_PublisherPublicKeyLocator_def
  tlv_Exclude_def tlv_ChildSelector_def tlv_MustBeFresh_def tlv_Any_def tlv_KeyLocator_def tlv_KeyDigest_def
  tlv_MetaInfo_def tlv_Content_def tlv_SignatureInfo_def tlv_SignatureValue_def tlv_ContentType_def
  tlv_FreshnessPeriod_def tlv_FinalBlockId_def tlv_SignatureType_def tlv_LinkPreference_def
  tlv_LinkDelegation_def tlv_SelectedDelegation_def tlv_ValidityPeriod_def

section \<open>Reading from a buffer\<close>

text \<open>\<open>*reinterpret_cast<const uintK_t*>(&*begin)\<close> followed by \<open>beKtoh\<close>.\<close>

definition be_toh :: "nat \<Rightarrow> byte list \<Rightarrow> u64" where
  "be_toh k bs = word_of_nat (be_value (take k bs))"

definition readVarNumber :: "byte list \<Rightarrow> (u64 \<times> byte list) option" where
  "readVarNumber buf =
     (case buf of
        [] \<Rightarrow> None
      | firstOctet # begin \<Rightarrow>
          if firstOctet < 253 then Some (ucast firstOctet, begin)
          else if firstOctet = 253 then
            (if length begin < 2 then None else Some (be_toh 2 begin, drop 2 begin))
          else if firstOctet = 254 then
            (if length begin < 4 then None else Some (be_toh 4 begin, drop 4 begin))
          else
            (if length begin < 8 then None else Some (be_toh 8 begin, drop 8 begin)))"

definition readType :: "byte list \<Rightarrow> (u32 \<times> byte list) option" where
  "readType buf =
     (case readVarNumber buf of
        None \<Rightarrow> None
      | Some (number, begin) \<Rightarrow>
          if number > 0xFFFFFFFF then None else Some (ucast number, begin))"

definition readVarNumber_throw :: "byte list \<Rightarrow> (u64 \<times> byte list) res" where
  "readVarNumber_throw buf =
     (if buf = [] then Inl (TlvError ''Empty buffer during TLV processing'')
      else case readVarNumber buf of
             None \<Rightarrow> Inl (TlvError ''Insufficient data during TLV processing'')
           | Some r \<Rightarrow> Inr r)"

definition readType_throw :: "byte list \<Rightarrow> (u32 \<times> byte list) res" where
  "readType_throw buf =
     (case readVarNumber_throw buf of
        Inl e \<Rightarrow> Inl e
      | Inr (type, begin) \<Rightarrow>
          if type > 0xFFFFFFFF then Inl (TlvError ''TLV type code exceeds allowed maximum'')
          else Inr (ucast type, begin))"

definition readNonNegativeInteger :: "nat \<Rightarrow> byte list \<Rightarrow> (u64 \<times> byte list) res" where
  "readNonNegativeInteger sz buf =
     (if sz \<in> {1, 2, 4, 8} then
        (if length buf < sz then Inl (TlvError ''Insufficient data during TLV processing'')
         else Inr (be_toh sz buf, drop sz buf))
      else Inl (TlvError ''Invalid length for nonNegativeInteger (only 1, 2, 4, and 8 are allowed)''))"

section \<open>Reading from a stream iterator\<close>

text \<open>
  The specialisations for \<^verbatim>\<open>std::istream_iterator<uint8_t>\<close> cannot look ahead: they shift one byte
  at a time into a 64-bit accumulator. \<open>stream_bytes count value buf\<close> is the loop
  \<^verbatim>\<open>for (; begin != end && count < k; ++count) value = ((value << 8) | *begin)\<close> with \<open>count\<close> the
  number of iterations left; it returns \<open>None\<close> when the stream ends first.
\<close>

fun stream_bytes :: "nat \<Rightarrow> u64 \<Rightarrow> byte list \<Rightarrow> (u64 \<times> byte list) option" where
  "stream_bytes 0 value buf = Some (value, buf)"
| "stream_bytes (Suc count) value [] = None"
| "stream_bytes (Suc count) value (b # buf) =
     stream_bytes count (or (push_bit 8 value) (ucast b)) buf"

definition readVarNumber_stream :: "byte list \<Rightarrow> (u64 \<times> byte list) option" where
  "readVarNumber_stream buf =
     (case buf of
        [] \<Rightarrow> None
      | firstOctet # begin \<Rightarrow>
          if firstOctet < 253 then Some (ucast firstOctet, begin)
          else if firstOctet = 253 then stream_bytes 2 0 begin
          else if firstOctet = 254 then stream_bytes 4 0 begin
          else stream_bytes 8 0 begin)"

definition readNonNegativeInteger_stream :: "nat \<Rightarrow> byte list \<Rightarrow> (u64 \<times> byte list) res" where
  "readNonNegativeInteger_stream sz buf =
     (if sz = 1 then
        (case buf of
           [] \<Rightarrow> Inl (TlvError ''Insufficient data during TLV processing'')
         | b # begin \<Rightarrow> Inr (ucast b, begin))
      else if sz \<in> {2, 4, 8} then
        (case stream_bytes sz 0 buf of
           None \<Rightarrow> Inl (TlvError ''Insufficient data during TLV processing'')
         | Some r \<Rightarrow> Inr r)
      else Inl (TlvError ''Invalid length for nonNegativeInteger (only 1, 2, 4, and 8 are allowed)''))"

section \<open>Sizes and writing\<close>

definition sizeOfVarNumber :: "u64 \<Rightarrow> nat" where
  "sizeOfVarNumber varNumber =
     (if varNumber < 253 then 1
      else if varNumber \<le> 0xFFFF then 3
      else if varNumber \<le> 0xFFFFFFFF then 5
      else 9)"

definition writeVarNumber :: "byte list \<Rightarrow> u64 \<Rightarrow> byte list \<times> nat" where
  "writeVarNumber os varNumber =
     (if varNumber < 253 then (os @ [ucast varNumber], 1)
      else if varNumber \<le> 0xFFFF then (os @ [253] @ be_bytes 2 (unat varNumber), 3)
      else if varNumber \<le> 0xFFFFFFFF then (os @ [254] @ be_bytes 4 (unat varNumber), 5)
      else (os @ [255] @ be_bytes 8 (unat varNumber), 9))"

definition sizeOfNonNegativeInteger :: "u64 \<Rightarrow> nat" where
  "sizeOfNonNegativeInteger varNumber =
     (if varNumber < 253 then 1
      else if varNumber \<le> 0xFFFF then 2
      else if varNumber \<le> 0xFFFFFFFF then 4
      else 8)"

definition writeNonNegativeInteger :: "byte list \<Rightarrow> u64 \<Rightarrow> byte list \<times> nat" where
  "writeNonNegativeInteger os varNumber =
     (if varNumber < 253 then (os @ [ucast varNumber], 1)
      else if varNumber \<le> 0xFFFF then (os @ be_bytes 2 (unat varNumber), 2)
      else if varNumber \<le> 0xFFFFFFFF then (os @ be_bytes 4 (unat varNumber), 4)
      else (os @ be_bytes 8 (unat varNumber), 8))"

section \<open>Lemmas\<close>

lemma be_toh_be_bytes:
  assumes "unat n < 256 ^ k"
  shows "be_toh k (be_bytes k (unat (n :: u64)) @ rest) = n"
  using assms by (simp add: be_toh_def be_value_be_bytes)

text \<open>\<open>varNumber_bytes\<close>, the bytes of a VAR-NUMBER, is what every writer appends or prepends.\<close>

definition varNumber_bytes :: "u64 \<Rightarrow> byte list" where
  "varNumber_bytes n = fst (writeVarNumber [] n)"

lemma varNumber_bytes_eq:
  "varNumber_bytes n =
     (if n < 253 then [ucast n]
      else if n \<le> 0xFFFF then 253 # be_bytes 2 (unat n)
      else if n \<le> 0xFFFFFFFF then 254 # be_bytes 4 (unat n)
      else 255 # be_bytes 8 (unat n))"
  by (simp add: varNumber_bytes_def writeVarNumber_def)

lemma writeVarNumber_append [wire_simps]:
  "writeVarNumber os n = (os @ varNumber_bytes n, sizeOfVarNumber n)"
  by (simp add: varNumber_bytes_eq writeVarNumber_def sizeOfVarNumber_def)

lemma length_varNumber_bytes [size_simps]: "length (varNumber_bytes n) = sizeOfVarNumber n"
  by (simp add: varNumber_bytes_eq sizeOfVarNumber_def)

lemma varNumber_bytes_not_Nil [simp]: "varNumber_bytes n \<noteq> []"
  by (simp add: varNumber_bytes_eq)

lemma word_le_unat_bound: "n \<le> 0xFFFF \<Longrightarrow> unat (n :: u64) < 256 ^ 2" "n \<le> 0xFFFFFFFF \<Longrightarrow> unat n < 256 ^ 4"
    "unat n < 256 ^ 8"
  using unsigned_less [of n] by (simp_all add: word_le_nat_alt)

lemma unat_byte_less: "unat (b :: byte) < 256"
  using unsigned_less [where ?'a = nat, of b] by simp

lemma unat_ucast_byte [simp]: "unat (ucast (b :: byte) :: u64) = unat b"
  using unat_byte_less [of b] by (simp add: unsigned_ucast_eq take_bit_nat_eq_self)

lemma unat_u32_less: "unat (t :: u32) < 4294967296"
  using unsigned_less [where ?'a = nat, of t] by simp

lemma unat_ucast_u32 [simp]: "unat (ucast (t :: u32) :: u64) = unat t"
  using unat_u32_less [of t] by (simp add: unsigned_ucast_eq take_bit_nat_eq_self)

lemma unat_ucast_to_u32: "n \<le> 0xFFFFFFFF \<Longrightarrow> unat (ucast (n :: u64) :: u32) = unat n"
  by (simp add: unsigned_ucast_eq word_le_nat_alt take_bit_nat_eq_self)

lemma unat_ucast_to_byte: "n < 256 \<Longrightarrow> unat (ucast (n :: u64) :: byte) = unat n"
  by (simp add: unsigned_ucast_eq word_less_nat_alt take_bit_nat_eq_self)

lemma small_word_ucast: "n < 253 \<Longrightarrow> (ucast (ucast (n :: u64) :: byte) :: u64) = n \<and> (ucast n :: byte) < 253"
  by (simp add: word_less_nat_alt word_unat_eq_iff unat_ucast_to_byte)

lemma readVarNumber_bytes [wire_simps]: "readVarNumber (varNumber_bytes n @ rest) = Some (n, rest)"
  using word_le_unat_bound [of n] small_word_ucast [of n]
  by (auto simp: readVarNumber_def varNumber_bytes_eq be_toh_be_bytes)

lemma readVarNumber_throw_bytes [wire_simps]: "readVarNumber_throw (varNumber_bytes n @ rest) = Inr (n, rest)"
  by (simp add: readVarNumber_throw_def readVarNumber_bytes)

lemma ucast_u32_le: "(ucast (t :: u32) :: u64) \<le> 0xFFFFFFFF"
  using unat_u32_less [of t] by (simp add: word_le_nat_alt)

lemma ucast_u32_u64 [simp]: "(ucast (ucast (t :: u32) :: u64) :: u32) = t"
  by (simp add: word_unat_eq_iff unat_ucast_to_u32 ucast_u32_le)

lemma ucast_u64_u32: "n \<le> 0xFFFFFFFF \<Longrightarrow> (ucast (ucast (n :: u64) :: u32) :: u64) = n"
  by (simp add: word_unat_eq_iff unat_ucast_to_u32)

lemma readType_bytes [wire_simps]: "readType (varNumber_bytes (ucast t) @ rest) = Some (t, rest)"
  using ucast_u32_le [of t] by (simp add: readType_def readVarNumber_bytes)

lemma readType_throw_bytes [wire_simps]: "readType_throw (varNumber_bytes (ucast t) @ rest) = Inr (t, rest)"
  using ucast_u32_le [of t] by (simp add: readType_throw_def readVarNumber_throw_bytes)

text \<open>Every successful read removes a non-empty prefix of the buffer: the reading loops end.\<close>

lemma readVarNumber_shorter: "readVarNumber buf = Some (n, rest) \<Longrightarrow> length rest < length buf"
  by (auto simp: readVarNumber_def split: list.splits if_splits)

lemma readVarNumber_suffix: "readVarNumber buf = Some (n, rest) \<Longrightarrow> rest = drop (length buf - length rest) buf"
  by (auto simp: readVarNumber_def drop_Cons' split: list.splits if_splits)

lemma readVarNumber_throw_Inr: "readVarNumber_throw buf = Inr r \<longleftrightarrow> readVarNumber buf = Some r"
  by (auto simp: readVarNumber_throw_def readVarNumber_def split: option.splits if_splits)

lemma readType_throw_Inr: "readType_throw buf = Inr r \<longleftrightarrow> readType buf = Some r"
  by (auto simp: readType_throw_def readType_def readVarNumber_throw_def readVarNumber_def
      split: option.splits if_splits sum.splits)

lemma readType_Some:
  "readType buf = Some (t, rest) \<longleftrightarrow> (\<exists>n. readVarNumber buf = Some (n, rest) \<and> n \<le> 0xFFFFFFFF \<and> t = ucast n)"
  by (auto simp: readType_def not_less split: option.splits)

lemma readType_shorter: "readType buf = Some (t, rest) \<Longrightarrow> length rest < length buf"
  by (auto simp: readType_Some dest: readVarNumber_shorter)

text \<open>nonNegativeInteger: what is written is read back, at the width the writer chose.\<close>

lemma length_writeNonNegativeInteger:
  "writeNonNegativeInteger os n = (os @ fst (writeNonNegativeInteger [] n), sizeOfNonNegativeInteger n)
   \<and> length (fst (writeNonNegativeInteger [] n)) = sizeOfNonNegativeInteger n"
  by (simp add: writeNonNegativeInteger_def sizeOfNonNegativeInteger_def)

lemma be_bytes_1: "n < 256 \<Longrightarrow> be_bytes (Suc 0) (unat (n :: u64)) = [ucast n]"
  by (simp add: word_unat_eq_iff unat_ucast_to_byte unat_of_nat word_less_nat_alt)

lemma be_toh_1: "be_toh (Suc 0) (b # bs) = ucast b"
  by (simp add: be_toh_def be_value_def word_unat_eq_iff unat_of_nat unat_byte_less)

lemma readNonNegativeInteger_bytes:
  "unat n < 256 ^ k \<Longrightarrow> k \<in> {1, 2, 4, 8} \<Longrightarrow>
   readNonNegativeInteger k (be_bytes k (unat (n :: u64)) @ rest) = Inr (n, rest)"
  by (simp add: readNonNegativeInteger_def be_toh_be_bytes)

text \<open>The byte-at-a-time stream reader computes the same number as the buffer reader.\<close>

lemma or_push_bit_8:
  assumes "unat (v :: u64) < 2 ^ 56"
  shows "unat (or (push_bit 8 v) (ucast (b :: byte))) = unat v * 256 + unat b"
proof -
  have "and (push_bit 8 v) (ucast b) = 0"
    by (rule bit_eqI) (auto simp: bit_and_iff bit_push_bit_iff bit_ucast_iff dest: bit_imp_le_length)
  then have "or (push_bit 8 v) (ucast b) = push_bit 8 v + ucast b"
    by (simp add: disjunctive_add_eq_or)
  moreover have "unat (push_bit 8 v) = unat v * 256"
    using assms by (simp add: push_bit_eq_mult unat_word_ariths)
  moreover have "unat v * 256 + unat b < 2 ^ 64"
    using assms unat_byte_less [of b] by simp
  ultimately show ?thesis by (simp add: unat_word_ariths)
qed

lemma stream_bytes_None: "length bs < k \<Longrightarrow> stream_bytes k v bs = None"
  by (induction k v bs rule: stream_bytes.induct) auto

lemma stream_bytes_Some:
  assumes "k \<le> length bs" and "be_value bs0 = unat v" and "length bs0 + k \<le> 8"
  shows "\<exists>w. stream_bytes k v bs = Some (w, drop k bs) \<and> unat w = be_value (bs0 @ take k bs)"
  using assms
proof (induction k v bs arbitrary: bs0 rule: stream_bytes.induct)
  case (3 k v b bs)
  have "be_value bs0 < 256 ^ length bs0" by (rule be_value_bound)
  also have "\<dots> \<le> (256 :: nat) ^ 7" using "3.prems"(3) by (intro power_increasing) auto
  finally have "unat v < 2 ^ 56" using "3.prems"(2) by simp
  then have "be_value (bs0 @ [b]) = unat (or (push_bit 8 v) (ucast b))"
    using "3.prems"(2) by (simp add: or_push_bit_8)
  with "3.IH" [of "bs0 @ [b]"] "3.prems" show ?case by simp
qed auto

lemma stream_bytes_be_toh:
  assumes "k \<le> 8"
  shows "stream_bytes k 0 bs = (if length bs < k then None else Some (be_toh k bs, drop k bs))"
  using stream_bytes_None [of bs k 0] stream_bytes_Some [of k bs "[]" 0] assms
  by (auto simp: be_toh_def word_unat_eq_iff not_less) (metis word_of_nat_eq_iff of_nat_unat ucast_id unsigned_of_nat)

lemma readVarNumber_stream_eq: "readVarNumber_stream buf = readVarNumber buf"
  by (auto simp: readVarNumber_stream_def readVarNumber_def stream_bytes_be_toh split: list.splits)

section \<open>Properties\<close>

text \<open>
  A VAR-NUMBER written by \<^verbatim>\<open>writeVarNumber\<close> is read back by \<^verbatim>\<open>readVarNumber\<close> whatever follows it
  in the buffer, the reader stops exactly behind it, and the count the writer returns, the number
  of bytes it put on the stream and \<^verbatim>\<open>sizeOfVarNumber\<close> agree.
\<close>

theorem VarNumber_roundtrip:
  "\<exists>bs. writeVarNumber os n = (os @ bs, sizeOfVarNumber n) \<and> length bs = sizeOfVarNumber n
     \<and> readVarNumber (bs @ rest) = Some (n, rest)"
  by (intro exI [of _ "varNumber_bytes n"]) (simp add: wire_simps size_simps)

text \<open>
  The specialisations for a stream iterator, which shift one byte at a time into a 64-bit
  accumulator, return what the buffer readers return, for every input and every width, with the
  same errors.
\<close>

theorem stream_readers_equal_buffer_readers:
  "readVarNumber_stream buf = readVarNumber buf \<and>
   readNonNegativeInteger_stream sz buf = readNonNegativeInteger sz buf"
proof
  show "readVarNumber_stream buf = readVarNumber buf" by (rule readVarNumber_stream_eq)
  show "readNonNegativeInteger_stream sz buf = readNonNegativeInteger sz buf"
    by (cases buf) (auto simp: readNonNegativeInteger_stream_def readNonNegativeInteger_def stream_bytes_be_toh be_toh_1)
qed

end
