(* ===== verification/Block.thy ===== *)
theory Block
  imports Tlv
begin

text \<open>
  The TLV element \<^verbatim>\<open>ndn::Block\<close> of \<^verbatim>\<open>ndn-cxx/src/encoding/block.cpp\<close>. A block shares an immutable
  buffer (\<open>m_buffer\<close>, \<open>None\<close> for the null pointer) and remembers its wire range and its value range
  as iterators, here offsets into the buffer, and the sub-elements found by \<^verbatim>\<open>parse()\<close>.
  \<open>value_bytes\<close> and \<open>wire_bytes\<close> read the two ranges. The last section relates blocks to the
  abstract TLV they denote, a pair of a type and a value.
\<close>

datatype block = Block
  (m_buffer: "byte list option")
  (m_type: u32)
  (m_begin: nat)
  (m_end: nat)
  (m_size: nat)
  (m_value_begin: nat)
  (m_value_end: nat)
  (m_subBlocks: "block list")

section \<open>Accessors\<close>

definition Block_empty :: "block \<Rightarrow> bool" where
  "Block_empty b \<longleftrightarrow> m_type b = 0xFFFFFFFF"

definition Block_hasWire :: "block \<Rightarrow> bool" where
  "Block_hasWire b \<longleftrightarrow> m_buffer b \<noteq> None \<and> m_begin b \<noteq> m_end b"

definition Block_hasValue :: "block \<Rightarrow> bool" where
  "Block_hasValue b \<longleftrightarrow> m_buffer b \<noteq> None"

definition Block_value_size :: "block \<Rightarrow> nat" where
  "Block_value_size b = (if Block_hasValue b then m_value_end b - m_value_begin b else 0)"

definition Block_size :: "block \<Rightarrow> nat res" where
  "Block_size b =
     (if Block_hasWire b \<or> Block_hasValue b then Inr (m_size b)
      else Inl (BlockError ''Block size cannot be determined (undefined block size)''))"

definition Block_begin :: "block \<Rightarrow> nat res" where
  "Block_begin b =
     (if Block_hasWire b then Inr (m_begin b)
      else Inl (BlockError ''Underlying wire buffer is empty''))"

definition Block_end :: "block \<Rightarrow> nat res" where
  "Block_end b =
     (if Block_hasWire b then Inr (m_end b)
      else Inl (BlockError ''Underlying wire buffer is empty''))"

text \<open>The bytes \<^verbatim>\<open>wire()\<close> points at, \<^verbatim>\<open>size()\<close> of them, and the bytes \<^verbatim>\<open>value()\<close> points at.\<close>

definition wire_bytes :: "block \<Rightarrow> byte list" where
  "wire_bytes b = (case m_buffer b of None \<Rightarrow> [] | Some buf \<Rightarrow> slice (m_begin b) (m_end b) buf)"

definition value_bytes :: "block \<Rightarrow> byte list" where
  "value_bytes b = (case m_buffer b of None \<Rightarrow> [] | Some buf \<Rightarrow> slice (m_value_begin b) (m_value_end b) buf)"

definition Block_wire :: "block \<Rightarrow> byte list res" where
  "Block_wire b =
     (if Block_hasWire b then Inr (wire_bytes b)
      else Inl (BlockError ''(Block::wire) Underlying wire buffer is empty''))"

section \<open>Construction\<close>

definition Block_default :: block where
  "Block_default = Block None 0xFFFFFFFF 0 0 0 0 0 []"

definition Block_of_type :: "u32 \<Rightarrow> block" where
  "Block_of_type type = Block None type 0 0 0 0 0 []"

definition Block_of_parts :: "byte list \<Rightarrow> u32 \<Rightarrow> nat \<Rightarrow> nat \<Rightarrow> nat \<Rightarrow> nat \<Rightarrow> block" where
  "Block_of_parts wire type begin end' valueBegin valueEnd =
     Block (Some wire) type begin end' (end' - begin) valueBegin valueEnd []"

definition Block_of_range :: "byte list \<Rightarrow> nat \<Rightarrow> nat \<Rightarrow> bool \<Rightarrow> block res" where
  "Block_of_range buffer begin end' verifyLength =
     (case readType_throw (slice begin end' buffer) of
        Inl e \<Rightarrow> Inl e
      | Inr (type, r1) \<Rightarrow>
          (case readVarNumber_throw r1 of
             Inl e \<Rightarrow> Inl e
           | Inr (len, r2) \<Rightarrow>
               if verifyLength \<and> len \<noteq> word_of_nat (length r2)
               then Inl (TlvError ''TLV length doesn't match buffer length'')
               else Inr (Block (Some buffer) type begin end' (end' - begin)
                           (end' - length r2) end' [])))"

definition Block_of_buffer :: "byte list \<Rightarrow> block res" where
  "Block_of_buffer buffer =
     (case readType_throw buffer of
        Inl e \<Rightarrow> Inl e
      | Inr (type, r1) \<Rightarrow>
          (case readVarNumber_throw r1 of
             Inl e \<Rightarrow> Inl e
           | Inr (len, r2) \<Rightarrow>
               if len \<noteq> word_of_nat (length r2)
               then Inl (TlvError ''TLV length doesn't match buffer length'')
               else Inr (Block (Some buffer) type 0 (length buffer) (length buffer)
                           (length buffer - length r2) (length buffer) [])))"

definition Block_of_subrange :: "block \<Rightarrow> nat \<Rightarrow> nat \<Rightarrow> bool \<Rightarrow> block res" where
  "Block_of_subrange block begin end' verifyLength =
     (case m_buffer block of
        None \<Rightarrow> Inl (UndefinedBehaviour ''null buffer dereferenced'')
      | Some buffer \<Rightarrow>
          if \<not> begin \<le> length buffer \<or> \<not> end' \<le> length buffer
          then Inl (BlockError ''begin/end iterators do not point to the underlying buffer of the block'')
          else Block_of_range buffer begin end' verifyLength)"

definition Block_of_bytes :: "byte list \<Rightarrow> block res" where
  "Block_of_bytes buffer =
     (case readType_throw buffer of
        Inl e \<Rightarrow> Inl e
      | Inr (type, r1) \<Rightarrow>
          (case readVarNumber_throw r1 of
             Inl e \<Rightarrow> Inl e
           | Inr (len, r2) \<Rightarrow>
               if unat len > length r2
               then Inl (TlvError ''Not enough data in the buffer to fully parse TLV'')
               else let tmp = length buffer - length r2;
                        buf = take (tmp + unat len) buffer
                    in Inr (Block (Some buf) type 0 (length buf) (length buf) tmp (length buf) [])))"

definition Block_of_type_value :: "u32 \<Rightarrow> byte list \<Rightarrow> block" where
  "Block_of_type_value type value =
     Block (Some value) type (length value) (length value)
       (sizeOfVarNumber (ucast type) + sizeOfVarNumber (word_of_nat (length value)) + length value)
       0 (length value) []"

definition Block_of_type_block :: "u32 \<Rightarrow> block \<Rightarrow> block res" where
  "Block_of_type_block type value =
     (case (m_buffer value, Block_begin value, Block_end value) of
        (None, _, _) \<Rightarrow> Inl (UndefinedBehaviour ''null buffer dereferenced'')
      | (_, Inl e, _) \<Rightarrow> Inl e
      | (_, _, Inl e) \<Rightarrow> Inl e
      | (Some buf, Inr b, Inr e) \<Rightarrow>
          Inr (Block (Some buf) type (length buf) (length buf)
                 (sizeOfVarNumber (ucast type) + sizeOfVarNumber (word_of_nat (e - b)) + (e - b)) b e []))"

definition Block_fromBuffer_offset :: "byte list \<Rightarrow> nat \<Rightarrow> (bool \<times> block) res" where
  "Block_fromBuffer_offset buffer offset =
     (if offset > length buffer then Inl (UndefinedBehaviour ''iterator beyond the end of the buffer'')
      else Inr
       (case readType (drop offset buffer) of
          None \<Rightarrow> (False, Block_default)
        | Some (type, r1) \<Rightarrow>
            (case readVarNumber r1 of
               None \<Rightarrow> (False, Block_default)
             | Some (len, r2) \<Rightarrow>
                 if unat len > length r2 then (False, Block_default)
                 else let tempBegin = length buffer - length r2
                      in (True, Block_of_parts buffer type offset (tempBegin + unat len)
                                  tempBegin (tempBegin + unat len)))))"

definition Block_fromBuffer :: "byte list \<Rightarrow> bool \<times> block" where
  "Block_fromBuffer buffer =
     (case readType buffer of
        None \<Rightarrow> (False, Block_default)
      | Some (type, r1) \<Rightarrow>
          (case readVarNumber r1 of
             None \<Rightarrow> (False, Block_default)
           | Some (len, r2) \<Rightarrow>
               if unat len > length r2 then (False, Block_default)
               else let tempBegin = length buffer - length r2;
                        sharedBuffer = take (tempBegin + unat len) buffer
                    in (True, Block_of_parts sharedBuffer type 0 (length sharedBuffer)
                                tempBegin (length sharedBuffer))))"

section \<open>Wire reset, parsing and encoding\<close>

definition Block_reset :: "block \<Rightarrow> block" where
  "Block_reset b = Block None 0xFFFFFFFF 0 0 (m_size b) 0 0 []"

definition Block_resetWire :: "block \<Rightarrow> block" where
  "Block_resetWire b = Block None (m_type b) 0 0 (m_size b) 0 0 (m_subBlocks b)"

text \<open>
  \<open>parse_loop\<close> is the \<^verbatim>\<open>while (begin != end)\<close> loop of \<^verbatim>\<open>parse()\<close>; its result is the exception, if
  one leaves the loop, and the contents of \<^verbatim>\<open>m_subBlocks\<close> at that moment. Only the length check
  clears the elements found so far before it throws.
\<close>

function parse_loop :: "byte list \<Rightarrow> nat \<Rightarrow> nat \<Rightarrow> block list \<Rightarrow> error option \<times> block list" where
  "parse_loop buf begin end' subs =
     (if end' \<le> begin then (None, subs)
      else case readType_throw (slice begin end' buf) of
        Inl e \<Rightarrow> (Some e, subs)
      | Inr (type, r1) \<Rightarrow>
          (case readVarNumber_throw r1 of
             Inl e \<Rightarrow> (Some e, subs)
           | Inr (len, r2) \<Rightarrow>
               if unat len > length r2
               then (Some (TlvError ''TLV length exceeds buffer length''), [])
               else let value_begin = end' - length r2;
                        element_end = value_begin + unat len
                    in parse_loop buf element_end end'
                         (subs @ [Block_of_parts buf type begin element_end value_begin element_end])))"
  by pat_completeness auto
termination
proof (relation "measure (\<lambda>(buf, begin, end', subs). end' - begin)", goal_cases)
  case (2 buf bg en subs x t r1 y len r2 vb ee)
  then have "length r1 < length (slice bg en buf)" "length r2 < length r1"
    by (auto simp: readType_throw_Inr readVarNumber_throw_Inr dest: readType_shorter readVarNumber_shorter)
  moreover have "length (slice bg en buf) \<le> en - bg"
    by (simp add: slice_def)
  ultimately show ?case using 2 by simp
qed simp

declare parse_loop.simps [simp del]

definition Block_parse :: "block \<Rightarrow> error option \<times> block" where
  "Block_parse b =
     (if m_subBlocks b \<noteq> [] \<or> Block_value_size b = 0 then (None, b)
      else case m_buffer b of
        None \<Rightarrow> (None, b)
      | Some buf \<Rightarrow>
          (case parse_loop buf (m_value_begin b) (m_value_end b) [] of
             (err, subs) \<Rightarrow>
               (err, Block (m_buffer b) (m_type b) (m_begin b) (m_end b) (m_size b)
                       (m_value_begin b) (m_value_end b) subs)))"

fun sum_sizes :: "block list \<Rightarrow> nat res" where
  "sum_sizes [] = Inr 0"
| "sum_sizes (b # bs) =
     (case Block_size b of
        Inl e \<Rightarrow> Inl e
      | Inr n \<Rightarrow> (case sum_sizes bs of Inl e \<Rightarrow> Inl e | Inr m \<Rightarrow> Inr (n + m)))"

fun write_subBlocks :: "byte list \<Rightarrow> block list \<Rightarrow> byte list res" where
  "write_subBlocks os [] = Inr os"
| "write_subBlocks os (i # is) =
     (if Block_hasWire i then write_subBlocks (os @ take (m_size i) (wire_bytes i)) is
      else if Block_hasValue i then
        write_subBlocks
          (fst (writeVarNumber (fst (writeVarNumber os (ucast (m_type i))))
                  (word_of_nat (Block_value_size i))) @ value_bytes i) is
      else Inl (BlockError ''Underlying value buffer is empty''))"

definition Block_encode_bytes :: "block \<Rightarrow> byte list res" where
  "Block_encode_bytes b =
     (let os = fst (writeVarNumber [] (ucast (m_type b)))
      in if Block_hasValue b then
           Inr (fst (writeVarNumber os (word_of_nat (Block_value_size b))) @ value_bytes b)
         else if m_subBlocks b = [] then Inr (fst (writeVarNumber os 0))
         else case sum_sizes (m_subBlocks b) of
                Inl e \<Rightarrow> Inl e
              | Inr valueSize \<Rightarrow>
                  write_subBlocks (fst (writeVarNumber os (word_of_nat valueSize))) (m_subBlocks b))"

definition Block_encode :: "block \<Rightarrow> block res" where
  "Block_encode b =
     (if Block_hasWire b then Inr b
      else case Block_encode_bytes b of
        Inl e \<Rightarrow> Inl e
      | Inr buf \<Rightarrow>
          (case readType_throw buf of
             Inl e \<Rightarrow> Inl e
           | Inr (_, r1) \<Rightarrow>
               (case readVarNumber_throw r1 of
                  Inl e \<Rightarrow> Inl e
                | Inr (_, r2) \<Rightarrow>
                    Inr (Block (Some buf) (m_type b) 0 (length buf) (length buf)
                           (length buf - length r2) (length buf) (m_subBlocks b)))))"

definition Block_blockFromValue :: "block \<Rightarrow> block res" where
  "Block_blockFromValue b =
     (if Block_value_size b = 0 then Inl (BlockError ''Underlying value buffer is empty'')
      else case m_buffer b of
        None \<Rightarrow> Inl (BlockError ''Underlying value buffer is empty'')
      | Some buf \<Rightarrow>
          (case readType_throw (slice (m_value_begin b) (m_value_end b) buf) of
             Inl e \<Rightarrow> Inl e
           | Inr (type, r1) \<Rightarrow>
               (case readVarNumber_throw r1 of
                  Inl e \<Rightarrow> Inl e
                | Inr (len, r2) \<Rightarrow>
                    if len \<noteq> word_of_nat (length r2)
                    then Inl (TlvError ''TLV length mismatches buffer length'')
                    else Inr (Block_of_parts buf type (m_value_begin b) (m_value_end b)
                                (m_value_end b - length r2) (m_value_end b)))))"

section \<open>Sub-elements\<close>

text \<open>An element iterator is an index; \<^verbatim>\<open>elements_end()\<close> is the number of elements.\<close>

fun find_index :: "('a \<Rightarrow> bool) \<Rightarrow> 'a list \<Rightarrow> nat" where
  "find_index P [] = 0"
| "find_index P (x # xs) = (if P x then 0 else Suc (find_index P xs))"

definition Block_find :: "block \<Rightarrow> u32 \<Rightarrow> nat" where
  "Block_find b type = find_index (\<lambda>subBlock. m_type subBlock = type) (m_subBlocks b)"

definition Block_get :: "block \<Rightarrow> u32 \<Rightarrow> block res" where
  "Block_get b type =
     (let it = Block_find b type
      in if it \<noteq> length (m_subBlocks b) then Inr (m_subBlocks b ! it)
         else Inl (BlockError ''(Block::get) Requested a non-existed type from Block''))"

definition Block_with_elements :: "block \<Rightarrow> block list \<Rightarrow> block" where
  "Block_with_elements b subs = Block None (m_type b) 0 0 (m_size b) 0 0 subs"

definition Block_remove :: "block \<Rightarrow> u32 \<Rightarrow> block" where
  "Block_remove b type =
     Block_with_elements (Block_resetWire b) (filter (\<lambda>subBlock. m_type subBlock \<noteq> type) (m_subBlocks b))"

definition Block_erase :: "block \<Rightarrow> nat \<Rightarrow> block" where
  "Block_erase b position =
     Block_with_elements (Block_resetWire b)
       (take position (m_subBlocks b) @ drop (Suc position) (m_subBlocks b))"

definition Block_erase_range :: "block \<Rightarrow> nat \<Rightarrow> nat \<Rightarrow> block" where
  "Block_erase_range b i j =
     Block_with_elements (Block_resetWire b) (take i (m_subBlocks b) @ drop j (m_subBlocks b))"

definition Block_push_back :: "block \<Rightarrow> block \<Rightarrow> block" where
  "Block_push_back b element = Block_with_elements (Block_resetWire b) (m_subBlocks b @ [element])"

definition Block_insert :: "block \<Rightarrow> nat \<Rightarrow> block \<Rightarrow> block" where
  "Block_insert b pos element =
     Block_with_elements (Block_resetWire b)
       (take pos (m_subBlocks b) @ element # drop pos (m_subBlocks b))"

definition Block_equals :: "block \<Rightarrow> block \<Rightarrow> bool res" where
  "Block_equals b other =
     (case (Block_size b, Block_size other) of
        (Inl e, _) \<Rightarrow> Inl e
      | (_, Inl e) \<Rightarrow> Inl e
      | (Inr n, Inr m) \<Rightarrow>
          if n \<noteq> m then Inr False
          else case (Block_begin b, Block_end b, Block_begin other) of
                 (Inr _, Inr _, Inr _) \<Rightarrow> Inr (wire_bytes b = wire_bytes other)
               | _ \<Rightarrow> Inl (BlockError ''Underlying wire buffer is empty''))"

section \<open>Blocks as abstract TLVs\<close>

text \<open>
  An abstract TLV is a type and a value; \<open>tlv_wire\<close> is its one encoding with shortest numbers.
  \<open>block_tlv\<close> reads the TLV a block denotes. The model's lists have any length, the code's sizes
  are 64-bit: \<open>fits v\<close> says that a value's length is one.
\<close>

definition tlv_wire :: "u32 \<Rightarrow> byte list \<Rightarrow> byte list" where
  "tlv_wire type v = varNumber_bytes (ucast type) @ varNumber_bytes (word_of_nat (length v)) @ v"

definition block_tlv :: "block \<Rightarrow> u32 \<times> byte list" where
  "block_tlv b = (m_type b, value_bytes b)"

definition fits :: "byte list \<Rightarrow> bool" where
  "fits v \<longleftrightarrow> length v < 2 ^ 64"

lemma fits_Nil [simp]: "fits []"
  by (simp add: fits_def)

lemma fits_unat [simp]: "fits v \<Longrightarrow> unat (word_of_nat (length v) :: u64) = length v"
  by (simp add: fits_def unat_of_nat)

lemma tlv_wire_not_Nil [simp]: "tlv_wire t v \<noteq> []"
  by (simp add: tlv_wire_def)

lemma length_tlv_wire [size_simps]:
  "length (tlv_wire t v) = sizeOfVarNumber (ucast t) + sizeOfVarNumber (word_of_nat (length v)) + length v"
  by (simp add: tlv_wire_def size_simps)

lemma read_tlv_wire [wire_simps]:
  "readType_throw (tlv_wire t v @ rest) = Inr (t, varNumber_bytes (word_of_nat (length v)) @ v @ rest)"
  "readType (tlv_wire t v @ rest) = Some (t, varNumber_bytes (word_of_nat (length v)) @ v @ rest)"
  by (simp_all add: tlv_wire_def wire_simps)

lemma read_tlv_wire_Nil [wire_simps]:
  "readType_throw (tlv_wire t v) = Inr (t, varNumber_bytes (word_of_nat (length v)) @ v)"
  "readType (tlv_wire t v) = Some (t, varNumber_bytes (word_of_nat (length v)) @ v)"
  using read_tlv_wire [of t v "[]"] by simp_all

text \<open>A block is well formed when its ranges lie in its buffer, as every constructor makes them.\<close>

definition block_wf :: "block \<Rightarrow> bool" where
  "block_wf b \<longleftrightarrow>
     (case m_buffer b of
        None \<Rightarrow> True
      | Some buf \<Rightarrow>
          m_begin b \<le> m_end b \<and> m_end b \<le> length buf \<and>
          m_value_begin b \<le> m_value_end b \<and> m_value_end b \<le> length buf \<and>
          (m_begin b < m_end b \<longrightarrow>
             m_size b = m_end b - m_begin b \<and> m_begin b < m_value_begin b \<and> m_value_end b \<le> m_end b) \<and>
          (m_begin b = m_end b \<longrightarrow> m_size b =
             sizeOfVarNumber (ucast (m_type b)) +
             sizeOfVarNumber (word_of_nat (m_value_end b - m_value_begin b)) +
             (m_value_end b - m_value_begin b)))"

lemma readVarNumber_drop: "readVarNumber buf = Some (n, r) \<Longrightarrow> \<exists>k. 0 < k \<and> k \<le> length buf \<and> r = drop k buf"
  by (rule exI [of _ "length buf - length r"])
    (use readVarNumber_shorter [of buf n r] readVarNumber_suffix [of buf n r] in auto)

lemma readType_drop: "readType buf = Some (t, r) \<Longrightarrow> \<exists>k. 0 < k \<and> k \<le> length buf \<and> r = drop k buf"
  by (auto simp: readType_Some dest: readVarNumber_drop)

text \<open>The header of an element, a type and a length, takes at least two bytes.\<close>

lemma read_header_drop:
  assumes "readType buf = Some (t, r1)" and "readVarNumber r1 = Some (len, r2)"
  shows "\<exists>k. 1 < k \<and> k \<le> length buf \<and> r2 = drop k buf"
proof -
  from assms(1) obtain i where i: "0 < i" "i \<le> length buf" "r1 = drop i buf"
    by (auto dest: readType_drop)
  moreover from assms(2) obtain j where "0 < j" "j \<le> length r1" "r2 = drop j r1"
    by (auto dest: readVarNumber_drop)
  ultimately show ?thesis by (intro exI [of _ "i + j"]) (auto simp: add.commute)
qed

lemma Block_of_bytes_wf: "Block_of_bytes buf = Inr b \<Longrightarrow> block_wf b \<and> m_subBlocks b = []"
  by (auto simp: Block_of_bytes_def block_wf_def readType_throw_Inr readVarNumber_throw_Inr Let_def not_less
      split: sum.splits if_splits prod.splits dest!: read_header_drop)

lemma Block_of_type_value_wf: "block_wf (Block_of_type_value t v)"
  by (simp add: Block_of_type_value_def block_wf_def)

lemma Block_of_range_wf:
  "begin < end' \<Longrightarrow> end' \<le> length buf \<Longrightarrow> Block_of_range buf begin end' v = Inr b \<Longrightarrow> block_wf b"
  by (auto simp: Block_of_range_def block_wf_def readType_throw_Inr readVarNumber_throw_Inr
      split: sum.splits if_splits prod.splits dest!: read_header_drop)

lemma Block_fromBuffer_wf: "Block_fromBuffer buf = (True, b) \<Longrightarrow> block_wf b"
  by (auto simp: Block_fromBuffer_def Block_of_parts_def block_wf_def Let_def not_less
      split: option.splits if_splits prod.splits dest!: read_header_drop)

text \<open>Decoding a TLV from the front of any buffer gives back its type and value.\<close>

lemma Block_of_bytes_tlv_wire:
  assumes "fits v"
  shows "\<exists>b. Block_of_bytes (tlv_wire t v @ rest) = Inr b \<and> block_tlv b = (t, v) \<and> wire_bytes b = tlv_wire t v"
  using assms
  by (simp add: Block_of_bytes_def wire_simps Let_def block_tlv_def value_bytes_def wire_bytes_def
      slice_def size_simps) (simp add: tlv_wire_def size_simps)

lemma Block_fromBuffer_tlv_wire:
  assumes "fits v"
  shows "\<exists>b. Block_fromBuffer (tlv_wire t v @ rest) = (True, b) \<and> block_tlv b = (t, v) \<and> wire_bytes b = tlv_wire t v"
  using assms
  by (simp add: Block_fromBuffer_def Block_of_parts_def wire_simps Let_def block_tlv_def value_bytes_def wire_bytes_def
      slice_def size_simps) (simp add: tlv_wire_def size_simps)

section \<open>Parsing and encoding the elements\<close>

definition tlvs_wire :: "(u32 \<times> byte list) list \<Rightarrow> byte list" where
  "tlvs_wire es = concat (map (\<lambda>(t, v). tlv_wire t v) es)"

lemma tlvs_wire_simps [simp]:
  "tlvs_wire [] = []" "tlvs_wire ((t, v) # es) = tlv_wire t v @ tlvs_wire es"
  "tlvs_wire (es @ es') = tlvs_wire es @ tlvs_wire es'"
  by (simp_all add: tlvs_wire_def)

lemma tlvs_wire_eq_Nil [simp]: "tlvs_wire es = [] \<longleftrightarrow> es = []"
  by (cases es) auto

lemma slice_mid: "slice (length xs) (length xs + (length ys + length zs)) (xs @ ys @ zs @ us) = ys @ zs"
  by (simp add: slice_def)

lemma parse_loop_step:
  assumes "slice bg en buf = tlv_wire t v @ rest" and "fits v" and "bg < en" and "en \<le> length buf"
  shows "parse_loop buf bg en subs =
    parse_loop buf (en - length rest) en
      (subs @ [Block_of_parts buf t bg (en - length rest) (en - length rest - length v) (en - length rest)])"
proof -
  have "en - bg = length (tlv_wire t v @ rest)"
    using assms(1) length_slice [OF assms(4), of bg] by simp
  then have "length v + length rest \<le> en" by (simp add: length_tlv_wire)
  then have "en - length (v @ rest) = en - length rest - length v" "en - length rest - length v + length v = en - length rest"
    by simp_all
  with assms show ?thesis by (subst parse_loop.simps) (simp add: wire_simps Let_def)
qed

lemma parse_loop_tlvs:
  assumes "\<forall>(t, v) \<in> set es. fits v"
  shows "\<exists>new. parse_loop (pre @ tlvs_wire es @ post) (length pre) (length pre + length (tlvs_wire es)) subs
           = (None, subs @ new) \<and> map block_tlv new = es \<and> map wire_bytes new = map (\<lambda>(t, v). tlv_wire t v) es
           \<and> (\<forall>b \<in> set new. block_wf b \<and> Block_hasWire b \<and> m_subBlocks b = [])"
  using assms
proof (induction es arbitrary: pre subs)
  case Nil
  then show ?case by (simp add: parse_loop.simps)
next
  case (Cons e es)
  obtain t v where e: "e = (t, v)" by (cases e)
  with Cons.prems have v: "fits v" by simp
  let ?buf = "pre @ tlv_wire t v @ tlvs_wire es @ post"
  let ?ee = "length (pre @ tlv_wire t v)" and ?en = "length pre + length (tlvs_wire (e # es))"
  let ?b = "Block_of_parts ?buf t (length pre) ?ee (?ee - length v) ?ee"
  from Cons.IH [of "pre @ tlv_wire t v" "subs @ [?b]"] Cons.prems obtain new where new:
    "parse_loop ?buf ?ee ?en (subs @ [?b]) = (None, subs @ ?b # new)"
    "map block_tlv new = es" "map wire_bytes new = map (\<lambda>(t, v). tlv_wire t v) es"
    "\<forall>b \<in> set new. block_wf b \<and> Block_hasWire b \<and> m_subBlocks b = []"
    by (auto simp: e add.assoc)
  have "parse_loop ?buf (length pre) ?en subs = parse_loop ?buf ?ee ?en (subs @ [?b])"
    using v parse_loop_step [of "length pre" ?en ?buf t v "tlvs_wire es" subs]
    by (simp add: e slice_mid)
  moreover have "value_bytes ?b = v" "wire_bytes ?b = tlv_wire t v"
    by (simp_all add: value_bytes_def wire_bytes_def Block_of_parts_def slice_def) (simp add: tlv_wire_def)
  moreover have "length v < length (tlv_wire t v)"
    by (simp add: length_tlv_wire sizeOfVarNumber_def)
  ultimately show ?case
    using new e by (intro exI [of _ "?b # new"])
      (auto simp: block_tlv_def Block_of_parts_def block_wf_def Block_hasWire_def)
qed

text \<open>Conversely the elements a successful parse leaves tile the range that was parsed.\<close>

lemma parse_loop_tiles:
  assumes "parse_loop buf bg en subs = (None, subs')" and "bg \<le> en" and "en \<le> length buf"
  shows "\<exists>new. subs' = subs @ new \<and> concat (map wire_bytes new) = slice bg en buf \<and> (\<forall>b \<in> set new. block_wf b \<and> m_subBlocks b = [])"
  using assms
proof (induction buf bg en subs rule: parse_loop.induct)
  case (1 buf bg en subs)
  show ?case
  proof (cases "en \<le> bg")
    case True
    with "1.prems" show ?thesis by (simp add: parse_loop.simps)
  next
    case False
    with "1.prems"(1) obtain t r1 len r2 where rd:
      "readType_throw (slice bg en buf) = Inr (t, r1)" "readVarNumber_throw r1 = Inr (len, r2)"
      "unat len \<le> length r2"
      by (subst (asm) parse_loop.simps) (auto split: sum.splits if_splits)
    then obtain k where k: "1 < k" "k \<le> en - bg" "r2 = drop k (slice bg en buf)"
      using "1.prems"(3) read_header_drop [of "slice bg en buf" t r1 len r2]
      by (auto simp: readType_throw_Inr readVarNumber_throw_Inr)
    let ?vb = "en - length r2"
    let ?ee = "?vb + unat len"
    let ?b = "Block_of_parts buf t bg ?ee ?vb ?ee"
    have vb: "?vb = bg + k" and ee: "bg \<le> ?ee" "?ee \<le> en"
      using k rd(3) "1.prems"(3) False by auto
    have "parse_loop buf ?ee en (subs @ [?b]) = (None, subs')"
      using "1.prems"(1) rd False by (subst (asm) parse_loop.simps) (simp add: Let_def)
    from "1.IH" [OF False rd(1) refl rd(2) refl _ refl refl this ee(2) "1.prems"(3)] rd(3)
    obtain new where new: "subs' = subs @ ?b # new" "concat (map wire_bytes new) = slice ?ee en buf"
      "\<forall>b \<in> set new. block_wf b \<and> m_subBlocks b = []" by auto
    have "wire_bytes ?b = slice bg ?ee buf" by (simp add: wire_bytes_def Block_of_parts_def)
    moreover have "block_wf ?b \<and> m_subBlocks ?b = []"
      using vb ee k "1.prems"(3) by (auto simp: block_wf_def Block_of_parts_def)
    ultimately show ?thesis
      using new slice_split [OF ee "1.prems"(3)] by (intro exI [of _ "?b # new"]) simp
  qed
qed

text \<open>The bytes an element contributes to its parent.\<close>

definition element_bytes :: "block \<Rightarrow> byte list" where
  "element_bytes i = (if Block_hasWire i then wire_bytes i else tlv_wire (m_type i) (value_bytes i))"

lemma wf_value_size: "block_wf b \<Longrightarrow> Block_value_size b = length (value_bytes b)"
  by (auto simp: block_wf_def Block_value_size_def Block_hasValue_def value_bytes_def split: option.splits)

lemma wf_wire_size: "block_wf b \<Longrightarrow> Block_hasWire b \<Longrightarrow> m_size b = length (wire_bytes b)"
  by (auto simp: block_wf_def Block_hasWire_def wire_bytes_def)

lemma wf_element_size:
  assumes "block_wf i" and "Block_hasValue i"
  shows "Block_size i = Inr (length (element_bytes i))"
proof (cases "Block_hasWire i")
  case True
  with assms show ?thesis by (simp add: Block_size_def element_bytes_def wf_wire_size)
next
  case False
  with assms show ?thesis
    by (auto simp: Block_size_def element_bytes_def Block_hasWire_def Block_hasValue_def block_wf_def length_tlv_wire value_bytes_def)
qed

lemma sum_sizes_elements:
  "\<forall>i \<in> set is. block_wf i \<and> Block_hasValue i \<Longrightarrow> sum_sizes is = Inr (length (concat (map element_bytes is)))"
  by (induction "is") (simp_all add: wf_element_size)

lemma write_subBlocks_elements:
  "\<forall>i \<in> set is. block_wf i \<and> Block_hasValue i \<Longrightarrow> write_subBlocks os is = Inr (os @ concat (map element_bytes is))"
proof (induction "is" arbitrary: os)
  case (Cons i "is")
  then show ?case
    by (simp add: element_bytes_def wf_wire_size wf_value_size wire_simps tlv_wire_def)
qed simp

lemma Block_encode_bytes_value:
  "block_wf b \<Longrightarrow> Block_hasValue b \<Longrightarrow> Block_encode_bytes b = Inr (tlv_wire (m_type b) (value_bytes b))"
  by (simp add: Block_encode_bytes_def wire_simps wf_value_size tlv_wire_def)

lemma Block_encode_bytes_elements:
  assumes "\<not> Block_hasValue b" and "\<forall>i \<in> set (m_subBlocks b). block_wf i \<and> Block_hasValue i"
  shows "Block_encode_bytes b = Inr (tlv_wire (m_type b) (concat (map element_bytes (m_subBlocks b))))"
  using assms
  by (simp add: Block_encode_bytes_def Let_def wire_simps sum_sizes_elements write_subBlocks_elements tlv_wire_def)

lemma Block_encode_wire:
  assumes "\<not> Block_hasWire b" and "Block_encode_bytes b = Inr (tlv_wire (m_type b) v)"
  shows "\<exists>b'. Block_encode b = Inr b' \<and> block_tlv b' = (m_type b, v) \<and> wire_bytes b' = tlv_wire (m_type b) v
           \<and> m_subBlocks b' = m_subBlocks b"
  using assms
  by (simp add: Block_encode_def wire_simps block_tlv_def value_bytes_def wire_bytes_def slice_def)
    (simp add: tlv_wire_def)

text \<open>Parsing a block whose value is a known sequence of TLVs.\<close>

lemma Block_parse_tlvs:
  assumes "\<forall>(t, v) \<in> set es. fits v" and "m_buffer b = Some buf" and "m_subBlocks b = []"
    and "m_value_end b \<le> length buf" and "m_value_begin b \<le> m_value_end b" and "value_bytes b = tlvs_wire es"
  shows "\<exists>b'. Block_parse b = (None, b') \<and> map block_tlv (m_subBlocks b') = es
           \<and> map wire_bytes (m_subBlocks b') = map (\<lambda>(t, v). tlv_wire t v) es \<and> block_tlv b' = block_tlv b"
proof (cases "es = []")
  case True
  with assms have "Block_value_size b = 0"
    by (auto simp: Block_value_size_def value_bytes_def slice_def)
  with True assms(3) show ?thesis by (simp add: Block_parse_def)
next
  case False
  let ?pre = "take (m_value_begin b) buf" and ?post = "drop (m_value_end b) buf"
  have split: "buf = ?pre @ tlvs_wire es @ ?post"
    using slice_split [of 0 "m_value_begin b" "m_value_end b" buf] assms
    by (simp add: value_bytes_def) (metis append.assoc append_take_drop_id)
  have len: "length ?pre = m_value_begin b" "length ?pre + length (tlvs_wire es) = m_value_end b"
    using assms by (auto simp: value_bytes_def dest: arg_cong [of _ _ length])
  moreover have "length (tlvs_wire es) \<noteq> 0" using False by simp
  ultimately have "m_value_begin b < m_value_end b" by linarith
  then have "Block_value_size b \<noteq> 0"
    using assms(2) by (simp add: Block_value_size_def Block_hasValue_def)
  with parse_loop_tlvs [OF assms(1), of ?pre ?post "[]"] assms(2,3) len split show ?thesis
    by (auto simp: Block_parse_def block_tlv_def value_bytes_def)
qed

text \<open>
  A block as a decoder receives it: it owns a buffer and has not been parsed. Parsing one whose
  value is a sequence of TLVs gives blocks of the same kind as elements.
\<close>

definition fresh_block :: "block \<Rightarrow> bool" where
  "fresh_block b \<longleftrightarrow> block_wf b \<and> m_subBlocks b = [] \<and> m_buffer b \<noteq> None"

lemma parse_loop_buffers:
  "parse_loop buf bg en subs = (err, subs') \<Longrightarrow> \<forall>b \<in> set subs. m_buffer b = Some buf \<Longrightarrow> \<forall>b \<in> set subs'. m_buffer b = Some buf"
proof (induction buf bg en subs rule: parse_loop.induct)
  case (1 buf bg en subs)
  from "1.prems"(1) show ?case
    using "1.prems"(2) "1.IH" [OF _ _ refl _ refl _ refl refl]
    by (subst (asm) parse_loop.simps) (auto simp: Let_def Block_of_parts_def split: if_splits sum.splits)
qed

lemma Block_parse_fresh:
  assumes "fresh_block b" and "value_bytes b = tlvs_wire es" and "\<forall>(t, v) \<in> set es. fits v"
  shows "\<exists>b'. Block_parse b = (None, b') \<and> map block_tlv (m_subBlocks b') = es \<and> block_tlv b' = block_tlv b
     \<and> wire_bytes b' = wire_bytes b \<and> (\<forall>i \<in> set (m_subBlocks b'). fresh_block i)"
proof -
  obtain buf where b: "m_buffer b = Some buf" "m_subBlocks b = []" "m_value_begin b \<le> m_value_end b" "m_value_end b \<le> length buf"
    using assms(1) by (auto simp: fresh_block_def block_wf_def)
  obtain b' where p: "Block_parse b = (None, b')" "map block_tlv (m_subBlocks b') = es" "block_tlv b' = block_tlv b"
    using Block_parse_tlvs [OF assms(3) b(1,2,4,3) assms(2)] by blast
  have w: "wire_bytes b' = wire_bytes b"
    using p(1) by (auto simp: Block_parse_def wire_bytes_def split: if_splits option.splits prod.splits)
  have "\<forall>i \<in> set (m_subBlocks b'). fresh_block i"
  proof (cases "Block_value_size b = 0")
    case True
    then show ?thesis using p(1) b(2) by (simp add: Block_parse_def)
  next
    case False
    then obtain subs where "parse_loop buf (m_value_begin b) (m_value_end b) [] = (None, subs)" "m_subBlocks b' = subs"
      using p(1) b(1,2) by (auto simp: Block_parse_def split: prod.splits)
    then show ?thesis using parse_loop_tiles [of buf "m_value_begin b" "m_value_end b" "[]" subs] b(3,4)
      parse_loop_buffers [of buf "m_value_begin b" "m_value_end b" "[]" None subs]
      by (auto simp: fresh_block_def)
  qed
  with p w show ?thesis by blast
qed

lemma Block_of_bytes_fresh: "Block_of_bytes bs = Inr b \<Longrightarrow> fresh_block b"
  using Block_of_bytes_wf [of bs b] by (auto simp: fresh_block_def Block_of_bytes_def Let_def split: sum.splits if_splits)

text \<open>\<^verbatim>\<open>find(type)\<close> followed by the test for \<^verbatim>\<open>elements_end()\<close>, and what it yields on known elements.\<close>

definition find_element :: "block \<Rightarrow> u32 \<Rightarrow> block option" where
  "find_element b type =
     (if Block_find b type \<noteq> length (m_subBlocks b) then Some (m_subBlocks b ! Block_find b type) else None)"

lemma find_element_find: "find_element b type = List.find (\<lambda>i. m_type i = type) (m_subBlocks b)"
proof -
  have "(if find_index P xs \<noteq> length xs then Some (xs ! find_index P xs) else None) = List.find P xs" for P and xs :: "block list"
    by (induction xs) auto
  then show ?thesis unfolding find_element_def Block_find_def .
qed

lemma find_element_tlvs:
  assumes "map block_tlv (m_subBlocks b) = es" and "\<forall>i \<in> set (m_subBlocks b). fresh_block i"
  shows "case map_of es t of
     None \<Rightarrow> find_element b t = None
   | Some v \<Rightarrow> \<exists>i. find_element b t = Some i \<and> fresh_block i \<and> block_tlv i = (t, v)"
proof -
  have "case map_of (map block_tlv is) t of
     None \<Rightarrow> List.find (\<lambda>i. m_type i = t) is = None
   | Some v \<Rightarrow> \<exists>i \<in> set is. List.find (\<lambda>i. m_type i = t) is = Some i \<and> block_tlv i = (t, v)" for "is"
    by (induction "is") (auto simp: block_tlv_def split: option.splits)
  from this [of "m_subBlocks b"] show ?thesis
    using assms by (auto simp: find_element_find split: option.splits)
qed

lemma find_element_None: "map block_tlv (m_subBlocks b) = es \<Longrightarrow> \<forall>i \<in> set (m_subBlocks b). fresh_block i \<Longrightarrow>
    map_of es t = None \<Longrightarrow> find_element b t = None"
  using find_element_tlvs [of b es t] by simp

lemma find_element_Some: "map block_tlv (m_subBlocks b) = es \<Longrightarrow> \<forall>i \<in> set (m_subBlocks b). fresh_block i \<Longrightarrow>
    map_of es t = Some v \<Longrightarrow> \<exists>i. find_element b t = Some i \<and> fresh_block i \<and> block_tlv i = (t, v)"
  using find_element_tlvs [of b es t] by simp

section \<open>Properties\<close>

text \<open>
  C34: \<^verbatim>\<open>parse()\<close> of a block whose value is a sequence of TLVs finds exactly those elements, in order,
  with their types, values and wire bytes, and raises nothing.
\<close>

theorem Block_parse_elements:
  assumes "\<forall>(t, v) \<in> set es. fits v" and "m_buffer b = Some buf" and "m_subBlocks b = []"
    and "m_value_end b \<le> length buf" and "m_value_begin b \<le> m_value_end b" and "value_bytes b = tlvs_wire es"
  shows "\<exists>b'. Block_parse b = (None, b') \<and> map block_tlv (m_subBlocks b') = es
           \<and> map wire_bytes (m_subBlocks b') = map (\<lambda>(t, v). tlv_wire t v) es \<and> block_tlv b' = block_tlv b"
  using assms by (rule Block_parse_tlvs)

theorem Block_parse_elements_witness:
  "\<exists>b'. Block_parse (Block_of_type_value 7 (tlvs_wire [(8, [97]), (8, [])])) = (None, b')
     \<and> map block_tlv (m_subBlocks b') = [(8, [97]), (8, [])]"
  using Block_parse_elements [of "[(8, [97]), (8, [])]"
      "Block_of_type_value 7 (tlvs_wire [(8, [97]), (8, [])])" "tlvs_wire [(8, [97]), (8, [])]"]
  by (auto simp: fits_def Block_of_type_value_def value_bytes_def)

text \<open>
  A block that has only elements (no buffer of its own) encodes to the TLV of its type around
  the encodings of its elements; parsing that wire again gives back the same element types and
  values. Elements are blocks that own a buffer, with or without a wire.
\<close>

theorem Block_encode_then_parse:
  assumes "m_buffer b = None" and "\<forall>i \<in> set (m_subBlocks b). block_wf i \<and> Block_hasValue i \<and> fits (value_bytes i)"
    and "\<forall>i \<in> set (m_subBlocks b). Block_hasWire i \<longrightarrow> wire_bytes i = tlv_wire (m_type i) (value_bytes i)"
    and "fits (concat (map element_bytes (m_subBlocks b)))"
  shows "\<exists>b' b''. Block_encode b = Inr b' \<and> wire_bytes b' = tlv_wire (m_type b) (tlvs_wire (map block_tlv (m_subBlocks b)))
     \<and> Block_of_bytes (wire_bytes b') = Inr b'' \<and> m_type b'' = m_type b
     \<and> (\<exists>p. Block_parse b'' = (None, p) \<and> map block_tlv (m_subBlocks p) = map block_tlv (m_subBlocks b))"
proof -
  let ?es = "map block_tlv (m_subBlocks b)"
  have "map element_bytes (m_subBlocks b) = map (\<lambda>(t, v). tlv_wire t v) ?es"
    using assms(3) by (simp add: element_bytes_def block_tlv_def)
  then have v: "concat (map element_bytes (m_subBlocks b)) = tlvs_wire ?es"
    by (simp only: tlvs_wire_def)
  have "\<not> Block_hasValue b" "\<not> Block_hasWire b" using assms(1) by (simp_all add: Block_hasValue_def Block_hasWire_def)
  then obtain b' where b': "Block_encode b = Inr b'" "wire_bytes b' = tlv_wire (m_type b) (tlvs_wire ?es)"
    using assms(2) Block_encode_wire [of b "tlvs_wire ?es"] Block_encode_bytes_elements [of b] v by auto
  obtain b'' where b'': "Block_of_bytes (wire_bytes b') = Inr b''" "block_tlv b'' = (m_type b, tlvs_wire ?es)"
    using Block_of_bytes_tlv_wire [of "tlvs_wire ?es" "m_type b" "[]"] assms(4) v b'(2) by auto
  have wf: "block_wf b''" "m_subBlocks b'' = []" using Block_of_bytes_wf [OF b''(1)] by simp_all
  obtain buf where "m_buffer b'' = Some buf"
    using b''(1) by (auto simp: Block_of_bytes_def Let_def split: sum.splits if_splits)
  with wf b''(2) assms(2) obtain p where "Block_parse b'' = (None, p)" "map block_tlv (m_subBlocks p) = ?es"
    using Block_parse_tlvs [of ?es b'' buf] by (auto simp: block_wf_def block_tlv_def)
  with b' b'' show ?thesis by (auto simp: block_tlv_def)
qed

theorem Block_encode_then_parse_witness:
  "\<exists>b' b''. Block_encode (Block_push_back (Block_of_type 7) (Block_of_type_value 8 [97])) = Inr b'
     \<and> wire_bytes b' = tlv_wire 7 (tlvs_wire [(8, [97])]) \<and> Block_of_bytes (wire_bytes b') = Inr b'' \<and> m_type b'' = 7
     \<and> (\<exists>p. Block_parse b'' = (None, p) \<and> map block_tlv (m_subBlocks p) = [(8, [97])])"
  using Block_encode_then_parse [of "Block_push_back (Block_of_type 7) (Block_of_type_value 8 [97])"]
  by (simp add: Block_push_back_def Block_of_type_def Block_with_elements_def Block_resetWire_def Block_of_type_value_wf)
    (simp add: Block_of_type_value_def Block_hasValue_def Block_hasWire_def value_bytes_def fits_def block_tlv_def
      element_bytes_def size_simps tlv_wire_def sizeOfVarNumber_def)

text \<open>
  An element whose header cannot be read makes \<^verbatim>\<open>parse()\<close> throw but leaves the elements found
  before it in the block: only the check on the length clears them. Calling \<^verbatim>\<open>parse()\<close> again then
  returns normally with the truncated list, here for the value \<open>08 00 fd\<close>, one empty component
  followed by an incomplete type code.
\<close>

theorem Block_parse_leaves_elements_on_error:
  "\<exists>e b'. Block_parse (Block_of_type_value 7 [8, 0, 253]) = (Some e, b') \<and> map block_tlv (m_subBlocks b') = [(8, [])]
     \<and> Block_parse b' = (None, b')"
proof -
  have "parse_loop [8, 0, 253] 0 (Suc (Suc (Suc 0))) [] =
      (Some (TlvError ''Insufficient data during TLV processing''), [Block_of_parts [8, 0, 253] 8 0 (Suc (Suc 0)) (Suc (Suc 0)) (Suc (Suc 0))])"
    by (simp add: parse_loop.simps slice_def readType_throw_def readVarNumber_throw_def readVarNumber_def Let_def)
  then have "Block_parse (Block_of_type_value 7 [8, 0, 253]) =
      (Some (TlvError ''Insufficient data during TLV processing''),
       Block (Some [8, 0, 253]) 7 3 3 5 0 3 [Block_of_parts [8, 0, 253] 8 0 (Suc (Suc 0)) (Suc (Suc 0)) (Suc (Suc 0))])"
    by (simp add: Block_parse_def Block_of_type_value_def Block_value_size_def Block_hasValue_def sizeOfVarNumber_def)
  then show ?thesis
    by (simp add: Block_parse_def Block_of_parts_def block_tlv_def value_bytes_def)
qed

end
