(* ===== verification/Encoding.thy ===== *)
theory Encoding
  imports Block
begin

text \<open>
  The wire encoders of \<^verbatim>\<open>ndn-cxx/src/encoding\<close>: \<^verbatim>\<open>Encoder\<close> (\<^verbatim>\<open>encoder.cpp\<close>) writes into a growing
  buffer from the back to the front, \<^verbatim>\<open>Estimator\<close> (\<^verbatim>\<open>estimator.cpp\<close>) only counts, and the block
  helpers (\<^verbatim>\<open>block-helpers.cpp\<close>) build small elements with either of them.

  An operation is a state transformer that returns the number of bytes it added. Every
  \<^verbatim>\<open>wireEncode\<close> template of the library takes an \<^verbatim>\<open>EncodingImpl<TAG>\<close>; here it takes the record
  \<open>encoding_ops\<close> of the operations the template calls, of which \<open>encoder_ops\<close> and \<open>estimator_ops\<close>
  are the two instances. The locale \<open>encoding_impl\<close> is what a template may rely on; its lemmas are
  proved once and hold of both instances.
\<close>

section \<open>Encoder\<close>

record encoder =
  enc_buffer :: "byte list"
  enc_begin :: nat
  enc_end :: nat

definition Encoder_new :: "nat \<Rightarrow> nat \<Rightarrow> encoder" where
  "Encoder_new totalReserve reserveFromBack =
     (let p = totalReserve - (if reserveFromBack < totalReserve then reserveFromBack else 0)
      in \<lparr>enc_buffer = replicate totalReserve 0, enc_begin = p, enc_end = p\<rparr>)"

definition Encoder_reserve :: "nat \<Rightarrow> bool \<Rightarrow> encoder \<Rightarrow> encoder" where
  "Encoder_reserve sz addInFront s =
     (let old = length (enc_buffer s);
          sz' = (if sz < old then old else sz);
          fresh = replicate (sz' - old) 0
      in if addInFront then
           let diffEnd = old - enc_end s; diffBegin = old - enc_begin s
           in \<lparr>enc_buffer = fresh @ enc_buffer s, enc_begin = sz' - diffBegin, enc_end = sz' - diffEnd\<rparr>
         else
           let diffEnd = enc_end s; diffBegin = enc_begin s
           in \<lparr>enc_buffer = enc_buffer s @ fresh, enc_begin = diffBegin, enc_end = diffEnd\<rparr>)"

definition Encoder_reserveBack :: "nat \<Rightarrow> encoder \<Rightarrow> encoder" where
  "Encoder_reserveBack sz s =
     (if enc_end s + sz > length (enc_buffer s)
      then Encoder_reserve (length (enc_buffer s) * 2 + sz) False s else s)"

definition Encoder_reserveFront :: "nat \<Rightarrow> encoder \<Rightarrow> encoder" where
  "Encoder_reserveFront sz s =
     (if sz > enc_begin s
      then Encoder_reserve (length (enc_buffer s) * 2 + sz) True s else s)"

text \<open>\<^verbatim>\<open>std::copy\<close> of bytes into the buffer at a position.\<close>

definition write_at :: "nat \<Rightarrow> 'a list \<Rightarrow> 'a list \<Rightarrow> 'a list" where
  "write_at pos xs buf = take pos buf @ xs @ drop (pos + length xs) buf"

definition Encoder_prependByteArray :: "byte list \<Rightarrow> (encoder, nat) state" where
  "Encoder_prependByteArray array = State (\<lambda>s.
     let s1 = Encoder_reserveFront (length array) s;
         b = enc_begin s1 - length array
     in (length array, s1\<lparr>enc_begin := b, enc_buffer := write_at b array (enc_buffer s1)\<rparr>))"

definition Encoder_appendByteArray :: "byte list \<Rightarrow> (encoder, nat) state" where
  "Encoder_appendByteArray array = State (\<lambda>s.
     let s1 = Encoder_reserveBack (length array) s
     in (length array, s1\<lparr>enc_buffer := write_at (enc_end s1) array (enc_buffer s1),
                         enc_end := enc_end s1 + length array\<rparr>))"

definition Encoder_prependByte :: "byte \<Rightarrow> (encoder, nat) state" where
  "Encoder_prependByte value = State (\<lambda>s.
     let s1 = Encoder_reserveFront 1 s;
         b = enc_begin s1 - 1
     in (1, s1\<lparr>enc_begin := b, enc_buffer := (enc_buffer s1)[b := value]\<rparr>))"

definition Encoder_appendByte :: "byte \<Rightarrow> (encoder, nat) state" where
  "Encoder_appendByte value = State (\<lambda>s.
     let s1 = Encoder_reserveBack 1 s
     in (1, s1\<lparr>enc_buffer := (enc_buffer s1)[enc_end s1 := value], enc_end := enc_end s1 + 1\<rparr>))"

definition Encoder_prependVarNumber :: "u64 \<Rightarrow> (encoder, nat) state" where
  "Encoder_prependVarNumber varNumber =
     (if varNumber < 253 then do {
        _ \<leftarrow> Encoder_prependByte (ucast varNumber);
        State_Monad.return 1
      } else if varNumber \<le> 0xFFFF then do {
        _ \<leftarrow> Encoder_prependByteArray (be_bytes 2 (unat varNumber));
        _ \<leftarrow> Encoder_prependByte 253;
        State_Monad.return 3
      } else if varNumber \<le> 0xFFFFFFFF then do {
        _ \<leftarrow> Encoder_prependByteArray (be_bytes 4 (unat varNumber));
        _ \<leftarrow> Encoder_prependByte 254;
        State_Monad.return 5
      } else do {
        _ \<leftarrow> Encoder_prependByteArray (be_bytes 8 (unat varNumber));
        _ \<leftarrow> Encoder_prependByte 255;
        State_Monad.return 9
      })"

definition Encoder_appendVarNumber :: "u64 \<Rightarrow> (encoder, nat) state" where
  "Encoder_appendVarNumber varNumber =
     (if varNumber < 253 then do {
        _ \<leftarrow> Encoder_appendByte (ucast varNumber);
        State_Monad.return 1
      } else if varNumber \<le> 0xFFFF then do {
        _ \<leftarrow> Encoder_appendByte 253;
        _ \<leftarrow> Encoder_appendByteArray (be_bytes 2 (unat varNumber));
        State_Monad.return 3
      } else if varNumber \<le> 0xFFFFFFFF then do {
        _ \<leftarrow> Encoder_appendByte 254;
        _ \<leftarrow> Encoder_appendByteArray (be_bytes 4 (unat varNumber));
        State_Monad.return 5
      } else do {
        _ \<leftarrow> Encoder_appendByte 255;
        _ \<leftarrow> Encoder_appendByteArray (be_bytes 8 (unat varNumber));
        State_Monad.return 9
      })"

definition Encoder_prependNonNegativeInteger :: "u64 \<Rightarrow> (encoder, nat) state" where
  "Encoder_prependNonNegativeInteger varNumber =
     (if varNumber \<le> 0xFF then Encoder_prependByte (ucast varNumber)
      else if varNumber \<le> 0xFFFF then Encoder_prependByteArray (be_bytes 2 (unat varNumber))
      else if varNumber \<le> 0xFFFFFFFF then Encoder_prependByteArray (be_bytes 4 (unat varNumber))
      else Encoder_prependByteArray (be_bytes 8 (unat varNumber)))"

definition Encoder_appendNonNegativeInteger :: "u64 \<Rightarrow> (encoder, nat) state" where
  "Encoder_appendNonNegativeInteger varNumber =
     (if varNumber \<le> 0xFF then Encoder_appendByte (ucast varNumber)
      else if varNumber \<le> 0xFFFF then Encoder_appendByteArray (be_bytes 2 (unat varNumber))
      else if varNumber \<le> 0xFFFFFFFF then Encoder_appendByteArray (be_bytes 4 (unat varNumber))
      else Encoder_appendByteArray (be_bytes 8 (unat varNumber)))"

definition Encoder_prependByteArrayBlock :: "u32 \<Rightarrow> byte list \<Rightarrow> (encoder, nat) state" where
  "Encoder_prependByteArrayBlock type array = do {
     totalLength \<leftarrow> Encoder_prependByteArray array;
     n \<leftarrow> Encoder_prependVarNumber (word_of_nat (length array));
     m \<leftarrow> Encoder_prependVarNumber (ucast type);
     State_Monad.return (totalLength + n + m)
   }"

definition Encoder_appendByteArrayBlock :: "u32 \<Rightarrow> byte list \<Rightarrow> (encoder, nat) state" where
  "Encoder_appendByteArrayBlock type array = do {
     totalLength \<leftarrow> Encoder_appendVarNumber (ucast type);
     n \<leftarrow> Encoder_appendVarNumber (word_of_nat (length array));
     m \<leftarrow> Encoder_appendByteArray array;
     State_Monad.return (totalLength + n + m)
   }"

definition Encoder_prependBlock :: "block \<Rightarrow> (encoder, nat) state" where
  "Encoder_prependBlock b =
     (if Block_hasWire b then Encoder_prependByteArray (take (m_size b) (wire_bytes b))
      else Encoder_prependByteArrayBlock (m_type b) (value_bytes b))"

definition Encoder_appendBlock :: "block \<Rightarrow> (encoder, nat) state" where
  "Encoder_appendBlock b =
     (if Block_hasWire b then Encoder_appendByteArray (take (m_size b) (wire_bytes b))
      else Encoder_appendByteArrayBlock (m_type b) (value_bytes b))"

definition Encoder_block :: "encoder \<Rightarrow> bool \<Rightarrow> block res" where
  "Encoder_block s verifyLength = Block_of_range (enc_buffer s) (enc_begin s) (enc_end s) verifyLength"

section \<open>Estimator\<close>

definition Estimator_prependByte :: "byte \<Rightarrow> (unit, nat) state" where
  "Estimator_prependByte value = State_Monad.return 1"

definition Estimator_appendByte :: "byte \<Rightarrow> (unit, nat) state" where
  "Estimator_appendByte value = State_Monad.return 1"

definition Estimator_prependByteArray :: "byte list \<Rightarrow> (unit, nat) state" where
  "Estimator_prependByteArray array = State_Monad.return (length array)"

definition Estimator_appendByteArray :: "byte list \<Rightarrow> (unit, nat) state" where
  "Estimator_appendByteArray array = Estimator_prependByteArray array"

definition Estimator_prependVarNumber :: "u64 \<Rightarrow> (unit, nat) state" where
  "Estimator_prependVarNumber varNumber =
     (if varNumber < 253 then State_Monad.return 1
      else if varNumber \<le> 0xFFFF then State_Monad.return 3
      else if varNumber \<le> 0xFFFFFFFF then State_Monad.return 5
      else State_Monad.return 9)"

definition Estimator_appendVarNumber :: "u64 \<Rightarrow> (unit, nat) state" where
  "Estimator_appendVarNumber varNumber = Estimator_prependVarNumber varNumber"

definition Estimator_prependNonNegativeInteger :: "u64 \<Rightarrow> (unit, nat) state" where
  "Estimator_prependNonNegativeInteger varNumber =
     (if varNumber \<le> 0xFF then State_Monad.return 1
      else if varNumber \<le> 0xFFFF then State_Monad.return 2
      else if varNumber \<le> 0xFFFFFFFF then State_Monad.return 4
      else State_Monad.return 8)"

definition Estimator_appendNonNegativeInteger :: "u64 \<Rightarrow> (unit, nat) state" where
  "Estimator_appendNonNegativeInteger varNumber = Estimator_prependNonNegativeInteger varNumber"

definition Estimator_prependByteArrayBlock :: "u32 \<Rightarrow> byte list \<Rightarrow> (unit, nat) state" where
  "Estimator_prependByteArrayBlock type array = do {
     n \<leftarrow> Estimator_prependVarNumber (word_of_nat (length array));
     m \<leftarrow> Estimator_prependVarNumber (ucast type);
     State_Monad.return (length array + n + m)
   }"

definition Estimator_appendByteArrayBlock :: "u32 \<Rightarrow> byte list \<Rightarrow> (unit, nat) state" where
  "Estimator_appendByteArrayBlock type array = Estimator_prependByteArrayBlock type array"

definition Estimator_prependBlock :: "block \<Rightarrow> (unit, nat) state" where
  "Estimator_prependBlock b =
     (if Block_hasWire b then State_Monad.return (m_size b)
      else Estimator_prependByteArrayBlock (m_type b) (value_bytes b))"

definition Estimator_appendBlock :: "block \<Rightarrow> (unit, nat) state" where
  "Estimator_appendBlock b = Estimator_prependBlock b"

section \<open>The operations a template may call\<close>

record 's encoding_ops =
  op_prependByte :: "byte \<Rightarrow> ('s, nat) state"
  op_prependByteArray :: "byte list \<Rightarrow> ('s, nat) state"
  op_prependVarNumber :: "u64 \<Rightarrow> ('s, nat) state"
  op_prependNonNegativeInteger :: "u64 \<Rightarrow> ('s, nat) state"
  op_prependByteArrayBlock :: "u32 \<Rightarrow> byte list \<Rightarrow> ('s, nat) state"
  op_prependBlock :: "block \<Rightarrow> ('s, nat) state"
  op_appendByte :: "byte \<Rightarrow> ('s, nat) state"
  op_appendByteArray :: "byte list \<Rightarrow> ('s, nat) state"
  op_appendVarNumber :: "u64 \<Rightarrow> ('s, nat) state"
  op_appendNonNegativeInteger :: "u64 \<Rightarrow> ('s, nat) state"
  op_appendByteArrayBlock :: "u32 \<Rightarrow> byte list \<Rightarrow> ('s, nat) state"
  op_appendBlock :: "block \<Rightarrow> ('s, nat) state"

definition encoder_ops :: "encoder encoding_ops" where
  "encoder_ops = \<lparr>
     op_prependByte = Encoder_prependByte, op_prependByteArray = Encoder_prependByteArray,
     op_prependVarNumber = Encoder_prependVarNumber,
     op_prependNonNegativeInteger = Encoder_prependNonNegativeInteger,
     op_prependByteArrayBlock = Encoder_prependByteArrayBlock, op_prependBlock = Encoder_prependBlock,
     op_appendByte = Encoder_appendByte, op_appendByteArray = Encoder_appendByteArray,
     op_appendVarNumber = Encoder_appendVarNumber,
     op_appendNonNegativeInteger = Encoder_appendNonNegativeInteger,
     op_appendByteArrayBlock = Encoder_appendByteArrayBlock, op_appendBlock = Encoder_appendBlock\<rparr>"

definition estimator_ops :: "unit encoding_ops" where
  "estimator_ops = \<lparr>
     op_prependByte = Estimator_prependByte, op_prependByteArray = Estimator_prependByteArray,
     op_prependVarNumber = Estimator_prependVarNumber,
     op_prependNonNegativeInteger = Estimator_prependNonNegativeInteger,
     op_prependByteArrayBlock = Estimator_prependByteArrayBlock, op_prependBlock = Estimator_prependBlock,
     op_appendByte = Estimator_appendByte, op_appendByteArray = Estimator_appendByteArray,
     op_appendVarNumber = Estimator_appendVarNumber,
     op_appendNonNegativeInteger = Estimator_appendNonNegativeInteger,
     op_appendByteArrayBlock = Estimator_appendByteArrayBlock, op_appendBlock = Estimator_appendBlock\<rparr>"

section \<open>Block helpers\<close>

definition prependNonNegativeIntegerBlock :: "'s encoding_ops \<Rightarrow> u32 \<Rightarrow> u64 \<Rightarrow> ('s, nat) state" where
  "prependNonNegativeIntegerBlock ops type value = do {
     valueLength \<leftarrow> op_prependNonNegativeInteger ops value;
     n \<leftarrow> op_prependVarNumber ops (word_of_nat valueLength);
     m \<leftarrow> op_prependVarNumber ops (ucast type);
     State_Monad.return (valueLength + n + m)
   }"

definition prependEmptyBlock :: "'s encoding_ops \<Rightarrow> u32 \<Rightarrow> ('s, nat) state" where
  "prependEmptyBlock ops type = do {
     totalLength \<leftarrow> op_prependVarNumber ops 0;
     n \<leftarrow> op_prependVarNumber ops (ucast type);
     State_Monad.return (totalLength + n)
   }"

definition prependStringBlock :: "'s encoding_ops \<Rightarrow> u32 \<Rightarrow> byte list \<Rightarrow> ('s, nat) state" where
  "prependStringBlock ops type value = do {
     valueLength \<leftarrow> op_prependByteArray ops value;
     n \<leftarrow> op_prependVarNumber ops (word_of_nat valueLength);
     m \<leftarrow> op_prependVarNumber ops (ucast type);
     State_Monad.return (valueLength + n + m)
   }"

text \<open>
  The pattern every \<^verbatim>\<open>make...Block\<close> and \<^verbatim>\<open>wireEncode()\<close> follows: run the template on an estimator,
  then on an encoder with a buffer of exactly the estimated size, and take its block.
\<close>

definition estimate_and_encode :: "(unit, nat) state \<Rightarrow> (encoder, nat) state \<Rightarrow> block res" where
  "estimate_and_encode est enc =
     (let totalLength = fst (run_state est ());
          s = snd (run_state enc (Encoder_new totalLength 0))
      in Encoder_block s True)"

definition makeNonNegativeIntegerBlock :: "u32 \<Rightarrow> u64 \<Rightarrow> block res" where
  "makeNonNegativeIntegerBlock type value =
     estimate_and_encode (prependNonNegativeIntegerBlock estimator_ops type value)
       (prependNonNegativeIntegerBlock encoder_ops type value)"

definition makeEmptyBlock :: "u32 \<Rightarrow> block res" where
  "makeEmptyBlock type =
     estimate_and_encode (prependEmptyBlock estimator_ops type) (prependEmptyBlock encoder_ops type)"

definition makeStringBlock :: "u32 \<Rightarrow> byte list \<Rightarrow> block res" where
  "makeStringBlock type value =
     estimate_and_encode (prependStringBlock estimator_ops type value) (prependStringBlock encoder_ops type value)"

definition makeBinaryBlock :: "u32 \<Rightarrow> byte list \<Rightarrow> block res" where
  "makeBinaryBlock type value =
     estimate_and_encode (op_prependByteArrayBlock estimator_ops type value)
       (op_prependByteArrayBlock encoder_ops type value)"

definition readNonNegativeInteger_block :: "block \<Rightarrow> u64 res" where
  "readNonNegativeInteger_block b =
     (case readNonNegativeInteger (Block_value_size b) (value_bytes b) of
        Inl e \<Rightarrow> Inl e | Inr (n, _) \<Rightarrow> Inr n)"

definition readString :: "block \<Rightarrow> byte list" where
  "readString b = value_bytes b"

section \<open>Blocks from a stream\<close>

text \<open>
  \<^verbatim>\<open>Block::fromStream\<close>: the argument is the bytes the stream still holds, the result comes with the
  bytes left in the stream afterwards. An \<^verbatim>\<open>istream_iterator\<close> extracts a byte when it is created
  and at every increment, so once type and length are read the iterator holds the byte after them
  (\<open>buf\<close> starts with it) and the stream itself is one byte further.
\<close>

definition Block_fromStream :: "byte list \<Rightarrow> block res \<times> byte list" where
  "Block_fromStream is =
     (case readType_throw is of
        Inl e \<Rightarrow> (Inl e, [])
      | Inr (type, r1) \<Rightarrow>
          (case readVarNumber_throw r1 of
             Inl e \<Rightarrow> (Inl e, [])
           | Inr (len, buf) \<Rightarrow>
               let unread = tl buf
               in if len = 0 then (makeEmptyBlock type, unread)
                  else if unat len > MAX_NDN_PACKET_SIZE
                  then (Inl (TlvError ''Length of block from stream is too large''), unread)
                  else case buf of
                    [] \<Rightarrow> (Inl (UndefinedBehaviour ''end-of-stream iterator dereferenced''), [])
                  | b # _ \<Rightarrow>
                      let got = take (unat len - 1) unread
                      in if unat len \<noteq> length got + 1
                         then (Inl (TlvError ''Not enough data in the buffer to fully parse TLV''), [])
                         else (makeBinaryBlock type (b # got), drop (unat len - 1) unread)))"

section \<open>The contract of an encoder\<close>

text \<open>
  \<open>R cs s\<close> relates an encoder state to the bytes it has produced: for the \<^verbatim>\<open>Encoder\<close> they are the
  bytes between its two iterators, the \<^verbatim>\<open>Estimator\<close> keeps no bytes. \<open>prepends R m bs r\<close>: from any
  related state, \<open>m\<close> returns \<open>r\<close> and puts \<open>bs\<close> in front; \<open>appends\<close> puts them behind.
\<close>

definition prepends :: "(byte list \<Rightarrow> 's \<Rightarrow> bool) \<Rightarrow> ('s, 'a) state \<Rightarrow> byte list \<Rightarrow> 'a \<Rightarrow> bool" where
  "prepends R m bs r \<longleftrightarrow> (\<forall>cs s. R cs s \<longrightarrow> fst (run_state m s) = r \<and> R (bs @ cs) (snd (run_state m s)))"

definition appends :: "(byte list \<Rightarrow> 's \<Rightarrow> bool) \<Rightarrow> ('s, 'a) state \<Rightarrow> byte list \<Rightarrow> 'a \<Rightarrow> bool" where
  "appends R m bs r \<longleftrightarrow> (\<forall>cs s. R cs s \<longrightarrow> fst (run_state m s) = r \<and> R (cs @ bs) (snd (run_state m s)))"

lemma prependsD: "prepends R m bs r \<Longrightarrow> R cs s \<Longrightarrow> fst (run_state m s) = r \<and> R (bs @ cs) (snd (run_state m s))"
  by (simp add: prepends_def)

lemma appendsD: "appends R m bs r \<Longrightarrow> R cs s \<Longrightarrow> fst (run_state m s) = r \<and> R (cs @ bs) (snd (run_state m s))"
  by (simp add: appends_def)

lemma prepends_return: "prepends R (State_Monad.return r) [] r"
  by (simp add: prepends_def)

lemma appends_return: "appends R (State_Monad.return r) [] r"
  by (simp add: appends_def)

lemma prepends_bind:
  "prepends R m b1 r1 \<Longrightarrow> prepends R (k r1) b2 r2 \<Longrightarrow> prepends R (m \<bind> k) (b2 @ b1) r2"
  by (fastforce simp: prepends_def split: prod.splits)

lemma appends_bind:
  "appends R m b1 r1 \<Longrightarrow> appends R (k r1) b2 r2 \<Longrightarrow> appends R (m \<bind> k) (b1 @ b2) r2"
  by (fastforce simp: appends_def split: prod.splits)

text \<open>Steps whose count is dropped, as in \<^verbatim>\<open>prependByte(253); return 3;\<close>.\<close>

lemma prepends_then: "prepends R m b1 r1 \<Longrightarrow> prepends R m2 b2 r2 \<Longrightarrow> prepends R (m \<bind> (\<lambda>_. m2)) (b2 @ b1) r2"
  by (rule prepends_bind)

lemma appends_then: "appends R m b1 r1 \<Longrightarrow> appends R m2 b2 r2 \<Longrightarrow> appends R (m \<bind> (\<lambda>_. m2)) (b1 @ b2) r2"
  by (rule appends_bind)

lemma prepends_cong: "prepends R m bs r \<Longrightarrow> bs = bs' \<Longrightarrow> r = r' \<Longrightarrow> prepends R m bs' r'"
  by simp

lemma appends_cong: "appends R m bs r \<Longrightarrow> bs = bs' \<Longrightarrow> r = r' \<Longrightarrow> appends R m bs' r'"
  by simp

definition nonNegativeInteger_bytes :: "u64 \<Rightarrow> byte list" where
  "nonNegativeInteger_bytes n =
     (if n \<le> 0xFF then [ucast n]
      else if n \<le> 0xFFFF then be_bytes 2 (unat n)
      else if n \<le> 0xFFFFFFFF then be_bytes 4 (unat n)
      else be_bytes 8 (unat n))"

definition block_bytes :: "block \<Rightarrow> byte list" where
  "block_bytes b = (if Block_hasWire b then take (m_size b) (wire_bytes b) else tlv_wire (m_type b) (value_bytes b))"

locale encoding_impl =
  fixes ops :: "'s encoding_ops" and R :: "byte list \<Rightarrow> 's \<Rightarrow> bool"
  assumes prependByte: "prepends R (op_prependByte ops b) [b] 1"
    and prependByteArray: "prepends R (op_prependByteArray ops bs) bs (length bs)"
    and prependVarNumber: "prepends R (op_prependVarNumber ops n) (varNumber_bytes n) (sizeOfVarNumber n)"
    and prependNonNegativeInteger:
      "prepends R (op_prependNonNegativeInteger ops n) (nonNegativeInteger_bytes n) (length (nonNegativeInteger_bytes n))"
    and prependByteArrayBlock:
      "prepends R (op_prependByteArrayBlock ops t bs) (tlv_wire t bs) (length (tlv_wire t bs))"
    and prependBlock: "block_wf blk \<Longrightarrow> prepends R (op_prependBlock ops blk) (block_bytes blk) (length (block_bytes blk))"
    and appendByte: "appends R (op_appendByte ops b) [b] 1"
    and appendByteArray: "appends R (op_appendByteArray ops bs) bs (length bs)"
    and appendVarNumber: "appends R (op_appendVarNumber ops n) (varNumber_bytes n) (sizeOfVarNumber n)"
    and appendNonNegativeInteger:
      "appends R (op_appendNonNegativeInteger ops n) (nonNegativeInteger_bytes n) (length (nonNegativeInteger_bytes n))"
    and appendByteArrayBlock:
      "appends R (op_appendByteArrayBlock ops t bs) (tlv_wire t bs) (length (tlv_wire t bs))"
    and appendBlock: "block_wf blk \<Longrightarrow> appends R (op_appendBlock ops blk) (block_bytes blk) (length (block_bytes blk))"
begin

lemma prepend_header:
  assumes "prepends R m v (length v)"
  shows "prepends R (do {
           valueLength \<leftarrow> m;
           n \<leftarrow> op_prependVarNumber ops (word_of_nat valueLength);
           k \<leftarrow> op_prependVarNumber ops (ucast t);
           State_Monad.return (valueLength + n + k)
         }) (tlv_wire t v) (length (tlv_wire t v))"
  by (rule prepends_cong, (rule prepends_bind prepends_return assms prependVarNumber)+)
    (simp_all add: tlv_wire_def size_simps)

lemma prependNonNegativeIntegerBlock_prepends:
  "prepends R (prependNonNegativeIntegerBlock ops t n)
     (tlv_wire t (nonNegativeInteger_bytes n)) (length (tlv_wire t (nonNegativeInteger_bytes n)))"
  unfolding prependNonNegativeIntegerBlock_def by (rule prepend_header [OF prependNonNegativeInteger])

lemma prependStringBlock_prepends:
  "prepends R (prependStringBlock ops t v) (tlv_wire t v) (length (tlv_wire t v))"
  unfolding prependStringBlock_def by (rule prepend_header [OF prependByteArray])

lemma prependEmptyBlock_prepends:
  "prepends R (prependEmptyBlock ops t) (tlv_wire t []) (length (tlv_wire t []))"
  unfolding prependEmptyBlock_def
  by (rule prepends_cong, (rule prepends_bind prepends_return prependVarNumber)+)
    (simp_all add: tlv_wire_def size_simps)

end

section \<open>Encoder and Estimator keep the contract\<close>

definition enc_rel :: "byte list \<Rightarrow> encoder \<Rightarrow> bool" where
  "enc_rel cs s \<longleftrightarrow> enc_begin s \<le> enc_end s \<and> enc_end s \<le> length (enc_buffer s)
     \<and> slice (enc_begin s) (enc_end s) (enc_buffer s) = cs"

lemma enc_rel_new: "enc_rel [] (Encoder_new m n)"
  by (simp add: enc_rel_def Encoder_new_def Let_def)

lemma reserveFront_rel:
  "enc_rel cs s \<Longrightarrow> enc_rel cs (Encoder_reserveFront n s) \<and> n \<le> enc_begin (Encoder_reserveFront n s)"
  by (auto simp: enc_rel_def Encoder_reserveFront_def Encoder_reserve_def Let_def slice_def)

lemma reserveBack_rel:
  "enc_rel cs s \<Longrightarrow> enc_rel cs (Encoder_reserveBack n s)
     \<and> enc_end (Encoder_reserveBack n s) + n \<le> length (enc_buffer (Encoder_reserveBack n s))"
  by (auto simp: enc_rel_def Encoder_reserveBack_def Encoder_reserve_def Let_def slice_def)

lemma Encoder_prependByteArray_prepends:
  "prepends enc_rel (Encoder_prependByteArray bs) bs (length bs)"
  unfolding prepends_def
proof (intro allI impI)
  fix cs s assume "enc_rel cs s"
  from reserveFront_rel [OF this, of "length bs"]
  show "fst (run_state (Encoder_prependByteArray bs) s) = length bs \<and>
      enc_rel (bs @ cs) (snd (run_state (Encoder_prependByteArray bs) s))"
    by (auto simp: Encoder_prependByteArray_def enc_rel_def Let_def write_at_def slice_def)
qed

lemma Encoder_appendByteArray_appends:
  "appends enc_rel (Encoder_appendByteArray bs) bs (length bs)"
  unfolding appends_def
proof (intro allI impI)
  fix cs s assume "enc_rel cs s"
  from reserveBack_rel [OF this, of "length bs"]
  show "fst (run_state (Encoder_appendByteArray bs) s) = length bs \<and>
      enc_rel (cs @ bs) (snd (run_state (Encoder_appendByteArray bs) s))"
    by (auto simp: Encoder_appendByteArray_def enc_rel_def Let_def write_at_def slice_def drop_take)
qed

text \<open>Writing one byte is writing an array of one byte.\<close>

lemma list_update_write_at: "i < length xs \<Longrightarrow> xs[i := x] = write_at i [x] xs"
  by (simp add: write_at_def upd_conv_take_nth_drop)

lemma Encoder_prependByte_prepends: "prepends enc_rel (Encoder_prependByte b) [b] 1"
  unfolding prepends_def
proof (intro allI impI)
  fix cs s assume "enc_rel cs s"
  from reserveFront_rel [OF this, of 1] show "fst (run_state (Encoder_prependByte b) s) = 1 \<and>
      enc_rel ([b] @ cs) (snd (run_state (Encoder_prependByte b) s))"
    by (auto simp: Encoder_prependByte_def enc_rel_def Let_def list_update_write_at write_at_def slice_def Suc_diff_le)
qed

lemma Encoder_appendByte_appends: "appends enc_rel (Encoder_appendByte b) [b] 1"
  unfolding appends_def
proof (intro allI impI)
  fix cs s assume "enc_rel cs s"
  from reserveBack_rel [OF this, of 1] show "fst (run_state (Encoder_appendByte b) s) = 1 \<and>
      enc_rel (cs @ [b]) (snd (run_state (Encoder_appendByte b) s))"
    by (auto simp: Encoder_appendByte_def enc_rel_def Let_def list_update_write_at write_at_def slice_def drop_take Suc_diff_le)
qed

lemma Encoder_prependVarNumber_prepends:
  "prepends enc_rel (Encoder_prependVarNumber n) (varNumber_bytes n) (sizeOfVarNumber n)"
proof -
  note byte = prepends_then [OF Encoder_prependByte_prepends prepends_return]
  note array = prepends_then [OF Encoder_prependByteArray_prepends byte]
  show ?thesis
    using byte [of "ucast n" "1 :: nat"] array [of "be_bytes 2 (unat n)" 253 "3 :: nat"]
      array [of "be_bytes 4 (unat n)" 254 "5 :: nat"] array [of "be_bytes 8 (unat n)" 255 "9 :: nat"]
    by (simp add: Encoder_prependVarNumber_def varNumber_bytes_eq sizeOfVarNumber_def)
qed

lemma Encoder_appendVarNumber_appends:
  "appends enc_rel (Encoder_appendVarNumber n) (varNumber_bytes n) (sizeOfVarNumber n)"
proof -
  note one = appends_then [OF Encoder_appendByte_appends appends_return]
  note two = appends_then [OF Encoder_appendByte_appends appends_then [OF Encoder_appendByteArray_appends appends_return]]
  show ?thesis
    using one [of "ucast n" "1 :: nat"] two [of 253 "be_bytes 2 (unat n)" "3 :: nat"]
      two [of 254 "be_bytes 4 (unat n)" "5 :: nat"] two [of 255 "be_bytes 8 (unat n)" "9 :: nat"]
    by (simp add: Encoder_appendVarNumber_def varNumber_bytes_eq sizeOfVarNumber_def)
qed

lemma Encoder_prependByteArrayBlock_prepends:
  "prepends enc_rel (Encoder_prependByteArrayBlock t bs) (tlv_wire t bs) (length (tlv_wire t bs))"
  unfolding Encoder_prependByteArrayBlock_def
  by (rule prepends_cong, (rule prepends_bind prepends_return Encoder_prependByteArray_prepends Encoder_prependVarNumber_prepends)+)
    (simp_all add: tlv_wire_def size_simps)

lemma Encoder_appendByteArrayBlock_appends:
  "appends enc_rel (Encoder_appendByteArrayBlock t bs) (tlv_wire t bs) (length (tlv_wire t bs))"
  unfolding Encoder_appendByteArrayBlock_def
  by (rule appends_cong, (rule appends_bind appends_return Encoder_appendByteArray_appends Encoder_appendVarNumber_appends)+)
    (simp_all add: tlv_wire_def size_simps)

interpretation enc: encoding_impl encoder_ops enc_rel
proof unfold_locales
  fix n :: u64
  show "prepends enc_rel (op_prependNonNegativeInteger encoder_ops n) (nonNegativeInteger_bytes n) (length (nonNegativeInteger_bytes n))"
    using Encoder_prependByte_prepends [of "ucast n"] Encoder_prependByteArray_prepends [of "be_bytes k (unat n)" for k]
    by (simp add: encoder_ops_def Encoder_prependNonNegativeInteger_def nonNegativeInteger_bytes_def)
  show "appends enc_rel (op_appendNonNegativeInteger encoder_ops n) (nonNegativeInteger_bytes n) (length (nonNegativeInteger_bytes n))"
    using Encoder_appendByte_appends [of "ucast n"] Encoder_appendByteArray_appends [of "be_bytes k (unat n)" for k]
    by (simp add: encoder_ops_def Encoder_appendNonNegativeInteger_def nonNegativeInteger_bytes_def)
qed (simp_all add: encoder_ops_def Encoder_prependByte_prepends [unfolded One_nat_def] Encoder_prependByteArray_prepends
    Encoder_prependVarNumber_prepends Encoder_prependByteArrayBlock_prepends Encoder_prependBlock_def block_bytes_def
    Encoder_appendByte_appends [unfolded One_nat_def] Encoder_appendByteArray_appends Encoder_appendVarNumber_appends
    Encoder_appendByteArrayBlock_appends Encoder_appendBlock_def wf_wire_size)

lemma fst_returns: "fst (run_state (State_Monad.return r) s) = r"
  by simp

lemmas Estimator_defs = Estimator_prependByte_def Estimator_appendByte_def Estimator_prependByteArray_def
  Estimator_appendByteArray_def Estimator_prependVarNumber_def Estimator_appendVarNumber_def
  Estimator_prependNonNegativeInteger_def Estimator_appendNonNegativeInteger_def
  Estimator_prependByteArrayBlock_def Estimator_appendByteArrayBlock_def Estimator_prependBlock_def
  Estimator_appendBlock_def

interpretation est: encoding_impl estimator_ops "\<lambda>_ _. True"
  by unfold_locales
    (auto simp: estimator_ops_def Estimator_defs prepends_def appends_def sizeOfVarNumber_def
      nonNegativeInteger_bytes_def block_bytes_def length_tlv_wire wf_wire_size)

text \<open>
  The two-pass pattern: when both instances of a template prepend the same bytes, the encoder's
  buffer is exactly filled and the resulting block has those bytes as its wire.
\<close>

lemma Encoder_block_rel:
  assumes rel: "enc_rel (tlv_wire t v) s" and "fits v"
  shows "\<exists>b. Encoder_block s True = Inr b \<and> block_tlv b = (t, v) \<and> wire_bytes b = tlv_wire t v
           \<and> block_wf b \<and> Block_hasWire b \<and> m_subBlocks b = []"
proof -
  have sl: "slice (enc_begin s) (enc_end s) (enc_buffer s) = tlv_wire t v"
    and le: "enc_begin s \<le> enc_end s" "enc_end s \<le> length (enc_buffer s)"
    using rel by (simp_all add: enc_rel_def)
  have d: "enc_end s - enc_begin s = length (tlv_wire t v)"
    using length_slice [OF le(2), of "enc_begin s"] sl by simp
  have lt: "length v < length (tlv_wire t v)" by (simp add: length_tlv_wire sizeOfVarNumber_def)
  let ?b = "Block (Some (enc_buffer s)) t (enc_begin s) (enc_end s) (enc_end s - enc_begin s) (enc_end s - length v) (enc_end s) []"
  have "Block_of_range (enc_buffer s) (enc_begin s) (enc_end s) True = Inr ?b"
    by (simp add: Block_of_range_def sl wire_simps)
  moreover have "value_bytes ?b = v"
  proof -
    have "enc_begin s + (enc_end s - length v - enc_begin s) = enc_end s - length v"
      using d lt by linarith
    then have "value_bytes ?b = drop (enc_end s - length v - enc_begin s) (tlv_wire t v)"
      by (simp add: value_bytes_def sl [symmetric] drop_slice)
    moreover have "enc_end s - length v - enc_begin s = length (tlv_wire t v) - length v" using d by simp
    ultimately show ?thesis by (simp add: tlv_wire_def)
  qed
  ultimately show ?thesis
    using sl d le lt
    by (auto simp: Encoder_block_def block_tlv_def wire_bytes_def block_wf_def Block_hasWire_def)
qed

lemma estimate_and_encode_wire:
  assumes "prepends (\<lambda>_ _. True) est (tlv_wire t v) (length (tlv_wire t v))"
    and "prepends enc_rel enc (tlv_wire t v) (length (tlv_wire t v))" and "fits v"
  shows "\<exists>b. estimate_and_encode est enc = Inr b \<and> block_tlv b = (t, v) \<and> wire_bytes b = tlv_wire t v
           \<and> block_wf b \<and> Block_hasWire b \<and> m_subBlocks b = []"
proof -
  have "enc_rel (tlv_wire t v) (snd (run_state enc (Encoder_new (length (tlv_wire t v)) 0)))"
    using assms(2) enc_rel_new [of "length (tlv_wire t v)" 0] by (fastforce simp: prepends_def)
  from Encoder_block_rel [OF this assms(3)] assms(1) show ?thesis
    by (simp add: estimate_and_encode_def prepends_def Let_def)
qed

section \<open>The block helpers\<close>

lemma fits_nonNegativeInteger [simp]: "fits (nonNegativeInteger_bytes n)"
  by (simp add: fits_def nonNegativeInteger_bytes_def)

lemma makeNonNegativeIntegerBlock_wire:
  "\<exists>b. makeNonNegativeIntegerBlock t n = Inr b \<and> block_tlv b = (t, nonNegativeInteger_bytes n)
     \<and> wire_bytes b = tlv_wire t (nonNegativeInteger_bytes n) \<and> block_wf b \<and> Block_hasWire b \<and> m_subBlocks b = []"
  unfolding makeNonNegativeIntegerBlock_def
  by (rule estimate_and_encode_wire)
    (rule est.prependNonNegativeIntegerBlock_prepends enc.prependNonNegativeIntegerBlock_prepends fits_nonNegativeInteger)+

lemma makeEmptyBlock_wire:
  "\<exists>b. makeEmptyBlock t = Inr b \<and> block_tlv b = (t, [])
     \<and> wire_bytes b = tlv_wire t [] \<and> block_wf b \<and> Block_hasWire b \<and> m_subBlocks b = []"
  unfolding makeEmptyBlock_def
  by (rule estimate_and_encode_wire)
    (rule est.prependEmptyBlock_prepends enc.prependEmptyBlock_prepends | simp add: fits_def)+

lemma makeStringBlock_wire:
  "fits v \<Longrightarrow> \<exists>b. makeStringBlock t v = Inr b \<and> block_tlv b = (t, v)
     \<and> wire_bytes b = tlv_wire t v \<and> block_wf b \<and> Block_hasWire b \<and> m_subBlocks b = []"
  unfolding makeStringBlock_def
  by (rule estimate_and_encode_wire)
    (rule est.prependStringBlock_prepends enc.prependStringBlock_prepends | assumption)+

lemma makeBinaryBlock_wire:
  "fits v \<Longrightarrow> \<exists>b. makeBinaryBlock t v = Inr b \<and> block_tlv b = (t, v)
     \<and> wire_bytes b = tlv_wire t v \<and> block_wf b \<and> Block_hasWire b \<and> m_subBlocks b = []"
  unfolding makeBinaryBlock_def
  by (rule estimate_and_encode_wire)
    (rule est.prependByteArrayBlock enc.prependByteArrayBlock | assumption)+

lemma nonNegativeInteger_roundtrip:
  "readNonNegativeInteger (length (nonNegativeInteger_bytes n)) (nonNegativeInteger_bytes n @ rest) = Inr (n, rest)"
proof -
  have "n \<le> 0xFF \<Longrightarrow> ucast (ucast n :: byte) = n"
    by (simp add: word_unat_eq_iff unat_ucast_to_byte word_le_nat_alt word_less_nat_alt)
  then show ?thesis
    using word_le_unat_bound [of n]
    by (auto simp: nonNegativeInteger_bytes_def readNonNegativeInteger_def be_toh_1 be_toh_be_bytes)
qed

lemma readNonNegativeInteger_block_tlv:
  assumes "block_wf b" and "value_bytes b = nonNegativeInteger_bytes n"
  shows "readNonNegativeInteger_block b = Inr n"
  using assms nonNegativeInteger_roundtrip [of n "[]"]
  by (simp add: readNonNegativeInteger_block_def wf_value_size)

section \<open>Properties\<close>

text \<open>
  Whatever the encoder already holds, and however its buffer has to grow, each prepending
  operation puts its bytes in front of the bytes written so far, each appending operation behind
  them, without changing them, and returns the number of bytes added.
\<close>

theorem Encoder_writes:
  assumes "enc_rel cs s"
  shows "enc_rel (bs @ cs) (snd (run_state (Encoder_prependByteArray bs) s))
     \<and> enc_rel (cs @ bs) (snd (run_state (Encoder_appendByteArray bs) s))
     \<and> enc_rel (varNumber_bytes n @ cs) (snd (run_state (Encoder_prependVarNumber n) s))
     \<and> enc_rel (cs @ varNumber_bytes n) (snd (run_state (Encoder_appendVarNumber n) s))
     \<and> enc_rel (tlv_wire t bs @ cs) (snd (run_state (Encoder_prependByteArrayBlock t bs) s))
     \<and> fst (run_state (Encoder_prependByteArrayBlock t bs) s) = length (tlv_wire t bs)
     \<and> enc_rel (cs @ tlv_wire t bs) (snd (run_state (Encoder_appendByteArrayBlock t bs) s))
     \<and> fst (run_state (Encoder_appendByteArrayBlock t bs) s) = length (tlv_wire t bs)"
  using assms Encoder_prependByteArray_prepends Encoder_appendByteArray_appends Encoder_prependVarNumber_prepends
    Encoder_appendVarNumber_appends Encoder_prependByteArrayBlock_prepends Encoder_appendByteArrayBlock_appends
  unfolding prepends_def appends_def by simp

theorem Encoder_writes_witness:
  "enc_rel [] (Encoder_new 0 0) \<and> enc_rel [1, 2] (snd (run_state (Encoder_prependByteArray [1, 2]) (Encoder_new 0 0)))"
  using Encoder_writes [OF enc_rel_new, of "[1, 2]" 0 0] enc_rel_new by simp

text \<open>
  The size computed by an \<^verbatim>\<open>Estimator\<close> is the size the \<^verbatim>\<open>Encoder\<close> produces, for the block helpers;
  so the two-pass \<^verbatim>\<open>make...Block\<close> functions never throw, and the element they build has the given
  type and value. A number stored by \<^verbatim>\<open>makeNonNegativeIntegerBlock\<close> is read back by
  \<^verbatim>\<open>readNonNegativeInteger\<close>.
\<close>

theorem make_blocks_roundtrip:
  assumes "fits v"
  shows "(\<exists>b. makeNonNegativeIntegerBlock t n = Inr b \<and> m_type b = t \<and> readNonNegativeInteger_block b = Inr n)
     \<and> (\<exists>b. makeBinaryBlock t v = Inr b \<and> block_tlv b = (t, v) \<and> wire_bytes b = tlv_wire t v)
     \<and> (\<exists>b. makeStringBlock t v = Inr b \<and> m_type b = t \<and> readString b = v)
     \<and> (\<exists>b. makeEmptyBlock t = Inr b \<and> block_tlv b = (t, []))
     \<and> fst (run_state (prependNonNegativeIntegerBlock estimator_ops t n) ()) =
         length (wire_bytes (projr (makeNonNegativeIntegerBlock t n)))"
proof (intro conjI)
  obtain b where "makeNonNegativeIntegerBlock t n = Inr b" "block_tlv b = (t, nonNegativeInteger_bytes n)"
    "wire_bytes b = tlv_wire t (nonNegativeInteger_bytes n)" "block_wf b"
    using makeNonNegativeIntegerBlock_wire [of t n] by blast
  then show "\<exists>b. makeNonNegativeIntegerBlock t n = Inr b \<and> m_type b = t \<and> readNonNegativeInteger_block b = Inr n"
    and "fst (run_state (prependNonNegativeIntegerBlock estimator_ops t n) ()) =
         length (wire_bytes (projr (makeNonNegativeIntegerBlock t n)))"
    using est.prependNonNegativeIntegerBlock_prepends [of t n]
    by (auto simp: block_tlv_def prepends_def readNonNegativeInteger_block_tlv)
qed (use makeBinaryBlock_wire [OF assms, of t] makeStringBlock_wire [OF assms, of t] makeEmptyBlock_wire [of t] in
    \<open>auto simp: block_tlv_def readString_def\<close>)

theorem make_blocks_roundtrip_witness:
  "fits [1] \<and> (\<exists>b. makeNonNegativeIntegerBlock 12 4000 = Inr b \<and> m_type b = 12 \<and> readNonNegativeInteger_block b = Inr 4000)"
proof -
  have "fits [1]" by (simp add: fits_def)
  then show ?thesis using make_blocks_roundtrip [of "[1]" 12 4000] by blast
qed

text \<open>
  C32: \<^verbatim>\<open>tlv::sizeOfNonNegativeInteger\<close> (and \<^verbatim>\<open>tlv::writeNonNegativeInteger\<close>) disagree with the encoder
  on exactly the values 253, 254 and 255: they switch to two bytes at 253, the threshold of
  VAR-NUMBER, while the encoder keeps one byte up to 255.
\<close>

theorem sizeOfNonNegativeInteger_vs_encoder:
  "(fst (run_state (Encoder_prependNonNegativeInteger n) s) = sizeOfNonNegativeInteger n) \<longleftrightarrow> n \<notin> {253, 254, 255}"
proof -
  have "n \<in> {253, 254, 255} \<longleftrightarrow> 253 \<le> n \<and> n \<le> 0xFF"
    by (auto simp: word_le_nat_alt word_unat_eq_iff)
  then show ?thesis
    by (auto simp: Encoder_prependNonNegativeInteger_def sizeOfNonNegativeInteger_def Encoder_prependByte_def
        Encoder_prependByteArray_def Let_def word_le_nat_alt word_less_nat_alt)
qed

text \<open>
  Reading from a stream. \<^verbatim>\<open>Block::fromStream\<close> on a TLV with a non-empty value of at most
  \<^verbatim>\<open>MAX_NDN_PACKET_SIZE\<close> bytes returns it and leaves the stream at the next element. On a TLV with an
  empty value it returns the element too, but one byte of whatever follows is gone from the stream,
  because the iterator that read the length has already extracted it.
\<close>

theorem fromStream_consumes:
  assumes "length v \<le> MAX_NDN_PACKET_SIZE"
  shows "\<exists>b. Block_fromStream (tlv_wire t v @ rest) = (Inr b, if v = [] then tl rest else rest)
           \<and> block_tlv b = (t, v)"
proof -
  have v: "fits v" using assms by (simp add: fits_def MAX_NDN_PACKET_SIZE_def)
  show ?thesis
  proof (cases v)
    case Nil
    then show ?thesis
      using makeEmptyBlock_wire [of t] by (auto simp: Block_fromStream_def wire_simps Let_def)
  next
    case (Cons x xs)
    then have "unat (word_of_nat (Suc (length xs)) :: u64) = Suc (length xs)" using fits_unat [OF v] by simp
    moreover from this have "(word_of_nat (Suc (length xs)) :: u64) \<noteq> 0" by (metis unat_0 nat.distinct(1))
    ultimately show ?thesis
      using Cons assms makeBinaryBlock_wire [OF v, of t] by (auto simp: Block_fromStream_def wire_simps Let_def)
  qed
qed

theorem fromStream_consumes_witness:
  "\<exists>b. Block_fromStream (tlv_wire 8 [] @ [7, 0]) = (Inr b, [0]) \<and> block_tlv b = (8, [])"
  using fromStream_consumes [of "[]" 8 "[7, 0]"] by (simp add: MAX_NDN_PACKET_SIZE_def)

end
