(* ===== verification/StringHelper.thy ===== *)
theory StringHelper
  imports Prelude
begin

text \<open>
  String helpers of \<^verbatim>\<open>ndn-cxx/src/util/string-helper.cpp\<close> and the hexadecimal decoder of
  \<^verbatim>\<open>ndn-cxx/src/security/transform/hex-decode.cpp\<close>. A \<^verbatim>\<open>std::string\<close> is the list of its bytes.
\<close>

type_synonym str = "byte list"

definition hex_digit :: "bool \<Rightarrow> byte \<Rightarrow> byte" where
  "hex_digit wantUpperCase n = (if n < 10 then 48 + n else if wantUpperCase then 55 + n else 87 + n)"

text \<open>\<open>os << std::setw(2) << unsigned\<close> with fill \<open>0\<close> and the flag \<^verbatim>\<open>hex\<close>, for every byte.\<close>

definition hex_pair :: "bool \<Rightarrow> byte \<Rightarrow> str" where
  "hex_pair wantUpperCase b = [hex_digit wantUpperCase (b div 16), hex_digit wantUpperCase (b mod 16)]"

definition printHex :: "str \<Rightarrow> byte list \<Rightarrow> bool \<Rightarrow> str" where
  "printHex os buffer wantUpperCase = os @ concat (map (hex_pair wantUpperCase) buffer)"

definition fromHexChar :: "byte \<Rightarrow> int" where
  "fromHexChar c =
     (if 48 \<le> c \<and> c \<le> 57 then uint c - 48
      else if 65 \<le> c \<and> c \<le> 70 then uint c - 65 + 10
      else if 97 \<le> c \<and> c \<le> 102 then uint c - 97 + 10
      else - 1)"

fun unescape :: "str \<Rightarrow> str" where
  "unescape (c # h # l # rest) =
     (if c = 37 then
        (if fromHexChar h < 0 \<or> fromHexChar l < 0 then c # h # l # unescape rest
         else word_of_int (fromHexChar h * 16 + fromHexChar l) # unescape rest)
      else c # unescape (h # l # rest))"
| "unescape str = str"

section \<open>Hexadecimal decoder\<close>

text \<open>The table \<^verbatim>\<open>C2H\<close> maps a character to its digit, other characters to \<open>-1\<close>.\<close>

definition C2H :: "byte \<Rightarrow> int" where
  "C2H c =
     (if 48 \<le> c \<and> c \<le> 57 then uint c - 48
      else if 65 \<le> c \<and> c \<le> 70 then uint c - 55
      else if 97 \<le> c \<and> c \<le> 102 then uint c - 87
      else - 1)"

text \<open>\<open>m_hasOddByte\<close> and \<open>m_oddByte\<close> together: a digit left over from the last chunk.\<close>

record HexDecode =
  m_oddByte :: "byte option"

definition HexDecode_new :: HexDecode where
  "HexDecode_new = \<lparr>m_oddByte = None\<rparr>"

fun toBytes_loop :: "byte list \<Rightarrow> byte list res" where
  "toBytes_loop (h # l # hex) =
     (if C2H h < 0 \<or> C2H l < 0 then Inl (StdError ''Wrong input byte'')
      else case toBytes_loop hex of
        Inl e \<Rightarrow> Inl e | Inr bs \<Rightarrow> Inr (word_of_int (C2H h * 16 + C2H l) # bs))"
| "toBytes_loop hex = Inr []"

definition HexDecode_toBytes :: "HexDecode \<Rightarrow> byte list \<Rightarrow> byte list res" where
  "HexDecode_toBytes s hex =
     (case (m_oddByte s, hex) of
        (Some oddByte, h # hex') \<Rightarrow>
          if C2H h < 0 \<or> C2H oddByte < 0 then Inl (StdError ''Wrong input byte'')
          else (case toBytes_loop hex' of
            Inl e \<Rightarrow> Inl e | Inr bs \<Rightarrow> Inr (word_of_int (C2H oddByte * 16 + C2H h) # bs))
      | _ \<Rightarrow> toBytes_loop hex)"

definition HexDecode_convert :: "HexDecode \<Rightarrow> byte list \<Rightarrow> (byte list \<times> HexDecode) res" where
  "HexDecode_convert s hex =
     (if hex = [] then Inr ([], s)
      else case HexDecode_toBytes s hex of
        Inl e \<Rightarrow> Inl e
      | Inr out \<Rightarrow>
          if odd (length hex + (if m_oddByte s \<noteq> None then 1 else 0))
          then Inr (out, \<lparr>m_oddByte = Some (last hex)\<rparr>)
          else Inr (out, \<lparr>m_oddByte = None\<rparr>))"

definition HexDecode_finalize :: "HexDecode \<Rightarrow> unit res" where
  "HexDecode_finalize s = (if m_oddByte s \<noteq> None then Inl (StdError ''Incomplete input'') else Inr ())"

definition fromHex :: "str \<Rightarrow> byte list res" where
  "fromHex hexString =
     (case HexDecode_convert HexDecode_new hexString of
        Inl e \<Rightarrow> Inl (StdError ''Conversion from hex failed'')
      | Inr (out, s) \<Rightarrow>
          (case HexDecode_finalize s of
             Inl e \<Rightarrow> Inl (StdError ''Conversion from hex failed'')
           | Inr _ \<Rightarrow> Inr out))"

text \<open>\<^verbatim>\<open>boost::algorithm::trim\<close>: leading and trailing white space of the C locale is removed.\<close>

definition is_space :: "byte \<Rightarrow> bool" where
  "is_space c \<longleftrightarrow> c = 32 \<or> (9 \<le> c \<and> c \<le> 13)"

definition trim :: "str \<Rightarrow> str" where
  "trim s = rev (dropWhile is_space (rev (dropWhile is_space s)))"

section \<open>Lemmas\<close>

lemma trim_id: "\<forall>c \<in> set s. \<not> is_space c \<Longrightarrow> trim s = s"
proof -
  assume h: "\<forall>c \<in> set s. \<not> is_space c"
  then have "dropWhile is_space s = s" by (cases s) auto
  moreover have "dropWhile is_space (rev s) = rev s" using h by (cases "rev s") (auto simp: rev_eq_Cons_iff)
  ultimately show ?thesis by (simp add: trim_def)
qed

lemma nibble_cases:
  "(n :: byte) < 16 \<Longrightarrow> n = 0xF \<or> n = 0xE \<or> n = 0xD \<or> n = 0xC \<or> n = 0xB \<or> n = 0xA \<or> n = 0x9 \<or> n = 0x8 \<or>
     n = 0x7 \<or> n = 0x6 \<or> n = 0x5 \<or> n = 0x4 \<or> n = 0x3 \<or> n = 0x2 \<or> n = 1 \<or> n = 0"
  by (simp add: word_less_nat_alt word_unat_eq_iff) arith

lemma digit_value: "n < 16 \<Longrightarrow> C2H (hex_digit u n) = uint n \<and> fromHexChar (hex_digit u n) = uint n"
  by (drule nibble_cases, elim disjE; cases u) (simp_all add: hex_digit_def C2H_def fromHexChar_def)

lemma byte_nibbles:
  "(b :: byte) div 16 < 16" "b mod 16 < 16" "word_of_int (uint (b div 16) * 16 + uint (b mod 16)) = b"
proof -
  have b: "uint b = uint (b div 16) * 16 + uint (b mod 16)"
    by (simp add: uint_div uint_mod)
  show "b div 16 < 16" "b mod 16 < 16"
    using unsigned_less [where ?'a = nat, of b]
    by (simp_all add: word_less_nat_alt unat_div_distrib unat_mod_distrib)
  show "word_of_int (uint (b div 16) * 16 + uint (b mod 16)) = b"
    by (simp only: b [symmetric] word_of_int_uint)
qed

lemma toBytes_loop_hex: "toBytes_loop (concat (map (hex_pair u) bs)) = Inr bs"
proof (induction bs)
  case (Cons b bs)
  then show ?case
    using digit_value [OF byte_nibbles(1), of u b] digit_value [OF byte_nibbles(2), of u b] byte_nibbles(3) [of b]
    by (simp add: hex_pair_def)
qed simp

lemma length_hex [size_simps]: "length (concat (map (hex_pair u) bs)) = 2 * length bs"
  by (induction bs) (simp_all add: hex_pair_def)

lemma fromHex_hex: "fromHex (concat (map (hex_pair u) bs)) = Inr bs"
proof (cases bs)
  case (Cons b bs')
  moreover have "concat (map (hex_pair u) bs) \<noteq> []" using Cons by (simp add: hex_pair_def)
  ultimately show ?thesis
    using toBytes_loop_hex [of u bs]
    by (simp add: fromHex_def HexDecode_convert_def HexDecode_new_def HexDecode_toBytes_def HexDecode_finalize_def length_hex
        del: concat_eq_Nil_conv) (simp add: hex_pair_def)
qed (simp add: fromHex_def HexDecode_convert_def HexDecode_new_def HexDecode_finalize_def)

lemma unescape_other: "c \<noteq> 37 \<Longrightarrow> unescape (c # s) = c # unescape s"
  by (cases "(c # s)" rule: unescape.cases) auto

lemma unescape_hex: "unescape (37 # hex_pair u b @ s) = b # unescape s"
  using digit_value [OF byte_nibbles(1), of u b] digit_value [OF byte_nibbles(2), of u b] byte_nibbles(3) [of b]
  by (simp add: hex_pair_def)

end
