(* ===== verification/NameComponent.thy ===== *)
theory NameComponent
  imports Encoding StringHelper
begin

text \<open>
  Name components, \<^verbatim>\<open>ndn-cxx/src/name-component.cpp\<close>. The class derives from \<^verbatim>\<open>Block\<close>, and so do the
  operations here: they take and return blocks. A component with a wire is compared on its wire
  bytes, one without on type, size and value. The abstract \<open>component\<close>, a type and a value with the
  canonical order as a \<open>linorder\<close>, is what a component block denotes (\<open>component_of\<close>); the later
  theories are about names made of these.
\<close>

section \<open>Construction\<close>

definition SHA256_DIGEST_SIZE :: nat where "SHA256_DIGEST_SIZE = 32"

definition SEGMENT_MARKER :: byte where "SEGMENT_MARKER = 0x00"
definition SEGMENT_OFFSET_MARKER :: byte where "SEGMENT_OFFSET_MARKER = 0xFB"
definition VERSION_MARKER :: byte where "VERSION_MARKER = 0xFD"
definition TIMESTAMP_MARKER :: byte where "TIMESTAMP_MARKER = 0xFC"
definition SEQUENCE_NUMBER_MARKER :: byte where "SEQUENCE_NUMBER_MARKER = 0xFE"

text \<open>The string \<^verbatim>\<open>sha256digest=\<close>.\<close>

definition getSha256DigestUriPrefix :: str where
  "getSha256DigestUriPrefix = [115, 104, 97, 50, 53, 54, 100, 105, 103, 101, 115, 116, 61]"

definition Component_isGeneric :: "block \<Rightarrow> bool" where
  "Component_isGeneric c \<longleftrightarrow> m_type c = tlv_NameComponent"

definition Component_isImplicitSha256Digest :: "block \<Rightarrow> bool" where
  "Component_isImplicitSha256Digest c \<longleftrightarrow>
     m_type c = tlv_ImplicitSha256DigestComponent \<and> Block_value_size c = SHA256_DIGEST_SIZE"

definition Component_default :: block where
  "Component_default = Block_of_type tlv_NameComponent"

definition Component_of_block :: "block \<Rightarrow> block res" where
  "Component_of_block wire =
     (if \<not> Component_isGeneric wire \<and> \<not> Component_isImplicitSha256Digest wire
      then Inl (ComponentError ''Cannot construct name::Component from not a NameComponent or ImplicitSha256DigestComponent TLV wire block'')
      else Inr wire)"

definition Component_of_buffer :: "byte list \<Rightarrow> block" where
  "Component_of_buffer buffer = Block_of_type_value tlv_NameComponent buffer"

definition Component_of_value :: "byte list \<Rightarrow> block res" where
  "Component_of_value value = makeBinaryBlock tlv_NameComponent value"

definition Component_of_string :: "str \<Rightarrow> block res" where
  "Component_of_string s = makeStringBlock tlv_NameComponent s"

definition Component_fromImplicitSha256Digest :: "byte list \<Rightarrow> block res" where
  "Component_fromImplicitSha256Digest digest =
     (if length digest \<noteq> SHA256_DIGEST_SIZE
      then Inl (ComponentError ''Cannot create ImplicitSha256DigestComponent (input digest must be 32 octets)'')
      else Component_of_block (Block_of_type_value tlv_ImplicitSha256DigestComponent digest))"

definition Component_fromImplicitSha256Digest_raw :: "byte list \<Rightarrow> block res" where
  "Component_fromImplicitSha256Digest_raw digest =
     (if length digest \<noteq> SHA256_DIGEST_SIZE
      then Inl (ComponentError ''Cannot create ImplicitSha256DigestComponent (input digest must be 32 octets)'')
      else case makeBinaryBlock tlv_ImplicitSha256DigestComponent digest of
        Inl e \<Rightarrow> Inl e | Inr b \<Rightarrow> Component_of_block b)"

section \<open>URI\<close>

definition Component_fromEscapedString :: "str \<Rightarrow> nat \<Rightarrow> nat \<Rightarrow> block res" where
  "Component_fromEscapedString escapedString beginOffset endOffset =
     (let trimmedString = trim (slice beginOffset endOffset escapedString);
          prefix = getSha256DigestUriPrefix
      in if take (length prefix) trimmedString = prefix then
           (if length trimmedString \<noteq> length prefix + SHA256_DIGEST_SIZE * 2
            then Inl (ComponentError ''Cannot convert to ImplicitSha256DigestComponent(expected sha256 in hex encoding)'')
            else case fromHex (drop (length prefix) trimmedString) of
              Inl e \<Rightarrow> Inl (ComponentError ''Cannot convert to a ImplicitSha256DigestComponent (invalid hex encoding)'')
            | Inr digest \<Rightarrow> Component_fromImplicitSha256Digest digest)
         else
           let value = unescape trimmedString
           in if \<forall>c \<in> set value. c = 46 then
                (if length value \<le> 2
                 then Inl (ComponentError ''Illegal URI (name component cannot be . or ..)'')
                 else Component_of_value (drop 3 value))
              else Component_of_value value)"

definition uri_unescaped :: "byte \<Rightarrow> bool" where
  "uri_unescaped x \<longleftrightarrow> (0x30 \<le> x \<and> x \<le> 0x39) \<or> (0x41 \<le> x \<and> x \<le> 0x5a) \<or> (0x61 \<le> x \<and> x \<le> 0x7a)
     \<or> x = 0x2b \<or> x = 0x2d \<or> x = 0x2e \<or> x = 0x5f"

definition uri_char :: "byte \<Rightarrow> str" where
  "uri_char x =
     (if uri_unescaped x then [x]
      else 37 # (if x < 16 then [48, hex_digit True x] else hex_pair True x))"

definition Component_toUri :: "block \<Rightarrow> str" where
  "Component_toUri c =
     (if m_type c = tlv_ImplicitSha256DigestComponent
      then printHex getSha256DigestUriPrefix (value_bytes c) False
      else if \<not> (\<exists>x \<in> set (value_bytes c). x \<noteq> 0x2e)
           then [46, 46, 46] @ replicate (length (value_bytes c)) 46
           else concat (map uri_char (value_bytes c)))"

section \<open>Numbers and markers\<close>

definition Component_isNumber :: "block \<Rightarrow> bool" where
  "Component_isNumber c \<longleftrightarrow> Block_value_size c \<in> {1, 2, 4, 8}"

definition Component_isNumberWithMarker :: "block \<Rightarrow> byte \<Rightarrow> bool" where
  "Component_isNumberWithMarker c marker \<longleftrightarrow>
     Block_value_size c \<noteq> 0 \<and> hd (value_bytes c) = marker \<and> Block_value_size c \<in> {2, 3, 5, 9}"

definition Component_toNumber :: "block \<Rightarrow> u64 res" where
  "Component_toNumber c =
     (if \<not> Component_isNumber c
      then Inl (ComponentError ''Name component does not have nonNegativeInteger value'')
      else readNonNegativeInteger_block c)"

definition Component_toNumberWithMarker :: "block \<Rightarrow> byte \<Rightarrow> u64 res" where
  "Component_toNumberWithMarker c marker =
     (if \<not> Component_isNumberWithMarker c marker
      then Inl (ComponentError ''Name component does not have the requested marker or the value is not a nonNegativeInteger'')
      else case readNonNegativeInteger (Block_value_size c - 1) (tl (value_bytes c)) of
        Inl e \<Rightarrow> Inl e | Inr (n, _) \<Rightarrow> Inr n)"

definition Component_fromNumber :: "u64 \<Rightarrow> block res" where
  "Component_fromNumber number =
     (case makeNonNegativeIntegerBlock tlv_NameComponent number of
        Inl e \<Rightarrow> Inl e | Inr b \<Rightarrow> Component_of_block b)"

definition prependNumberWithMarker :: "'s encoding_ops \<Rightarrow> byte \<Rightarrow> u64 \<Rightarrow> ('s, nat) state" where
  "prependNumberWithMarker ops marker number = do {
     k \<leftarrow> op_prependNonNegativeInteger ops number;
     j \<leftarrow> op_prependByteArray ops [marker];
     n \<leftarrow> op_prependVarNumber ops (word_of_nat (k + j));
     m \<leftarrow> op_prependVarNumber ops (ucast tlv_NameComponent);
     State_Monad.return (k + j + n + m)
   }"

definition Component_fromNumberWithMarker :: "byte \<Rightarrow> u64 \<Rightarrow> block res" where
  "Component_fromNumberWithMarker marker number =
     (case estimate_and_encode (prependNumberWithMarker estimator_ops marker number)
             (prependNumberWithMarker encoder_ops marker number) of
        Inl e \<Rightarrow> Inl e | Inr b \<Rightarrow> Component_of_block b)"

definition Component_isVersion :: "block \<Rightarrow> bool" where
  "Component_isVersion c = Component_isNumberWithMarker c VERSION_MARKER"

definition Component_isSegment :: "block \<Rightarrow> bool" where
  "Component_isSegment c = Component_isNumberWithMarker c SEGMENT_MARKER"

definition Component_isSegmentOffset :: "block \<Rightarrow> bool" where
  "Component_isSegmentOffset c = Component_isNumberWithMarker c SEGMENT_OFFSET_MARKER"

definition Component_isTimestamp :: "block \<Rightarrow> bool" where
  "Component_isTimestamp c = Component_isNumberWithMarker c TIMESTAMP_MARKER"

definition Component_isSequenceNumber :: "block \<Rightarrow> bool" where
  "Component_isSequenceNumber c = Component_isNumberWithMarker c SEQUENCE_NUMBER_MARKER"

definition Component_toVersion :: "block \<Rightarrow> u64 res" where
  "Component_toVersion c = Component_toNumberWithMarker c VERSION_MARKER"

definition Component_toSegment :: "block \<Rightarrow> u64 res" where
  "Component_toSegment c = Component_toNumberWithMarker c SEGMENT_MARKER"

definition Component_toSegmentOffset :: "block \<Rightarrow> u64 res" where
  "Component_toSegmentOffset c = Component_toNumberWithMarker c SEGMENT_OFFSET_MARKER"

definition Component_toSequenceNumber :: "block \<Rightarrow> u64 res" where
  "Component_toSequenceNumber c = Component_toNumberWithMarker c SEQUENCE_NUMBER_MARKER"

definition Component_fromVersion :: "u64 \<Rightarrow> block res" where
  "Component_fromVersion version = Component_fromNumberWithMarker VERSION_MARKER version"

definition Component_fromSegment :: "u64 \<Rightarrow> block res" where
  "Component_fromSegment segmentNo = Component_fromNumberWithMarker SEGMENT_MARKER segmentNo"

definition Component_fromSegmentOffset :: "u64 \<Rightarrow> block res" where
  "Component_fromSegmentOffset offset = Component_fromNumberWithMarker SEGMENT_OFFSET_MARKER offset"

definition Component_fromSequenceNumber :: "u64 \<Rightarrow> block res" where
  "Component_fromSequenceNumber seqNo = Component_fromNumberWithMarker SEQUENCE_NUMBER_MARKER seqNo"

section \<open>Comparison\<close>

text \<open>
  \<^verbatim>\<open>std::memcmp\<close> over the common length; the C standard fixes only the sign of its result.
\<close>

fun memcmp :: "byte list \<Rightarrow> byte list \<Rightarrow> int" where
  "memcmp (x # xs) (y # ys) = (if x < y then - 1 else if x > y then 1 else memcmp xs ys)"
| "memcmp _ _ = 0"

definition Component_equals :: "block \<Rightarrow> block \<Rightarrow> bool" where
  "Component_equals c other \<longleftrightarrow>
     m_type c = m_type other \<and> Block_value_size c = Block_value_size other \<and>
     (Block_value_size c = 0 \<or> value_bytes c = value_bytes other)"

definition Component_compare :: "block \<Rightarrow> block \<Rightarrow> int" where
  "Component_compare c other =
     (if Block_hasWire c \<and> Block_hasWire other
      then let n = min (m_size c) (m_size other) in memcmp (take n (wire_bytes c)) (take n (wire_bytes other))
      else let cmpType = sint (m_type c - m_type other)
        in if cmpType \<noteq> 0 then cmpType
        else let cmpSize = sint (word_of_int (int (Block_value_size c) - int (Block_value_size other)) :: u32)
          in if cmpSize \<noteq> 0 then cmpSize
          else if Block_value_size c = 0 then 0
          else memcmp (value_bytes c) (value_bytes other))"

text \<open>
  The loop of \<^verbatim>\<open>getSuccessor\<close>: \<open>i\<close> counts down while the increment overflows. It returns the index
  reached, the overflow flag and the length so far.
\<close>

fun successor_loop :: "byte list \<Rightarrow> nat \<Rightarrow> bool \<Rightarrow> nat \<Rightarrow> (encoder, nat \<times> bool \<times> nat) state" where
  "successor_loop v 0 isOverflow totalLength = State_Monad.return (0, isOverflow, totalLength)"
| "successor_loop v (Suc i) isOverflow totalLength =
     (if isOverflow then do {
        n \<leftarrow> Encoder_prependByte (v ! i + 1);
        successor_loop v i (v ! i + 1 = 0) (totalLength + n)
      } else State_Monad.return (Suc i, isOverflow, totalLength))"

definition successor_encode :: "u32 \<Rightarrow> byte list \<Rightarrow> (encoder, nat) state" where
  "successor_encode type v = do {
     (i, isOverflow, totalLength) \<leftarrow> successor_loop v (length v) True 0;
     n \<leftarrow> Encoder_prependByteArray (take i v);
     m \<leftarrow> (if isOverflow then Encoder_appendByte 0 else State_Monad.return 0);
     _ \<leftarrow> Encoder_prependVarNumber (word_of_nat (totalLength + n + m));
     Encoder_prependVarNumber (ucast type)
   }"

definition Component_getSuccessor :: "block \<Rightarrow> block res" where
  "Component_getSuccessor c =
     (case Block_size c of
        Inl e \<Rightarrow> Inl e
      | Inr sz \<Rightarrow>
          (case Encoder_block (snd (run_state (successor_encode (m_type c) (value_bytes c)) (Encoder_new (sz + 1) 1))) True of
             Inl e \<Rightarrow> Inl e | Inr b \<Rightarrow> Component_of_block b))"

section \<open>Wire encoding\<close>

definition Component_wireEncode_template :: "'s encoding_ops \<Rightarrow> block \<Rightarrow> ('s, nat) state" where
  "Component_wireEncode_template ops c = do {
     totalLength \<leftarrow> (if Block_value_size c > 0 then op_prependByteArray ops (value_bytes c) else State_Monad.return 0);
     n \<leftarrow> op_prependVarNumber ops (word_of_nat (Block_value_size c));
     m \<leftarrow> op_prependVarNumber ops (ucast (m_type c));
     State_Monad.return (totalLength + n + m)
   }"

definition Component_wireEncode :: "block \<Rightarrow> block res" where
  "Component_wireEncode c =
     (if Block_hasWire c then Inr c
      else case estimate_and_encode (Component_wireEncode_template estimator_ops c)
                  (Component_wireEncode_template encoder_ops c) of
        Inl e \<Rightarrow> Inl e | Inr b \<Rightarrow> Component_of_block b)"

definition Component_wireDecode :: "block \<Rightarrow> block res" where
  "Component_wireDecode wire = Component_of_block wire"

section \<open>Abstract components\<close>

datatype component = Component (comp_type: u32) (comp_value: "byte list")

definition component_of :: "block \<Rightarrow> component" where
  "component_of c = Component (m_type c) (value_bytes c)"

text \<open>
  The canonical order: by type, then by length, then by the bytes; values of one length are in
  byte order exactly when the numbers they spell are ordered.
\<close>

instantiation component :: linorder
begin

definition less_component :: "component \<Rightarrow> component \<Rightarrow> bool" where
  "less_component a b \<longleftrightarrow>
     comp_type a < comp_type b \<or> comp_type a = comp_type b \<and>
       (length (comp_value a) < length (comp_value b) \<or>
        length (comp_value a) = length (comp_value b) \<and> be_value (comp_value a) < be_value (comp_value b))"

definition less_eq_component :: "component \<Rightarrow> component \<Rightarrow> bool" where
  "less_eq_component a b \<longleftrightarrow> a < b \<or> a = b"

instance
proof
  fix x y z :: component
  show "(x < y) = (x \<le> y \<and> \<not> y \<le> x)"
    by (auto simp: less_component_def less_eq_component_def)
  show "x \<le> x" by (simp add: less_eq_component_def)
  show "x \<le> y \<Longrightarrow> y \<le> z \<Longrightarrow> x \<le> z"
    by (auto simp: less_component_def less_eq_component_def)
  show "x \<le> y \<Longrightarrow> y \<le> x \<Longrightarrow> x = y"
    by (auto simp: less_component_def less_eq_component_def)
  show "x \<le> y \<or> y \<le> x"
    using be_value_eq_iff [of "comp_value x" "comp_value y"]
      less_linear [of "comp_type x" "comp_type y"] less_linear [of "length (comp_value x)" "length (comp_value y)"]
      less_linear [of "be_value (comp_value x)" "be_value (comp_value y)"]
    by (auto simp: less_component_def less_eq_component_def intro: component.expand)
qed

end

section \<open>memcmp and the canonical order\<close>

lemma memcmp_same_length:
  assumes "length xs = length ys"
  shows "(memcmp xs ys < 0 \<longleftrightarrow> be_value xs < be_value ys) \<and> (memcmp xs ys = 0 \<longleftrightarrow> xs = ys)"
  using assms
proof (induction xs ys rule: list_induct2)
  case (Cons x xs y ys)
  have bx: "be_value xs < 256 ^ length xs" and bys: "be_value ys < 256 ^ length xs"
    using be_value_bound [of xs] be_value_bound [of ys] Cons.hyps by simp_all
  have lt: "a < b \<Longrightarrow> p < N \<Longrightarrow> a * N + p < b * N + q" for a b p q N :: nat
  proof -
    assume "a < b" "p < N"
    then have "a * N + p < Suc a * N" by simp
    also have "\<dots> \<le> b * N" using \<open>a < b\<close> by (intro mult_right_mono) auto
    finally show ?thesis by simp
  qed
  consider "x < y" | "x = y" | "y < x" by force
  then show ?case
  proof cases
    case 1
    then show ?thesis using lt [of "unat x" "unat y"] bx Cons.hyps
      by (auto simp: be_value_Cons word_less_nat_alt)
  next
    case 2
    then show ?thesis using Cons by (simp add: be_value_Cons)
  next
    case 3
    then have "be_value (y # ys) < be_value (x # xs)"
      using lt [of "unat y" "unat x" _ "256 ^ length xs"] bys Cons.hyps by (simp add: be_value_Cons word_less_nat_alt)
    with 3 show ?thesis by (auto dest: less_asym)
  qed
qed simp

lemma memcmp_append_same [simp]: "memcmp (p @ xs) (p @ ys) = memcmp xs ys"
  by (induction p) auto

lemma memcmp_append_diff: "length p = length q \<Longrightarrow> p \<noteq> q \<Longrightarrow> memcmp (p @ xs) (q @ ys) = memcmp p q"
  by (induction p q rule: list_induct2) auto

lemma memcmp_take_min: "memcmp (take (min (length xs) (length ys)) xs) (take (min (length xs) (length ys)) ys) = memcmp xs ys"
  by (induction xs ys rule: memcmp.induct) auto

text \<open>VAR-NUMBERs sort as bytes the way they sort as numbers, whatever follows them.\<close>

lemma memcmp_be_bytes:
  assumes "unat n < 256 ^ k" and "unat m < 256 ^ k" and "n \<noteq> (m :: u64)"
  shows "memcmp (be_bytes k (unat n) @ xs) (be_bytes k (unat m) @ ys) < 0 \<longleftrightarrow> n < m"
    and "memcmp (be_bytes k (unat n) @ xs) (be_bytes k (unat m) @ ys) \<noteq> 0"
proof -
  have ne: "be_bytes k (unat n) \<noteq> be_bytes k (unat m)"
    using assms by (simp add: be_bytes_eq_iff word_unat_eq_iff)
  then have "memcmp (be_bytes k (unat n) @ xs) (be_bytes k (unat m) @ ys) = memcmp (be_bytes k (unat n)) (be_bytes k (unat m))"
    by (simp add: memcmp_append_diff)
  then show "memcmp (be_bytes k (unat n) @ xs) (be_bytes k (unat m) @ ys) < 0 \<longleftrightarrow> n < m"
    "memcmp (be_bytes k (unat n) @ xs) (be_bytes k (unat m) @ ys) \<noteq> 0"
    using memcmp_same_length [of "be_bytes k (unat n)" "be_bytes k (unat m)"] ne assms
    by (simp_all add: be_value_be_bytes word_less_nat_alt)
qed

lemma byte_ucast_less: "n < 253 \<Longrightarrow> m < 253 \<Longrightarrow> (ucast (n :: u64) :: byte) < ucast m \<longleftrightarrow> n < m"
  by (simp add: word_less_nat_alt unat_ucast_to_byte)

lemma memcmp_varNumber:
  assumes "n \<noteq> m"
  shows "(memcmp (varNumber_bytes n @ xs) (varNumber_bytes m @ ys) < 0 \<longleftrightarrow> n < m)
    \<and> memcmp (varNumber_bytes n @ xs) (varNumber_bytes m @ ys) \<noteq> 0"
proof -
  have b: "n \<le> 0xFFFF \<Longrightarrow> unat n < 256 ^ 2" "m \<le> 0xFFFF \<Longrightarrow> unat m < 256 ^ 2"
    "n \<le> 0xFFFFFFFF \<Longrightarrow> unat n < 256 ^ 4" "m \<le> 0xFFFFFFFF \<Longrightarrow> unat m < 256 ^ 4"
    "unat n < 256 ^ 8" "unat m < 256 ^ 8"
    using word_le_unat_bound [of n] word_le_unat_bound [of m] by auto
  have small: "n < 253 \<Longrightarrow> (ucast n :: byte) < 253" "m < 253 \<Longrightarrow> (ucast m :: byte) < 253"
    using small_word_ucast by auto
  consider "n < 253" "m < 253" | "n < 253" "\<not> m < 253" | "\<not> n < 253" "m < 253" | "\<not> n < 253" "\<not> m < 253"
    by blast
  then show ?thesis
  proof cases
    case 1
    then show ?thesis
      using assms byte_ucast_less [of n m] byte_ucast_less [of m n] by (auto simp: varNumber_bytes_eq)
  next
    case 2
    moreover have "n < m" using 2 by simp
    ultimately show ?thesis using small(1) by (auto simp: varNumber_bytes_eq word_less_nat_alt)
  next
    case 3
    moreover have "\<not> n < m" using 3 by simp
    ultimately show ?thesis using small(2) by (auto simp: varNumber_bytes_eq word_less_nat_alt)
  next
    case 4
    then show ?thesis
      using memcmp_be_bytes [OF b(1) b(2) assms, of xs ys] memcmp_be_bytes [OF b(3) b(4) assms, of xs ys]
        memcmp_be_bytes [OF b(5) b(6) assms, of xs ys]
      by (auto simp: varNumber_bytes_eq)
  qed
qed

text \<open>The remark in \<^verbatim>\<open>Component::compare\<close>: TLV wires sort as type, length and value do.\<close>

lemma memcmp_tlv_wire:
  assumes "fits v" and "fits v'"
  shows "(memcmp (tlv_wire t v) (tlv_wire t' v') < 0 \<longleftrightarrow> Component t v < Component t' v')
    \<and> (memcmp (tlv_wire t v) (tlv_wire t' v') = 0 \<longleftrightarrow> Component t v = Component t' v')"
proof -
  have types: "(ucast t :: u64) < ucast t' \<longleftrightarrow> t < t'" "(ucast t :: u64) = ucast t' \<longleftrightarrow> t = t'"
    by (simp_all add: word_less_nat_alt word_unat_eq_iff)
  have lengths: "(word_of_nat (length v) :: u64) < word_of_nat (length v') \<longleftrightarrow> length v < length v'"
    "(word_of_nat (length v) :: u64) = word_of_nat (length v') \<longleftrightarrow> length v = length v'"
    using assms by (simp_all add: word_less_nat_alt word_unat_eq_iff)
  consider "t \<noteq> t'" | "t = t'" "length v \<noteq> length v'" | "t = t'" "length v = length v'" by blast
  then show ?thesis
  proof cases
    case 1
    then show ?thesis using memcmp_varNumber [of "ucast t" "ucast t'"] types
      by (simp add: tlv_wire_def less_component_def)
  next
    case 2
    then show ?thesis using memcmp_varNumber [of "word_of_nat (length v)" "word_of_nat (length v')"] lengths
      by (auto simp: tlv_wire_def less_component_def)
  next
    case 3
    then show ?thesis using memcmp_same_length [of v v'] by (simp add: tlv_wire_def less_component_def)
  qed
qed

section \<open>Blocks that hold a component\<close>

text \<open>
  The blocks a component can be: well formed, of one of the two component types, with the shortest
  wire if there is a wire, and with a value whose length an \<^verbatim>\<open>int\<close> can hold.
\<close>

definition component_block :: "block \<Rightarrow> bool" where
  "component_block c \<longleftrightarrow> block_wf c \<and> m_type c \<in> {tlv_NameComponent, tlv_ImplicitSha256DigestComponent}
     \<and> (Block_hasWire c \<longrightarrow> wire_bytes c = tlv_wire (m_type c) (value_bytes c)) \<and> length (value_bytes c) < 2 ^ 31"

lemma component_block_fits: "component_block c \<Longrightarrow> fits (value_bytes c)"
  by (simp add: component_block_def fits_def)

lemma sint_small: "- (2 ^ 31) \<le> d \<Longrightarrow> d < 2 ^ 31 \<Longrightarrow> sint (word_of_int d :: u32) = d"
  by (simp add: signed_of_int signed_take_bit_int_eq_self)

lemma sint_small_diff:
  fixes a b :: nat
  assumes "a < 2 ^ 31" and "b < 2 ^ 31"
  shows "sint (word_of_int (int a - int b) :: u32) = int a - int b"
  using assms by (intro sint_small) auto

lemma Component_equals_iff: "component_block a \<Longrightarrow> component_block b \<Longrightarrow> Component_equals a b \<longleftrightarrow> component_of a = component_of b"
  by (auto simp: Component_equals_def component_of_def component_block_def wf_value_size)

lemma Component_compare_less:
  assumes "component_block a" and "component_block b"
  shows "(Component_compare a b < 0 \<longleftrightarrow> component_of a < component_of b)
    \<and> (Component_compare a b = 0 \<longleftrightarrow> component_of a = component_of b)"
proof (cases "Block_hasWire a \<and> Block_hasWire b")
  case True
  let ?v = "value_bytes a" and ?w = "value_bytes b"
  have "m_size a = length (tlv_wire (m_type a) ?v)" "m_size b = length (tlv_wire (m_type b) ?w)"
    "wire_bytes a = tlv_wire (m_type a) ?v" "wire_bytes b = tlv_wire (m_type b) ?w"
    using True assms wf_wire_size [of a] wf_wire_size [of b] by (auto simp: component_block_def)
  then have "Component_compare a b = memcmp (tlv_wire (m_type a) ?v) (tlv_wire (m_type b) ?w)"
    using True by (simp add: Component_compare_def Let_def memcmp_take_min)
  then show ?thesis using memcmp_tlv_wire [of ?v ?w] assms by (simp add: component_block_fits component_of_def)
next
  case False
  let ?v = "value_bytes a" and ?w = "value_bytes b"
  have sz: "Block_value_size a = length ?v" "Block_value_size b = length ?w"
    "sint (word_of_int (int (length ?v) - int (length ?w)) :: u32) = int (length ?v) - int (length ?w)"
    using assms wf_value_size [of a] wf_value_size [of b] sint_small_diff [of "length ?v" "length ?w"]
    by (auto simp: component_block_def)
  have ty: "(sint (m_type a - m_type b) < 0 \<longleftrightarrow> m_type a < m_type b) \<and> (sint (m_type a - m_type b) = 0 \<longleftrightarrow> m_type a = m_type b)"
    using assms by (auto simp: component_block_def tlv_codes)
  then show ?thesis
    using False sz memcmp_same_length [of ?v ?w]
    by (auto simp: Component_compare_def Let_def component_of_def less_component_def)
qed

section \<open>Successor\<close>

lemma unat_byte_Suc: "b + 1 \<noteq> 0 \<Longrightarrow> unat (b + 1 :: byte) = Suc (unat b)"
  by (simp add: unatSuc add.commute)

lemma byte_Suc_zero: "(b + 1 :: byte) = 0 \<Longrightarrow> unat b = 255"
proof -
  assume "b + 1 = (0 :: byte)"
  then have "(unat b + 1) mod 256 = 0" using unat_word_ariths(1) [of b 1] by simp
  then show ?thesis using unat_byte_less [of b] by arith
qed

lemma successor_loop_prepends:
  assumes "k \<le> length v"
  shows "\<exists>i ov inc. prepends enc_rel (successor_loop v k True n) inc (i, ov, n + length inc)
    \<and> i + length inc = k \<and> (ov \<longleftrightarrow> be_value (take k v) + 1 = 256 ^ k)
    \<and> be_value (take i v @ inc) = (be_value (take k v) + 1) mod 256 ^ k \<and> (ov \<longrightarrow> i = 0)"
  using assms
proof (induction k arbitrary: n)
  case 0
  then show ?case using prepends_return by (fastforce simp: exI [of _ "[]"])
next
  case (Suc k)
  then have tk: "take (Suc k) v = take k v @ [v ! k]" by (simp add: take_Suc_conv_app_nth)
  let ?new = "v ! k + 1"
  have step: "prepends enc_rel (successor_loop v k (?new = 0) (n + 1)) bs r \<Longrightarrow>
      prepends enc_rel (successor_loop v (Suc k) True n) (bs @ [?new]) r" for bs r
    by (simp only: successor_loop.simps if_True, rule prepends_bind [OF Encoder_prependByte_prepends])
  have bound: "be_value (take k v) < 256 ^ k" using be_value_bound [of "take k v"] Suc.prems by simp
  show ?case
  proof (cases "?new = 0")
    case True
    have "k \<le> length v" using Suc.prems by simp
    from Suc.IH [OF this, of "n + 1"] obtain i ov inc where IH: "prepends enc_rel (successor_loop v k True (n + 1)) inc (i, ov, n + 1 + length inc)"
      "i + length inc = k" "ov \<longleftrightarrow> be_value (take k v) + 1 = 256 ^ k"
      "be_value (take i v @ inc) = (be_value (take k v) + 1) mod 256 ^ k" "ov \<longrightarrow> i = 0"
      by blast
    have "be_value (take (Suc k) v) + 1 = (be_value (take k v) + 1) * 256"
      using tk byte_Suc_zero [OF True] by simp
    moreover have "be_value (take i v @ inc @ [?new]) = be_value (take i v @ inc) * 256"
      using True be_value_snoc [of "take i v @ inc" ?new] by simp
    moreover have "(be_value (take k v) + 1) * 256 mod (256 ^ k * 256) = (be_value (take k v) + 1) mod 256 ^ k * 256"
      by (simp add: mult_mod_left)
    ultimately have val: "be_value (take i v @ inc @ [?new]) = (be_value (take (Suc k) v) + 1) mod 256 ^ Suc k"
      and ov: "ov \<longleftrightarrow> be_value (take (Suc k) v) + 1 = 256 ^ Suc k"
      using IH(3,4) by (auto simp: mult.commute)
    have "prepends enc_rel (successor_loop v (Suc k) True n) (inc @ [?new]) (i, ov, n + length (inc @ [?new]))"
      using step [of inc "(i, ov, n + 1 + length inc)"] IH(1) True by (simp del: successor_loop.simps)
    moreover have "i + length (inc @ [?new]) = Suc k" using IH(2) by simp
    ultimately show ?thesis using val ov IH(5) by blast
  next
    case False
    have "be_value (take (Suc k) v) + 1 = be_value (take k v @ [?new])"
      using tk unat_byte_Suc [OF False] by simp
    moreover have "be_value (take k v @ [?new]) < 256 ^ Suc k"
      using be_value_bound [of "take k v @ [?new]"] Suc.prems by simp
    moreover have "prepends enc_rel (successor_loop v k False (n + 1)) [] (k, False, n + 1)"
      using prepends_return by (cases k) auto
    moreover have "prepends enc_rel (successor_loop v (Suc k) True n) [?new] (k, False, n + length [?new])"
      using step [of "[]" "(k, False, n + 1)"] calculation(3) False by (simp del: successor_loop.simps)
    ultimately show ?thesis
      by (intro exI [of _ k] exI [of _ False] exI [of _ "[?new]"]) (simp del: successor_loop.simps be_value_snoc)
  qed
qed

text \<open>The value of the successor: the next number of the same length, or one more zero byte.\<close>

definition successor_value :: "byte list \<Rightarrow> byte list" where
  "successor_value v =
     (if be_value v + 1 < 256 ^ length v then be_bytes (length v) (be_value v + 1)
      else replicate (Suc (length v)) 0)"

lemma be_value_replicate_0 [simp]: "be_value (replicate k 0) = 0"
  by (induction k) (simp_all add: be_value_Cons)

lemma component_less_successor:
  "Component t v < Component t (successor_value v)"
proof (cases "be_value v + 1 < 256 ^ length v")
  case True
  then have "length (successor_value v) = length v" "be_value (successor_value v) = be_value v + 1"
    by (simp_all add: successor_value_def be_value_be_bytes)
  then show ?thesis by (simp add: less_component_def)
next
  case False
  then show ?thesis by (simp add: less_component_def successor_value_def del: replicate.simps)
qed

lemma component_none_between: "\<not> (Component t v < c \<and> c < Component t (successor_value v))"
proof
  assume a: "Component t v < c \<and> c < Component t (successor_value v)"
  let ?L = "length v" and ?M = "length (comp_value c)"
  show False
  proof (cases "be_value v + 1 < 256 ^ ?L")
    case True
    then have "length (successor_value v) = ?L" "be_value (successor_value v) = be_value v + 1"
      by (simp_all add: successor_value_def be_value_be_bytes)
    with a have "t < comp_type c \<or> t = comp_type c \<and> (?L < ?M \<or> ?L = ?M \<and> be_value v < be_value (comp_value c))"
      "comp_type c < t \<or> comp_type c = t \<and> (?M < ?L \<or> ?M = ?L \<and> be_value (comp_value c) < be_value v + 1)"
      by (simp_all only: less_component_def component.sel)
    then show False by (elim disjE conjE) (simp_all add: word_less_nat_alt)
  next
    case False
    then have s: "length (successor_value v) = Suc ?L" "be_value (successor_value v) = 0"
      by (simp_all add: successor_value_def del: replicate.simps)
    with a have "?M = ?L" "be_value v < be_value (comp_value c)" by (auto simp: less_component_def)
    with False be_value_bound [of "comp_value c"] show False by simp
  qed
qed

text \<open>What the successor's encoder writes.\<close>

lemma successor_bytes:
  assumes "fits (successor_value v)" and "enc_rel [] s"
  shows "enc_rel (tlv_wire t (successor_value v)) (snd (run_state (successor_encode t v) s))"
proof -
  obtain i ov inc where loop: "prepends enc_rel (successor_loop v (length v) True 0) inc (i, ov, length inc)"
    and i: "i + length inc = length v" and ov: "ov \<longleftrightarrow> be_value v + 1 = 256 ^ length v"
    and val: "be_value (take i v @ inc) = (be_value v + 1) mod 256 ^ length v"
    using successor_loop_prepends [of "length v" v 0] by auto
  have len: "length (take i v @ inc) = length v" using i by simp
  let ?tail = "if ov then [0] else ([] :: byte list)"
  have sv: "take i v @ inc @ ?tail = successor_value v"
  proof (cases ov)
    case True
    then have "be_value (take i v @ inc) = be_value (replicate (length v) 0)" using val ov by simp
    then have "take i v @ inc = replicate (length v) 0" using be_value_eq_iff [of "take i v @ inc" "replicate (length v) 0"] len by simp
    then show ?thesis using True ov
      by (simp add: successor_value_def flip: replicate_append_same append_assoc)
  next
    case False
    then have lt: "be_value v + 1 < 256 ^ length v" using ov be_value_bound [of v] by simp
    then have "take i v @ inc = be_bytes (length v) (be_value v + 1)"
      using val len be_bytes_be_value [of "take i v @ inc"] by simp
    then show ?thesis using False lt by (simp add: successor_value_def)
  qed
  define s1 where "s1 = snd (run_state (successor_loop v (length v) True 0) s)"
  define s2 where "s2 = snd (run_state (Encoder_prependByteArray (take i v)) s1)"
  define s3 where "s3 = snd (run_state (if ov then Encoder_appendByte 0 else State_Monad.return 0) s2)"
  have r1: "enc_rel inc s1" "fst (run_state (successor_loop v (length v) True 0) s) = (i, ov, length inc)"
    using prependsD [OF loop assms(2)] by (simp_all add: s1_def)
  have r2: "enc_rel (take i v @ inc) s2" "fst (run_state (Encoder_prependByteArray (take i v)) s1) = i"
    using prependsD [OF Encoder_prependByteArray_prepends r1(1), of "take i v"] i by (simp_all add: s2_def)
  have r3: "enc_rel (successor_value v) s3"
    "fst (run_state (if ov then Encoder_appendByte 0 else State_Monad.return 0) s2) = length ?tail"
    using r2(1) appendsD [OF Encoder_appendByte_appends r2(1), of 0] sv by (auto simp: s3_def)
  have n: "length inc + i + length ?tail = length (successor_value v)"
    using sv i by (auto dest: arg_cong [of _ _ length])
  have n': "ov \<Longrightarrow> length inc + i + 1 = length (successor_value v)" "\<not> ov \<Longrightarrow> length inc + i + 0 = length (successor_value v)"
    using n by simp_all
  have "snd (run_state (successor_encode t v) s) = snd (run_state (Encoder_prependVarNumber (ucast t))
      (snd (run_state (Encoder_prependVarNumber (word_of_nat (length (successor_value v)))) s3)))"
    using r1(2) r2(2) r3(2) n'
    by (cases ov) (simp_all add: successor_encode_def s1_def s2_def s3_def split_beta del: of_nat_add of_nat_Suc)
  then show ?thesis
    using prependsD [OF Encoder_prependVarNumber_prepends prependsD [OF Encoder_prependVarNumber_prepends r3(1), THEN conjunct2]]
    by (simp add: tlv_wire_def)
qed

lemma length_successor_value: "length (successor_value v) \<le> Suc (length v)"
  by (simp add: successor_value_def del: replicate.simps)

lemma Component_getSuccessor_generic:
  assumes "component_block c" and "Component_isGeneric c" and "Block_hasValue c"
  shows "\<exists>b. Component_getSuccessor c = Inr b \<and> component_of b = Component (m_type c) (successor_value (value_bytes c))
           \<and> block_wf b \<and> wire_bytes b = tlv_wire (m_type c) (successor_value (value_bytes c)) \<and> Block_hasWire b"
proof -
  let ?v = "successor_value (value_bytes c)"
  have fits: "fits ?v" using assms(1) length_successor_value [of "value_bytes c"]
    by (simp add: component_block_def fits_def)
  obtain n where n: "Block_size c = Inr n" using assms(3) by (simp add: Block_size_def)
  have "enc_rel (tlv_wire (m_type c) ?v) (snd (run_state (successor_encode (m_type c) (value_bytes c)) (Encoder_new (n + 1) 1)))"
    by (rule successor_bytes [OF fits enc_rel_new])
  from Encoder_block_rel [OF this fits] assms(2) n show ?thesis
    by (auto simp: Component_getSuccessor_def Component_of_block_def Component_isGeneric_def block_tlv_def component_of_def)
qed

section \<open>Component constructors and encodings\<close>

lemma Component_of_value_wire:
  "fits v \<Longrightarrow> \<exists>b. Component_of_value v = Inr b \<and> component_of b = Component tlv_NameComponent v \<and> block_wf b
     \<and> wire_bytes b = tlv_wire tlv_NameComponent v \<and> Block_hasWire b"
  using makeBinaryBlock_wire [of v tlv_NameComponent] by (auto simp: Component_of_value_def block_tlv_def component_of_def)

context encoding_impl
begin

lemma Component_wireEncode_prepends:
  assumes "block_wf c"
  shows "prepends R (Component_wireEncode_template ops c) (tlv_wire (m_type c) (value_bytes c))
           (length (tlv_wire (m_type c) (value_bytes c)))"
proof -
  have v: "prepends R (if Block_value_size c > 0 then op_prependByteArray ops (value_bytes c) else State_Monad.return 0)
      (value_bytes c) (length (value_bytes c))"
    using wf_value_size [OF assms] prependByteArray prepends_return by auto
  show ?thesis unfolding Component_wireEncode_template_def
    by (rule prepends_cong, (rule prepends_bind v prepends_return prependVarNumber)+)
      (simp_all add: tlv_wire_def wf_value_size [OF assms] size_simps)
qed

lemma prependNumberWithMarker_prepends:
  "prepends R (prependNumberWithMarker ops marker n) (tlv_wire tlv_NameComponent (marker # nonNegativeInteger_bytes n))
     (length (tlv_wire tlv_NameComponent (marker # nonNegativeInteger_bytes n)))"
  unfolding prependNumberWithMarker_def
  by (rule prepends_cong, (rule prepends_bind prepends_return prependByteArray prependNonNegativeInteger prependVarNumber)+)
    (simp_all add: tlv_wire_def size_simps)

end

lemma Component_fromNumberWithMarker_wire:
  "\<exists>b. Component_fromNumberWithMarker marker n = Inr b \<and> block_wf b
     \<and> block_tlv b = (tlv_NameComponent, marker # nonNegativeInteger_bytes n)"
proof -
  have "fits (marker # nonNegativeInteger_bytes n)" by (simp add: fits_def nonNegativeInteger_bytes_def)
  from estimate_and_encode_wire [OF est.prependNumberWithMarker_prepends enc.prependNumberWithMarker_prepends this]
  show ?thesis
    by (auto simp: Component_fromNumberWithMarker_def Component_of_block_def Component_isGeneric_def block_tlv_def)
qed

lemma length_nonNegativeInteger: "length (nonNegativeInteger_bytes n) \<in> {1, 2, 4, 8}"
  by (simp add: nonNegativeInteger_bytes_def)

section \<open>URI lemmas\<close>

lemma uri_char_eq: "uri_char x = (if uri_unescaped x then [x] else 37 # hex_pair True x)"
proof -
  have "x < 16 \<Longrightarrow> hex_pair True x = [48, hex_digit True x]"
    by (drule nibble_cases, elim disjE) (simp_all add: hex_pair_def hex_digit_def)
  then show ?thesis by (simp add: uri_char_def)
qed

lemma unescape_uri_char: "unescape (uri_char x @ s) = x # unescape s"
proof -
  have "uri_unescaped x \<Longrightarrow> x \<noteq> 37" by (auto simp: uri_unescaped_def word_le_nat_alt)
  then show ?thesis using unescape_hex [of True x s] unescape_other [of x s] by (auto simp: uri_char_eq)
qed

lemma unescape_uri: "unescape (concat (map uri_char v)) = v"
  by (induction v) (simp_all add: unescape_uri_char)

lemma hex_digit_range: "n < 16 \<Longrightarrow> \<not> is_space (hex_digit u n) \<and> hex_digit u n \<noteq> 61"
  by (drule nibble_cases, elim disjE; cases u) (simp_all add: hex_digit_def is_space_def)

lemma hex_pair_range: "c \<in> set (hex_pair u b) \<Longrightarrow> \<not> is_space c \<and> c \<noteq> 61"
  using hex_digit_range [OF byte_nibbles(1), of u b] hex_digit_range [OF byte_nibbles(2), of u b]
  by (auto simp: hex_pair_def)

lemma word_le_13_not: "uri_unescaped x \<Longrightarrow> \<not> is_space x \<and> x \<noteq> 61"
  by (auto simp: uri_unescaped_def is_space_def word_le_nat_alt)

text \<open>Escaped text has neither white space nor the equals sign of the digest prefix.\<close>

lemma uri_char_range: "c \<in> set (uri_char x) \<Longrightarrow> \<not> is_space c \<and> c \<noteq> 61"
  using hex_pair_range [of c True x] word_le_13_not by (auto simp: uri_char_eq is_space_def split: if_splits)

lemma uri_no_prefix: "take (length getSha256DigestUriPrefix) (concat (map uri_char v)) \<noteq> getSha256DigestUriPrefix"
proof
  assume a: "take (length getSha256DigestUriPrefix) (concat (map uri_char v)) = getSha256DigestUriPrefix"
  have "61 \<in> set getSha256DigestUriPrefix" by (simp add: getSha256DigestUriPrefix_def)
  then have "61 \<in> set (concat (map uri_char v))" using a in_set_takeD by metis
  then show False using uri_char_range by auto
qed

lemma unescape_dots: "unescape (replicate n 46) = replicate n 46"
proof (induction n)
  case (Suc n)
  then show ?case using unescape_other [of 46 "replicate n 46"] by simp
qed simp

lemma dots_no_prefix: "take (length getSha256DigestUriPrefix) (replicate n 46) \<noteq> getSha256DigestUriPrefix"
proof
  assume a: "take (length getSha256DigestUriPrefix) (replicate n 46) = getSha256DigestUriPrefix"
  have "(115 :: byte) \<in> set getSha256DigestUriPrefix" by (simp add: getSha256DigestUriPrefix_def)
  then have "(115 :: byte) \<in> set (replicate n 46)" using a in_set_takeD by metis
  then show False by (simp split: if_splits)
qed

lemma replicate_eq_dots: "\<forall>x \<in> set v. x = y \<Longrightarrow> v = replicate (length v) y"
  by (induction v) auto

lemma uri_generic_roundtrip:
  assumes "m_type c = tlv_NameComponent"
  shows "Component_fromEscapedString (Component_toUri c) 0 (length (Component_toUri c)) = Component_of_value (value_bytes c)"
proof (cases "\<exists>x \<in> set (value_bytes c). x \<noteq> 0x2e")
  case True
  then have uri: "Component_toUri c = concat (map uri_char (value_bytes c))"
    using assms by (simp add: Component_toUri_def tlv_codes)
  have "trim (Component_toUri c) = Component_toUri c"
    unfolding uri using uri_char_range by (intro trim_id) auto
  then show ?thesis
    using True uri_no_prefix [of "value_bytes c"]
    by (auto simp: Component_fromEscapedString_def Let_def uri unescape_uri)
next
  case False
  let ?n = "length (value_bytes c)"
  have uri: "Component_toUri c = replicate (Suc (Suc (Suc ?n))) 46"
    using False assms by (auto simp: Component_toUri_def tlv_codes)
  have "trim (Component_toUri c) = Component_toUri c"
    unfolding uri by (intro trim_id) (auto simp: is_space_def)
  moreover have "drop 3 (replicate (Suc (Suc (Suc ?n))) 46) = value_bytes c"
    using False replicate_eq_dots [of "value_bytes c" 46] by simp
  ultimately show ?thesis
    using dots_no_prefix [of "Suc (Suc (Suc ?n))"] unescape_dots [of "Suc (Suc (Suc ?n))"]
    by (simp add: Component_fromEscapedString_def Let_def uri del: replicate.simps)
qed

lemma uri_digest_roundtrip:
  assumes "m_type c = tlv_ImplicitSha256DigestComponent" and "length (value_bytes c) = SHA256_DIGEST_SIZE"
  shows "Component_fromEscapedString (Component_toUri c) 0 (length (Component_toUri c))
    = Inr (Block_of_type_value tlv_ImplicitSha256DigestComponent (value_bytes c))"
proof -
  have uri: "Component_toUri c = getSha256DigestUriPrefix @ concat (map (hex_pair False) (value_bytes c))"
    using assms by (simp add: Component_toUri_def printHex_def)
  have "trim (Component_toUri c) = Component_toUri c"
    unfolding uri using hex_pair_range by (intro trim_id) (auto simp: getSha256DigestUriPrefix_def is_space_def)
  moreover have "Component_fromImplicitSha256Digest (value_bytes c) = Inr (Block_of_type_value tlv_ImplicitSha256DigestComponent (value_bytes c))"
    using assms by (simp add: Component_fromImplicitSha256Digest_def Component_of_block_def
        Component_isImplicitSha256Digest_def Block_of_type_value_def Block_value_size_def Block_hasValue_def)
  ultimately show ?thesis
    using assms by (simp add: Component_fromEscapedString_def Let_def uri fromHex_hex length_hex)
qed

lemma Component_uri_back:
  assumes "Component_isGeneric c \<or> Component_isImplicitSha256Digest c" and "block_wf c" and "fits (value_bytes c)"
  shows "\<exists>b. Component_fromEscapedString (Component_toUri c) 0 (length (Component_toUri c)) = Inr b
     \<and> component_of b = component_of c"
proof (cases "Component_isGeneric c")
  case True
  then show ?thesis
    using uri_generic_roundtrip [of c] Component_of_value_wire [OF assms(3)]
    by (auto simp: Component_isGeneric_def component_of_def)
next
  case False
  then have "m_type c = tlv_ImplicitSha256DigestComponent" "length (value_bytes c) = SHA256_DIGEST_SIZE"
    using assms(1) wf_value_size [OF assms(2)] by (auto simp: Component_isImplicitSha256Digest_def)
  then show ?thesis
    using uri_digest_roundtrip [of c] by (auto simp: component_of_def Block_of_type_value_def value_bytes_def)
qed

text \<open>Printed components contain no separator of a URI.\<close>

lemma hex_digit_separators: "n < 16 \<Longrightarrow> hex_digit u n \<noteq> 47 \<and> hex_digit u n \<noteq> 58"
  by (drule nibble_cases, elim disjE; cases u) (simp_all add: hex_digit_def)

lemma hex_pair_separators: "c \<in> set (hex_pair u b) \<Longrightarrow> c \<noteq> 47 \<and> c \<noteq> 58"
  using hex_digit_separators [OF byte_nibbles(1), of u b] hex_digit_separators [OF byte_nibbles(2), of u b]
  by (auto simp: hex_pair_def)

lemma uri_char_separators: "c \<in> set (uri_char x) \<Longrightarrow> c \<noteq> 47 \<and> c \<noteq> 58"
  using hex_pair_separators [of c True x]
  by (auto simp: uri_char_eq uri_unescaped_def word_le_nat_alt split: if_splits)

lemma uri_char_not_Nil: "uri_char x \<noteq> []"
  by (simp add: uri_char_eq)

lemma Component_toUri_chars:
  assumes "x \<in> set (Component_toUri c)"
  shows "\<not> is_space x \<and> x \<noteq> 47 \<and> x \<noteq> 58"
proof (cases "m_type c = tlv_ImplicitSha256DigestComponent")
  case True
  then show ?thesis using assms hex_pair_range [of x False] hex_pair_separators [of x False]
    by (auto simp: Component_toUri_def printHex_def getSha256DigestUriPrefix_def is_space_def)
next
  case False
  then show ?thesis using assms uri_char_range [of x] uri_char_separators [of x]
    by (auto simp: Component_toUri_def is_space_def split: if_splits)
qed

lemma Component_toUri_not_Nil: "Component_toUri c \<noteq> []"
  by (auto simp: Component_toUri_def printHex_def getSha256DigestUriPrefix_def uri_char_not_Nil)

section \<open>Properties\<close>

text \<open>
  On components whose wire, if any, is the shortest encoding, \<^verbatim>\<open>Component::compare\<close> decides the canonical order
  whichever of its two branches runs: on wires it compares bytes, otherwise type, then size, then value, and
  both give the sign of the same linear order; it returns 0 exactly when \<^verbatim>\<open>equals\<close> holds.
  For longer wires see \<open>Component_compare_nonminimal\<close>.
\<close>

theorem Component_compare_canonical:
  assumes "component_block a" and "component_block b"
  shows "(Component_compare a b < 0 \<longleftrightarrow> component_of a < component_of b)
    \<and> (Component_compare a b = 0 \<longleftrightarrow> Component_equals a b)
    \<and> (Component_compare a b > 0 \<longleftrightarrow> component_of b < component_of a)"
  using Component_compare_less [OF assms] Component_equals_iff [OF assms] by auto

theorem Component_compare_canonical_witness:
  "component_block (Component_of_buffer [255]) \<and> component_block (Component_of_buffer [0, 0])
   \<and> Component_compare (Component_of_buffer [255]) (Component_of_buffer [0, 0]) < 0"
proof -
  have c: "component_block (Component_of_buffer [255])" "component_block (Component_of_buffer [0, 0])"
    by (simp_all add: component_block_def Component_of_buffer_def Block_of_type_value_wf)
      (simp_all add: Block_of_type_value_def Block_hasWire_def value_bytes_def)
  then show ?thesis using Component_compare_canonical [OF c]
    by (simp add: component_of_def less_component_def Component_of_buffer_def Block_of_type_value_def value_bytes_def)
qed

text \<open>
  The shortcut on wires is only right for shortest encodings. The decoder accepts a length
  written with more bytes than needed, and then two components that \<^verbatim>\<open>equals\<close> calls equal compare as
  different: here \<open>08 01 61\<close> and \<open>08 fd 00 01 61\<close>.
\<close>

theorem Component_compare_nonminimal:
  "\<exists>a b. Block_of_bytes [8, 1, 97] = Inr a \<and> Block_of_bytes [8, 253, 0, 1, 97] = Inr b
     \<and> Component_of_block a = Inr a \<and> Component_of_block b = Inr b
     \<and> Component_equals a b \<and> Component_compare a b \<noteq> 0"
  by (simp add: Block_of_bytes_def readType_throw_def readVarNumber_throw_def readVarNumber_def Let_def be_toh_def be_value_def)
    (simp add: Component_of_block_def Component_isGeneric_def tlv_codes Component_equals_def Block_value_size_def
      Block_hasValue_def value_bytes_def slice_def Component_compare_def Block_hasWire_def wire_bytes_def)

text \<open>
  C35: \<^verbatim>\<open>getSuccessor\<close> of a generic component returns the least component greater than it in the
  canonical order: nothing lies between the two.
\<close>

theorem Component_getSuccessor_least:
  assumes "component_block c" and "Component_isGeneric c" and "Block_hasValue c"
  shows "\<exists>b. Component_getSuccessor c = Inr b \<and> component_of c < component_of b
     \<and> (\<forall>d. \<not> (component_of c < d \<and> d < component_of b))"
proof -
  obtain b where "Component_getSuccessor c = Inr b" "component_of b = Component (m_type c) (successor_value (value_bytes c))"
    using Component_getSuccessor_generic [OF assms] by blast
  then show ?thesis
    using component_less_successor [of "m_type c" "value_bytes c"] component_none_between [of "m_type c" "value_bytes c"]
    by (auto simp: component_of_def)
qed

theorem Component_getSuccessor_least_witness:
  "\<exists>b. Component_getSuccessor (Component_of_buffer [97, 255]) = Inr b \<and> Component 8 [97, 255] < component_of b"
proof -
  have c: "component_block (Component_of_buffer [97, 255])"
    by (simp add: component_block_def Component_of_buffer_def Block_of_type_value_wf)
      (simp add: Block_of_type_value_def Block_hasWire_def value_bytes_def)
  moreover have "Component_isGeneric (Component_of_buffer [97, 255])" "Block_hasValue (Component_of_buffer [97, 255])"
    "component_of (Component_of_buffer [97, 255]) = Component 8 [97, 255]"
    by (simp_all add: Component_isGeneric_def Component_of_buffer_def Block_of_type_value_def Block_hasValue_def
        component_of_def value_bytes_def tlv_codes)
  ultimately show ?thesis using Component_getSuccessor_least [OF c] by auto
qed

text \<open>
  A component printed by \<^verbatim>\<open>toUri\<close> is read back by \<^verbatim>\<open>fromEscapedString\<close> with the same type and the
  same bytes: values of any bytes, of periods only, empty ones, and implicit digests.
\<close>

theorem Component_uri_roundtrip:
  assumes "Component_isGeneric c \<or> Component_isImplicitSha256Digest c" and "block_wf c" and "fits (value_bytes c)"
  shows "\<exists>b. Component_fromEscapedString (Component_toUri c) 0 (length (Component_toUri c)) = Inr b
     \<and> component_of b = component_of c"
  using assms by (rule Component_uri_back)

theorem Component_uri_roundtrip_witness:
  "Component_toUri (Component_of_buffer [46, 47]) = [46, 37, 50, 70] \<and>
   (\<exists>b. Component_fromEscapedString [46, 37, 50, 70] 0 4 = Inr b \<and> component_of b = Component 8 [46, 47])"
proof -
  let ?c = "Component_of_buffer [46, 47]"
  have u: "Component_toUri ?c = [46, 37, 50, 70]"
    by (simp add: Component_toUri_def Component_of_buffer_def Block_of_type_value_def value_bytes_def tlv_codes
        uri_char_def uri_unescaped_def hex_pair_def hex_digit_def)
  have "Component_isGeneric ?c" "block_wf ?c" "fits (value_bytes ?c)" "component_of ?c = Component 8 [46, 47]"
    by (simp_all add: Component_of_buffer_def Block_of_type_value_wf)
      (simp_all add: Component_isGeneric_def Block_of_type_value_def value_bytes_def fits_def component_of_def tlv_codes)
  then show ?thesis using Component_uri_roundtrip [of ?c] u by (auto simp: eval_nat_numeral)
qed

text \<open>
  Naming conventions. A number stored in a component with a marker (segment, segment offset,
  version, sequence number) is recognised and read back under that marker, is not recognised under
  another, and reading it under another marker raises the documented error.
\<close>

theorem Component_marker_roundtrip:
  "\<exists>b. Component_fromNumberWithMarker marker n = Inr b \<and> Component_isNumberWithMarker b marker
     \<and> Component_toNumberWithMarker b marker = Inr n
     \<and> (\<forall>other. other \<noteq> marker \<longrightarrow> \<not> Component_isNumberWithMarker b other
          \<and> (\<exists>e. Component_toNumberWithMarker b other = Inl (ComponentError e)))"
proof -
  obtain b where b: "Component_fromNumberWithMarker marker n = Inr b" "block_wf b"
    "value_bytes b = marker # nonNegativeInteger_bytes n"
    using Component_fromNumberWithMarker_wire [of marker n] by (auto simp: block_tlv_def)
  have "Block_value_size b = Suc (length (nonNegativeInteger_bytes n))"
    using wf_value_size [OF b(2)] b(3) by simp
  then show ?thesis
    using b length_nonNegativeInteger [of n] nonNegativeInteger_roundtrip [of n "[]"]
    by (auto simp: Component_isNumberWithMarker_def Component_toNumberWithMarker_def)
qed

theorem Component_marker_roundtrip_witness:
  "\<exists>b. Component_fromSegment 7 = Inr b \<and> Component_isSegment b \<and> Component_toSegment b = Inr 7 \<and> \<not> Component_isVersion b"
proof -
  have "VERSION_MARKER \<noteq> SEGMENT_MARKER" by (simp add: VERSION_MARKER_def SEGMENT_MARKER_def)
  then show ?thesis using Component_marker_roundtrip [of SEGMENT_MARKER 7]
    by (auto simp: Component_fromSegment_def Component_isSegment_def Component_toSegment_def Component_isVersion_def)
qed

end
