(* ===== verification/Name.thy ===== *)
theory Name
  imports NameComponent "HOL-Library.List_Lexorder"
begin

text \<open>
  Names, \<^verbatim>\<open>ndn-cxx/src/name.cpp\<close> and \<^verbatim>\<open>name.hpp\<close>. The class has one member, the block
  \<^verbatim>\<open>m_nameBlock\<close>, whose elements are the components; a name here is that block. \<open>name_of\<close> is the list
  of abstract components it denotes, and the canonical order of names is the lexicographic order of
  those lists.
\<close>

type_synonym name = block

definition npos :: u64 where "npos = - 1"

section \<open>Construction and access\<close>

definition Name_default :: name where
  "Name_default = Block_of_type tlv_Name"

definition Name_of_block :: "block \<Rightarrow> name res" where
  "Name_of_block wire = (case Block_parse wire of (Some e, _) \<Rightarrow> Inl e | (None, b) \<Rightarrow> Inr b)"

definition Name_empty :: "name \<Rightarrow> bool" where
  "Name_empty n \<longleftrightarrow> m_subBlocks n = []"

definition Name_size :: "name \<Rightarrow> nat" where
  "Name_size n = length (m_subBlocks n)"

definition Name_clear :: "name \<Rightarrow> name" where
  "Name_clear n = Block_of_type tlv_Name"

text \<open>
  \<^verbatim>\<open>get\<close> indexes the vector of elements without a check, so an index out of range is undefined;
  \<^verbatim>\<open>at\<close> checks. Negative indices count from the end.
\<close>

definition Name_get :: "name \<Rightarrow> int \<Rightarrow> block res" where
  "Name_get n i =
     (let k = (if i \<ge> 0 then i else int (Name_size n) + i)
      in if 0 \<le> k \<and> k < int (Name_size n) then Inr (m_subBlocks n ! nat k)
         else Inl (UndefinedBehaviour ''vector index out of range''))"

definition Name_at :: "name \<Rightarrow> int \<Rightarrow> block res" where
  "Name_at n i =
     (if (i \<ge> 0 \<and> nat i \<ge> Name_size n) \<or> (i < 0 \<and> nat (- i) > Name_size n)
      then Inl (NameError ''Requested component does not exist (out of bounds)'')
      else Name_get n i)"

section \<open>Appending\<close>

definition Name_append :: "name \<Rightarrow> block \<Rightarrow> name" where
  "Name_append n c = Block_push_back n c"

text \<open>The \<^verbatim>\<open>append\<close> functions that build a component first; its exception leaves the name alone.\<close>

definition Name_append_made :: "name \<Rightarrow> block res \<Rightarrow> name res" where
  "Name_append_made n c = (case c of Inl e \<Rightarrow> Inl e | Inr b \<Rightarrow> Inr (Block_push_back n b))"

definition Name_append_value :: "name \<Rightarrow> byte list \<Rightarrow> name res" where
  "Name_append_value n value = Name_append_made n (Component_of_value value)"

definition Name_append_string :: "name \<Rightarrow> str \<Rightarrow> name res" where
  "Name_append_string n value = Name_append_made n (Component_of_string value)"

definition Name_append_block :: "name \<Rightarrow> block \<Rightarrow> name res" where
  "Name_append_block n value =
     (if m_type value = tlv_NameComponent then Inr (Block_push_back n value)
      else Name_append_made n (Block_of_type_block tlv_NameComponent value))"

definition Name_append_name :: "name \<Rightarrow> name \<Rightarrow> name" where
  "Name_append_name n m = foldl Name_append n (m_subBlocks m)"

definition Name_appendNumber :: "name \<Rightarrow> u64 \<Rightarrow> name res" where
  "Name_appendNumber n number = Name_append_made n (Component_fromNumber number)"

definition Name_appendNumberWithMarker :: "name \<Rightarrow> byte \<Rightarrow> u64 \<Rightarrow> name res" where
  "Name_appendNumberWithMarker n marker number = Name_append_made n (Component_fromNumberWithMarker marker number)"

definition Name_appendVersion :: "name \<Rightarrow> u64 \<Rightarrow> name res" where
  "Name_appendVersion n version = Name_append_made n (Component_fromVersion version)"

definition Name_appendSegment :: "name \<Rightarrow> u64 \<Rightarrow> name res" where
  "Name_appendSegment n segmentNo = Name_append_made n (Component_fromSegment segmentNo)"

definition Name_appendSegmentOffset :: "name \<Rightarrow> u64 \<Rightarrow> name res" where
  "Name_appendSegmentOffset n offset = Name_append_made n (Component_fromSegmentOffset offset)"

definition Name_appendSequenceNumber :: "name \<Rightarrow> u64 \<Rightarrow> name res" where
  "Name_appendSequenceNumber n seqNo = Name_append_made n (Component_fromSequenceNumber seqNo)"

definition Name_appendImplicitSha256Digest :: "name \<Rightarrow> byte list \<Rightarrow> name res" where
  "Name_appendImplicitSha256Digest n digest = Name_append_made n (Component_fromImplicitSha256Digest digest)"

definition Name_appendImplicitSha256Digest_raw :: "name \<Rightarrow> byte list \<Rightarrow> name res" where
  "Name_appendImplicitSha256Digest_raw n digest = Name_append_made n (Component_fromImplicitSha256Digest_raw digest)"

section \<open>URI\<close>

text \<open>\<^verbatim>\<open>std::string::find(c, from)\<close>, \<open>None\<close> for \<^verbatim>\<open>std::string::npos\<close>.\<close>

definition find_char :: "byte \<Rightarrow> str \<Rightarrow> nat \<Rightarrow> nat option" where
  "find_char c s from = List.find (\<lambda>i. s ! i = c) [from..<length s]"

lemma find_char_ge: "find_char c s from = Some i \<Longrightarrow> from \<le> i \<and> i < length s \<and> s ! i = c"
  by (auto simp: find_char_def find_Some_iff)

text \<open>The loop that unescapes the components between the slashes.\<close>

function Name_parse_components :: "str \<Rightarrow> nat \<Rightarrow> name \<Rightarrow> name res" where
  "Name_parse_components uri iComponentStart n =
     (if iComponentStart < length uri then
        (let iComponentEnd = (case find_char 47 uri iComponentStart of None \<Rightarrow> length uri | Some i \<Rightarrow> i)
         in case Component_fromEscapedString uri iComponentStart iComponentEnd of
              Inl e \<Rightarrow> Inl e
            | Inr c \<Rightarrow> Name_parse_components uri (iComponentEnd + 1) (Name_append n c))
      else Inr n)"
  by pat_completeness auto

termination
  by (relation "measure (\<lambda>(uri, i, n). length uri - i)")
    (auto split: option.splits dest!: find_char_ge)

definition uri_strip_scheme :: "str \<Rightarrow> str" where
  "uri_strip_scheme uri =
     (case find_char 58 uri 0 of
        None \<Rightarrow> uri
      | Some iColon \<Rightarrow>
          (case find_char 47 uri 0 of
             None \<Rightarrow> trim (drop (iColon + 1) uri)
           | Some iFirstSlash \<Rightarrow>
               if iColon < iFirstSlash then trim (drop (iColon + 1) uri) else uri))"

text \<open>\<open>None\<close> is the unusual case of an authority and nothing else, where the constructor returns.\<close>

definition uri_strip_slash :: "str \<Rightarrow> str option" where
  "uri_strip_slash uri =
     (if uri \<noteq> [] \<and> hd uri = 47 then
        (if length uri \<ge> 2 \<and> uri ! 1 = 47 then
           (case find_char 47 uri 2 of
              None \<Rightarrow> None
            | Some iAfterAuthority \<Rightarrow> Some (trim (drop (iAfterAuthority + 1) uri)))
         else Some (trim (drop 1 uri)))
      else Some uri)"

text \<open>This constructor leaves \<^verbatim>\<open>m_nameBlock\<close> default-constructed, without the type \<^verbatim>\<open>tlv::Name\<close>.\<close>

definition Name_of_uri :: "str \<Rightarrow> name res" where
  "Name_of_uri uri =
     (let uri1 = trim uri
      in if uri1 = [] then Inr Block_default
         else case uri_strip_slash (uri_strip_scheme uri1) of
             None \<Rightarrow> Inr Block_default
           | Some uri2 \<Rightarrow> Name_parse_components uri2 0 Block_default)"

definition Name_toUri :: "name \<Rightarrow> str" where
  "Name_toUri n =
     (if Name_empty n then [47]
      else concat (map (\<lambda>c. 47 # Component_toUri c) (m_subBlocks n)))"

section \<open>Wire encoding\<close>

fun Name_encode_components :: "'s encoding_ops \<Rightarrow> block list \<Rightarrow> nat \<Rightarrow> ('s, nat) state" where
  "Name_encode_components ops [] totalLength = State_Monad.return totalLength"
| "Name_encode_components ops (i # is) totalLength = do {
     k \<leftarrow> Component_wireEncode_template ops i;
     Name_encode_components ops is (totalLength + k)
   }"

definition Name_wireEncode_template :: "'s encoding_ops \<Rightarrow> name \<Rightarrow> ('s, nat) state" where
  "Name_wireEncode_template ops n = do {
     totalLength \<leftarrow> Name_encode_components ops (rev (m_subBlocks n)) 0;
     k \<leftarrow> op_prependVarNumber ops (word_of_nat totalLength);
     j \<leftarrow> op_prependVarNumber ops (ucast tlv_Name);
     State_Monad.return (totalLength + k + j)
   }"

definition Name_wireEncode :: "name \<Rightarrow> name res" where
  "Name_wireEncode n =
     (if Block_hasWire n then Inr n
      else case estimate_and_encode (Name_wireEncode_template estimator_ops n) (Name_wireEncode_template encoder_ops n) of
        Inl e \<Rightarrow> Inl e
      | Inr b \<Rightarrow> (case Block_parse b of (Some e, _) \<Rightarrow> Inl e | (None, b') \<Rightarrow> Inr b'))"

text \<open>\<^verbatim>\<open>wireDecode\<close> returns the exception, if any, and the name as it is left then.\<close>

definition Name_wireDecode :: "name \<Rightarrow> block \<Rightarrow> error option \<times> name" where
  "Name_wireDecode n wire =
     (if m_type wire \<noteq> tlv_Name then (Some (TlvError ''Unexpected TLV type when decoding Name''), n)
      else Block_parse wire)"

definition Name_deepCopy :: "name \<Rightarrow> name res" where
  "Name_deepCopy n = Name_wireEncode (Block_resetWire n)"

section \<open>Sub-names and successor\<close>

definition Name_getSubName :: "name \<Rightarrow> int \<Rightarrow> u64 \<Rightarrow> name" where
  "Name_getSubName n iStartComponent nComponents =
     (let iStart0 = (if iStartComponent < 0 then sint (word_of_nat (Name_size n) + word_of_int iStartComponent :: u64)
                     else iStartComponent);
          iStart = max iStart0 0;
          iEnd = (if nComponents \<noteq> npos then min (Name_size n) (unat (word_of_int iStart + nComponents)) else Name_size n)
      in foldl Name_append Name_default (slice (nat iStart) iEnd (m_subBlocks n)))"

definition Name_getPrefix :: "name \<Rightarrow> int \<Rightarrow> name" where
  "Name_getPrefix n nComponents =
     (if nComponents < 0 then Name_getSubName n 0 (word_of_nat (Name_size n) + word_of_int nComponents)
      else Name_getSubName n 0 (word_of_int nComponents))"

definition Name_getSuccessor :: "name \<Rightarrow> name res" where
  "Name_getSuccessor n =
     (if Name_empty n then Name_append_value Name_default [0]
      else case Name_get n (- 1) of
             Inl e \<Rightarrow> Inl e
           | Inr c \<Rightarrow> Name_append_made (Name_getPrefix n (- 1)) (Component_getSuccessor c))"

section \<open>Comparison\<close>

definition Name_equals :: "name \<Rightarrow> name \<Rightarrow> bool" where
  "Name_equals n name \<longleftrightarrow> Name_size n = Name_size name \<and>
     list_all (\<lambda>i. Component_equals (m_subBlocks n ! i) (m_subBlocks name ! i)) [0..<Name_size n]"

definition Name_isPrefixOf :: "name \<Rightarrow> name \<Rightarrow> bool" where
  "Name_isPrefixOf n name \<longleftrightarrow> \<not> Name_size n > Name_size name \<and>
     list_all (\<lambda>i. Component_equals (m_subBlocks n ! i) (m_subBlocks name ! i)) [0..<Name_size n]"

text \<open>The loop of \<^verbatim>\<open>compare\<close> over the remaining \<open>k\<close> of \<open>count\<close> positions; \<open>0\<close> when all are equal.\<close>

fun Name_compare_loop :: "name \<Rightarrow> u64 \<Rightarrow> name \<Rightarrow> u64 \<Rightarrow> nat \<Rightarrow> nat \<Rightarrow> int res" where
  "Name_compare_loop n pos1 other pos2 i 0 = Inr 0"
| "Name_compare_loop n pos1 other pos2 i (Suc k) =
     (case Name_at n (sint (pos1 + word_of_nat i)) of
        Inl e \<Rightarrow> Inl e
      | Inr c \<Rightarrow>
          (case Name_at other (sint (pos2 + word_of_nat i)) of
             Inl e \<Rightarrow> Inl e
           | Inr d \<Rightarrow>
               (let cmp = Component_compare c d
                in if cmp \<noteq> 0 then Inr cmp
                   else Name_compare_loop n pos1 other pos2 (Suc i) k)))"

definition Name_compare :: "name \<Rightarrow> u64 \<Rightarrow> u64 \<Rightarrow> name \<Rightarrow> u64 \<Rightarrow> u64 \<Rightarrow> int res" where
  "Name_compare n pos1 count1 other pos2 count2 =
     (let count1' = min count1 (word_of_nat (Name_size n) - pos1);
          count2' = min count2 (word_of_nat (Name_size other) - pos2);
          count = min count1' count2'
      in case Name_compare_loop n pos1 other pos2 0 (unat count) of
           Inl e \<Rightarrow> Inl e
         | Inr cmp \<Rightarrow> if cmp \<noteq> 0 then Inr cmp else Inr (sint (ucast (count1' - count2') :: u32)))"

definition Name_compare_all :: "name \<Rightarrow> name \<Rightarrow> int res" where
  "Name_compare_all n other = Name_compare n 0 npos other 0 npos"

section \<open>Names as lists of components\<close>

definition name_of :: "name \<Rightarrow> component list" where
  "name_of n = map component_of (m_subBlocks n)"

definition name_block :: "name \<Rightarrow> bool" where
  "name_block n \<longleftrightarrow> (\<forall>c \<in> set (m_subBlocks n). component_block c) \<and> length (m_subBlocks n) < 2 ^ 31"

lemma subBlocks_append [simp]: "m_subBlocks (Name_append n c) = m_subBlocks n @ [c]"
  by (simp add: Name_append_def Block_push_back_def Block_with_elements_def)

lemma subBlocks_default [simp]: "m_subBlocks Name_default = []" "m_subBlocks Block_default = []"
  by (simp_all add: Name_default_def Block_of_type_def Block_default_def)

lemma subBlocks_foldl_append [simp]: "m_subBlocks (foldl Name_append n cs) = m_subBlocks n @ cs"
  by (induction cs arbitrary: n) auto

lemma name_of_append [simp]: "name_of (Name_append n c) = name_of n @ [component_of c]"
  by (simp add: name_of_def)

lemma name_of_append_name [simp]: "name_of (Name_append_name n m) = name_of n @ name_of m"
  by (simp add: name_of_def Name_append_name_def)

lemma length_name_of [simp]: "length (name_of n) = Name_size n"
  by (simp add: name_of_def Name_size_def)

lemma name_of_default [simp]: "name_of Name_default = []" "name_of Block_default = []"
  by (simp_all add: name_of_def)

lemma name_block_nth: "name_block n \<Longrightarrow> i < Name_size n \<Longrightarrow> component_block (m_subBlocks n ! i)"
  by (simp add: name_block_def Name_size_def)

lemma name_of_nth [simp]: "i < Name_size n \<Longrightarrow> name_of n ! i = component_of (m_subBlocks n ! i)"
  by (simp add: name_of_def Name_size_def)

lemma name_block_size: "name_block n \<Longrightarrow> Name_size n < 2 ^ 31"
  by (simp add: name_block_def Name_size_def)

section \<open>Comparison of names\<close>

lemma sint_nat: "k < 2 ^ 63 \<Longrightarrow> sint (word_of_nat k :: u64) = int k"
  by (simp add: signed_of_nat signed_take_bit_int_eq_self)

lemma Name_at_nat: "i < Name_size n \<Longrightarrow> Name_at n (int i) = Inr (m_subBlocks n ! i)"
  by (simp add: Name_at_def Name_get_def)

lemma Name_compare_loop_lex:
  assumes "name_block n" and "name_block m" and "p + i + k \<le> Name_size n" and "q + i + k \<le> Name_size m"
  shows "\<exists>c. Name_compare_loop n (word_of_nat p) m (word_of_nat q) i k = Inr c
     \<and> (c < 0 \<longleftrightarrow> slice (p + i) (p + i + k) (name_of n) < slice (q + i) (q + i + k) (name_of m))
     \<and> (c = 0 \<longleftrightarrow> slice (p + i) (p + i + k) (name_of n) = slice (q + i) (q + i + k) (name_of m))"
  using assms(3,4)
proof (induction k arbitrary: i)
  case 0
  then show ?case by simp
next
  case (Suc k)
  have sz: "Name_size n < 2 ^ 31" "Name_size m < 2 ^ 31" using assms name_block_size by auto
  have at: "Name_at n (sint (word_of_nat p + word_of_nat i :: u64)) = Inr (m_subBlocks n ! (p + i))"
    "Name_at m (sint (word_of_nat q + word_of_nat i :: u64)) = Inr (m_subBlocks m ! (q + i))"
    using Suc.prems sz sint_nat [of "p + i"] sint_nat [of "q + i"]
      Name_at_nat [of "p + i" n] Name_at_nat [of "q + i" m] by simp_all
  have sl: "slice (p + i) (p + i + Suc k) (name_of n) = component_of (m_subBlocks n ! (p + i)) # slice (p + Suc i) (p + Suc i + k) (name_of n)"
    "slice (q + i) (q + i + Suc k) (name_of m) = component_of (m_subBlocks m ! (q + i)) # slice (q + Suc i) (q + Suc i + k) (name_of m)"
    using Suc.prems Cons_nth_drop_Suc [of "p + i" "name_of n"] Cons_nth_drop_Suc [of "q + i" "name_of m"]
    by (simp_all add: slice_def flip: Cons_nth_drop_Suc)
  have "component_block (m_subBlocks n ! (p + i))" "component_block (m_subBlocks m ! (q + i))"
    using Suc.prems assms name_block_nth by auto
  note cmp = Component_compare_less [OF this]
  show ?case
  proof (cases "Component_compare (m_subBlocks n ! (p + i)) (m_subBlocks m ! (q + i)) = 0")
    case True
    then show ?thesis using Suc.IH [of "Suc i"] Suc.prems cmp unfolding sl by (simp add: at)
  next
    case False
    then show ?thesis using cmp unfolding sl by (auto simp: at)
  qed
qed

lemma lex_prefix_cut:
  fixes xs ys :: "'a :: linorder list"
  shows "xs < ys \<longleftrightarrow> (let k = min (length xs) (length ys) in
     take k xs < take k ys \<or> take k xs = take k ys \<and> length xs < length ys)"
proof (induction xs arbitrary: ys)
  case (Cons x xs)
  then show ?case by (cases ys) (auto simp: Let_def)
next
  case Nil
  then show ?case by (cases ys) auto
qed

lemma lex_prefix_eq: "xs = ys \<longleftrightarrow> (let k = min (length xs) (length ys) in take k xs = take k ys \<and> length xs = length ys)"
  by (auto simp: Let_def)

lemma sint_u32_diff:
  assumes "a < 2 ^ 31" and "b < 2 ^ 31"
  shows "sint (ucast (word_of_nat a - word_of_nat b :: u64) :: u32) = int a - int b"
proof -
  have "(ucast (word_of_nat a - word_of_nat b :: u64) :: u32) = word_of_int (int a - int b)"
    by transfer simp
  then show ?thesis using sint_small_diff [OF assms] by simp
qed

lemma min_count:
  assumes "sz < 2 ^ 31" and "p \<le> sz"
  shows "min c (word_of_nat sz - word_of_nat p) = (word_of_nat (min (unat c) (sz - p)) :: u64)"
proof -
  have "(word_of_nat sz - word_of_nat p :: u64) = word_of_nat (sz - p)" using assms by (simp add: of_nat_diff)
  moreover have "sz - p < 2 ^ 64" using assms(1) by simp
  then have "unat (word_of_nat (sz - p) :: u64) = sz - p" by (simp add: unat_of_nat)
  ultimately show ?thesis by (auto simp: min_def word_le_nat_alt)
qed

lemma Name_compare_sub:
  fixes c1 c2 :: u64
  assumes "name_block n" and "name_block m" and "p \<le> Name_size n" and "q \<le> Name_size m"
  defines "xs \<equiv> take (unat c1) (drop p (name_of n))" and "ys \<equiv> take (unat c2) (drop q (name_of m))"
  shows "\<exists>c. Name_compare n (word_of_nat p) c1 m (word_of_nat q) c2 = Inr c \<and> (c < 0 \<longleftrightarrow> xs < ys) \<and> (c = 0 \<longleftrightarrow> xs = ys)"
proof -
  let ?a = "min (unat c1) (Name_size n - p)" and ?b = "min (unat c2) (Name_size m - q)"
  have sz: "Name_size n < 2 ^ 31" "Name_size m < 2 ^ 31" using assms name_block_size by auto
  have ab: "?a < 2 ^ 31" "?b < 2 ^ 31" "p + min ?a ?b \<le> Name_size n" "q + min ?a ?b \<le> Name_size m"
    using sz assms(3,4) by auto
  have mi: "unat (min (word_of_nat ?a) (word_of_nat ?b) :: u64) = min ?a ?b"
    using ab(1,2) by (simp add: min_def word_le_nat_alt unat_of_nat)
  have cut: "slice p (p + min ?a ?b) (name_of n) = take (min ?a ?b) xs" "slice q (q + min ?a ?b) (name_of m) = take (min ?a ?b) ys"
    "length xs = ?a" "length ys = ?b"
    using assms(3,4) by (simp_all add: slice_def xs_def ys_def min.commute)
  obtain c where c: "Name_compare_loop n (word_of_nat p) m (word_of_nat q) 0 (min ?a ?b) = Inr c"
    "c < 0 \<longleftrightarrow> take (min ?a ?b) xs < take (min ?a ?b) ys" "c = 0 \<longleftrightarrow> take (min ?a ?b) xs = take (min ?a ?b) ys"
    using Name_compare_loop_lex [OF assms(1,2), of p 0 "min ?a ?b" q, unfolded add_0_right, OF ab(3,4), unfolded cut(1,2)]
    by blast
  have "Name_compare n (word_of_nat p) c1 m (word_of_nat q) c2 = Inr (if c \<noteq> 0 then c else int ?a - int ?b)"
    unfolding Name_compare_def Let_def min_count [OF sz(1) assms(3), of c1] min_count [OF sz(2) assms(4), of c2] mi c(1)
      sint_u32_diff [OF ab(1,2)] by (cases "c = 0") (simp_all only: sum.case simp_thms if_True if_False)
  then show ?thesis
    using c(2,3) lex_prefix_cut [of xs ys] lex_prefix_eq [of xs ys] by (simp add: cut Let_def)
qed

lemma components_agree:
  assumes "name_block n" and "name_block m" and "k \<le> Name_size n" and "k \<le> Name_size m"
  shows "list_all (\<lambda>i. Component_equals (m_subBlocks n ! i) (m_subBlocks m ! i)) [0..<k]
    \<longleftrightarrow> take k (name_of n) = take k (name_of m)"
proof -
  have "(\<forall>i < k. Component_equals (m_subBlocks n ! i) (m_subBlocks m ! i)) \<longleftrightarrow> (\<forall>i < k. name_of n ! i = name_of m ! i)"
    using assms name_block_nth Component_equals_iff by (metis name_of_nth less_le_trans)
  then show ?thesis using assms by (auto simp: list_all_iff nth_take_lemma list_eq_iff_nth_eq)
qed

lemma Name_equals_iff:
  assumes "name_block n" and "name_block m"
  shows "Name_equals n m \<longleftrightarrow> name_of n = name_of m"
proof (cases "Name_size n = Name_size m")
  case True
  then show ?thesis using components_agree [OF assms, of "Name_size n"] length_name_of [of n] length_name_of [of m]
    by (simp add: Name_equals_def)
next
  case False
  then show ?thesis by (auto simp: Name_equals_def dest!: arg_cong [of "name_of n" "name_of m" length])
qed

lemma Name_isPrefixOf_iff:
  assumes "name_block n" and "name_block m"
  shows "Name_isPrefixOf n m \<longleftrightarrow> (\<exists>rest. name_of m = name_of n @ rest)"
proof (cases "Name_size n \<le> Name_size m")
  case True
  then have "Name_isPrefixOf n m \<longleftrightarrow> name_of n = take (Name_size n) (name_of m)"
    using components_agree [OF assms, of "Name_size n"] length_name_of [of n] by (simp add: Name_isPrefixOf_def)
  then show ?thesis using length_name_of [of n] by (metis append_eq_conv_conj append_take_drop_id)
next
  case False
  then show ?thesis using length_name_of [of n] length_name_of [of m]
    by (auto simp: Name_isPrefixOf_def dest!: arg_cong [of _ _ length])
qed

section \<open>Sub-names\<close>

lemma slice_map: "slice b e (map f xs) = map f (slice b e xs)"
  by (simp add: slice_def take_map drop_map)

lemma unat_u64: "k < 2 ^ 64 \<Longrightarrow> unat (word_of_nat k :: u64) = k"
  by (simp add: unat_of_nat)

lemma word_of_nat_pos: "0 \<le> i \<Longrightarrow> i + unat c < 2 ^ 64 \<Longrightarrow> unat (word_of_nat i + c :: u64) = i + unat c"
  by (simp add: unat_word_ariths unat_of_nat)

text \<open>
  What \<^verbatim>\<open>getSubName\<close> computes: a negative start counts from the end and is cut at 0, and the count
  reaches at most to the end, as long as the sum of start and count does not wrap around.
\<close>

lemma name_of_getSubName:
  assumes "Name_size n < 2 ^ 31" and "- (2 ^ 31) \<le> i" and "i < 2 ^ 31"
    and "c = npos \<or> unat c < 2 ^ 63"
  defines "st \<equiv> nat (if i < 0 then int (Name_size n) + i else i)"
  shows "name_of (Name_getSubName n i c) = take (unat c) (drop st (name_of n))"
proof -
  let ?s = "if i < 0 then sint (word_of_nat (Name_size n) + word_of_int i :: u64) else i"
  have "(word_of_nat (Name_size n) + word_of_int i :: u64) = word_of_int (int (Name_size n) + i)" by simp
  then have "i < 0 \<Longrightarrow> sint (word_of_nat (Name_size n) + word_of_int i :: u64) = int (Name_size n) + i"
    using assms(1,2) by (simp only: signed_of_int) (simp add: signed_take_bit_int_eq_self)
  then have st: "max ?s 0 = int st" by (auto simp: st_def)
  have stb: "st < 2 ^ 32" using assms(1-3) by (auto simp: st_def)
  have np: "unat npos \<ge> 2 ^ 63" by (simp add: npos_def unsigned_minus_1_eq_mask mask_eq_exp_minus_1)
  have sum: "c \<noteq> npos \<Longrightarrow> unat (word_of_int (int st) + c) = st + unat c"
    using assms(4) stb word_of_nat_pos [of st c] by simp
  have "name_of (Name_getSubName n i c) =
      map component_of (slice st (if c \<noteq> npos then min (Name_size n) (st + unat c) else Name_size n) (m_subBlocks n))"
    using sum unfolding Name_getSubName_def Let_def st by (auto simp: name_of_def)
  also have "\<dots> = take (unat c) (drop st (name_of n))"
    using np assms(1) by (auto simp: slice_def name_of_def Name_size_def take_map drop_map min_def)
  finally show ?thesis .
qed

lemma name_of_getPrefix_neg:
  assumes "Name_size n < 2 ^ 31" and "k \<le> Name_size n" and "0 < k"
  shows "name_of (Name_getPrefix n (- int k)) = take (Name_size n - k) (name_of n)"
proof -
  have c: "(word_of_nat (Name_size n) + word_of_int (- int k) :: u64) = word_of_nat (Name_size n - k)"
    using assms by (simp add: of_nat_diff)
  have u: "unat (word_of_nat (Name_size n - k) :: u64) = Name_size n - k"
    using assms(1) by (intro unat_u64) simp
  have "Name_size n - k < 2 ^ 63" using assms(1) by simp
  then show ?thesis
    using name_of_getSubName [of n 0 "word_of_nat (Name_size n - k)"] assms(1,3)
    unfolding Name_getPrefix_def c by (simp add: u)
qed

lemma subBlocks_getPrefix_neg1:
  assumes "Name_size n < 2 ^ 31" and "m_subBlocks n \<noteq> []"
  shows "m_subBlocks (Name_getPrefix n (- 1)) = butlast (m_subBlocks n)"
proof -
  let ?k = "Name_size n - 1"
  have c: "(word_of_nat (Name_size n) + word_of_int (- 1) :: u64) = word_of_nat ?k"
    using assms by (cases "Name_size n") (simp_all add: Name_size_def)
  have u: "unat (word_of_nat ?k :: u64) = ?k" using assms(1) by (intro unat_u64) simp
  have np: "(word_of_nat ?k :: u64) \<noteq> npos"
    using u assms(1) by (auto simp: npos_def unsigned_minus_1_eq_mask mask_eq_exp_minus_1)
  show ?thesis unfolding Name_getPrefix_def Name_getSubName_def c Let_def
    using np u assms(2) by (cases "m_subBlocks n") (simp_all add: butlast_conv_take Name_size_def min_def)
qed

section \<open>Wire encoding of names\<close>

lemma tlvs_wire_map: "concat (map (\<lambda>c. tlv_wire (m_type c) (value_bytes c)) cs) = tlvs_wire (map block_tlv cs)"
  by (induction cs) (simp_all add: block_tlv_def)

context encoding_impl
begin

lemma Name_encode_components_prepends:
  "\<forall>c \<in> set cs. block_wf c \<Longrightarrow>
    prepends R (Name_encode_components ops (rev cs) k) (tlvs_wire (map block_tlv cs)) (k + length (tlvs_wire (map block_tlv cs)))"
proof (induction cs arbitrary: k rule: rev_induct)
  case Nil
  then show ?case by (simp add: prepends_return)
next
  case (snoc c cs)
  then have "prepends R (Component_wireEncode_template ops c) (tlv_wire (m_type c) (value_bytes c)) (length (tlv_wire (m_type c) (value_bytes c)))"
    by (intro Component_wireEncode_prepends) simp
  moreover have "\<forall>c \<in> set cs. block_wf c" using snoc.prems by simp
  note snoc.IH [OF this]
  ultimately show ?case
    by (simp only: rev_append rev.simps append.simps Name_encode_components.simps)
      (rule prepends_cong, rule prepends_bind, assumption, assumption,
        simp_all add: block_tlv_def [of c])
qed

lemma Name_wireEncode_prepends:
  assumes "\<forall>c \<in> set (m_subBlocks n). block_wf c"
  shows "prepends R (Name_wireEncode_template ops n) (tlv_wire tlv_Name (tlvs_wire (map block_tlv (m_subBlocks n))))
           (length (tlv_wire tlv_Name (tlvs_wire (map block_tlv (m_subBlocks n)))))"
  unfolding Name_wireEncode_template_def
  by (rule prepends_cong, (rule prepends_bind Name_encode_components_prepends [OF assms] prepends_return prependVarNumber)+)
    (simp_all add: tlv_wire_def size_simps)

end

lemma Name_wireEncode_wire:
  assumes "name_block n" and "\<not> Block_hasWire n" and "fits (tlvs_wire (map block_tlv (m_subBlocks n)))"
  shows "\<exists>w. Name_wireEncode n = Inr w \<and> wire_bytes w = tlv_wire tlv_Name (tlvs_wire (map block_tlv (m_subBlocks n)))
     \<and> map block_tlv (m_subBlocks w) = map block_tlv (m_subBlocks n) \<and> m_type w = tlv_Name"
proof -
  let ?es = "map block_tlv (m_subBlocks n)"
  have wf: "\<forall>c \<in> set (m_subBlocks n). block_wf c" using assms(1) by (simp add: name_block_def component_block_def)
  from estimate_and_encode_wire [OF est.Name_wireEncode_prepends [OF wf] enc.Name_wireEncode_prepends [OF wf] assms(3)]
  obtain b where b: "estimate_and_encode (Name_wireEncode_template estimator_ops n) (Name_wireEncode_template encoder_ops n) = Inr b"
    "block_tlv b = (tlv_Name, tlvs_wire ?es)" "wire_bytes b = tlv_wire tlv_Name (tlvs_wire ?es)" "block_wf b"
    "Block_hasWire b" "m_subBlocks b = []" by blast
  obtain buf where buf: "m_buffer b = Some buf" using b(5) by (auto simp: Block_hasWire_def)
  have "\<forall>(t, v) \<in> set ?es. fits v"
    using assms(1) by (auto simp: name_block_def block_tlv_def dest: component_block_fits)
  from Block_parse_tlvs [OF this buf b(6)] b(2,4) buf
  obtain w where w: "Block_parse b = (None, w)" "map block_tlv (m_subBlocks w) = ?es"
    by (auto simp: block_wf_def block_tlv_def)
  then have "wire_bytes w = wire_bytes b" "m_type w = m_type b"
    by (auto simp: Block_parse_def wire_bytes_def split: if_splits option.splits prod.splits)
  with b w assms(2) show ?thesis by (auto simp: Name_wireEncode_def block_tlv_def)
qed

lemma name_of_block_tlv: "map block_tlv (m_subBlocks w) = map block_tlv (m_subBlocks n) \<Longrightarrow> name_of w = name_of n"
proof -
  have "name_of x = map (\<lambda>(t, v). Component t v) (map block_tlv (m_subBlocks x))" for x
    by (simp add: name_of_def component_of_def block_tlv_def comp_def)
  then show "map block_tlv (m_subBlocks w) = map block_tlv (m_subBlocks n) \<Longrightarrow> name_of w = name_of n" by metis
qed

text \<open>The TLVs of a name's components, and decoding a block that holds them.\<close>

definition name_tlvs :: "component list \<Rightarrow> (u32 \<times> byte list) list" where
  "name_tlvs cs = map (\<lambda>c. (comp_type c, comp_value c)) cs"

lemma name_tlvs_of: "name_tlvs (name_of n) = map block_tlv (m_subBlocks n)"
  by (simp add: name_tlvs_def name_of_def component_of_def block_tlv_def)

lemma name_tlvs_fits: "name_block n \<Longrightarrow> \<forall>(t, v) \<in> set (name_tlvs (name_of n)). fits v"
  by (auto simp: name_tlvs_of name_block_def block_tlv_def dest: component_block_fits)

lemma name_tlvs_eq_iff [simp]: "name_tlvs xs = name_tlvs ys \<longleftrightarrow> xs = ys"
  unfolding name_tlvs_def by (intro inj_map_eq_map injI) (auto intro: component.expand)

lemma Name_wireDecode_fresh:
  assumes "fresh_block w" and "block_tlv w = (tlv_Name, tlvs_wire (name_tlvs cs))" and "\<forall>(t, v) \<in> set (name_tlvs cs). fits v"
  shows "\<exists>m. Name_wireDecode n w = (None, m) \<and> name_of m = cs"
proof -
  have v: "value_bytes w = tlvs_wire (name_tlvs cs)" "m_type w = tlv_Name" using assms(2) by (simp_all add: block_tlv_def)
  from Block_parse_fresh [OF assms(1) v(1) assms(3)] obtain m where m: "Block_parse w = (None, m)"
    "map block_tlv (m_subBlocks m) = name_tlvs cs" by blast
  then have "name_of m = cs" by (simp flip: name_tlvs_of)
  with m v(2) show ?thesis by (simp add: Name_wireDecode_def)
qed

section \<open>URIs of names\<close>

definition uri_of :: "block list \<Rightarrow> str" where
  "uri_of cs = concat (map (\<lambda>c. 47 # Component_toUri c) cs)"

lemma find_char_None: "c \<notin> set s \<Longrightarrow> find_char c s k = None"
  by (auto simp: find_char_def find_None_iff)

lemma find_char_after: "c \<notin> set ys \<Longrightarrow> find_char c (xs @ ys) (length xs) = None"
proof -
  assume c: "c \<notin> set ys"
  have "x - length xs < length ys \<Longrightarrow> ys ! (x - length xs) \<noteq> c" for x using c nth_mem by metis
  then show ?thesis by (auto simp: find_char_def find_None_iff nth_append)
qed

lemma find_char_first:
  assumes "c \<notin> set ys"
  shows "find_char c (xs @ ys @ c # zs) (length xs) = Some (length xs + length ys)"
  using assms unfolding find_char_def find_Some_iff
  by (intro exI [of _ "length ys"]) (auto simp: nth_append)

text \<open>The components of a printed name are found again, one slash after the other.\<close>

lemma Name_parse_components_uri:
  assumes "\<forall>c \<in> set cs. (Component_isGeneric c \<or> Component_isImplicitSha256Digest c) \<and> block_wf c \<and> fits (value_bytes c)"
    and "cs \<noteq> []"
  shows "\<exists>m. Name_parse_components (pre @ tl (uri_of cs)) (length pre) n = Inr m \<and> name_of m = name_of n @ map component_of cs"
  using assms
proof (induction cs arbitrary: pre n)
  case (Cons c cs)
  let ?u = "Component_toUri c"
  obtain b where b: "Component_fromEscapedString ?u 0 (length ?u) = Inr b" "component_of b = component_of c"
    using Component_uri_back [of c] Cons.prems by auto
  have b': "Component_fromEscapedString (pre @ ?u @ rest) (length pre) (length pre + length ?u) = Inr b" for rest
    using b(1) by (simp add: Component_fromEscapedString_def)
  have no: "47 \<notin> set ?u" using Component_toUri_chars [of 47 c] by auto
  have ne: "?u \<noteq> []" by (rule Component_toUri_not_Nil)
  show ?case
  proof (cases cs)
    case Nil
    have "find_char 47 (pre @ ?u) (length pre) = None"
      using no by (rule find_char_after)
    then show ?thesis using Nil ne b(2) b' [of "[]"] by (auto simp: uri_of_def)
  next
    case (Cons d ds)
    have u: "pre @ tl (uri_of (c # cs)) = (pre @ ?u @ [47]) @ tl (uri_of cs)" by (simp add: uri_of_def Cons)
    have "find_char 47 (pre @ ?u @ 47 # tl (uri_of cs)) (length pre) = Some (length pre + length ?u)"
      by (rule find_char_first [OF no])
    moreover from Cons.IH [of "pre @ ?u @ [47]" "Name_append n b"] Cons.prems Cons
    obtain m where "Name_parse_components ((pre @ ?u @ [47]) @ tl (uri_of cs)) (length (pre @ ?u @ [47])) (Name_append n b) = Inr m"
      "name_of m = name_of (Name_append n b) @ map component_of cs" by auto
    ultimately show ?thesis using b(2) b' [of "47 # tl (uri_of cs)"] unfolding u
      by (subst Name_parse_components.simps) simp
  qed
qed simp

lemma uri_of_chars: "x \<in> set (uri_of cs) \<Longrightarrow> \<not> is_space x \<and> x \<noteq> 58"
  using Component_toUri_chars by (auto simp: uri_of_def is_space_def split: if_splits)

lemma uri_of_Cons: "uri_of (c # cs) = 47 # Component_toUri c @ uri_of cs"
  by (simp add: uri_of_def)

lemma Name_of_uri_uri_of:
  assumes "\<forall>c \<in> set cs. (Component_isGeneric c \<or> Component_isImplicitSha256Digest c) \<and> block_wf c \<and> fits (value_bytes c)"
    and "cs \<noteq> []"
  shows "\<exists>m. Name_of_uri (uri_of cs) = Inr m \<and> name_of m = map component_of cs"
proof -
  obtain c ds where cs: "cs = c # ds" using assms(2) by (cases cs) auto
  obtain x xs where u: "Component_toUri c = x # xs" using Component_toUri_not_Nil [of c] by (cases "Component_toUri c") auto
  have x: "x \<noteq> 47" using Component_toUri_chars [of x c] u by simp
  have trim: "trim (uri_of cs) = uri_of cs" "trim (tl (uri_of cs)) = tl (uri_of cs)"
    using uri_of_chars [of _ cs] cs by (auto intro!: trim_id simp: uri_of_Cons dest: list.set_sel(2))
  have "find_char 58 (uri_of cs) 0 = None" using uri_of_chars [of 58 cs] by (intro find_char_None) auto
  then have scheme: "uri_strip_scheme (uri_of cs) = uri_of cs" by (simp add: uri_strip_scheme_def)
  have slash: "uri_strip_slash (uri_of cs) = Some (tl (uri_of cs))"
    using x trim(2) by (simp add: uri_strip_slash_def cs uri_of_Cons u)
  show ?thesis
    using Name_parse_components_uri [OF assms, of "[]" Block_default] scheme slash trim(1)
    by (simp add: Name_of_uri_def Let_def) (simp add: cs uri_of_Cons)
qed

section \<open>Successors of names\<close>

lemma last_conv_get: "m_subBlocks n \<noteq> [] \<Longrightarrow> Name_get n (- 1) = Inr (last (m_subBlocks n))"
  by (simp add: Name_get_def Let_def Name_size_def last_conv_nth nat_diff_distrib')

lemma Name_getSuccessor_nonempty:
  assumes "name_block n" and "m_subBlocks n \<noteq> []" and "Component_isGeneric (last (m_subBlocks n))" and "Block_hasValue (last (m_subBlocks n))"
    and "Suc (length (value_bytes (last (m_subBlocks n)))) < 2 ^ 31"
  shows "\<exists>s. Name_getSuccessor n = Inr s \<and> name_block s \<and>
     name_of s = butlast (name_of n) @ [Component tlv_NameComponent (successor_value (comp_value (last (name_of n))))]"
proof -
  let ?c = "last (m_subBlocks n)"
  let ?v = "successor_value (value_bytes ?c)"
  have "component_block ?c" using assms(1,2) by (simp add: name_block_def)
  then obtain b where b: "Component_getSuccessor ?c = Inr b" "component_of b = Component (m_type ?c) ?v"
    "block_wf b" "wire_bytes b = tlv_wire (m_type ?c) ?v"
    using Component_getSuccessor_generic assms(3,4) by blast
  have cb: "component_block b"
    using b assms(3,5) length_successor_value [of "value_bytes ?c"]
    by (simp add: component_block_def component_of_def Component_isGeneric_def)
  let ?s = "Name_append (Name_getPrefix n (- 1)) b"
  have p: "m_subBlocks (Name_getPrefix n (- 1)) = butlast (m_subBlocks n)"
    using subBlocks_getPrefix_neg1 assms(1,2) name_block_size by blast
  have "Name_getSuccessor n = Inr ?s"
    using b(1) assms(2) by (simp add: Name_getSuccessor_def Name_empty_def last_conv_get Name_append_made_def Name_append_def)
  moreover have "name_block ?s"
    using cb assms(1,2) by (auto simp: name_block_def p dest: in_set_butlastD)
  moreover have "name_of ?s = butlast (name_of n) @ [Component tlv_NameComponent (successor_value (comp_value (last (name_of n))))]"
    using b(2) assms(2,3) by (simp add: name_of_def p map_butlast last_map component_of_def Component_isGeneric_def)
  ultimately show ?thesis by blast
qed

lemma lex_append_less: "xs < xs @ [x :: 'a :: linorder]"
  by (induction xs) auto

lemma lex_between:
  fixes x y :: "'a :: linorder"
  assumes "xs @ [x] < zs" and "zs < xs @ [y]" and "\<And>z. \<not> (x < z \<and> z < y)"
  shows "\<exists>r. r \<noteq> [] \<and> zs = xs @ [x] @ r"
  using assms(1,2)
proof (induction xs arbitrary: zs)
  case Nil
  then obtain z zs' where zs: "zs = z # zs'" by (cases zs) auto
  then have "z = x" using Nil assms(3) [of z] by auto
  with zs Nil show ?case by (cases zs') auto
next
  case (Cons w ws)
  then obtain z zs' where zs: "zs = z # zs'" by (cases zs) auto
  then have "z = w" using Cons.prems by auto
  with zs Cons show ?case by auto
qed

lemma lex_prefix_range:
  fixes x y :: "'a :: linorder"
  assumes "x < y" and "\<And>z. \<not> (x < z \<and> z < y)"
  shows "(\<exists>r. zs = (xs @ [x]) @ r) \<longleftrightarrow> xs @ [x] \<le> zs \<and> zs < xs @ [y]"
proof
  assume "\<exists>r. zs = (xs @ [x]) @ r"
  then obtain r where r: "zs = (xs @ [x]) @ r" by blast
  have "zs < xs @ [y]" unfolding r using assms(1) by (induction xs) auto
  moreover have "xs @ [x] \<le> (xs @ [x]) @ r" by (induction xs) auto
  ultimately show "xs @ [x] \<le> zs \<and> zs < xs @ [y]" using r by simp
next
  assume "xs @ [x] \<le> zs \<and> zs < xs @ [y]"
  then consider "xs @ [x] = zs" | "xs @ [x] < zs" "zs < xs @ [y]" by fastforce
  then show "\<exists>r. zs = (xs @ [x]) @ r"
  proof cases
    case 1
    then show ?thesis by (intro exI [of _ "[]"]) simp
  next
    case 2
    then obtain r where "zs = xs @ [x] @ r" using lex_between [OF _ _ assms(2)] by blast
    then show ?thesis by simp
  qed
qed

lemma Name_compare_all_iff:
  assumes "name_block n" and "name_block m"
  shows "\<exists>c. Name_compare_all n m = Inr c \<and> (c < 0 \<longleftrightarrow> name_of n < name_of m) \<and> (c = 0 \<longleftrightarrow> name_of n = name_of m)"
proof -
  have "unat npos = 2 ^ 64 - 1" by (simp add: npos_def unsigned_minus_1_eq_mask mask_eq_exp_minus_1)
  then have "Name_size n \<le> unat npos" "Name_size m \<le> unat npos" using name_block_size assms by fastforce+
  then show ?thesis using Name_compare_sub [OF assms, of 0 0 npos npos] by (simp add: Name_compare_all_def)
qed

text \<open>Two names used in the witnesses: \<open>/a\<close> and \<open>/a/b\<close>.\<close>

definition name_a :: name where
  "name_a = Name_append Name_default (Component_of_buffer [97])"

definition name_a_b :: name where
  "name_a_b = Name_append name_a (Component_of_buffer [98])"

lemma component_block_of_buffer: "length v < 2 ^ 31 \<Longrightarrow> component_block (Component_of_buffer v)"
  by (simp add: component_block_def Component_of_buffer_def Block_of_type_value_wf)
    (simp add: Block_of_type_value_def Block_hasWire_def value_bytes_def)

lemma value_of_buffer [simp]: "value_bytes (Component_of_buffer v) = v" "m_type (Component_of_buffer v) = tlv_NameComponent"
  "Block_hasValue (Component_of_buffer v)"
  by (simp_all add: Component_of_buffer_def Block_of_type_value_def value_bytes_def Block_hasValue_def)

lemma example_names:
  "name_block name_a" "name_block name_a_b" "name_block Name_default" "m_subBlocks name_a = [Component_of_buffer [97]]"
  "m_subBlocks name_a_b = [Component_of_buffer [97], Component_of_buffer [98]]"
  "name_of name_a = [Component 8 [97]]" "name_of name_a_b = [Component 8 [97], Component 8 [98]]"
  "\<not> Block_hasWire name_a" "\<not> Block_hasWire name_a_b"
  by (simp_all add: name_block_def name_a_def name_a_b_def component_block_of_buffer name_of_def component_of_def tlv_codes
      Block_hasWire_def Name_append_def Block_push_back_def Block_with_elements_def)

section \<open>Properties\<close>

text \<open>
  C32: \<^verbatim>\<open>Name::wireEncode\<close> never throws on a name of component blocks: it produces the TLV of type
  \<^verbatim>\<open>Name\<close> around the shortest encodings of the components, and \<^verbatim>\<open>wireDecode\<close> of these bytes, whatever
  follows them and whatever the receiving name held before, gives back the same components.
\<close>

theorem Name_wire_roundtrip:
  assumes "name_block n" and "\<not> Block_hasWire n" and "fits (tlvs_wire (map block_tlv (m_subBlocks n)))"
  shows "\<exists>w. Name_wireEncode n = Inr w \<and> wire_bytes w = tlv_wire tlv_Name (tlvs_wire (map block_tlv (m_subBlocks n)))
     \<and> name_of w = name_of n
     \<and> (\<forall>rest m0. \<exists>b m. Block_of_bytes (wire_bytes w @ rest) = Inr b \<and> Name_wireDecode m0 b = (None, m) \<and> name_of m = name_of n)"
proof -
  let ?es = "map block_tlv (m_subBlocks n)"
  obtain w where w: "Name_wireEncode n = Inr w" "wire_bytes w = tlv_wire tlv_Name (tlvs_wire ?es)"
    "map block_tlv (m_subBlocks w) = ?es"
    using Name_wireEncode_wire [OF assms] by blast
  have "\<exists>b m. Block_of_bytes (wire_bytes w @ rest) = Inr b \<and> Name_wireDecode m0 b = (None, m) \<and> name_of m = name_of n" for rest m0
  proof -
    obtain b where b: "Block_of_bytes (wire_bytes w @ rest) = Inr b" "block_tlv b = (tlv_Name, tlvs_wire ?es)"
      using Block_of_bytes_tlv_wire [OF assms(3), of tlv_Name rest] w(2) by auto
    obtain buf where buf: "m_buffer b = Some buf"
      using b(1) by (auto simp: Block_of_bytes_def Let_def split: sum.splits if_splits)
    have "\<forall>(t, v) \<in> set ?es. fits v"
      using assms(1) by (auto simp: name_block_def block_tlv_def dest: component_block_fits)
    from Block_parse_tlvs [OF this buf] Block_of_bytes_wf [OF b(1)] b(2) buf
    obtain m where "Block_parse b = (None, m)" "map block_tlv (m_subBlocks m) = ?es"
      by (auto simp: block_wf_def block_tlv_def)
    then show ?thesis using b name_of_block_tlv [of m n] by (simp add: Name_wireDecode_def block_tlv_def)
  qed
  then show ?thesis using w name_of_block_tlv [of w n] by blast
qed

theorem Name_wire_roundtrip_witness:
  "\<exists>w. Name_wireEncode name_a_b = Inr w \<and> name_of w = [Component 8 [97], Component 8 [98]]
     \<and> (\<exists>b m. Block_of_bytes (wire_bytes w @ [0]) = Inr b \<and> Name_wireDecode name_a b = (None, m) \<and> name_of m = name_of name_a_b)"
proof -
  have "fits (tlvs_wire (map block_tlv (m_subBlocks name_a_b)))"
    by (simp add: example_names fits_def block_tlv_def size_simps tlv_codes sizeOfVarNumber_def)
  from Name_wire_roundtrip [OF example_names(2,9) this] show ?thesis by (metis example_names(7))
qed

text \<open>
  C34: for names whose component wires, where they are there, are the shortest ones,
  \<^verbatim>\<open>Name::compare\<close> on ranges inside the two names never throws and gives the
  sign of the lexicographic order, by the canonical order of components, of the two ranges; a shorter
  name sorts before the names it is a prefix of, the result is 0 for equal ranges only, and
  \<^verbatim>\<open>Name::equals\<close> agrees with it. (For a component with a longer encoding of its
  length, which the decoder accepts, compare and equals differ.)
\<close>

theorem Name_compare_canonical:
  assumes "name_block n" and "name_block m" and "p \<le> Name_size n" and "q \<le> Name_size m"
  shows "\<exists>c. Name_compare n (word_of_nat p) c1 m (word_of_nat q) c2 = Inr c
     \<and> (c < 0 \<longleftrightarrow> take (unat c1) (drop p (name_of n)) < take (unat c2) (drop q (name_of m)))
     \<and> (c = 0 \<longleftrightarrow> take (unat c1) (drop p (name_of n)) = take (unat c2) (drop q (name_of m)))
     \<and> (\<exists>d. Name_compare_all n m = Inr d \<and> (d < 0 \<longleftrightarrow> name_of n < name_of m) \<and> (d = 0 \<longleftrightarrow> Name_equals n m))"
  using Name_compare_sub [OF assms, of c1 c2] Name_compare_all_iff [OF assms(1,2)] Name_equals_iff [OF assms(1,2)]
  by auto

theorem Name_compare_canonical_witness:
  "\<exists>c d. Name_compare name_a_b 1 1 name_a 0 1 = Inr c \<and> \<not> c < 0 \<and> c \<noteq> 0 \<and> Name_compare_all name_a name_a_b = Inr d \<and> d < 0"
proof -
  have sz: "1 \<le> Name_size name_a_b" "0 \<le> Name_size name_a" "0 \<le> Name_size name_a_b" by (simp_all add: Name_size_def example_names)
  obtain c where "Name_compare name_a_b 1 1 name_a 0 1 = Inr c"
    "c < 0 \<longleftrightarrow> take 1 (drop 1 (name_of name_a_b)) < take 1 (drop 0 (name_of name_a))"
    "c = 0 \<longleftrightarrow> take 1 (drop 1 (name_of name_a_b)) = take 1 (drop 0 (name_of name_a))"
    using Name_compare_canonical [OF example_names(2,1) sz(1,2), of 1 1] by (auto simp del: drop0 One_nat_def)
  moreover obtain d where "Name_compare_all name_a name_a_b = Inr d" "d < 0 \<longleftrightarrow> name_of name_a < name_of name_a_b"
    using Name_compare_canonical [OF example_names(1,2) sz(2,3), of 1 1] by blast
  ultimately show ?thesis by (simp add: example_names less_component_def be_value_def)
qed

text \<open>
  Out of range the two sides of the documented equation differ: \<^verbatim>\<open>compare(pos1, ...)\<close> is documented
  as \<^verbatim>\<open>getSubName(pos1, count1).compare(...)\<close>, but when \<^verbatim>\<open>pos1\<close> is beyond the end the subtraction
  \<^verbatim>\<open>size() - pos1\<close> wraps around and the call throws, while the sub-name is the empty name and compares.
\<close>

theorem Name_compare_out_of_range:
  assumes "name_block n" and "name_block m" and "p > Name_size n" and "p < 2 ^ 31" and "Name_size m > 0"
  shows "(\<exists>e. Name_compare n (word_of_nat p) npos m 0 npos = Inl (NameError e))
    \<and> name_of (Name_getSubName n (int p) npos) = []
    \<and> (\<exists>c. Name_compare_all (Name_getSubName n (int p) npos) m = Inr c \<and> c < 0)"
proof -
  let ?c1 = "min npos (word_of_nat (Name_size n) - word_of_nat p :: u64)"
  let ?c2 = "min npos (word_of_nat (Name_size m) - 0 :: u64)"
  have sz: "Name_size n < 2 ^ 31" "Name_size m < 2 ^ 31" using assms(1,2) name_block_size by auto
  have p: "unat (word_of_nat (Name_size n) :: u64) = Name_size n" "unat (word_of_nat p :: u64) = p"
    "unat (word_of_nat (Name_size m) :: u64) = Name_size m"
    using sz assms(4) by (intro unat_u64; simp)+
  then have "(word_of_nat (Name_size n) :: u64) \<noteq> word_of_nat p" "(word_of_nat (Name_size m) :: u64) \<noteq> 0"
    using assms(3,5) by (metis less_irrefl, metis unat_0 less_irrefl)
  then have "min ?c1 ?c2 \<noteq> 0" by (auto simp: min_def npos_def)
  then obtain k where k: "unat (min ?c1 ?c2) = Suc k" by (metis not0_implies_Suc unat_eq_zero)
  have "sint (word_of_nat p + word_of_nat 0 :: u64) = int p" using assms(4) sint_nat [of p] by simp
  then have "\<exists>e. Name_at n (sint (word_of_nat p + word_of_nat 0 :: u64)) = Inl (NameError e)"
    using assms(3) by (simp add: Name_at_def)
  then have err: "\<exists>e. Name_compare n (word_of_nat p) npos m 0 npos = Inl (NameError e)"
    unfolding Name_compare_def Let_def k by (auto simp del: of_nat_0)
  have sub: "name_of (Name_getSubName n (int p) npos) = []"
    using name_of_getSubName [of n "int p" npos] sz(1) assms(3,4) by simp
  then have "name_block (Name_getSubName n (int p) npos)" by (simp add: name_block_def name_of_def)
  from Name_compare_all_iff [OF this assms(2)] sub err assms(5) show ?thesis
    by (cases "name_of m") (auto dest: arg_cong [of _ _ length])
qed

theorem Name_compare_out_of_range_witness:
  "(\<exists>e. Name_compare name_a (word_of_nat 2) npos name_a_b 0 npos = Inl (NameError e))
   \<and> (\<exists>c. Name_compare_all (Name_getSubName name_a 2 npos) name_a_b = Inr c \<and> c < 0)"
  using Name_compare_out_of_range [OF example_names(1,2), of 2] by (simp add: Name_size_def example_names)

text \<open>
  C37: a non-empty name printed by \<^verbatim>\<open>toUri\<close> is parsed by the constructor from a URI to the same
  components, and so is the empty name; in particular no component is split, merged or taken for a
  scheme or an authority.
\<close>

theorem Name_uri_roundtrip:
  assumes "\<forall>c \<in> set (m_subBlocks n). (Component_isGeneric c \<or> Component_isImplicitSha256Digest c) \<and> block_wf c \<and> fits (value_bytes c)"
  shows "\<exists>m. Name_of_uri (Name_toUri n) = Inr m \<and> name_of m = name_of n"
proof (cases "m_subBlocks n = []")
  case True
  moreover have "trim [47] = [47]" "find_char 58 [47] 0 = None" by (intro trim_id find_char_None; simp add: is_space_def)+
  moreover have "trim [] = []" by (simp add: trim_def)
  ultimately show ?thesis
    by (simp add: Name_toUri_def Name_empty_def Name_of_uri_def uri_strip_scheme_def uri_strip_slash_def name_of_def)
next
  case False
  with Name_of_uri_uri_of [OF assms] show ?thesis
    by (auto simp: Name_toUri_def Name_empty_def uri_of_def name_of_def)
qed

theorem Name_uri_roundtrip_witness:
  "\<exists>m. Name_of_uri (Name_toUri name_a_b) = Inr m \<and> name_of m = [Component 8 [97], Component 8 [98]]"
proof -
  have "\<forall>c \<in> set (m_subBlocks name_a_b). (Component_isGeneric c \<or> Component_isImplicitSha256Digest c) \<and> block_wf c \<and> fits (value_bytes c)"
    by (simp add: example_names Component_isGeneric_def fits_def) (simp add: Component_of_buffer_def Block_of_type_value_wf)
  from Name_uri_roundtrip [OF this] show ?thesis by (simp only: example_names)
qed

text \<open>
  C33: the names under a prefix are a range of the canonical order. For names whose component wires,
  where they are there, are the shortest ones, and a non-empty prefix that ends in a generic component
  with a value, \<^verbatim>\<open>isPrefixOf\<close> holds of exactly the names from the prefix itself
  up to, and without, its \<^verbatim>\<open>getSuccessor\<close>; so the names below the prefix lie
  between the two. The sorted containers of the system enumerate a prefix this way.
\<close>

theorem Name_prefix_range:
  assumes "name_block n" and "name_block m" and "m_subBlocks n \<noteq> []" and "Component_isGeneric (last (m_subBlocks n))"
    and "Block_hasValue (last (m_subBlocks n))" and "Suc (length (value_bytes (last (m_subBlocks n)))) < 2 ^ 31"
  shows "\<exists>s c d. Name_getSuccessor n = Inr s \<and> Name_compare_all m n = Inr c \<and> Name_compare_all m s = Inr d
     \<and> (Name_isPrefixOf n m \<longleftrightarrow> 0 \<le> c \<and> d < 0)"
proof -
  let ?xs = "butlast (name_of n)" and ?v = "comp_value (last (name_of n))"
  obtain s where s: "Name_getSuccessor n = Inr s" "name_block s" "name_of s = ?xs @ [Component tlv_NameComponent (successor_value ?v)]"
    using Name_getSuccessor_nonempty [OF assms(1,3-6)] by blast
  have n: "name_of n = ?xs @ [Component tlv_NameComponent ?v]"
    using assms(3,4) append_butlast_last_id [of "name_of n"]
    by (simp add: name_of_def last_map component_of_def Component_isGeneric_def)
  obtain c where c: "Name_compare_all m n = Inr c" "c < 0 \<longleftrightarrow> name_of m < name_of n"
    using Name_compare_all_iff [OF assms(2,1)] by blast
  obtain d where d: "Name_compare_all m s = Inr d" "d < 0 \<longleftrightarrow> name_of m < name_of s"
    using Name_compare_all_iff [OF assms(2) s(2)] by blast
  have "Name_isPrefixOf n m \<longleftrightarrow> name_of n \<le> name_of m \<and> name_of m < name_of s"
    using Name_isPrefixOf_iff [OF assms(1,2)] lex_prefix_range [OF component_less_successor component_none_between, of "name_of m" ?xs tlv_NameComponent ?v]
    by (simp add: s(3) flip: n)
  then show ?thesis using s(1) c d by (auto simp: not_less)
qed

theorem Name_prefix_range_witness:
  "\<exists>s c d. Name_getSuccessor name_a = Inr s \<and> Name_compare_all name_a_b name_a = Inr c \<and> Name_compare_all name_a_b s = Inr d
     \<and> (Name_isPrefixOf name_a name_a_b \<longleftrightarrow> 0 \<le> c \<and> d < 0)"
  using Name_prefix_range [OF example_names(1,2)] by (simp add: example_names Component_isGeneric_def)

text \<open>
  C36: \<^verbatim>\<open>getSuccessor\<close> is documented with "no name lies between", which fails: every name that extends
  a name by further components lies strictly between it and its successor, and between the empty
  name and its successor \<open>/%00\<close> lies the name of one empty component.
\<close>

theorem Name_getSuccessor_not_adjacent:
  assumes "name_block n" and "m_subBlocks n \<noteq> []" and "Component_isGeneric (last (m_subBlocks n))"
    and "Block_hasValue (last (m_subBlocks n))" and "Suc (length (value_bytes (last (m_subBlocks n)))) < 2 ^ 31"
  shows "(\<exists>s. Name_getSuccessor n = Inr s \<and> (\<forall>c. name_of n < name_of (Name_append n c) \<and> name_of (Name_append n c) < name_of s))
    \<and> (\<exists>s. Name_getSuccessor Name_default = Inr s \<and> name_of Name_default < [Component tlv_NameComponent []]
       \<and> [Component tlv_NameComponent []] < name_of s)"
proof
  let ?xs = "butlast (name_of n)" and ?v = "comp_value (last (name_of n))"
  obtain s where s: "Name_getSuccessor n = Inr s" "name_of s = ?xs @ [Component tlv_NameComponent (successor_value ?v)]"
    using Name_getSuccessor_nonempty [OF assms] by blast
  have n: "name_of n = ?xs @ [Component tlv_NameComponent ?v]"
    using assms(2,3) append_butlast_last_id [of "name_of n"]
    by (simp add: name_of_def last_map component_of_def Component_isGeneric_def)
  have "name_of n < name_of n @ [x]" for x by (rule lex_append_less)
  moreover have "name_of n @ [x] < name_of s" for x
    using lex_prefix_range [OF component_less_successor component_none_between, of "name_of n @ [x]" ?xs tlv_NameComponent ?v]
    by (simp add: s(2) flip: n)
  ultimately show "\<exists>s. Name_getSuccessor n = Inr s \<and> (\<forall>c. name_of n < name_of (Name_append n c) \<and> name_of (Name_append n c) < name_of s)"
    using s(1) by auto
next
  obtain b where "Component_of_value [0] = Inr b" "component_of b = Component tlv_NameComponent [0]"
    using Component_of_value_wire [of "[0]"] by (auto simp: fits_def)
  then show "\<exists>s. Name_getSuccessor Name_default = Inr s \<and> name_of Name_default < [Component tlv_NameComponent []]
       \<and> [Component tlv_NameComponent []] < name_of s"
    by (simp add: Name_getSuccessor_def Name_empty_def Name_append_value_def Name_append_made_def flip: Name_append_def)
      (simp add: less_component_def)
qed

theorem Name_getSuccessor_not_adjacent_witness:
  "\<exists>s. Name_getSuccessor name_a = Inr s \<and> name_of name_a < name_of name_a_b \<and> name_of name_a_b < name_of s"
  using Name_getSuccessor_not_adjacent [OF example_names(1)] unfolding name_a_b_def
  by (auto simp: example_names Component_isGeneric_def)

end
