(* ===== verification/StdMap.thy ===== *)
theory StdMap
  imports Main
begin

text \<open>
  The ordered containers \<^verbatim>\<open>std::map\<close> and \<^verbatim>\<open>std::set\<close> of the C++ standard library, as far as the sources
  use them: the list of the entries in the order of the comparator \<open>lt\<close>, iterators being positions.
  The locale \<open>comparator\<close> is the requirement the standard puts on a comparator (a strict weak
  ordering whose equivalence is equality); its lemmas hold of every container that meets it.
\<close>

definition lower_bound :: "('k \<Rightarrow> 'k \<Rightarrow> bool) \<Rightarrow> 'k \<Rightarrow> ('k \<times> 'v) list \<Rightarrow> nat" where
  "lower_bound lt k es = length (takeWhile (\<lambda>e. lt (fst e) k) es)"

definition upper_bound :: "('k \<Rightarrow> 'k \<Rightarrow> bool) \<Rightarrow> 'k \<Rightarrow> ('k \<times> 'v) list \<Rightarrow> nat" where
  "upper_bound lt k es = length (takeWhile (\<lambda>e. \<not> lt k (fst e)) es)"

text \<open>\<open>emplace\<close> returns the position of the entry of the key, whether it is new, and the container.\<close>

definition emplace :: "('k \<Rightarrow> 'k \<Rightarrow> bool) \<Rightarrow> 'k \<Rightarrow> 'v \<Rightarrow> ('k \<times> 'v) list \<Rightarrow> nat \<times> bool \<times> ('k \<times> 'v) list" where
  "emplace lt k v es =
     (let i = lower_bound lt k es
      in if i < length es \<and> \<not> lt k (fst (es ! i)) then (i, False, es)
         else (i, True, take i es @ (k, v) # drop i es))"

definition erase_range :: "nat \<Rightarrow> nat \<Rightarrow> 'a list \<Rightarrow> 'a list" where
  "erase_range i j es = take i es @ drop j es"

definition map_find :: "('k \<Rightarrow> 'k \<Rightarrow> bool) \<Rightarrow> 'k \<Rightarrow> ('k \<times> 'v) list \<Rightarrow> 'v option" where
  "map_find lt k es =
     (let i = lower_bound lt k es
      in if i < length es \<and> \<not> lt k (fst (es ! i)) then Some (snd (es ! i)) else None)"

definition sorted_map :: "('k \<Rightarrow> 'k \<Rightarrow> bool) \<Rightarrow> ('k \<times> 'v) list \<Rightarrow> bool" where
  "sorted_map lt es = sorted_wrt (\<lambda>a b. lt (fst a) (fst b)) es"

lemma sorted_map_simps [simp]:
  "sorted_map lt []"
  "sorted_map lt (e # es) \<longleftrightarrow> (\<forall>f \<in> set es. lt (fst e) (fst f)) \<and> sorted_map lt es"
  by (simp_all add: sorted_map_def)

lemma sorted_map_append:
  "sorted_map lt (xs @ ys) \<longleftrightarrow> sorted_map lt xs \<and> sorted_map lt ys \<and> (\<forall>x \<in> set xs. \<forall>y \<in> set ys. lt (fst x) (fst y))"
  by (simp add: sorted_map_def sorted_wrt_append)

lemma sorted_map_filter: "sorted_map lt es \<Longrightarrow> sorted_map lt (filter P es)"
  by (simp add: sorted_map_def sorted_wrt_filter)

locale comparator =
  fixes lt :: "'k \<Rightarrow> 'k \<Rightarrow> bool"
  assumes irrefl: "\<not> lt x x"
    and trans: "lt x y \<Longrightarrow> lt y z \<Longrightarrow> lt x z"
    and linear: "lt x y \<or> x = y \<or> lt y x"
begin

lemma asym: "lt x y \<Longrightarrow> \<not> lt y x"
  using irrefl trans by blast

lemma not_lt: "\<not> lt x y \<longleftrightarrow> x = y \<or> lt y x"
  using irrefl linear asym by blast

text \<open>The two parts of a container on the sides of the lower bound.\<close>

lemma take_lower_bound:
  assumes "sorted_map lt es"
  shows "take (lower_bound lt k es) es = filter (\<lambda>e. lt (fst e) k) es"
  unfolding lower_bound_def takeWhile_eq_take [symmetric] using assms
proof (induction es)
  case (Cons e es)
  have "\<not> lt (fst e) k \<Longrightarrow> filter (\<lambda>e. lt (fst e) k) es = []"
    using Cons.prems trans by (auto simp: filter_empty_conv)
  with Cons show ?case by auto
qed simp

lemma drop_lower_bound:
  assumes "sorted_map lt es"
  shows "drop (lower_bound lt k es) es = filter (\<lambda>e. \<not> lt (fst e) k) es"
  unfolding lower_bound_def dropWhile_eq_drop [symmetric] using assms
proof (induction es)
  case (Cons e es)
  have "\<not> lt (fst e) k \<Longrightarrow> filter (\<lambda>e. \<not> lt (fst e) k) es = es"
    using Cons.prems trans by (auto simp: filter_id_conv)
  with Cons show ?case by auto
qed simp

lemma take_upper_bound:
  assumes "sorted_map lt es"
  shows "take (upper_bound lt k es) es = filter (\<lambda>e. \<not> lt k (fst e)) es"
  unfolding upper_bound_def takeWhile_eq_take [symmetric] using assms
proof (induction es)
  case (Cons e es)
  have "lt k (fst e) \<Longrightarrow> filter (\<lambda>e. \<not> lt k (fst e)) es = []"
    using Cons.prems trans by (auto simp: filter_empty_conv)
  with Cons show ?case by auto
qed simp

lemma lower_bound_length: "lower_bound lt k es \<le> length es"
  by (simp add: lower_bound_def length_takeWhile_le)

lemma sorted_keys_unique: "sorted_map lt es \<Longrightarrow> (k, v) \<in> set es \<Longrightarrow> (k, w) \<in> set es \<Longrightarrow> v = w"
proof (induction es)
  case (Cons e es)
  have "(k, x) \<in> set es \<Longrightarrow> e \<noteq> (k, y)" for x y using Cons.prems(1) irrefl by force
  with Cons show ?case by auto
qed simp

lemma nth_lower_bound:
  assumes "sorted_map lt es" and "lower_bound lt k es < length es"
  shows "es ! lower_bound lt k es = hd (filter (\<lambda>e. \<not> lt (fst e) k) es)"
  using assms(2) by (simp add: hd_drop_conv_nth flip: drop_lower_bound [OF assms(1)])

text \<open>The key is present exactly when the entry at the lower bound has it.\<close>

lemma lower_bound_hit:
  assumes "sorted_map lt es"
  shows "(lower_bound lt k es < length es \<and> \<not> lt k (fst (es ! lower_bound lt k es))) \<longleftrightarrow> k \<in> fst ` set es"
    (is "?hit \<longleftrightarrow> ?in")
proof
  assume h: ?hit
  let ?e = "es ! lower_bound lt k es"
  have "\<not> lt (fst ?e) k" using h nth_length_takeWhile [of "\<lambda>e. lt (fst e) k" es] by (simp add: lower_bound_def)
  then have "fst ?e = k" using h not_lt by blast
  then show ?in using h nth_mem by (metis image_eqI)
next
  assume ?in
  then obtain v where v: "(k, v) \<in> set es" by auto
  then have mem: "(k, v) \<in> set (drop (lower_bound lt k es) es)"
    by (simp add: drop_lower_bound [OF assms] irrefl)
  then obtain e fs where d: "drop (lower_bound lt k es) es = e # fs" by (cases "drop (lower_bound lt k es) es") auto
  then have e: "lower_bound lt k es < length es" "es ! lower_bound lt k es = e"
    by (metis drop_all list.distinct(1) not_less, metis d hd_drop_conv_nth list.sel(1) drop_all list.distinct(1) not_less)
  have "sorted_map lt (e # fs)" using assms sorted_map_filter d drop_lower_bound [OF assms, of k] by metis
  then have "\<not> lt k (fst e)" using mem d asym irrefl by auto
  then show ?hit using e by simp
qed

lemma lower_bound_entry:
  assumes "sorted_map lt es" and "k \<in> fst ` set es"
  shows "fst (es ! lower_bound lt k es) = k" and "lower_bound lt k es < length es"
proof -
  have h: "lower_bound lt k es < length es" "\<not> lt k (fst (es ! lower_bound lt k es))"
    using lower_bound_hit [OF assms(1), of k] assms(2) by auto
  moreover have "\<not> lt (fst (es ! lower_bound lt k es)) k"
    using h(1) nth_length_takeWhile [of "\<lambda>e. lt (fst e) k" es] by (simp add: lower_bound_def)
  ultimately show "fst (es ! lower_bound lt k es) = k" "lower_bound lt k es < length es" using not_lt by blast+
qed

lemma emplace_eq:
  assumes "sorted_map lt es"
  shows "emplace lt k v es =
    (if k \<in> fst ` set es then (lower_bound lt k es, False, es)
     else (lower_bound lt k es, True, filter (\<lambda>e. lt (fst e) k) es @ (k, v) # filter (\<lambda>e. lt k (fst e)) es))"
proof (cases "k \<in> fst ` set es")
  case True
  then show ?thesis using lower_bound_hit [OF assms, of k] by (simp add: emplace_def Let_def)
next
  case False
  then have "filter (\<lambda>e. \<not> lt (fst e) k) es = filter (\<lambda>e. lt k (fst e)) es"
    by (intro filter_cong) (auto simp: not_lt irrefl dest: asym)
  with False show ?thesis
    using lower_bound_hit [OF assms, of k]
    by (simp add: emplace_def Let_def take_lower_bound [OF assms] drop_lower_bound [OF assms])
qed

lemma sorted_emplace: "sorted_map lt es \<Longrightarrow> sorted_map lt (snd (snd (emplace lt k v es)))"
  using trans by (auto simp: emplace_eq sorted_map_append sorted_map_filter)

lemma set_emplace:
  "sorted_map lt es \<Longrightarrow> set (snd (snd (emplace lt k v es))) = (if k \<in> fst ` set es then set es else insert (k, v) (set es))"
proof -
  assume s: "sorted_map lt es"
  have "k \<notin> fst ` set es \<Longrightarrow> e \<in> set es \<Longrightarrow> lt (fst e) k \<or> lt k (fst e)" for e
    using linear [of "fst e" k] by auto
  then show ?thesis by (auto simp: emplace_eq [OF s])
qed

lemma map_find_eq: 
  assumes "sorted_map lt es"
  shows "map_find lt k es = Some v \<longleftrightarrow> (k, v) \<in> set es"
proof
  assume "map_find lt k es = Some v"
  then have h: "lower_bound lt k es < length es" "\<not> lt k (fst (es ! lower_bound lt k es))" "snd (es ! lower_bound lt k es) = v"
    by (auto simp: map_find_def Let_def split: if_splits)
  then have "fst (es ! lower_bound lt k es) = k" using lower_bound_hit [OF assms] lower_bound_entry(1) [OF assms] by blast
  then show "(k, v) \<in> set es" using h by (metis nth_mem prod.collapse)
next
  assume v: "(k, v) \<in> set es"
  then have k: "k \<in> fst ` set es" by force
  have e: "fst (es ! lower_bound lt k es) = k" "lower_bound lt k es < length es" using lower_bound_entry [OF assms k] by auto
  then have "(k, snd (es ! lower_bound lt k es)) \<in> set es" by (metis nth_mem prod.collapse)
  then show "map_find lt k es = Some v"
    using sorted_keys_unique [OF assms v] e by (simp add: map_find_def Let_def irrefl)
qed

end

end
