(* ===== verification/Exclude.thy ===== *)
theory Exclude
  imports Name StdMap
begin

text \<open>
  The Exclude selector, \<^verbatim>\<open>ndn-cxx/src/exclude.cpp\<close>: a set of name components given by single
  components and closed ranges. The map \<^verbatim>\<open>m_entries\<close>, ordered by \<^verbatim>\<open>std::greater\<close>, is the descending list
  of its entries; a flag says that everything from the key to the next greater key is excluded too.
  Keys are abstract components: the operations compare them only, and on component blocks that is
  the canonical order of \<open>NameComponent\<close>.
\<close>

datatype exclude_component = NegInf | ExcludeComponent (ec_component: component)

instantiation exclude_component :: linorder
begin

definition less_exclude_component :: "exclude_component \<Rightarrow> exclude_component \<Rightarrow> bool" where
  "less_exclude_component a b =
     (case (a, b) of
        (NegInf, ExcludeComponent _) \<Rightarrow> True
      | (ExcludeComponent c, ExcludeComponent d) \<Rightarrow> c < d
      | _ \<Rightarrow> False)"

definition less_eq_exclude_component :: "exclude_component \<Rightarrow> exclude_component \<Rightarrow> bool" where
  "less_eq_exclude_component a b \<longleftrightarrow> a < b \<or> a = b"

instance
  by standard (auto simp: less_eq_exclude_component_def less_exclude_component_def split: exclude_component.splits)

end

type_synonym exclude_entry = "exclude_component \<times> bool"

record exclude =
  ex_entries :: "exclude_entry list"
  ex_wire :: block

abbreviation ec_greater :: "exclude_component \<Rightarrow> exclude_component \<Rightarrow> bool" where
  "ec_greater \<equiv> \<lambda>a b. b < a"

definition Exclude_default :: exclude where
  "Exclude_default = \<lparr>ex_entries = [], ex_wire = Block_default\<rparr>"

definition Exclude_clear :: "exclude \<Rightarrow> exclude" where
  "Exclude_clear x = \<lparr>ex_entries = [], ex_wire = Block_reset (ex_wire x)\<rparr>"

definition Exclude_empty :: "exclude \<Rightarrow> bool" where
  "Exclude_empty x \<longleftrightarrow> ex_entries x = []"

section \<open>Adding to the filter\<close>

definition Exclude_appendEntry :: "exclude_component \<Rightarrow> bool \<Rightarrow> exclude_entry list \<Rightarrow> exclude_entry list" where
  "Exclude_appendEntry c hasAny es = snd (snd (emplace ec_greater c hasAny es))"

definition isExcluded :: "exclude_entry list \<Rightarrow> component \<Rightarrow> bool" where
  "isExcluded es c =
     (let lb = lower_bound ec_greater (ExcludeComponent c) es
      in lb \<noteq> length es \<and> (snd (es ! lb) \<or> fst (es ! lb) = ExcludeComponent c))"

definition Exclude_isExcluded :: "exclude \<Rightarrow> component \<Rightarrow> bool" where
  "Exclude_isExcluded x c = isExcluded (ex_entries x) c"

definition excludeOne :: "exclude \<Rightarrow> component \<Rightarrow> exclude" where
  "excludeOne x c =
     (if \<not> Exclude_isExcluded x c
      then \<lparr>ex_entries = Exclude_appendEntry (ExcludeComponent c) False (ex_entries x), ex_wire = Block_reset (ex_wire x)\<rparr>
      else x)"

text \<open>The start of a range: the iterator \<^verbatim>\<open>newFrom\<close> and the entries after it is set up.\<close>

definition range_start :: "exclude_component \<Rightarrow> exclude_entry list \<Rightarrow> nat \<times> exclude_entry list" where
  "range_start from es =
     (let newFrom = lower_bound ec_greater from es
      in if newFrom = length es \<or> \<not> snd (es ! newFrom)
         then (case emplace ec_greater from True es of
                 (i, isNewEntry, es') \<Rightarrow> if isNewEntry then (i, es') else (i, es'[i := (fst (es' ! i), True)]))
         else (newFrom, es))"

text \<open>
  The end of a range. Inserting the entry of \<open>to\<close> in front of \<^verbatim>\<open>newFrom\<close> moves the position of
  \<^verbatim>\<open>newFrom\<close> by one; the iterator of the source stays on its entry.
\<close>

definition range_entries :: "exclude_component \<Rightarrow> component \<Rightarrow> exclude_entry list \<Rightarrow> exclude_entry list" where
  "range_entries from to es =
     (case range_start from es of
        (newFrom, es1) \<Rightarrow>
          (let newTo = lower_bound ec_greater (ExcludeComponent to) es1
           in if newTo = newFrom \<or> \<not> snd (es1 ! newTo)
              then (case emplace ec_greater (ExcludeComponent to) False es1 of
                      (i, isNewEntry, es2) \<Rightarrow>
                        erase_range (i + 1) (if isNewEntry then newFrom + 1 else newFrom) es2)
              else erase_range newTo newFrom es1))"

definition excludeRange_from :: "exclude \<Rightarrow> exclude_component \<Rightarrow> component \<Rightarrow> exclude res" where
  "excludeRange_from x from to =
     (if from \<noteq> NegInf \<and> ec_component from \<ge> to then Inl (ExcludeError ''Invalid exclude range'')
      else Inr \<lparr>ex_entries = range_entries from to (ex_entries x), ex_wire = Block_reset (ex_wire x)\<rparr>)"

definition excludeRange :: "exclude \<Rightarrow> component \<Rightarrow> component \<Rightarrow> exclude res" where
  "excludeRange x from to = excludeRange_from x (ExcludeComponent from) to"

definition excludeBefore :: "exclude \<Rightarrow> component \<Rightarrow> exclude res" where
  "excludeBefore x to = excludeRange_from x NegInf to"

definition excludeAfter :: "exclude \<Rightarrow> component \<Rightarrow> exclude" where
  "excludeAfter x from =
     (case range_start (ExcludeComponent from) (ex_entries x) of
        (newFrom, es) \<Rightarrow> \<lparr>ex_entries = erase_range 0 newFrom es, ex_wire = Block_reset (ex_wire x)\<rparr>)"

section \<open>Wire format\<close>

text \<open>A block of the component, with a value and no wire.\<close>

definition comp_block :: "component \<Rightarrow> block" where
  "comp_block c = Block_of_type_value (comp_type c) (comp_value c)"

fun Exclude_encode_entries :: "'s encoding_ops \<Rightarrow> exclude_entry list \<Rightarrow> nat \<Rightarrow> ('s, nat) state" where
  "Exclude_encode_entries ops [] totalLength = State_Monad.return totalLength"
| "Exclude_encode_entries ops ((key, any) # es) totalLength = do {
     k \<leftarrow> (if any then prependEmptyBlock ops tlv_Any else State_Monad.return 0);
     j \<leftarrow> (case key of NegInf \<Rightarrow> State_Monad.return 0 | ExcludeComponent c \<Rightarrow> Component_wireEncode_template ops (comp_block c));
     Exclude_encode_entries ops es (totalLength + k + j)
   }"

definition Exclude_wireEncode_template :: "'s encoding_ops \<Rightarrow> exclude_entry list \<Rightarrow> ('s, nat) state" where
  "Exclude_wireEncode_template ops es = do {
     totalLength \<leftarrow> Exclude_encode_entries ops es 0;
     k \<leftarrow> op_prependVarNumber ops (word_of_nat totalLength);
     j \<leftarrow> op_prependVarNumber ops (ucast tlv_Exclude);
     State_Monad.return (totalLength + k + j)
   }"

text \<open>\<^verbatim>\<open>wireEncode()\<close> returns the wire and keeps it in \<^verbatim>\<open>m_wire\<close>.\<close>

definition Exclude_wireEncode :: "exclude \<Rightarrow> (block \<times> exclude) res" where
  "Exclude_wireEncode x =
     (if Block_hasWire (ex_wire x) then Inr (ex_wire x, x)
      else if ex_entries x = [] then Inl (ExcludeError ''cannot encode empty Exclude selector'')
      else case estimate_and_encode (Exclude_wireEncode_template estimator_ops (ex_entries x))
                  (Exclude_wireEncode_template encoder_ops (ex_entries x)) of
        Inl e \<Rightarrow> Inl e
      | Inr b \<Rightarrow> Inr (b, x\<lparr>ex_wire := b\<rparr>))"

fun Exclude_decode_entries :: "block list \<Rightarrow> exclude_entry list \<Rightarrow> error option \<times> exclude_entry list" where
  "Exclude_decode_entries [] es = (None, es)"
| "Exclude_decode_entries [i] es =
     (case Component_of_block i of
        Inl _ \<Rightarrow> (Some (ExcludeError ''Incorrect format of Exclude filter''), es)
      | Inr c \<Rightarrow> (None, Exclude_appendEntry (ExcludeComponent (component_of c)) False es))"
| "Exclude_decode_entries (i # j # is) es =
     (case Component_of_block i of
        Inl _ \<Rightarrow> (Some (ExcludeError ''Incorrect format of Exclude filter''), es)
      | Inr c \<Rightarrow>
          if m_type j = tlv_Any
          then Exclude_decode_entries is (Exclude_appendEntry (ExcludeComponent (component_of c)) True es)
          else Exclude_decode_entries (j # is) (Exclude_appendEntry (ExcludeComponent (component_of c)) False es))"

text \<open>The exception, if any, and the object as it is left then.\<close>

definition Exclude_wireDecode :: "exclude \<Rightarrow> block \<Rightarrow> error option \<times> exclude" where
  "Exclude_wireDecode x wire =
     (let x0 = Exclude_clear x
      in if m_type wire \<noteq> tlv_Exclude then (Some (TlvError ''Unexpected TLV type when decoding Exclude''), x0)
         else case Block_parse wire of
           (Some e, w) \<Rightarrow> (Some e, \<lparr>ex_entries = [], ex_wire = w\<rparr>)
         | (None, w) \<Rightarrow>
             (case m_subBlocks w of
                [] \<Rightarrow> (Some (ExcludeError ''Exclude element cannot be empty''), \<lparr>ex_entries = [], ex_wire = w\<rparr>)
              | i # is \<Rightarrow>
                  (case (if m_type i = tlv_Any then Exclude_decode_entries is (Exclude_appendEntry NegInf True [])
                         else Exclude_decode_entries (i # is) []) of
                     (err, es) \<Rightarrow> (err, \<lparr>ex_entries = es, ex_wire = w\<rparr>))))"

section \<open>Enumeration and printing\<close>

text \<open>A range, \<open>None\<close> standing for the infinite ends.\<close>

record range =
  range_from :: "component option"
  range_to :: "component option"

definition key_component :: "exclude_component \<Rightarrow> component" where
  "key_component k = (case k of NegInf \<Rightarrow> Component tlv_NameComponent [] | ExcludeComponent c \<Rightarrow> c)"

text \<open>The ranges that iteration from \<^verbatim>\<open>begin()\<close> to \<^verbatim>\<open>end()\<close> visits, on the entries in ascending order.\<close>

fun enumerate_ranges :: "exclude_entry list \<Rightarrow> range list" where
  "enumerate_ranges [] = []"
| "enumerate_ranges [(k, any)] =
     [if any then \<lparr>range_from = (case k of NegInf \<Rightarrow> None | ExcludeComponent c \<Rightarrow> Some c), range_to = None\<rparr>
      else \<lparr>range_from = Some (key_component k), range_to = Some (key_component k)\<rparr>]"
| "enumerate_ranges ((k, any) # (k', any') # es) =
     (if any
      then \<lparr>range_from = (case k of NegInf \<Rightarrow> None | ExcludeComponent c \<Rightarrow> Some c), range_to = Some (key_component k')\<rparr>
             # enumerate_ranges es
      else \<lparr>range_from = Some (key_component k), range_to = Some (key_component k)\<rparr> # enumerate_ranges ((k', any') # es))"

definition Exclude_ranges :: "exclude \<Rightarrow> range list" where
  "Exclude_ranges x = enumerate_ranges (rev (ex_entries x))"

definition Exclude_size :: "exclude \<Rightarrow> nat" where
  "Exclude_size x = length (Exclude_ranges x)"

fun print_entries :: "exclude_entry list \<Rightarrow> bool \<Rightarrow> str" where
  "print_entries [] isFirst = []"
| "print_entries ((key, any) # es) isFirst =
     (let sep = (\<lambda>first. if first then [] else [44]);
          s1 = (case key of NegInf \<Rightarrow> [] | ExcludeComponent c \<Rightarrow> sep isFirst @ Component_toUri (comp_block c));
          first1 = (isFirst \<and> key = NegInf);
          s2 = (if any then sep first1 @ [42] else [])
      in s1 @ s2 @ print_entries es (first1 \<and> \<not> any))"

definition Exclude_toUri :: "exclude \<Rightarrow> str" where
  "Exclude_toUri x = print_entries (rev (ex_entries x)) True"

definition Exclude_equals :: "exclude \<Rightarrow> exclude \<Rightarrow> bool" where
  "Exclude_equals x y \<longleftrightarrow> ex_entries x = ex_entries y"

section \<open>What a set of entries excludes\<close>

interpretation gt: comparator ec_greater
  by unfold_locales auto

text \<open>
  \<open>top_entry S K e\<close>: \<open>e\<close> is the entry with the greatest key that is at most \<open>K\<close>; \<open>covers\<close> is the rule of
  \<^verbatim>\<open>isExcluded\<close> on it.
\<close>

definition top_entry :: "exclude_entry set \<Rightarrow> exclude_component \<Rightarrow> exclude_entry \<Rightarrow> bool" where
  "top_entry S K e \<longleftrightarrow> e \<in> S \<and> fst e \<le> K \<and> (\<forall>e' \<in> S. fst e' \<le> K \<longrightarrow> fst e' \<le> fst e)"

definition covers :: "exclude_entry set \<Rightarrow> exclude_component \<Rightarrow> bool" where
  "covers S K \<longleftrightarrow> (\<exists>e. top_entry S K e \<and> (snd e \<or> fst e = K))"

definition entries_ok :: "exclude_entry list \<Rightarrow> bool" where
  "entries_ok es \<longleftrightarrow> sorted_map ec_greater es"

lemma filter_le_lower_bound:
  assumes "entries_ok es"
  shows "drop (lower_bound ec_greater K es) es = filter (\<lambda>e. fst e \<le> K) es"
    and "take (lower_bound ec_greater K es) es = filter (\<lambda>e. K < fst e) es"
  using gt.drop_lower_bound [of es K] gt.take_lower_bound [of es K] assms by (simp_all add: entries_ok_def not_less)

lemma top_head:
  assumes "entries_ok es" and "filter (\<lambda>e. fst e \<le> K) es = e # es'"
  shows "top_entry (set es) K e"
proof -
  have s: "sorted_map ec_greater (e # es')"
    using sorted_map_filter assms unfolding entries_ok_def by metis
  have m: "e' \<in> set es \<Longrightarrow> fst e' \<le> K \<Longrightarrow> e' \<in> set (e # es')" for e'
    using arg_cong [OF assms(2), of set] by auto
  have "e \<in> set (filter (\<lambda>e. fst e \<le> K) es)" using assms(2) by simp
  then show ?thesis using m s by (fastforce simp: top_entry_def)
qed

lemma top_lower_bound:
  assumes "entries_ok es"
  shows "lower_bound ec_greater K es < length es \<Longrightarrow> top_entry (set es) K (es ! lower_bound ec_greater K es)"
    and "\<not> lower_bound ec_greater K es < length es \<Longrightarrow> \<not> top_entry (set es) K e"
proof -
  assume l: "lower_bound ec_greater K es < length es"
  then obtain es' where "filter (\<lambda>e. fst e \<le> K) es = (es ! lower_bound ec_greater K es) # es'"
    using filter_le_lower_bound(1) [OF assms, of K] Cons_nth_drop_Suc [OF l] by metis
  then show "top_entry (set es) K (es ! lower_bound ec_greater K es)" by (rule top_head [OF assms])
next
  assume "\<not> lower_bound ec_greater K es < length es"
  then have "filter (\<lambda>e. fst e \<le> K) es = []" using filter_le_lower_bound(1) [OF assms, of K] by simp
  then show "\<not> top_entry (set es) K e" by (auto simp: top_entry_def filter_empty_conv)
qed

lemma top_unique: "entries_ok es \<Longrightarrow> top_entry (set es) K e \<Longrightarrow> top_entry (set es) K e' \<Longrightarrow> e = e'"
proof -
  assume ok: "entries_ok es" and e: "top_entry (set es) K e" and e': "top_entry (set es) K e'"
  have k: "fst e = fst e'" using e e' by (auto simp: top_entry_def intro: antisym)
  have "(fst e, snd e) \<in> set es" using e by (simp add: top_entry_def)
  moreover have "(fst e, snd e') \<in> set es" using e' unfolding k by (simp add: top_entry_def)
  ultimately have "snd e = snd e'" by (rule gt.sorted_keys_unique [OF ok [unfolded entries_ok_def]])
  with k show "e = e'" by (rule prod_eqI)
qed

lemma isExcluded_covers: "entries_ok es \<Longrightarrow> isExcluded es c \<longleftrightarrow> covers (set es) (ExcludeComponent c)"
proof (cases "lower_bound ec_greater (ExcludeComponent c) es < length es")
  case True
  assume ok: "entries_ok es"
  let ?e = "es ! lower_bound ec_greater (ExcludeComponent c) es"
  have "top_entry (set es) (ExcludeComponent c) e \<longleftrightarrow> e = ?e" for e
    using top_lower_bound(1) [OF ok True] top_unique [OF ok] by blast
  then show ?thesis using True by (simp add: isExcluded_def covers_def Let_def)
next
  case False
  assume ok: "entries_ok es"
  then show ?thesis using False top_lower_bound(2) [OF ok False] gt.lower_bound_length [of "ExcludeComponent c" es]
    by (auto simp: isExcluded_def covers_def Let_def)
qed

lemma top_agree:
  assumes "\<And>e. to < fst e \<Longrightarrow> e \<in> R \<longleftrightarrow> e \<in> S" and "e0 \<in> S" and "to < fst e0" and "fst e0 \<le> K" and "top_entry R K e"
  shows "top_entry S K e"
proof -
  have "fst e0 \<le> fst e" using assms by (auto simp: top_entry_def)
  then have gt: "to < fst e" using assms(3) by order
  moreover have "fst e' \<le> fst e" if "e' \<in> S" "fst e' \<le> K" for e'
    using that assms(1) [of e'] assms(5) gt by (cases "to < fst e'") (auto simp: top_entry_def)
  ultimately show ?thesis using assms(1) [of e] assms(5) by (auto simp: top_entry_def)
qed

text \<open>What remains of the entries when a range from \<open>F\<close> to \<open>to\<close> replaces the keys in between.\<close>

lemma covers_replace:
  fixes S :: "exclude_entry set"
  assumes lt: "from < to" and F: "F = from \<and> (\<forall>e. top_entry S from e \<longrightarrow> \<not> snd e) \<or> top_entry S from (F, True)"
    and ok: "\<not> (top_entry S from (F, True) \<and> (\<forall>e \<in> S. from < fst e \<longrightarrow> \<not> fst e \<le> to))"
    and M: "M = (if \<exists>e. top_entry S to e \<and> snd e \<and> from < fst e then {} else {(to, False)})"
    and R: "R = {e \<in> S. to < fst e} \<union> M \<union> {(F, True)} \<union> {e \<in> S. fst e < F}"
    and fin: "\<And>K. (\<exists>e \<in> S. fst e \<le> K) \<Longrightarrow> \<exists>e. top_entry S K e"
  shows "covers R K \<longleftrightarrow> covers S K \<or> (from \<le> K \<and> K \<le> to)"
proof -
  have Fle: "F \<le> from" using F by (auto simp: top_entry_def)
  consider "K < F" | "F \<le> K" "K \<le> to" | "to < K" by fastforce
  then show ?thesis
  proof cases
    case 1
    then have "top_entry R K e \<longleftrightarrow> top_entry S K e" for e
      using Fle lt by (auto simp: top_entry_def R M split: if_splits)
    then show ?thesis using 1 Fle by (auto simp: covers_def)
  next
    case 2
    have "covers R K"
    proof (cases "K = to \<and> M \<noteq> {}")
      case True
      then have "top_entry R K (to, False)" using lt Fle by (auto simp: top_entry_def R M split: if_splits)
      then show ?thesis using True by (auto simp: covers_def)
    next
      case False
      then have "top_entry R K (F, True)" using 2 lt Fle by (auto simp: top_entry_def R M split: if_splits)
      then show ?thesis by (auto simp: covers_def)
    qed
    moreover have "covers S K" if "\<not> from \<le> K"
    proof -
      have "top_entry S from (F, True)" using F that 2 by auto
      then have "top_entry S K (F, True)" using 2 that by (auto simp: top_entry_def)
      then show ?thesis by (auto simp: covers_def)
    qed
    ultimately show ?thesis using 2 by auto
  next
    case 3
    show ?thesis
    proof (cases "\<exists>e \<in> S. to < fst e \<and> fst e \<le> K")
      case True
      then obtain e0 where e0: "e0 \<in> S" "to < fst e0" "fst e0 \<le> K" by blast
      have same: "to < fst e \<Longrightarrow> e \<in> R \<longleftrightarrow> e \<in> S" for e using Fle lt by (auto simp: R M split: if_splits)
      have "top_entry R K e \<longleftrightarrow> top_entry S K e" for e
        using top_agree [of to R S e0 K e] top_agree [of to S R e0 K e] same e0 by blast
      then show ?thesis using 3 by (auto simp: covers_def)
    next
      case False
      have down: "top_entry S K e \<Longrightarrow> top_entry S to e" for e using False 3 by (auto simp: top_entry_def)
      have up: "top_entry S to e \<Longrightarrow> top_entry S K e" for e using False 3 by (fastforce simp: top_entry_def)
      show ?thesis
      proof (cases "\<exists>e. top_entry S to e \<and> snd e \<and> from < fst e")
        case True
        then have "covers S K" using up by (auto simp: covers_def)
        moreover have "top_entry R K (F, True)" using True False 3 lt Fle by (fastforce simp: top_entry_def R M)
        ultimately show ?thesis by (auto simp: covers_def)
      next
        case no: False
        have M': "M = {(to, False)}" unfolding M by (rule if_not_P [OF no])
        then have in_R: "(to, False) \<in> R" by (simp add: R)
        have le: "e \<in> R \<Longrightarrow> fst e \<le> K \<Longrightarrow> e = (to, False) \<or> fst e < to" for e
          using False lt Fle by (auto simp: R M')
        have u: "e = (to, False)" if "top_entry R K e" for e
          using that le [of e] in_R 3 by (fastforce simp: top_entry_def)
        have nb: "\<not> snd e" if e: "top_entry S to e" for e
        proof
          assume "snd e"
          then have "\<not> from < fst e" using no e by blast
          then have te: "top_entry S from e" using e lt by (auto simp: top_entry_def)
          moreover have "\<forall>e' \<in> S. from < fst e' \<longrightarrow> \<not> fst e' \<le> to"
            using e \<open>\<not> from < fst e\<close> by (force simp: top_entry_def)
          moreover have "top_entry S from (F, True)" using F te \<open>snd e\<close> by blast
          ultimately show False using ok by blast
        qed
        have "\<not> covers R K" using u 3 by (auto simp: covers_def)
        moreover have "\<not> covers S K"
        proof
          assume "covers S K"
          then obtain e where "top_entry S to e" "snd e \<or> fst e = K" using down unfolding covers_def by blast
          then show False using nb 3 by (auto simp: top_entry_def)
        qed
        ultimately show ?thesis using 3 by auto
      qed
    qed
  qed
qed

section \<open>The entries after adding a range\<close>

lemma entries_ok_append:
  "entries_ok (filter (\<lambda>e. K < fst e) es @ mid @ filter (\<lambda>e. fst e < F) es)"
  if "entries_ok es" and "entries_ok mid" and "\<forall>e \<in> set mid. F \<le> fst e \<and> fst e \<le> K" and "F \<le> K"
  using that unfolding entries_ok_def
  by (auto simp: sorted_map_append sorted_map_filter intro: le_less_trans less_le_trans less_trans)

lemma set_filter_split: "set es = {e \<in> set es. K < fst e} \<union> {e \<in> set es. fst e = K} \<union> {e \<in> set es. fst e < (K :: exclude_component)}"
  by auto

text \<open>
  After \<open>range_start\<close> the entry at \<^verbatim>\<open>newFrom\<close> is \<open>(F, True)\<close> with \<open>F\<close> the given start or the start of
  the range it lies in; the entries above the given start and below \<open>F\<close> are those of before.
\<close>

lemma range_start_entries:
  assumes "entries_ok es"
  shows "\<exists>F. range_start from es = (length (filter (\<lambda>e. from < fst e) es),
            filter (\<lambda>e. from < fst e) es @ (F, True) # filter (\<lambda>e. fst e < F) es)
     \<and> (F = from \<and> (\<forall>e. top_entry (set es) from e \<longrightarrow> \<not> snd e) \<or> top_entry (set es) from (F, True))"
proof -
  let ?lb = "lower_bound ec_greater from es"
  have len: "?lb = length (filter (\<lambda>e. from < fst e) es)"
    using filter_le_lower_bound(2) [OF assms, of "from"] gt.lower_bound_length [of "from" es]
    by (metis length_take min.absorb2)
  have srt: "sorted_map ec_greater es" using assms by (simp add: entries_ok_def)
  show ?thesis
  proof (cases "?lb = length es \<or> \<not> snd (es ! ?lb)")
    case any: False
    then have lt: "?lb < length es" and any': "snd (es ! ?lb)" using gt.lower_bound_length [of "from" es] by auto
    let ?F = "fst (es ! ?lb)"
    have e: "es ! ?lb = (?F, True)" using any' by (simp add: prod_eq_iff)
    have t: "top_entry (set es) from (?F, True)" using top_lower_bound(1) [OF assms lt] e by simp
    have "es = take ?lb es @ es ! ?lb # drop (Suc ?lb) es" using lt by (simp add: id_take_nth_drop)
    then have split: "es = filter (\<lambda>e. from < fst e) es @ (?F, True) # drop (Suc ?lb) es"
      using filter_le_lower_bound(2) [OF assms, of "from"] e by simp
    have below: "\<forall>x \<in> set (drop (Suc ?lb) es). fst x < ?F"
      using srt by (subst (asm) split) (simp add: sorted_map_append)
    have "filter (\<lambda>e. fst e < ?F) es = drop (Suc ?lb) es"
      using below t by (subst split) (auto simp: top_entry_def filter_empty_conv filter_id_conv)
    then have "range_start from es = (length (filter (\<lambda>e. from < fst e) es),
            filter (\<lambda>e. from < fst e) es @ (?F, True) # filter (\<lambda>e. fst e < ?F) es)"
      using any split len by (simp add: range_start_def Let_def)
    with t show ?thesis by blast
  next
    case none: True
    have no: "\<forall>e. top_entry (set es) from e \<longrightarrow> \<not> snd e"
    proof (cases "?lb < length es")
      case True
      then show ?thesis using none top_unique [OF assms top_lower_bound(1) [OF assms True]] by fastforce
    next
      case False
      then show ?thesis using top_lower_bound(2) [OF assms False] by blast
    qed
    have "range_start from es = (length (filter (\<lambda>e. from < fst e) es),
            filter (\<lambda>e. from < fst e) es @ (from, True) # filter (\<lambda>e. fst e < from) es)"
    proof (cases "from \<in> fst ` set es")
      case True
      have e: "fst (es ! ?lb) = from" "?lb < length es" using gt.lower_bound_entry [OF srt True] by auto
      have split: "es = take ?lb es @ es ! ?lb # drop (Suc ?lb) es" using e(2) by (simp add: id_take_nth_drop)
      have below: "\<forall>x \<in> set (drop (Suc ?lb) es). fst x < from"
        using srt e(1) by (subst (asm) split) (simp add: sorted_map_append)
      have "\<forall>x \<in> set (take ?lb es). from < fst x" using filter_le_lower_bound(2) [OF assms, of "from"] by auto
      then have "filter (\<lambda>e. fst e < from) es = drop (Suc ?lb) es"
        using below e(1) by (subst split) (auto simp: filter_empty_conv filter_id_conv)
      moreover have "es[?lb := (from, True)] = take ?lb es @ (from, True) # drop (Suc ?lb) es"
        using e(2) by (rule upd_conv_take_nth_drop)
      ultimately show ?thesis
        using none True e len filter_le_lower_bound(2) [OF assms, of "from"]
        by (simp add: range_start_def Let_def gt.emplace_eq [OF srt])
    next
      case False
      then show ?thesis using none len by (simp add: range_start_def Let_def gt.emplace_eq [OF srt])
    qed
    with no show ?thesis by blast
  qed
qed

lemma filter_split:
  assumes "entries_ok es" and "a < b"
  shows "filter (\<lambda>e. a < fst e) es = filter (\<lambda>e. b < fst e) es @ filter (\<lambda>e. a < fst e \<and> fst e \<le> b) es"
    and "filter (\<lambda>e. fst e \<le> b) es = filter (\<lambda>e. a < fst e \<and> fst e \<le> b) es @ filter (\<lambda>e. fst e \<le> a) es"
  using assms unfolding entries_ok_def
proof (induction es)
  case (Cons x es)
  {
    case 1
    have "fst x \<le> b \<Longrightarrow> filter (\<lambda>e. b < fst e) es = []"
      using 1 by (auto simp: filter_empty_conv)
    with 1 Cons.IH show ?case by (auto simp: not_less)
  next
    case 2
    have "fst x \<le> a \<Longrightarrow> filter (\<lambda>e. a < fst e \<and> fst e \<le> b) es = []"
      using 2 by (auto simp: filter_empty_conv)
    with 2 Cons.IH show ?case by (auto simp: not_less)
  }
qed simp_all

lemma lower_bound_filter: "entries_ok es \<Longrightarrow> lower_bound ec_greater K es = length (filter (\<lambda>e. K < fst e) es)"
  using filter_le_lower_bound(2) [of es K] gt.lower_bound_length [of K es] by (metis length_take min.absorb2)

lemma range_entries_eq:
  assumes "entries_ok es" and "from < ExcludeComponent to"
  defines "B \<equiv> filter (\<lambda>e. from < fst e \<and> fst e \<le> ExcludeComponent to) es"
  shows "\<exists>F. range_entries from to es = filter (\<lambda>e. ExcludeComponent to < fst e) es
            @ (if B = [] \<or> \<not> snd (hd B) then [(ExcludeComponent to, False)] else []) @ (F, True) # filter (\<lambda>e. fst e < F) es
     \<and> (F = from \<and> (\<forall>e. top_entry (set es) from e \<longrightarrow> \<not> snd e) \<or> top_entry (set es) from (F, True))"
proof -
  let ?T = "ExcludeComponent to"
  let ?G = "filter (\<lambda>e. ?T < fst e) es" and ?A = "filter (\<lambda>e. from < fst e) es"
  obtain F where rs: "range_start from es = (length ?A, ?A @ (F, True) # filter (\<lambda>e. fst e < F) es)"
    and F: "F = from \<and> (\<forall>e. top_entry (set es) from e \<longrightarrow> \<not> snd e) \<or> top_entry (set es) from (F, True)"
    using range_start_entries [OF assms(1)] by blast
  let ?C = "filter (\<lambda>e. fst e < F) es"
  let ?es1 = "?A @ (F, True) # ?C"
  have Fle: "F \<le> from" using F by (auto simp: top_entry_def)
  then have FT: "F < ?T" using assms(2) by order
  have A: "?A = ?G @ B" unfolding B_def by (rule filter_split(1) [OF assms(1,2)])
  have ok1: "entries_ok ?es1"
    using entries_ok_append [OF assms(1), of "[(F, True)]" F "from"] Fle by (simp add: entries_ok_def)
  have G1: "filter (\<lambda>e. ?T < fst e) ?es1 = ?G"
  proof -
    have "filter (\<lambda>e. ?T < fst e) ?A = ?G" using assms(2) by (auto intro!: filter_cong)
    moreover have "filter (\<lambda>e. ?T < fst e) ?C = []" using FT by (auto simp: filter_empty_conv)
    ultimately show ?thesis using FT by (simp only: filter_append filter.simps) (simp add: less_asym)
  qed
  then have newTo: "lower_bound ec_greater ?T ?es1 = length ?G"
    using lower_bound_filter [OF ok1, of ?T] by simp
  have nth: "?es1 ! length ?G = hd (B @ [(F, True)])" by (cases B) (simp_all add: A nth_append)
  have eqF: "length ?G = length ?A \<longleftrightarrow> B = []" by (simp add: A)
  have B_le: "\<forall>e \<in> set B. fst e \<le> ?T" by (simp add: B_def)
  have srtB: "sorted_map ec_greater B" using assms(1) sorted_map_filter by (auto simp: entries_ok_def B_def)
  have inT: "?T \<in> fst ` set ?es1 \<longleftrightarrow> B \<noteq> [] \<and> fst (hd B) = ?T"
  proof
    assume "?T \<in> fst ` set ?es1"
    then obtain v where "(?T, v) \<in> set B" using FT by (auto simp: A)
    then show "B \<noteq> [] \<and> fst (hd B) = ?T" using srtB B_le by (cases B) fastforce+
  next
    assume "B \<noteq> [] \<and> fst (hd B) = ?T"
    then show "?T \<in> fst ` set ?es1" unfolding A by (metis hd_in_set image_eqI UnCI set_append)
  qed
  have below: "filter (\<lambda>e. fst e < ?T) ?es1 = filter (\<lambda>e. fst e < ?T) B @ (F, True) # ?C"
  proof -
    have "filter (\<lambda>e. fst e < ?T) ?G = []" by (auto simp: filter_empty_conv)
    moreover have "filter (\<lambda>e. fst e < ?T) ?C = ?C" using FT unfolding filter_id_conv by auto
    ultimately show ?thesis using FT unfolding A by (simp only: filter_append filter.simps) simp
  qed
  define es1 where "es1 = ?es1"
  have es1: "es1 = ?G @ B @ (F, True) # ?C" by (simp add: es1_def A)
  have emp: "emplace ec_greater ?T False es1 =
      (if ?T \<in> fst ` set es1 then (length ?G, False, es1)
       else (length ?G, True, ?G @ (?T, False) # filter (\<lambda>e. fst e < ?T) B @ (F, True) # ?C))"
    using gt.emplace_eq [OF ok1 [unfolded entries_ok_def], of ?T False] newTo G1 below unfolding es1_def by (simp only:)
  have unf: "range_entries from to es = (if length ?G = length ?A \<or> \<not> snd (es1 ! length ?G)
      then (case emplace ec_greater ?T False es1 of (i, isNewEntry, es2) \<Rightarrow>
          erase_range (i + 1) (if isNewEntry then length ?A + 1 else length ?A) es2)
      else erase_range (length ?G) (length ?A) es1)"
    using rs newTo unfolding range_entries_def es1_def by (simp only: Let_def prod.case)
  have cond: "length ?G = length ?A \<or> \<not> snd (es1 ! length ?G) \<longleftrightarrow> B = [] \<or> \<not> snd (hd B)"
    using eqF nth unfolding es1_def by (cases B) auto
  have lenA: "length ?A = length ?G + length B" by (simp add: A)
  have "range_entries from to es = ?G @ (if B = [] \<or> \<not> snd (hd B) then [(?T, False)] else []) @ (F, True) # ?C"
  proof (cases "B = [] \<or> \<not> snd (hd B)")
    case True
    show ?thesis
    proof (cases "?T \<in> fst ` set es1")
      case hit: True
      then obtain B' where B: "B = (?T, False) # B'"
        using inT True unfolding es1_def [symmetric] by (cases B) (auto simp: prod_eq_iff)
      then show ?thesis using unf cond True emp hit lenA by (simp add: erase_range_def) (simp add: es1)
    next
      case miss: False
      have "\<forall>e \<in> set B. fst e \<noteq> ?T" using miss unfolding es1 by (force simp del: set_filter)
      then have "filter (\<lambda>e. fst e < ?T) B = B" using B_le by (auto simp: filter_id_conv order.order_iff_strict)
      then show ?thesis using unf cond True emp miss lenA by (simp add: erase_range_def)
    qed
  next
    case False
    then show ?thesis using unf cond lenA by (simp add: erase_range_def) (simp add: es1)
  qed
  with F show ?thesis by blast
qed

lemma top_exists: "entries_ok es \<Longrightarrow> \<exists>e \<in> set es. fst e \<le> K \<Longrightarrow> \<exists>e. top_entry (set es) K e"
  using top_head [of es K] by (cases "filter (\<lambda>e. fst e \<le> K) es") (auto simp: filter_empty_conv)

text \<open>
  The case in which adding a range loses part of an older one: the start lies in an older range, and
  no entry lies between the start and the end, so the older range reaches beyond the end.
\<close>

definition inside_older_range :: "exclude_entry list \<Rightarrow> exclude_component \<Rightarrow> exclude_component \<Rightarrow> bool" where
  "inside_older_range es from to \<longleftrightarrow>
     (case filter (\<lambda>e. fst e \<le> from) es of [] \<Rightarrow> False | e # _ \<Rightarrow> snd e) \<and> filter (\<lambda>e. from < fst e \<and> fst e \<le> to) es = []"

lemma inside_older_range_top:
  assumes "entries_ok es" and "top_entry (set es) from (F, True)" and "\<forall>e \<in> set es. from < fst e \<longrightarrow> \<not> fst e \<le> to"
  shows "inside_older_range es from to"
proof (cases "filter (\<lambda>e. fst e \<le> from) es")
  case Nil
  then show ?thesis using assms(2) by (auto simp: top_entry_def filter_empty_conv)
next
  case (Cons e es')
  then have "e = (F, True)" using top_head [OF assms(1) Cons] top_unique [OF assms(1)] assms(2) by blast
  then show ?thesis using Cons assms(3) by (auto simp: inside_older_range_def filter_empty_conv)
qed

lemma top_between:
  assumes "entries_ok es" and "a < b"
  defines "B \<equiv> filter (\<lambda>e. a < fst e \<and> fst e \<le> b) es"
  shows "(\<exists>e. top_entry (set es) b e \<and> snd e \<and> a < fst e) \<longleftrightarrow> \<not> (B = [] \<or> \<not> snd (hd B))"
proof (cases B)
  case Nil
  then have "\<forall>e \<in> set es. a < fst e \<longrightarrow> \<not> fst e \<le> b" unfolding B_def by (simp add: filter_empty_conv)
  then show ?thesis using Nil by (auto simp: top_entry_def)
next
  case (Cons x B')
  have "filter (\<lambda>e. fst e \<le> b) es = x # B' @ filter (\<lambda>e. fst e \<le> a) es"
    using filter_split(2) [OF assms(1,2)] Cons unfolding B_def by simp
  then have t: "top_entry (set es) b x" by (rule top_head [OF assms(1)])
  have "x \<in> set B" by (simp add: Cons)
  then have "a < fst x" by (simp add: B_def)
  moreover have "top_entry (set es) b e \<longleftrightarrow> e = x" for e using t top_unique [OF assms(1) t] by blast
  ultimately show ?thesis using Cons by simp
qed

lemma range_entries_covers:
  assumes "entries_ok es" and "from < ExcludeComponent to" and "\<not> inside_older_range es from (ExcludeComponent to)"
  shows "entries_ok (range_entries from to es)"
    and "covers (set (range_entries from to es)) K \<longleftrightarrow> covers (set es) K \<or> (from \<le> K \<and> K \<le> ExcludeComponent to)"
proof -
  let ?T = "ExcludeComponent to"
  define B where "B = filter (\<lambda>e. from < fst e \<and> fst e \<le> ?T) es"
  define M where "M = (if B = [] \<or> \<not> snd (hd B) then [(?T, False)] else [])"
  obtain F where re: "range_entries from to es = filter (\<lambda>e. ?T < fst e) es @ M @ (F, True) # filter (\<lambda>e. fst e < F) es"
    and F: "F = from \<and> (\<forall>e. top_entry (set es) from e \<longrightarrow> \<not> snd e) \<or> top_entry (set es) from (F, True)"
    using range_entries_eq [OF assms(1,2)] unfolding B_def M_def by blast
  have Fle: "F < ?T" using F assms(2) by (auto simp: top_entry_def)
  show "entries_ok (range_entries from to es)"
    using entries_ok_append [OF assms(1), of "M @ [(F, True)]" F ?T] Fle unfolding re M_def
    by (auto simp: entries_ok_def split: if_splits)
  have M: "set M = (if \<exists>e. top_entry (set es) ?T e \<and> snd e \<and> from < fst e then {} else {(?T, False)})"
    unfolding top_between [OF assms(1,2), folded B_def] M_def by (cases "B = [] \<or> \<not> snd (hd B)") simp_all
  show "covers (set (range_entries from to es)) K \<longleftrightarrow> covers (set es) K \<or> (from \<le> K \<and> K \<le> ?T)"
  proof (rule covers_replace [OF assms(2) F _ M])
    show "\<not> (top_entry (set es) from (F, True) \<and> (\<forall>e \<in> set es. from < fst e \<longrightarrow> \<not> fst e \<le> ?T))"
      using inside_older_range_top [OF assms(1)] assms(3) by blast
    show "set (range_entries from to es) = {e \<in> set es. ?T < fst e} \<union> set M \<union> {(F, True)} \<union> {e \<in> set es. fst e < F}"
      unfolding re by auto
  qed (rule top_exists [OF assms(1)])
qed

text \<open>A single component added where it is not excluded yet.\<close>

lemma covers_insert:
  assumes "k \<notin> fst ` S" and "\<not> covers S k"
  shows "covers (insert (k, False) S) D \<longleftrightarrow> covers S D \<or> D = k"
proof -
  let ?R = "insert (k, False) S"
  consider "D < k" | "D = k" | "k < D" "\<exists>e \<in> S. k < fst e \<and> fst e \<le> D" | "k < D" "\<forall>e \<in> S. k < fst e \<longrightarrow> \<not> fst e \<le> D"
    by fastforce
  then show ?thesis
  proof cases
    case 1
    then have "top_entry ?R D e \<longleftrightarrow> top_entry S D e" for e by (auto simp: top_entry_def)
    then show ?thesis using 1 by (auto simp: covers_def)
  next
    case 2
    then have "top_entry ?R D (k, False)" by (auto simp: top_entry_def)
    then show ?thesis using 2 by (auto simp: covers_def)
  next
    case 3
    then obtain e0 where e0: "e0 \<in> S" "k < fst e0" "fst e0 \<le> D" by blast
    have same: "k < fst e \<Longrightarrow> e \<in> ?R \<longleftrightarrow> e \<in> S" for e by auto
    have "top_entry ?R D e \<longleftrightarrow> top_entry S D e" for e
      using top_agree [of k ?R S e0 D e] top_agree [of k S ?R e0 D e] same e0 by blast
    then show ?thesis using 3 by (auto simp: covers_def)
  next
    case 4
    have lt: "e \<in> S \<Longrightarrow> fst e \<le> D \<Longrightarrow> fst e < k" for e using 4 assms(1) by (metis image_eqI linorder_neqE)
    have u: "e = (k, False)" if "top_entry ?R D e" for e
    proof -
      have "e \<in> ?R" "fst e \<le> D" "k \<le> fst e" using that 4(1) by (auto simp: top_entry_def)
      then show ?thesis using lt [of e] by auto
    qed
    have "top_entry S D e \<Longrightarrow> top_entry S k e" for e using lt 4 by (fastforce simp: top_entry_def)
    moreover have "top_entry S D e \<Longrightarrow> fst e \<noteq> D" for e using lt [of e] 4(1) by (auto simp: top_entry_def)
    ultimately have "\<not> covers S D" using assms(2) unfolding covers_def by blast
    moreover have "\<not> covers ?R D" using u 4(1) by (auto simp: covers_def)
    ultimately show ?thesis using 4(1) by auto
  qed
qed

lemma isExcluded_appendEntry:
  assumes "entries_ok es" and "\<not> isExcluded es c"
  shows "entries_ok (Exclude_appendEntry (ExcludeComponent c) False es)"
    and "isExcluded (Exclude_appendEntry (ExcludeComponent c) False es) d \<longleftrightarrow> isExcluded es d \<or> d = c"
proof -
  let ?k = "ExcludeComponent c" and ?es = "Exclude_appendEntry (ExcludeComponent c) False es"
  have srt: "sorted_map ec_greater es" using assms(1) by (simp add: entries_ok_def)
  show ok: "entries_ok ?es" using gt.sorted_emplace [OF srt] by (simp add: entries_ok_def Exclude_appendEntry_def)
  have nk: "?k \<notin> fst ` set es"
  proof
    assume k: "?k \<in> fst ` set es"
    then have "isExcluded es c" using gt.lower_bound_entry [OF srt k] by (simp add: isExcluded_def Let_def)
    with assms(2) show False by simp
  qed
  then have set: "set ?es = insert (?k, False) (set es)" by (simp add: Exclude_appendEntry_def gt.set_emplace [OF srt])
  have nc: "\<not> covers (set es) ?k" using assms isExcluded_covers by blast
  show "isExcluded ?es d \<longleftrightarrow> isExcluded es d \<or> d = c"
    using covers_insert [OF nk nc, of "ExcludeComponent d"] isExcluded_covers [OF ok] isExcluded_covers [OF assms(1)] set by simp
qed

lemma excludeAfter_covers:
  assumes "entries_ok es"
  shows "entries_ok (ex_entries (excludeAfter \<lparr>ex_entries = es, ex_wire = w\<rparr> c))"
    and "covers (set (ex_entries (excludeAfter \<lparr>ex_entries = es, ex_wire = w\<rparr> c))) K \<longleftrightarrow> covers (set es) K \<or> ExcludeComponent c \<le> K"
proof -
  let ?f = "ExcludeComponent c"
  obtain F where rs: "range_start ?f es = (length (filter (\<lambda>e. ?f < fst e) es),
        filter (\<lambda>e. ?f < fst e) es @ (F, True) # filter (\<lambda>e. fst e < F) es)"
    and F: "F = ?f \<and> (\<forall>e. top_entry (set es) ?f e \<longrightarrow> \<not> snd e) \<or> top_entry (set es) ?f (F, True)"
    using range_start_entries [OF assms] by blast
  define R where "R = (F, True) # filter (\<lambda>e. fst e < F) es"
  have R: "ex_entries (excludeAfter \<lparr>ex_entries = es, ex_wire = w\<rparr> c) = R"
    by (simp add: excludeAfter_def rs erase_range_def R_def)
  show "entries_ok (ex_entries (excludeAfter \<lparr>ex_entries = es, ex_wire = w\<rparr> c))"
    unfolding R using assms sorted_map_filter by (auto simp: entries_ok_def R_def)
  have Fle: "F \<le> ?f" using F by (auto simp: top_entry_def)
  show "covers (set (ex_entries (excludeAfter \<lparr>ex_entries = es, ex_wire = w\<rparr> c))) K \<longleftrightarrow> covers (set es) K \<or> ?f \<le> K"
  proof (cases "K < F")
    case True
    then have "top_entry (set R) K e \<longleftrightarrow> top_entry (set es) K e" for e by (auto simp: top_entry_def R_def)
    then show ?thesis unfolding R using True Fle by (auto simp: covers_def)
  next
    case False
    then have "top_entry (set R) K (F, True)" by (auto simp: top_entry_def R_def)
    moreover have "covers (set es) K" if "\<not> ?f \<le> K"
    proof -
      have "top_entry (set es) ?f (F, True)" using F that False by auto
      then have "top_entry (set es) K (F, True)" using False that by (auto simp: top_entry_def)
      then show ?thesis by (auto simp: covers_def)
    qed
    ultimately show ?thesis unfolding R by (auto simp: covers_def)
  qed
qed

section \<open>Enumeration\<close>

definition in_range :: "component \<Rightarrow> range \<Rightarrow> bool" where
  "in_range c r \<longleftrightarrow> (case range_from r of None \<Rightarrow> True | Some f \<Rightarrow> f \<le> c) \<and> (case range_to r of None \<Rightarrow> True | Some t \<Rightarrow> c \<le> t)"

text \<open>
  The shape the iterator relies on, on ascending entries: a range is followed by its end, and minus
  infinity only starts a range.
\<close>

fun normal_entries :: "exclude_entry list \<Rightarrow> bool" where
  "normal_entries [] \<longleftrightarrow> True"
| "normal_entries [(k, any)] \<longleftrightarrow> k = NegInf \<longrightarrow> any"
| "normal_entries ((k, any) # (k', any') # es) \<longleftrightarrow>
     (k = NegInf \<longrightarrow> any) \<and> (any \<longrightarrow> \<not> any') \<and> normal_entries ((k', any') # es)"

lemma less_eq_ec [simp]: "ExcludeComponent a \<le> ExcludeComponent b \<longleftrightarrow> a \<le> b" "NegInf \<le> x"
  by (cases x; auto simp: less_eq_exclude_component_def less_exclude_component_def)+

lemma covers_lowest:
  assumes "\<forall>e \<in> S. k < fst e"
  shows "covers (insert (k, b) S) K \<longleftrightarrow>
     (if \<exists>e \<in> S. fst e \<le> K then covers S K else k \<le> K \<and> (b \<or> k = K))"
proof (cases "\<exists>e \<in> S. fst e \<le> K")
  case True
  then obtain e0 where e0: "e0 \<in> S" "k < fst e0" "fst e0 \<le> K" using assms by blast
  have same: "k < fst e \<Longrightarrow> e \<in> insert (k, b) S \<longleftrightarrow> e \<in> S" for e by auto
  have "top_entry (insert (k, b) S) K e \<longleftrightarrow> top_entry S K e" for e
    using top_agree [of k "insert (k, b) S" S e0 K e] top_agree [of k S "insert (k, b) S" e0 K e] same e0 by blast
  then show ?thesis using True by (simp add: covers_def)
next
  case False
  then have "top_entry (insert (k, b) S) K e \<longleftrightarrow> e = (k, b) \<and> k \<le> K" for e by (auto simp: top_entry_def)
  then show ?thesis using False by (simp add: covers_def)
qed

lemma covers_none: "\<not> (\<exists>e \<in> S. fst e \<le> K) \<Longrightarrow> \<not> covers S K"
  by (auto simp: covers_def top_entry_def)

lemma in_range_simps [simp]:
  "in_range c \<lparr>range_from = (case k of NegInf \<Rightarrow> None | ExcludeComponent d \<Rightarrow> Some d), range_to = None\<rparr> \<longleftrightarrow> k \<le> ExcludeComponent c"
  "k' \<noteq> NegInf \<Longrightarrow> in_range c \<lparr>range_from = (case k of NegInf \<Rightarrow> None | ExcludeComponent d \<Rightarrow> Some d), range_to = Some (key_component k')\<rparr>
     \<longleftrightarrow> k \<le> ExcludeComponent c \<and> ExcludeComponent c \<le> k'"
  "k \<noteq> NegInf \<Longrightarrow> in_range c \<lparr>range_from = Some (key_component k), range_to = Some (key_component k)\<rparr> \<longleftrightarrow> k = ExcludeComponent c"
  by (auto simp: in_range_def key_component_def split: exclude_component.splits)

lemma enumerate_covers:
  "normal_entries es \<Longrightarrow> sorted_wrt (\<lambda>a b. fst a < fst b) es \<Longrightarrow>
     (\<exists>r \<in> set (enumerate_ranges es). in_range c r) \<longleftrightarrow> covers (set es) (ExcludeComponent c)"
proof (induction es rule: enumerate_ranges.induct)
  case 1
  then show ?case by (simp add: covers_def top_entry_def)
next
  case (2 k any)
  then show ?case using covers_lowest [of "{}" k any "ExcludeComponent c"] by auto
next
  case (3 k any k' any' es)
  let ?K = "ExcludeComponent c"
  have lt: "\<forall>e \<in> set ((k', any') # es). k < fst e" "\<forall>e \<in> set es. k' < fst e" using "3.prems"(2) by auto
  have k': "k' \<noteq> NegInf" using lt(1) by (auto simp: less_exclude_component_def split: exclude_component.splits)
  have c1: "covers (set ((k, any) # (k', any') # es)) ?K \<longleftrightarrow>
      (if \<exists>e \<in> set ((k', any') # es). fst e \<le> ?K then covers (set ((k', any') # es)) ?K else k \<le> ?K \<and> (any \<or> k = ?K))"
    using covers_lowest [OF lt(1), of any ?K] by simp
  have c2: "covers (set ((k', any') # es)) ?K \<longleftrightarrow>
      (if \<exists>e \<in> set es. fst e \<le> ?K then covers (set es) ?K else k' \<le> ?K \<and> (any' \<or> k' = ?K))"
    using covers_lowest [OF lt(2), of any' ?K] by simp
  show ?case
  proof (cases any)
    case True
    have "normal_entries es" using "3.prems"(1) by (cases es) auto
    then have IH: "(\<exists>r \<in> set (enumerate_ranges es). in_range c r) \<longleftrightarrow> covers (set es) ?K"
      using "3.IH"(1) True "3.prems"(2) by simp
    have na: "\<not> any'" using "3.prems"(1) True by simp
    show ?thesis
    proof (cases "\<exists>e \<in> set es. fst e \<le> ?K")
      case e: True
      then have "\<not> ?K \<le> k'" using lt(2) by force
      moreover have "\<exists>e \<in> set ((k', any') # es). fst e \<le> ?K" using e by simp
      ultimately show ?thesis using c1 c2 e IH True k' by simp
    next
      case no: False
      then have "\<not> covers (set es) ?K" by (rule covers_none)
      moreover have "covers (set ((k, any) # (k', any') # es)) ?K \<longleftrightarrow> k \<le> ?K \<and> ?K \<le> k'"
      proof (cases "k' \<le> ?K")
        case True
        then show ?thesis using c1 c2 no na lt(1) by auto
      next
        case False
        then show ?thesis using c1 no \<open>any\<close> by auto
      qed
      ultimately show ?thesis using IH True k' by simp
    qed
  next
    case False
    have IH: "(\<exists>r \<in> set (enumerate_ranges ((k', any') # es)). in_range c r) \<longleftrightarrow> covers (set ((k', any') # es)) ?K"
      using "3.IH"(2) False "3.prems" by simp
    have "k \<noteq> NegInf" using "3.prems"(1) False by auto
    then have L: "(\<exists>r \<in> set (enumerate_ranges ((k, any) # (k', any') # es)). in_range c r)
        \<longleftrightarrow> k = ?K \<or> covers (set ((k', any') # es)) ?K"
      using IH False by (simp only: enumerate_ranges.simps if_False list.set bex_simps) simp
    show ?thesis
    proof (cases "\<exists>e \<in> set ((k', any') # es). fst e \<le> ?K")
      case True
      then have "k \<noteq> ?K" using lt(1) by force
      then show ?thesis using L c1 True by (simp only: if_True simp_thms)
    next
      case no: False
      then show ?thesis using L c1 covers_none [OF no] False by (simp only: if_False simp_thms) auto
    qed
  qed
qed

section \<open>Wire format of the entries\<close>

definition entry_tlvs :: "exclude_entry \<Rightarrow> (u32 \<times> byte list) list" where
  "entry_tlvs e = (case fst e of NegInf \<Rightarrow> [] | ExcludeComponent c \<Rightarrow> [(comp_type c, comp_value c)])
     @ (if snd e then [(tlv_Any, [])] else [])"

definition entries_tlvs :: "exclude_entry list \<Rightarrow> (u32 \<times> byte list) list" where
  "entries_tlvs es = concat (map entry_tlvs (rev es))"

lemma comp_block_tlv [simp]: "m_type (comp_block c) = comp_type c" "value_bytes (comp_block c) = comp_value c" "block_wf (comp_block c)"
  by (simp_all add: comp_block_def Block_of_type_value_wf) (simp_all add: Block_of_type_value_def value_bytes_def)

context encoding_impl
begin

lemma Exclude_encode_entries_prepends:
  "prepends R (Exclude_encode_entries ops es k) (tlvs_wire (entries_tlvs es)) (k + length (tlvs_wire (entries_tlvs es)))"
proof (induction es arbitrary: k)
  case Nil
  then show ?case by (simp add: entries_tlvs_def prepends_return)
next
  case (Cons e es)
  obtain key any where e: "e = (key, any)" by (cases e)
  let ?a = "tlvs_wire (if any then [(tlv_Any, [])] else [])"
  let ?c = "tlvs_wire (case key of NegInf \<Rightarrow> [] | ExcludeComponent c \<Rightarrow> [(comp_type c, comp_value c)])"
  have a: "prepends R (if any then prependEmptyBlock ops tlv_Any else State_Monad.return 0) ?a (length ?a)"
    using prependEmptyBlock_prepends [of tlv_Any] prepends_return by auto
  have c: "prepends R (case key of NegInf \<Rightarrow> State_Monad.return 0 | ExcludeComponent c \<Rightarrow> Component_wireEncode_template ops (comp_block c))
      ?c (length ?c)"
    using Component_wireEncode_prepends [OF comp_block_tlv(3)] prepends_return by (auto split: exclude_component.split)
  show ?case unfolding e Exclude_encode_entries.simps
    by (rule prepends_cong, rule prepends_bind [OF a prepends_bind [OF c Cons.IH]])
      (simp_all add: entries_tlvs_def entry_tlvs_def)
qed

lemma Exclude_wireEncode_prepends:
  "prepends R (Exclude_wireEncode_template ops es) (tlv_wire tlv_Exclude (tlvs_wire (entries_tlvs es)))
     (length (tlv_wire tlv_Exclude (tlvs_wire (entries_tlvs es))))"
  unfolding Exclude_wireEncode_template_def
  by (rule prepends_cong, (rule prepends_bind Exclude_encode_entries_prepends prepends_return prependVarNumber)+)
    (simp_all add: tlv_wire_def size_simps)

end

text \<open>The components the decoder accepts, and the entries it can rebuild.\<close>

definition entry_ok :: "exclude_entry \<Rightarrow> bool" where
  "entry_ok e = (case fst e of
     NegInf \<Rightarrow> snd e
   | ExcludeComponent c \<Rightarrow> fits (comp_value c) \<and> (comp_type c = tlv_NameComponent \<or>
       comp_type c = tlv_ImplicitSha256DigestComponent \<and> length (comp_value c) = SHA256_DIGEST_SIZE))"

lemma appendEntry_greatest: "\<forall>e \<in> set es. fst e < k \<Longrightarrow> Exclude_appendEntry k b es = (k, b) # es"
  by (cases es) (auto simp: Exclude_appendEntry_def emplace_def lower_bound_def Let_def)

lemma Component_of_block_entry:
  assumes "block_wf i" and "block_tlv i = (comp_type c, comp_value c)" and "entry_ok (ExcludeComponent c, b)"
  shows "Component_of_block i = Inr i" and "component_of i = c" and "m_type i \<noteq> tlv_Any"
  using assms wf_value_size [OF assms(1)]
  by (auto simp: Component_of_block_def Component_isGeneric_def Component_isImplicitSha256Digest_def entry_ok_def block_tlv_def
      component_of_def tlv_codes)

lemma entry_tlvs_component: "entry_tlvs (ExcludeComponent c, b) = (comp_type c, comp_value c) # (if b then [(tlv_Any, [])] else [])"
  by (simp add: entry_tlvs_def)

lemma decode_entries_back:
  assumes "\<forall>e \<in> set as. entry_ok e \<and> fst e \<noteq> NegInf" and "sorted_wrt (\<lambda>a b. fst a < fst b) as"
    and "\<forall>a \<in> set as. \<forall>e \<in> set es. fst e < fst a" and "map block_tlv is = concat (map entry_tlvs as)" and "\<forall>i \<in> set is. block_wf i"
  shows "Exclude_decode_entries is es = (None, rev as @ es)"
  using assms
proof (induction as arbitrary: "is" es)
  case Nil
  then show ?case by simp
next
  case (Cons a as)
  obtain c b where a: "a = (ExcludeComponent c, b)" using Cons.prems(1) by (cases a; cases "fst a") auto
  obtain i is1 where i: "is = i # is1" "block_tlv i = (comp_type c, comp_value c)"
    "map block_tlv is1 = (if b then [(tlv_Any, [])] else []) @ concat (map entry_tlvs as)"
    using Cons.prems(4) a by (cases "is") (auto simp: entry_tlvs_component)
  have ci: "Component_of_block i = Inr i" "component_of i = c"
    using Component_of_block_entry [of i c b] Cons.prems(1,5) a i by auto
  have app: "Exclude_appendEntry (ExcludeComponent c) b es = a # es"
    using Cons.prems(3) a appendEntry_greatest [of es "ExcludeComponent c" b] by auto
  have IH: "map block_tlv js = concat (map entry_tlvs as) \<Longrightarrow> \<forall>j \<in> set js. block_wf j \<Longrightarrow>
      Exclude_decode_entries js (a # es) = (None, rev (a # as) @ es)" for js
    using Cons.IH [of "a # es" js] Cons.prems(1-3) by auto
  show ?case
  proof (cases b)
    case True
    then obtain j js where j: "is1 = j # js" "block_tlv j = (tlv_Any, [])" "map block_tlv js = concat (map entry_tlvs as)"
      using i(3) by (cases is1) auto
    then show ?thesis using IH [OF j(3)] Cons.prems(5) i(1) ci app True by (simp add: block_tlv_def)
  next
    case False
    show ?thesis
    proof (cases is1)
      case Nil
      then have "as = []" using i(3) Cons.prems(1) False by (cases as) (auto simp: entry_tlvs_def split: exclude_component.splits)
      then show ?thesis using Nil i(1) ci app False by simp
    next
      case (Cons j js)
      then obtain d b' as' where as': "as = (ExcludeComponent d, b') # as'"
        using i(3) Cons.prems(1) False by (cases as; cases "fst (hd as)") (auto simp: prod_eq_iff)
      then have "block_tlv j = (comp_type d, comp_value d)" using i(3) Cons False by (simp add: entry_tlvs_component)
      then have "m_type j \<noteq> tlv_Any"
        using Component_of_block_entry(3) [of j d b'] Cons.prems(1,5) as' i(1) \<open>is1 = j # js\<close> by auto
      then show ?thesis using IH [of is1] i Cons.prems(5) ci app False \<open>is1 = j # js\<close> by simp
    qed
  qed
qed

lemma entries_tlvs_fits: "\<forall>e \<in> set es. entry_ok e \<Longrightarrow> \<forall>(t, v) \<in> set (entries_tlvs es). fits v"
  by (fastforce simp: entries_tlvs_def entry_tlvs_def entry_ok_def fits_def split: exclude_component.splits if_splits)

lemma Exclude_wireDecode_fresh:
  assumes "fresh_block w" and "block_tlv w = (tlv_Exclude, tlvs_wire (entries_tlvs es))"
    and "entries_ok es" and "es \<noteq> []" and "\<forall>e \<in> set es. entry_ok e"
  shows "\<exists>y. Exclude_wireDecode x0 w = (None, y) \<and> ex_entries y = es"
proof -
  have v: "value_bytes w = tlvs_wire (entries_tlvs es)" "m_type w = tlv_Exclude" using assms(2) by (simp_all add: block_tlv_def)
  obtain p where p: "Block_parse w = (None, p)" "map block_tlv (m_subBlocks p) = entries_tlvs es"
    "\<forall>i \<in> set (m_subBlocks p). block_wf i"
    using Block_parse_fresh [OF assms(1) v(1) entries_tlvs_fits [OF assms(5)]] by (auto simp: fresh_block_def)
  obtain a as where as: "rev es = a # as" using assms(4) by (cases "rev es") auto
  have srt: "sorted_wrt (\<lambda>a b. fst a < fst b) (a # as)"
    using assms(3) unfolding as [symmetric] by (simp add: entries_ok_def sorted_map_def sorted_wrt_rev)
  have as_ok: "\<forall>e \<in> set (a # as). entry_ok e" using assms(5) unfolding as [symmetric] by simp
  have not_inf: "\<forall>e \<in> set as. fst e \<noteq> NegInf"
    using srt less_eq_ec(2) [of "fst a"] by (auto simp: not_less [symmetric] simp del: less_eq_ec)
  have "\<exists>i is. m_subBlocks p = i # is \<and>
      (if m_type i = tlv_Any then Exclude_decode_entries is (Exclude_appendEntry NegInf True []) else Exclude_decode_entries (i # is) [])
        = (None, es)"
  proof (cases "fst a")
    case NegInf
    then have a: "a = (NegInf, True)" using as_ok by (simp add: entry_ok_def prod_eq_iff)
    obtain i "is" where i: "m_subBlocks p = i # is" "block_tlv i = (tlv_Any, [])" "map block_tlv is = concat (map entry_tlvs as)"
      using p(2) a as by (cases "m_subBlocks p") (auto simp: entries_tlvs_def entry_tlvs_def)
    have "Exclude_appendEntry NegInf True [] = [a]" using appendEntry_greatest [of "[]"] a by simp
    moreover have "Exclude_decode_entries is [a] = (None, rev as @ [a])"
      using decode_entries_back [of as "[a]" "is"] as_ok not_inf srt i p(3) by simp
    ultimately show ?thesis using i as by (auto simp: block_tlv_def rev_swap)
  next
    case (ExcludeComponent c)
    then obtain i "is" where i: "m_subBlocks p = i # is" "block_tlv i = (comp_type c, comp_value c)"
      using p(2) as by (cases "m_subBlocks p") (auto simp: entries_tlvs_def entry_tlvs_def)
    have "m_type i \<noteq> tlv_Any"
      using Component_of_block_entry(3) [of i c "snd a"] as_ok i p(3) ExcludeComponent by (metis list.set_intros(1) prod.collapse)
    moreover have "Exclude_decode_entries (i # is) [] = (None, rev (a # as) @ [])"
      using decode_entries_back [of "a # as" "[]" "i # is"] as_ok not_inf srt i p(2,3) as ExcludeComponent
      by (simp add: entries_tlvs_def)
    ultimately show ?thesis using i as by (auto simp: rev_swap)
  qed
  then show ?thesis
    using p(1) v(2) by (auto simp: Exclude_wireDecode_def Let_def block_tlv_def split: prod.splits)
qed

lemma letter_less:
  "Component t [a] < Component t [b] \<longleftrightarrow> a < b" "Component t [a] \<le> Component t [b] \<longleftrightarrow> a \<le> b"
  "ExcludeComponent x < ExcludeComponent y \<longleftrightarrow> x < y"
  by (auto simp: less_eq_component_def less_component_def be_value_def word_less_nat_alt less_exclude_component_def
      order.order_iff_strict)

section \<open>Properties\<close>

text \<open>
  C24: adding to an Exclude filter excludes what was excluded before and the added component or range,
  and nothing else: \<^verbatim>\<open>excludeOne\<close>, \<^verbatim>\<open>excludeAfter\<close>,
  \<^verbatim>\<open>excludeBefore\<close> and \<^verbatim>\<open>excludeRange\<close>, whatever ranges
  and components the filter holds, except where a range lies inside an older one. The entries stay
  ordered, an empty range is refused, and all four drop the cached wire,
  \<^verbatim>\<open>excludeOne\<close> unless the component is excluded already, when nothing changes.
\<close>

theorem Exclude_adds_exactly:
  assumes "entries_ok (ex_entries x)" and "from < to"
    and "\<not> inside_older_range (ex_entries x) (ExcludeComponent from) (ExcludeComponent to)"
    and "\<not> inside_older_range (ex_entries x) NegInf (ExcludeComponent to)"
  shows "(\<exists>y. excludeRange x from to = Inr y \<and> entries_ok (ex_entries y) \<and> \<not> Block_hasWire (ex_wire y)
        \<and> (\<forall>c. Exclude_isExcluded y c \<longleftrightarrow> Exclude_isExcluded x c \<or> from \<le> c \<and> c \<le> to))
    \<and> (\<exists>y. excludeBefore x to = Inr y \<and> entries_ok (ex_entries y) \<and> \<not> Block_hasWire (ex_wire y)
        \<and> (\<forall>c. Exclude_isExcluded y c \<longleftrightarrow> Exclude_isExcluded x c \<or> c \<le> to))
    \<and> entries_ok (ex_entries (excludeAfter x from)) \<and> \<not> Block_hasWire (ex_wire (excludeAfter x from))
    \<and> (\<forall>c. Exclude_isExcluded (excludeAfter x from) c \<longleftrightarrow> Exclude_isExcluded x c \<or> from \<le> c)
    \<and> entries_ok (ex_entries (excludeOne x to)) \<and> (if Exclude_isExcluded x to then excludeOne x to = x else \<not> Block_hasWire (ex_wire (excludeOne x to)))
    \<and> (\<forall>c. Exclude_isExcluded (excludeOne x to) c \<longleftrightarrow> Exclude_isExcluded x c \<or> c = to)
    \<and> (\<exists>e. excludeRange x to from = Inl (ExcludeError e))"
proof (intro conjI)
  let ?es = "ex_entries x"
  have lt: "ExcludeComponent from < ExcludeComponent to" "NegInf < ExcludeComponent to"
    using assms(2) by (simp_all add: less_exclude_component_def)
  have w: "\<not> Block_hasWire (Block_reset (ex_wire x))" by (simp add: Block_reset_def Block_hasWire_def)
  note one = range_entries_covers [OF assms(1) lt(1) assms(3)] and bef = range_entries_covers [OF assms(1) lt(2) assms(4)]
  show "\<exists>y. excludeRange x from to = Inr y \<and> entries_ok (ex_entries y) \<and> \<not> Block_hasWire (ex_wire y)
      \<and> (\<forall>c. Exclude_isExcluded y c \<longleftrightarrow> Exclude_isExcluded x c \<or> from \<le> c \<and> c \<le> to)"
    using assms(1,2) one w isExcluded_covers [OF one(1)] isExcluded_covers [OF assms(1)]
    by (simp add: excludeRange_def excludeRange_from_def Exclude_isExcluded_def)
  show "\<exists>y. excludeBefore x to = Inr y \<and> entries_ok (ex_entries y) \<and> \<not> Block_hasWire (ex_wire y)
      \<and> (\<forall>c. Exclude_isExcluded y c \<longleftrightarrow> Exclude_isExcluded x c \<or> c \<le> to)"
    using assms(1) bef w isExcluded_covers [OF bef(1)] isExcluded_covers [OF assms(1)]
    by (simp add: excludeBefore_def excludeRange_from_def Exclude_isExcluded_def)
  note aft = excludeAfter_covers [OF assms(1), of "ex_wire x" "from"]
  have x: "\<lparr>ex_entries = ?es, ex_wire = ex_wire x\<rparr> = x" by simp
  show "entries_ok (ex_entries (excludeAfter x from))" using aft(1) unfolding x .
  then show "\<forall>c. Exclude_isExcluded (excludeAfter x from) c \<longleftrightarrow> Exclude_isExcluded x c \<or> from \<le> c"
    using aft(2) unfolding x Exclude_isExcluded_def by (simp add: isExcluded_covers assms(1))
  show "entries_ok (ex_entries (excludeOne x to))"
    using isExcluded_appendEntry(1) [OF assms(1), of to] assms(1) by (simp add: excludeOne_def Exclude_isExcluded_def)
  show "\<forall>c. Exclude_isExcluded (excludeOne x to) c \<longleftrightarrow> Exclude_isExcluded x c \<or> c = to"
    using isExcluded_appendEntry(2) [OF assms(1), of to] by (auto simp: excludeOne_def Exclude_isExcluded_def)
  show "\<not> Block_hasWire (ex_wire (excludeAfter x from))" using w by (simp add: excludeAfter_def split: prod.split)
  show "if Exclude_isExcluded x to then excludeOne x to = x else \<not> Block_hasWire (ex_wire (excludeOne x to))"
    using w by (simp add: excludeOne_def)
  show "\<exists>e. excludeRange x to from = Inl (ExcludeError e)"
    using assms(2) by (simp add: excludeRange_def excludeRange_from_def)
qed

theorem Exclude_adds_exactly_witness:
  "\<exists>y. excludeRange Exclude_default (Component 8 [97]) (Component 8 [99]) = Inr y \<and> Exclude_isExcluded y (Component 8 [98])
     \<and> \<not> Exclude_isExcluded y (Component 8 [100])"
proof -
  have "entries_ok (ex_entries Exclude_default)" "Component 8 [97] < Component 8 [99]"
    "\<not> inside_older_range (ex_entries Exclude_default) a b" for a b
    by (simp_all add: Exclude_default_def entries_ok_def less_component_def be_value_def inside_older_range_def)
  moreover have "Component 8 [97] \<le> Component 8 [98] \<and> Component 8 [98] \<le> Component 8 [99]"
    "\<not> Component 8 [100] \<le> Component 8 [99]" "\<not> Exclude_isExcluded Exclude_default c" for c
    by (simp_all add: less_eq_component_def less_component_def be_value_def Exclude_isExcluded_def isExcluded_def
        Exclude_default_def lower_bound_def)
  ultimately show ?thesis using Exclude_adds_exactly [of Exclude_default "Component 8 [97]" "Component 8 [99]"] by auto
qed

text \<open>
  Two ways in which ranges added one after the other are combined wrongly. A range inside an older
  one cuts the older one short: after excluding from \<open>a\<close> to \<open>g\<close>, excluding from \<open>c\<close> to \<open>d\<close> makes \<open>e\<close>
  admissible again. Two ranges that meet are stored as two open ranges in a row, which the iterator
  (and its assertion) does not expect: after \<open>a\<close> to \<open>c\<close> and \<open>c\<close> to \<open>g\<close>, the component \<open>e\<close> is excluded
  but in none of the enumerated ranges.
\<close>

theorem Exclude_overlapping_ranges:
  "(\<exists>y z. excludeRange Exclude_default (Component 8 [97]) (Component 8 [103]) = Inr y
      \<and> excludeRange y (Component 8 [99]) (Component 8 [100]) = Inr z
      \<and> Exclude_isExcluded y (Component 8 [101]) \<and> \<not> Exclude_isExcluded z (Component 8 [101]))
   \<and> (\<exists>y z. excludeRange Exclude_default (Component 8 [97]) (Component 8 [99]) = Inr y
      \<and> excludeRange y (Component 8 [99]) (Component 8 [103]) = Inr z
      \<and> Exclude_isExcluded z (Component 8 [101]) \<and> \<not> (\<exists>r \<in> set (Exclude_ranges z). in_range (Component 8 [101]) r))"
proof
  let ?a = "Component 8 [97]" and ?c = "Component 8 [99]" and ?d = "Component 8 [100]" and ?e = "Component 8 [101]" and ?g = "Component 8 [103]"
  note steps = range_entries_def range_start_def lower_bound_def emplace_def erase_range_def Let_def letter_less
  have ag: "range_entries (ExcludeComponent ?a) ?g [] = [(ExcludeComponent ?g, False), (ExcludeComponent ?a, True)]"
    and ac: "range_entries (ExcludeComponent ?a) ?c [] = [(ExcludeComponent ?c, False), (ExcludeComponent ?a, True)]"
    by (simp_all add: steps)
  have "range_entries (ExcludeComponent ?c) ?d [(ExcludeComponent ?g, False), (ExcludeComponent ?a, True)]
      = [(ExcludeComponent ?g, False), (ExcludeComponent ?d, False), (ExcludeComponent ?a, True)]"
    by (simp add: steps)
  then show "\<exists>y z. excludeRange Exclude_default ?a ?g = Inr y \<and> excludeRange y ?c ?d = Inr z
      \<and> Exclude_isExcluded y ?e \<and> \<not> Exclude_isExcluded z ?e"
    by (simp add: excludeRange_def excludeRange_from_def Exclude_default_def ag letter_less Exclude_isExcluded_def isExcluded_def
        lower_bound_def Let_def)
  have "range_entries (ExcludeComponent ?c) ?g [(ExcludeComponent ?c, False), (ExcludeComponent ?a, True)]
      = [(ExcludeComponent ?g, False), (ExcludeComponent ?c, True), (ExcludeComponent ?a, True)]"
    by (simp add: steps)
  then show "\<exists>y z. excludeRange Exclude_default ?a ?c = Inr y \<and> excludeRange y ?c ?g = Inr z
      \<and> Exclude_isExcluded z ?e \<and> \<not> (\<exists>r \<in> set (Exclude_ranges z). in_range ?e r)"
    by (simp add: excludeRange_def excludeRange_from_def Exclude_default_def ac letter_less Exclude_isExcluded_def isExcluded_def
        lower_bound_def Let_def Exclude_ranges_def in_range_def key_component_def)
qed

text \<open>
  Enumeration. For entries in the shape the iterator expects, the ranges visited from \<^verbatim>\<open>begin()\<close> to
  \<^verbatim>\<open>end()\<close> contain exactly the excluded components, infinite ends included.
\<close>

theorem Exclude_enumeration:
  assumes "entries_ok (ex_entries x)" and "normal_entries (rev (ex_entries x))"
  shows "(\<exists>r \<in> set (Exclude_ranges x). in_range c r) \<longleftrightarrow> Exclude_isExcluded x c"
proof -
  have "sorted_wrt (\<lambda>a b. fst a < fst b) (rev (ex_entries x))"
    using assms(1) by (simp add: entries_ok_def sorted_map_def sorted_wrt_rev)
  from enumerate_covers [OF assms(2) this, of c] show ?thesis
    using isExcluded_covers [OF assms(1)] by (simp add: Exclude_ranges_def Exclude_isExcluded_def)
qed

theorem Exclude_enumeration_witness:
  "(\<exists>r \<in> set (Exclude_ranges (excludeAfter Exclude_default (Component 8 [97]))). in_range (Component 8 [98]) r)
    \<longleftrightarrow> Exclude_isExcluded (excludeAfter Exclude_default (Component 8 [97])) (Component 8 [98])"
proof -
  let ?x = "excludeAfter Exclude_default (Component 8 [97])"
  have "ex_entries ?x = [(ExcludeComponent (Component 8 [97]), True)]"
    by (simp add: excludeAfter_def Exclude_default_def range_start_def lower_bound_def emplace_def erase_range_def Let_def)
  then have "entries_ok (ex_entries ?x)" "normal_entries (rev (ex_entries ?x))" by (simp_all add: entries_ok_def)
  from Exclude_enumeration [OF this] show ?thesis .
qed

text \<open>
  A filter with at least one entry encodes without error, and decoding the bytes gives back the
  same entries, whatever the decoding object held before; an empty filter cannot be encoded.
\<close>

theorem Exclude_wire_roundtrip:
  assumes "entries_ok (ex_entries x)" and "ex_entries x \<noteq> []" and "\<forall>e \<in> set (ex_entries x). entry_ok e"
    and "\<not> Block_hasWire (ex_wire x)" and "fits (tlvs_wire (entries_tlvs (ex_entries x)))"
  shows "\<exists>b. Exclude_wireEncode x = Inr (b, x\<lparr>ex_wire := b\<rparr>)
     \<and> (\<exists>w. Block_of_bytes (wire_bytes b) = Inr w \<and>
          (\<forall>x0. \<exists>y. Exclude_wireDecode x0 w = (None, y) \<and> ex_entries y = ex_entries x))
     \<and> (\<exists>e. Exclude_wireEncode Exclude_default = Inl (ExcludeError e))"
proof -
  let ?ts = "entries_tlvs (ex_entries x)"
  obtain b where b: "estimate_and_encode (Exclude_wireEncode_template estimator_ops (ex_entries x))
      (Exclude_wireEncode_template encoder_ops (ex_entries x)) = Inr b" "wire_bytes b = tlv_wire tlv_Exclude (tlvs_wire ?ts)"
    using estimate_and_encode_wire [OF est.Exclude_wireEncode_prepends enc.Exclude_wireEncode_prepends assms(5)] by blast
  obtain w where w: "Block_of_bytes (wire_bytes b) = Inr w" "block_tlv w = (tlv_Exclude, tlvs_wire ?ts)"
    using Block_of_bytes_tlv_wire [OF assms(5), of tlv_Exclude "[]"] b(2) by auto
  have "\<exists>y. Exclude_wireDecode x0 w = (None, y) \<and> ex_entries y = ex_entries x" for x0
    by (rule Exclude_wireDecode_fresh [OF Block_of_bytes_fresh [OF w(1)] w(2) assms(1-3)])
  moreover have "Exclude_wireEncode x = Inr (b, x\<lparr>ex_wire := b\<rparr>)" using assms(2,4) b(1) by (simp add: Exclude_wireEncode_def)
  moreover have "\<exists>e. Exclude_wireEncode Exclude_default = Inl (ExcludeError e)"
    by (simp add: Exclude_wireEncode_def Exclude_default_def Block_default_def Block_hasWire_def)
  ultimately show ?thesis using w(1) by blast
qed

theorem Exclude_wire_roundtrip_witness:
  "\<exists>b w. Exclude_wireEncode (excludeOne Exclude_default (Component 8 [97])) =
       Inr (b, (excludeOne Exclude_default (Component 8 [97]))\<lparr>ex_wire := b\<rparr>) \<and> Block_of_bytes (wire_bytes b) = Inr w \<and>
     (\<exists>y. Exclude_wireDecode Exclude_default w = (None, y) \<and> ex_entries y = [(ExcludeComponent (Component 8 [97]), False)])"
proof -
  let ?x = "excludeOne Exclude_default (Component 8 [97])"
  have e: "ex_entries ?x = [(ExcludeComponent (Component 8 [97]), False)]" "\<not> Block_hasWire (ex_wire ?x)"
    by (simp_all add: excludeOne_def Exclude_isExcluded_def isExcluded_def Exclude_default_def Exclude_appendEntry_def emplace_def
        lower_bound_def Let_def Block_reset_def Block_hasWire_def)
  have "entries_ok (ex_entries ?x)" "ex_entries ?x \<noteq> []" "\<forall>e \<in> set (ex_entries ?x). entry_ok e"
    "fits (tlvs_wire (entries_tlvs (ex_entries ?x)))"
    by (simp_all add: e entries_ok_def entry_ok_def fits_def tlv_codes entries_tlvs_def entry_tlvs_def size_simps sizeOfVarNumber_def)
  from Exclude_wire_roundtrip [OF this(1-3) e(2) this(4)] show ?thesis unfolding e by blast
qed

end
