(* ===== verification/Selectors.thy ===== *)
theory Selectors
  imports Exclude
begin

text \<open>
  Key locators and selectors, \<^verbatim>\<open>ndn-cxx/src/key-locator.cpp\<close> and \<^verbatim>\<open>selectors.cpp\<close>. Each class keeps the
  wire it was decoded from or encoded to (\<open>kl_wire\<close>, \<open>sel_wire\<close>) and drops it in every setter. A
  template that may throw yields either the exception or the state transformer; a \<^verbatim>\<open>wireDecode\<close>
  yields the exception, if any, and the object as it is left then.
\<close>

section \<open>Decoding steps\<close>

definition then_decode :: "error option \<times> 'a \<Rightarrow> ('a \<Rightarrow> error option \<times> 'a) \<Rightarrow> error option \<times> 'a" where
  "then_decode d f = (case d of (None, x) \<Rightarrow> f x | (Some e, x) \<Rightarrow> (Some e, x))"

text \<open>
  An optional number: if the element is there, \<open>mark\<close> sets its flag, then the value is read and
  stored by \<open>store\<close>, unless reading throws.
\<close>

definition decode_number :: "block \<Rightarrow> u32 \<Rightarrow> ('a \<Rightarrow> 'a) \<Rightarrow> (u64 \<Rightarrow> 'a \<Rightarrow> 'a) \<Rightarrow> 'a \<Rightarrow> error option \<times> 'a" where
  "decode_number w type mark store x =
     (case find_element w type of
        None \<Rightarrow> (None, x)
      | Some val \<Rightarrow>
          (case readNonNegativeInteger_block val of
             Inl e \<Rightarrow> (Some e, mark x)
           | Inr n \<Rightarrow> (None, store n (mark x))))"

lemma then_decode_None [simp]: "then_decode (None, x) f = f x"
  by (simp add: then_decode_def)

lemma decode_number_tlvs:
  assumes "map block_tlv (m_subBlocks w) = es" and "\<forall>i \<in> set (m_subBlocks w). fresh_block i"
  shows "map_of es t = None \<Longrightarrow> decode_number w t mark store x = (None, x)"
    and "map_of es t = Some (nonNegativeInteger_bytes n) \<Longrightarrow> decode_number w t mark store x = (None, store n (mark x))"
proof -
  show "map_of es t = None \<Longrightarrow> decode_number w t mark store x = (None, x)"
    using find_element_None [OF assms] by (simp add: decode_number_def)
next
  assume "map_of es t = Some (nonNegativeInteger_bytes n)"
  then obtain i where "find_element w t = Some i" "fresh_block i" "block_tlv i = (t, nonNegativeInteger_bytes n)"
    using find_element_Some [OF assms] by blast
  then show "decode_number w t mark store x = (None, store n (mark x))"
    using readNonNegativeInteger_block_tlv [of i n] by (simp add: decode_number_def fresh_block_def block_tlv_def)
qed

lemma decode_number_opt:
  assumes "map block_tlv (m_subBlocks w) = es" and "\<forall>i \<in> set (m_subBlocks w). fresh_block i"
    and "map_of es t = (if c then Some (nonNegativeInteger_bytes n) else None)"
  shows "decode_number w t mark store x = (None, if c then store n (mark x) else x)"
  using decode_number_tlvs [OF assms(1,2)] assms(3) by (cases c) simp_all

text \<open>The conversion of a \<^verbatim>\<open>uint64_t\<close> to \<^verbatim>\<open>int\<close>, and of an \<^verbatim>\<open>int\<close> to \<^verbatim>\<open>uint64_t\<close>.\<close>

definition int_of_u64 :: "u64 \<Rightarrow> int" where
  "int_of_u64 n = sint (ucast n :: u32)"

definition u64_of_int :: "int \<Rightarrow> u64" where
  "u64_of_int i = word_of_int i"

lemma int_of_u64_eq: "int_of_u64 n = (uint n + 2 ^ 31) mod 2 ^ 32 - 2 ^ 31"
proof -
  have u: "uint (ucast n :: u32) = uint n mod 2 ^ 32" by (simp add: unsigned_ucast_eq take_bit_eq_mod)
  have "int_of_u64 n = signed_take_bit 31 (uint (ucast n :: u32))" by (simp add: int_of_u64_def sint_uint)
  also have "\<dots> = (uint n mod 2 ^ 32 + 2 ^ 31) mod 2 ^ 32 - 2 ^ 31"
    unfolding u by (simp add: signed_take_bit_eq_take_bit_shift take_bit_eq_mod)
  finally show ?thesis by (simp add: mod_simps)
qed

lemma int_of_u64_bounds:
  "int_of_u64 n = uint n \<longleftrightarrow> unat n < 2 ^ 31" "2 ^ 31 \<le> unat n \<and> unat n < 2 ^ 32 \<Longrightarrow> int_of_u64 n < 0"
proof -
  have small: "(int k + 2 ^ 31) mod 2 ^ 32 = int k + 2 ^ 31" if "k < 2 ^ 31" for k :: nat
    using that by (intro mod_pos_pos_trivial) simp_all
  have u: "uint n = int (unat n)" by simp
  have "unat n < 2 ^ 31 \<Longrightarrow> int_of_u64 n = uint n" unfolding int_of_u64_eq u using small [of "unat n"] by simp
  moreover have "int_of_u64 n < 2 ^ 31"
    using pos_mod_bound [of "2 ^ 32" "uint n + 2 ^ 31"] by (simp add: int_of_u64_eq)
  ultimately show "int_of_u64 n = uint n \<longleftrightarrow> unat n < 2 ^ 31" unfolding u by (metis of_nat_less_iff of_nat_numeral of_nat_power)
next
  assume n: "2 ^ 31 \<le> unat n \<and> unat n < 2 ^ 32"
  have large: "(int k + 2 ^ 31) mod 2 ^ 32 = int k - 2 ^ 31" if "2 ^ 31 \<le> k" "k < 2 ^ 32" for k :: nat
  proof -
    have "(int k + 2 ^ 31) mod 2 ^ 32 = ((int k - 2 ^ 31) + 2 ^ 32) mod 2 ^ 32" by (simp add: add.commute)
    also have "\<dots> = (int k - 2 ^ 31) mod 2 ^ 32" by (rule mod_add_self2)
    also have "\<dots> = int k - 2 ^ 31" using that by (intro mod_pos_pos_trivial) simp_all
    finally show ?thesis .
  qed
  have "int_of_u64 n = int (unat n) - 2 ^ 31 - 2 ^ 31"
    unfolding int_of_u64_eq using large [of "unat n"] n by simp
  moreover have "int (unat n) < 2 ^ 32" using n by (metis of_nat_less_iff of_nat_numeral of_nat_power)
  ultimately show "int_of_u64 n < 0" by simp
qed

lemma int_of_u64_of_int: "0 \<le> i \<Longrightarrow> i < 2 ^ 31 \<Longrightarrow> int_of_u64 (u64_of_int i) = i"
proof -
  assume i: "0 \<le> i" "i < 2 ^ 31"
  have "(ucast (word_of_int i :: u64) :: u32) = word_of_int i" by transfer simp
  with i show ?thesis using sint_small [of i] by (simp add: int_of_u64_def u64_of_int_def)
qed

section \<open>Key locator\<close>

datatype key_locator_type = KeyLocator_None | KeyLocator_Name | KeyLocator_KeyDigest | KeyLocator_Unknown

record key_locator =
  kl_type :: key_locator_type
  kl_name :: name
  kl_keyDigest :: block
  kl_wire :: block

definition KeyLocator_default :: key_locator where
  "KeyLocator_default = \<lparr>kl_type = KeyLocator_None, kl_name = Name_default, kl_keyDigest = Block_default, kl_wire = Block_default\<rparr>"

definition KeyLocator_empty :: "key_locator \<Rightarrow> bool" where
  "KeyLocator_empty kl \<longleftrightarrow> kl_type kl = KeyLocator_None"

definition KeyLocator_clear :: "key_locator \<Rightarrow> key_locator" where
  "KeyLocator_clear kl = \<lparr>kl_type = KeyLocator_None, kl_name = Name_clear (kl_name kl),
     kl_keyDigest = Block_reset (kl_keyDigest kl), kl_wire = Block_reset (kl_wire kl)\<rparr>"

definition KeyLocator_getName :: "key_locator \<Rightarrow> name res" where
  "KeyLocator_getName kl =
     (if kl_type kl \<noteq> KeyLocator_Name then Inl (TlvError ''KeyLocator type is not Name'') else Inr (kl_name kl))"

definition KeyLocator_setName :: "key_locator \<Rightarrow> name \<Rightarrow> key_locator" where
  "KeyLocator_setName kl name = (KeyLocator_clear kl)\<lparr>kl_type := KeyLocator_Name, kl_name := name\<rparr>"

definition KeyLocator_getKeyDigest :: "key_locator \<Rightarrow> block res" where
  "KeyLocator_getKeyDigest kl =
     (if kl_type kl \<noteq> KeyLocator_KeyDigest then Inl (TlvError ''KeyLocator type is not KeyDigest'')
      else Inr (kl_keyDigest kl))"

definition KeyLocator_setKeyDigest :: "key_locator \<Rightarrow> block \<Rightarrow> key_locator res" where
  "KeyLocator_setKeyDigest kl keyDigest =
     (if m_type keyDigest \<noteq> tlv_KeyDigest then Inl (TlvError ''expecting KeyDigest block'')
      else Inr ((KeyLocator_clear kl)\<lparr>kl_type := KeyLocator_KeyDigest, kl_keyDigest := keyDigest\<rparr>))"

definition KeyLocator_setKeyDigest_buffer :: "key_locator \<Rightarrow> byte list \<Rightarrow> key_locator res" where
  "KeyLocator_setKeyDigest_buffer kl keyDigest =
     (case makeBinaryBlock tlv_KeyDigest keyDigest of Inl e \<Rightarrow> Inl e | Inr b \<Rightarrow> KeyLocator_setKeyDigest kl b)"

definition KeyLocator_wireEncode_template :: "'s encoding_ops \<Rightarrow> key_locator \<Rightarrow> ('s, nat) state res" where
  "KeyLocator_wireEncode_template ops kl =
     (let tail = (\<lambda>totalLength. do {
            k \<leftarrow> op_prependVarNumber ops (word_of_nat totalLength);
            j \<leftarrow> op_prependVarNumber ops (ucast tlv_KeyLocator);
            State_Monad.return (totalLength + k + j)
          })
      in case kl_type kl of
           KeyLocator_None \<Rightarrow> Inr (tail 0)
         | KeyLocator_Name \<Rightarrow> Inr (Name_wireEncode_template ops (kl_name kl) \<bind> tail)
         | KeyLocator_KeyDigest \<Rightarrow> Inr (op_prependBlock ops (kl_keyDigest kl) \<bind> tail)
         | KeyLocator_Unknown \<Rightarrow> Inl (TlvError ''Unsupported KeyLocator type''))"

text \<open>The two passes of a \<^verbatim>\<open>wireEncode()\<close> whose template may throw.\<close>

definition try_encode :: "(unit, nat) state res \<Rightarrow> (encoder, nat) state res \<Rightarrow> block res" where
  "try_encode est enc =
     (case est of Inl e \<Rightarrow> Inl e
      | Inr es \<Rightarrow> (case enc of Inl e \<Rightarrow> Inl e | Inr en \<Rightarrow> estimate_and_encode es en))"

definition KeyLocator_wireEncode :: "key_locator \<Rightarrow> (block \<times> key_locator) res" where
  "KeyLocator_wireEncode kl =
     (if Block_hasWire (kl_wire kl) then Inr (kl_wire kl, kl)
      else case try_encode (KeyLocator_wireEncode_template estimator_ops kl) (KeyLocator_wireEncode_template encoder_ops kl) of
        Inl e \<Rightarrow> Inl e | Inr b \<Rightarrow> Inr (b, kl\<lparr>kl_wire := b\<rparr>))"

definition KeyLocator_wireDecode :: "key_locator \<Rightarrow> block \<Rightarrow> error option \<times> key_locator" where
  "KeyLocator_wireDecode kl wire =
     (if m_type wire \<noteq> tlv_KeyLocator then (Some (TlvError ''Unexpected TLV type during KeyLocator decoding''), kl)
      else case Block_parse wire of
        (Some e, w) \<Rightarrow> (Some e, kl\<lparr>kl_wire := w\<rparr>)
      | (None, w) \<Rightarrow>
          (let kl1 = kl\<lparr>kl_wire := w\<rparr>
           in case m_subBlocks w of
                [] \<Rightarrow> (None, kl1\<lparr>kl_type := KeyLocator_None\<rparr>)
              | i # _ \<Rightarrow>
                  if m_type i = tlv_Name then
                    (case Name_wireDecode (kl_name kl) i of
                       (err, n) \<Rightarrow> (err, kl1\<lparr>kl_type := KeyLocator_Name, kl_name := n\<rparr>))
                  else if m_type i = tlv_KeyDigest then
                    (None, kl1\<lparr>kl_type := KeyLocator_KeyDigest, kl_keyDigest := i\<rparr>)
                  else (None, kl1\<lparr>kl_type := KeyLocator_Unknown\<rparr>)))"

definition KeyLocator_equals :: "key_locator \<Rightarrow> key_locator \<Rightarrow> bool res" where
  "KeyLocator_equals kl other =
     (case KeyLocator_wireEncode kl of
        Inl e \<Rightarrow> Inl e
      | Inr (w, _) \<Rightarrow> (case KeyLocator_wireEncode other of Inl e \<Rightarrow> Inl e | Inr (w', _) \<Rightarrow> Block_equals w w'))"

section \<open>Selectors\<close>

record selectors =
  sel_minSuffixComponents :: int
  sel_maxSuffixComponents :: int
  sel_publisherPublicKeyLocator :: key_locator
  sel_exclude :: exclude
  sel_childSelector :: int
  sel_mustBeFresh :: bool
  sel_wire :: block

definition Selectors_default :: selectors where
  "Selectors_default = \<lparr>sel_minSuffixComponents = - 1, sel_maxSuffixComponents = - 1,
     sel_publisherPublicKeyLocator = KeyLocator_default, sel_exclude = Exclude_default, sel_childSelector = - 1,
     sel_mustBeFresh = False, sel_wire = Block_default\<rparr>"

definition Selectors_empty :: "selectors \<Rightarrow> bool" where
  "Selectors_empty s \<longleftrightarrow> sel_minSuffixComponents s < 0 \<and> sel_maxSuffixComponents s < 0 \<and>
     KeyLocator_empty (sel_publisherPublicKeyLocator s) \<and> Exclude_empty (sel_exclude s) \<and>
     sel_childSelector s < 0 \<and> \<not> sel_mustBeFresh s"

definition Selectors_drop_wire :: "selectors \<Rightarrow> selectors" where
  "Selectors_drop_wire s = s\<lparr>sel_wire := Block_reset (sel_wire s)\<rparr>"

definition Selectors_setMinSuffixComponents :: "selectors \<Rightarrow> int \<Rightarrow> selectors" where
  "Selectors_setMinSuffixComponents s n = Selectors_drop_wire (s\<lparr>sel_minSuffixComponents := n\<rparr>)"

definition Selectors_setMaxSuffixComponents :: "selectors \<Rightarrow> int \<Rightarrow> selectors" where
  "Selectors_setMaxSuffixComponents s n = Selectors_drop_wire (s\<lparr>sel_maxSuffixComponents := n\<rparr>)"

definition Selectors_setPublisherPublicKeyLocator :: "selectors \<Rightarrow> key_locator \<Rightarrow> selectors" where
  "Selectors_setPublisherPublicKeyLocator s kl = Selectors_drop_wire (s\<lparr>sel_publisherPublicKeyLocator := kl\<rparr>)"

definition Selectors_setExclude :: "selectors \<Rightarrow> exclude \<Rightarrow> selectors" where
  "Selectors_setExclude s x = Selectors_drop_wire (s\<lparr>sel_exclude := x\<rparr>)"

definition Selectors_setChildSelector :: "selectors \<Rightarrow> int \<Rightarrow> selectors" where
  "Selectors_setChildSelector s n = Selectors_drop_wire (s\<lparr>sel_childSelector := n\<rparr>)"

definition Selectors_setMustBeFresh :: "selectors \<Rightarrow> bool \<Rightarrow> selectors" where
  "Selectors_setMustBeFresh s b = Selectors_drop_wire (s\<lparr>sel_mustBeFresh := b\<rparr>)"

text \<open>An optional part of a template: nothing is written and nothing counted when it is absent.\<close>

definition when_present :: "bool \<Rightarrow> ('s, nat) state \<Rightarrow> ('s, nat) state" where
  "when_present c m = (if c then m else State_Monad.return 0)"

definition Selectors_wireEncode_template :: "'s encoding_ops \<Rightarrow> selectors \<Rightarrow> ('s, nat) state res" where
  "Selectors_wireEncode_template ops s =
     (case (if KeyLocator_empty (sel_publisherPublicKeyLocator s) then Inr (State_Monad.return 0)
            else KeyLocator_wireEncode_template ops (sel_publisherPublicKeyLocator s)) of
        Inl e \<Rightarrow> Inl e
      | Inr keyLocator \<Rightarrow> Inr (do {
          n1 \<leftarrow> when_present (sel_mustBeFresh s) (prependEmptyBlock ops tlv_MustBeFresh);
          n2 \<leftarrow> when_present (sel_childSelector s \<ge> 0)
                 (prependNonNegativeIntegerBlock ops tlv_ChildSelector (u64_of_int (sel_childSelector s)));
          n3 \<leftarrow> when_present (\<not> Exclude_empty (sel_exclude s)) (Exclude_wireEncode_template ops (ex_entries (sel_exclude s)));
          n4 \<leftarrow> keyLocator;
          n5 \<leftarrow> when_present (sel_maxSuffixComponents s \<ge> 0)
                 (prependNonNegativeIntegerBlock ops tlv_MaxSuffixComponents (u64_of_int (sel_maxSuffixComponents s)));
          n6 \<leftarrow> when_present (sel_minSuffixComponents s \<ge> 0)
                 (prependNonNegativeIntegerBlock ops tlv_MinSuffixComponents (u64_of_int (sel_minSuffixComponents s)));
          k \<leftarrow> op_prependVarNumber ops (word_of_nat (n1 + n2 + n3 + n4 + n5 + n6));
          j \<leftarrow> op_prependVarNumber ops (ucast tlv_Selectors);
          State_Monad.return (n1 + n2 + n3 + n4 + n5 + n6 + k + j)
        }))"

definition Selectors_wireEncode :: "selectors \<Rightarrow> (block \<times> selectors) res" where
  "Selectors_wireEncode s =
     (if Block_hasWire (sel_wire s) then Inr (sel_wire s, s)
      else case try_encode (Selectors_wireEncode_template estimator_ops s) (Selectors_wireEncode_template encoder_ops s) of
        Inl e \<Rightarrow> Inl e | Inr b \<Rightarrow> Inr (b, s\<lparr>sel_wire := b\<rparr>))"

definition Selectors_decode_keyLocator :: "block \<Rightarrow> selectors \<Rightarrow> error option \<times> selectors" where
  "Selectors_decode_keyLocator w s =
     (case find_element w tlv_KeyLocator of
        None \<Rightarrow> (None, s)
      | Some val \<Rightarrow> (case KeyLocator_wireDecode (sel_publisherPublicKeyLocator s) val of
          (err, kl) \<Rightarrow> (err, s\<lparr>sel_publisherPublicKeyLocator := kl\<rparr>)))"

definition Selectors_decode_exclude :: "block \<Rightarrow> selectors \<Rightarrow> error option \<times> selectors" where
  "Selectors_decode_exclude w s =
     (case find_element w tlv_Exclude of
        None \<Rightarrow> (None, s)
      | Some val \<Rightarrow> (case Exclude_wireDecode (sel_exclude s) val of (err, x) \<Rightarrow> (err, s\<lparr>sel_exclude := x\<rparr>)))"

definition Selectors_decode_mustBeFresh :: "block \<Rightarrow> selectors \<Rightarrow> error option \<times> selectors" where
  "Selectors_decode_mustBeFresh w s =
     (case find_element w tlv_MustBeFresh of None \<Rightarrow> (None, s) | Some val \<Rightarrow> (None, s\<lparr>sel_mustBeFresh := True\<rparr>))"

definition Selectors_wireDecode :: "selectors \<Rightarrow> block \<Rightarrow> error option \<times> selectors" where
  "Selectors_wireDecode s wire =
     (if m_type wire \<noteq> tlv_Selectors then (Some (TlvError ''Unexpected TLV type when decoding Selectors''), s)
      else case Block_parse wire of
        (Some e, w) \<Rightarrow> (Some e, Selectors_default\<lparr>sel_wire := w\<rparr>)
      | (None, w) \<Rightarrow>
          then_decode (then_decode (then_decode (then_decode (then_decode (
            decode_number w tlv_MinSuffixComponents id (\<lambda>n s. s\<lparr>sel_minSuffixComponents := int_of_u64 n\<rparr>)
              (Selectors_default\<lparr>sel_wire := w\<rparr>))
            (decode_number w tlv_MaxSuffixComponents id (\<lambda>n s. s\<lparr>sel_maxSuffixComponents := int_of_u64 n\<rparr>)))
            (Selectors_decode_keyLocator w))
            (Selectors_decode_exclude w))
            (decode_number w tlv_ChildSelector id (\<lambda>n s. s\<lparr>sel_childSelector := int_of_u64 n\<rparr>)))
            (Selectors_decode_mustBeFresh w))"

definition Selectors_equals :: "selectors \<Rightarrow> selectors \<Rightarrow> bool res" where
  "Selectors_equals s other =
     (case Selectors_wireEncode s of
        Inl e \<Rightarrow> Inl e
      | Inr (w, _) \<Rightarrow> (case Selectors_wireEncode other of Inl e \<Rightarrow> Inl e | Inr (w', _) \<Rightarrow> Block_equals w w'))"

section \<open>The TLVs of the templates\<close>

definition opt_tlv :: "bool \<Rightarrow> u32 \<Rightarrow> byte list \<Rightarrow> (u32 \<times> byte list) list" where
  "opt_tlv c t v = (if c then [(t, v)] else [])"

lemma map_of_opt_tlv [simp]: "map_of (opt_tlv c t v @ es) u = (if c \<and> u = t then Some v else map_of es u)"
  by (simp add: opt_tlv_def)

lemma map_of_opt_tlv_last [simp]: "map_of (opt_tlv c t v) u = (if c \<and> u = t then Some v else None)"
  by (simp add: opt_tlv_def)

lemma set_opt_tlv [simp]: "set (opt_tlv c t v) = (if c then {(t, v)} else {})"
  by (simp add: opt_tlv_def)

definition kl_tlvs :: "key_locator \<Rightarrow> (u32 \<times> byte list) list" where
  "kl_tlvs kl = (case kl_type kl of
     KeyLocator_Name \<Rightarrow> [(tlv_Name, tlvs_wire (name_tlvs (name_of (kl_name kl))))]
   | KeyLocator_KeyDigest \<Rightarrow> [(tlv_KeyDigest, value_bytes (kl_keyDigest kl))]
   | _ \<Rightarrow> [])"

text \<open>Key locators that can be encoded: a name of component blocks, or a digest element.\<close>

definition kl_ok :: "key_locator \<Rightarrow> bool" where
  "kl_ok kl \<longleftrightarrow> (case kl_type kl of
     KeyLocator_None \<Rightarrow> True
   | KeyLocator_Name \<Rightarrow> name_block (kl_name kl) \<and> fits (tlvs_wire (name_tlvs (name_of (kl_name kl))))
   | KeyLocator_KeyDigest \<Rightarrow> block_wf (kl_keyDigest kl) \<and> m_type (kl_keyDigest kl) = tlv_KeyDigest \<and> fits (value_bytes (kl_keyDigest kl))
       \<and> (Block_hasWire (kl_keyDigest kl) \<longrightarrow> wire_bytes (kl_keyDigest kl) = tlv_wire tlv_KeyDigest (value_bytes (kl_keyDigest kl)))
   | KeyLocator_Unknown \<Rightarrow> False)"

definition sel_tlvs :: "selectors \<Rightarrow> (u32 \<times> byte list) list" where
  "sel_tlvs s =
     opt_tlv (sel_minSuffixComponents s \<ge> 0) tlv_MinSuffixComponents (nonNegativeInteger_bytes (u64_of_int (sel_minSuffixComponents s)))
   @ opt_tlv (sel_maxSuffixComponents s \<ge> 0) tlv_MaxSuffixComponents (nonNegativeInteger_bytes (u64_of_int (sel_maxSuffixComponents s)))
   @ opt_tlv (\<not> KeyLocator_empty (sel_publisherPublicKeyLocator s)) tlv_KeyLocator (tlvs_wire (kl_tlvs (sel_publisherPublicKeyLocator s)))
   @ opt_tlv (\<not> Exclude_empty (sel_exclude s)) tlv_Exclude (tlvs_wire (entries_tlvs (ex_entries (sel_exclude s))))
   @ opt_tlv (sel_childSelector s \<ge> 0) tlv_ChildSelector (nonNegativeInteger_bytes (u64_of_int (sel_childSelector s)))
   @ opt_tlv (sel_mustBeFresh s) tlv_MustBeFresh []"

definition sel_ok :: "selectors \<Rightarrow> bool" where
  "sel_ok s \<longleftrightarrow> sel_minSuffixComponents s < 2 ^ 31 \<and> sel_maxSuffixComponents s < 2 ^ 31 \<and> sel_childSelector s < 2 ^ 31 \<and>
     kl_ok (sel_publisherPublicKeyLocator s) \<and> fits (tlvs_wire (kl_tlvs (sel_publisherPublicKeyLocator s))) \<and>
     entries_ok (ex_entries (sel_exclude s)) \<and> (\<forall>e \<in> set (ex_entries (sel_exclude s)). entry_ok e) \<and>
     fits (tlvs_wire (entries_tlvs (ex_entries (sel_exclude s)))) \<and> fits (tlvs_wire (sel_tlvs s))"

lemma sel_lookup:
  "map_of (sel_tlvs s) tlv_MinSuffixComponents =
     (if sel_minSuffixComponents s \<ge> 0 then Some (nonNegativeInteger_bytes (u64_of_int (sel_minSuffixComponents s))) else None)"
  "map_of (sel_tlvs s) tlv_MaxSuffixComponents =
     (if sel_maxSuffixComponents s \<ge> 0 then Some (nonNegativeInteger_bytes (u64_of_int (sel_maxSuffixComponents s))) else None)"
  "map_of (sel_tlvs s) tlv_ChildSelector =
     (if sel_childSelector s \<ge> 0 then Some (nonNegativeInteger_bytes (u64_of_int (sel_childSelector s))) else None)"
  "map_of (sel_tlvs s) tlv_KeyLocator =
     (if KeyLocator_empty (sel_publisherPublicKeyLocator s) then None else Some (tlvs_wire (kl_tlvs (sel_publisherPublicKeyLocator s))))"
  "map_of (sel_tlvs s) tlv_Exclude =
     (if Exclude_empty (sel_exclude s) then None else Some (tlvs_wire (entries_tlvs (ex_entries (sel_exclude s)))))"
  "map_of (sel_tlvs s) tlv_MustBeFresh = (if sel_mustBeFresh s then Some [] else None)"
  by (simp_all add: sel_tlvs_def tlv_codes del: map_of_append)

context encoding_impl
begin

lemma when_present_prepends:
  "prepends R m (tlv_wire t v) (length (tlv_wire t v)) \<Longrightarrow>
     prepends R (when_present c m) (tlvs_wire (opt_tlv c t v)) (length (tlvs_wire (opt_tlv c t v)))"
  by (simp add: when_present_def opt_tlv_def prepends_return)

lemma prependBlock_tlv:
  assumes "block_wf b" and "Block_hasWire b \<Longrightarrow> wire_bytes b = tlv_wire (m_type b) (value_bytes b)"
  shows "prepends R (op_prependBlock ops b) (tlv_wire (m_type b) (value_bytes b)) (length (tlv_wire (m_type b) (value_bytes b)))"
proof -
  have "block_bytes b = tlv_wire (m_type b) (value_bytes b)"
    using assms wf_wire_size [of b] by (simp add: block_bytes_def)
  then show ?thesis using prependBlock [OF assms(1)] by simp
qed

lemma KeyLocator_wireEncode_prepends:
  assumes "kl_ok kl"
  shows "\<exists>m. KeyLocator_wireEncode_template ops kl = Inr m \<and>
     prepends R m (tlv_wire tlv_KeyLocator (tlvs_wire (kl_tlvs kl))) (length (tlv_wire tlv_KeyLocator (tlvs_wire (kl_tlvs kl))))"
proof (cases "kl_type kl")
  case KeyLocator_None
  then show ?thesis using prependEmptyBlock_prepends [of tlv_KeyLocator]
    by (simp add: KeyLocator_wireEncode_template_def Let_def kl_tlvs_def prependEmptyBlock_def)
next
  case KeyLocator_Name
  then have "\<forall>c \<in> set (m_subBlocks (kl_name kl)). block_wf c"
    using assms by (simp add: kl_ok_def name_block_def component_block_def)
  from prepend_header [OF Name_wireEncode_prepends [OF this], of tlv_KeyLocator] KeyLocator_Name show ?thesis
    by (simp add: KeyLocator_wireEncode_template_def Let_def kl_tlvs_def name_tlvs_of)
next
  case KeyLocator_KeyDigest
  then show ?thesis
    using assms prepend_header [OF prependBlock_tlv [of "kl_keyDigest kl"], of tlv_KeyLocator]
    by (simp add: KeyLocator_wireEncode_template_def Let_def kl_tlvs_def kl_ok_def)
next
  case KeyLocator_Unknown
  with assms show ?thesis by (simp add: kl_ok_def)
qed

lemma Selectors_wireEncode_prepends:
  assumes "kl_ok (sel_publisherPublicKeyLocator s)"
  shows "\<exists>m. Selectors_wireEncode_template ops s = Inr m \<and>
     prepends R m (tlv_wire tlv_Selectors (tlvs_wire (sel_tlvs s))) (length (tlv_wire tlv_Selectors (tlvs_wire (sel_tlvs s))))"
proof -
  let ?kl = "sel_publisherPublicKeyLocator s"
  let ?k = "opt_tlv (\<not> KeyLocator_empty ?kl) tlv_KeyLocator (tlvs_wire (kl_tlvs ?kl))"
  obtain m where m: "(if KeyLocator_empty ?kl then Inr (State_Monad.return 0) else KeyLocator_wireEncode_template ops ?kl) = Inr m"
    "prepends R m (tlvs_wire ?k) (length (tlvs_wire ?k))"
    using KeyLocator_wireEncode_prepends [OF assms] prepends_return [of R 0]
    by (cases "KeyLocator_empty ?kl") (auto simp: opt_tlv_def)
  show ?thesis unfolding Selectors_wireEncode_template_def m(1) sum.case
    by (rule exI, rule conjI, rule refl, rule prepends_cong,
        (rule prepends_bind m(2) when_present_prepends prependEmptyBlock_prepends prependNonNegativeIntegerBlock_prepends
          Exclude_wireEncode_prepends prependVarNumber prepends_return)+)
      (simp_all add: sel_tlvs_def tlv_wire_def size_simps ac_simps)
qed

end

text \<open>Equality of key locators and of selectors as the accessors show them, the wires apart.\<close>

definition kl_same :: "key_locator \<Rightarrow> key_locator \<Rightarrow> bool" where
  "kl_same kl kl' \<longleftrightarrow> kl_type kl' = kl_type kl
     \<and> (kl_type kl = KeyLocator_Name \<longrightarrow> name_of (kl_name kl') = name_of (kl_name kl))
     \<and> (kl_type kl = KeyLocator_KeyDigest \<longrightarrow> block_tlv (kl_keyDigest kl') = block_tlv (kl_keyDigest kl))"

definition sel_same :: "selectors \<Rightarrow> selectors \<Rightarrow> bool" where
  "sel_same s s' \<longleftrightarrow>
     sel_minSuffixComponents s' = (if sel_minSuffixComponents s < 0 then - 1 else sel_minSuffixComponents s)
     \<and> sel_maxSuffixComponents s' = (if sel_maxSuffixComponents s < 0 then - 1 else sel_maxSuffixComponents s)
     \<and> sel_childSelector s' = (if sel_childSelector s < 0 then - 1 else sel_childSelector s)
     \<and> sel_mustBeFresh s' = sel_mustBeFresh s \<and> ex_entries (sel_exclude s') = ex_entries (sel_exclude s)
     \<and> kl_same (sel_publisherPublicKeyLocator s) (sel_publisherPublicKeyLocator s')"

lemma KeyLocator_wireDecode_fresh:
  assumes "fresh_block w" and "block_tlv w = (tlv_KeyLocator, tlvs_wire (kl_tlvs kl))" and "kl_ok kl"
  shows "\<exists>kl'. KeyLocator_wireDecode kl0 w = (None, kl') \<and> kl_same kl kl'"
proof -
  have v: "value_bytes w = tlvs_wire (kl_tlvs kl)" "m_type w = tlv_KeyLocator" using assms(2) by (simp_all add: block_tlv_def)
  have "\<forall>(t, v) \<in> set (kl_tlvs kl). fits v" using assms(3) by (auto simp: kl_tlvs_def kl_ok_def split: key_locator_type.splits)
  from Block_parse_fresh [OF assms(1) v(1) this] obtain p where p: "Block_parse w = (None, p)"
    "map block_tlv (m_subBlocks p) = kl_tlvs kl" "\<forall>i \<in> set (m_subBlocks p). fresh_block i" by blast
  show ?thesis
  proof (cases "kl_type kl")
    case KeyLocator_None
    then show ?thesis using p v(2) by (simp add: KeyLocator_wireDecode_def kl_tlvs_def Let_def kl_same_def)
  next
    case KeyLocator_Name
    then obtain i where i: "m_subBlocks p = [i]" "block_tlv i = (tlv_Name, tlvs_wire (name_tlvs (name_of (kl_name kl))))"
      using p(2) by (auto simp: kl_tlvs_def)
    have "name_block (kl_name kl)" using assms(3) KeyLocator_Name by (simp add: kl_ok_def)
    from Name_wireDecode_fresh [OF _ i(2) name_tlvs_fits [OF this]] p(3) i(1)
    obtain m where "Name_wireDecode (kl_name kl0) i = (None, m)" "name_of m = name_of (kl_name kl)" by auto
    then show ?thesis using p(1) v(2) i KeyLocator_Name by (simp add: KeyLocator_wireDecode_def Let_def block_tlv_def kl_same_def)
  next
    case KeyLocator_KeyDigest
    then obtain i where i: "m_subBlocks p = [i]" "block_tlv i = (tlv_KeyDigest, value_bytes (kl_keyDigest kl))"
      using p(2) by (auto simp: kl_tlvs_def)
    moreover have "m_type (kl_keyDigest kl) = tlv_KeyDigest" using assms(3) KeyLocator_KeyDigest by (simp add: kl_ok_def)
    ultimately show ?thesis using p(1) v(2) KeyLocator_KeyDigest
      by (simp add: KeyLocator_wireDecode_def Let_def block_tlv_def tlv_codes kl_same_def)
  next
    case KeyLocator_Unknown
    with assms(3) show ?thesis by (simp add: kl_ok_def)
  qed
qed

lemma Selectors_wireDecode_fresh:
  assumes "fresh_block w" and "block_tlv w = (tlv_Selectors, tlvs_wire (sel_tlvs s))" and "sel_ok s"
  shows "\<exists>s'. Selectors_wireDecode s0 w = (None, s') \<and> sel_same s s'"
proof -
  let ?es = "sel_tlvs s" and ?kl = "sel_publisherPublicKeyLocator s" and ?x = "sel_exclude s"
  have v: "value_bytes w = tlvs_wire ?es" "m_type w = tlv_Selectors" using assms(2) by (simp_all add: block_tlv_def)
  have "\<forall>(t, v) \<in> set ?es. fits v" using assms(3) by (auto simp: sel_tlvs_def sel_ok_def)
  from Block_parse_fresh [OF assms(1) v(1) this] obtain p where p: "Block_parse w = (None, p)"
    "map block_tlv (m_subBlocks p) = ?es" "\<forall>i \<in> set (m_subBlocks p). fresh_block i" by blast
  note num = decode_number_opt [OF p(2,3)]
  have m1: "decode_number p tlv_MinSuffixComponents id (\<lambda>n s. s\<lparr>sel_minSuffixComponents := int_of_u64 n\<rparr>) y =
      (None, if sel_minSuffixComponents s < 0 then y else y\<lparr>sel_minSuffixComponents := sel_minSuffixComponents s\<rparr>)" for y
    using assms(3) int_of_u64_of_int [of "sel_minSuffixComponents s"] by (simp add: num [OF sel_lookup(1)] sel_ok_def)
  have m2: "decode_number p tlv_MaxSuffixComponents id (\<lambda>n s. s\<lparr>sel_maxSuffixComponents := int_of_u64 n\<rparr>) y =
      (None, if sel_maxSuffixComponents s < 0 then y else y\<lparr>sel_maxSuffixComponents := sel_maxSuffixComponents s\<rparr>)" for y
    using assms(3) int_of_u64_of_int [of "sel_maxSuffixComponents s"] by (simp add: num [OF sel_lookup(2)] sel_ok_def)
  have m3: "decode_number p tlv_ChildSelector id (\<lambda>n s. s\<lparr>sel_childSelector := int_of_u64 n\<rparr>) y =
      (None, if sel_childSelector s < 0 then y else y\<lparr>sel_childSelector := sel_childSelector s\<rparr>)" for y
    using assms(3) int_of_u64_of_int [of "sel_childSelector s"] by (simp add: num [OF sel_lookup(3)] sel_ok_def)
  have kl: "\<exists>kl'. Selectors_decode_keyLocator p y = (None, y\<lparr>sel_publisherPublicKeyLocator := kl'\<rparr>) \<and> kl_same ?kl kl'"
    if "sel_publisherPublicKeyLocator y = KeyLocator_default" for y
  proof (cases "KeyLocator_empty ?kl")
    case True
    then have "find_element p tlv_KeyLocator = None"
      by (intro find_element_None [OF p(2,3)]) (simp add: sel_lookup)
    then show ?thesis using True that
      by (intro exI [of _ KeyLocator_default]) (simp add: Selectors_decode_keyLocator_def KeyLocator_empty_def KeyLocator_default_def kl_same_def)
  next
    case False
    then obtain i where i: "find_element p tlv_KeyLocator = Some i" "fresh_block i" "block_tlv i = (tlv_KeyLocator, tlvs_wire (kl_tlvs ?kl))"
      using find_element_Some [OF p(2,3), of tlv_KeyLocator "tlvs_wire (kl_tlvs ?kl)"] by (auto simp: sel_lookup)
    have "kl_ok ?kl" using assms(3) by (simp add: sel_ok_def)
    from KeyLocator_wireDecode_fresh [OF i(2,3) this, of "sel_publisherPublicKeyLocator y"] i(1) show ?thesis
      by (auto simp: Selectors_decode_keyLocator_def)
  qed
  have ex: "\<exists>x'. Selectors_decode_exclude p y = (None, y\<lparr>sel_exclude := x'\<rparr>) \<and> ex_entries x' = ex_entries ?x"
    if "sel_exclude y = Exclude_default" for y
  proof (cases "Exclude_empty ?x")
    case True
    then have "find_element p tlv_Exclude = None"
      by (intro find_element_None [OF p(2,3)]) (simp add: sel_lookup)
    then show ?thesis using True that
      by (intro exI [of _ Exclude_default]) (simp add: Selectors_decode_exclude_def Exclude_empty_def Exclude_default_def)
  next
    case False
    then obtain i where i: "find_element p tlv_Exclude = Some i" "fresh_block i"
      "block_tlv i = (tlv_Exclude, tlvs_wire (entries_tlvs (ex_entries ?x)))"
      using find_element_Some [OF p(2,3), of tlv_Exclude "tlvs_wire (entries_tlvs (ex_entries ?x))"] by (auto simp: sel_lookup)
    have "entries_ok (ex_entries ?x)" "ex_entries ?x \<noteq> []" "\<forall>e \<in> set (ex_entries ?x). entry_ok e"
      using assms(3) False by (simp_all add: sel_ok_def Exclude_empty_def)
    from Exclude_wireDecode_fresh [OF i(2,3) this, of "sel_exclude y"] i(1) show ?thesis
      by (auto simp: Selectors_decode_exclude_def)
  qed
  have fr: "Selectors_decode_mustBeFresh p y = (None, if sel_mustBeFresh s then y\<lparr>sel_mustBeFresh := True\<rparr> else y)" for y
    using find_element_Some [OF p(2,3), of tlv_MustBeFresh "[]"] find_element_None [OF p(2,3), of tlv_MustBeFresh]
    by (cases "sel_mustBeFresh s") (auto simp: Selectors_decode_mustBeFresh_def sel_lookup)
  let ?y2 = "if sel_maxSuffixComponents s < 0 then (if sel_minSuffixComponents s < 0 then Selectors_default\<lparr>sel_wire := p\<rparr>
        else Selectors_default\<lparr>sel_wire := p, sel_minSuffixComponents := sel_minSuffixComponents s\<rparr>)
      else (if sel_minSuffixComponents s < 0 then Selectors_default\<lparr>sel_wire := p\<rparr>
        else Selectors_default\<lparr>sel_wire := p, sel_minSuffixComponents := sel_minSuffixComponents s\<rparr>)
          \<lparr>sel_maxSuffixComponents := sel_maxSuffixComponents s\<rparr>"
  obtain kl' where k: "Selectors_decode_keyLocator p ?y2 = (None, ?y2\<lparr>sel_publisherPublicKeyLocator := kl'\<rparr>)" "kl_same ?kl kl'"
    using kl [of ?y2] by (auto simp: Selectors_default_def)
  obtain x' where x: "Selectors_decode_exclude p (?y2\<lparr>sel_publisherPublicKeyLocator := kl'\<rparr>)
      = (None, ?y2\<lparr>sel_publisherPublicKeyLocator := kl', sel_exclude := x'\<rparr>)" "ex_entries x' = ex_entries ?x"
    using ex [of "?y2\<lparr>sel_publisherPublicKeyLocator := kl'\<rparr>"] by (auto simp: Selectors_default_def)
  have "Selectors_wireDecode s0 w = (None, (\<lambda>y. if sel_mustBeFresh s then y\<lparr>sel_mustBeFresh := True\<rparr> else y)
      ((\<lambda>y. if sel_childSelector s < 0 then y else y\<lparr>sel_childSelector := sel_childSelector s\<rparr>)
        (?y2\<lparr>sel_publisherPublicKeyLocator := kl', sel_exclude := x'\<rparr>)))"
    using v(2) p(1) k(1) x(1) by (simp add: Selectors_wireDecode_def m1 m2 m3 fr)
  then show ?thesis using k(2) x(2) by (simp add: sel_same_def Selectors_default_def)
qed

lemma try_encode_wire:
  assumes "est = Inr me" and "enc = Inr mn" and "prepends (\<lambda>_ _. True) me (tlv_wire t v) (length (tlv_wire t v))"
    and "prepends enc_rel mn (tlv_wire t v) (length (tlv_wire t v))" and "fits v"
  shows "\<exists>b. try_encode est enc = Inr b \<and> wire_bytes b = tlv_wire t v \<and> Block_hasWire b"
  using estimate_and_encode_wire [OF assms(3-5)] assms(1,2) by (auto simp: try_encode_def)

lemma Selectors_try_encode:
  assumes "sel_ok s"
  shows "\<exists>b. try_encode (Selectors_wireEncode_template estimator_ops s) (Selectors_wireEncode_template encoder_ops s) = Inr b
     \<and> wire_bytes b = tlv_wire tlv_Selectors (tlvs_wire (sel_tlvs s))"
proof -
  have "kl_ok (sel_publisherPublicKeyLocator s)" "fits (tlvs_wire (sel_tlvs s))" using assms by (simp_all add: sel_ok_def)
  then show ?thesis
    using est.Selectors_wireEncode_prepends [of s] enc.Selectors_wireEncode_prepends [of s] try_encode_wire by blast
qed

text \<open>Selectors used in the witnesses: at most one suffix component, the rightmost child.\<close>

definition example_selectors :: selectors where
  "example_selectors = Selectors_setChildSelector (Selectors_setMaxSuffixComponents Selectors_default 1) 1"

lemma fits_small: "length v < 1000 \<Longrightarrow> fits v"
  by (simp add: fits_def)

lemma length_nonNegativeInteger_le: "length (nonNegativeInteger_bytes n) \<le> 8"
  by (simp add: nonNegativeInteger_bytes_def)

lemma length_tlv_wire_le: "length (tlv_wire t v) \<le> 18 + length v"
  by (simp add: length_tlv_wire sizeOfVarNumber_def)

lemma length_opt_number: "length (tlvs_wire (opt_tlv c t (nonNegativeInteger_bytes n))) \<le> 26"
  using length_tlv_wire_le [of t "nonNegativeInteger_bytes n"] length_nonNegativeInteger_le [of n] by (simp add: opt_tlv_def)

lemma example_selectors_ok: "sel_ok example_selectors" "\<not> Block_hasWire (sel_wire example_selectors)"
  "sel_maxSuffixComponents example_selectors = 1" "sel_childSelector example_selectors = 1"
proof -
  have f: "sel_minSuffixComponents example_selectors = - 1" "sel_maxSuffixComponents example_selectors = 1"
    "sel_childSelector example_selectors = 1" "sel_mustBeFresh example_selectors = False"
    "sel_publisherPublicKeyLocator example_selectors = KeyLocator_default" "sel_exclude example_selectors = Exclude_default"
    by (simp_all add: example_selectors_def Selectors_setChildSelector_def Selectors_setMaxSuffixComponents_def
        Selectors_drop_wire_def Selectors_default_def)
  have "length (tlvs_wire (sel_tlvs example_selectors)) \<le> 52"
    using length_opt_number [of True tlv_MaxSuffixComponents "u64_of_int 1"] length_opt_number [of True tlv_ChildSelector "u64_of_int 1"]
    by (simp add: sel_tlvs_def f KeyLocator_empty_def KeyLocator_default_def Exclude_empty_def Exclude_default_def opt_tlv_def)
  then have "fits (tlvs_wire (sel_tlvs example_selectors))" by (intro fits_small) simp
  then show "sel_ok example_selectors"
    by (simp add: sel_ok_def f kl_ok_def kl_tlvs_def KeyLocator_default_def Exclude_default_def entries_ok_def entries_tlvs_def)
  show "\<not> Block_hasWire (sel_wire example_selectors)" "sel_maxSuffixComponents example_selectors = 1"
    "sel_childSelector example_selectors = 1"
    by (simp_all add: f) (simp add: example_selectors_def Selectors_setChildSelector_def Selectors_drop_wire_def Block_reset_def Block_hasWire_def)
qed

section \<open>Properties\<close>

text \<open>
  C36: \<^verbatim>\<open>Selectors::wireEncode\<close> followed by \<^verbatim>\<open>wireDecode\<close> keeps every selector, with the nested key
  locator (a name or a digest) and exclude filter; absent selectors come back as the default \<open>-1\<close>,
  and what the decoding object held before does not matter.
\<close>

theorem Selectors_wire_roundtrip:
  assumes "sel_ok s" and "\<not> Block_hasWire (sel_wire s)"
  shows "\<exists>b. Selectors_wireEncode s = Inr (b, s\<lparr>sel_wire := b\<rparr>)
     \<and> (\<forall>rest. \<exists>w. Block_of_bytes (wire_bytes b @ rest) = Inr w \<and> (\<forall>s0. \<exists>s'. Selectors_wireDecode s0 w = (None, s') \<and> sel_same s s'))"
proof -
  obtain b where b: "try_encode (Selectors_wireEncode_template estimator_ops s) (Selectors_wireEncode_template encoder_ops s) = Inr b"
    "wire_bytes b = tlv_wire tlv_Selectors (tlvs_wire (sel_tlvs s))"
    using Selectors_try_encode [OF assms(1)] by blast
  have f: "fits (tlvs_wire (sel_tlvs s))" using assms(1) by (simp add: sel_ok_def)
  have "\<exists>w. Block_of_bytes (wire_bytes b @ rest) = Inr w \<and> (\<forall>s0. \<exists>s'. Selectors_wireDecode s0 w = (None, s') \<and> sel_same s s')" for rest
  proof -
    obtain w where w: "Block_of_bytes (wire_bytes b @ rest) = Inr w" "block_tlv w = (tlv_Selectors, tlvs_wire (sel_tlvs s))"
      using Block_of_bytes_tlv_wire [OF f, of tlv_Selectors rest] b(2) by auto
    then show ?thesis using Selectors_wireDecode_fresh [OF Block_of_bytes_fresh [OF w(1)] w(2) assms(1)] by blast
  qed
  then show ?thesis using b(1) assms(2) by (simp add: Selectors_wireEncode_def)
qed

theorem Selectors_wire_roundtrip_witness:
  "\<exists>b w s'. Selectors_wireEncode example_selectors = Inr (b, example_selectors\<lparr>sel_wire := b\<rparr>)
     \<and> Block_of_bytes (wire_bytes b @ [0]) = Inr w \<and> Selectors_wireDecode Selectors_default w = (None, s')
     \<and> sel_maxSuffixComponents s' = 1 \<and> sel_childSelector s' = 1"
proof -
  obtain b where b: "Selectors_wireEncode example_selectors = Inr (b, example_selectors\<lparr>sel_wire := b\<rparr>)"
    "\<forall>rest. \<exists>w. Block_of_bytes (wire_bytes b @ rest) = Inr w \<and>
       (\<forall>s0. \<exists>s'. Selectors_wireDecode s0 w = (None, s') \<and> sel_same example_selectors s')"
    using Selectors_wire_roundtrip [OF example_selectors_ok(1,2)] by blast
  then show ?thesis using example_selectors_ok(3,4) unfolding sel_same_def by (metis zero_less_one not_less_iff_gr_or_eq)
qed

text \<open>
  The bound below which a suffix limit survives decoding. The limit is read as a 64-bit number and
  stored in an \<^verbatim>\<open>int\<close>: it is kept exactly when it is below \<open>2 ^ 31\<close>; a larger one becomes another
  number, and one with bit 31 set becomes negative, which the accessors and \<^verbatim>\<open>empty()\<close> take for no
  limit at all.
\<close>

theorem Selectors_limit_bounds:
  assumes "fresh_block w" and "block_tlv w = (tlv_Selectors, tlvs_wire [(tlv_MaxSuffixComponents, nonNegativeInteger_bytes n)])"
  shows "\<exists>s. Selectors_wireDecode s0 w = (None, s) \<and> sel_maxSuffixComponents s = int_of_u64 n
     \<and> (sel_maxSuffixComponents s = uint n \<longleftrightarrow> unat n < 2 ^ 31)
     \<and> (2 ^ 31 \<le> unat n \<and> unat n < 2 ^ 32 \<longrightarrow> sel_maxSuffixComponents s < 0 \<and> Selectors_empty s)"
proof -
  let ?es = "[(tlv_MaxSuffixComponents, nonNegativeInteger_bytes n)]"
  have v: "value_bytes w = tlvs_wire ?es" "m_type w = tlv_Selectors" using assms(2) by (simp_all add: block_tlv_def)
  have "\<forall>(t, v) \<in> set ?es. fits v" by simp
  from Block_parse_fresh [OF assms(1) v(1) this] obtain p where p: "Block_parse w = (None, p)"
    "map block_tlv (m_subBlocks p) = ?es" "\<forall>i \<in> set (m_subBlocks p). fresh_block i" by (elim exE conjE) (rule that)
  have none: "find_element p t = None" if "t \<noteq> tlv_MaxSuffixComponents" for t
    using that by (intro find_element_None [OF p(2,3)]) simp
  have num: "decode_number p tlv_MaxSuffixComponents id (\<lambda>n s. s\<lparr>sel_maxSuffixComponents := int_of_u64 n\<rparr>) y
      = (None, y\<lparr>sel_maxSuffixComponents := int_of_u64 n\<rparr>)" for y
    by (simp add: decode_number_tlvs(2) [OF p(2,3)])
  have nonum: "t \<noteq> tlv_MaxSuffixComponents \<Longrightarrow> decode_number p t mark store y = (None, y)" for t and mark store and y :: selectors
    using none by (simp add: decode_number_def)
  have codes: "tlv_MinSuffixComponents \<noteq> tlv_MaxSuffixComponents" "tlv_ChildSelector \<noteq> tlv_MaxSuffixComponents"
    "tlv_KeyLocator \<noteq> tlv_MaxSuffixComponents" "tlv_Exclude \<noteq> tlv_MaxSuffixComponents" "tlv_MustBeFresh \<noteq> tlv_MaxSuffixComponents"
    by (simp_all add: tlv_codes)
  have "Selectors_wireDecode s0 w = (None, Selectors_default\<lparr>sel_wire := p, sel_maxSuffixComponents := int_of_u64 n\<rparr>)"
    using v(2) p(1) codes by (simp add: Selectors_wireDecode_def Selectors_decode_keyLocator_def Selectors_decode_exclude_def
        Selectors_decode_mustBeFresh_def num none nonum)
  then show ?thesis using int_of_u64_bounds [of n]
    by (simp add: Selectors_empty_def Selectors_default_def KeyLocator_empty_def KeyLocator_default_def Exclude_empty_def Exclude_default_def)
qed

theorem Selectors_limit_bounds_witness:
  "\<exists>w s. Block_of_bytes (tlv_wire tlv_Selectors (tlv_wire tlv_MaxSuffixComponents (nonNegativeInteger_bytes 0x80000000))) = Inr w
     \<and> Selectors_wireDecode Selectors_default w = (None, s) \<and> sel_maxSuffixComponents s < 0 \<and> Selectors_empty s"
proof -
  let ?v = "tlvs_wire [(tlv_MaxSuffixComponents, nonNegativeInteger_bytes 0x80000000)]"
  have "fits ?v" using length_tlv_wire_le [of tlv_MaxSuffixComponents "nonNegativeInteger_bytes 0x80000000"] length_nonNegativeInteger_le [of "0x80000000"]
    by (intro fits_small) (simp add: order.strict_trans1)
  then obtain w where w: "Block_of_bytes (tlv_wire tlv_Selectors ?v @ []) = Inr w" "block_tlv w = (tlv_Selectors, ?v)"
    using Block_of_bytes_tlv_wire by blast
  from Selectors_limit_bounds [OF Block_of_bytes_fresh [OF w(1)] w(2), of Selectors_default] w(1) show ?thesis by auto
qed

end
