(* ===== verification/Data.thy ===== *)
theory Data
  imports Selectors
begin

text \<open>
  Data packets, \<^verbatim>\<open>ndn-cxx/src/meta-info.cpp\<close>, \<^verbatim>\<open>signature-info.cpp\<close>, \<^verbatim>\<open>signature.cpp\<close> and \<^verbatim>\<open>data.cpp\<close>.
  The SHA-256 digest that \<^verbatim>\<open>getFullName()\<close> appends is a parameter; durations are the numbers
  \<^verbatim>\<open>count()\<close> of the 64-bit \<^verbatim>\<open>time::milliseconds\<close>. The lemmas show which packets survive encoding and
  decoding, and what decoding into an object that is not new leaves behind.
\<close>

section \<open>Decoding steps\<close>

text \<open>\<^verbatim>\<open>wire.get(type)\<close>, which throws if there is no such element, then a step on it.\<close>

definition decode_required :: "block \<Rightarrow> u32 \<Rightarrow> (block \<Rightarrow> 'a \<Rightarrow> error option \<times> 'a) \<Rightarrow> 'a \<Rightarrow> error option \<times> 'a" where
  "decode_required w type f x = (case Block_get w type of Inl e \<Rightarrow> (Some e, x) | Inr b \<Rightarrow> f b x)"

text \<open>\<^verbatim>\<open>wire.find(type)\<close> and, if it is there, a step on the element; otherwise \<open>absent\<close>.\<close>

definition decode_optional ::
    "block \<Rightarrow> u32 \<Rightarrow> (block \<Rightarrow> 'a \<Rightarrow> error option \<times> 'a) \<Rightarrow> ('a \<Rightarrow> 'a) \<Rightarrow> 'a \<Rightarrow> error option \<times> 'a" where
  "decode_optional w type f absent x =
     (case find_element w type of None \<Rightarrow> (None, absent x) | Some b \<Rightarrow> f b x)"

lemma Block_get_find: "Block_get w type = (case find_element w type of
    None \<Rightarrow> Inl (BlockError ''(Block::get) Requested a non-existed type from Block'') | Some b \<Rightarrow> Inr b)"
  by (simp add: Block_get_def find_element_def Let_def)

text \<open>The conversions between \<^verbatim>\<open>uint64_t\<close> and the 64-bit count of a duration.\<close>

definition count_of_u64 :: "u64 \<Rightarrow> int" where
  "count_of_u64 n = sint n"

definition milliseconds_min :: int where
  "milliseconds_min = - (2 ^ 63)"

text \<open>The blocks of a list, prepended from the last to the first.\<close>

fun prepend_blocks :: "'s encoding_ops \<Rightarrow> block list \<Rightarrow> nat \<Rightarrow> ('s, nat) state" where
  "prepend_blocks ops [] totalLength = State_Monad.return totalLength"
| "prepend_blocks ops (i # is) totalLength = do {
     k \<leftarrow> op_prependBlock ops i;
     prepend_blocks ops is (totalLength + k)
   }"

section \<open>MetaInfo\<close>

definition ContentType_Blob :: u32 where "ContentType_Blob = 0"
definition ContentType_Link :: u32 where "ContentType_Link = 1"

record meta_info =
  mi_type :: u32
  mi_freshnessPeriod :: int
  mi_finalBlockId :: block
  mi_appMetaInfo :: "block list"
  mi_wire :: block

definition MetaInfo_default :: meta_info where
  "MetaInfo_default = \<lparr>mi_type = ContentType_Blob, mi_freshnessPeriod = - 1, mi_finalBlockId = Component_default,
     mi_appMetaInfo = [], mi_wire = Block_default\<rparr>"

definition MetaInfo_setType :: "meta_info \<Rightarrow> u32 \<Rightarrow> meta_info" where
  "MetaInfo_setType m type = m\<lparr>mi_wire := Block_reset (mi_wire m), mi_type := type\<rparr>"

definition MetaInfo_setFreshnessPeriod :: "meta_info \<Rightarrow> int \<Rightarrow> meta_info" where
  "MetaInfo_setFreshnessPeriod m freshnessPeriod = m\<lparr>mi_wire := Block_reset (mi_wire m), mi_freshnessPeriod := freshnessPeriod\<rparr>"

definition MetaInfo_setFinalBlockId :: "meta_info \<Rightarrow> block \<Rightarrow> meta_info" where
  "MetaInfo_setFinalBlockId m finalBlockId = m\<lparr>mi_wire := Block_reset (mi_wire m), mi_finalBlockId := finalBlockId\<rparr>"

definition app_range :: "block \<Rightarrow> bool" where
  "app_range b \<longleftrightarrow> 128 \<le> m_type b \<and> m_type b \<le> 252"

definition app_range_error :: error where
  "app_range_error = MetaInfoError ''AppMetaInfo block has type outside the application range [128, 252]''"

definition MetaInfo_setAppMetaInfo :: "meta_info \<Rightarrow> block list \<Rightarrow> meta_info res" where
  "MetaInfo_setAppMetaInfo m info =
     (if \<not> list_all app_range info then Inl app_range_error
      else Inr (m\<lparr>mi_wire := Block_reset (mi_wire m), mi_appMetaInfo := info\<rparr>))"

definition MetaInfo_addAppMetaInfo :: "meta_info \<Rightarrow> block \<Rightarrow> meta_info res" where
  "MetaInfo_addAppMetaInfo m block =
     (if \<not> app_range block then Inl app_range_error
      else Inr (m\<lparr>mi_wire := Block_reset (mi_wire m), mi_appMetaInfo := mi_appMetaInfo m @ [block]\<rparr>))"

definition MetaInfo_removeAppMetaInfo :: "meta_info \<Rightarrow> u32 \<Rightarrow> bool \<times> meta_info" where
  "MetaInfo_removeAppMetaInfo m tlvType =
     (let i = find_index (\<lambda>b. m_type b = tlvType) (mi_appMetaInfo m)
      in if i = length (mi_appMetaInfo m) then (False, m)
         else (True, m\<lparr>mi_wire := Block_reset (mi_wire m),
                 mi_appMetaInfo := take i (mi_appMetaInfo m) @ drop (Suc i) (mi_appMetaInfo m)\<rparr>))"

definition MetaInfo_findAppMetaInfo :: "meta_info \<Rightarrow> u32 \<Rightarrow> block option" where
  "MetaInfo_findAppMetaInfo m tlvType = List.find (\<lambda>b. m_type b = tlvType) (mi_appMetaInfo m)"

definition prependNestedBlock_component :: "'s encoding_ops \<Rightarrow> u32 \<Rightarrow> block \<Rightarrow> ('s, nat) state" where
  "prependNestedBlock_component ops type value = do {
     valueLength \<leftarrow> Component_wireEncode_template ops value;
     n \<leftarrow> op_prependVarNumber ops (word_of_nat valueLength);
     k \<leftarrow> op_prependVarNumber ops (ucast type);
     State_Monad.return (valueLength + n + k)
   }"

definition MetaInfo_wireEncode_template :: "'s encoding_ops \<Rightarrow> meta_info \<Rightarrow> ('s, nat) state" where
  "MetaInfo_wireEncode_template ops m = do {
     n1 \<leftarrow> prepend_blocks ops (rev (mi_appMetaInfo m)) 0;
     n2 \<leftarrow> when_present (Block_value_size (mi_finalBlockId m) \<noteq> 0)
            (prependNestedBlock_component ops tlv_FinalBlockId (mi_finalBlockId m));
     n3 \<leftarrow> when_present (mi_freshnessPeriod m \<ge> 0)
            (prependNonNegativeIntegerBlock ops tlv_FreshnessPeriod (word_of_int (mi_freshnessPeriod m)));
     n4 \<leftarrow> when_present (mi_type m \<noteq> ContentType_Blob)
            (prependNonNegativeIntegerBlock ops tlv_ContentType (ucast (mi_type m)));
     k \<leftarrow> op_prependVarNumber ops (word_of_nat (n1 + n2 + n3 + n4));
     j \<leftarrow> op_prependVarNumber ops (ucast tlv_MetaInfo);
     State_Monad.return (n1 + n2 + n3 + n4 + k + j)
   }"

definition MetaInfo_wireEncode :: "meta_info \<Rightarrow> (block \<times> meta_info) res" where
  "MetaInfo_wireEncode m =
     (if Block_hasWire (mi_wire m) then Inr (mi_wire m, m)
      else case estimate_and_encode (MetaInfo_wireEncode_template estimator_ops m) (MetaInfo_wireEncode_template encoder_ops m) of
        Inl e \<Rightarrow> Inl e | Inr b \<Rightarrow> Inr (b, m\<lparr>mi_wire := b\<rparr>))"

text \<open>
  The decoder walks the elements with one iterator: a step yields the exception, if any, the elements
  the iterator has left and the object.
\<close>

type_synonym 'a walk = "error option \<times> block list \<times> 'a"

definition then_walk :: "'a walk \<Rightarrow> (block list \<Rightarrow> 'a \<Rightarrow> 'a walk) \<Rightarrow> 'a walk" where
  "then_walk d f = (case d of (None, val, x) \<Rightarrow> f val x | (Some e, val, x) \<Rightarrow> (Some e, val, x))"

definition walk_number :: "u32 \<Rightarrow> (u64 \<Rightarrow> 'a \<Rightarrow> 'a) \<Rightarrow> ('a \<Rightarrow> 'a) \<Rightarrow> block list \<Rightarrow> 'a \<Rightarrow> 'a walk" where
  "walk_number type store absent val x =
     (case val of
        [] \<Rightarrow> (None, val, absent x)
      | b # rest \<Rightarrow>
          if m_type b = type then
            (case readNonNegativeInteger_block b of Inl e \<Rightarrow> (Some e, val, x) | Inr n \<Rightarrow> (None, rest, store n x))
          else (None, val, absent x))"

text \<open>
  \<^verbatim>\<open>m_finalBlockId = val->blockFromValue()\<close> converts through the constructor of \<^verbatim>\<open>name::Component\<close>,
  which throws unless the block is a name component or an implicit digest.
\<close>

definition MetaInfo_decode_finalBlockId :: "block list \<Rightarrow> meta_info \<Rightarrow> meta_info walk" where
  "MetaInfo_decode_finalBlockId val m =
     (case val of
        [] \<Rightarrow> (None, val, m\<lparr>mi_finalBlockId := Component_default\<rparr>)
      | b # rest \<Rightarrow>
          if m_type b = tlv_FinalBlockId then
            (case Block_blockFromValue b of
               Inl e \<Rightarrow> (Some e, val, m)
             | Inr v \<Rightarrow>
                 (case Component_of_block v of
                    Inl e \<Rightarrow> (Some e, val, m)
                  | Inr c \<Rightarrow> (None, rest,
                      m\<lparr>mi_finalBlockId := (if m_type c \<noteq> tlv_NameComponent then Component_default else c)\<rparr>)))
          else (None, val, m\<lparr>mi_finalBlockId := Component_default\<rparr>))"

definition MetaInfo_wireDecode :: "meta_info \<Rightarrow> block \<Rightarrow> error option \<times> meta_info" where
  "MetaInfo_wireDecode m wire =
     (case Block_parse wire of
        (Some e, w) \<Rightarrow> (Some e, m\<lparr>mi_wire := w\<rparr>)
      | (None, w) \<Rightarrow>
          (case then_walk (then_walk
                  (walk_number tlv_ContentType (\<lambda>n m. m\<lparr>mi_type := ucast n\<rparr>) (\<lambda>m. m\<lparr>mi_type := ContentType_Blob\<rparr>)
                     (m_subBlocks w) (m\<lparr>mi_wire := w\<rparr>))
                  (walk_number tlv_FreshnessPeriod (\<lambda>n m. m\<lparr>mi_freshnessPeriod := count_of_u64 n\<rparr>)
                     (\<lambda>m. m\<lparr>mi_freshnessPeriod := milliseconds_min\<rparr>)))
                  MetaInfo_decode_finalBlockId of
             (Some e, _, m) \<Rightarrow> (Some e, m)
           | (None, val, m) \<Rightarrow> (None, m\<lparr>mi_appMetaInfo := mi_appMetaInfo m @ val\<rparr>)))"

definition MetaInfo_equals :: "meta_info \<Rightarrow> meta_info \<Rightarrow> bool res" where
  "MetaInfo_equals m other =
     (case MetaInfo_wireEncode m of
        Inl e \<Rightarrow> Inl e
      | Inr (w, _) \<Rightarrow> (case MetaInfo_wireEncode other of Inl e \<Rightarrow> Inl e | Inr (w', _) \<Rightarrow> Block_equals w w'))"

section \<open>SignatureInfo and Signature\<close>

record signature_info =
  si_type :: int
  si_hasKeyLocator :: bool
  si_keyLocator :: key_locator
  si_otherTlvs :: "block list"
  si_wire :: block

definition SignatureInfo_default :: signature_info where
  "SignatureInfo_default = \<lparr>si_type = - 1, si_hasKeyLocator = False, si_keyLocator = KeyLocator_default,
     si_otherTlvs = [], si_wire = Block_default\<rparr>"

definition SignatureInfo_of_type :: "int \<Rightarrow> signature_info" where
  "SignatureInfo_of_type type = SignatureInfo_default\<lparr>si_type := type\<rparr>"

definition SignatureInfo_of_keyLocator :: "int \<Rightarrow> key_locator \<Rightarrow> signature_info" where
  "SignatureInfo_of_keyLocator type keyLocator =
     SignatureInfo_default\<lparr>si_type := type, si_hasKeyLocator := True, si_keyLocator := keyLocator\<rparr>"

definition SignatureInfo_setSignatureType :: "signature_info \<Rightarrow> int \<Rightarrow> signature_info" where
  "SignatureInfo_setSignatureType s type = s\<lparr>si_wire := Block_reset (si_wire s), si_type := type\<rparr>"

definition SignatureInfo_setKeyLocator :: "signature_info \<Rightarrow> key_locator \<Rightarrow> signature_info" where
  "SignatureInfo_setKeyLocator s keyLocator =
     s\<lparr>si_wire := Block_reset (si_wire s), si_keyLocator := keyLocator, si_hasKeyLocator := True\<rparr>"

definition SignatureInfo_unsetKeyLocator :: "signature_info \<Rightarrow> signature_info" where
  "SignatureInfo_unsetKeyLocator s =
     s\<lparr>si_wire := Block_reset (si_wire s), si_keyLocator := KeyLocator_default, si_hasKeyLocator := False\<rparr>"

definition SignatureInfo_getKeyLocator :: "signature_info \<Rightarrow> key_locator res" where
  "SignatureInfo_getKeyLocator s =
     (if si_hasKeyLocator s then Inr (si_keyLocator s) else Inl (TlvError ''KeyLocator does not exist''))"

definition starts_with_ValidityPeriod :: "block list \<Rightarrow> bool" where
  "starts_with_ValidityPeriod bs \<longleftrightarrow> bs \<noteq> [] \<and> m_type (hd bs) = tlv_ValidityPeriod"

definition SignatureInfo_unsetValidityPeriod :: "signature_info \<Rightarrow> signature_info" where
  "SignatureInfo_unsetValidityPeriod s =
     s\<lparr>si_wire := Block_reset (si_wire s),
       si_otherTlvs := (if starts_with_ValidityPeriod (si_otherTlvs s) then tl (si_otherTlvs s) else si_otherTlvs s)\<rparr>"

text \<open>The validity period comes as its wire, \<^verbatim>\<open>validityPeriod.wireEncode()\<close>.\<close>

definition SignatureInfo_setValidityPeriod :: "signature_info \<Rightarrow> block \<Rightarrow> signature_info" where
  "SignatureInfo_setValidityPeriod s validityPeriod =
     (let s1 = SignatureInfo_unsetValidityPeriod s in s1\<lparr>si_otherTlvs := validityPeriod # si_otherTlvs s1\<rparr>)"

definition SignatureInfo_getValidityPeriod :: "signature_info \<Rightarrow> block res" where
  "SignatureInfo_getValidityPeriod s =
     (if \<not> starts_with_ValidityPeriod (si_otherTlvs s)
      then Inl (TlvError ''SignatureInfo does not contain the requested ValidityPeriod field'')
      else Inr (hd (si_otherTlvs s)))"

definition SignatureInfo_appendTypeSpecificTlv :: "signature_info \<Rightarrow> block \<Rightarrow> signature_info" where
  "SignatureInfo_appendTypeSpecificTlv s block =
     s\<lparr>si_wire := Block_reset (si_wire s), si_otherTlvs := si_otherTlvs s @ [block]\<rparr>"

definition SignatureInfo_getTypeSpecificTlv :: "signature_info \<Rightarrow> u32 \<Rightarrow> block res" where
  "SignatureInfo_getTypeSpecificTlv s type =
     (case List.find (\<lambda>i. m_type i = type) (si_otherTlvs s) of
        None \<Rightarrow> Inl (TlvError ''(SignatureInfo::getTypeSpecificTlv) Requested a non-existed type'')
      | Some i \<Rightarrow> Inr i)"

definition SignatureInfo_wireEncode_template :: "'s encoding_ops \<Rightarrow> signature_info \<Rightarrow> ('s, nat) state res" where
  "SignatureInfo_wireEncode_template ops s =
     (case (if si_hasKeyLocator s then KeyLocator_wireEncode_template ops (si_keyLocator s) else Inr (State_Monad.return 0)) of
        Inl e \<Rightarrow> Inl e
      | Inr keyLocator \<Rightarrow> Inr (do {
          n1 \<leftarrow> prepend_blocks ops (rev (si_otherTlvs s)) 0;
          n2 \<leftarrow> keyLocator;
          n3 \<leftarrow> prependNonNegativeIntegerBlock ops tlv_SignatureType (u64_of_int (si_type s));
          k \<leftarrow> op_prependVarNumber ops (word_of_nat (n1 + n2 + n3));
          j \<leftarrow> op_prependVarNumber ops (ucast tlv_SignatureInfo);
          State_Monad.return (n1 + n2 + n3 + k + j)
        }))"

definition SignatureInfo_wireEncode :: "signature_info \<Rightarrow> (block \<times> signature_info) res" where
  "SignatureInfo_wireEncode s =
     (if Block_hasWire (si_wire s) then Inr (si_wire s, s)
      else case try_encode (SignatureInfo_wireEncode_template estimator_ops s) (SignatureInfo_wireEncode_template encoder_ops s) of
        Inl e \<Rightarrow> Inl e | Inr b \<Rightarrow> Inr (b, s\<lparr>si_wire := b\<rparr>))"

definition SignatureInfo_decode_type :: "block list \<Rightarrow> signature_info \<Rightarrow> signature_info walk" where
  "SignatureInfo_decode_type it s =
     (case it of
        [] \<Rightarrow> (Some (TlvError ''SignatureInfo does not have sub-TLV or the first sub-TLV is not SignatureType''), it, s)
      | b # rest \<Rightarrow>
          if m_type b = tlv_SignatureType then
            (case readNonNegativeInteger_block b of
               Inl e \<Rightarrow> (Some e, it, s) | Inr n \<Rightarrow> (None, rest, s\<lparr>si_type := int_of_u64 n\<rparr>))
          else (Some (TlvError ''SignatureInfo does not have sub-TLV or the first sub-TLV is not SignatureType''), it, s))"

definition SignatureInfo_decode_keyLocator :: "block list \<Rightarrow> signature_info \<Rightarrow> signature_info walk" where
  "SignatureInfo_decode_keyLocator it s =
     (case it of
        [] \<Rightarrow> (None, it, s)
      | b # rest \<Rightarrow>
          if m_type b = tlv_KeyLocator then
            (case KeyLocator_wireDecode (si_keyLocator s) b of
               (Some e, kl) \<Rightarrow> (Some e, it, s\<lparr>si_keyLocator := kl\<rparr>)
             | (None, kl) \<Rightarrow> (None, rest, s\<lparr>si_keyLocator := kl, si_hasKeyLocator := True\<rparr>))
          else (None, it, s))"

definition SignatureInfo_wireDecode :: "signature_info \<Rightarrow> block \<Rightarrow> error option \<times> signature_info" where
  "SignatureInfo_wireDecode s wire =
     (if \<not> Block_hasWire wire then (Some (TlvError ''The supplied block does not contain wire format''), s)
      else case Block_parse wire of
        (Some e, w) \<Rightarrow> (Some e, s\<lparr>si_hasKeyLocator := False, si_wire := w\<rparr>)
      | (None, w) \<Rightarrow>
          (let s1 = s\<lparr>si_hasKeyLocator := False, si_wire := w\<rparr>
           in if m_type w \<noteq> tlv_SignatureInfo then (Some (TlvError ''Unexpected TLV type when decoding Name''), s1)
              else case then_walk (SignatureInfo_decode_type (m_subBlocks w) s1) SignatureInfo_decode_keyLocator of
                (Some e, _, s2) \<Rightarrow> (Some e, s2)
              | (None, it, s2) \<Rightarrow> (None, s2\<lparr>si_otherTlvs := si_otherTlvs s2 @ it\<rparr>)))"

record signature =
  sig_info :: signature_info
  sig_value :: block

definition Signature_default :: signature where
  "Signature_default = \<lparr>sig_info = SignatureInfo_default, sig_value = Block_default\<rparr>"

definition Signature_bool :: "signature \<Rightarrow> bool" where
  "Signature_bool s \<longleftrightarrow> si_type (sig_info s) \<noteq> - 1"

definition Signature_getInfo :: "signature \<Rightarrow> block res" where
  "Signature_getInfo s = (case SignatureInfo_wireEncode (sig_info s) of Inl e \<Rightarrow> Inl e | Inr (b, _) \<Rightarrow> Inr b)"

definition Signature_setInfo :: "signature \<Rightarrow> block \<Rightarrow> signature res" where
  "Signature_setInfo s info =
     (case SignatureInfo_wireDecode SignatureInfo_default info of
        (Some e, _) \<Rightarrow> Inl e | (None, i) \<Rightarrow> Inr (s\<lparr>sig_info := i\<rparr>))"

definition Signature_getValue :: "signature \<Rightarrow> block res" where
  "Signature_getValue s = Block_encode (sig_value s)"

definition Signature_setValue :: "signature \<Rightarrow> block \<Rightarrow> signature res" where
  "Signature_setValue s value =
     (if m_type value \<noteq> tlv_SignatureValue then Inl (TlvError ''The supplied block is not SignatureValue'')
      else Inr (s\<lparr>sig_value := value\<rparr>))"

definition Signature_setKeyLocator :: "signature \<Rightarrow> key_locator \<Rightarrow> signature" where
  "Signature_setKeyLocator s keyLocator = s\<lparr>sig_info := SignatureInfo_setKeyLocator (sig_info s) keyLocator\<rparr>"

definition Signature_unsetKeyLocator :: "signature \<Rightarrow> signature" where
  "Signature_unsetKeyLocator s = s\<lparr>sig_info := SignatureInfo_unsetKeyLocator (sig_info s)\<rparr>"

text \<open>\<open>a && b\<close> on comparisons that may throw.\<close>

definition and_then :: "bool res \<Rightarrow> bool res \<Rightarrow> bool res" where
  "and_then a b = (case a of Inl e \<Rightarrow> Inl e | Inr False \<Rightarrow> Inr False | Inr True \<Rightarrow> b)"

definition res2 :: "('a \<Rightarrow> 'b \<Rightarrow> 'c res) \<Rightarrow> 'a res \<Rightarrow> 'b res \<Rightarrow> 'c res" where
  "res2 f a b = (case a of Inl e \<Rightarrow> Inl e | Inr x \<Rightarrow> (case b of Inl e \<Rightarrow> Inl e | Inr y \<Rightarrow> f x y))"

definition Signature_equals :: "signature \<Rightarrow> signature \<Rightarrow> bool res" where
  "Signature_equals s other =
     and_then (res2 Block_equals (Signature_getInfo s) (Signature_getInfo other))
       (res2 Block_equals (Signature_getValue s) (Signature_getValue other))"

section \<open>Data\<close>

record data =
  d_name :: name
  d_metaInfo :: meta_info
  d_content :: block
  d_signature :: signature
  d_wire :: block
  d_fullName :: name

definition Data_default :: data where
  "Data_default = \<lparr>d_name = Name_default, d_metaInfo = MetaInfo_default, d_content = Block_of_type tlv_Content,
     d_signature = Signature_default, d_wire = Block_default, d_fullName = Name_default\<rparr>"

definition Data_of_name :: "name \<Rightarrow> data" where
  "Data_of_name n = Data_default\<lparr>d_name := n, d_content := Block_default\<rparr>"

definition Data_onChanged :: "data \<Rightarrow> data" where
  "Data_onChanged d = d\<lparr>d_wire := Block_reset (d_wire d), d_fullName := Name_clear (d_fullName d)\<rparr>"

definition Data_setName :: "data \<Rightarrow> name \<Rightarrow> data" where
  "Data_setName d n = (Data_onChanged d)\<lparr>d_name := n\<rparr>"

definition Data_setMetaInfo :: "data \<Rightarrow> meta_info \<Rightarrow> data" where
  "Data_setMetaInfo d m = (Data_onChanged d)\<lparr>d_metaInfo := m\<rparr>"

definition Data_setContentType :: "data \<Rightarrow> u32 \<Rightarrow> data" where
  "Data_setContentType d type = (Data_onChanged d)\<lparr>d_metaInfo := MetaInfo_setType (d_metaInfo d) type\<rparr>"

definition Data_setFreshnessPeriod :: "data \<Rightarrow> int \<Rightarrow> data" where
  "Data_setFreshnessPeriod d p = (Data_onChanged d)\<lparr>d_metaInfo := MetaInfo_setFreshnessPeriod (d_metaInfo d) p\<rparr>"

definition Data_setFinalBlockId :: "data \<Rightarrow> block \<Rightarrow> data" where
  "Data_setFinalBlockId d c = (Data_onChanged d)\<lparr>d_metaInfo := MetaInfo_setFinalBlockId (d_metaInfo d) c\<rparr>"

definition Data_getContent :: "data \<Rightarrow> (block \<times> data) res" where
  "Data_getContent d =
     (case (if Block_empty (d_content d) then makeEmptyBlock tlv_Content else Inr (d_content d)) of
        Inl e \<Rightarrow> Inl e
      | Inr c \<Rightarrow>
          (case (if Block_hasWire c then Inr c else Block_encode c) of
             Inl e \<Rightarrow> Inl e | Inr c' \<Rightarrow> Inr (c', d\<lparr>d_content := c'\<rparr>)))"

definition Data_setContent_bytes :: "data \<Rightarrow> byte list \<Rightarrow> data res" where
  "Data_setContent_bytes d content =
     (case makeBinaryBlock tlv_Content content of Inl e \<Rightarrow> Inl e | Inr b \<Rightarrow> Inr ((Data_onChanged d)\<lparr>d_content := b\<rparr>))"

definition Data_setContent_buffer :: "data \<Rightarrow> byte list \<Rightarrow> data" where
  "Data_setContent_buffer d contentValue = (Data_onChanged d)\<lparr>d_content := Block_of_type_value tlv_Content contentValue\<rparr>"

definition Data_setContent :: "data \<Rightarrow> block \<Rightarrow> data res" where
  "Data_setContent d content =
     (if m_type content = tlv_Content then Inr ((Data_onChanged d)\<lparr>d_content := content\<rparr>)
      else case Block_of_type_block tlv_Content content of
        Inl e \<Rightarrow> Inl e | Inr b \<Rightarrow> Inr ((Data_onChanged d)\<lparr>d_content := b\<rparr>))"

definition Data_setSignature :: "data \<Rightarrow> signature \<Rightarrow> data" where
  "Data_setSignature d s = (Data_onChanged d)\<lparr>d_signature := s\<rparr>"

definition Data_setSignatureValue :: "data \<Rightarrow> block \<Rightarrow> data res" where
  "Data_setSignatureValue d value =
     (case Signature_setValue (d_signature d) value of
        Inl e \<Rightarrow> Inl e | Inr s \<Rightarrow> Inr ((Data_onChanged d)\<lparr>d_signature := s\<rparr>))"

text \<open>The blocks the template prepends are made first; making one may throw.\<close>

definition Data_wireEncode_template :: "'s encoding_ops \<Rightarrow> data \<Rightarrow> bool \<Rightarrow> ('s, nat) state res" where
  "Data_wireEncode_template ops d unsignedPortion =
     (if \<not> unsignedPortion \<and> \<not> Signature_bool (d_signature d)
      then Inl (DataError ''Requested wire format, but data packet has not been signed yet'')
      else case (if unsignedPortion then Inr (State_Monad.return 0)
                 else case Signature_getValue (d_signature d) of Inl e \<Rightarrow> Inl e | Inr v \<Rightarrow> Inr (op_prependBlock ops v)) of
        Inl e \<Rightarrow> Inl e
      | Inr sigValue \<Rightarrow> res2 (\<lambda>info content. Inr (do {
          n1 \<leftarrow> sigValue;
          n2 \<leftarrow> op_prependBlock ops info;
          n3 \<leftarrow> op_prependBlock ops (fst content);
          n4 \<leftarrow> MetaInfo_wireEncode_template ops (d_metaInfo d);
          n5 \<leftarrow> Name_wireEncode_template ops (d_name d);
          let n = n1 + n2 + n3 + n4 + n5;
          if unsignedPortion then State_Monad.return n
          else do {
            k \<leftarrow> op_prependVarNumber ops (word_of_nat n);
            j \<leftarrow> op_prependVarNumber ops (ucast tlv_Data);
            State_Monad.return (n + k + j)
          }
        })) (Signature_getInfo (d_signature d)) (Data_getContent d))"

definition Data_decode_name :: "block \<Rightarrow> data \<Rightarrow> error option \<times> data" where
  "Data_decode_name b d = (case Name_wireDecode (d_name d) b of (err, n) \<Rightarrow> (err, d\<lparr>d_name := n\<rparr>))"

definition Data_decode_metaInfo :: "block \<Rightarrow> data \<Rightarrow> error option \<times> data" where
  "Data_decode_metaInfo b d = (case MetaInfo_wireDecode (d_metaInfo d) b of (err, m) \<Rightarrow> (err, d\<lparr>d_metaInfo := m\<rparr>))"

definition Data_decode_info :: "block \<Rightarrow> data \<Rightarrow> error option \<times> data" where
  "Data_decode_info b d =
     (case Signature_setInfo (d_signature d) b of Inl e \<Rightarrow> (Some e, d) | Inr s \<Rightarrow> (None, d\<lparr>d_signature := s\<rparr>))"

definition Data_decode_value :: "block \<Rightarrow> data \<Rightarrow> error option \<times> data" where
  "Data_decode_value b d =
     (case Signature_setValue (d_signature d) b of Inl e \<Rightarrow> (Some e, d) | Inr s \<Rightarrow> (None, d\<lparr>d_signature := s\<rparr>))"

definition Data_wireDecode :: "data \<Rightarrow> block \<Rightarrow> error option \<times> data" where
  "Data_wireDecode d wire =
     (case Block_parse wire of
        (Some e, w) \<Rightarrow> (Some e, d\<lparr>d_fullName := Name_clear (d_fullName d), d_wire := w\<rparr>)
      | (None, w) \<Rightarrow>
          then_decode (then_decode (then_decode (then_decode
            (decode_required w tlv_Name Data_decode_name (d\<lparr>d_fullName := Name_clear (d_fullName d), d_wire := w\<rparr>))
            (decode_required w tlv_MetaInfo Data_decode_metaInfo))
            (decode_required w tlv_Content (\<lambda>b d. (None, d\<lparr>d_content := b\<rparr>))))
            (decode_required w tlv_SignatureInfo Data_decode_info))
            (decode_optional w tlv_SignatureValue Data_decode_value id))"

definition Data_of_block :: "block \<Rightarrow> data res" where
  "Data_of_block wire = (case Data_wireDecode (Data_default\<lparr>d_content := Block_default\<rparr>) wire of (Some e, _) \<Rightarrow> Inl e | (None, d) \<Rightarrow> Inr d)"

definition Data_wireEncode :: "data \<Rightarrow> (block \<times> data) res" where
  "Data_wireEncode d =
     (if Block_hasWire (d_wire d) then Inr (d_wire d, d)
      else case try_encode (Data_wireEncode_template estimator_ops d False) (Data_wireEncode_template encoder_ops d False) of
        Inl e \<Rightarrow> Inl e
      | Inr b \<Rightarrow> (case Data_wireDecode d b of (Some e, _) \<Rightarrow> Inl e | (None, d') \<Rightarrow> Inr (d_wire d', d')))"

text \<open>The last step of signing: the encoder holds the unsigned portion.\<close>

definition Data_wireEncode_signed :: "encoder \<Rightarrow> data \<Rightarrow> block \<Rightarrow> (block \<times> data) res" where
  "Data_wireEncode_signed e d signatureValue =
     (let s = snd (run_state (do {
            n \<leftarrow> Encoder_appendBlock signatureValue;
            _ \<leftarrow> Encoder_prependVarNumber (word_of_nat (enc_end e - enc_begin e + n));
            Encoder_prependVarNumber (ucast tlv_Data)
          }) e)
      in case Encoder_block s True of
           Inl er \<Rightarrow> Inl er
         | Inr b \<Rightarrow> (case Data_wireDecode d b of (Some er, _) \<Rightarrow> Inl er | (None, d') \<Rightarrow> Inr (d_wire d', d')))"

definition Data_getFullName :: "(byte list \<Rightarrow> byte list) \<Rightarrow> data \<Rightarrow> (name \<times> data) res" where
  "Data_getFullName sha256 d =
     (if \<not> Name_empty (d_fullName d) then Inr (d_fullName d, d)
      else if \<not> Block_hasWire (d_wire d)
      then Inl (DataError ''Full name requested, but Data packet does not have wire format (e.g., not signed)'')
      else case Name_appendImplicitSha256Digest (d_name d) (sha256 (wire_bytes (d_wire d))) of
        Inl e \<Rightarrow> Inl e | Inr n \<Rightarrow> Inr (n, d\<lparr>d_fullName := n\<rparr>))"

definition Data_equals :: "data \<Rightarrow> data \<Rightarrow> bool res" where
  "Data_equals d other =
     and_then (Inr (Name_equals (d_name d) (d_name other)))
      (and_then (MetaInfo_equals (d_metaInfo d) (d_metaInfo other))
        (and_then (res2 (\<lambda>a b. Block_equals (fst a) (fst b)) (Data_getContent d) (Data_getContent other))
          (Signature_equals (d_signature d) (d_signature other))))"

section \<open>Encoding\<close>

text \<open>A block that \<^verbatim>\<open>prependBlock\<close> writes as the shortest encoding of its TLV.\<close>

definition blk_ok :: "block \<Rightarrow> bool" where
  "blk_ok b \<longleftrightarrow> block_wf b \<and> (Block_hasWire b \<longrightarrow> wire_bytes b = tlv_wire (m_type b) (value_bytes b)) \<and> fits (value_bytes b)"

definition mi_tlvs :: "meta_info \<Rightarrow> (u32 \<times> byte list) list" where
  "mi_tlvs m =
     opt_tlv (mi_type m \<noteq> ContentType_Blob) tlv_ContentType (nonNegativeInteger_bytes (ucast (mi_type m)))
   @ opt_tlv (mi_freshnessPeriod m \<ge> 0) tlv_FreshnessPeriod (nonNegativeInteger_bytes (word_of_int (mi_freshnessPeriod m)))
   @ opt_tlv (Block_value_size (mi_finalBlockId m) \<noteq> 0) tlv_FinalBlockId
       (tlv_wire (m_type (mi_finalBlockId m)) (value_bytes (mi_finalBlockId m)))
   @ map block_tlv (mi_appMetaInfo m)"

definition mi_ok :: "meta_info \<Rightarrow> bool" where
  "mi_ok m \<longleftrightarrow> mi_freshnessPeriod m < 2 ^ 63 \<and> component_block (mi_finalBlockId m) \<and> m_type (mi_finalBlockId m) = tlv_NameComponent
     \<and> (\<forall>b \<in> set (mi_appMetaInfo m). blk_ok b \<and> app_range b) \<and> fits (tlvs_wire (mi_tlvs m))"

definition si_tlvs :: "signature_info \<Rightarrow> (u32 \<times> byte list) list" where
  "si_tlvs s = (tlv_SignatureType, nonNegativeInteger_bytes (u64_of_int (si_type s)))
     # opt_tlv (si_hasKeyLocator s) tlv_KeyLocator (tlvs_wire (kl_tlvs (si_keyLocator s))) @ map block_tlv (si_otherTlvs s)"

definition si_ok :: "signature_info \<Rightarrow> bool" where
  "si_ok s \<longleftrightarrow> 0 \<le> si_type s \<and> si_type s < 2 ^ 31 \<and> kl_ok (si_keyLocator s) \<and> fits (tlvs_wire (kl_tlvs (si_keyLocator s)))
     \<and> (\<forall>b \<in> set (si_otherTlvs s). blk_ok b \<and> m_type b \<noteq> tlv_KeyLocator) \<and> fits (tlvs_wire (si_tlvs s))"

context encoding_impl
begin

lemma prepend_blocks_prepends:
  assumes "\<forall>b \<in> set bs. blk_ok b"
  shows "prepends R (prepend_blocks ops (rev bs) n) (tlvs_wire (map block_tlv bs)) (n + length (tlvs_wire (map block_tlv bs)))"
  using assms
proof (induction bs arbitrary: n rule: rev_induct)
  case Nil
  then show ?case by (simp add: prepends_return)
next
  case (snoc b bs)
  have b: "prepends R (op_prependBlock ops b) (tlv_wire (m_type b) (value_bytes b)) (length (tlv_wire (m_type b) (value_bytes b)))"
    using snoc.prems by (intro prependBlock_tlv) (auto simp: blk_ok_def)
  have "\<forall>b \<in> set bs. blk_ok b" using snoc.prems by simp
  from snoc.IH [OF this] show ?case unfolding rev_append rev.simps append.simps prepend_blocks.simps
    by (rule prepends_cong [OF prepends_bind [OF b]]) (simp_all add: block_tlv_def [of b])
qed

lemma MetaInfo_wireEncode_prepends:
  assumes "mi_ok m"
  shows "prepends R (MetaInfo_wireEncode_template ops m) (tlv_wire tlv_MetaInfo (tlvs_wire (mi_tlvs m)))
           (length (tlv_wire tlv_MetaInfo (tlvs_wire (mi_tlvs m))))"
proof -
  let ?c = "mi_finalBlockId m"
  have "block_wf ?c" using assms by (simp add: mi_ok_def component_block_def)
  then have c: "prepends R (prependNestedBlock_component ops tlv_FinalBlockId ?c)
      (tlv_wire tlv_FinalBlockId (tlv_wire (m_type ?c) (value_bytes ?c)))
      (length (tlv_wire tlv_FinalBlockId (tlv_wire (m_type ?c) (value_bytes ?c))))"
    unfolding prependNestedBlock_component_def by (intro prepend_header Component_wireEncode_prepends)
  have app: "\<forall>b \<in> set (mi_appMetaInfo m). blk_ok b" using assms by (simp add: mi_ok_def)
  show ?thesis unfolding MetaInfo_wireEncode_template_def
    by (rule prepends_cong, (rule prepends_bind prepend_blocks_prepends [OF app] when_present_prepends c
          prependNonNegativeIntegerBlock_prepends prependVarNumber prepends_return)+)
      (simp_all add: mi_tlvs_def tlv_wire_def size_simps ac_simps)
qed

lemma SignatureInfo_wireEncode_prepends:
  assumes "si_ok s"
  shows "\<exists>m. SignatureInfo_wireEncode_template ops s = Inr m \<and>
     prepends R m (tlv_wire tlv_SignatureInfo (tlvs_wire (si_tlvs s))) (length (tlv_wire tlv_SignatureInfo (tlvs_wire (si_tlvs s))))"
proof -
  let ?kl = "si_keyLocator s"
  let ?k = "opt_tlv (si_hasKeyLocator s) tlv_KeyLocator (tlvs_wire (kl_tlvs ?kl))"
  have kl: "kl_ok ?kl" and others: "\<forall>b \<in> set (si_otherTlvs s). blk_ok b" using assms by (simp_all add: si_ok_def)
  obtain m where m: "(if si_hasKeyLocator s then KeyLocator_wireEncode_template ops ?kl else Inr (State_Monad.return 0)) = Inr m"
    "prepends R m (tlvs_wire ?k) (length (tlvs_wire ?k))"
    using KeyLocator_wireEncode_prepends [OF kl] prepends_return [of R 0]
    by (cases "si_hasKeyLocator s") (auto simp: opt_tlv_def)
  show ?thesis unfolding SignatureInfo_wireEncode_template_def m(1) sum.case
    by (rule exI, rule conjI, rule refl, rule prepends_cong,
        (rule prepends_bind m(2) prepend_blocks_prepends [OF others] prependNonNegativeIntegerBlock_prepends
          prependVarNumber prepends_return)+)
      (simp_all add: si_tlvs_def tlv_wire_def size_simps ac_simps)
qed

end

section \<open>Decoding\<close>

lemma walk_number_opt:
  assumes "map block_tlv bs = opt_tlv c t (nonNegativeInteger_bytes n) @ es" and "\<forall>i \<in> set bs. fresh_block i"
    and "\<forall>(t', v) \<in> set es. t' \<noteq> t" and "(if c then store n x else absent x) = y"
  shows "\<exists>bs'. walk_number t store absent bs x = (None, bs', y) \<and> map block_tlv bs' = es \<and> set bs' \<subseteq> set bs"
proof (cases c)
  case True
  with assms obtain b bs' where b: "bs = b # bs'" "block_tlv b = (t, nonNegativeInteger_bytes n)" "map block_tlv bs' = es"
    by (auto simp: opt_tlv_def)
  then have "readNonNegativeInteger_block b = Inr n"
    using assms(2) readNonNegativeInteger_block_tlv [of b n] by (simp add: fresh_block_def block_tlv_def)
  with b True assms(4) show ?thesis by (auto simp: walk_number_def block_tlv_def)
next
  case False
  with assms(1) have es: "map block_tlv bs = es" by (simp add: opt_tlv_def)
  with assms(3) have "walk_number t store absent bs x = (None, bs, absent x)"
    by (cases bs) (auto simp: walk_number_def block_tlv_def)
  with es False assms(4) show ?thesis by simp
qed

lemma Block_blockFromValue_tlv:
  assumes "fresh_block b" and "value_bytes b = tlv_wire t v" and "fits v"
  shows "\<exists>c. Block_blockFromValue b = Inr c \<and> block_tlv c = (t, v)"
proof -
  obtain buf where buf: "m_buffer b = Some buf" "m_value_begin b \<le> m_value_end b" "m_value_end b \<le> length buf"
    using assms(1) by (auto simp: fresh_block_def block_wf_def)
  have s: "slice (m_value_begin b) (m_value_end b) buf = tlv_wire t v" using assms(2) buf(1) by (simp add: value_bytes_def)
  have len: "m_value_end b - m_value_begin b = length (tlv_wire t v)" using s buf by (metis length_slice)
  then have "length v \<le> m_value_end b - m_value_begin b" "Block_value_size b \<noteq> 0"
    using buf(1) by (auto simp: length_tlv_wire Block_value_size_def Block_hasValue_def sizeOfVarNumber_def)
  moreover have "slice (m_value_end b - length v) (m_value_end b) buf = drop (length (tlv_wire t v) - length v) (tlv_wire t v)"
  proof -
    have "m_value_begin b + (length (tlv_wire t v) - length v) = m_value_end b - length v"
      using buf len calculation(1) by linarith
    then show ?thesis unfolding s [symmetric] drop_slice by simp
  qed
  ultimately show ?thesis using assms(3) buf(1)
    by (simp add: Block_blockFromValue_def s wire_simps Block_of_parts_def block_tlv_def value_bytes_def)
      (simp add: tlv_wire_def)
qed

definition mi_same :: "meta_info \<Rightarrow> meta_info \<Rightarrow> bool" where
  "mi_same m m' \<longleftrightarrow> mi_type m' = mi_type m
     \<and> mi_freshnessPeriod m' = (if mi_freshnessPeriod m < 0 then milliseconds_min else mi_freshnessPeriod m)
     \<and> block_tlv (mi_finalBlockId m') = block_tlv (mi_finalBlockId m)"

lemma MetaInfo_decode_finalBlockId_opt:
  assumes "map block_tlv bs = opt_tlv (Block_value_size c \<noteq> 0) tlv_FinalBlockId (tlv_wire (m_type c) (value_bytes c)) @ es"
    and "\<forall>i \<in> set bs. fresh_block i" and "\<forall>(t', v) \<in> set es. t' \<noteq> tlv_FinalBlockId" and "component_block c" and "m_type c = tlv_NameComponent"
  shows "\<exists>bs' c'. MetaInfo_decode_finalBlockId bs m = (None, bs', m\<lparr>mi_finalBlockId := c'\<rparr>) \<and> map block_tlv bs' = es
     \<and> block_tlv c' = block_tlv c"
proof (cases "Block_value_size c = 0")
  case True
  then have "value_bytes c = []" using assms(4) wf_value_size [of c] by (simp add: component_block_def)
  moreover have "map block_tlv bs = es" using assms(1) True by (simp add: opt_tlv_def)
  ultimately show ?thesis using assms(3,5)
    by (cases bs) (auto simp: MetaInfo_decode_finalBlockId_def block_tlv_def Component_default_def Block_of_type_def value_bytes_def)
next
  case False
  with assms(1) obtain b bs' where b: "bs = b # bs'" "block_tlv b = (tlv_FinalBlockId, tlv_wire (m_type c) (value_bytes c))"
      "map block_tlv bs' = es"
    by (auto simp: opt_tlv_def)
  obtain v where v: "Block_blockFromValue b = Inr v" "block_tlv v = (m_type c, value_bytes c)"
    using Block_blockFromValue_tlv [of b "m_type c" "value_bytes c"] assms(2,4) b component_block_fits by (auto simp: block_tlv_def)
  moreover have "Component_of_block v = Inr v" using v(2) assms(5)
    by (simp add: Component_of_block_def Component_isGeneric_def block_tlv_def)
  ultimately show ?thesis using b assms(5) by (auto simp: MetaInfo_decode_finalBlockId_def block_tlv_def)
qed

lemma count_of_u64_of_int: "0 \<le> i \<Longrightarrow> i < 2 ^ 63 \<Longrightarrow> count_of_u64 (word_of_int i) = i"
  by (simp add: count_of_u64_def signed_of_int signed_take_bit_int_eq_self)

lemma MetaInfo_wireDecode_fresh:
  assumes "fresh_block w" and "value_bytes w = tlvs_wire (mi_tlvs m)" and "mi_ok m"
  shows "\<exists>m'. MetaInfo_wireDecode m0 w = (None, m') \<and> mi_same m m'
     \<and> map block_tlv (mi_appMetaInfo m') = map block_tlv (mi_appMetaInfo m0) @ map block_tlv (mi_appMetaInfo m)"
proof -
  let ?app = "map block_tlv (mi_appMetaInfo m)"
  let ?fb = "opt_tlv (Block_value_size (mi_finalBlockId m) \<noteq> 0) tlv_FinalBlockId
       (tlv_wire (m_type (mi_finalBlockId m)) (value_bytes (mi_finalBlockId m)))"
  let ?fr = "opt_tlv (mi_freshnessPeriod m \<ge> 0) tlv_FreshnessPeriod (nonNegativeInteger_bytes (word_of_int (mi_freshnessPeriod m)))"
  have app: "\<forall>(t, v) \<in> set ?app. 128 \<le> t" "\<forall>(t, v) \<in> set ?app. fits v"
    using assms(3) by (auto simp: mi_ok_def app_range_def blk_ok_def block_tlv_def)
  have c: "component_block (mi_finalBlockId m)" "m_type (mi_finalBlockId m) = tlv_NameComponent" using assms(3) by (simp_all add: mi_ok_def)
  have "fits (tlv_wire (m_type (mi_finalBlockId m)) (value_bytes (mi_finalBlockId m)))"
    using c(1) length_tlv_wire_le [of "m_type (mi_finalBlockId m)" "value_bytes (mi_finalBlockId m)"]
    by (simp add: component_block_def fits_def)
  then have "\<forall>(t, v) \<in> set (mi_tlvs m). fits v" using app(2) by (auto simp: mi_tlvs_def)
  from Block_parse_fresh [OF assms(1,2) this] obtain p where p: "Block_parse w = (None, p)"
    "map block_tlv (m_subBlocks p) = mi_tlvs m" "\<forall>i \<in> set (m_subBlocks p). fresh_block i" by blast
  define m1 where "m1 = m0\<lparr>mi_wire := p\<rparr>"
  have d1: "\<forall>(t', v) \<in> set (?fr @ ?fb @ ?app). t' \<noteq> tlv_ContentType" using app(1) by (auto simp: tlv_codes)
  have d2: "\<forall>(t', v) \<in> set (?fb @ ?app). t' \<noteq> tlv_FreshnessPeriod" using app(1) by (auto simp: tlv_codes)
  have d3: "\<forall>(t', v) \<in> set ?app. t' \<noteq> tlv_FinalBlockId" using app(1) by (auto simp: tlv_codes)
  obtain bs1 where bs1: "walk_number tlv_ContentType (\<lambda>n m. m\<lparr>mi_type := ucast n\<rparr>) (\<lambda>m. m\<lparr>mi_type := ContentType_Blob\<rparr>) (m_subBlocks p) m1
      = (None, bs1, m1\<lparr>mi_type := mi_type m\<rparr>)" "map block_tlv bs1 = ?fr @ ?fb @ ?app" "set bs1 \<subseteq> set (m_subBlocks p)"
    using walk_number_opt [OF p(2) [unfolded mi_tlvs_def] p(3) d1, where store = "\<lambda>n m. m\<lparr>mi_type := ucast n\<rparr>"
        and absent = "\<lambda>m. m\<lparr>mi_type := ContentType_Blob\<rparr>" and x = m1] by (fastforce simp: ucast_u64_u32)
  have f1: "\<forall>i \<in> set bs1. fresh_block i" using bs1(3) p(3) by blast
  define per where "per = (if mi_freshnessPeriod m < 0 then milliseconds_min else mi_freshnessPeriod m)"
  obtain bs2 where bs2: "walk_number tlv_FreshnessPeriod (\<lambda>n m. m\<lparr>mi_freshnessPeriod := count_of_u64 n\<rparr>)
        (\<lambda>m. m\<lparr>mi_freshnessPeriod := milliseconds_min\<rparr>) bs1 (m1\<lparr>mi_type := mi_type m\<rparr>)
      = (None, bs2, m1\<lparr>mi_type := mi_type m, mi_freshnessPeriod := per\<rparr>)" "map block_tlv bs2 = ?fb @ ?app" "set bs2 \<subseteq> set bs1"
    using walk_number_opt [OF bs1(2) f1 d2, where store = "\<lambda>n m. m\<lparr>mi_freshnessPeriod := count_of_u64 n\<rparr>"
        and absent = "\<lambda>m. m\<lparr>mi_freshnessPeriod := milliseconds_min\<rparr>" and x = "m1\<lparr>mi_type := mi_type m\<rparr>"]
      assms(3) by (fastforce simp: per_def count_of_u64_of_int mi_ok_def)
  have f2: "\<forall>i \<in> set bs2. fresh_block i" using bs2(3) f1 by blast
  obtain bs3 c' where bs3: "MetaInfo_decode_finalBlockId bs2 (m1\<lparr>mi_type := mi_type m, mi_freshnessPeriod := per\<rparr>)
      = (None, bs3, m1\<lparr>mi_type := mi_type m, mi_freshnessPeriod := per, mi_finalBlockId := c'\<rparr>)" "map block_tlv bs3 = ?app"
      "block_tlv c' = block_tlv (mi_finalBlockId m)"
    using MetaInfo_decode_finalBlockId_opt [OF bs2(2) f2 d3 c] by blast
  show ?thesis
    using p(1) bs1(1) bs2(1) bs3 by (simp add: MetaInfo_wireDecode_def then_walk_def m1_def mi_same_def per_def)
qed

lemma Block_parse_hasWire:
  assumes "fresh_block b" and "value_bytes b = tlvs_wire es" and "\<forall>(t, v) \<in> set es. fits v" and "Block_parse b = (None, b')"
  shows "\<forall>i \<in> set (m_subBlocks b'). Block_hasWire i"
proof
  obtain buf where buf: "m_buffer b = Some buf" "m_subBlocks b = []" "m_value_end b \<le> length buf" "m_value_begin b \<le> m_value_end b"
    using assms(1) by (auto simp: fresh_block_def block_wf_def)
  have "map wire_bytes (m_subBlocks b') = map (\<lambda>(t, v). tlv_wire t v) es"
    using Block_parse_tlvs [OF assms(3) buf assms(2)] assms(4) by auto
  moreover fix i assume "i \<in> set (m_subBlocks b')"
  ultimately have "wire_bytes i \<in> set (map (\<lambda>(t, v). tlv_wire t v) es)" by (metis image_eqI set_map)
  then have "wire_bytes i \<noteq> []" by (auto dest: sym)
  then show "Block_hasWire i" by (auto simp: wire_bytes_def Block_hasWire_def split: option.splits)
qed

lemma find_element_in: "find_element b t = Some i \<Longrightarrow> i \<in> set (m_subBlocks b)"
  by (auto simp: find_element_find find_Some_iff)

definition si_same :: "signature_info \<Rightarrow> signature_info \<Rightarrow> bool" where
  "si_same s s' \<longleftrightarrow> si_type s' = si_type s \<and> si_hasKeyLocator s' = si_hasKeyLocator s
     \<and> (si_hasKeyLocator s \<longrightarrow> kl_same (si_keyLocator s) (si_keyLocator s'))
     \<and> map block_tlv (si_otherTlvs s') = map block_tlv (si_otherTlvs s)"

lemma SignatureInfo_decode_keyLocator_opt:
  assumes "map block_tlv bs = opt_tlv c tlv_KeyLocator (tlvs_wire (kl_tlvs kl)) @ es" and "\<forall>i \<in> set bs. fresh_block i"
    and "\<forall>(t, v) \<in> set es. fits v \<and> t \<noteq> tlv_KeyLocator" and "kl_ok kl" and "\<not> si_hasKeyLocator s1"
  shows "\<exists>bs' s2. SignatureInfo_decode_keyLocator bs s1 = (None, bs', s2) \<and> map block_tlv bs' = es \<and> si_type s2 = si_type s1
     \<and> si_hasKeyLocator s2 = c \<and> si_otherTlvs s2 = si_otherTlvs s1 \<and> (c \<longrightarrow> kl_same kl (si_keyLocator s2))"
proof (cases c)
  case True
  with assms(1) obtain i bs' where i: "bs = i # bs'" "block_tlv i = (tlv_KeyLocator, tlvs_wire (kl_tlvs kl))" "map block_tlv bs' = es"
    by (auto simp: opt_tlv_def)
  then obtain kl' where "KeyLocator_wireDecode (si_keyLocator s1) i = (None, kl')" "kl_same kl kl'"
    using KeyLocator_wireDecode_fresh [of i kl "si_keyLocator s1"] assms(2,4) by auto
  then show ?thesis using i True by (simp add: SignatureInfo_decode_keyLocator_def block_tlv_def)
next
  case False
  with assms(1) have bs: "map block_tlv bs = es" by (simp add: opt_tlv_def)
  with assms(3) have "SignatureInfo_decode_keyLocator bs s1 = (None, bs, s1)"
    by (cases bs) (auto simp: SignatureInfo_decode_keyLocator_def block_tlv_def)
  with bs False assms(5) show ?thesis by simp
qed

lemma SignatureInfo_wireDecode_fresh:
  assumes "fresh_block w" and "Block_hasWire w" and "block_tlv w = (tlv_SignatureInfo, tlvs_wire (si_tlvs s))" and "si_ok s"
  shows "\<exists>s'. SignatureInfo_wireDecode SignatureInfo_default w = (None, s') \<and> si_same s s'"
proof -
  let ?o = "map block_tlv (si_otherTlvs s)" and ?n = "nonNegativeInteger_bytes (u64_of_int (si_type s))"
  have v: "value_bytes w = tlvs_wire (si_tlvs s)" "m_type w = tlv_SignatureInfo" using assms(3) by (simp_all add: block_tlv_def)
  have others: "\<forall>(t, v) \<in> set ?o. fits v \<and> t \<noteq> tlv_KeyLocator" using assms(4) by (auto simp: si_ok_def blk_ok_def block_tlv_def)
  then have "\<forall>(t, v) \<in> set (si_tlvs s). fits v" using assms(4) by (auto simp: si_tlvs_def si_ok_def)
  from Block_parse_fresh [OF assms(1) v(1) this] obtain p where p: "Block_parse w = (None, p)"
    "map block_tlv (m_subBlocks p) = si_tlvs s" "block_tlv p = block_tlv w" "\<forall>i \<in> set (m_subBlocks p). fresh_block i" by blast
  from p(2) obtain b bs where b: "m_subBlocks p = b # bs" "block_tlv b = (tlv_SignatureType, ?n)"
    "map block_tlv bs = opt_tlv (si_hasKeyLocator s) tlv_KeyLocator (tlvs_wire (kl_tlvs (si_keyLocator s))) @ ?o"
    by (auto simp: si_tlvs_def)
  have n: "readNonNegativeInteger_block b = Inr (u64_of_int (si_type s))"
    using readNonNegativeInteger_block_tlv [of b "u64_of_int (si_type s)"] p(4) b by (simp add: fresh_block_def block_tlv_def)
  define s1 where "s1 = SignatureInfo_default\<lparr>si_wire := p, si_type := si_type s\<rparr>"
  have t: "SignatureInfo_decode_type (m_subBlocks p) (SignatureInfo_default\<lparr>si_hasKeyLocator := False, si_wire := p\<rparr>) = (None, bs, s1)"
    using n b assms(4) int_of_u64_of_int [of "si_type s"]
    by (simp add: SignatureInfo_decode_type_def block_tlv_def s1_def si_ok_def SignatureInfo_default_def)
  obtain bs' s2 where s2: "SignatureInfo_decode_keyLocator bs s1 = (None, bs', s2)" "map block_tlv bs' = ?o" "si_type s2 = si_type s1"
    "si_hasKeyLocator s2 = si_hasKeyLocator s" "si_otherTlvs s2 = si_otherTlvs s1"
    "si_hasKeyLocator s \<longrightarrow> kl_same (si_keyLocator s) (si_keyLocator s2)"
    using SignatureInfo_decode_keyLocator_opt [OF b(3), of s1] p(4) b(1) others assms(4)
    by (auto simp: si_ok_def s1_def SignatureInfo_default_def)
  have "SignatureInfo_wireDecode SignatureInfo_default w = (None, s2\<lparr>si_otherTlvs := si_otherTlvs s2 @ bs'\<rparr>)"
    using assms(2) p(1,3) v(2) t s2(1) by (simp add: SignatureInfo_wireDecode_def block_tlv_def then_walk_def Let_def)
  with s2 show ?thesis by (simp add: si_same_def s1_def SignatureInfo_default_def)
qed

section \<open>Whole packets\<close>

definition content_value :: "data \<Rightarrow> byte list" where
  "content_value d = (if Block_empty (d_content d) then [] else value_bytes (d_content d))"

definition data_tlvs :: "data \<Rightarrow> (u32 \<times> byte list) list" where
  "data_tlvs d =
    [(tlv_Name, tlvs_wire (name_tlvs (name_of (d_name d)))), (tlv_MetaInfo, tlvs_wire (mi_tlvs (d_metaInfo d))),
     (tlv_Content, content_value d), (tlv_SignatureInfo, tlvs_wire (si_tlvs (sig_info (d_signature d)))),
     (tlv_SignatureValue, value_bytes (sig_value (d_signature d)))]"

text \<open>A signed packet whose parts are canonical and whose fields fit a packet.\<close>

definition sig_ok :: "signature \<Rightarrow> bool" where
  "sig_ok s \<longleftrightarrow> si_ok (sig_info s)
     \<and> (Block_hasWire (si_wire (sig_info s)) \<longrightarrow>
          blk_ok (si_wire (sig_info s)) \<and> block_tlv (si_wire (sig_info s)) = (tlv_SignatureInfo, tlvs_wire (si_tlvs (sig_info s))))
     \<and> blk_ok (sig_value s) \<and> Block_hasValue (sig_value s) \<and> m_type (sig_value s) = tlv_SignatureValue"

definition content_ok :: "data \<Rightarrow> bool" where
  "content_ok d \<longleftrightarrow> Block_empty (d_content d) \<or>
     (blk_ok (d_content d) \<and> Block_hasValue (d_content d) \<and> m_type (d_content d) = tlv_Content)"

definition data_ok :: "data \<Rightarrow> bool" where
  "data_ok d \<longleftrightarrow> name_block (d_name d) \<and> fits (tlvs_wire (name_tlvs (name_of (d_name d)))) \<and> mi_ok (d_metaInfo d)
     \<and> content_ok d \<and> sig_ok (d_signature d) \<and> fits (tlvs_wire (data_tlvs d))"

lemma Block_encode_ok:
  assumes "blk_ok b" and "Block_hasValue b"
  shows "\<exists>b'. Block_encode b = Inr b' \<and> blk_ok b' \<and> block_tlv b' = block_tlv b"
proof (cases "Block_hasWire b")
  case True
  with assms(1) show ?thesis by (simp add: Block_encode_def)
next
  case False
  let ?w = "tlv_wire (m_type b) (value_bytes b)"
  define b' where "b' = Block (Some ?w) (m_type b) 0 (length ?w) (length ?w) (length ?w - length (value_bytes b)) (length ?w) (m_subBlocks b)"
  have "Block_encode_bytes b = Inr ?w" using assms by (intro Block_encode_bytes_value) (simp_all add: blk_ok_def)
  then have e: "Block_encode b = Inr b'" using False by (simp add: Block_encode_def wire_simps b'_def)
  have vb: "length ?w - length (value_bytes b) > 0" by (simp add: length_tlv_wire sizeOfVarNumber_def)
  have "value_bytes b' = value_bytes b" by (simp add: b'_def value_bytes_def slice_def) (simp add: tlv_wire_def)
  moreover have "wire_bytes b' = ?w" by (simp add: b'_def wire_bytes_def)
  moreover have "block_wf b'" using vb by (simp add: b'_def block_wf_def)
  ultimately show ?thesis using e assms(1) by (simp add: blk_ok_def block_tlv_def b'_def)
qed

lemma makeEmptyBlock_ok: "\<exists>b. makeEmptyBlock t = Inr b \<and> blk_ok b \<and> block_tlv b = (t, []) \<and> Block_hasWire b"
  using makeEmptyBlock_wire [of t] by (auto simp: blk_ok_def block_tlv_def)

lemma Data_getContent_ok:
  assumes "content_ok d"
  shows "\<exists>c. Data_getContent d = Inr (c, d\<lparr>d_content := c\<rparr>) \<and> blk_ok c \<and> block_tlv c = (tlv_Content, content_value d)"
proof (cases "Block_empty (d_content d)")
  case True
  then show ?thesis using makeEmptyBlock_ok [of tlv_Content] by (auto simp: Data_getContent_def content_value_def)
next
  case False
  with assms have c: "blk_ok (d_content d)" "Block_hasValue (d_content d)" "m_type (d_content d) = tlv_Content" by (simp_all add: content_ok_def)
  then show ?thesis using False Block_encode_ok [OF c(1,2)]
    by (auto simp: Data_getContent_def content_value_def block_tlv_def)
qed

lemma Signature_getInfo_ok:
  assumes "sig_ok s"
  shows "\<exists>b. Signature_getInfo s = Inr b \<and> blk_ok b \<and> block_tlv b = (tlv_SignatureInfo, tlvs_wire (si_tlvs (sig_info s)))"
proof (cases "Block_hasWire (si_wire (sig_info s))")
  case True
  with assms show ?thesis by (simp add: sig_ok_def Signature_getInfo_def SignatureInfo_wireEncode_def)
next
  case False
  let ?i = "sig_info s"
  have i: "si_ok ?i" "fits (tlvs_wire (si_tlvs ?i))" using assms by (simp_all add: sig_ok_def si_ok_def)
  from est.SignatureInfo_wireEncode_prepends [OF i(1)] enc.SignatureInfo_wireEncode_prepends [OF i(1)]
  obtain me mn where m: "SignatureInfo_wireEncode_template estimator_ops ?i = Inr me"
    "SignatureInfo_wireEncode_template encoder_ops ?i = Inr mn"
    "prepends (\<lambda>_ _. True) me (tlv_wire tlv_SignatureInfo (tlvs_wire (si_tlvs ?i))) (length (tlv_wire tlv_SignatureInfo (tlvs_wire (si_tlvs ?i))))"
    "prepends enc_rel mn (tlv_wire tlv_SignatureInfo (tlvs_wire (si_tlvs ?i))) (length (tlv_wire tlv_SignatureInfo (tlvs_wire (si_tlvs ?i))))"
    by blast
  obtain b where b: "estimate_and_encode me mn = Inr b" "block_tlv b = (tlv_SignatureInfo, tlvs_wire (si_tlvs ?i))"
     "wire_bytes b = tlv_wire tlv_SignatureInfo (tlvs_wire (si_tlvs ?i))" "block_wf b"
    using estimate_and_encode_wire [OF m(3,4) i(2)] by blast
  then have "blk_ok b" using i(2) by (simp add: blk_ok_def block_tlv_def)
  with b False m(1,2) show ?thesis
    by (simp add: Signature_getInfo_def SignatureInfo_wireEncode_def try_encode_def)
qed

context encoding_impl
begin

lemma Data_wireEncode_prepends:
  assumes "data_ok d"
  shows "\<exists>m. Data_wireEncode_template ops d False = Inr m \<and>
     prepends R m (tlv_wire tlv_Data (tlvs_wire (data_tlvs d))) (length (tlv_wire tlv_Data (tlvs_wire (data_tlvs d))))"
proof -
  have ok: "\<forall>c \<in> set (m_subBlocks (d_name d)). block_wf c" "mi_ok (d_metaInfo d)" "content_ok d" "sig_ok (d_signature d)"
    using assms by (simp_all add: data_ok_def name_block_def component_block_def)
  have pb: "blk_ok b \<Longrightarrow> prepends R (op_prependBlock ops b) (tlv_wire (m_type b) (value_bytes b)) (length (tlv_wire (m_type b) (value_bytes b)))" for b
    by (intro prependBlock_tlv) (auto simp: blk_ok_def)
  obtain c where c: "Data_getContent d = Inr (c, d\<lparr>d_content := c\<rparr>)" "blk_ok c" "block_tlv c = (tlv_Content, content_value d)"
    using Data_getContent_ok [OF ok(3)] by blast
  obtain i where i: "Signature_getInfo (d_signature d) = Inr i" "blk_ok i"
    "block_tlv i = (tlv_SignatureInfo, tlvs_wire (si_tlvs (sig_info (d_signature d))))"
    using Signature_getInfo_ok [OF ok(4)] by blast
  obtain v where v: "Signature_getValue (d_signature d) = Inr v" "blk_ok v"
    "block_tlv v = (tlv_SignatureValue, value_bytes (sig_value (d_signature d)))"
    using Block_encode_ok [of "sig_value (d_signature d)"] ok(4) by (auto simp: Signature_getValue_def sig_ok_def block_tlv_def)
  have "Signature_bool (d_signature d)" using ok(4) by (simp add: Signature_bool_def sig_ok_def si_ok_def)
  then show ?thesis unfolding Data_wireEncode_template_def c(1) i(1) v(1) res2_def sum.case Let_def if_False simp_thms
    by (simp only: simp_thms if_False sum.case fst_conv)
      (rule exI, rule conjI, rule refl, rule prepends_cong,
        (rule prepends_bind pb [OF c(2)] pb [OF i(2)] pb [OF v(2)] MetaInfo_wireEncode_prepends [OF ok(2)]
          Name_wireEncode_prepends [OF ok(1)] prependVarNumber prepends_return)+,
        use c(3) i(3) v(3) in \<open>simp_all add: data_tlvs_def block_tlv_def name_tlvs_of tlv_wire_def size_simps ac_simps\<close>)
qed

end

definition data_same :: "data \<Rightarrow> data \<Rightarrow> bool" where
  "data_same d d' \<longleftrightarrow> name_of (d_name d') = name_of (d_name d) \<and> mi_same (d_metaInfo d) (d_metaInfo d')
     \<and> block_tlv (d_content d') = (tlv_Content, content_value d)
     \<and> si_same (sig_info (d_signature d)) (sig_info (d_signature d'))
     \<and> block_tlv (sig_value (d_signature d')) = block_tlv (sig_value (d_signature d))"

lemma data_tlvs_lookup:
  "map_of (data_tlvs d) tlv_Name = Some (tlvs_wire (name_tlvs (name_of (d_name d))))"
  "map_of (data_tlvs d) tlv_MetaInfo = Some (tlvs_wire (mi_tlvs (d_metaInfo d)))"
  "map_of (data_tlvs d) tlv_Content = Some (content_value d)"
  "map_of (data_tlvs d) tlv_SignatureInfo = Some (tlvs_wire (si_tlvs (sig_info (d_signature d))))"
  "map_of (data_tlvs d) tlv_SignatureValue = Some (value_bytes (sig_value (d_signature d)))"
  by (simp_all add: data_tlvs_def tlv_codes)

lemma data_tlvs_fits: "data_ok d \<Longrightarrow> \<forall>(t, v) \<in> set (data_tlvs d). fits v"
  by (auto simp: data_tlvs_def data_ok_def mi_ok_def sig_ok_def si_ok_def blk_ok_def content_ok_def content_value_def)

lemma Data_wireDecode_fresh:
  assumes "fresh_block w" and "value_bytes w = tlvs_wire (data_tlvs d)" and "data_ok d"
  shows "\<exists>d'. Data_wireDecode d0 w = (None, d') \<and> data_same d d' \<and> wire_bytes (d_wire d') = wire_bytes w
     \<and> map block_tlv (mi_appMetaInfo (d_metaInfo d'))
       = map block_tlv (mi_appMetaInfo (d_metaInfo d0)) @ map block_tlv (mi_appMetaInfo (d_metaInfo d))"
proof -
  have ok: "name_block (d_name d)" "mi_ok (d_metaInfo d)" "sig_ok (d_signature d)" using assms(3) by (simp_all add: data_ok_def)
  note fits = data_tlvs_fits [OF assms(3)]
  from Block_parse_fresh [OF assms(1,2) fits] obtain p where p: "Block_parse w = (None, p)"
    "map block_tlv (m_subBlocks p) = data_tlvs d" "wire_bytes p = wire_bytes w" "\<forall>i \<in> set (m_subBlocks p). fresh_block i" by blast
  note found = find_element_Some [OF p(2,4)]
  obtain n where n: "find_element p tlv_Name = Some n" "fresh_block n" "block_tlv n = (tlv_Name, tlvs_wire (name_tlvs (name_of (d_name d))))"
    using found [OF data_tlvs_lookup(1)] by blast
  obtain n' where n': "Name_wireDecode (d_name d0) n = (None, n')" "name_of n' = name_of (d_name d)"
    using Name_wireDecode_fresh [OF n(2,3) name_tlvs_fits [OF ok(1)]] by blast
  obtain m where m: "find_element p tlv_MetaInfo = Some m" "fresh_block m" "block_tlv m = (tlv_MetaInfo, tlvs_wire (mi_tlvs (d_metaInfo d)))"
    using found [OF data_tlvs_lookup(2)] by blast
  have "value_bytes m = tlvs_wire (mi_tlvs (d_metaInfo d))" using m(3) by (simp add: block_tlv_def)
  from MetaInfo_wireDecode_fresh [OF m(2) this ok(2), of "d_metaInfo d0"]
  obtain m' where m': "MetaInfo_wireDecode (d_metaInfo d0) m = (None, m')" "mi_same (d_metaInfo d) m'"
    "map block_tlv (mi_appMetaInfo m') = map block_tlv (mi_appMetaInfo (d_metaInfo d0)) @ map block_tlv (mi_appMetaInfo (d_metaInfo d))"
    by blast
  obtain c where c: "find_element p tlv_Content = Some c" "block_tlv c = (tlv_Content, content_value d)"
    using found [OF data_tlvs_lookup(3)] by blast
  obtain i where i: "find_element p tlv_SignatureInfo = Some i" "fresh_block i"
    "block_tlv i = (tlv_SignatureInfo, tlvs_wire (si_tlvs (sig_info (d_signature d))))"
    using found [OF data_tlvs_lookup(4)] by blast
  have "Block_hasWire i" using Block_parse_hasWire [OF assms(1,2) fits p(1)] find_element_in [OF i(1)] by blast
  then obtain i' where i': "SignatureInfo_wireDecode SignatureInfo_default i = (None, i')" "si_same (sig_info (d_signature d)) i'"
    using SignatureInfo_wireDecode_fresh [OF i(2) _ i(3)] ok(3) by (auto simp: sig_ok_def)
  obtain v where v: "find_element p tlv_SignatureValue = Some v" "block_tlv v = (tlv_SignatureValue, value_bytes (sig_value (d_signature d)))"
    using found [OF data_tlvs_lookup(5)] by blast
  have sv: "m_type v = tlv_SignatureValue" "block_tlv v = block_tlv (sig_value (d_signature d))"
    using v(2) ok(3) by (simp_all add: block_tlv_def sig_ok_def)
  show ?thesis
    using p(1,3) n(1) n' m(1) m' c i(1) i' v(1) sv
    by (simp add: Data_wireDecode_def then_decode_def decode_required_def decode_optional_def Block_get_find Data_decode_name_def
        Data_decode_metaInfo_def Data_decode_info_def Data_decode_value_def Signature_setInfo_def Signature_setValue_def data_same_def)
qed

lemma Data_try_encode:
  assumes "data_ok d"
  shows "\<exists>b. try_encode (Data_wireEncode_template estimator_ops d False) (Data_wireEncode_template encoder_ops d False) = Inr b
     \<and> fresh_block b \<and> block_tlv b = (tlv_Data, tlvs_wire (data_tlvs d)) \<and> wire_bytes b = tlv_wire tlv_Data (tlvs_wire (data_tlvs d))"
proof -
  have f: "fits (tlvs_wire (data_tlvs d))" using assms by (simp add: data_ok_def)
  from est.Data_wireEncode_prepends [OF assms] enc.Data_wireEncode_prepends [OF assms] obtain me mn where m:
    "Data_wireEncode_template estimator_ops d False = Inr me" "Data_wireEncode_template encoder_ops d False = Inr mn"
    "prepends (\<lambda>_ _. True) me (tlv_wire tlv_Data (tlvs_wire (data_tlvs d))) (length (tlv_wire tlv_Data (tlvs_wire (data_tlvs d))))"
    "prepends enc_rel mn (tlv_wire tlv_Data (tlvs_wire (data_tlvs d))) (length (tlv_wire tlv_Data (tlvs_wire (data_tlvs d))))"
    by blast
  then show ?thesis using estimate_and_encode_wire [OF m(3,4) f] by (auto simp: try_encode_def fresh_block_def Block_hasWire_def)
qed

text \<open>
  The packet of the witnesses: \<open>/a\<close> with one application block in its meta-information, content and a
  digest signature.
\<close>

definition example_data :: data where
  "example_data = (Data_of_name name_a)\<lparr>
     d_metaInfo := MetaInfo_default\<lparr>mi_appMetaInfo := [Block_of_type_value 128 [1]]\<rparr>,
     d_content := Block_of_type_value tlv_Content [1, 2, 3],
     d_signature := \<lparr>sig_info = SignatureInfo_of_type 0, sig_value = Block_of_type_value tlv_SignatureValue [7]\<rparr>\<rparr>"

lemma Block_of_type_value_ok:
  "length v < 1000 \<Longrightarrow> blk_ok (Block_of_type_value t v)" "block_tlv (Block_of_type_value t v) = (t, v)"
  "Block_hasValue (Block_of_type_value t v)" "m_type (Block_of_type_value t v) = t" "value_bytes (Block_of_type_value t v) = v"
  using Block_of_type_value_wf [of t v]
  by (simp_all add: blk_ok_def block_tlv_def)
    (simp_all add: Block_of_type_value_def Block_hasWire_def value_bytes_def Block_hasValue_def fits_small)

lemma length_tlvs_wire_le: "length (tlvs_wire es) \<le> (\<Sum>(t, v) \<leftarrow> es. 18 + length v)"
proof (induction es)
  case (Cons e es)
  then show ?case using length_tlv_wire_le [of "fst e" "snd e"] by (cases e) simp
qed simp

lemma example_data_ok: "data_ok example_data" "\<not> Block_hasWire (d_wire example_data)"
  "map block_tlv (mi_appMetaInfo (d_metaInfo example_data)) = [(128, [1])]"
proof -
  let ?d = example_data
  let ?m = "d_metaInfo ?d" and ?s = "d_signature ?d"
  have mt: "mi_tlvs ?m = [(128, [1])]"
    by (simp add: mi_tlvs_def example_data_def MetaInfo_default_def ContentType_Blob_def opt_tlv_def Block_of_type_value_ok
        Component_default_def Block_of_type_def Block_value_size_def Block_hasValue_def)
  have st: "si_tlvs (sig_info ?s) = [(tlv_SignatureType, nonNegativeInteger_bytes (u64_of_int 0))]"
    by (simp add: si_tlvs_def example_data_def SignatureInfo_of_type_def SignatureInfo_default_def opt_tlv_def)
  have nt: "name_tlvs (name_of (d_name ?d)) = [(8, [97])]" by (simp add: example_data_def Data_of_name_def example_names name_tlvs_def)
  have len: "length (tlvs_wire (mi_tlvs ?m)) \<le> 19" "length (tlvs_wire (name_tlvs (name_of (d_name ?d)))) \<le> 19"
    "length (tlvs_wire (si_tlvs (sig_info ?s))) \<le> 26"
    using length_tlvs_wire_le [of "mi_tlvs ?m"] length_tlvs_wire_le [of "name_tlvs (name_of (d_name ?d))"]
      length_tlvs_wire_le [of "si_tlvs (sig_info ?s)"] length_nonNegativeInteger_le [of "u64_of_int 0"]
    unfolding mt st nt by simp_all
  have cv: "content_value ?d = [1, 2, 3]" "value_bytes (sig_value ?s) = [7]"
    by (simp_all add: content_value_def example_data_def Block_of_type_value_ok Block_empty_def tlv_codes)
  have "length (tlvs_wire (data_tlvs ?d)) < 1000"
    using length_tlvs_wire_le [of "data_tlvs ?d"] len by (simp add: data_tlvs_def cv)
  then have "fits (tlvs_wire (data_tlvs ?d))" "fits (tlvs_wire (mi_tlvs ?m))" "fits (tlvs_wire (name_tlvs (name_of (d_name ?d))))"
    "fits (tlvs_wire (si_tlvs (sig_info ?s)))" using len by (simp_all add: fits_def)
  moreover have "name_block (d_name ?d)" by (simp add: example_data_def Data_of_name_def example_names)
  moreover have "component_block (mi_finalBlockId ?m)" "m_type (mi_finalBlockId ?m) = tlv_NameComponent" "mi_freshnessPeriod ?m < 2 ^ 63"
    "\<forall>b \<in> set (mi_appMetaInfo ?m). blk_ok b \<and> app_range b"
    by (simp_all add: example_data_def MetaInfo_default_def component_block_def Component_default_def Block_of_type_def block_wf_def
        Block_hasWire_def value_bytes_def Block_of_type_value_ok app_range_def)
  moreover have "content_ok ?d" by (simp add: content_ok_def example_data_def Block_of_type_value_ok)
  moreover have "kl_ok (si_keyLocator (sig_info ?s))" "fits (tlvs_wire (kl_tlvs (si_keyLocator (sig_info ?s))))"
      "si_otherTlvs (sig_info ?s) = []" "si_type (sig_info ?s) = 0" "\<not> Block_hasWire (si_wire (sig_info ?s))"
    by (simp_all add: example_data_def SignatureInfo_of_type_def SignatureInfo_default_def KeyLocator_default_def kl_ok_def kl_tlvs_def
        Block_hasWire_def Block_default_def)
  moreover have "blk_ok (sig_value ?s)" "Block_hasValue (sig_value ?s)" "m_type (sig_value ?s) = tlv_SignatureValue"
    by (simp_all add: example_data_def Block_of_type_value_ok)
  ultimately show "data_ok ?d" by (simp add: data_ok_def mi_ok_def sig_ok_def si_ok_def)
qed (simp_all add: example_data_def Data_of_name_def Data_default_def Block_hasWire_def Block_default_def Block_of_type_value_ok)

section \<open>Properties\<close>

text \<open>
  C23: a signed packet whose fields are canonical encodes to one TLV, and decoding that wire, whatever
  follows it, into a new \<^verbatim>\<open>Data\<close> gives the same name, meta-information, content and signature.
\<close>

theorem Data_wire_roundtrip:
  assumes "data_ok d" and "\<not> Block_hasWire (d_wire d)"
  shows "\<exists>w d'. Data_wireEncode d = Inr (w, d') \<and> wire_bytes w = tlv_wire tlv_Data (tlvs_wire (data_tlvs d))
     \<and> (\<forall>rest. \<exists>w' d''. Block_of_bytes (wire_bytes w @ rest) = Inr w' \<and> Data_of_block w' = Inr d'' \<and> data_same d d''
          \<and> map block_tlv (mi_appMetaInfo (d_metaInfo d'')) = map block_tlv (mi_appMetaInfo (d_metaInfo d)))"
proof -
  let ?w = "tlv_wire tlv_Data (tlvs_wire (data_tlvs d))"
  from Data_try_encode [OF assms(1)] obtain b where b:
    "try_encode (Data_wireEncode_template estimator_ops d False) (Data_wireEncode_template encoder_ops d False) = Inr b"
    "fresh_block b" "value_bytes b = tlvs_wire (data_tlvs d)" "wire_bytes b = ?w" by (auto simp: block_tlv_def)
  obtain d' where d': "Data_wireDecode d b = (None, d')" "wire_bytes (d_wire d') = ?w"
    using Data_wireDecode_fresh [OF b(2,3) assms(1), of d] b(4) by auto
  have "\<exists>w' d''. Block_of_bytes (?w @ rest) = Inr w' \<and> Data_of_block w' = Inr d'' \<and> data_same d d''
      \<and> map block_tlv (mi_appMetaInfo (d_metaInfo d'')) = map block_tlv (mi_appMetaInfo (d_metaInfo d))" for rest
  proof -
    have "fits (tlvs_wire (data_tlvs d))" using assms(1) by (simp add: data_ok_def)
    then obtain w' where w': "Block_of_bytes (?w @ rest) = Inr w'" "value_bytes w' = tlvs_wire (data_tlvs d)"
      using Block_of_bytes_tlv_wire [of "tlvs_wire (data_tlvs d)" tlv_Data rest] by (auto simp: block_tlv_def)
    from Data_wireDecode_fresh [OF Block_of_bytes_fresh [OF w'(1)] w'(2) assms(1), of "Data_default\<lparr>d_content := Block_default\<rparr>"] w'(1)
    show ?thesis by (auto simp: Data_of_block_def Data_default_def MetaInfo_default_def)
  qed
  moreover have "Data_wireEncode d = Inr (d_wire d', d')" using b(1) d'(1) assms(2) by (simp add: Data_wireEncode_def)
  ultimately show ?thesis using d'(2) by auto
qed

theorem Data_wire_roundtrip_witness:
  "\<exists>w d' w' d''. Data_wireEncode example_data = Inr (w, d') \<and> Block_of_bytes (wire_bytes w @ [0]) = Inr w'
     \<and> Data_of_block w' = Inr d'' \<and> name_of (d_name d'') = [Component 8 [97]] \<and> block_tlv (d_content d'') = (tlv_Content, [1, 2, 3])"
proof -
  from Data_wire_roundtrip [OF example_data_ok(1,2)] obtain w d' where w: "Data_wireEncode example_data = Inr (w, d')"
    "\<forall>rest. \<exists>w' d''. Block_of_bytes (wire_bytes w @ rest) = Inr w' \<and> Data_of_block w' = Inr d'' \<and> data_same example_data d''
        \<and> map block_tlv (mi_appMetaInfo (d_metaInfo d'')) = map block_tlv (mi_appMetaInfo (d_metaInfo example_data))"
    by (elim exE conjE) (rule that)
  from w(2) [rule_format, of "[0]"] obtain w' d'' where "Block_of_bytes (wire_bytes w @ [0]) = Inr w'" "Data_of_block w' = Inr d''"
    "data_same example_data d''" by (elim exE conjE) (rule that)
  moreover have "name_of (d_name example_data) = [Component 8 [97]]" "content_value example_data = [1, 2, 3]"
    by (simp_all add: example_data_def Data_of_name_def example_names content_value_def Block_of_type_value_ok Block_empty_def tlv_codes)
  ultimately show ?thesis using w(1) by (auto simp: data_same_def)
qed

text \<open>
  C39: \<^verbatim>\<open>wireEncode()\<close> decodes its own result into the packet, and decoding meta-information appends the
  application blocks it finds to those already there: after encoding, the packet holds every
  application block twice, and once a setter drops the wire the next encoding is another packet.
\<close>

theorem Data_wireEncode_doubles_appMetaInfo:
  assumes "data_ok d" and "\<not> Block_hasWire (d_wire d)"
  shows "\<exists>w d'. Data_wireEncode d = Inr (w, d') \<and> data_same d d'
     \<and> map block_tlv (mi_appMetaInfo (d_metaInfo d')) =
         map block_tlv (mi_appMetaInfo (d_metaInfo d)) @ map block_tlv (mi_appMetaInfo (d_metaInfo d))
     \<and> (mi_appMetaInfo (d_metaInfo d) \<noteq> [] \<longrightarrow> mi_tlvs (d_metaInfo (Data_setName d' (d_name d))) \<noteq> mi_tlvs (d_metaInfo d))"
proof -
  from Data_try_encode [OF assms(1)] obtain b where b:
    "try_encode (Data_wireEncode_template estimator_ops d False) (Data_wireEncode_template encoder_ops d False) = Inr b"
    "fresh_block b" "value_bytes b = tlvs_wire (data_tlvs d)" by (auto simp: block_tlv_def)
  from Data_wireDecode_fresh [OF b(2,3) assms(1), of d] obtain d' where d': "Data_wireDecode d b = (None, d')" "data_same d d'"
    "map block_tlv (mi_appMetaInfo (d_metaInfo d')) =
       map block_tlv (mi_appMetaInfo (d_metaInfo d)) @ map block_tlv (mi_appMetaInfo (d_metaInfo d))" by blast
  have tail: "filter (\<lambda>(t, _). 128 \<le> t) (mi_tlvs m) = filter (\<lambda>(t, _). 128 \<le> t) (map block_tlv (mi_appMetaInfo m))" for m
    by (simp add: mi_tlvs_def opt_tlv_def tlv_codes)
  have "\<forall>(t, _) \<in> set (map block_tlv (mi_appMetaInfo (d_metaInfo d))). 128 \<le> t"
    using assms(1) by (auto simp: data_ok_def mi_ok_def app_range_def block_tlv_def)
  then have "filter (\<lambda>(t, _). 128 \<le> t) (map block_tlv (mi_appMetaInfo (d_metaInfo d))) = map block_tlv (mi_appMetaInfo (d_metaInfo d))"
    by (intro filter_True) auto
  with d'(3) tail [of "d_metaInfo d"] tail [of "d_metaInfo d'"]
  have "mi_appMetaInfo (d_metaInfo d) \<noteq> [] \<Longrightarrow> mi_tlvs (d_metaInfo d') \<noteq> mi_tlvs (d_metaInfo d)" by auto
  then show ?thesis using b(1) d' assms(2) by (simp add: Data_wireEncode_def Data_setName_def Data_onChanged_def)
qed

theorem Data_wireEncode_doubles_appMetaInfo_witness:
  "\<exists>w d'. Data_wireEncode example_data = Inr (w, d') \<and> map block_tlv (mi_appMetaInfo (d_metaInfo d')) = [(128, [1]), (128, [1])]"
  using Data_wireEncode_doubles_appMetaInfo [OF example_data_ok(1,2)] unfolding example_data_ok(3) by auto

end
