(* ===== verification/Interest.thy ===== *)
theory Interest
  imports Data
begin

text \<open>
  Interest packets, \<^verbatim>\<open>ndn-cxx/src/interest.cpp\<close> and the functions of \<^verbatim>\<open>link.cpp\<close> it reads an encapsulated
  link with. Random words and the SHA-256 digest are parameters. The lemmas reduce the matching of
  an Interest against a packet to abstract names, lists of components.
\<close>

section \<open>Links in their wire form\<close>

definition INVALID_SELECTED_DELEGATION_INDEX :: u64 where
  "INVALID_SELECTED_DELEGATION_INDEX = - 1"

text \<open>The parsed \<^verbatim>\<open>Content\<close> element of a link.\<close>

definition link_content :: "block \<Rightarrow> block res" where
  "link_content b =
     (case Block_parse b of
        (Some e, _) \<Rightarrow> Inl e
      | (None, b') \<Rightarrow> (case Block_get b' tlv_Content of
            Inl e \<Rightarrow> Inl e
          | Inr c \<Rightarrow> (case Block_parse c of (Some e, _) \<Rightarrow> Inl e | (None, c') \<Rightarrow> Inr c')))"

definition parsed :: "block \<Rightarrow> block res" where
  "parsed b = (case Block_parse b of (Some e, _) \<Rightarrow> Inl e | (None, b') \<Rightarrow> Inr b')"

definition delegation_error :: error where
  "delegation_error = DataError ''Unexpected TLV-TYPE, expecting LinkDelegation''"

definition delegation_name :: "block \<Rightarrow> name res" where
  "delegation_name d = (case Block_get d tlv_Name of Inl e \<Rightarrow> Inl e | Inr n \<Rightarrow> Name_of_block n)"

definition Link_getDelegationFromWire :: "block \<Rightarrow> nat \<Rightarrow> (u32 \<times> name) res" where
  "Link_getDelegationFromWire b index =
     (case link_content b of
        Inl e \<Rightarrow> Inl e
      | Inr c \<Rightarrow>
          if index \<ge> length (m_subBlocks c) then Inl (StdError ''vector::at'')
          else case parsed (m_subBlocks c ! index) of
            Inl e \<Rightarrow> Inl e
          | Inr d \<Rightarrow>
              if m_type d \<noteq> tlv_LinkDelegation then Inl delegation_error
              else case Block_get d tlv_LinkPreference of
                Inl e \<Rightarrow> Inl e
              | Inr p \<Rightarrow> res2 (\<lambda>n nm. Inr (ucast n, nm)) (readNonNegativeInteger_block p) (delegation_name d))"

fun find_delegation :: "block list \<Rightarrow> name \<Rightarrow> u64 \<Rightarrow> u64 res" where
  "find_delegation [] delegationName counter = Inr INVALID_SELECTED_DELEGATION_INDEX"
| "find_delegation (b # bs) delegationName counter =
     (case parsed b of
        Inl e \<Rightarrow> Inl e
      | Inr d \<Rightarrow>
          if m_type d \<noteq> tlv_LinkDelegation then Inl delegation_error
          else case delegation_name d of
            Inl e \<Rightarrow> Inl e
          | Inr n \<Rightarrow> if Name_equals n delegationName then Inr counter else find_delegation bs delegationName (counter + 1))"

definition Link_findDelegationFromWire :: "block \<Rightarrow> name \<Rightarrow> u64 res" where
  "Link_findDelegationFromWire b delegationName =
     (case link_content b of Inl e \<Rightarrow> Inl e | Inr c \<Rightarrow> find_delegation (m_subBlocks c) delegationName 0)"

definition Link_countDelegationsFromWire :: "block \<Rightarrow> nat res" where
  "Link_countDelegationsFromWire b = (case link_content b of Inl e \<Rightarrow> Inl e | Inr c \<Rightarrow> Inr (length (m_subBlocks c)))"

section \<open>The packet\<close>

definition DEFAULT_INTEREST_LIFETIME :: int where
  "DEFAULT_INTEREST_LIFETIME = 4000"

record interest =
  i_name :: name
  i_selectors :: selectors
  i_nonce :: block
  i_interestLifetime :: int
  i_link :: block
  i_selectedDelegationIndex :: u64
  i_wire :: block

definition Interest_default :: interest where
  "Interest_default = \<lparr>i_name = Name_default, i_selectors = Selectors_default, i_nonce = Block_default,
     i_interestLifetime = milliseconds_min, i_link = Block_default,
     i_selectedDelegationIndex = INVALID_SELECTED_DELEGATION_INDEX, i_wire = Block_default\<rparr>"

definition Interest_of_name :: "name \<Rightarrow> interest" where
  "Interest_of_name n = Interest_default\<lparr>i_name := n\<rparr>"

definition Interest_of_name_lifetime :: "name \<Rightarrow> int \<Rightarrow> interest" where
  "Interest_of_name_lifetime n lifetime = Interest_default\<lparr>i_name := n, i_interestLifetime := lifetime\<rparr>"

definition Interest_drop_wire :: "interest \<Rightarrow> interest" where
  "Interest_drop_wire i = i\<lparr>i_wire := Block_reset (i_wire i)\<rparr>"

definition Interest_setName :: "interest \<Rightarrow> name \<Rightarrow> interest" where
  "Interest_setName i n = Interest_drop_wire (i\<lparr>i_name := n\<rparr>)"

definition Interest_setInterestLifetime :: "interest \<Rightarrow> int \<Rightarrow> interest" where
  "Interest_setInterestLifetime i lifetime = Interest_drop_wire (i\<lparr>i_interestLifetime := lifetime\<rparr>)"

definition Interest_setSelectors :: "interest \<Rightarrow> selectors \<Rightarrow> interest" where
  "Interest_setSelectors i s = Interest_drop_wire (i\<lparr>i_selectors := s\<rparr>)"

definition Interest_setMinSuffixComponents :: "interest \<Rightarrow> int \<Rightarrow> interest" where
  "Interest_setMinSuffixComponents i n = Interest_drop_wire (i\<lparr>i_selectors := Selectors_setMinSuffixComponents (i_selectors i) n\<rparr>)"

definition Interest_setMaxSuffixComponents :: "interest \<Rightarrow> int \<Rightarrow> interest" where
  "Interest_setMaxSuffixComponents i n = Interest_drop_wire (i\<lparr>i_selectors := Selectors_setMaxSuffixComponents (i_selectors i) n\<rparr>)"

definition Interest_setPublisherPublicKeyLocator :: "interest \<Rightarrow> key_locator \<Rightarrow> interest" where
  "Interest_setPublisherPublicKeyLocator i kl =
     Interest_drop_wire (i\<lparr>i_selectors := Selectors_setPublisherPublicKeyLocator (i_selectors i) kl\<rparr>)"

definition Interest_setExclude :: "interest \<Rightarrow> exclude \<Rightarrow> interest" where
  "Interest_setExclude i x = Interest_drop_wire (i\<lparr>i_selectors := Selectors_setExclude (i_selectors i) x\<rparr>)"

definition Interest_setChildSelector :: "interest \<Rightarrow> int \<Rightarrow> interest" where
  "Interest_setChildSelector i n = Interest_drop_wire (i\<lparr>i_selectors := Selectors_setChildSelector (i_selectors i) n\<rparr>)"

definition Interest_setMustBeFresh :: "interest \<Rightarrow> bool \<Rightarrow> interest" where
  "Interest_setMustBeFresh i b = Interest_drop_wire (i\<lparr>i_selectors := Selectors_setMustBeFresh (i_selectors i) b\<rparr>)"

definition Interest_hasSelectors :: "interest \<Rightarrow> bool" where
  "Interest_hasSelectors i \<longleftrightarrow> \<not> Selectors_empty (i_selectors i)"

section \<open>Nonce\<close>

definition Interest_hasNonce :: "interest \<Rightarrow> bool" where
  "Interest_hasNonce i \<longleftrightarrow> Block_hasWire (i_nonce i)"

text \<open>A 32-bit word in memory, least significant byte first.\<close>

definition word32_bytes :: "u32 \<Rightarrow> byte list" where
  "word32_bytes n = rev (be_bytes 4 (unat n))"

definition word32_of_bytes :: "byte list \<Rightarrow> u32" where
  "word32_of_bytes bs = word_of_nat (be_value (rev bs))"

text \<open>
  \<^verbatim>\<open>memcpy\<close> to the value of the nonce element: its buffer is the one of the packet's wire, whose
  bytes at the same offsets change with it.
\<close>

fun write_buffer :: "nat \<Rightarrow> byte list \<Rightarrow> block \<Rightarrow> block" where
  "write_buffer off bs (Block buf t b e sz vb ve subs) =
     Block (map_option (write_at off bs) buf) t b e sz vb ve (map (write_buffer off bs) subs)"

definition Interest_setNonce :: "interest \<Rightarrow> u32 \<Rightarrow> interest res" where
  "Interest_setNonce i nonce =
     (if Block_hasWire (i_wire i) \<and> Block_value_size (i_nonce i) = 4 then
        (let write = write_buffer (m_value_begin (i_nonce i)) (word32_bytes nonce)
         in Inr (i\<lparr>i_nonce := write (i_nonce i), i_wire := write (i_wire i)\<rparr>))
      else case makeBinaryBlock tlv_Nonce (word32_bytes nonce) of
        Inl e \<Rightarrow> Inl e | Inr b \<Rightarrow> Inr (Interest_drop_wire (i\<lparr>i_nonce := b\<rparr>)))"

text \<open>\<open>word\<close> is the word \<^verbatim>\<open>random::generateWord32()\<close> would return.\<close>

definition Interest_getNonce :: "u32 \<Rightarrow> interest \<Rightarrow> (u32 \<times> interest) res" where
  "Interest_getNonce word i =
     (case (if \<not> Block_hasWire (i_nonce i) then Interest_setNonce i word else Inr i) of
        Inl e \<Rightarrow> Inl e
      | Inr i1 \<Rightarrow>
          if Block_value_size (i_nonce i1) = 4 then Inr (word32_of_bytes (value_bytes (i_nonce i1)), i1)
          else case readNonNegativeInteger_block (i_nonce i1) of Inl e \<Rightarrow> Inl e | Inr n \<Rightarrow> Inr (ucast n, i1))"

text \<open>
  The words drawn until one differs from the old nonce: \<open>words\<close> are the random words to come, \<open>None\<close>
  if they are exhausted first.
\<close>

definition Interest_refreshNonce :: "u32 list \<Rightarrow> interest \<Rightarrow> interest res option" where
  "Interest_refreshNonce words i =
     (if \<not> Interest_hasNonce i then Some (Inr i)
      else case Interest_getNonce 0 i of
        Inl e \<Rightarrow> Some (Inl e)
      | Inr (oldNonce, i1) \<Rightarrow> (case List.find (\<lambda>w. w \<noteq> oldNonce) words of
            None \<Rightarrow> None | Some newNonce \<Rightarrow> Some (Interest_setNonce i1 newNonce)))"

section \<open>Link\<close>

definition Interest_hasLink :: "interest \<Rightarrow> bool" where
  "Interest_hasLink i \<longleftrightarrow> Block_hasWire (i_link i)"

definition Interest_unsetSelectedDelegation :: "interest \<Rightarrow> interest" where
  "Interest_unsetSelectedDelegation i = Interest_drop_wire (i\<lparr>i_selectedDelegationIndex := INVALID_SELECTED_DELEGATION_INDEX\<rparr>)"

text \<open>When it throws, \<^verbatim>\<open>setLink\<close> has already replaced the link.\<close>

definition Interest_setLink :: "interest \<Rightarrow> block \<Rightarrow> error option \<times> interest" where
  "Interest_setLink i link =
     (let i1 = i\<lparr>i_link := link\<rparr>
      in if \<not> Block_hasWire link then (Some (InterestError ''The given link does not have a wire format''), i1)
         else (None, Interest_unsetSelectedDelegation (Interest_drop_wire i1)))"

definition Interest_unsetLink :: "interest \<Rightarrow> interest" where
  "Interest_unsetLink i = Interest_unsetSelectedDelegation (Interest_drop_wire (i\<lparr>i_link := Block_reset (i_link i)\<rparr>))"

definition Interest_hasSelectedDelegation :: "interest \<Rightarrow> bool" where
  "Interest_hasSelectedDelegation i \<longleftrightarrow> i_selectedDelegationIndex i \<noteq> INVALID_SELECTED_DELEGATION_INDEX"

definition Interest_getSelectedDelegation :: "interest \<Rightarrow> name res" where
  "Interest_getSelectedDelegation i =
     (if \<not> Interest_hasSelectedDelegation i then Inl (InterestError ''There is no encapsulated selected delegation'')
      else case Link_getDelegationFromWire (i_link i) (unat (i_selectedDelegationIndex i)) of
        Inl e \<Rightarrow> Inl e | Inr (_, n) \<Rightarrow> Inr n)"

definition Interest_setSelectedDelegation :: "interest \<Rightarrow> name \<Rightarrow> interest res" where
  "Interest_setSelectedDelegation i delegationName =
     (case Link_findDelegationFromWire (i_link i) delegationName of
        Inl e \<Rightarrow> Inl e
      | Inr delegationIndex \<Rightarrow>
          if delegationIndex \<noteq> INVALID_SELECTED_DELEGATION_INDEX
          then Inr (Interest_drop_wire (i\<lparr>i_selectedDelegationIndex := delegationIndex\<rparr>))
          else Inl (StdError ''Invalid selected delegation name''))"

section \<open>Matching\<close>

definition Interest_matchesName :: "interest \<Rightarrow> name \<Rightarrow> bool" where
  "Interest_matchesName i n =
     (let s = i_selectors i; size = Name_size n; own = Name_size (i_name i)
      in if size < own then False
         else if \<not> Name_isPrefixOf (i_name i) n then False
         else if sel_minSuffixComponents s \<ge> 0 \<and> \<not> size - own \<ge> nat (sel_minSuffixComponents s) then False
         else if sel_maxSuffixComponents s \<ge> 0 \<and> \<not> size - own \<le> nat (sel_maxSuffixComponents s) then False
         else if \<not> Exclude_empty (sel_exclude s) \<and> size > own
                 \<and> Exclude_isExcluded (sel_exclude s) (component_of (m_subBlocks n ! own)) then False
         else True)"

text \<open>The three checks of \<^verbatim>\<open>matchesData\<close> after those on the number of components.\<close>

definition matches_prefix :: "(byte list \<Rightarrow> byte list) \<Rightarrow> interest \<Rightarrow> data \<Rightarrow> bool res" where
  "matches_prefix sha256 i d =
     (if Name_size (i_name i) = Name_size (d_name d) + 1 then
        (case Name_get (i_name i) (- 1) of
           Inl e \<Rightarrow> Inl e
         | Inr c \<Rightarrow>
             if Component_isImplicitSha256Digest c then
               (case Data_getFullName sha256 d of Inl e \<Rightarrow> Inl e | Inr (fullName, _) \<Rightarrow> Inr (Name_equals (i_name i) fullName))
             else Inr False)
      else Inr (Name_isPrefixOf (i_name i) (d_name d)))"

definition matches_exclude :: "(byte list \<Rightarrow> byte list) \<Rightarrow> interest \<Rightarrow> data \<Rightarrow> bool res" where
  "matches_exclude sha256 i d =
     (let x = sel_exclude (i_selectors i); own = Name_size (i_name i); fullNameLength = Name_size (d_name d) + 1
      in if \<not> Exclude_empty x \<and> fullNameLength > own then
           (case (if own = fullNameLength - 1 then
                    (case Data_getFullName sha256 d of Inl e \<Rightarrow> Inl e | Inr (fullName, _) \<Rightarrow> Name_get fullName (int own))
                  else Name_get (d_name d) (int own)) of
              Inl e \<Rightarrow> Inl e | Inr c \<Rightarrow> Inr (\<not> Exclude_isExcluded x (component_of c)))
         else Inr True)"

definition matches_keyLocator :: "interest \<Rightarrow> data \<Rightarrow> bool res" where
  "matches_keyLocator i d =
     (let kl = sel_publisherPublicKeyLocator (i_selectors i)
      in if \<not> KeyLocator_empty kl then
           (case Signature_getInfo (d_signature d) of
              Inl e \<Rightarrow> Inl e
            | Inr signatureInfo \<Rightarrow> (case find_element signatureInfo tlv_KeyLocator of
                None \<Rightarrow> Inr False
              | Some it \<Rightarrow> (case KeyLocator_wireEncode kl of Inl e \<Rightarrow> Inl e | Inr (w, _) \<Rightarrow> Block_equals w it)))
         else Inr True)"

definition Interest_matchesData :: "(byte list \<Rightarrow> byte list) \<Rightarrow> interest \<Rightarrow> data \<Rightarrow> bool res" where
  "Interest_matchesData sha256 i d =
     (let s = i_selectors i; interestNameLength = Name_size (i_name i); fullNameLength = Name_size (d_name d) + 1;
          hasMinSuffixComponents = sel_minSuffixComponents s \<ge> 0;
          minSuffixComponents = (if hasMinSuffixComponents then nat (sel_minSuffixComponents s) else 0);
          hasMaxSuffixComponents = sel_maxSuffixComponents s \<ge> 0
      in if \<not> interestNameLength + minSuffixComponents \<le> fullNameLength then Inr False
         else if hasMaxSuffixComponents \<and> \<not> interestNameLength + nat (sel_maxSuffixComponents s) \<ge> fullNameLength then Inr False
         else and_then (matches_prefix sha256 i d) (and_then (matches_exclude sha256 i d) (matches_keyLocator i d)))"

definition Interest_matchesInterest :: "interest \<Rightarrow> interest \<Rightarrow> bool res" where
  "Interest_matchesInterest i other =
     and_then (Inr (Name_equals (i_name i) (i_name other))) (Selectors_equals (i_selectors i) (i_selectors other))"

section \<open>Wire encoding\<close>

definition link_template :: "'s encoding_ops \<Rightarrow> interest \<Rightarrow> ('s, nat) state" where
  "link_template ops i = do {
     n \<leftarrow> when_present (Interest_hasSelectedDelegation i)
            (prependNonNegativeIntegerBlock ops tlv_SelectedDelegation (i_selectedDelegationIndex i));
     k \<leftarrow> op_prependBlock ops (i_link i);
     State_Monad.return (n + k)
   }"

text \<open>The nonce is set by the time the template prepends it.\<close>

definition Interest_wireEncode_template :: "'s encoding_ops \<Rightarrow> interest \<Rightarrow> ('s, nat) state res" where
  "Interest_wireEncode_template ops i =
     (if \<not> Interest_hasLink i \<and> Interest_hasSelectedDelegation i
      then Inl (UndefinedBehaviour ''assertion failed: !hasSelectedDelegation()'')
      else case (if Interest_hasSelectors i then Selectors_wireEncode_template ops (i_selectors i) else Inr (State_Monad.return 0)) of
        Inl e \<Rightarrow> Inl e
      | Inr selectors \<Rightarrow> Inr (do {
          n1 \<leftarrow> when_present (Interest_hasLink i) (link_template ops i);
          n2 \<leftarrow> when_present (i_interestLifetime i \<ge> 0 \<and> i_interestLifetime i \<noteq> DEFAULT_INTEREST_LIFETIME)
                 (prependNonNegativeIntegerBlock ops tlv_InterestLifetime (word_of_int (i_interestLifetime i)));
          n3 \<leftarrow> op_prependBlock ops (i_nonce i);
          n4 \<leftarrow> selectors;
          n5 \<leftarrow> Name_wireEncode_template ops (i_name i);
          k \<leftarrow> op_prependVarNumber ops (word_of_nat (n1 + n2 + n3 + n4 + n5));
          j \<leftarrow> op_prependVarNumber ops (ucast tlv_Interest);
          State_Monad.return (n1 + n2 + n3 + n4 + n5 + k + j)
        }))"

definition Interest_decode_name :: "block \<Rightarrow> interest \<Rightarrow> error option \<times> interest" where
  "Interest_decode_name b i = (case Name_wireDecode (i_name i) b of (err, n) \<Rightarrow> (err, i\<lparr>i_name := n\<rparr>))"

definition Interest_decode_selectors :: "block \<Rightarrow> interest \<Rightarrow> error option \<times> interest" where
  "Interest_decode_selectors b i = (case Selectors_wireDecode (i_selectors i) b of (err, s) \<Rightarrow> (err, i\<lparr>i_selectors := s\<rparr>))"

definition Interest_decode_lifetime :: "block \<Rightarrow> interest \<Rightarrow> error option \<times> interest" where
  "Interest_decode_lifetime b i =
     (case readNonNegativeInteger_block b of
        Inl e \<Rightarrow> (Some e, i) | Inr n \<Rightarrow> (None, i\<lparr>i_interestLifetime := count_of_u64 n\<rparr>))"

definition Interest_decode_delegation :: "block \<Rightarrow> interest \<Rightarrow> error option \<times> interest" where
  "Interest_decode_delegation b i =
     (if \<not> Interest_hasLink i
      then (Some (InterestError ''Interest contains SelectedDelegation, but no LINK object''), i)
      else case readNonNegativeInteger_block b of
        Inl e \<Rightarrow> (Some e, i)
      | Inr selectedDelegation \<Rightarrow>
          (case Link_countDelegationsFromWire (i_link i) of
             Inl e \<Rightarrow> (Some e, i)
           | Inr n \<Rightarrow>
               if selectedDelegation < word_of_nat n then (None, i\<lparr>i_selectedDelegationIndex := selectedDelegation\<rparr>)
               else (Some (InterestError ''Invalid selected delegation index when decoding Interest''), i)))"

definition Interest_wireDecode :: "interest \<Rightarrow> block \<Rightarrow> error option \<times> interest" where
  "Interest_wireDecode i wire =
     (case Block_parse wire of
        (Some e, w) \<Rightarrow> (Some e, i\<lparr>i_wire := w\<rparr>)
      | (None, w) \<Rightarrow>
          (let i0 = i\<lparr>i_wire := w\<rparr>
           in if m_type w \<noteq> tlv_Interest
              then (Some (InterestError ''Unexpected TLV number when decoding Interest''), i0)
              else
                then_decode (then_decode (then_decode (then_decode (then_decode
                  (decode_required w tlv_Name Interest_decode_name i0)
                  (decode_optional w tlv_Selectors Interest_decode_selectors (\<lambda>i. i\<lparr>i_selectors := Selectors_default\<rparr>)))
                  (decode_required w tlv_Nonce (\<lambda>b i. (None, i\<lparr>i_nonce := b\<rparr>))))
                  (decode_optional w tlv_InterestLifetime Interest_decode_lifetime
                     (\<lambda>i. i\<lparr>i_interestLifetime := DEFAULT_INTEREST_LIFETIME\<rparr>)))
                  (decode_optional w tlv_Data (\<lambda>b i. (None, i\<lparr>i_link := b\<rparr>)) (\<lambda>i. i\<lparr>i_link := Block_default\<rparr>)))
                  (decode_optional w tlv_SelectedDelegation Interest_decode_delegation
                     (\<lambda>i. i\<lparr>i_selectedDelegationIndex := INVALID_SELECTED_DELEGATION_INDEX\<rparr>))))"

definition Interest_wireEncode :: "u32 \<Rightarrow> interest \<Rightarrow> (block \<times> interest) res" where
  "Interest_wireEncode word i =
     (if Block_hasWire (i_wire i) then Inr (i_wire i, i)
      else case Interest_getNonce word i of
        Inl e \<Rightarrow> Inl e
      | Inr (_, i1) \<Rightarrow>
          (case try_encode (Interest_wireEncode_template estimator_ops i1) (Interest_wireEncode_template encoder_ops i1) of
             Inl e \<Rightarrow> Inl e
           | Inr b \<Rightarrow> (case Interest_wireDecode i1 b of (Some e, _) \<Rightarrow> Inl e | (None, i2) \<Rightarrow> Inr (i_wire i2, i2))))"

definition Interest_of_block :: "block \<Rightarrow> interest res" where
  "Interest_of_block wire = (case Interest_wireDecode Interest_default wire of (Some e, _) \<Rightarrow> Inl e | (None, i) \<Rightarrow> Inr i)"

section \<open>Matching on abstract names\<close>

text \<open>What selectors admit: a full name under the prefix, with a number of further components within the limits, the first not excluded.\<close>

definition admits :: "selectors \<Rightarrow> component list \<Rightarrow> component list \<Rightarrow> bool" where
  "admits s pre full \<longleftrightarrow> take (length pre) full = pre
     \<and> (0 \<le> sel_minSuffixComponents s \<longrightarrow> length pre + nat (sel_minSuffixComponents s) \<le> length full)
     \<and> (0 \<le> sel_maxSuffixComponents s \<longrightarrow> length full \<le> length pre + nat (sel_maxSuffixComponents s))
     \<and> (length pre < length full \<longrightarrow> \<not> isExcluded (ex_entries (sel_exclude s)) (full ! length pre))"

lemma prefix_take: "(\<exists>rest. xs = ys @ rest) \<longleftrightarrow> take (length ys) xs = ys"
  by (metis append_eq_conv_conj append_take_drop_id)

lemma isExcluded_Nil [simp]: "\<not> isExcluded [] c"
  by (simp add: isExcluded_def lower_bound_def)

lemma isExcluded_empty: "Exclude_empty x \<Longrightarrow> \<not> isExcluded (ex_entries x) c"
  by (simp add: Exclude_empty_def isExcluded_def lower_bound_def)

lemma Interest_matchesName_iff:
  assumes "name_block (i_name i)" and "name_block n"
  shows "Interest_matchesName i n \<longleftrightarrow> admits (i_selectors i) (name_of (i_name i)) (name_of n)"
proof (cases "Name_isPrefixOf (i_name i) n")
  case True
  then have t: "take (Name_size (i_name i)) (name_of n) = name_of (i_name i)"
    using Name_isPrefixOf_iff [OF assms] prefix_take [of "name_of n" "name_of (i_name i)"] by simp
  then have "Name_size (i_name i) \<le> Name_size n" by (metis length_name_of length_take min.absorb_iff2)
  then show ?thesis using True t isExcluded_empty [of "sel_exclude (i_selectors i)"]
    by (auto simp: Interest_matchesName_def admits_def Let_def Exclude_isExcluded_def not_le)
next
  case False
  then have "take (Name_size (i_name i)) (name_of n) \<noteq> name_of (i_name i)"
    using Name_isPrefixOf_iff [OF assms] prefix_take [of "name_of n" "name_of (i_name i)"] by simp
  then show ?thesis using False by (simp add: Interest_matchesName_def admits_def Let_def)
qed

text \<open>The full name of a packet that has a wire and whose full name has not been computed.\<close>

definition digest_component :: "(byte list \<Rightarrow> byte list) \<Rightarrow> data \<Rightarrow> component" where
  "digest_component sha256 d = Component tlv_ImplicitSha256DigestComponent (sha256 (wire_bytes (d_wire d)))"

definition has_digest :: "(byte list \<Rightarrow> byte list) \<Rightarrow> data \<Rightarrow> bool" where
  "has_digest sha256 d \<longleftrightarrow> Block_hasWire (d_wire d) \<and> Name_empty (d_fullName d)
     \<and> length (sha256 (wire_bytes (d_wire d))) = SHA256_DIGEST_SIZE
     \<and> name_block (d_name d) \<and> Name_size (d_name d) + 1 < 2 ^ 31"

lemma Data_getFullName_digest:
  assumes "has_digest sha256 d"
  shows "\<exists>full. Data_getFullName sha256 d = Inr (full, d\<lparr>d_fullName := full\<rparr>) \<and> name_block full
     \<and> name_of full = name_of (d_name d) @ [digest_component sha256 d]"
proof -
  let ?v = "sha256 (wire_bytes (d_wire d))"
  define b where "b = Block_of_type_value tlv_ImplicitSha256DigestComponent ?v"
  have v: "length ?v = 32" using assms by (simp add: has_digest_def SHA256_DIGEST_SIZE_def)
  have "Component_of_block b = Inr b" using v
    by (simp add: Component_of_block_def Component_isImplicitSha256Digest_def Block_value_size_def b_def Block_of_type_value_ok(3,4)
        SHA256_DIGEST_SIZE_def) (simp add: Block_of_type_value_def)
  then have e: "Data_getFullName sha256 d = Inr (Block_push_back (d_name d) b, d\<lparr>d_fullName := Block_push_back (d_name d) b\<rparr>)"
    using assms v by (simp add: Data_getFullName_def has_digest_def Name_appendImplicitSha256Digest_def Name_append_made_def
        Component_fromImplicitSha256Digest_def SHA256_DIGEST_SIZE_def b_def)
  have "component_block b" using v Block_of_type_value_ok(1) [of ?v tlv_ImplicitSha256DigestComponent]
    by (simp add: component_block_def b_def Block_of_type_value_ok(4,5) blk_ok_def)
  moreover have "m_subBlocks (Block_push_back (d_name d) b) = m_subBlocks (d_name d) @ [b]"
    by (simp add: Block_push_back_def Block_with_elements_def)
  ultimately show ?thesis using e assms
    by (simp add: name_block_def has_digest_def Name_size_def name_of_def component_of_def b_def Block_of_type_value_ok(4,5) digest_component_def)
qed

lemma matches_prefix_iff:
  assumes "has_digest sha256 d" and "name_block (i_name i)" and "Name_size (i_name i) \<le> Name_size (d_name d) + 1"
  shows "matches_prefix sha256 i d =
     Inr (take (Name_size (i_name i)) (name_of (d_name d) @ [digest_component sha256 d]) = name_of (i_name i))"
proof -
  let ?A = "name_of (i_name i)" and ?D = "name_of (d_name d)" and ?c = "digest_component sha256 d"
  obtain full where full: "Data_getFullName sha256 d = Inr (full, d\<lparr>d_fullName := full\<rparr>)" "name_block full" "name_of full = ?D @ [?c]"
    using Data_getFullName_digest [OF assms(1)] by blast
  have d: "name_block (d_name d)" and dig: "length (sha256 (wire_bytes (d_wire d))) = SHA256_DIGEST_SIZE"
    using assms(1) by (simp_all add: has_digest_def)
  show ?thesis
  proof (cases "Name_size (i_name i) = Name_size (d_name d) + 1")
    case True
    let ?l = "m_subBlocks (i_name i) ! Name_size (d_name d)"
    have get: "Name_get (i_name i) (- 1) = Inr ?l" using True by (simp add: Name_get_def)
    have digest: "Component_isImplicitSha256Digest ?l" if "?A = ?D @ [?c]"
    proof -
      have "component_of ?l = ?c" using that True by (metis length_name_of less_add_one name_of_nth nth_append_length)
      moreover have "block_wf ?l" using name_block_nth [OF assms(2)] True by (simp add: component_block_def)
      ultimately show ?thesis using dig
        by (auto simp: digest_component_def component_of_def Component_isImplicitSha256Digest_def wf_value_size)
    qed
    have "Name_equals (i_name i) full \<longleftrightarrow> ?A = ?D @ [?c]" using Name_equals_iff [OF assms(2) full(2)] full(3) by simp
    moreover have "take (Name_size (i_name i)) (?D @ [?c]) = ?D @ [?c]" using True by simp
    ultimately show ?thesis using True get digest full(1) by (auto simp: matches_prefix_def)
  next
    case False
    then have "take (Name_size (i_name i)) (?D @ [?c]) = take (Name_size (i_name i)) ?D" using assms(3) by simp
    then show ?thesis using False Name_isPrefixOf_iff [OF assms(2) d] prefix_take [of ?D ?A] by (simp add: matches_prefix_def)
  qed
qed

lemma matches_exclude_iff:
  assumes "has_digest sha256 d" and "Name_size (i_name i) \<le> Name_size (d_name d) + 1"
  shows "matches_exclude sha256 i d = Inr (Name_size (i_name i) < Name_size (d_name d) + 1 \<longrightarrow>
     \<not> isExcluded (ex_entries (sel_exclude (i_selectors i))) ((name_of (d_name d) @ [digest_component sha256 d]) ! Name_size (i_name i)))"
proof -
  let ?n = "Name_size (i_name i)" and ?D = "name_of (d_name d)" and ?c = "digest_component sha256 d"
  obtain full where full: "Data_getFullName sha256 d = Inr (full, d\<lparr>d_fullName := full\<rparr>)" "name_of full = ?D @ [?c]"
    using Data_getFullName_digest [OF assms(1)] by blast
  have "Name_size full = Name_size (d_name d) + 1" using full(2) by (metis length_append_singleton length_name_of Suc_eq_plus1)
  moreover from this have "component_of (m_subBlocks full ! ?n) = (?D @ [?c]) ! ?n" if "?n = Name_size (d_name d)"
    using that full(2) by (metis less_add_one name_of_nth)
  moreover have "component_of (m_subBlocks (d_name d) ! ?n) = (?D @ [?c]) ! ?n" if "?n < Name_size (d_name d)"
    using that by (simp add: nth_append)
  ultimately show ?thesis using full(1) assms(2) isExcluded_empty [of "sel_exclude (i_selectors i)"]
    by (auto simp: matches_exclude_def Let_def Exclude_isExcluded_def Name_get_def)
qed

lemma and_then_Inr [simp]: "and_then (Inr p) b = (if p then b else Inr False)"
  by (cases p) (simp_all add: and_then_def)

lemma Interest_matchesData_iff:
  assumes "has_digest sha256 d" and "name_block (i_name i)"
  shows "Interest_matchesData sha256 i d =
     (if admits (i_selectors i) (name_of (i_name i)) (name_of (d_name d) @ [digest_component sha256 d])
      then matches_keyLocator i d else Inr False)"
proof (cases "Name_size (i_name i) \<le> Name_size (d_name d) + 1")
  case True
  show ?thesis
    unfolding Interest_matchesData_def Let_def matches_prefix_iff [OF assms True] matches_exclude_iff [OF assms(1) True] admits_def
    using True by auto
next
  case False
  then have "take (Name_size (i_name i)) (name_of (d_name d) @ [digest_component sha256 d]) \<noteq> name_of (i_name i)"
    by (metis Suc_eq_plus1 length_append_singleton length_name_of length_take min.cobounded1)
  then show ?thesis using False by (simp add: Interest_matchesData_def Let_def admits_def)
qed

section \<open>Encoding and decoding\<close>

definition lifetime_written :: "interest \<Rightarrow> bool" where
  "lifetime_written i \<longleftrightarrow> i_interestLifetime i \<ge> 0 \<and> i_interestLifetime i \<noteq> DEFAULT_INTEREST_LIFETIME"

definition int_tlvs :: "interest \<Rightarrow> (u32 \<times> byte list) list" where
  "int_tlvs i = (tlv_Name, tlvs_wire (name_tlvs (name_of (i_name i))))
     # opt_tlv (Interest_hasSelectors i) tlv_Selectors (tlvs_wire (sel_tlvs (i_selectors i)))
     @ (tlv_Nonce, value_bytes (i_nonce i))
     # opt_tlv (lifetime_written i) tlv_InterestLifetime (nonNegativeInteger_bytes (word_of_int (i_interestLifetime i)))
     @ opt_tlv (Interest_hasLink i) tlv_Data (value_bytes (i_link i))"

text \<open>An Interest without a selected delegation, its parts canonical.\<close>

definition int_ok :: "interest \<Rightarrow> bool" where
  "int_ok i \<longleftrightarrow> name_block (i_name i) \<and> fits (tlvs_wire (name_tlvs (name_of (i_name i))))
     \<and> sel_ok (i_selectors i) \<and> i_interestLifetime i < 2 ^ 63
     \<and> (Interest_hasLink i \<longrightarrow> blk_ok (i_link i) \<and> m_type (i_link i) = tlv_Data)
     \<and> \<not> Interest_hasSelectedDelegation i"

definition nonce_ok :: "block \<Rightarrow> bool" where
  "nonce_ok b \<longleftrightarrow> blk_ok b \<and> Block_hasWire b \<and> m_type b = tlv_Nonce \<and> length (value_bytes b) = 4"

definition int_same :: "interest \<Rightarrow> interest \<Rightarrow> bool" where
  "int_same i i' \<longleftrightarrow> name_of (i_name i') = name_of (i_name i)
     \<and> (if Interest_hasSelectors i then sel_same (i_selectors i) (i_selectors i') else i_selectors i' = Selectors_default)
     \<and> block_tlv (i_nonce i') = block_tlv (i_nonce i)
     \<and> i_interestLifetime i' = (if i_interestLifetime i < 0 then DEFAULT_INTEREST_LIFETIME else i_interestLifetime i)
     \<and> (if Interest_hasLink i then block_tlv (i_link i') = block_tlv (i_link i) else i_link i' = Block_default)
     \<and> \<not> Interest_hasSelectedDelegation i'"

context encoding_impl
begin

lemma Interest_wireEncode_prepends:
  assumes "int_ok i" and "nonce_ok (i_nonce i)"
  shows "\<exists>m. Interest_wireEncode_template ops i = Inr m \<and>
     prepends R m (tlv_wire tlv_Interest (tlvs_wire (int_tlvs i))) (length (tlv_wire tlv_Interest (tlvs_wire (int_tlvs i))))"
proof -
  let ?s = "opt_tlv (Interest_hasSelectors i) tlv_Selectors (tlvs_wire (sel_tlvs (i_selectors i)))"
  have ok: "\<forall>c \<in> set (m_subBlocks (i_name i)). block_wf c" "kl_ok (sel_publisherPublicKeyLocator (i_selectors i))"
      "\<not> Interest_hasSelectedDelegation i"
    using assms(1) by (simp_all add: int_ok_def name_block_def component_block_def sel_ok_def)
  have pb: "blk_ok b \<Longrightarrow> prepends R (op_prependBlock ops b) (tlv_wire (m_type b) (value_bytes b)) (length (tlv_wire (m_type b) (value_bytes b)))" for b
    by (intro prependBlock_tlv) (auto simp: blk_ok_def)
  obtain m where m: "(if Interest_hasSelectors i then Selectors_wireEncode_template ops (i_selectors i) else Inr (State_Monad.return 0)) = Inr m"
    "prepends R m (tlvs_wire ?s) (length (tlvs_wire ?s))"
    using Selectors_wireEncode_prepends [OF ok(2)] prepends_return [of R 0]
    by (cases "Interest_hasSelectors i") (auto simp: opt_tlv_def)
  have none: "prepends R (when_present (Interest_hasSelectedDelegation i) m') [] 0" for m'
    using ok(3) by (simp add: when_present_def prepends_return)
  let ?l = "opt_tlv (Interest_hasLink i) tlv_Data (value_bytes (i_link i))"
  have link: "prepends R (when_present (Interest_hasLink i) (link_template ops i)) (tlvs_wire ?l) (length (tlvs_wire ?l))"
  proof (cases "Interest_hasLink i")
    case True
    with assms(1) have l: "blk_ok (i_link i)" "m_type (i_link i) = tlv_Data" by (simp_all add: int_ok_def)
    have "prepends R (link_template ops i) (tlv_wire tlv_Data (value_bytes (i_link i))) (length (tlv_wire tlv_Data (value_bytes (i_link i))))"
      unfolding link_template_def by (rule prepends_cong, (rule prepends_bind none pb [OF l(1)] prepends_return)+) (simp_all add: l(2))
    then show ?thesis using True by (simp add: when_present_def opt_tlv_def)
  qed (simp add: when_present_def opt_tlv_def prepends_return)
  have n: "blk_ok (i_nonce i)" "m_type (i_nonce i) = tlv_Nonce" using assms(2) by (simp_all add: nonce_ok_def)
  show ?thesis unfolding Interest_wireEncode_template_def m(1) sum.case
    using ok(3) by (simp only: simp_thms if_False)
      (rule exI, rule conjI, rule refl, rule prepends_cong,
        (rule prepends_bind link m(2) pb [OF n(1)] when_present_prepends prependNonNegativeIntegerBlock_prepends
          Name_wireEncode_prepends [OF ok(1)] prependVarNumber prepends_return)+,
        simp_all add: int_tlvs_def lifetime_written_def n(2) name_tlvs_of tlv_wire_def size_simps ac_simps)
qed

end

lemma int_tlvs_lookup:
  "map_of (int_tlvs i) tlv_Name = Some (tlvs_wire (name_tlvs (name_of (i_name i))))"
  "map_of (int_tlvs i) tlv_Selectors = (if Interest_hasSelectors i then Some (tlvs_wire (sel_tlvs (i_selectors i))) else None)"
  "map_of (int_tlvs i) tlv_Nonce = Some (value_bytes (i_nonce i))"
  "map_of (int_tlvs i) tlv_InterestLifetime =
     (if lifetime_written i then Some (nonNegativeInteger_bytes (word_of_int (i_interestLifetime i))) else None)"
  "map_of (int_tlvs i) tlv_Data = (if Interest_hasLink i then Some (value_bytes (i_link i)) else None)"
  "map_of (int_tlvs i) tlv_SelectedDelegation = None"
  by (simp_all add: int_tlvs_def opt_tlv_def tlv_codes)

lemma decode_optional_tlvs:
  assumes "map block_tlv (m_subBlocks w) = es" and "\<forall>i \<in> set (m_subBlocks w). fresh_block i"
  shows "map_of es t = None \<Longrightarrow> decode_optional w t f absent x = (None, absent x)"
    and "map_of es t = Some v \<Longrightarrow> \<exists>b. fresh_block b \<and> block_tlv b = (t, v) \<and> decode_optional w t f absent x = f b x"
    and "map_of es t = Some v \<Longrightarrow> \<exists>b. fresh_block b \<and> block_tlv b = (t, v) \<and> decode_required w t f x = f b x"
  using find_element_tlvs [OF assms, of t]
  by (auto simp: decode_optional_def decode_required_def Block_get_find)

lemma decode_selectors_stage:
  assumes "map block_tlv (m_subBlocks p) = int_tlvs i" and "\<forall>b \<in> set (m_subBlocks p). fresh_block b" and "int_ok i"
  shows "\<exists>s. decode_optional p tlv_Selectors Interest_decode_selectors (\<lambda>i. i\<lparr>i_selectors := Selectors_default\<rparr>) x
      = (None, x\<lparr>i_selectors := s\<rparr>) \<and> (if Interest_hasSelectors i then sel_same (i_selectors i) s else s = Selectors_default)"
proof (cases "Interest_hasSelectors i")
  case True
  then have "map_of (int_tlvs i) tlv_Selectors = Some (tlvs_wire (sel_tlvs (i_selectors i)))" by (simp add: int_tlvs_lookup)
  from decode_optional_tlvs(2) [OF assms(1,2) this, where f = Interest_decode_selectors
      and absent = "\<lambda>i. i\<lparr>i_selectors := Selectors_default\<rparr>" and x = x]
  obtain b where b: "fresh_block b"
    "block_tlv b = (tlv_Selectors, tlvs_wire (sel_tlvs (i_selectors i)))"
    "decode_optional p tlv_Selectors Interest_decode_selectors (\<lambda>i. i\<lparr>i_selectors := Selectors_default\<rparr>) x = Interest_decode_selectors b x"
    by blast
  have "sel_ok (i_selectors i)" using assms(3) by (simp add: int_ok_def)
  from Selectors_wireDecode_fresh [OF b(1,2) this, of "i_selectors x"] b(3) True show ?thesis
    by (auto simp: Interest_decode_selectors_def)
next
  case False
  then have "map_of (int_tlvs i) tlv_Selectors = None" by (simp add: int_tlvs_lookup)
  from decode_optional_tlvs(1) [OF assms(1,2) this] False show ?thesis by auto
qed

lemma decode_lifetime_stage:
  assumes "map block_tlv (m_subBlocks p) = int_tlvs i" and "\<forall>b \<in> set (m_subBlocks p). fresh_block b" and "int_ok i"
  shows "decode_optional p tlv_InterestLifetime Interest_decode_lifetime (\<lambda>i. i\<lparr>i_interestLifetime := DEFAULT_INTEREST_LIFETIME\<rparr>) x
      = (None, x\<lparr>i_interestLifetime := (if i_interestLifetime i < 0 then DEFAULT_INTEREST_LIFETIME else i_interestLifetime i)\<rparr>)"
proof (cases "lifetime_written i")
  case True
  then have "map_of (int_tlvs i) tlv_InterestLifetime = Some (nonNegativeInteger_bytes (word_of_int (i_interestLifetime i)))"
    by (simp add: int_tlvs_lookup)
  from decode_optional_tlvs(2) [OF assms(1,2) this, where f = Interest_decode_lifetime
      and absent = "\<lambda>i. i\<lparr>i_interestLifetime := DEFAULT_INTEREST_LIFETIME\<rparr>" and x = x]
  obtain b where b: "fresh_block b"
    "block_tlv b = (tlv_InterestLifetime, nonNegativeInteger_bytes (word_of_int (i_interestLifetime i)))"
    "decode_optional p tlv_InterestLifetime Interest_decode_lifetime (\<lambda>i. i\<lparr>i_interestLifetime := DEFAULT_INTEREST_LIFETIME\<rparr>) x
      = Interest_decode_lifetime b x" by blast
  then show ?thesis using True assms(3) readNonNegativeInteger_block_tlv [of b]
    by (simp add: Interest_decode_lifetime_def fresh_block_def block_tlv_def lifetime_written_def count_of_u64_of_int int_ok_def)
next
  case False
  then have "map_of (int_tlvs i) tlv_InterestLifetime = None" by (simp add: int_tlvs_lookup)
  from decode_optional_tlvs(1) [OF assms(1,2) this] False show ?thesis by (auto simp: lifetime_written_def)
qed

lemma decode_link_stage:
  assumes "map block_tlv (m_subBlocks p) = int_tlvs i" and "\<forall>b \<in> set (m_subBlocks p). fresh_block b" and "int_ok i"
  shows "\<exists>l. decode_optional p tlv_Data (\<lambda>b i. (None, i\<lparr>i_link := b\<rparr>)) (\<lambda>i. i\<lparr>i_link := Block_default\<rparr>) x = (None, x\<lparr>i_link := l\<rparr>)
      \<and> (if Interest_hasLink i then block_tlv l = block_tlv (i_link i) else l = Block_default)"
proof (cases "Interest_hasLink i")
  case True
  then have "map_of (int_tlvs i) tlv_Data = Some (value_bytes (i_link i))" by (simp add: int_tlvs_lookup)
  from decode_optional_tlvs(2) [OF assms(1,2) this, where f = "\<lambda>b i. (None, i\<lparr>i_link := b\<rparr>)"
      and absent = "\<lambda>i. i\<lparr>i_link := Block_default\<rparr>" and x = x] True assms(3) show ?thesis
    by (auto simp: int_ok_def block_tlv_def)
next
  case False
  then have "map_of (int_tlvs i) tlv_Data = None" by (simp add: int_tlvs_lookup)
  from decode_optional_tlvs(1) [OF assms(1,2) this] False show ?thesis by auto
qed

lemma Interest_wireDecode_fresh:
  assumes "fresh_block w" and "block_tlv w = (tlv_Interest, tlvs_wire (int_tlvs i))" and "int_ok i" and "nonce_ok (i_nonce i)"
  shows "\<exists>i'. Interest_wireDecode i0 w = (None, i') \<and> int_same i i' \<and> wire_bytes (i_wire i') = wire_bytes w"
proof -
  have v: "value_bytes w = tlvs_wire (int_tlvs i)" using assms(2) by (simp add: block_tlv_def)
  have "\<forall>(t, v) \<in> set (int_tlvs i). fits v"
    using assms(3,4) by (auto simp: int_tlvs_def int_ok_def sel_ok_def blk_ok_def nonce_ok_def)
  from Block_parse_fresh [OF assms(1) v this] obtain p where p: "Block_parse w = (None, p)" "map block_tlv (m_subBlocks p) = int_tlvs i"
    "block_tlv p = block_tlv w" "wire_bytes p = wire_bytes w" "\<forall>b \<in> set (m_subBlocks p). fresh_block b" by blast
  note stage = decode_optional_tlvs [OF p(2,5)]
  define i1 where "i1 = i0\<lparr>i_wire := p\<rparr>"
  obtain b where b: "fresh_block b" "block_tlv b = (tlv_Name, tlvs_wire (name_tlvs (name_of (i_name i))))"
      "decode_required p tlv_Name Interest_decode_name i1 = Interest_decode_name b i1"
    using stage(3) [OF int_tlvs_lookup(1), where f = Interest_decode_name and x = i1] by blast
  have "name_block (i_name i)" using assms(3) by (simp add: int_ok_def)
  from Name_wireDecode_fresh [OF b(1,2) name_tlvs_fits [OF this], of "i_name i1"] b(3)
  obtain n where n: "decode_required p tlv_Name Interest_decode_name i1 = (None, i1\<lparr>i_name := n\<rparr>)" "name_of n = name_of (i_name i)"
    by (auto simp: Interest_decode_name_def)
  obtain s where s: "decode_optional p tlv_Selectors Interest_decode_selectors (\<lambda>i. i\<lparr>i_selectors := Selectors_default\<rparr>) (i1\<lparr>i_name := n\<rparr>)
      = (None, i1\<lparr>i_name := n, i_selectors := s\<rparr>)" "if Interest_hasSelectors i then sel_same (i_selectors i) s else s = Selectors_default"
    using decode_selectors_stage [OF p(2,5) assms(3)] by blast
  define i3 where "i3 = i1\<lparr>i_name := n, i_selectors := s\<rparr>"
  obtain nb where nb: "decode_required p tlv_Nonce (\<lambda>b i. (None, i\<lparr>i_nonce := b\<rparr>)) i3 = (None, i3\<lparr>i_nonce := nb\<rparr>)"
      "block_tlv nb = (tlv_Nonce, value_bytes (i_nonce i))"
    using stage(3) [OF int_tlvs_lookup(3), where f = "\<lambda>b i. (None, i\<lparr>i_nonce := b\<rparr>)" and x = i3] by blast
  define i4 where "i4 = i3\<lparr>i_nonce := nb, i_interestLifetime := (if i_interestLifetime i < 0 then DEFAULT_INTEREST_LIFETIME else i_interestLifetime i)\<rparr>"
  note lt = decode_lifetime_stage [OF p(2,5) assms(3), of "i3\<lparr>i_nonce := nb\<rparr>", folded i4_def]
  obtain l where l: "decode_optional p tlv_Data (\<lambda>b i. (None, i\<lparr>i_link := b\<rparr>)) (\<lambda>i. i\<lparr>i_link := Block_default\<rparr>) i4 = (None, i4\<lparr>i_link := l\<rparr>)"
    "if Interest_hasLink i then block_tlv l = block_tlv (i_link i) else l = Block_default"
    using decode_link_stage [OF p(2,5) assms(3)] by blast
  have "m_type p = tlv_Interest" using p(3) assms(2) by (simp add: block_tlv_def)
  then have "Interest_wireDecode i0 w = (None, i4\<lparr>i_link := l, i_selectedDelegationIndex := INVALID_SELECTED_DELEGATION_INDEX\<rparr>)"
    using p(1) n(1) s(1) nb(1) lt l(1) stage(1) [OF int_tlvs_lookup(6)]
    by (simp add: Interest_wireDecode_def Let_def then_decode_def i1_def [symmetric] i3_def [symmetric])
  moreover have "m_type (i_nonce i) = tlv_Nonce" using assms(4) by (simp add: nonce_ok_def)
  ultimately show ?thesis using n(2) s(2) nb(2) l(2) p(4)
    by (simp add: int_same_def i1_def i3_def i4_def Interest_hasSelectedDelegation_def block_tlv_def [of "i_nonce i"])
qed

lemma word32_roundtrip [simp]: "word32_of_bytes (word32_bytes w) = w" "length (word32_bytes w) = 4"
  using unat_u32_less [of w] by (simp_all add: word32_of_bytes_def word32_bytes_def be_value_be_bytes)

lemma Interest_getNonce_ok:
  assumes "\<not> Block_hasWire (i_wire i)" and "Interest_hasNonce i \<Longrightarrow> nonce_ok (i_nonce i)"
  shows "\<exists>b. nonce_ok b \<and> Interest_getNonce word i = Inr (word32_of_bytes (value_bytes b), if Interest_hasNonce i then i else Interest_drop_wire (i\<lparr>i_nonce := b\<rparr>))
     \<and> (if Interest_hasNonce i then b = i_nonce i else value_bytes b = word32_bytes word)"
proof -
  have size: "nonce_ok b \<Longrightarrow> Block_value_size b = 4" for b by (simp add: nonce_ok_def blk_ok_def wf_value_size)
  show ?thesis
  proof (cases "Interest_hasNonce i")
    case True
    with assms(2) size show ?thesis by (auto simp: Interest_getNonce_def Interest_hasNonce_def)
  next
    case False
    have f: "fits (word32_bytes word)" by (simp add: fits_def)
    obtain b where b: "makeBinaryBlock tlv_Nonce (word32_bytes word) = Inr b" "block_tlv b = (tlv_Nonce, word32_bytes word)"
      "wire_bytes b = tlv_wire tlv_Nonce (word32_bytes word)" "block_wf b" "Block_hasWire b"
      using makeBinaryBlock_wire [OF f] by blast
    then have n: "nonce_ok b" using f by (simp add: nonce_ok_def blk_ok_def block_tlv_def)
    then show ?thesis using False b size [OF n] assms(1)
      by (intro exI [of _ b]) (simp add: Interest_getNonce_def Interest_hasNonce_def Interest_setNonce_def block_tlv_def Interest_drop_wire_def)
  qed
qed

section \<open>Properties\<close>

text \<open>
  C22: matching a packet is matching its full name. For a packet with a wire, \<^verbatim>\<open>matchesData\<close> throws
  nothing before the check of the key locator and agrees with \<^verbatim>\<open>matchesName\<close> on the full name: the
  Interest's name is a prefix, the number of further components, the digest included, is within the
  limits, and the first of them is not excluded.
\<close>

theorem Interest_matchesData_fullName:
  assumes "has_digest sha256 d" and "name_block (i_name i)"
  shows "\<exists>full. Data_getFullName sha256 d = Inr (full, d\<lparr>d_fullName := full\<rparr>)
     \<and> Interest_matchesData sha256 i d = (if Interest_matchesName i full then matches_keyLocator i d else Inr False)
     \<and> (Interest_matchesName i full \<longleftrightarrow>
          admits (i_selectors i) (name_of (i_name i)) (name_of (d_name d) @ [digest_component sha256 d]))"
proof -
  obtain full where full: "Data_getFullName sha256 d = Inr (full, d\<lparr>d_fullName := full\<rparr>)" "name_block full"
    "name_of full = name_of (d_name d) @ [digest_component sha256 d]" using Data_getFullName_digest [OF assms(1)] by blast
  then show ?thesis using Interest_matchesName_iff [OF assms(2) full(2)] Interest_matchesData_iff [OF assms] by simp
qed

theorem Interest_matchesData_fullName_witness:
  "\<exists>d. name_of (d_name d) = [Component 8 [97]] \<and> Interest_matchesData (\<lambda>_. replicate 32 0) (Interest_of_name name_a) d = Inr True
     \<and> Interest_matchesData (\<lambda>_. replicate 32 0) (Interest_of_name name_a_b) d = Inr False"
proof -
  define d where "d = example_data\<lparr>d_wire := Block (Some [6, 0]) tlv_Data 0 2 2 2 2 []\<rparr>"
  have n: "d_name d = name_a" by (simp add: d_def example_data_def Data_of_name_def)
  have "has_digest (\<lambda>_. replicate 32 0) d"
    by (simp add: has_digest_def n example_names Name_size_def) (simp add: d_def Block_hasWire_def example_data_def Data_of_name_def
        Data_default_def Name_empty_def Name_default_def Block_of_type_def SHA256_DIGEST_SIZE_def)
  note match = Interest_matchesData_fullName [OF this]
  have "name_block (i_name (Interest_of_name name_a))" "name_block (i_name (Interest_of_name name_a_b))"
    by (simp_all add: Interest_of_name_def example_names)
  moreover have "admits (i_selectors (Interest_of_name name_a)) (name_of name_a) (name_of name_a @ [c])"
    "\<not> admits (i_selectors (Interest_of_name name_a_b)) (name_of name_a_b) (name_of name_a @ [c])" if "comp_type c = 1" for c
    using that by (auto simp: admits_def Interest_of_name_def Interest_default_def Selectors_default_def example_names
        isExcluded_empty Exclude_default_def Exclude_empty_def)
  moreover have "matches_keyLocator (Interest_of_name name_a) d = Inr True" "comp_type (digest_component (\<lambda>_. replicate 32 0) d) = 1"
    "i_name (Interest_of_name m) = m" for m
    by (simp_all add: matches_keyLocator_def Interest_of_name_def Interest_default_def Selectors_default_def
        KeyLocator_default_def KeyLocator_empty_def digest_component_def tlv_codes)
  ultimately have "Interest_matchesData (\<lambda>_. replicate 32 0) (Interest_of_name name_a) d = Inr True"
    "Interest_matchesData (\<lambda>_. replicate 32 0) (Interest_of_name name_a_b) d = Inr False"
    using match [of "Interest_of_name name_a"] match [of "Interest_of_name name_a_b"] n by auto
  with n example_names(6) show ?thesis by metis
qed

text \<open>
  C31: an Interest without a selected delegation encodes, drawing a nonce if it has none, and the wire
  decodes to the same Interest: name, selectors, nonce, link, and lifetime, an unset lifetime
  becoming the default one.
\<close>

theorem Interest_wire_roundtrip:
  assumes "int_ok i" and "Interest_hasNonce i \<Longrightarrow> nonce_ok (i_nonce i)" and "\<not> Block_hasWire (i_wire i)"
    and "length (tlvs_wire (int_tlvs i)) + 4 < 2 ^ 64"
  shows "\<exists>nonce i1 b i2. Interest_getNonce word i = Inr (nonce, i1) \<and> (\<not> Interest_hasNonce i \<longrightarrow> nonce = word)
     \<and> Interest_wireEncode word i = Inr (b, i2)
     \<and> (\<forall>rest. \<exists>w i'. Block_of_bytes (wire_bytes b @ rest) = Inr w \<and> Interest_of_block w = Inr i' \<and> int_same i1 i')"
proof -
  obtain nb where nb: "nonce_ok nb" "Interest_getNonce word i
      = Inr (word32_of_bytes (value_bytes nb), if Interest_hasNonce i then i else Interest_drop_wire (i\<lparr>i_nonce := nb\<rparr>))"
    "if Interest_hasNonce i then nb = i_nonce i else value_bytes nb = word32_bytes word"
    using Interest_getNonce_ok [OF assms(3,2)] by blast
  define i1 where "i1 = (if Interest_hasNonce i then i else Interest_drop_wire (i\<lparr>i_nonce := nb\<rparr>))"
  have i1: "i_name i1 = i_name i" "i_selectors i1 = i_selectors i" "i_interestLifetime i1 = i_interestLifetime i" "i_link i1 = i_link i"
    "i_selectedDelegationIndex i1 = i_selectedDelegationIndex i" "i_nonce i1 = nb"
    using nb(3) by (auto simp: i1_def Interest_drop_wire_def)
  have ok: "int_ok i1" "nonce_ok (i_nonce i1)"
    using assms(1) nb(1) i1 by (simp_all add: int_ok_def Interest_hasLink_def Interest_hasSelectedDelegation_def)
  have "length (value_bytes nb) = 4" using nb(1) by (simp add: nonce_ok_def)
  then have "length (tlvs_wire (int_tlvs i1)) \<le> length (tlvs_wire (int_tlvs i)) + 4"
    using i1 by (simp add: int_tlvs_def Interest_hasSelectors_def Interest_hasLink_def lifetime_written_def length_tlv_wire sizeOfVarNumber_def)
  then have f: "fits (tlvs_wire (int_tlvs i1))" using assms(4) by (simp add: fits_def)
  from est.Interest_wireEncode_prepends [OF ok] enc.Interest_wireEncode_prepends [OF ok] obtain me mn where m:
    "Interest_wireEncode_template estimator_ops i1 = Inr me" "Interest_wireEncode_template encoder_ops i1 = Inr mn"
    "prepends (\<lambda>_ _. True) me (tlv_wire tlv_Interest (tlvs_wire (int_tlvs i1))) (length (tlv_wire tlv_Interest (tlvs_wire (int_tlvs i1))))"
    "prepends enc_rel mn (tlv_wire tlv_Interest (tlvs_wire (int_tlvs i1))) (length (tlv_wire tlv_Interest (tlvs_wire (int_tlvs i1))))"
    by blast
  obtain e where e: "estimate_and_encode me mn = Inr e" "block_tlv e = (tlv_Interest, tlvs_wire (int_tlvs i1))"
      "wire_bytes e = tlv_wire tlv_Interest (tlvs_wire (int_tlvs i1))" "fresh_block e"
    using estimate_and_encode_wire [OF m(3,4) f] by (auto simp: fresh_block_def Block_hasWire_def)
  obtain i2 where i2: "Interest_wireDecode i1 e = (None, i2)" "wire_bytes (i_wire i2) = wire_bytes e"
    using Interest_wireDecode_fresh [OF e(4,2) ok] by blast
  have enc: "Interest_wireEncode word i = Inr (i_wire i2, i2)"
    using assms(3) nb(2) [folded i1_def] m(1,2) e(1) i2(1) by (simp add: Interest_wireEncode_def try_encode_def)
  have "\<exists>w i'. Block_of_bytes (wire_bytes (i_wire i2) @ rest) = Inr w \<and> Interest_of_block w = Inr i' \<and> int_same i1 i'" for rest
  proof -
    obtain w where w: "Block_of_bytes (wire_bytes (i_wire i2) @ rest) = Inr w" "block_tlv w = (tlv_Interest, tlvs_wire (int_tlvs i1))"
      using Block_of_bytes_tlv_wire [OF f, of tlv_Interest rest] i2(2) e(3) by auto
    from Interest_wireDecode_fresh [OF Block_of_bytes_fresh [OF w(1)] w(2) ok, of Interest_default] w(1) show ?thesis
      by (auto simp: Interest_of_block_def)
  qed
  then show ?thesis using nb(2,3) [folded i1_def] enc by auto
qed

theorem Interest_wire_roundtrip_witness:
  "\<exists>b i2 w i'. Interest_wireEncode 7 (Interest_of_name name_a) = Inr (b, i2) \<and> Block_of_bytes (wire_bytes b) = Inr w
     \<and> Interest_of_block w = Inr i' \<and> name_of (i_name i') = [Component 8 [97]] \<and> i_interestLifetime i' = 4000"
proof -
  let ?i = "Interest_of_name name_a"
  have n: "name_tlvs (name_of name_a) = [(8, [97])]" by (simp add: example_names name_tlvs_def)
  have sel: "sel_tlvs Selectors_default = []" "kl_tlvs KeyLocator_default = []"
    by (simp_all add: sel_tlvs_def Selectors_default_def opt_tlv_def KeyLocator_empty_def KeyLocator_default_def Exclude_empty_def
        Exclude_default_def kl_tlvs_def)
  have "sel_ok Selectors_default" using sel
    by (simp add: sel_ok_def) (simp add: Selectors_default_def KeyLocator_default_def kl_ok_def Exclude_default_def entries_ok_def
        kl_tlvs_def entries_tlvs_def)
  moreover have "fits (tlvs_wire (name_tlvs (name_of name_a)))" unfolding n by (simp add: fits_def length_tlv_wire sizeOfVarNumber_def)
  ultimately have ok: "int_ok ?i" by (simp add: int_ok_def Interest_of_name_def Interest_default_def milliseconds_min_def example_names(1)
        Interest_hasLink_def Block_hasWire_def Block_default_def Interest_hasSelectedDelegation_def)
  have t: "int_tlvs ?i = [(tlv_Name, tlvs_wire [(8, [97])]), (tlv_Nonce, [])]"
    by (simp add: int_tlvs_def Interest_of_name_def Interest_default_def n lifetime_written_def milliseconds_min_def Interest_hasSelectors_def
        Selectors_empty_def Selectors_default_def KeyLocator_empty_def KeyLocator_default_def Exclude_empty_def Exclude_default_def
        opt_tlv_def Interest_hasLink_def Block_hasWire_def Block_default_def value_bytes_def)
  have small: "length (tlvs_wire (int_tlvs ?i)) + 4 < 2 ^ 64"
    using length_tlvs_wire_le [of "int_tlvs ?i"] length_tlvs_wire_le [of "[(8, [97])]"] unfolding t by simp
  have nw: "\<not> Interest_hasNonce ?i" "\<not> Block_hasWire (i_wire ?i)"
    by (simp_all add: Interest_hasNonce_def Interest_of_name_def Interest_default_def Block_hasWire_def Block_default_def)
  from Interest_wire_roundtrip [OF ok _ nw(2) small, of 7] nw(1) obtain i1 b i2 where i1: "Interest_getNonce 7 ?i = Inr (7, i1)"
    "Interest_wireEncode 7 ?i = Inr (b, i2)"
    "\<forall>rest. \<exists>w i'. Block_of_bytes (wire_bytes b @ rest) = Inr w \<and> Interest_of_block w = Inr i' \<and> int_same i1 i'" by auto
  have "i_name i1 = name_a" "i_interestLifetime i1 = milliseconds_min"
    using i1(1) nw by (auto simp: Interest_getNonce_def Interest_setNonce_def Interest_hasNonce_def Interest_drop_wire_def
        Interest_of_name_def Interest_default_def split: sum.splits if_splits)
  with i1(2) i1(3) [rule_format, of "[]"] show ?thesis
    by (auto simp: int_same_def example_names milliseconds_min_def DEFAULT_INTEREST_LIFETIME_def)
qed

end
