(* ===== verification/NameMap.thy ===== *)
theory NameMap
  imports StdMap Name
begin

text \<open>
  Ordered containers whose keys are names. A name is the list of components it denotes; that the class
  \<^verbatim>\<open>Name\<close> compares, equates and tests prefixes as these lists do is shown with the names.
\<close>

type_synonym full_name = "component list"

abbreviation name_lt :: "full_name \<Rightarrow> full_name \<Rightarrow> bool" where
  "name_lt \<equiv> (<)"

interpretation nm: comparator name_lt
  by unfold_locales auto

lemma sorted_distinct: "sorted_map name_lt es \<Longrightarrow> distinct (map fst es)"
  by (induction es) auto

lemma map_of_in: "sorted_map name_lt es \<Longrightarrow> map_of es k = Some v \<longleftrightarrow> (k, v) \<in> set es"
  by (rule map_of_eq_Some_iff [OF sorted_distinct])

lemma map_of_remove:
  "distinct (map fst (xs @ y # zs)) \<Longrightarrow> map_of (xs @ zs) = (map_of (xs @ y # zs))(fst y := None)"
proof (induction xs)
  case Nil
  then have "map_of zs (fst y) = None" by (simp add: map_of_eq_None_iff)
  then show ?case by (auto simp: fun_eq_iff)
next
  case (Cons x xs)
  then show ?case by (auto simp: fun_upd_twist)
qed

lemma map_find_map_of: "sorted_map name_lt es \<Longrightarrow> map_find name_lt k es = map_of es k"
  using nm.map_find_eq [of es k] map_of_in [of es k] by (metis not_Some_eq option.exhaust)

text \<open>The names with a given prefix follow each other, the prefix itself being the least.\<close>

lemma prefix_le: "(n :: 'a :: linorder list) \<le> n @ r"
  by (induction n) auto

lemma prefix_less: "r \<noteq> [] \<Longrightarrow> (n :: 'a :: linorder list) < n @ r"
  by (induction n) (auto simp: neq_Nil_conv)

lemma prefix_between:
  fixes n k m :: "'a :: linorder list"
  assumes "n \<le> k" and "k \<le> m" and "take (length n) m = n"
  shows "take (length n) k = n"
  using assms
proof (induction n arbitrary: k m)
  case (Cons a n)
  then obtain m' where m: "m = a # m'" "take (length n) m' = n" by (cases m) auto
  then obtain b k' where k: "k = b # k'" using Cons.prems(1) by (cases k) auto
  with m Cons.prems(1,2) have "b = a" "n \<le> k'" "k' \<le> m'" by auto
  then show ?case using k m Cons.IH [of k' m'] by simp
qed simp

lemma takeWhile_prefix:
  assumes "sorted_map name_lt es" and "\<forall>e \<in> set es. n \<le> fst e"
  shows "takeWhile (\<lambda>e. take (length n) (fst e) = n) es = filter (\<lambda>e. take (length n) (fst e) = n) es"
  using assms
proof (induction es)
  case (Cons e es)
  show ?case
  proof (cases "take (length n) (fst e) = n")
    case True
    then show ?thesis using Cons by simp
  next
    case False
    have "take (length n) (fst f) \<noteq> n" if "f \<in> set es" for f
      using prefix_between [of n "fst e" "fst f"] that Cons.prems False by (auto simp: less_imp_le)
    then show ?thesis using False by (auto simp: filter_empty_conv)
  qed
qed simp

end
