(* ===== verification/RepoIndex.thy ===== *)
theory RepoIndex
  imports Interest NameMap
begin

text \<open>
  The index of the repository, \<^verbatim>\<open>repo-ng-mongo/src/storage/index.cpp\<close>: a \<^verbatim>\<open>std::set\<close> of entries ordered
  by full name. Names are the lists of components they denote; that \<^verbatim>\<open>Name\<close> compares and tests
  prefixes as these lists do is shown with the names. A null \<^verbatim>\<open>ConstBufferPtr\<close> is \<open>None\<close>, and
  dereferencing it is undefined behaviour, as is moving an iterator before the first entry.
\<close>

section \<open>Entries and container\<close>

record index_value =
  e_keyLocatorHash :: "byte list option"
  e_id :: int

type_synonym index_entry = "full_name \<times> index_value"

record repo_index =
  ix_container :: "index_entry list"
  ix_maxPackets :: nat
  ix_size :: nat

definition Index_new :: "nat \<Rightarrow> repo_index" where
  "Index_new nMaxPackets = \<lparr>ix_container = [], ix_maxPackets = nMaxPackets, ix_size = 0\<rparr>"

definition Index_isFull :: "repo_index \<Rightarrow> bool" where
  "Index_isFull x \<longleftrightarrow> ix_size x \<ge> ix_maxPackets x"

definition computeKeyLocatorHash :: "(byte list \<Rightarrow> byte list) \<Rightarrow> key_locator \<Rightarrow> byte list res" where
  "computeKeyLocatorHash sha256 kl =
     (case KeyLocator_wireEncode kl of Inl e \<Rightarrow> Inl e | Inr (b, _) \<Rightarrow> Inr (sha256 (wire_bytes b)))"

definition Entry_of_data :: "(byte list \<Rightarrow> byte list) \<Rightarrow> data \<Rightarrow> int \<Rightarrow> index_entry res" where
  "Entry_of_data sha256 d ident =
     (case Data_getFullName sha256 d of
        Inl e \<Rightarrow> Inl e
      | Inr (fullName, _) \<Rightarrow>
          if si_hasKeyLocator (sig_info (d_signature d)) then
            (case computeKeyLocatorHash sha256 (si_keyLocator (sig_info (d_signature d))) of
               Inl e \<Rightarrow> Inl e
             | Inr h \<Rightarrow> Inr (name_of fullName, \<lparr>e_keyLocatorHash = Some h, e_id = ident\<rparr>))
          else Inr (name_of fullName, \<lparr>e_keyLocatorHash = None, e_id = ident\<rparr>))"

section \<open>Insertion and removal\<close>

definition Index_insert_entry :: "repo_index \<Rightarrow> index_entry \<Rightarrow> bool \<times> repo_index" where
  "Index_insert_entry x entry =
     (case emplace name_lt (fst entry) (snd entry) (ix_container x) of
        (_, isInserted, c) \<Rightarrow>
          (isInserted, x\<lparr>ix_container := c, ix_size := (if isInserted then ix_size x + 1 else ix_size x)\<rparr>))"

definition Index_full_error :: error where
  "Index_full_error = RepoError ''The Index is Full. Cannot Insert Any Data!''"

definition Index_insert :: "(byte list \<Rightarrow> byte list) \<Rightarrow> repo_index \<Rightarrow> data \<Rightarrow> int \<Rightarrow> (bool \<times> repo_index) res" where
  "Index_insert sha256 x d ident =
     (if Index_isFull x then Inl Index_full_error
      else case Entry_of_data sha256 d ident of Inl e \<Rightarrow> Inl e | Inr entry \<Rightarrow> Inr (Index_insert_entry x entry))"

definition Index_insert_name :: "repo_index \<Rightarrow> full_name \<Rightarrow> int \<Rightarrow> byte list option \<Rightarrow> (bool \<times> repo_index) res" where
  "Index_insert_name x fullName ident keyLocatorHash =
     (if Index_isFull x then Inl Index_full_error
      else Inr (Index_insert_entry x (fullName, \<lparr>e_keyLocatorHash = keyLocatorHash, e_id = ident\<rparr>)))"

definition Index_hasData :: "(byte list \<Rightarrow> byte list) \<Rightarrow> repo_index \<Rightarrow> data \<Rightarrow> bool res" where
  "Index_hasData sha256 x d =
     (case Entry_of_data sha256 d (- 1) of
        Inl e \<Rightarrow> Inl e | Inr entry \<Rightarrow> Inr (map_find name_lt (fst entry) (ix_container x) \<noteq> None))"

definition Index_erase :: "repo_index \<Rightarrow> full_name \<Rightarrow> bool \<times> repo_index" where
  "Index_erase x fullName =
     (case map_find name_lt fullName (ix_container x) of
        Some _ \<Rightarrow>
          (let i = lower_bound name_lt fullName (ix_container x)
           in (True, x\<lparr>ix_container := erase_range i (Suc i) (ix_container x), ix_size := ix_size x - 1\<rparr>))
      | None \<Rightarrow> (False, x))"

section \<open>Lookup\<close>

definition is_prefix :: "full_name \<Rightarrow> full_name \<Rightarrow> bool" where
  "is_prefix p n \<longleftrightarrow> length p \<le> length n \<and> take (length p) n = p"

definition no_entry :: "int \<times> full_name" where
  "no_entry = (0, [])"

definition found :: "index_entry \<Rightarrow> int \<times> full_name" where
  "found e = (e_id (snd e), fst e)"

definition matchesSimpleSelectors :: "interest \<Rightarrow> byte list option \<Rightarrow> index_entry \<Rightarrow> bool res" where
  "matchesSimpleSelectors i hash entry =
     (let fullName = fst entry; own = name_of (i_name i); s = i_selectors i
      in if \<not> is_prefix own fullName then Inr False
         else if sel_minSuffixComponents s \<ge> 0 \<and> length fullName - length own < nat (sel_minSuffixComponents s) then Inr False
         else if sel_maxSuffixComponents s \<ge> 0 \<and> length fullName - length own > nat (sel_maxSuffixComponents s) then Inr False
         else if \<not> Exclude_empty (sel_exclude s) \<and> length fullName > length own
                 \<and> Exclude_isExcluded (sel_exclude s) (fullName ! length own) then Inr False
         else if \<not> KeyLocator_empty (sel_publisherPublicKeyLocator s) then
           (case (e_keyLocatorHash (snd entry), hash) of
              (Some h, Some h') \<Rightarrow> Inr (h = h')
            | _ \<Rightarrow> Inl (UndefinedBehaviour ''null pointer dereferenced''))
         else Inr True)"

fun select_leftmost :: "interest \<Rightarrow> byte list option \<Rightarrow> index_entry list \<Rightarrow> (int \<times> full_name) res" where
  "select_leftmost i hash [] = Inr no_entry"
| "select_leftmost i hash (e # es) =
     (if \<not> is_prefix (name_of (i_name i)) (fst e) then Inr no_entry
      else case matchesSimpleSelectors i hash e of
        Inl err \<Rightarrow> Inl err
      | Inr True \<Rightarrow> Inr (found e)
      | Inr False \<Rightarrow> select_leftmost i hash es)"

fun find_match :: "interest \<Rightarrow> byte list option \<Rightarrow> index_entry list \<Rightarrow> index_entry option res" where
  "find_match i hash [] = Inr None"
| "find_match i hash (e # es) =
     (case matchesSimpleSelectors i hash e of
        Inl err \<Rightarrow> Inl err | Inr True \<Rightarrow> Inr (Some e) | Inr False \<Rightarrow> find_match i hash es)"

definition child_bound :: "nat \<Rightarrow> index_entry list \<Rightarrow> nat \<Rightarrow> nat" where
  "child_bound n es prev = lower_bound name_lt (take (n + 1) (fst (es ! prev))) es"

lemma take_le: "take k xs \<le> (xs :: 'a :: linorder list)"
proof (induction xs arbitrary: k)
  case (Cons x xs)
  then show ?case by (cases k) auto
qed simp

lemma child_bound_le: "prev < length es \<Longrightarrow> child_bound n es prev \<le> prev"
  unfolding child_bound_def lower_bound_def
  using nth_length_takeWhile [of "\<lambda>e. fst e < take (n + 1) (fst (es ! prev))" es]
    set_takeWhileD [of "es ! prev" "\<lambda>e. fst e < take (n + 1) (fst (es ! prev))" es] take_le [of "n + 1" "fst (es ! prev)"]
  by (metis (mono_tags, lifting) leD leI nth_mem takeWhile_nth)

lemma child_bound_less: "0 < k \<Longrightarrow> \<not> length es < k \<Longrightarrow> child_bound n es (k - Suc 0) < k"
  by (rule le_less_trans [OF child_bound_le]) auto

text \<open>The loop of the rightmost child, \<open>lst\<close> being one past the entries that are left.\<close>

function select_rightmost :: "interest \<Rightarrow> byte list option \<Rightarrow> index_entry list \<Rightarrow> nat \<Rightarrow> nat \<Rightarrow> (int \<times> full_name) res" where
  "select_rightmost i hash es boundary lst =
     (if lst = 0 \<or> lst > length es then Inl (UndefinedBehaviour ''iterator moved before the first entry'')
      else
        (let prev = lst - 1
         in if prev = boundary then
              (case matchesSimpleSelectors i hash (es ! prev) of
                 Inl err \<Rightarrow> Inl err | Inr True \<Rightarrow> Inr (found (es ! prev)) | Inr False \<Rightarrow> Inr no_entry)
            else
              (let first = child_bound (length (name_of (i_name i))) es prev
               in case find_match i hash (slice first lst es) of
                    Inl err \<Rightarrow> Inl err
                  | Inr (Some m) \<Rightarrow> Inr (found m)
                  | Inr None \<Rightarrow> select_rightmost i hash es boundary first)))"
  by pat_completeness auto

termination
  by (relation "measure (\<lambda>(i, hash, es, boundary, lst). lst)") (auto simp: child_bound_less)

declare select_rightmost.simps [simp del]

definition publisher_hash :: "(byte list \<Rightarrow> byte list) \<Rightarrow> interest \<Rightarrow> byte list option res" where
  "publisher_hash sha256 i =
     (let kl = sel_publisherPublicKeyLocator (i_selectors i)
      in if KeyLocator_empty kl then Inr None
         else case computeKeyLocatorHash sha256 kl of Inl e \<Rightarrow> Inl e | Inr h \<Rightarrow> Inr (Some h))"

definition selectChild :: "(byte list \<Rightarrow> byte list) \<Rightarrow> repo_index \<Rightarrow> interest \<Rightarrow> nat \<Rightarrow> (int \<times> full_name) res" where
  "selectChild sha256 x i startingPoint =
     (let es = ix_container x; own = name_of (i_name i)
      in case publisher_hash sha256 i of
           Inl e \<Rightarrow> Inl e
         | Inr hash \<Rightarrow>
             if sel_childSelector (i_selectors i) \<le> 0 then select_leftmost i hash (drop startingPoint es)
             else
               (let boundary = lower_bound name_lt own es
                in if boundary = length es \<or> \<not> is_prefix own (fst (es ! boundary)) then Inr no_entry
                   else case Name_getSuccessor (i_name i) of
                     Inl e \<Rightarrow> Inl e
                   | Inr successor \<Rightarrow>
                       select_rightmost i hash es boundary
                         (if own = [] then length es else lower_bound name_lt (name_of successor) es)))"

definition Index_find :: "(byte list \<Rightarrow> byte list) \<Rightarrow> repo_index \<Rightarrow> interest \<Rightarrow> (int \<times> full_name) res" where
  "Index_find sha256 x i =
     (let result = lower_bound name_lt (name_of (i_name i)) (ix_container x)
      in if result \<noteq> length (ix_container x) then selectChild sha256 x i result else Inr no_entry)"

definition findFirstEntry :: "repo_index \<Rightarrow> full_name \<Rightarrow> nat \<Rightarrow> int \<times> full_name" where
  "findFirstEntry x prefix startingPoint =
     (if is_prefix prefix (fst (ix_container x ! startingPoint)) then found (ix_container x ! startingPoint) else no_entry)"

definition Index_find_name :: "repo_index \<Rightarrow> full_name \<Rightarrow> int \<times> full_name" where
  "Index_find_name x n =
     (let result = lower_bound name_lt n (ix_container x)
      in if result \<noteq> length (ix_container x) then findFirstEntry x n result else no_entry)"

section \<open>The container invariant\<close>

definition index_ok :: "repo_index \<Rightarrow> bool" where
  "index_ok x \<longleftrightarrow> sorted_map name_lt (ix_container x) \<and> ix_size x = length (ix_container x) \<and> ix_size x \<le> ix_maxPackets x"

text \<open>The abstract index: a map from full names, and a bound on the number of names in it.\<close>

definition index_map :: "repo_index \<Rightarrow> full_name \<rightharpoonup> index_value" where
  "index_map x = map_of (ix_container x)"

lemma Index_insert_entry_ok:
  assumes "index_ok x" and "\<not> Index_isFull x"
  shows "index_ok (snd (Index_insert_entry x e))"
    and "fst (Index_insert_entry x e) \<longleftrightarrow> index_map x (fst e) = None"
    and "index_map (snd (Index_insert_entry x e)) =
      (if index_map x (fst e) = None then (index_map x)(fst e \<mapsto> snd e) else index_map x)"
    and "ix_maxPackets (snd (Index_insert_entry x e)) = ix_maxPackets x"
proof -
  let ?es = "ix_container x" and ?r = "emplace name_lt (fst e) (snd e) (ix_container x)"
  have s: "sorted_map name_lt ?es" using assms(1) by (simp add: index_ok_def)
  have dom: "index_map x (fst e) = None \<longleftrightarrow> fst e \<notin> fst ` set ?es" by (simp add: index_map_def map_of_eq_None_iff)
  have new: "fst (snd ?r) \<longleftrightarrow> index_map x (fst e) = None" by (simp add: nm.emplace_eq [OF s] dom)
  have s': "sorted_map name_lt (snd (snd ?r))" by (rule nm.sorted_emplace [OF s])
  have "length (snd (snd ?r)) = length ?es + (if fst (snd ?r) then 1 else 0)"
    by (auto simp: emplace_def Let_def nm.lower_bound_length)
  then show "index_ok (snd (Index_insert_entry x e))"
    using assms s' by (auto simp: Index_insert_entry_def index_ok_def Index_isFull_def split: prod.splits)
  show "fst (Index_insert_entry x e) \<longleftrightarrow> index_map x (fst e) = None"
    using new by (auto simp: Index_insert_entry_def split: prod.splits)
  have "map_of (snd (snd ?r)) k = (if index_map x (fst e) = None \<and> k = fst e then Some (snd e) else map_of ?es k)" for k
  proof -
    have "map_of (snd (snd ?r)) k = Some v \<longleftrightarrow> (if index_map x (fst e) = None \<and> k = fst e then Some (snd e) else map_of ?es k) = Some v" for v
      unfolding map_of_in [OF s'] nm.set_emplace [OF s] dom using map_of_in [OF s] by (cases e) (auto simp: map_of_eq_None_iff image_iff)
    then show ?thesis by (metis option.exhaust)
  qed
  then show "index_map (snd (Index_insert_entry x e)) =
      (if index_map x (fst e) = None then (index_map x)(fst e \<mapsto> snd e) else index_map x)"
    by (auto simp: Index_insert_entry_def index_map_def fun_eq_iff split: prod.splits)
  show "ix_maxPackets (snd (Index_insert_entry x e)) = ix_maxPackets x"
    by (simp add: Index_insert_entry_def split: prod.splits)
qed

lemma Index_erase_ok:
  assumes "index_ok x"
  shows "index_ok (snd (Index_erase x n))" and "fst (Index_erase x n) \<longleftrightarrow> index_map x n \<noteq> None"
    and "index_map (snd (Index_erase x n)) = (index_map x)(n := None)"
proof -
  let ?es = "ix_container x" and ?i = "lower_bound name_lt n (ix_container x)"
  have s: "sorted_map name_lt ?es" using assms by (simp add: index_ok_def)
  have f: "map_find name_lt n ?es = index_map x n" using map_find_map_of [OF s] by (simp add: index_map_def)
  show "fst (Index_erase x n) \<longleftrightarrow> index_map x n \<noteq> None" by (auto simp: Index_erase_def f Let_def split: option.splits)
  have "index_ok (snd (Index_erase x n)) \<and> index_map (snd (Index_erase x n)) = (index_map x)(n := None)"
  proof (cases "index_map x n")
    case None
    then show ?thesis using assms by (auto simp: Index_erase_def f)
  next
    case (Some v)
    then have "n \<in> fst ` set ?es" by (metis domI dom_map_of_conv_image_fst index_map_def)
    from nm.lower_bound_entry [OF s this] have i: "fst (?es ! ?i) = n" "?i < length ?es" .
    have es: "?es = take ?i ?es @ ?es ! ?i # drop (Suc ?i) ?es" using i(2) by (rule id_take_nth_drop)
    have s': "sorted_map name_lt (take ?i ?es @ drop (Suc ?i) ?es)"
      using s by (subst (asm) es) (auto simp: sorted_map_append)
    have "map_of (take ?i ?es @ drop (Suc ?i) ?es) = (map_of ?es)(n := None)"
      using map_of_remove [of "take ?i ?es" "?es ! ?i" "drop (Suc ?i) ?es"] sorted_distinct [OF s] i(1)
      unfolding es [symmetric] by simp
    then show ?thesis using s' Some i(2) assms
      by (auto simp: Index_erase_def f Let_def erase_range_def index_ok_def index_map_def)
  qed
  then show "index_ok (snd (Index_erase x n))" "index_map (snd (Index_erase x n)) = (index_map x)(n := None)" by simp_all
qed

section \<open>Prefixes in the canonical order\<close>

lemma is_prefix_iff: "is_prefix p n \<longleftrightarrow> take (length p) n = p"
  by (metis is_prefix_def length_take min.cobounded1)

lemma is_prefix_le: "is_prefix p n \<Longrightarrow> p \<le> n"
  using take_le [of "length p" n] by (simp add: is_prefix_iff)

text \<open>The names under a prefix are convex: a name between the prefix and one of them is one of them.\<close>

lemma prefix_convex:
  fixes p :: "'a :: linorder list"
  shows "take (length p) w = p \<Longrightarrow> p \<le> z \<Longrightarrow> z \<le> w \<Longrightarrow> take (length p) z = p"
proof (induction p arbitrary: w z)
  case (Cons a p)
  then obtain w' where w: "w = a # w'" "take (length p) w' = p" by (cases w) auto
  from Cons.prems(2) obtain b z' where z: "z = b # z'" by (cases z) auto
  with Cons.prems w have "b = a" by auto
  with Cons.prems w z Cons.IH [OF w(2), of z'] show ?case by auto
qed simp

lemma is_prefix_convex: "is_prefix p w \<Longrightarrow> p \<le> z \<Longrightarrow> z \<le> w \<Longrightarrow> is_prefix p z"
  unfolding is_prefix_iff by (rule prefix_convex)

section \<open>Matching entries\<close>

definition entry_admits :: "interest \<Rightarrow> byte list option \<Rightarrow> index_entry \<Rightarrow> bool" where
  "entry_admits i hash e \<longleftrightarrow> admits (i_selectors i) (name_of (i_name i)) (fst e)
     \<and> (\<not> KeyLocator_empty (sel_publisherPublicKeyLocator (i_selectors i)) \<longrightarrow> e_keyLocatorHash (snd e) = hash)"

definition hashes_present :: "interest \<Rightarrow> byte list option \<Rightarrow> index_entry list \<Rightarrow> bool" where
  "hashes_present i hash es \<longleftrightarrow> KeyLocator_empty (sel_publisherPublicKeyLocator (i_selectors i)) \<or>
     hash \<noteq> None \<and> (\<forall>e \<in> set es. is_prefix (name_of (i_name i)) (fst e) \<longrightarrow> e_keyLocatorHash (snd e) \<noteq> None)"

lemma entry_admits_prefix: "entry_admits i hash e \<Longrightarrow> is_prefix (name_of (i_name i)) (fst e)"
  by (simp add: entry_admits_def admits_def is_prefix_iff)

lemma matches_entry:
  assumes "hashes_present i hash es" and "e \<in> set es"
  shows "matchesSimpleSelectors i hash e = Inr (entry_admits i hash e)"
proof (cases "is_prefix (name_of (i_name i)) (fst e)")
  case True
  then have len: "length (name_of (i_name i)) \<le> length (fst e)" "take (length (name_of (i_name i))) (fst e) = name_of (i_name i)"
    by (simp_all add: is_prefix_def)
  show ?thesis
    using True len assms isExcluded_empty [of "sel_exclude (i_selectors i)"]
    by (auto simp: matchesSimpleSelectors_def entry_admits_def admits_def Let_def hashes_present_def Exclude_isExcluded_def not_less
        split: option.splits)
next
  case False
  then show ?thesis using entry_admits_prefix [of i hash e] by (auto simp: matchesSimpleSelectors_def Let_def)
qed

lemma find_match_eq: "hashes_present i hash es \<Longrightarrow> set fs \<subseteq> set es \<Longrightarrow> find_match i hash fs = Inr (List.find (entry_admits i hash) fs)"
  by (induction fs) (auto simp: matches_entry)

definition result_of :: "index_entry option \<Rightarrow> int \<times> full_name" where
  "result_of r = (case r of None \<Rightarrow> no_entry | Some e \<Rightarrow> found e)"

lemma find_None: "(\<And>e. e \<in> set es \<Longrightarrow> \<not> P e) \<Longrightarrow> List.find P es = None"
  by (simp add: find_None_iff)

lemma select_leftmost_find:
  "sorted_map name_lt es \<Longrightarrow> \<forall>e \<in> set es. name_of (i_name i) \<le> fst e \<Longrightarrow> hashes_present i hash es \<Longrightarrow>
     select_leftmost i hash es = Inr (result_of (List.find (entry_admits i hash) es))"
proof (induction es)
  case (Cons e es)
  show ?case
  proof (cases "is_prefix (name_of (i_name i)) (fst e)")
    case True
    have "hashes_present i hash es" using Cons.prems(3) by (auto simp: hashes_present_def)
    then show ?thesis using Cons True by (auto simp: matches_entry [OF Cons.prems(3)] result_of_def)
  next
    case False
    have "\<not> is_prefix (name_of (i_name i)) (fst f)" if "f \<in> set (e # es)" for f
      using that False is_prefix_convex [of "name_of (i_name i)" "fst f" "fst e"] Cons.prems(1,2) by (auto intro: less_imp_le)
    then have "List.find (entry_admits i hash) (e # es) = None" using entry_admits_prefix by (blast intro: find_None)
    then show ?thesis using False by (simp add: result_of_def)
  qed
qed (simp add: result_of_def)

lemma find_append: "List.find P (xs @ ys) = (case List.find P xs of None \<Rightarrow> List.find P ys | Some x \<Rightarrow> Some x)"
  by (induction xs) auto

lemma find_from_lower_bound:
  assumes "sorted_map name_lt es" and "\<And>e. P e \<Longrightarrow> k \<le> fst e"
  shows "List.find P (drop (lower_bound name_lt k es) es) = List.find P es"
proof -
  have "\<not> P e" if "e \<in> set (take (lower_bound name_lt k es) es)" for e
    using that assms(2) [of e] by (auto simp: nm.take_lower_bound [OF assms(1)])
  then have "List.find P (take (lower_bound name_lt k es) es) = None" by (rule find_None)
  then show ?thesis using find_append [of P "take (lower_bound name_lt k es) es" "drop (lower_bound name_lt k es) es"] by simp
qed

section \<open>The rightmost child\<close>

definition child :: "nat \<Rightarrow> index_entry \<Rightarrow> full_name" where
  "child n e = take (n + 1) (fst e)"

lemma take_mono: "xs \<le> ys \<Longrightarrow> take k xs \<le> take k (ys :: 'a :: linorder list)"
proof (induction xs arbitrary: k ys)
  case (Cons x xs)
  then show ?case by (cases k; cases ys) auto
qed simp

lemma sorted_nth: "sorted_map name_lt es \<Longrightarrow> j < k \<Longrightarrow> k < length es \<Longrightarrow> fst (es ! j) < fst (es ! k)"
  by (simp add: sorted_map_def sorted_wrt_iff_nth_less)

lemma sorted_nth_le: "sorted_map name_lt es \<Longrightarrow> j \<le> k \<Longrightarrow> k < length es \<Longrightarrow> fst (es ! j) \<le> fst (es ! k)"
  using sorted_nth [of es j k] by (cases "j = k") auto

lemma less_lower_bound:
  assumes "sorted_map name_lt es" and "j < length es"
  shows "j < lower_bound name_lt k es \<longleftrightarrow> fst (es ! j) < k"
proof
  assume "j < lower_bound name_lt k es"
  then show "fst (es ! j) < k" unfolding lower_bound_def
    by (metis (mono_tags, lifting) nth_mem set_takeWhileD takeWhile_nth)
next
  assume l: "fst (es ! j) < k"
  show "j < lower_bound name_lt k es"
  proof (rule ccontr)
    assume "\<not> j < lower_bound name_lt k es"
    then have "lower_bound name_lt k es \<le> j" by simp
    moreover from this have "\<not> fst (es ! lower_bound name_lt k es) < k"
      using nth_length_takeWhile [of "\<lambda>e. fst e < k" es] assms(2) by (simp add: lower_bound_def)
    ultimately show False using sorted_nth_le [OF assms(1) _ assms(2), of "lower_bound name_lt k es"] l by simp
  qed
qed

text \<open>The entries under the Interest's name are those from \<open>b\<close> up to \<open>d\<close>.\<close>

definition under_name :: "interest \<Rightarrow> index_entry list \<Rightarrow> nat \<Rightarrow> nat \<Rightarrow> bool" where
  "under_name i es b d \<longleftrightarrow> sorted_map name_lt es \<and> b < d \<and> d \<le> length es \<and>
     (\<forall>j < length es. is_prefix (name_of (i_name i)) (fst (es ! j)) \<longleftrightarrow> b \<le> j \<and> j < d)"

lemma child_group:
  assumes "under_name i es b d" and "b < prev" and "prev < d" and "n = Name_size (i_name i)"
  shows "b \<le> child_bound n es prev" and "child_bound n es prev \<le> prev"
    and "j \<le> prev \<Longrightarrow> child_bound n es prev \<le> j \<longleftrightarrow> child n (es ! j) = child n (es ! prev)"
    and "j < child_bound n es prev \<Longrightarrow> fst (es ! j) < child n (es ! prev)"
proof -
  let ?own = "name_of (i_name i)" and ?c = "child n (es ! prev)"
  have s: "sorted_map name_lt es" and len: "prev < length es" and pre: "is_prefix ?own (fst (es ! prev))" "is_prefix ?own (fst (es ! b))"
    using assms by (simp_all add: under_name_def)
  have lb: "child_bound n es prev = lower_bound name_lt ?c es" by (simp add: child_bound_def child_def)
  have "?own < fst (es ! prev)" using is_prefix_le [OF pre(2)] sorted_nth [OF s assms(2) len] by simp
  then have "length (fst (es ! prev)) > n" using pre(1) assms(4) by (auto simp: is_prefix_def intro: le_neq_implies_less)
  then have c: "length ?c = n + 1" "take (length ?c) (fst (es ! prev)) = ?c" by (simp_all add: child_def)
  have "is_prefix ?own ?c" using pre(1) assms(4) by (simp add: is_prefix_iff child_def)
  then have own_c: "?own \<le> ?c" by (rule is_prefix_le)
  show le: "child_bound n es prev \<le> prev" by (rule child_bound_le [OF len])
  show "b \<le> child_bound n es prev"
  proof (rule ccontr)
    assume "\<not> b \<le> child_bound n es prev"
    then have j: "child_bound n es prev < b" "child_bound n es prev < length es" using le len by auto
    then have "\<not> is_prefix ?own (fst (es ! child_bound n es prev))" using assms(1) by (simp add: under_name_def)
    moreover have "?c \<le> fst (es ! child_bound n es prev)" using less_lower_bound [OF s j(2), of ?c] by (simp flip: lb) 
    ultimately show False
      using is_prefix_convex [OF pre(1), of "fst (es ! child_bound n es prev)"] own_c sorted_nth_le [OF s le len] by simp
  qed
  show "j < child_bound n es prev \<Longrightarrow> fst (es ! j) < ?c" using less_lower_bound [OF s, of j ?c] le len by (simp add: lb)
  show "child_bound n es prev \<le> j \<longleftrightarrow> child n (es ! j) = ?c" if "j \<le> prev"
  proof
    assume "child_bound n es prev \<le> j"
    then have "?c \<le> fst (es ! j)" using less_lower_bound [OF s, of j ?c] that len by (simp add: lb not_less [symmetric])
    from prefix_convex [OF c(2) this sorted_nth_le [OF s that len]] have "take (n + 1) (fst (es ! j)) = ?c" by (simp only: c(1))
    then show "child n (es ! j) = ?c" by (simp only: child_def [of n "es ! j"])
  next
    assume "child n (es ! j) = ?c"
    then have "?c \<le> fst (es ! j)" using take_le [of "n + 1" "fst (es ! j)"] by (simp add: child_def)
    then show "child_bound n es prev \<le> j" using less_lower_bound [OF s, of j ?c] that len by (simp add: lb not_less [symmetric])
  qed
qed

text \<open>The match the rightmost child selector asks for: in the greatest child that has a match, the first match.\<close>

definition rightmost_match :: "interest \<Rightarrow> byte list option \<Rightarrow> index_entry list \<Rightarrow> index_entry \<Rightarrow> bool" where
  "rightmost_match i hash es e \<longleftrightarrow> e \<in> set es \<and> entry_admits i hash e \<and>
     (\<forall>f \<in> set es. entry_admits i hash f \<longrightarrow> child (Name_size (i_name i)) f \<le> child (Name_size (i_name i)) e
        \<and> (child (Name_size (i_name i)) f = child (Name_size (i_name i)) e \<longrightarrow> fst e \<le> fst f))"

lemma nth_in_slice: "b \<le> j \<Longrightarrow> j < k \<Longrightarrow> k \<le> length es \<Longrightarrow> slice b k es ! (j - b) = es ! j"
  by (simp add: slice_def)

lemma find_slice_None: "List.find P (slice b k es) = None \<Longrightarrow> k \<le> length es \<Longrightarrow> b \<le> j \<Longrightarrow> j < k \<Longrightarrow> \<not> P (es ! j)"
  using nth_in_slice [of b j k es] length_slice [of k es b] by (metis diff_less_mono find_None_iff nth_mem)

lemma find_slice_Some:
  assumes "List.find P (slice b k es) = Some m" and "k \<le> length es"
  shows "\<exists>j. b \<le> j \<and> j < k \<and> m = es ! j \<and> P m \<and> (\<forall>l. b \<le> l \<and> l < j \<longrightarrow> \<not> P (es ! l))"
proof -
  obtain r where r: "r < length (slice b k es)" "P (slice b k es ! r)" "m = slice b k es ! r" "\<forall>l < r. \<not> P (slice b k es ! l)"
    using assms(1) by (auto simp: find_Some_iff)
  then have "b + r < k" using length_slice [OF assms(2), of b] by simp
  moreover have "slice b k es ! l = es ! (b + l)" if "l \<le> r" for l
    using nth_in_slice [of b "b + l" k es] that calculation assms(2) by simp
  ultimately show ?thesis using r
    by (intro exI [of _ "b + r"]) (auto, metis add_diff_inverse_nat less_diff_conv2 le_add_diff_inverse less_or_eq_imp_le nat_add_left_cancel_less not_less)
qed

lemma set_slice: "set (slice b k es) \<subseteq> set es"
  by (auto simp: slice_def dest: in_set_takeD in_set_dropD)

lemma select_rightmost_match:
  assumes "under_name i es b d" and "hashes_present i hash es"
  shows "b < k \<Longrightarrow> k \<le> d \<Longrightarrow> \<forall>j < length es. k \<le> j \<longrightarrow> \<not> entry_admits i hash (es ! j) \<Longrightarrow>
     \<exists>e \<in> set es. entry_admits i hash e \<Longrightarrow>
     \<exists>e. rightmost_match i hash es e \<and> select_rightmost i hash es b k = Inr (found e)"
proof (induction k rule: less_induct)
  case (less k)
  let ?n = "Name_size (i_name i)" and ?prev = "k - 1"
  have s: "sorted_map name_lt es" and len: "d \<le> length es" using assms(1) by (simp_all add: under_name_def)
  have prev: "?prev < length es" "?prev < d" "0 < k" "k \<le> length es" using less.prems(1,2) len by auto
  have at: "b \<le> j \<and> j < k" if "j < length es" "entry_admits i hash (es ! j)" for j
  proof
    have "is_prefix (name_of (i_name i)) (fst (es ! j))" by (rule entry_admits_prefix [OF that(2)])
    then show "b \<le> j" using assms(1) that(1) by (simp add: under_name_def)
    show "j < k" using that less.prems(3) not_less by blast
  qed
  show ?case
  proof (cases "?prev = b")
    case True
    then have only: "j = b" if "j < length es" "entry_admits i hash (es ! j)" for j
      using True at [OF that] by linarith
    then have "entry_admits i hash (es ! b)" using less.prems(4) by (metis in_set_conv_nth)
    moreover have "f = es ! b" if "f \<in> set es" "entry_admits i hash f" for f using that only by (metis in_set_conv_nth)
    then have "rightmost_match i hash es (es ! b)" using calculation prev(1) True by (auto simp: rightmost_match_def)
    moreover have "select_rightmost i hash es b k = Inr (found (es ! b))"
      using True prev matches_entry [OF assms(2), of "es ! b"] calculation(1) by (subst select_rightmost.simps) (auto simp: Let_def)
    ultimately show ?thesis by blast
  next
    case False
    let ?f = "child_bound ?n es ?prev"
    have bp: "b < ?prev" using False less.prems(1) by simp
    note g = child_group [OF assms(1) bp prev(2) refl]
    have fm: "find_match i hash (slice ?f k es) = Inr (List.find (entry_admits i hash) (slice ?f k es))"
      by (rule find_match_eq [OF assms(2) set_slice])
    show ?thesis
    proof (cases "List.find (entry_admits i hash) (slice ?f k es)")
      case None
      have none: "\<not> entry_admits i hash (es ! j)" if "j < length es" "?f \<le> j" for j
        using that less.prems(3) find_slice_None [OF None prev(4), of j] by (cases "j < k") auto
      obtain j where j: "j < length es" "entry_admits i hash (es ! j)" using less.prems(4) by (auto simp: in_set_conv_nth)
      have "b < ?f" using at [OF j] none j g(1) by (meson le_less_trans not_less)
      moreover have "?f < k" "?f \<le> d" using g(2) prev by auto
      ultimately obtain e where "rightmost_match i hash es e" "select_rightmost i hash es b ?f = Inr (found e)"
        using less.IH [of ?f] none less.prems(4) by blast
      moreover have "select_rightmost i hash es b k = select_rightmost i hash es b ?f"
        using None fm False prev by (subst select_rightmost.simps) (simp add: Let_def)
      ultimately show ?thesis by metis
    next
      case (Some m)
      then obtain r where r: "?f \<le> r" "r < k" "m = es ! r" "entry_admits i hash m"
        "\<forall>l. ?f \<le> l \<and> l < r \<longrightarrow> \<not> entry_admits i hash (es ! l)" using find_slice_Some [OF Some prev(4)] by blast
      have "child ?n m = child ?n (es ! ?prev)" using g(3) [of r] r by simp
      moreover have "child ?n (es ! j) \<le> child ?n (es ! ?prev)" if "j \<le> ?prev" for j
        unfolding child_def by (rule take_mono [OF sorted_nth_le [OF s that prev(1)]])
      moreover have "fst m \<le> fst (es ! j)" if "j < length es" "entry_admits i hash (es ! j)" "child ?n (es ! j) = child ?n (es ! ?prev)" for j
        using g(3) [of j] at [OF that(1,2)] that r sorted_nth_le [OF s, of r j] by (metis Suc_pred' less_Suc_eq_le not_le prev(3) One_nat_def)
      note calculation = calculation this
      have all: "child ?n (es ! j) \<le> child ?n m \<and> (child ?n (es ! j) = child ?n m \<longrightarrow> fst m \<le> fst (es ! j))"
        if "j < length es" "entry_admits i hash (es ! j)" for j
      proof -
        have "j \<le> ?prev" using at [OF that] by linarith
        then show ?thesis using calculation that by auto
      qed
      have "m \<in> set es" using r prev(4) by simp
      then have "rightmost_match i hash es m" unfolding rightmost_match_def using r(4) all by (metis in_set_conv_nth)
      moreover have "select_rightmost i hash es b k = Inr (found m)"
        using Some fm False prev by (subst select_rightmost.simps) (simp add: Let_def)
      ultimately show ?thesis by blast
    qed
  qed
qed

text \<open>With no match: once the loop has passed the first entry under the name it never stops.\<close>

lemma select_rightmost_passed:
  assumes "under_name i es b d" and "hashes_present i hash es"
  shows "k \<le> b \<Longrightarrow> select_rightmost i hash es b k = Inl (UndefinedBehaviour ''iterator moved before the first entry'')"
proof (induction k rule: less_induct)
  case (less k)
  let ?f = "child_bound (Name_size (i_name i)) es (k - 1)"
  have len: "k \<le> length es" using less.prems assms(1) by (simp add: under_name_def)
  show ?case
  proof (cases "k = 0")
    case False
    have "\<not> entry_admits i hash e" if mem: "e \<in> set (slice ?f k es)" for e
    proof -
      obtain j where j: "j < length (slice ?f k es)" "e = slice ?f k es ! j" using mem [unfolded in_set_conv_nth] by blast
      then have "?f + j < k" "e = es ! (?f + j)" using len nth_in_slice [of ?f "?f + j" k es] by simp_all
      then show ?thesis using entry_admits_prefix [of i hash e] assms(1) less.prems by (auto simp: under_name_def)
    qed
    then have "List.find (entry_admits i hash) (slice ?f k es) = None" by (rule find_None)
    then have "find_match i hash (slice ?f k es) = Inr None" using find_match_eq [OF assms(2) set_slice] by simp
    moreover have "?f < k" using False child_bound_less [of k es] len by simp
    moreover have "k - Suc 0 \<noteq> b" using False less.prems by simp
    ultimately show ?thesis using False len less
      by (subst select_rightmost.simps) (simp add: Let_def)
  qed (subst select_rightmost.simps, simp)
qed

lemma select_rightmost_no_match:
  assumes "under_name i es b d" and "hashes_present i hash es" and "\<forall>e \<in> set es. \<not> entry_admits i hash e"
  shows "b < k \<Longrightarrow> k \<le> d \<Longrightarrow> k = d \<or> child (Name_size (i_name i)) (es ! (k - 1)) \<noteq> child (Name_size (i_name i)) (es ! k) \<Longrightarrow>
     select_rightmost i hash es b k =
       (if b + 1 < d \<and> child (Name_size (i_name i)) (es ! (b + 1)) = child (Name_size (i_name i)) (es ! b)
        then Inl (UndefinedBehaviour ''iterator moved before the first entry'') else Inr no_entry)"
proof (induction k rule: less_induct)
  case (less k)
  let ?n = "Name_size (i_name i)" and ?prev = "k - 1"
  have len: "d \<le> length es" using assms(1) by (simp add: under_name_def)
  have prev: "?prev < length es" "?prev < d" "0 < k" "k \<le> length es" using less.prems(1,2) len by auto
  show ?case
  proof (cases "?prev = b")
    case True
    have "matchesSimpleSelectors i hash (es ! b) = Inr False" using matches_entry [OF assms(2), of "es ! b"] assms(3) prev True by simp
    moreover have "\<not> (b + 1 < d \<and> child ?n (es ! (b + 1)) = child ?n (es ! b))" using True less.prems(1,3) prev(3) by auto
    ultimately show ?thesis using True prev by (subst select_rightmost.simps) (auto simp: Let_def)
  next
    case False
    let ?f = "child_bound ?n es ?prev"
    have bp: "b < ?prev" using False less.prems(1) by simp
    note g = child_group [OF assms(1) bp prev(2) refl]
    have "List.find (entry_admits i hash) (slice ?f k es) = None" using assms(3) set_slice [of ?f k es] by (blast intro: find_None)
    then have step: "select_rightmost i hash es b k = select_rightmost i hash es b ?f"
      using find_match_eq [OF assms(2) set_slice [of ?f k es]] False prev by (subst select_rightmost.simps) (simp add: Let_def)
    show ?thesis
    proof (cases "?f = b")
      case True
      then have "child ?n (es ! (b + 1)) = child ?n (es ! b)" using g(3) [of b] g(3) [of "b + 1"] bp by simp
      moreover have "b + 1 < d" using bp prev by simp
      ultimately show ?thesis unfolding step using True select_rightmost_passed [OF assms(1,2), of b] by simp
    next
      case False
      then have f: "b < ?f" "?f < k" "?f \<le> d" using g(1,2) prev by auto
      have "fst (es ! (?f - 1)) < child ?n (es ! ?prev)" using g(4) [of "?f - 1"] f(1) by simp
      then have "child ?n (es ! (?f - 1)) \<noteq> child ?n (es ! ?prev)"
        using take_le [of "?n + 1" "fst (es ! (?f - 1))"] by (auto simp: child_def)
      moreover have "child ?n (es ! ?f) = child ?n (es ! ?prev)" using g(2) g(3) [of ?f] by simp
      ultimately show ?thesis unfolding step using less.IH [OF f(2,1,3)] by simp
    qed
  qed
qed

section \<open>Whole lookups\<close>

text \<open>An Interest whose name, if not empty, ends in a generic component, so that it has a successor.\<close>

definition has_successor :: "name \<Rightarrow> bool" where
  "has_successor n \<longleftrightarrow> name_block n \<and> m_subBlocks n \<noteq> [] \<and> Component_isGeneric (last (m_subBlocks n))
     \<and> Block_hasValue (last (m_subBlocks n)) \<and> Suc (length (value_bytes (last (m_subBlocks n)))) < 2 ^ 31"

lemma successor_range:
  assumes "has_successor n"
  shows "\<exists>s. Name_getSuccessor n = Inr s \<and> (\<forall>m. is_prefix (name_of n) m \<longleftrightarrow> name_of n \<le> m \<and> m < name_of s)"
proof -
  let ?xs = "butlast (name_of n)" and ?v = "comp_value (last (name_of n))"
  obtain s where s: "Name_getSuccessor n = Inr s" "name_of s = ?xs @ [Component tlv_NameComponent (successor_value ?v)]"
    using Name_getSuccessor_nonempty [of n] assms unfolding has_successor_def by blast
  have n: "name_of n = ?xs @ [Component tlv_NameComponent ?v]"
    using assms append_butlast_last_id [of "name_of n"]
    by (simp add: has_successor_def name_of_def last_map component_of_def Component_isGeneric_def)
  have "is_prefix (name_of n) m \<longleftrightarrow> name_of n \<le> m \<and> m < name_of s" for m
    using prefix_take [of m "name_of n"]
      lex_prefix_range [OF component_less_successor component_none_between, of m ?xs tlv_NameComponent ?v]
    by (simp add: is_prefix_iff s(2) flip: n)
  with s(1) show ?thesis by blast
qed

lemma under_interest:
  assumes "sorted_map name_lt es" and "has_successor (i_name i)" and "Name_getSuccessor (i_name i) = Inr s"
    and "\<exists>e \<in> set es. is_prefix (name_of (i_name i)) (fst e)"
  shows "under_name i es (lower_bound name_lt (name_of (i_name i)) es) (lower_bound name_lt (name_of s) es)"
proof -
  let ?own = "name_of (i_name i)"
  have r: "is_prefix ?own m \<longleftrightarrow> ?own \<le> m \<and> m < name_of s" for m using successor_range [OF assms(2)] assms(3) by auto
  have p: "is_prefix ?own (fst (es ! j)) \<longleftrightarrow> lower_bound name_lt ?own es \<le> j \<and> j < lower_bound name_lt (name_of s) es" if "j < length es" for j
    using r less_lower_bound [OF assms(1) that] by (metis not_less)
  obtain j where j: "j < length es" "is_prefix ?own (fst (es ! j))" using assms(4) by (metis in_set_conv_nth)
  then have "lower_bound name_lt ?own es < lower_bound name_lt (name_of s) es" using p [OF j(1)] by simp
  then show ?thesis using p assms(1) nm.lower_bound_length by (simp add: under_name_def)
qed

lemma rightmost_start:
  assumes "sorted_map name_lt es" and "\<exists>e \<in> set es. is_prefix p (fst e)"
  shows "lower_bound name_lt p es < length es" and "is_prefix p (fst (es ! lower_bound name_lt p es))"
proof -
  obtain j where j: "j < length es" "is_prefix p (fst (es ! j))" using assms(2) by (metis in_set_conv_nth)
  then have lb: "lower_bound name_lt p es \<le> j" using less_lower_bound [OF assms(1) j(1), of p] is_prefix_le [OF j(2)] by (meson not_less)
  then show len: "lower_bound name_lt p es < length es" using j(1) by simp
  have "p \<le> fst (es ! lower_bound name_lt p es)" using less_lower_bound [OF assms(1) len, of p] by simp
  then show "is_prefix p (fst (es ! lower_bound name_lt p es))" using is_prefix_convex [OF j(2)] sorted_nth_le [OF assms(1) lb j(1)] by blast
qed

lemma Index_find_rightmost_loop:
  assumes "index_ok x" and "has_successor (i_name i)" and "sel_childSelector (i_selectors i) > 0" and "publisher_hash sha256 i = Inr hash"
    and "\<exists>e \<in> set (ix_container x). is_prefix (name_of (i_name i)) (fst e)"
  shows "\<exists>d. under_name i (ix_container x) (lower_bound name_lt (name_of (i_name i)) (ix_container x)) d \<and>
     Index_find sha256 x i = select_rightmost i hash (ix_container x) (lower_bound name_lt (name_of (i_name i)) (ix_container x)) d"
proof -
  have s: "sorted_map name_lt (ix_container x)" using assms(1) by (simp add: index_ok_def)
  obtain t where t: "Name_getSuccessor (i_name i) = Inr t" using successor_range [OF assms(2)] by blast
  have "name_of (i_name i) \<noteq> []" using assms(2) by (simp add: has_successor_def name_of_def)
  then show ?thesis using under_interest [OF s assms(2) t assms(5)] rightmost_start [OF s assms(5)] t assms(3,4)
    by (auto simp: Index_find_def selectChild_def Let_def)
qed

lemma card_index_map: "index_ok x \<Longrightarrow> card (dom (index_map x)) = ix_size x"
proof -
  assume ok: "index_ok x"
  then have "distinct (map fst (ix_container x))" using sorted_distinct [of "ix_container x"] by (simp add: index_ok_def)
  then have "card (fst ` set (ix_container x)) = length (ix_container x)" using distinct_card [of "map fst (ix_container x)"] by simp
  with ok show ?thesis by (simp add: index_map_def dom_map_of_conv_image_fst index_ok_def)
qed

text \<open>The states an index goes through: it is created empty, then entries are inserted and erased.\<close>

inductive index_reachable :: "nat \<Rightarrow> repo_index \<Rightarrow> bool" for nMaxPackets where
  new: "index_reachable nMaxPackets (Index_new nMaxPackets)"
| insert: "index_reachable nMaxPackets x \<Longrightarrow> Index_insert sha256 x d ident = Inr (b, y) \<Longrightarrow> index_reachable nMaxPackets y"
| insert_name: "index_reachable nMaxPackets x \<Longrightarrow> Index_insert_name x n ident h = Inr (b, y) \<Longrightarrow> index_reachable nMaxPackets y"
| erase: "index_reachable nMaxPackets x \<Longrightarrow> Index_erase x n = (b, y) \<Longrightarrow> index_reachable nMaxPackets y"

text \<open>The index and the Interests of the witnesses: three entries under \<open>/a\<close>, two of them in one child.\<close>

definition example_entry :: "byte list list \<Rightarrow> int \<Rightarrow> index_entry" where
  "example_entry vs ident = (map (Component 8) vs, \<lparr>e_keyLocatorHash = None, e_id = ident\<rparr>)"

definition example_index :: "index_entry list \<Rightarrow> repo_index" where
  "example_index es = \<lparr>ix_container = es, ix_maxPackets = 10, ix_size = length es\<rparr>"

definition example_interest :: interest where
  "example_interest = (Interest_of_name name_a)\<lparr>i_selectors := example_selectors\<rparr>"

lemma example_interest:
  "has_successor (i_name example_interest)" "name_of (i_name example_interest) = [Component 8 [97]]" "Name_size (i_name example_interest) = 1"
  "sel_childSelector (i_selectors example_interest) = 1" "publisher_hash sha256 example_interest = Inr None"
  "hashes_present example_interest None es"
  "entry_admits example_interest None e \<longleftrightarrow> take 1 (fst e) = [Component 8 [97]] \<and> length (fst e) \<le> 2"
proof -
  have n: "i_name example_interest = name_a" "i_selectors example_interest = example_selectors" by (simp_all add: example_interest_def Interest_of_name_def)
  have s: "sel_minSuffixComponents example_selectors = - 1" "sel_maxSuffixComponents example_selectors = 1" "sel_childSelector example_selectors = 1"
    "KeyLocator_empty (sel_publisherPublicKeyLocator example_selectors)" "ex_entries (sel_exclude example_selectors) = []"
    by (simp_all add: example_selectors_def Selectors_setChildSelector_def Selectors_setMaxSuffixComponents_def Selectors_drop_wire_def
        Selectors_default_def KeyLocator_empty_def KeyLocator_default_def Exclude_default_def)
  show "has_successor (i_name example_interest)" by (simp add: n has_successor_def example_names Component_isGeneric_def)
  show "name_of (i_name example_interest) = [Component 8 [97]]" "Name_size (i_name example_interest) = 1"
    by (simp_all add: n example_names Name_size_def)
  show "sel_childSelector (i_selectors example_interest) = 1" "publisher_hash sha256 example_interest = Inr None"
    "hashes_present example_interest None es" by (simp_all add: n s publisher_hash_def hashes_present_def)
  show "entry_admits example_interest None e \<longleftrightarrow> take 1 (fst e) = [Component 8 [97]] \<and> length (fst e) \<le> 2"
    by (auto simp: entry_admits_def admits_def n s example_names)
qed

lemma letter_lt: "Component 8 [v] < Component 8 [w] \<longleftrightarrow> unat v < unat w"
  by (simp add: less_component_def be_value_def)

lemma example_index_ok: "sorted_map name_lt es \<Longrightarrow> length es \<le> 10 \<Longrightarrow> index_ok (example_index es)"
  by (simp add: index_ok_def example_index_def)

text \<open>Search for the leftmost child, shared with the deletion of the repository storage.\<close>

lemma Index_find_leftmost_raw:
  assumes "index_ok x" and "sel_childSelector (i_selectors i) \<le> 0" and "publisher_hash sha256 i = Inr hash"
    and "hashes_present i hash (ix_container x)"
  shows "Index_find sha256 x i = Inr (result_of (List.find (entry_admits i hash) (ix_container x)))"
proof -
  let ?es = "ix_container x" and ?b = "lower_bound name_lt (name_of (i_name i)) (ix_container x)"
  have s: "sorted_map name_lt ?es" using assms(1) by (simp add: index_ok_def)
  have d: "List.find (entry_admits i hash) (drop ?b ?es) = List.find (entry_admits i hash) ?es"
    using find_from_lower_bound [OF s] is_prefix_le [OF entry_admits_prefix] by blast
  have "sorted_map name_lt (drop ?b ?es)" "\<forall>e \<in> set (drop ?b ?es). name_of (i_name i) \<le> fst e"
    by (auto simp: nm.drop_lower_bound [OF s] sorted_map_filter [OF s] not_less)
  moreover have "hashes_present i hash (drop ?b ?es)" using assms(4) by (auto simp: hashes_present_def dest: in_set_dropD)
  ultimately have "select_leftmost i hash (drop ?b ?es) = Inr (result_of (List.find (entry_admits i hash) ?es))"
    using select_leftmost_find [of "drop ?b ?es" i hash] d by simp
  then show ?thesis using assms(2,3) d by (auto simp: Index_find_def selectChild_def Let_def result_of_def)
qed

section \<open>Properties\<close>

text \<open>
  C19: the index refines a map from full names with a bound on its size. \<^verbatim>\<open>insert\<close> throws exactly when
  the bound is reached, otherwise adds the entry exactly when the name is new and says so; an entry
  already there is kept. \<^verbatim>\<open>erase\<close> removes exactly the entry of its name and says whether there was one.
\<close>

theorem Index_refines_map:
  assumes "index_ok x"
  shows "Index_insert_name x n ident h =
       (if card (dom (index_map x)) \<ge> ix_maxPackets x then Inl Index_full_error
        else Inr (index_map x n = None, snd (Index_insert_entry x (n, \<lparr>e_keyLocatorHash = h, e_id = ident\<rparr>))))
     \<and> (card (dom (index_map x)) < ix_maxPackets x \<longrightarrow>
          index_map (snd (Index_insert_entry x (n, \<lparr>e_keyLocatorHash = h, e_id = ident\<rparr>))) =
            (if index_map x n = None then (index_map x)(n \<mapsto> \<lparr>e_keyLocatorHash = h, e_id = ident\<rparr>) else index_map x))
     \<and> fst (Index_erase x n) = (index_map x n \<noteq> None) \<and> index_map (snd (Index_erase x n)) = (index_map x)(n := None)"
  using Index_insert_entry_ok [OF assms, of "(n, \<lparr>e_keyLocatorHash = h, e_id = ident\<rparr>)"] Index_erase_ok [OF assms, of n]
    card_index_map [OF assms]
  by (auto simp: Index_insert_name_def Index_isFull_def prod_eq_iff not_le)

theorem Index_refines_map_witness:
  "Index_insert_name (Index_new 1) [Component 8 [97]] 5 None =
     Inr (True, \<lparr>ix_container = [([Component 8 [97]], \<lparr>e_keyLocatorHash = None, e_id = 5\<rparr>)], ix_maxPackets = 1, ix_size = 1\<rparr>)"
proof -
  have ok: "index_ok (Index_new 1)" by (simp add: index_ok_def Index_new_def)
  show ?thesis using Index_refines_map [OF ok, of "[Component 8 [97]]" 5 None]
    by (simp add: Index_new_def index_map_def Index_insert_entry_def emplace_def lower_bound_def)
qed

text \<open>
  The states of an index. However entries are inserted and erased, the container stays sorted by
  name without duplicates, \<^verbatim>\<open>m_size\<close> is the number of its entries, and never exceeds the bound given
  at creation.
\<close>

theorem Index_reachable_ok:
  assumes "index_reachable nMaxPackets x"
  shows "index_ok x \<and> ix_maxPackets x = nMaxPackets \<and> length (ix_container x) \<le> nMaxPackets \<and> distinct (map fst (ix_container x))"
proof -
  have "index_ok x \<and> ix_maxPackets x = nMaxPackets" using assms
  proof (induction rule: index_reachable.induct)
    case new
    then show ?case by (simp add: index_ok_def Index_new_def)
  next
    case (insert x sha256 d ident b y)
    then obtain e where "\<not> Index_isFull x" "y = snd (Index_insert_entry x e)"
      by (auto simp: Index_insert_def split: if_splits sum.splits) (metis snd_conv)
    then show ?case using insert Index_insert_entry_ok [of x e] by simp
  next
    case (insert_name x n ident h b y)
    then have "\<not> Index_isFull x" "y = snd (Index_insert_entry x (n, \<lparr>e_keyLocatorHash = h, e_id = ident\<rparr>))"
      by (auto simp: Index_insert_name_def split: if_splits)
    then show ?case using insert_name Index_insert_entry_ok [of x] by simp
  next
    case (erase x n b y)
    then have "y = snd (Index_erase x n)" by simp
    moreover have "ix_maxPackets (snd (Index_erase x n)) = ix_maxPackets x" by (simp add: Index_erase_def Let_def split: option.splits)
    ultimately show ?case using erase Index_erase_ok(1) [of x n] by simp
  qed
  then show ?thesis using sorted_distinct [of "ix_container x"] by (auto simp: index_ok_def)
qed

theorem Index_reachable_ok_witness:
  "index_reachable 1 (snd (Index_erase (Index_new 1) [])) \<and> index_ok (snd (Index_erase (Index_new 1) []))"
  using Index_reachable_ok [of 1 "snd (Index_erase (Index_new 1) [])"]
    index_reachable.erase [OF index_reachable.new, of 1 "[]" "fst (Index_erase (Index_new 1) [])"] by simp

text \<open>
  C18: the leftmost child. Unless the child selector is positive, and provided that when the Interest
  has a \<^verbatim>\<open>PublisherPublicKeyLocator\<close>, the hash of it can be computed and every
  entry under its name has the hash of a key locator (for one without, the source dereferences null),
  \<^verbatim>\<open>find(interest)\<close> returns the first entry in canonical order that the
  Interest's selectors admit, and the pair of \<open>0\<close> and the empty name exactly when no entry
  is admitted, although the search starts at the lower bound of the name and stops at the first entry
  that does not have it as a prefix.
\<close>

theorem Index_find_leftmost:
  assumes "index_ok x" and "sel_childSelector (i_selectors i) \<le> 0" and "publisher_hash sha256 i = Inr hash"
    and "hashes_present i hash (ix_container x)"
  shows "Index_find sha256 x i = Inr (result_of (List.find (entry_admits i hash) (ix_container x)))"
  using assms by (rule Index_find_leftmost_raw)

theorem Index_find_leftmost_witness:
  "Index_find (\<lambda>_. []) (example_index [example_entry [[97], [120]] 1, example_entry [[97], [121]] 2])
     (Interest_setChildSelector example_interest 0) = Inr (1, [Component 8 [97], Component 8 [120]])"
proof -
  let ?es = "[example_entry [[97], [120]] 1, example_entry [[97], [121]] 2]" and ?i = "Interest_setChildSelector example_interest 0"
  have "index_ok (example_index ?es)" by (rule example_index_ok) (simp_all add: example_entry_def letter_lt)
  moreover have "sel_childSelector (i_selectors ?i) = 0" "publisher_hash (\<lambda>_. []) ?i = publisher_hash (\<lambda>_. []) example_interest"
    "hashes_present ?i None ?es = hashes_present example_interest None ?es" "entry_admits ?i None e = entry_admits example_interest None e" for e
    by (simp_all add: Interest_setChildSelector_def Selectors_setChildSelector_def Selectors_drop_wire_def Interest_drop_wire_def
        publisher_hash_def hashes_present_def entry_admits_def admits_def)
  ultimately show ?thesis
    using Index_find_leftmost [of "example_index ?es" ?i "\<lambda>_. []" None] example_interest(5,6)
    by (simp add: example_index_def example_interest(7) result_of_def found_def example_entry_def)
qed

text \<open>
  C21: the rightmost child. With a positive child selector and a name that has shortest component wires
  and ends in a generic component, whenever some entry is admitted, and provided that when the Interest
  has a \<^verbatim>\<open>PublisherPublicKeyLocator\<close>, the hash of it can be computed and every
  entry under its name has the hash of a key locator (for one without, the source dereferences null),
  \<^verbatim>\<open>find\<close> terminates without undefined behaviour and returns, in the greatest
  child of the Interest's name that has an admitted entry, the first admitted one.
\<close>

theorem Index_find_rightmost:
  assumes "index_ok x" and "has_successor (i_name i)" and "sel_childSelector (i_selectors i) > 0" and "publisher_hash sha256 i = Inr hash"
    and "hashes_present i hash (ix_container x)" and "\<exists>e \<in> set (ix_container x). entry_admits i hash e"
  shows "\<exists>e. rightmost_match i hash (ix_container x) e \<and> Index_find sha256 x i = Inr (found e)"
proof -
  let ?es = "ix_container x" and ?b = "lower_bound name_lt (name_of (i_name i)) (ix_container x)"
  have "\<exists>e \<in> set ?es. is_prefix (name_of (i_name i)) (fst e)" using assms(6) entry_admits_prefix by blast
  from Index_find_rightmost_loop [OF assms(1-4) this] obtain d where d: "under_name i ?es ?b d"
    "Index_find sha256 x i = select_rightmost i hash ?es ?b d" by blast
  have "\<not> entry_admits i hash (?es ! j)" if "j < length ?es" "d \<le> j" for j
    using that d(1) entry_admits_prefix [of i hash "?es ! j"] by (auto simp: under_name_def)
  then show ?thesis using select_rightmost_match [OF d(1) assms(5), of d] d assms(6) by (auto simp: under_name_def)
qed

theorem Index_find_rightmost_witness:
  "Index_find (\<lambda>_. []) (example_index [example_entry [[97], [120]] 1, example_entry [[97], [121]] 2, example_entry [[97], [121], [98]] 3])
     example_interest = Inr (2, [Component 8 [97], Component 8 [121]])"
proof -
  let ?es = "[example_entry [[97], [120]] 1, example_entry [[97], [121]] 2, example_entry [[97], [121], [98]] 3]"
  have ok: "index_ok (example_index ?es)" by (rule example_index_ok) (simp_all add: example_entry_def letter_lt)
  have "\<exists>e. rightmost_match example_interest None ?es e \<and> Index_find (\<lambda>_. []) (example_index ?es) example_interest = Inr (found e)"
    using Index_find_rightmost [OF ok example_interest(1) _ example_interest(5), of "\<lambda>_. []"] example_interest(4,6)
    by (simp add: example_index_def example_interest(7)) (simp add: example_entry_def)
  then obtain e where e: "rightmost_match example_interest None ?es e" "Index_find (\<lambda>_. []) (example_index ?es) example_interest = Inr (found e)" by blast
  have "e = example_entry [[97], [121]] 2" using e(1)
    by (auto simp: rightmost_match_def example_interest(3,7) child_def) (auto simp: example_entry_def letter_lt)
  with e(2) show ?thesis by (simp add: found_def example_entry_def)
qed

text \<open>
  The rightmost child when nothing matches. If entries exist under the Interest's name and none is
  admitted, \<^verbatim>\<open>find\<close> reports that only when the first child of the name has a single entry; otherwise
  the loop steps over the first entry under the name and moves its iterator before the container.
\<close>

theorem Index_find_rightmost_runs_off:
  assumes "index_ok x" and "has_successor (i_name i)" and "sel_childSelector (i_selectors i) > 0" and "publisher_hash sha256 i = Inr hash"
    and "hashes_present i hash (ix_container x)" and "\<forall>e \<in> set (ix_container x). \<not> entry_admits i hash e"
    and "\<exists>e \<in> set (ix_container x). is_prefix (name_of (i_name i)) (fst e)"
  shows "Index_find sha256 x i =
     (let es = ix_container x; b = lower_bound name_lt (name_of (i_name i)) es
      in if b + 1 < length es \<and> is_prefix (name_of (i_name i)) (fst (es ! (b + 1)))
            \<and> child (Name_size (i_name i)) (es ! (b + 1)) = child (Name_size (i_name i)) (es ! b)
         then Inl (UndefinedBehaviour ''iterator moved before the first entry'') else Inr no_entry)"
proof -
  let ?es = "ix_container x" and ?b = "lower_bound name_lt (name_of (i_name i)) (ix_container x)"
  from Index_find_rightmost_loop [OF assms(1-4,7)] obtain d where d: "under_name i ?es ?b d"
    "Index_find sha256 x i = select_rightmost i hash ?es ?b d" by blast
  moreover have "?b + 1 < d \<longleftrightarrow> ?b + 1 < length ?es \<and> is_prefix (name_of (i_name i)) (fst (?es ! (?b + 1)))"
    using d(1) by (auto simp: under_name_def)
  ultimately show ?thesis using select_rightmost_no_match [OF d(1) assms(5,6), of d] by (simp add: under_name_def Let_def)
qed

theorem Index_find_rightmost_runs_off_witness:
  "Index_find (\<lambda>_. []) (example_index [example_entry [[97], [120], [97]] 1, example_entry [[97], [120], [98]] 2]) example_interest
     = Inl (UndefinedBehaviour ''iterator moved before the first entry'')"
proof -
  let ?es = "[example_entry [[97], [120], [97]] 1, example_entry [[97], [120], [98]] 2]"
  have ok: "index_ok (example_index ?es)" by (rule example_index_ok) (simp_all add: example_entry_def letter_lt)
  have "lower_bound name_lt (name_of (i_name example_interest)) ?es = 0"
    by (simp add: lower_bound_def example_interest(2) example_entry_def)
  then show ?thesis
    using Index_find_rightmost_runs_off [OF ok example_interest(1) _ example_interest(5), of "\<lambda>_. []"] example_interest(4,6)
    by (simp add: example_index_def example_interest(2,3,7) Let_def) (simp add: example_entry_def is_prefix_def child_def)
qed

end
