(* ===== verification/RepoCommand.thy ===== *)
theory RepoCommand
  imports Interest
begin

text \<open>
  The commands of the repository protocol, \<^verbatim>\<open>repo-ng-mongo/src/repo-command-parameter.hpp\<close> and
  \<^verbatim>\<open>repo-command-response.hpp\<close>: records of optional numbers, each with a flag, and their wire. A number
  whose flag is not set is indeterminate in the code and \<open>0\<close> here; nothing reads it.
\<close>

section \<open>Type codes\<close>

definition tlv_RepoCommandParameter :: u32 where "tlv_RepoCommandParameter = 201"
definition tlv_StartBlockId :: u32 where "tlv_StartBlockId = 204"
definition tlv_EndBlockId :: u32 where "tlv_EndBlockId = 205"
definition tlv_ProcessId :: u32 where "tlv_ProcessId = 206"
definition tlv_RepoCommandResponse :: u32 where "tlv_RepoCommandResponse = 207"
definition tlv_StatusCode :: u32 where "tlv_StatusCode = 208"
definition tlv_InsertNum :: u32 where "tlv_InsertNum = 209"
definition tlv_DeleteNum :: u32 where "tlv_DeleteNum = 210"
definition tlv_MaxInterestNum :: u32 where "tlv_MaxInterestNum = 211"
definition tlv_WatchTimeout :: u32 where "tlv_WatchTimeout = 212"

lemmas repo_codes = tlv_RepoCommandParameter_def tlv_StartBlockId_def tlv_EndBlockId_def tlv_ProcessId_def
  tlv_RepoCommandResponse_def tlv_StatusCode_def tlv_InsertNum_def tlv_DeleteNum_def tlv_MaxInterestNum_def tlv_WatchTimeout_def

section \<open>Parameters\<close>

record repo_parameter =
  p_name :: name
  p_selectors :: selectors
  p_startBlockId :: u64
  p_endBlockId :: u64
  p_processId :: u64
  p_maxInterestNum :: u64
  p_watchTimeout :: int
  p_interestLifetime :: int
  p_hasName :: bool
  p_hasStartBlockId :: bool
  p_hasEndBlockId :: bool
  p_hasProcessId :: bool
  p_hasMaxInterestNum :: bool
  p_hasWatchTimeout :: bool
  p_hasInterestLifetime :: bool
  p_wire :: block

definition Parameter_default :: repo_parameter where
  "Parameter_default = \<lparr>p_name = Name_default, p_selectors = Selectors_default, p_startBlockId = 0, p_endBlockId = 0,
     p_processId = 0, p_maxInterestNum = 0, p_watchTimeout = 0, p_interestLifetime = 0, p_hasName = False,
     p_hasStartBlockId = False, p_hasEndBlockId = False, p_hasProcessId = False, p_hasMaxInterestNum = False,
     p_hasWatchTimeout = False, p_hasInterestLifetime = False, p_wire = Block_default\<rparr>"

definition Parameter_drop_wire :: "repo_parameter \<Rightarrow> repo_parameter" where
  "Parameter_drop_wire p = p\<lparr>p_wire := Block_reset (p_wire p)\<rparr>"

definition Parameter_setName :: "repo_parameter \<Rightarrow> name \<Rightarrow> repo_parameter" where
  "Parameter_setName p n = Parameter_drop_wire (p\<lparr>p_name := n, p_hasName := True\<rparr>)"

definition Parameter_setSelectors :: "repo_parameter \<Rightarrow> selectors \<Rightarrow> repo_parameter" where
  "Parameter_setSelectors p s = Parameter_drop_wire (p\<lparr>p_selectors := s\<rparr>)"

definition Parameter_hasSelectors :: "repo_parameter \<Rightarrow> bool" where
  "Parameter_hasSelectors p \<longleftrightarrow> \<not> Selectors_empty (p_selectors p)"

definition Parameter_setStartBlockId :: "repo_parameter \<Rightarrow> u64 \<Rightarrow> repo_parameter" where
  "Parameter_setStartBlockId p n = Parameter_drop_wire (p\<lparr>p_startBlockId := n, p_hasStartBlockId := True\<rparr>)"

definition Parameter_setEndBlockId :: "repo_parameter \<Rightarrow> u64 \<Rightarrow> repo_parameter" where
  "Parameter_setEndBlockId p n = Parameter_drop_wire (p\<lparr>p_endBlockId := n, p_hasEndBlockId := True\<rparr>)"

definition Parameter_setProcessId :: "repo_parameter \<Rightarrow> u64 \<Rightarrow> repo_parameter" where
  "Parameter_setProcessId p n = Parameter_drop_wire (p\<lparr>p_processId := n, p_hasProcessId := True\<rparr>)"

definition Parameter_setMaxInterestNum :: "repo_parameter \<Rightarrow> u64 \<Rightarrow> repo_parameter" where
  "Parameter_setMaxInterestNum p n = Parameter_drop_wire (p\<lparr>p_maxInterestNum := n, p_hasMaxInterestNum := True\<rparr>)"

definition Parameter_setWatchTimeout :: "repo_parameter \<Rightarrow> int \<Rightarrow> repo_parameter" where
  "Parameter_setWatchTimeout p n = Parameter_drop_wire (p\<lparr>p_watchTimeout := n, p_hasWatchTimeout := True\<rparr>)"

definition Parameter_setInterestLifetime :: "repo_parameter \<Rightarrow> int \<Rightarrow> repo_parameter" where
  "Parameter_setInterestLifetime p n = Parameter_drop_wire (p\<lparr>p_interestLifetime := n, p_hasInterestLifetime := True\<rparr>)"

definition Parameter_wireEncode_template :: "'s encoding_ops \<Rightarrow> repo_parameter \<Rightarrow> ('s, nat) state res" where
  "Parameter_wireEncode_template ops p =
     (case (if Parameter_hasSelectors p then Selectors_wireEncode_template ops (p_selectors p) else Inr (State_Monad.return 0)) of
        Inl e \<Rightarrow> Inl e
      | Inr selectors \<Rightarrow> Inr (do {
          n1 \<leftarrow> when_present (p_hasProcessId p) (prependNonNegativeIntegerBlock ops tlv_ProcessId (p_processId p));
          n2 \<leftarrow> when_present (p_hasEndBlockId p) (prependNonNegativeIntegerBlock ops tlv_EndBlockId (p_endBlockId p));
          n3 \<leftarrow> when_present (p_hasStartBlockId p) (prependNonNegativeIntegerBlock ops tlv_StartBlockId (p_startBlockId p));
          n4 \<leftarrow> when_present (p_hasMaxInterestNum p) (prependNonNegativeIntegerBlock ops tlv_MaxInterestNum (p_maxInterestNum p));
          n5 \<leftarrow> when_present (p_hasWatchTimeout p) (prependNonNegativeIntegerBlock ops tlv_WatchTimeout (word_of_int (p_watchTimeout p)));
          n6 \<leftarrow> when_present (p_hasInterestLifetime p)
                 (prependNonNegativeIntegerBlock ops tlv_InterestLifetime (word_of_int (p_interestLifetime p)));
          n7 \<leftarrow> selectors;
          n8 \<leftarrow> when_present (p_hasName p) (Name_wireEncode_template ops (p_name p));
          k \<leftarrow> op_prependVarNumber ops (word_of_nat (n1 + n2 + n3 + n4 + n5 + n6 + n7 + n8));
          j \<leftarrow> op_prependVarNumber ops (ucast tlv_RepoCommandParameter);
          State_Monad.return (n1 + n2 + n3 + n4 + n5 + n6 + n7 + n8 + k + j)
        }))"

definition Parameter_wireEncode :: "repo_parameter \<Rightarrow> (block \<times> repo_parameter) res" where
  "Parameter_wireEncode p =
     (if Block_hasWire (p_wire p) then Inr (p_wire p, p)
      else case try_encode (Parameter_wireEncode_template estimator_ops p) (Parameter_wireEncode_template encoder_ops p) of
        Inl e \<Rightarrow> Inl e | Inr b \<Rightarrow> Inr (b, p\<lparr>p_wire := b\<rparr>))"

definition Parameter_clear_flags :: "repo_parameter \<Rightarrow> repo_parameter" where
  "Parameter_clear_flags p = p\<lparr>p_hasName := False, p_hasStartBlockId := False, p_hasEndBlockId := False, p_hasProcessId := False,
     p_hasMaxInterestNum := False, p_hasWatchTimeout := False, p_hasInterestLifetime := False\<rparr>"

definition Parameter_decode_name :: "block \<Rightarrow> repo_parameter \<Rightarrow> error option \<times> repo_parameter" where
  "Parameter_decode_name b p =
     (case Name_wireDecode (p_name p) b of (err, n) \<Rightarrow> (err, p\<lparr>p_hasName := True, p_name := n\<rparr>))"

definition Parameter_decode_selectors :: "block \<Rightarrow> repo_parameter \<Rightarrow> error option \<times> repo_parameter" where
  "Parameter_decode_selectors b p =
     (case Selectors_wireDecode (p_selectors p) b of (err, s) \<Rightarrow> (err, p\<lparr>p_selectors := s\<rparr>))"

definition Parameter_wireDecode :: "repo_parameter \<Rightarrow> block \<Rightarrow> error option \<times> repo_parameter" where
  "Parameter_wireDecode p wire =
     (case Block_parse wire of
        (Some e, w) \<Rightarrow> (Some e, (Parameter_clear_flags p)\<lparr>p_wire := w\<rparr>)
      | (None, w) \<Rightarrow>
          (let p0 = (Parameter_clear_flags p)\<lparr>p_wire := w\<rparr>
           in if m_type w \<noteq> tlv_RepoCommandParameter
              then (Some (RepoError ''Requested decoding of RepoCommandParameter, but Block is of different type''), p0)
              else
                then_decode (then_decode (then_decode (then_decode (then_decode (then_decode (then_decode
                  (decode_optional w tlv_Name Parameter_decode_name id p0)
                  (decode_optional w tlv_Selectors Parameter_decode_selectors (\<lambda>p. p\<lparr>p_selectors := Selectors_default\<rparr>)))
                  (decode_number w tlv_StartBlockId (\<lambda>p. p\<lparr>p_hasStartBlockId := True\<rparr>) (\<lambda>n p. p\<lparr>p_startBlockId := n\<rparr>)))
                  (decode_number w tlv_EndBlockId (\<lambda>p. p\<lparr>p_hasEndBlockId := True\<rparr>) (\<lambda>n p. p\<lparr>p_endBlockId := n\<rparr>)))
                  (decode_number w tlv_ProcessId (\<lambda>p. p\<lparr>p_hasProcessId := True\<rparr>) (\<lambda>n p. p\<lparr>p_processId := n\<rparr>)))
                  (decode_number w tlv_MaxInterestNum (\<lambda>p. p\<lparr>p_hasMaxInterestNum := True\<rparr>) (\<lambda>n p. p\<lparr>p_maxInterestNum := n\<rparr>)))
                  (decode_number w tlv_WatchTimeout (\<lambda>p. p\<lparr>p_hasWatchTimeout := True\<rparr>) (\<lambda>n p. p\<lparr>p_watchTimeout := count_of_u64 n\<rparr>)))
                  (decode_number w tlv_InterestLifetime (\<lambda>p. p\<lparr>p_hasInterestLifetime := True\<rparr>)
                     (\<lambda>n p. p\<lparr>p_interestLifetime := count_of_u64 n\<rparr>))))"

section \<open>Responses\<close>

record repo_response =
  r_statusCode :: u64
  r_startBlockId :: u64
  r_endBlockId :: u64
  r_processId :: u64
  r_insertNum :: u64
  r_deleteNum :: u64
  r_hasStartBlockId :: bool
  r_hasEndBlockId :: bool
  r_hasProcessId :: bool
  r_hasInsertNum :: bool
  r_hasDeleteNum :: bool
  r_hasStatusCode :: bool
  r_wire :: block

definition Response_default :: repo_response where
  "Response_default = \<lparr>r_statusCode = 0, r_startBlockId = 0, r_endBlockId = 0, r_processId = 0, r_insertNum = 0, r_deleteNum = 0,
     r_hasStartBlockId = False, r_hasEndBlockId = False, r_hasProcessId = False, r_hasInsertNum = False, r_hasDeleteNum = False,
     r_hasStatusCode = False, r_wire = Block_default\<rparr>"

definition Response_drop_wire :: "repo_response \<Rightarrow> repo_response" where
  "Response_drop_wire r = r\<lparr>r_wire := Block_reset (r_wire r)\<rparr>"

definition Response_setStartBlockId :: "u64 \<Rightarrow> repo_response \<Rightarrow> repo_response" where
  "Response_setStartBlockId n r = Response_drop_wire (r\<lparr>r_startBlockId := n, r_hasStartBlockId := True\<rparr>)"

definition Response_setEndBlockId :: "u64 \<Rightarrow> repo_response \<Rightarrow> repo_response" where
  "Response_setEndBlockId n r = Response_drop_wire (r\<lparr>r_endBlockId := n, r_hasEndBlockId := True\<rparr>)"

definition Response_setProcessId :: "u64 \<Rightarrow> repo_response \<Rightarrow> repo_response" where
  "Response_setProcessId n r = Response_drop_wire (r\<lparr>r_processId := n, r_hasProcessId := True\<rparr>)"

definition Response_setStatusCode :: "u64 \<Rightarrow> repo_response \<Rightarrow> repo_response" where
  "Response_setStatusCode n r = Response_drop_wire (r\<lparr>r_statusCode := n, r_hasStatusCode := True\<rparr>)"

definition Response_setInsertNum :: "u64 \<Rightarrow> repo_response \<Rightarrow> repo_response" where
  "Response_setInsertNum n r = Response_drop_wire (r\<lparr>r_insertNum := n, r_hasInsertNum := True\<rparr>)"

definition Response_setDeleteNum :: "u64 \<Rightarrow> repo_response \<Rightarrow> repo_response" where
  "Response_setDeleteNum n r = Response_drop_wire (r\<lparr>r_deleteNum := n, r_hasDeleteNum := True\<rparr>)"

definition status_missing :: error where
  "status_missing = RepoError ''required field StatusCode is missing''"

definition Response_wireEncode_template :: "'s encoding_ops \<Rightarrow> repo_response \<Rightarrow> ('s, nat) state res" where
  "Response_wireEncode_template ops r =
     (if \<not> r_hasStatusCode r then Inl status_missing
      else Inr (do {
        n1 \<leftarrow> when_present (r_hasDeleteNum r) (prependNonNegativeIntegerBlock ops tlv_DeleteNum (r_deleteNum r));
        n2 \<leftarrow> when_present (r_hasInsertNum r) (prependNonNegativeIntegerBlock ops tlv_InsertNum (r_insertNum r));
        n3 \<leftarrow> when_present (r_hasEndBlockId r) (prependNonNegativeIntegerBlock ops tlv_EndBlockId (r_endBlockId r));
        n4 \<leftarrow> when_present (r_hasStartBlockId r) (prependNonNegativeIntegerBlock ops tlv_StartBlockId (r_startBlockId r));
        n5 \<leftarrow> prependNonNegativeIntegerBlock ops tlv_StatusCode (r_statusCode r);
        n6 \<leftarrow> when_present (r_hasProcessId r) (prependNonNegativeIntegerBlock ops tlv_ProcessId (r_processId r));
        k \<leftarrow> op_prependVarNumber ops (word_of_nat (n1 + n2 + n3 + n4 + n5 + n6));
        j \<leftarrow> op_prependVarNumber ops (ucast tlv_RepoCommandResponse);
        State_Monad.return (n1 + n2 + n3 + n4 + n5 + n6 + k + j)
      }))"

definition Response_wireEncode :: "repo_response \<Rightarrow> (block \<times> repo_response) res" where
  "Response_wireEncode r =
     (if Block_hasWire (r_wire r) then Inr (r_wire r, r)
      else case try_encode (Response_wireEncode_template estimator_ops r) (Response_wireEncode_template encoder_ops r) of
        Inl e \<Rightarrow> Inl e | Inr b \<Rightarrow> Inr (b, r\<lparr>r_wire := b\<rparr>))"

definition Response_clear_flags :: "repo_response \<Rightarrow> repo_response" where
  "Response_clear_flags r = r\<lparr>r_hasStartBlockId := False, r_hasEndBlockId := False, r_hasProcessId := False, r_hasStatusCode := False,
     r_hasInsertNum := False, r_hasDeleteNum := False\<rparr>"

definition Response_decode_status :: "block \<Rightarrow> repo_response \<Rightarrow> error option \<times> repo_response" where
  "Response_decode_status w r =
     (case find_element w tlv_StatusCode of
        None \<Rightarrow> (Some status_missing, r)
      | Some _ \<Rightarrow> decode_number w tlv_StatusCode (\<lambda>r. r\<lparr>r_hasStatusCode := True\<rparr>) (\<lambda>n r. r\<lparr>r_statusCode := n\<rparr>) r)"

definition Response_wireDecode :: "repo_response \<Rightarrow> block \<Rightarrow> error option \<times> repo_response" where
  "Response_wireDecode r wire =
     (case Block_parse wire of
        (Some e, w) \<Rightarrow> (Some e, (Response_clear_flags r)\<lparr>r_wire := w\<rparr>)
      | (None, w) \<Rightarrow>
          (let r0 = (Response_clear_flags r)\<lparr>r_wire := w\<rparr>
           in if m_type w \<noteq> tlv_RepoCommandResponse then (Some (RepoError ''RepoCommandResponse malformed''), r0)
              else
                then_decode (then_decode (then_decode (then_decode (then_decode
                  (decode_number w tlv_StartBlockId (\<lambda>r. r\<lparr>r_hasStartBlockId := True\<rparr>) (\<lambda>n r. r\<lparr>r_startBlockId := n\<rparr>) r0)
                  (decode_number w tlv_EndBlockId (\<lambda>r. r\<lparr>r_hasEndBlockId := True\<rparr>) (\<lambda>n r. r\<lparr>r_endBlockId := n\<rparr>)))
                  (decode_number w tlv_ProcessId (\<lambda>r. r\<lparr>r_hasProcessId := True\<rparr>) (\<lambda>n r. r\<lparr>r_processId := n\<rparr>)))
                  (Response_decode_status w))
                  (decode_number w tlv_InsertNum (\<lambda>r. r\<lparr>r_hasInsertNum := True\<rparr>) (\<lambda>n r. r\<lparr>r_insertNum := n\<rparr>)))
                  (decode_number w tlv_DeleteNum (\<lambda>r. r\<lparr>r_hasDeleteNum := True\<rparr>) (\<lambda>n r. r\<lparr>r_deleteNum := n\<rparr>))))"

section \<open>The TLVs of the commands\<close>

definition number_tlv :: "bool \<Rightarrow> u32 \<Rightarrow> u64 \<Rightarrow> (u32 \<times> byte list) list" where
  "number_tlv c t n = opt_tlv c t (nonNegativeInteger_bytes n)"

definition param_tlvs :: "repo_parameter \<Rightarrow> (u32 \<times> byte list) list" where
  "param_tlvs p =
     opt_tlv (p_hasName p) tlv_Name (tlvs_wire (name_tlvs (name_of (p_name p))))
   @ opt_tlv (Parameter_hasSelectors p) tlv_Selectors (tlvs_wire (sel_tlvs (p_selectors p)))
   @ number_tlv (p_hasInterestLifetime p) tlv_InterestLifetime (word_of_int (p_interestLifetime p))
   @ number_tlv (p_hasWatchTimeout p) tlv_WatchTimeout (word_of_int (p_watchTimeout p))
   @ number_tlv (p_hasMaxInterestNum p) tlv_MaxInterestNum (p_maxInterestNum p)
   @ number_tlv (p_hasStartBlockId p) tlv_StartBlockId (p_startBlockId p)
   @ number_tlv (p_hasEndBlockId p) tlv_EndBlockId (p_endBlockId p)
   @ number_tlv (p_hasProcessId p) tlv_ProcessId (p_processId p)"

definition duration_ok :: "int \<Rightarrow> bool" where
  "duration_ok d \<longleftrightarrow> 0 \<le> d \<and> d < 2 ^ 63"

definition param_ok :: "repo_parameter \<Rightarrow> bool" where
  "param_ok p \<longleftrightarrow> name_block (p_name p) \<and> fits (tlvs_wire (name_tlvs (name_of (p_name p)))) \<and> sel_ok (p_selectors p)
     \<and> duration_ok (p_watchTimeout p) \<and> duration_ok (p_interestLifetime p) \<and> fits (tlvs_wire (param_tlvs p))"

text \<open>Equality of parameters as the accessors show them.\<close>

definition param_same :: "repo_parameter \<Rightarrow> repo_parameter \<Rightarrow> bool" where
  "param_same p q \<longleftrightarrow> p_hasName q = p_hasName p \<and> (p_hasName p \<longrightarrow> name_of (p_name q) = name_of (p_name p))
     \<and> (if Parameter_hasSelectors p then sel_same (p_selectors p) (p_selectors q) else p_selectors q = Selectors_default)
     \<and> p_hasStartBlockId q = p_hasStartBlockId p \<and> (p_hasStartBlockId p \<longrightarrow> p_startBlockId q = p_startBlockId p)
     \<and> p_hasEndBlockId q = p_hasEndBlockId p \<and> (p_hasEndBlockId p \<longrightarrow> p_endBlockId q = p_endBlockId p)
     \<and> p_hasProcessId q = p_hasProcessId p \<and> (p_hasProcessId p \<longrightarrow> p_processId q = p_processId p)
     \<and> p_hasMaxInterestNum q = p_hasMaxInterestNum p \<and> (p_hasMaxInterestNum p \<longrightarrow> p_maxInterestNum q = p_maxInterestNum p)
     \<and> p_hasWatchTimeout q = p_hasWatchTimeout p \<and> (p_hasWatchTimeout p \<longrightarrow> p_watchTimeout q = p_watchTimeout p)
     \<and> p_hasInterestLifetime q = p_hasInterestLifetime p \<and> (p_hasInterestLifetime p \<longrightarrow> p_interestLifetime q = p_interestLifetime p)"

definition resp_tlvs :: "repo_response \<Rightarrow> (u32 \<times> byte list) list" where
  "resp_tlvs r =
     number_tlv (r_hasProcessId r) tlv_ProcessId (r_processId r)
   @ number_tlv (r_hasStatusCode r) tlv_StatusCode (r_statusCode r)
   @ number_tlv (r_hasStartBlockId r) tlv_StartBlockId (r_startBlockId r)
   @ number_tlv (r_hasEndBlockId r) tlv_EndBlockId (r_endBlockId r)
   @ number_tlv (r_hasInsertNum r) tlv_InsertNum (r_insertNum r)
   @ number_tlv (r_hasDeleteNum r) tlv_DeleteNum (r_deleteNum r)"

definition resp_same :: "repo_response \<Rightarrow> repo_response \<Rightarrow> bool" where
  "resp_same r q \<longleftrightarrow> r_hasProcessId q = r_hasProcessId r \<and> (r_hasProcessId r \<longrightarrow> r_processId q = r_processId r)
     \<and> r_hasStatusCode q = r_hasStatusCode r \<and> (r_hasStatusCode r \<longrightarrow> r_statusCode q = r_statusCode r)
     \<and> r_hasStartBlockId q = r_hasStartBlockId r \<and> (r_hasStartBlockId r \<longrightarrow> r_startBlockId q = r_startBlockId r)
     \<and> r_hasEndBlockId q = r_hasEndBlockId r \<and> (r_hasEndBlockId r \<longrightarrow> r_endBlockId q = r_endBlockId r)
     \<and> r_hasInsertNum q = r_hasInsertNum r \<and> (r_hasInsertNum r \<longrightarrow> r_insertNum q = r_insertNum r)
     \<and> r_hasDeleteNum q = r_hasDeleteNum r \<and> (r_hasDeleteNum r \<longrightarrow> r_deleteNum q = r_deleteNum r)"

lemma map_of_number_tlv [simp]:
  "map_of (number_tlv c t n @ es) u = (if c \<and> u = t then Some (nonNegativeInteger_bytes n) else map_of es u)"
  "map_of (number_tlv c t n) u = (if c \<and> u = t then Some (nonNegativeInteger_bytes n) else None)"
  by (simp_all add: number_tlv_def opt_tlv_def)

lemma param_lookup:
  "map_of (param_tlvs p) tlv_Name = (if p_hasName p then Some (tlvs_wire (name_tlvs (name_of (p_name p)))) else None)"
  "map_of (param_tlvs p) tlv_Selectors = (if Parameter_hasSelectors p then Some (tlvs_wire (sel_tlvs (p_selectors p))) else None)"
  "map_of (param_tlvs p) tlv_StartBlockId = (if p_hasStartBlockId p then Some (nonNegativeInteger_bytes (p_startBlockId p)) else None)"
  "map_of (param_tlvs p) tlv_EndBlockId = (if p_hasEndBlockId p then Some (nonNegativeInteger_bytes (p_endBlockId p)) else None)"
  "map_of (param_tlvs p) tlv_ProcessId = (if p_hasProcessId p then Some (nonNegativeInteger_bytes (p_processId p)) else None)"
  "map_of (param_tlvs p) tlv_MaxInterestNum = (if p_hasMaxInterestNum p then Some (nonNegativeInteger_bytes (p_maxInterestNum p)) else None)"
  "map_of (param_tlvs p) tlv_WatchTimeout =
     (if p_hasWatchTimeout p then Some (nonNegativeInteger_bytes (word_of_int (p_watchTimeout p))) else None)"
  "map_of (param_tlvs p) tlv_InterestLifetime =
     (if p_hasInterestLifetime p then Some (nonNegativeInteger_bytes (word_of_int (p_interestLifetime p))) else None)"
  by (simp_all add: param_tlvs_def tlv_codes repo_codes del: map_of_append)

lemma resp_lookup:
  "map_of (resp_tlvs r) tlv_ProcessId = (if r_hasProcessId r then Some (nonNegativeInteger_bytes (r_processId r)) else None)"
  "map_of (resp_tlvs r) tlv_StatusCode = (if r_hasStatusCode r then Some (nonNegativeInteger_bytes (r_statusCode r)) else None)"
  "map_of (resp_tlvs r) tlv_StartBlockId = (if r_hasStartBlockId r then Some (nonNegativeInteger_bytes (r_startBlockId r)) else None)"
  "map_of (resp_tlvs r) tlv_EndBlockId = (if r_hasEndBlockId r then Some (nonNegativeInteger_bytes (r_endBlockId r)) else None)"
  "map_of (resp_tlvs r) tlv_InsertNum = (if r_hasInsertNum r then Some (nonNegativeInteger_bytes (r_insertNum r)) else None)"
  "map_of (resp_tlvs r) tlv_DeleteNum = (if r_hasDeleteNum r then Some (nonNegativeInteger_bytes (r_deleteNum r)) else None)"
  by (simp_all add: resp_tlvs_def repo_codes del: map_of_append)

lemma set_number_tlv: "(t', v) \<in> set (number_tlv c t n) \<Longrightarrow> fits v"
  by (auto simp: number_tlv_def split: if_splits)

lemma tlvs_fit: "param_ok p \<Longrightarrow> \<forall>(t, v) \<in> set (param_tlvs p). fits v" "\<forall>(t, v) \<in> set (resp_tlvs r). fits v"
  by (auto simp: param_tlvs_def resp_tlvs_def param_ok_def sel_ok_def dest: set_number_tlv)

context encoding_impl
begin

lemma number_prepends:
  "prepends R (when_present c (prependNonNegativeIntegerBlock ops t n)) (tlvs_wire (number_tlv c t n)) (length (tlvs_wire (number_tlv c t n)))"
  unfolding number_tlv_def by (rule when_present_prepends [OF prependNonNegativeIntegerBlock_prepends])

lemma Parameter_wireEncode_prepends:
  assumes "param_ok p"
  shows "\<exists>m. Parameter_wireEncode_template ops p = Inr m \<and> prepends R m (tlv_wire tlv_RepoCommandParameter (tlvs_wire (param_tlvs p)))
     (length (tlv_wire tlv_RepoCommandParameter (tlvs_wire (param_tlvs p))))"
proof -
  let ?s = "opt_tlv (Parameter_hasSelectors p) tlv_Selectors (tlvs_wire (sel_tlvs (p_selectors p)))"
  let ?n = "opt_tlv (p_hasName p) tlv_Name (tlvs_wire (name_tlvs (name_of (p_name p))))"
  have ok: "\<forall>c \<in> set (m_subBlocks (p_name p)). block_wf c" "kl_ok (sel_publisherPublicKeyLocator (p_selectors p))"
    using assms by (simp_all add: param_ok_def name_block_def component_block_def sel_ok_def)
  obtain m where m: "(if Parameter_hasSelectors p then Selectors_wireEncode_template ops (p_selectors p) else Inr (State_Monad.return 0)) = Inr m"
    "prepends R m (tlvs_wire ?s) (length (tlvs_wire ?s))"
    using Selectors_wireEncode_prepends [OF ok(2)] prepends_return [of R 0]
    by (cases "Parameter_hasSelectors p") (auto simp: opt_tlv_def)
  have n: "prepends R (when_present (p_hasName p) (Name_wireEncode_template ops (p_name p))) (tlvs_wire ?n) (length (tlvs_wire ?n))"
    using when_present_prepends [OF Name_wireEncode_prepends [OF ok(1)]] by (simp add: name_tlvs_of)
  show ?thesis unfolding Parameter_wireEncode_template_def m(1) sum.case
    by (rule exI, rule conjI, rule refl, rule prepends_cong,
        (rule prepends_bind m(2) n number_prepends prependVarNumber prepends_return)+)
      (simp_all add: param_tlvs_def tlv_wire_def size_simps ac_simps)
qed

lemma Response_wireEncode_prepends:
  assumes "r_hasStatusCode r"
  shows "\<exists>m. Response_wireEncode_template ops r = Inr m \<and> prepends R m (tlv_wire tlv_RepoCommandResponse (tlvs_wire (resp_tlvs r)))
     (length (tlv_wire tlv_RepoCommandResponse (tlvs_wire (resp_tlvs r))))"
proof -
  have st: "prependNonNegativeIntegerBlock ops tlv_StatusCode (r_statusCode r) =
      when_present (r_hasStatusCode r) (prependNonNegativeIntegerBlock ops tlv_StatusCode (r_statusCode r))"
    using assms by (simp add: when_present_def)
  show ?thesis unfolding Response_wireEncode_template_def
    by (subst st) (use assms in \<open>simp only: simp_thms if_False\<close>, rule exI, rule conjI, rule refl, rule prepends_cong,
        (rule prepends_bind number_prepends prependVarNumber prepends_return)+,
        simp_all add: resp_tlvs_def tlv_wire_def size_simps ac_simps)
qed

end

section \<open>Decoding\<close>

lemma Response_wireDecode_fresh:
  assumes "fresh_block w" and "block_tlv w = (tlv_RepoCommandResponse, tlvs_wire (resp_tlvs r))"
  shows "\<exists>q. Response_wireDecode r0 w = (if r_hasStatusCode r then None else Some status_missing, q) \<and> (r_hasStatusCode r \<longrightarrow> resp_same r q)"
proof -
  have v: "value_bytes w = tlvs_wire (resp_tlvs r)" using assms(2) by (simp add: block_tlv_def)
  from Block_parse_fresh [OF assms(1) v tlvs_fit(2)] obtain p where p: "Block_parse w = (None, p)"
    "map block_tlv (m_subBlocks p) = resp_tlvs r" "block_tlv p = block_tlv w" "\<forall>b \<in> set (m_subBlocks p). fresh_block b" by blast
  have t: "m_type p = tlv_RepoCommandResponse" using p(3) assms(2) by (simp add: block_tlv_def)
  note num = resp_lookup [THEN decode_number_opt [OF p(2,4)]]
  have st: "Response_decode_status p x = (if r_hasStatusCode r then (None, x\<lparr>r_hasStatusCode := True, r_statusCode := r_statusCode r\<rparr>)
      else (Some status_missing, x))" for x
    using find_element_tlvs [OF p(2,4), of tlv_StatusCode] num(2)
    by (auto simp: Response_decode_status_def resp_lookup split: if_splits)
  show ?thesis
    using p(1) t st by (cases "r_hasStatusCode r")
      (simp_all add: Response_wireDecode_def Let_def num resp_same_def Response_clear_flags_def then_decode_def)
qed

lemma decode_param_name:
  assumes "map block_tlv (m_subBlocks w) = param_tlvs p" and "\<forall>b \<in> set (m_subBlocks w). fresh_block b" and "param_ok p"
  shows "\<exists>n. decode_optional w tlv_Name Parameter_decode_name id x = (None, if p_hasName p then x\<lparr>p_hasName := True, p_name := n\<rparr> else x)
     \<and> name_of n = name_of (p_name p)"
proof (cases "p_hasName p")
  case True
  then have "map_of (param_tlvs p) tlv_Name = Some (tlvs_wire (name_tlvs (name_of (p_name p))))" by (simp add: param_lookup)
  from decode_optional_tlvs(2) [OF assms(1,2) this, where f = Parameter_decode_name and absent = id and x = x]
  obtain b where b: "fresh_block b" "block_tlv b = (tlv_Name, tlvs_wire (name_tlvs (name_of (p_name p))))"
    "decode_optional w tlv_Name Parameter_decode_name id x = Parameter_decode_name b x" by blast
  have "name_block (p_name p)" using assms(3) by (simp add: param_ok_def)
  from Name_wireDecode_fresh [OF b(1,2) name_tlvs_fits [OF this], of "p_name x"] b(3) True show ?thesis
    by (auto simp: Parameter_decode_name_def)
next
  case False
  then have "map_of (param_tlvs p) tlv_Name = None" by (simp add: param_lookup)
  from decode_optional_tlvs(1) [OF assms(1,2) this, of Parameter_decode_name id x] False show ?thesis by auto
qed

lemma decode_param_selectors:
  assumes "map block_tlv (m_subBlocks w) = param_tlvs p" and "\<forall>b \<in> set (m_subBlocks w). fresh_block b" and "param_ok p"
  shows "\<exists>s. decode_optional w tlv_Selectors Parameter_decode_selectors (\<lambda>p. p\<lparr>p_selectors := Selectors_default\<rparr>) x = (None, x\<lparr>p_selectors := s\<rparr>)
     \<and> (if Parameter_hasSelectors p then sel_same (p_selectors p) s else s = Selectors_default)"
proof (cases "Parameter_hasSelectors p")
  case True
  then have "map_of (param_tlvs p) tlv_Selectors = Some (tlvs_wire (sel_tlvs (p_selectors p)))" by (simp add: param_lookup)
  from decode_optional_tlvs(2) [OF assms(1,2) this, where f = Parameter_decode_selectors
      and absent = "\<lambda>p. p\<lparr>p_selectors := Selectors_default\<rparr>" and x = x]
  obtain b where b: "fresh_block b" "block_tlv b = (tlv_Selectors, tlvs_wire (sel_tlvs (p_selectors p)))"
    "decode_optional w tlv_Selectors Parameter_decode_selectors (\<lambda>p. p\<lparr>p_selectors := Selectors_default\<rparr>) x = Parameter_decode_selectors b x"
    by blast
  have "sel_ok (p_selectors p)" using assms(3) by (simp add: param_ok_def)
  from Selectors_wireDecode_fresh [OF b(1,2) this, of "p_selectors x"] b(3) True show ?thesis
    by (auto simp: Parameter_decode_selectors_def)
next
  case False
  then have "map_of (param_tlvs p) tlv_Selectors = None" by (simp add: param_lookup)
  from decode_optional_tlvs(1) [OF assms(1,2) this] False show ?thesis by auto
qed

lemma Parameter_wireDecode_fresh:
  assumes "fresh_block w" and "block_tlv w = (tlv_RepoCommandParameter, tlvs_wire (param_tlvs p))" and "param_ok p"
  shows "\<exists>q. Parameter_wireDecode p0 w = (None, q) \<and> param_same p q"
proof -
  have v: "value_bytes w = tlvs_wire (param_tlvs p)" using assms(2) by (simp add: block_tlv_def)
  from Block_parse_fresh [OF assms(1) v tlvs_fit(1) [OF assms(3)]] obtain b where b: "Block_parse w = (None, b)"
    "map block_tlv (m_subBlocks b) = param_tlvs p" "block_tlv b = block_tlv w" "\<forall>i \<in> set (m_subBlocks b). fresh_block i" by blast
  have t: "m_type b = tlv_RepoCommandParameter" using b(3) assms(2) by (simp add: block_tlv_def)
  define p1 where "p1 = (Parameter_clear_flags p0)\<lparr>p_wire := b\<rparr>"
  obtain n where n: "decode_optional b tlv_Name Parameter_decode_name id p1 = (None, if p_hasName p then p1\<lparr>p_hasName := True, p_name := n\<rparr> else p1)"
    "name_of n = name_of (p_name p)" using decode_param_name [OF b(2,4) assms(3)] by blast
  define p2 where "p2 = (if p_hasName p then p1\<lparr>p_hasName := True, p_name := n\<rparr> else p1)"
  obtain s where s: "decode_optional b tlv_Selectors Parameter_decode_selectors (\<lambda>p. p\<lparr>p_selectors := Selectors_default\<rparr>) p2
      = (None, p2\<lparr>p_selectors := s\<rparr>)" "if Parameter_hasSelectors p then sel_same (p_selectors p) s else s = Selectors_default"
    using decode_param_selectors [OF b(2,4) assms(3)] by blast
  note num = param_lookup(3-8) [THEN decode_number_opt [OF b(2,4)]]
  have d: "count_of_u64 (word_of_int (p_watchTimeout p)) = p_watchTimeout p" "count_of_u64 (word_of_int (p_interestLifetime p)) = p_interestLifetime p"
    using assms(3) by (simp_all add: param_ok_def duration_ok_def count_of_u64_of_int)
  have fl: "p_hasName p2 = p_hasName p" "p_hasName p \<longrightarrow> name_of (p_name p2) = name_of (p_name p)" "\<not> p_hasStartBlockId p2" "\<not> p_hasEndBlockId p2"
    "\<not> p_hasProcessId p2" "\<not> p_hasMaxInterestNum p2" "\<not> p_hasWatchTimeout p2" "\<not> p_hasInterestLifetime p2"
    using n(2) by (simp_all add: p2_def p1_def Parameter_clear_flags_def)
  show ?thesis using b(1) t n(1) s fl
    by (simp add: Parameter_wireDecode_def Let_def p1_def [symmetric] p2_def [symmetric] num then_decode_def param_same_def d)
qed

lemma Parameter_try_encode:
  assumes "param_ok p"
  shows "\<exists>b. try_encode (Parameter_wireEncode_template estimator_ops p) (Parameter_wireEncode_template encoder_ops p) = Inr b
     \<and> wire_bytes b = tlv_wire tlv_RepoCommandParameter (tlvs_wire (param_tlvs p))"
proof -
  have "fits (tlvs_wire (param_tlvs p))" using assms by (simp add: param_ok_def)
  then show ?thesis using est.Parameter_wireEncode_prepends [OF assms] enc.Parameter_wireEncode_prepends [OF assms] try_encode_wire by blast
qed

lemma length_number_tlv: "length (tlvs_wire (number_tlv c t n)) \<le> 26"
  by (simp add: number_tlv_def length_opt_number)

lemma resp_tlvs_fits: "fits (tlvs_wire (resp_tlvs r))"
proof -
  have "length (tlvs_wire (resp_tlvs r)) \<le> 26 + (26 + (26 + (26 + (26 + 26))))"
    unfolding resp_tlvs_def tlvs_wire_simps(3) length_append by (intro add_mono length_number_tlv)
  then show ?thesis by (intro fits_small) simp
qed

lemma Response_try_encode:
  assumes "r_hasStatusCode r"
  shows "\<exists>b. try_encode (Response_wireEncode_template estimator_ops r) (Response_wireEncode_template encoder_ops r) = Inr b
     \<and> wire_bytes b = tlv_wire tlv_RepoCommandResponse (tlvs_wire (resp_tlvs r))"
  using est.Response_wireEncode_prepends [OF assms] enc.Response_wireEncode_prepends [OF assms] try_encode_wire resp_tlvs_fits by blast

text \<open>A segmented command for the witnesses: the name \<^verbatim>\<open>/a\<close> and the blocks 2 to 5.\<close>

definition example_parameter :: repo_parameter where
  "example_parameter = Parameter_setEndBlockId (Parameter_setStartBlockId (Parameter_setName Parameter_default name_a) 2) 5"

lemma Selectors_default_ok: "sel_ok Selectors_default" "Selectors_empty Selectors_default"
  by (simp_all add: sel_ok_def sel_tlvs_def Selectors_default_def opt_tlv_def KeyLocator_empty_def KeyLocator_default_def Exclude_empty_def
      Exclude_default_def kl_ok_def kl_tlvs_def entries_ok_def entries_tlvs_def Selectors_empty_def)

lemma example_parameter_ok: "param_ok example_parameter" "\<not> Block_hasWire (p_wire example_parameter)"
  "p_hasName example_parameter" "p_name example_parameter = name_a" "p_hasStartBlockId example_parameter" "p_startBlockId example_parameter = 2"
  "p_hasEndBlockId example_parameter" "p_endBlockId example_parameter = 5" "\<not> Parameter_hasSelectors example_parameter"
  "\<not> p_hasProcessId example_parameter" "\<not> p_hasInterestLifetime example_parameter"
proof -
  note defs = example_parameter_def Parameter_setEndBlockId_def Parameter_setStartBlockId_def Parameter_setName_def Parameter_drop_wire_def
    Parameter_default_def
  have n: "name_tlvs (name_of name_a) = [(8, [97])]" by (simp add: example_names name_tlvs_def)
  have fn: "fits (tlvs_wire (name_tlvs (name_of name_a)))" unfolding n by (simp add: fits_def length_tlv_wire sizeOfVarNumber_def)
  have t: "param_tlvs example_parameter = [(tlv_Name, tlvs_wire [(8, [97])])] @ number_tlv True tlv_StartBlockId 2 @ number_tlv True tlv_EndBlockId 5"
    by (simp add: param_tlvs_def defs opt_tlv_def number_tlv_def n Parameter_hasSelectors_def Selectors_default_ok)
  have "fits (tlvs_wire (param_tlvs example_parameter))"
    using length_number_tlv [of True tlv_StartBlockId 2] length_number_tlv [of True tlv_EndBlockId 5]
      length_tlv_wire_le [of tlv_Name "tlvs_wire [(8, [97])]"] length_tlv_wire_le [of 8 "[97]"]
    unfolding t by (intro fits_small) simp
  then show "param_ok example_parameter" using fn Selectors_default_ok(1) by (simp add: param_ok_def) (simp add: defs example_names(1) duration_ok_def)
  show "\<not> Block_hasWire (p_wire example_parameter)" "p_hasName example_parameter" "p_name example_parameter = name_a"
    "p_hasStartBlockId example_parameter" "p_startBlockId example_parameter = 2"
    "p_hasEndBlockId example_parameter" "p_endBlockId example_parameter = 5" "\<not> Parameter_hasSelectors example_parameter"
    "\<not> p_hasProcessId example_parameter" "\<not> p_hasInterestLifetime example_parameter"
    by (simp_all add: defs Block_reset_def Block_hasWire_def Block_default_def Parameter_hasSelectors_def Selectors_default_ok)
qed

section \<open>Properties\<close>

text \<open>
  The parameters of a repository command survive the wire. They encode to a block, the block is read
  back from the front of a buffer, and decoding it into any parameter object gives the same name,
  selectors, block range, process id, interest limit and durations, set or unset as they were.
\<close>

theorem Parameter_wire_roundtrip:
  assumes "param_ok p" and "\<not> Block_hasWire (p_wire p)"
  shows "\<exists>b. Parameter_wireEncode p = Inr (b, p\<lparr>p_wire := b\<rparr>)
     \<and> (\<forall>rest. \<exists>w. Block_of_bytes (wire_bytes b @ rest) = Inr w \<and> (\<forall>p0. \<exists>q. Parameter_wireDecode p0 w = (None, q) \<and> param_same p q))"
proof -
  obtain b where b: "try_encode (Parameter_wireEncode_template estimator_ops p) (Parameter_wireEncode_template encoder_ops p) = Inr b"
    "wire_bytes b = tlv_wire tlv_RepoCommandParameter (tlvs_wire (param_tlvs p))"
    using Parameter_try_encode [OF assms(1)] by blast
  have f: "fits (tlvs_wire (param_tlvs p))" using assms(1) by (simp add: param_ok_def)
  have "\<exists>w. Block_of_bytes (wire_bytes b @ rest) = Inr w \<and> (\<forall>p0. \<exists>q. Parameter_wireDecode p0 w = (None, q) \<and> param_same p q)" for rest
  proof -
    obtain w where w: "Block_of_bytes (wire_bytes b @ rest) = Inr w" "block_tlv w = (tlv_RepoCommandParameter, tlvs_wire (param_tlvs p))"
      using Block_of_bytes_tlv_wire [OF f, of tlv_RepoCommandParameter rest] b(2) by auto
    then show ?thesis using Parameter_wireDecode_fresh [OF Block_of_bytes_fresh [OF w(1)] w(2) assms(1)] by blast
  qed
  then show ?thesis using b(1) assms(2) by (simp add: Parameter_wireEncode_def)
qed

theorem Parameter_wire_roundtrip_witness:
  "\<exists>b w q. Parameter_wireEncode example_parameter = Inr (b, example_parameter\<lparr>p_wire := b\<rparr>) \<and> Block_of_bytes (wire_bytes b @ [0]) = Inr w
     \<and> Parameter_wireDecode Parameter_default w = (None, q) \<and> name_of (p_name q) = [Component 8 [97]]
     \<and> p_startBlockId q = 2 \<and> p_endBlockId q = 5 \<and> \<not> p_hasProcessId q"
proof -
  obtain b where b: "Parameter_wireEncode example_parameter = Inr (b, example_parameter\<lparr>p_wire := b\<rparr>)"
    "\<forall>rest. \<exists>w. Block_of_bytes (wire_bytes b @ rest) = Inr w \<and>
       (\<forall>p0. \<exists>q. Parameter_wireDecode p0 w = (None, q) \<and> param_same example_parameter q)"
    using Parameter_wire_roundtrip [OF example_parameter_ok(1,2)] by blast
  from b(2) obtain w q where "Block_of_bytes (wire_bytes b @ [0]) = Inr w" "Parameter_wireDecode Parameter_default w = (None, q)"
    "param_same example_parameter q" by blast
  moreover from this(3) have "name_of (p_name q) = [Component 8 [97]]" "p_startBlockId q = 2" "p_endBlockId q = 5" "\<not> p_hasProcessId q"
    using example_parameter_ok example_names by (simp_all add: param_same_def)
  ultimately show ?thesis using b(1) by blast
qed

text \<open>
  A response without a status code is refused on both sides: encoding one raises
  \<^verbatim>\<open>RepoCommandResponse::Error\<close>, and so does decoding a wire that lacks it. A response with a status code
  encodes, and its wire decodes to the same numbers.
\<close>

theorem Response_wire_roundtrip:
  assumes "\<not> Block_hasWire (r_wire r)"
  shows "if r_hasStatusCode r
     then \<exists>b. Response_wireEncode r = Inr (b, r\<lparr>r_wire := b\<rparr>)
       \<and> (\<forall>rest. \<exists>w. Block_of_bytes (wire_bytes b @ rest) = Inr w \<and> (\<forall>r0. \<exists>q. Response_wireDecode r0 w = (None, q) \<and> resp_same r q))
     else Response_wireEncode r = Inl status_missing
       \<and> (\<forall>rest. \<exists>w. Block_of_bytes (tlv_wire tlv_RepoCommandResponse (tlvs_wire (resp_tlvs r)) @ rest) = Inr w
            \<and> (\<forall>r0. \<exists>q. Response_wireDecode r0 w = (Some status_missing, q)))"
proof -
  have dec: "\<exists>w. Block_of_bytes (tlv_wire tlv_RepoCommandResponse (tlvs_wire (resp_tlvs r)) @ rest) = Inr w
      \<and> (\<forall>r0. \<exists>q. Response_wireDecode r0 w = (if r_hasStatusCode r then None else Some status_missing, q) \<and> (r_hasStatusCode r \<longrightarrow> resp_same r q))" for rest
  proof -
    obtain w where w: "Block_of_bytes (tlv_wire tlv_RepoCommandResponse (tlvs_wire (resp_tlvs r)) @ rest) = Inr w"
      "block_tlv w = (tlv_RepoCommandResponse, tlvs_wire (resp_tlvs r))"
      using Block_of_bytes_tlv_wire [OF resp_tlvs_fits, of tlv_RepoCommandResponse r rest] by auto
    then show ?thesis using Response_wireDecode_fresh [OF Block_of_bytes_fresh [OF w(1)] w(2)] by blast
  qed
  show ?thesis
  proof (cases "r_hasStatusCode r")
    case True
    then obtain b where "try_encode (Response_wireEncode_template estimator_ops r) (Response_wireEncode_template encoder_ops r) = Inr b"
      "wire_bytes b = tlv_wire tlv_RepoCommandResponse (tlvs_wire (resp_tlvs r))" using Response_try_encode by blast
    with dec True assms show ?thesis by (simp add: Response_wireEncode_def)
  next
    case False
    with assms have "Response_wireEncode r = Inl status_missing"
      by (simp add: Response_wireEncode_def Response_wireEncode_template_def try_encode_def)
    with dec False show ?thesis by simp
  qed
qed

theorem Response_wire_roundtrip_witness:
  "Response_wireEncode Response_default = Inl status_missing
   \<and> (\<exists>b w q. Response_wireEncode (Response_setStatusCode 200 Response_default) = Inr (b, (Response_setStatusCode 200 Response_default)\<lparr>r_wire := b\<rparr>)
      \<and> Block_of_bytes (wire_bytes b @ []) = Inr w \<and> Response_wireDecode Response_default w = (None, q) \<and> r_statusCode q = 200 \<and> \<not> r_hasDeleteNum q)"
proof -
  let ?r = "Response_setStatusCode 200 Response_default"
  have d: "\<not> Block_hasWire (r_wire Response_default)" "\<not> r_hasStatusCode Response_default"
    "\<not> Block_hasWire (r_wire ?r)" "r_hasStatusCode ?r" "r_statusCode ?r = 200" "\<not> r_hasDeleteNum ?r"
    by (simp_all add: Response_default_def Response_setStatusCode_def Response_drop_wire_def Block_hasWire_def Block_default_def Block_reset_def)
  from Response_wire_roundtrip [OF d(3)] d(4) obtain b where b: "Response_wireEncode ?r = Inr (b, ?r\<lparr>r_wire := b\<rparr>)"
    "\<forall>rest. \<exists>w. Block_of_bytes (wire_bytes b @ rest) = Inr w \<and> (\<forall>r0. \<exists>q. Response_wireDecode r0 w = (None, q) \<and> resp_same ?r q)"
    by (simp only: if_True) blast
  from b(2) obtain w q where "Block_of_bytes (wire_bytes b @ []) = Inr w" "Response_wireDecode Response_default w = (None, q)" "resp_same ?r q" by blast
  moreover from this(3) d have "r_statusCode q = 200" "\<not> r_hasDeleteNum q" by (simp_all add: resp_same_def)
  ultimately show ?thesis using b(1) Response_wire_roundtrip [OF d(1)] d(2) by (simp only: if_False) blast
qed

end
