(* ===== verification/RepoStorage.thy ===== *)
theory RepoStorage
  imports RepoIndex RepoCommand
begin

text \<open>
  The storage layer, \<^verbatim>\<open>repo-ng-mongo/src/storage/repo-storage.cpp\<close>, over the abstract class \<^verbatim>\<open>Storage\<close> of
  \<^verbatim>\<open>storage.hpp\<close>. The database behind \<^verbatim>\<open>Storage\<close> is a parameter: a record of its operations on a state
  of any type. A database call returns a value or throws, and leaves a state in both cases.
\<close>

section \<open>The database interface\<close>

record item_meta =
  im_id :: int
  im_fullName :: full_name
  im_keyLocatorHash :: "byte list option"

record 'st storage_ops =
  st_insert :: "data \<Rightarrow> 'st \<Rightarrow> int res \<times> 'st"
  st_insertLongData :: "string \<Rightarrow> 'st \<Rightarrow> int res \<times> 'st"
  st_erase_id :: "int \<Rightarrow> 'st \<Rightarrow> bool res \<times> 'st"
  st_erase_name :: "name \<Rightarrow> 'st \<Rightarrow> bool res \<times> 'st"
  st_read_id :: "int \<Rightarrow> 'st \<Rightarrow> data option res \<times> 'st"
  st_read :: "interest \<Rightarrow> 'st \<Rightarrow> data option res \<times> 'st"
  st_size :: "'st \<Rightarrow> int res \<times> 'st"
  st_enumerate :: "'st \<Rightarrow> item_meta list"

section \<open>RepoStorage\<close>

record 'st repo_storage =
  rs_index :: repo_index
  rs_storage :: 'st

definition RepoStorage_new :: "nat \<Rightarrow> 'st \<Rightarrow> 'st repo_storage" where
  "RepoStorage_new nMaxPackets store = \<lparr>rs_index = Index_new nMaxPackets, rs_storage = store\<rparr>"

definition insertItemToIndex :: "repo_index \<Rightarrow> item_meta \<Rightarrow> (bool \<times> repo_index) res" where
  "insertItemToIndex x item = Index_insert_name x (im_fullName item) (im_id item) (im_keyLocatorHash item)"

text \<open>\<^verbatim>\<open>fullEnumerate\<close> calls its argument on every item; the exception of a full index ends it.\<close>

fun enumerate_items :: "item_meta list \<Rightarrow> repo_index \<Rightarrow> error option \<times> repo_index" where
  "enumerate_items [] x = (None, x)"
| "enumerate_items (item # items) x =
     (case insertItemToIndex x item of Inl e \<Rightarrow> (Some e, x) | Inr (_, y) \<Rightarrow> enumerate_items items y)"

definition RepoStorage_initialize :: "'st storage_ops \<Rightarrow> 'st repo_storage \<Rightarrow> error option \<times> 'st repo_storage" where
  "RepoStorage_initialize ops s =
     (case enumerate_items (st_enumerate ops (rs_storage s)) (rs_index s) of (err, x) \<Rightarrow> (err, s\<lparr>rs_index := x\<rparr>))"

definition insertData :: "'st storage_ops \<Rightarrow> data \<Rightarrow> 'st repo_storage \<Rightarrow> bool res \<times> 'st repo_storage" where
  "insertData ops d s =
     (case st_insert ops d (rs_storage s) of
        (Inl e, st) \<Rightarrow> (Inl e, s\<lparr>rs_storage := st\<rparr>)
      | (Inr ident, st) \<Rightarrow> (Inr (\<not> ident \<le> - 1), s\<lparr>rs_storage := st\<rparr>))"

definition insertLongData :: "'st storage_ops \<Rightarrow> string \<Rightarrow> 'st repo_storage \<Rightarrow> bool res \<times> 'st repo_storage" where
  "insertLongData ops text s =
     (case st_insertLongData ops text (rs_storage s) of
        (Inl e, st) \<Rightarrow> (Inl e, s\<lparr>rs_storage := st\<rparr>)
      | (Inr ident, st) \<Rightarrow> (Inr (\<not> ident \<le> - 1), s\<lparr>rs_storage := st\<rparr>))"

definition deleteData_name :: "'st storage_ops \<Rightarrow> name \<Rightarrow> 'st repo_storage \<Rightarrow> int res \<times> 'st repo_storage" where
  "deleteData_name ops n s =
     (case st_erase_name ops n (rs_storage s) of
        (Inl e, st) \<Rightarrow> (Inl e, s\<lparr>rs_storage := st\<rparr>)
      | (Inr result, st) \<Rightarrow> (Inr (if result then - 1 else 1), s\<lparr>rs_storage := st\<rparr>))"

text \<open>The loop of \<^verbatim>\<open>deleteData(interest)\<close>: \<open>None\<close> is a loop that does not end.\<close>

partial_function (option) delete_loop ::
    "'st storage_ops \<Rightarrow> (byte list \<Rightarrow> byte list) \<Rightarrow> interest \<Rightarrow> int \<Rightarrow> bool \<Rightarrow> 'st repo_storage \<Rightarrow> (int res \<times> 'st repo_storage) option" where
  "delete_loop ops sha256 i count hasError s =
     (case Index_find sha256 (rs_index s) i of
        Inl e \<Rightarrow> Some (Inl e, s)
      | Inr (ident, n) \<Rightarrow>
          if ident = 0 then Some (Inr (if hasError then - 1 else count), s)
          else case st_erase_id ops ident (rs_storage s) of
            (Inl e, st) \<Rightarrow> Some (Inl e, s\<lparr>rs_storage := st\<rparr>)
          | (Inr resultDb, st) \<Rightarrow>
              (case Index_erase (rs_index s) n of
                 (resultIndex, x) \<Rightarrow>
                   delete_loop ops sha256 i (if resultDb \<and> resultIndex then count + 1 else count)
                     (if resultDb \<and> resultIndex then hasError else True) (s\<lparr>rs_index := x, rs_storage := st\<rparr>)))"

definition deleteData_interest ::
    "'st storage_ops \<Rightarrow> (byte list \<Rightarrow> byte list) \<Rightarrow> interest \<Rightarrow> 'st repo_storage \<Rightarrow> (int res \<times> 'st repo_storage) option" where
  "deleteData_interest ops sha256 i s = delete_loop ops sha256 (Interest_setChildSelector i 0) 0 False s"

definition readData :: "'st storage_ops \<Rightarrow> interest \<Rightarrow> 'st repo_storage \<Rightarrow> data option res \<times> 'st repo_storage" where
  "readData ops i s = (case st_read ops i (rs_storage s) of (r, st) \<Rightarrow> (r, s\<lparr>rs_storage := st\<rparr>))"

section \<open>What a deletion does\<close>

text \<open>The database calls a deletion makes, and their results.\<close>

primrec erase_ids :: "'st storage_ops \<Rightarrow> int list \<Rightarrow> 'st \<Rightarrow> bool list \<times> 'st" where
  "erase_ids ops [] st = ([], st)"
| "erase_ids ops (k # ks) st =
     (let r = st_erase_id ops k st; q = erase_ids ops ks (snd r) in ((fst r = Inr True) # fst q, snd q))"

definition erase_returns :: "'st storage_ops \<Rightarrow> bool" where
  "erase_returns ops \<longleftrightarrow> (\<forall>k st. \<exists>b st'. st_erase_id ops k st = (Inr b, st'))"

definition without :: "(index_entry \<Rightarrow> bool) \<Rightarrow> repo_index \<Rightarrow> repo_index" where
  "without P x = (let es = filter (\<lambda>e. \<not> P e) (ix_container x) in x\<lparr>ix_container := es, ix_size := length es\<rparr>)"

lemma find_filter_hd: "filter P xs = e # vs \<Longrightarrow> List.find P xs = Some e"
  by (induction xs) (auto split: if_splits)

lemma filter_unique_key:
  assumes "distinct (map fst (xs @ y # zs))"
  shows "filter (\<lambda>e. fst e \<noteq> fst y) (xs @ y # zs) = xs @ zs"
proof -
  have "filter (\<lambda>e. fst e \<noteq> fst y) xs = xs" "filter (\<lambda>e. fst e \<noteq> fst y) zs = zs"
    using assms by (auto simp: filter_id_conv image_iff)
  then show ?thesis by simp
qed

lemma Index_erase_without:
  assumes "index_ok x" and "e \<in> set (ix_container x)"
  shows "Index_erase x (fst e) = (True, without (\<lambda>f. fst f = fst e) x)"
proof -
  let ?es = "ix_container x" and ?i = "lower_bound name_lt (fst e) (ix_container x)"
  have s: "sorted_map name_lt ?es" "ix_size x = length ?es" using assms(1) by (simp_all add: index_ok_def)
  have "fst e \<in> fst ` set ?es" using assms(2) by simp
  from nm.lower_bound_entry [OF s(1) this] have i: "fst (?es ! ?i) = fst e" "?i < length ?es" .
  have es: "?es = take ?i ?es @ ?es ! ?i # drop (Suc ?i) ?es" using i(2) by (rule id_take_nth_drop)
  have f: "filter (\<lambda>f. fst f \<noteq> fst e) ?es = take ?i ?es @ drop (Suc ?i) ?es"
    using filter_unique_key [of "take ?i ?es" "?es ! ?i" "drop (Suc ?i) ?es"] sorted_distinct [OF s(1)] i(1) unfolding es [symmetric] by simp
  have "map_find name_lt (fst e) ?es \<noteq> None"
    using map_find_map_of [OF s(1)] \<open>fst e \<in> fst ` set ?es\<close> by (simp add: map_of_eq_None_iff)
  then show ?thesis using f i(2) s(2) by (auto simp: Index_erase_def without_def Let_def erase_range_def)
qed

lemma without_ok: "index_ok x \<Longrightarrow> index_ok (without P x)"
  by (auto simp: index_ok_def without_def Let_def sorted_map_filter intro: order_trans [OF length_filter_le])

lemma same_key:
  assumes "index_ok x" and "e \<in> set (ix_container x)" and "f \<in> set (ix_container x)" and "fst f = fst e"
  shows "f = e"
proof -
  have "inj_on fst (set (ix_container x))" using sorted_distinct assms(1) by (auto simp: index_ok_def distinct_map)
  then show ?thesis using assms(2-4) by (auto dest: inj_onD)
qed

lemma delete_loop_removes:
  assumes "erase_returns ops" and "publisher_hash sha256 i = Inr hash" and "sel_childSelector (i_selectors i) \<le> 0"
  shows "index_ok (rs_index s) \<Longrightarrow> hashes_present i hash (ix_container (rs_index s)) \<Longrightarrow>
     filter (entry_admits i hash) (ix_container (rs_index s)) = vs \<Longrightarrow> \<forall>e \<in> set vs. e_id (snd e) \<noteq> 0 \<Longrightarrow>
     erase_ids ops (map (\<lambda>e. e_id (snd e)) vs) (rs_storage s) = (oks, st) \<Longrightarrow>
     delete_loop ops sha256 i count hasError s =
       Some (Inr (if hasError \<or> False \<in> set oks then - 1 else count + int (length vs)),
             s\<lparr>rs_index := without (entry_admits i hash) (rs_index s), rs_storage := st\<rparr>)"
proof (induction vs arbitrary: s count hasError oks)
  case Nil
  let ?x = "rs_index s"
  have none: "\<forall>e \<in> set (ix_container ?x). \<not> entry_admits i hash e" using Nil.prems(3) by (simp add: filter_empty_conv)
  then have "List.find (entry_admits i hash) (ix_container ?x) = None" by (simp add: find_None_iff)
  with Index_find_leftmost_raw [OF Nil.prems(1) assms(3,2) Nil.prems(2)] have f: "Index_find sha256 ?x i = Inr (0, [])"
    by (simp add: result_of_def no_entry_def)
  have "filter (\<lambda>e. \<not> entry_admits i hash e) (ix_container ?x) = ix_container ?x" using none by (simp add: filter_id_conv)
  then have "without (entry_admits i hash) ?x = ?x" using Nil.prems(1) by (simp add: without_def index_ok_def)
  then show ?case using f Nil.prems(5) by (subst delete_loop.simps) simp
next
  case (Cons e vs)
  let ?x = "rs_index s" and ?P = "entry_admits i hash"
  have e: "e \<in> set (ix_container ?x)" "?P e" using Cons.prems(3) by (auto simp: filter_eq_Cons_iff)
  have "List.find ?P (ix_container ?x) = Some e" using Cons.prems(3) by (rule find_filter_hd)
  with Index_find_leftmost_raw [OF Cons.prems(1) assms(3,2) Cons.prems(2)] have f: "Index_find sha256 ?x i = Inr (e_id (snd e), fst e)"
    by (simp add: result_of_def found_def)
  obtain b st1 where db: "st_erase_id ops (e_id (snd e)) (rs_storage s) = (Inr b, st1)" using assms(1) unfolding erase_returns_def by blast
  define y where "y = without (\<lambda>f. fst f = fst e) ?x"
  have er: "Index_erase ?x (fst e) = (True, y)" unfolding y_def by (rule Index_erase_without [OF Cons.prems(1) e(1)])
  have y: "index_ok y" unfolding y_def by (rule without_ok [OF Cons.prems(1)])
  have cy: "ix_container y = filter (\<lambda>f. fst f \<noteq> fst e) (ix_container ?x)" by (simp add: y_def without_def Let_def)
  have hy: "hashes_present i hash (ix_container y)" using Cons.prems(2) by (auto simp: hashes_present_def cy)
  have dv: "distinct (map fst (e # vs))"
    using sorted_distinct [of "ix_container ?x"] Cons.prems(1) unfolding Cons.prems(3) [symmetric] index_ok_def by (auto intro: distinct_map_filter)
  have "filter ?P (ix_container y) = filter (\<lambda>f. fst f \<noteq> fst e) (filter ?P (ix_container ?x))"
    unfolding cy filter_filter by (rule filter_cong) auto
  also have "\<dots> = vs" using filter_unique_key [of "[]" e vs] dv unfolding Cons.prems(3) by simp
  finally have vy: "filter ?P (ix_container y) = vs" .
  have "filter (\<lambda>f. \<not> ?P f) (ix_container y) = filter (\<lambda>f. \<not> ?P f) (ix_container ?x)"
    unfolding cy filter_filter using same_key [OF Cons.prems(1) e(1)] e(2) by (intro filter_cong) auto
  then have wy: "without ?P y = without ?P ?x" by (simp add: without_def Let_def y_def)
  obtain oks' where o: "erase_ids ops (map (\<lambda>e. e_id (snd e)) vs) st1 = (oks', st)" "oks = b # oks'"
    using Cons.prems(5) db by (auto simp: Let_def prod_eq_iff)
  let ?s1 = "s\<lparr>rs_index := y, rs_storage := st1\<rparr>"
  have ih: "delete_loop ops sha256 i c h ?s1 = Some (Inr (if h \<or> False \<in> set oks' then - 1 else c + int (length vs)),
      ?s1\<lparr>rs_index := without ?P y, rs_storage := st\<rparr>)" for c h
    using Cons.IH [of ?s1 oks' c h] y hy vy Cons.prems(4) o(1) by simp
  have "e_id (snd e) \<noteq> 0" using Cons.prems(4) by simp
  then show ?case using f db er ih wy o(2) by (subst delete_loop.simps) auto
qed

text \<open>The rebuilt index: every item the database lists, the first one of each full name, while there is room.\<close>

lemma insertItem_ok:
  assumes "index_ok x" and "insertItemToIndex x item = Inr (b, y)"
  shows "index_ok y" and "ix_maxPackets y = ix_maxPackets x" and "dom (index_map y) = insert (im_fullName item) (dom (index_map x))"
proof -
  let ?e = "(im_fullName item, \<lparr>e_keyLocatorHash = im_keyLocatorHash item, e_id = im_id item\<rparr>)"
  have f: "\<not> Index_isFull x" "Index_insert_entry x ?e = (b, y)"
    using assms(2) by (simp_all add: insertItemToIndex_def Index_insert_name_def split: if_splits)
  then show "index_ok y" "ix_maxPackets y = ix_maxPackets x" "dom (index_map y) = insert (im_fullName item) (dom (index_map x))"
    using Index_insert_entry_ok [OF assms(1) f(1), of ?e] by (auto simp: insert_absorb domIff)
qed

lemma enumerate_items_ok:
  "index_ok x \<Longrightarrow> enumerate_items items x = (err, y) \<Longrightarrow>
     index_ok y \<and> ix_maxPackets y = ix_maxPackets x
     \<and> (if err = None then dom (index_map y) = dom (index_map x) \<union> im_fullName ` set items else err = Some Index_full_error \<and> Index_isFull y)"
proof (induction items arbitrary: x)
  case (Cons item items)
  show ?case
  proof (cases "insertItemToIndex x item")
    case (Inl e)
    then show ?thesis using Cons.prems by (auto simp: insertItemToIndex_def Index_insert_name_def split: if_splits)
  next
    case (Inr r)
    obtain b z where r: "r = (b, z)" by (cases r)
    with Cons.prems(2) Inr have en: "enumerate_items items z = (err, y)" by simp
    note z = insertItem_ok [OF Cons.prems(1) Inr [unfolded r]]
    show ?thesis using Cons.IH [OF z(1) en] z(2,3) by (simp split: if_splits)
  qed
qed auto

text \<open>A database for the witnesses: the list of the ids it holds.\<close>

definition list_storage :: "int list storage_ops" where
  "list_storage = \<lparr>st_insert = (\<lambda>d ks. (Inr (int (length ks) + 1), ks @ [int (length ks) + 1])),
     st_insertLongData = (\<lambda>text ks. (Inr (- 1), ks)), st_erase_id = (\<lambda>k ks. (Inr (k \<in> set ks), remove1 k ks)),
     st_erase_name = (\<lambda>n ks. (Inr False, ks)), st_read_id = (\<lambda>k ks. (Inr None, ks)), st_read = (\<lambda>i ks. (Inr None, ks)),
     st_size = (\<lambda>ks. (Inr (int (length ks)), ks)), st_enumerate = (\<lambda>ks. [])\<rparr>"

lemma list_storage_returns: "erase_returns list_storage"
  by (simp add: erase_returns_def list_storage_def)

section \<open>Properties\<close>

text \<open>
  C17: deletion by Interest terminates and removes exactly the admitted entries. The database calls
  return, no admitted entry has the id 0, which the index uses for none, and when the Interest has a
  \<^verbatim>\<open>PublisherPublicKeyLocator\<close>, the hash of it can be computed and every entry
  under its name has the hash of a key locator (for one without, the source dereferences null). Then,
  whatever child selector the Interest has, the loop of \<^verbatim>\<open>deleteData(interest)\<close>
  ends; every index entry the selectors admit is gone and no other; the database was asked to erase
  their ids in canonical order of the names; and the result is their number, or \<open>-1\<close> when
  the database refused one of them.
\<close>

theorem deleteData_interest_removes:
  assumes "index_ok (rs_index s)" and "erase_returns ops" and "publisher_hash sha256 i = Inr hash"
    and "hashes_present i hash (ix_container (rs_index s))"
    and "\<forall>e \<in> set (ix_container (rs_index s)). entry_admits i hash e \<longrightarrow> e_id (snd e) \<noteq> 0"
  shows "deleteData_interest ops sha256 i s =
     (let victims = filter (entry_admits i hash) (ix_container (rs_index s));
          (oks, st) = erase_ids ops (map (\<lambda>e. e_id (snd e)) victims) (rs_storage s)
      in Some (Inr (if False \<in> set oks then - 1 else int (length victims)),
               s\<lparr>rs_index := without (entry_admits i hash) (rs_index s), rs_storage := st\<rparr>))"
proof -
  let ?i = "Interest_setChildSelector i 0"
  have i: "sel_childSelector (i_selectors ?i) \<le> 0" "publisher_hash sha256 ?i = Inr hash"
    "hashes_present ?i hash (ix_container (rs_index s))" "entry_admits ?i = entry_admits i"
    using assms(3,4) by (auto simp: Interest_setChildSelector_def Selectors_setChildSelector_def Selectors_drop_wire_def Interest_drop_wire_def
        publisher_hash_def hashes_present_def entry_admits_def admits_def fun_eq_iff)
  obtain oks st where r: "erase_ids ops (map (\<lambda>e. e_id (snd e)) (filter (entry_admits i hash) (ix_container (rs_index s)))) (rs_storage s) = (oks, st)"
    by fastforce
  have "\<forall>e \<in> set (filter (entry_admits i hash) (ix_container (rs_index s))). e_id (snd e) \<noteq> 0" using assms(5) by simp
  from delete_loop_removes [OF assms(2) i(2,1) assms(1) i(3), unfolded i(4), OF refl this r, of 0 False] r show ?thesis
    by (simp add: deleteData_interest_def)
qed

theorem deleteData_interest_removes_witness:
  "let es = [example_entry [[97], [120]] 1, example_entry [[97], [121]] 2, example_entry [[98]] 3]
   in deleteData_interest list_storage (\<lambda>_. []) example_interest \<lparr>rs_index = example_index es, rs_storage = [1, 2, 3]\<rparr>
        = Some (Inr 2, \<lparr>rs_index = (example_index es)\<lparr>ix_container := [example_entry [[98]] 3], ix_size := 1\<rparr>, rs_storage = [3]\<rparr>)"
proof -
  let ?es = "[example_entry [[97], [120]] 1, example_entry [[97], [121]] 2, example_entry [[98]] 3]"
  let ?s = "\<lparr>rs_index = example_index ?es, rs_storage = [1, 2, 3]\<rparr>"
  have ok: "index_ok (rs_index ?s)" by simp (rule example_index_ok, simp_all add: example_entry_def letter_lt)
  have c: "ix_container (rs_index ?s) = ?es" by (simp add: example_index_def)
  have a: "entry_admits example_interest None (example_entry [[97], [120]] 1)" "entry_admits example_interest None (example_entry [[97], [121]] 2)"
    "\<not> entry_admits example_interest None (example_entry [[98]] 3)" by (simp_all add: example_interest(7)) (simp_all add: example_entry_def)
  show ?thesis
    using deleteData_interest_removes [OF ok list_storage_returns example_interest(5), of "\<lambda>_. []"] example_interest(6) a
    unfolding c by (simp add: without_def c example_index_def) (simp add: example_entry_def list_storage_def)
qed

end
