(* ===== verification/DeleteHandle.thy ===== *)
theory DeleteHandle
  imports RepoStorage
begin

text \<open>
  What the command handlers share, \<^verbatim>\<open>repo-ng-mongo/src/handles/base-handle.hpp\<close>, and the handler of delete
  commands, \<^verbatim>\<open>delete-handle.cpp\<close>. A handler works on the storage and the face: \<open>nd_sent\<close> are the Data
  packets put on the face, oldest first. Signing is the key chain's, a parameter. A handler returns the
  exception that escapes it, if any; \<open>None\<close> around the result is a handler that does not return.
\<close>

section \<open>Base handler\<close>

record 'st node =
  nd_storage :: "'st repo_storage"
  nd_sent :: "data list"

definition BaseHandle_reply ::
    "(data \<Rightarrow> data) \<Rightarrow> interest \<Rightarrow> repo_response \<Rightarrow> ('st, 'z) node_scheme \<Rightarrow> error option \<times> repo_response \<times> ('st, 'z) node_scheme" where
  "BaseHandle_reply sign commandInterest response nd =
     (case Response_wireEncode response of
        Inl e \<Rightarrow> (Some e, response, nd)
      | Inr (wire, response') \<Rightarrow>
          (case Data_setContent (Data_of_name (i_name commandInterest)) wire of
             Inl e \<Rightarrow> (Some e, response', nd)
           | Inr rdata \<Rightarrow> (None, response', nd\<lparr>nd_sent := nd_sent nd @ [sign rdata]\<rparr>)))"

definition extractParameter :: "interest \<Rightarrow> name \<Rightarrow> repo_parameter \<Rightarrow> error option \<times> repo_parameter" where
  "extractParameter i prefix parameter =
     (case Name_get (i_name i) (int (Name_size prefix)) of
        Inl e \<Rightarrow> (Some e, parameter)
      | Inr c \<Rightarrow>
          (case Block_blockFromValue c of
             Inl e \<Rightarrow> (Some e, parameter)
           | Inr b \<Rightarrow> Parameter_wireDecode parameter b))"

text \<open>What \<^verbatim>\<open>catch (RepoCommandParameter::Error)\<close> catches.\<close>

definition is_parameter_error :: "error \<Rightarrow> bool" where
  "is_parameter_error e \<longleftrightarrow> (case e of RepoError _ \<Rightarrow> True | _ \<Rightarrow> False)"

definition negativeReply :: "(data \<Rightarrow> data) \<Rightarrow> interest \<Rightarrow> u64 \<Rightarrow> ('st, 'z) node_scheme \<Rightarrow> error option \<times> ('st, 'z) node_scheme" where
  "negativeReply sign i statusCode nd =
     (case BaseHandle_reply sign i (Response_setStatusCode statusCode Response_default) nd of (err, _, nd') \<Rightarrow> (err, nd'))"

section \<open>Delete handler\<close>

definition positiveReply ::
    "(data \<Rightarrow> data) \<Rightarrow> interest \<Rightarrow> repo_parameter \<Rightarrow> u64 \<Rightarrow> u64 \<Rightarrow> ('st, 'z) node_scheme \<Rightarrow> error option \<times> ('st, 'z) node_scheme" where
  "positiveReply sign i parameter statusCode nDeletedDatas nd =
     (let response = (if p_hasProcessId parameter
                      then Response_setDeleteNum nDeletedDatas (Response_setStatusCode statusCode
                             (Response_setProcessId (p_processId parameter) Response_default))
                      else Response_setStatusCode 403 Response_default)
      in case BaseHandle_reply sign i response nd of (err, _, nd') \<Rightarrow> (err, nd'))"

definition reply_deleted ::
    "(data \<Rightarrow> data) \<Rightarrow> interest \<Rightarrow> repo_parameter \<Rightarrow> int \<Rightarrow> ('st, 'z) node_scheme \<Rightarrow> error option \<times> ('st, 'z) node_scheme" where
  "reply_deleted sign i parameter nDeletedDatas nd =
     (if nDeletedDatas = - 1 then negativeReply sign i 405 nd
      else positiveReply sign i parameter 200 (word_of_int nDeletedDatas) nd)"

definition processSingleDeleteCommand ::
    "(data \<Rightarrow> data) \<Rightarrow> 'st storage_ops \<Rightarrow> interest \<Rightarrow> repo_parameter \<Rightarrow> ('st, 'z) node_scheme \<Rightarrow> error option \<times> ('st, 'z) node_scheme" where
  "processSingleDeleteCommand sign ops i parameter nd =
     (case deleteData_name ops (p_name parameter) (nd_storage nd) of
        (Inl e, s) \<Rightarrow> (Some e, nd\<lparr>nd_storage := s\<rparr>)
      | (Inr nDeletedDatas, s) \<Rightarrow> reply_deleted sign i parameter nDeletedDatas (nd\<lparr>nd_storage := s\<rparr>))"

definition processSelectorDeleteCommand ::
    "(data \<Rightarrow> data) \<Rightarrow> 'st storage_ops \<Rightarrow> (byte list \<Rightarrow> byte list) \<Rightarrow> interest \<Rightarrow> repo_parameter \<Rightarrow> ('st, 'z) node_scheme
       \<Rightarrow> (error option \<times> ('st, 'z) node_scheme) option" where
  "processSelectorDeleteCommand sign ops sha256 i parameter nd =
     (case deleteData_interest ops sha256 (Interest_setSelectors (Interest_of_name (p_name parameter)) (p_selectors parameter)) (nd_storage nd) of
        None \<Rightarrow> None
      | Some (Inl e, s) \<Rightarrow> Some (Some e, nd\<lparr>nd_storage := s\<rparr>)
      | Some (Inr nDeletedDatas, s) \<Rightarrow> Some (reply_deleted sign i parameter nDeletedDatas (nd\<lparr>nd_storage := s\<rparr>)))"

text \<open>The loop over the segments; \<^verbatim>\<open>SegmentNo\<close> is a 64-bit number, so its increment wraps.\<close>

partial_function (option) delete_segments ::
    "'st storage_ops \<Rightarrow> name \<Rightarrow> u64 \<Rightarrow> u64 \<Rightarrow> u64 \<Rightarrow> 'st repo_storage \<Rightarrow> (u64 res \<times> 'st repo_storage) option" where
  "delete_segments ops prefix endBlockId i nDeletedDatas s =
     (if i \<le> endBlockId then
        (case Name_appendSegment prefix i of
           Inl e \<Rightarrow> Some (Inl e, s)
         | Inr n \<Rightarrow>
             (case deleteData_name ops n s of
                (Inl e, s') \<Rightarrow> Some (Inl e, s')
              | (Inr r, s') \<Rightarrow>
                  delete_segments ops prefix endBlockId (i + 1) (if r \<noteq> 0 then nDeletedDatas + 1 else nDeletedDatas) s'))
      else Some (Inr nDeletedDatas, s))"

definition processSegmentDeleteCommand ::
    "(data \<Rightarrow> data) \<Rightarrow> 'st storage_ops \<Rightarrow> interest \<Rightarrow> repo_parameter \<Rightarrow> ('st, 'z) node_scheme \<Rightarrow> (error option \<times> ('st, 'z) node_scheme) option" where
  "processSegmentDeleteCommand sign ops i parameter0 nd =
     (let parameter = (if p_hasStartBlockId parameter0 then parameter0 else Parameter_setStartBlockId parameter0 0)
      in if p_hasEndBlockId parameter then
           if p_startBlockId parameter > p_endBlockId parameter then Some (negativeReply sign i 403 nd)
           else
             (case delete_segments ops (p_name parameter) (p_endBlockId parameter) (p_startBlockId parameter) 0 (nd_storage nd) of
                None \<Rightarrow> None
              | Some (Inl e, s) \<Rightarrow> Some (Some e, nd\<lparr>nd_storage := s\<rparr>)
              | Some (Inr nDeletedDatas, s) \<Rightarrow> Some (positiveReply sign i parameter 200 nDeletedDatas (nd\<lparr>nd_storage := s\<rparr>)))
         else Some (Some (UndefinedBehaviour ''assertion failed: segmented deletion without EndBlockId''), nd))"

definition DeleteHandle_onValidated ::
    "(data \<Rightarrow> data) \<Rightarrow> 'st storage_ops \<Rightarrow> (byte list \<Rightarrow> byte list) \<Rightarrow> interest \<Rightarrow> name \<Rightarrow> ('st, 'z) node_scheme
       \<Rightarrow> (error option \<times> ('st, 'z) node_scheme) option" where
  "DeleteHandle_onValidated sign ops sha256 i prefix nd =
     (case extractParameter i prefix Parameter_default of
        (Some e, _) \<Rightarrow> Some (if is_parameter_error e then negativeReply sign i 403 nd else (Some e, nd))
      | (None, parameter) \<Rightarrow>
          if Parameter_hasSelectors parameter then
            if p_hasStartBlockId parameter \<or> p_hasEndBlockId parameter then Some (negativeReply sign i 402 nd)
            else processSelectorDeleteCommand sign ops sha256 i parameter nd
          else if \<not> p_hasStartBlockId parameter \<and> \<not> p_hasEndBlockId parameter
          then Some (processSingleDeleteCommand sign ops i parameter nd)
          else processSegmentDeleteCommand sign ops i parameter nd)"

definition DeleteHandle_onValidationFailed :: "(data \<Rightarrow> data) \<Rightarrow> interest \<Rightarrow> ('st, 'z) node_scheme \<Rightarrow> error option \<times> ('st, 'z) node_scheme" where
  "DeleteHandle_onValidationFailed sign i nd = negativeReply sign i 401 nd"

section \<open>Replies reach the requester\<close>

text \<open>A packet that answers a command: it has the command's name, and its content decodes to the response.\<close>

definition answers :: "interest \<Rightarrow> repo_response \<Rightarrow> data \<Rightarrow> bool" where
  "answers i r d \<longleftrightarrow> d_name d = i_name i \<and>
     (\<exists>w q. Block_blockFromValue (d_content d) = Inr w \<and> Response_wireDecode Response_default w = (None, q) \<and> resp_same r q)"

lemma Block_of_type_block_wire:
  assumes "block_wf b" and "Block_hasWire b"
  shows "\<exists>c. Block_of_type_block t b = Inr c \<and> fresh_block c \<and> value_bytes c = wire_bytes b"
  using assms by (auto simp: Block_of_type_block_def Block_begin_def Block_end_def Block_hasWire_def fresh_block_def block_wf_def
      value_bytes_def wire_bytes_def split: option.splits)

lemma Block_blockFromValue_fresh:
  assumes "fresh_block b" and "value_bytes b = tlv_wire t v" and "fits v"
  shows "\<exists>c. Block_blockFromValue b = Inr c \<and> block_tlv c = (t, v) \<and> fresh_block c"
proof -
  obtain c where c: "Block_blockFromValue b = Inr c" "block_tlv c = (t, v)" using Block_blockFromValue_tlv [OF assms] by blast
  obtain buf where buf: "m_buffer b = Some buf" "m_value_begin b \<le> m_value_end b" "m_value_end b \<le> length buf"
    using assms(1) by (auto simp: fresh_block_def block_wf_def)
  have s: "slice (m_value_begin b) (m_value_end b) buf = tlv_wire t v" using assms(2) buf(1) by (simp add: value_bytes_def)
  have len: "m_value_end b - m_value_begin b = length (tlv_wire t v)" using s buf by (metis length_slice)
  have "length v < length (tlv_wire t v)" by (simp add: length_tlv_wire sizeOfVarNumber_def)
  then have "block_wf c" "m_subBlocks c = []" "m_buffer c \<noteq> None"
    using c(1) buf len assms(3) by (auto simp: Block_blockFromValue_def s wire_simps Block_of_parts_def block_wf_def split: if_splits)
  with c show ?thesis by (auto simp: fresh_block_def)
qed

lemmas response_setters = Response_setStatusCode_def Response_setProcessId_def Response_setInsertNum_def Response_setDeleteNum_def
  Response_setStartBlockId_def Response_setEndBlockId_def Response_drop_wire_def Response_default_def Block_reset_def Block_hasWire_def
  Block_default_def

lemma Response_wireEncode_block:
  assumes "r_hasStatusCode r" and "\<not> Block_hasWire (r_wire r)"
  shows "\<exists>b. Response_wireEncode r = Inr (b, r\<lparr>r_wire := b\<rparr>) \<and> block_wf b \<and> Block_hasWire b
     \<and> wire_bytes b = tlv_wire tlv_RepoCommandResponse (tlvs_wire (resp_tlvs r)) \<and> m_type b = tlv_RepoCommandResponse"
proof -
  let ?w = "tlv_wire tlv_RepoCommandResponse (tlvs_wire (resp_tlvs r))"
  obtain me mn where m: "Response_wireEncode_template estimator_ops r = Inr me" "Response_wireEncode_template encoder_ops r = Inr mn"
    "prepends (\<lambda>_ _. True) me ?w (length ?w)" "prepends enc_rel mn ?w (length ?w)"
    using est.Response_wireEncode_prepends [OF assms(1)] enc.Response_wireEncode_prepends [OF assms(1)] by blast
  from estimate_and_encode_wire [OF m(3,4) resp_tlvs_fits] m(1,2) assms(2) show ?thesis
    by (auto simp: Response_wireEncode_def try_encode_def block_tlv_def)
qed

text \<open>A response with a status code and no stale wire is always sent.\<close>

lemma reply_ok:
  assumes "r_hasStatusCode r" and "\<not> Block_hasWire (r_wire r)"
  shows "\<exists>b d. BaseHandle_reply sign i r nd = (None, r\<lparr>r_wire := b\<rparr>, nd\<lparr>nd_sent := nd_sent nd @ [sign d]\<rparr>) \<and> answers i r d"
proof -
  obtain b where b: "Response_wireEncode r = Inr (b, r\<lparr>r_wire := b\<rparr>)" "block_wf b" "Block_hasWire b"
    "wire_bytes b = tlv_wire tlv_RepoCommandResponse (tlvs_wire (resp_tlvs r))" "m_type b = tlv_RepoCommandResponse"
    using Response_wireEncode_block [OF assms] by blast
  obtain c where c: "Block_of_type_block tlv_Content b = Inr c" "fresh_block c" "value_bytes c = wire_bytes b"
    using Block_of_type_block_wire [OF b(2,3)] by blast
  obtain w where w: "Block_blockFromValue c = Inr w" "block_tlv w = (tlv_RepoCommandResponse, tlvs_wire (resp_tlvs r))" "fresh_block w"
    using Block_blockFromValue_fresh [OF c(2) _ resp_tlvs_fits] c(3) b(4) by metis
  obtain q where "Response_wireDecode Response_default w = (None, q)" "resp_same r q"
    using Response_wireDecode_fresh [OF w(3,2)] assms(1) by auto
  then have "answers i r ((Data_onChanged (Data_of_name (i_name i)))\<lparr>d_content := c\<rparr>)"
    using w(1) by (auto simp: answers_def Data_onChanged_def Data_of_name_def)
  moreover have "tlv_RepoCommandResponse \<noteq> tlv_Content" by (simp add: repo_codes tlv_codes)
  ultimately show ?thesis using b(1,5) c(1) by (auto simp: BaseHandle_reply_def Data_setContent_def)
qed

lemma negativeReply_ok:
  "\<exists>d. negativeReply sign i code nd = (None, nd\<lparr>nd_sent := nd_sent nd @ [sign d]\<rparr>) \<and> answers i (Response_setStatusCode code Response_default) d"
  using reply_ok [of "Response_setStatusCode code Response_default" sign i nd]
  by (auto simp: negativeReply_def response_setters)

section \<open>The segment loop\<close>

lemma segment_component:
  "\<exists>c. Component_fromSegment k = Inr c \<and> component_block c \<and> Component_toSegment c = Inr k"
proof -
  let ?v = "SEGMENT_MARKER # nonNegativeInteger_bytes k"
  have "fits ?v" by (simp add: fits_def nonNegativeInteger_bytes_def)
  from estimate_and_encode_wire [OF est.prependNumberWithMarker_prepends enc.prependNumberWithMarker_prepends this]
  obtain b where b: "Component_fromNumberWithMarker SEGMENT_MARKER k = Inr b" "block_wf b" "wire_bytes b = tlv_wire tlv_NameComponent ?v"
    and v: "value_bytes b = ?v" "m_type b = tlv_NameComponent"
    by (auto simp: Component_fromNumberWithMarker_def Component_of_block_def Component_isGeneric_def block_tlv_def)
  have "Block_value_size b = Suc (length (nonNegativeInteger_bytes k))" using wf_value_size [OF b(2)] v(1) by simp
  then have "Component_toSegment b = Inr k"
    using v length_nonNegativeInteger [of k] nonNegativeInteger_roundtrip [of k "[]"]
    by (auto simp: Component_toSegment_def Component_isNumberWithMarker_def Component_toNumberWithMarker_def)
  moreover have "component_block b" using b v length_nonNegativeInteger_le [of k] by (simp add: component_block_def)
  ultimately show ?thesis using b(1) by (auto simp: Component_fromSegment_def)
qed

definition segment_name :: "name \<Rightarrow> u64 \<Rightarrow> name" where
  "segment_name n k = projr (Name_appendSegment n k)"

lemma Name_appendSegment_eq: "Name_appendSegment n k = Inr (segment_name n k)"
  using segment_component [of k] by (auto simp: segment_name_def Name_appendSegment_def Name_append_made_def)

primrec erase_names :: "'st storage_ops \<Rightarrow> name list \<Rightarrow> 'st \<Rightarrow> 'st" where
  "erase_names ops [] st = st"
| "erase_names ops (n # ns) st = erase_names ops ns (snd (st_erase_name ops n st))"

definition erase_name_returns :: "'st storage_ops \<Rightarrow> bool" where
  "erase_name_returns ops \<longleftrightarrow> (\<forall>n st. \<exists>b st'. st_erase_name ops n st = (Inr b, st'))"

definition segment_range :: "u64 \<Rightarrow> nat \<Rightarrow> u64 list" where
  "segment_range start k = map (\<lambda>j. start + word_of_nat j) [0..<k]"

lemma segment_range_Suc: "segment_range i (Suc k) = i # segment_range (i + 1) k"
  by (simp add: segment_range_def map_upt_Suc algebra_simps del: upt_Suc)

lemma deleteData_name_returns:
  assumes "erase_name_returns ops"
  shows "\<exists>r. r \<noteq> 0 \<and> deleteData_name ops n s = (Inr r, s\<lparr>rs_storage := snd (st_erase_name ops n (rs_storage s))\<rparr>)"
proof -
  obtain b st where "st_erase_name ops n (rs_storage s) = (Inr b, st)" using assms unfolding erase_name_returns_def by blast
  then show ?thesis by (auto simp: deleteData_name_def)
qed

lemma unat_plus_one: "i \<noteq> - 1 \<Longrightarrow> unat (i + 1) = unat (i :: u64) + 1"
  using unatSuc [of i] eq_neg_iff_add_eq_0 [of i 1] by (simp add: add.commute)

lemma delete_segments_returns:
  assumes "erase_name_returns ops" and "endBlockId \<noteq> - 1"
  shows "k = unat endBlockId + 1 - unat i \<Longrightarrow> delete_segments ops prefix endBlockId i n s =
     Some (Inr (n + word_of_nat k), s\<lparr>rs_storage := erase_names ops (map (segment_name prefix) (segment_range i k)) (rs_storage s)\<rparr>)"
proof (induction k arbitrary: i n s)
  case 0
  then have "\<not> i \<le> endBlockId" by (simp add: word_le_nat_alt)
  then show ?case by (subst delete_segments.simps) (simp add: segment_range_def)
next
  case (Suc k)
  then have le: "i \<le> endBlockId" by (simp add: word_le_nat_alt)
  have "i \<noteq> - 1" using le assms(2) word_order.extremum_uniqueI [of i] by (metis word_order.extremum order_antisym)
  then have "unat (i + 1) = unat i + 1" by (rule unat_plus_one)
  then have k: "k = unat endBlockId + 1 - unat (i + 1)" using Suc.prems by simp
  obtain r where r: "r \<noteq> 0" "deleteData_name ops (segment_name prefix i) s
      = (Inr r, s\<lparr>rs_storage := snd (st_erase_name ops (segment_name prefix i) (rs_storage s))\<rparr>)"
    using deleteData_name_returns [OF assms(1)] by blast
  show ?case
    using Suc.IH [OF k] r le by (subst delete_segments.simps) (simp add: Name_appendSegment_eq segment_range_Suc algebra_simps)
qed

text \<open>With the last segment number the counter wraps before it passes the end.\<close>

lemma delete_segments_diverges:
  assumes "erase_name_returns ops"
  shows "delete_segments ops prefix (- 1) i n s = None"
proof -
  have "erase_name_returns o' \<longrightarrow> e \<noteq> - 1" if "delete_segments o' p e j m t = Some y" for o' p e j m y and t :: "'a repo_storage"
  proof (rule delete_segments.raw_induct [OF _ that], intro impI notI)
    fix rec o' p e j m y and t :: "'a repo_storage"
    assume ih: "\<And>o' p e j m t y. rec o' p e j m t = Some y \<Longrightarrow> erase_name_returns o' \<longrightarrow> e \<noteq> - 1"
      and body: "(if j \<le> e then case Name_appendSegment p j of Inl er \<Rightarrow> Some (Inl er, t)
         | Inr n \<Rightarrow> (case deleteData_name o' n t of (Inl er, s') \<Rightarrow> Some (Inl er, s')
             | (Inr r, s') \<Rightarrow> rec o' p e (j + 1) (if r \<noteq> 0 then m + 1 else m) s')
        else Some (Inr m, t)) = Some y"
      and ops: "erase_name_returns o'" and e: "e = - 1"
    obtain r where r: "r \<noteq> 0" "deleteData_name o' (segment_name p j) t
        = (Inr r, t\<lparr>rs_storage := snd (st_erase_name o' (segment_name p j) (rs_storage t))\<rparr>)"
      using deleteData_name_returns [OF ops] by blast
    have "rec o' p e (j + 1) (m + 1) (t\<lparr>rs_storage := snd (st_erase_name o' (segment_name p j) (rs_storage t))\<rparr>) = Some y"
      using body r by (simp add: e Name_appendSegment_eq)
    from ih [OF this] ops e show False by simp
  qed
  then show ?thesis using assms by (metis option.exhaust)
qed

section \<open>Properties\<close>

text \<open>
  C27: segmented deletion. For a range of blocks the handler asks the database to erase every segment
  in order and then answers once, with status 200 and the number of segments of the range as the
  number deleted, whether or not the database held them; without a process id it erases as well but
  answers 403. If the range ends with the last 64-bit number the handler never returns.
\<close>

theorem processSegmentDelete_reports:
  assumes "p_hasEndBlockId p" and "erase_name_returns ops"
    and "start = (if p_hasStartBlockId p then p_startBlockId p else 0)" and "start \<le> p_endBlockId p"
  shows "if p_endBlockId p = - 1 then processSegmentDeleteCommand sign ops i p nd = None
     else \<exists>d. processSegmentDeleteCommand sign ops i p nd =
         Some (None, nd\<lparr>nd_storage := (nd_storage nd)\<lparr>rs_storage :=
              erase_names ops (map (segment_name (p_name p)) (segment_range start (unat (p_endBlockId p) + 1 - unat start))) (rs_storage (nd_storage nd))\<rparr>,
            nd_sent := nd_sent nd @ [sign d]\<rparr>)
       \<and> answers i (if p_hasProcessId p
            then Response_setDeleteNum (p_endBlockId p - start + 1) (Response_setStatusCode 200 (Response_setProcessId (p_processId p) Response_default))
            else Response_setStatusCode 403 Response_default) d"
proof (cases "p_endBlockId p = - 1")
  case True
  then show ?thesis using assms by (auto simp: processSegmentDeleteCommand_def Let_def delete_segments_diverges Parameter_setStartBlockId_def
        Parameter_drop_wire_def)
next
  case False
  let ?p = "if p_hasStartBlockId p then p else Parameter_setStartBlockId p 0"
  have p: "p_hasEndBlockId ?p" "p_endBlockId ?p = p_endBlockId p" "p_startBlockId ?p = start" "p_name ?p = p_name p"
    "p_hasProcessId ?p = p_hasProcessId p" "p_processId ?p = p_processId p"
    using assms(1,3) by (simp_all add: Parameter_setStartBlockId_def Parameter_drop_wire_def)
  let ?k = "unat (p_endBlockId p) + 1 - unat start"
  have k: "word_of_nat ?k = p_endBlockId p - start + 1"
  proof -
    have "unat start \<le> unat (p_endBlockId p)" using assms(4) by (simp add: word_le_nat_alt)
    then have "(word_of_nat ?k :: u64) = word_of_nat (unat (p_endBlockId p)) + 1 - word_of_nat (unat start)" by (simp add: of_nat_diff)
    then show ?thesis by simp
  qed
  have nl: "p_endBlockId p < start \<longleftrightarrow> False" using assms(4) by simp
  let ?s = "(nd_storage nd)\<lparr>rs_storage := erase_names ops (map (segment_name (p_name p)) (segment_range start ?k)) (rs_storage (nd_storage nd))\<rparr>"
  let ?r = "if p_hasProcessId p
            then Response_setDeleteNum (p_endBlockId p - start + 1) (Response_setStatusCode 200 (Response_setProcessId (p_processId p) Response_default))
            else Response_setStatusCode 403 Response_default"
  have "r_hasStatusCode ?r" "\<not> Block_hasWire (r_wire ?r)" by (simp_all add: response_setters)
  from reply_ok [OF this, of sign i "nd\<lparr>nd_storage := ?s\<rparr>"] obtain b d where
    "BaseHandle_reply sign i ?r (nd\<lparr>nd_storage := ?s\<rparr>) = (None, ?r\<lparr>r_wire := b\<rparr>, nd\<lparr>nd_storage := ?s, nd_sent := nd_sent nd @ [sign d]\<rparr>)"
    "answers i ?r d" by auto
  moreover have "positiveReply sign i ?p 200 (p_endBlockId p - start + 1) (nd\<lparr>nd_storage := ?s\<rparr>)
      = (case BaseHandle_reply sign i ?r (nd\<lparr>nd_storage := ?s\<rparr>) of (err, _, nd') \<Rightarrow> (err, nd'))"
    unfolding positiveReply_def Let_def p(5,6) ..
  moreover have "processSegmentDeleteCommand sign ops i p nd = Some (positiveReply sign i ?p 200 (p_endBlockId p - start + 1) (nd\<lparr>nd_storage := ?s\<rparr>))"
    unfolding processSegmentDeleteCommand_def Let_def
    using p(1) by (simp only: p(2-4) nl if_True if_False delete_segments_returns [OF assms(2) False refl] option.case sum.case
        prod.case k add_0)
  ultimately show ?thesis using False by auto
qed

theorem processSegmentDelete_reports_witness:
  "(\<exists>d. processSegmentDeleteCommand (\<lambda>d. d) list_storage (Interest_of_name name_a) (Parameter_setProcessId example_parameter 9)
         \<lparr>nd_storage = RepoStorage_new 10 [1], nd_sent = []\<rparr>
       = Some (None, \<lparr>nd_storage = RepoStorage_new 10 [1], nd_sent = [d]\<rparr>)
     \<and> answers (Interest_of_name name_a)
         (Response_setDeleteNum 4 (Response_setStatusCode 200 (Response_setProcessId 9 Response_default))) d)
   \<and> processSegmentDeleteCommand (\<lambda>d. d) list_storage (Interest_of_name name_a) (Parameter_setEndBlockId example_parameter (- 1))
         \<lparr>nd_storage = RepoStorage_new 10 [1], nd_sent = []\<rparr> = None"
proof -
  let ?p = "Parameter_setProcessId example_parameter 9" and ?q = "Parameter_setEndBlockId example_parameter (- 1)"
  have r: "erase_name_returns list_storage" by (auto simp: erase_name_returns_def list_storage_def)
  have e: "erase_names list_storage ns ks = ks" for ns ks by (induction ns) (simp_all add: list_storage_def)
  have p: "p_hasEndBlockId ?p" "p_endBlockId ?p = 5" "p_hasStartBlockId ?p" "p_startBlockId ?p = 2" "p_hasProcessId ?p" "p_processId ?p = 9"
    "p_hasEndBlockId ?q" "p_endBlockId ?q = - 1" "p_hasStartBlockId ?q" "p_startBlockId ?q = 2"
    using example_parameter_ok by (simp_all add: Parameter_setProcessId_def Parameter_setEndBlockId_def Parameter_drop_wire_def)
  show ?thesis
    using processSegmentDelete_reports [OF p(1) r, of 2 "\<lambda>d. d" "Interest_of_name name_a" "\<lparr>nd_storage = RepoStorage_new 10 [1], nd_sent = []\<rparr>"]
      processSegmentDelete_reports [OF p(7) r, of 2 "\<lambda>d. d" "Interest_of_name name_a" "\<lparr>nd_storage = RepoStorage_new 10 [1], nd_sent = []\<rparr>"]
    by (simp add: p e RepoStorage_new_def)
qed

end
