(* ===== verification/WriteHandle.thy ===== *)
theory WriteHandle
  imports DeleteHandle
begin

text \<open>
  The handler of insert commands, \<^verbatim>\<open>repo-ng-mongo/src/handles/write-handle.cpp\<close>: it fetches single packets
  and segmented content under credit-based flow control. Besides storage and sent packets its state has
  the Interests pending at the face, with the callbacks bound to them, and the deletions given to the
  scheduler. The clock \<open>now\<close>, the generated process id and the validator's verdict are arguments.
  \<^verbatim>\<open>map::operator[]\<close> value-initialises a missing process, so its numbers are zero.
\<close>

section \<open>State\<close>

definition RETRY_TIMEOUT :: int where "RETRY_TIMEOUT = 3"
definition DEFAULT_CREDIT :: int where "DEFAULT_CREDIT = 12"
definition NOEND_TIMEOUT :: int where "NOEND_TIMEOUT = 10000"
definition PROCESS_DELETE_TIME :: int where "PROCESS_DELETE_TIME = 10000"
definition WRITE_INTEREST_LIFETIME :: int where "WRITE_INTEREST_LIFETIME = 4000"

record process_info =
  pi_response :: repo_response
  pi_nextSegmentQueue :: "u64 list"
  pi_nextSegment :: u64
  pi_retryCounts :: "u64 \<rightharpoonup> int"
  pi_credit :: int
  pi_noEndTime :: int

definition ProcessInfo_default :: process_info where
  "ProcessInfo_default = \<lparr>pi_response = Response_default, pi_nextSegmentQueue = [], pi_nextSegment = 0,
     pi_retryCounts = Map.empty, pi_credit = 0, pi_noEndTime = 0\<rparr>"

text \<open>Which callbacks an Interest was expressed with: those of a single packet or those of a segment.\<close>

datatype fetch_kind = FetchSingle | FetchSegment

record pending =
  pd_interest :: interest
  pd_kind :: fetch_kind
  pd_process :: u64

record 'st write_handle = "'st node" +
  w_pending :: "pending list"
  w_scheduled :: "(int \<times> u64) list"
  w_processes :: "u64 \<rightharpoonup> process_info"
  w_retryTime :: int
  w_credit :: int
  w_noEndTimeout :: int
  w_interestLifetime :: int

type_synonym 'st outcome = "error option \<times> 'st write_handle"

definition WriteHandle_new :: "'st repo_storage \<Rightarrow> 'st write_handle" where
  "WriteHandle_new storageHandle = \<lparr>nd_storage = storageHandle, nd_sent = [], w_pending = [], w_scheduled = [], w_processes = Map.empty,
     w_retryTime = RETRY_TIMEOUT, w_credit = DEFAULT_CREDIT, w_noEndTimeout = NOEND_TIMEOUT, w_interestLifetime = WRITE_INTEREST_LIFETIME\<rparr>"

definition process_at :: "'st write_handle \<Rightarrow> u64 \<Rightarrow> process_info" where
  "process_at h pid = (case w_processes h pid of None \<Rightarrow> ProcessInfo_default | Some p \<Rightarrow> p)"

definition set_process :: "u64 \<Rightarrow> process_info \<Rightarrow> 'st write_handle \<Rightarrow> 'st write_handle" where
  "set_process pid p h = h\<lparr>w_processes := (w_processes h)(pid \<mapsto> p)\<rparr>"

definition deleteProcess :: "u64 \<Rightarrow> 'st write_handle \<Rightarrow> 'st write_handle" where
  "deleteProcess pid h = h\<lparr>w_processes := (w_processes h)(pid := None)\<rparr>"

definition deferredDeleteProcess :: "u64 \<Rightarrow> 'st write_handle \<Rightarrow> 'st write_handle" where
  "deferredDeleteProcess pid h = h\<lparr>w_scheduled := w_scheduled h @ [(PROCESS_DELETE_TIME, pid)]\<rparr>"

definition expressInterest :: "interest \<Rightarrow> fetch_kind \<Rightarrow> u64 \<Rightarrow> 'st write_handle \<Rightarrow> 'st write_handle" where
  "expressInterest i kind pid h = h\<lparr>w_pending := w_pending h @ [\<lparr>pd_interest = i, pd_kind = kind, pd_process = pid\<rparr>]\<rparr>"

section \<open>Single packets\<close>

definition onDataValidated :: "'st storage_ops \<Rightarrow> data \<Rightarrow> u64 \<Rightarrow> 'st write_handle \<Rightarrow> 'st outcome" where
  "onDataValidated ops d pid h =
     (case w_processes h pid of
        None \<Rightarrow> (None, h)
      | Some process \<Rightarrow>
          if r_insertNum (pi_response process) = 0 then
            (case insertData ops d (nd_storage h) of
               (Inl e, s) \<Rightarrow> (Some e, h\<lparr>nd_storage := s\<rparr>)
             | (Inr _, s) \<Rightarrow>
                 (None, deferredDeleteProcess pid
                    (set_process pid (process\<lparr>pi_response := Response_setInsertNum 1 (pi_response process)\<rparr>) (h\<lparr>nd_storage := s\<rparr>))))
          else (None, deferredDeleteProcess pid h))"

definition onTimeout :: "u64 \<Rightarrow> 'st write_handle \<Rightarrow> 'st outcome" where
  "onTimeout pid h = (None, deleteProcess pid h)"

definition processSingleInsertCommand ::
    "(data \<Rightarrow> data) \<Rightarrow> u64 \<Rightarrow> interest \<Rightarrow> repo_parameter \<Rightarrow> 'st write_handle \<Rightarrow> 'st outcome" where
  "processSingleInsertCommand sign pid i parameter h =
     (let process = process_at h pid;
          response = Response_setInsertNum 0 (Response_setProcessId pid (Response_setStatusCode 100 (pi_response process)))
      in case BaseHandle_reply sign i response (set_process pid (process\<lparr>pi_response := response\<rparr>) h) of
           (Some e, response', h') \<Rightarrow> (Some e, set_process pid (process\<lparr>pi_response := response'\<rparr>) h')
         | (None, response', h') \<Rightarrow>
             (let fetch = Interest_setInterestLifetime (Interest_of_name (p_name parameter)) (w_interestLifetime h);
                  fetchInterest = (if Parameter_hasSelectors parameter then Interest_setSelectors fetch (p_selectors parameter) else fetch)
              in (None, expressInterest fetchInterest FetchSingle pid
                    (set_process pid (process\<lparr>pi_response := Response_setStatusCode 300 response'\<rparr>) h'))))"

section \<open>Segmented content\<close>

definition express_segment :: "name \<Rightarrow> u64 \<Rightarrow> u64 \<Rightarrow> 'st write_handle \<Rightarrow> 'st outcome" where
  "express_segment prefix segment pid h =
     (case Name_appendSegment prefix segment of
        Inl e \<Rightarrow> (Some e, h)
      | Inr fetchName \<Rightarrow>
          (None, expressInterest (Interest_setInterestLifetime (Interest_of_name fetchName) (w_interestLifetime h)) FetchSegment pid h))"

lemma segment_loop_decreases: "segment < bound \<Longrightarrow> unat bound - unat (segment + 1) < unat bound - unat (segment :: u64)"
proof -
  assume "segment < bound"
  then have "segment \<noteq> - 1" using word_order.extremum [of bound] by (metis not_le)
  then have "unat (segment + 1) = unat segment + 1" by (rule unat_plus_one)
  then show ?thesis using \<open>segment < bound\<close> by (simp add: word_less_nat_alt)
qed

text \<open>The loop of \<^verbatim>\<open>segInit\<close> and the segment it stops at.\<close>

function segInit_loop :: "name \<Rightarrow> u64 \<Rightarrow> u64 \<Rightarrow> u64 \<Rightarrow> 'st write_handle \<Rightarrow> error option \<times> u64 \<times> 'st write_handle" where
  "segInit_loop n pid bound segment h =
     (if segment < bound then
        (case express_segment n segment pid h of
           (Some e, h') \<Rightarrow> (Some e, segment, h')
         | (None, h') \<Rightarrow>
             (let process = process_at h' pid
              in segInit_loop n pid bound (segment + 1)
                   (set_process pid (process\<lparr>pi_credit := pi_credit process - 1, pi_retryCounts := (pi_retryCounts process)(segment \<mapsto> 0)\<rparr>) h')))
      else (None, segment, h))"
  by pat_completeness auto

termination
  by (relation "measure (\<lambda>(n, pid, bound, segment, h). unat bound - unat segment)") (simp_all add: segment_loop_decreases)

declare segInit_loop.simps [simp del]

definition segInit :: "int \<Rightarrow> u64 \<Rightarrow> repo_parameter \<Rightarrow> 'st write_handle \<Rightarrow> 'st outcome" where
  "segInit now pid parameter h =
     (let process = process_at h pid;
          start = p_startBlockId parameter;
          initialCredit = (if p_hasEndBlockId parameter
                           then min (word_of_int (w_credit h)) (p_endBlockId parameter - start + 1)
                           else word_of_int (w_credit h));
          process1 = process\<lparr>pi_credit := sint (ucast initialCredit :: u32),
                       pi_noEndTime := (if p_hasEndBlockId parameter then pi_noEndTime process else now + w_noEndTimeout h)\<rparr>
      in case segInit_loop (p_name parameter) pid (start + initialCredit) start (set_process pid process1 h) of
           (Some e, _, h') \<Rightarrow> (Some e, h')
         | (None, segment, h') \<Rightarrow>
             (let process' = process_at h' pid
              in (None, set_process pid (process'\<lparr>pi_nextSegment := segment,
                    pi_nextSegmentQueue := pi_nextSegmentQueue process' @ [segment]\<rparr>) h')))"

definition onSegmentDataControl :: "int \<Rightarrow> u64 \<Rightarrow> interest \<Rightarrow> 'st write_handle \<Rightarrow> 'st outcome" where
  "onSegmentDataControl now pid i h =
     (case w_processes h pid of
        None \<Rightarrow> (None, h)
      | Some process0 \<Rightarrow>
          (let process = process0\<lparr>pi_credit := pi_credit process0 + 1\<rparr>;
               response = pi_response process
           in if \<not> r_hasEndBlockId response \<and> now > pi_noEndTime process then
                (None, deferredDeleteProcess pid (set_process pid (process\<lparr>pi_response := Response_setStatusCode 405 response\<rparr>) h))
              else if r_hasEndBlockId response \<and> r_insertNum response \<ge> r_endBlockId response - r_startBlockId response + 1 then
                (None, deferredDeleteProcess pid (set_process pid (process\<lparr>pi_response := Response_setStatusCode 200 response\<rparr>) h))
              else if pi_credit process = 0 then (None, set_process pid process h)
              else case pi_nextSegmentQueue process of
                [] \<Rightarrow> (None, set_process pid process h)
              | sendingSegment # queue \<Rightarrow>
                  (let process1 = process\<lparr>pi_nextSegmentQueue := queue\<rparr>
                   in if r_hasEndBlockId response \<and> sendingSegment > r_endBlockId response then (None, set_process pid process1 h)
                      else case (case Name_get (i_name i) (int (Name_size (i_name i)) - 1) of
                                   Inl e \<Rightarrow> Inl e | Inr c \<Rightarrow> Component_toSegment c) of
                        Inl e \<Rightarrow> (Some e, set_process pid process1 h)
                      | Inr fetchedSegment \<Rightarrow>
                          if pi_retryCounts process1 fetchedSegment = None
                          then (Some (UndefinedBehaviour ''assertion failed: retryCounts.count(fetchedSegment) != 0''), set_process pid process1 h)
                          else
                            (let process2 = process1\<lparr>pi_retryCounts := (pi_retryCounts process1)(fetchedSegment := None)\<rparr>
                             in case express_segment (Name_getPrefix (i_name i) (- 1)) sendingSegment pid (set_process pid process2 h) of
                                  (Some e, h') \<Rightarrow> (Some e, h')
                                | (None, h') \<Rightarrow>
                                    (let retries = (case pi_retryCounts process2 sendingSegment of None \<Rightarrow> 0 | Some k \<Rightarrow> k + 1);
                                         process3 = process2\<lparr>pi_credit := pi_credit process2 - 1,
                                                      pi_retryCounts := (pi_retryCounts process2)(sendingSegment \<mapsto> retries)\<rparr>;
                                         more = \<not> r_hasEndBlockId response \<or> pi_nextSegment process3 + 1 \<le> r_endBlockId response;
                                         process4 = (if more then process3\<lparr>pi_nextSegment := pi_nextSegment process3 + 1,
                                                                      pi_nextSegmentQueue := queue @ [pi_nextSegment process3 + 1]\<rparr>
                                                     else process3)
                                     in (None, set_process pid process4 h'))))))"

definition refresh_endBlockId :: "data \<Rightarrow> repo_response \<Rightarrow> repo_response res" where
  "refresh_endBlockId d response =
     (let finalBlockId = mi_finalBlockId (d_metaInfo d)
      in if Block_value_size finalBlockId = 0 then Inr response
         else case Component_toSegment finalBlockId of
           Inl e \<Rightarrow> Inl e
         | Inr final \<Rightarrow>
             if r_hasEndBlockId response
             then Inr (if final < r_endBlockId response then Response_setEndBlockId final response else response)
             else Inr (Response_setEndBlockId final response))"

definition onSegmentDataValidated :: "'st storage_ops \<Rightarrow> int \<Rightarrow> interest \<Rightarrow> data \<Rightarrow> u64 \<Rightarrow> 'st write_handle \<Rightarrow> 'st outcome" where
  "onSegmentDataValidated ops now i d pid h =
     (case w_processes h pid of
        None \<Rightarrow> (None, h)
      | Some process \<Rightarrow>
          (case refresh_endBlockId d (pi_response process) of
             Inl e \<Rightarrow> (Some e, h)
           | Inr response \<Rightarrow>
               (case insertData ops d (nd_storage h) of
                  (Inl e, s) \<Rightarrow> (Some e, set_process pid (process\<lparr>pi_response := response\<rparr>) (h\<lparr>nd_storage := s\<rparr>))
                | (Inr inserted, s) \<Rightarrow>
                    (let response' = (if inserted then Response_setInsertNum (r_insertNum response + 1) response else response)
                     in onSegmentDataControl now pid i (set_process pid (process\<lparr>pi_response := response'\<rparr>) (h\<lparr>nd_storage := s\<rparr>))))))"

definition onSegmentTimeoutControl :: "u64 \<Rightarrow> interest \<Rightarrow> 'st write_handle \<Rightarrow> 'st outcome" where
  "onSegmentTimeoutControl pid i h =
     (case w_processes h pid of
        None \<Rightarrow> (None, h)
      | Some process \<Rightarrow>
          (case (case Name_get (i_name i) (- 1) of Inl e \<Rightarrow> Inl e | Inr c \<Rightarrow> Component_toSegment c) of
             Inl e \<Rightarrow> (Some e, h)
           | Inr timeoutSegment \<Rightarrow>
               (case pi_retryCounts process timeoutSegment of
                  None \<Rightarrow> (Some (UndefinedBehaviour ''assertion failed: retryCounts.count(timeoutSegment) != 0''), h)
                | Some retryTime \<Rightarrow>
                    if retryTime \<ge> w_retryTime h then (None, deleteProcess pid h)
                    else (None, expressInterest (Interest_setInterestLifetime (Interest_of_name (i_name i)) (w_interestLifetime h)) FetchSegment pid
                           (set_process pid (process\<lparr>pi_retryCounts := (pi_retryCounts process)(timeoutSegment \<mapsto> retryTime + 1)\<rparr>) h)))))"

definition onSegmentTimeout :: "interest \<Rightarrow> u64 \<Rightarrow> 'st write_handle \<Rightarrow> 'st outcome" where
  "onSegmentTimeout i pid h = onSegmentTimeoutControl pid i h"

text \<open>The common part of the two branches of \<^verbatim>\<open>processSegmentedInsertCommand\<close>, \<open>response\<close> being the first answer.\<close>

definition start_segmented ::
    "(data \<Rightarrow> data) \<Rightarrow> int \<Rightarrow> u64 \<Rightarrow> interest \<Rightarrow> repo_parameter \<Rightarrow> repo_response \<Rightarrow> 'st write_handle \<Rightarrow> 'st outcome" where
  "start_segmented sign now pid i parameter response h =
     (let process = process_at h pid
      in case BaseHandle_reply sign i response (set_process pid (process\<lparr>pi_response := response\<rparr>) h) of
           (Some e, response', h') \<Rightarrow> (Some e, set_process pid (process\<lparr>pi_response := response'\<rparr>) h')
         | (None, response', h') \<Rightarrow>
             segInit now pid parameter (set_process pid (process\<lparr>pi_response := Response_setStatusCode 300 response'\<rparr>) h'))"

definition processSegmentedInsertCommand ::
    "(data \<Rightarrow> data) \<Rightarrow> int \<Rightarrow> u64 \<Rightarrow> interest \<Rightarrow> repo_parameter \<Rightarrow> 'st write_handle \<Rightarrow> 'st outcome" where
  "processSegmentedInsertCommand sign now pid i parameter0 h =
     (if p_hasEndBlockId parameter0 then
        (let parameter = (if p_hasStartBlockId parameter0 then parameter0 else Parameter_setStartBlockId parameter0 0);
             start = p_startBlockId parameter;
             endId = p_endBlockId parameter
         in if start > endId then negativeReply sign i 403 h
            else start_segmented sign now pid i parameter
                   (Response_setEndBlockId endId (Response_setStartBlockId start (Response_setInsertNum 0
                      (Response_setProcessId pid (Response_setStatusCode 100 (pi_response (process_at h pid))))))) h)
      else start_segmented sign now pid i parameter0
             (Response_setStartBlockId (p_startBlockId parameter0) (Response_setInsertNum 0
                (Response_setProcessId pid (Response_setStatusCode 100 (pi_response (process_at h pid)))))) h)"

section \<open>Commands\<close>

definition WriteHandle_onValidated ::
    "(data \<Rightarrow> data) \<Rightarrow> int \<Rightarrow> u64 \<Rightarrow> interest \<Rightarrow> name \<Rightarrow> 'st write_handle \<Rightarrow> 'st outcome" where
  "WriteHandle_onValidated sign now pid i prefix h =
     (case extractParameter i prefix Parameter_default of
        (Some e, _) \<Rightarrow> (if is_parameter_error e then negativeReply sign i 403 h else (Some e, h))
      | (None, parameter) \<Rightarrow>
          if (p_hasStartBlockId parameter \<or> p_hasEndBlockId parameter) \<and> Parameter_hasSelectors parameter then negativeReply sign i 402 h
          else
            (case (if p_hasStartBlockId parameter \<or> p_hasEndBlockId parameter
                   then processSegmentedInsertCommand sign now pid i parameter h
                   else processSingleInsertCommand sign pid i parameter h) of
               (Some e, h') \<Rightarrow> (Some e, h')
             | (None, h') \<Rightarrow>
                 (None, if p_hasInterestLifetime parameter then h'\<lparr>w_interestLifetime := p_interestLifetime parameter\<rparr> else h')))"

definition WriteHandle_onValidationFailed :: "(data \<Rightarrow> data) \<Rightarrow> interest \<Rightarrow> 'st write_handle \<Rightarrow> 'st outcome" where
  "WriteHandle_onValidationFailed sign i h = negativeReply sign i 401 h"

definition extendNoEndTime :: "int \<Rightarrow> int \<Rightarrow> process_info \<Rightarrow> process_info" where
  "extendNoEndTime now noEndTimeout process =
     (if now > pi_noEndTime process then process\<lparr>pi_response := Response_setStatusCode 405 (pi_response process)\<rparr>
      else process\<lparr>pi_noEndTime := now + noEndTimeout\<rparr>)"

definition onCheckValidated :: "(data \<Rightarrow> data) \<Rightarrow> int \<Rightarrow> interest \<Rightarrow> name \<Rightarrow> 'st write_handle \<Rightarrow> 'st outcome" where
  "onCheckValidated sign now i prefix h =
     (case extractParameter i prefix Parameter_default of
        (Some e, _) \<Rightarrow> (if is_parameter_error e then negativeReply sign i 403 h else (Some e, h))
      | (None, parameter) \<Rightarrow>
          if \<not> p_hasProcessId parameter then negativeReply sign i 403 h
          else
            (case w_processes h (p_processId parameter) of
               None \<Rightarrow> negativeReply sign i 404 h
             | Some process0 \<Rightarrow>
                 (let response0 = pi_response process0;
                      process = (if (r_hasStartBlockId response0 \<or> r_hasEndBlockId response0) \<and> \<not> r_hasEndBlockId response0
                                 then extendNoEndTime now (w_noEndTimeout h) process0 else process0)
                  in case BaseHandle_reply sign i (pi_response process) h of
                       (err, response', h') \<Rightarrow> (err, set_process (p_processId parameter) (process\<lparr>pi_response := response'\<rparr>) h'))))"

section \<open>Bookkeeping of a fetch\<close>

text \<open>The Interests pending for a process, and the segment an Interest asks for.\<close>

definition pending_of :: "'st write_handle \<Rightarrow> u64 \<Rightarrow> pending list" where
  "pending_of h pid = filter (\<lambda>d. pd_process d = pid) (w_pending h)"

definition segment_of :: "interest \<Rightarrow> u64 res" where
  "segment_of i = (case Name_get (i_name i) (- 1) of Inl e \<Rightarrow> Inl e | Inr c \<Rightarrow> Component_toSegment c)"

lemma Name_get_last: "Name_get n (int (Name_size n) - 1) = Name_get n (- 1)"
  by (auto simp: Name_get_def Let_def)

definition segment_interest :: "name \<Rightarrow> u64 \<Rightarrow> int \<Rightarrow> interest" where
  "segment_interest n k lifetime = Interest_setInterestLifetime (Interest_of_name (segment_name n k)) lifetime"

lemma express_segment_eq [simp]:
  "express_segment n k pid h = (None, expressInterest (segment_interest n k (w_interestLifetime h)) FetchSegment pid h)"
  by (simp add: express_segment_def Name_appendSegment_eq segment_interest_def)

lemma segment_of_interest [simp]: "segment_of (segment_interest n k lifetime) = Inr k"
  using segment_component [of k]
  by (auto simp: segment_of_def segment_interest_def Interest_setInterestLifetime_def Interest_drop_wire_def Interest_of_name_def segment_name_def
      Name_appendSegment_def Name_append_made_def Name_append_def [symmetric] Name_get_def Name_size_def Let_def nth_append)

lemma segment_of_same_name: "i_name i = i_name j \<Longrightarrow> segment_of i = segment_of j"
  by (simp add: segment_of_def)

text \<open>What a handler call for one process leaves alone: the other processes and their pending Interests.\<close>

definition same_elsewhere :: "u64 \<Rightarrow> 'st write_handle \<Rightarrow> 'st write_handle \<Rightarrow> bool" where
  "same_elsewhere pid h h' \<longleftrightarrow> w_retryTime h' = w_retryTime h \<and> w_credit h' = w_credit h
     \<and> (\<forall>q. q \<noteq> pid \<longrightarrow> w_processes h' q = w_processes h q \<and> pending_of h' q = pending_of h q)"

lemma handle_updates [simp]:
  "w_processes (set_process pid p h) q = (if q = pid then Some p else w_processes h q)"
  "w_processes (deleteProcess pid h) q = (if q = pid then None else w_processes h q)"
  "w_processes (deferredDeleteProcess pid h) = w_processes h"
  "w_processes (expressInterest i kind pid h) = w_processes h"
  "pending_of (set_process pid p h) = pending_of h" "pending_of (deleteProcess pid h) = pending_of h"
  "pending_of (deferredDeleteProcess pid h) = pending_of h"
  "pending_of (expressInterest i kind pid h) q = pending_of h q @ (if q = pid then [\<lparr>pd_interest = i, pd_kind = kind, pd_process = pid\<rparr>] else [])"
  "pending_of (h\<lparr>nd_storage := s\<rparr>) = pending_of h" "pending_of (h\<lparr>nd_sent := ds\<rparr>) = pending_of h"
  "pending_of (h\<lparr>w_interestLifetime := t\<rparr>) = pending_of h"
  "w_retryTime (set_process pid p h) = w_retryTime h" "w_retryTime (deleteProcess pid h) = w_retryTime h"
  "w_retryTime (deferredDeleteProcess pid h) = w_retryTime h" "w_retryTime (expressInterest i kind pid h) = w_retryTime h"
  "w_credit (set_process pid p h) = w_credit h" "w_credit (deleteProcess pid h) = w_credit h"
  "w_credit (deferredDeleteProcess pid h) = w_credit h" "w_credit (expressInterest i kind pid h) = w_credit h"
  "w_interestLifetime (set_process pid p h) = w_interestLifetime h"
  "w_interestLifetime (expressInterest i kind pid h) = w_interestLifetime h"
  by (auto simp: set_process_def deleteProcess_def deferredDeleteProcess_def expressInterest_def pending_of_def fun_eq_iff)

lemma same_elsewhere_updates [simp]:
  "same_elsewhere pid h (set_process pid p h') \<longleftrightarrow> same_elsewhere pid h h'"
  "same_elsewhere pid h (deleteProcess pid h') \<longleftrightarrow> same_elsewhere pid h h'"
  "same_elsewhere pid h (deferredDeleteProcess pid h') \<longleftrightarrow> same_elsewhere pid h h'"
  "same_elsewhere pid h (expressInterest i kind pid h') \<longleftrightarrow> same_elsewhere pid h h'"
  "same_elsewhere pid h (h'\<lparr>nd_storage := s\<rparr>) \<longleftrightarrow> same_elsewhere pid h h'"
  "same_elsewhere pid h (h'\<lparr>nd_sent := ds\<rparr>) \<longleftrightarrow> same_elsewhere pid h h'"
  "same_elsewhere pid h (h'\<lparr>w_interestLifetime := t\<rparr>) \<longleftrightarrow> same_elsewhere pid h h'"
  "same_elsewhere pid h h"
  by (auto simp: same_elsewhere_def)

lemma same_elsewhere_trans: "same_elsewhere pid h h1 \<Longrightarrow> same_elsewhere pid h1 h2 \<Longrightarrow> same_elsewhere pid h h2"
  by (simp add: same_elsewhere_def)

text \<open>
  A segmented fetch in flight: \<open>F\<close> are the segments asked for and not answered. Each has a retry count;
  the queue holds at most the next segment, which is beyond every segment ever counted; and credit and
  segments in flight, with \<open>m\<close> credits on their way back, never exceed the initial credit.
\<close>

definition fetching :: "nat \<Rightarrow> process_info \<Rightarrow> pending list \<Rightarrow> u64 list \<Rightarrow> bool" where
  "fetching m p ps F \<longleftrightarrow> map (\<lambda>d. segment_of (pd_interest d)) ps = map Inr F \<and> (\<forall>d \<in> set ps. pd_kind d = FetchSegment) \<and> distinct F
     \<and> (\<forall>s \<in> set F. \<exists>k. pi_retryCounts p s = Some k \<and> 0 \<le> k \<and> k \<le> 3)
     \<and> (pi_nextSegmentQueue p = [] \<or> pi_nextSegmentQueue p = [pi_nextSegment p] \<and> (\<forall>s \<in> dom (pi_retryCounts p). s < pi_nextSegment p))
     \<and> 0 \<le> pi_credit p \<and> pi_credit p + int (length F) + int m \<le> 12"

definition process_ok :: "'st write_handle \<Rightarrow> u64 \<Rightarrow> bool" where
  "process_ok h pid \<longleftrightarrow> (\<forall>p. w_processes h pid = Some p \<longrightarrow>
     (if r_hasStartBlockId (pi_response p) then \<exists>F. fetching 0 p (pending_of h pid) F
      else \<forall>d \<in> set (pending_of h pid). pd_kind d = FetchSingle))"

definition handle_ok :: "'st write_handle \<Rightarrow> bool" where
  "handle_ok h \<longleftrightarrow> w_retryTime h = 3 \<and> w_credit h = 12 \<and> (\<forall>pid. process_ok h pid)"

lemma handle_ok_elsewhere:
  assumes "handle_ok h" and "same_elsewhere pid h h'" and "process_ok h' pid"
  shows "handle_ok h'"
proof -
  have "process_ok h' q" for q using assms by (cases "q = pid") (auto simp: handle_ok_def same_elsewhere_def process_ok_def)
  then show ?thesis using assms(1,2) by (simp add: handle_ok_def same_elsewhere_def)
qed

section \<open>A segment arrives\<close>

text \<open>The process after its next segment was asked for in place of \<open>s\<close>.\<close>

definition advance :: "u64 \<Rightarrow> process_info \<Rightarrow> process_info" where
  "advance s p =
     (let k = hd (pi_nextSegmentQueue p); retries = (pi_retryCounts p)(s := None);
          p1 = p\<lparr>pi_nextSegmentQueue := tl (pi_nextSegmentQueue p),
                 pi_retryCounts := retries(k \<mapsto> (case retries k of None \<Rightarrow> 0 | Some j \<Rightarrow> j + 1))\<rparr>
      in if \<not> r_hasEndBlockId (pi_response p) \<or> pi_nextSegment p + 1 \<le> r_endBlockId (pi_response p)
         then p1\<lparr>pi_nextSegment := pi_nextSegment p + 1, pi_nextSegmentQueue := tl (pi_nextSegmentQueue p) @ [pi_nextSegment p + 1]\<rparr>
         else p1)"

definition all_inserted :: "repo_response \<Rightarrow> bool" where
  "all_inserted r \<longleftrightarrow> r_hasEndBlockId r \<and> r_insertNum r \<ge> r_endBlockId r - r_startBlockId r + 1"

definition after_segment :: "int \<Rightarrow> u64 \<Rightarrow> interest \<Rightarrow> u64 \<Rightarrow> process_info \<Rightarrow> 'st write_handle \<Rightarrow> 'st write_handle" where
  "after_segment now pid i s p h =
     (let r = pi_response p; p1 = p\<lparr>pi_credit := pi_credit p + 1\<rparr>
      in if \<not> r_hasEndBlockId r \<and> now > pi_noEndTime p
         then deferredDeleteProcess pid (set_process pid (p1\<lparr>pi_response := Response_setStatusCode 405 r\<rparr>) h)
         else if all_inserted r
         then deferredDeleteProcess pid (set_process pid (p1\<lparr>pi_response := Response_setStatusCode 200 r\<rparr>) h)
         else if pi_credit p + 1 = 0 \<or> pi_nextSegmentQueue p = [] then set_process pid p1 h
         else if r_hasEndBlockId r \<and> hd (pi_nextSegmentQueue p) > r_endBlockId r
         then set_process pid (p1\<lparr>pi_nextSegmentQueue := tl (pi_nextSegmentQueue p)\<rparr>) h
         else expressInterest (segment_interest (Name_getPrefix (i_name i) (- 1)) (hd (pi_nextSegmentQueue p)) (w_interestLifetime h)) FetchSegment pid
                (set_process pid (advance s p) h))"

lemma set_process_twice: "set_process pid p (expressInterest i kind pid (set_process pid q h)) = expressInterest i kind pid (set_process pid p h)"
  by (simp add: set_process_def expressInterest_def)

lemma onSegmentDataControl_eq:
  assumes "w_processes h pid = Some p" and "segment_of i = Inr s" and "pi_retryCounts p s \<noteq> None"
  shows "onSegmentDataControl now pid i h = (None, after_segment now pid i s p h)"
proof -
  have g: "(case Name_get (i_name i) (int (Name_size (i_name i)) - 1) of Inl e \<Rightarrow> Inl e | Inr c \<Rightarrow> Component_toSegment c) = Inr s"
    using assms(2) by (simp add: segment_of_def Name_get_last)
  obtain k where k: "pi_retryCounts p s = Some k" using assms(3) by blast
  show ?thesis
    using assms(1) g k
    by (cases "pi_nextSegmentQueue p")
      (simp_all add: onSegmentDataControl_def after_segment_def Let_def all_inserted_def set_process_twice advance_def)
qed

lemma map_remove1_Inr:
  "map f ps = map Inr F \<Longrightarrow> distinct F \<Longrightarrow> d \<in> set ps \<Longrightarrow> \<exists>s. f d = Inr s \<and> s \<in> set F \<and> map f (remove1 d ps) = map Inr (remove1 s F)"
proof (induction ps arbitrary: F)
  case (Cons e ps)
  then obtain t G where F: "F = t # G" "f e = Inr t" "map f ps = map Inr G" by (cases F) auto
  show ?case
  proof (cases "e = d")
    case False
    then have "d \<in> set ps" using Cons.prems(3) by simp
    with Cons.IH [OF F(3)] Cons.prems(2) F(1) obtain s where "f d = Inr s" "s \<in> set G" "map f (remove1 d ps) = map Inr (remove1 s G)" by auto
    then show ?thesis using F False Cons.prems(2) by (intro exI [of _ s]) auto
  qed (use F in auto)
qed simp

lemma fetching_remove:
  assumes "fetching 0 p ps F" and "d \<in> set ps"
  shows "\<exists>s. segment_of (pd_interest d) = Inr s \<and> s \<in> set F \<and> fetching 1 p (remove1 d ps) (remove1 s F)"
proof -
  obtain s where s: "segment_of (pd_interest d) = Inr s" "s \<in> set F"
    "map (\<lambda>d. segment_of (pd_interest d)) (remove1 d ps) = map Inr (remove1 s F)"
    using map_remove1_Inr [of "\<lambda>d. segment_of (pd_interest d)" ps F d] assms by (auto simp: fetching_def)
  have "length (remove1 s F) + 1 = length F" using s(2) by (simp add: length_remove1) (metis Suc_pred length_pos_if_in_set)
  then show ?thesis using assms s notin_set_remove1 by (auto simp: fetching_def distinct_remove1 dest: set_remove1_subset [THEN subsetD])
qed

lemma fetching_remove_fresh: "fetching m p ps F \<Longrightarrow> s \<notin> set (remove1 s F)"
  by (simp add: fetching_def)

lemma advance_fetching:
  assumes "fetching 1 p ps F" and "s \<notin> set F" and "pi_nextSegmentQueue p \<noteq> []" and "pi_nextSegment p \<noteq> - 1"
    and "segment_of i = Inr (hd (pi_nextSegmentQueue p))"
  shows "fetching 0 (advance s p) (ps @ [\<lparr>pd_interest = i, pd_kind = FetchSegment, pd_process = pid\<rparr>]) (F @ [pi_nextSegment p])"
proof -
  have q: "pi_nextSegmentQueue p = [pi_nextSegment p]" and lt: "\<forall>s \<in> dom (pi_retryCounts p). s < pi_nextSegment p"
    using assms(1,3) by (simp_all add: fetching_def)
  have less: "pi_nextSegment p < pi_nextSegment p + 1" using unat_plus_one [OF assms(4)] by (simp add: word_less_nat_alt)
  have "set F \<subseteq> dom (pi_retryCounts p)" using assms(1) by (auto simp: fetching_def)
  then have new: "pi_nextSegment p \<notin> set F" "pi_retryCounts p (pi_nextSegment p) = None" using lt by (auto simp: dom_def)
  show ?thesis using assms(1,2,5) q lt new less
    by (auto simp: fetching_def advance_def Let_def dom_def split: if_splits intro: less_trans)
qed

lemma after_segment_ok:
  assumes "fetching 1 p (pending_of h pid) F" and "s \<notin> set F" and "pi_nextSegment p \<noteq> - 1"
  shows "\<exists>p' F'. w_processes (after_segment now pid i s p h) pid = Some p' \<and> fetching 0 p' (pending_of (after_segment now pid i s p h) pid) F'
     \<and> r_hasStartBlockId (pi_response p') = r_hasStartBlockId (pi_response p)"
proof -
  let ?r = "pi_response p" and ?h = "after_segment now pid i s p h" and ?p1 = "p\<lparr>pi_credit := pi_credit p + 1\<rparr>"
  have credit: "pi_credit p + 1 \<noteq> 0" using assms(1) by (simp add: fetching_def)
  have quiet: "fetching 0 (?p1\<lparr>pi_response := r\<rparr>) (pending_of h pid) F" "fetching 0 ?p1 (pending_of h pid) F"
    "fetching 0 (?p1\<lparr>pi_nextSegmentQueue := tl (pi_nextSegmentQueue p)\<rparr>) (pending_of h pid) F" for r
    using assms(1) by (auto simp: fetching_def)
  consider (status) code where "?h = deferredDeleteProcess pid (set_process pid (?p1\<lparr>pi_response := Response_setStatusCode code ?r\<rparr>) h)"
    | (idle) "?h = set_process pid ?p1 h"
    | (over) "?h = set_process pid (?p1\<lparr>pi_nextSegmentQueue := tl (pi_nextSegmentQueue p)\<rparr>) h"
    | (send) "pi_nextSegmentQueue p \<noteq> []" "?h = expressInterest (segment_interest (Name_getPrefix (i_name i) (- 1)) (hd (pi_nextSegmentQueue p))
        (w_interestLifetime h)) FetchSegment pid (set_process pid (advance s p) h)"
  proof -
    let ?late = "\<not> r_hasEndBlockId ?r \<and> now > pi_noEndTime p" and ?beyond = "r_hasEndBlockId ?r \<and> hd (pi_nextSegmentQueue p) > r_endBlockId ?r"
    consider "?late" | "\<not> ?late" "all_inserted ?r" | "\<not> ?late" "\<not> all_inserted ?r" "pi_nextSegmentQueue p = []"
      | "\<not> ?late" "\<not> all_inserted ?r" "pi_nextSegmentQueue p \<noteq> []" "?beyond"
      | "\<not> ?late" "\<not> all_inserted ?r" "pi_nextSegmentQueue p \<noteq> []" "\<not> ?beyond" by blast
    then show thesis
    proof cases
      case 1
      then show thesis by (intro status [of 405]) (simp add: after_segment_def)
    next
      case 2
      then show thesis by (intro status [of 200]) (simp add: after_segment_def Let_def del: de_Morgan_conj)
    next
      case 3
      then show thesis by (intro idle) (simp add: after_segment_def Let_def del: de_Morgan_conj)
    next
      case 4
      then show thesis using credit by (intro over) (simp add: after_segment_def Let_def del: de_Morgan_conj)
    next
      case 5
      then show thesis using credit by (intro send) (simp_all add: after_segment_def Let_def del: de_Morgan_conj)
    qed
  qed
  then show ?thesis
  proof cases
    case (status code)
    then show ?thesis using quiet(1) by (simp add: Response_setStatusCode_def Response_drop_wire_def) blast
  next
    case idle
    then show ?thesis using quiet(2) by (simp only: handle_updates simp_thms if_True option.inject) auto
  next
    case over
    then show ?thesis using quiet(3) by (simp only: handle_updates simp_thms if_True option.inject) auto
  next
    case send
    have "fetching 0 (advance s p) (pending_of h pid @ [\<lparr>pd_interest = segment_interest (Name_getPrefix (i_name i) (- 1))
        (hd (pi_nextSegmentQueue p)) (w_interestLifetime h), pd_kind = FetchSegment, pd_process = pid\<rparr>]) (F @ [pi_nextSegment p])"
      by (intro advance_fetching [OF assms(1,2) send(1) assms(3)]) simp
    moreover have "r_hasStartBlockId (pi_response (advance s p)) = r_hasStartBlockId ?r" by (simp add: advance_def Let_def)
    ultimately show ?thesis unfolding send(2) by (simp only: handle_updates simp_thms if_True option.inject) blast
  qed
qed

section \<open>A segment times out\<close>

text \<open>The face drops a pending Interest when it is answered or expires.\<close>

definition answered :: "pending \<Rightarrow> 'st write_handle \<Rightarrow> 'st write_handle" where
  "answered d h = h\<lparr>w_pending := remove1 d (w_pending h)\<rparr>"

lemma answered_simps [simp]:
  "w_processes (answered d h) = w_processes h" "w_retryTime (answered d h) = w_retryTime h" "w_credit (answered d h) = w_credit h"
  "nd_storage (answered d h) = nd_storage h" "w_scheduled (answered d h) = w_scheduled h"
  "pending_of (answered d h) q = (if q = pd_process d then remove1 d (pending_of h q) else pending_of h q)"
  by (auto simp: answered_def pending_of_def filter_remove1 intro: remove1_idem)

lemma same_elsewhere_answered [simp]: "same_elsewhere (pd_process d) h (answered d h)"
  by (simp add: same_elsewhere_def)

definition after_timeout :: "u64 \<Rightarrow> interest \<Rightarrow> u64 \<Rightarrow> process_info \<Rightarrow> 'st write_handle \<Rightarrow> 'st write_handle" where
  "after_timeout pid i s p h =
     (if the (pi_retryCounts p s) \<ge> w_retryTime h then deleteProcess pid h
      else expressInterest (Interest_setInterestLifetime (Interest_of_name (i_name i)) (w_interestLifetime h)) FetchSegment pid
             (set_process pid (p\<lparr>pi_retryCounts := (pi_retryCounts p)(s \<mapsto> the (pi_retryCounts p s) + 1)\<rparr>) h))"

lemma onSegmentTimeout_eq:
  assumes "w_processes h pid = Some p" and "segment_of i = Inr s" and "pi_retryCounts p s \<noteq> None"
  shows "onSegmentTimeout i pid h = (None, after_timeout pid i s p h)"
  using assms by (auto simp: onSegmentTimeout_def onSegmentTimeoutControl_def after_timeout_def segment_of_def)

lemma after_timeout_fetching:
  assumes "fetching 1 p ps F" and "s \<notin> set F" and "pi_retryCounts p s = Some k" and "0 \<le> k" and "k < 3" and "segment_of i = Inr s"
  shows "fetching 0 (p\<lparr>pi_retryCounts := (pi_retryCounts p)(s \<mapsto> k + 1)\<rparr>)
     (ps @ [\<lparr>pd_interest = i, pd_kind = FetchSegment, pd_process = pid\<rparr>]) (F @ [s])"
  using assms by (auto simp: fetching_def dom_def)

lemma segment_of_retry:
  "segment_of (Interest_setInterestLifetime (Interest_of_name (i_name i)) t) = segment_of i"
  by (rule segment_of_same_name) (simp add: Interest_setInterestLifetime_def Interest_drop_wire_def Interest_of_name_def)

lemma after_timeout_ok:
  assumes "fetching 1 p (pending_of h pid) F" and "s \<notin> set F" and "pi_retryCounts p s = Some k" and "0 \<le> k"
    and "segment_of i = Inr s" and "w_retryTime h = 3" and "w_processes (after_timeout pid i s p h) pid = Some p'"
  shows "(\<exists>F'. fetching 0 p' (pending_of (after_timeout pid i s p h) pid) F') \<and> pi_response p' = pi_response p"
proof (cases "k < 3")
  case True
  let ?i = "Interest_setInterestLifetime (Interest_of_name (i_name i)) (w_interestLifetime h)"
  have "fetching 0 (p\<lparr>pi_retryCounts := (pi_retryCounts p)(s \<mapsto> k + 1)\<rparr>)
      (pending_of h pid @ [\<lparr>pd_interest = ?i, pd_kind = FetchSegment, pd_process = pid\<rparr>]) (F @ [s])"
    by (rule after_timeout_fetching [OF assms(1-4) True]) (simp add: segment_of_retry assms(5))
  moreover have "after_timeout pid i s p h = expressInterest ?i FetchSegment pid (set_process pid (p\<lparr>pi_retryCounts := (pi_retryCounts p)(s \<mapsto> k + 1)\<rparr>) h)"
    using True assms(3,6) by (simp add: after_timeout_def)
  ultimately show ?thesis using assms(7) by auto
qed (use assms in \<open>simp add: after_timeout_def\<close>)

section \<open>A fetch begins\<close>

lemma segment_range_unat: "unat start + k \<le> 2 ^ 64 \<Longrightarrow> map unat (segment_range start k) = [unat start..<unat start + k]"
proof -
  assume le: "unat start + k \<le> 2 ^ 64"
  have "unat (start + word_of_nat j) = unat start + j" if "j < k" for j
    using that le by (simp add: unat_word_ariths unat_of_nat)
  then have "map unat (segment_range start k) = map (\<lambda>j. unat start + j) [0..<k]" by (simp add: segment_range_def)
  also have "\<dots> = [unat start..<unat start + k]" using map_add_upt [of "unat start" k] by (simp add: add.commute)
  finally show ?thesis .
qed

lemma segment_range_simps:
  assumes "unat start + k \<le> 2 ^ 64"
  shows "distinct (segment_range start k)" and "s \<in> set (segment_range start k) \<longleftrightarrow> unat start \<le> unat s \<and> unat s < unat start + k"
proof -
  have m: "map unat (segment_range start k) = [unat start..<unat start + k]" by (rule segment_range_unat [OF assms])
  then have "distinct (map unat (segment_range start k))" by simp
  then show "distinct (segment_range start k)" by (rule distinct_map [THEN iffD1, THEN conjunct1])
  have "unat s \<in> set (map unat (segment_range start k)) \<longleftrightarrow> s \<in> set (segment_range start k)" by (auto dest: word_unat_eq_iff [THEN iffD2])
  then show "s \<in> set (segment_range start k) \<longleftrightarrow> unat start \<le> unat s \<and> unat s < unat start + k" unfolding m by simp
qed

lemma length_segment_range [simp]: "length (segment_range start k) = k"
  by (simp add: segment_range_def)

lemma segInit_loop_run:
  "k = unat bound - unat seg \<Longrightarrow> w_processes h pid = Some p \<Longrightarrow>
     \<exists>h'. segInit_loop n pid bound seg h = (None, seg + word_of_nat k, h') \<and> same_elsewhere pid h h'
       \<and> w_processes h' pid = Some (p\<lparr>pi_credit := pi_credit p - int k,
            pi_retryCounts := pi_retryCounts p ++ (\<lambda>s. if s \<in> set (segment_range seg k) then Some 0 else None)\<rparr>)
       \<and> pending_of h' pid = pending_of h pid @
            map (\<lambda>s. \<lparr>pd_interest = segment_interest n s (w_interestLifetime h), pd_kind = FetchSegment, pd_process = pid\<rparr>) (segment_range seg k)
       \<and> nd_storage h' = nd_storage h \<and> w_scheduled h' = w_scheduled h \<and> nd_sent h' = nd_sent h"
proof (induction k arbitrary: seg h p)
  case 0
  then have "\<not> seg < bound" by (simp add: word_less_nat_alt)
  then show ?case using 0(2) by (subst segInit_loop.simps) (simp add: segment_range_def map_add_def)
next
  case (Suc k)
  then have lt: "seg < bound" by (simp add: word_less_nat_alt)
  then have "seg \<noteq> - 1" using word_order.extremum [of bound] by (metis not_le)
  then have k: "k = unat bound - unat (seg + 1)" using Suc.prems(1) by (simp add: unat_plus_one)
  let ?p = "p\<lparr>pi_credit := pi_credit p - 1, pi_retryCounts := (pi_retryCounts p)(seg \<mapsto> 0)\<rparr>"
  let ?h = "set_process pid ?p (expressInterest (segment_interest n seg (w_interestLifetime h)) FetchSegment pid h)"
  have step: "segInit_loop n pid bound seg h = segInit_loop n pid bound (seg + 1) ?h"
    using lt Suc.prems(2) by (subst segInit_loop.simps) (simp add: process_at_def Let_def)
  have "w_processes ?h pid = Some ?p" by simp
  from Suc.IH [OF k this] obtain h' where h': "segInit_loop n pid bound (seg + 1) ?h = (None, seg + 1 + word_of_nat k, h')"
    "same_elsewhere pid ?h h'" "w_processes h' pid = Some (?p\<lparr>pi_credit := pi_credit ?p - int k,
            pi_retryCounts := pi_retryCounts ?p ++ (\<lambda>s. if s \<in> set (segment_range (seg + 1) k) then Some 0 else None)\<rparr>)"
    "pending_of h' pid = pending_of ?h pid @
       map (\<lambda>s. \<lparr>pd_interest = segment_interest n s (w_interestLifetime ?h), pd_kind = FetchSegment, pd_process = pid\<rparr>) (segment_range (seg + 1) k)"
    "nd_storage h' = nd_storage ?h" "w_scheduled h' = w_scheduled ?h" "nd_sent h' = nd_sent ?h" by blast
  have "same_elsewhere pid h h'" using h'(2) by (rule same_elsewhere_trans [rotated]) simp
  moreover have "(pi_retryCounts p)(seg \<mapsto> 0) ++ (\<lambda>s. if s \<in> set (segment_range (seg + 1) k) then Some 0 else None)
      = pi_retryCounts p ++ (\<lambda>s. if s \<in> set (segment_range seg (Suc k)) then Some 0 else None)"
    by (auto simp: segment_range_Suc map_add_def fun_eq_iff)
  moreover have "nd_storage ?h = nd_storage h" "w_scheduled ?h = w_scheduled h" "nd_sent ?h = nd_sent h"
    by (simp_all add: set_process_def expressInterest_def)
  ultimately show ?case unfolding step using h' by (intro exI [of _ h']) (simp add: segment_range_Suc algebra_simps)
qed

text \<open>The number of Interests a new fetch expresses at once.\<close>

definition initial_burst :: "repo_parameter \<Rightarrow> nat" where
  "initial_burst p =
     (let c = (if p_hasEndBlockId p then min 12 (p_endBlockId p - p_startBlockId p + 1) else 12)
      in unat (p_startBlockId p + c) - unat (p_startBlockId p))"

lemma burst_bounds:
  fixes c start :: u64
  assumes "c \<le> 12"
  shows "unat (start + c) - unat start \<le> unat c" and "unat start + (unat (start + c) - unat start) < 2 ^ 64"
    and "sint (ucast c :: u32) = int (unat c)" and "unat c \<le> 12"
proof -
  show c: "unat c \<le> 12" using assms by (simp add: word_le_nat_alt)
  have "unat (start + c) = (unat start + unat c) mod 2 ^ 64" by (simp add: unat_word_ariths)
  then show "unat (start + c) - unat start \<le> unat c" using mod_less_eq_dividend [of "unat start + unat c" "2 ^ 64"] by linarith
  have "unat start < 2 ^ 64" "unat (start + c) < 2 ^ 64" using unsigned_less [where ?'a = nat, of start] unsigned_less [where ?'a = nat, of "start + c"] by simp_all
  then show "unat start + (unat (start + c) - unat start) < 2 ^ 64" by linarith
  have "int (unat c) \<le> 12" using c by linarith
  then have "uint c \<le> 12" "0 \<le> uint c" by simp_all
  moreover have "sint (word_of_int d :: u32) = d" if "0 \<le> d" "d \<le> 12" for d using that by (intro sint_small) simp_all
  ultimately have "sint (word_of_int (uint c) :: u32) = uint c" by blast
  then show "sint (ucast c :: u32) = int (unat c)" by (simp only: ucast_eq of_nat_unat)
qed

lemma segInit_run:
  assumes "w_processes h pid = Some p" and "pi_retryCounts p = Map.empty" and "pi_nextSegmentQueue p = []" and "pending_of h pid = []"
    and "w_credit h = 12"
  shows "\<exists>h' p'. segInit now pid parameter h = (None, h') \<and> same_elsewhere pid h h' \<and> w_processes h' pid = Some p'
     \<and> pi_response p' = pi_response p \<and> fetching 0 p' (pending_of h' pid) (segment_range (p_startBlockId parameter) (initial_burst parameter))
     \<and> pi_nextSegmentQueue p' = [pi_nextSegment p'] \<and> unat (pi_nextSegment p') = unat (p_startBlockId parameter) + initial_burst parameter
     \<and> (\<forall>s \<in> set (segment_range (p_startBlockId parameter) (initial_burst parameter)). pi_retryCounts p' s = Some 0)
     \<and> nd_storage h' = nd_storage h \<and> w_scheduled h' = w_scheduled h \<and> nd_sent h' = nd_sent h"
proof -
  let ?start = "p_startBlockId parameter" and ?k = "initial_burst parameter"
  define c :: u64 where "c = (if p_hasEndBlockId parameter then min 12 (p_endBlockId parameter - ?start + 1) else 12)"
  have c: "c \<le> 12" by (simp add: c_def)
  have k: "?k = unat (?start + c) - unat ?start" by (simp add: initial_burst_def c_def)
  note b = burst_bounds(1,2) [OF c, of ?start, folded k] burst_bounds(3,4) [OF c]
  define t where "t = (if p_hasEndBlockId parameter then pi_noEndTime p else now + w_noEndTimeout h)"
  let ?p1 = "p\<lparr>pi_credit := int (unat c), pi_noEndTime := t\<rparr>"
  let ?F = "segment_range ?start ?k"
  obtain h1 where h1: "segInit_loop (p_name parameter) pid (?start + c) ?start (set_process pid ?p1 h) = (None, ?start + word_of_nat ?k, h1)"
    "same_elsewhere pid (set_process pid ?p1 h) h1"
    "w_processes h1 pid = Some (?p1\<lparr>pi_credit := int (unat c) - int ?k, pi_retryCounts := (\<lambda>s. if s \<in> set ?F then Some 0 else None)\<rparr>)"
    "pending_of h1 pid = map (\<lambda>s. \<lparr>pd_interest = segment_interest (p_name parameter) s (w_interestLifetime h), pd_kind = FetchSegment, pd_process = pid\<rparr>) ?F"
    "nd_storage h1 = nd_storage (set_process pid ?p1 h)" "w_scheduled h1 = w_scheduled (set_process pid ?p1 h)" "nd_sent h1 = nd_sent (set_process pid ?p1 h)"
    using segInit_loop_run [of ?k "?start + c" ?start "set_process pid ?p1 h" pid ?p1 "p_name parameter"] k assms(2,4) by auto
  let ?p2 = "?p1\<lparr>pi_credit := int (unat c) - int ?k, pi_retryCounts := (\<lambda>s. if s \<in> set ?F then Some 0 else None),
     pi_nextSegment := ?start + word_of_nat ?k, pi_nextSegmentQueue := [?start + word_of_nat ?k]\<rparr>"
  have seg: "segInit now pid parameter h = (None, set_process pid ?p2 h1)"
  proof -
    have ini: "(if p_hasEndBlockId parameter then min (word_of_int (w_credit h)) (p_endBlockId parameter - ?start + 1) else word_of_int (w_credit h)) = c"
      by (simp add: c_def assms(5))
    have "process_at h pid = p" by (simp add: process_at_def assms(1))
    then show ?thesis unfolding segInit_def Let_def ini b(3) using h1(1,3) assms(3) by (simp only: t_def [symmetric]) (simp add: process_at_def)
  qed
  have nx: "unat (?start + word_of_nat ?k) = unat ?start + ?k" using b(2) by (simp add: unat_word_ariths unat_of_nat)
  have rng: "distinct ?F" "s \<in> set ?F \<longleftrightarrow> unat ?start \<le> unat s \<and> unat s < unat ?start + ?k" for s
    using segment_range_simps [of ?start ?k] b(2) by simp_all
  have u: "int ?k \<le> int (unat c)" "int (unat c) \<le> 12" using b(1,4) by linarith+
  have "fetching 0 ?p2 (pending_of h1 pid) ?F"
    using rng u nx h1(4) by (auto simp: fetching_def dom_def word_less_nat_alt split: if_splits)
  moreover have "same_elsewhere pid h (set_process pid ?p2 h1)"
    using same_elsewhere_trans [OF _ h1(2), of h] by simp
  moreover have "nd_storage (set_process pid ?p2 h1) = nd_storage h" "w_scheduled (set_process pid ?p2 h1) = w_scheduled h"
      "nd_sent (set_process pid ?p2 h1) = nd_sent h"
    using h1(5-7) by (simp_all add: set_process_def)
  ultimately show ?thesis using seg nx by (intro exI [of _ "set_process pid ?p2 h1"] exI [of _ ?p2]) simp
qed

lemma reply_frame:
  "\<exists>err b ds. BaseHandle_reply sign i r h = (err, r\<lparr>r_wire := b\<rparr>, h\<lparr>nd_sent := ds\<rparr>)"
proof (cases "Response_wireEncode r")
  case (Inl e)
  then have "BaseHandle_reply sign i r h = (Some e, r\<lparr>r_wire := r_wire r\<rparr>, h\<lparr>nd_sent := nd_sent h\<rparr>)" by (simp add: BaseHandle_reply_def)
  then show ?thesis by blast
next
  case (Inr x)
  obtain w r' where x: "x = (w, r')" by (cases x)
  have "r' = r\<lparr>r_wire := r_wire r'\<rparr>" using Inr x by (auto simp: Response_wireEncode_def split: if_splits sum.splits)
  then have r': "BaseHandle_reply sign i r h = (case Data_setContent (Data_of_name (i_name i)) w of
      Inl e \<Rightarrow> (Some e, r\<lparr>r_wire := r_wire r'\<rparr>, h\<lparr>nd_sent := nd_sent h\<rparr>)
    | Inr d \<Rightarrow> (None, r\<lparr>r_wire := r_wire r'\<rparr>, h\<lparr>nd_sent := nd_sent h @ [sign d]\<rparr>))"
    using Inr x by (simp add: BaseHandle_reply_def split: sum.splits)
  show ?thesis unfolding r' by (cases "Data_setContent (Data_of_name (i_name i)) w") (simp_all only: sum.case, blast+)
qed

definition fresh_process :: "'st write_handle \<Rightarrow> u64 \<Rightarrow> bool" where
  "fresh_process h pid \<longleftrightarrow> w_processes h pid = None \<and> pending_of h pid = []"

lemma start_segmented_run:
  assumes "fresh_process h pid" and "w_credit h = 12" and "r_hasStatusCode r" and "\<not> Block_hasWire (r_wire r)"
  shows "\<exists>b d h' p'. start_segmented sign now pid i parameter r h = (None, h') \<and> answers i r d \<and> nd_sent h' = nd_sent h @ [sign d]
     \<and> same_elsewhere pid h h' \<and> w_processes h' pid = Some p'
     \<and> pi_response p' = Response_setStatusCode 300 (r\<lparr>r_wire := b\<rparr>)
     \<and> fetching 0 p' (pending_of h' pid) (segment_range (p_startBlockId parameter) (initial_burst parameter))
     \<and> pi_nextSegmentQueue p' = [pi_nextSegment p'] \<and> unat (pi_nextSegment p') = unat (p_startBlockId parameter) + initial_burst parameter
     \<and> (\<forall>s \<in> set (segment_range (p_startBlockId parameter) (initial_burst parameter)). pi_retryCounts p' s = Some 0)
     \<and> nd_storage h' = nd_storage h \<and> w_scheduled h' = w_scheduled h"
proof -
  let ?p0 = "ProcessInfo_default\<lparr>pi_response := r\<rparr>"
  obtain b d where r: "BaseHandle_reply sign i r (set_process pid ?p0 h) =
      (None, r\<lparr>r_wire := b\<rparr>, (set_process pid ?p0 h)\<lparr>nd_sent := nd_sent (set_process pid ?p0 h) @ [sign d]\<rparr>)" "answers i r d"
    using reply_ok [OF assms(3,4)] by blast
  let ?p1 = "ProcessInfo_default\<lparr>pi_response := Response_setStatusCode 300 (r\<lparr>r_wire := b\<rparr>)\<rparr>"
  define h1 where "h1 = set_process pid ?p1 ((set_process pid ?p0 h)\<lparr>nd_sent := nd_sent h @ [sign d]\<rparr>)"
  have sent: "nd_sent (set_process pid p g) = nd_sent g" "nd_storage (set_process pid p g) = nd_storage g"
    "w_scheduled (set_process pid p g) = w_scheduled g" for p and g :: "'a write_handle" by (simp_all add: set_process_def)
  have h1: "w_processes h1 pid = Some ?p1" "pending_of h1 pid = []" "w_credit h1 = 12" "same_elsewhere pid h h1" "nd_sent h1 = nd_sent h @ [sign d]"
    "nd_storage h1 = nd_storage h" "w_scheduled h1 = w_scheduled h"
    using assms(1,2) by (simp_all add: h1_def fresh_process_def sent)
  have "start_segmented sign now pid i parameter r h = segInit now pid parameter h1"
    using assms(1) r(1) by (simp add: start_segmented_def process_at_def fresh_process_def Let_def h1_def sent)
  moreover obtain h' p' where "segInit now pid parameter h1 = (None, h')" "same_elsewhere pid h1 h'" "w_processes h' pid = Some p'"
     "pi_response p' = pi_response ?p1" "fetching 0 p' (pending_of h' pid) (segment_range (p_startBlockId parameter) (initial_burst parameter))"
     "pi_nextSegmentQueue p' = [pi_nextSegment p']" "unat (pi_nextSegment p') = unat (p_startBlockId parameter) + initial_burst parameter"
     "\<forall>s \<in> set (segment_range (p_startBlockId parameter) (initial_burst parameter)). pi_retryCounts p' s = Some 0"
     "nd_storage h' = nd_storage h1" "w_scheduled h' = w_scheduled h1" "nd_sent h' = nd_sent h1"
    using segInit_run [OF h1(1) _ _ h1(2,3), of now parameter] by (elim exE conjE meta_impE) (simp_all add: ProcessInfo_default_def)
  ultimately show ?thesis using r(2) h1 same_elsewhere_trans [OF h1(4)] by (intro exI [of _ b] exI [of _ d] exI [of _ h'] exI [of _ p']) simp
qed

section \<open>Runs of the handler\<close>

text \<open>
  What can happen to the handler: commands and checks arrive, accepted by the validator or not; a pending
  Interest is answered by Data that validates or not, or expires (a Nack is handled as a timeout); a
  scheduled deletion fires. Generated process ids are not in use, and no fetch has asked for the last
  64-bit segment number.
\<close>

definition has_room :: "'st write_handle \<Rightarrow> u64 \<Rightarrow> bool" where
  "has_room h pid \<longleftrightarrow> (case w_processes h pid of None \<Rightarrow> True | Some p \<Rightarrow> pi_nextSegment p \<noteq> - 1)"

inductive write_step :: "(data \<Rightarrow> data) \<Rightarrow> 'st storage_ops \<Rightarrow> 'st write_handle \<Rightarrow> 'st write_handle \<Rightarrow> bool" for sign ops where
  command: "fresh_process h pid \<Longrightarrow> WriteHandle_onValidated sign now pid i prefix h = (err, h') \<Longrightarrow> write_step sign ops h h'"
| rejected: "WriteHandle_onValidationFailed sign i h = (err, h') \<Longrightarrow> write_step sign ops h h'"
| check: "onCheckValidated sign now i prefix h = (err, h') \<Longrightarrow> write_step sign ops h h'"
| single_data: "d \<in> set (w_pending h) \<Longrightarrow> pd_kind d = FetchSingle \<Longrightarrow>
     onDataValidated ops content (pd_process d) (answered d h) = (err, h') \<Longrightarrow> write_step sign ops h h'"
| single_timeout: "d \<in> set (w_pending h) \<Longrightarrow> pd_kind d = FetchSingle \<Longrightarrow>
     onTimeout (pd_process d) (answered d h) = (err, h') \<Longrightarrow> write_step sign ops h h'"
| segment_data: "d \<in> set (w_pending h) \<Longrightarrow> pd_kind d = FetchSegment \<Longrightarrow> has_room h (pd_process d) \<Longrightarrow>
     onSegmentDataValidated ops now (pd_interest d) content (pd_process d) (answered d h) = (err, h') \<Longrightarrow> write_step sign ops h h'"
| segment_timeout: "d \<in> set (w_pending h) \<Longrightarrow> pd_kind d = FetchSegment \<Longrightarrow>
     onSegmentTimeout (pd_interest d) (pd_process d) (answered d h) = (err, h') \<Longrightarrow> write_step sign ops h h'"
| invalid_data: "d \<in> set (w_pending h) \<Longrightarrow> write_step sign ops h (answered d h)"
| deletion: "(t, pid) \<in> set (w_scheduled h) \<Longrightarrow>
     write_step sign ops h (deleteProcess pid (h\<lparr>w_scheduled := remove1 (t, pid) (w_scheduled h)\<rparr>))"

inductive write_reachable :: "(data \<Rightarrow> data) \<Rightarrow> 'st storage_ops \<Rightarrow> 'st write_handle \<Rightarrow> bool" for sign ops where
  new: "write_reachable sign ops (WriteHandle_new s)"
| step: "write_reachable sign ops h \<Longrightarrow> write_step sign ops h h' \<Longrightarrow> write_reachable sign ops h'"

text \<open>Every call below keeps the other processes; what remains is the process it is about.\<close>

lemma pending_of_in: "d \<in> set (w_pending h) \<longleftrightarrow> d \<in> set (pending_of h (pd_process d))"
  by (simp add: pending_of_def)

lemma negativeReply_frame: "\<exists>err ds. negativeReply sign i code h = (err, h\<lparr>nd_sent := ds\<rparr>)"
proof -
  obtain err b ds where "BaseHandle_reply sign i (Response_setStatusCode code Response_default) h
      = (err, (Response_setStatusCode code Response_default)\<lparr>r_wire := b\<rparr>, h\<lparr>nd_sent := ds\<rparr>)" using reply_frame by blast
  then show ?thesis by (simp add: negativeReply_def) blast
qed

lemma handle_ok_sent [simp]: "handle_ok (h\<lparr>nd_sent := ds\<rparr>) = handle_ok h" "handle_ok (h\<lparr>w_interestLifetime := t\<rparr>) = handle_ok h"
  by (simp_all add: handle_ok_def process_ok_def)

lemma negativeReply_handle_ok: "handle_ok h \<Longrightarrow> negativeReply sign i code h = (err, h') \<Longrightarrow> handle_ok h'"
  using negativeReply_frame [of sign i code h] by auto

lemma single_command_ok:
  assumes "handle_ok h" and "fresh_process h pid" and "processSingleInsertCommand sign pid i parameter h = (err, h')"
  shows "handle_ok h'"
proof -
  let ?r = "Response_setInsertNum 0 (Response_setProcessId pid (Response_setStatusCode 100 Response_default))"
  let ?h = "set_process pid (ProcessInfo_default\<lparr>pi_response := ?r\<rparr>) h"
  obtain e b ds where r: "BaseHandle_reply sign i ?r ?h = (e, ?r\<lparr>r_wire := b\<rparr>, ?h\<lparr>nd_sent := ds\<rparr>)" using reply_frame by blast
  have pa: "process_at h pid = ProcessInfo_default" "pi_response ProcessInfo_default = Response_default"
    using assms(2) by (simp_all add: process_at_def fresh_process_def ProcessInfo_default_def)
  have f: "\<not> r_hasStartBlockId ?r" "pending_of h pid = []" using assms(2) by (simp_all add: response_setters fresh_process_def)
  have "same_elsewhere pid h h' \<and> process_ok h' pid"
    using assms(3) r f pa
    by (cases e) (auto simp: processSingleInsertCommand_def Let_def process_ok_def Response_setStatusCode_def Response_drop_wire_def)
  then show ?thesis using handle_ok_elsewhere assms(1) by blast
qed

lemma segmented_command_ok:
  assumes "handle_ok h" and "fresh_process h pid" and "processSegmentedInsertCommand sign now pid i parameter h = (err, h')"
  shows "handle_ok h'"
proof -
  have pa: "pi_response (process_at h pid) = Response_default"
    using assms(2) by (simp add: process_at_def fresh_process_def ProcessInfo_default_def)
  have start: "handle_ok h'" if "start_segmented sign now pid i q r h = (err, h')" "r_hasStatusCode r" "\<not> Block_hasWire (r_wire r)" "r_hasStartBlockId r" for q r
  proof -
    from start_segmented_run [OF assms(2) _ that(2,3), of sign now i q] assms(1) that(1) obtain b p' where
      "same_elsewhere pid h h'" "w_processes h' pid = Some p'" "pi_response p' = Response_setStatusCode 300 (r\<lparr>r_wire := b\<rparr>)"
      "fetching 0 p' (pending_of h' pid) (segment_range (p_startBlockId q) (initial_burst q))" by (auto simp: handle_ok_def)
    then have "process_ok h' pid" using that(4) by (auto simp: process_ok_def Response_setStatusCode_def Response_drop_wire_def)
    then show ?thesis using handle_ok_elsewhere assms(1) \<open>same_elsewhere pid h h'\<close> by blast
  qed
  show ?thesis
  proof (cases "p_hasEndBlockId parameter \<and> (let q = (if p_hasStartBlockId parameter then parameter else Parameter_setStartBlockId parameter 0)
      in p_startBlockId q > p_endBlockId q)")
    case True
    then have "negativeReply sign i 403 h = (err, h')" using assms(3) by (simp add: processSegmentedInsertCommand_def Let_def)
    then show ?thesis by (rule negativeReply_handle_ok [OF assms(1)])
  next
    case False
    then show ?thesis using assms(3) unfolding processSegmentedInsertCommand_def pa Let_def
      by (cases "p_hasEndBlockId parameter") (simp_all only: simp_thms if_True if_False, (erule start, simp_all add: response_setters)+)
  qed
qed

lemma command_ok:
  assumes "handle_ok h" and "fresh_process h pid" and "WriteHandle_onValidated sign now pid i prefix h = (err, h')"
  shows "handle_ok h'"
proof -
  obtain e q where x: "extractParameter i prefix Parameter_default = (e, q)" by (cases "extractParameter i prefix Parameter_default")
  show ?thesis
  proof (cases e)
    case (Some a)
    then show ?thesis using assms(1,3) x negativeReply_handle_ok [OF assms(1)]
      by (auto simp: WriteHandle_onValidated_def split: if_splits)
  next
    case None
    obtain e1 h1 where r: "(if p_hasStartBlockId q \<or> p_hasEndBlockId q then processSegmentedInsertCommand sign now pid i q h
        else processSingleInsertCommand sign pid i q h) = (e1, h1)" by fastforce
    then have "handle_ok h1" using segmented_command_ok [OF assms(1,2)] single_command_ok [OF assms(1,2)] by (auto split: if_splits)
    then show ?thesis using assms(3) x None r negativeReply_handle_ok [OF assms(1)]
      by (cases e1) (auto simp: WriteHandle_onValidated_def split: if_splits)
  qed
qed

lemma process_ok_same_fields:
  assumes "process_ok h pid" and "w_processes h pid = Some p" and "w_processes h' pid = Some p'" and "pending_of h' pid = pending_of h pid"
    and "r_hasStartBlockId (pi_response p') = r_hasStartBlockId (pi_response p)" and "pi_nextSegmentQueue p' = pi_nextSegmentQueue p"
    and "pi_nextSegment p' = pi_nextSegment p" and "pi_retryCounts p' = pi_retryCounts p" and "pi_credit p' = pi_credit p"
  shows "process_ok h' pid"
proof -
  have "fetching 0 p' = fetching 0 p" using assms(6-9) by (intro ext) (simp add: fetching_def)
  then show ?thesis using assms(1-5) by (simp add: process_ok_def)
qed

lemma check_ok:
  assumes "handle_ok h" and "onCheckValidated sign now i prefix h = (err, h')"
  shows "handle_ok h'"
proof -
  obtain e q where x: "extractParameter i prefix Parameter_default = (e, q)" by (cases "extractParameter i prefix Parameter_default")
  note neg = negativeReply_handle_ok [OF assms(1)]
  show ?thesis
  proof (cases "e = None \<and> p_hasProcessId q \<and> w_processes h (p_processId q) \<noteq> None")
    case False
    then show ?thesis using assms x neg by (auto simp: onCheckValidated_def split: if_splits option.splits)
  next
    case True
    let ?pid = "p_processId q"
    from True obtain p0 where p0: "w_processes h ?pid = Some p0" by blast
    define p where "p = (if (r_hasStartBlockId (pi_response p0) \<or> r_hasEndBlockId (pi_response p0)) \<and> \<not> r_hasEndBlockId (pi_response p0)
        then extendNoEndTime now (w_noEndTimeout h) p0 else p0)"
    have p: "r_hasStartBlockId (pi_response p) = r_hasStartBlockId (pi_response p0)" "pi_nextSegmentQueue p = pi_nextSegmentQueue p0"
      "pi_nextSegment p = pi_nextSegment p0" "pi_retryCounts p = pi_retryCounts p0" "pi_credit p = pi_credit p0"
      by (simp_all add: p_def extendNoEndTime_def Response_setStatusCode_def Response_drop_wire_def)
    obtain e2 b ds where r: "BaseHandle_reply sign i (pi_response p) h = (e2, (pi_response p)\<lparr>r_wire := b\<rparr>, h\<lparr>nd_sent := ds\<rparr>)"
      using reply_frame by blast
    have h': "h' = set_process ?pid (p\<lparr>pi_response := (pi_response p)\<lparr>r_wire := b\<rparr>\<rparr>) (h\<lparr>nd_sent := ds\<rparr>)"
      using assms(2) x True p0 r by (auto simp: onCheckValidated_def Let_def p_def [symmetric])
    have "process_ok h' ?pid"
      by (rule process_ok_same_fields [of h ?pid p0 _ "p\<lparr>pi_response := (pi_response p)\<lparr>r_wire := b\<rparr>\<rparr>"]) (use assms(1) p0 p in \<open>simp_all add: h' handle_ok_def\<close>)
    then show ?thesis using handle_ok_elsewhere [OF assms(1), of ?pid h'] by (simp add: h')
  qed
qed

lemma answered_elsewhere:
  assumes "handle_ok h" and "same_elsewhere (pd_process d) (answered d h) h'" and "process_ok h' (pd_process d)"
  shows "handle_ok h'"
  using handle_ok_elsewhere [OF assms(1) same_elsewhere_trans [OF same_elsewhere_answered assms(2)] assms(3)] .

lemma fetching_weaken: "fetching 1 p ps F \<Longrightarrow> fetching 0 p ps F"
  by (simp add: fetching_def)

lemma pending_cases:
  assumes "handle_ok h" and "d \<in> set (w_pending h)" and "w_processes h (pd_process d) = Some p"
  shows "pd_kind d = FetchSingle \<Longrightarrow> \<not> r_hasStartBlockId (pi_response p) \<and> (\<forall>e \<in> set (pending_of h (pd_process d)). pd_kind e = FetchSingle)"
    and "pd_kind d = FetchSegment \<Longrightarrow> r_hasStartBlockId (pi_response p) \<and>
      (\<exists>F s k. fetching 0 p (pending_of h (pd_process d)) F \<and> segment_of (pd_interest d) = Inr s \<and> s \<in> set F
        \<and> fetching 1 p (remove1 d (pending_of h (pd_process d))) (remove1 s F) \<and> pi_retryCounts p s = Some k \<and> 0 \<le> k \<and> k \<le> 3)"
proof -
  have ok: "if r_hasStartBlockId (pi_response p) then \<exists>F. fetching 0 p (pending_of h (pd_process d)) F
      else \<forall>e \<in> set (pending_of h (pd_process d)). pd_kind e = FetchSingle" using assms(1,3) by (auto simp: handle_ok_def process_ok_def)
  have d: "d \<in> set (pending_of h (pd_process d))" using assms(2) by (simp add: pending_of_in [symmetric])
  show "\<not> r_hasStartBlockId (pi_response p) \<and> (\<forall>e \<in> set (pending_of h (pd_process d)). pd_kind e = FetchSingle)" if "pd_kind d = FetchSingle"
    using ok d that by (auto simp: fetching_def split: if_splits)
  assume k: "pd_kind d = FetchSegment"
  then have st: "r_hasStartBlockId (pi_response p)" using ok d by (auto split: if_splits)
  then obtain F where F: "fetching 0 p (pending_of h (pd_process d)) F" using ok by auto
  obtain s where s: "segment_of (pd_interest d) = Inr s" "s \<in> set F" "fetching 1 p (remove1 d (pending_of h (pd_process d))) (remove1 s F)"
    using fetching_remove [OF F d] by blast
  obtain k where "pi_retryCounts p s = Some k" "0 \<le> k" "k \<le> 3" using F s(2) unfolding fetching_def by blast
  with st F s show "r_hasStartBlockId (pi_response p) \<and>
      (\<exists>F s k. fetching 0 p (pending_of h (pd_process d)) F \<and> segment_of (pd_interest d) = Inr s \<and> s \<in> set F
        \<and> fetching 1 p (remove1 d (pending_of h (pd_process d))) (remove1 s F) \<and> pi_retryCounts p s = Some k \<and> 0 \<le> k \<and> k \<le> 3)" by blast
qed

lemma answered_ok:
  assumes "handle_ok h" and "d \<in> set (w_pending h)"
  shows "handle_ok (answered d h)"
proof (rule answered_elsewhere [OF assms(1)])
  show "process_ok (answered d h) (pd_process d)"
  proof (cases "w_processes h (pd_process d)")
    case (Some p)
    show ?thesis
    proof (cases "pd_kind d")
      case FetchSingle
      with pending_cases(1) [OF assms Some] Some show ?thesis by (auto simp: process_ok_def dest: set_remove1_subset [THEN subsetD])
    next
      case FetchSegment
      with pending_cases(2) [OF assms Some] Some fetching_weaken show ?thesis by (fastforce simp: process_ok_def)
    qed
  qed (simp add: process_ok_def)
qed simp

lemma single_data_ok:
  assumes "handle_ok h" and "d \<in> set (w_pending h)" and "pd_kind d = FetchSingle"
    and "onDataValidated ops content (pd_process d) (answered d h) = (err, h')"
  shows "handle_ok h'"
proof (cases "w_processes h (pd_process d)")
  case None
  then show ?thesis using assms(4) answered_ok [OF assms(1,2)] by (simp add: onDataValidated_def)
next
  case (Some p)
  have k: "\<not> r_hasStartBlockId (pi_response p)" "\<forall>e \<in> set (pending_of h (pd_process d)). pd_kind e = FetchSingle"
    using pending_cases(1) [OF assms(1,2) Some assms(3)] by auto
  then have k': "\<forall>e \<in> set (remove1 d (pending_of h (pd_process d))). pd_kind e = FetchSingle" by (auto dest: set_remove1_subset [THEN subsetD])
  show ?thesis
  proof (rule answered_elsewhere [OF assms(1), of d])
    show "same_elsewhere (pd_process d) (answered d h) h'" using assms(4) Some
      by (auto simp: onDataValidated_def split: if_splits prod.splits sum.splits)
    show "process_ok h' (pd_process d)" using assms(4) Some k k'
      by (auto simp: onDataValidated_def process_ok_def Response_setInsertNum_def Response_drop_wire_def split: if_splits prod.splits sum.splits)
  qed
qed

lemma refresh_keeps: "refresh_endBlockId d r = Inr r' \<Longrightarrow> r_hasStartBlockId r' = r_hasStartBlockId r"
  by (auto simp: refresh_endBlockId_def Let_def Response_setEndBlockId_def Response_drop_wire_def split: if_splits sum.splits)

lemma fetching_response [simp]: "fetching m (p\<lparr>pi_response := r\<rparr>) = fetching m p"
  by (intro ext) (simp add: fetching_def)

lemma after_segment_elsewhere [simp]: "same_elsewhere pid g (after_segment now pid i s p h) \<longleftrightarrow> same_elsewhere pid g h"
  by (simp add: after_segment_def Let_def)

text \<open>The arrival of a segment that validates: the outcome, and the process after it.\<close>

lemma segment_data_run:
  assumes "handle_ok h" and "d \<in> set (w_pending h)" and "pd_kind d = FetchSegment" and "w_processes h (pd_process d) = Some p"
    and "refresh_endBlockId content (pi_response p) = Inr r" and "insertData ops content (nd_storage h) = (Inr inserted, st)"
  shows "\<exists>F s. fetching 0 p (pending_of h (pd_process d)) F \<and> s \<in> set F \<and> segment_of (pd_interest d) = Inr s
    \<and> fetching 1 p (remove1 d (pending_of h (pd_process d))) (remove1 s F)
    \<and> onSegmentDataValidated ops now (pd_interest d) content (pd_process d) (answered d h) =
      (let p1 = p\<lparr>pi_response := (if inserted then Response_setInsertNum (r_insertNum r + 1) r else r)\<rparr>
       in (None, after_segment now (pd_process d) (pd_interest d) s p1 (set_process (pd_process d) p1 ((answered d h)\<lparr>nd_storage := st\<rparr>))))"
proof -
  obtain F s k where F: "fetching 0 p (pending_of h (pd_process d)) F" "segment_of (pd_interest d) = Inr s" "s \<in> set F"
    "fetching 1 p (remove1 d (pending_of h (pd_process d))) (remove1 s F)" "pi_retryCounts p s = Some k"
    using pending_cases(2) [OF assms(1,2,4,3)] by blast
  let ?p1 = "p\<lparr>pi_response := (if inserted then Response_setInsertNum (r_insertNum r + 1) r else r)\<rparr>"
  have "onSegmentDataValidated ops now (pd_interest d) content (pd_process d) (answered d h)
      = onSegmentDataControl now (pd_process d) (pd_interest d) (set_process (pd_process d) ?p1 ((answered d h)\<lparr>nd_storage := st\<rparr>))"
    using assms(4-6) by (simp add: onSegmentDataValidated_def Let_def)
  moreover have "w_processes (set_process (pd_process d) ?p1 ((answered d h)\<lparr>nd_storage := st\<rparr>)) (pd_process d) = Some ?p1" by simp
  note onSegmentDataControl_eq [OF this F(2)]
  ultimately show ?thesis using F by (intro exI [of _ F] exI [of _ s]) (simp add: Let_def)
qed

lemma segment_data_ok:
  assumes "handle_ok h" and "d \<in> set (w_pending h)" and "pd_kind d = FetchSegment" and "has_room h (pd_process d)"
    and "onSegmentDataValidated ops now (pd_interest d) content (pd_process d) (answered d h) = (err, h')"
  shows "handle_ok h'"
proof (cases "w_processes h (pd_process d)")
  case None
  then show ?thesis using assms(5) answered_ok [OF assms(1,2)] by (simp add: onSegmentDataValidated_def)
next
  case (Some p)
  show ?thesis
  proof (cases "refresh_endBlockId content (pi_response p)")
    case (Inl e)
    then show ?thesis using assms(5) Some answered_ok [OF assms(1,2)] by (simp add: onSegmentDataValidated_def)
  next
    case (Inr r)
    note start = pending_cases(2) [OF assms(1,2) Some assms(3)] and keep = refresh_keeps [OF Inr]
    obtain x st where ins: "insertData ops content (nd_storage h) = (x, st)" by fastforce
    show ?thesis
    proof (cases x)
      case (Inl e)
      then have h': "h' = set_process (pd_process d) (p\<lparr>pi_response := r\<rparr>) ((answered d h)\<lparr>nd_storage := st\<rparr>)"
        using assms(5) Some Inr ins by (simp add: onSegmentDataValidated_def)
      have "process_ok h' (pd_process d)" using start keep fetching_weaken by (simp add: h' process_ok_def) blast
      then show ?thesis using answered_elsewhere [OF assms(1), of d h'] by (simp add: h')
    next
      case (Inr inserted)
      let ?p1 = "p\<lparr>pi_response := (if inserted then Response_setInsertNum (r_insertNum r + 1) r else r)\<rparr>"
      let ?h1 = "set_process (pd_process d) ?p1 ((answered d h)\<lparr>nd_storage := st\<rparr>)"
      from segment_data_run [OF assms(1-3) Some \<open>refresh_endBlockId content (pi_response p) = Inr r\<close> ins [unfolded Inr], of now] assms(5)
      obtain F s where F: "s \<in> set F" "fetching 0 p (pending_of h (pd_process d)) F"
        "fetching 1 p (remove1 d (pending_of h (pd_process d))) (remove1 s F)" "h' = after_segment now (pd_process d) (pd_interest d) s ?p1 ?h1"
        by (auto simp: Let_def)
      have "fetching 1 ?p1 (pending_of ?h1 (pd_process d)) (remove1 s F)" "s \<notin> set (remove1 s F)" "pi_nextSegment ?p1 \<noteq> - 1"
        using F(3) fetching_remove_fresh [OF F(2)] assms(4) Some by (simp_all add: has_room_def)
      from after_segment_ok [OF this, of now "pd_interest d"] start keep have "process_ok h' (pd_process d)"
        by (auto simp: process_ok_def F(4) Response_setInsertNum_def Response_drop_wire_def)
      then show ?thesis using answered_elsewhere [OF assms(1), of d h'] by (simp add: F(4))
    qed
  qed
qed

lemma after_timeout_elsewhere [simp]: "same_elsewhere pid g (after_timeout pid i s p h) \<longleftrightarrow> same_elsewhere pid g h"
  by (simp add: after_timeout_def)

lemma segment_timeout_ok:
  assumes "handle_ok h" and "d \<in> set (w_pending h)" and "pd_kind d = FetchSegment"
    and "onSegmentTimeout (pd_interest d) (pd_process d) (answered d h) = (err, h')"
  shows "handle_ok h'"
proof (cases "w_processes h (pd_process d)")
  case None
  then show ?thesis using assms(4) answered_ok [OF assms(1,2)] by (simp add: onSegmentTimeout_def onSegmentTimeoutControl_def)
next
  case (Some p)
  obtain F s k where F: "fetching 0 p (pending_of h (pd_process d)) F" "segment_of (pd_interest d) = Inr s" "s \<in> set F"
    "fetching 1 p (remove1 d (pending_of h (pd_process d))) (remove1 s F)" "pi_retryCounts p s = Some k" "0 \<le> k" "r_hasStartBlockId (pi_response p)"
    using pending_cases(2) [OF assms(1,2) Some assms(3)] by blast
  have h': "h' = after_timeout (pd_process d) (pd_interest d) s p (answered d h)"
    using onSegmentTimeout_eq [of "answered d h" "pd_process d" p "pd_interest d" s] Some F(2,5) assms(4) by simp
  have "fetching 1 p (pending_of (answered d h) (pd_process d)) (remove1 s F)" "w_retryTime (answered d h) = 3"
    using F(4) assms(1) by (simp_all add: handle_ok_def)
  note run = after_timeout_ok [OF this(1) fetching_remove_fresh [OF F(1)] F(5,6,2) this(2), folded h']
  have "process_ok h' (pd_process d)" unfolding process_ok_def
  proof (intro allI impI)
    fix p' assume "w_processes h' (pd_process d) = Some p'"
    from run [OF this] F(7) show "if r_hasStartBlockId (pi_response p') then \<exists>F. fetching 0 p' (pending_of h' (pd_process d)) F
        else \<forall>d \<in> set (pending_of h' (pd_process d)). pd_kind d = FetchSingle" by simp
  qed
  then show ?thesis using answered_elsewhere [OF assms(1), of d h'] by (simp add: h')
qed

lemma single_timeout_ok:
  assumes "handle_ok h" and "onTimeout (pd_process d) (answered d h) = (err, h')"
  shows "handle_ok h'"
proof -
  have h': "h' = deleteProcess (pd_process d) (answered d h)" using assms(2) by (simp add: onTimeout_def)
  show ?thesis by (rule answered_elsewhere [OF assms(1), of d]) (simp_all add: h' process_ok_def)
qed

lemma deletion_ok:
  assumes "handle_ok h"
  shows "handle_ok (deleteProcess pid (h\<lparr>w_scheduled := xs\<rparr>))"
proof (rule handle_ok_elsewhere [OF assms, of pid])
  show "same_elsewhere pid h (deleteProcess pid (h\<lparr>w_scheduled := xs\<rparr>))" by (simp add: same_elsewhere_def pending_of_def)
qed (simp add: process_ok_def)

lemma write_step_ok: "write_step sign ops h h' \<Longrightarrow> handle_ok h \<Longrightarrow> handle_ok h'"
proof (induction rule: write_step.induct)
  case (command h pid now i prefix err h')
  then show ?case by (rule command_ok [rotated])
next
  case (rejected i h err h')
  then show ?case by (simp add: WriteHandle_onValidationFailed_def negativeReply_handle_ok)
next
  case (check now i prefix h err h')
  then show ?case by (rule check_ok [rotated])
next
  case (single_data d h content err h')
  then show ?case by (rule single_data_ok [rotated])
next
  case (single_timeout d h err h')
  then show ?case by (elim single_timeout_ok)
next
  case (segment_data d h now content err h')
  then show ?case by (rule segment_data_ok [rotated])
next
  case (segment_timeout d h err h')
  then show ?case by (rule segment_timeout_ok [rotated])
next
  case (invalid_data d h)
  then show ?case by (rule answered_ok [rotated])
next
  case (deletion t pid h)
  then show ?case by (elim deletion_ok)
qed

lemma write_reachable_ok: "write_reachable sign ops h \<Longrightarrow> handle_ok h"
proof (induction rule: write_reachable.induct)
  case (new s)
  then show ?case by (simp add: handle_ok_def process_ok_def WriteHandle_new_def RETRY_TIMEOUT_def DEFAULT_CREDIT_def)
next
  case (step h h')
  then show ?case using write_step_ok by blast
qed

end
