(* ===== verification/WriteLiveness.thy ===== *)
theory WriteLiveness
  imports WriteHandle
begin

text \<open>
  What the segmented fetch of the insert handler guarantees: assertions that cannot fail and bounded
  in-flight Interests in every reachable state, and progress to an end within a bounded number of
  answers and timeouts. The argument for progress is a potential that every answer and every timeout
  lowers.
\<close>

section \<open>Commands on the wire\<close>

text \<open>The name of a command Interest: the prefix and one component with the encoded parameters.\<close>

definition command_name :: "name \<Rightarrow> repo_parameter \<Rightarrow> name" where
  "command_name prefix p = Name_append prefix (Component_of_buffer (tlv_wire tlv_RepoCommandParameter (tlvs_wire (param_tlvs p))))"

lemma extractParameter_command:
  assumes "param_ok p" and "i_name i = command_name prefix p"
  shows "\<exists>q. extractParameter i prefix p0 = (None, q) \<and> param_same p q"
proof -
  let ?v = "tlvs_wire (param_tlvs p)" and ?c = "Component_of_buffer (tlv_wire tlv_RepoCommandParameter (tlvs_wire (param_tlvs p)))"
  have get: "Name_get (i_name i) (int (Name_size prefix)) = Inr ?c"
    by (simp add: assms(2) command_name_def Name_get_def Name_size_def Let_def nth_append)
  have "fresh_block ?c" by (simp add: fresh_block_def Component_of_buffer_def Block_of_type_value_wf) (simp add: Block_of_type_value_def)
  moreover have "value_bytes ?c = tlv_wire tlv_RepoCommandParameter ?v" by simp
  moreover have "fits ?v" using assms(1) by (simp add: param_ok_def)
  ultimately obtain b where b: "Block_blockFromValue ?c = Inr b" "block_tlv b = (tlv_RepoCommandParameter, ?v)" "fresh_block b"
    using Block_blockFromValue_fresh by blast
  then show ?thesis using Parameter_wireDecode_fresh [OF b(3,2) assms(1)] get by (simp add: extractParameter_def)
qed

section \<open>The potential of a fetch\<close>

text \<open>
  \<open>remaining\<close> counts the segments not asked for yet, and \<open>potential\<close> the events a fetch can still see:
  each segment not yet received may time out three times before its answer or its last timeout.
\<close>

definition remaining :: "process_info \<Rightarrow> nat" where
  "remaining p = (if pi_nextSegmentQueue p = [] then 0 else unat (r_endBlockId (pi_response p)) + 1 - unat (pi_nextSegment p))"

definition potential :: "process_info \<Rightarrow> u64 list \<Rightarrow> nat" where
  "potential p F = 4 * remaining p + sum_list (map (\<lambda>s. nat (4 - the (pi_retryCounts p s))) F)"

definition fetch_live :: "nat \<Rightarrow> process_info \<Rightarrow> u64 list \<Rightarrow> bool" where
  "fetch_live N p F \<longleftrightarrow> (let r = pi_response p in
     r_hasEndBlockId r \<and> r_endBlockId r \<noteq> - 1 \<and> r_startBlockId r \<le> r_endBlockId r
     \<and> N = unat (r_endBlockId r) + 1 - unat (r_startBlockId r)
     \<and> unat (r_insertNum r) + length F + remaining p = N \<and> (remaining p > 0 \<longrightarrow> F \<noteq> []))"

lemma range_size:
  assumes "e \<noteq> - 1" and "s \<le> (e :: u64)"
  shows "unat (e - s + 1) = unat e + 1 - unat s"
proof -
  have e: "unat (e + 1) = unat e + 1" by (rule unat_plus_one [OF assms(1)])
  then have le: "s \<le> e + 1" using assms(2) by (simp add: word_le_nat_alt)
  have eq: "e - s + 1 = e + 1 - s" by simp
  show ?thesis by (simp only: eq unat_sub [OF le] e)
qed

lemma all_inserted_iff:
  assumes "r_hasEndBlockId r" and "r_endBlockId r \<noteq> - 1" and "r_startBlockId r \<le> r_endBlockId r"
  shows "all_inserted r \<longleftrightarrow> unat (r_endBlockId r) + 1 - unat (r_startBlockId r) \<le> unat (r_insertNum r)"
  using assms(1) range_size [OF assms(2,3)] by (simp add: all_inserted_def word_le_nat_alt)

lemma potential_remove:
  "s \<in> set F \<Longrightarrow> potential p F = potential p (remove1 s F) + nat (4 - the (pi_retryCounts p s))"
  by (simp add: potential_def sum_list_map_remove1)

lemma potential_cong:
  assumes "remaining p = remaining q" and "\<And>s. s \<in> set F \<Longrightarrow> pi_retryCounts p s = pi_retryCounts q s"
  shows "potential p F = potential q F"
  using assms by (simp add: potential_def cong: map_cong)

text \<open>An answer that is stored: the fetch is nearer to its end, or at it.\<close>

lemma insertNum_step:
  assumes "fetch_live N p F" and "F \<noteq> []"
  shows "unat (r_insertNum (pi_response p) + 1) = unat (r_insertNum (pi_response p)) + 1"
proof -
  have len: "0 < length F" using assms(2) by simp
  have "unat (r_insertNum (pi_response p)) + length F + remaining p = N" using assms(1) by (simp add: fetch_live_def Let_def)
  then have lt: "unat (r_insertNum (pi_response p)) < N" using len by linarith
  have "N \<le> unat (r_endBlockId (pi_response p)) + 1" "r_endBlockId (pi_response p) \<noteq> - 1"
    using assms(1) by (auto simp: fetch_live_def Let_def)
  moreover from this(2) have "unat (r_endBlockId (pi_response p)) + 1 < 2 ^ 64"
    using unat_plus_one unsigned_less [where ?'a = nat, of "r_endBlockId (pi_response p) + 1"] by simp
  ultimately have "unat (r_insertNum (pi_response p)) + 1 < 2 ^ 64" using lt by linarith
  then show ?thesis by (simp add: unat_word_ariths)
qed

lemma advance_live:
  assumes "fetching 1 p ps F" and "s \<notin> set F" and "r_hasEndBlockId (pi_response p)" and "r_endBlockId (pi_response p) \<noteq> - 1"
    and "pi_nextSegmentQueue p \<noteq> []" and "\<not> hd (pi_nextSegmentQueue p) > r_endBlockId (pi_response p)"
  shows "remaining (advance s p) + 1 = remaining p" and "potential (advance s p) (F @ [pi_nextSegment p]) = potential p F"
    and "pi_response (advance s p) = pi_response p"
proof -
  let ?e = "r_endBlockId (pi_response p)" and ?n = "pi_nextSegment p"
  have q: "pi_nextSegmentQueue p = [?n]" and lt: "\<forall>s \<in> dom (pi_retryCounts p). s < ?n" using assms(1,5) by (simp_all add: fetching_def)
  have le: "unat ?n \<le> unat ?e" using assms(6) q by (simp add: word_le_nat_alt not_less)
  then have "?n \<noteq> - 1" using assms(4) word_order.extremum_uniqueI [of ?e] by (auto simp: word_le_nat_alt)
  then have n1: "unat (?n + 1) = unat ?n + 1" by (rule unat_plus_one)
  show r: "remaining (advance s p) + 1 = remaining p"
    using q le n1 assms(3) by (auto simp: remaining_def advance_def Let_def word_le_nat_alt)
  show resp: "pi_response (advance s p) = pi_response p" by (simp add: advance_def Let_def)
  have F: "set F \<subseteq> dom (pi_retryCounts p)" using assms(1) by (auto simp: fetching_def)
  have rc: "pi_retryCounts (advance s p) t = pi_retryCounts p t" if "t \<in> set F" for t
    using that assms(2) F lt q by (auto simp: advance_def Let_def)
  have "pi_retryCounts p ?n = None" using lt by (auto simp: dom_def)
  then have "pi_retryCounts (advance s p) ?n = Some 0" using q by (auto simp: advance_def Let_def)
  moreover have "(\<Sum>t\<leftarrow>F. nat (4 - the (pi_retryCounts (advance s p) t))) = (\<Sum>t\<leftarrow>F. nat (4 - the (pi_retryCounts p t)))"
    using rc by (intro arg_cong [of _ _ sum_list] map_cong) auto
  ultimately show "potential (advance s p) (F @ [?n]) = potential p F" using r by (simp add: potential_def)
qed

lemma after_segment_live:
  assumes "fetch_live N p F" and "s \<in> set F" and "fetching 0 p ps F" and "fetching 1 p (pending_of h pid) (remove1 s F)"
    and "r = Response_setInsertNum (r_insertNum (pi_response p) + 1) (pi_response p)" and "h' = after_segment now pid i s (p\<lparr>pi_response := r\<rparr>) h"
  shows "\<exists>p' F'. w_processes h' pid = Some p' \<and> fetching 0 p' (pending_of h' pid) F' \<and> fetch_live N p' F' \<and> potential p' F' < potential p F
     \<and> (F' = [] \<longrightarrow> r_statusCode (pi_response p') = 200 \<and> (PROCESS_DELETE_TIME, pid) \<in> set (w_scheduled h'))"
proof -
  let ?p1 = "p\<lparr>pi_response := r\<rparr>" and ?F1 = "remove1 s F" and ?e = "r_endBlockId (pi_response p)"
  have r: "r_hasEndBlockId r = r_hasEndBlockId (pi_response p)" "r_endBlockId r = ?e" "r_startBlockId r = r_startBlockId (pi_response p)"
    "r_insertNum r = r_insertNum (pi_response p) + 1" by (simp_all add: assms(5) Response_setInsertNum_def Response_drop_wire_def)
  have L: "r_hasEndBlockId (pi_response p)" "?e \<noteq> - 1" "r_startBlockId (pi_response p) \<le> ?e"
    "N = unat ?e + 1 - unat (r_startBlockId (pi_response p))" "unat (r_insertNum (pi_response p)) + length F + remaining p = N"
    using assms(1) by (simp_all add: fetch_live_def Let_def)
  have len: "length ?F1 + 1 = length F" using assms(2) by (simp add: length_remove1) (metis Suc_pred length_pos_if_in_set)
  have ins: "unat (r_insertNum r) = unat (r_insertNum (pi_response p)) + 1"
    using insertNum_step [OF assms(1)] assms(2) r(4) by (metis emptyE empty_set)
  have "all_inserted r \<longleftrightarrow> N \<le> unat (r_insertNum r)" using all_inserted_iff [of r] r L by simp
  then have all: "all_inserted r \<longleftrightarrow> length ?F1 + remaining p = 0" using ins len L(5) by linarith
  have fresh: "s \<notin> set ?F1" by (rule fetching_remove_fresh [OF assms(3)])
  obtain k where k: "pi_retryCounts p s = Some k" "k \<le> 3" using assms(2,3) unfolding fetching_def by blast
  have pot: "potential p ?F1 < potential p F" using potential_remove [OF assms(2), of p] k by simp
  have f1: "fetching 1 ?p1 (pending_of h pid) ?F1" using assms(4) by simp
  have rem1: "remaining ?p1 = remaining p" by (simp add: remaining_def r)
  have credit: "pi_credit p + 1 \<noteq> 0" using assms(4) by (simp add: fetching_def)
  show ?thesis
  proof (cases "all_inserted r")
    case True
    let ?p' = "?p1\<lparr>pi_credit := pi_credit p + 1, pi_response := Response_setStatusCode 200 r\<rparr>"
    have h': "h' = deferredDeleteProcess pid (set_process pid ?p' h)" using True r(1) L(1) by (simp add: assms(6) after_segment_def)
    have e: "?F1 = []" "remaining p = 0" using True all by auto
    have st: "r_endBlockId (Response_setStatusCode 200 r) = ?e" "r_hasEndBlockId (Response_setStatusCode 200 r)"
      "r_startBlockId (Response_setStatusCode 200 r) = r_startBlockId (pi_response p)" "r_insertNum (Response_setStatusCode 200 r) = r_insertNum r"
      "r_statusCode (Response_setStatusCode 200 r) = 200"
      using r L(1) by (simp_all add: Response_setStatusCode_def Response_drop_wire_def)
    have rem: "remaining ?p' = 0" using e(2) by (simp add: remaining_def st split: if_splits)
    have "fetch_live N ?p' []" using L ins e rem len by (simp add: fetch_live_def Let_def st)
    moreover have "fetching 0 ?p' (pending_of h pid) []" using f1 e(1) by (auto simp: fetching_def)
    moreover have "potential ?p' [] < potential p F" using pot e rem by (simp add: potential_def)
    moreover have "(PROCESS_DELETE_TIME, pid) \<in> set (w_scheduled h')" by (simp add: h' deferredDeleteProcess_def)
    ultimately show ?thesis using st(5) by (intro exI [of _ ?p'] exI [of _ "[]"]) (simp add: h')
  next
    case False
    then have left: "0 < length ?F1 + remaining p" using all by linarith
    show ?thesis
    proof (cases "pi_nextSegmentQueue p = [] \<or> hd (pi_nextSegmentQueue p) > ?e")
      case True
      let ?p' = "?p1\<lparr>pi_credit := pi_credit p + 1, pi_nextSegmentQueue := []\<rparr>"
      have q: "pi_nextSegmentQueue p = [] \<or> pi_nextSegmentQueue p = [pi_nextSegment p]" using assms(3) by (auto simp: fetching_def)
      have same: "p\<lparr>pi_response := r, pi_credit := c, pi_nextSegmentQueue := []\<rparr> = p\<lparr>pi_response := r, pi_credit := c\<rparr>"
        if "pi_nextSegmentQueue p = []" for c using that by (cases p) simp
      from q have h': "h' = set_process pid ?p' h"
        using True False r L(1) credit by (auto simp: assms(6) after_segment_def same)
      have rem: "remaining p = 0" using True q by (auto simp: remaining_def word_less_nat_alt)
      have rem': "remaining ?p' = 0" by (simp add: remaining_def)
      have "fetch_live N ?p' ?F1" using L ins len rem by (simp add: fetch_live_def Let_def r rem')
      moreover have "fetching 0 ?p' (pending_of h pid) ?F1" using f1 by (auto simp: fetching_def)
      moreover have "potential ?p' ?F1 = potential p ?F1" by (rule potential_cong) (simp_all add: rem rem')
      moreover have "?F1 \<noteq> []" using left rem by auto
      ultimately show ?thesis using pot by (intro exI [of _ ?p'] exI [of _ ?F1]) (simp add: h')
    next
      case go: False
      let ?p' = "advance s ?p1" and ?F' = "?F1 @ [pi_nextSegment p]"
      let ?j = "segment_interest (Name_getPrefix (i_name i) (- 1)) (hd (pi_nextSegmentQueue p)) (w_interestLifetime h)"
      have h': "h' = expressInterest ?j FetchSegment pid (set_process pid ?p' h)"
        using go False r L(1) credit by (simp add: assms(6) after_segment_def)
      have q: "pi_nextSegmentQueue p = [pi_nextSegment p]" using go assms(3) by (auto simp: fetching_def)
      have "pi_nextSegment p \<noteq> - 1" using go q L(2) word_order.extremum_uniqueI [of ?e] by (auto simp: not_less)
      then have "fetching 0 ?p' (pending_of h pid @ [\<lparr>pd_interest = ?j, pd_kind = FetchSegment, pd_process = pid\<rparr>]) ?F'"
        using advance_fetching [OF f1 fresh, of ?j pid] go by simp
      moreover have adv: "remaining ?p' + 1 = remaining p" "potential ?p' ?F' = potential p ?F1" "pi_response ?p' = r"
        using advance_live [OF f1 fresh] go r L(1,2) potential_cong [of ?p1 p ?F1] rem1 by simp_all
      moreover have "fetch_live N ?p' ?F'" using L ins len adv(1) by (simp add: fetch_live_def Let_def adv(3) r)
      ultimately show ?thesis using pot by (intro exI [of _ ?p'] exI [of _ ?F']) (simp add: h')
    qed
  qed
qed

section \<open>Runs of one fetch\<close>

text \<open>
  What the face does with the pending Interests of a fetch: it delivers Data, here Data that does not move
  the end of the content, or reports a timeout.
\<close>

inductive fetch_step :: "'st storage_ops \<Rightarrow> u64 \<Rightarrow> 'st write_handle \<Rightarrow> 'st write_handle \<Rightarrow> bool" for ops pid where
  arrives: "w_processes h pid = Some p \<Longrightarrow> d \<in> set (pending_of h pid) \<Longrightarrow> refresh_endBlockId content (pi_response p) = Inr (pi_response p) \<Longrightarrow>
     onSegmentDataValidated ops now (pd_interest d) content pid (answered d h) = (err, h') \<Longrightarrow> fetch_step ops pid h h'"
| expires: "w_processes h pid = Some p \<Longrightarrow> d \<in> set (pending_of h pid) \<Longrightarrow>
     onSegmentTimeout (pd_interest d) pid (answered d h) = (err, h') \<Longrightarrow> fetch_step ops pid h h'"

definition inserts_all :: "'st storage_ops \<Rightarrow> bool" where
  "inserts_all ops \<longleftrightarrow> (\<forall>d st. \<exists>k st'. st_insert ops d st = (Inr k, st') \<and> 0 \<le> k)"

text \<open>A fetch of \<open>N\<close> segments after \<open>n\<close> events: given up, or on its way with the rest of its potential.\<close>

definition fetch_state :: "nat \<Rightarrow> nat \<Rightarrow> u64 \<Rightarrow> 'st write_handle \<Rightarrow> bool" where
  "fetch_state N n pid h \<longleftrightarrow> w_retryTime h = 3 \<and>
     (case w_processes h pid of
        None \<Rightarrow> n \<le> 4 * N
      | Some p \<Rightarrow> \<exists>F. fetching 0 p (pending_of h pid) F \<and> fetch_live N p F \<and> n + potential p F \<le> 4 * N
          \<and> (F = [] \<longrightarrow> r_statusCode (pi_response p) = 200 \<and> (PROCESS_DELETE_TIME, pid) \<in> set (w_scheduled h)))"

lemma insertData_ok: "inserts_all ops \<Longrightarrow> \<exists>st. insertData ops d s = (Inr True, st)"
proof -
  assume "inserts_all ops"
  then obtain k st where "st_insert ops d (rs_storage s) = (Inr k, st)" "0 \<le> k" unfolding inserts_all_def by blast
  then show ?thesis by (simp add: insertData_def)
qed

lemma pending_of_process: "d \<in> set (pending_of h pid) \<Longrightarrow> pd_process d = pid"
  by (simp add: pending_of_def)

lemma fetch_step_state:
  assumes "fetch_step ops pid h h'" and "fetch_state N n pid h" and "inserts_all ops"
  shows "fetch_state N (Suc n) pid h'"
  using assms(1)
proof cases
  case (arrives p d content now err)
  obtain F where F: "fetching 0 p (pending_of h pid) F" "fetch_live N p F" "n + potential p F \<le> 4 * N" "w_retryTime h = 3"
    using assms(2) arrives(1) by (auto simp: fetch_state_def)
  obtain s where s: "segment_of (pd_interest d) = Inr s" "s \<in> set F" "fetching 1 p (remove1 d (pending_of h pid)) (remove1 s F)"
    using fetching_remove [OF F(1) arrives(2)] by blast
  obtain k where k: "pi_retryCounts p s = Some k" using F(1) s(2) unfolding fetching_def by blast
  obtain st where st: "insertData ops content (nd_storage h) = (Inr True, st)" using insertData_ok [OF assms(3)] by blast
  have pid: "pd_process d = pid" by (rule pending_of_process [OF arrives(2)])
  let ?r = "Response_setInsertNum (r_insertNum (pi_response p) + 1) (pi_response p)"
  let ?h1 = "set_process pid (p\<lparr>pi_response := ?r\<rparr>) ((answered d h)\<lparr>nd_storage := st\<rparr>)"
  have "onSegmentDataValidated ops now (pd_interest d) content pid (answered d h) = onSegmentDataControl now pid (pd_interest d) ?h1"
    using arrives(1,3) st by (simp add: onSegmentDataValidated_def Let_def)
  also have "\<dots> = (None, after_segment now pid (pd_interest d) s (p\<lparr>pi_response := ?r\<rparr>) ?h1)"
    by (rule onSegmentDataControl_eq) (simp_all add: s(1) k)
  finally have h': "h' = after_segment now pid (pd_interest d) s (p\<lparr>pi_response := ?r\<rparr>) ?h1" using arrives(4) by simp
  have "fetching 1 p (pending_of ?h1 pid) (remove1 s F)" using s(3) pid by simp
  from after_segment_live [OF F(2) s(2) F(1) this refl h'] obtain p' F' where p': "w_processes h' pid = Some p'" "fetching 0 p' (pending_of h' pid) F'"
    "fetch_live N p' F'" "potential p' F' < potential p F"
    "F' = [] \<longrightarrow> r_statusCode (pi_response p') = 200 \<and> (PROCESS_DELETE_TIME, pid) \<in> set (w_scheduled h')" by blast
  moreover have "w_retryTime h' = 3" using F(4) by (simp add: h' after_segment_def Let_def)
  moreover have "Suc n + potential p' F' \<le> 4 * N" using p'(4) F(3) by linarith
  ultimately show ?thesis by (auto simp: fetch_state_def)
next
  case (expires p d err)
  obtain F where F: "fetching 0 p (pending_of h pid) F" "fetch_live N p F" "n + potential p F \<le> 4 * N" "w_retryTime h = 3"
    using assms(2) expires(1) by (auto simp: fetch_state_def)
  obtain s where s: "segment_of (pd_interest d) = Inr s" "s \<in> set F" "fetching 1 p (remove1 d (pending_of h pid)) (remove1 s F)"
    using fetching_remove [OF F(1) expires(2)] by blast
  obtain k where k: "pi_retryCounts p s = Some k" "0 \<le> k" "k \<le> 3" using F(1) s(2) unfolding fetching_def by blast
  have pid: "pd_process d = pid" by (rule pending_of_process [OF expires(2)])
  have h': "h' = after_timeout pid (pd_interest d) s p (answered d h)"
    using onSegmentTimeout_eq [of "answered d h" pid p "pd_interest d" s] expires(1,3) s(1) k(1) by simp
  have pot: "potential p F = potential p (remove1 s F) + nat (4 - k)" using potential_remove [OF s(2), of p] k(1) by simp
  have w: "w_retryTime h' = 3" using F(4) by (simp add: h' after_timeout_def)
  show ?thesis
  proof (cases "k = 3")
    case True
    then have "w_processes h' pid = None" using F(4) k(1) by (simp add: h' after_timeout_def)
    then show ?thesis using w pot True F(3) by (simp add: fetch_state_def)
  next
    case False
    then have lt: "k < 3" using k(3) by simp
    let ?p' = "p\<lparr>pi_retryCounts := (pi_retryCounts p)(s \<mapsto> k + 1)\<rparr>" and ?F' = "remove1 s F @ [s]"
    let ?i = "Interest_setInterestLifetime (Interest_of_name (i_name (pd_interest d))) (w_interestLifetime (answered d h))"
    have eq: "h' = expressInterest ?i FetchSegment pid (set_process pid ?p' (answered d h))" using F(4) k(1) lt by (simp add: h' after_timeout_def)
    have fresh: "s \<notin> set (remove1 s F)" by (rule fetching_remove_fresh [OF F(1)])
    have "fetching 0 ?p' (remove1 d (pending_of h pid) @ [\<lparr>pd_interest = ?i, pd_kind = FetchSegment, pd_process = pid\<rparr>]) ?F'"
      by (rule after_timeout_fetching [OF s(3) fresh k(1,2) lt]) (simp add: segment_of_retry s(1))
    moreover have len: "length ?F' = length F" using s(2) by (simp add: length_remove1) (metis Suc_pred length_pos_if_in_set)
    then have "fetch_live N ?p' ?F'" using F(2) by (auto simp: fetch_live_def Let_def remaining_def)
    moreover have "potential ?p' (remove1 s F) = potential p (remove1 s F)"
      using fresh by (intro potential_cong) (auto simp: remaining_def)
    then have "potential ?p' ?F' + 1 = potential p F" using pot lt k(2) by (simp add: potential_def nat_diff_distrib')
    then have "Suc n + potential ?p' ?F' \<le> 4 * N" using F(3) by linarith
    ultimately show ?thesis using w pid by (auto simp: fetch_state_def eq)
  qed
qed

lemma fetch_runs:
  assumes "inserts_all ops" and "fetch_state N 0 pid h"
  shows "(fetch_step ops pid ^^ n) h h' \<Longrightarrow> fetch_state N n pid h'"
proof (induction n arbitrary: h')
  case (Suc n)
  then obtain g where "(fetch_step ops pid ^^ n) h g" "fetch_step ops pid g h'" by auto
  then show ?case using fetch_step_state Suc.IH assms(1) by blast
qed (use assms(2) in simp)

text \<open>Only a fetch that has ended has no pending Interest.\<close>

lemma fetch_stuck:
  assumes "fetch_state N n pid h" and "w_processes h pid = Some p" and "\<nexists>h'. fetch_step ops pid h h'"
  shows "r_statusCode (pi_response p) = 200 \<and> unat (r_insertNum (pi_response p)) = N \<and> (PROCESS_DELETE_TIME, pid) \<in> set (w_scheduled h)"
proof -
  obtain F where F: "fetching 0 p (pending_of h pid) F" "fetch_live N p F"
    "F = [] \<longrightarrow> r_statusCode (pi_response p) = 200 \<and> (PROCESS_DELETE_TIME, pid) \<in> set (w_scheduled h)"
    using assms(1,2) by (auto simp: fetch_state_def)
  have "pending_of h pid = []"
  proof (rule ccontr)
    assume "pending_of h pid \<noteq> []"
    then have d: "hd (pending_of h pid) \<in> set (pending_of h pid)" by simp
    obtain err h' where "onSegmentTimeout (pd_interest (hd (pending_of h pid))) pid (answered (hd (pending_of h pid)) h) = (err, h')" by fastforce
    then show False using assms(3) fetch_step.expires [OF assms(2) d] by blast
  qed
  then have "F = []" using F(1) by (simp add: fetching_def)
  then show ?thesis using F(2,3) by (simp add: fetch_live_def Let_def)
qed

section \<open>The start of a fetch\<close>

lemma burst_range:
  assumes "p_hasEndBlockId p" and "p_endBlockId p \<noteq> - 1" and "p_startBlockId p \<le> p_endBlockId p"
  shows "initial_burst p = min 12 (unat (p_endBlockId p) + 1 - unat (p_startBlockId p))"
proof -
  let ?s = "p_startBlockId p" and ?e = "p_endBlockId p"
  define c :: u64 where "c = min 12 (?e - ?s + 1)"
  have c: "unat c = min 12 (unat ?e + 1 - unat ?s)"
    using range_size [OF assms(2,3)] by (simp add: c_def min_def word_le_nat_alt)
  have "unat ?e + 1 < 2 ^ 64" using unat_plus_one [OF assms(2)] unsigned_less [where ?'a = nat, of "?e + 1"] by simp
  moreover have "unat ?s \<le> unat ?e" using assms(3) by (simp add: word_le_nat_alt)
  ultimately have "unat (?s + c) = unat ?s + unat c" using c by (simp add: unat_word_ariths min_def split: if_splits)
  then show ?thesis using assms(1) c by (simp add: initial_burst_def c_def [symmetric])
qed

lemma segmented_insert_starts:
  assumes "handle_ok h" and "fresh_process h pid" and "p_hasEndBlockId p" and "p_endBlockId p \<noteq> - 1"
    and "start = (if p_hasStartBlockId p then p_startBlockId p else 0)" and "start \<le> p_endBlockId p"
    and "N = unat (p_endBlockId p) + 1 - unat start"
  shows "\<exists>h0 q. processSegmentedInsertCommand sign now pid i p h = (None, h0) \<and> w_processes h0 pid = Some q
     \<and> fetching 0 q (pending_of h0 pid) (segment_range start (min 12 N)) \<and> fetch_state N 0 pid h0"
proof -
  let ?p = "if p_hasStartBlockId p then p else Parameter_setStartBlockId p 0"
  have p: "p_hasEndBlockId ?p" "p_endBlockId ?p = p_endBlockId p" "p_startBlockId ?p = start"
    using assms(3,5) by (simp_all add: Parameter_setStartBlockId_def Parameter_drop_wire_def)
  have pa: "pi_response (process_at h pid) = Response_default"
    using assms(2) by (simp add: process_at_def fresh_process_def ProcessInfo_default_def)
  define r where "r = Response_setEndBlockId (p_endBlockId p) (Response_setStartBlockId start (Response_setInsertNum 0
      (Response_setProcessId pid (Response_setStatusCode 100 Response_default))))"
  have r: "r_hasStatusCode r" "\<not> Block_hasWire (r_wire r)" "r_hasEndBlockId r" "r_endBlockId r = p_endBlockId p" "r_startBlockId r = start"
    "r_insertNum r = 0" by (simp_all add: r_def response_setters)
  have run: "processSegmentedInsertCommand sign now pid i p h = start_segmented sign now pid i ?p r h"
  proof -
    have "\<not> start > p_endBlockId p" using assms(6) by simp
    then show ?thesis using assms(3) by (simp add: processSegmentedInsertCommand_def Let_def pa r_def p(2,3) del: not_less)
  qed
  have b: "initial_burst ?p = min 12 N" using burst_range [of ?p] p assms(4,6,7) by simp
  let ?k = "min 12 N" and ?F = "segment_range start (min 12 N)"
  have credit: "w_credit h = 12" "w_retryTime h = 3" using assms(1) by (simp_all add: handle_ok_def)
  obtain w h0 q where q: "start_segmented sign now pid i ?p r h = (None, h0)" "same_elsewhere pid h h0" "w_processes h0 pid = Some q"
    "pi_response q = Response_setStatusCode 300 (r\<lparr>r_wire := w\<rparr>)" "fetching 0 q (pending_of h0 pid) ?F"
    "pi_nextSegmentQueue q = [pi_nextSegment q]" "unat (pi_nextSegment q) = unat start + ?k" "\<forall>s \<in> set ?F. pi_retryCounts q s = Some 0"
    using start_segmented_run [OF assms(2) credit(1) r(1,2), of sign now i ?p] unfolding p(3) b by blast
  have resp: "r_hasEndBlockId (pi_response q)" "r_endBlockId (pi_response q) = p_endBlockId p" "r_startBlockId (pi_response q) = start"
    "r_insertNum (pi_response q) = 0" using r by (simp_all add: q(4) Response_setStatusCode_def Response_drop_wire_def)
  have le: "unat start \<le> unat (p_endBlockId p)" using assms(6) by (simp add: word_le_nat_alt)
  have rem: "remaining q = N - ?k" using q(6,7) assms(7) le by (simp add: remaining_def resp(2))
  have "0 < length ?F" using assms(7) le by simp
  then have ne: "?F \<noteq> []" by (simp only: length_greater_0_conv not_False_eq_True)
  have "length ?F + remaining q = N" using rem by simp
  then have "fetch_live N q ?F" using ne assms(4,6,7) unfolding fetch_live_def Let_def resp(2-4) by (simp only: resp(1) simp_thms unat_0 add_0)
  moreover have "sum_list (map (\<lambda>s. nat (4 - the (pi_retryCounts q s))) ?F) = sum_list (map (\<lambda>s. 4) ?F)"
    using q(8) by (intro arg_cong [of _ _ sum_list] map_cong) auto
  then have "sum_list (map (\<lambda>s. nat (4 - the (pi_retryCounts q s))) ?F) = 4 * ?k" by (simp add: sum_list_triv)
  then have "potential q ?F = 4 * N" using rem unfolding potential_def by linarith
  moreover have "w_retryTime h0 = 3" using q(2) credit(2) by (simp add: same_elsewhere_def)
  ultimately have "fetch_state N 0 pid h0" using q(3,5) ne by (auto simp: fetch_state_def)
  then show ?thesis using run q(1,3,5) by auto
qed

section \<open>A run for the witnesses\<close>

definition example_handle :: "int list write_handle" where
  "example_handle = WriteHandle_new (RepoStorage_new 10 [])"

lemma example_handle_ok:
  "write_reachable (\<lambda>d. d) list_storage example_handle" "fresh_process example_handle 7" "inserts_all list_storage"
  unfolding example_handle_def
  by (rule write_reachable.new) (auto simp: fresh_process_def WriteHandle_new_def pending_of_def inserts_all_def list_storage_def)

lemma example_reached:
  "\<exists>h d p. write_reachable (\<lambda>d. d) list_storage h \<and> d \<in> set (w_pending h) \<and> pd_kind d = FetchSegment \<and> pd_process d = 7 \<and> w_processes h 7 = Some p"
proof -
  let ?i = "Interest_of_name (command_name Name_default example_parameter)"
  obtain q where q: "extractParameter ?i Name_default Parameter_default = (None, q)" "param_same example_parameter q"
    using extractParameter_command [OF example_parameter_ok(1), of ?i Name_default] by (auto simp: Interest_of_name_def)
  have p: "p_hasEndBlockId q" "p_endBlockId q = 5" "p_hasStartBlockId q" "p_startBlockId q = 2" "\<not> p_hasInterestLifetime q" "\<not> Parameter_hasSelectors q"
    using q(2) example_parameter_ok Selectors_default_ok by (simp_all add: param_same_def Parameter_hasSelectors_def)
  obtain h0 p0 where h0: "processSegmentedInsertCommand (\<lambda>d. d) 0 7 ?i q example_handle = (None, h0)" "w_processes h0 7 = Some p0"
    "fetching 0 p0 (pending_of h0 7) (segment_range 2 4)"
  proof -
    have n: "p_endBlockId q \<noteq> - 1" "2 = (if p_hasStartBlockId q then p_startBlockId q else 0)" "2 \<le> p_endBlockId q"
      "4 = unat (p_endBlockId q) + 1 - unat (2 :: u64)" by (simp_all add: p)
    have m: "min 12 4 = (4 :: nat)" by simp
    from segmented_insert_starts [OF write_reachable_ok [OF example_handle_ok(1)] example_handle_ok(2) p(1) n, of "\<lambda>d. d" 0 ?i, unfolded m]
    show thesis using that by blast
  qed
  have "WriteHandle_onValidated (\<lambda>d. d) 0 7 ?i Name_default example_handle = (None, h0)"
    using q(1) h0(1) p by (simp add: WriteHandle_onValidated_def)
  then have "write_reachable (\<lambda>d. d) list_storage h0"
    using write_reachable.step [OF example_handle_ok(1) write_step.command [OF example_handle_ok(2)]] by blast
  moreover have "length (pending_of h0 7) = 4" using h0(3) by (metis fetching_def length_map length_segment_range)
  then obtain d where d: "d \<in> set (pending_of h0 7)" by (cases "pending_of h0 7") auto
  moreover have "pd_kind d = FetchSegment" using h0(3) d by (auto simp: fetching_def)
  ultimately show ?thesis using h0(2) by (auto simp: pending_of_def)
qed

section \<open>Properties\<close>

text \<open>
  C8: the flow control of segmented fetches is safe. In every state the insert handler can reach, with
  any interleaving of commands, checks, answers, timeouts, refused packets and deletions over any number
  of processes, as long as no process gets beyond the last 64-bit segment number: a segmented fetch
  never has more than twelve segments in flight, counting its credit, and no segment twice; and when one
  of its pending Interests is answered or expires, the handler's assertions on the retry counts hold. A
  timeout throws nothing; an answer throws exactly when its \<^verbatim>\<open>FinalBlockId\<close> is
  not a segment number or the database throws, and then that exception leaves the callback.
\<close>

theorem segmented_fetch_safe:
  assumes "write_reachable sign ops h" and "d \<in> set (w_pending h)" and "pd_kind d = FetchSegment" and "w_processes h (pd_process d) = Some p"
  shows "0 \<le> pi_credit p \<and> pi_credit p + int (length (pending_of h (pd_process d))) \<le> 12
     \<and> distinct (map (\<lambda>e. segment_of (pd_interest e)) (pending_of h (pd_process d)))
     \<and> fst (onSegmentTimeout (pd_interest d) (pd_process d) (answered d h)) = None
     \<and> (\<forall>now content. fst (onSegmentDataValidated ops now (pd_interest d) content (pd_process d) (answered d h)) =
          (case refresh_endBlockId content (pi_response p) of Inl e \<Rightarrow> Some e
           | Inr r \<Rightarrow> (case fst (insertData ops content (nd_storage h)) of Inl e \<Rightarrow> Some e | Inr inserted \<Rightarrow> None)))"
proof -
  have ok: "handle_ok h" by (rule write_reachable_ok [OF assms(1)])
  obtain F s k where F: "fetching 0 p (pending_of h (pd_process d)) F" "segment_of (pd_interest d) = Inr s" "pi_retryCounts p s = Some k"
    using pending_cases(2) [OF ok assms(2,4,3)] by blast
  have "length (pending_of h (pd_process d)) = length F" using F(1) unfolding fetching_def by (metis length_map)
  moreover have "distinct (map (\<lambda>e. segment_of (pd_interest e)) (pending_of h (pd_process d)))"
    using F(1) by (auto simp: fetching_def distinct_map)
  moreover have "onSegmentTimeout (pd_interest d) (pd_process d) (answered d h) = (None, after_timeout (pd_process d) (pd_interest d) s p (answered d h))"
    by (rule onSegmentTimeout_eq) (simp_all add: assms(4) F(2,3))
  moreover have "fst (onSegmentDataValidated ops now (pd_interest d) content (pd_process d) (answered d h)) =
      (case refresh_endBlockId content (pi_response p) of Inl e \<Rightarrow> Some e
       | Inr r \<Rightarrow> (case fst (insertData ops content (nd_storage h)) of Inl e \<Rightarrow> Some e | Inr inserted \<Rightarrow> None))" for now content
  proof (cases "refresh_endBlockId content (pi_response p)")
    case (Inl e)
    then show ?thesis by (simp add: onSegmentDataValidated_def assms(4))
  next
    case r: (Inr r)
    obtain result st where i: "insertData ops content (nd_storage h) = (result, st)" by (metis prod.exhaust)
    show ?thesis
    proof (cases result)
      case (Inl e)
      then show ?thesis using r i by (simp add: onSegmentDataValidated_def assms(4))
    next
      case (Inr inserted)
      then have "fst (onSegmentDataValidated ops now (pd_interest d) content (pd_process d) (answered d h)) = None"
        using segment_data_run [OF ok assms(2-4) r i [unfolded Inr], of now] by (auto simp: Let_def)
      then show ?thesis using r i Inr by simp
    qed
  qed
  ultimately show ?thesis using F(1) by (auto simp: fetching_def)
qed

theorem segmented_fetch_safe_witness:
  "\<exists>h d p. write_reachable (\<lambda>d. d) list_storage h \<and> d \<in> set (w_pending h) \<and> w_processes h 7 = Some p
     \<and> length (pending_of h 7) \<le> 12 \<and> fst (onSegmentTimeout (pd_interest d) 7 (answered d h)) = None"
proof -
  obtain h d p where h: "write_reachable (\<lambda>d. d) list_storage h" "d \<in> set (w_pending h)" "pd_kind d = FetchSegment" "pd_process d = 7"
    "w_processes h 7 = Some p" using example_reached by blast
  from segmented_fetch_safe [OF h(1-3)] h(4,5) have "0 \<le> pi_credit p \<and> pi_credit p + int (length (pending_of h 7)) \<le> 12"
    "fst (onSegmentTimeout (pd_interest d) 7 (answered d h)) = None" by simp_all
  moreover from this(1) have "length (pending_of h 7) \<le> 12" by linarith
  ultimately show ?thesis using h by blast
qed

text \<open>
  C1: a segmented insert comes to an end. In a state the handler can reach, a command comes with an
  unused process id and a range of \<open>N\<close> blocks whose end is not the greatest 64-bit number;
  the database stores what it is given, and every Data that arrives passes validation and has no
  \<^verbatim>\<open>FinalBlockId\<close> or one not below \<^verbatim>\<open>EndBlockId\<close>. Then
  the handler starts the fetch without error, and whatever mixture of such Data and timeouts the face
  delivers for it, in any order, there are at most \<open>4 * N\<close> of them: as long as the process
  is neither given up nor complete some Interest is pending, and when none is, either the process was
  erased after a segment timed out four times, or all \<open>N\<close> segments are stored, the status
  is 200 and the deletion of the process is scheduled. (Data that fails validation is neither asked for
  again nor counted: the fetch then stays open.)
\<close>

theorem segmented_insert_completes:
  assumes "write_reachable sign ops h" and "fresh_process h pid" and "inserts_all ops"
    and "p_hasEndBlockId p" and "p_endBlockId p \<noteq> - 1" and "start = (if p_hasStartBlockId p then p_startBlockId p else 0)"
    and "start \<le> p_endBlockId p" and "N = unat (p_endBlockId p) + 1 - unat start"
  shows "\<exists>h0. processSegmentedInsertCommand sign now pid i p h = (None, h0) \<and>
     (\<forall>n h'. (fetch_step ops pid ^^ n) h0 h' \<longrightarrow> n \<le> 4 * N \<and>
        ((\<exists>h''. fetch_step ops pid h' h'') \<or> w_processes h' pid = None \<or>
         (\<exists>q. w_processes h' pid = Some q \<and> r_statusCode (pi_response q) = 200 \<and> unat (r_insertNum (pi_response q)) = N
            \<and> (PROCESS_DELETE_TIME, pid) \<in> set (w_scheduled h'))))"
proof -
  obtain h0 where h0: "processSegmentedInsertCommand sign now pid i p h = (None, h0)" "fetch_state N 0 pid h0"
    using segmented_insert_starts [OF write_reachable_ok [OF assms(1)] assms(2,4-8)] by blast
  have "n \<le> 4 * N \<and> ((\<exists>h''. fetch_step ops pid h' h'') \<or> w_processes h' pid = None \<or>
         (\<exists>q. w_processes h' pid = Some q \<and> r_statusCode (pi_response q) = 200 \<and> unat (r_insertNum (pi_response q)) = N
            \<and> (PROCESS_DELETE_TIME, pid) \<in> set (w_scheduled h')))" if "(fetch_step ops pid ^^ n) h0 h'" for n h'
  proof -
    have st: "fetch_state N n pid h'" by (rule fetch_runs [OF assms(3) h0(2) that])
    then have "n \<le> 4 * N" by (auto simp: fetch_state_def split: option.splits)
    moreover have "w_processes h' pid = None \<or> (\<exists>q. w_processes h' pid = Some q \<and> r_statusCode (pi_response q) = 200
        \<and> unat (r_insertNum (pi_response q)) = N \<and> (PROCESS_DELETE_TIME, pid) \<in> set (w_scheduled h'))" if "\<nexists>h''. fetch_step ops pid h' h''"
      using fetch_stuck [OF st _ that] by (cases "w_processes h' pid") simp_all
    ultimately show ?thesis by blast
  qed
  then show ?thesis using h0(1) by blast
qed

theorem segmented_insert_completes_witness:
  "\<exists>h0. processSegmentedInsertCommand (\<lambda>d. d) 0 7 (Interest_of_name name_a) example_parameter example_handle = (None, h0) \<and>
     (\<forall>n h'. (fetch_step list_storage 7 ^^ n) h0 h' \<longrightarrow> n \<le> 16)"
proof -
  let ?p = example_parameter
  have n: "p_endBlockId ?p \<noteq> - 1" "2 = (if p_hasStartBlockId ?p then p_startBlockId ?p else 0)" "2 \<le> p_endBlockId ?p"
    "4 = unat (p_endBlockId ?p) + 1 - unat (2 :: u64)" by (simp_all add: example_parameter_ok(5,6,8))
  have m: "4 * 4 = (16 :: nat)" by simp
  from segmented_insert_completes [OF example_handle_ok example_parameter_ok(7) n, of 0 "Interest_of_name name_a", unfolded m] show ?thesis by blast
qed

end
