(* ===== verification/WatchHandle.thy ===== *)
theory WatchHandle
  imports DeleteHandle
begin

text \<open>
  The handler of watch commands, \<^verbatim>\<open>repo-ng-mongo/src/handles/watch-handle.cpp\<close>: it keeps asking for Data under
  a prefix, with selectors that leave out what it has received, until it is told to stop, has sent a
  number of Interests or has run for some time. The state has the Interests pending at the face with the
  watched name bound to their callbacks, the deletions given to the scheduler, and the table of watches,
  keyed by name; the counters and limits are members of the handler, shared by all watches. The clock is
  read once per handler call, \<open>now\<close>, in nanoseconds.
\<close>

section \<open>State\<close>

definition WATCH_DELETE_TIME :: int where "WATCH_DELETE_TIME = 10000"
definition WATCH_INTEREST_LIFETIME :: int where "WATCH_INTEREST_LIFETIME = 4000"

type_synonym watch = "repo_response \<times> bool"

record 'st watch_handle = "'st node" +
  wa_pending :: "(interest \<times> name) list"
  wa_scheduled :: "(int \<times> name) list"
  wa_processes :: "component list \<rightharpoonup> watch"
  wa_interestNum :: int
  wa_maxInterestNum :: int
  wa_interestLifetime :: int
  wa_watchTimeout :: int
  wa_startTime :: int
  wa_size :: int

type_synonym 'st watch_outcome = "error option \<times> 'st watch_handle"

definition WatchHandle_new :: "int \<Rightarrow> 'st repo_storage \<Rightarrow> 'st watch_handle" where
  "WatchHandle_new now storageHandle = \<lparr>nd_storage = storageHandle, nd_sent = [], wa_pending = [], wa_scheduled = [],
     wa_processes = Map.empty, wa_interestNum = 0, wa_maxInterestNum = 0, wa_interestLifetime = WATCH_INTEREST_LIFETIME,
     wa_watchTimeout = 0, wa_startTime = now, wa_size = 0\<rparr>"

text \<open>\<^verbatim>\<open>m_processes[name]\<close>: the entry, which is made when it is not there.\<close>

definition watch_at :: "'st watch_handle \<Rightarrow> name \<Rightarrow> watch" where
  "watch_at h n = (case wa_processes h (name_of n) of None \<Rightarrow> (Response_default, False) | Some w \<Rightarrow> w)"

definition set_watch :: "name \<Rightarrow> watch \<Rightarrow> 'st watch_handle \<Rightarrow> 'st watch_handle" where
  "set_watch n w h = h\<lparr>wa_processes := (wa_processes h)(name_of n \<mapsto> w)\<rparr>"

definition touch :: "name \<Rightarrow> 'st watch_handle \<Rightarrow> 'st watch_handle" where
  "touch n h = set_watch n (watch_at h n) h"

definition Watch_deleteProcess :: "name \<Rightarrow> 'st watch_handle \<Rightarrow> 'st watch_handle" where
  "Watch_deleteProcess n h = h\<lparr>wa_processes := (wa_processes h)(name_of n := None)\<rparr>"

definition Watch_deferredDeleteProcess :: "name \<Rightarrow> 'st watch_handle \<Rightarrow> 'st watch_handle" where
  "Watch_deferredDeleteProcess n h = h\<lparr>wa_scheduled := wa_scheduled h @ [(WATCH_DELETE_TIME, n)]\<rparr>"

definition Watch_expressInterest :: "interest \<Rightarrow> name \<Rightarrow> 'st watch_handle \<Rightarrow> 'st watch_handle" where
  "Watch_expressInterest i n h = h\<lparr>wa_pending := wa_pending h @ [(i, n)]\<rparr>"

section \<open>Limits\<close>

definition watchStop :: "int \<Rightarrow> name \<Rightarrow> 'st watch_handle \<Rightarrow> 'st watch_handle" where
  "watchStop now n h = (set_watch n (fst (watch_at h n), False) h)\<lparr>wa_maxInterestNum := 0, wa_interestNum := 0, wa_startTime := now,
     wa_watchTimeout := 0, wa_interestLifetime := WATCH_INTEREST_LIFETIME, wa_size := 0\<rparr>"

definition onRunning :: "int \<Rightarrow> name \<Rightarrow> 'st watch_handle \<Rightarrow> bool \<times> 'st watch_handle" where
  "onRunning now n h =
     (let isTimeout = wa_watchTimeout h \<noteq> 0 \<and> time_since (wa_startTime h) now > ns_of_ms (wa_watchTimeout h);
          isMaxInterest = wa_interestNum h \<ge> wa_maxInterestNum h \<and> wa_maxInterestNum h \<noteq> 0
      in if isTimeout \<or> isMaxInterest then (False, watchStop now n (Watch_deferredDeleteProcess n h)) else (True, h))"

section \<open>Data fetching\<close>

definition fetch_again :: "interest \<Rightarrow> 'st watch_handle \<Rightarrow> interest" where
  "fetch_again i h =
     Interest_setChildSelector
       (Interest_setInterestLifetime (Interest_setSelectors (Interest_of_name (i_name i)) (i_selectors i)) (wa_interestLifetime h)) 1"

text \<open>The selectors that leave out the Data just received, for both branches of the validation.\<close>

definition update_selectors :: "interest \<Rightarrow> data \<Rightarrow> interest \<Rightarrow> interest res" where
  "update_selectors i d fetchInterest =
     (if Name_size (d_name d) = Name_size (i_name i) then Inr (Interest_setMinSuffixComponents fetchInterest 2)
      else
        (let x = sel_exclude (i_selectors i);
             exclude = (if \<not> Exclude_empty x then x else Exclude_default)
         in case Name_get (d_name d) (int (Name_size (i_name i))) of
              Inl e \<Rightarrow> Inl e
            | Inr c \<Rightarrow>
                (case excludeBefore exclude (component_of c) of
                   Inl e \<Rightarrow> Inl e
                 | Inr exclude' \<Rightarrow> Inr (Interest_setExclude fetchInterest exclude'))))"

definition count_and_express :: "interest \<Rightarrow> name \<Rightarrow> 'st watch_handle \<Rightarrow> 'st watch_handle" where
  "count_and_express i n h = Watch_expressInterest i n (h\<lparr>wa_interestNum := wa_interestNum h + 1\<rparr>)"

definition Watch_onDataValidated :: "'st storage_ops \<Rightarrow> int \<Rightarrow> interest \<Rightarrow> data \<Rightarrow> name \<Rightarrow> 'st watch_handle \<Rightarrow> 'st watch_outcome" where
  "Watch_onDataValidated ops now i d n h0 =
     (let h = touch n h0
      in if \<not> snd (watch_at h n) then (None, h)
         else case insertData ops d (nd_storage h) of
           (Inl e, s) \<Rightarrow> (Some e, h\<lparr>nd_storage := s\<rparr>)
         | (Inr False, s) \<Rightarrow> (Some (RepoError ''Insert into Repo Failed''), h\<lparr>nd_storage := s\<rparr>)
         | (Inr True, s) \<Rightarrow>
             (case onRunning now n (h\<lparr>nd_storage := s, wa_size := wa_size h + 1\<rparr>) of
                (False, h1) \<Rightarrow> (None, h1)
              | (True, h1) \<Rightarrow>
                  (case update_selectors i d (fetch_again i h1) of
                     Inl e \<Rightarrow> (Some e, h1)
                   | Inr fetchInterest \<Rightarrow>
                       (let h2 = count_and_express fetchInterest n h1; w = watch_at h2 n
                        in (None, set_watch n (Response_setInsertNum (word_of_int (wa_size h2)) (fst w), snd w) h2)))))"

definition Watch_onDataValidationFailed :: "int \<Rightarrow> interest \<Rightarrow> data \<Rightarrow> name \<Rightarrow> 'st watch_handle \<Rightarrow> 'st watch_outcome" where
  "Watch_onDataValidationFailed now i d n h0 =
     (let h = touch n h0
      in if \<not> snd (watch_at h n) then (None, h)
         else case onRunning now n h of
           (False, h1) \<Rightarrow> (None, h1)
         | (True, h1) \<Rightarrow>
             (case update_selectors i d (fetch_again i h1) of
                Inl e \<Rightarrow> (Some e, h1)
              | Inr fetchInterest \<Rightarrow> (None, count_and_express fetchInterest n h1)))"

definition Watch_onTimeout :: "int \<Rightarrow> interest \<Rightarrow> name \<Rightarrow> 'st watch_handle \<Rightarrow> 'st watch_outcome" where
  "Watch_onTimeout now i n h0 =
     (let h = touch n h0
      in if \<not> snd (watch_at h n) then (None, h)
         else case onRunning now n h of
           (False, h1) \<Rightarrow> (None, h1)
         | (True, h1) \<Rightarrow> (None, count_and_express (fetch_again i h1) n h1))"

section \<open>Commands\<close>

definition processWatchCommand :: "(data \<Rightarrow> data) \<Rightarrow> int \<Rightarrow> interest \<Rightarrow> repo_parameter \<Rightarrow> 'st watch_handle \<Rightarrow> 'st watch_outcome" where
  "processWatchCommand sign now i parameter h =
     (let h1 = h\<lparr>wa_watchTimeout := (if p_hasWatchTimeout parameter then p_watchTimeout parameter else 0),
                 wa_maxInterestNum := (if p_hasMaxInterestNum parameter then sint (p_maxInterestNum parameter) else 0),
                 wa_interestLifetime := (if p_hasInterestLifetime parameter then p_interestLifetime parameter else wa_interestLifetime h)\<rparr>
      in case BaseHandle_reply sign i (Response_setStatusCode 100 Response_default) h1 of
           (Some e, _, h2) \<Rightarrow> (Some e, h2)
         | (None, _, h2) \<Rightarrow>
             (let n = p_name parameter;
                  h3 = set_watch n (Response_setStatusCode 300 Response_default, True) h2;
                  fetch = (if Parameter_hasSelectors parameter then Interest_setSelectors (Interest_of_name n) (p_selectors parameter)
                           else Interest_of_name n);
                  fetchInterest = Interest_setInterestLifetime (Interest_setChildSelector fetch 1) (wa_interestLifetime h3)
              in (None, count_and_express fetchInterest n (h3\<lparr>wa_startTime := now\<rparr>))))"

definition Watch_onValidated :: "(data \<Rightarrow> data) \<Rightarrow> int \<Rightarrow> interest \<Rightarrow> name \<Rightarrow> 'st watch_handle \<Rightarrow> 'st watch_outcome" where
  "Watch_onValidated sign now i prefix h =
     (case extractParameter i prefix Parameter_default of
        (Some e, _) \<Rightarrow> (if is_parameter_error e then negativeReply sign i 403 h else (Some e, h))
      | (None, parameter) \<Rightarrow> processWatchCommand sign now i parameter h)"

definition Watch_onStopValidated :: "(data \<Rightarrow> data) \<Rightarrow> int \<Rightarrow> interest \<Rightarrow> name \<Rightarrow> 'st watch_handle \<Rightarrow> 'st watch_outcome" where
  "Watch_onStopValidated sign now i prefix h =
     (case extractParameter i prefix Parameter_default of
        (Some e, _) \<Rightarrow> (if is_parameter_error e then negativeReply sign i 403 h else (Some e, h))
      | (None, parameter) \<Rightarrow> negativeReply sign i 101 (watchStop now (p_name parameter) h))"

definition Watch_onCheckValidated :: "(data \<Rightarrow> data) \<Rightarrow> interest \<Rightarrow> name \<Rightarrow> 'st watch_handle \<Rightarrow> 'st watch_outcome" where
  "Watch_onCheckValidated sign i prefix h =
     (case extractParameter i prefix Parameter_default of
        (Some e, _) \<Rightarrow> (if is_parameter_error e then negativeReply sign i 403 h else (Some e, h))
      | (None, parameter) \<Rightarrow>
          if \<not> p_hasName parameter then negativeReply sign i 403 h
          else
            (case wa_processes h (name_of (p_name parameter)) of
               None \<Rightarrow> negativeReply sign i 404 h
             | Some (response0, running) \<Rightarrow>
                 (let response = (if \<not> running then Response_setStatusCode 101 response0 else response0)
                  in case BaseHandle_reply sign i response h of
                       (err, response', h') \<Rightarrow> (err, set_watch (p_name parameter) (response', running) h'))))"

definition Watch_onValidationFailed :: "(data \<Rightarrow> data) \<Rightarrow> interest \<Rightarrow> 'st watch_handle \<Rightarrow> 'st watch_outcome" where
  "Watch_onValidationFailed sign i h = negativeReply sign i 401 h"

section \<open>What the next Interest asks for\<close>

lemma handle_fields [simp]:
  "wa_pending (set_watch n w h) = wa_pending h" "wa_pending (touch n h) = wa_pending h"
  "wa_pending (watchStop now n h) = wa_pending h" "wa_pending (Watch_deferredDeleteProcess n h) = wa_pending h"
  "wa_pending (count_and_express i n h) = wa_pending h @ [(i, n)]"
  "nd_storage (set_watch n w h) = nd_storage h" "nd_storage (touch n h) = nd_storage h"
  "nd_storage (count_and_express i n h) = nd_storage h"
  by (simp_all add: set_watch_def touch_def watchStop_def Watch_deferredDeleteProcess_def count_and_express_def Watch_expressInterest_def)

lemma watch_at_updates [simp]:
  "watch_at (touch n h) n = watch_at h n" "watch_at (set_watch n w h) n = w"
  "watch_at (h\<lparr>nd_storage := s\<rparr>) n = watch_at h n" "watch_at (h\<lparr>wa_size := k\<rparr>) n = watch_at h n"
  "watch_at (count_and_express i m h) n = watch_at h n"
  by (simp_all add: touch_def set_watch_def watch_at_def count_and_express_def Watch_expressInterest_def)

text \<open>Within the limits of the handler at a time.\<close>

definition within_limits :: "int \<Rightarrow> 'st watch_handle \<Rightarrow> bool" where
  "within_limits now h \<longleftrightarrow> (wa_watchTimeout h = 0 \<or> time_since (wa_startTime h) now \<le> ns_of_ms (wa_watchTimeout h))
     \<and> (wa_maxInterestNum h = 0 \<or> wa_interestNum h < wa_maxInterestNum h)"

lemma onRunning_eq:
  "onRunning now n h = (if within_limits now h then (True, h) else (False, watchStop now n (Watch_deferredDeleteProcess n h)))"
  by (auto simp: onRunning_def within_limits_def Let_def)

lemma within_limits_updates [simp]:
  "within_limits now (touch n h) = within_limits now h"
  "within_limits now (h\<lparr>nd_storage := s\<rparr>) = within_limits now h" "within_limits now (h\<lparr>wa_size := k\<rparr>) = within_limits now h"
  by (simp_all add: within_limits_def touch_def set_watch_def)

lemmas interest_setters = Interest_setChildSelector_def Interest_setInterestLifetime_def Interest_setSelectors_def
  Interest_setMinSuffixComponents_def Interest_setExclude_def Interest_drop_wire_def Interest_of_name_def
  Selectors_setChildSelector_def Selectors_setMinSuffixComponents_def Selectors_setExclude_def Selectors_drop_wire_def

text \<open>The full names that the Interest after \<open>d\<close> no longer asks for.\<close>

definition left_out :: "interest \<Rightarrow> data \<Rightarrow> component list \<Rightarrow> bool" where
  "left_out i d full \<longleftrightarrow>
     (if Name_size (d_name d) = Name_size (i_name i) then length full < Name_size (i_name i) + 2
      else Name_size (i_name i) < length full \<and> full ! Name_size (i_name i) \<le> name_of (d_name d) ! Name_size (i_name i))"

abbreviation full_of :: "(byte list \<Rightarrow> byte list) \<Rightarrow> data \<Rightarrow> component list" where
  "full_of sha256 d \<equiv> name_of (d_name d) @ [digest_component sha256 d]"

definition interest_ok :: "interest \<Rightarrow> bool" where
  "interest_ok i \<longleftrightarrow> name_block (i_name i) \<and> entries_ok (ex_entries (sel_exclude (i_selectors i)))"

lemma excludeBefore_admitted:
  assumes "entries_ok (ex_entries x)" and "\<not> isExcluded (ex_entries x) c"
  shows "\<exists>y. excludeBefore x c = Inr y \<and> entries_ok (ex_entries y)
     \<and> (\<forall>b. isExcluded (ex_entries y) b \<longleftrightarrow> isExcluded (ex_entries x) b \<or> b \<le> c)"
proof -
  let ?es = "ex_entries x" and ?C = "ExcludeComponent c"
  have lt: "NegInf < ?C" by (simp add: less_exclude_component_def)
  have "\<not> inside_older_range ?es NegInf ?C"
  proof
    assume "inside_older_range ?es NegInf ?C"
    then obtain e es' where e: "filter (\<lambda>e. fst e \<le> NegInf) ?es = e # es'" "snd e" "filter (\<lambda>e. NegInf < fst e \<and> fst e \<le> ?C) ?es = []"
      by (auto simp: inside_older_range_def split: list.splits)
    then have "filter (\<lambda>e. fst e \<le> ?C) ?es = e # es'" using filter_split(2) [OF assms(1) lt] by simp
    then have "top_entry (set ?es) ?C e" by (rule top_head [OF assms(1)])
    then have "covers (set ?es) ?C" using e(2) unfolding covers_def by blast
    then show False using assms(2) isExcluded_covers [OF assms(1)] by simp
  qed
  note r = range_entries_covers [OF assms(1) lt this]
  then show ?thesis using isExcluded_covers [OF r(1)] isExcluded_covers [OF assms(1)]
    by (simp add: excludeBefore_def excludeRange_from_def)
qed

lemma update_selectors_exact:
  assumes "interest_ok i" and "has_digest sha256 d" and a: "admits (i_selectors i) (name_of (i_name i)) (full_of sha256 d)"
    and le: "Name_size (i_name i) \<le> Name_size (d_name d)"
  shows "\<exists>j. update_selectors i d (fetch_again i h) = Inr j \<and> i_name j = i_name i \<and> interest_ok j
     \<and> sel_publisherPublicKeyLocator (i_selectors j) = sel_publisherPublicKeyLocator (i_selectors i)
     \<and> (\<forall>full. admits (i_selectors j) (name_of (i_name i)) full \<longleftrightarrow>
          admits (i_selectors i) (name_of (i_name i)) full \<and> \<not> left_out i d full)"
proof (cases "Name_size (d_name d) = Name_size (i_name i)")
  case True
  then have "sel_minSuffixComponents (i_selectors i) \<le> 1" using a by (auto simp: admits_def)
  then show ?thesis using True assms(1)
    by (auto simp: update_selectors_def fetch_again_def interest_setters interest_ok_def admits_def left_out_def)
next
  case False
  define k where "k = Name_size (i_name i)"
  define x where "x = (if \<not> Exclude_empty (sel_exclude (i_selectors i)) then sel_exclude (i_selectors i) else Exclude_default)"
  have k: "k < Name_size (d_name d)" using False le by (simp add: k_def)
  let ?c = "name_of (d_name d) ! k"
  have x: "ex_entries x = ex_entries (sel_exclude (i_selectors i))" by (simp add: x_def Exclude_empty_def Exclude_default_def)
  have "\<not> isExcluded (ex_entries x) ?c" using a k by (simp add: admits_def x k_def [symmetric] nth_append)
  then obtain y where y: "excludeBefore x ?c = Inr y" "entries_ok (ex_entries y)"
    "\<And>b. isExcluded (ex_entries y) b \<longleftrightarrow> isExcluded (ex_entries x) b \<or> b \<le> ?c"
    using excludeBefore_admitted [of x ?c] assms(1) by (auto simp: interest_ok_def x)
  have "Name_get (d_name d) (int k) = Inr (m_subBlocks (d_name d) ! k)" using k by (simp add: Name_get_def)
  then have "update_selectors i d (fetch_again i h) = Inr (Interest_setExclude (fetch_again i h) y)"
    using False y(1) k by (simp add: update_selectors_def x_def [symmetric] k_def [symmetric])
  then show ?thesis using False assms(1) y(2,3) k
    by (auto simp: fetch_again_def interest_setters interest_ok_def admits_def left_out_def x k_def [symmetric])
qed

lemma matches_keyLocator_same:
  "sel_publisherPublicKeyLocator (i_selectors j) = sel_publisherPublicKeyLocator (i_selectors i) \<Longrightarrow> matches_keyLocator j d = matches_keyLocator i d"
  by (simp add: matches_keyLocator_def)

lemma left_out_itself:
  "Name_size (i_name i) \<le> Name_size (d_name d) \<Longrightarrow> left_out i d (full_of sha256 d)"
  by (auto simp: left_out_def nth_append)

lemma matching_admits:
  "has_digest sha256 d \<Longrightarrow> name_block (i_name i) \<Longrightarrow> Interest_matchesData sha256 i d = Inr True \<Longrightarrow>
     admits (i_selectors i) (name_of (i_name i)) (full_of sha256 d)"
  by (simp add: Interest_matchesData_iff split: if_splits)

lemma update_selectors_matches:
  assumes "interest_ok i" and "has_digest sha256 d" and "Interest_matchesData sha256 i d = Inr True"
    and "Name_size (i_name i) \<le> Name_size (d_name d)"
  shows "\<exists>j. update_selectors i d (fetch_again i h) = Inr j \<and> interest_ok j
     \<and> (\<forall>e. has_digest sha256 e \<longrightarrow> Interest_matchesData sha256 j e =
          (if left_out i d (full_of sha256 e) then Inr False else Interest_matchesData sha256 i e))"
proof -
  have n: "name_block (i_name i)" using assms(1) by (simp add: interest_ok_def)
  obtain j where j: "update_selectors i d (fetch_again i h) = Inr j" "i_name j = i_name i" "interest_ok j"
    "sel_publisherPublicKeyLocator (i_selectors j) = sel_publisherPublicKeyLocator (i_selectors i)"
    "\<And>full. admits (i_selectors j) (name_of (i_name i)) full \<longleftrightarrow> admits (i_selectors i) (name_of (i_name i)) full \<and> \<not> left_out i d full"
    using update_selectors_exact [OF assms(1,2) matching_admits [OF assms(2) n assms(3)] assms(4)] by blast
  have "Interest_matchesData sha256 j e =
      (if left_out i d (full_of sha256 e) then Inr False else Interest_matchesData sha256 i e)" if "has_digest sha256 e" for e
    using that n j(2,5) by (simp add: Interest_matchesData_iff matches_keyLocator_same [OF j(4)])
  then show ?thesis using j(1,3) by blast
qed

lemma fetch_again_fields:
  "i_name (fetch_again i h) = i_name i" "sel_exclude (i_selectors (fetch_again i h)) = sel_exclude (i_selectors i)"
  "admits (i_selectors (fetch_again i h)) = admits (i_selectors i)" "matches_keyLocator (fetch_again i h) = matches_keyLocator i"
  by (simp_all add: fetch_again_def interest_setters admits_def matches_keyLocator_def fun_eq_iff)

lemma fetch_again_matches:
  "interest_ok i \<Longrightarrow> interest_ok (fetch_again i h)"
  "interest_ok i \<Longrightarrow> has_digest sha256 e \<Longrightarrow> Interest_matchesData sha256 (fetch_again i h) e = Interest_matchesData sha256 i e"
  by (simp_all only: interest_ok_def Interest_matchesData_iff fetch_again_fields)

text \<open>Which Interest a callback expresses, if any.\<close>

lemma onDataValidated_expresses:
  assumes "Watch_onDataValidated ops now i d n (h :: 'st watch_handle) = (None, h')" and "wa_pending h' = wa_pending h @ [(j, n)]"
  shows "\<exists>h1 :: 'st watch_handle. update_selectors i d (fetch_again i h1) = Inr j"
  using assms by (auto simp: Watch_onDataValidated_def onRunning_eq Let_def split: prod.splits sum.splits bool.splits if_splits)

lemma onDataValidationFailed_expresses:
  assumes "Watch_onDataValidationFailed now i d n (h :: 'st watch_handle) = (None, h')" and "wa_pending h' = wa_pending h @ [(j, n)]"
  shows "\<exists>h1 :: 'st watch_handle. update_selectors i d (fetch_again i h1) = Inr j"
  using assms by (auto simp: Watch_onDataValidationFailed_def onRunning_eq Let_def split: prod.splits sum.splits bool.splits if_splits)

lemma Watch_onTimeout_expresses:
  assumes "Watch_onTimeout now i n (h :: 'st watch_handle) = (None, h')" and "wa_pending h' = wa_pending h @ [(j, n)]"
  shows "\<exists>h1 :: 'st watch_handle. j = fetch_again i h1"
  using assms by (auto simp: Watch_onTimeout_def onRunning_eq Let_def split: if_splits)

text \<open>
  The Interests of one watch, one after the other, with the Data they have brought so far. Between two
  callbacks of the watch the handler may be in any state: other callbacks and commands may have run.
\<close>

inductive watch_chain :: "(byte list \<Rightarrow> byte list) \<Rightarrow> 'st storage_ops \<Rightarrow> interest \<Rightarrow> interest \<Rightarrow> data list \<Rightarrow> bool"
  for sha256 ops i0 where
  first: "watch_chain sha256 ops i0 i0 []"
| valid: "watch_chain sha256 ops i0 i ds \<Longrightarrow> has_digest sha256 d \<Longrightarrow> Interest_matchesData sha256 i d = Inr True \<Longrightarrow>
    Watch_onDataValidated ops now i d n h = (None, h') \<Longrightarrow> wa_pending h' = wa_pending h @ [(j, n)] \<Longrightarrow> watch_chain sha256 ops i0 j (d # ds)"
| invalid: "watch_chain sha256 ops i0 i ds \<Longrightarrow> has_digest sha256 d \<Longrightarrow> Interest_matchesData sha256 i d = Inr True \<Longrightarrow>
    Watch_onDataValidationFailed now i d n (h :: 'st watch_handle) = (None, h') \<Longrightarrow> wa_pending h' = wa_pending h @ [(j, n)] \<Longrightarrow> watch_chain sha256 ops i0 j (d # ds)"
| timeout: "watch_chain sha256 ops i0 i ds \<Longrightarrow> Watch_onTimeout now i n (h :: 'st watch_handle) = (None, h') \<Longrightarrow> wa_pending h' = wa_pending h @ [(j, n)] \<Longrightarrow>
    watch_chain sha256 ops i0 j ds"

definition chain_ok :: "(byte list \<Rightarrow> byte list) \<Rightarrow> interest \<Rightarrow> data list \<Rightarrow> bool" where
  "chain_ok sha256 i ds \<longleftrightarrow> interest_ok i \<and> distinct ds \<and> (\<forall>d \<in> set ds. has_digest sha256 d \<and> Interest_matchesData sha256 i d = Inr False)"

lemma update_selectors_short_name:
  assumes "Name_size (d_name d) < Name_size (i_name i)"
  shows "update_selectors i d f = Inl (UndefinedBehaviour ''vector index out of range'')"
  using assms by (simp add: update_selectors_def Name_get_def)

lemma chain_ok_Cons:
  assumes "chain_ok sha256 i ds" and "has_digest sha256 d" and "Interest_matchesData sha256 i d = Inr True"
    and "update_selectors i d (fetch_again i h) = Inr j"
  shows "chain_ok sha256 j (d # ds)"
proof -
  have le: "Name_size (i_name i) \<le> Name_size (d_name d)"
    using assms(4) update_selectors_short_name [of d i "fetch_again i h"] by (cases "Name_size (d_name d) < Name_size (i_name i)") auto
  have i: "interest_ok i" using assms(1) by (simp add: chain_ok_def)
  obtain j' where j': "update_selectors i d (fetch_again i h) = Inr j'" "interest_ok j'"
    "\<And>e. has_digest sha256 e \<Longrightarrow> Interest_matchesData sha256 j' e =
          (if left_out i d (full_of sha256 e) then Inr False else Interest_matchesData sha256 i e)"
    using update_selectors_matches [OF i assms(2,3) le] by blast
  moreover have "j' = j" using j'(1) assms(4) by simp
  ultimately show ?thesis using assms(1-3) left_out_itself [OF le, of sha256] by (auto simp: chain_ok_def)
qed

lemma watch_chain_ok: "watch_chain sha256 ops i0 i ds \<Longrightarrow> interest_ok i0 \<Longrightarrow> chain_ok sha256 i ds"
proof (induction rule: watch_chain.induct)
  case first
  then show ?case by (simp add: chain_ok_def)
next
  case (valid i ds d now n h h' j)
  then show ?case using onDataValidated_expresses [OF valid(4,5)] chain_ok_Cons by blast
next
  case (invalid i ds d now n h h' j)
  then show ?case using onDataValidationFailed_expresses [OF invalid(4,5)] chain_ok_Cons by blast
next
  case (timeout i ds now n h h' j)
  then obtain h1 :: "'a watch_handle" where "j = fetch_again i h1" using Watch_onTimeout_expresses [OF timeout(2,3)] by blast
  then show ?case using timeout by (simp add: chain_ok_def fetch_again_matches)
qed

section \<open>The number of Interests\<close>

text \<open>
  A run of the handler with one watch, of the name \<open>n\<close> and with \<open>m\<close> as its limit: the start command on a
  handler that watches nothing, then in any order the answers to pending Interests, commands that check
  any watch or stop this one, and scheduled deletions. \<open>k\<close> counts the Interests expressed.
\<close>

inductive watch_run :: "(data \<Rightarrow> data) \<Rightarrow> 'st storage_ops \<Rightarrow> name \<Rightarrow> int \<Rightarrow> nat \<Rightarrow> 'st watch_handle \<Rightarrow> bool"
  for sign ops n m where
  start: "processWatchCommand sign now i p h = (None, h') \<Longrightarrow> p_name p = n \<Longrightarrow> p_hasMaxInterestNum p \<Longrightarrow> sint (p_maxInterestNum p) = m \<Longrightarrow>
    wa_interestNum h = 0 \<Longrightarrow> wa_pending h = [] \<Longrightarrow> watch_run sign ops n m 1 h'"
| valid: "watch_run sign ops n m k h \<Longrightarrow> wa_pending h = ps @ (i, n') # qs \<Longrightarrow>
    Watch_onDataValidated ops now i d n' (h\<lparr>wa_pending := ps @ qs\<rparr>) = (err, h') \<Longrightarrow>
    watch_run sign ops n m (k + (length (wa_pending h') - length (ps @ qs))) h'"
| invalid: "watch_run sign ops n m k h \<Longrightarrow> wa_pending h = ps @ (i, n') # qs \<Longrightarrow>
    Watch_onDataValidationFailed now i d n' (h\<lparr>wa_pending := ps @ qs\<rparr>) = (err, h') \<Longrightarrow>
    watch_run sign ops n m (k + (length (wa_pending h') - length (ps @ qs))) h'"
| timeout: "watch_run sign ops n m k h \<Longrightarrow> wa_pending h = ps @ (i, n') # qs \<Longrightarrow>
    Watch_onTimeout now i n' (h\<lparr>wa_pending := ps @ qs\<rparr>) = (err, h') \<Longrightarrow>
    watch_run sign ops n m (k + (length (wa_pending h') - length (ps @ qs))) h'"
| stop: "watch_run sign ops n m k h \<Longrightarrow> extractParameter i prefix Parameter_default = (e, p) \<Longrightarrow> name_of (p_name p) = name_of n \<Longrightarrow>
    Watch_onStopValidated sign now i prefix h = (err, h') \<Longrightarrow> watch_run sign ops n m k h'"
| check: "watch_run sign ops n m k h \<Longrightarrow> Watch_onCheckValidated sign i prefix h = (err, h') \<Longrightarrow> watch_run sign ops n m k h'"
| refused: "watch_run sign ops n m k h \<Longrightarrow> Watch_onValidationFailed sign i h = (err, h') \<Longrightarrow> watch_run sign ops n m k h'"
| remove: "watch_run sign ops n m k h \<Longrightarrow> (t, n') \<in> set (wa_scheduled h) \<Longrightarrow> watch_run sign ops n m k (Watch_deleteProcess n' h)"

definition run_ok :: "name \<Rightarrow> int \<Rightarrow> nat \<Rightarrow> 'st watch_handle \<Rightarrow> bool" where
  "run_ok n m k h \<longleftrightarrow> (wa_pending h = [] \<or> (\<exists>i. wa_pending h = [(i, n)])) \<and> int k \<le> max 1 m
     \<and> (snd (watch_at h n) \<longrightarrow> wa_maxInterestNum h = m \<and> wa_interestNum h = int k)"

text \<open>What a callback of the watch does to these, the storage left aside.\<close>

lemma run_ok_touch [simp]: "run_ok n m k (touch n h) = run_ok n m k h"
  by (simp add: run_ok_def) (simp add: touch_def set_watch_def)

lemma run_ok_storage [simp]:
  "run_ok n m k (h\<lparr>nd_storage := s\<rparr>) = run_ok n m k h" "run_ok n m k (h\<lparr>wa_size := z\<rparr>) = run_ok n m k h"
  "run_ok n m k (h\<lparr>nd_sent := ds\<rparr>) = run_ok n m k h"
  by (simp_all add: run_ok_def watch_at_def)

lemma run_ok_response [simp]: "snd w = snd (watch_at h n) \<Longrightarrow> run_ok n m k (set_watch n w h) = run_ok n m k h"
  by (simp add: run_ok_def) (simp add: set_watch_def)

lemma run_ok_stopped: "run_ok n m k h \<Longrightarrow> run_ok n m k (watchStop now n h)"
  by (simp add: run_ok_def watchStop_def watch_at_def set_watch_def)

lemma run_ok_deferred [simp]: "run_ok n m k (Watch_deferredDeleteProcess n h) = run_ok n m k h"
  by (simp add: run_ok_def Watch_deferredDeleteProcess_def watch_at_def)

lemma run_ok_express:
  assumes "run_ok n m k h" and "within_limits now h" and "snd (watch_at h n)" and "wa_pending h = []" and "m \<noteq> 0"
  shows "run_ok n m (Suc k) (count_and_express i n h)"
  using assms by (auto simp: run_ok_def within_limits_def) (simp_all add: count_and_express_def Watch_expressInterest_def)

lemma run_ok_answered:
  assumes "run_ok n m k h" and "wa_pending h = ps @ (i, n') # qs"
  shows "n' = n \<and> ps = [] \<and> qs = [] \<and> run_ok n m k (h\<lparr>wa_pending := []\<rparr>)"
  using assms by (auto simp: run_ok_def watch_at_def append_eq_Cons_conv)

text \<open>The three callbacks, on a handler without pending Interests.\<close>

definition counted :: "name \<Rightarrow> int \<Rightarrow> nat \<Rightarrow> 'st watch_handle \<Rightarrow> bool" where
  "counted n m k h \<longleftrightarrow> run_ok n m (k + length (wa_pending h)) h"

lemma counted_idle: "wa_pending h = [] \<Longrightarrow> counted n m k h \<longleftrightarrow> run_ok n m k h"
  by (simp add: counted_def)

lemma onRunning_counted:
  assumes "run_ok n m k h" and "wa_pending h = []" and "snd (watch_at h n)" and "m \<noteq> 0"
  shows "(\<exists>h1. onRunning now n h = (False, h1) \<and> counted n m k h1)
    \<or> onRunning now n h = (True, h) \<and> (\<forall>i. counted n m k (count_and_express i n h))"
  using assms run_ok_express [OF assms(1) _ assms(3,2,4)] run_ok_stopped [of n m k "Watch_deferredDeleteProcess n h" now]
  by (auto simp: onRunning_eq counted_def)

lemma timeout_counted:
  assumes "run_ok n m k h" and "wa_pending h = []" and "m \<noteq> 0" and "Watch_onTimeout now i n h = (err, h')"
  shows "counted n m k h'"
  using assms onRunning_counted [of n m k "touch n h" now]
  by (auto simp: Watch_onTimeout_def Let_def counted_idle split: if_splits prod.splits bool.splits)

lemma validationFailed_counted:
  assumes "run_ok n m k h" and "wa_pending h = []" and "m \<noteq> 0" and "Watch_onDataValidationFailed now i d n h = (err, h')"
  shows "counted n m k h'"
  using assms onRunning_counted [of n m k "touch n h" now]
  by (auto simp: Watch_onDataValidationFailed_def Let_def counted_idle split: if_splits prod.splits bool.splits sum.splits)

lemma counted_response: "snd w = snd (watch_at h n) \<Longrightarrow> counted n m k (set_watch n w h) = counted n m k h"
  by (simp add: counted_def)

lemma validated_counted:
  assumes "run_ok n m k h" and "wa_pending h = []" and "m \<noteq> 0" and "Watch_onDataValidated ops now i d n h = (err, h')"
  shows "counted n m k h'"
proof (cases "snd (watch_at h n)")
  case False
  then have "h' = touch n h" using assms(4) by (simp add: Watch_onDataValidated_def Let_def)
  then show ?thesis using assms(1,2) by (simp add: counted_idle)
next
  case True
  obtain r s where r: "insertData ops d (nd_storage h) = (r, s)" by fastforce
  define h1 where "h1 = touch n h\<lparr>nd_storage := s, wa_size := wa_size (touch n h) + 1\<rparr>"
  have h1: "run_ok n m k h1" "wa_pending h1 = []" "snd (watch_at h1 n)" using assms(1,2) True by (simp_all add: h1_def)
  show ?thesis
  proof (cases "r = Inr True")
    case False
    then show ?thesis using assms(1,2,4) True r by (auto simp: Watch_onDataValidated_def Let_def counted_idle split: sum.splits bool.splits)
  next
    case True
    with r assms(4) \<open>snd (watch_at h n)\<close> have e: "(case onRunning now n h1 of (False, h1) \<Rightarrow> (None, h1)
        | (True, h1) \<Rightarrow> (case update_selectors i d (fetch_again i h1) of Inl e \<Rightarrow> (Some e, h1)
           | Inr f \<Rightarrow> (let h2 = count_and_express f n h1; w = watch_at h2 n
                in (None, set_watch n (Response_setInsertNum (word_of_int (wa_size h2)) (fst w), snd w) h2)))) = (err, h')"
      by (simp add: Watch_onDataValidated_def Let_def h1_def)
    then show ?thesis using onRunning_counted [OF h1 assms(3), of now] h1
      by (auto simp: Let_def counted_idle counted_response split: sum.splits bool.splits)
  qed
qed

lemma BaseHandle_reply_keeps:
  "BaseHandle_reply sign i r h = (err, r', h') \<Longrightarrow> \<exists>ds. h' = h\<lparr>nd_sent := ds\<rparr>"
  by (auto simp: BaseHandle_reply_def split: sum.splits prod.splits intro: exI [of _ "nd_sent h"])

lemma negativeReply_keeps: "negativeReply sign i code h = (err, h') \<Longrightarrow> \<exists>ds. h' = h\<lparr>nd_sent := ds\<rparr>"
  by (auto simp: negativeReply_def split: prod.splits dest: BaseHandle_reply_keeps)

lemma stop_run_ok:
  assumes "run_ok n m k h" and "name_of (p_name p) = name_of n" and "extractParameter i prefix Parameter_default = (e, p)"
    and "Watch_onStopValidated sign now i prefix h = (err, h')"
  shows "run_ok n m k h'"
proof -
  have s: "watchStop now (p_name p) h = watchStop now n h" using assms(2) by (simp add: watchStop_def set_watch_def watch_at_def)
  have "(\<exists>ds. h' = h\<lparr>nd_sent := ds\<rparr>) \<or> (\<exists>ds. h' = watchStop now n h\<lparr>nd_sent := ds\<rparr>) \<or> h' = h"
    using assms(3,4) s by (auto simp: Watch_onStopValidated_def split: option.splits if_splits dest: negativeReply_keeps)
  then show ?thesis using assms(1) run_ok_stopped by auto
qed

lemma check_keeps:
  assumes "Watch_onCheckValidated sign i prefix h = (err, h')"
  shows "(\<exists>ds. h' = h\<lparr>nd_sent := ds\<rparr>) \<or> h' = h \<or>
    (\<exists>q w r' ds. wa_processes h (name_of q) = Some w \<and> h' = set_watch q (r', snd w) (h\<lparr>nd_sent := ds\<rparr>))"
proof -
  obtain e p where ep: "extractParameter i prefix Parameter_default = (e, p)" by fastforce
  consider "(\<exists>code. negativeReply sign i code h = (err, h')) \<or> h' = h"
    | w where "wa_processes h (name_of (p_name p)) = Some w"
        "(\<exists>r r' h1. BaseHandle_reply sign i r h = (err, r', h1) \<and> h' = set_watch (p_name p) (r', snd w) h1)"
    using assms ep by (cases "wa_processes h (name_of (p_name p))")
      (auto simp: Watch_onCheckValidated_def Let_def split: option.splits if_splits prod.splits)
  then show ?thesis
  proof cases
    case 1
    then show ?thesis using negativeReply_keeps by blast
  next
    case 2
    then show ?thesis using BaseHandle_reply_keeps by blast
  qed
qed

lemma check_run_ok:
  assumes "run_ok n m k h" and "Watch_onCheckValidated sign i prefix h = (err, h')"
  shows "run_ok n m k h'"
proof -
  have "run_ok n m k (set_watch q (r', snd w) h)" if "wa_processes h (name_of q) = Some w" for q w r'
    using assms(1) that by (auto simp: run_ok_def set_watch_def watch_at_def split: option.splits)
  moreover have "set_watch q w (h\<lparr>nd_sent := ds\<rparr>) = set_watch q w h\<lparr>nd_sent := ds\<rparr>" for q w ds by (simp add: set_watch_def)
  ultimately have "run_ok n m k (set_watch q (r', snd w) (h\<lparr>nd_sent := ds\<rparr>))" if "wa_processes h (name_of q) = Some w" for q w r' ds
    using that by simp
  then show ?thesis using check_keeps [OF assms(2)] assms(1) by auto
qed

lemma remove_run_ok: "run_ok n m k h \<Longrightarrow> run_ok n m k (Watch_deleteProcess n' h)"
  by (auto simp: run_ok_def Watch_deleteProcess_def watch_at_def)

lemma start_run_ok:
  assumes "processWatchCommand sign now i p h = (None, h')" and "p_hasMaxInterestNum p" and "wa_interestNum h = 0" and "wa_pending h = []"
  shows "run_ok (p_name p) (sint (p_maxInterestNum p)) 1 h'"
  using assms by (auto simp: processWatchCommand_def Let_def run_ok_def split: prod.splits option.splits dest!: BaseHandle_reply_keeps)
    (simp_all add: count_and_express_def Watch_expressInterest_def set_watch_def)

lemma processWatchCommand_starts: "\<exists>h'. processWatchCommand sign now i p (h :: 'st watch_handle) = (None, h')"
proof -
  let ?r = "Response_setStatusCode 100 Response_default"
  have "r_hasStatusCode ?r" "\<not> Block_hasWire (r_wire ?r)" by (simp_all add: response_setters)
  then have "fst (BaseHandle_reply sign i ?r nd) = None" for nd :: "'st watch_handle" using reply_ok [of ?r sign i nd] by auto
  then have "\<exists>r' h2. BaseHandle_reply sign i ?r nd = (None, r', h2)" for nd :: "'st watch_handle" by (metis prod.collapse)
  then obtain f g where "BaseHandle_reply sign i ?r nd = (None, f nd, g nd)" for nd :: "'st watch_handle" by metis
  then show ?thesis by (simp add: processWatchCommand_def Let_def)
qed

text \<open>One answer to a pending Interest.\<close>

lemma run_ok_callback:
  assumes "run_ok n m k h" and "wa_pending h = ps @ (i, n') # qs"
    and "\<And>h0. run_ok n m k h0 \<Longrightarrow> wa_pending h0 = [] \<Longrightarrow> n' = n \<Longrightarrow> h0 = h\<lparr>wa_pending := ps @ qs\<rparr> \<Longrightarrow> counted n m k h'"
  shows "run_ok n m (k + (length (wa_pending h') - length (ps @ qs))) h'"
proof -
  have a: "n' = n" "ps = []" "qs = []" "run_ok n m k (h\<lparr>wa_pending := []\<rparr>)" using run_ok_answered [OF assms(1,2)] by simp_all
  have "counted n m k h'" by (rule assms(3) [OF a(4) _ a(1)]) (simp_all add: a(2,3))
  then show ?thesis by (simp add: counted_def a(2,3))
qed

lemma watch_run_ok: "watch_run sign ops n m k h \<Longrightarrow> m \<noteq> 0 \<Longrightarrow> run_ok n m k h"
proof (induction rule: watch_run.induct)
  case (start now i p h h')
  then show ?case using start_run_ok by blast
next
  case (valid k h ps i n' qs now d err h')
  have "run_ok n m k h" using valid by blast
  then show ?case using valid.hyps(2) by (rule run_ok_callback) (use valid.hyps(3) valid.prems validated_counted in metis)
next
  case (invalid k h ps i n' qs now d err h')
  have "run_ok n m k h" using invalid by blast
  then show ?case using invalid.hyps(2) by (rule run_ok_callback) (use invalid.hyps(3) invalid.prems validationFailed_counted in metis)
next
  case (timeout k h ps i n' qs now err h')
  have "run_ok n m k h" using timeout by blast
  then show ?case using timeout.hyps(2) by (rule run_ok_callback) (use timeout.hyps(3) timeout.prems timeout_counted in metis)
next
  case (stop k h i prefix e p now err h')
  then show ?case using stop_run_ok by blast
next
  case (check k h i prefix err h')
  then show ?case using check_run_ok by blast
next
  case (refused k h i err h')
  then show ?case using negativeReply_keeps unfolding Watch_onValidationFailed_def by fastforce
next
  case (remove k h t n')
  then show ?case using remove_run_ok by blast
qed

section \<open>Example\<close>

text \<open>A packet of the name \<open>a\<close> with a wire, and a database that takes everything.\<close>

definition watched_data :: data where
  "watched_data = example_data\<lparr>d_wire := Block (Some [6, 0]) tlv_Data 0 2 2 2 2 []\<rparr>"

abbreviation zero_digest :: "byte list \<Rightarrow> byte list" where
  "zero_digest \<equiv> \<lambda>_. replicate 32 0"

lemma watched_data:
  "d_name watched_data = name_a" "has_digest zero_digest watched_data" "Name_size name_a = 1"
  "interest_ok (Interest_of_name name_a)" "Interest_matchesData zero_digest (Interest_of_name name_a) watched_data = Inr True"
proof -
  show n: "d_name watched_data = name_a" by (simp add: watched_data_def example_data_def Data_of_name_def)
  show d: "has_digest zero_digest watched_data"
    by (simp add: has_digest_def n example_names Name_size_def) (simp add: watched_data_def Block_hasWire_def example_data_def Data_of_name_def
        Data_default_def Name_empty_def Name_default_def Block_of_type_def SHA256_DIGEST_SIZE_def)
  show s: "Name_size name_a = 1" using length_name_of [of name_a] by (simp add: example_names)
  show i: "interest_ok (Interest_of_name name_a)"
    by (simp add: interest_ok_def Interest_of_name_def example_names Interest_default_def Selectors_default_def Exclude_default_def entries_ok_def)
  have "admits (i_selectors (Interest_of_name name_a)) (name_of name_a) (name_of name_a @ [c])" for c
    by (simp add: admits_def Interest_of_name_def Interest_default_def Selectors_default_def example_names isExcluded_empty Exclude_default_def
        Exclude_empty_def)
  moreover have "matches_keyLocator (Interest_of_name name_a) watched_data = Inr True" "i_name (Interest_of_name name_a) = name_a"
    by (simp_all add: matches_keyLocator_def Interest_of_name_def Interest_default_def Selectors_default_def KeyLocator_default_def KeyLocator_empty_def)
  ultimately show "Interest_matchesData zero_digest (Interest_of_name name_a) watched_data = Inr True"
    using i by (simp add: Interest_matchesData_iff [OF d] interest_ok_def n)
qed

definition watching :: "int list watch_handle" where
  "watching = (set_watch name_a (Response_default, True) (WatchHandle_new 0 (RepoStorage_new 9 [])))\<lparr>wa_maxInterestNum := 5, wa_interestNum := 1\<rparr>"

lemma watching:
  "watch_at watching name_a = (Response_default, True)" "within_limits 0 watching" "nd_storage watching = RepoStorage_new 9 []"
  "wa_pending watching = []"
  by (simp_all add: watching_def within_limits_def set_watch_def watch_at_def WatchHandle_new_def)

section \<open>Properties\<close>

text \<open>
  C29: what a watch asks for next. When Data arrives that the pending Interest asked for and whose name
  is at least as long as the Interest's (it is shorter when the watched name ends in the digest), and
  the database stores it when it is valid, a running watch within its limits expresses exactly one new
  Interest, whether the Data is valid (and then stored) or not. This Interest matches the same Data with
  a wire and shortest component wires as the one before except: all with the Interest's own name, when
  the Data had it; otherwise every name whose component after the prefix is the received one or
  \<^emph>\<open>smaller\<close>. The comment in \<^verbatim>\<open>onDataValidationFailed\<close>
  promises to leave out the received Data only.
\<close>

theorem watch_next_interest:
  assumes "interest_ok i" and "has_digest sha256 d" and "Interest_matchesData sha256 i d = Inr True"
    and "Name_size (i_name i) \<le> Name_size (d_name d)" and "snd (watch_at h n)" and "within_limits now h"
    and "insertData ops d (nd_storage h) = (Inr True, s)"
  shows "\<exists>j h1 h2. Watch_onDataValidated ops now i d n h = (None, h1) \<and> wa_pending h1 = wa_pending h @ [(j, n)] \<and> nd_storage h1 = s
     \<and> Watch_onDataValidationFailed now i d n h = (None, h2) \<and> wa_pending h2 = wa_pending h @ [(j, n)] \<and> nd_storage h2 = nd_storage h
     \<and> interest_ok j
     \<and> (\<forall>e. has_digest sha256 e \<longrightarrow> Interest_matchesData sha256 j e =
          (if left_out i d (full_of sha256 e) then Inr False else Interest_matchesData sha256 i e))"
proof -
  let ?h = "touch n h\<lparr>nd_storage := s, wa_size := wa_size (touch n h) + 1\<rparr>"
  have f: "fetch_again i ?h = fetch_again i (touch n h)" by (simp add: fetch_again_def)
  obtain j where j: "update_selectors i d (fetch_again i (touch n h)) = Inr j" "interest_ok j"
    "\<forall>e. has_digest sha256 e \<longrightarrow> Interest_matchesData sha256 j e =
          (if left_out i d (full_of sha256 e) then Inr False else Interest_matchesData sha256 i e)"
    using update_selectors_matches [OF assms(1-4)] by blast
  show ?thesis using assms(5-7) j
    by (intro exI [of _ j]) (simp add: Watch_onDataValidated_def Watch_onDataValidationFailed_def onRunning_eq Let_def f)
qed

theorem watch_next_interest_witness:
  "\<exists>j h1. Watch_onDataValidated list_storage 0 (Interest_of_name name_a) watched_data name_a watching = (None, h1)
     \<and> wa_pending h1 = [(j, name_a)] \<and> Interest_matchesData zero_digest j watched_data = Inr False"
proof -
  have s: "insertData list_storage watched_data (nd_storage watching) = (Inr True, (RepoStorage_new 9 [])\<lparr>rs_storage := [1]\<rparr>)"
    by (simp add: watching insertData_def list_storage_def RepoStorage_new_def)
  have "left_out (Interest_of_name name_a) watched_data (full_of zero_digest watched_data)"
    by (rule left_out_itself) (simp add: watched_data(1) Interest_of_name_def)
  moreover have "Name_size (i_name (Interest_of_name name_a)) \<le> Name_size (d_name watched_data)" by (simp add: watched_data(1) Interest_of_name_def)
  ultimately show ?thesis
    using watch_next_interest [OF watched_data(4,2,5) _ _ watching(2) s, of name_a] watching(1,4) watched_data(2) by auto
qed

text \<open>
  C20: a watch never receives the same Data twice. Along the Interests of one watch, whatever other
  commands and callbacks the handler runs in between, no pending Interest matches any Data received
  before, stored or refused, and all Data received are different.
\<close>

theorem watch_never_refetches:
  assumes "watch_chain sha256 ops i0 i ds" and "interest_ok i0"
  shows "distinct ds \<and> (\<forall>d \<in> set ds. Interest_matchesData sha256 i d = Inr False)"
  using watch_chain_ok [OF assms] by (simp add: chain_ok_def)

theorem watch_never_refetches_witness:
  "\<exists>j. watch_chain zero_digest list_storage (Interest_of_name name_a) j [watched_data] \<and> Interest_matchesData zero_digest j watched_data = Inr False"
proof -
  let ?i = "Interest_of_name name_a"
  obtain j where j: "update_selectors ?i watched_data (fetch_again ?i (touch name_a watching)) = Inr j"
    using update_selectors_matches [OF watched_data(4,2,5)] watched_data(1) by (auto simp: Interest_of_name_def)
  then have "Watch_onDataValidationFailed 0 ?i watched_data name_a watching = (None, count_and_express j name_a (touch name_a watching))"
    by (simp add: Watch_onDataValidationFailed_def onRunning_eq watching Let_def)
  then have "watch_chain zero_digest list_storage ?i j [watched_data]"
    by (rule watch_chain.invalid [OF watch_chain.first watched_data(2,5)]) simp
  then show ?thesis using watch_never_refetches [OF _ watched_data(4)] by fastforce
qed

text \<open>
  The limit on Interests holds for a handler with one watch. Started with a number of Interests
  other than \<open>0\<close>, the watch has at most one Interest pending at a time and expresses at most that
  number of Interests in all (the first one in any case), however the callbacks, the checks, stop
  commands for the watched name and the scheduled deletions follow each other. A stop command for another name
  lifts the limit, see \<open>watchStop_lifts_other_limits\<close>.
\<close>

theorem watch_interest_limit:
  assumes "watch_run sign ops n m k h" and "m \<noteq> 0"
  shows "int k \<le> max 1 m \<and> length (wa_pending h) \<le> 1"
  using watch_run_ok [OF assms] by (auto simp: run_ok_def)

theorem watch_interest_limit_witness:
  "\<exists>h. watch_run (\<lambda>d. d) list_storage name_a 2 1 h \<and> length (wa_pending h) \<le> 1"
proof -
  define p where "p = Parameter_setMaxInterestNum (Parameter_setName Parameter_default name_a) 2"
  have p: "p_name p = name_a" "p_hasMaxInterestNum p" "sint (p_maxInterestNum p) = 2"
    by (simp_all add: p_def Parameter_setMaxInterestNum_def Parameter_setName_def Parameter_drop_wire_def)
  obtain h' :: "int list watch_handle"
    where "processWatchCommand (\<lambda>d. d) 0 (Interest_of_name name_a) p (WatchHandle_new 0 (RepoStorage_new 9 [])) = (None, h')"
    using processWatchCommand_starts by blast
  then have "watch_run (\<lambda>d. d) list_storage name_a 2 1 h'"
    by (rule watch_run.start [OF _ p]) (simp_all add: WatchHandle_new_def)
  then show ?thesis using watch_interest_limit by fastforce
qed

text \<open>
  The limits are shared by all watches. Stopping one watch, by command or because its own time is
  over, takes the limits off every other one: it is within its limits at every later time, whatever
  number of Interests or time it was started with. Its count of stored packets starts again, too.
\<close>

theorem watchStop_lifts_other_limits:
  assumes "name_of n \<noteq> name_of n'" and "snd (watch_at h n)"
  shows "snd (watch_at (watchStop now n' h) n) \<and> (\<forall>t. onRunning t n (watchStop now n' h) = (True, watchStop now n' h))
     \<and> wa_size (watchStop now n' h) = 0"
  using assms by (simp add: onRunning_eq within_limits_def watchStop_def set_watch_def watch_at_def)

theorem watchStop_lifts_other_limits_witness:
  "snd (watch_at (watchStop 0 name_a_b watching) name_a) \<and> fst (onRunning 99 name_a (watchStop 0 name_a_b watching))"
  using watchStop_lifts_other_limits [of name_a name_a_b watching 0] by (simp add: watching(1) example_names)

end
