(* ===== verification/Rib.thy ===== *)
theory Rib
  imports NameMap
begin

text \<open>
  The routing information base of the forwarder, \<^verbatim>\<open>ndn/NFD/rib/rib-entry.cpp\<close> and \<^verbatim>\<open>rib.cpp\<close>: entries
  with the routes registered for a name, linked to parent and children entries. An entry is the only one
  of its name, so a \<^verbatim>\<open>shared_ptr<RibEntry>\<close> to an entry of the table is its name. Signals and
  cancelled expiration events are recorded in a log, oldest first. A failed \<^verbatim>\<open>BOOST_ASSERT\<close> is an error.
\<close>

unbundle bit_operations_syntax

section \<open>Routes\<close>

definition ROUTE_FLAG_CHILD_INHERIT :: u64 where "ROUTE_FLAG_CHILD_INHERIT = 1"
definition ROUTE_FLAG_CAPTURE :: u64 where "ROUTE_FLAG_CAPTURE = 2"

record route =
  rt_faceId :: u64
  rt_origin :: u64
  rt_flags :: u64
  rt_cost :: u64
  rt_expires :: int
  rt_event :: "nat option"

definition isChildInherit :: "route \<Rightarrow> bool" where
  "isChildInherit r \<longleftrightarrow> rt_flags r AND ROUTE_FLAG_CHILD_INHERIT \<noteq> 0"

definition isCapture :: "route \<Rightarrow> bool" where
  "isCapture r \<longleftrightarrow> rt_flags r AND ROUTE_FLAG_CAPTURE \<noteq> 0"

definition compareFaceIdAndOrigin :: "route \<Rightarrow> route \<Rightarrow> bool" where
  "compareFaceIdAndOrigin lhs rhs \<longleftrightarrow> rt_faceId lhs = rt_faceId rhs \<and> rt_origin lhs = rt_origin rhs"

definition Route_equals :: "route \<Rightarrow> route \<Rightarrow> bool" where
  "Route_equals a b \<longleftrightarrow> rt_faceId a = rt_faceId b \<and> rt_origin a = rt_origin b \<and> rt_flags a = rt_flags b
     \<and> rt_cost a = rt_cost b \<and> rt_expires a = rt_expires b"

section \<open>Entries\<close>

record rib_entry =
  re_name :: full_name
  re_parent :: "full_name option"
  re_children :: "full_name list"
  re_routes :: "route list"
  re_inherited :: "route list"
  re_nCapture :: u64

definition RibEntry_new :: "full_name \<Rightarrow> rib_entry" where
  "RibEntry_new n = \<lparr>re_name = n, re_parent = None, re_children = [], re_routes = [], re_inherited = [], re_nCapture = 0\<rparr>"

text \<open>\<^verbatim>\<open>std::find_if\<close> on a list: the position of the first element, or the end.\<close>

definition find_if :: "('a \<Rightarrow> bool) \<Rightarrow> 'a list \<Rightarrow> nat" where
  "find_if P xs = length (takeWhile (\<lambda>x. \<not> P x) xs)"

definition remove_at :: "nat \<Rightarrow> 'a list \<Rightarrow> 'a list" where
  "remove_at i xs = take i xs @ drop (Suc i) xs"

definition findRoute :: "rib_entry \<Rightarrow> route \<Rightarrow> nat" where
  "findRoute e r = find_if (\<lambda>x. compareFaceIdAndOrigin x r) (re_routes e)"

definition insertRoute :: "rib_entry \<Rightarrow> route \<Rightarrow> rib_entry \<times> nat \<times> bool" where
  "insertRoute e r =
     (let it = findRoute e r
      in if it = length (re_routes e)
         then (e\<lparr>re_nCapture := (if isCapture r then re_nCapture e + 1 else re_nCapture e), re_routes := re_routes e @ [r]\<rparr>, it, True)
         else (e, it, False))"

text \<open>Erasing a route also gives the expiration event that is cancelled.\<close>

definition eraseRoute_at :: "rib_entry \<Rightarrow> nat \<Rightarrow> rib_entry \<times> nat option" where
  "eraseRoute_at e it =
     (if it \<noteq> length (re_routes e)
      then (e\<lparr>re_nCapture := (if isCapture (re_routes e ! it) then re_nCapture e - 1 else re_nCapture e),
              re_routes := remove_at it (re_routes e)\<rparr>, rt_event (re_routes e ! it))
      else (e, None))"

definition eraseRoute :: "rib_entry \<Rightarrow> route \<Rightarrow> rib_entry \<times> nat option" where
  "eraseRoute e r = eraseRoute_at e (findRoute e r)"

definition hasFaceId :: "rib_entry \<Rightarrow> u64 \<Rightarrow> bool" where
  "hasFaceId e f \<longleftrightarrow> find_if (\<lambda>x. rt_faceId x = f) (re_routes e) \<noteq> length (re_routes e)"

definition addInheritedRoute_to :: "route \<Rightarrow> rib_entry \<Rightarrow> rib_entry" where
  "addInheritedRoute_to r e = e\<lparr>re_inherited := re_inherited e @ [r]\<rparr>"

definition removeInheritedRoute_from :: "route \<Rightarrow> rib_entry \<Rightarrow> rib_entry res" where
  "removeInheritedRoute_from r e =
     (let it = find_if (\<lambda>x. rt_faceId x = rt_faceId r) (re_inherited e)
      in if it = length (re_inherited e) then Inl (UndefinedBehaviour ''erase of the end iterator'')
         else Inr (e\<lparr>re_inherited := remove_at it (re_inherited e)\<rparr>))"

definition hasInheritedRoute :: "rib_entry \<Rightarrow> route \<Rightarrow> bool" where
  "hasInheritedRoute e r \<longleftrightarrow> find_if (\<lambda>x. rt_faceId x = rt_faceId r) (re_inherited e) \<noteq> length (re_inherited e)"

definition hasCapture :: "rib_entry \<Rightarrow> bool" where
  "hasCapture e \<longleftrightarrow> re_nCapture e > 0"

definition hasChildInheritOnFaceId :: "rib_entry \<Rightarrow> u64 \<Rightarrow> bool" where
  "hasChildInheritOnFaceId e f \<longleftrightarrow> (\<exists>r \<in> set (re_routes e). rt_faceId r = f \<and> isChildInherit r)"

text \<open>The loops that look for the cheapest of the routes that satisfy a condition.\<close>

fun lowest_cost :: "(route \<Rightarrow> bool) \<Rightarrow> route option \<Rightarrow> route list \<Rightarrow> route option" where
  "lowest_cost P candidate [] = candidate"
| "lowest_cost P candidate (r # rs) =
     lowest_cost P
       (if P r then case candidate of None \<Rightarrow> Some r | Some c \<Rightarrow> if rt_cost r < rt_cost c then Some r else Some c
        else candidate) rs"

definition getRouteWithLowestCostByFaceId :: "rib_entry \<Rightarrow> u64 \<Rightarrow> route option" where
  "getRouteWithLowestCostByFaceId e f = lowest_cost (\<lambda>r. rt_faceId r = f) None (re_routes e)"

definition getRouteWithLowestCostAndChildInheritByFaceId :: "rib_entry \<Rightarrow> u64 \<Rightarrow> route option" where
  "getRouteWithLowestCostAndChildInheritByFaceId e f = lowest_cost (\<lambda>r. rt_faceId r = f \<and> isChildInherit r) None (re_routes e)"

text \<open>\<^verbatim>\<open>std::nth_element\<close> puts the second cheapest route at position 1; routes of equal cost stay in order.\<close>

definition getRouteWithSecondLowestCostByFaceId :: "rib_entry \<Rightarrow> u64 \<Rightarrow> route option" where
  "getRouteWithSecondLowestCostByFaceId e f =
     (let matches = filter (\<lambda>r. rt_faceId r = f) (re_routes e)
      in if length matches < 2 then None else Some (sort_key rt_cost matches ! 1))"

section \<open>The table\<close>

datatype rib_event = AfterInsertEntry full_name | AfterEraseEntry full_name | AfterAddRoute full_name route
  | BeforeRemoveRoute full_name route | CancelEvent nat

record rib =
  rb_table :: "(full_name \<times> rib_entry) list"
  rb_faceMap :: "u64 \<Rightarrow> full_name list"
  rb_nItems :: nat
  rb_log :: "rib_event list"

definition Rib_new :: rib where
  "Rib_new = \<lparr>rb_table = [], rb_faceMap = (\<lambda>_. []), rb_nItems = 0, rb_log = []\<rparr>"

definition Rib_find :: "rib \<Rightarrow> full_name \<Rightarrow> rib_entry option" where
  "Rib_find b n = map_find name_lt n (rb_table b)"

text \<open>The entry behind a pointer, and a change made through it.\<close>

definition entry_at :: "rib \<Rightarrow> full_name \<Rightarrow> rib_entry" where
  "entry_at b n = (case Rib_find b n of None \<Rightarrow> RibEntry_new n | Some e \<Rightarrow> e)"

definition update_entry :: "full_name \<Rightarrow> (rib_entry \<Rightarrow> rib_entry) \<Rightarrow> rib \<Rightarrow> rib" where
  "update_entry n f b = b\<lparr>rb_table := map (\<lambda>(k, e). (k, if k = n then f e else e)) (rb_table b)\<rparr>"

definition log_event :: "rib_event \<Rightarrow> rib \<Rightarrow> rib" where
  "log_event x b = b\<lparr>rb_log := rb_log b @ [x]\<rparr>"

definition cancel_event :: "nat option \<Rightarrow> rib \<Rightarrow> rib" where
  "cancel_event ev b = (case ev of None \<Rightarrow> b | Some k \<Rightarrow> log_event (CancelEvent k) b)"

definition Rib_find_route :: "rib \<Rightarrow> full_name \<Rightarrow> route \<Rightarrow> route option" where
  "Rib_find_route b n r =
     (case Rib_find b n of None \<Rightarrow> None
      | Some e \<Rightarrow> let it = findRoute e r in if it \<noteq> length (re_routes e) then Some (re_routes e ! it) else None)"

definition addChild :: "full_name \<Rightarrow> full_name \<Rightarrow> rib \<Rightarrow> rib res" where
  "addChild p c b =
     (if re_parent (entry_at b c) \<noteq> None then Inl (UndefinedBehaviour ''assertion failed: !child->getParent()'')
      else Inr (update_entry p (\<lambda>e. e\<lparr>re_children := re_children e @ [c]\<rparr>) (update_entry c (\<lambda>e. e\<lparr>re_parent := Some p\<rparr>) b)))"

definition removeChild :: "full_name \<Rightarrow> full_name \<Rightarrow> rib \<Rightarrow> rib res" where
  "removeChild p c b =
     (if re_parent (entry_at b c) \<noteq> Some p then Inl (UndefinedBehaviour ''assertion failed: child->getParent() == this'')
      else Inr (update_entry p (\<lambda>e. e\<lparr>re_children := removeAll c (re_children e)\<rparr>) (update_entry c (\<lambda>e. e\<lparr>re_parent := None\<rparr>) b)))"

definition findParent :: "rib \<Rightarrow> full_name \<Rightarrow> full_name option" where
  "findParent b n = List.find (\<lambda>p. Rib_find b p \<noteq> None) (map (\<lambda>i. take i n) (rev [0..<length n]))"

definition is_prefix_of :: "full_name \<Rightarrow> full_name \<Rightarrow> bool" where
  "is_prefix_of n m \<longleftrightarrow> take (length n) m = n"

definition findDescendants :: "rib \<Rightarrow> full_name \<Rightarrow> full_name list" where
  "findDescendants b n =
     (if Rib_find b n \<noteq> None
      then map fst (takeWhile (\<lambda>e. is_prefix_of n (fst e)) (drop (lower_bound name_lt n (rb_table b) + 1) (rb_table b)))
      else [])"

definition findDescendantsForNonInsertedName :: "rib \<Rightarrow> full_name \<Rightarrow> full_name list" where
  "findDescendantsForNonInsertedName b n = map fst (filter (\<lambda>e. is_prefix_of n (fst e)) (rb_table b))"

text \<open>The descendants of a new entry that were children of its parent become its own.\<close>

fun adopt_children :: "full_name \<Rightarrow> full_name option \<Rightarrow> full_name list \<Rightarrow> rib \<Rightarrow> rib res" where
  "adopt_children n parent [] b = Inr b"
| "adopt_children n parent (c # cs) b =
     (if re_parent (entry_at b c) = parent then
        (case (case parent of None \<Rightarrow> Inr b | Some p \<Rightarrow> removeChild p c b) of
           Inl e \<Rightarrow> Inl e
         | Inr b1 \<Rightarrow> (case addChild n c b1 of Inl e \<Rightarrow> Inl e | Inr b2 \<Rightarrow> adopt_children n parent cs b2))
      else adopt_children n parent cs b)"

definition refresh_route :: "nat \<Rightarrow> route \<Rightarrow> rib_entry \<Rightarrow> rib_entry" where
  "refresh_route it r e = e\<lparr>re_routes := (re_routes e)[it :=
     (re_routes e ! it)\<lparr>rt_event := rt_event r, rt_flags := rt_flags r, rt_cost := rt_cost r, rt_expires := rt_expires r\<rparr>]\<rparr>"

definition add_to_faceMap :: "u64 \<Rightarrow> full_name \<Rightarrow> rib \<Rightarrow> rib" where
  "add_to_faceMap f n b = b\<lparr>rb_faceMap := (rb_faceMap b)(f := rb_faceMap b f @ [n])\<rparr>"

definition Rib_insert :: "full_name \<Rightarrow> route \<Rightarrow> rib \<Rightarrow> rib res" where
  "Rib_insert n r b =
     (case Rib_find b n of
        Some entry \<Rightarrow>
          (case insertRoute entry r of
             (entry', it, True) \<Rightarrow>
               Inr (add_to_faceMap (rt_faceId r) n (log_event (AfterAddRoute n r)
                 ((update_entry n (\<lambda>_. entry') b)\<lparr>rb_nItems := rb_nItems b + 1\<rparr>)))
           | (_, it, False) \<Rightarrow> Inr (update_entry n (refresh_route it r) (cancel_event (rt_event (re_routes entry ! it)) b)))
      | None \<Rightarrow>
          (let entry = fst (insertRoute (RibEntry_new n) r);
               b1 = b\<lparr>rb_table := snd (snd (emplace name_lt n entry (rb_table b))), rb_nItems := rb_nItems b + 1\<rparr>;
               parent = findParent b1 n
           in case (case parent of None \<Rightarrow> Inr b1 | Some p \<Rightarrow> addChild p n b1) of
                Inl e \<Rightarrow> Inl e
              | Inr b2 \<Rightarrow>
                  (case adopt_children n parent (findDescendants b2 n) b2 of
                     Inl e \<Rightarrow> Inl e
                   | Inr b3 \<Rightarrow> Inr (log_event (AfterAddRoute n r) (log_event (AfterInsertEntry n) (add_to_faceMap (rt_faceId r) n b3))))))"

text \<open>The children of an erased entry become those of its parent.\<close>

fun hand_over_children :: "full_name \<Rightarrow> full_name option \<Rightarrow> full_name list \<Rightarrow> rib \<Rightarrow> rib res" where
  "hand_over_children n parent [] b = Inr b"
| "hand_over_children n parent (c # cs) b =
     (case removeChild n c b of
        Inl e \<Rightarrow> Inl e
      | Inr b1 \<Rightarrow>
          (case (case parent of None \<Rightarrow> Inr b1 | Some p \<Rightarrow> addChild p c b1) of
             Inl e \<Rightarrow> Inl e | Inr b2 \<Rightarrow> hand_over_children n parent cs b2))"

definition eraseEntry :: "full_name \<Rightarrow> rib \<Rightarrow> rib res" where
  "eraseEntry n b =
     (let entry = entry_at b n; parent = re_parent entry
      in case (case parent of None \<Rightarrow> Inr b | Some p \<Rightarrow> removeChild p n b) of
           Inl e \<Rightarrow> Inl e
         | Inr b1 \<Rightarrow>
             (case hand_over_children n parent (re_children entry) b1 of
                Inl e \<Rightarrow> Inl e
              | Inr b2 \<Rightarrow> Inr (log_event (AfterEraseEntry n) (b2\<lparr>rb_table := filter (\<lambda>e. fst e \<noteq> n) (rb_table b2)\<rparr>))))"

definition Rib_erase :: "full_name \<Rightarrow> route \<Rightarrow> rib \<Rightarrow> rib res" where
  "Rib_erase n r b =
     (case Rib_find b n of
        None \<Rightarrow> Inr b
      | Some entry \<Rightarrow>
          (let it = findRoute entry r
           in if it = length (re_routes entry) then Inr b
              else
                (let b1 = log_event (BeforeRemoveRoute n (re_routes entry ! it)) b;
                     (entry', ev) = eraseRoute_at entry it;
                     b2 = (cancel_event ev (update_entry n (\<lambda>_. entry') b1))\<lparr>rb_nItems := rb_nItems b - 1\<rparr>;
                     b3 = (if \<not> hasFaceId entry' (rt_faceId r)
                           then b2\<lparr>rb_faceMap := (rb_faceMap b2)(rt_faceId r := removeAll n (rb_faceMap b2 (rt_faceId r)))\<rparr> else b2)
                 in if re_routes entry' = [] then eraseEntry n b3 else Inr b3)))"

definition findRoutesWithFaceId :: "rib \<Rightarrow> u64 \<Rightarrow> (full_name \<times> route) list" where
  "findRoutesWithFaceId b f =
     concat (map (\<lambda>n. map (Pair n) (filter (\<lambda>r. rt_faceId r = f) (re_routes (entry_at b n)))) (rb_faceMap b f))"

section \<open>Routes of the ancestors\<close>

text \<open>A \<^verbatim>\<open>RouteSet\<close>: at most one route of each face, in the order of the faces.\<close>

type_synonym route_set = "(u64 \<times> route) list"

definition routes_insert :: "route \<Rightarrow> route_set \<Rightarrow> route_set" where
  "routes_insert r s = snd (snd (emplace (<) (rt_faceId r) r s))"

definition routes_find :: "route \<Rightarrow> route_set \<Rightarrow> route option" where
  "routes_find r s = map_find (<) (rt_faceId r) s"

definition routes_erase :: "u64 \<Rightarrow> route_set \<Rightarrow> route_set" where
  "routes_erase f s = filter (\<lambda>e. fst e \<noteq> f) s"

definition routes_of :: "route_set \<Rightarrow> route list" where
  "routes_of s = map snd s"

text \<open>The loop up the parents; \<open>None\<close> is a loop that does not end.\<close>

partial_function (option) ancestor_loop :: "rib \<Rightarrow> full_name option \<Rightarrow> route_set \<Rightarrow> route_set option" where
  "ancestor_loop b parent s =
     (case parent of
        None \<Rightarrow> Some s
      | Some p \<Rightarrow>
          (let e = entry_at b p; s' = fold routes_insert (filter isChildInherit (re_routes e)) s
           in if hasCapture e then Some s' else ancestor_loop b (re_parent e) s'))"

definition getAncestorRoutes :: "rib \<Rightarrow> rib_entry \<Rightarrow> route_set option" where
  "getAncestorRoutes b e = ancestor_loop b (re_parent e) []"

definition getAncestorRoutes_name :: "rib \<Rightarrow> full_name \<Rightarrow> route_set option" where
  "getAncestorRoutes_name b n = ancestor_loop b (findParent b n) []"

end
