(* ===== verification/FibUpdater.thy ===== *)
theory FibUpdater
  imports Rib
begin

text \<open>
  The FIB updater, \<^verbatim>\<open>ndn/NFD/rib/fib-updater.cpp\<close>: from an update of the routing information base it
  computes the next hops to add to and remove from the forwarder's FIB, and the inherited routes to
  record once the FIB has been changed, and the commands it sends until the FIB has answered. A
  computation that follows the links of entries gives \<open>None\<close> when it does not end.
\<close>

section \<open>Updates\<close>

datatype rib_action = REGISTER | UNREGISTER | REMOVE_FACE

record rib_update =
  ru_action :: rib_action
  ru_name :: full_name
  ru_route :: route

record rib_batch =
  bt_faceId :: u64
  bt_updates :: "rib_update list"

definition RibUpdateBatch_add :: "rib_update \<Rightarrow> rib_batch \<Rightarrow> rib_batch res" where
  "RibUpdateBatch_add u batch =
     (if bt_faceId batch \<noteq> rt_faceId (ru_route u) then Inl (UndefinedBehaviour ''assertion failed: m_faceId == update.getRoute().faceId'')
      else Inr (batch\<lparr>bt_updates := bt_updates batch @ [u]\<rparr>))"

datatype fib_action = ADD_NEXTHOP | REMOVE_NEXTHOP

record fib_update =
  fb_name :: full_name
  fb_faceId :: u64
  fb_cost :: u64
  fb_action :: fib_action

definition createAddUpdate :: "full_name \<Rightarrow> u64 \<Rightarrow> u64 \<Rightarrow> fib_update" where
  "createAddUpdate n f c = \<lparr>fb_name = n, fb_faceId = f, fb_cost = c, fb_action = ADD_NEXTHOP\<rparr>"

definition createRemoveUpdate :: "full_name \<Rightarrow> u64 \<Rightarrow> fib_update" where
  "createRemoveUpdate n f = \<lparr>fb_name = n, fb_faceId = f, fb_cost = 0, fb_action = REMOVE_NEXTHOP\<rparr>"

section \<open>The updater\<close>

record fib_updater =
  fu_batchFaceId :: u64
  fu_forBatchFaceId :: "fib_update list"
  fu_forNonBatchFaceId :: "fib_update list"
  fu_inherited :: "rib_update list"
  fu_cancelled :: "nat list"

text \<open>\<^verbatim>\<open>fu_cancelled\<close> are the expiration events cancelled by erasing a route from a copy of an entry.\<close>

definition FibUpdater_new :: "u64 \<Rightarrow> fib_updater" where
  "FibUpdater_new f = \<lparr>fu_batchFaceId = f, fu_forBatchFaceId = [], fu_forNonBatchFaceId = [], fu_inherited = [], fu_cancelled = []\<rparr>"

text \<open>An update replaces one of the same name and face, in its place.\<close>

fun replace_or_append :: "fib_update \<Rightarrow> fib_update list \<Rightarrow> fib_update list" where
  "replace_or_append u [] = [u]"
| "replace_or_append u (x # xs) =
     (if fb_name u = fb_name x \<and> fb_faceId u = fb_faceId x
      then x\<lparr>fb_action := fb_action u, fb_cost := fb_cost u\<rparr> # xs
      else x # replace_or_append u xs)"

definition addFibUpdate :: "fib_update \<Rightarrow> fib_updater \<Rightarrow> fib_updater" where
  "addFibUpdate u s =
     (if fb_faceId u = fu_batchFaceId s then s\<lparr>fu_forBatchFaceId := replace_or_append u (fu_forBatchFaceId s)\<rparr>
      else s\<lparr>fu_forNonBatchFaceId := replace_or_append u (fu_forNonBatchFaceId s)\<rparr>)"

definition addInheritedRoute :: "full_name \<Rightarrow> route \<Rightarrow> fib_updater \<Rightarrow> fib_updater" where
  "addInheritedRoute n r s = s\<lparr>fu_inherited := fu_inherited s @ [\<lparr>ru_action = REGISTER, ru_name = n, ru_route = r\<rparr>]\<rparr>"

definition removeInheritedRoute :: "full_name \<Rightarrow> route \<Rightarrow> fib_updater \<Rightarrow> fib_updater" where
  "removeInheritedRoute n r s = s\<lparr>fu_inherited := fu_inherited s @ [\<lparr>ru_action = UNREGISTER, ru_name = n, ru_route = r\<rparr>]\<rparr>"

definition inherit_route :: "full_name \<Rightarrow> route \<Rightarrow> fib_updater \<Rightarrow> fib_updater" where
  "inherit_route n r s = addFibUpdate (createAddUpdate n (rt_faceId r) (rt_cost r)) (addInheritedRoute n r s)"

definition disinherit_route :: "full_name \<Rightarrow> route \<Rightarrow> fib_updater \<Rightarrow> fib_updater" where
  "disinherit_route n r s = addFibUpdate (createRemoveUpdate n (rt_faceId r)) (removeInheritedRoute n r s)"

definition addInheritedRoutes_entry :: "rib_entry \<Rightarrow> route_set \<Rightarrow> fib_updater \<Rightarrow> fib_updater" where
  "addInheritedRoutes_entry e routesToAdd s =
     fold (inherit_route (re_name e)) (filter (\<lambda>r. \<not> hasFaceId e (rt_faceId r)) (routes_of routesToAdd)) s"

definition addInheritedRoutes_name :: "full_name \<Rightarrow> route_set \<Rightarrow> route \<Rightarrow> fib_updater \<Rightarrow> fib_updater" where
  "addInheritedRoutes_name n routesToAdd ignore s =
     fold (inherit_route n) (filter (\<lambda>r. rt_faceId r \<noteq> rt_faceId ignore) (routes_of routesToAdd)) s"

definition removeInheritedRoutes :: "rib_entry \<Rightarrow> route_set \<Rightarrow> fib_updater \<Rightarrow> fib_updater" where
  "removeInheritedRoutes e routesToRemove s =
     fold (disinherit_route (re_name e)) (filter (hasInheritedRoute e) (routes_of routesToRemove)) s"

section \<open>The traversal of the subtrees\<close>

text \<open>
  One entry of \<^verbatim>\<open>traverseSubTree\<close>: routes of a face for which the entry has a child-inherit route of
  its own are dropped from the sets that go on to the children.
\<close>

definition visit_entry :: "rib_entry \<Rightarrow> route_set \<Rightarrow> route_set \<Rightarrow> fib_updater \<Rightarrow> route_set \<times> route_set \<times> fib_updater" where
  "visit_entry e routesToAdd routesToRemove s =
     (let toRemove = filter (\<lambda>x. \<not> hasChildInheritOnFaceId e (rt_faceId (snd x))) routesToRemove;
          s1 = fold (disinherit_route (re_name e)) (filter (hasInheritedRoute e) (routes_of toRemove)) s;
          toAdd = filter (\<lambda>x. \<not> hasChildInheritOnFaceId e (rt_faceId (snd x))) routesToAdd;
          s2 = fold (inherit_route (re_name e)) (filter (\<lambda>r. \<not> hasFaceId e (rt_faceId r)) (routes_of toAdd)) s1
      in (toAdd, toRemove, s2))"

partial_function (option) modifyChildrensInheritedRoutes ::
    "rib \<Rightarrow> full_name list \<Rightarrow> route_set \<Rightarrow> route_set \<Rightarrow> fib_updater \<Rightarrow> fib_updater option" where
  "modifyChildrensInheritedRoutes b children routesToAdd routesToRemove s =
     (case children of
        [] \<Rightarrow> Some s
      | c # cs \<Rightarrow>
          (let e = entry_at b c
           in if hasCapture e then modifyChildrensInheritedRoutes b cs routesToAdd routesToRemove s
              else case visit_entry e routesToAdd routesToRemove s of
                (toAdd, toRemove, s1) \<Rightarrow>
                  Option.bind (modifyChildrensInheritedRoutes b (re_children e) toAdd toRemove s1)
                    (modifyChildrensInheritedRoutes b cs routesToAdd routesToRemove)))"

section \<open>Updates for each kind of change\<close>

definition single_route :: "route \<Rightarrow> route_set" where
  "single_route r = routes_insert r []"

definition createFibUpdatesForNewRibEntry :: "rib \<Rightarrow> full_name \<Rightarrow> route \<Rightarrow> full_name list \<Rightarrow> fib_updater \<Rightarrow> fib_updater option" where
  "createFibUpdatesForNewRibEntry b n r children s0 =
     (let s = addFibUpdate (createAddUpdate n (rt_faceId r) (rt_cost r)) s0
      in case getAncestorRoutes_name b n of
           None \<Rightarrow> None
         | Some ancestorRoutes \<Rightarrow>
             if \<not> isChildInherit r \<and> \<not> isCapture r then Some (addInheritedRoutes_name n ancestorRoutes r s)
             else if isChildInherit r \<and> isCapture r then modifyChildrensInheritedRoutes b children (single_route r) ancestorRoutes s
             else if isChildInherit r then
               modifyChildrensInheritedRoutes b children (routes_insert r (routes_erase (rt_faceId r) ancestorRoutes)) []
                 (addInheritedRoutes_name n ancestorRoutes r s)
             else modifyChildrensInheritedRoutes b children [] ancestorRoutes s)"

definition createFibUpdatesForNewRoute :: "rib \<Rightarrow> rib_entry \<Rightarrow> route \<Rightarrow> bool \<Rightarrow> fib_updater \<Rightarrow> fib_updater option" where
  "createFibUpdatesForNewRoute b e r captureWasTurnedOn s =
     (let cheaper = (\<lambda>other. case other of None \<Rightarrow> True | Some o' \<Rightarrow> rt_cost r \<le> rt_cost o');
          routesToAdd = (if isChildInherit r \<and> cheaper (getRouteWithLowestCostAndChildInheritByFaceId e (rt_faceId r))
                         then single_route r else [])
      in case (if captureWasTurnedOn then getAncestorRoutes b e else Some []) of
           None \<Rightarrow> None
         | Some routesToRemove \<Rightarrow>
             (let s1 = (if captureWasTurnedOn then removeInheritedRoutes e routesToRemove s else s)
              in case modifyChildrensInheritedRoutes b (re_children e) routesToAdd routesToRemove s1 of
                   None \<Rightarrow> None
                 | Some s2 \<Rightarrow>
                     Some (if cheaper (getRouteWithLowestCostByFaceId e (rt_faceId r))
                           then addFibUpdate (createAddUpdate (re_name e) (rt_faceId r) (rt_cost r)) s2 else s2)))"

text \<open>
  The update of the entry itself when the cost of a route changes; \<open>lowest\<close> is the cheapest route of
  the face, \<open>prevRoute\<close> the cheapest one with child inheritance, which may be null.
\<close>

definition update_for_cost :: "rib_entry \<Rightarrow> route \<Rightarrow> route \<Rightarrow> fib_updater \<Rightarrow> fib_updater res" where
  "update_for_cost e r existing s =
     (case getRouteWithLowestCostByFaceId e (rt_faceId r) of
        None \<Rightarrow> Inl (UndefinedBehaviour ''null pointer'')
      | Some lowest \<Rightarrow>
          if rt_cost r \<le> rt_cost lowest then Inr (addFibUpdate (createAddUpdate (re_name e) (rt_faceId r) (rt_cost r)) s)
          else if rt_cost existing < rt_cost lowest then
            (case getRouteWithLowestCostAndChildInheritByFaceId e (rt_faceId r) of
               None \<Rightarrow> Inl (UndefinedBehaviour ''null pointer'')
             | Some prevRoute \<Rightarrow> Inr (addFibUpdate (createAddUpdate (re_name e) (rt_faceId prevRoute) (rt_cost prevRoute)) s))
          else Inr s)"

definition update_childInherit :: "rib \<Rightarrow> rib_entry \<Rightarrow> route \<Rightarrow> route \<Rightarrow> fib_updater \<Rightarrow> fib_updater option" where
  "update_childInherit b e r existing s =
     (let prevRoute = getRouteWithLowestCostAndChildInheritByFaceId e (rt_faceId r)
      in if \<not> isChildInherit existing \<and> isChildInherit r then
           (if (case prevRoute of None \<Rightarrow> True | Some p \<Rightarrow> rt_cost r \<le> rt_cost p)
            then modifyChildrensInheritedRoutes b (re_children e) (single_route r) [] s else Some s)
         else if isChildInherit existing \<and> \<not> isChildInherit r then
           (case prevRoute of
              Some p \<Rightarrow> modifyChildrensInheritedRoutes b (re_children e) (single_route p) (single_route r) s
            | None \<Rightarrow>
                (case getAncestorRoutes b e of
                   None \<Rightarrow> None
                 | Some ancestorRoutes \<Rightarrow>
                     modifyChildrensInheritedRoutes b (re_children e)
                       (case routes_find r ancestorRoutes of None \<Rightarrow> [] | Some a \<Rightarrow> single_route a) (single_route r) s))
         else Some s)"

definition update_capture :: "rib \<Rightarrow> rib_entry \<Rightarrow> route \<Rightarrow> route \<Rightarrow> fib_updater \<Rightarrow> fib_updater option" where
  "update_capture b e r existing s =
     (if isCapture existing = isCapture r then Some s
      else case getAncestorRoutes b e of
        None \<Rightarrow> None
      | Some ancestorRoutes \<Rightarrow>
          if isCapture r
          then modifyChildrensInheritedRoutes b (re_children e) [] ancestorRoutes (removeInheritedRoutes e ancestorRoutes s)
          else modifyChildrensInheritedRoutes b (re_children e) ancestorRoutes [] (addInheritedRoutes_entry e ancestorRoutes s))"

definition createFibUpdatesForUpdatedRoute ::
    "rib \<Rightarrow> rib_entry \<Rightarrow> route \<Rightarrow> route \<Rightarrow> fib_updater \<Rightarrow> fib_updater res option" where
  "createFibUpdatesForUpdatedRoute b e r existing s =
     (let costDidChange = (rt_cost r \<noteq> rt_cost existing);
          prevRoute = getRouteWithLowestCostAndChildInheritByFaceId e (rt_faceId r)
      in if rt_flags r = rt_flags existing \<and> \<not> costDidChange then Some (Inr s)
         else case (if costDidChange then update_for_cost e r existing s else Inr s) of
           Inl err \<Rightarrow> Some (Inl err)
         | Inr s1 \<Rightarrow>
             if costDidChange \<and> (case prevRoute of None \<Rightarrow> True | Some p \<Rightarrow> rt_cost r \<le> rt_cost p)
                \<and> rt_flags r = rt_flags existing \<and> isChildInherit r
             then map_option Inr (modifyChildrensInheritedRoutes b (re_children e) (single_route r) [] s1)
             else case update_childInherit b e r existing s1 of
               None \<Rightarrow> None
             | Some s2 \<Rightarrow> map_option Inr (update_capture b e r existing s2))"

text \<open>Ancestor routes the entry gets when its last capture route goes and other routes stay.\<close>

definition ancestors_unblocked :: "rib \<Rightarrow> rib_entry \<Rightarrow> bool \<Rightarrow> fib_updater \<Rightarrow> (route_set \<times> fib_updater) option" where
  "ancestors_unblocked b e captureWasTurnedOff s =
     (if captureWasTurnedOff \<and> re_routes e \<noteq> []
      then map_option (\<lambda>routesToAdd. (routesToAdd, addInheritedRoutes_entry e routesToAdd s)) (getAncestorRoutes b e)
      else Some ([], s))"

definition update_erased_inherits :: "rib \<Rightarrow> rib_entry \<Rightarrow> route \<Rightarrow> bool \<Rightarrow> fib_updater \<Rightarrow> fib_updater option" where
  "update_erased_inherits b e r captureWasTurnedOff s =
     (if isChildInherit r \<and> isCapture r then
        (case ancestors_unblocked b e captureWasTurnedOff s of
           None \<Rightarrow> None
         | Some (routesToAdd, s1) \<Rightarrow> modifyChildrensInheritedRoutes b (re_children e) routesToAdd (single_route r) s1)
      else if isChildInherit r then
        (case (if \<not> hasCapture e then getAncestorRoutes b e else Some []) of
           None \<Rightarrow> None
         | Some routesToAdd \<Rightarrow> modifyChildrensInheritedRoutes b (re_children e) routesToAdd (single_route r) s)
      else if isCapture r then
        (case ancestors_unblocked b e captureWasTurnedOff s of
           None \<Rightarrow> None
         | Some (routesToAdd, s1) \<Rightarrow> modifyChildrensInheritedRoutes b (re_children e) routesToAdd [] s1)
      else Some s)"

definition createFibUpdatesForErasedRoute :: "rib \<Rightarrow> rib_entry \<Rightarrow> route \<Rightarrow> bool \<Rightarrow> fib_updater \<Rightarrow> fib_updater option" where
  "createFibUpdatesForErasedRoute b e r captureWasTurnedOff s =
     (case update_erased_inherits b e r captureWasTurnedOff (addFibUpdate (createRemoveUpdate (re_name e) (rt_faceId r)) s) of
        None \<Rightarrow> None
      | Some s1 \<Rightarrow>
          (case getAncestorRoutes b e of
             None \<Rightarrow> None
           | Some ancestorRoutes \<Rightarrow>
               Some (if \<not> hasCapture e \<and> re_routes e \<noteq> []
                     then case routes_find r ancestorRoutes of None \<Rightarrow> s1 | Some a \<Rightarrow> inherit_route (re_name e) a s1
                     else s1)))"

definition createFibUpdatesForErasedRibEntry :: "rib_entry \<Rightarrow> fib_updater \<Rightarrow> fib_updater" where
  "createFibUpdatesForErasedRibEntry e s =
     fold (\<lambda>r. addFibUpdate (createRemoveUpdate (re_name e) (rt_faceId r))) (re_inherited e) s"

section \<open>Computing the updates\<close>

definition computeUpdatesForRegistration :: "rib \<Rightarrow> rib_update \<Rightarrow> fib_updater \<Rightarrow> fib_updater res option" where
  "computeUpdatesForRegistration b u s =
     (let n = ru_name u; r = ru_route u
      in case Rib_find b n of
           Some entry \<Rightarrow>
             (let it = findRoute entry r
              in if it = length (re_routes entry)
                 then map_option Inr (createFibUpdatesForNewRoute b entry r (\<not> hasCapture entry \<and> isCapture r) s)
                 else
                   (let old = re_routes entry ! it;
                        routeToUpdate = old\<lparr>rt_flags := rt_flags r, rt_cost := rt_cost r, rt_expires := rt_expires r\<rparr>;
                        entryCopy = entry\<lparr>re_routes := (re_routes entry)[it := routeToUpdate]\<rparr>
                    in createFibUpdatesForUpdatedRoute b entryCopy r old s))
         | None \<Rightarrow>
             (let parent = findParent b n;
                  children = filter (\<lambda>d. re_parent (entry_at b d) = parent) (findDescendantsForNonInsertedName b n)
              in map_option Inr (createFibUpdatesForNewRibEntry b n r children s)))"

definition log_cancelled :: "nat option \<Rightarrow> fib_updater \<Rightarrow> fib_updater" where
  "log_cancelled ev s = (case ev of None \<Rightarrow> s | Some k \<Rightarrow> s\<lparr>fu_cancelled := fu_cancelled s @ [k]\<rparr>)"

definition computeUpdatesForUnregistration :: "rib \<Rightarrow> rib_update \<Rightarrow> fib_updater \<Rightarrow> fib_updater option" where
  "computeUpdatesForUnregistration b u s =
     (let n = ru_name u; r = ru_route u
      in case Rib_find b n of
           None \<Rightarrow> Some s
         | Some entry \<Rightarrow>
             (let it = findRoute entry r
              in if it = length (re_routes entry) then Some s
                 else
                   (let (temp, ev) = eraseRoute entry r;
                        captureWasTurnedOff = (hasCapture entry \<and> \<not> hasCapture temp)
                    in case createFibUpdatesForErasedRoute b temp (re_routes entry ! it) captureWasTurnedOff (log_cancelled ev s) of
                         None \<Rightarrow> None
                       | Some s1 \<Rightarrow>
                           (case (case getRouteWithSecondLowestCostByFaceId entry (rt_faceId r) of
                                    None \<Rightarrow> Some s1
                                  | Some next' \<Rightarrow> createFibUpdatesForNewRoute b temp next' False s1) of
                              None \<Rightarrow> None
                            | Some s2 \<Rightarrow>
                                Some (if length (re_routes entry) = 1 then createFibUpdatesForErasedRibEntry entry s2 else s2)))))"

fun computeUpdates :: "rib \<Rightarrow> rib_update list \<Rightarrow> fib_updater \<Rightarrow> fib_updater res option" where
  "computeUpdates b [] s = Some (Inr s)"
| "computeUpdates b (u # us) s =
     (case (case ru_action u of
              REGISTER \<Rightarrow> computeUpdatesForRegistration b u s
            | UNREGISTER \<Rightarrow> map_option Inr (computeUpdatesForUnregistration b u s)
            | REMOVE_FACE \<Rightarrow> map_option (\<lambda>s1. Inr (s1\<lparr>fu_forBatchFaceId := []\<rparr>)) (computeUpdatesForUnregistration b u s)) of
        None \<Rightarrow> None
      | Some (Inl e) \<Rightarrow> Some (Inl e)
      | Some (Inr s1) \<Rightarrow> computeUpdates b us s1)"

section \<open>Sending the updates\<close>

text \<open>
  The system of the table, its updater and the controller. A command on its way to the forwarder has the
  update and the batch bound to its callbacks, whether it is an add command, and the number of its
  timeouts. Callbacks of the manager are numbers, \<open>None\<close> being null; which of them were called with
  success or failure is recorded.
\<close>

definition MAX_NUM_TIMEOUTS :: nat where "MAX_NUM_TIMEOUTS = 10"
definition ERROR_FACE_NOT_FOUND :: u32 where "ERROR_FACE_NOT_FOUND = 410"
definition ERROR_TIMEOUT :: u32 where "ERROR_TIMEOUT = 10060"

record queue_item =
  qi_batch :: rib_batch
  qi_callback :: "nat option"

record fib_command =
  cm_update :: fib_update
  cm_isAdd :: bool
  cm_nTimeouts :: nat
  cm_item :: queue_item

record rib_system =
  sy_rib :: rib
  sy_updater :: fib_updater
  sy_queue :: "queue_item list"
  sy_inProgress :: bool
  sy_commands :: "fib_command list"
  sy_notified :: "(nat \<times> bool) list"

definition send_command :: "queue_item \<Rightarrow> fib_update \<Rightarrow> bool \<Rightarrow> nat \<Rightarrow> rib_system \<Rightarrow> rib_system" where
  "send_command item u isAdd k y =
     y\<lparr>sy_commands := sy_commands y @ [\<lparr>cm_update = u, cm_isAdd = isAdd, cm_nTimeouts = k, cm_item = item\<rparr>]\<rparr>"

definition sendUpdates :: "queue_item \<Rightarrow> fib_update list \<Rightarrow> rib_system \<Rightarrow> rib_system" where
  "sendUpdates item us y = fold (\<lambda>u. send_command item u (fb_action u = ADD_NEXTHOP) 0) us y"

definition notify :: "bool \<Rightarrow> queue_item \<Rightarrow> rib_system \<Rightarrow> rib_system" where
  "notify ok item y = (case qi_callback item of None \<Rightarrow> y | Some k \<Rightarrow> y\<lparr>sy_notified := sy_notified y @ [(k, ok)]\<rparr>)"

fun apply_batch :: "rib_update list \<Rightarrow> rib \<Rightarrow> rib res" where
  "apply_batch [] b = Inr b"
| "apply_batch (u # us) b =
     (case (case ru_action u of
              REGISTER \<Rightarrow> Rib_insert (ru_name u) (ru_route u) b
            | _ \<Rightarrow> Rib_erase (ru_name u) (ru_route u) b) of
        Inl e \<Rightarrow> Inl e | Inr b' \<Rightarrow> apply_batch us b')"

fun modifyInheritedRoutes :: "rib_update list \<Rightarrow> rib \<Rightarrow> rib res" where
  "modifyInheritedRoutes [] b = Inr b"
| "modifyInheritedRoutes (u # us) b =
     (case Rib_find b (ru_name u) of
        None \<Rightarrow> Inl (UndefinedBehaviour ''assertion failed: ribIt != m_rib.end()'')
      | Some e \<Rightarrow>
          (case ru_action u of
             REGISTER \<Rightarrow> modifyInheritedRoutes us (update_entry (ru_name u) (addInheritedRoute_to (ru_route u)) b)
           | UNREGISTER \<Rightarrow>
               (case removeInheritedRoute_from (ru_route u) e of
                  Inl err \<Rightarrow> Inl err
                | Inr e' \<Rightarrow> modifyInheritedRoutes us (update_entry (ru_name u) (\<lambda>_. e') b))
           | REMOVE_FACE \<Rightarrow> modifyInheritedRoutes us b))"

text \<open>\<^verbatim>\<open>onFibUpdateSuccess\<close> up to the point where it advances the queue.\<close>

definition finish_batch :: "queue_item \<Rightarrow> rib_system \<Rightarrow> rib_system res" where
  "finish_batch item y =
     (case apply_batch (bt_updates (qi_batch item)) (sy_rib y) of
        Inl e \<Rightarrow> Inl e
      | Inr b \<Rightarrow>
          (case modifyInheritedRoutes (fu_inherited (sy_updater y)) b of
             Inl e \<Rightarrow> Inl e
           | Inr b' \<Rightarrow> Inr (notify True item (y\<lparr>sy_rib := b', sy_inProgress := False\<rparr>))))"

lemma finish_batch_queue: "finish_batch item y = Inr y' \<Longrightarrow> sy_queue y' = sy_queue y"
  by (auto simp: finish_batch_def notify_def split: sum.splits option.splits)

text \<open>
  \<^verbatim>\<open>sendBatchFromQueue\<close> with \<^verbatim>\<open>computeAndSendFibUpdates\<close>: a batch without updates for the FIB is finished at
  once, and the queue advanced.
\<close>

function sendBatchFromQueue :: "rib_system \<Rightarrow> rib_system res option" where
  "sendBatchFromQueue y =
     (if sy_queue y = [] \<or> sy_inProgress y then Some (Inr y)
      else
        (let item = hd (sy_queue y); batch = qi_batch item
         in if length (bt_updates batch) \<noteq> 1 then Some (Inl (UndefinedBehaviour ''assertion failed: batch.size() == 1''))
            else case computeUpdates (sy_rib y) (bt_updates batch) (FibUpdater_new (bt_faceId batch)) of
              None \<Rightarrow> None
            | Some (Inl e) \<Rightarrow> Some (Inl e)
            | Some (Inr s) \<Rightarrow>
                (let y1 = y\<lparr>sy_inProgress := True, sy_queue := tl (sy_queue y), sy_updater := s,
                            sy_rib := fold (\<lambda>k. log_event (CancelEvent k)) (fu_cancelled s) (sy_rib y)\<rparr>
                 in if fu_forBatchFaceId s \<noteq> [] then Some (Inr (sendUpdates item (fu_forBatchFaceId s) y1))
                    else if fu_forNonBatchFaceId s \<noteq> [] then Some (Inr (sendUpdates item (fu_forNonBatchFaceId s) y1))
                    else case finish_batch item y1 of Inl e \<Rightarrow> Some (Inl e) | Inr y2 \<Rightarrow> sendBatchFromQueue y2)))"
  by pat_completeness auto

termination
  by (relation "measure (\<lambda>y. length (sy_queue y))") (auto dest: finish_batch_queue)

declare sendBatchFromQueue.simps [simp del]

definition onFibUpdateSuccess :: "queue_item \<Rightarrow> rib_system \<Rightarrow> rib_system res option" where
  "onFibUpdateSuccess item y = (case finish_batch item y of Inl e \<Rightarrow> Some (Inl e) | Inr y' \<Rightarrow> sendBatchFromQueue y')"

definition onFibUpdateFailure :: "queue_item \<Rightarrow> rib_system \<Rightarrow> rib_system res option" where
  "onFibUpdateFailure item y = sendBatchFromQueue (notify False item (y\<lparr>sy_inProgress := False\<rparr>))"

definition sendUpdatesForNonBatchFaceId :: "queue_item \<Rightarrow> rib_system \<Rightarrow> rib_system res option" where
  "sendUpdatesForNonBatchFaceId item y =
     (if fu_forNonBatchFaceId (sy_updater y) \<noteq> [] then Some (Inr (sendUpdates item (fu_forNonBatchFaceId (sy_updater y)) y))
      else onFibUpdateSuccess item y)"

definition forget_nonBatch_update :: "queue_item \<Rightarrow> fib_update \<Rightarrow> rib_system \<Rightarrow> rib_system res option" where
  "forget_nonBatch_update item u y =
     (let s = (sy_updater y)\<lparr>fu_forNonBatchFaceId := removeAll u (fu_forNonBatchFaceId (sy_updater y))\<rparr>;
          y1 = y\<lparr>sy_updater := s\<rparr>
      in if fu_forNonBatchFaceId s = [] then onFibUpdateSuccess item y1 else Some (Inr y1))"

definition onUpdateSuccess :: "queue_item \<Rightarrow> fib_update \<Rightarrow> rib_system \<Rightarrow> rib_system res option" where
  "onUpdateSuccess item u y =
     (if fb_faceId u = fu_batchFaceId (sy_updater y) then
        (let s = (sy_updater y)\<lparr>fu_forBatchFaceId := removeAll u (fu_forBatchFaceId (sy_updater y))\<rparr>;
             y1 = y\<lparr>sy_updater := s\<rparr>
         in if fu_forBatchFaceId s = [] then sendUpdatesForNonBatchFaceId item y1 else Some (Inr y1))
      else forget_nonBatch_update item u y)"

definition onUpdateError :: "queue_item \<Rightarrow> fib_update \<Rightarrow> nat \<Rightarrow> u32 \<Rightarrow> rib_system \<Rightarrow> rib_system res option" where
  "onUpdateError item u nTimeouts code y =
     (if code = ERROR_TIMEOUT \<and> nTimeouts < MAX_NUM_TIMEOUTS then Some (Inr (send_command item u True (nTimeouts + 1) y))
      else if code = ERROR_FACE_NOT_FOUND then
        (if fb_faceId u = fu_batchFaceId (sy_updater y) then onFibUpdateFailure item y else forget_nonBatch_update item u y)
      else Some (Inl (StdError ''Non-recoverable error'')))"

section \<open>Changes of the table\<close>

definition addUpdateToQueue :: "rib_update \<Rightarrow> nat option \<Rightarrow> rib_system \<Rightarrow> rib_system res" where
  "addUpdateToQueue u callback y =
     (case RibUpdateBatch_add u \<lparr>bt_faceId = rt_faceId (ru_route u), bt_updates = []\<rparr> of
        Inl e \<Rightarrow> Inl e
      | Inr batch \<Rightarrow> Inr (y\<lparr>sy_queue := sy_queue y @ [\<lparr>qi_batch = batch, qi_callback = callback\<rparr>]\<rparr>))"

definition beginApplyUpdate :: "rib_update \<Rightarrow> nat option \<Rightarrow> rib_system \<Rightarrow> rib_system res option" where
  "beginApplyUpdate u callback y = (case addUpdateToQueue u callback y of Inl e \<Rightarrow> Some (Inl e) | Inr y' \<Rightarrow> sendBatchFromQueue y')"

definition onRouteExpiration :: "full_name \<Rightarrow> route \<Rightarrow> rib_system \<Rightarrow> rib_system res option" where
  "onRouteExpiration n r y = beginApplyUpdate \<lparr>ru_action = UNREGISTER, ru_name = n, ru_route = r\<rparr> None y"

fun queue_removals :: "(full_name \<times> route) list \<Rightarrow> rib_system \<Rightarrow> rib_system res" where
  "queue_removals [] y = Inr y"
| "queue_removals ((n, r) # nrs) y =
     (case addUpdateToQueue \<lparr>ru_action = REMOVE_FACE, ru_name = n, ru_route = r\<rparr> None y of
        Inl e \<Rightarrow> Inl e | Inr y' \<Rightarrow> queue_removals nrs y')"

definition beginRemoveFace :: "u64 \<Rightarrow> rib_system \<Rightarrow> rib_system res option" where
  "beginRemoveFace f y =
     (case queue_removals (findRoutesWithFaceId (sy_rib y) f) y of Inl e \<Rightarrow> Some (Inl e) | Inr y' \<Rightarrow> sendBatchFromQueue y')"

end
