(* ===== verification/RibTree.thy ===== *)
theory RibTree
  imports Rib
begin

text \<open>
  The shape of the routing information base: every entry is linked to the entry of its longest proper
  prefix and to the entries of which it is that, the names are ordered, the counters and the table of
  faces are right; and the lemmas that inserting and erasing routes keep all this.
\<close>

section \<open>Reading and changing the table\<close>

lemma takeWhile_keys: "length (takeWhile (\<lambda>e. P (fst e)) (map (\<lambda>(k, e). (k, f k e)) es)) = length (takeWhile (\<lambda>e. P (fst e)) es)"
  by (induction es) auto

lemma map_find_update:
  "map_find name_lt n (map (\<lambda>(k, e). (k, if k = m then f e else e)) es)
     = map_option (\<lambda>e. if n = m then f e else e) (map_find name_lt n es)"
proof -
  let ?es = "map (\<lambda>(k, e). (k, if k = m then f e else e)) es"
  have l: "lower_bound name_lt n ?es = lower_bound name_lt n es"
    unfolding lower_bound_def using takeWhile_keys [of "\<lambda>k. k < n" "\<lambda>k e. if k = m then f e else e" es] by simp
  have "fst (es ! i) = n" if "i < length es" "\<not> n < fst (es ! i)" "i = lower_bound name_lt n es" for i
    using that nth_length_takeWhile [of "\<lambda>e. fst e < n" es] by (auto simp: lower_bound_def)
  then show ?thesis unfolding map_find_def Let_def l by (auto simp: case_prod_beta)
qed

lemma Rib_find_update: "Rib_find (update_entry m f b) n = map_option (\<lambda>e. if n = m then f e else e) (Rib_find b n)"
  by (simp add: Rib_find_def update_entry_def map_find_update)

lemma keys_update [simp]: "map fst (rb_table (update_entry m f b)) = map fst (rb_table b)"
  by (simp add: update_entry_def comp_def case_prod_beta)

lemma sorted_keys: "sorted_map name_lt es \<longleftrightarrow> sorted_wrt (<) (map fst es)"
  by (simp add: sorted_map_def sorted_wrt_map)

definition ordered :: "rib \<Rightarrow> bool" where
  "ordered b \<longleftrightarrow> sorted_map name_lt (rb_table b)"

lemma ordered_update [simp]: "ordered (update_entry m f b) = ordered b"
  by (simp add: ordered_def sorted_keys)

lemma rib_fields [simp]:
  "rb_nItems (update_entry m f b) = rb_nItems b" "rb_faceMap (update_entry m f b) = rb_faceMap b"
  "rb_nItems (log_event x b) = rb_nItems b" "rb_faceMap (log_event x b) = rb_faceMap b" "rb_table (log_event x b) = rb_table b"
  "rb_nItems (cancel_event ev b) = rb_nItems b" "rb_faceMap (cancel_event ev b) = rb_faceMap b" "rb_table (cancel_event ev b) = rb_table b"
  "rb_table (add_to_faceMap g n b) = rb_table b" "rb_nItems (add_to_faceMap g n b) = rb_nItems b"
  by (simp_all add: update_entry_def log_event_def cancel_event_def add_to_faceMap_def split: option.split)

lemma same_table:
  assumes "rb_table b' = rb_table b"
  shows "Rib_find b' = Rib_find b" and "ordered b' = ordered b" and "entry_at b' = entry_at b"
  using assms by (simp_all add: Rib_find_def ordered_def entry_at_def fun_eq_iff)

lemma Rib_find_in: "ordered b \<Longrightarrow> Rib_find b n = Some e \<longleftrightarrow> (n, e) \<in> set (rb_table b)"
  by (simp add: Rib_find_def ordered_def nm.map_find_eq)

lemma Rib_find_keys: "ordered b \<Longrightarrow> Rib_find b n \<noteq> None \<longleftrightarrow> n \<in> fst ` set (rb_table b)"
  using Rib_find_in [of b n] by (cases "Rib_find b n") force+

definition names_in :: "rib \<Rightarrow> full_name set" where
  "names_in b = {n. Rib_find b n \<noteq> None}"

lemma names_in_update [simp]: "names_in (update_entry m f b) = names_in b"
  by (simp add: names_in_def Rib_find_update)

lemma entry_at_update: "n \<in> names_in b \<Longrightarrow> entry_at (update_entry m f b) n = (if n = m then f (entry_at b n) else entry_at b n)"
  by (auto simp: entry_at_def Rib_find_update names_in_def)

lemma Rib_find_entry: "n \<in> names_in b \<Longrightarrow> Rib_find b n = Some (entry_at b n)"
  by (auto simp: names_in_def entry_at_def)

lemma entry_in_table: "ordered b \<Longrightarrow> n \<in> names_in b \<Longrightarrow> (n, entry_at b n) \<in> set (rb_table b)"
  using Rib_find_entry Rib_find_in by blast

lemma in_table_entry: "ordered b \<Longrightarrow> (n, e) \<in> set (rb_table b) \<Longrightarrow> entry_at b n = e"
  using Rib_find_in [of b n e] by (simp add: entry_at_def)

lemma names_in_keys: "ordered b \<Longrightarrow> names_in b = set (map fst (rb_table b))"
  using Rib_find_keys by (auto simp: names_in_def)

section \<open>The longest proper prefix\<close>

definition proper_prefix :: "full_name \<Rightarrow> full_name \<Rightarrow> bool" where
  "proper_prefix p n \<longleftrightarrow> is_prefix_of p n \<and> p \<noteq> n"

lemma is_prefix_of_append: "is_prefix_of p n \<longleftrightarrow> (\<exists>r. n = p @ r)"
  unfolding is_prefix_of_def by (metis append_eq_conv_conj append_take_drop_id)

lemma proper_prefix_take: "proper_prefix p n \<longleftrightarrow> (\<exists>i < length n. p = take i n)"
  by (auto simp: proper_prefix_def is_prefix_of_def) (metis linorder_not_less nat_le_linear take_all)

lemma proper_prefix_length: "proper_prefix p n \<Longrightarrow> length p < length n"
  by (auto simp: proper_prefix_take)

lemma proper_prefix_trans: "proper_prefix p q \<Longrightarrow> proper_prefix q n \<Longrightarrow> proper_prefix p n"
  unfolding proper_prefix_def is_prefix_of_append by auto

lemma proper_prefix_linear: "proper_prefix p n \<Longrightarrow> proper_prefix q n \<Longrightarrow> p = q \<or> proper_prefix p q \<or> proper_prefix q p"
  by (auto simp: proper_prefix_take) (metis length_take linorder_neqE_nat min.absorb2 min.absorb4 order_less_imp_le take_take)

lemma proper_prefix_irrefl [simp]: "\<not> proper_prefix n n"
  by (simp add: proper_prefix_def)

lemma proper_prefix_less: "proper_prefix p n \<Longrightarrow> p < n"
  unfolding proper_prefix_def is_prefix_of_append using prefix_less by auto

definition nearest :: "full_name set \<Rightarrow> full_name \<Rightarrow> full_name option" where
  "nearest D n = List.find (\<lambda>p. p \<in> D) (map (\<lambda>i. take i n) (rev [0..<length n]))"

lemma findParent_nearest: "findParent b n = nearest (names_in b) n"
  by (simp add: findParent_def nearest_def names_in_def)

lemma find_prefixes:
  "List.find P (map (\<lambda>i. take i n) (rev [0..<k])) = Some p \<longleftrightarrow> (\<exists>i < k. p = take i n \<and> P p \<and> (\<forall>j < k. i < j \<longrightarrow> \<not> P (take j n)))"
proof (induction k)
  case (Suc k)
  show ?case
  proof (cases "P (take k n)")
    case True
    then show ?thesis by (auto simp: less_Suc_eq)
  next
    case False
    then show ?thesis using Suc by (auto simp: less_Suc_eq)
  qed
qed simp

lemma nearest_Some:
  "nearest D n = Some p \<longleftrightarrow> p \<in> D \<and> proper_prefix p n \<and> (\<forall>q \<in> D. proper_prefix q n \<longrightarrow> length q \<le> length p)"
proof
  assume "nearest D n = Some p"
  then obtain i where i: "i < length n" "p = take i n" "p \<in> D" "\<forall>j < length n. i < j \<longrightarrow> take j n \<notin> D"
    unfolding nearest_def find_prefixes by blast
  then show "p \<in> D \<and> proper_prefix p n \<and> (\<forall>q \<in> D. proper_prefix q n \<longrightarrow> length q \<le> length p)"
    by (auto simp: proper_prefix_take)
next
  assume p: "p \<in> D \<and> proper_prefix p n \<and> (\<forall>q \<in> D. proper_prefix q n \<longrightarrow> length q \<le> length p)"
  then obtain i where i: "i < length n" "p = take i n" by (auto simp: proper_prefix_take)
  have "take j n \<notin> D" if "j < length n" "i < j" for j
    using p that i by (auto simp: proper_prefix_take)
  then show "nearest D n = Some p" unfolding nearest_def find_prefixes using i p by blast
qed

lemma nearest_None: "nearest D n = None \<longleftrightarrow> (\<forall>q \<in> D. \<not> proper_prefix q n)"
proof -
  have "nearest D n = None \<longleftrightarrow> (\<forall>i < length n. take i n \<notin> D)"
    unfolding nearest_def find_None_iff by auto
  also have "\<dots> \<longleftrightarrow> (\<forall>q \<in> D. \<not> proper_prefix q n)" unfolding proper_prefix_take by blast
  finally show ?thesis .
qed

lemma nearest_exists:
  assumes "q \<in> D" and "proper_prefix q n"
  shows "\<exists>p. nearest D n = Some p \<and> length q \<le> length p \<and> (p = q \<or> proper_prefix q p)"
proof -
  obtain p where p: "nearest D n = Some p" using assms nearest_None by (cases "nearest D n") auto
  then have "proper_prefix p n" "length q \<le> length p" using assms by (auto simp: nearest_Some)
  then show ?thesis using p assms(2) proper_prefix_linear [of p n q] proper_prefix_length [of p q] by auto
qed

text \<open>A new name comes between its descendants and the parent they had, if that is the parent of the new name.\<close>

lemma nearest_insert:
  assumes "n \<notin> D" and "m \<noteq> n"
  shows "nearest (insert n D) m = (if proper_prefix n m \<and> nearest D m = nearest D n then Some n else nearest D m)"
proof (cases "proper_prefix n m")
  case False
  then have "nearest (insert n D) m = Some p \<longleftrightarrow> nearest D m = Some p" for p by (auto simp: nearest_Some)
  then show ?thesis using False by (metis not_Some_eq)
next
  case True
  show ?thesis
  proof (cases "nearest D m = nearest D n")
    case same: True
    have "length q \<le> length n" if q: "q \<in> D" "proper_prefix q m" for q
    proof (rule ccontr)
      assume l: "\<not> length q \<le> length n"
      obtain p where p: "nearest D m = Some p" "length q \<le> length p" using nearest_exists [OF q] by blast
      then have "proper_prefix p n" using same by (simp add: nearest_Some)
      then show False using p(2) l proper_prefix_length by fastforce
    qed
    then show ?thesis using True same by (auto simp: nearest_Some)
  next
    case False
    have "\<exists>p. nearest D m = Some p \<and> proper_prefix n p"
    proof (rule ccontr)
      assume no: "\<nexists>p. nearest D m = Some p \<and> proper_prefix n p"
      have below: "q \<in> D \<and> proper_prefix q m \<longleftrightarrow> q \<in> D \<and> proper_prefix q n" for q
      proof
        assume q: "q \<in> D \<and> proper_prefix q m"
        then obtain p where p: "nearest D m = Some p" "p = q \<or> proper_prefix q p" using nearest_exists [of q D m] by blast
        then have "p \<in> D" "proper_prefix p m" by (simp_all add: nearest_Some)
        then have "proper_prefix p n" using no p(1) proper_prefix_linear [of p m n] True assms(1) by auto
        then show "q \<in> D \<and> proper_prefix q n" using q p(2) proper_prefix_trans by blast
      qed (use True proper_prefix_trans in blast)
      have "nearest D m = Some p \<longleftrightarrow> nearest D n = Some p" for p unfolding nearest_Some using below by blast
      then show False using False by (metis not_Some_eq)
    qed
    then obtain p where p: "nearest D m = Some p" "proper_prefix n p" by blast
    have "nearest (insert n D) m = Some p" using p proper_prefix_length [OF p(2)] unfolding nearest_Some by auto
    then show ?thesis using False p(1) by simp
  qed
qed

lemma nearest_own: "nearest (insert n D) n = nearest D n"
proof -
  have "nearest (insert n D) n = Some p \<longleftrightarrow> nearest D n = Some p" for p by (auto simp: nearest_Some)
  then show ?thesis by (metis not_Some_eq)
qed

section \<open>Links\<close>

text \<open>The entries are linked as the function \<open>P\<close> from names to parents says.\<close>

definition linked_by :: "(full_name \<Rightarrow> full_name option) \<Rightarrow> rib \<Rightarrow> bool" where
  "linked_by P b \<longleftrightarrow> (\<forall>n \<in> names_in b. re_parent (entry_at b n) = P n \<and> distinct (re_children (entry_at b n))
     \<and> set (re_children (entry_at b n)) = {m \<in> names_in b. P m = Some n})"

text \<open>The table without its links.\<close>

definition strip_links :: "rib \<Rightarrow> rib" where
  "strip_links b = b\<lparr>rb_table := map (\<lambda>(n, e). (n, e\<lparr>re_parent := None, re_children := []\<rparr>)) (rb_table b)\<rparr>"

lemma strip_update:
  assumes "\<And>e. f e\<lparr>re_parent := None, re_children := []\<rparr> = e\<lparr>re_parent := None, re_children := []\<rparr>"
  shows "strip_links (update_entry m f b) = strip_links b"
  using assms by (simp add: strip_links_def update_entry_def comp_def case_prod_beta)

lemma strip_addChild: "addChild p c b = Inr b' \<Longrightarrow> strip_links b' = strip_links b"
  by (auto simp: addChild_def strip_update split: if_splits)

lemma strip_removeChild: "removeChild p c b = Inr b' \<Longrightarrow> strip_links b' = strip_links b"
  by (auto simp: removeChild_def strip_update split: if_splits)

lemma strip_keys:
  assumes "strip_links b' = strip_links b"
  shows "map fst (rb_table b') = map fst (rb_table b)"
  using arg_cong [OF assms, of "\<lambda>x. map fst (rb_table x)"] by (simp add: strip_links_def comp_def case_prod_beta)

lemma strip_names:
  assumes "strip_links b' = strip_links b" and "ordered b"
  shows "ordered b'" and "names_in b' = names_in b"
proof -
  show o: "ordered b'" using assms(2) strip_keys [OF assms(1)] by (simp add: ordered_def sorted_keys)
  show "names_in b' = names_in b" using strip_keys [OF assms(1)] by (simp add: names_in_keys [OF o] names_in_keys [OF assms(2)])
qed

lemma linked_addChild:
  assumes "linked_by P b" and "p \<in> names_in b" and "c \<in> names_in b" and "P c = None"
  shows "\<exists>b'. addChild p c b = Inr b' \<and> linked_by (P(c := Some p)) b' \<and> names_in b' = names_in b"
proof -
  have "re_parent (entry_at b c) = None" using assms by (simp add: linked_by_def)
  moreover have "c \<notin> set (re_children (entry_at b p))" using assms by (simp add: linked_by_def)
  ultimately show ?thesis using assms unfolding addChild_def linked_by_def
    by (auto simp: entry_at_update)
qed

lemma linked_removeChild:
  assumes "linked_by P b" and "p \<in> names_in b" and "c \<in> names_in b" and "P c = Some p"
  shows "\<exists>b'. removeChild p c b = Inr b' \<and> linked_by (P(c := None)) b' \<and> names_in b' = names_in b"
proof -
  have "re_parent (entry_at b c) = Some p" using assms by (simp add: linked_by_def)
  then show ?thesis using assms unfolding removeChild_def linked_by_def
    by (auto simp: entry_at_update distinct_removeAll)
qed

lemma linked_adopt:
  assumes "set cs \<subseteq> names_in b" and "distinct cs" and "linked_by P b" and "n \<in> names_in b" and "\<forall>p. parent = Some p \<longrightarrow> p \<in> names_in b"
  shows "\<exists>b'. adopt_children n parent cs b = Inr b' \<and> strip_links b' = strip_links b
     \<and> linked_by (\<lambda>m. if m \<in> set cs \<and> P m = parent then Some n else P m) b' \<and> names_in b' = names_in b"
  using assms
proof (induction cs arbitrary: b P)
  case (Cons c cs)
  have c: "c \<in> names_in b" "c \<notin> set cs" using Cons.prems by simp_all
  show ?case
  proof (cases "P c = parent")
    case False
    then have "re_parent (entry_at b c) \<noteq> parent" using Cons.prems(3) c by (simp add: linked_by_def)
    moreover have "(\<lambda>m. if m \<in> set (c # cs) \<and> P m = parent then Some n else P m) = (\<lambda>m. if m \<in> set cs \<and> P m = parent then Some n else P m)"
      using False by auto
    ultimately show ?thesis using Cons.IH [of b P] Cons.prems by simp
  next
    case True
    then have r: "re_parent (entry_at b c) = parent" using Cons.prems(3) c by (simp add: linked_by_def)
    obtain b1 where b1: "(case parent of None \<Rightarrow> Inr b | Some p \<Rightarrow> removeChild p c b) = Inr b1" "linked_by (P(c := None)) b1"
      "names_in b1 = names_in b" "strip_links b1 = strip_links b"
    proof (cases parent)
      case None
      then have "P(c := None) = P" using True by auto
      then show ?thesis using that None Cons.prems(3) by simp
    next
      case (Some p)
      then obtain b1 where "removeChild p c b = Inr b1" "linked_by (P(c := None)) b1" "names_in b1 = names_in b"
        using linked_removeChild [OF Cons.prems(3) _ c(1)] Cons.prems(5) True by blast
      then show ?thesis using that Some strip_removeChild by simp
    qed
    obtain b2 where b2: "addChild n c b1 = Inr b2" "linked_by (P(c := Some n)) b2" "names_in b2 = names_in b"
      using linked_addChild [OF b1(2), of n c] b1(3) c Cons.prems(4) by auto
    have ih: "\<exists>b'. adopt_children n parent cs b2 = Inr b' \<and> strip_links b' = strip_links b2
        \<and> linked_by (\<lambda>m. if m \<in> set cs \<and> (P(c := Some n)) m = parent then Some n else (P(c := Some n)) m) b' \<and> names_in b' = names_in b2"
      by (rule Cons.IH [OF _ _ b2(2)]) (use Cons.prems b2(3) in simp_all)
    have "(\<lambda>m. if m \<in> set cs \<and> (P(c := Some n)) m = parent then Some n else (P(c := Some n)) m)
        = (\<lambda>m. if m \<in> set (c # cs) \<and> P m = parent then Some n else P m)"
      using True c(2) by (auto simp: fun_eq_iff)
    then show ?thesis using ih r b1 b2 strip_addChild [OF b2(1)] by simp
  qed
qed auto

lemma linked_hand_over:
  assumes "set cs \<subseteq> names_in b" and "distinct cs" and "linked_by P b" and "n \<in> names_in b" and "\<forall>c \<in> set cs. P c = Some n"
    and "\<forall>p. parent = Some p \<longrightarrow> p \<in> names_in b"
  shows "\<exists>b'. hand_over_children n parent cs b = Inr b' \<and> strip_links b' = strip_links b
     \<and> linked_by (\<lambda>m. if m \<in> set cs then parent else P m) b' \<and> names_in b' = names_in b"
  using assms
proof (induction cs arbitrary: b P)
  case (Cons c cs)
  have c: "c \<in> names_in b" "c \<notin> set cs" "P c = Some n" using Cons.prems by simp_all
  obtain b1 where b1: "removeChild n c b = Inr b1" "linked_by (P(c := None)) b1" "names_in b1 = names_in b"
    using linked_removeChild [OF Cons.prems(3,4) c(1,3)] by blast
  obtain b2 where b2: "(case parent of None \<Rightarrow> Inr b1 | Some p \<Rightarrow> addChild p c b1) = Inr b2" "linked_by (P(c := parent)) b2"
    "names_in b2 = names_in b" "strip_links b2 = strip_links b1"
  proof (cases parent)
    case None
    then show ?thesis using that b1 by simp
  next
    case (Some p)
    then obtain b2 where "addChild p c b1 = Inr b2" "linked_by (P(c := Some p)) b2" "names_in b2 = names_in b"
      using linked_addChild [OF b1(2), of p c] b1(3) c Cons.prems(6) by auto
    then show ?thesis using that Some strip_addChild by simp
  qed
  have ih: "\<exists>b'. hand_over_children n parent cs b2 = Inr b' \<and> strip_links b' = strip_links b2
      \<and> linked_by (\<lambda>m. if m \<in> set cs then parent else (P(c := parent)) m) b' \<and> names_in b' = names_in b2"
    by (rule Cons.IH [OF _ _ b2(2)]) (use Cons.prems b2(3) c in auto)
  have "(\<lambda>m. if m \<in> set cs then parent else (P(c := parent)) m) = (\<lambda>m. if m \<in> set (c # cs) then parent else P m)"
    by (auto simp: fun_eq_iff)
  then show ?case using ih b1 b2 strip_removeChild [OF b1(1)] by simp
qed auto

section \<open>The table invariant\<close>

definition route_key :: "route \<Rightarrow> u64 \<times> u64" where
  "route_key r = (rt_faceId r, rt_origin r)"

definition entry_ok :: "full_name \<Rightarrow> rib_entry \<Rightarrow> bool" where
  "entry_ok n e \<longleftrightarrow> re_name e = n \<and> re_routes e \<noteq> [] \<and> distinct (map route_key (re_routes e))"

definition n_routes :: "(full_name \<times> rib_entry) list \<Rightarrow> nat" where
  "n_routes t = sum_list (map (\<lambda>e. length (re_routes (snd e))) t)"

definition faces_ok :: "rib \<Rightarrow> bool" where
  "faces_ok b \<longleftrightarrow> (\<forall>f n. n \<in> set (rb_faceMap b f) \<longleftrightarrow> n \<in> names_in b \<and> f \<in> rt_faceId ` set (re_routes (entry_at b n)))"

definition rib_ok :: "rib \<Rightarrow> bool" where
  "rib_ok b \<longleftrightarrow> ordered b \<and> linked_by (nearest (names_in b)) b \<and> (\<forall>(n, e) \<in> set (rb_table b). entry_ok n e)
     \<and> rb_nItems b = n_routes (rb_table b) \<and> faces_ok b"

text \<open>What relinking leaves alone.\<close>

lemma strip_entry:
  assumes "strip_links b' = strip_links b" and "ordered b" and "n \<in> names_in b"
  shows "re_name (entry_at b' n) = re_name (entry_at b n)" "re_routes (entry_at b' n) = re_routes (entry_at b n)"
    "re_inherited (entry_at b' n) = re_inherited (entry_at b n)" "re_nCapture (entry_at b' n) = re_nCapture (entry_at b n)"
proof -
  let ?g = "\<lambda>(n, e). (n, e\<lparr>re_parent := None, re_children := []\<rparr>)"
  have t: "map ?g (rb_table b') = map ?g (rb_table b)" using arg_cong [OF assms(1), of rb_table] by (simp add: strip_links_def)
  note s = strip_names [OF assms(1,2)]
  have "n \<in> names_in b'" unfolding s(2) by (rule assms(3))
  then have "(n, entry_at b' n) \<in> set (rb_table b')" by (rule entry_in_table [OF s(1)])
  then have "?g (n, entry_at b' n) \<in> ?g ` set (rb_table b')" by (rule imageI)
  then have "?g (n, entry_at b' n) \<in> ?g ` set (rb_table b)" using arg_cong [OF t, of set] by (simp only: set_map)
  then obtain e where e: "(n, e) \<in> set (rb_table b)" "entry_at b' n\<lparr>re_parent := None, re_children := []\<rparr> = e\<lparr>re_parent := None, re_children := []\<rparr>"
    by auto
  moreover have "e = entry_at b n" using Rib_find_in [OF assms(2), of n e] e(1) by (simp add: entry_at_def)
  ultimately have q: "entry_at b' n\<lparr>re_parent := None, re_children := []\<rparr> = entry_at b n\<lparr>re_parent := None, re_children := []\<rparr>" by simp
  from arg_cong [OF q, of re_name] arg_cong [OF q, of re_routes] arg_cong [OF q, of re_inherited] arg_cong [OF q, of re_nCapture]
  show "re_name (entry_at b' n) = re_name (entry_at b n)" "re_routes (entry_at b' n) = re_routes (entry_at b n)"
    "re_inherited (entry_at b' n) = re_inherited (entry_at b n)" "re_nCapture (entry_at b' n) = re_nCapture (entry_at b n)" by simp_all
qed

lemma entries_ok_iff: "ordered b \<Longrightarrow> (\<forall>(n, e) \<in> set (rb_table b). entry_ok n e) \<longleftrightarrow> (\<forall>n \<in> names_in b. entry_ok n (entry_at b n))"
proof -
  assume "ordered b"
  then have "(n, e) \<in> set (rb_table b) \<longleftrightarrow> n \<in> names_in b \<and> e = entry_at b n" for n e
    by (auto simp: Rib_find_in [symmetric] names_in_def entry_at_def)
  then have "set (rb_table b) = (\<lambda>n. (n, entry_at b n)) ` names_in b" by auto
  then show ?thesis by simp
qed

lemma strip_ok:
  assumes "strip_links b' = strip_links b" and "ordered b" and "names_in b' = names_in b"
  shows "(\<forall>(n, e) \<in> set (rb_table b'). entry_ok n e) \<longleftrightarrow> (\<forall>(n, e) \<in> set (rb_table b). entry_ok n e)"
    and "n_routes (rb_table b') = n_routes (rb_table b)" and "rb_nItems b' = rb_nItems b" and "faces_ok b' = faces_ok b"
    and "rb_faceMap b' = rb_faceMap b"
proof -
  let ?g = "\<lambda>(n, e). (n, e\<lparr>re_parent := None, re_children := []\<rparr>)"
  note s = strip_names [OF assms(1,2)] and e = strip_entry [OF assms(1,2)]
  show "(\<forall>(n, e) \<in> set (rb_table b'). entry_ok n e) \<longleftrightarrow> (\<forall>(n, e) \<in> set (rb_table b). entry_ok n e)"
    unfolding entries_ok_iff [OF s(1)] entries_ok_iff [OF assms(2)] using e assms(3) by (auto simp: entry_ok_def)
  have t: "map ?g (rb_table b') = map ?g (rb_table b)" using arg_cong [OF assms(1), of rb_table] by (simp add: strip_links_def)
  from arg_cong [OF t, of n_routes] show "n_routes (rb_table b') = n_routes (rb_table b)" by (simp add: n_routes_def comp_def case_prod_beta)
  show f: "rb_nItems b' = rb_nItems b" "rb_faceMap b' = rb_faceMap b"
    using arg_cong [OF assms(1), of rb_nItems] arg_cong [OF assms(1), of rb_faceMap] by (simp_all add: strip_links_def)
  show "faces_ok b' = faces_ok b" unfolding faces_ok_def f assms(3) using e(2) by (simp cong: conj_cong)
qed

text \<open>Changing the routes of one entry.\<close>

lemma linked_update:
  assumes "\<And>e. re_parent (f e) = re_parent e \<and> re_children (f e) = re_children e"
  shows "linked_by P (update_entry m f b) = linked_by P b"
proof -
  have "re_parent (entry_at (update_entry m f b) n) = re_parent (entry_at b n)"
    "re_children (entry_at (update_entry m f b) n) = re_children (entry_at b n)" if "n \<in> names_in b" for n
    using assms that by (simp_all add: entry_at_update)
  then show ?thesis by (simp add: linked_by_def)
qed

lemma n_routes_sum:
  assumes "ordered b"
  shows "n_routes (rb_table b) = (\<Sum>n \<in> names_in b. length (re_routes (entry_at b n)))" and "finite (names_in b)"
proof -
  have d: "distinct (map fst (rb_table b))" using assms sorted_distinct by (simp add: ordered_def)
  have "map (\<lambda>e. length (re_routes (snd e))) (rb_table b) = map (\<lambda>n. length (re_routes (entry_at b n))) (map fst (rb_table b))"
    using in_table_entry [OF assms] by (auto simp: comp_def)
  then show "n_routes (rb_table b) = (\<Sum>n \<in> names_in b. length (re_routes (entry_at b n)))"
    unfolding n_routes_def names_in_keys [OF assms] by (simp only: sum_list_distinct_conv_sum_set [OF d])
  show "finite (names_in b)" by (simp add: names_in_keys [OF assms])
qed

lemma rib_okD:
  assumes "rib_ok b"
  shows "ordered b" "linked_by (nearest (names_in b)) b" "\<And>n. n \<in> names_in b \<Longrightarrow> entry_ok n (entry_at b n)"
    "rb_nItems b = (\<Sum>n \<in> names_in b. length (re_routes (entry_at b n)))" "faces_ok b" "finite (names_in b)"
  using assms entries_ok_iff n_routes_sum by (auto simp: rib_ok_def)

lemma rib_okI:
  assumes "ordered b" and "linked_by (nearest (names_in b)) b" and "\<And>n. n \<in> names_in b \<Longrightarrow> entry_ok n (entry_at b n)"
    and "rb_nItems b = (\<Sum>n \<in> names_in b. length (re_routes (entry_at b n)))" and "faces_ok b"
  shows "rib_ok b"
  using assms entries_ok_iff n_routes_sum by (simp add: rib_ok_def)

lemma names_in_table: "rb_table b' = rb_table (update_entry n f b) \<Longrightarrow> names_in b' = names_in b"
  using same_table(1) [of b' "update_entry n f b"] names_in_update [of n f b] by (simp add: names_in_def)

lemma rib_ok_routes:
  assumes "rib_ok b" and "n \<in> names_in b" and "\<And>e. re_parent (f e) = re_parent e \<and> re_children (f e) = re_children e"
    and "entry_ok n (f (entry_at b n))" and "rb_table b' = rb_table (update_entry n f b)"
    and "rb_nItems b' + length (re_routes (entry_at b n)) = rb_nItems b + length (re_routes (f (entry_at b n)))"
    and "\<And>g m. m \<in> set (rb_faceMap b' g) \<longleftrightarrow> m \<in> names_in b \<and> g \<in> rt_faceId ` set (re_routes (if m = n then f (entry_at b n) else entry_at b m))"
  shows "rib_ok b'"
proof (rule rib_okI)
  note b = rib_okD [OF assms(1)] and same = same_table [OF assms(5)]
  have names: "names_in b' = names_in b" by (rule names_in_table [OF assms(5)])
  have at: "entry_at b' m = (if m = n then f (entry_at b n) else entry_at b m)" if "m \<in> names_in b" for m
    using that same(3) by (simp add: entry_at_update)
  show "ordered b'" using b(1) same(2) by simp
  have "linked_by (nearest (names_in b)) (update_entry n f b)" using linked_update [of f] assms(3) b(2) by blast
  then show "linked_by (nearest (names_in b')) b'" unfolding names by (simp add: linked_by_def same(3) names)
  show "entry_ok m (entry_at b' m)" if "m \<in> names_in b'" for m using that b(3) assms(4) at names by auto
  have "(\<Sum>m \<in> names_in b. length (re_routes (entry_at b' m))) + length (re_routes (entry_at b n))
      = (\<Sum>m \<in> names_in b. length (re_routes (entry_at b m))) + length (re_routes (f (entry_at b n)))"
    using at assms(2) by (simp add: sum.remove [OF b(6) assms(2)])
  then show "rb_nItems b' = (\<Sum>m \<in> names_in b'. length (re_routes (entry_at b' m)))" using b(4) assms(6) names by simp
  show "faces_ok b'" unfolding faces_ok_def names using assms(7) at by (simp cong: conj_cong)
qed

text \<open>Replacing the entry of a name by a function of it.\<close>

lemma update_const:
  assumes "ordered b" and "Rib_find b n = Some e"
  shows "update_entry n (\<lambda>_. f e) b = update_entry n f b"
proof -
  have "x = e" if "(n, x) \<in> set (rb_table b)" for x using that assms(2) Rib_find_in [OF assms(1), of n x] by simp
  then have "map (\<lambda>(k, x). (k, if k = n then f e else x)) (rb_table b) = map (\<lambda>(k, x). (k, if k = n then f x else x)) (rb_table b)"
    by (intro map_cong) auto
  then show ?thesis by (simp add: update_entry_def)
qed

lemma find_if_end: "find_if P xs = length xs \<longleftrightarrow> (\<forall>x \<in> set xs. \<not> P x)"
  unfolding find_if_def by (induction xs) auto

lemma find_if_hit: "find_if P xs \<noteq> length xs \<Longrightarrow> find_if P xs < length xs \<and> P (xs ! find_if P xs)"
  unfolding find_if_def using nth_length_takeWhile [of "\<lambda>x. \<not> P x" xs] length_takeWhile_le [of "\<lambda>x. \<not> P x" xs] by fastforce

lemma compare_key: "compareFaceIdAndOrigin x r \<longleftrightarrow> route_key x = route_key r"
  by (auto simp: compareFaceIdAndOrigin_def route_key_def)

lemma findRoute_end: "findRoute e r = length (re_routes e) \<longleftrightarrow> route_key r \<notin> set (map route_key (re_routes e))"
  by (auto simp: findRoute_def find_if_end compare_key image_iff)

lemma findRoute_hit: "findRoute e r \<noteq> length (re_routes e) \<Longrightarrow>
   findRoute e r < length (re_routes e) \<and> route_key (re_routes e ! findRoute e r) = route_key r"
  using find_if_hit [of "\<lambda>x. compareFaceIdAndOrigin x r" "re_routes e"] by (simp add: findRoute_def compare_key)

section \<open>Inserting a route\<close>

lemma findDescendants_set:
  assumes "ordered b" and "n \<in> names_in b"
  shows "set (findDescendants b n) = {m \<in> names_in b. proper_prefix n m}" and "distinct (findDescendants b n)"
proof -
  let ?es = "rb_table b" and ?i = "lower_bound name_lt n (rb_table b)"
  have s: "sorted_map name_lt ?es" using assms(1) by (simp add: ordered_def)
  have "n \<in> fst ` set ?es" using entry_in_table [OF assms] by force
  from nm.lower_bound_entry [OF s this] have i: "fst (?es ! ?i) = n" "?i < length ?es" .
  have dr: "drop ?i ?es = ?es ! ?i # drop (Suc ?i) ?es" using i(2) by (rule Cons_nth_drop_Suc [symmetric])
  have f: "?es ! ?i # drop (Suc ?i) ?es = filter (\<lambda>e. \<not> fst e < n) ?es" using nm.drop_lower_bound [OF s, of n] dr by simp
  have sd: "sorted_map name_lt (?es ! ?i # drop (Suc ?i) ?es)" unfolding f by (rule sorted_map_filter [OF s])
  then have gt: "\<forall>e \<in> set (drop (Suc ?i) ?es). n < fst e" "sorted_map name_lt (drop (Suc ?i) ?es)" using i(1) by auto
  have mem: "e \<in> set (drop (Suc ?i) ?es) \<longleftrightarrow> e \<in> set ?es \<and> n < fst e" for e
  proof -
    have "e \<in> set (?es ! ?i # drop (Suc ?i) ?es) \<longleftrightarrow> e \<in> set ?es \<and> \<not> fst e < n" by (simp only: f) simp
    then show ?thesis using gt(1) i(1) by auto
  qed
  have tw: "takeWhile (\<lambda>e. is_prefix_of n (fst e)) (drop (Suc ?i) ?es) = filter (\<lambda>e. is_prefix_of n (fst e)) (drop (Suc ?i) ?es)"
    unfolding is_prefix_of_def by (rule takeWhile_prefix [OF gt(2)]) (use gt(1) in \<open>auto simp: less_imp_le\<close>)
  have fd: "findDescendants b n = map fst (filter (\<lambda>e. is_prefix_of n (fst e)) (drop (Suc ?i) ?es))"
    using assms(2) by (simp add: findDescendants_def names_in_def tw)
  show "set (findDescendants b n) = {m \<in> names_in b. proper_prefix n m}"
    unfolding fd names_in_keys [OF assms(1)] using mem proper_prefix_less [of n] by (auto simp: proper_prefix_def)
  show "distinct (findDescendants b n)" unfolding fd by (rule distinct_map_filter) (rule sorted_distinct [OF gt(2)])
qed

lemma nearest_in: "nearest D n = Some p \<Longrightarrow> p \<in> D"
  by (simp add: nearest_Some)

lemma insert_new_entry:
  fixes r :: route
  assumes "rib_ok b" and "Rib_find b n = None"
  defines "b1 \<equiv> b\<lparr>rb_table := snd (snd (emplace name_lt n (fst (insertRoute (RibEntry_new n) r)) (rb_table b))), rb_nItems := rb_nItems b + 1\<rparr>"
  shows "ordered b1" and "names_in b1 = insert n (names_in b)" and "entry_at b1 m = (if m = n then fst (insertRoute (RibEntry_new n) r) else entry_at b m)"
    and "linked_by ((nearest (names_in b))(n := None)) b1"
proof -
  let ?e = "fst (insertRoute (RibEntry_new n) r)"
  note b = rib_okD [OF assms(1)]
  have s: "sorted_map name_lt (rb_table b)" using b(1) by (simp add: ordered_def)
  have n: "n \<notin> fst ` set (rb_table b)" using Rib_find_keys [OF b(1), of n] assms(2) by simp
  show o1: "ordered b1" unfolding ordered_def b1_def by (simp add: nm.sorted_emplace [OF s])
  have f: "Rib_find b1 m = (if m = n then Some ?e else Rib_find b m)" for m
  proof -
    have "Rib_find b1 m = Some x \<longleftrightarrow> (m = n \<and> x = ?e) \<or> Rib_find b m = Some x" for x
      unfolding Rib_find_in [OF o1] Rib_find_in [OF b(1)] using n by (auto simp: b1_def nm.set_emplace [OF s])
    then show ?thesis using assms(2) by (cases "Rib_find b m"; cases "Rib_find b1 m") auto
  qed
  show nm: "names_in b1 = insert n (names_in b)" by (auto simp: names_in_def f)
  show at: "entry_at b1 m = (if m = n then ?e else entry_at b m)" for m by (simp add: entry_at_def f)
  have "n \<notin> names_in b" using assms(2) by (simp add: names_in_def)
  then have ch: "{m \<in> insert n (names_in b). ((nearest (names_in b))(n := None)) m = Some k} = {m \<in> names_in b. nearest (names_in b) m = Some k}" for k
    by auto
  have "{m \<in> names_in b. nearest (names_in b) m = Some n} = {}" using \<open>n \<notin> names_in b\<close> nearest_in by blast
  then show "linked_by ((nearest (names_in b))(n := None)) b1"
    using b(2) \<open>n \<notin> names_in b\<close> unfolding linked_by_def nm ch at
    by (auto simp: insertRoute_def findRoute_def find_if_def RibEntry_new_def)
qed

lemma adopted_parents:
  assumes "n \<notin> D" and "m \<in> insert n D"
  shows "(if m \<in> {m \<in> insert n D. proper_prefix n m} \<and> nearest D m = nearest D n then Some n else nearest D m) = nearest (insert n D) m"
  using nearest_insert [OF assms(1), of m] nearest_own [of n D] assms(2) by (cases "m = n") auto

lemma linked_by_cong: "(\<And>m. m \<in> names_in b \<Longrightarrow> P m = Q m) \<Longrightarrow> linked_by P b = linked_by Q b"
  by (auto simp: linked_by_def)

lemma Rib_insert_new:
  assumes "rib_ok b" and "Rib_find b n = None"
  shows "\<exists>b'. Rib_insert n r b = Inr b' \<and> rib_ok b' \<and> names_in b' = insert n (names_in b)
     \<and> (\<forall>m \<in> names_in b'. re_routes (entry_at b' m) = (if m = n then [r] else re_routes (entry_at b m)))
     \<and> (\<forall>m \<in> names_in b. re_inherited (entry_at b' m) = re_inherited (entry_at b m))"
proof -
  let ?D = "names_in b" and ?e = "fst (insertRoute (RibEntry_new n) r)"
  note b = rib_okD [OF assms(1)]
  define b1 where "b1 = b\<lparr>rb_table := snd (snd (emplace name_lt n ?e (rb_table b))), rb_nItems := rb_nItems b + 1\<rparr>"
  note f1 = insert_new_entry [OF assms, where r = r, folded b1_def]
  have n: "n \<notin> ?D" using assms(2) by (simp add: names_in_def)
  have e: "re_routes ?e = [r]" "re_name ?e = n" by (simp_all add: insertRoute_def findRoute_def find_if_def RibEntry_new_def)
  define parent where "parent = findParent b1 n"
  have parent: "parent = nearest ?D n" by (simp add: parent_def findParent_nearest f1(2) nearest_own)
  obtain b2 where b2: "(case parent of None \<Rightarrow> Inr b1 | Some p \<Rightarrow> addChild p n b1) = Inr b2"
    "linked_by (nearest ?D) b2" "names_in b2 = insert n ?D" "strip_links b2 = strip_links b1"
  proof (cases parent)
    case None
    moreover have "(nearest ?D)(n := None) = nearest ?D" using None parent by auto
    ultimately show ?thesis using that f1(2,4) by simp
  next
    case (Some p)
    then have "p \<in> ?D" using parent nearest_in by simp
    then obtain b2 where "addChild p n b1 = Inr b2" "linked_by ((nearest ?D)(n := Some p)) b2" "names_in b2 = names_in b1"
      using linked_addChild [OF f1(4), of p n] f1(2) by auto
    moreover have "(nearest ?D)(n := Some p) = nearest ?D" using Some parent by auto
    ultimately show ?thesis using that Some f1(2) strip_addChild by simp
  qed
  note o2 = strip_names [OF b2(4) f1(1)]
  have desc: "set (findDescendants b2 n) = {m \<in> insert n ?D. proper_prefix n m}" "distinct (findDescendants b2 n)"
    using findDescendants_set [OF o2(1), of n] b2(3) by auto
  have "\<exists>b3. adopt_children n parent (findDescendants b2 n) b2 = Inr b3 \<and> strip_links b3 = strip_links b2
     \<and> linked_by (\<lambda>m. if m \<in> set (findDescendants b2 n) \<and> nearest ?D m = parent then Some n else nearest ?D m) b3 \<and> names_in b3 = names_in b2"
    by (rule linked_adopt [OF _ desc(2) b2(2)]) (use desc(1) b2(3) parent nearest_in in auto)
  then obtain b3 where b3: "adopt_children n parent (findDescendants b2 n) b2 = Inr b3" "strip_links b3 = strip_links b1"
    "names_in b3 = insert n ?D" and l3: "linked_by (\<lambda>m. if m \<in> set (findDescendants b2 n) \<and> nearest ?D m = parent then Some n else nearest ?D m) b3"
    using b2(3,4) by auto
  have l: "linked_by (nearest (insert n ?D)) b3"
  proof -
    have "linked_by (\<lambda>m. if m \<in> set (findDescendants b2 n) \<and> nearest ?D m = parent then Some n else nearest ?D m) b3
        = linked_by (nearest (insert n ?D)) b3"
      by (rule linked_by_cong) (simp only: desc(1) parent b3(3) adopted_parents [OF n])
    then show ?thesis using l3 by blast
  qed
  define b4 where "b4 = log_event (AfterAddRoute n r) (log_event (AfterInsertEntry n) (add_to_faceMap (rt_faceId r) n b3))"
  have i: "Rib_insert n r b = Inr b4"
    unfolding Rib_insert_def Let_def b1_def [symmetric] parent_def [symmetric] b4_def by (simp add: assms(2) b2(1) b3(1))
  have t4: "rb_table b4 = rb_table b3" by (simp add: b4_def)
  note same = same_table [OF t4] and o3 = strip_names [OF b3(2) f1(1)] and k = strip_ok [OF b3(2) f1(1)] and se = strip_entry [OF b3(2) f1(1)]
  have names: "names_in b4 = insert n ?D" using same(1) b3(3) by (simp add: names_in_def)
  have routes: "re_routes (entry_at b4 m) = (if m = n then [r] else re_routes (entry_at b m))" "re_name (entry_at b4 m) = (if m = n then n else re_name (entry_at b m))"
    if "m \<in> insert n ?D" for m
    using that se(1,2) [of m] f1(2,3) e same(3) by auto
  have "rib_ok b4"
  proof (rule rib_okI)
    show "ordered b4" using same(2) o3(1) by simp
    show "linked_by (nearest (names_in b4)) b4" using l unfolding names by (simp add: linked_by_def names same(3) b3(3))
    show "entry_ok m (entry_at b4 m)" if "m \<in> names_in b4" for m
      using that routes [of m] b(3) [of m] names by (auto simp: entry_ok_def split: if_splits)
    have "rb_nItems b4 = Suc (rb_nItems b)" using k(3) b3(3) f1(2) by (simp add: b4_def b1_def)
    moreover have "(\<Sum>m \<in> ?D. length (re_routes (entry_at b4 m))) = (\<Sum>m \<in> ?D. length (re_routes (entry_at b m)))"
      using routes n by (intro sum.cong) auto
    ultimately show "rb_nItems b4 = (\<Sum>m \<in> names_in b4. length (re_routes (entry_at b4 m)))"
      unfolding names using routes n b(4,6) by simp
    have "rb_faceMap b4 = (rb_faceMap b)(rt_faceId r := rb_faceMap b (rt_faceId r) @ [n])"
      using k(5) b3(3) f1(2) by (simp add: b4_def add_to_faceMap_def b1_def log_event_def)
    then show "faces_ok b4" using b(5) n routes unfolding faces_ok_def names by (auto split: if_splits)
  qed
  moreover have "re_inherited (entry_at b4 m) = re_inherited (entry_at b m)" if "m \<in> ?D" for m
    using that se(3) [of m] f1(2,3) n same(3) by auto
  ultimately show ?thesis using i names routes by blast
qed

text \<open>What a table holds: the routes of each name; and what registering and unregistering a route mean for them.\<close>

definition routes_at :: "rib \<Rightarrow> full_name \<Rightarrow> route list" where
  "routes_at b n = (case Rib_find b n of None \<Rightarrow> [] | Some e \<Rightarrow> re_routes e)"

definition registered :: "route \<Rightarrow> route list \<Rightarrow> route list" where
  "registered r rs =
     (if route_key r \<in> set (map route_key rs)
      then map (\<lambda>x. if route_key x = route_key r
          then x\<lparr>rt_event := rt_event r, rt_flags := rt_flags r, rt_cost := rt_cost r, rt_expires := rt_expires r\<rparr> else x) rs
      else rs @ [r])"

definition unregistered :: "route \<Rightarrow> route list \<Rightarrow> route list" where
  "unregistered r rs = filter (\<lambda>x. route_key x \<noteq> route_key r) rs"

lemma routes_at_entry: "routes_at b n = (if n \<in> names_in b then re_routes (entry_at b n) else [])"
  by (auto simp: routes_at_def names_in_def entry_at_def)

lemma routes_at_update:
  assumes "rb_table b' = rb_table (update_entry n f b)" and "n \<in> names_in b"
  shows "routes_at b' = (routes_at b)(n := re_routes (f (entry_at b n)))"
proof
  show "routes_at b' m = ((routes_at b)(n := re_routes (f (entry_at b n)))) m" for m
    using assms(2) unfolding routes_at_entry names_in_table [OF assms(1)] same_table(3) [OF assms(1)]
    by (simp add: entry_at_update routes_at_entry)
qed

lemma refresh_registered:
  assumes "distinct (map route_key (re_routes e))" and "findRoute e r \<noteq> length (re_routes e)"
  shows "re_routes (refresh_route (findRoute e r) r e) = registered r (re_routes e)"
proof -
  let ?rs = "re_routes e" and ?i = "findRoute e r"
  have i: "?i < length ?rs" "route_key (?rs ! ?i) = route_key r" using findRoute_hit [OF assms(2)] by auto
  have "route_key (?rs ! j) = route_key r \<longleftrightarrow> j = ?i" if "j < length ?rs" for j
    using nth_eq_iff_index_eq [OF assms(1), of j ?i] that i by auto
  moreover have "route_key r \<in> set (map route_key ?rs)" using assms(2) findRoute_end by blast
  ultimately show ?thesis using i(1) by (auto simp: refresh_route_def registered_def list_eq_iff_nth_eq nth_list_update)
qed

lemma Rib_insert_existing:
  assumes "rib_ok b" and "Rib_find b n = Some e"
  shows "\<exists>b'. Rib_insert n r b = Inr b' \<and> rib_ok b' \<and> routes_at b' = (routes_at b)(n := registered r (routes_at b n))"
proof -
  note b = rib_okD [OF assms(1)]
  have n: "n \<in> names_in b" and at: "entry_at b n = e" using assms(2) by (simp_all add: names_in_def entry_at_def)
  have e: "entry_ok n e" using b(3) [OF n] at by simp
  let ?it = "findRoute e r"
  show ?thesis
  proof (cases "?it = length (re_routes e)")
    case True
    define f where "f = (\<lambda>e :: rib_entry. e\<lparr>re_nCapture := (if isCapture r then re_nCapture e + 1 else re_nCapture e), re_routes := re_routes e @ [r]\<rparr>)"
    define b' where "b' = add_to_faceMap (rt_faceId r) n (log_event (AfterAddRoute n r) ((update_entry n f b)\<lparr>rb_nItems := rb_nItems b + 1\<rparr>))"
    have "insertRoute e r = (f e, ?it, True)" using True by (simp add: insertRoute_def f_def)
    then have i: "Rib_insert n r b = Inr b'" using assms(2) update_const [OF b(1) assms(2), of f] by (simp add: Rib_insert_def b'_def)
    have "rib_ok b'"
    proof (rule rib_ok_routes [OF assms(1) n, of f])
      show "entry_ok n (f (entry_at b n))" using e at True by (auto simp: entry_ok_def f_def findRoute_end)
      show "m \<in> set (rb_faceMap b' g) \<longleftrightarrow> m \<in> names_in b \<and> g \<in> rt_faceId ` set (re_routes (if m = n then f (entry_at b n) else entry_at b m))" for g m
        using b(5) n at by (auto simp: b'_def add_to_faceMap_def faces_ok_def f_def log_event_def update_entry_def)
    qed (simp_all add: f_def b'_def)
    moreover have "routes_at b' = (routes_at b)(n := re_routes (f e))" using routes_at_update [of b' n f b] n at by (simp add: b'_def)
    moreover have "re_routes (f e) = registered r (routes_at b n)" using True assms(2) by (simp add: f_def registered_def findRoute_end routes_at_def)
    ultimately show ?thesis using i by auto
  next
    case False
    define b' where "b' = update_entry n (refresh_route ?it r) (cancel_event (rt_event (re_routes e ! ?it)) b)"
    have i: "Rib_insert n r b = Inr b'" using False assms(2) by (simp add: Rib_insert_def insertRoute_def b'_def Let_def)
    have it: "?it < length (re_routes e)" using findRoute_hit [OF False] by blast
    have t: "rb_table b' = rb_table (update_entry n (refresh_route ?it r) b)" by (simp add: b'_def update_entry_def)
    have k: "map route_key (re_routes (refresh_route ?it r e)) = map route_key (re_routes e)"
      "map rt_faceId (re_routes (refresh_route ?it r e)) = map rt_faceId (re_routes e)"
      using it by (auto simp: refresh_route_def list_eq_iff_nth_eq nth_list_update route_key_def)
    have "rib_ok b'"
    proof (rule rib_ok_routes [OF assms(1) n _ _ t])
      show "entry_ok n (refresh_route ?it r (entry_at b n))"
        using e at k(1) by (simp add: entry_ok_def) (simp add: refresh_route_def)
      show "m \<in> set (rb_faceMap b' g) \<longleftrightarrow> m \<in> names_in b \<and> g \<in> rt_faceId ` set (re_routes (if m = n then refresh_route ?it r (entry_at b n) else entry_at b m))" for g m
        using b(5) at arg_cong [OF k(2), of set] by (simp add: b'_def faces_ok_def)
    qed (simp_all add: refresh_route_def b'_def at)
    moreover have "routes_at b' = (routes_at b)(n := registered r (routes_at b n))"
      using routes_at_update [OF t n] refresh_registered [OF _ False] e at assms(2) by (simp add: entry_ok_def routes_at_def)
    ultimately show ?thesis using i by blast
  qed
qed

section \<open>Erasing a route\<close>

lemma eraseRoute_at_hit:
  assumes "it < length (re_routes e)"
  shows "eraseRoute_at e it = (e\<lparr>re_nCapture := (if isCapture (re_routes e ! it) then re_nCapture e - 1 else re_nCapture e),
     re_routes := remove_at it (re_routes e)\<rparr>, rt_event (re_routes e ! it))"
  using assms by (simp add: eraseRoute_at_def)

lemma remove_at_parts: "i < length xs \<Longrightarrow> xs = take i xs @ xs ! i # drop (Suc i) xs"
  by (rule id_take_nth_drop)

lemma remove_at_simps:
  assumes "i < length xs"
  shows "length (remove_at i xs) + 1 = length xs" and "set xs = insert (xs ! i) (set (remove_at i xs))"
    and "distinct (map g xs) \<Longrightarrow> distinct (map g (remove_at i xs)) \<and> g (xs ! i) \<notin> g ` set (remove_at i xs)"
proof -
  note p = remove_at_parts [OF assms]
  show "length (remove_at i xs) + 1 = length xs" using assms by (simp add: remove_at_def)
  show "set xs = insert (xs ! i) (set (remove_at i xs))" unfolding remove_at_def by (subst p) auto
  show "distinct (map g (remove_at i xs)) \<and> g (xs ! i) \<notin> g ` set (remove_at i xs)" if d: "distinct (map g xs)"
  proof -
    have "distinct (map g (take i xs @ xs ! i # drop (Suc i) xs))" using d p by simp
    then show ?thesis by (auto simp: remove_at_def)
  qed
qed

lemma nearest_remove:
  assumes "m \<in> D" and "m \<noteq> n" and "n \<in> D"
  shows "nearest (D - {n}) m = (if nearest D m = Some n then nearest D n else nearest D m)"
proof -
  let ?E = "D - {n}"
  have D: "insert n ?E = D" using assms(3) by blast
  have "nearest ?E m \<noteq> Some n" using nearest_in by blast
  then show ?thesis using nearest_insert [of n ?E m] nearest_own [of n ?E] assms(2) unfolding D by auto
qed

text \<open>An entry without routes is taken out of the table.\<close>

lemma eraseEntry_ok:
  assumes "ordered b" and "linked_by (nearest (names_in b)) b" and n: "n \<in> names_in b"
    and "\<And>m. m \<in> names_in b \<Longrightarrow> m \<noteq> n \<Longrightarrow> entry_ok m (entry_at b m)" and "re_routes (entry_at b n) = []"
    and "rb_nItems b = (\<Sum>m \<in> names_in b. length (re_routes (entry_at b m)))" and "faces_ok b"
  shows "\<exists>b'. eraseEntry n b = Inr b' \<and> rib_ok b' \<and> names_in b' = names_in b - {n}
     \<and> (\<forall>m \<in> names_in b'. re_routes (entry_at b' m) = re_routes (entry_at b m))"
proof -
  let ?D = "names_in b" and ?cs = "re_children (entry_at b n)" and ?p = "nearest (names_in b) n"
  have fin: "finite ?D" by (rule n_routes_sum(2) [OF assms(1)])
  have e: "re_parent (entry_at b n) = ?p" "distinct ?cs" "set ?cs = {m \<in> ?D. nearest ?D m = Some n}"
    using assms(2) n by (auto simp: linked_by_def)
  have not_own: "?p \<noteq> Some n" by (simp add: nearest_Some)
  obtain b1 where b1: "(case ?p of None \<Rightarrow> Inr b | Some p \<Rightarrow> removeChild p n b) = Inr b1" "linked_by ((nearest ?D)(n := None)) b1"
    "names_in b1 = ?D" "strip_links b1 = strip_links b"
  proof (cases ?p)
    case None
    have "linked_by ((nearest ?D)(n := None)) b" unfolding fun_upd_idem [of "nearest ?D" n None, OF None] by (rule assms(2))
    then show ?thesis using that [of b] None by simp
  next
    case (Some p)
    then obtain b1 where "removeChild p n b = Inr b1" "linked_by ((nearest ?D)(n := None)) b1" "names_in b1 = ?D"
      using linked_removeChild [OF assms(2) nearest_in [OF Some] n Some] by blast
    then show ?thesis using that Some strip_removeChild by simp
  qed
  have "\<exists>b2. hand_over_children n ?p ?cs b1 = Inr b2 \<and> strip_links b2 = strip_links b1
     \<and> linked_by (\<lambda>m. if m \<in> set ?cs then ?p else ((nearest ?D)(n := None)) m) b2 \<and> names_in b2 = names_in b1"
    by (rule linked_hand_over [OF _ e(2) b1(2)]) (use e(3) b1(3) n not_own nearest_in in auto)
  then obtain b2 where b2: "hand_over_children n ?p ?cs b1 = Inr b2" "strip_links b2 = strip_links b" "names_in b2 = ?D"
    and l2: "linked_by (\<lambda>m. if m \<in> set ?cs then ?p else ((nearest ?D)(n := None)) m) b2" using b1(3,4) by auto
  note o2 = strip_names [OF b2(2) assms(1)] and se = strip_entry [OF b2(2) assms(1)] and k = strip_ok [OF b2(2) assms(1) b2(3)]
  define b3 where "b3 = log_event (AfterEraseEntry n) (b2\<lparr>rb_table := filter (\<lambda>e. fst e \<noteq> n) (rb_table b2)\<rparr>)"
  have er: "eraseEntry n b = Inr b3" unfolding eraseEntry_def Let_def e(1) by (simp add: b1(1) b2(1) b3_def)
  have o3: "ordered b3" using o2(1) by (simp add: ordered_def b3_def sorted_map_filter)
  have f3: "Rib_find b3 m = (if m = n then None else Rib_find b2 m)" for m
  proof -
    have "Rib_find b3 m = Some x \<longleftrightarrow> m \<noteq> n \<and> Rib_find b2 m = Some x" for x
      unfolding Rib_find_in [OF o3] Rib_find_in [OF o2(1)] by (auto simp: b3_def)
    then show ?thesis by (cases "Rib_find b2 m"; cases "Rib_find b3 m") auto
  qed
  have names: "names_in b3 = ?D - {n}" using b2(3) f3 by (auto simp: names_in_def)
  have at: "entry_at b3 m = entry_at b2 m" if "m \<noteq> n" for m using that by (simp add: entry_at_def f3)
  have routes: "re_routes (entry_at b3 m) = re_routes (entry_at b m)" "re_name (entry_at b3 m) = re_name (entry_at b m)" if "m \<in> ?D - {n}" for m
    using that se(1,2) [of m] at [of m] by simp_all
  have P: "(if m \<in> set ?cs then ?p else ((nearest ?D)(n := None)) m) = nearest (?D - {n}) m" if "m \<in> ?D - {n}" for m
    using nearest_remove [of m ?D n] that n e(3) by auto
  have Pn: "(if n \<in> set ?cs then ?p else ((nearest ?D)(n := None)) n) = None" using e(3) not_own by simp
  have "rib_ok b3"
  proof (rule rib_okI [OF o3])
    let ?P = "\<lambda>m. if m \<in> set ?cs then ?p else ((nearest ?D)(n := None)) m"
    have kids: "{x \<in> ?D. ?P x = Some m} = {x \<in> ?D - {n}. nearest (?D - {n}) x = Some m}" for m
    proof (rule set_eqI)
      show "x \<in> {x \<in> ?D. ?P x = Some m} \<longleftrightarrow> x \<in> {x \<in> ?D - {n}. nearest (?D - {n}) x = Some m}" for x
        using P [of x] Pn by (cases "x = n") auto
    qed
    show "linked_by (nearest (names_in b3)) b3" unfolding linked_by_def names
    proof (rule ballI)
      fix m assume m: "m \<in> ?D - {n}"
      then have "re_parent (entry_at b2 m) = ?P m \<and> distinct (re_children (entry_at b2 m))
          \<and> set (re_children (entry_at b2 m)) = {x \<in> ?D. ?P x = Some m}"
        using l2 unfolding linked_by_def b2(3) by blast
      then show "re_parent (entry_at b3 m) = nearest (?D - {n}) m \<and> distinct (re_children (entry_at b3 m))
          \<and> set (re_children (entry_at b3 m)) = {x \<in> ?D - {n}. nearest (?D - {n}) x = Some m}"
        unfolding kids P [OF m] using at [of m] m by simp
    qed
    show "entry_ok m (entry_at b3 m)" if "m \<in> names_in b3" for m
      using that assms(4) [of m] routes [of m] names by (auto simp: entry_ok_def)
    have "(\<Sum>m \<in> ?D - {n}. length (re_routes (entry_at b3 m))) = (\<Sum>m \<in> ?D. length (re_routes (entry_at b m)))"
      using routes assms(5) by (simp add: sum.remove [OF fin n])
    then show "rb_nItems b3 = (\<Sum>m \<in> names_in b3. length (re_routes (entry_at b3 m)))"
      using assms(6) k(3) names by (simp add: b3_def)
    have "rb_faceMap b3 = rb_faceMap b" using k(5) by (simp add: b3_def)
    moreover have "m \<in> names_in b3 \<and> f \<in> rt_faceId ` set (re_routes (entry_at b3 m)) \<longleftrightarrow> m \<in> ?D \<and> f \<in> rt_faceId ` set (re_routes (entry_at b m))" for m f
      using routes [of m] assms(5) names by (cases "m = n") auto
    ultimately show "faces_ok b3" using assms(7) by (simp add: faces_ok_def)
  qed
  then show ?thesis using er names routes by blast
qed

lemma filter_other_keys:
  assumes "distinct (map g (xs @ y # zs))" and "g y = k"
  shows "filter (\<lambda>x. g x \<noteq> k) (xs @ y # zs) = xs @ zs"
proof -
  have "\<forall>x \<in> set xs. g x \<noteq> k" "\<forall>x \<in> set zs. g x \<noteq> k" using assms by (auto simp: image_iff)
  then show ?thesis using assms(2) by (simp add: filter_id_conv)
qed

lemma remove_at_unregistered:
  assumes "distinct (map route_key (re_routes e))" and "findRoute e r \<noteq> length (re_routes e)"
  shows "remove_at (findRoute e r) (re_routes e) = unregistered r (re_routes e)"
proof -
  let ?rs = "re_routes e" and ?i = "findRoute e r"
  have i: "?i < length ?rs" "route_key (?rs ! ?i) = route_key r" using findRoute_hit [OF assms(2)] by auto
  note p = remove_at_parts [OF i(1)]
  have "distinct (map route_key (take ?i ?rs @ ?rs ! ?i # drop (Suc ?i) ?rs))" using assms(1) unfolding p [symmetric] .
  from filter_other_keys [OF this i(2)] show ?thesis unfolding p [symmetric] by (simp add: unregistered_def remove_at_def)
qed

lemma Rib_erase_existing:
  assumes "rib_ok b" and "Rib_find b n = Some e"
  shows "\<exists>b'. Rib_erase n r b = Inr b' \<and> rib_ok b' \<and> routes_at b' = (routes_at b)(n := unregistered r (routes_at b n))"
proof (cases "findRoute e r = length (re_routes e)")
  case True
  then have "route_key r \<notin> set (map route_key (re_routes e))" by (simp add: findRoute_end)
  then have "\<forall>x \<in> set (re_routes e). route_key x \<noteq> route_key r" by (auto simp: image_iff)
  then have "unregistered r (routes_at b n) = routes_at b n" using assms(2)
    by (simp add: unregistered_def routes_at_def filter_id_conv)
  then show ?thesis using True assms by (simp add: Rib_erase_def Let_def)
next
  case False
  let ?i = "findRoute e r"
  note b = rib_okD [OF assms(1)]
  have n: "n \<in> names_in b" and at: "entry_at b n = e" using assms(2) by (simp_all add: names_in_def entry_at_def)
  have e: "entry_ok n e" using b(3) [OF n] at by simp
  have i: "?i < length (re_routes e)" "route_key (re_routes e ! ?i) = route_key r" using findRoute_hit [OF False] by auto
  note rm = remove_at_simps [OF i(1)]
  define f where "f = (\<lambda>e' :: rib_entry. e'\<lparr>re_nCapture := (if isCapture (re_routes e ! ?i) then re_nCapture e' - 1 else re_nCapture e'),
     re_routes := remove_at ?i (re_routes e')\<rparr>)"
  have fr: "re_routes (f e) = unregistered r (re_routes e)"
    using remove_at_unregistered [OF _ False] e by (simp add: f_def entry_ok_def)
  define b2 where "b2 = (cancel_event (rt_event (re_routes e ! ?i)) (update_entry n f (log_event (BeforeRemoveRoute n (re_routes e ! ?i)) b)))
     \<lparr>rb_nItems := rb_nItems b - 1\<rparr>"
  define b3 where "b3 = (if \<not> hasFaceId (f e) (rt_faceId r)
     then b2\<lparr>rb_faceMap := (rb_faceMap b2)(rt_faceId r := removeAll n (rb_faceMap b2 (rt_faceId r)))\<rparr> else b2)"
  have "Rib_find (log_event x b) n = Some e" for x using assms(2) by (simp add: Rib_find_def)
  moreover have "ordered (log_event x b)" for x using b(1) by (simp add: ordered_def)
  ultimately have "update_entry n (\<lambda>_. f e) (log_event x b) = update_entry n f (log_event x b)" for x by (rule update_const [rotated])
  then have er: "Rib_erase n r b = (if re_routes (f e) = [] then eraseEntry n b3 else Inr b3)"
  proof -
    have "eraseRoute_at e ?i = (f e, rt_event (re_routes e ! ?i))" by (simp add: eraseRoute_at_hit [OF i(1)] f_def)
    with \<open>\<And>x. update_entry n (\<lambda>_. f e) (log_event x b) = update_entry n f (log_event x b)\<close> show ?thesis
      using False assms(2) by (simp add: Rib_erase_def Let_def b2_def b3_def)
  qed
  have t: "rb_table b3 = rb_table (update_entry n f b)" by (simp add: b3_def b2_def) (simp add: update_entry_def log_event_def)
  have has: "hasFaceId (f e) g \<longleftrightarrow> g \<in> rt_faceId ` set (re_routes (f e))" for g
    by (auto simp: hasFaceId_def find_if_end)
  have "rt_faceId (re_routes e ! ?i) = rt_faceId r" using i(2) by (simp add: route_key_def)
  then have fe: "rt_faceId ` set (re_routes e) = insert (rt_faceId r) (rt_faceId ` set (re_routes (f e)))"
    using rm(2) by (simp add: f_def)
  have faces: "m \<in> set (rb_faceMap b3 g) \<longleftrightarrow> m \<in> names_in b \<and> g \<in> rt_faceId ` set (re_routes (if m = n then f (entry_at b n) else entry_at b m))" for g m
  proof -
    have "m \<in> set (rb_faceMap b g) \<longleftrightarrow> m \<in> names_in b \<and> g \<in> rt_faceId ` set (re_routes (entry_at b m))" using b(5) by (simp add: faces_ok_def)
    then show ?thesis using has [of g] has [of "rt_faceId r"] fe at n by (cases "m = n"; cases "g = rt_faceId r") (auto simp: b3_def b2_def)
  qed
  have items: "rb_nItems b3 + length (re_routes (entry_at b n)) = rb_nItems b + length (re_routes (f (entry_at b n)))"
  proof -
    have "length (re_routes e) \<le> rb_nItems b" unfolding b(4) using member_le_sum [OF n, of "\<lambda>m. length (re_routes (entry_at b m))"] b(6) at by simp
    moreover have "rb_nItems b3 = rb_nItems b - 1" by (simp add: b3_def b2_def)
    moreover have "length (re_routes (f e)) + 1 = length (re_routes e)" using rm(1) by (simp add: f_def)
    ultimately show ?thesis unfolding at by linarith
  qed
  have same: "re_parent (f x) = re_parent x \<and> re_children (f x) = re_children x" for x by (simp add: f_def)
  have ra: "routes_at b3 = (routes_at b)(n := unregistered r (routes_at b n))"
    using routes_at_update [OF t n] fr at assms(2) by (simp add: routes_at_def)
  show ?thesis
  proof (cases "re_routes (f e) = []")
    case ne: False
    have "rib_ok b3"
    proof (rule rib_ok_routes [OF assms(1) n same _ t items faces])
      have "distinct (map route_key (re_routes (f e)))" using e rm(3) [of route_key] by (simp add: entry_ok_def f_def)
      then show "entry_ok n (f (entry_at b n))" using e at ne by (simp add: entry_ok_def) (simp add: f_def)
    qed
    then show ?thesis using er ne ra by simp
  next
    case emp: True
    have names: "names_in b3 = names_in b" by (rule names_in_table [OF t])
    have at3: "entry_at b3 m = (if m = n then f (entry_at b n) else entry_at b m)" if "m \<in> names_in b" for m
      using that same_table(3) [OF t] by (simp add: entry_at_update)
    have "\<exists>b'. eraseEntry n b3 = Inr b' \<and> rib_ok b' \<and> names_in b' = names_in b3 - {n}
        \<and> (\<forall>m \<in> names_in b'. re_routes (entry_at b' m) = re_routes (entry_at b3 m))"
    proof (rule eraseEntry_ok)
      show "ordered b3" using b(1) same_table(2) [OF t] by simp
      have "linked_by (nearest (names_in b)) (update_entry n f b)" using linked_update [of f] same b(2) by blast
      then show "linked_by (nearest (names_in b3)) b3" unfolding names by (simp add: linked_by_def same_table(3) [OF t] names)
      show "n \<in> names_in b3" using n names by simp
      show "entry_ok m (entry_at b3 m)" if "m \<in> names_in b3" "m \<noteq> n" for m using that b(3) at3 names by simp
      show "re_routes (entry_at b3 n) = []" using at3 [OF n] emp at by simp
      have "(\<Sum>m \<in> names_in b. length (re_routes (entry_at b3 m))) + length (re_routes (entry_at b n))
          = (\<Sum>m \<in> names_in b. length (re_routes (entry_at b m))) + length (re_routes (f (entry_at b n)))"
        using at3 n by (simp add: sum.remove [OF b(6) n])
      then show "rb_nItems b3 = (\<Sum>m \<in> names_in b3. length (re_routes (entry_at b3 m)))" using b(4) items names by simp
      show "faces_ok b3" unfolding faces_ok_def names using faces at3 by (simp cong: conj_cong)
    qed
    then obtain b' where b': "eraseEntry n b3 = Inr b'" "rib_ok b'" "names_in b' = names_in b3 - {n}"
      "\<forall>m \<in> names_in b'. re_routes (entry_at b' m) = re_routes (entry_at b3 m)" by blast
    have "routes_at b' = routes_at b3"
      using b'(3,4) at3 [OF n] emp at by (auto simp: routes_at_entry fun_eq_iff)
    then show ?thesis using er emp b'(1,2) ra by auto
  qed
qed

lemma Rib_new_ok: "rib_ok Rib_new" "routes_at Rib_new = (\<lambda>_. [])"
  by (simp_all add: rib_ok_def Rib_new_def ordered_def linked_by_def names_in_def Rib_find_def map_find_def lower_bound_def n_routes_def
      faces_ok_def routes_at_def fun_eq_iff)

lemma Rib_insert_ok:
  assumes "rib_ok b"
  shows "\<exists>b'. Rib_insert n r b = Inr b' \<and> rib_ok b' \<and> routes_at b' = (routes_at b)(n := registered r (routes_at b n))"
proof (cases "Rib_find b n")
  case None
  then obtain b' where b': "Rib_insert n r b = Inr b'" "rib_ok b'" "names_in b' = insert n (names_in b)"
    "\<forall>m \<in> names_in b'. re_routes (entry_at b' m) = (if m = n then [r] else re_routes (entry_at b m))"
    using Rib_insert_new [OF assms] by blast
  have "registered r (routes_at b n) = [r]" using None by (simp add: routes_at_def registered_def)
  then have "routes_at b' = (routes_at b)(n := registered r (routes_at b n))" using b'(3,4) by (auto simp: routes_at_entry fun_eq_iff)
  then show ?thesis using b'(1,2) by blast
qed (rule Rib_insert_existing [OF assms])

lemma Rib_erase_ok:
  assumes "rib_ok b"
  shows "\<exists>b'. Rib_erase n r b = Inr b' \<and> rib_ok b' \<and> routes_at b' = (routes_at b)(n := unregistered r (routes_at b n))"
proof (cases "Rib_find b n")
  case None
  then have "(routes_at b)(n := unregistered r (routes_at b n)) = routes_at b" by (simp add: routes_at_def unregistered_def fun_upd_idem)
  then show ?thesis using assms None by (simp add: Rib_erase_def)
qed (rule Rib_erase_existing [OF assms])

text \<open>A table with one entry.\<close>

lemma one_entry:
  assumes "rb_table b = [(n, e)]"
  shows "Rib_find b n = Some e" "Rib_find b m = (if m = n then Some e else None)" "names_in b = {n}" "entry_at b n = e" "findParent b n = None"
    "findDescendants b n = []" "rb_table (update_entry n f b) = [(n, f e)]" "routes_at b n = re_routes e"
proof -
  show f: "Rib_find b m = (if m = n then Some e else None)" for m
    using assms nm.asym by (auto simp: Rib_find_def map_find_def lower_bound_def)
  then show "Rib_find b n = Some e" "names_in b = {n}" "entry_at b n = e" "routes_at b n = re_routes e"
    by (auto simp: names_in_def entry_at_def routes_at_def)
  then show "findParent b n = None" by (simp add: findParent_nearest nearest_None)
  show "findDescendants b n = []" using assms by (simp add: findDescendants_def lower_bound_def)
  show "rb_table (update_entry n f b) = [(n, f e)]" using assms by (simp add: update_entry_def)
qed

lemma insert_first:
  "\<exists>b. Rib_insert n r Rib_new = Inr b \<and> rb_table b = [(n, fst (insertRoute (RibEntry_new n) r))]"
proof -
  define b1 where "b1 = Rib_new\<lparr>rb_table := [(n, fst (insertRoute (RibEntry_new n) r))], rb_nItems := 1\<rparr>"
  have t: "rb_table b1 = [(n, fst (insertRoute (RibEntry_new n) r))]" by (simp add: b1_def)
  have "Rib_find Rib_new n = None" by (simp add: Rib_new_def Rib_find_def map_find_def lower_bound_def)
  moreover have "Rib_new\<lparr>rb_table := snd (snd (emplace name_lt n (fst (insertRoute (RibEntry_new n) r)) (rb_table Rib_new))),
      rb_nItems := rb_nItems Rib_new + 1\<rparr> = b1" by (simp add: b1_def Rib_new_def emplace_def lower_bound_def)
  ultimately show ?thesis using one_entry(5,6) [OF t] t by (simp add: Rib_insert_def Let_def)
qed

text \<open>Routes for the witnesses.\<close>

definition example_route :: "u64 \<Rightarrow> u64 \<Rightarrow> u64 \<Rightarrow> u64 \<Rightarrow> route" where
  "example_route f origin flags cost = \<lparr>rt_faceId = f, rt_origin = origin, rt_flags = flags, rt_cost = cost, rt_expires = 0, rt_event = None\<rparr>"

section \<open>Properties\<close>

text \<open>
  C16: the routing table keeps its shape and holds what was registered. On a well-formed table inserting and
  erasing a route never fails an assertion; afterwards every entry is again linked to the entry of its
  longest proper prefix and to exactly the entries of which it is that, no entry is without routes, and
  the route count and the table of faces are right; and the table, as a map from names to their routes,
  has changed at that name only: the route was added, or its flags, cost and expiration replaced, or it
  was removed.
\<close>

theorem Rib_keeps_shape:
  assumes "rib_ok b"
  shows "(\<exists>b'. Rib_insert n r b = Inr b' \<and> rib_ok b' \<and> routes_at b' = (routes_at b)(n := registered r (routes_at b n)))
     \<and> (\<exists>b'. Rib_erase n r b = Inr b' \<and> rib_ok b' \<and> routes_at b' = (routes_at b)(n := unregistered r (routes_at b n)))"
  using Rib_insert_ok [OF assms] Rib_erase_ok [OF assms] by blast

theorem Rib_keeps_shape_witness:
  "\<exists>b. Rib_insert [Component 8 [97]] (example_route 1 0 0 10) Rib_new = Inr b \<and> rib_ok b
     \<and> routes_at b = (\<lambda>_. [])([Component 8 [97]] := [example_route 1 0 0 10])"
  using Rib_keeps_shape [OF Rib_new_ok(1), of "[Component 8 [97]]" "example_route 1 0 0 10"] Rib_new_ok(2)
  by (auto simp: registered_def)

text \<open>
  The count of capture routes goes wrong. Registering a route again with the capture flag changes its
  flags but not the count, so the entry does not capture; when that route is unregistered while
  another route stays, the unsigned count wraps below zero and the entry captures without any
  capture route.
\<close>

theorem capture_count_wraps:
  assumes "\<not> isCapture r" and "isCapture r1" and "route_key r1 = route_key r" and "\<not> isCapture r2" and "route_key r2 \<noteq> route_key r"
  shows "\<exists>b1 b2 b3 b4. Rib_insert n r Rib_new = Inr b1 \<and> Rib_insert n r1 b1 = Inr b2 \<and> Rib_insert n r2 b2 = Inr b3 \<and> Rib_erase n r b3 = Inr b4
     \<and> (\<exists>x \<in> set (routes_at b2 n). isCapture x) \<and> \<not> hasCapture (entry_at b2 n)
     \<and> routes_at b4 n = [r2] \<and> re_nCapture (entry_at b4 n) = - 1 \<and> hasCapture (entry_at b4 n)"
proof -
  define e1 where "e1 = fst (insertRoute (RibEntry_new n) r)"
  define e2 where "e2 = refresh_route 0 r1 e1"
  define e3 where "e3 = e2\<lparr>re_routes := re_routes e2 @ [r2]\<rparr>"
  have e1: "re_routes e1 = [r]" "re_nCapture e1 = 0" using assms(1) by (simp_all add: e1_def insertRoute_def findRoute_def find_if_def RibEntry_new_def)
  have e2: "re_routes e2 = [r\<lparr>rt_event := rt_event r1, rt_flags := rt_flags r1, rt_cost := rt_cost r1, rt_expires := rt_expires r1\<rparr>]" "re_nCapture e2 = 0"
    by (simp_all add: e2_def refresh_route_def e1)
  define x where "x = hd (re_routes e2)"
  have x: "re_routes e2 = [x]" "route_key x = route_key r" "isCapture x" using assms(2) by (simp_all add: x_def e2(1) route_key_def isCapture_def)
  have e3: "re_routes e3 = [x, r2]" "re_nCapture e3 = 0" by (simp_all add: e3_def x(1) e2(2))
  obtain b1 where b1: "Rib_insert n r Rib_new = Inr b1" "rb_table b1 = [(n, e1)]" using insert_first [of n r] by (auto simp: e1_def)
  have f1: "findRoute e1 r1 = 0" using assms(3) by (simp add: findRoute_def find_if_def e1(1) compare_key)
  define b2 where "b2 = update_entry n (refresh_route 0 r1) (cancel_event (rt_event r) b1)"
  have b2: "Rib_insert n r1 b1 = Inr b2" "rb_table b2 = [(n, e2)]"
    using one_entry(1) [OF b1(2)] one_entry(7) [of "cancel_event (rt_event r) b1" n e1] b1(2) f1 e1(1)
    by (simp_all add: Rib_insert_def insertRoute_def b2_def e2_def Let_def)
  have f2: "findRoute e2 r2 = 1" using assms(5) x(2) by (auto simp: findRoute_def find_if_def x(1) compare_key)
  then have i3: "insertRoute e2 r2 = (e3, 1, True)" using assms(4) x(1) by (simp add: insertRoute_def e3_def)
  define b3 where "b3 = add_to_faceMap (rt_faceId r2) n (log_event (AfterAddRoute n r2) ((update_entry n (\<lambda>_. e3) b2)\<lparr>rb_nItems := rb_nItems b2 + 1\<rparr>))"
  have b3: "Rib_insert n r2 b2 = Inr b3" "rb_table b3 = [(n, e3)]"
    using one_entry(1,7) [OF b2(2)] i3 by (simp_all add: Rib_insert_def b3_def)
  have f3: "findRoute e3 r = 0" using x(2) by (simp add: findRoute_def find_if_def e3(1) compare_key)
  define e4 where "e4 = e3\<lparr>re_nCapture := - 1, re_routes := [r2]\<rparr>"
  have er: "eraseRoute_at e3 0 = (e4, rt_event x)" using x(3) by (simp add: eraseRoute_at_def e3 e4_def remove_at_def)
  obtain b4 where b4: "Rib_erase n r b3 = Inr b4" "rb_table b4 = [(n, e4)]"
    using one_entry(1) [OF b3(2)] f3 er e3(1) one_entry(7) [of "log_event (BeforeRemoveRoute n x) b3" n e3] b3(2)
    by (auto simp: Rib_erase_def Let_def) (simp_all add: e4_def)
  have "hasCapture e4" "\<not> hasCapture e2" "re_nCapture e4 = - 1" "re_routes e4 = [r2]" by (simp_all add: hasCapture_def word_greater_zero_iff e4_def e2(2))
  then show ?thesis using b1 b2 b3 b4 one_entry(4,8) [OF b2(2)] one_entry(4,8) [OF b4(2)] x by simp
qed

theorem capture_count_wraps_witness:
  "\<exists>b. hasCapture (entry_at b [Component 8 [97]]) \<and> routes_at b [Component 8 [97]] = [example_route 2 0 0 10]"
proof -
  have "\<not> isCapture (example_route 1 0 0 10)" "isCapture (example_route 1 0 2 10)" "route_key (example_route 1 0 2 10) = route_key (example_route 1 0 0 10)"
    "\<not> isCapture (example_route 2 0 0 10)" "route_key (example_route 2 0 0 10) \<noteq> route_key (example_route 1 0 0 10)"
    by (simp_all add: isCapture_def example_route_def route_key_def ROUTE_FLAG_CAPTURE_def)
  from capture_count_wraps [OF this, of "[Component 8 [97]]"] show ?thesis by blast
qed

end
