(* ===== verification/FibSync.thy ===== *)
theory FibSync
  imports FibUpdater RibTree
begin

text \<open>
  What the FIB updater computes. The walks along the links of a well-formed table end; the semantics of
  route inheritance is stated on names alone, without links and recorded inherited routes; and after a
  route was registered for a new name the FIB is what that semantics says.
\<close>

section \<open>The walks end\<close>

lemma linked_parent: "rib_ok b \<Longrightarrow> n \<in> names_in b \<Longrightarrow> re_parent (entry_at b n) = nearest (names_in b) n"
  using rib_okD(2) by (auto simp: linked_by_def)

lemma linked_children: "rib_ok b \<Longrightarrow> n \<in> names_in b \<Longrightarrow> set (re_children (entry_at b n)) = {m \<in> names_in b. nearest (names_in b) m = Some n}"
  using rib_okD(2) by (auto simp: linked_by_def)

lemma entry_name: "rib_ok b \<Longrightarrow> n \<in> names_in b \<Longrightarrow> re_name (entry_at b n) = n"
  using rib_okD(3) by (simp add: entry_ok_def)

lemma nearest_proper: "nearest D n = Some p \<Longrightarrow> proper_prefix p n"
  by (simp add: nearest_Some)

lemma ancestor_loop_ends:
  assumes "rib_ok b"
  shows "\<exists>s'. ancestor_loop b (nearest (names_in b) n) s = Some s'"
proof (induction "length n" arbitrary: n s rule: less_induct)
  case less
  show ?case
  proof (cases "nearest (names_in b) n")
    case None
    then show ?thesis by (simp add: ancestor_loop.simps)
  next
    case (Some p)
    have p: "p \<in> names_in b" "length p < length n" using nearest_in [OF Some] proper_prefix_length [OF nearest_proper [OF Some]] by auto
    show ?thesis using less [OF p(2)] linked_parent [OF assms p(1)] by (subst ancestor_loop.simps) (simp add: Some Let_def)
  qed
qed

lemma modify_Nil: "modifyChildrensInheritedRoutes b [] add rem s = Some s"
  by (subst modifyChildrensInheritedRoutes.simps) simp

lemma modifyChildren_ends:
  assumes "rib_ok b"
  shows "(\<forall>c \<in> set cs. c \<in> names_in b) \<Longrightarrow> \<exists>s'. modifyChildrensInheritedRoutes b cs add rem s = Some s'"
proof -
  define L where "L = Max (length ` names_in b)"
  have L: "length c \<le> L" if "c \<in> names_in b" for c using that rib_okD(6) [OF assms] by (simp add: L_def)
  have "\<forall>cs add rem s. (\<forall>c \<in> set cs. c \<in> names_in b \<and> L < length c + k) \<longrightarrow> (\<exists>s'. modifyChildrensInheritedRoutes b cs add rem s = Some s')" for k
  proof (induction k)
    case 0
    have "\<exists>s'. modifyChildrensInheritedRoutes b cs add rem s = Some s'" if c: "\<forall>c \<in> set cs. c \<in> names_in b \<and> L < length c + 0" for cs add rem s
    proof (cases cs)
      case (Cons c cs')
      then show ?thesis using c L [of c] by simp
    qed (simp add: modify_Nil)
    then show ?case by blast
  next
    case (Suc k)
    have "(\<forall>c \<in> set cs. c \<in> names_in b \<and> L < length c + Suc k) \<Longrightarrow> \<exists>s'. modifyChildrensInheritedRoutes b cs add rem s = Some s'" for cs add rem s
    proof (induction cs arbitrary: s)
      case Nil
      then show ?case by (simp add: modify_Nil)
    next
      case (Cons c cs)
      have "d \<in> names_in b \<and> L < length d + k" if "d \<in> set (re_children (entry_at b c))" for d
      proof -
        have "d \<in> names_in b" "proper_prefix c d" using that linked_children [OF assms, of c] Cons.prems nearest_proper by auto
        then show ?thesis using Cons.prems proper_prefix_length [of c d] by auto
      qed
      then have sub: "\<exists>s'. modifyChildrensInheritedRoutes b (re_children (entry_at b c)) add' rem' s1 = Some s'" for add' rem' s1 using Suc by blast
      obtain a' r' s1 where v: "visit_entry (entry_at b c) add rem s = (a', r', s1)" by (cases "visit_entry (entry_at b c) add rem s") auto
      obtain s2 where "modifyChildrensInheritedRoutes b (re_children (entry_at b c)) a' r' s1 = Some s2" using sub by blast
      then show ?case using Cons v by (subst modifyChildrensInheritedRoutes.simps) (simp add: Let_def)
    qed
    then show ?case by blast
  qed
  from this [of "Suc L"] show "(\<forall>c \<in> set cs. c \<in> names_in b) \<Longrightarrow> \<exists>s'. modifyChildrensInheritedRoutes b cs add rem s = Some s'" by auto
qed

section \<open>Route inheritance\<close>

text \<open>The cheapest route of a face that children inherit, and whether an entry captures, from its routes.\<close>

definition inherit_route_of :: "rib_entry \<Rightarrow> u64 \<Rightarrow> route option" where
  "inherit_route_of e f = lowest_cost (\<lambda>r. rt_faceId r = f \<and> isChildInherit r) None (re_routes e)"

definition captures :: "rib_entry \<Rightarrow> bool" where
  "captures e \<longleftrightarrow> (\<exists>r \<in> set (re_routes e). isCapture r)"

text \<open>The route of a face that comes down to a name: that of the nearest ancestor which has one, unless an ancestor in between captures.\<close>

function inherited_from_above :: "rib \<Rightarrow> full_name \<Rightarrow> u64 \<Rightarrow> route option" where
  "inherited_from_above b n f =
     (case nearest (names_in b) n of
        None \<Rightarrow> None
      | Some p \<Rightarrow>
          (case inherit_route_of (entry_at b p) f of
             Some r \<Rightarrow> Some r
           | None \<Rightarrow> if captures (entry_at b p) then None else inherited_from_above b p f))"
  by pat_completeness auto

termination
  by (relation "measure (\<lambda>(b, n, f). length n)") (auto dest!: nearest_proper proper_prefix_length)

declare inherited_from_above.simps [simp del]

definition inherits :: "rib \<Rightarrow> full_name \<Rightarrow> u64 \<Rightarrow> route option" where
  "inherits b n f = (if hasFaceId (entry_at b n) f \<or> captures (entry_at b n) then None else inherited_from_above b n f)"

text \<open>The FIB that a table stands for: next hops and their costs.\<close>

type_synonym fib = "full_name \<Rightarrow> u64 \<Rightarrow> u64 option"

definition fib_of :: "rib \<Rightarrow> fib" where
  "fib_of b n f =
     (if n \<in> names_in b
      then case getRouteWithLowestCostByFaceId (entry_at b n) f of Some r \<Rightarrow> Some (rt_cost r) | None \<Rightarrow> map_option rt_cost (inherits b n f)
      else None)"

text \<open>What the forwarder does with the commands.\<close>

definition apply_command :: "fib_update \<Rightarrow> fib \<Rightarrow> fib" where
  "apply_command u fib = fib(fb_name u := (fib (fb_name u))(fb_faceId u := (case fb_action u of ADD_NEXTHOP \<Rightarrow> Some (fb_cost u) | REMOVE_NEXTHOP \<Rightarrow> None)))"

definition apply_commands :: "fib_update list \<Rightarrow> fib \<Rightarrow> fib" where
  "apply_commands us fib = fold apply_command us fib"

section \<open>Planned updates\<close>

text \<open>The update an updater has for a name and a face; there is never more than one.\<close>

type_synonym plan = "full_name \<Rightarrow> u64 \<Rightarrow> (fib_action \<times> u64) option"

definition update_key :: "fib_update \<Rightarrow> full_name \<times> u64" where
  "update_key u = (fb_name u, fb_faceId u)"

definition all_updates :: "fib_updater \<Rightarrow> fib_update list" where
  "all_updates s = fu_forBatchFaceId s @ fu_forNonBatchFaceId s"

definition updater_ok :: "fib_updater \<Rightarrow> bool" where
  "updater_ok s \<longleftrightarrow> distinct (map update_key (fu_forBatchFaceId s)) \<and> distinct (map update_key (fu_forNonBatchFaceId s))
     \<and> (\<forall>u \<in> set (fu_forBatchFaceId s). fb_faceId u = fu_batchFaceId s) \<and> (\<forall>u \<in> set (fu_forNonBatchFaceId s). fb_faceId u \<noteq> fu_batchFaceId s)"

definition planned :: "fib_updater \<Rightarrow> plan" where
  "planned s n f = map_option (\<lambda>u. (fb_action u, fb_cost u)) (List.find (\<lambda>u. update_key u = (n, f)) (all_updates s))"

definition plan_ok :: "fib_updater \<Rightarrow> plan \<Rightarrow> bool" where
  "plan_ok s U \<longleftrightarrow> updater_ok s \<and> planned s = U"

definition set_plan :: "full_name \<Rightarrow> u64 \<Rightarrow> fib_action \<times> u64 \<Rightarrow> plan \<Rightarrow> plan" where
  "set_plan n f a U = U(n := (U n)(f := Some a))"

lemma set_plan_apply [simp]: "set_plan n f a U m g = (if m = n \<and> g = f then Some a else U m g)"
  by (simp add: set_plan_def)

lemma replace_or_append_keys:
  "set (map update_key (replace_or_append u xs)) = insert (update_key u) (set (map update_key xs))"
  "distinct (map update_key xs) \<Longrightarrow> distinct (map update_key (replace_or_append u xs))"
proof -
  show k: "set (map update_key (replace_or_append u xs)) = insert (update_key u) (set (map update_key xs))" for xs
    by (induction xs) (auto simp: update_key_def)
  show "distinct (map update_key xs) \<Longrightarrow> distinct (map update_key (replace_or_append u xs))"
  proof (induction xs)
    case (Cons x xs)
    then show ?case using k [of xs] by (auto simp: update_key_def simp del: list.set_map)
  qed simp
qed

lemma replace_or_append_find:
  "List.find (\<lambda>x. update_key x = k) (replace_or_append u xs) =
     (if k = update_key u then Some ((case List.find (\<lambda>x. update_key x = k) xs of None \<Rightarrow> u | Some x \<Rightarrow> x\<lparr>fb_action := fb_action u, fb_cost := fb_cost u\<rparr>))
      else List.find (\<lambda>x. update_key x = k) xs)"
  by (induction xs) (auto simp: update_key_def)

lemma replace_or_append_faces:
  "x \<in> set (replace_or_append u xs) \<Longrightarrow> fb_faceId x = fb_faceId u \<or> (\<exists>y \<in> set xs. fb_faceId x = fb_faceId y)"
  by (induction xs) (auto split: if_splits)

lemma find_append_option: "List.find P (xs @ ys) = (case List.find P xs of None \<Rightarrow> List.find P ys | Some x \<Rightarrow> Some x)"
  by (induction xs) auto

lemma find_no_key: "\<forall>x \<in> set xs. fb_faceId x \<noteq> f \<Longrightarrow> List.find (\<lambda>x. update_key x = (n, f)) xs = None"
  by (auto simp: find_None_iff update_key_def)

lemma key_eq: "(n, f) = update_key u \<longleftrightarrow> n = fb_name u \<and> f = fb_faceId u"
  by (auto simp: update_key_def)

lemma plan_addFibUpdate:
  assumes "plan_ok s U"
  shows "plan_ok (addFibUpdate u s) (set_plan (fb_name u) (fb_faceId u) (fb_action u, fb_cost u) U)"
proof -
  have s: "updater_ok s" "planned s = U" using assms by (simp_all add: plan_ok_def)
  have "updater_ok (addFibUpdate u s)"
    using s(1) by (auto simp: updater_ok_def addFibUpdate_def replace_or_append_keys(2) dest!: replace_or_append_faces)
  moreover have "planned (addFibUpdate u s) n f = set_plan (fb_name u) (fb_faceId u) (fb_action u, fb_cost u) U n f" for n f
  proof (cases "fb_faceId u = fu_batchFaceId s")
    case True
    have n: "List.find (\<lambda>x. update_key x = (n, fu_batchFaceId s)) (fu_forNonBatchFaceId s) = None" for n
      by (rule find_no_key) (use s(1) in \<open>auto simp: updater_ok_def\<close>)
    show ?thesis unfolding s(2) [symmetric] using True n
      by (auto simp: planned_def all_updates_def addFibUpdate_def find_append_option replace_or_append_find key_eq split: option.splits)
  next
    case False
    have n: "List.find (\<lambda>x. update_key x = (n, fb_faceId u)) (fu_forBatchFaceId s) = None" for n
      by (rule find_no_key) (use s(1) False in \<open>auto simp: updater_ok_def\<close>)
    show ?thesis unfolding s(2) [symmetric] using False n
      by (auto simp: planned_def all_updates_def addFibUpdate_def find_append_option replace_or_append_find key_eq split: option.splits)
  qed
  ultimately show ?thesis by (simp add: plan_ok_def fun_eq_iff)
qed

lemma plan_inherited [simp]:
  "plan_ok (addInheritedRoute n r s) U = plan_ok s U" "plan_ok (removeInheritedRoute n r s) U = plan_ok s U"
  by (auto simp: plan_ok_def updater_ok_def planned_def all_updates_def addInheritedRoute_def removeInheritedRoute_def fun_eq_iff)

lemma apply_commands_plan:
  assumes "plan_ok s U"
  shows "apply_commands (all_updates s) fib n f = (case U n f of None \<Rightarrow> fib n f | Some (ADD_NEXTHOP, c) \<Rightarrow> Some c | Some (REMOVE_NEXTHOP, _) \<Rightarrow> None)"
proof -
  have d: "distinct (map update_key (all_updates s))" and U: "planned s = U"
    using assms by (auto simp: plan_ok_def updater_ok_def all_updates_def update_key_def)
  have "distinct (map update_key us) \<Longrightarrow> fold apply_command us fib n f =
      (case List.find (\<lambda>u. update_key u = (n, f)) us of None \<Rightarrow> fib n f
       | Some u \<Rightarrow> (case fb_action u of ADD_NEXTHOP \<Rightarrow> Some (fb_cost u) | REMOVE_NEXTHOP \<Rightarrow> None))" for us
  proof (induction us arbitrary: fib)
    case (Cons u us)
    show ?case
    proof (cases "update_key u = (n, f)")
      case True
      then have "List.find (\<lambda>u. update_key u = (n, f)) us = None" using Cons.prems by (force simp: find_None_iff)
      then show ?thesis using Cons True by (auto simp: apply_command_def update_key_def)
    next
      case False
      then show ?thesis using Cons by (auto simp: apply_command_def update_key_def split: option.splits)
    qed
  qed simp
  from this [OF d] show ?thesis unfolding U [symmetric]
    by (auto simp: apply_commands_def planned_def split: option.splits fib_action.splits)
qed

section \<open>Sets of routes\<close>

lemma option_ext: "(\<And>r. a = Some r \<longleftrightarrow> b = Some r) \<Longrightarrow> a = b"
  by (metis not_Some_eq)

context comparator
begin

lemma distinct_keys: "sorted_map lt es \<Longrightarrow> distinct (map fst es)"
  by (induction es) (use irrefl in fastforce)+

lemma find_is_map_of: "sorted_map lt es \<Longrightarrow> map_find lt k es = map_of es k"
  using map_find_eq [of es k] map_of_eq_Some_iff [OF distinct_keys, of es k] by (metis not_Some_eq option.exhaust)

lemma emplace_map_of:
  assumes "sorted_map lt es"
  shows "map_of (snd (snd (emplace lt k v es))) j = (if j = k \<and> map_of es k = None then Some v else map_of es j)"
proof -
  let ?es = "snd (snd (emplace lt k v es))"
  have s: "sorted_map lt ?es" by (rule sorted_emplace [OF assms])
  have "map_of ?es j = Some w \<longleftrightarrow> (if j = k \<and> map_of es k = None then Some v else map_of es j) = Some w" for w
    unfolding map_of_eq_Some_iff [OF distinct_keys [OF s]] set_emplace [OF assms] map_of_eq_None_iff
    using map_of_eq_Some_iff [OF distinct_keys [OF assms], of j w] by (auto simp: image_iff)
  then show ?thesis by (metis not_Some_eq)
qed

end

interpretation face: comparator "(<) :: u64 \<Rightarrow> u64 \<Rightarrow> bool"
  by unfold_locales auto

definition routes_ok :: "route_set \<Rightarrow> bool" where
  "routes_ok s \<longleftrightarrow> sorted_map (<) s \<and> (\<forall>(f, r) \<in> set s. rt_faceId r = f)"

lemma routes_ok_face: "routes_ok s \<Longrightarrow> map_of s f = Some r \<Longrightarrow> rt_faceId r = f"
  by (auto simp: routes_ok_def dest!: map_of_SomeD)

lemma routes_ok_Nil [simp]: "routes_ok []"
  by (simp add: routes_ok_def)

lemma routes_insert_ok:
  assumes "routes_ok s"
  shows "routes_ok (routes_insert r s)"
    and "map_of (routes_insert r s) f = (if f = rt_faceId r \<and> map_of s f = None then Some r else map_of s f)"
proof -
  have s: "sorted_map (<) s" "\<forall>(f, r) \<in> set s. rt_faceId r = f" using assms by (simp_all add: routes_ok_def)
  show "routes_ok (routes_insert r s)"
    unfolding routes_ok_def routes_insert_def face.set_emplace [OF s(1)] using face.sorted_emplace [OF s(1)] s(2) by auto
  show "map_of (routes_insert r s) f = (if f = rt_faceId r \<and> map_of s f = None then Some r else map_of s f)"
    unfolding routes_insert_def face.emplace_map_of [OF s(1)] by auto
qed

lemma routes_distinct: "routes_ok s \<Longrightarrow> distinct (map fst s)"
  by (rule face.distinct_keys) (simp add: routes_ok_def)

lemma single_route_ok: "routes_ok (single_route r)" "map_of (single_route r) f = (if f = rt_faceId r then Some r else None)"
  using routes_insert_ok [of "[]"] by (auto simp: single_route_def)

lemma routes_filter_ok:
  assumes "routes_ok s"
  shows "routes_ok (filter P s)" and "map_of (filter P s) f = (case map_of s f of None \<Rightarrow> None | Some r \<Rightarrow> if P (f, r) then Some r else None)"
proof -
  have d: "distinct (map fst s)" by (rule routes_distinct [OF assms])
  have "map_of (filter P s) f = Some r \<longleftrightarrow> map_of s f = Some r \<and> P (f, r)" for r
    unfolding map_of_eq_Some_iff [OF distinct_map_filter [OF d]] map_of_eq_Some_iff [OF d] by auto
  then show "map_of (filter P s) f = (case map_of s f of None \<Rightarrow> None | Some r \<Rightarrow> if P (f, r) then Some r else None)"
    by (intro option_ext) (auto split: option.splits)
qed (use assms in \<open>auto simp: routes_ok_def sorted_map_filter\<close>)

lemma routes_find_map_of: "routes_ok s \<Longrightarrow> routes_find r s = map_of s (rt_faceId r)"
  by (simp add: routes_find_def routes_ok_def face.find_is_map_of)

text \<open>Inheriting and disinheriting a set of routes at one name.\<close>

lemma find_route_of:
  assumes "routes_ok s"
  shows "List.find (\<lambda>r. rt_faceId r = f) (filter P (routes_of s)) = (case map_of s f of None \<Rightarrow> None | Some r \<Rightarrow> if P r then Some r else None)"
    and "distinct (map rt_faceId (filter P (routes_of s)))"
proof -
  show "distinct (map rt_faceId (filter P (routes_of s)))"
  proof (rule distinct_map_filter)
    have "map rt_faceId (routes_of s) = map fst s" using assms by (auto simp: routes_ok_def routes_of_def)
    then show "distinct (map rt_faceId (routes_of s))" using routes_distinct [OF assms] by simp
  qed
  have "distinct (map fst s) \<Longrightarrow> (\<forall>(f, r) \<in> set s. rt_faceId r = f) \<Longrightarrow> List.find (\<lambda>r. rt_faceId r = f) (filter P (map snd s))
      = (case map_of s f of None \<Rightarrow> None | Some r \<Rightarrow> if P r then Some r else None)"
  proof (induction s)
    case (Cons x s)
    have "fst x = f \<Longrightarrow> map_of s f = None" using Cons.prems by (auto simp: map_of_eq_None_iff)
    then show ?case using Cons by (cases x) auto
  qed simp
  then show "List.find (\<lambda>r. rt_faceId r = f) (filter P (routes_of s)) = (case map_of s f of None \<Rightarrow> None | Some r \<Rightarrow> if P r then Some r else None)"
    using routes_distinct [OF assms] assms by (simp add: routes_ok_def routes_of_def)
qed

lemma plan_inherit_route: "plan_ok s U \<Longrightarrow> plan_ok (inherit_route c r s) (set_plan c (rt_faceId r) (ADD_NEXTHOP, rt_cost r) U)"
  using plan_addFibUpdate [of "addInheritedRoute c r s" U "createAddUpdate c (rt_faceId r) (rt_cost r)"]
  by (simp add: inherit_route_def createAddUpdate_def)

lemma plan_disinherit_route: "plan_ok s U \<Longrightarrow> plan_ok (disinherit_route c r s) (set_plan c (rt_faceId r) (REMOVE_NEXTHOP, 0) U)"
  using plan_addFibUpdate [of "removeInheritedRoute c r s" U "createRemoveUpdate c (rt_faceId r)"]
  by (simp add: disinherit_route_def createRemoveUpdate_def)

definition plan_at :: "full_name \<Rightarrow> (u64 \<Rightarrow> (fib_action \<times> u64) option) \<Rightarrow> plan \<Rightarrow> plan" where
  "plan_at c V U = (\<lambda>m f. if m = c then case V f of None \<Rightarrow> U m f | Some a \<Rightarrow> Some a else U m f)"

lemma plan_fold:
  assumes "\<And>r s U. plan_ok s U \<Longrightarrow> plan_ok (step r s) (set_plan c (rt_faceId r) (act r) U)" and "distinct (map rt_faceId rs)"
  shows "plan_ok s U \<Longrightarrow> plan_ok (fold step rs s) (plan_at c (\<lambda>f. map_option act (List.find (\<lambda>r. rt_faceId r = f) rs)) U)"
  using assms(2)
proof (induction rs arbitrary: s U)
  case (Cons r rs)
  have n: "List.find (\<lambda>x. rt_faceId x = rt_faceId r) rs = None" using Cons.prems(2) by (auto simp: find_None_iff image_iff)
  have "plan_at c (\<lambda>f. map_option act (List.find (\<lambda>r. rt_faceId r = f) rs)) (set_plan c (rt_faceId r) (act r) U)
      = plan_at c (\<lambda>f. map_option act (List.find (\<lambda>r. rt_faceId r = f) (r # rs))) U"
    using n by (auto simp: plan_at_def fun_eq_iff split: option.splits)
  moreover have "plan_ok (fold step rs (step r s)) (plan_at c (\<lambda>f. map_option act (List.find (\<lambda>r. rt_faceId r = f) rs)) (set_plan c (rt_faceId r) (act r) U))"
    by (rule Cons.IH [OF assms(1) [OF Cons.prems(1)]]) (use Cons.prems(2) in simp)
  ultimately show ?case by (simp only: fold_simps)
next
  case Nil
  have "plan_at c (\<lambda>f. map_option act (List.find (\<lambda>r. rt_faceId r = f) [])) U = U" by (simp add: plan_at_def fun_eq_iff)
  then show ?case using Nil by simp
qed

text \<open>The plan for one face of a name: add the route to add unless the name has the face, else remove what was inherited.\<close>

definition change_at :: "rib_entry \<Rightarrow> route option \<Rightarrow> route option \<Rightarrow> u64 \<Rightarrow> (fib_action \<times> u64) option" where
  "change_at e toAdd toRemove f =
     (if toAdd \<noteq> None \<and> \<not> hasFaceId e f then Some (ADD_NEXTHOP, rt_cost (the toAdd))
      else if toRemove \<noteq> None \<and> hasInheritedRoute e (the toRemove) then Some (REMOVE_NEXTHOP, 0) else None)"

lemma visit_entry_plan:
  assumes "plan_ok s U" and "routes_ok add" and "routes_ok rem" and "re_name e = c"
  shows "\<exists>add' rem' s'. visit_entry e add rem s = (add', rem', s') \<and> routes_ok add' \<and> routes_ok rem'
     \<and> (\<forall>f. map_of add' f = (if hasChildInheritOnFaceId e f then None else map_of add f))
     \<and> (\<forall>f. map_of rem' f = (if hasChildInheritOnFaceId e f then None else map_of rem f))
     \<and> plan_ok s' (plan_at c (\<lambda>f. if hasChildInheritOnFaceId e f then None else change_at e (map_of add f) (map_of rem f) f) U)"
proof -
  define Q where "Q = (\<lambda>x :: u64 \<times> route. \<not> hasChildInheritOnFaceId e (rt_faceId (snd x)))"
  define add' where "add' = filter Q add"
  define rem' where "rem' = filter Q rem"
  define s1 where "s1 = fold (disinherit_route c) (filter (hasInheritedRoute e) (routes_of rem')) s"
  define s2 where "s2 = fold (inherit_route c) (filter (\<lambda>r. \<not> hasFaceId e (rt_faceId r)) (routes_of add')) s1"
  have v: "visit_entry e add rem s = (add', rem', s2)"
    by (simp add: visit_entry_def Let_def s2_def s1_def add'_def rem'_def Q_def assms(4))
  have ok: "routes_ok add'" "routes_ok rem'" using assms(2,3) routes_filter_ok(1) by (simp_all add: add'_def rem'_def)
  have look: "map_of add' f = (if hasChildInheritOnFaceId e f then None else map_of add f)"
    "map_of rem' f = (if hasChildInheritOnFaceId e f then None else map_of rem f)" for f
    unfolding add'_def rem'_def routes_filter_ok(2) [OF assms(2)] routes_filter_ok(2) [OF assms(3)]
    using routes_ok_face [OF assms(2), of f] routes_ok_face [OF assms(3), of f] by (auto simp: Q_def split: option.splits)
  define U1 where "U1 = plan_at c (\<lambda>f. map_option (\<lambda>r. (REMOVE_NEXTHOP, 0)) (List.find (\<lambda>r. rt_faceId r = f) (filter (hasInheritedRoute e) (routes_of rem')))) U"
  have p1: "plan_ok s1 U1" unfolding s1_def U1_def
    by (rule plan_fold [OF plan_disinherit_route find_route_of(2) [OF ok(2)] assms(1)])
  have p2: "plan_ok s2 (plan_at c (\<lambda>f. map_option (\<lambda>r. (ADD_NEXTHOP, rt_cost r))
      (List.find (\<lambda>r. rt_faceId r = f) (filter (\<lambda>r. \<not> hasFaceId e (rt_faceId r)) (routes_of add')))) U1)"
    unfolding s2_def by (rule plan_fold [OF plan_inherit_route find_route_of(2) [OF ok(1)] p1])
  have "plan_at c (\<lambda>f. map_option (\<lambda>r. (ADD_NEXTHOP, rt_cost r))
      (List.find (\<lambda>r. rt_faceId r = f) (filter (\<lambda>r. \<not> hasFaceId e (rt_faceId r)) (routes_of add')))) U1
    = plan_at c (\<lambda>f. if hasChildInheritOnFaceId e f then None else change_at e (map_of add f) (map_of rem f) f) U"
    unfolding U1_def find_route_of(1) [OF ok(1)] find_route_of(1) [OF ok(2)] look
    using routes_ok_face [OF assms(2)] by (auto simp: plan_at_def change_at_def fun_eq_iff split: option.splits)
  with p2 v ok look show ?thesis by auto
qed

section \<open>The traversal\<close>

text \<open>The names below \<open>c\<close> that a change for the face \<open>f\<close> comes down to.\<close>

definition passes :: "rib_entry \<Rightarrow> u64 \<Rightarrow> bool" where
  "passes e f \<longleftrightarrow> \<not> hasCapture e \<and> \<not> hasChildInheritOnFaceId e f"

definition reached :: "rib \<Rightarrow> full_name \<Rightarrow> full_name \<Rightarrow> u64 \<Rightarrow> bool" where
  "reached b c m f \<longleftrightarrow> m \<in> names_in b \<and> is_prefix_of c m \<and> (\<forall>p \<in> names_in b. is_prefix_of c p \<and> is_prefix_of p m \<longrightarrow> passes (entry_at b p) f)"

lemma is_prefix_of_refl [simp]: "is_prefix_of n n"
  by (simp add: is_prefix_of_def)

lemma is_prefix_of_trans: "is_prefix_of p q \<Longrightarrow> is_prefix_of q n \<Longrightarrow> is_prefix_of p n"
  by (auto simp: is_prefix_of_append)

lemma is_prefix_of_proper: "is_prefix_of p n \<longleftrightarrow> p = n \<or> proper_prefix p n"
  by (auto simp: proper_prefix_def)

lemma prefixes_comparable: "is_prefix_of p n \<Longrightarrow> is_prefix_of q n \<Longrightarrow> is_prefix_of p q \<or> is_prefix_of q p"
  unfolding is_prefix_of_proper using proper_prefix_linear by blast

text \<open>The child through which a name lies below an entry.\<close>

lemma child_above:
  assumes "c \<in> D" and "m \<in> D" and "proper_prefix c m"
  shows "\<exists>d \<in> D. nearest D d = Some c \<and> is_prefix_of d m"
  using assms(2,3)
proof (induction "length m" arbitrary: m rule: less_induct)
  case less
  obtain p where p: "nearest D m = Some p" "p = c \<or> proper_prefix c p" using nearest_exists [OF assms(1) less.prems(2)] by blast
  show ?case
  proof (cases "p = c")
    case True
    then show ?thesis using p(1) less.prems(1) by auto
  next
    case False
    have "proper_prefix p m" "p \<in> D" using p(1) by (simp_all add: nearest_Some)
    then obtain d where "d \<in> D" "nearest D d = Some c" "is_prefix_of d p" using less.hyps [of p] p(2) False proper_prefix_length by blast
    then show ?thesis using \<open>proper_prefix p m\<close> is_prefix_of_trans is_prefix_of_proper by blast
  qed
qed

lemma children_disjoint:
  assumes "nearest D c = q" and "nearest D d = q" and "c \<in> D" and "c \<noteq> d"
  shows "\<not> is_prefix_of c d"
proof
  assume "is_prefix_of c d"
  then have "proper_prefix c d" using assms(4) by (simp add: is_prefix_of_proper)
  then obtain p where p: "nearest D d = Some p" "length c \<le> length p" using nearest_exists [OF assms(3)] by blast
  then have "proper_prefix p c" using assms(1,2) by (simp add: nearest_Some)
  then show False using p(2) proper_prefix_length by fastforce
qed

lemma reached_step:
  assumes "rib_ok b" and "c \<in> names_in b"
  shows "reached b c m f \<longleftrightarrow> passes (entry_at b c) f \<and> (m = c \<or> (\<exists>d \<in> set (re_children (entry_at b c)). reached b d m f))"
proof
  let ?D = "names_in b"
  note kids = linked_children [OF assms]
  { assume r: "reached b c m f"
    then have "passes (entry_at b c) f" using assms(2) by (simp add: reached_def)
    moreover have "\<exists>d \<in> set (re_children (entry_at b c)). reached b d m f" if "m \<noteq> c"
    proof -
      have "proper_prefix c m" "m \<in> ?D" using r that by (auto simp: reached_def is_prefix_of_proper)
      then obtain d where d: "d \<in> ?D" "nearest ?D d = Some c" "is_prefix_of d m" using child_above [OF assms(2)] by blast
      then have "is_prefix_of c d" using nearest_proper [OF d(2)] by (simp add: is_prefix_of_proper)
      then have "reached b d m f" using r d(3) is_prefix_of_trans by (auto simp: reached_def)
      then show ?thesis using kids d(1,2) by auto
    qed
    ultimately show "passes (entry_at b c) f \<and> (m = c \<or> (\<exists>d \<in> set (re_children (entry_at b c)). reached b d m f))" by blast
  next
    assume h: "passes (entry_at b c) f \<and> (m = c \<or> (\<exists>d \<in> set (re_children (entry_at b c)). reached b d m f))"
    show "reached b c m f"
    proof (cases "m = c")
      case True
      have "p = c" if "is_prefix_of c p" "is_prefix_of p c" for p using that by (auto simp: is_prefix_of_append)
      then show ?thesis using True h assms(2) by (auto simp: reached_def)
    next
      case False
      then obtain d where d: "d \<in> ?D" "nearest ?D d = Some c" "reached b d m f" using h kids by auto
      have cd: "is_prefix_of c d" using nearest_proper [OF d(2)] by (simp add: is_prefix_of_proper)
      have "passes (entry_at b p) f" if p: "p \<in> ?D" "is_prefix_of c p" "is_prefix_of p m" for p
      proof (cases "is_prefix_of d p")
        case True
        then show ?thesis using d(3) p by (auto simp: reached_def)
      next
        case False
        then have "proper_prefix p d" using prefixes_comparable [of p m d] p(3) d(3) by (auto simp: reached_def is_prefix_of_proper)
        then have "p = c \<or> proper_prefix p c" using d(2) p(1,2) proper_prefix_length [of c p]
          by (auto simp: nearest_Some is_prefix_of_proper)
        then have "p = c" using p(2) proper_prefix_length [of p c] proper_prefix_length [of c p] by (auto simp: is_prefix_of_proper)
        then show ?thesis using h by simp
      qed
      then show ?thesis using d(3) cd is_prefix_of_trans by (auto simp: reached_def)
    qed }
qed

definition altered :: "rib \<Rightarrow> full_name list \<Rightarrow> route_set \<Rightarrow> route_set \<Rightarrow> plan \<Rightarrow> plan" where
  "altered b cs add rem U = (\<lambda>m f. if \<exists>c \<in> set cs. reached b c m f
     then case change_at (entry_at b m) (map_of add f) (map_of rem f) f of None \<Rightarrow> U m f | Some a \<Rightarrow> Some a else U m f)"

lemma altered_step:
  assumes "rib_ok b" and "c \<in> names_in b" and "\<not> hasCapture (entry_at b c)"
    and "\<And>f. map_of add' f = (if hasChildInheritOnFaceId (entry_at b c) f then None else map_of add f)"
    and "\<And>f. map_of rem' f = (if hasChildInheritOnFaceId (entry_at b c) f then None else map_of rem f)"
  shows "altered b (re_children (entry_at b c)) add' rem'
      (plan_at c (\<lambda>f. if hasChildInheritOnFaceId (entry_at b c) f then None else change_at (entry_at b c) (map_of add f) (map_of rem f) f) U)
    = altered b [c] add rem U"
proof (intro ext)
  fix m f
  let ?e = "entry_at b c"
  have no: "\<not> reached b d c f" if "d \<in> set (re_children ?e)" for d
    using that linked_children [OF assms(1,2)] nearest_proper proper_prefix_length [of c d] proper_prefix_length [of d c]
    by (auto simp: reached_def is_prefix_of_proper)
  have none: "change_at x None None f = None" for x by (simp add: change_at_def)
  show "altered b (re_children ?e) add' rem'
      (plan_at c (\<lambda>f. if hasChildInheritOnFaceId ?e f then None else change_at ?e (map_of add f) (map_of rem f) f) U) m f
    = altered b [c] add rem U m f"
  proof (cases "hasChildInheritOnFaceId ?e f")
    case True
    then have "\<not> reached b c m f" using reached_step [OF assms(1,2)] by (simp add: passes_def)
    then show ?thesis using True none by (simp add: altered_def plan_at_def assms(4,5))
  next
    case False
    then have "reached b c m f \<longleftrightarrow> m = c \<or> (\<exists>d \<in> set (re_children ?e). reached b d m f)"
      using reached_step [OF assms(1,2)] assms(3) by (simp add: passes_def)
    then show ?thesis using False no by (cases "m = c") (auto simp: altered_def plan_at_def assms(4,5))
  qed
qed

lemma altered_Cons:
  assumes "\<And>d. d \<in> set cs \<Longrightarrow> \<not> is_prefix_of c d \<and> \<not> is_prefix_of d c"
  shows "altered b cs add rem (altered b [c] add rem U) = altered b (c # cs) add rem U"
proof -
  have "\<not> (reached b c m f \<and> reached b d m f)" if "d \<in> set cs" for d m f
    using assms [OF that] prefixes_comparable [of c m d] by (auto simp: reached_def)
  then show ?thesis by (auto simp: altered_def fun_eq_iff)
qed

lemma altered_Nil [simp]: "altered b [] add rem U = U"
  by (simp add: altered_def)

definition apart :: "full_name list \<Rightarrow> bool" where
  "apart cs \<longleftrightarrow> distinct cs \<and> (\<forall>c \<in> set cs. \<forall>d \<in> set cs. c \<noteq> d \<longrightarrow> \<not> is_prefix_of c d)"

lemma apart_Cons: "apart (c # cs) \<Longrightarrow> apart cs \<and> (\<forall>d \<in> set cs. \<not> is_prefix_of c d \<and> \<not> is_prefix_of d c)"
  by (auto simp: apart_def)

lemma children_apart:
  assumes "rib_ok b" and "c \<in> names_in b"
  shows "apart (re_children (entry_at b c))"
  using rib_okD(2) [OF assms(1)] assms(2) children_disjoint [of "names_in b" _ "Some c"] by (auto simp: linked_by_def apart_def)

definition traverses :: "rib \<Rightarrow> full_name list \<Rightarrow> bool" where
  "traverses b cs \<longleftrightarrow> (\<forall>add rem s U. plan_ok s U \<and> routes_ok add \<and> routes_ok rem \<longrightarrow>
     (\<exists>s'. modifyChildrensInheritedRoutes b cs add rem s = Some s' \<and> plan_ok s' (altered b cs add rem U)))"

lemma traverses_Cons:
  assumes "rib_ok b" and "c \<in> names_in b" and "apart (c # cs)" and "traverses b (re_children (entry_at b c))" and "traverses b cs"
  shows "traverses b (c # cs)"
  unfolding traverses_def
proof (intro allI impI)
  fix add rem s U
  assume h: "plan_ok s U \<and> routes_ok add \<and> routes_ok rem"
  have ac: "altered b cs add rem (altered b [c] add rem U) = altered b (c # cs) add rem U" by (rule altered_Cons) (use apart_Cons [OF assms(3)] in blast)
  show "\<exists>s'. modifyChildrensInheritedRoutes b (c # cs) add rem s = Some s' \<and> plan_ok s' (altered b (c # cs) add rem U)"
  proof (cases "hasCapture (entry_at b c)")
    case True
    then have "altered b [c] add rem U = U" using reached_step [OF assms(1,2)] by (simp add: altered_def passes_def)
    then have "\<exists>s'. modifyChildrensInheritedRoutes b cs add rem s = Some s' \<and> plan_ok s' (altered b (c # cs) add rem U)"
      using assms(5) h ac unfolding traverses_def by metis
    then show ?thesis using True by (subst modifyChildrensInheritedRoutes.simps) (simp add: Let_def)
  next
    case False
    obtain a' r' s1 where v: "visit_entry (entry_at b c) add rem s = (a', r', s1)" "routes_ok a'" "routes_ok r'"
      "\<And>f. map_of a' f = (if hasChildInheritOnFaceId (entry_at b c) f then None else map_of add f)"
      "\<And>f. map_of r' f = (if hasChildInheritOnFaceId (entry_at b c) f then None else map_of rem f)"
      "plan_ok s1 (plan_at c (\<lambda>f. if hasChildInheritOnFaceId (entry_at b c) f then None else change_at (entry_at b c) (map_of add f) (map_of rem f) f) U)"
      using visit_entry_plan [of s U add rem "entry_at b c" c] h entry_name [OF assms(1,2)] by blast
    obtain s2 where s2: "modifyChildrensInheritedRoutes b (re_children (entry_at b c)) a' r' s1 = Some s2" "plan_ok s2 (altered b [c] add rem U)"
      using assms(4) v(2,3,6) unfolding traverses_def altered_step [OF assms(1,2) False v(4,5), symmetric] by blast
    obtain s3 where s3: "modifyChildrensInheritedRoutes b cs add rem s2 = Some s3" "plan_ok s3 (altered b (c # cs) add rem U)"
      using assms(5) s2(2) h unfolding traverses_def ac [symmetric] by blast
    show ?thesis using False v(1) s2(1) s3 by (subst modifyChildrensInheritedRoutes.simps) (simp add: Let_def)
  qed
qed

lemma traverses_Nil: "traverses b []"
  by (simp add: traverses_def modify_Nil)

text \<open>Induction over the subtrees of entries none of which lies below another.\<close>

lemma subtree_induct:
  assumes "rib_ok b" and nil: "Q []"
    and step: "\<And>c cs. c \<in> names_in b \<Longrightarrow> set cs \<subseteq> names_in b \<Longrightarrow> apart (c # cs) \<Longrightarrow> Q (re_children (entry_at b c)) \<Longrightarrow> Q cs \<Longrightarrow> Q (c # cs)"
  shows "set cs \<subseteq> names_in b \<Longrightarrow> apart cs \<Longrightarrow> Q cs"
proof -
  define L where "L = Max (length ` names_in b)"
  have L: "length c \<le> L" if "c \<in> names_in b" for c using that rib_okD(6) [OF assms(1)] by (simp add: L_def)
  have "\<forall>cs. (\<forall>c \<in> set cs. c \<in> names_in b \<and> L < length c + k) \<and> apart cs \<longrightarrow> Q cs" for k
  proof (induction k)
    case 0
    have "Q cs" if c: "\<forall>c \<in> set cs. c \<in> names_in b \<and> L < length c + 0" for cs
    proof (cases cs)
      case (Cons c cs')
      then show ?thesis using c L [of c] by simp
    qed (simp add: nil)
    then show ?case by blast
  next
    case (Suc k)
    have "(\<forall>c \<in> set cs. c \<in> names_in b \<and> L < length c + Suc k) \<Longrightarrow> apart cs \<Longrightarrow> Q cs" for cs
    proof (induction cs)
      case (Cons c cs)
      have c: "c \<in> names_in b" using Cons.prems(1) by simp
      have "d \<in> names_in b \<and> L < length d + k" if "d \<in> set (re_children (entry_at b c))" for d
      proof -
        have "d \<in> names_in b" "proper_prefix c d" using that linked_children [OF assms(1) c] nearest_proper by auto
        then show ?thesis using Cons.prems proper_prefix_length [of c d] by auto
      qed
      then have "Q (re_children (entry_at b c))" using Suc children_apart [OF assms(1) c] by blast
      then show ?case using Cons.IH Cons.prems apart_Cons [OF Cons.prems(2)] by (intro step [OF c]) auto
    qed (simp add: nil)
    then show ?case by blast
  qed
  from this [of "Suc L"] show "set cs \<subseteq> names_in b \<Longrightarrow> apart cs \<Longrightarrow> Q cs" by auto
qed

lemma traverse_plan: "rib_ok b \<Longrightarrow> set cs \<subseteq> names_in b \<Longrightarrow> apart cs \<Longrightarrow> traverses b cs"
  by (rule subtree_induct [of b "traverses b", OF _ traverses_Nil]) (simp_all add: traverses_Cons)

section \<open>The routes of the ancestors\<close>

text \<open>At most one route of a face in an entry: then the first one and the cheapest one are the same.\<close>

definition one_per_face :: "rib_entry \<Rightarrow> bool" where
  "one_per_face e \<longleftrightarrow> distinct (map rt_faceId (re_routes e))"

lemma lowest_cost_none: "\<forall>r \<in> set rs. \<not> P r \<Longrightarrow> lowest_cost P c rs = c"
  by (induction rs) auto

lemma lowest_cost_one:
  assumes "distinct (map rt_faceId rs)" and "\<And>r. P r \<Longrightarrow> rt_faceId r = f"
  shows "lowest_cost P None rs = List.find P rs"
  using assms(1)
proof (induction rs)
  case (Cons r rs)
  have "\<forall>x \<in> set rs. \<not> P x" if "P r" using that assms(2) Cons.prems by (force simp: image_iff)
  then show ?case using Cons lowest_cost_none [of rs P "Some r"] by auto
qed simp

lemma fold_routes_insert:
  assumes "routes_ok s"
  shows "routes_ok (fold routes_insert rs s)"
    and "map_of (fold routes_insert rs s) f = (case map_of s f of Some r \<Rightarrow> Some r | None \<Rightarrow> List.find (\<lambda>r. rt_faceId r = f) rs)"
  using assms by (induction rs arbitrary: s) (auto simp: routes_insert_ok split: option.splits)

lemma ancestor_loop_routes:
  assumes "rib_ok b" and "\<forall>p \<in> names_in b. one_per_face (entry_at b p) \<and> hasCapture (entry_at b p) = captures (entry_at b p)"
  shows "routes_ok s \<Longrightarrow> \<exists>s'. ancestor_loop b (nearest (names_in b) n) s = Some s' \<and> routes_ok s'
     \<and> (\<forall>f. map_of s' f = (case map_of s f of Some r \<Rightarrow> Some r | None \<Rightarrow> inherited_from_above b n f))"
proof (induction "length n" arbitrary: n s rule: less_induct)
  case less
  show ?case
  proof (cases "nearest (names_in b) n")
    case None
    then show ?thesis using less.prems by (simp add: ancestor_loop.simps inherited_from_above.simps [of b n] split: option.splits)
  next
    case (Some p)
    let ?e = "entry_at b p" and ?s = "fold routes_insert (filter isChildInherit (re_routes (entry_at b p))) s"
    have p: "p \<in> names_in b" "length p < length n" using nearest_in [OF Some] proper_prefix_length [OF nearest_proper [OF Some]] by auto
    have e: "one_per_face ?e" "hasCapture ?e = captures ?e" using assms(2) p(1) by auto
    have fd: "List.find (\<lambda>r. rt_faceId r = f) (filter isChildInherit rs) = List.find (\<lambda>r. rt_faceId r = f \<and> isChildInherit r) rs" for f rs
      by (induction rs) auto
    have i: "inherit_route_of ?e f = List.find (\<lambda>r. rt_faceId r = f \<and> isChildInherit r) (re_routes ?e)" for f
      unfolding inherit_route_of_def by (rule lowest_cost_one [of _ _ f]) (use e(1) in \<open>auto simp: one_per_face_def\<close>)
    have s: "routes_ok ?s" "\<And>f. map_of ?s f = (case map_of s f of Some r \<Rightarrow> Some r | None \<Rightarrow> inherit_route_of ?e f)"
      using fold_routes_insert [OF less.prems, of "filter isChildInherit (re_routes ?e)"] unfolding fd i by blast+
    show ?thesis
    proof (cases "hasCapture ?e")
      case True
      have "inherited_from_above b n f = inherit_route_of ?e f" for f
        using Some True e(2) by (simp add: inherited_from_above.simps [of b n] split: option.splits)
      then show ?thesis using Some True s by (subst ancestor_loop.simps) (simp add: Let_def split: option.split)
    next
      case False
      obtain s' where s': "ancestor_loop b (nearest (names_in b) p) ?s = Some s'" "routes_ok s'"
        "\<And>f. map_of s' f = (case map_of ?s f of Some r \<Rightarrow> Some r | None \<Rightarrow> inherited_from_above b p f)"
        using less.hyps [OF p(2) s(1)] by blast
      have "inherited_from_above b n f = (case inherit_route_of ?e f of Some r \<Rightarrow> Some r | None \<Rightarrow> inherited_from_above b p f)" for f
        using Some False e(2) by (simp add: inherited_from_above.simps [of b n])
      then have "map_of s' f = (case map_of s f of Some r \<Rightarrow> Some r | None \<Rightarrow> inherited_from_above b n f)" for f
        unfolding s'(3) s(2) by (simp split: option.splits)
      then show ?thesis using Some False s'(1,2) linked_parent [OF assms(1) p(1)] by (subst ancestor_loop.simps) (simp add: Let_def)
    qed
  qed
qed

section \<open>A new name\<close>

lemma lowest_cost_None: "lowest_cost P None rs = None \<longleftrightarrow> (\<forall>r \<in> set rs. \<not> P r)"
proof -
  have s: "lowest_cost P (Some c) rs \<noteq> None" for c rs by (induction rs arbitrary: c) auto
  show ?thesis by (induction rs) (auto simp: s)
qed

lemma inherit_route_of_None: "inherit_route_of e f = None \<longleftrightarrow> \<not> hasChildInheritOnFaceId e f"
  by (auto simp: inherit_route_of_def lowest_cost_None hasChildInheritOnFaceId_def)

lemma hasFaceId_own: "hasFaceId e f \<longleftrightarrow> getRouteWithLowestCostByFaceId e f \<noteq> None"
  by (auto simp: hasFaceId_def find_if_end getRouteWithLowestCostByFaceId_def lowest_cost_None)

text \<open>The table \<open>b'\<close> is \<open>b\<close> with the new name \<open>n\<close>.\<close>

definition adds_name :: "rib \<Rightarrow> full_name \<Rightarrow> rib \<Rightarrow> bool" where
  "adds_name b n b' \<longleftrightarrow> n \<notin> names_in b \<and> names_in b' = insert n (names_in b)
     \<and> (\<forall>m \<in> names_in b. re_routes (entry_at b' m) = re_routes (entry_at b m))"

lemma adds_name_entry:
  assumes "adds_name b n b'" and "m \<in> names_in b"
  shows "inherit_route_of (entry_at b' m) f = inherit_route_of (entry_at b m) f" "captures (entry_at b' m) = captures (entry_at b m)"
    "hasFaceId (entry_at b' m) f = hasFaceId (entry_at b m) f"
    "getRouteWithLowestCostByFaceId (entry_at b' m) f = getRouteWithLowestCostByFaceId (entry_at b m) f"
  using assms by (simp_all add: adds_name_def inherit_route_of_def captures_def hasFaceId_def getRouteWithLowestCostByFaceId_def)

lemma above_elsewhere:
  assumes "adds_name b n b'"
  shows "\<not> proper_prefix n m \<Longrightarrow> inherited_from_above b' m f = inherited_from_above b m f"
proof (induction "length m" arbitrary: m rule: less_induct)
  case less
  let ?D = "names_in b"
  have D: "n \<notin> ?D" "names_in b' = insert n ?D" using assms by (simp_all add: adds_name_def)
  have near: "nearest (names_in b') m = nearest ?D m"
    unfolding D(2) using nearest_insert [OF D(1), of m] nearest_own [of n ?D] less.prems by (cases "m = n") auto
  show ?case
  proof (cases "nearest ?D m")
    case None
    then show ?thesis by (simp add: inherited_from_above.simps [of b'] inherited_from_above.simps [of b] near)
  next
    case (Some p)
    have p: "p \<in> ?D" "proper_prefix p m" using nearest_in [OF Some] nearest_proper [OF Some] .
    have "\<not> proper_prefix n p" using less.prems p(2) proper_prefix_trans by blast
    then have "inherited_from_above b' p f = inherited_from_above b p f" using less.hyps proper_prefix_length [OF p(2)] by blast
    then show ?thesis using Some adds_name_entry(1,2) [OF assms p(1)]
      by (simp add: inherited_from_above.simps [of b' m] inherited_from_above.simps [of b m] near split: option.split)
  qed
qed

definition open_between :: "rib \<Rightarrow> full_name \<Rightarrow> full_name \<Rightarrow> u64 \<Rightarrow> bool" where
  "open_between b n m f \<longleftrightarrow> (\<forall>p \<in> names_in b. proper_prefix n p \<and> proper_prefix p m \<longrightarrow> inherit_route_of (entry_at b p) f = None \<and> \<not> captures (entry_at b p))"

definition from_new :: "rib \<Rightarrow> rib \<Rightarrow> full_name \<Rightarrow> u64 \<Rightarrow> route option" where
  "from_new b b' n f = (case inherit_route_of (entry_at b' n) f of Some r \<Rightarrow> Some r
     | None \<Rightarrow> if captures (entry_at b' n) then None else inherited_from_above b n f)"

lemma above_below:
  assumes "adds_name b n b'"
  shows "proper_prefix n m \<Longrightarrow>
    (if open_between b n m f then inherited_from_above b m f = inherited_from_above b n f \<and> inherited_from_above b' m f = from_new b b' n f
     else inherited_from_above b' m f = inherited_from_above b m f)"
proof (induction "length m" arbitrary: m rule: less_induct)
  case less
  let ?D = "names_in b"
  have D: "n \<notin> ?D" "names_in b' = insert n ?D" using assms by (simp_all add: adds_name_def)
  have "m \<noteq> n" using less.prems by auto
  note near = nearest_insert [OF D(1) this]
  show ?case
  proof (cases "nearest ?D m = nearest ?D n")
    case True
    have "open_between b n m f"
      unfolding open_between_def
    proof (intro ballI impI)
      fix p assume p: "p \<in> ?D" "proper_prefix n p \<and> proper_prefix p m"
      then obtain q where q: "nearest ?D m = Some q" "length p \<le> length q" using nearest_exists by blast
      then have "proper_prefix q n" using True by (simp add: nearest_Some)
      then show "inherit_route_of (entry_at b p) f = None \<and> \<not> captures (entry_at b p)"
        using q(2) p(2) proper_prefix_length [of q n] proper_prefix_length [of n p] by simp
    qed
    moreover have "inherited_from_above b m f = inherited_from_above b n f"
      by (simp add: inherited_from_above.simps [of b m] inherited_from_above.simps [of b n] True)
    moreover have "nearest (names_in b') m = Some n" unfolding D(2) near using True less.prems by simp
    then have "inherited_from_above b' m f = from_new b b' n f"
      using above_elsewhere [OF assms, of n f] by (simp add: inherited_from_above.simps [of b' m] from_new_def split: option.split)
    ultimately show ?thesis by simp
  next
    case False
    have n': "nearest (names_in b') m = nearest ?D m" unfolding D(2) near using False by simp
    have "\<exists>p. nearest ?D m = Some p \<and> proper_prefix n p"
    proof -
      obtain p where p: "nearest (insert n ?D) m = Some p" "p = n \<or> proper_prefix n p" using nearest_exists [of n "insert n ?D" m] less.prems by blast
      then have "nearest ?D m = Some p" using n' D(2) by simp
      then show ?thesis using p(2) nearest_in D(1) by blast
    qed
    then obtain p where p: "nearest ?D m = Some p" "proper_prefix n p" by blast
    have pD: "p \<in> ?D" "proper_prefix p m" using nearest_in [OF p(1)] nearest_proper [OF p(1)] .
    have ih: "if open_between b n p f then inherited_from_above b p f = inherited_from_above b n f \<and> inherited_from_above b' p f = from_new b b' n f
        else inherited_from_above b' p f = inherited_from_above b p f"
      by (rule less.hyps [OF proper_prefix_length [OF pD(2)] p(2)])
    have q: "q = p \<or> proper_prefix q p" if "q \<in> ?D" "proper_prefix q m" for q
      using that p(1) proper_prefix_linear [of q m p] pD(2) proper_prefix_length [of p q] by (auto simp: nearest_Some leD)
    have ob: "open_between b n m f \<longleftrightarrow> open_between b n p f \<and> inherit_route_of (entry_at b p) f = None \<and> \<not> captures (entry_at b p)"
    proof
      assume "open_between b n m f"
      then show "open_between b n p f \<and> inherit_route_of (entry_at b p) f = None \<and> \<not> captures (entry_at b p)"
        using p(2) pD proper_prefix_trans [of _ p m] by (simp add: open_between_def)
    next
      assume o: "open_between b n p f \<and> inherit_route_of (entry_at b p) f = None \<and> \<not> captures (entry_at b p)"
      show "open_between b n m f" unfolding open_between_def
      proof (intro ballI impI)
        fix x assume x: "x \<in> ?D" "proper_prefix n x \<and> proper_prefix x m"
        show "inherit_route_of (entry_at b x) f = None \<and> \<not> captures (entry_at b x)"
          using q [OF x(1)] x o by (auto simp: open_between_def)
      qed
    qed
    show ?thesis using ih ob p(1) n' adds_name_entry(1,2) [OF assms pD(1)]
      by (simp add: inherited_from_above.simps [of b' m] inherited_from_above.simps [of b m] split: option.splits if_splits)
  qed
qed

text \<open>The entries under a new name that it gets as children, and those below them that a change reaches.\<close>

lemma new_children:
  assumes "rib_ok b" and "n \<notin> names_in b"
  defines "cs \<equiv> filter (\<lambda>d. re_parent (entry_at b d) = findParent b n) (findDescendantsForNonInsertedName b n)"
  shows "set cs = {c \<in> names_in b. proper_prefix n c \<and> nearest (names_in b) c = nearest (names_in b) n}" and "apart cs"
proof -
  have o: "ordered b" using rib_okD(1) [OF assms(1)] .
  have "set (findDescendantsForNonInsertedName b n) = {c \<in> names_in b. is_prefix_of n c}"
    by (auto simp: findDescendantsForNonInsertedName_def names_in_keys [OF o])
  then show s: "set cs = {c \<in> names_in b. proper_prefix n c \<and> nearest (names_in b) c = nearest (names_in b) n}"
    unfolding cs_def using linked_parent [OF assms(1)] assms(2) by (auto simp: findParent_nearest is_prefix_of_proper)
  have "distinct (findDescendantsForNonInsertedName b n)" unfolding findDescendantsForNonInsertedName_def
    by (rule distinct_map_filter) (use o sorted_distinct in \<open>auto simp: ordered_def\<close>)
  then have "distinct cs" by (simp add: cs_def)
  then show "apart cs" using s children_disjoint [of "names_in b"] by (auto simp: apart_def)
qed

lemma reached_from_new:
  assumes "n \<notin> names_in b" and "set cs = {c \<in> names_in b. proper_prefix n c \<and> nearest (names_in b) c = nearest (names_in b) n}"
  shows "(\<exists>c \<in> set cs. reached b c m f) \<longleftrightarrow> m \<in> names_in b \<and> proper_prefix n m \<and> passes (entry_at b m) f
     \<and> (\<forall>p \<in> names_in b. proper_prefix n p \<and> proper_prefix p m \<longrightarrow> passes (entry_at b p) f)"
proof
  let ?D = "names_in b"
  { assume "\<exists>c \<in> set cs. reached b c m f"
    then obtain c where c: "c \<in> ?D" "proper_prefix n c" "nearest ?D c = nearest ?D n" "reached b c m f" using assms(2) by auto
    have cm: "m \<in> ?D" "is_prefix_of c m" using c(4) by (simp_all add: reached_def)
    have "passes (entry_at b p) f" if p: "p \<in> ?D" "proper_prefix n p" "proper_prefix p m" for p
    proof (cases "is_prefix_of c p")
      case True
      then show ?thesis using c(4) p by (auto simp: reached_def is_prefix_of_proper)
    next
      case False
      then have "proper_prefix p c" using prefixes_comparable [of p m c] p(3) cm(2) by (auto simp: is_prefix_of_proper)
      then obtain q where q: "nearest ?D c = Some q" "length p \<le> length q" using nearest_exists [OF p(1)] by blast
      then have "proper_prefix q n" using c(3) by (simp add: nearest_Some)
      then show ?thesis using q(2) proper_prefix_length [of q n] proper_prefix_length [OF p(2)] by simp
    qed
    moreover have "proper_prefix n m" using c(2) cm(2) proper_prefix_trans by (auto simp: is_prefix_of_proper)
    moreover have "passes (entry_at b m) f" using c(4) by (auto simp: reached_def)
    ultimately show "m \<in> ?D \<and> proper_prefix n m \<and> passes (entry_at b m) f
        \<and> (\<forall>p \<in> ?D. proper_prefix n p \<and> proper_prefix p m \<longrightarrow> passes (entry_at b p) f)" using cm by blast
  next
    assume h: "m \<in> ?D \<and> proper_prefix n m \<and> passes (entry_at b m) f
        \<and> (\<forall>p \<in> ?D. proper_prefix n p \<and> proper_prefix p m \<longrightarrow> passes (entry_at b p) f)"
    obtain d where d: "d \<in> insert n ?D" "nearest (insert n ?D) d = Some n" "is_prefix_of d m"
      using child_above [of n "insert n ?D" m] h by blast
    have dn: "d \<noteq> n" using nearest_proper [OF d(2)] by auto
    then have dD: "d \<in> ?D" "proper_prefix n d" "nearest ?D d = nearest ?D n"
      using d(1,2) nearest_insert [OF assms(1) dn] nearest_in [of ?D d n] assms(1) by (auto split: if_splits)
    have "reached b d m f" unfolding reached_def
    proof (intro conjI ballI impI)
      fix p assume p: "p \<in> ?D" "is_prefix_of d p \<and> is_prefix_of p m"
      then have "proper_prefix n p" using dD(2) proper_prefix_trans by (auto simp: is_prefix_of_proper)
      then show "passes (entry_at b p) f" using h p by (auto simp: is_prefix_of_proper)
    qed (use h d(3) in auto)
    then show "\<exists>c \<in> set cs. reached b c m f" using dD assms(2) by blast }
qed

text \<open>
  The recorded state the updater relies on: one route per face in each entry, a true count of the capture
  routes, and exactly the inherited next hops recorded as inherited routes.
\<close>

definition in_sync :: "rib \<Rightarrow> bool" where
  "in_sync b \<longleftrightarrow> (\<forall>m \<in> names_in b. one_per_face (entry_at b m) \<and> hasCapture (entry_at b m) = captures (entry_at b m)
     \<and> (\<forall>f. f \<in> rt_faceId ` set (re_inherited (entry_at b m)) \<longleftrightarrow> inherits b m f \<noteq> None))"

lemma hasInheritedRoute_face: "hasInheritedRoute e r \<longleftrightarrow> rt_faceId r \<in> rt_faceId ` set (re_inherited e)"
  unfolding hasInheritedRoute_def find_if_end by (auto intro: rev_image_eqI)

lemma in_sync_inherited:
  "in_sync b \<Longrightarrow> m \<in> names_in b \<Longrightarrow> hasInheritedRoute (entry_at b m) r \<longleftrightarrow> inherits b m (rt_faceId r) \<noteq> None"
  by (simp add: in_sync_def hasInheritedRoute_face)

lemma in_sync_passes:
  "in_sync b \<Longrightarrow> m \<in> names_in b \<Longrightarrow> passes (entry_at b m) f \<longleftrightarrow> \<not> captures (entry_at b m) \<and> inherit_route_of (entry_at b m) f = None"
  by (simp add: in_sync_def passes_def inherit_route_of_None)

lemma in_sync_ancestors:
  assumes "rib_ok b" and "in_sync b"
  shows "\<exists>anc. getAncestorRoutes_name b n = Some anc \<and> routes_ok anc \<and> (\<forall>f. map_of anc f = inherited_from_above b n f)"
  using ancestor_loop_routes [OF assms(1), of "[]" n] assms(2)
  by (simp add: in_sync_def getAncestorRoutes_name_def findParent_nearest)

lemma FibUpdater_new_plan: "plan_ok (FibUpdater_new f) (\<lambda>_ _. None)"
  by (simp add: plan_ok_def updater_ok_def planned_def all_updates_def FibUpdater_new_def fun_eq_iff)

lemma altered_none [simp]: "altered b cs [] [] U = U"
  by (simp add: altered_def change_at_def fun_eq_iff)

text \<open>The plan for the new name itself, and the routes the names below it get and lose.\<close>

definition own_plan :: "rib \<Rightarrow> full_name \<Rightarrow> route \<Rightarrow> plan" where
  "own_plan b n r = (\<lambda>m f. if m \<noteq> n then None else if f = rt_faceId r then Some (ADD_NEXTHOP, rt_cost r)
     else if isCapture r then None else map_option (\<lambda>a. (ADD_NEXTHOP, rt_cost a)) (inherited_from_above b n f))"

definition gained :: "rib \<Rightarrow> full_name \<Rightarrow> route \<Rightarrow> u64 \<Rightarrow> route option" where
  "gained b n r f = (if \<not> isChildInherit r then None else if f = rt_faceId r then Some r
     else if isCapture r then None else inherited_from_above b n f)"

definition lost :: "rib \<Rightarrow> full_name \<Rightarrow> route \<Rightarrow> u64 \<Rightarrow> route option" where
  "lost b n r f = (if isCapture r then inherited_from_above b n f else None)"

lemma own_plan_ok:
  fixes r :: route and n :: full_name
  assumes "routes_ok anc" and "\<And>f. map_of anc f = inherited_from_above b n f"
  defines "s0 \<equiv> addFibUpdate (createAddUpdate n (rt_faceId r) (rt_cost r)) (FibUpdater_new (rt_faceId r))"
  shows "plan_ok (if isCapture r then s0 else addInheritedRoutes_name n anc r s0) (own_plan b n r)"
proof -
  let ?U = "set_plan n (rt_faceId r) (ADD_NEXTHOP, rt_cost r) (\<lambda>_ _. None)"
  have s0: "plan_ok s0 ?U" unfolding s0_def
    using plan_addFibUpdate [OF FibUpdater_new_plan, of "createAddUpdate n (rt_faceId r) (rt_cost r)"] by (simp add: createAddUpdate_def)
  show ?thesis
  proof (cases "isCapture r")
    case True
    then have "own_plan b n r = ?U" by (simp add: own_plan_def fun_eq_iff)
    then show ?thesis using s0 True by simp
  next
    case False
    have "plan_ok (addInheritedRoutes_name n anc r s0) (plan_at n (\<lambda>f. map_option (\<lambda>a. (ADD_NEXTHOP, rt_cost a))
        (List.find (\<lambda>a. rt_faceId a = f) (filter (\<lambda>a. rt_faceId a \<noteq> rt_faceId r) (routes_of anc)))) ?U)"
      unfolding addInheritedRoutes_name_def by (rule plan_fold [OF plan_inherit_route find_route_of(2) [OF assms(1)] s0])
    moreover have "plan_at n (\<lambda>f. map_option (\<lambda>a. (ADD_NEXTHOP, rt_cost a))
        (List.find (\<lambda>a. rt_faceId a = f) (filter (\<lambda>a. rt_faceId a \<noteq> rt_faceId r) (routes_of anc)))) ?U = own_plan b n r"
      unfolding find_route_of(1) [OF assms(1)] using routes_ok_face [OF assms(1)] False
      by (auto simp: plan_at_def own_plan_def fun_eq_iff assms(2) split: option.splits)
    ultimately show ?thesis using False by simp
  qed
qed

lemma new_entry_plan:
  assumes "rib_ok b" and "in_sync b" and "set cs \<subseteq> names_in b" and "apart cs"
  shows "\<exists>s add rem. createFibUpdatesForNewRibEntry b n r cs (FibUpdater_new (rt_faceId r)) = Some s
     \<and> plan_ok s (altered b cs add rem (own_plan b n r)) \<and> map_of add = gained b n r \<and> map_of rem = lost b n r"
proof -
  obtain anc where anc: "getAncestorRoutes_name b n = Some anc" "routes_ok anc" "\<And>f. map_of anc f = inherited_from_above b n f"
    using in_sync_ancestors [OF assms(1,2)] by blast
  note own = own_plan_ok [OF anc(2,3), where r = r]
  define s1 where "s1 = (if isCapture r then addFibUpdate (createAddUpdate n (rt_faceId r) (rt_cost r)) (FibUpdater_new (rt_faceId r))
    else addInheritedRoutes_name n anc r (addFibUpdate (createAddUpdate n (rt_faceId r) (rt_cost r)) (FibUpdater_new (rt_faceId r))))"
  have walk: "\<exists>s'. modifyChildrensInheritedRoutes b cs add rem s1 = Some s' \<and> plan_ok s' (altered b cs add rem (own_plan b n r))"
    if "routes_ok add" "routes_ok rem" for add rem
    using traverse_plan [OF assms(1,3,4)] own that unfolding traverses_def s1_def by blast
  have er: "routes_ok (routes_erase (rt_faceId r) anc)" "map_of (routes_erase (rt_faceId r) anc) f = (if f = rt_faceId r then None else inherited_from_above b n f)" for f
    unfolding routes_erase_def using routes_filter_ok [OF anc(2), of "\<lambda>e. fst e \<noteq> rt_faceId r"] anc(3) by (auto split: option.splits)
  define add where "add = (if \<not> isChildInherit r then [] else if isCapture r then single_route r else routes_insert r (routes_erase (rt_faceId r) anc))"
  define rem where "rem = (if isCapture r then anc else [])"
  have add: "routes_ok add" "map_of add = gained b n r"
    using single_route_ok [of r] routes_insert_ok [OF er(1), of r] er(2) by (auto simp: add_def gained_def fun_eq_iff)
  have rem: "routes_ok rem" "map_of rem = lost b n r" using anc(2,3) by (auto simp: rem_def lost_def fun_eq_iff)
  obtain s' where s': "modifyChildrensInheritedRoutes b cs add rem s1 = Some s'" "plan_ok s' (altered b cs add rem (own_plan b n r))"
    using walk [OF add(1) rem(1)] by blast
  show ?thesis
  proof (cases "isChildInherit r \<or> isCapture r")
    case True
    then have "createFibUpdatesForNewRibEntry b n r cs (FibUpdater_new (rt_faceId r)) = Some s'"
      using s'(1) anc(1) by (auto simp: createFibUpdatesForNewRibEntry_def Let_def add_def rem_def s1_def)
    then show ?thesis using s'(2) add(2) rem(2) by blast
  next
    case False
    then have "createFibUpdatesForNewRibEntry b n r cs (FibUpdater_new (rt_faceId r)) = Some s1"
      using anc(1) by (simp add: createFibUpdatesForNewRibEntry_def Let_def s1_def)
    moreover have "plan_ok s1 (altered b cs [] [] (own_plan b n r))" using own by (simp add: s1_def)
    moreover have "add = []" "rem = []" using False by (simp_all add: add_def rem_def)
    ultimately show ?thesis using add(2) rem(2) by blast
  qed
qed

lemma lowest_cost_P: "lowest_cost P c rs = Some r \<Longrightarrow> c = Some r \<or> P r"
proof (induction rs arbitrary: c)
  case (Cons x rs)
  from Cons.IH [OF Cons.prems [unfolded lowest_cost.simps]] show ?case by (auto split: if_splits option.splits)
qed simp

lemma inherited_face: "inherited_from_above b n f = Some r \<Longrightarrow> rt_faceId r = f"
proof (induction b n f rule: inherited_from_above.induct)
  case (1 b n f)
  from "1.prems" obtain p where p: "nearest (names_in b) n = Some p" by (simp add: inherited_from_above.simps [of b n] split: option.splits)
  show ?case
  proof (cases "inherit_route_of (entry_at b p) f")
    case None
    then show ?thesis using "1.IH" [OF p None] "1.prems" p by (simp add: inherited_from_above.simps [of b n] split: if_splits)
  next
    case (Some x)
    then show ?thesis using "1.prems" p lowest_cost_P [of _ None] by (auto simp: inherited_from_above.simps [of b n] inherit_route_of_def)
  qed
qed

lemma from_new_eq:
  assumes "adds_name b n b'" and "re_routes (entry_at b' n) = [r]"
  shows "from_new b b' n f = (if isChildInherit r \<and> f = rt_faceId r then Some r else if isCapture r then None else inherited_from_above b n f)"
  using assms(2) by (auto simp: from_new_def inherit_route_of_def captures_def)

text \<open>Below the new name the plan changes the inherited next hops to those of the new table.\<close>

lemma altered_below:
  assumes "in_sync b" and "adds_name b n b'" and "re_routes (entry_at b' n) = [r]" and "m \<in> names_in b"
    and cs: "set cs = {c \<in> names_in b. proper_prefix n c \<and> nearest (names_in b) c = nearest (names_in b) n}"
    and "map_of add = gained b n r" and "map_of rem = lost b n r"
  shows "(case altered b cs add rem (own_plan b n r) m f of None \<Rightarrow> fib_of b m f | Some (ADD_NEXTHOP, c) \<Rightarrow> Some c | Some (REMOVE_NEXTHOP, _) \<Rightarrow> None) = fib_of b' m f"
proof -
  let ?e = "entry_at b m"
  have D: "n \<notin> names_in b" "m \<in> names_in b'" "m \<noteq> n" using assms(2,4) by (auto simp: adds_name_def)
  note same = adds_name_entry [OF assms(2,4)]
  have fib: "fib_of x m f = (if hasFaceId ?e f then map_option rt_cost (getRouteWithLowestCostByFaceId ?e f)
      else if captures ?e then None else map_option rt_cost (inherited_from_above x m f))" if "x = b \<or> x = b'" for x
    using that assms(4) D(2) same hasFaceId_own [of ?e f] by (auto simp: fib_of_def inherits_def split: option.splits)
  note from_n = from_new_eq [OF assms(2,3), of f]
  show ?thesis
  proof (cases "\<exists>c \<in> set cs. reached b c m f")
    case True
    then have r: "proper_prefix n m" "passes ?e f" "\<And>p. p \<in> names_in b \<Longrightarrow> proper_prefix n p \<Longrightarrow> proper_prefix p m \<Longrightarrow> passes (entry_at b p) f"
      unfolding reached_from_new [OF D(1) cs] by blast+
    have "open_between b n m f" using r(3) in_sync_passes [OF assms(1)] by (simp add: open_between_def)
    then have a: "inherited_from_above b m f = inherited_from_above b n f" "inherited_from_above b' m f = from_new b b' n f"
      using above_below [OF assms(2) r(1), of f] by simp_all
    have c: "\<not> captures ?e" using r(2) in_sync_passes [OF assms(1,4)] by simp
    have l: "hasInheritedRoute ?e (the (lost b n r f)) \<longleftrightarrow> \<not> hasFaceId ?e f" if lost: "lost b n r f \<noteq> None"
    proof -
      obtain a' where a': "inherited_from_above b n f = Some a'" "lost b n r f = Some a'" using lost by (auto simp: lost_def split: if_splits)
      have "rt_faceId a' = f" by (rule inherited_face [OF a'(1)])
      then show ?thesis using in_sync_inherited [OF assms(1,4), of a'] a' a(1) c by (simp add: inherits_def)
    qed
    have "own_plan b n r m f = None" using D(3) by (simp add: own_plan_def)
    then show ?thesis using True l c
      unfolding altered_def fib [OF disjI1, OF refl] fib [OF disjI2, OF refl] a from_n assms(6,7) change_at_def
      by (cases "inherited_from_above b n f"; cases "f = rt_faceId r") (auto simp: gained_def lost_def)
  next
    case False
    have "altered b cs add rem (own_plan b n r) m f = None" using False D(3) by (simp add: altered_def own_plan_def)
    moreover have "hasFaceId ?e f \<or> captures ?e \<or> inherited_from_above b' m f = inherited_from_above b m f"
    proof (cases "proper_prefix n m \<and> open_between b n m f")
      case True
      have "\<forall>p \<in> names_in b. proper_prefix n p \<and> proper_prefix p m \<longrightarrow> passes (entry_at b p) f"
        using True in_sync_passes [OF assms(1)] by (simp add: open_between_def)
      then have "\<not> passes ?e f" using False True assms(4) unfolding reached_from_new [OF D(1) cs] by blast
      then have "captures ?e \<or> hasChildInheritOnFaceId ?e f" using assms(1,4) by (simp add: passes_def in_sync_def)
      then show ?thesis by (auto simp: hasFaceId_def hasChildInheritOnFaceId_def find_if_end)
    next
      case False
      then show ?thesis using above_elsewhere [OF assms(2), of m f] above_below [OF assms(2), of m f] by auto
    qed
    ultimately show ?thesis by (auto simp: fib)
  qed
qed

text \<open>The new name itself, and the names that are not in the table.\<close>

lemma altered_own:
  assumes "adds_name b n b'" and "re_routes (entry_at b' n) = [r]"
  shows "(case altered b cs add rem (own_plan b n r) n f of None \<Rightarrow> fib_of b n f | Some (ADD_NEXTHOP, c) \<Rightarrow> Some c | Some (REMOVE_NEXTHOP, _) \<Rightarrow> None) = fib_of b' n f"
proof -
  have n: "n \<notin> names_in b" "n \<in> names_in b'" using assms(1) by (auto simp: adds_name_def)
  have "altered b cs add rem (own_plan b n r) n f = own_plan b n r n f" using n(1) by (auto simp: altered_def reached_def)
  moreover have "inherited_from_above b' n f = inherited_from_above b n f" using above_elsewhere [OF assms(1), of n f] by simp
  moreover have "hasFaceId (entry_at b' n) f \<longleftrightarrow> f = rt_faceId r" "captures (entry_at b' n) \<longleftrightarrow> isCapture r"
    unfolding hasFaceId_def find_if_end captures_def assms(2) by auto
  ultimately show ?thesis using n assms(2)
    by (cases "inherited_from_above b n f") (auto simp: own_plan_def fib_of_def inherits_def getRouteWithLowestCostByFaceId_def)
qed

lemma altered_absent:
  "m \<noteq> n \<Longrightarrow> m \<notin> names_in b \<Longrightarrow> altered b cs add rem (own_plan b n r) m f = None"
  by (auto simp: altered_def own_plan_def reached_def)

text \<open>The records of a table with one new entry are in sync.\<close>

lemma one_entry_in_sync:
  assumes "rb_table b = [(n, fst (insertRoute (RibEntry_new n) r))]"
  shows "in_sync b"
proof -
  have e: "re_routes (entry_at b n) = [r]" "re_nCapture (entry_at b n) = (if isCapture r then 1 else 0)" "re_inherited (entry_at b n) = []"
    using one_entry(4) [OF assms] by (simp_all add: insertRoute_def findRoute_def find_if_def RibEntry_new_def)
  have "nearest {n} n = None" by (simp add: nearest_None)
  then have "inherits b n f = None" for f using one_entry(3) [OF assms] by (simp add: inherits_def inherited_from_above.simps [of b n])
  then show ?thesis using e one_entry(3) [OF assms] by (simp add: in_sync_def one_per_face_def captures_def hasCapture_def)
qed

text \<open>A route registered for a new name: the updates bring the FIB of the old table to that of the new one.\<close>

definition new_prefix_children :: "rib \<Rightarrow> full_name \<Rightarrow> full_name list" where
  "new_prefix_children b n = filter (\<lambda>d. re_parent (entry_at b d) = findParent b n) (findDescendantsForNonInsertedName b n)"

text \<open>The faces of the routes in a table; the updates are for these and the face of the new route only.\<close>

definition route_faces :: "rib \<Rightarrow> u64 set" where
  "route_faces b = {rt_faceId r | r. \<exists>m \<in> names_in b. r \<in> set (re_routes (entry_at b m))}"

lemma lowest_cost_in: "lowest_cost P c rs = Some r \<Longrightarrow> c = Some r \<or> r \<in> set rs"
proof (induction rs arbitrary: c)
  case (Cons x rs)
  from Cons.IH [OF Cons.prems [unfolded lowest_cost.simps]] show ?case by (auto split: if_splits option.splits)
qed simp

lemma inherited_from_table: "inherited_from_above b n f = Some r \<Longrightarrow> f \<in> route_faces b"
proof (induction b n f rule: inherited_from_above.induct)
  case (1 b n f)
  from "1.prems" obtain p where p: "nearest (names_in b) n = Some p" by (simp add: inherited_from_above.simps [of b n] split: option.splits)
  show ?case
  proof (cases "inherit_route_of (entry_at b p) f")
    case None
    then show ?thesis using "1.IH" [OF p None] "1.prems" p by (simp add: inherited_from_above.simps [of b n] split: if_splits)
  next
    case (Some x)
    have "x \<in> set (re_routes (entry_at b p))" "rt_faceId x = f"
      using lowest_cost_in [OF Some [unfolded inherit_route_of_def]] lowest_cost_P [OF Some [unfolded inherit_route_of_def]] by auto
    moreover have "p \<in> names_in b" using p by (simp add: nearest_Some)
    ultimately show ?thesis by (auto simp: route_faces_def)
  qed
qed

lemma planned_faces:
  assumes "plan_ok s (altered b cs add rem (own_plan b n r))" and "map_of add = gained b n r" and "map_of rem = lost b n r" and "u \<in> set (all_updates s)"
  shows "fb_faceId u = rt_faceId r \<or> fb_faceId u \<in> route_faces b"
proof -
  have "planned s (fb_name u) (fb_faceId u) \<noteq> None" using assms(4) by (auto simp: planned_def find_None_iff update_key_def)
  then have "altered b cs add rem (own_plan b n r) (fb_name u) (fb_faceId u) \<noteq> None" using assms(1) by (simp add: plan_ok_def)
  then have "fb_faceId u = rt_faceId r \<or> inherited_from_above b n (fb_faceId u) \<noteq> None"
    using assms(2,3) by (auto simp: altered_def own_plan_def change_at_def gained_def lost_def split: if_splits option.splits)
  then show ?thesis using inherited_from_table by blast
qed

lemma new_prefix_plan:
  assumes "rib_ok b" and "in_sync b" and "Rib_find b n = None"
  shows "\<exists>s U. createFibUpdatesForNewRibEntry b n r (new_prefix_children b n) (FibUpdater_new (rt_faceId r)) = Some s
     \<and> plan_ok s U \<and> U n (rt_faceId r) = Some (ADD_NEXTHOP, rt_cost r)
     \<and> (\<forall>u \<in> set (all_updates s). fb_faceId u = rt_faceId r \<or> fb_faceId u \<in> route_faces b)
     \<and> (\<forall>b'. names_in b' = insert n (names_in b)
          \<and> (\<forall>m \<in> names_in b'. re_routes (entry_at b' m) = (if m = n then [r] else re_routes (entry_at b m)))
          \<longrightarrow> apply_commands (all_updates s) (fib_of b) = fib_of b')"
proof -
  let ?cs = "new_prefix_children b n"
  have n: "n \<notin> names_in b" using assms(3) by (simp add: names_in_def)
  note cs = new_children [OF assms(1) n, folded new_prefix_children_def]
  obtain s add rem where s: "createFibUpdatesForNewRibEntry b n r ?cs (FibUpdater_new (rt_faceId r)) = Some s"
    "plan_ok s (altered b ?cs add rem (own_plan b n r))" "map_of add = gained b n r" "map_of rem = lost b n r"
    using new_entry_plan [OF assms(1,2) _ cs(2)] cs(1) by blast
  have "apply_commands (all_updates s) (fib_of b) m f = fib_of b' m f"
    if b': "names_in b' = insert n (names_in b)" "\<forall>m \<in> names_in b'. re_routes (entry_at b' m) = (if m = n then [r] else re_routes (entry_at b m))" for b' m f
  proof -
    have add: "adds_name b n b'" "re_routes (entry_at b' n) = [r]" using b' n by (auto simp: adds_name_def)
    consider "m = n" | "m \<in> names_in b" | "m \<noteq> n" "m \<notin> names_in b" by blast
    then show ?thesis
    proof cases
      case 1
      show ?thesis unfolding 1 apply_commands_plan [OF s(2)] by (rule altered_own [OF add])
    next
      case 2
      then show ?thesis unfolding apply_commands_plan [OF s(2)] by (rule altered_below [OF assms(2) add _ cs(1) s(3,4)])
    next
      case 3
      then show ?thesis using b'(1) unfolding apply_commands_plan [OF s(2)] by (simp add: altered_absent fib_of_def)
    qed
  qed
  then have "\<forall>b'. names_in b' = insert n (names_in b) \<and> (\<forall>m \<in> names_in b'. re_routes (entry_at b' m) = (if m = n then [r] else re_routes (entry_at b m)))
      \<longrightarrow> apply_commands (all_updates s) (fib_of b) = fib_of b'" by (simp add: fun_eq_iff)
  moreover have "altered b ?cs add rem (own_plan b n r) n (rt_faceId r) = Some (ADD_NEXTHOP, rt_cost r)"
    using n by (simp add: altered_def reached_def own_plan_def)
  moreover have "\<forall>u \<in> set (all_updates s). fb_faceId u = rt_faceId r \<or> fb_faceId u \<in> route_faces b" using planned_faces [OF s(2-4)] by blast
  ultimately show ?thesis using s(1,2) by blast
qed

end
