(* ===== verification/FibProtocol.thy ===== *)
theory FibProtocol
  imports FibSync "HOL-Library.Multiset"
begin

text \<open>
  From a change of the routing information base to the answers of the forwarder: computing the updates
  always ends, and a route registered for a new name goes through the queue, the commands for the
  face of the batch, those for the other faces and the table.
\<close>

section \<open>Computing updates ends\<close>

definition copy_of :: "rib \<Rightarrow> rib_entry \<Rightarrow> bool" where
  "copy_of b e \<longleftrightarrow> (\<exists>n \<in> names_in b. re_parent e = re_parent (entry_at b n) \<and> re_children e = re_children (entry_at b n))"

lemma copy_ancestors: "rib_ok b \<Longrightarrow> copy_of b e \<Longrightarrow> \<exists>anc. getAncestorRoutes b e = Some anc"
  using ancestor_loop_ends linked_parent by (auto simp: copy_of_def getAncestorRoutes_def)

lemma copy_children: "rib_ok b \<Longrightarrow> copy_of b e \<Longrightarrow> \<exists>s'. modifyChildrensInheritedRoutes b (re_children e) add rem s = Some s'"
  using modifyChildren_ends [of b "re_children e"] linked_children by (auto simp: copy_of_def)

lemma copy_entry:
  assumes "Rib_find b n = Some e"
  shows "copy_of b e" "copy_of b (e\<lparr>re_routes := rs\<rparr>)" "copy_of b (fst (eraseRoute e r))"
proof -
  have "n \<in> names_in b" "entry_at b n = e" using assms by (simp_all add: names_in_def entry_at_def)
  then show "copy_of b e" "copy_of b (e\<lparr>re_routes := rs\<rparr>)" "copy_of b (fst (eraseRoute e r))"
    by (auto simp: copy_of_def eraseRoute_def eraseRoute_at_def)
qed

lemma NewRoute_ends:
  assumes "rib_ok b" and "copy_of b e"
  shows "\<exists>s'. createFibUpdatesForNewRoute b e r c s = Some s'"
proof -
  obtain anc where anc: "(if c then getAncestorRoutes b e else Some []) = Some anc" using copy_ancestors [OF assms] by (cases c) auto
  have m: "modifyChildrensInheritedRoutes b (re_children e) add rem s1 \<noteq> None" for add rem s1 using copy_children [OF assms] by auto
  show ?thesis using m unfolding createFibUpdatesForNewRoute_def Let_def anc option.case by (auto simp del: not_None_eq split: option.split)
qed

lemma UpdatedRoute_ends:
  assumes "rib_ok b" and "copy_of b e"
  shows "\<exists>x. createFibUpdatesForUpdatedRoute b e r old s = Some x"
proof -
  obtain anc where anc: "getAncestorRoutes b e = Some anc" using copy_ancestors [OF assms] by blast
  have m: "modifyChildrensInheritedRoutes b (re_children e) add rem s1 \<noteq> None" for add rem s1 using copy_children [OF assms] by auto
  have c: "update_childInherit b e r old s1 \<noteq> None" for s1
    using m by (auto simp del: not_None_eq simp: update_childInherit_def anc Let_def split: option.split)
  have d: "update_capture b e r old s1 \<noteq> None" for s1
    using m by (auto simp del: not_None_eq simp: update_capture_def anc)
  have "createFibUpdatesForUpdatedRoute b e r old s \<noteq> None"
    using m c d by (auto simp del: not_None_eq simp: createFibUpdatesForUpdatedRoute_def Let_def split: sum.split option.split)
  then show ?thesis by blast
qed

lemma ErasedRoute_ends:
  assumes "rib_ok b" and "copy_of b e"
  shows "\<exists>s'. createFibUpdatesForErasedRoute b e r off s = Some s'"
proof -
  obtain anc where anc: "getAncestorRoutes b e = Some anc" using copy_ancestors [OF assms] by blast
  have m: "modifyChildrensInheritedRoutes b (re_children e) add rem s1 \<noteq> None" for add rem s1 using copy_children [OF assms] by auto
  have "update_erased_inherits b e r off s1 \<noteq> None" for s1
    using m by (simp del: not_None_eq add: update_erased_inherits_def ancestors_unblocked_def anc)
  then obtain s' where "update_erased_inherits b e r off (addFibUpdate (createRemoveUpdate (re_name e) (rt_faceId r)) s) = Some s'" by blast
  then show ?thesis by (simp add: createFibUpdatesForErasedRoute_def anc)
qed

lemma NewRibEntry_ends:
  assumes "rib_ok b" and "\<forall>c \<in> set cs. c \<in> names_in b"
  shows "\<exists>s'. createFibUpdatesForNewRibEntry b n r cs s = Some s'"
proof -
  obtain anc where anc: "getAncestorRoutes_name b n = Some anc"
    using ancestor_loop_ends [OF assms(1)] by (auto simp: getAncestorRoutes_name_def findParent_nearest)
  show ?thesis using modifyChildren_ends [OF assms] by (simp add: createFibUpdatesForNewRibEntry_def anc Let_def)
qed

lemma registration_ends:
  assumes "rib_ok b"
  shows "\<exists>x. computeUpdatesForRegistration b u s = Some x"
proof (cases "Rib_find b (ru_name u)")
  case None
  have "\<forall>c \<in> set (findDescendantsForNonInsertedName b (ru_name u)). c \<in> names_in b"
    using names_in_keys [OF rib_okD(1) [OF assms]] by (auto simp: findDescendantsForNonInsertedName_def)
  then have "\<exists>s'. createFibUpdatesForNewRibEntry b (ru_name u) (ru_route u)
      (filter P (findDescendantsForNonInsertedName b (ru_name u))) s = Some s'" for P
    by (intro NewRibEntry_ends [OF assms]) auto
  then obtain s' where "createFibUpdatesForNewRibEntry b (ru_name u) (ru_route u)
      (filter (\<lambda>d. re_parent (entry_at b d) = findParent b (ru_name u)) (findDescendantsForNonInsertedName b (ru_name u))) s = Some s'" by blast
  then show ?thesis using None by (simp add: computeUpdatesForRegistration_def Let_def)
next
  case (Some e)
  show ?thesis
    using NewRoute_ends [OF assms copy_entry(1) [OF Some], of "ru_route u" "\<not> hasCapture e \<and> isCapture (ru_route u)" s]
      UpdatedRoute_ends [OF assms copy_entry(2) [OF Some]] Some
    by (auto simp: computeUpdatesForRegistration_def Let_def)
qed

lemma unregistration_ends:
  assumes "rib_ok b"
  shows "\<exists>s'. computeUpdatesForUnregistration b u s = Some s'"
proof (cases "Rib_find b (ru_name u)")
  case (Some e)
  obtain temp ev where t: "eraseRoute e (ru_route u) = (temp, ev)" by (cases "eraseRoute e (ru_route u)")
  have c: "copy_of b temp" using copy_entry(3) [OF Some, of "ru_route u"] t by simp
  obtain s1 where s1: "createFibUpdatesForErasedRoute b temp (re_routes e ! findRoute e (ru_route u)) (hasCapture e \<and> \<not> hasCapture temp) (log_cancelled ev s) = Some s1"
    using ErasedRoute_ends [OF assms c] by blast
  have "\<exists>s2. (case getRouteWithSecondLowestCostByFaceId e (rt_faceId (ru_route u)) of
      None \<Rightarrow> Some s1 | Some next' \<Rightarrow> createFibUpdatesForNewRoute b temp next' False s1) = Some s2"
    using NewRoute_ends [OF assms c] by (auto split: option.split)
  then obtain s2 where "(case getRouteWithSecondLowestCostByFaceId e (rt_faceId (ru_route u)) of
      None \<Rightarrow> Some s1 | Some next' \<Rightarrow> createFibUpdatesForNewRoute b temp next' False s1) = Some s2" by blast
  then show ?thesis using Some t s1 by (simp add: computeUpdatesForUnregistration_def Let_def)
qed (simp add: computeUpdatesForUnregistration_def)

section \<open>Recorded inherited routes\<close>

text \<open>
  The inherited routes a computation records, all for names of \<open>N\<close>: a removal is of a route that is
  recorded in the table, and no name and face is removed twice.
\<close>

definition removal :: "rib_update \<Rightarrow> bool" where
  "removal u \<longleftrightarrow> ru_action u = UNREGISTER"

definition record_key :: "rib_update \<Rightarrow> full_name \<times> u64" where
  "record_key u = (ru_name u, rt_faceId (ru_route u))"

definition records_ok :: "rib \<Rightarrow> full_name set \<Rightarrow> rib_update list \<Rightarrow> bool" where
  "records_ok b N us \<longleftrightarrow> (\<forall>u \<in> set us. ru_name u \<in> N \<and> ru_action u \<noteq> REMOVE_FACE) \<and> distinct (map record_key (filter removal us))
     \<and> (\<forall>u \<in> set us. removal u \<longrightarrow> hasInheritedRoute (entry_at b (ru_name u)) (ru_route u))"

definition recorded :: "rib \<Rightarrow> full_name set \<Rightarrow> fib_updater \<Rightarrow> fib_updater \<Rightarrow> bool" where
  "recorded b N s s' \<longleftrightarrow> (\<exists>us. fu_inherited s' = fu_inherited s @ us \<and> records_ok b N us)
     \<and> fu_cancelled s' = fu_cancelled s \<and> fu_batchFaceId s' = fu_batchFaceId s"

lemma records_Nil [simp]: "records_ok b N []"
  by (simp add: records_ok_def)

lemma records_append:
  assumes "records_ok b N us" and "records_ok b M vs" and "N \<inter> M = {}"
  shows "records_ok b (N \<union> M) (us @ vs)"
proof -
  have "record_key u \<noteq> record_key v" if "u \<in> set us" "v \<in> set vs" for u v
    using that assms by (auto simp: records_ok_def record_key_def)
  then show ?thesis using assms by (fastforce simp: records_ok_def)
qed

lemma records_mono: "records_ok b N us \<Longrightarrow> N \<subseteq> M \<Longrightarrow> records_ok b M us"
  by (auto simp: records_ok_def)

lemma recorded_refl [simp]: "recorded b N s s"
  by (simp add: recorded_def)

lemma recorded_trans:
  assumes "recorded b N s s1" and "recorded b M s1 s2" and "N \<inter> M = {}" and "N \<union> M \<subseteq> L"
  shows "recorded b L s s2"
proof -
  obtain us vs where "fu_inherited s1 = fu_inherited s @ us" "records_ok b N us" "fu_inherited s2 = fu_inherited s1 @ vs" "records_ok b M vs"
    using assms(1,2) by (auto simp: recorded_def)
  then have "fu_inherited s2 = fu_inherited s @ us @ vs" "records_ok b L (us @ vs)"
    using records_append [OF _ _ assms(3)] records_mono [OF _ assms(4)] by auto
  then show ?thesis using assms(1,2) by (auto simp: recorded_def)
qed

lemma addFibUpdate_inherited [simp]:
  "fu_inherited (addFibUpdate u s) = fu_inherited s" "fu_cancelled (addFibUpdate u s) = fu_cancelled s"
  "fu_batchFaceId (addFibUpdate u s) = fu_batchFaceId s"
  by (simp_all add: addFibUpdate_def)

lemma inherit_fold:
  "fu_inherited (fold (inherit_route c) rs s) = fu_inherited s @ map (\<lambda>r. \<lparr>ru_action = REGISTER, ru_name = c, ru_route = r\<rparr>) rs"
  "fu_inherited (fold (disinherit_route c) rs s) = fu_inherited s @ map (\<lambda>r. \<lparr>ru_action = UNREGISTER, ru_name = c, ru_route = r\<rparr>) rs"
  by (induction rs arbitrary: s) (simp_all add: inherit_route_def disinherit_route_def addInheritedRoute_def removeInheritedRoute_def)

lemma inherit_fold_fields [simp]:
  "fu_cancelled (fold (inherit_route c) rs s) = fu_cancelled s" "fu_cancelled (fold (disinherit_route c) rs s) = fu_cancelled s"
  "fu_batchFaceId (fold (inherit_route c) rs s) = fu_batchFaceId s" "fu_batchFaceId (fold (disinherit_route c) rs s) = fu_batchFaceId s"
  by (induction rs arbitrary: s) (simp_all add: inherit_route_def disinherit_route_def addInheritedRoute_def removeInheritedRoute_def)

lemma records_of_entry:
  assumes "distinct (map rt_faceId rs)" and "\<forall>r \<in> set rs. hasInheritedRoute (entry_at b c) r"
  shows "records_ok b {c} (map (\<lambda>r. \<lparr>ru_action = UNREGISTER, ru_name = c, ru_route = r\<rparr>) rs @ map (\<lambda>r. \<lparr>ru_action = REGISTER, ru_name = c, ru_route = r\<rparr>) rs')"
proof -
  have r: "filter removal (map (\<lambda>r. \<lparr>ru_action = UNREGISTER, ru_name = c, ru_route = r\<rparr>) rs) = map (\<lambda>r. \<lparr>ru_action = UNREGISTER, ru_name = c, ru_route = r\<rparr>) rs"
    "filter removal (map (\<lambda>r. \<lparr>ru_action = REGISTER, ru_name = c, ru_route = r\<rparr>) rs') = []" for rs rs'
    by (auto simp: removal_def filter_id_conv filter_empty_conv)
  have "distinct (map (\<lambda>r. (c, rt_faceId r)) rs)" using assms(1) by (auto simp: distinct_map inj_on_def)
  then show ?thesis using assms(2) by (auto simp: records_ok_def r record_key_def comp_def removal_def)
qed

lemma visit_recorded:
  assumes "visit_entry (entry_at b c) add rem s = (add', rem', s')" and "routes_ok rem" and "re_name (entry_at b c) = c"
  shows "recorded b {c} s s' \<and> routes_ok rem'"
proof -
  have r: "rem' = filter (\<lambda>x. \<not> hasChildInheritOnFaceId (entry_at b c) (rt_faceId (snd x))) rem" using assms(1) by (auto simp: visit_entry_def Let_def)
  have ok: "routes_ok rem'" unfolding r by (rule routes_filter_ok(1) [OF assms(2)])
  let ?rs = "filter (hasInheritedRoute (entry_at b c)) (routes_of rem')"
  have "fu_inherited s' = fu_inherited s @ map (\<lambda>r. \<lparr>ru_action = UNREGISTER, ru_name = c, ru_route = r\<rparr>) ?rs
      @ map (\<lambda>r. \<lparr>ru_action = REGISTER, ru_name = c, ru_route = r\<rparr>) (filter (\<lambda>r. \<not> hasFaceId (entry_at b c) (rt_faceId r)) (routes_of add'))"
    using assms(1,3) by (auto simp: visit_entry_def Let_def inherit_fold)
  moreover have "records_ok b {c} (map (\<lambda>r. \<lparr>ru_action = UNREGISTER, ru_name = c, ru_route = r\<rparr>) ?rs
      @ map (\<lambda>r. \<lparr>ru_action = REGISTER, ru_name = c, ru_route = r\<rparr>) (filter (\<lambda>r. \<not> hasFaceId (entry_at b c) (rt_faceId r)) (routes_of add')))"
    by (rule records_of_entry [OF find_route_of(2) [OF ok]]) auto
  moreover have "fu_cancelled s' = fu_cancelled s" "fu_batchFaceId s' = fu_batchFaceId s" using assms(1) by (auto simp: visit_entry_def Let_def)
  ultimately show ?thesis using ok by (auto simp: recorded_def)
qed

definition below :: "rib \<Rightarrow> full_name list \<Rightarrow> full_name set" where
  "below b cs = {m \<in> names_in b. \<exists>c \<in> set cs. is_prefix_of c m}"

definition traversal_recorded :: "rib \<Rightarrow> full_name list \<Rightarrow> bool" where
  "traversal_recorded b cs \<longleftrightarrow>
     (\<forall>add rem s s'. routes_ok rem \<and> modifyChildrensInheritedRoutes b cs add rem s = Some s' \<longrightarrow> recorded b (below b cs) s s')"

lemma below_step:
  assumes "rib_ok b" and "c \<in> names_in b" and "apart (c # cs)"
  shows "{c} \<inter> below b (re_children (entry_at b c)) = {}" "{c} \<union> below b (re_children (entry_at b c)) \<subseteq> below b [c]"
    "below b [c] \<inter> below b cs = {}" "below b [c] \<union> below b cs \<subseteq> below b (c # cs)"
proof -
  have kid: "proper_prefix c d" if "d \<in> set (re_children (entry_at b c))" for d
    using that linked_children [OF assms(1,2)] nearest_proper by auto
  show "{c} \<inter> below b (re_children (entry_at b c)) = {}"
    using kid proper_prefix_trans [of c _ c] by (auto simp: below_def is_prefix_of_proper)
  have "is_prefix_of c d" if "d \<in> set (re_children (entry_at b c))" for d using kid [OF that] by (simp add: is_prefix_of_proper)
  then show "{c} \<union> below b (re_children (entry_at b c)) \<subseteq> below b [c]" using is_prefix_of_trans assms(2) by (auto simp: below_def)
  show "below b [c] \<inter> below b cs = {}"
    using apart_Cons [OF assms(3)] prefixes_comparable [of c _] by (auto simp: below_def)
  show "below b [c] \<union> below b cs \<subseteq> below b (c # cs)" by (auto simp: below_def)
qed

lemma traversal_recorded_Cons:
  assumes "rib_ok b" and "c \<in> names_in b" and "apart (c # cs)" and kids: "traversal_recorded b (re_children (entry_at b c))" and rest: "traversal_recorded b cs"
  shows "traversal_recorded b (c # cs)"
  unfolding traversal_recorded_def
proof (intro allI impI, elim conjE)
  fix add rem s s'
  assume rem: "routes_ok rem" and run: "modifyChildrensInheritedRoutes b (c # cs) add rem s = Some s'"
  note bs = below_step [OF assms(1-3)]
  show "recorded b (below b (c # cs)) s s'"
  proof (cases "hasCapture (entry_at b c)")
    case True
    then have "modifyChildrensInheritedRoutes b cs add rem s = Some s'" using run by (subst (asm) modifyChildrensInheritedRoutes.simps) (simp add: Let_def)
    then have "recorded b (below b cs) s s'" using rest rem by (auto simp: traversal_recorded_def)
    then show ?thesis by (rule recorded_trans [OF recorded_refl [of b "{}"]]) (auto simp: below_def)
  next
    case False
    obtain a' r' s1 where v: "visit_entry (entry_at b c) add rem s = (a', r', s1)" by (cases "visit_entry (entry_at b c) add rem s") auto
    then have "modifyChildrensInheritedRoutes b (re_children (entry_at b c)) a' r' s1 \<bind> modifyChildrensInheritedRoutes b cs add rem = Some s'"
      using run False by (subst (asm) modifyChildrensInheritedRoutes.simps) (simp add: Let_def)
    then obtain s2 where s2: "modifyChildrensInheritedRoutes b (re_children (entry_at b c)) a' r' s1 = Some s2" "modifyChildrensInheritedRoutes b cs add rem s2 = Some s'"
      by (auto simp: bind_eq_Some_conv)
    note v' = visit_recorded [OF v rem entry_name [OF assms(1,2)]]
    have "recorded b (below b (re_children (entry_at b c))) s1 s2" using kids v' s2(1) by (auto simp: traversal_recorded_def)
    then have "recorded b (below b [c]) s s2" by (rule recorded_trans [OF conjunct1 [OF v'] _ bs(1,2)])
    moreover have "recorded b (below b cs) s2 s'" using rest rem s2(2) by (auto simp: traversal_recorded_def)
    ultimately show ?thesis by (rule recorded_trans [OF _ _ bs(3,4)])
  qed
qed

lemma traversal_is_recorded: "rib_ok b \<Longrightarrow> set cs \<subseteq> names_in b \<Longrightarrow> apart cs \<Longrightarrow> traversal_recorded b cs"
  by (rule subtree_induct [of b "traversal_recorded b"]) (simp_all add: traversal_recorded_Cons, simp add: traversal_recorded_def modify_Nil)

text \<open>Registering a route for a new name.\<close>

lemma new_entry_recorded:
  assumes "rib_ok b" and "n \<notin> names_in b" and "set cs \<subseteq> names_in b" and "apart cs"
    and "\<exists>anc. getAncestorRoutes_name b n = Some anc \<and> routes_ok anc"
    and "createFibUpdatesForNewRibEntry b n r cs (FibUpdater_new f) = Some s"
  shows "records_ok b (insert n (names_in b)) (fu_inherited s)" "fu_cancelled s = []" "fu_batchFaceId s = f"
proof -
  obtain anc where anc: "getAncestorRoutes_name b n = Some anc" "routes_ok anc" using assms(5) by blast
  define s0 where "s0 = addFibUpdate (createAddUpdate n (rt_faceId r) (rt_cost r)) (FibUpdater_new f)"
  have i0: "fu_inherited s0 = []" "fu_cancelled s0 = []" "fu_batchFaceId s0 = f" by (simp_all add: s0_def FibUpdater_new_def)
  have own: "recorded b {n} s0 (addInheritedRoutes_name n anc r s0)"
    using records_of_entry [of "[]"] by (simp add: recorded_def addInheritedRoutes_name_def inherit_fold)
  have walk: "recorded b (below b cs) s1 s" if "modifyChildrensInheritedRoutes b cs add rem s1 = Some s" "routes_ok rem" for add rem s1
    using traversal_is_recorded [OF assms(1,3,4)] that by (auto simp: traversal_recorded_def)
  have N: "{n} \<inter> below b cs = {}" "{n} \<union> below b cs \<subseteq> insert n (names_in b)" using assms(2) by (auto simp: below_def)
  have fin: "recorded b (insert n (names_in b)) s0 s" if "recorded b {n} s0 s1" "modifyChildrensInheritedRoutes b cs add rem s1 = Some s" "routes_ok rem" for s1 add rem
    by (rule recorded_trans [OF that(1) walk [OF that(2,3)] N])
  have own': "recorded b (insert n (names_in b)) s0 (addInheritedRoutes_name n anc r s0)"
    by (rule recorded_trans [OF own recorded_refl [of b "{}"]]) auto
  have "recorded b (insert n (names_in b)) s0 s"
    using assms(6) unfolding createFibUpdatesForNewRibEntry_def Let_def anc(1) option.case s0_def [symmetric]
    by (auto split: if_splits intro: own' fin [OF own] fin [OF recorded_refl] anc(2))
  then show "records_ok b (insert n (names_in b)) (fu_inherited s)" "fu_cancelled s = []" "fu_batchFaceId s = f" using i0 by (auto simp: recorded_def)
qed

section \<open>Recording them\<close>

text \<open>Tables that differ in the recorded inherited routes only.\<close>

definition same_routes :: "rib \<Rightarrow> rib \<Rightarrow> bool" where
  "same_routes b b' \<longleftrightarrow> names_in b' = names_in b \<and> (\<forall>m \<in> names_in b. re_routes (entry_at b' m) = re_routes (entry_at b m))"

lemma same_routes_refl [simp]: "same_routes b b"
  by (simp add: same_routes_def)

lemma same_routes_trans: "same_routes b b1 \<Longrightarrow> same_routes b1 b2 \<Longrightarrow> same_routes b b2"
  by (simp add: same_routes_def)

lemma same_routes_above:
  assumes "same_routes b b'"
  shows "inherited_from_above b' n f = inherited_from_above b n f"
proof (induction "length n" arbitrary: n rule: less_induct)
  case less
  show ?case
  proof (cases "nearest (names_in b) n")
    case None
    then show ?thesis using assms by (simp add: inherited_from_above.simps [of _ n] same_routes_def)
  next
    case (Some p)
    have "inherited_from_above b' p f = inherited_from_above b p f" using less proper_prefix_length [OF nearest_proper [OF Some]] by blast
    moreover have "inherit_route_of (entry_at b' p) f = inherit_route_of (entry_at b p) f" "captures (entry_at b' p) = captures (entry_at b p)"
      using assms nearest_in [OF Some] by (simp_all add: same_routes_def inherit_route_of_def captures_def)
    ultimately show ?thesis using Some assms by (simp add: inherited_from_above.simps [of _ n] same_routes_def split: option.split)
  qed
qed

lemma same_routes_fib:
  assumes "same_routes b b'"
  shows "fib_of b' = fib_of b" "routes_at b' = routes_at b"
proof -
  have i: "inherits b' n f = inherits b n f" if "n \<in> names_in b" for n f
    using that assms same_routes_above [OF assms, of n f] by (simp add: inherits_def same_routes_def hasFaceId_def captures_def)
  have "fib_of b' n f = fib_of b n f" for n f
    using assms i by (cases "n \<in> names_in b") (simp_all add: fib_of_def same_routes_def getRouteWithLowestCostByFaceId_def split: option.split)
  then show "fib_of b' = fib_of b" by (simp add: fun_eq_iff)
  show "routes_at b' = routes_at b" using assms by (auto simp: routes_at_entry same_routes_def fun_eq_iff)
qed

lemma update_inherited:
  assumes "rib_ok b" and "n \<in> names_in b" and b': "b' = update_entry n (\<lambda>e. e\<lparr>re_inherited := g e\<rparr>) b"
  shows "rib_ok b'" "same_routes b b'" "m \<in> names_in b \<Longrightarrow> m \<noteq> n \<Longrightarrow> entry_at b' m = entry_at b m"
    "re_inherited (entry_at b' n) = g (entry_at b n)"
proof -
  let ?f = "\<lambda>e. e\<lparr>re_inherited := g e\<rparr>"
  have n: "rb_nItems b' = rb_nItems b" "rb_faceMap b' = rb_faceMap b" by (simp_all add: b' update_entry_def)
  show "rib_ok b'"
  proof (rule rib_ok_routes [OF assms(1,2), of ?f])
    show "entry_ok n (?f (entry_at b n))" using rib_okD(3) [OF assms(1,2)] by (simp add: entry_ok_def)
    show "m \<in> set (rb_faceMap b' h) \<longleftrightarrow> m \<in> names_in b \<and> h \<in> rt_faceId ` set (re_routes (if m = n then ?f (entry_at b n) else entry_at b m))" for h m
      using rib_okD(5) [OF assms(1)] n by (simp add: faces_ok_def)
  qed (use n b' in auto)
  show "same_routes b b'" by (simp add: same_routes_def b' entry_at_update)
  show "m \<in> names_in b \<Longrightarrow> m \<noteq> n \<Longrightarrow> entry_at b' m = entry_at b m" by (simp add: b' entry_at_update)
  show "re_inherited (entry_at b' n) = g (entry_at b n)" using assms(2) by (simp add: b' entry_at_update)
qed

lemma remove_at_faces:
  assumes "i < length xs" and "rt_faceId (xs ! i) = f" and "x \<in> set xs" and "rt_faceId x \<noteq> f"
  shows "x \<in> set (remove_at i xs)"
  using assms remove_at_parts [OF assms(1)] by (metis (no_types, lifting) Un_iff in_set_conv_decomp remove_at_def set_ConsD set_append split_list)

lemma records_step:
  assumes "records_ok b N (u # us)" and "names_in b' = names_in b" and "N \<subseteq> names_in b"
    and "\<And>m. m \<in> names_in b \<Longrightarrow> m \<noteq> ru_name u \<Longrightarrow> entry_at b' m = entry_at b m"
    and "\<And>g. g \<in> rt_faceId ` set (re_inherited (entry_at b (ru_name u))) \<Longrightarrow> (removal u \<longrightarrow> g \<noteq> rt_faceId (ru_route u)) \<Longrightarrow>
      g \<in> rt_faceId ` set (re_inherited (entry_at b' (ru_name u)))"
  shows "records_ok b' N us"
proof -
  have "hasInheritedRoute (entry_at b' (ru_name v)) (ru_route v)" if v: "v \<in> set us" "removal v" for v
  proof (cases "ru_name v = ru_name u")
    case True
    have "hasInheritedRoute (entry_at b (ru_name v)) (ru_route v)" using v assms(1) by (simp add: records_ok_def)
    moreover have "removal u \<longrightarrow> record_key v \<noteq> record_key u"
    proof
      assume "removal u"
      then have "record_key u \<notin> record_key ` set (filter removal us)" using assms(1) by (simp add: records_ok_def)
      moreover have "record_key v \<in> record_key ` set (filter removal us)" using v by simp
      ultimately show "record_key v \<noteq> record_key u" by metis
    qed
    then have "removal u \<longrightarrow> rt_faceId (ru_route v) \<noteq> rt_faceId (ru_route u)" using True by (auto simp: record_key_def)
    ultimately show ?thesis using assms(5) True by (simp add: hasInheritedRoute_face)
  next
    case False
    then show ?thesis using assms(1,3,4) v by (auto simp: records_ok_def)
  qed
  then show ?thesis using assms(1) by (auto simp: records_ok_def split: if_splits)
qed

lemma modifyInheritedRoutes_ok:
  assumes "rib_ok b" and "records_ok b (names_in b) us"
  shows "\<exists>b'. modifyInheritedRoutes us b = Inr b' \<and> rib_ok b' \<and> same_routes b b'"
  using assms
proof (induction us arbitrary: b)
  case (Cons u us)
  let ?n = "ru_name u" and ?r = "ru_route u"
  have n: "?n \<in> names_in b" using Cons.prems(2) by (simp add: records_ok_def)
  have step: ?case if b1: "b1 = update_entry ?n (\<lambda>e. e\<lparr>re_inherited := g e\<rparr>) b" and m: "modifyInheritedRoutes (u # us) b = modifyInheritedRoutes us b1"
    and i: "\<And>h. h \<in> rt_faceId ` set (re_inherited (entry_at b ?n)) \<Longrightarrow> (removal u \<longrightarrow> h \<noteq> rt_faceId ?r) \<Longrightarrow> h \<in> rt_faceId ` set (g (entry_at b ?n))" for b1 g
  proof -
    note up = update_inherited [OF Cons.prems(1) n b1]
    have names: "names_in b1 = names_in b" using up(2) by (simp add: same_routes_def)
    have "records_ok b1 (names_in b) us" by (rule records_step [OF Cons.prems(2) names subset_refl up(3)]) (use up(4) i in auto)
    then obtain b' where "modifyInheritedRoutes us b1 = Inr b'" "rib_ok b'" "same_routes b1 b'" using Cons.IH [OF up(1)] names by auto
    then show ?thesis using m same_routes_trans [OF up(2)] by auto
  qed
  show ?case
  proof (cases "ru_action u")
    case REGISTER
    show ?thesis
      by (rule step [of _ "\<lambda>e. re_inherited e @ [?r]"]) (use REGISTER Rib_find_entry [OF n] in \<open>auto simp: addInheritedRoute_to_def [abs_def]\<close>)
  next
    case UNREGISTER
    let ?it = "\<lambda>e. find_if (\<lambda>x. rt_faceId x = rt_faceId ?r) (re_inherited e)"
    have h: "?it (entry_at b ?n) \<noteq> length (re_inherited (entry_at b ?n))"
      using Cons.prems(2) UNREGISTER by (simp add: records_ok_def removal_def hasInheritedRoute_def)
    show ?thesis
    proof (rule step [OF refl, of "\<lambda>e. remove_at (?it e) (re_inherited e)"])
      show "modifyInheritedRoutes (u # us) b = modifyInheritedRoutes us (update_entry ?n (\<lambda>e. e\<lparr>re_inherited := remove_at (?it e) (re_inherited e)\<rparr>) b)"
        using UNREGISTER Rib_find_entry [OF n] h update_const [OF rib_okD(1) [OF Cons.prems(1)] Rib_find_entry [OF n], of "\<lambda>e. e\<lparr>re_inherited := remove_at (?it e) (re_inherited e)\<rparr>"]
        by (simp add: removeInheritedRoute_from_def Let_def)
      show "g \<in> rt_faceId ` set (remove_at (?it (entry_at b ?n)) (re_inherited (entry_at b ?n)))"
        if "g \<in> rt_faceId ` set (re_inherited (entry_at b ?n))" "removal u \<longrightarrow> g \<noteq> rt_faceId ?r" for g
        using that find_if_hit [OF h] remove_at_faces [of "?it (entry_at b ?n)" "re_inherited (entry_at b ?n)" "rt_faceId ?r"] UNREGISTER
        by (auto simp: removal_def)
    qed
  next
    case REMOVE_FACE
    then show ?thesis using Cons.prems(2) by (simp add: records_ok_def)
  qed
qed simp

section \<open>Commands and their answers\<close>

text \<open>The answers of the forwarder to commands, all of them successes, in the order they come.\<close>

fun answers :: "queue_item \<Rightarrow> fib_update list \<Rightarrow> rib_system \<Rightarrow> rib_system res option" where
  "answers item [] y = Some (Inr y)"
| "answers item (u # us) y =
     (case onUpdateSuccess item u y of
        None \<Rightarrow> None | Some (Inl e) \<Rightarrow> Some (Inl e) | Some (Inr y') \<Rightarrow> answers item us y')"

lemma answers_append:
  "answers item (us @ vs) y = (case answers item us y of None \<Rightarrow> None | Some (Inl e) \<Rightarrow> Some (Inl e) | Some (Inr y') \<Rightarrow> answers item vs y')"
  by (induction us arbitrary: y) (auto split: option.split sum.split)

definition set_batch_updates :: "fib_update list \<Rightarrow> rib_system \<Rightarrow> rib_system" where
  "set_batch_updates us y = y\<lparr>sy_updater := (sy_updater y)\<lparr>fu_forBatchFaceId := us\<rparr>\<rparr>"

definition set_nonBatch_updates :: "fib_update list \<Rightarrow> rib_system \<Rightarrow> rib_system" where
  "set_nonBatch_updates us y = y\<lparr>sy_updater := (sy_updater y)\<lparr>fu_forNonBatchFaceId := us\<rparr>\<rparr>"

text \<open>The answers for the face of the batch, in any order: the last one sends the other commands.\<close>

lemma batch_answers:
  assumes "\<forall>u \<in> set us. fb_faceId u = fu_batchFaceId (sy_updater y)" and "distinct us" and "us \<noteq> []"
    and "set (fu_forBatchFaceId (sy_updater y)) = set us"
  shows "answers item us y = sendUpdatesForNonBatchFaceId item (set_batch_updates [] y)"
  using assms
proof (induction us arbitrary: y)
  case (Cons u us)
  let ?l = "removeAll u (fu_forBatchFaceId (sy_updater y))"
  have l: "set ?l = set us" using Cons.prems(2,4) by auto
  show ?case
  proof (cases "us = []")
    case True
    then have "?l = []" using l by (simp only: set_empty list.set)
    then have "onUpdateSuccess item u y = sendUpdatesForNonBatchFaceId item (set_batch_updates [] y)"
      using Cons.prems(1) by (simp add: onUpdateSuccess_def set_batch_updates_def Let_def)
    then show ?thesis using True by (simp split: option.split sum.split)
  next
    case False
    then have "?l \<noteq> []" using l by (metis set_empty)
    then have "onUpdateSuccess item u y = Some (Inr (set_batch_updates ?l y))"
      using Cons.prems(1) by (simp add: onUpdateSuccess_def set_batch_updates_def Let_def)
    moreover have "answers item us (set_batch_updates ?l y) = sendUpdatesForNonBatchFaceId item (set_batch_updates [] (set_batch_updates ?l y))"
      by (rule Cons.IH) (use Cons.prems(1,2) False l in \<open>auto simp: set_batch_updates_def\<close>)
    ultimately show ?thesis by (simp add: set_batch_updates_def)
  qed
qed simp

lemma nonBatch_answers:
  assumes "\<forall>u \<in> set us. fb_faceId u \<noteq> fu_batchFaceId (sy_updater y)" and "distinct us" and "us \<noteq> []"
    and "set (fu_forNonBatchFaceId (sy_updater y)) = set us"
  shows "answers item us y = onFibUpdateSuccess item (set_nonBatch_updates [] y)"
  using assms
proof (induction us arbitrary: y)
  case (Cons u us)
  let ?l = "removeAll u (fu_forNonBatchFaceId (sy_updater y))"
  have l: "set ?l = set us" using Cons.prems(2,4) by auto
  show ?case
  proof (cases "us = []")
    case True
    then have "?l = []" using l by (simp only: set_empty list.set)
    then have "onUpdateSuccess item u y = onFibUpdateSuccess item (set_nonBatch_updates [] y)"
      using Cons.prems(1) by (simp add: onUpdateSuccess_def forget_nonBatch_update_def set_nonBatch_updates_def Let_def)
    then show ?thesis using True by (simp split: option.split sum.split)
  next
    case False
    then have "?l \<noteq> []" using l by (metis set_empty)
    then have "onUpdateSuccess item u y = Some (Inr (set_nonBatch_updates ?l y))"
      using Cons.prems(1) by (simp add: onUpdateSuccess_def forget_nonBatch_update_def set_nonBatch_updates_def Let_def)
    moreover have "answers item us (set_nonBatch_updates ?l y) = onFibUpdateSuccess item (set_nonBatch_updates [] (set_nonBatch_updates ?l y))"
      by (rule Cons.IH) (use Cons.prems(1,2) False l in \<open>auto simp: set_nonBatch_updates_def\<close>)
    ultimately show ?thesis by (simp add: set_nonBatch_updates_def)
  qed
qed simp

lemma sendUpdates_fields [simp]:
  "sy_rib (sendUpdates item us y) = sy_rib y" "sy_updater (sendUpdates item us y) = sy_updater y" "sy_queue (sendUpdates item us y) = sy_queue y"
  "sy_inProgress (sendUpdates item us y) = sy_inProgress y" "sy_notified (sendUpdates item us y) = sy_notified y"
  by (simp_all add: sendUpdates_def) (induction us arbitrary: y, simp_all add: send_command_def)+

lemma sendUpdates_commands:
  "sy_commands (sendUpdates item us y) = sy_commands y @ map (\<lambda>u. \<lparr>cm_update = u, cm_isAdd = (fb_action u = ADD_NEXTHOP), cm_nTimeouts = 0, cm_item = item\<rparr>) us"
  unfolding sendUpdates_def by (induction us arbitrary: y) (simp_all add: send_command_def)

lemma updater_ok_distinct: "updater_ok s \<Longrightarrow> distinct (fu_forBatchFaceId s) \<and> distinct (fu_forNonBatchFaceId s)"
  by (simp add: updater_ok_def distinct_map)

text \<open>All the answers of one batch, first those for its face, then the others.\<close>

lemma all_answers:
  assumes s: "updater_ok (sy_updater y)" and us: "mset us = mset (fu_forBatchFaceId (sy_updater y))" and vs: "mset vs = mset (fu_forNonBatchFaceId (sy_updater y))"
    and "us \<noteq> []"
  shows "answers item (us @ vs) y
     = onFibUpdateSuccess item (set_nonBatch_updates [] (sendUpdates item (fu_forNonBatchFaceId (sy_updater y)) (set_batch_updates [] y)))"
proof -
  let ?y = "set_batch_updates [] y" and ?l = "fu_forNonBatchFaceId (sy_updater y)"
  have l: "fu_forNonBatchFaceId (sy_updater ?y) = ?l" by (simp add: set_batch_updates_def)
  have U: "distinct us" "set us = set (fu_forBatchFaceId (sy_updater y))" "distinct vs" "set vs = set ?l"
    using updater_ok_distinct [OF s] mset_eq_imp_distinct_iff [OF us] mset_eq_imp_distinct_iff [OF vs] mset_eq_setD [OF us] mset_eq_setD [OF vs] by simp_all
  have f: "\<forall>u \<in> set us. fb_faceId u = fu_batchFaceId (sy_updater y)" "\<forall>u \<in> set vs. fb_faceId u \<noteq> fu_batchFaceId (sy_updater y)"
    using s unfolding U(2,4) by (simp_all add: updater_ok_def)
  have a: "answers item us y = sendUpdatesForNonBatchFaceId item ?y"
    by (rule batch_answers [OF f(1) U(1) assms(4)]) (simp add: U(2))
  show ?thesis
  proof (cases "vs = []")
    case True
    have v: "?l = []" using True vs by simp
    have "set_nonBatch_updates [] (sendUpdates item ?l ?y) = ?y" using v by (cases "sy_updater y") (simp add: sendUpdates_def set_nonBatch_updates_def set_batch_updates_def)
    then show ?thesis using a True v l by (simp add: sendUpdatesForNonBatchFaceId_def)
  next
    case False
    then have "?l \<noteq> []" using vs by auto
    then have "answers item us y = Some (Inr (sendUpdates item ?l ?y))" using a l by (simp add: sendUpdatesForNonBatchFaceId_def)
    moreover have "answers item vs (sendUpdates item ?l ?y) = onFibUpdateSuccess item (set_nonBatch_updates [] (sendUpdates item ?l ?y))"
      by (rule nonBatch_answers [OF _ U(3) False]) (use f(2) U(4) in \<open>simp_all add: set_batch_updates_def\<close>)
    ultimately show ?thesis by (simp add: answers_append)
  qed
qed

section \<open>A new prefix from the queue to the table\<close>

lemma records_new_table:
  assumes "records_ok b (insert n (names_in b)) us" and "n \<notin> names_in b" and "\<forall>m \<in> names_in b. re_inherited (entry_at b' m) = re_inherited (entry_at b m)"
  shows "records_ok b' (insert n (names_in b)) us"
proof -
  have "entry_at b n = RibEntry_new n" using assms(2) by (simp add: entry_at_def names_in_def)
  then have "\<not> hasInheritedRoute (entry_at b n) r" for r by (simp add: hasInheritedRoute_face RibEntry_new_def)
  then have "hasInheritedRoute (entry_at b' m) r" if "hasInheritedRoute (entry_at b m) r" "m \<in> insert n (names_in b)" for m r
    using that assms(3) by (cases "m = n") (auto simp: hasInheritedRoute_def)
  then show ?thesis using assms(1) by (simp add: records_ok_def)
qed

definition register_item :: "full_name \<Rightarrow> route \<Rightarrow> nat \<Rightarrow> queue_item" where
  "register_item n r k = \<lparr>qi_batch = \<lparr>bt_faceId = rt_faceId r, bt_updates = [\<lparr>ru_action = REGISTER, ru_name = n, ru_route = r\<rparr>]\<rparr>, qi_callback = Some k\<rparr>"

lemma new_prefix_begins:
  assumes "rib_ok (sy_rib y)" and "in_sync (sy_rib y)" and "Rib_find (sy_rib y) n = None" and "sy_queue y = []" and "\<not> sy_inProgress y"
  shows "\<exists>s. beginApplyUpdate \<lparr>ru_action = REGISTER, ru_name = n, ru_route = r\<rparr> (Some k) y
       = Some (Inr (sendUpdates (register_item n r k) (fu_forBatchFaceId s) (y\<lparr>sy_inProgress := True, sy_updater := s\<rparr>)))
     \<and> updater_ok s \<and> fu_batchFaceId s = rt_faceId r \<and> fu_forBatchFaceId s \<noteq> [] \<and> records_ok (sy_rib y) (insert n (names_in (sy_rib y))) (fu_inherited s)
     \<and> (\<forall>u \<in> set (all_updates s). fb_faceId u = rt_faceId r \<or> fb_faceId u \<in> route_faces (sy_rib y))
     \<and> (\<forall>b'. names_in b' = insert n (names_in (sy_rib y))
          \<and> (\<forall>m \<in> names_in b'. re_routes (entry_at b' m) = (if m = n then [r] else re_routes (entry_at (sy_rib y) m)))
          \<longrightarrow> apply_commands (all_updates s) (fib_of (sy_rib y)) = fib_of b')"
proof -
  let ?b = "sy_rib y" and ?cs = "new_prefix_children (sy_rib y) n"
  have n: "n \<notin> names_in ?b" using assms(3) by (simp add: names_in_def)
  note cs = new_children [OF assms(1) n, folded new_prefix_children_def]
  obtain s U where s: "createFibUpdatesForNewRibEntry ?b n r ?cs (FibUpdater_new (rt_faceId r)) = Some s" "plan_ok s U" "U n (rt_faceId r) \<noteq> None"
    "\<forall>u \<in> set (all_updates s). fb_faceId u = rt_faceId r \<or> fb_faceId u \<in> route_faces ?b"
    "\<forall>b'. names_in b' = insert n (names_in ?b) \<and> (\<forall>m \<in> names_in b'. re_routes (entry_at b' m) = (if m = n then [r] else re_routes (entry_at ?b m)))
      \<longrightarrow> apply_commands (all_updates s) (fib_of ?b) = fib_of b'"
    using new_prefix_plan [OF assms(1-3), of r] by blast
  have "set ?cs \<subseteq> names_in ?b" using cs(1) by blast
  note rec = new_entry_recorded [OF assms(1) n this cs(2) _ s(1)]
  have anc: "\<exists>anc. getAncestorRoutes_name ?b n = Some anc \<and> routes_ok anc" using in_sync_ancestors [OF assms(1,2)] by blast
  have ok: "updater_ok s" "planned s = U" using s(2) by (simp_all add: plan_ok_def)
  have "fu_forBatchFaceId s \<noteq> []"
  proof
    assume e: "fu_forBatchFaceId s = []"
    have "List.find (\<lambda>x. update_key x = (n, rt_faceId r)) (fu_forNonBatchFaceId s) = None"
      by (rule find_no_key) (use ok(1) rec(3) [OF anc] in \<open>auto simp: updater_ok_def\<close>)
    then show False using s(3) e by (simp add: ok(2) [symmetric] planned_def all_updates_def)
  qed
  moreover have "computeUpdates ?b [\<lparr>ru_action = REGISTER, ru_name = n, ru_route = r\<rparr>] (FibUpdater_new (rt_faceId r)) = Some (Inr s)"
    using s(1) assms(3) by (simp add: computeUpdatesForRegistration_def Let_def new_prefix_children_def)
  then have "beginApplyUpdate \<lparr>ru_action = REGISTER, ru_name = n, ru_route = r\<rparr> (Some k) y
       = Some (Inr (sendUpdates (register_item n r k) (fu_forBatchFaceId s) (y\<lparr>sy_inProgress := True, sy_updater := s\<rparr>)))"
    using calculation rec(2) [OF anc] assms(4,5)
    by (cases y) (simp add: beginApplyUpdate_def addUpdateToQueue_def RibUpdateBatch_add_def register_item_def sendBatchFromQueue.simps Let_def)
  ultimately show ?thesis using ok(1) rec(1,3) [OF anc] s(4,5) by blast
qed

lemma new_prefix_finishes:
  assumes "rib_ok (sy_rib y)" and "Rib_find (sy_rib y) n = None" and "sy_queue y = []"
    and "records_ok (sy_rib y) (insert n (names_in (sy_rib y))) (fu_inherited (sy_updater y))"
  shows "\<exists>b'. onFibUpdateSuccess (register_item n r k) y = Some (Inr (y\<lparr>sy_rib := b', sy_inProgress := False, sy_notified := sy_notified y @ [(k, True)]\<rparr>))
     \<and> rib_ok b' \<and> routes_at b' = (routes_at (sy_rib y))(n := [r]) \<and> names_in b' = insert n (names_in (sy_rib y))
     \<and> (\<forall>m \<in> names_in b'. re_routes (entry_at b' m) = (if m = n then [r] else re_routes (entry_at (sy_rib y) m)))"
proof -
  let ?b = "sy_rib y"
  have n: "n \<notin> names_in ?b" using assms(2) by (simp add: names_in_def)
  obtain b1 where b1: "Rib_insert n r ?b = Inr b1" "rib_ok b1" "names_in b1 = insert n (names_in ?b)"
    "\<forall>m \<in> names_in b1. re_routes (entry_at b1 m) = (if m = n then [r] else re_routes (entry_at ?b m))"
    "\<forall>m \<in> names_in ?b. re_inherited (entry_at b1 m) = re_inherited (entry_at ?b m)"
    using Rib_insert_new [OF assms(1,2)] by blast
  have "records_ok b1 (names_in b1) (fu_inherited (sy_updater y))" using records_new_table [OF assms(4) n b1(5)] b1(3) by simp
  then obtain b2 where b2: "modifyInheritedRoutes (fu_inherited (sy_updater y)) b1 = Inr b2" "rib_ok b2" "same_routes b1 b2"
    using modifyInheritedRoutes_ok [OF b1(2)] by blast
  have r2: "names_in b2 = insert n (names_in ?b)" "\<forall>m \<in> names_in b2. re_routes (entry_at b2 m) = (if m = n then [r] else re_routes (entry_at ?b m))"
    using b2(3) b1(3,4) by (auto simp: same_routes_def)
  then have "routes_at b2 = (routes_at ?b)(n := [r])" by (auto simp: routes_at_entry fun_eq_iff)
  moreover have "onFibUpdateSuccess (register_item n r k) y = Some (Inr (y\<lparr>sy_rib := b2, sy_inProgress := False, sy_notified := sy_notified y @ [(k, True)]\<rparr>))"
    using assms(3) b1(1) b2(1) by (simp add: onFibUpdateSuccess_def finish_batch_def register_item_def notify_def sendBatchFromQueue.simps)
  ultimately show ?thesis using b2(2) r2 by blast
qed

lemma new_prefix_run:
  assumes "rib_ok (sy_rib y)" and "in_sync (sy_rib y)" and "Rib_find (sy_rib y) n = None" and "sy_queue y = []" and "\<not> sy_inProgress y"
  shows "\<exists>y1 us vs. beginApplyUpdate \<lparr>ru_action = REGISTER, ru_name = n, ru_route = r\<rparr> (Some k) y = Some (Inr y1)
     \<and> sy_inProgress y1 \<and> map cm_update (sy_commands y1) = map cm_update (sy_commands y) @ us
     \<and> us \<noteq> [] \<and> (\<forall>u \<in> set us. fb_faceId u = rt_faceId r) \<and> (\<forall>v \<in> set vs. fb_faceId v \<noteq> rt_faceId r)
     \<and> (\<forall>u \<in> set (us @ vs). fb_faceId u = rt_faceId r \<or> fb_faceId u \<in> route_faces (sy_rib y))
     \<and> (\<forall>us' vs'. mset us' = mset us \<and> mset vs' = mset vs \<longrightarrow>
         (\<exists>y2. answers (register_item n r k) (us' @ vs') y1 = Some (Inr y2)
            \<and> map cm_update (sy_commands y2) = map cm_update (sy_commands y) @ us @ vs
            \<and> \<not> sy_inProgress y2 \<and> sy_queue y2 = [] \<and> sy_notified y2 = sy_notified y @ [(k, True)]
            \<and> rib_ok (sy_rib y2) \<and> routes_at (sy_rib y2) = (routes_at (sy_rib y))(n := [r])
            \<and> apply_commands (us @ vs) (fib_of (sy_rib y)) = fib_of (sy_rib y2)))"
proof -
  let ?item = "register_item n r k"
  obtain s where s: "beginApplyUpdate \<lparr>ru_action = REGISTER, ru_name = n, ru_route = r\<rparr> (Some k) y
       = Some (Inr (sendUpdates ?item (fu_forBatchFaceId s) (y\<lparr>sy_inProgress := True, sy_updater := s\<rparr>)))"
    "updater_ok s" "fu_forBatchFaceId s \<noteq> []" "records_ok (sy_rib y) (insert n (names_in (sy_rib y))) (fu_inherited s)"
    "\<forall>u \<in> set (all_updates s). fb_faceId u = rt_faceId r \<or> fb_faceId u \<in> route_faces (sy_rib y)" "fu_batchFaceId s = rt_faceId r"
    and fib: "\<And>b'. names_in b' = insert n (names_in (sy_rib y)) \<Longrightarrow>
      \<forall>m \<in> names_in b'. re_routes (entry_at b' m) = (if m = n then [r] else re_routes (entry_at (sy_rib y) m)) \<Longrightarrow>
      apply_commands (all_updates s) (fib_of (sy_rib y)) = fib_of b'"
    using new_prefix_begins [OF assms, of r k] by metis
  define y1 where "y1 = sendUpdates ?item (fu_forBatchFaceId s) (y\<lparr>sy_inProgress := True, sy_updater := s\<rparr>)"
  define Y where "Y = set_nonBatch_updates [] (sendUpdates ?item (fu_forNonBatchFaceId s) (set_batch_updates [] y1))"
  have y1: "sy_updater y1 = s" "sy_rib y1 = sy_rib y" "sy_queue y1 = []" "sy_inProgress y1" using assms(4) by (simp_all add: y1_def)
  have Y: "sy_rib Y = sy_rib y" "sy_queue Y = []" "fu_inherited (sy_updater Y) = fu_inherited s" "sy_notified Y = sy_notified y"
    "map cm_update (sy_commands Y) = map cm_update (sy_commands y) @ fu_forBatchFaceId s @ fu_forNonBatchFaceId s"
    using assms(4) by (simp_all add: Y_def y1_def set_nonBatch_updates_def set_batch_updates_def sendUpdates_commands comp_def)
  obtain b' where b': "onFibUpdateSuccess ?item Y = Some (Inr (Y\<lparr>sy_rib := b', sy_inProgress := False, sy_notified := sy_notified Y @ [(k, True)]\<rparr>))"
    "rib_ok b'" "routes_at b' = (routes_at (sy_rib y))(n := [r])" "names_in b' = insert n (names_in (sy_rib y))"
    "\<forall>m \<in> names_in b'. re_routes (entry_at b' m) = (if m = n then [r] else re_routes (entry_at (sy_rib y) m))"
    using new_prefix_finishes [of Y n r k] assms(1,3) s(4) Y by auto
  have "answers ?item (us' @ vs') y1 = onFibUpdateSuccess ?item Y"
    if "mset us' = mset (fu_forBatchFaceId s)" "mset vs' = mset (fu_forNonBatchFaceId s)" for us' vs'
    unfolding Y_def y1(1) [symmetric] by (rule all_answers) (use that s(2,3) y1(1) in auto)
  moreover have "map cm_update (sy_commands y1) = map cm_update (sy_commands y) @ fu_forBatchFaceId s" by (simp add: y1_def sendUpdates_commands comp_def)
  moreover have "apply_commands (fu_forBatchFaceId s @ fu_forNonBatchFaceId s) (fib_of (sy_rib y)) = fib_of b'"
    using fib [OF b'(4,5)] by (simp add: all_updates_def)
  moreover have "\<forall>u \<in> set (fu_forBatchFaceId s @ fu_forNonBatchFaceId s). fb_faceId u = rt_faceId r \<or> fb_faceId u \<in> route_faces (sy_rib y)"
    using s(5) by (simp add: all_updates_def)
  moreover have "(\<forall>u \<in> set (fu_forBatchFaceId s). fb_faceId u = rt_faceId r) \<and> (\<forall>v \<in> set (fu_forNonBatchFaceId s). fb_faceId v \<noteq> rt_faceId r)"
    using s(2,6) by (simp add: updater_ok_def)
  ultimately show ?thesis using s(1,3) y1(4) b'(1-3) Y(2,4,5)
    by (intro exI [of _ y1] exI [of _ "fu_forBatchFaceId s"] exI [of _ "fu_forNonBatchFaceId s"]) (simp add: y1_def)
qed

section \<open>Properties\<close>

text \<open>
  C28: computing the FIB updates of a batch ends. On a well-formed table the walks up the parents and down
  the children that the updater makes for each registration, unregistration and destroyed face come to
  an end, whatever the batch and whatever updates the updater already holds.
\<close>

theorem computeUpdates_ends:
  assumes "rib_ok b"
  shows "\<exists>x. computeUpdates b us s = Some x"
proof (induction us arbitrary: s)
  case (Cons u us)
  obtain x where x: "(case ru_action u of REGISTER \<Rightarrow> computeUpdatesForRegistration b u s
      | UNREGISTER \<Rightarrow> map_option Inr (computeUpdatesForUnregistration b u s)
      | REMOVE_FACE \<Rightarrow> map_option (\<lambda>s1. Inr (s1\<lparr>fu_forBatchFaceId := []\<rparr>)) (computeUpdatesForUnregistration b u s)) = Some x"
    using registration_ends [OF assms, of u s] unregistration_ends [OF assms, of u s] by (cases "ru_action u") auto
  then show ?case using Cons by (cases x) (simp_all only: computeUpdates.simps option.case sum.case, simp_all)
qed simp

theorem computeUpdates_ends_witness:
  "\<exists>b. Rib_insert [Component 8 [97]] (example_route 1 0 1 10) Rib_new = Inr b
     \<and> (\<exists>x. computeUpdates b [\<lparr>ru_action = UNREGISTER, ru_name = [Component 8 [97]], ru_route = example_route 1 0 1 10\<rparr>] (FibUpdater_new 1) = Some x)"
  using Rib_insert_ok [OF Rib_new_ok(1), of "[Component 8 [97]]" "example_route 1 0 1 10"] computeUpdates_ends by blast

text \<open>
  C5: a route registered for a new name brings the forwarder's FIB in line with the table. The system is
  idle, its table is well formed, no entry has two routes of one face, the counts of capture routes are
  true and the inherited routes on record are those that the names inherit. The registration sends
  commands for the face of the route only, at least one; when the forwarder has accepted them, in
  whatever order, the commands for other faces, and no more for this one, go out; and when these are
  accepted, in whatever order, no assertion has failed, the route is in the table, which is well formed,
  the manager is told of the success once and the system is idle. The commands turn the FIB of the old
  table into that of the new one: for every name and face the cheapest route of the name for the face,
  or else the route of the nearest ancestor that hands one down for the face with no capturing entry in
  between.
\<close>

theorem register_new_prefix_completes:
  assumes "rib_ok (sy_rib y)" and "in_sync (sy_rib y)" and "Rib_find (sy_rib y) n = None" and "sy_queue y = []" and "\<not> sy_inProgress y"
  shows "\<exists>y1 us vs. beginApplyUpdate \<lparr>ru_action = REGISTER, ru_name = n, ru_route = r\<rparr> (Some k) y = Some (Inr y1)
     \<and> sy_inProgress y1 \<and> map cm_update (sy_commands y1) = map cm_update (sy_commands y) @ us
     \<and> us \<noteq> [] \<and> (\<forall>u \<in> set us. fb_faceId u = rt_faceId r) \<and> (\<forall>v \<in> set vs. fb_faceId v \<noteq> rt_faceId r)
     \<and> (\<forall>us' vs'. mset us' = mset us \<and> mset vs' = mset vs \<longrightarrow>
         (\<exists>y2. answers (register_item n r k) (us' @ vs') y1 = Some (Inr y2)
            \<and> map cm_update (sy_commands y2) = map cm_update (sy_commands y) @ us @ vs
            \<and> \<not> sy_inProgress y2 \<and> sy_queue y2 = [] \<and> sy_notified y2 = sy_notified y @ [(k, True)]
            \<and> rib_ok (sy_rib y2) \<and> routes_at (sy_rib y2) = (routes_at (sy_rib y))(n := [r])
            \<and> apply_commands (us @ vs) (fib_of (sy_rib y)) = fib_of (sy_rib y2)))"
  using new_prefix_run [OF assms, of r k] by blast

definition idle_system :: "rib \<Rightarrow> rib_system" where
  "idle_system b = \<lparr>sy_rib = b, sy_updater = FibUpdater_new 0, sy_queue = [], sy_inProgress = False, sy_commands = [], sy_notified = []\<rparr>"

theorem register_new_prefix_completes_witness:
  "\<exists>b y1 us vs. Rib_insert [Component 8 [97]] (example_route 1 0 1 10) Rib_new = Inr b
     \<and> beginApplyUpdate \<lparr>ru_action = REGISTER, ru_name = [Component 8 [97], Component 8 [98]], ru_route = example_route 2 0 0 20\<rparr> (Some 7) (idle_system b) = Some (Inr y1)
     \<and> map cm_update (sy_commands y1) = us
     \<and> (\<exists>y2. answers (register_item [Component 8 [97], Component 8 [98]] (example_route 2 0 0 20) 7) (us @ vs) y1 = Some (Inr y2)
          \<and> \<not> sy_inProgress y2 \<and> sy_notified y2 = [(7, True)] \<and> apply_commands (us @ vs) (fib_of b) = fib_of (sy_rib y2))"
proof -
  let ?r = "example_route 1 0 1 10" and ?n = "[Component 8 [97], Component 8 [98]]"
  obtain b where b: "Rib_insert [Component 8 [97]] ?r Rib_new = Inr b" "rib_ok b" and t: "rb_table b = [([Component 8 [97]], fst (insertRoute (RibEntry_new [Component 8 [97]]) ?r))]"
    using insert_first [of "[Component 8 [97]]" ?r] Rib_insert_ok [OF Rib_new_ok(1), of "[Component 8 [97]]" ?r] by auto
  have i: "rib_ok (sy_rib (idle_system b))" "in_sync (sy_rib (idle_system b))" "Rib_find (sy_rib (idle_system b)) ?n = None"
    "sy_queue (idle_system b) = []" "\<not> sy_inProgress (idle_system b)"
    using b(2) one_entry_in_sync [OF t] one_entry(2) [OF t] by (simp_all add: idle_system_def)
  have e: "sy_rib (idle_system b) = b" "sy_commands (idle_system b) = []" "sy_notified (idle_system b) = []" by (simp_all add: idle_system_def)
  obtain y1 us vs where y1: "beginApplyUpdate \<lparr>ru_action = REGISTER, ru_name = ?n, ru_route = example_route 2 0 0 20\<rparr> (Some 7) (idle_system b) = Some (Inr y1)"
    "map cm_update (sy_commands y1) = us"
    and all: "\<forall>us' vs'. mset us' = mset us \<and> mset vs' = mset vs \<longrightarrow>
         (\<exists>y2. answers (register_item ?n (example_route 2 0 0 20) 7) (us' @ vs') y1 = Some (Inr y2)
            \<and> map cm_update (sy_commands y2) = us @ vs
            \<and> \<not> sy_inProgress y2 \<and> sy_queue y2 = [] \<and> sy_notified y2 = [(7, True)]
            \<and> rib_ok (sy_rib y2) \<and> routes_at (sy_rib y2) = (routes_at b)(?n := [example_route 2 0 0 20])
            \<and> apply_commands (us @ vs) (fib_of b) = fib_of (sy_rib y2))"
    using register_new_prefix_completes [OF i, of "example_route 2 0 0 20" 7] unfolding e by auto
  show ?thesis using b(1) y1 all [rule_format, of us vs] by blast
qed

end
