(* ===== verification/FibDefects.thy ===== *)
theory FibDefects
  imports FibProtocol
begin

text \<open>
  Where the FIB updater goes wrong: an entry with two routes of the same face, from different origins.
\<close>

section \<open>An entry with two routes of one face\<close>

lemma insert_two:
  assumes "route_key r2 \<noteq> route_key r1" and "\<not> isCapture r1" and "\<not> isCapture r2"
  shows "\<exists>b1 b2 e. Rib_insert n r1 Rib_new = Inr b1 \<and> Rib_insert n r2 b1 = Inr b2 \<and> rb_table b2 = [(n, e)] \<and> re_name e = n
     \<and> re_routes e = [r1, r2] \<and> re_nCapture e = 0 \<and> re_parent e = None \<and> re_children e = [] \<and> re_inherited e = []"
proof -
  define e1 where "e1 = fst (insertRoute (RibEntry_new n) r1)"
  define e2 where "e2 = e1\<lparr>re_routes := [r1, r2]\<rparr>"
  have e1: "re_routes e1 = [r1]" "re_nCapture e1 = 0" "re_parent e1 = None" "re_children e1 = []" "re_inherited e1 = []" "re_name e1 = n"
    using assms(2) by (simp_all add: e1_def insertRoute_def findRoute_def find_if_def RibEntry_new_def)
  obtain b1 where b1: "Rib_insert n r1 Rib_new = Inr b1" "rb_table b1 = [(n, e1)]" using insert_first [of n r1] by (auto simp: e1_def)
  have "findRoute e1 r2 = 1" using assms(1) by (auto simp: findRoute_def find_if_def e1(1) compare_key)
  then have i: "insertRoute e1 r2 = (e2, 1, True)" using assms(3) e1(1) by (simp add: insertRoute_def e2_def)
  have "\<exists>b2. Rib_insert n r2 b1 = Inr b2 \<and> rb_table b2 = [(n, e2)]"
    using one_entry(1,7) [OF b1(2)] i by (simp add: Rib_insert_def)
  then show ?thesis using b1(1) e1 by (auto simp: e2_def)
qed

section \<open>Properties\<close>

text \<open>
  C38: raising the cost of the cheaper of two routes crashes the updater. When an entry has two routes of
  one face, neither handed down to children, and the cheaper one is registered again with a cost above
  that of the other, the updater looks for the route to install among those with child inheritance,
  finds none and dereferences a null pointer.
\<close>

theorem cost_update_null_pointer:
  assumes "Rib_find b n = Some e" and "re_routes e = [r1, r2]" and "rt_faceId r1 = rt_faceId r2" and "route_key r = route_key r1"
    and "rt_cost r1 < rt_cost r2" and "rt_cost r2 < rt_cost r" and "\<not> isChildInherit r" and "\<not> isChildInherit r2"
  shows "computeUpdatesForRegistration b \<lparr>ru_action = REGISTER, ru_name = n, ru_route = r\<rparr> s = Some (Inl (UndefinedBehaviour ''null pointer''))"
proof -
  have f: "findRoute e r = 0" using assms(2,4) by (simp add: findRoute_def find_if_def compare_key)
  have k: "rt_faceId r = rt_faceId r2" using assms(3,4) by (simp add: route_key_def)
  let ?e = "e\<lparr>re_routes := [r1\<lparr>rt_flags := rt_flags r, rt_cost := rt_cost r, rt_expires := rt_expires r\<rparr>, r2]\<rparr>"
  have "getRouteWithLowestCostByFaceId ?e (rt_faceId r) = Some r2" using assms(3,6) k by (simp add: getRouteWithLowestCostByFaceId_def)
  moreover have "getRouteWithLowestCostAndChildInheritByFaceId ?e (rt_faceId r) = None"
    using assms(7,8) by (simp add: getRouteWithLowestCostAndChildInheritByFaceId_def isChildInherit_def)
  ultimately have "update_for_cost ?e r r1 s = Inl (UndefinedBehaviour ''null pointer'')" using assms(5,6) by (simp add: update_for_cost_def)
  moreover have "rt_cost r \<noteq> rt_cost r1" using assms(5,6) by auto
  ultimately have "createFibUpdatesForUpdatedRoute b ?e r r1 s = Some (Inl (UndefinedBehaviour ''null pointer''))"
    by (simp add: createFibUpdatesForUpdatedRoute_def Let_def)
  then show ?thesis using assms(1,2) f by (simp add: computeUpdatesForRegistration_def Let_def)
qed

theorem cost_update_null_pointer_witness:
  "\<exists>b1 b2. Rib_insert [Component 8 [97]] (example_route 1 0 0 5) Rib_new = Inr b1 \<and> Rib_insert [Component 8 [97]] (example_route 1 255 0 10) b1 = Inr b2
     \<and> computeUpdatesForRegistration b2 \<lparr>ru_action = REGISTER, ru_name = [Component 8 [97]], ru_route = example_route 1 0 0 20\<rparr> (FibUpdater_new 1)
       = Some (Inl (UndefinedBehaviour ''null pointer''))"
proof -
  have r: "route_key (example_route 1 255 0 10) \<noteq> route_key (example_route 1 0 0 5)" "\<not> isCapture (example_route 1 0 0 5)" "\<not> isCapture (example_route 1 255 0 10)"
    by (simp_all add: route_key_def example_route_def isCapture_def)
  obtain b1 b2 e where b: "Rib_insert [Component 8 [97]] (example_route 1 0 0 5) Rib_new = Inr b1" "Rib_insert [Component 8 [97]] (example_route 1 255 0 10) b1 = Inr b2"
    "rb_table b2 = [([Component 8 [97]], e)]" "re_routes e = [example_route 1 0 0 5, example_route 1 255 0 10]" using insert_two [OF r] by blast
  have "computeUpdatesForRegistration b2 \<lparr>ru_action = REGISTER, ru_name = [Component 8 [97]], ru_route = example_route 1 0 0 20\<rparr> (FibUpdater_new 1)
       = Some (Inl (UndefinedBehaviour ''null pointer''))"
    by (rule cost_update_null_pointer [OF one_entry(1) [OF b(3)] b(4)]) (simp_all add: example_route_def route_key_def isChildInherit_def)
  then show ?thesis using b(1,2) by blast
qed

text \<open>
  C39: unregistering the costlier of two routes of one face takes the next hop away, here in a table
  with these two routes only, none of them a capture route and the costlier one without child
  inheritance. The updater removes the next hop and then considers the second cheapest route of the
  entry before the removal, which is the removed route itself; as the remaining route is cheaper, the
  next hop is not added again, although the remaining route asks for it.
\<close>

theorem unregister_costlier_loses_next_hop:
  assumes "route_key r2 \<noteq> route_key r1" and "rt_faceId r2 = rt_faceId r1" and "rt_cost r1 < rt_cost r2"
    and "\<not> isCapture r1" and "\<not> isCapture r2" and "\<not> isChildInherit r2"
  shows "\<exists>b1 b2 b3 s. Rib_insert n r1 Rib_new = Inr b1 \<and> Rib_insert n r2 b1 = Inr b2
     \<and> computeUpdatesForUnregistration b2 \<lparr>ru_action = UNREGISTER, ru_name = n, ru_route = r2\<rparr> (FibUpdater_new (rt_faceId r2)) = Some s
     \<and> Rib_erase n r2 b2 = Inr b3 \<and> routes_at b3 n = [r1] \<and> fib_of b3 n (rt_faceId r1) = Some (rt_cost r1)
     \<and> apply_commands (all_updates s) (fib_of b2) n (rt_faceId r1) = None"
proof -
  obtain b1 b2 e where b: "Rib_insert n r1 Rib_new = Inr b1" "Rib_insert n r2 b1 = Inr b2" "rb_table b2 = [(n, e)]" "re_name e = n"
    and e: "re_routes e = [r1, r2]" "re_nCapture e = 0" "re_parent e = None" "re_children e = []" using insert_two [OF assms(1,4,5)] by blast
  have f: "findRoute e r2 = 1" using e(1) assms(1) by (auto simp: findRoute_def find_if_def compare_key)
  define temp where "temp = e\<lparr>re_routes := [r1]\<rparr>"
  have er: "eraseRoute_at e 1 = (temp, rt_event r2)" using e(1) assms(5) by (simp add: eraseRoute_at_def temp_def remove_at_def)
  have "rib_ok b2" using b(1,2) Rib_insert_ok [OF Rib_new_ok(1), of n r1] Rib_insert_ok [of b1 n r2] by auto
  then obtain b3 where b3: "Rib_erase n r2 b2 = Inr b3" "routes_at b3 = (routes_at b2)(n := unregistered r2 (routes_at b2 n))"
    using Rib_erase_ok [of b2 n r2] by blast
  have r3: "routes_at b3 n = [r1]" using b3(2) one_entry(8) [OF b(3)] e(1) assms(1) by (auto simp: unregistered_def)
  then have "n \<in> names_in b3" "re_routes (entry_at b3 n) = [r1]" by (auto simp: routes_at_entry split: if_splits)
  then have "fib_of b3 n (rt_faceId r1) = Some (rt_cost r1)" by (simp add: fib_of_def getRouteWithLowestCostByFaceId_def)
  moreover have "getAncestorRoutes b2 temp = Some []" by (simp add: getAncestorRoutes_def temp_def e(3) ancestor_loop.simps)
  moreover define s0 where "s0 = log_cancelled (rt_event r2) (FibUpdater_new (rt_faceId r2))"
  moreover have "hasCapture e = False" "hasCapture temp = False" by (simp_all add: hasCapture_def temp_def e(2))
  ultimately have "createFibUpdatesForErasedRoute b2 temp r2 False s0 = Some (addFibUpdate (createRemoveUpdate n (rt_faceId r2)) s0)"
    using assms(5,6) b(4) by (simp add: createFibUpdatesForErasedRoute_def update_erased_inherits_def temp_def routes_find_def map_find_def lower_bound_def)
  moreover have "getRouteWithSecondLowestCostByFaceId e (rt_faceId r2) = Some r2"
    using e(1) assms(2,3) by (simp add: getRouteWithSecondLowestCostByFaceId_def Let_def)
  moreover have "createFibUpdatesForNewRoute b2 temp r2 False s1 = Some s1" for s1
    using assms(2,3,6) e(4) by (simp add: createFibUpdatesForNewRoute_def Let_def temp_def modify_Nil getRouteWithLowestCostByFaceId_def)
  ultimately have "computeUpdatesForUnregistration b2 \<lparr>ru_action = UNREGISTER, ru_name = n, ru_route = r2\<rparr> (FibUpdater_new (rt_faceId r2))
      = Some (addFibUpdate (createRemoveUpdate n (rt_faceId r2)) s0)"
    using one_entry(1) [OF b(3)] f er e(1) \<open>hasCapture e = False\<close> by (simp add: computeUpdatesForUnregistration_def eraseRoute_def Let_def s0_def)
  moreover have "apply_commands (all_updates (addFibUpdate (createRemoveUpdate n (rt_faceId r2)) s0)) g n (rt_faceId r1) = None" for g
    using assms(2) by (simp add: s0_def log_cancelled_def FibUpdater_new_def addFibUpdate_def createRemoveUpdate_def all_updates_def apply_commands_def
        apply_command_def split: option.split)
  ultimately show ?thesis using b(1,2) b3(1) r3 \<open>fib_of b3 n (rt_faceId r1) = Some (rt_cost r1)\<close> by blast
qed

theorem unregister_costlier_loses_next_hop_witness:
  "\<exists>b2 b3 s. computeUpdatesForUnregistration b2 \<lparr>ru_action = UNREGISTER, ru_name = [Component 8 [97]], ru_route = example_route 1 255 0 10\<rparr>
       (FibUpdater_new (rt_faceId (example_route 1 255 0 10))) = Some s
     \<and> Rib_erase [Component 8 [97]] (example_route 1 255 0 10) b2 = Inr b3
     \<and> fib_of b3 [Component 8 [97]] (rt_faceId (example_route 1 0 0 5)) = Some (rt_cost (example_route 1 0 0 5))
     \<and> apply_commands (all_updates s) (fib_of b2) [Component 8 [97]] (rt_faceId (example_route 1 0 0 5)) = None"
proof -
  have "route_key (example_route 1 255 0 10) \<noteq> route_key (example_route 1 0 0 5)" "rt_faceId (example_route 1 255 0 10) = rt_faceId (example_route 1 0 0 5)"
    "rt_cost (example_route 1 0 0 5) < rt_cost (example_route 1 255 0 10)" "\<not> isCapture (example_route 1 0 0 5)" "\<not> isCapture (example_route 1 255 0 10)"
    "\<not> isChildInherit (example_route 1 255 0 10)"
    by (simp_all add: route_key_def example_route_def isCapture_def isChildInherit_def)
  from unregister_costlier_loses_next_hop [OF this, of "[Component 8 [97]]"] show ?thesis by blast
qed

end
