(* ===== verification/NameTree.thy ===== *)
theory NameTree
  imports NameMap
begin

text \<open>
  The name tree of the forwarder, \<^verbatim>\<open>ndn/NFD/daemon/table/name-tree-hashtable.cpp\<close>, \<^verbatim>\<open>name-tree-entry.cpp\<close>
  and \<^verbatim>\<open>name-tree.cpp\<close>: a hash table of entries with chained buckets, in which every entry is linked to
  the entry of its name without the last component. The table has at most one node of a name, so a
  pointer to a node or to its entry is the name. A failed \<^verbatim>\<open>BOOST_ASSERT\<close> is an error.
\<close>

unbundle bit_operations_syntax

section \<open>Table entries\<close>

text \<open>Of the PIT, measurements and strategy entries attached to a name only the presence matters here.\<close>

record next_hop =
  nh_face :: u64
  nh_cost :: u64

record fib_entry =
  fe_prefix :: full_name
  fe_nextHops :: "next_hop list"

record nt_entry =
  ne_name :: full_name
  ne_parent :: "full_name option"
  ne_children :: "full_name list"
  ne_fibEntry :: "fib_entry option"
  ne_pitEntries :: "nat list"
  ne_measurements :: "nat option"
  ne_strategyChoice :: "nat option"

definition nt_entry_new :: "full_name \<Rightarrow> nt_entry" where
  "nt_entry_new n = \<lparr>ne_name = n, ne_parent = None, ne_children = [], ne_fibEntry = None, ne_pitEntries = [],
     ne_measurements = None, ne_strategyChoice = None\<rparr>"

definition hasTableEntries :: "nt_entry \<Rightarrow> bool" where
  "hasTableEntries e \<longleftrightarrow> ne_fibEntry e \<noteq> None \<or> ne_pitEntries e \<noteq> [] \<or> ne_measurements e \<noteq> None \<or> ne_strategyChoice e \<noteq> None"

definition ne_isEmpty :: "nt_entry \<Rightarrow> bool" where
  "ne_isEmpty e \<longleftrightarrow> ne_children e = [] \<and> \<not> hasTableEntries e"

section \<open>The hash table\<close>

text \<open>
  The hash of a component's wire and the products of the load factors with a number of buckets, which
  are floating point numbers cut to integers, are arguments.
\<close>

record ht_options =
  ho_compute :: "component \<Rightarrow> u64"
  ho_initialSize :: nat
  ho_minSize :: nat
  ho_expandThreshold :: "nat \<Rightarrow> nat"
  ho_expand :: "nat \<Rightarrow> nat"
  ho_shrinkThreshold :: "nat \<Rightarrow> nat"
  ho_shrink :: "nat \<Rightarrow> nat"

record nt_node =
  nd_hash :: u64
  nd_entry :: nt_entry

record hashtable =
  ht_options :: ht_options
  ht_buckets :: "nt_node list list"
  ht_size :: nat
  ht_expandThreshold :: nat
  ht_shrinkThreshold :: nat

abbreviation nd_name :: "nt_node \<Rightarrow> full_name" where
  "nd_name x \<equiv> ne_name (nd_entry x)"

definition hash_step :: "ht_options \<Rightarrow> u64 \<Rightarrow> component \<Rightarrow> u64" where
  "hash_step o' h c = h XOR ho_compute o' c"

definition computeHash :: "ht_options \<Rightarrow> full_name \<Rightarrow> nat \<Rightarrow> u64" where
  "computeHash o' n prefixLen = foldl (hash_step o') 0 (take prefixLen n)"

fun hash_sequence :: "ht_options \<Rightarrow> u64 \<Rightarrow> full_name \<Rightarrow> u64 list" where
  "hash_sequence o' h [] = [h]"
| "hash_sequence o' h (c # cs) = h # hash_sequence o' (hash_step o' h c) cs"

definition computeHashes :: "ht_options \<Rightarrow> full_name \<Rightarrow> u64 list" where
  "computeHashes o' n = hash_sequence o' 0 n"

definition computeThresholds :: "hashtable \<Rightarrow> hashtable" where
  "computeThresholds t = t\<lparr>ht_expandThreshold := ho_expandThreshold (ht_options t) (length (ht_buckets t)),
     ht_shrinkThreshold := ho_shrinkThreshold (ht_options t) (length (ht_buckets t))\<rparr>"

definition Hashtable_new :: "ht_options \<Rightarrow> hashtable" where
  "Hashtable_new o' = computeThresholds \<lparr>ht_options = o', ht_buckets = replicate (ho_initialSize o') [], ht_size = 0,
     ht_expandThreshold = 0, ht_shrinkThreshold = 0\<rparr>"

definition computeBucketIndex :: "hashtable \<Rightarrow> u64 \<Rightarrow> nat" where
  "computeBucketIndex t h = unat h mod length (ht_buckets t)"

definition attach :: "nat \<Rightarrow> nt_node \<Rightarrow> hashtable \<Rightarrow> hashtable" where
  "attach bucket x t = t\<lparr>ht_buckets := (ht_buckets t)[bucket := x # ht_buckets t ! bucket]\<rparr>"

definition detach :: "nat \<Rightarrow> nt_node \<Rightarrow> hashtable \<Rightarrow> hashtable res" where
  "detach bucket x t =
     (if nd_name x \<notin> set (map nd_name (ht_buckets t ! bucket)) then Inl (UndefinedBehaviour ''assertion failed: m_buckets[bucket] == node'')
      else Inr (t\<lparr>ht_buckets := (ht_buckets t)[bucket := filter (\<lambda>y. nd_name y \<noteq> nd_name x) (ht_buckets t ! bucket)]\<rparr>))"

definition attach_hashed :: "nt_node \<Rightarrow> hashtable \<Rightarrow> hashtable" where
  "attach_hashed x t = attach (computeBucketIndex t (nd_hash x)) x t"

definition resize :: "nat \<Rightarrow> hashtable \<Rightarrow> hashtable" where
  "resize newNBuckets t =
     (if length (ht_buckets t) = newNBuckets then t
      else computeThresholds (fold attach_hashed (concat (ht_buckets t)) (t\<lparr>ht_buckets := replicate newNBuckets []\<rparr>)))"

definition findOrInsert :: "full_name \<Rightarrow> nat \<Rightarrow> u64 \<Rightarrow> bool \<Rightarrow> hashtable \<Rightarrow> hashtable \<times> full_name option \<times> bool" where
  "findOrInsert n prefixLen h allowInsert t =
     (let bucket = computeBucketIndex t h
      in case List.find (\<lambda>x. nd_hash x = h \<and> nd_name x = take prefixLen n) (ht_buckets t ! bucket) of
           Some x \<Rightarrow> (t, Some (nd_name x), False)
         | None \<Rightarrow>
             if \<not> allowInsert then (t, None, False)
             else
               (let x = \<lparr>nd_hash = h, nd_entry = nt_entry_new (take prefixLen n)\<rparr>;
                    t1 = attach bucket x t;
                    t2 = t1\<lparr>ht_size := ht_size t1 + 1\<rparr>;
                    t3 = (if ht_size t2 > ht_expandThreshold t2 then resize (ho_expand (ht_options t2) (length (ht_buckets t2))) t2 else t2)
                in (t3, Some (nd_name x), True)))"

definition Hashtable_find :: "full_name \<Rightarrow> nat \<Rightarrow> hashtable \<Rightarrow> full_name option" where
  "Hashtable_find n prefixLen t = fst (snd (findOrInsert n prefixLen (computeHash (ht_options t) n prefixLen) False t))"

definition hash_at :: "full_name \<Rightarrow> nat \<Rightarrow> u64 list \<Rightarrow> hashtable \<Rightarrow> u64 res" where
  "hash_at n prefixLen hashes t =
     (if \<not> prefixLen < length hashes then Inl (StdError ''out_of_range'')
      else if hashes ! prefixLen \<noteq> computeHash (ht_options t) n prefixLen
      then Inl (UndefinedBehaviour ''assertion failed: hashes.at(prefixLen) == computeHash(name, prefixLen)'')
      else Inr (hashes ! prefixLen))"

definition Hashtable_find_hashes :: "full_name \<Rightarrow> nat \<Rightarrow> u64 list \<Rightarrow> hashtable \<Rightarrow> full_name option res" where
  "Hashtable_find_hashes n prefixLen hashes t =
     (case hash_at n prefixLen hashes t of Inl e \<Rightarrow> Inl e | Inr h \<Rightarrow> Inr (fst (snd (findOrInsert n prefixLen h False t))))"

definition Hashtable_insert :: "full_name \<Rightarrow> nat \<Rightarrow> u64 list \<Rightarrow> hashtable \<Rightarrow> (hashtable \<times> full_name option \<times> bool) res" where
  "Hashtable_insert n prefixLen hashes t =
     (case hash_at n prefixLen hashes t of Inl e \<Rightarrow> Inl e | Inr h \<Rightarrow> Inr (findOrInsert n prefixLen h True t))"

text \<open>The node behind a pointer, and a change of its entry.\<close>

definition ht_node :: "hashtable \<Rightarrow> full_name \<Rightarrow> nt_node option" where
  "ht_node t n = List.find (\<lambda>x. nd_name x = n) (concat (ht_buckets t))"

definition ht_entry :: "hashtable \<Rightarrow> full_name \<Rightarrow> nt_entry" where
  "ht_entry t n = (case ht_node t n of None \<Rightarrow> nt_entry_new n | Some x \<Rightarrow> nd_entry x)"

definition ht_update :: "full_name \<Rightarrow> (nt_entry \<Rightarrow> nt_entry) \<Rightarrow> hashtable \<Rightarrow> hashtable" where
  "ht_update n f t = t\<lparr>ht_buckets := map (map (\<lambda>x. if nd_name x = n then x\<lparr>nd_entry := f (nd_entry x)\<rparr> else x)) (ht_buckets t)\<rparr>"

definition Hashtable_erase :: "full_name \<Rightarrow> hashtable \<Rightarrow> hashtable res" where
  "Hashtable_erase n t =
     (case ht_node t n of
        None \<Rightarrow> Inl (UndefinedBehaviour ''assertion failed: node != nullptr'')
      | Some x \<Rightarrow>
          if ne_parent (nd_entry x) \<noteq> None then Inl (UndefinedBehaviour ''assertion failed: node->entry.getParent() == nullptr'')
          else case detach (computeBucketIndex t (nd_hash x)) x t of
            Inl e \<Rightarrow> Inl e
          | Inr t1 \<Rightarrow>
              (let t2 = t1\<lparr>ht_size := ht_size t1 - 1\<rparr>
               in Inr (if ht_size t2 < ht_shrinkThreshold t2
                       then resize (max (ho_minSize (ht_options t2)) (ho_shrink (ht_options t2) (length (ht_buckets t2)))) t2 else t2)))"

section \<open>The tree\<close>

definition nt_setParent :: "full_name \<Rightarrow> full_name \<Rightarrow> hashtable \<Rightarrow> hashtable res" where
  "nt_setParent n p t =
     (if ne_parent (ht_entry t n) \<noteq> None then Inl (UndefinedBehaviour ''assertion failed: this->getParent() == nullptr'')
      else if n = [] then Inl (UndefinedBehaviour ''assertion failed: !this->getName().empty()'')
      else if p \<noteq> butlast n then Inl (UndefinedBehaviour ''assertion failed: entry.getName() == this->getName().getPrefix(-1)'')
      else Inr (ht_update p (\<lambda>e. e\<lparr>ne_children := ne_children e @ [n]\<rparr>) (ht_update n (\<lambda>e. e\<lparr>ne_parent := Some p\<rparr>) t)))"

definition nt_unsetParent :: "full_name \<Rightarrow> hashtable \<Rightarrow> hashtable res" where
  "nt_unsetParent n t =
     (case ne_parent (ht_entry t n) of
        None \<Rightarrow> Inl (UndefinedBehaviour ''assertion failed: this->getParent() != nullptr'')
      | Some p \<Rightarrow>
          if n \<notin> set (ne_children (ht_entry t p)) then Inl (UndefinedBehaviour ''assertion failed: i != m_parent->m_children.end()'')
          else Inr (ht_update n (\<lambda>e. e\<lparr>ne_parent := None\<rparr>) (ht_update p (\<lambda>e. e\<lparr>ne_children := remove1 n (ne_children e)\<rparr>) t)))"

text \<open>The loop of \<^verbatim>\<open>lookup\<close> over the lengths of prefixes; the entry it returns is that of the last one.\<close>

fun lookup_loop :: "full_name \<Rightarrow> u64 list \<Rightarrow> nat list \<Rightarrow> full_name option \<Rightarrow> hashtable \<Rightarrow> hashtable res" where
  "lookup_loop n hashes [] parent t = Inr t"
| "lookup_loop n hashes (k # ks) parent t =
     (case Hashtable_insert n k hashes t of
        Inl e \<Rightarrow> Inl e
      | Inr (t1, node, isNew) \<Rightarrow>
          (case (case (isNew, parent) of (True, Some p) \<Rightarrow> nt_setParent (the node) p t1 | _ \<Rightarrow> Inr t1) of
             Inl e \<Rightarrow> Inl e
           | Inr t2 \<Rightarrow> lookup_loop n hashes ks node t2))"

definition NameTree_lookup :: "full_name \<Rightarrow> hashtable \<Rightarrow> hashtable res" where
  "NameTree_lookup n t = lookup_loop n (computeHashes (ht_options t) n) [0..<Suc (length n)] None t"

text \<open>Erasing an entry and its ancestors as long as they are empty; \<open>None\<close> is a loop that does not end.\<close>

partial_function (option) erase_loop :: "bool \<Rightarrow> full_name option \<Rightarrow> nat \<Rightarrow> hashtable \<Rightarrow> (hashtable \<times> nat) res option" where
  "erase_loop canEraseAncestors entry nErased t =
     (case entry of
        None \<Rightarrow> Some (Inr (t, nErased))
      | Some n \<Rightarrow>
          if \<not> ne_isEmpty (ht_entry t n) then Some (Inr (t, nErased))
          else
            (let parent = ne_parent (ht_entry t n)
             in case (case parent of None \<Rightarrow> Inr t | Some _ \<Rightarrow> nt_unsetParent n t) of
                  Inl e \<Rightarrow> Some (Inl e)
                | Inr t1 \<Rightarrow>
                    (case Hashtable_erase n t1 of
                       Inl e \<Rightarrow> Some (Inl e)
                     | Inr t2 \<Rightarrow>
                         if \<not> canEraseAncestors then Some (Inr (t2, nErased + 1))
                         else erase_loop canEraseAncestors parent (nErased + 1) t2)))"

definition eraseIfEmpty :: "full_name \<Rightarrow> bool \<Rightarrow> hashtable \<Rightarrow> (hashtable \<times> nat) res option" where
  "eraseIfEmpty n canEraseAncestors t = erase_loop canEraseAncestors (Some n) 0 t"

definition NameTree_findExactMatch :: "full_name \<Rightarrow> hashtable \<Rightarrow> full_name option" where
  "NameTree_findExactMatch n t = Hashtable_find n (length n) t"

fun longest_match_loop :: "(nt_entry \<Rightarrow> bool) \<Rightarrow> full_name \<Rightarrow> u64 list \<Rightarrow> nat list \<Rightarrow> hashtable \<Rightarrow> full_name option res" where
  "longest_match_loop selector n hashes [] t = Inr None"
| "longest_match_loop selector n hashes (k # ks) t =
     (case Hashtable_find_hashes n k hashes t of
        Inl e \<Rightarrow> Inl e
      | Inr node \<Rightarrow>
          if (case node of None \<Rightarrow> False | Some m \<Rightarrow> selector (ht_entry t m)) then Inr node
          else longest_match_loop selector n hashes ks t)"

definition findLongestPrefixMatch_name :: "(nt_entry \<Rightarrow> bool) \<Rightarrow> full_name \<Rightarrow> hashtable \<Rightarrow> full_name option res" where
  "findLongestPrefixMatch_name selector n t =
     longest_match_loop selector n (computeHashes (ht_options t) n) (rev [0..<Suc (length n)]) t"

partial_function (option) findLongestPrefixMatch_entry :: "(nt_entry \<Rightarrow> bool) \<Rightarrow> full_name option \<Rightarrow> hashtable \<Rightarrow> full_name option option" where
  "findLongestPrefixMatch_entry selector entry t =
     (case entry of
        None \<Rightarrow> Some None
      | Some n \<Rightarrow>
          if selector (ht_entry t n) then Some (Some n)
          else findLongestPrefixMatch_entry selector (ne_parent (ht_entry t n)) t)"

end
