(* ===== verification/HashTable.thy ===== *)
theory HashTable
  imports NameTree "HOL-Library.Multiset"
begin

text \<open>
  The hash table of the name tree is a map from names to entries, whatever the hash function, the load
  factors and the order of the chains.
\<close>

section \<open>Nodes and their places\<close>

definition nodes :: "hashtable \<Rightarrow> nt_node list" where
  "nodes t = concat (ht_buckets t)"

definition name_hash :: "ht_options \<Rightarrow> full_name \<Rightarrow> u64" where
  "name_hash o' n = foldl (hash_step o') 0 n"

definition options_ok :: "ht_options \<Rightarrow> bool" where
  "options_ok o' \<longleftrightarrow> 0 < ho_minSize o' \<and> ho_minSize o' \<le> ho_initialSize o' \<and> (\<forall>n > 0. 0 < ho_expand o' n)"

definition placed :: "hashtable \<Rightarrow> bool" where
  "placed t \<longleftrightarrow> (\<forall>i < length (ht_buckets t). \<forall>x \<in> set (ht_buckets t ! i). computeBucketIndex t (nd_hash x) = i)"

definition ht_ok :: "hashtable \<Rightarrow> bool" where
  "ht_ok t \<longleftrightarrow> options_ok (ht_options t) \<and> ht_buckets t \<noteq> [] \<and> placed t \<and> (\<forall>x \<in> set (nodes t). nd_hash x = name_hash (ht_options t) (nd_name x))
     \<and> distinct (map nd_name (nodes t)) \<and> ht_size t = length (nodes t)"

definition ht_map :: "hashtable \<Rightarrow> full_name \<Rightarrow> nt_entry option" where
  "ht_map t = map_of (map (\<lambda>x. (nd_name x, nd_entry x)) (nodes t))"

lemma ht_map_Some:
  assumes "ht_ok t"
  shows "ht_map t n = Some e \<longleftrightarrow> (\<exists>x \<in> set (nodes t). nd_name x = n \<and> nd_entry x = e)"
proof -
  have "distinct (map fst (map (\<lambda>x. (nd_name x, nd_entry x)) (nodes t)))" using assms by (simp add: ht_ok_def comp_def)
  from map_of_eq_Some_iff [OF this] show ?thesis by (auto simp: ht_map_def)
qed

lemma ht_map_None: "ht_map t n = None \<longleftrightarrow> n \<notin> nd_name ` set (nodes t)"
  by (auto simp: ht_map_def map_of_eq_None_iff image_iff)

lemma ht_map_name: "ht_map t n = Some e \<Longrightarrow> ne_name e = n"
  by (auto simp: ht_map_def dest!: map_of_SomeD)

lemma find_map_of: "map_option nd_entry (List.find (\<lambda>x. nd_name x = n) xs) = map_of (map (\<lambda>x. (nd_name x, nd_entry x)) xs) n"
  by (induction xs) auto

lemma ht_entry_map: "ht_entry t n = (case ht_map t n of None \<Rightarrow> nt_entry_new n | Some e \<Rightarrow> e)"
  using find_map_of [of n "nodes t"] by (auto simp: ht_entry_def ht_node_def ht_map_def nodes_def split: option.splits)

lemma same_nodes:
  assumes "mset (nodes t') = mset (nodes t)" and "ht_ok t" and "ht_ok t'"
  shows "ht_map t' = ht_map t"
proof
  fix n
  have "ht_map t' n = Some e \<longleftrightarrow> ht_map t n = Some e" for e
    unfolding ht_map_Some [OF assms(2)] ht_map_Some [OF assms(3)] mset_eq_setD [OF assms(1)] ..
  then show "ht_map t' n = ht_map t n" by (metis not_Some_eq)
qed

section \<open>Hashes of prefixes\<close>

lemma hash_sequence_at: "k \<le> length n \<Longrightarrow> k < length (hash_sequence o' h n) \<and> hash_sequence o' h n ! k = foldl (hash_step o') h (take k n)"
proof (induction n arbitrary: h k)
  case (Cons c n)
  then show ?case by (cases k) auto
qed simp

lemma hash_at_prefix: "k \<le> length n \<Longrightarrow> hash_at n k (computeHashes (ht_options t) n) t = Inr (name_hash (ht_options t) (take k n))"
  using hash_sequence_at [of k n "ht_options t" 0] by (simp add: hash_at_def computeHashes_def computeHash_def name_hash_def)

section \<open>Chains\<close>

lemma mset_concat_update: "i < length xss \<Longrightarrow> mset (concat (xss[i := ys])) + mset (xss ! i) = mset (concat xss) + mset ys"
proof (induction xss arbitrary: i)
  case (Cons xs xss)
  then show ?case by (cases i) (auto simp: ac_simps)
qed simp

lemma bucket_index: "ht_buckets t \<noteq> [] \<Longrightarrow> computeBucketIndex t h < length (ht_buckets t)"
  by (simp add: computeBucketIndex_def)

lemma attach_simps [simp]:
  "ht_options (attach i x t) = ht_options t" "length (ht_buckets (attach i x t)) = length (ht_buckets t)" "ht_size (attach i x t) = ht_size t"
  "computeBucketIndex (attach i x t) h = computeBucketIndex t h" "ht_buckets (attach i x t) = [] \<longleftrightarrow> ht_buckets t = []"
  by (simp_all add: attach_def computeBucketIndex_def)

lemma attach_nodes: "i < length (ht_buckets t) \<Longrightarrow> mset (nodes (attach i x t)) = add_mset x (mset (nodes t))"
  using mset_concat_update [of i "ht_buckets t" "x # ht_buckets t ! i"] by (simp add: nodes_def attach_def)

lemma placed_update:
  assumes "placed t" and "\<forall>y \<in> set l. computeBucketIndex t (nd_hash y) = j"
  shows "placed (t\<lparr>ht_buckets := (ht_buckets t)[j := l]\<rparr>)"
  unfolding placed_def
proof (intro allI impI ballI)
  let ?t = "t\<lparr>ht_buckets := (ht_buckets t)[j := l]\<rparr>"
  fix i y
  assume i: "i < length (ht_buckets ?t)" and y: "y \<in> set (ht_buckets ?t ! i)"
  have "y \<in> set (ht_buckets t ! i) \<or> (i = j \<and> y \<in> set l)" using i y by (cases "i = j") auto
  then show "computeBucketIndex ?t (nd_hash y) = i" using assms i by (auto simp: placed_def computeBucketIndex_def)
qed

lemma attach_placed:
  assumes "placed t" and "ht_buckets t \<noteq> []"
  shows "placed (attach (computeBucketIndex t (nd_hash x)) x t)"
  unfolding attach_def by (rule placed_update [OF assms(1)]) (use assms bucket_index [OF assms(2)] in \<open>auto simp: placed_def\<close>)

lemma rehash:
  "placed t \<Longrightarrow> ht_buckets t \<noteq> [] \<Longrightarrow> placed (fold attach_hashed xs t) \<and> mset (nodes (fold attach_hashed xs t)) = mset xs + mset (nodes t)
     \<and> ht_options (fold attach_hashed xs t) = ht_options t \<and> length (ht_buckets (fold attach_hashed xs t)) = length (ht_buckets t)
     \<and> ht_size (fold attach_hashed xs t) = ht_size t"
proof (induction xs arbitrary: t)
  case (Cons x xs)
  have "placed (attach_hashed x t)" "ht_buckets (attach_hashed x t) \<noteq> []" "mset (nodes (attach_hashed x t)) = add_mset x (mset (nodes t))"
    using attach_placed [OF Cons.prems] Cons.prems(2) attach_nodes [OF bucket_index [OF Cons.prems(2)]] by (simp_all add: attach_hashed_def)
  with Cons.IH [OF this(1,2)] show ?case by (simp add: attach_hashed_def)
qed simp

lemma thresholds_simps [simp]:
  "ht_options (computeThresholds t) = ht_options t" "ht_buckets (computeThresholds t) = ht_buckets t" "ht_size (computeThresholds t) = ht_size t"
  "nodes (computeThresholds t) = nodes t" "computeBucketIndex (computeThresholds t) h = computeBucketIndex t h" "placed (computeThresholds t) = placed t"
  by (simp_all add: computeThresholds_def nodes_def computeBucketIndex_def placed_def)

lemma nodes_length: "mset (nodes t') = mset (nodes t) \<Longrightarrow> length (nodes t') = length (nodes t)"
  by (metis size_mset)

lemma ht_ok_nodes:
  assumes "ht_ok t" and "mset (nodes t') = mset (nodes t)" and "ht_options t' = ht_options t" and "ht_buckets t' \<noteq> []" and "placed t'" and "ht_size t' = ht_size t"
  shows "ht_ok t'" "ht_map t' = ht_map t"
proof -
  have "distinct (map nd_name (nodes t'))" using assms(1) mset_eq_imp_distinct_iff [of "map nd_name (nodes t')" "map nd_name (nodes t)"] assms(2)
    by (simp add: ht_ok_def)
  then show "ht_ok t'" using assms mset_eq_setD [OF assms(2)] nodes_length [OF assms(2)] by (simp add: ht_ok_def)
  from same_nodes [OF assms(2,1) this] show "ht_map t' = ht_map t" .
qed

lemma resize_ok:
  assumes "ht_ok t" and "0 < k"
  shows "ht_ok (resize k t)" "ht_map (resize k t) = ht_map t" "ht_options (resize k t) = ht_options t"
proof -
  let ?e = "t\<lparr>ht_buckets := replicate k []\<rparr>"
  have e: "placed ?e" "ht_buckets ?e \<noteq> []" "nodes ?e = []" using assms(2) by (auto simp: placed_def nodes_def)
  note r = rehash [OF e(1,2), of "nodes t"]
  define t' where "t' = computeThresholds (fold attach_hashed (nodes t) ?e)"
  have n: "mset (nodes t') = mset (nodes t)" "placed t'" "ht_options t' = ht_options t" "ht_size t' = ht_size t" "length (ht_buckets t') = k"
    using r e(3) by (simp_all add: t'_def)
  have "ht_buckets t' \<noteq> []" using n(5) assms(2) by auto
  from ht_ok_nodes [OF assms(1) n(1,3) this n(2,4)] have "ht_ok t' \<and> ht_map t' = ht_map t" by simp
  then show "ht_ok (resize k t)" "ht_map (resize k t) = ht_map t" "ht_options (resize k t) = ht_options t"
    using assms(1) n(3) by (auto simp: resize_def t'_def nodes_def)
qed

section \<open>Finding, inserting and erasing\<close>

lemma in_bucket:
  assumes "ht_ok t"
  shows "x \<in> set (ht_buckets t ! computeBucketIndex t (nd_hash x)) \<longleftrightarrow> x \<in> set (nodes t)"
proof
  have b: "ht_buckets t \<noteq> []" "placed t" using assms by (simp_all add: ht_ok_def)
  show "x \<in> set (ht_buckets t ! computeBucketIndex t (nd_hash x)) \<Longrightarrow> x \<in> set (nodes t)"
    using bucket_index [OF b(1)] nth_mem by (auto simp: nodes_def)
  assume "x \<in> set (nodes t)"
  then obtain l where "l \<in> set (ht_buckets t)" "x \<in> set l" by (auto simp: nodes_def)
  then obtain i where "i < length (ht_buckets t)" "x \<in> set (ht_buckets t ! i)" by (metis in_set_conv_nth)
  then show "x \<in> set (ht_buckets t ! computeBucketIndex t (nd_hash x))" using b(2) by (auto simp: placed_def)
qed

lemma bucket_find:
  assumes "ht_ok t" and "h = name_hash (ht_options t) n"
  shows "List.find (\<lambda>x. nd_hash x = h \<and> nd_name x = n) (ht_buckets t ! computeBucketIndex t h) = None \<longleftrightarrow> ht_map t n = None"
proof -
  have "x \<in> set (ht_buckets t ! computeBucketIndex t h) \<longleftrightarrow> x \<in> set (nodes t)" if "nd_hash x = h" for x
    using in_bucket [OF assms(1), of x] that by simp
  moreover have "nd_hash x = h" if "x \<in> set (nodes t)" "nd_name x = n" for x using that assms by (simp add: ht_ok_def)
  ultimately show ?thesis unfolding find_None_iff ht_map_None by auto
qed

lemma findOrInsert_ok:
  assumes "ht_ok t" and "h = name_hash (ht_options t) (take k n)"
  shows "ht_map t (take k n) \<noteq> None \<Longrightarrow> findOrInsert n k h allow t = (t, Some (take k n), False)"
    and "ht_map t (take k n) = None \<Longrightarrow> findOrInsert n k h False t = (t, None, False)"
    and "ht_map t (take k n) = None \<Longrightarrow> \<exists>t'. findOrInsert n k h True t = (t', Some (take k n), True) \<and> ht_ok t' \<and> ht_options t' = ht_options t
          \<and> ht_map t' = (ht_map t)(take k n \<mapsto> nt_entry_new (take k n))"
proof -
  note f = bucket_find [OF assms]
  show "ht_map t (take k n) \<noteq> None \<Longrightarrow> findOrInsert n k h allow t = (t, Some (take k n), False)"
    using f by (auto simp: findOrInsert_def Let_def find_Some_iff split: option.split)
  show "ht_map t (take k n) = None \<Longrightarrow> findOrInsert n k h False t = (t, None, False)"
    using f by (simp add: findOrInsert_def Let_def)
  assume none: "ht_map t (take k n) = None"
  let ?x = "\<lparr>nd_hash = h, nd_entry = nt_entry_new (take k n)\<rparr>"
  define t2 where "t2 = (attach (computeBucketIndex t h) ?x t)\<lparr>ht_size := ht_size t + 1\<rparr>"
  define t3 where "t3 = (if ht_size t2 > ht_expandThreshold t2 then resize (ho_expand (ht_options t2) (length (ht_buckets t2))) t2 else t2)"
  have t: "ht_buckets t \<noteq> []" "placed t" "options_ok (ht_options t)" "distinct (map nd_name (nodes t))" "ht_size t = length (nodes t)"
    "\<forall>x \<in> set (nodes t). nd_hash x = name_hash (ht_options t) (nd_name x)" using assms(1) by (simp_all add: ht_ok_def)
  have nm: "ne_name (nt_entry_new m) = m" for m by (simp add: nt_entry_new_def)
  have n2: "mset (nodes t2) = add_mset ?x (mset (nodes t))"
    using attach_nodes [OF bucket_index [OF t(1)], of h ?x] by (simp add: t2_def nodes_def)
  then have s2: "set (nodes t2) = insert ?x (set (nodes t))" "length (nodes t2) = Suc (length (nodes t))"
    by (metis set_mset_mset set_mset_add_mset_insert, metis size_mset size_add_mset)
  have d2: "distinct (map nd_name (nodes t2))"
    using mset_eq_imp_distinct_iff [of "map nd_name (nodes t2)" "map nd_name (?x # nodes t)"] n2 t(4) none
    by (auto simp: ht_map_None nm)
  have p2: "placed t2" using attach_placed [OF t(2,1), of ?x] by (simp add: t2_def placed_def computeBucketIndex_def)
  have ok2: "ht_ok t2" using t s2 d2 p2 assms(2) nm by (simp add: ht_ok_def t2_def)
  have m2: "ht_map t2 = (ht_map t)(take k n \<mapsto> nt_entry_new (take k n))"
  proof
    fix m
    have "ht_map t2 m = Some e \<longleftrightarrow> ((ht_map t)(take k n \<mapsto> nt_entry_new (take k n))) m = Some e" for e
      using none ht_map_Some [OF assms(1), of m e] ht_map_Some [OF assms(1), of "take k n"]
      unfolding ht_map_Some [OF ok2] s2(1) by (cases "m = take k n") (auto simp: nm)
    then show "ht_map t2 m = ((ht_map t)(take k n \<mapsto> nt_entry_new (take k n))) m" by (metis not_Some_eq)
  qed
  have o2: "ht_options t2 = ht_options t" by (simp add: t2_def)
  have "0 < ho_expand (ht_options t2) (length (ht_buckets t2))" using t(1,3) o2 by (simp add: options_ok_def t2_def)
  then have "ht_ok t3 \<and> ht_options t3 = ht_options t \<and> ht_map t3 = (ht_map t)(take k n \<mapsto> nt_entry_new (take k n))"
    using ok2 m2 o2 resize_ok [OF ok2] by (simp add: t3_def)
  moreover have "findOrInsert n k h True t = (t3, Some (take k n), True)"
    using f none by (simp add: findOrInsert_def Let_def t3_def t2_def nm)
  ultimately show "\<exists>t'. findOrInsert n k h True t = (t', Some (take k n), True) \<and> ht_ok t' \<and> ht_options t' = ht_options t
          \<and> ht_map t' = (ht_map t)(take k n \<mapsto> nt_entry_new (take k n))" by blast
qed

lemma ht_update_ok:
  assumes "ht_ok t" and "\<And>e. ne_name (f e) = ne_name e"
  shows "ht_ok (ht_update n f t)" "ht_options (ht_update n f t) = ht_options t"
    "ht_map (ht_update n f t) m = map_option (if m = n then f else id) (ht_map t m)"
proof -
  let ?g = "\<lambda>x. if nd_name x = n then x\<lparr>nd_entry := f (nd_entry x)\<rparr> else x"
  have g: "nd_name (?g x) = nd_name x" "nd_hash (?g x) = nd_hash x" for x using assms(2) by simp_all
  have n: "nodes (ht_update n f t) = map ?g (nodes t)" by (simp add: nodes_def ht_update_def map_concat)
  have l: "length (ht_buckets (ht_update n f t)) = length (ht_buckets t)" "ht_size (ht_update n f t) = ht_size t"
    "\<And>i. i < length (ht_buckets t) \<Longrightarrow> ht_buckets (ht_update n f t) ! i = map ?g (ht_buckets t ! i)" by (simp_all add: ht_update_def)
  show o: "ht_options (ht_update n f t) = ht_options t" by (simp add: ht_update_def)
  have "placed (ht_update n f t)" using assms(1) l g(2) by (auto simp: ht_ok_def placed_def computeBucketIndex_def)
  moreover have "map nd_name (nodes (ht_update n f t)) = map nd_name (nodes t)" using g(1) by (simp add: n)
  moreover have "ht_buckets (ht_update n f t) \<noteq> []" using assms(1) l(1) by (metis ht_ok_def length_0_conv)
  moreover have "\<forall>x \<in> set (nodes (ht_update n f t)). nd_hash x = name_hash (ht_options t) (nd_name x)"
  proof
    fix x assume "x \<in> set (nodes (ht_update n f t))"
    then obtain y where "y \<in> set (nodes t)" "x = ?g y" unfolding n by auto
    then show "nd_hash x = name_hash (ht_options t) (nd_name x)" using assms(1) g [of y] by (simp add: ht_ok_def)
  qed
  moreover have "length (nodes (ht_update n f t)) = length (nodes t)" by (simp only: n length_map)
  moreover note l(2) o assms(1)
  ultimately show ok: "ht_ok (ht_update n f t)" unfolding ht_ok_def by presburger
  have "map_of (map (\<lambda>x. (nd_name x, nd_entry x)) (map ?g xs)) m = map_option (if m = n then f else id) (map_of (map (\<lambda>x. (nd_name x, nd_entry x)) xs) m)" for xs
    by (induction xs) (auto simp: assms(2))
  then show "ht_map (ht_update n f t) m = map_option (if m = n then f else id) (ht_map t m)" by (simp only: ht_map_def n)
qed

lemma Hashtable_erase_ok:
  assumes "ht_ok t" and "ht_map t n = Some e" and "ne_parent e = None"
  shows "\<exists>t'. Hashtable_erase n t = Inr t' \<and> ht_ok t' \<and> ht_options t' = ht_options t \<and> ht_map t' = (ht_map t)(n := None)"
proof -
  have t: "ht_buckets t \<noteq> []" "placed t" "options_ok (ht_options t)" "distinct (map nd_name (nodes t))" "ht_size t = length (nodes t)"
    "\<forall>x \<in> set (nodes t). nd_hash x = name_hash (ht_options t) (nd_name x)" using assms(1) by (simp_all add: ht_ok_def)
  obtain x where x: "ht_node t n = Some x" "nd_entry x = e" "nd_name x = n"
    using assms(2) find_map_of [of n "nodes t"] ht_map_name [OF assms(2)] by (auto simp: ht_map_def ht_node_def nodes_def)
  have xn: "x \<in> set (nodes t)" using x(1) by (auto simp: ht_node_def nodes_def find_Some_iff simp del: set_concat)
  let ?i = "computeBucketIndex t (nd_hash x)"
  have i: "?i < length (ht_buckets t)" "x \<in> set (ht_buckets t ! ?i)" using bucket_index [OF t(1)] in_bucket [OF assms(1)] xn by auto
  define l where "l = filter (\<lambda>y. nd_name y \<noteq> n) (ht_buckets t ! ?i)"
  define t2 where "t2 = t\<lparr>ht_buckets := (ht_buckets t)[?i := l], ht_size := ht_size t - 1\<rparr>"
  have only: "y = x" if "y \<in> set (nodes t)" "nd_name y = n" for y
    using that t(4) xn x(3) by (auto simp: distinct_map inj_on_def)
  have sub: "y \<in> set (nodes t)" if "y \<in> set (ht_buckets t ! ?i)" for y using that i(1) nth_mem by (auto simp: nodes_def)
  have one: "mset (ht_buckets t ! ?i) = add_mset x (mset l)"
  proof -
    obtain a c where s: "ht_buckets t ! ?i = a @ x # c" using i(2) by (meson split_list)
    have "distinct (map nd_name (ht_buckets t ! ?i))" using t(4) i(1) by (simp add: nodes_def map_concat distinct_concat_iff)
    then have "filter (\<lambda>y. nd_name y \<noteq> n) a = a" "filter (\<lambda>y. nd_name y \<noteq> n) c = c" using s x(3) unfolding filter_id_conv by (simp_all, metis imageI, metis imageI)
    then show ?thesis using s x(3) by (simp add: l_def)
  qed
  have n2: "mset (nodes t) = add_mset x (mset (nodes t2))"
    using mset_concat_update [OF i(1), of l] one by (simp add: nodes_def t2_def)
  have n2': "mset (map nd_name (nodes t)) = mset (map nd_name (x # nodes t2))" using n2 by simp
  have s2: "set (nodes t) = insert x (set (nodes t2))" "length (nodes t) = Suc (length (nodes t2))" "distinct (map nd_name (x # nodes t2))"
    using n2 t(4) mset_eq_imp_distinct_iff [OF n2'] by (metis set_mset_mset set_mset_add_mset_insert, metis size_mset size_add_mset, simp)
  have "placed (t\<lparr>ht_buckets := (ht_buckets t)[?i := l]\<rparr>)"
  proof (rule placed_update [OF t(2)])
    show "\<forall>y \<in> set l. computeBucketIndex t (nd_hash y) = ?i" using t(2) i(1) unfolding placed_def l_def set_filter by blast
  qed
  moreover have "placed (u\<lparr>ht_size := k\<rparr>) = placed u" for u k by (simp add: placed_def computeBucketIndex_def)
  ultimately have p2: "placed t2" by (simp only: t2_def)
  have f2: "ht_options t2 = ht_options t" "ht_size t2 = ht_size t - 1" "ht_buckets t2 \<noteq> []" using t(1) by (simp_all add: t2_def)
  have ok2: "ht_ok t2" unfolding ht_ok_def f2(1) using f2(2,3) t(3,5,6) s2 p2 by simp
  have m2: "ht_map t2 = (ht_map t)(n := None)"
  proof
    fix m
    have "ht_map t2 m = Some a \<longleftrightarrow> ((ht_map t)(n := None)) m = Some a" for a
    proof (cases "m = n")
      case True
      have "nd_name y \<noteq> n" if "y \<in> set (nodes t2)" for y using s2(3) x(3) imageI [OF that, of nd_name] by auto
      then show ?thesis using True ht_map_Some [OF ok2] by simp
    next
      case False
      then show ?thesis using ht_map_Some [OF assms(1), of m a] ht_map_Some [OF ok2, of m a] x(3) by (simp add: s2(1))
    qed
    then show "ht_map t2 m = ((ht_map t)(n := None)) m" by (metis not_Some_eq)
  qed
  define k where "k = max (ho_minSize (ht_options t2)) (ho_shrink (ht_options t2) (length (ht_buckets t2)))"
  have "0 < k" using t(3) by (simp add: k_def t2_def options_ok_def less_max_iff_disj)
  note r = resize_ok [OF ok2 this]
  have "detach ?i x t = Inr (t\<lparr>ht_buckets := (ht_buckets t)[?i := l]\<rparr>)" using i(2) x(3) by (auto simp: detach_def l_def)
  then have "Hashtable_erase n t = Inr (if ht_size t2 < ht_shrinkThreshold t2 then resize k t2 else t2)"
    using x(1,2) assms(3) by (simp add: Hashtable_erase_def Let_def t2_def k_def)
  then show ?thesis using r ok2 m2 by (auto simp: t2_def)
qed

lemma Hashtable_new_ok: "options_ok o' \<Longrightarrow> ht_ok (Hashtable_new o') \<and> ht_map (Hashtable_new o') = Map.empty \<and> ht_options (Hashtable_new o') = o'"
  by (auto simp: Hashtable_new_def ht_ok_def options_ok_def placed_def nodes_def ht_map_def)

text \<open>The operations of the class with the hashes of all prefixes.\<close>

lemma Hashtable_find_ok:
  assumes "ht_ok t"
  shows "Hashtable_find n k t = (if ht_map t (take k n) = None then None else Some (take k n))"
  using findOrInsert_ok(1,2) [OF assms, of "computeHash (ht_options t) n k" k n] by (auto simp: Hashtable_find_def computeHash_def name_hash_def)

lemma Hashtable_find_hashes_ok:
  assumes "ht_ok t" and "k \<le> length n"
  shows "Hashtable_find_hashes n k (computeHashes (ht_options t) n) t = Inr (if ht_map t (take k n) = None then None else Some (take k n))"
  using findOrInsert_ok(1,2) [OF assms(1) refl, of k n] hash_at_prefix [OF assms(2), of t] by (auto simp: Hashtable_find_hashes_def)

lemma Hashtable_insert_ok:
  assumes "ht_ok t" and "k \<le> length n"
  shows "ht_map t (take k n) \<noteq> None \<Longrightarrow> Hashtable_insert n k (computeHashes (ht_options t) n) t = Inr (t, Some (take k n), False)"
    and "ht_map t (take k n) = None \<Longrightarrow> \<exists>t'. Hashtable_insert n k (computeHashes (ht_options t) n) t = Inr (t', Some (take k n), True)
          \<and> ht_ok t' \<and> ht_options t' = ht_options t \<and> ht_map t' = (ht_map t)(take k n \<mapsto> nt_entry_new (take k n))"
  using findOrInsert_ok(1,3) [OF assms(1) refl, of k n] hash_at_prefix [OF assms(2), of t] by (auto simp: Hashtable_insert_def)

end
