(* ===== verification/TreeShape.thy ===== *)
theory TreeShape
  imports HashTable
begin

text \<open>
  The name tree is a tree: every entry but the root is linked to the entry of its name without the last
  component, which exists, and to exactly the entries below it. Looking a name up and erasing empty
  entries leave the attached table entries alone.
\<close>

section \<open>The invariant\<close>

definition linked_entry :: "(full_name \<Rightarrow> nt_entry option) \<Rightarrow> full_name \<Rightarrow> nt_entry \<Rightarrow> bool" where
  "linked_entry M n e \<longleftrightarrow> ne_parent e = (if n = [] then None else Some (butlast n)) \<and> (n \<noteq> [] \<longrightarrow> M (butlast n) \<noteq> None)
     \<and> distinct (ne_children e) \<and> set (ne_children e) = {m. M m \<noteq> None \<and> m \<noteq> [] \<and> butlast m = n}"

definition tree_ok :: "hashtable \<Rightarrow> bool" where
  "tree_ok t \<longleftrightarrow> ht_ok t \<and> (\<forall>n e. ht_map t n = Some e \<longrightarrow> linked_entry (ht_map t) n e)"

text \<open>What is attached to a name, the links of the entry left aside; nothing when there is no entry.\<close>

definition unlinked :: "nt_entry \<Rightarrow> nt_entry" where
  "unlinked e = e\<lparr>ne_parent := None, ne_children := []\<rparr>"

definition nt_tables :: "hashtable \<Rightarrow> full_name \<Rightarrow> nt_entry" where
  "nt_tables t n = unlinked (ht_entry t n)"

lemma nt_tables_map: "nt_tables t n = (case ht_map t n of None \<Rightarrow> nt_entry_new n | Some e \<Rightarrow> unlinked e)"
  by (auto simp: nt_tables_def ht_entry_map unlinked_def nt_entry_new_def split: option.split)

lemma unlinked_new [simp]: "unlinked (nt_entry_new n) = nt_entry_new n"
  by (simp add: unlinked_def nt_entry_new_def)

lemma empty_unlinked: "ne_isEmpty e \<Longrightarrow> unlinked e = nt_entry_new (ne_name e)"
  by (cases e) (simp add: ne_isEmpty_def hasTableEntries_def unlinked_def nt_entry_new_def)

lemma tree_okD:
  assumes "tree_ok t" and "ht_map t n = Some e"
  shows "ne_parent e = (if n = [] then None else Some (butlast n))" "n \<noteq> [] \<Longrightarrow> ht_map t (butlast n) \<noteq> None" "distinct (ne_children e)"
    "set (ne_children e) = {m. ht_map t m \<noteq> None \<and> m \<noteq> [] \<and> butlast m = n}"
  using assms by (simp_all add: tree_ok_def linked_entry_def)

lemma prefix_closed: "tree_ok t \<Longrightarrow> ht_map t n \<noteq> None \<Longrightarrow> ht_map t (take k n) \<noteq> None"
proof (induction n rule: rev_induct)
  case (snoc c n)
  have "ht_map t n \<noteq> None" using tree_okD(2) [OF snoc.prems(1)] snoc.prems(2) by fastforce
  then show ?case using snoc by (cases "k \<le> length n") auto
qed simp

lemma no_children: "tree_ok t \<Longrightarrow> ht_map t n = None \<Longrightarrow> ht_map t m \<noteq> None \<Longrightarrow> m \<noteq> [] \<Longrightarrow> butlast m \<noteq> n"
  using tree_okD(2) [of t m] by blast

section \<open>Adding and removing a leaf\<close>

lemma new_root:
  assumes "tree_ok t" and "ht_map t [] = None" and "ht_ok t'" and "ht_map t' = (ht_map t)([] \<mapsto> nt_entry_new [])"
  shows "tree_ok t'" "nt_tables t' = nt_tables t"
proof -
  have none: "ht_map t m = None" for m using prefix_closed [OF assms(1), of m 0] assms(2) by (cases "ht_map t m") simp_all
  have "ne_children (nt_entry_new []) = []" "ne_parent (nt_entry_new []) = None" by (simp_all add: nt_entry_new_def)
  then show "tree_ok t'" using assms(3) none by (auto simp: tree_ok_def assms(4) linked_entry_def)
  show "nt_tables t' = nt_tables t" using none by (auto simp: nt_tables_map assms(4) fun_eq_iff)
qed

lemma new_leaf:
  assumes "tree_ok t" and "ht_map t n = None" and "n \<noteq> []" and "ht_map t (butlast n) \<noteq> None" and "ht_ok t1" and m1: "ht_map t1 = (ht_map t)(n \<mapsto> nt_entry_new n)"
  shows "\<exists>t2. nt_setParent n (butlast n) t1 = Inr t2 \<and> tree_ok t2 \<and> ht_options t2 = ht_options t1 \<and> nt_tables t2 = nt_tables t
     \<and> (\<forall>m. ht_map t2 m \<noteq> None \<longleftrightarrow> m = n \<or> ht_map t m \<noteq> None)"
proof -
  let ?p = "butlast n" and ?f = "\<lambda>e. e\<lparr>ne_parent := Some (butlast n)\<rparr>" and ?g = "\<lambda>e. e\<lparr>ne_children := ne_children e @ [n]\<rparr>"
  define t2 where "t2 = ht_update ?p ?g (ht_update n ?f t1)"
  have pn: "?p \<noteq> n" using assms(3) by (metis append_butlast_last_id append_self_conv not_Cons_self2)
  note u1 = ht_update_ok [OF assms(5), of ?f n] and u2 = ht_update_ok [OF ht_update_ok(1) [OF assms(5), of ?f n], of ?g ?p]
  have m2: "ht_map t2 m = (if m = n then Some (?f (nt_entry_new n)) else if m = ?p then map_option ?g (ht_map t m) else ht_map t m)" for m
    unfolding t2_def using u1(3) [of m] u2(3) [of m] m1 pn by (auto simp: option.map_id)
  have dom: "ht_map t2 m \<noteq> None \<longleftrightarrow> m = n \<or> ht_map t m \<noteq> None" for m using m2 by simp
  have "linked_entry (ht_map t2) m e" if e: "ht_map t2 m = Some e" for m e
  proof (cases "m = n")
    case True
    have "e = ?f (nt_entry_new n)" using e True m2 by simp
    moreover have "{k. ht_map t2 k \<noteq> None \<and> k \<noteq> [] \<and> butlast k = n} = {}" using no_children [OF assms(1,2)] pn unfolding dom by blast
    moreover have "ht_map t2 ?p \<noteq> None" unfolding dom using assms(4) by simp
    ultimately show ?thesis using True assms(3) by (simp add: linked_entry_def nt_entry_new_def)
  next
    case False
    then obtain e0 where e0: "ht_map t m = Some e0" using e m2 [of m] by (auto split: if_splits)
    note l = tree_okD [OF assms(1) e0]
    have kids: "{k. ht_map t2 k \<noteq> None \<and> k \<noteq> [] \<and> butlast k = m} = (if m = ?p then insert n (set (ne_children e0)) else set (ne_children e0))"
      unfolding dom l(4) using assms(3) by auto
    have "n \<notin> set (ne_children e0)" unfolding l(4) using assms(2) by simp
    moreover have "e = (if m = ?p then ?g e0 else e0)" using e e0 m2 [of m] False by (simp split: if_splits)
    moreover have "m \<noteq> [] \<Longrightarrow> ht_map t2 (butlast m) \<noteq> None" unfolding dom using l(2) by blast
    ultimately show ?thesis unfolding linked_entry_def kids using l(1,3) by (cases "m = ?p") simp_all
  qed
  moreover have "ht_ok t2" using u2(1) by (simp add: t2_def)
  ultimately have "tree_ok t2" by (simp add: tree_ok_def)
  moreover have "ht_entry t1 n = nt_entry_new n" by (simp add: ht_entry_map m1)
  then have "nt_setParent n ?p t1 = Inr t2" using assms(3) by (simp add: nt_setParent_def nt_entry_new_def t2_def)
  moreover have "ht_options t2 = ht_options t1" by (simp add: t2_def ht_update_def)
  moreover have "nt_tables t2 = nt_tables t"
    by (auto simp: nt_tables_map m2 fun_eq_iff assms(2) unlinked_def nt_entry_new_def split: option.split)
  ultimately show ?thesis using dom by blast
qed

lemma drop_leaf:
  assumes "tree_ok t" and "ht_map t n = Some e" and "ne_isEmpty e"
  shows "\<exists>t1 t2. (case ne_parent e of None \<Rightarrow> Inr t | Some _ \<Rightarrow> nt_unsetParent n t) = Inr t1 \<and> Hashtable_erase n t1 = Inr t2
     \<and> tree_ok t2 \<and> ht_options t2 = ht_options t \<and> nt_tables t2 = nt_tables t
     \<and> (\<forall>m. ht_map t2 m = (if m = n then None else if n \<noteq> [] \<and> m = butlast n then map_option (\<lambda>e. e\<lparr>ne_children := remove1 n (ne_children e)\<rparr>) (ht_map t m) else ht_map t m))"
proof -
  let ?p = "butlast n" and ?f = "\<lambda>e. e\<lparr>ne_parent := None\<rparr>" and ?g = "\<lambda>e. e\<lparr>ne_children := remove1 n (ne_children e)\<rparr>"
  note l = tree_okD [OF assms(1,2)]
  have h: "ht_ok t" using assms(1) by (simp add: tree_ok_def)
  have "{m. ht_map t m \<noteq> None \<and> m \<noteq> [] \<and> butlast m = n} = {}" using assms(3) unfolding l(4) [symmetric] by (simp add: ne_isEmpty_def)
  then have nokids: "ht_map t m \<noteq> None \<Longrightarrow> m \<noteq> [] \<Longrightarrow> butlast m \<noteq> n" for m by blast
  have pn: "n \<noteq> [] \<Longrightarrow> ?p \<noteq> n" by (metis append_butlast_last_id append_self_conv not_Cons_self2)
  obtain t1 where t1: "(case ne_parent e of None \<Rightarrow> Inr t | Some _ \<Rightarrow> nt_unsetParent n t) = Inr t1" "ht_ok t1" "ht_options t1 = ht_options t"
    "\<And>m. ht_map t1 m = (if m = n then Some (?f e) else if n \<noteq> [] \<and> m = ?p then map_option ?g (ht_map t m) else ht_map t m)"
  proof (cases "n = []")
    case True
    have "?f e = e" using l(1) True by simp
    then show ?thesis using that [of t] True l(1) h assms(2) by auto
  next
    case False
    obtain ep where ep: "ht_map t ?p = Some ep" using l(2) False by auto
    have "n \<in> set (ne_children ep)" using tree_okD(4) [OF assms(1) ep] assms(2) False by auto
    then have u: "nt_unsetParent n t = Inr (ht_update n ?f (ht_update ?p ?g t))"
      using l(1) False ep assms(2) by (simp add: nt_unsetParent_def ht_entry_map)
    note u1 = ht_update_ok [OF h, of ?g ?p] and u2 = ht_update_ok [OF ht_update_ok(1) [OF h, of ?g ?p], of ?f n]
    show ?thesis
    proof (rule that [of "ht_update n ?f (ht_update ?p ?g t)"])
      show "ht_map (ht_update n ?f (ht_update ?p ?g t)) m = (if m = n then Some (?f e) else if n \<noteq> [] \<and> m = ?p then map_option ?g (ht_map t m) else ht_map t m)" for m
        using u1(3) [of m] u2(3) [of m] False pn assms(2) by (auto simp: option.map_id)
    qed (use u u2(1,2) u1(2) l(1) False in auto)
  qed
  obtain t2 where t2: "Hashtable_erase n t1 = Inr t2" "ht_ok t2" "ht_options t2 = ht_options t1" "ht_map t2 = (ht_map t1)(n := None)"
    using Hashtable_erase_ok [OF t1(2), of n "?f e"] t1(4) [of n] by auto
  have m2: "ht_map t2 m = (if m = n then None else if n \<noteq> [] \<and> m = ?p then map_option ?g (ht_map t m) else ht_map t m)" for m
    using t2(4) t1(4) by simp
  have dom: "ht_map t2 m \<noteq> None \<longleftrightarrow> m \<noteq> n \<and> ht_map t m \<noteq> None" for m using m2 by simp
  have "linked_entry (ht_map t2) m a" if a: "ht_map t2 m = Some a" for m a
  proof -
    have mn: "m \<noteq> n" using a m2 [of m] by (simp split: if_splits)
    obtain a0 where a0: "ht_map t m = Some a0" using a m2 [of m] by (auto split: if_splits)
    note q = tree_okD [OF assms(1) a0]
    have e: "a = (if n \<noteq> [] \<and> m = ?p then ?g a0 else a0)" using a a0 m2 [of m] mn by auto
    have kids: "{k. ht_map t2 k \<noteq> None \<and> k \<noteq> [] \<and> butlast k = m} = set (ne_children a0) - {n}" unfolding dom q(4) by auto
    have same: "set (ne_children a) = set (ne_children a0) - {n}" "distinct (ne_children a)"
      using e q(3) unfolding q(4) [symmetric] by (auto simp: q(4) split: if_splits)
    have "m \<noteq> [] \<Longrightarrow> ht_map t2 (butlast m) \<noteq> None" unfolding dom using q(2) nokids [of m] a0 by auto
    then show ?thesis unfolding linked_entry_def kids using same q(1) e by auto
  qed
  then have "tree_ok t2" using t2(2) by (simp add: tree_ok_def)
  moreover have "nt_tables t2 = nt_tables t"
  proof
    fix m
    have "unlinked e = nt_entry_new n" using empty_unlinked [OF assms(3)] ht_map_name [OF assms(2)] by simp
    then show "nt_tables t2 m = nt_tables t m" using assms(2) by (auto simp: nt_tables_map m2 unlinked_def split: option.split)
  qed
  ultimately show ?thesis using t1(1,3) t2(1,3) by (intro exI [of _ t1] exI [of _ t2]) (simp only: m2, simp)
qed

section \<open>Looking up a name\<close>

lemma lookup_step:
  assumes "tree_ok t" and "k \<le> length n" and "k > 0 \<Longrightarrow> ht_map t (take (k - 1) n) \<noteq> None"
  shows "\<exists>t1 isNew t2. Hashtable_insert n k (computeHashes (ht_options t) n) t = Inr (t1, Some (take k n), isNew)
     \<and> (case (isNew, if k = 0 then None else Some (take (k - 1) n)) of (True, Some p) \<Rightarrow> nt_setParent (take k n) p t1 | _ \<Rightarrow> Inr t1) = Inr t2
     \<and> tree_ok t2 \<and> ht_options t2 = ht_options t \<and> nt_tables t2 = nt_tables t \<and> (\<forall>m. ht_map t2 m \<noteq> None \<longleftrightarrow> m = take k n \<or> ht_map t m \<noteq> None)"
proof (cases "ht_map t (take k n) = None")
  case False
  have h: "ht_ok t" using assms(1) by (simp add: tree_ok_def)
  have "(\<forall>m. ht_map t m \<noteq> None \<longleftrightarrow> m = take k n \<or> ht_map t m \<noteq> None)" using False by blast
  then show ?thesis using Hashtable_insert_ok(1) [OF h assms(2) False] assms(1)
    by (intro exI [of _ t] exI [of _ False]) (simp only: bool.case prod.case, simp)
next
  case True
  have h: "ht_ok t" using assms(1) by (simp add: tree_ok_def)
  obtain t1 where t1: "Hashtable_insert n k (computeHashes (ht_options t) n) t = Inr (t1, Some (take k n), True)" "ht_ok t1" "ht_options t1 = ht_options t"
    "ht_map t1 = (ht_map t)(take k n \<mapsto> nt_entry_new (take k n))" using Hashtable_insert_ok(2) [OF h assms(2) True] by blast
  show ?thesis
  proof (cases "k = 0")
    case True
    note r = new_root [OF assms(1) _ t1(2)]
    have "tree_ok t1" "nt_tables t1 = nt_tables t" using r \<open>ht_map t (take k n) = None\<close> t1(4) True by simp_all
    then show ?thesis using t1 True by (intro exI [of _ t1] exI [of _ True]) simp
  next
    case False
    have b: "butlast (take k n) = take (k - 1) n" using assms(2) by (simp add: butlast_take)
    have ne: "take k n \<noteq> []" using False assms(2) by auto
    obtain t2 where "nt_setParent (take k n) (take (k - 1) n) t1 = Inr t2" "tree_ok t2" "ht_options t2 = ht_options t1" "nt_tables t2 = nt_tables t"
      "\<forall>m. ht_map t2 m \<noteq> None \<longleftrightarrow> m = take k n \<or> ht_map t m \<noteq> None"
      using new_leaf [OF assms(1) True ne _ t1(2,4)] assms(3) False unfolding b by blast
    then show ?thesis using t1(1,3) False by (intro exI [of _ t1] exI [of _ True] exI [of _ t2]) simp
  qed
qed

lemma lookup_loop_ok:
  assumes "tree_ok t" and "k \<le> Suc (length n)" and "k > 0 \<Longrightarrow> ht_map t (take (k - 1) n) \<noteq> None"
  shows "\<exists>t'. lookup_loop n (computeHashes (ht_options t) n) [k..<Suc (length n)] (if k = 0 then None else Some (take (k - 1) n)) t = Inr t'
     \<and> tree_ok t' \<and> ht_options t' = ht_options t \<and> nt_tables t' = nt_tables t
     \<and> (\<forall>m. ht_map t' m \<noteq> None \<longleftrightarrow> ht_map t m \<noteq> None \<or> (\<exists>i. k \<le> i \<and> i \<le> length n \<and> m = take i n))"
  using assms
proof (induction "Suc (length n) - k" arbitrary: k t)
  case 0
  then have "k = Suc (length n)" by simp
  then show ?case using 0 by (intro exI [of _ t]) auto
next
  case (Suc d)
  have k: "k \<le> length n" using Suc.hyps(2) by simp
  obtain t1 isNew t2 where s: "Hashtable_insert n k (computeHashes (ht_options t) n) t = Inr (t1, Some (take k n), isNew)"
    "(case (isNew, if k = 0 then None else Some (take (k - 1) n)) of (True, Some p) \<Rightarrow> nt_setParent (take k n) p t1 | _ \<Rightarrow> Inr t1) = Inr t2"
    "tree_ok t2" "ht_options t2 = ht_options t" "nt_tables t2 = nt_tables t" "\<forall>m. ht_map t2 m \<noteq> None \<longleftrightarrow> m = take k n \<or> ht_map t m \<noteq> None"
    using lookup_step [OF Suc.prems(1) k Suc.prems(3)] by blast
  have "ht_map t2 (take (Suc k - 1) n) \<noteq> None" using s(6) by simp
  then obtain t' where t': "lookup_loop n (computeHashes (ht_options t2) n) [Suc k..<Suc (length n)] (Some (take k n)) t2 = Inr t'"
    "tree_ok t'" "ht_options t' = ht_options t2" "nt_tables t' = nt_tables t2"
    "\<forall>m. ht_map t' m \<noteq> None \<longleftrightarrow> ht_map t2 m \<noteq> None \<or> (\<exists>i. Suc k \<le> i \<and> i \<le> length n \<and> m = take i n)"
  proof -
    have a: "d = Suc (length n) - Suc k" "Suc k \<le> Suc (length n)" "Suc k > 0 \<Longrightarrow> ht_map t2 (take (Suc k - 1) n) \<noteq> None"
      using Suc.hyps(2) k \<open>ht_map t2 (take (Suc k - 1) n) \<noteq> None\<close> by (simp_all del: not_None_eq)
    show ?thesis using that Suc.hyps(1) [OF a(1) s(3) a(2,3)] by (simp only: nat.distinct if_False diff_Suc_1) blast
  qed
  have "[k..<Suc (length n)] = k # [Suc k..<Suc (length n)]" using k by (simp add: upt_conv_Cons)
  then have "lookup_loop n (computeHashes (ht_options t) n) [k..<Suc (length n)] (if k = 0 then None else Some (take (k - 1) n)) t = Inr t'"
    using s(1,2,4) t'(1) by (simp only: lookup_loop.simps sum.case prod.case option.sel)
  moreover have "(ht_map t2 m \<noteq> None \<or> (\<exists>i. Suc k \<le> i \<and> i \<le> length n \<and> m = take i n)) \<longleftrightarrow>
      (ht_map t m \<noteq> None \<or> (\<exists>i. k \<le> i \<and> i \<le> length n \<and> m = take i n))" for m
    unfolding s(6) [rule_format] using k by (metis Suc_leD le_antisym not_less_eq_eq)
  ultimately show ?case using t' s(4,5) by (intro exI [of _ t']) (simp only:, blast)
qed

lemma NameTree_lookup_ok:
  assumes "tree_ok t"
  shows "\<exists>t'. NameTree_lookup n t = Inr t' \<and> tree_ok t' \<and> ht_options t' = ht_options t \<and> nt_tables t' = nt_tables t
     \<and> (\<forall>m. ht_map t' m \<noteq> None \<longleftrightarrow> ht_map t m \<noteq> None \<or> (\<exists>r. n = m @ r))"
proof -
  obtain t' where t': "NameTree_lookup n t = Inr t'" "tree_ok t'" "ht_options t' = ht_options t" "nt_tables t' = nt_tables t"
    "\<forall>m. ht_map t' m \<noteq> None \<longleftrightarrow> ht_map t m \<noteq> None \<or> (\<exists>i. i \<le> length n \<and> m = take i n)"
    using lookup_loop_ok [OF assms, of 0 n] by (auto simp: NameTree_lookup_def)
  have "(\<exists>i. i \<le> length n \<and> m = take i n) \<longleftrightarrow> (\<exists>r. n = m @ r)" for m
    by (metis append_eq_conv_conj append_take_drop_id length_take min.absorb2 nat_le_linear take_all)
  then show ?thesis using t' by auto
qed

section \<open>Erasing empty entries\<close>

text \<open>No entry is there for nothing: each has tables or children.\<close>

definition tidy :: "hashtable \<Rightarrow> bool" where
  "tidy t \<longleftrightarrow> (\<forall>n e. ht_map t n = Some e \<longrightarrow> \<not> ne_isEmpty e)"

lemma erase_loop_ok:
  "tree_ok t \<Longrightarrow> ht_map t n \<noteq> None \<Longrightarrow> \<exists>t' k'. erase_loop canEraseAncestors (Some n) k t = Some (Inr (t', k')) \<and> tree_ok t'
     \<and> ht_options t' = ht_options t \<and> nt_tables t' = nt_tables t \<and> (\<forall>m. \<not> (\<exists>r. n = m @ r) \<longrightarrow> ht_map t' m = ht_map t m)
     \<and> (canEraseAncestors \<and> (\<forall>m e. ht_map t m = Some e \<and> m \<noteq> n \<longrightarrow> \<not> ne_isEmpty e) \<longrightarrow> tidy t')"
proof (induction "length n" arbitrary: n k t rule: less_induct)
  case less
  obtain e where e: "ht_map t n = Some e" using less.prems(2) by blast
  have en: "ht_entry t n = e" by (simp add: ht_entry_map e)
  show ?case
  proof (cases "ne_isEmpty e")
    case False
    have "erase_loop canEraseAncestors (Some n) k t = Some (Inr (t, k))" using False en by (subst erase_loop.simps) simp
    moreover have "(\<forall>m a. ht_map t m = Some a \<and> m \<noteq> n \<longrightarrow> \<not> ne_isEmpty a) \<longrightarrow> tidy t"
      using False e unfolding tidy_def by (metis option.inject)
    ultimately show ?thesis using less.prems(1) by blast
  next
    case True
    obtain t1 t2 where t: "(case ne_parent e of None \<Rightarrow> Inr t | Some _ \<Rightarrow> nt_unsetParent n t) = Inr t1" "Hashtable_erase n t1 = Inr t2"
      "tree_ok t2" "ht_options t2 = ht_options t" "nt_tables t2 = nt_tables t"
      and m2: "\<And>m. ht_map t2 m = (if m = n then None else if n \<noteq> [] \<and> m = butlast n
        then map_option (\<lambda>e. e\<lparr>ne_children := remove1 n (ne_children e)\<rparr>) (ht_map t m) else ht_map t m)"
      using drop_leaf [OF less.prems(1) e True] by blast
    have step: "erase_loop canEraseAncestors (Some n) k t = (if \<not> canEraseAncestors then Some (Inr (t2, k + 1)) else erase_loop canEraseAncestors (ne_parent e) (k + 1) t2)"
      using True en t(1,2) by (subst erase_loop.simps) (simp add: Let_def)
    have self: "\<exists>r. n = n @ r" by simp
    have up: "n \<noteq> [] \<Longrightarrow> \<exists>r. n = butlast n @ r" by (metis append_butlast_last_id)
    have out: "\<not> (\<exists>r. n = m @ r) \<Longrightarrow> ht_map t2 m = ht_map t m" for m using m2 [of m] self up by auto
    note par = tree_okD(1) [OF less.prems(1) e]
    show ?thesis
    proof (cases "canEraseAncestors \<and> n \<noteq> []")
      case False
      then have "erase_loop canEraseAncestors (Some n) k t = Some (Inr (t2, k + 1))"
        unfolding step using par by (auto simp: erase_loop.simps)
      moreover have "tidy t2" if "canEraseAncestors" "\<forall>m e. ht_map t m = Some e \<and> m \<noteq> n \<longrightarrow> \<not> ne_isEmpty e"
        using that False m2 by (auto simp: tidy_def split: if_splits)
      ultimately show ?thesis using t(3-5) out by blast
    next
      case rec: True
      have p: "ne_parent e = Some (butlast n)" "length (butlast n) < length n" using par rec by auto
      have "ht_map t2 (butlast n) \<noteq> None" using m2 [of "butlast n"] tree_okD(2) [OF less.prems(1) e] p(2) rec by (cases "butlast n = n") auto
      from less.hyps [OF p(2) t(3) this, of "k + 1"]
      obtain t' k' where t': "erase_loop canEraseAncestors (Some (butlast n)) (k + 1) t2 = Some (Inr (t', k'))" "tree_ok t'"
        "ht_options t' = ht_options t2" "nt_tables t' = nt_tables t2" "\<And>m. \<not> (\<exists>r. butlast n = m @ r) \<Longrightarrow> ht_map t' m = ht_map t2 m"
        "\<forall>m e. ht_map t2 m = Some e \<and> m \<noteq> butlast n \<longrightarrow> \<not> ne_isEmpty e \<Longrightarrow> tidy t'" using rec by blast
      have "ht_map t' m = ht_map t m" if "\<not> (\<exists>r. n = m @ r)" for m
      proof -
        have "\<not> (\<exists>r. butlast n = m @ r)" using that rec by (metis append.assoc append_butlast_last_id)
        then show ?thesis using t'(5) out that by simp
      qed
      moreover have "tidy t'" if h: "\<forall>m e. ht_map t m = Some e \<and> m \<noteq> n \<longrightarrow> \<not> ne_isEmpty e"
        by (rule t'(6)) (use h m2 in \<open>auto split: if_splits\<close>)
      ultimately show ?thesis unfolding step using rec p(1) t' t(4,5) by auto
    qed
  qed
qed

section \<open>The longest matching prefix\<close>

text \<open>The longest prefix of a name whose entry exists and satisfies a selector.\<close>

definition selected :: "(nt_entry \<Rightarrow> bool) \<Rightarrow> hashtable \<Rightarrow> full_name \<Rightarrow> bool" where
  "selected P t m \<longleftrightarrow> ht_map t m \<noteq> None \<and> P (ht_entry t m)"

definition longest_prefix :: "(full_name \<Rightarrow> bool) \<Rightarrow> full_name \<Rightarrow> full_name option" where
  "longest_prefix S n = List.find S (map (\<lambda>k. take k n) (rev [0..<Suc (length n)]))"

lemma longest_match_loop_ok:
  assumes "ht_ok t" and "\<forall>k \<in> set ks. k \<le> length n"
  shows "longest_match_loop P n (computeHashes (ht_options t) n) ks t = Inr (List.find (selected P t) (map (\<lambda>k. take k n) ks))"
  using assms(2) by (induction ks) (auto simp: Hashtable_find_hashes_ok [OF assms(1)] selected_def)

lemma match_name_ok: "ht_ok t \<Longrightarrow> findLongestPrefixMatch_name P n t = Inr (longest_prefix (selected P t) n)"
  unfolding findLongestPrefixMatch_name_def longest_prefix_def by (rule longest_match_loop_ok) auto

lemma longest_prefix_step:
  "longest_prefix S n = (if S n then Some n else if n = [] then None else longest_prefix S (butlast n))"
proof (cases "n = []")
  case False
  have "map (\<lambda>k. take k n) (rev [0..<length n]) = map (\<lambda>k. take k (butlast n)) (rev [0..<Suc (length (butlast n))])"
    using False by (intro map_cong) (auto simp: take_butlast)
  moreover have "rev [0..<Suc (length n)] = length n # rev [0..<length n]" by simp
  ultimately show ?thesis using False by (simp only: longest_prefix_def list.map find.simps take_all order_refl if_False)
qed (simp add: longest_prefix_def)

lemma match_entry_ok:
  "tree_ok t \<Longrightarrow> ht_map t n \<noteq> None \<Longrightarrow> findLongestPrefixMatch_entry P (Some n) t = Some (longest_prefix (selected P t) n)"
proof (induction "length n" arbitrary: n rule: less_induct)
  case less
  obtain e where e: "ht_map t n = Some e" using less.prems(2) by blast
  have en: "ht_entry t n = e" by (simp add: ht_entry_map e)
  note par = tree_okD(1,2) [OF less.prems(1) e]
  show ?case
  proof (cases "P e \<or> n = []")
    case True
    then show ?thesis using en e par(1)
      by (subst findLongestPrefixMatch_entry.simps) (auto simp: longest_prefix_step [of _ n] selected_def findLongestPrefixMatch_entry.simps)
  next
    case False
    then have "findLongestPrefixMatch_entry P (Some (butlast n)) t = Some (longest_prefix (selected P t) (butlast n))"
      using less.hyps [of "butlast n"] less.prems(1) par(2) by simp
    then show ?thesis using en e par(1) False
      by (subst findLongestPrefixMatch_entry.simps) (simp add: longest_prefix_step [of _ n] selected_def)
  qed
qed

end
