(* ===== verification/FibTable.thy ===== *)
theory FibTable
  imports TreeShape FibProtocol
begin

text \<open>
  The forwarding information base, \<^verbatim>\<open>ndn/NFD/daemon/table/fib-entry.cpp\<close> and \<^verbatim>\<open>fib.cpp\<close>, and the manager
  that executes the commands of the FIB updater, \<^verbatim>\<open>daemon/mgmt/fib-manager.cpp\<close>. A face is its number;
  the faces that exist are an argument. A pointer to a FIB entry is the name it is attached to, or the
  unattached empty entry.
\<close>

section \<open>Entries\<close>

definition fib_Entry :: "full_name \<Rightarrow> fib_entry" where
  "fib_Entry n = \<lparr>fe_prefix = n, fe_nextHops = []\<rparr>"

definition findNextHop :: "fib_entry \<Rightarrow> u64 \<Rightarrow> nat" where
  "findNextHop e f = find_if (\<lambda>h. nh_face h = f) (fe_nextHops e)"

definition hasNextHop :: "fib_entry \<Rightarrow> u64 \<Rightarrow> bool" where
  "hasNextHop e f \<longleftrightarrow> findNextHop e f \<noteq> length (fe_nextHops e)"

definition sortNextHops :: "fib_entry \<Rightarrow> fib_entry" where
  "sortNextHops e = e\<lparr>fe_nextHops := sort_key nh_cost (fe_nextHops e)\<rparr>"

definition fe_addNextHop :: "u64 \<Rightarrow> u64 \<Rightarrow> fib_entry \<Rightarrow> fib_entry" where
  "fe_addNextHop f cost e =
     (let it = findNextHop e f;
          hops = (if it = length (fe_nextHops e) then fe_nextHops e @ [\<lparr>nh_face = f, nh_cost = 0\<rparr>] else fe_nextHops e)
      in sortNextHops (e\<lparr>fe_nextHops := hops[it := (hops ! it)\<lparr>nh_cost := cost\<rparr>]\<rparr>))"

definition fe_removeNextHop :: "u64 \<Rightarrow> fib_entry \<Rightarrow> fib_entry" where
  "fe_removeNextHop f e =
     (let it = findNextHop e f
      in if it \<noteq> length (fe_nextHops e) then e\<lparr>fe_nextHops := remove_at it (fe_nextHops e)\<rparr> else e)"

section \<open>The table\<close>

record fib_table =
  ft_nameTree :: hashtable
  ft_nItems :: u64

datatype fib_ref = Attached full_name | EmptyEntry

definition Fib_new :: "ht_options \<Rightarrow> fib_table" where
  "Fib_new o' = \<lparr>ft_nameTree = Hashtable_new o', ft_nItems = 0\<rparr>"

definition setFibEntry :: "full_name \<Rightarrow> fib_entry option \<Rightarrow> hashtable \<Rightarrow> hashtable" where
  "setFibEntry n x t = ht_update n (\<lambda>e. e\<lparr>ne_fibEntry := x\<rparr>) t"

definition nteHasFibEntry :: "nt_entry \<Rightarrow> bool" where
  "nteHasFibEntry e \<longleftrightarrow> ne_fibEntry e \<noteq> None"

definition Fib_findLongestPrefixMatch :: "full_name \<Rightarrow> fib_table \<Rightarrow> fib_ref res" where
  "Fib_findLongestPrefixMatch n F =
     (case findLongestPrefixMatch_name nteHasFibEntry n (ft_nameTree F) of
        Inl e \<Rightarrow> Inl e | Inr None \<Rightarrow> Inr EmptyEntry | Inr (Some m) \<Rightarrow> Inr (Attached m))"

definition Fib_findExactMatch :: "full_name \<Rightarrow> fib_table \<Rightarrow> full_name option" where
  "Fib_findExactMatch n F =
     (case NameTree_findExactMatch n (ft_nameTree F) of
        None \<Rightarrow> None | Some m \<Rightarrow> if ne_fibEntry (ht_entry (ft_nameTree F) m) = None then None else Some m)"

definition Fib_insert :: "full_name \<Rightarrow> fib_table \<Rightarrow> (fib_table \<times> bool) res" where
  "Fib_insert n F =
     (case NameTree_lookup n (ft_nameTree F) of
        Inl e \<Rightarrow> Inl e
      | Inr t \<Rightarrow>
          if ne_fibEntry (ht_entry t n) \<noteq> None then Inr (F\<lparr>ft_nameTree := t\<rparr>, False)
          else Inr (\<lparr>ft_nameTree = setFibEntry n (Some (fib_Entry n)) t, ft_nItems = ft_nItems F + 1\<rparr>, True))"

definition Fib_erase_nte :: "full_name \<Rightarrow> bool \<Rightarrow> fib_table \<Rightarrow> fib_table res option" where
  "Fib_erase_nte n canDeleteNte F =
     (let t = setFibEntry n None (ft_nameTree F)
      in if canDeleteNte then
           (case eraseIfEmpty n True t of
              None \<Rightarrow> None
            | Some (Inl e) \<Rightarrow> Some (Inl e)
            | Some (Inr (t', k)) \<Rightarrow> Some (Inr \<lparr>ft_nameTree = t', ft_nItems = ft_nItems F - 1\<rparr>))
         else Some (Inr \<lparr>ft_nameTree = t, ft_nItems = ft_nItems F - 1\<rparr>))"

definition Fib_erase_name :: "full_name \<Rightarrow> fib_table \<Rightarrow> fib_table res option" where
  "Fib_erase_name n F = (case NameTree_findExactMatch n (ft_nameTree F) of None \<Rightarrow> Some (Inr F) | Some m \<Rightarrow> Fib_erase_nte m True F)"

definition Fib_erase_entry :: "fib_ref \<Rightarrow> fib_table \<Rightarrow> fib_table res option" where
  "Fib_erase_entry r F = (case r of EmptyEntry \<Rightarrow> Some (Inr F) | Attached n \<Rightarrow> Fib_erase_nte n True F)"

text \<open>A change through a pointer to an attached entry.\<close>

definition fib_entry_at :: "fib_table \<Rightarrow> full_name \<Rightarrow> fib_entry" where
  "fib_entry_at F n = (case ne_fibEntry (ht_entry (ft_nameTree F) n) of None \<Rightarrow> fib_Entry n | Some e \<Rightarrow> e)"

definition change_fib_entry :: "full_name \<Rightarrow> (fib_entry \<Rightarrow> fib_entry) \<Rightarrow> fib_table \<Rightarrow> fib_table" where
  "change_fib_entry n f F = F\<lparr>ft_nameTree := ht_update n (\<lambda>e. e\<lparr>ne_fibEntry := map_option f (ne_fibEntry e)\<rparr>) (ft_nameTree F)\<rparr>"

definition Fib_removeNextHop :: "full_name \<Rightarrow> u64 \<Rightarrow> fib_table \<Rightarrow> fib_table res option" where
  "Fib_removeNextHop n f F =
     (let F1 = change_fib_entry n (fe_removeNextHop f) F
      in if fe_nextHops (fib_entry_at F1 n) = [] then Fib_erase_nte n False F1 else Some (Inr F1))"

section \<open>The manager\<close>

record control_parameters =
  cp_name :: full_name
  cp_faceId :: u64
  cp_cost :: "u64 option"

definition setFaceForSelfRegistration :: "u64 option \<Rightarrow> control_parameters \<Rightarrow> control_parameters res" where
  "setFaceForSelfRegistration incomingFaceIdTag params =
     (if cp_faceId params = 0
      then case incomingFaceIdTag of
             None \<Rightarrow> Inl (UndefinedBehaviour ''assertion failed: incomingFaceIdTag != nullptr'')
           | Some tag \<Rightarrow> Inr (params\<lparr>cp_faceId := tag\<rparr>)
      else Inr params)"

text \<open>A response is its code and the parameters in its body.\<close>

type_synonym control_response = "nat \<times> control_parameters option"

definition FibManager_addNextHop :: "u64 set \<Rightarrow> u64 option \<Rightarrow> control_parameters \<Rightarrow> fib_table \<Rightarrow> (fib_table \<times> control_response) res" where
  "FibManager_addNextHop faces tag params0 F =
     (case setFaceForSelfRegistration tag params0 of
        Inl e \<Rightarrow> Inl e
      | Inr params \<Rightarrow>
          (case cp_cost params of
             None \<Rightarrow> Inl (UndefinedBehaviour ''assertion failed: this->hasCost()'')
           | Some cost \<Rightarrow>
               if cp_faceId params \<in> faces
               then case Fib_insert (cp_name params) F of
                      Inl e \<Rightarrow> Inl e
                    | Inr (F1, _) \<Rightarrow> Inr (change_fib_entry (cp_name params) (fe_addNextHop (cp_faceId params) cost) F1, (200, Some params))
               else Inr (F, (410, None))))"

definition FibManager_removeNextHop :: "u64 set \<Rightarrow> u64 option \<Rightarrow> control_parameters \<Rightarrow> fib_table \<Rightarrow> (fib_table \<times> control_response) res option" where
  "FibManager_removeNextHop faces tag params0 F =
     (case setFaceForSelfRegistration tag params0 of
        Inl e \<Rightarrow> Some (Inl e)
      | Inr params \<Rightarrow>
          if cp_faceId params \<notin> faces then Some (Inr (F, (200, Some params)))
          else case Fib_findExactMatch (cp_name params) F of
            None \<Rightarrow> Some (Inr (F, (200, Some params)))
          | Some n \<Rightarrow>
              (let F1 = change_fib_entry n (fe_removeNextHop (cp_faceId params)) F
               in if fe_nextHops (fib_entry_at F1 n) = []
                  then map_option (map_sum id (\<lambda>F2. (F2, (200, Some params)))) (Fib_erase_entry (Attached n) F1)
                  else Some (Inr (F1, (200, Some params)))))"

end
