(* ===== verification/ContentStore.thy ===== *)
theory ContentStore
  imports RepoIndex
begin

text \<open>
  The content store of the forwarder, \<^verbatim>\<open>ndn/NFD/daemon/table/cs.cpp\<close>, \<^verbatim>\<open>cs-entry.cpp\<close>, \<^verbatim>\<open>cs-entry-impl.cpp\<close>,
  and its replacement policies, \<^verbatim>\<open>cs-policy.cpp\<close>, \<^verbatim>\<open>cs-policy-priority-fifo.cpp\<close>, \<^verbatim>\<open>cs-policy-lru.cpp\<close>. The
  table is a \<^verbatim>\<open>std::set\<close> of entries in the order of their Data; an iterator is the key of its entry, the
  name of the Data and its implicit digest. Times are numbers of nanoseconds, \<^verbatim>\<open>TimePoint::max()\<close> is
  \<open>None\<close>, and the time of a call is an argument.
\<close>

section \<open>Entries\<close>

record cs_entry =
  ce_data :: data
  ce_isUnsolicited :: bool
  ce_staleTime :: "int option"

text \<open>The stale time of Data from now on.\<close>

definition stale_time :: "int \<Rightarrow> data \<Rightarrow> int option" where
  "stale_time now d =
     (if mi_freshnessPeriod (d_metaInfo d) \<ge> 0 then Some (time_after now (mi_freshnessPeriod (d_metaInfo d))) else None)"

definition updateStaleTime :: "int \<Rightarrow> cs_entry \<Rightarrow> cs_entry" where
  "updateStaleTime now e = e\<lparr>ce_staleTime := stale_time now (ce_data e)\<rparr>"

definition CsEntry_setData :: "int \<Rightarrow> data \<Rightarrow> bool \<Rightarrow> cs_entry" where
  "CsEntry_setData now d isUnsolicited = updateStaleTime now \<lparr>ce_data = d, ce_isUnsolicited = isUnsolicited, ce_staleTime = None\<rparr>"

definition unsetUnsolicited :: "int \<Rightarrow> cs_entry \<Rightarrow> cs_entry" where
  "unsetUnsolicited now e = CsEntry_setData now (ce_data e) False"

definition isStale :: "int \<Rightarrow> cs_entry \<Rightarrow> bool" where
  "isStale now e = (case ce_staleTime e of None \<Rightarrow> False | Some t \<Rightarrow> t < now)"

definition canStale :: "cs_entry \<Rightarrow> bool" where
  "canStale e \<longleftrightarrow> ce_staleTime e \<noteq> None"

definition canSatisfy :: "(byte list \<Rightarrow> byte list) \<Rightarrow> int \<Rightarrow> interest \<Rightarrow> cs_entry \<Rightarrow> bool res" where
  "canSatisfy sha256 now i e =
     (case Interest_matchesData sha256 i (ce_data e) of
        Inl err \<Rightarrow> Inl err
      | Inr m \<Rightarrow> if \<not> m then Inr False
                 else if sel_mustBeFresh (i_selectors i) \<and> isStale now e then Inr False else Inr True)"

section \<open>The order of entries\<close>

type_synonym cs_key = "full_name \<times> component"

definition data_key :: "(byte list \<Rightarrow> byte list) \<Rightarrow> data \<Rightarrow> cs_key" where
  "data_key sha256 d = (name_of (d_name d), digest_component sha256 d)"

definition three_way :: "'a :: linorder \<Rightarrow> 'a \<Rightarrow> int" where
  "three_way a b = (if a < b then - 1 else if a = b then 0 else 1)"

definition is_digest :: "component \<Rightarrow> bool" where
  "is_digest c \<longleftrightarrow> comp_type c = tlv_ImplicitSha256DigestComponent \<and> length (comp_value c) = SHA256_DIGEST_SIZE"

definition compareQueryWithData :: "full_name \<Rightarrow> cs_key \<Rightarrow> int" where
  "compareQueryWithData queryName d =
     (let queryIsFullName = queryName \<noteq> [] \<and> is_digest (last queryName);
          cmp = (if queryIsFullName then three_way (butlast queryName) (fst d) else three_way queryName (fst d))
      in if cmp \<noteq> 0 then cmp else if queryIsFullName then three_way (last queryName) (snd d) else - 1)"

definition compareDataWithData :: "cs_key \<Rightarrow> cs_key \<Rightarrow> int" where
  "compareDataWithData lhs rhs =
     (let cmp = three_way (fst lhs) (fst rhs) in if cmp \<noteq> 0 then cmp else three_way (snd lhs) (snd rhs))"

definition stored_less :: "cs_key \<Rightarrow> cs_key \<Rightarrow> bool" where
  "stored_less a b \<longleftrightarrow> compareDataWithData a b < 0"

type_synonym cs_table = "(cs_key \<times> cs_entry) list"

text \<open>\<^verbatim>\<open>m_table.lower_bound(queryName)\<close>\<close>

definition query_lower_bound :: "full_name \<Rightarrow> cs_table \<Rightarrow> nat" where
  "query_lower_bound q t = length (takeWhile (\<lambda>e. compareQueryWithData q (fst e) > 0) t)"

section \<open>Policies\<close>

datatype queue_type = QUEUE_UNSOLICITED | QUEUE_STALE | QUEUE_FIFO

text \<open>\<^verbatim>\<open>moveStaleEventId\<close> is the time at which a scheduled event is due.\<close>

record entry_info =
  nfo_queueType :: queue_type
  nfo_moveStale :: "int option"

record priority_fifo =
  pf_queues :: "queue_type \<Rightarrow> cs_key list"
  pf_entryInfoMap :: "cs_key \<Rightarrow> entry_info option"

datatype cs_policy = PriorityFifo priority_fifo | Lru "cs_key list"

record cs =
  cs_table :: cs_table
  cs_policy :: cs_policy
  cs_limit :: nat

definition PriorityFifo_new :: cs_policy where
  "PriorityFifo_new = PriorityFifo \<lparr>pf_queues = (\<lambda>_. []), pf_entryInfoMap = (\<lambda>_. None)\<rparr>"

definition Lru_new :: cs_policy where
  "Lru_new = Lru []"

definition attachQueue :: "int \<Rightarrow> cs_key \<Rightarrow> cs_entry \<Rightarrow> priority_fifo \<Rightarrow> priority_fifo res" where
  "attachQueue now k e pf =
     (if pf_entryInfoMap pf k \<noteq> None then Inl (UndefinedBehaviour ''assertion failed: m_entryInfoMap.find(i) == m_entryInfoMap.end()'')
      else
        (let ty = (if ce_isUnsolicited e then QUEUE_UNSOLICITED else if isStale now e then QUEUE_STALE else QUEUE_FIFO);
             event = (if ty = QUEUE_FIFO \<and> canStale e then Some (time_after now (mi_freshnessPeriod (d_metaInfo (ce_data e)))) else None)
         in Inr \<lparr>pf_queues = (pf_queues pf)(ty := pf_queues pf ty @ [k]),
                 pf_entryInfoMap = (pf_entryInfoMap pf)(k \<mapsto> \<lparr>nfo_queueType = ty, nfo_moveStale = event\<rparr>)\<rparr>))"

definition detachQueue :: "cs_key \<Rightarrow> priority_fifo \<Rightarrow> priority_fifo res" where
  "detachQueue k pf =
     (case pf_entryInfoMap pf k of
        None \<Rightarrow> Inl (UndefinedBehaviour ''assertion failed: m_entryInfoMap.find(i) != m_entryInfoMap.end()'')
      | Some info \<Rightarrow>
          Inr \<lparr>pf_queues = (pf_queues pf)(nfo_queueType info := remove1 k (pf_queues pf (nfo_queueType info))),
               pf_entryInfoMap = (pf_entryInfoMap pf)(k := None)\<rparr>)"

text \<open>The event that an entry of the FIFO queue has become stale.\<close>

definition moveToStaleQueue :: "cs_key \<Rightarrow> priority_fifo \<Rightarrow> priority_fifo res" where
  "moveToStaleQueue k pf =
     (case pf_entryInfoMap pf k of
        None \<Rightarrow> Inl (UndefinedBehaviour ''assertion failed: m_entryInfoMap.find(i) != m_entryInfoMap.end()'')
      | Some info \<Rightarrow>
          if nfo_queueType info \<noteq> QUEUE_FIFO then Inl (UndefinedBehaviour ''assertion failed: entryInfo->queueType == QUEUE_FIFO'')
          else
            (let q = (pf_queues pf)(QUEUE_FIFO := remove1 k (pf_queues pf QUEUE_FIFO))
             in Inr \<lparr>pf_queues = q(QUEUE_STALE := q QUEUE_STALE @ [k]),
                     pf_entryInfoMap = (pf_entryInfoMap pf)(k \<mapsto> \<lparr>nfo_queueType = QUEUE_STALE, nfo_moveStale = None\<rparr>)\<rparr>))"

definition pf_front :: "priority_fifo \<Rightarrow> cs_key res" where
  "pf_front pf =
     (if pf_queues pf QUEUE_UNSOLICITED \<noteq> [] then Inr (hd (pf_queues pf QUEUE_UNSOLICITED))
      else if pf_queues pf QUEUE_STALE \<noteq> [] then Inr (hd (pf_queues pf QUEUE_STALE))
      else if pf_queues pf QUEUE_FIFO \<noteq> [] then Inr (hd (pf_queues pf QUEUE_FIFO))
      else Inl (UndefinedBehaviour ''assertion failed: a queue is not empty''))"

text \<open>Each policy gives up the entry to evict next, at an insertion, a refreshment or a use it updates its queues.\<close>

definition pf_evict :: "priority_fifo \<Rightarrow> (cs_key \<times> priority_fifo) res" where
  "pf_evict pf = (case pf_front pf of Inl e \<Rightarrow> Inl e | Inr k \<Rightarrow> map_sum id (\<lambda>pf'. (k, pf')) (detachQueue k pf))"

definition pf_refresh :: "int \<Rightarrow> cs_key \<Rightarrow> cs_entry \<Rightarrow> priority_fifo \<Rightarrow> priority_fifo res" where
  "pf_refresh now k e pf = (case detachQueue k pf of Inl err \<Rightarrow> Inl err | Inr pf' \<Rightarrow> attachQueue now k e pf')"

definition pf_beforeUse :: "cs_key \<Rightarrow> priority_fifo \<Rightarrow> priority_fifo res" where
  "pf_beforeUse k pf =
     (if pf_entryInfoMap pf k = None then Inl (UndefinedBehaviour ''assertion failed: m_entryInfoMap.find(i) != m_entryInfoMap.end()'') else Inr pf)"

text \<open>The queue of the LRU policy is a set as well.\<close>

definition insertToQueue :: "cs_key \<Rightarrow> bool \<Rightarrow> cs_key list \<Rightarrow> cs_key list res" where
  "insertToQueue k isNewEntry q =
     (let isNew = k \<notin> set q
      in if isNew \<noteq> isNewEntry then Inl (UndefinedBehaviour ''assertion failed: isNew == isNewEntry'')
         else if isNew then Inr (q @ [k]) else Inr (remove1 k q @ [k]))"

definition lru_evict :: "cs_key list \<Rightarrow> (cs_key \<times> cs_key list) res" where
  "lru_evict q = (case q of [] \<Rightarrow> Inl (UndefinedBehaviour ''assertion failed: !m_queue.empty()'') | k # q' \<Rightarrow> Inr (k, q'))"

text \<open>The virtual functions.\<close>

definition policy_insert :: "int \<Rightarrow> cs_key \<Rightarrow> cs_entry \<Rightarrow> cs_policy \<Rightarrow> cs_policy res" where
  "policy_insert now k e p =
     (case p of PriorityFifo pf \<Rightarrow> map_sum id PriorityFifo (attachQueue now k e pf) | Lru q \<Rightarrow> map_sum id Lru (insertToQueue k True q))"

definition policy_refresh :: "int \<Rightarrow> cs_key \<Rightarrow> cs_entry \<Rightarrow> cs_policy \<Rightarrow> cs_policy res" where
  "policy_refresh now k e p =
     (case p of PriorityFifo pf \<Rightarrow> map_sum id PriorityFifo (pf_refresh now k e pf) | Lru q \<Rightarrow> map_sum id Lru (insertToQueue k False q))"

definition policy_use :: "cs_key \<Rightarrow> cs_policy \<Rightarrow> cs_policy res" where
  "policy_use k p =
     (case p of PriorityFifo pf \<Rightarrow> map_sum id PriorityFifo (pf_beforeUse k pf) | Lru q \<Rightarrow> map_sum id Lru (insertToQueue k False q))"

definition policy_evict :: "cs_policy \<Rightarrow> (cs_key \<times> cs_policy) res" where
  "policy_evict p =
     (case p of PriorityFifo pf \<Rightarrow> map_sum id (map_prod id PriorityFifo) (pf_evict pf) | Lru q \<Rightarrow> map_sum id (map_prod id Lru) (lru_evict q))"

text \<open>An event of the priority FIFO policy; the LRU policy has none.\<close>

definition policy_staleEvent :: "cs_key \<Rightarrow> cs_policy \<Rightarrow> cs_policy res" where
  "policy_staleEvent k p = (case p of PriorityFifo pf \<Rightarrow> map_sum id PriorityFifo (moveToStaleQueue k pf) | Lru q \<Rightarrow> Inr p)"

text \<open>The signal \<^verbatim>\<open>beforeEvict\<close>, at which the store erases the entry; erasing what is not there is undefined.\<close>

definition Table_erase :: "cs_key \<Rightarrow> cs_table \<Rightarrow> cs_table res" where
  "Table_erase k t =
     (if k \<in> set (map fst t) then Inr (filter (\<lambda>e. fst e \<noteq> k) t) else Inl (UndefinedBehaviour ''erase of an invalid iterator''))"

definition evictOne :: "cs \<Rightarrow> cs res" where
  "evictOne x =
     (case policy_evict (cs_policy x) of
        Inl e \<Rightarrow> Inl e
      | Inr (k, p) \<Rightarrow> (case Table_erase k (cs_table x) of Inl e \<Rightarrow> Inl e | Inr t \<Rightarrow> Inr (x\<lparr>cs_table := t, cs_policy := p\<rparr>)))"

lemma Table_erase_shorter: "Table_erase k t = Inr t' \<Longrightarrow> length t' < length t"
  by (auto simp: Table_erase_def split: if_splits intro!: length_filter_less)

lemma evictOne_shorter: "evictOne x = Inr y \<Longrightarrow> length (cs_table y) < length (cs_table x)"
  by (auto simp: evictOne_def dest: Table_erase_shorter split: sum.splits prod.splits)

function Policy_evictEntries :: "cs \<Rightarrow> cs res" where
  "Policy_evictEntries x =
     (if length (cs_table x) > cs_limit x then (case evictOne x of Inl e \<Rightarrow> Inl e | Inr y \<Rightarrow> Policy_evictEntries y) else Inr x)"
  by pat_completeness auto

termination
  by (relation "measure (\<lambda>x. length (cs_table x))") (auto dest: evictOne_shorter)

declare Policy_evictEntries.simps [simp del]

definition with_policy :: "cs \<Rightarrow> cs_policy res \<Rightarrow> cs res" where
  "with_policy x r = map_sum id (\<lambda>p. x\<lparr>cs_policy := p\<rparr>) r"

definition Policy_afterInsert :: "int \<Rightarrow> cs_key \<Rightarrow> cs_entry \<Rightarrow> cs \<Rightarrow> cs res" where
  "Policy_afterInsert now k e x =
     (case with_policy x (policy_insert now k e (cs_policy x)) of Inl err \<Rightarrow> Inl err | Inr y \<Rightarrow> Policy_evictEntries y)"

definition Policy_afterRefresh :: "int \<Rightarrow> cs_key \<Rightarrow> cs_entry \<Rightarrow> cs \<Rightarrow> cs res" where
  "Policy_afterRefresh now k e x = with_policy x (policy_refresh now k e (cs_policy x))"

definition Policy_beforeUse :: "cs_key \<Rightarrow> cs \<Rightarrow> cs res" where
  "Policy_beforeUse k x = with_policy x (policy_use k (cs_policy x))"

definition Policy_staleEvent :: "cs_key \<Rightarrow> cs \<Rightarrow> cs res" where
  "Policy_staleEvent k x = with_policy x (policy_staleEvent k (cs_policy x))"

section \<open>The store\<close>

definition Cs_new :: "nat \<Rightarrow> cs" where
  "Cs_new nMaxPackets = \<lparr>cs_table = [], cs_policy = PriorityFifo_new, cs_limit = nMaxPackets\<rparr>"

definition Cs_setLimit :: "nat \<Rightarrow> cs \<Rightarrow> cs res" where
  "Cs_setLimit nMaxPackets x = Policy_evictEntries (x\<lparr>cs_limit := nMaxPackets\<rparr>)"

definition Cs_setPolicy :: "cs_policy \<Rightarrow> cs \<Rightarrow> cs res" where
  "Cs_setPolicy p x = Cs_setLimit (cs_limit x) (x\<lparr>cs_policy := p\<rparr>)"

definition change_entry :: "cs_key \<Rightarrow> (cs_entry \<Rightarrow> cs_entry) \<Rightarrow> cs_table \<Rightarrow> cs_table" where
  "change_entry k f t = map (\<lambda>e. if fst e = k then (k, f (snd e)) else e) t"

text \<open>\<open>noCache\<close> tells that the Data has the tag of the cache policy \<^verbatim>\<open>NO_CACHE\<close>.\<close>

definition Cs_insert :: "(byte list \<Rightarrow> byte list) \<Rightarrow> int \<Rightarrow> data \<Rightarrow> bool \<Rightarrow> bool \<Rightarrow> cs \<Rightarrow> cs res" where
  "Cs_insert sha256 now d isUnsolicited noCache x =
     (if cs_limit x = 0 then Inr x
      else if noCache then Inr x
      else
        (case emplace stored_less (data_key sha256 d) (CsEntry_setData now d isUnsolicited) (cs_table x) of
           (it, isNewEntry, t) \<Rightarrow>
             (let k = fst (t ! it); e1 = updateStaleTime now (snd (t ! it));
                  e2 = (if \<not> isNewEntry \<and> ce_isUnsolicited e1 \<and> \<not> isUnsolicited then unsetUnsolicited now e1 else e1);
                  y = x\<lparr>cs_table := change_entry k (\<lambda>_. e2) t\<rparr>
              in if \<not> isNewEntry then Policy_afterRefresh now k e2 y else Policy_afterInsert now k e2 y)))"

section \<open>Lookup\<close>

type_synonym cs_item = "cs_key \<times> cs_entry"

text \<open>\<^verbatim>\<open>std::find_if\<close> with a predicate that may throw; \<open>None\<close> is the end of the range.\<close>

fun find_entry :: "(cs_entry \<Rightarrow> bool res) \<Rightarrow> cs_item list \<Rightarrow> cs_item option res" where
  "find_entry p [] = Inr None"
| "find_entry p (e # es) = (case p (snd e) of Inl err \<Rightarrow> Inl err | Inr True \<Rightarrow> Inr (Some e) | Inr False \<Rightarrow> find_entry p es)"

definition findLeftmost :: "(cs_entry \<Rightarrow> bool res) \<Rightarrow> nat \<Rightarrow> nat \<Rightarrow> cs_table \<Rightarrow> cs_item option res" where
  "findLeftmost p first lst t = (if first > lst then Inl (UndefinedBehaviour ''not a range of iterators'') else find_entry p (slice first lst t))"

definition findRightmostAmongExact :: "(cs_entry \<Rightarrow> bool res) \<Rightarrow> nat \<Rightarrow> nat \<Rightarrow> cs_table \<Rightarrow> cs_item option res" where
  "findRightmostAmongExact p first lst t =
     (if first > lst then Inl (UndefinedBehaviour ''not a range of iterators'') else find_entry p (rev (slice first lst t)))"

lemma three_way_take: "three_way (take k xs) (xs :: 'a :: linorder list) \<le> 0"
  using take_le [of k xs] by (auto simp: three_way_def)

lemma butlast_take_le: "butlast (take k xs) \<le> (xs :: 'a :: linorder list)"
  by (metis butlast_conv_take length_take take_le take_take)

lemma query_of_prefix: "compareQueryWithData (take k (fst d)) d \<le> 0"
proof (cases "take k (fst d) \<noteq> [] \<and> is_digest (last (take k (fst d)))")
  case True
  have "length (butlast (take k (fst d))) < length (fst d)" using True by (cases "fst d") auto
  then have "butlast (take k (fst d)) \<noteq> fst d" by (metis less_irrefl)
  then have "butlast (take k (fst d)) < fst d" using butlast_take_le [of k "fst d"] by (simp only: order_less_le simp_thms)
  then show ?thesis using True by (simp add: compareQueryWithData_def three_way_def)
next
  case False
  then show ?thesis using three_way_take [of k "fst d"] by (auto simp: compareQueryWithData_def Let_def)
qed

lemma query_lower_bound_prefix:
  assumes "j < length t"
  shows "query_lower_bound (take k (fst (fst (t ! j)))) t \<le> j"
proof (rule ccontr)
  assume "\<not> query_lower_bound (take k (fst (fst (t ! j)))) t \<le> j"
  then have "t ! j \<in> set (takeWhile (\<lambda>e. compareQueryWithData (take k (fst (fst (t ! j)))) (fst e) > 0) t)"
    by (metis not_le nth_mem query_lower_bound_def takeWhile_nth)
  from set_takeWhileD [OF this] show False using query_of_prefix [of k "fst (t ! j)"] by simp
qed

function findRightmost_loop :: "(cs_entry \<Rightarrow> bool res) \<Rightarrow> nat \<Rightarrow> nat \<Rightarrow> cs_table \<Rightarrow> nat \<Rightarrow> cs_item option res" where
  "findRightmost_loop p interestNameLength first t right =
     (if right = first then Inr None
      else if right = 0 \<or> right > length t then Inl (UndefinedBehaviour ''iterator moved before the first entry'')
      else
        (let prev = t ! (right - 1)
         in if length (fst (fst prev)) = interestNameLength then findRightmostAmongExact p first right t
            else
              (let left = query_lower_bound (take (interestNameLength + 1) (fst (fst prev))) t
               in case findLeftmost p left right t of
                    Inl e \<Rightarrow> Inl e
                  | Inr (Some m) \<Rightarrow> Inr (Some m)
                  | Inr None \<Rightarrow> findRightmost_loop p interestNameLength first t left)))"
  by pat_completeness auto

termination
proof (relation "measure (\<lambda>(p, n, first, t, right). right)", goal_cases)
  case (2 p n first t right prev left)
  have "right - 1 < length t" using 2(2) by linarith
  from query_lower_bound_prefix [OF this, of "n + 1"] have "left \<le> right - 1" by (simp only: 2(3,5))
  then show ?case using 2(2) by auto
qed simp

declare findRightmost_loop.simps [simp del]

datatype cs_result = Hit data | Miss

definition Cs_find :: "(byte list \<Rightarrow> byte list) \<Rightarrow> int \<Rightarrow> interest \<Rightarrow> cs \<Rightarrow> (cs_result \<times> cs) res" where
  "Cs_find sha256 now i x =
     (let t = cs_table x; prefix = name_of (i_name i); p = canSatisfy sha256 now i; first = query_lower_bound prefix t
      in case (if prefix = [] then Inr (length t)
               else case Name_getSuccessor (i_name i) of Inl e \<Rightarrow> Inl e | Inr s \<Rightarrow> Inr (query_lower_bound (name_of s) t)) of
           Inl e \<Rightarrow> Inl e
         | Inr lst \<Rightarrow>
             (case (if sel_childSelector (i_selectors i) = 1 then findRightmost_loop p (length prefix) first t lst
                    else findLeftmost p first lst t) of
                Inl e \<Rightarrow> Inl e
              | Inr None \<Rightarrow> Inr (Miss, x)
              | Inr (Some m) \<Rightarrow> (case Policy_beforeUse (fst m) x of Inl e \<Rightarrow> Inl e | Inr y \<Rightarrow> Inr (Hit (ce_data (snd m)), y))))"

end
