(* ===== verification/Pit.thy ===== *)
theory Pit
  imports FibTable ContentStore
begin

text \<open>
  The pending Interest table, \<^verbatim>\<open>ndn/NFD/daemon/table/pit-entry.cpp\<close>, \<^verbatim>\<open>pit-face-record.cpp\<close>,
  \<^verbatim>\<open>pit-in-record.cpp\<close>, \<^verbatim>\<open>pit-out-record.cpp\<close> and \<^verbatim>\<open>pit.cpp\<close>. Entries are attached to the name tree;
  a pointer to an entry is its number in the store of live entries, a face is known by its number. An
  Interest packet is an Interest with its nonce, the face of its \<^verbatim>\<open>NextHopFaceIdTag\<close> and the number of
  the object that its pointers share; names are compared by their values.
\<close>

section \<open>Packets and faces\<close>

record interest_packet =
  ip_interest :: interest
  ip_nonce :: u32
  ip_nextHopFaceId :: "u64 option"
  ip_object :: nat

record face =
  fc_id :: u64
  fc_local :: bool
  fc_multiAccess :: bool

definition INVALID_FACEID :: u64 where
  "INVALID_FACEID = 0"

text \<open>The least severe reasons come first; \<open>NackNone\<close> is the most severe one.\<close>

datatype nack_reason = NackNone | Congestion | Duplicate | NoRoute

abbreviation ip_name :: "interest_packet \<Rightarrow> full_name" where
  "ip_name p \<equiv> name_of (i_name (ip_interest p))"

abbreviation ip_selectors :: "interest_packet \<Rightarrow> selectors" where
  "ip_selectors p \<equiv> i_selectors (ip_interest p)"

section \<open>Records\<close>

record in_record =
  in_face :: u64
  in_lastNonce :: u32
  in_lastRenewed :: int
  in_expiry :: int
  in_interest :: interest_packet

record out_record =
  out_face :: u64
  out_lastNonce :: u32
  out_lastRenewed :: int
  out_expiry :: int
  out_incomingNack :: "nack_reason option"

text \<open>The expiry of a record that is renewed now, in nanoseconds.\<close>

definition record_expiry :: "int \<Rightarrow> interest_packet \<Rightarrow> int" where
  "record_expiry now p =
     (let lifetime = i_interestLifetime (ip_interest p)
      in time_after now (if lifetime < 0 then DEFAULT_INTEREST_LIFETIME else lifetime))"

definition InRecord_update :: "int \<Rightarrow> interest_packet \<Rightarrow> in_record \<Rightarrow> in_record" where
  "InRecord_update now p r = r\<lparr>in_lastNonce := ip_nonce p, in_lastRenewed := now, in_expiry := record_expiry now p, in_interest := p\<rparr>"

definition OutRecord_update :: "int \<Rightarrow> interest_packet \<Rightarrow> out_record \<Rightarrow> out_record" where
  "OutRecord_update now p r = r\<lparr>out_lastNonce := ip_nonce p, out_lastRenewed := now, out_expiry := record_expiry now p\<rparr>"

definition setIncomingNack :: "u32 \<Rightarrow> nack_reason \<Rightarrow> out_record \<Rightarrow> out_record" where
  "setIncomingNack nonce reason r = (if nonce \<noteq> out_lastNonce r then r else r\<lparr>out_incomingNack := Some reason\<rparr>)"

text \<open>The times of a new record are the least ones until it is updated.\<close>

definition InRecord_new :: "u64 \<Rightarrow> interest_packet \<Rightarrow> in_record" where
  "InRecord_new f p = \<lparr>in_face = f, in_lastNonce = 0, in_lastRenewed = - (2 ^ 63), in_expiry = - (2 ^ 63), in_interest = p\<rparr>"

definition OutRecord_new :: "u64 \<Rightarrow> out_record" where
  "OutRecord_new f = \<lparr>out_face = f, out_lastNonce = 0, out_lastRenewed = - (2 ^ 63), out_expiry = - (2 ^ 63), out_incomingNack = None\<rparr>"

section \<open>Entries\<close>

text \<open>
  The timers are the times at which they are due; the straggler timer also holds the arguments of
  \<^verbatim>\<open>onInterestFinalize\<close>. \<open>pe_suppression\<close> is the strategy information of the exponential suppression.
\<close>

record pit_entry =
  pe_interest :: interest_packet
  pe_inRecords :: "in_record list"
  pe_outRecords :: "out_record list"
  pe_nameTreeEntry :: "full_name option"
  pe_unsatisfyTimer :: "int option"
  pe_stragglerTimer :: "(int \<times> bool \<times> int) option"
  pe_suppression :: "int option"

definition PitEntry_new :: "interest_packet \<Rightarrow> pit_entry" where
  "PitEntry_new p = \<lparr>pe_interest = p, pe_inRecords = [], pe_outRecords = [], pe_nameTreeEntry = None,
     pe_unsatisfyTimer = None, pe_stragglerTimer = None, pe_suppression = None\<rparr>"

definition canMatch :: "pit_entry \<Rightarrow> interest_packet \<Rightarrow> nat \<Rightarrow> bool res" where
  "canMatch e p nEqualNameComps =
     (let own = ip_name (pe_interest e)
      in if take nEqualNameComps own \<noteq> take nEqualNameComps (ip_name p)
         then Inl (UndefinedBehaviour ''assertion failed: the initial name components are equal'')
         else if drop nEqualNameComps own \<noteq> drop nEqualNameComps (ip_name p) then Inr False
         else Selectors_equals (ip_selectors (pe_interest e)) (ip_selectors p))"

text \<open>\<^verbatim>\<open>BOOST_ASSERT(this->canMatch(interest))\<close>\<close>

definition assert_canMatch :: "pit_entry \<Rightarrow> interest_packet \<Rightarrow> 'a \<Rightarrow> 'a res" where
  "assert_canMatch e p x =
     (case canMatch e p 0 of
        Inl err \<Rightarrow> Inl err
      | Inr m \<Rightarrow> if m then Inr x else Inl (UndefinedBehaviour ''assertion failed: this->canMatch(interest)''))"

definition getInRecord :: "u64 \<Rightarrow> pit_entry \<Rightarrow> in_record option" where
  "getInRecord f e = List.find (\<lambda>r. in_face r = f) (pe_inRecords e)"

definition getOutRecord :: "u64 \<Rightarrow> pit_entry \<Rightarrow> out_record option" where
  "getOutRecord f e = List.find (\<lambda>r. out_face r = f) (pe_outRecords e)"

text \<open>A change of the first element with a property.\<close>

fun update_first :: "('a \<Rightarrow> bool) \<Rightarrow> ('a \<Rightarrow> 'a) \<Rightarrow> 'a list \<Rightarrow> 'a list" where
  "update_first P f [] = []"
| "update_first P f (x # xs) = (if P x then f x # xs else x # update_first P f xs)"

fun remove_first :: "('a \<Rightarrow> bool) \<Rightarrow> 'a list \<Rightarrow> 'a list" where
  "remove_first P [] = []"
| "remove_first P (x # xs) = (if P x then xs else x # remove_first P xs)"

definition insertOrUpdateInRecord :: "int \<Rightarrow> u64 \<Rightarrow> interest_packet \<Rightarrow> pit_entry \<Rightarrow> pit_entry res" where
  "insertOrUpdateInRecord now f p e =
     assert_canMatch e p
       (let rs = (if getInRecord f e = None then InRecord_new f p # pe_inRecords e else pe_inRecords e)
        in e\<lparr>pe_inRecords := update_first (\<lambda>r. in_face r = f) (InRecord_update now p) rs\<rparr>)"

definition insertOrUpdateOutRecord :: "int \<Rightarrow> u64 \<Rightarrow> interest_packet \<Rightarrow> pit_entry \<Rightarrow> pit_entry res" where
  "insertOrUpdateOutRecord now f p e =
     assert_canMatch e p
       (let rs = (if getOutRecord f e = None then OutRecord_new f # pe_outRecords e else pe_outRecords e)
        in e\<lparr>pe_outRecords := update_first (\<lambda>r. out_face r = f) (OutRecord_update now p) rs\<rparr>)"

definition deleteInRecord :: "u64 \<Rightarrow> pit_entry \<Rightarrow> pit_entry" where
  "deleteInRecord f e = e\<lparr>pe_inRecords := remove_first (\<lambda>r. in_face r = f) (pe_inRecords e)\<rparr>"

definition clearInRecords :: "pit_entry \<Rightarrow> pit_entry" where
  "clearInRecords e = e\<lparr>pe_inRecords := []\<rparr>"

definition deleteOutRecord :: "u64 \<Rightarrow> pit_entry \<Rightarrow> pit_entry" where
  "deleteOutRecord f e = e\<lparr>pe_outRecords := remove_first (\<lambda>r. out_face r = f) (pe_outRecords e)\<rparr>"

definition hasInRecords :: "pit_entry \<Rightarrow> bool" where
  "hasInRecords e \<longleftrightarrow> pe_inRecords e \<noteq> []"

section \<open>The table\<close>

record pit =
  pit_nameTree :: hashtable
  pit_entries :: "nat \<Rightarrow> pit_entry option"
  pit_next :: nat
  pit_nItems :: u64

definition Pit_new :: "hashtable \<Rightarrow> pit" where
  "Pit_new t = \<lparr>pit_nameTree = t, pit_entries = (\<lambda>_. None), pit_next = 0, pit_nItems = 0\<rparr>"

definition nteHasPitEntries :: "nt_entry \<Rightarrow> bool" where
  "nteHasPitEntries e \<longleftrightarrow> ne_pitEntries e \<noteq> []"

text \<open>A change through a pointer to an entry.\<close>

definition change_pit_entry :: "nat \<Rightarrow> (pit_entry \<Rightarrow> pit_entry) \<Rightarrow> pit \<Rightarrow> pit" where
  "change_pit_entry j f x = x\<lparr>pit_entries := (pit_entries x)(j := map_option f (pit_entries x j))\<rparr>"

definition nte_insertPitEntry :: "full_name \<Rightarrow> nat \<Rightarrow> pit \<Rightarrow> pit" where
  "nte_insertPitEntry n j x =
     change_pit_entry j (\<lambda>e. e\<lparr>pe_nameTreeEntry := Some n\<rparr>)
       (x\<lparr>pit_nameTree := ht_update n (\<lambda>e. e\<lparr>ne_pitEntries := ne_pitEntries e @ [j]\<rparr>) (pit_nameTree x)\<rparr>)"

text \<open>The last entry takes the place of the erased one; the entry is deallocated.\<close>

definition swap_remove :: "nat \<Rightarrow> 'a list \<Rightarrow> 'a list" where
  "swap_remove k xs = butlast (xs[k := last xs])"

definition nte_erasePitEntry :: "full_name \<Rightarrow> nat \<Rightarrow> pit \<Rightarrow> pit res" where
  "nte_erasePitEntry n j x =
     (let js = ne_pitEntries (ht_entry (pit_nameTree x) n); k = find_if (\<lambda>i. i = j) js
      in if k = length js then Inl (UndefinedBehaviour ''assertion failed: it != m_pitEntries.end()'')
         else Inr (x\<lparr>pit_nameTree := ht_update n (\<lambda>e. e\<lparr>ne_pitEntries := swap_remove k (ne_pitEntries e)\<rparr>) (pit_nameTree x),
                     pit_entries := (pit_entries x)(j := None)\<rparr>))"

text \<open>\<^verbatim>\<open>std::find_if\<close> over the entries of one name.\<close>

fun find_pit_entry :: "pit \<Rightarrow> interest_packet \<Rightarrow> nat \<Rightarrow> nat list \<Rightarrow> nat option res" where
  "find_pit_entry x p k [] = Inr None"
| "find_pit_entry x p k (j # js) =
     (case pit_entries x j of
        None \<Rightarrow> Inl (UndefinedBehaviour ''dangling pointer to a PIT entry'')
      | Some e \<Rightarrow> (case canMatch e p k of
           Inl err \<Rightarrow> Inl err | Inr True \<Rightarrow> Inr (Some j) | Inr False \<Rightarrow> find_pit_entry x p k js))"

text \<open>The name an entry for an Interest is attached to.\<close>

definition nte_name :: "full_name \<Rightarrow> full_name" where
  "nte_name n = (if n \<noteq> [] \<and> is_digest (last n) then butlast n else n)"

definition Pit_findOrInsert :: "interest_packet \<Rightarrow> bool \<Rightarrow> pit \<Rightarrow> (pit \<times> nat option \<times> bool) res" where
  "Pit_findOrInsert p allowInsert x =
     (let n = nte_name (ip_name p)
      in case (if allowInsert then map_sum id (\<lambda>t. (t, Some n)) (NameTree_lookup n (pit_nameTree x))
               else Inr (pit_nameTree x, NameTree_findExactMatch n (pit_nameTree x))) of
           Inl e \<Rightarrow> Inl e
         | Inr (t, None) \<Rightarrow> Inr (x\<lparr>pit_nameTree := t\<rparr>, None, True)
         | Inr (t, Some m) \<Rightarrow>
             (case find_pit_entry x p (length n) (ne_pitEntries (ht_entry t m)) of
                Inl e \<Rightarrow> Inl e
              | Inr (Some j) \<Rightarrow> Inr (x\<lparr>pit_nameTree := t\<rparr>, Some j, False)
              | Inr None \<Rightarrow>
                  if \<not> allowInsert then
                    (if ne_isEmpty (ht_entry t m) then Inl (UndefinedBehaviour ''assertion failed: !nte->isEmpty()'')
                     else Inr (x\<lparr>pit_nameTree := t\<rparr>, None, True))
                  else
                    (let j = pit_next x;
                         y = x\<lparr>pit_nameTree := t, pit_entries := (pit_entries x)(j \<mapsto> PitEntry_new p), pit_next := j + 1\<rparr>
                     in Inr ((nte_insertPitEntry n j y)\<lparr>pit_nItems := pit_nItems x + 1\<rparr>, Some j, True))))"

definition Pit_insert :: "interest_packet \<Rightarrow> pit \<Rightarrow> (pit \<times> nat option \<times> bool) res" where
  "Pit_insert p x = Pit_findOrInsert p True x"

definition Pit_find :: "interest_packet \<Rightarrow> pit \<Rightarrow> nat option res" where
  "Pit_find p x = map_sum id (\<lambda>(_, r, _). r) (Pit_findOrInsert p False x)"

text \<open>
  The entries of the name tree that \<^verbatim>\<open>findAllMatches\<close> enumerates, from one with the property and up
  through the parents; \<open>None\<close> is a loop that does not end.
\<close>

partial_function (option) enumerate_matches :: "(nt_entry \<Rightarrow> bool) \<Rightarrow> full_name option \<Rightarrow> hashtable \<Rightarrow> full_name list option" where
  "enumerate_matches selector entry t =
     (case entry of
        None \<Rightarrow> Some []
      | Some n \<Rightarrow> Option.bind (findLongestPrefixMatch_entry selector (ne_parent (ht_entry t n)) t)
           (\<lambda>m. Option.bind (enumerate_matches selector m t) (\<lambda>ns. Some (n # ns))))"

definition NameTree_findAllMatches :: "(nt_entry \<Rightarrow> bool) \<Rightarrow> full_name \<Rightarrow> hashtable \<Rightarrow> full_name list res option" where
  "NameTree_findAllMatches selector n t =
     (case findLongestPrefixMatch_name selector n t of
        Inl e \<Rightarrow> Some (Inl e) | Inr m \<Rightarrow> map_option Inr (enumerate_matches selector m t))"

fun filter_matches :: "(byte list \<Rightarrow> byte list) \<Rightarrow> data \<Rightarrow> pit \<Rightarrow> nat list \<Rightarrow> nat list res" where
  "filter_matches sha256 d x [] = Inr []"
| "filter_matches sha256 d x (j # js) =
     (case pit_entries x j of
        None \<Rightarrow> Inl (UndefinedBehaviour ''dangling pointer to a PIT entry'')
      | Some e \<Rightarrow> (case Interest_matchesData sha256 (ip_interest (pe_interest e)) d of
           Inl err \<Rightarrow> Inl err
         | Inr m \<Rightarrow> map_sum id (\<lambda>ks. if m then j # ks else ks) (filter_matches sha256 d x js)))"

definition findAllDataMatches :: "(byte list \<Rightarrow> byte list) \<Rightarrow> data \<Rightarrow> pit \<Rightarrow> nat list res option" where
  "findAllDataMatches sha256 d x =
     (case NameTree_findAllMatches nteHasPitEntries (name_of (d_name d)) (pit_nameTree x) of
        None \<Rightarrow> None
      | Some (Inl e) \<Rightarrow> Some (Inl e)
      | Some (Inr ns) \<Rightarrow> Some (filter_matches sha256 d x (concat (map (\<lambda>n. ne_pitEntries (ht_entry (pit_nameTree x) n)) ns))))"

definition Pit_erase :: "nat \<Rightarrow> bool \<Rightarrow> pit \<Rightarrow> pit res option" where
  "Pit_erase j canDeleteNte x =
     (case pit_entries x j of
        None \<Rightarrow> Some (Inl (UndefinedBehaviour ''dangling pointer to a PIT entry''))
      | Some e \<Rightarrow>
          (case pe_nameTreeEntry e of
             None \<Rightarrow> Some (Inl (UndefinedBehaviour ''assertion failed: nte != nullptr''))
           | Some n \<Rightarrow>
               (case nte_erasePitEntry n j x of
                  Inl err \<Rightarrow> Some (Inl err)
                | Inr y \<Rightarrow>
                    if canDeleteNte then
                      (case eraseIfEmpty n True (pit_nameTree y) of
                         None \<Rightarrow> None
                       | Some (Inl err) \<Rightarrow> Some (Inl err)
                       | Some (Inr (t, k)) \<Rightarrow> Some (Inr (y\<lparr>pit_nameTree := t, pit_nItems := pit_nItems y - 1\<rparr>)))
                    else Some (Inr (y\<lparr>pit_nItems := pit_nItems y - 1\<rparr>)))))"

definition deleteInOutRecords :: "nat \<Rightarrow> u64 \<Rightarrow> pit \<Rightarrow> pit" where
  "deleteInOutRecords j f x = change_pit_entry j (\<lambda>e. deleteOutRecord f (deleteInRecord f e)) x"

section \<open>Algorithms over entries\<close>

text \<open>\<^verbatim>\<open>fw/algorithm.cpp\<close>; the two prefixes are the values of \<^verbatim>\<open>ndn:/localhost\<close> and \<^verbatim>\<open>ndn:/localhop\<close>.\<close>

definition LOCALHOST :: full_name where
  "LOCALHOST = [Component tlv_NameComponent (map (of_nat \<circ> of_char) ''localhost'')]"

definition LOCALHOP :: full_name where
  "LOCALHOP = [Component tlv_NameComponent (map (of_nat \<circ> of_char) ''localhop'')]"

definition wouldViolateScope :: "face \<Rightarrow> interest_packet \<Rightarrow> face \<Rightarrow> bool" where
  "wouldViolateScope inFace p outFace =
     (if fc_local outFace then False
      else if is_prefix LOCALHOST (ip_name p) then True
      else if is_prefix LOCALHOP (ip_name p) then \<not> fc_local inFace
      else False)"

definition canForwardToLegacy :: "int \<Rightarrow> pit_entry \<Rightarrow> u64 \<Rightarrow> bool" where
  "canForwardToLegacy now e f =
     (if list_ex (\<lambda>r. out_face r = f \<and> out_expiry r \<ge> now) (pe_outRecords e) then False
      else if \<not> list_ex (\<lambda>r. in_face r \<noteq> f \<and> in_expiry r \<ge> now) (pe_inRecords e) then False
      else True)"

definition findDuplicateNonce :: "pit_entry \<Rightarrow> u32 \<Rightarrow> u64 \<Rightarrow> nat" where
  "findDuplicateNonce e nonce f =
     (let ins = filter (\<lambda>r. in_lastNonce r = nonce) (pe_inRecords e); outs = filter (\<lambda>r. out_lastNonce r = nonce) (pe_outRecords e)
      in (if list_ex (\<lambda>r. in_face r = f) ins then 1 else 0) + (if list_ex (\<lambda>r. in_face r \<noteq> f) ins then 2 else 0)
         + (if list_ex (\<lambda>r. out_face r = f) outs then 4 else 0) + (if list_ex (\<lambda>r. out_face r \<noteq> f) outs then 8 else 0))"

definition hasPendingOutRecords :: "int \<Rightarrow> pit_entry \<Rightarrow> bool" where
  "hasPendingOutRecords now e \<longleftrightarrow> list_ex (\<lambda>r. out_expiry r \<ge> now \<and> out_incomingNack r = None) (pe_outRecords e)"

end
