(* ===== verification/DeadNonceList.thy ===== *)
theory DeadNonceList
  imports NameMap "HOL-Library.Multiset"
begin

text \<open>
  The Dead Nonce List, \<^verbatim>\<open>ndn/NFD/daemon/table/dead-nonce-list.cpp\<close>: a queue of hashes of names and nonces
  whose capacity follows how many marks, which are pushed at regular times, are in it. The hash is an
  argument; the two events of the scheduler are operations of their own.
\<close>

record dead_nonce_list =
  dnl_lifetime :: int
  dnl_queue :: "u64 list"
  dnl_capacity :: nat
  dnl_actualMarkCounts :: "nat multiset"

definition DNL_DEFAULT_LIFETIME :: int where "DNL_DEFAULT_LIFETIME = 6 * 10 ^ 9"
definition DNL_MIN_LIFETIME :: int where "DNL_MIN_LIFETIME = 10 ^ 6"
definition INITIAL_CAPACITY :: nat where "INITIAL_CAPACITY = 2 ^ 7"
definition MIN_CAPACITY :: nat where "MIN_CAPACITY = 2 ^ 3"
definition MAX_CAPACITY :: nat where "MAX_CAPACITY = 2 ^ 24"
definition MARK :: u64 where "MARK = 0"
definition EXPECTED_MARK_COUNT :: nat where "EXPECTED_MARK_COUNT = 5"
definition EVICT_LIMIT :: nat where "EVICT_LIMIT = 2 ^ 6"

text \<open>
  The products with 1.2 and 0.9, cut to integers. Up to the maximum the rounding of the double never
  crosses an integer.
\<close>

definition capacity_up :: "nat \<Rightarrow> nat" where "capacity_up c = c * 12 div 10"
definition capacity_down :: "nat \<Rightarrow> nat" where "capacity_down c = c * 9 div 10"

definition DeadNonceList_new :: "int \<Rightarrow> dead_nonce_list res" where
  "DeadNonceList_new lifetime =
     (if lifetime < DNL_MIN_LIFETIME then Inl (StdError ''lifetime is less than MIN_LIFETIME'')
      else Inr \<lparr>dnl_lifetime = lifetime, dnl_queue = replicate EXPECTED_MARK_COUNT MARK, dnl_capacity = INITIAL_CAPACITY,
                dnl_actualMarkCounts = {#}\<rparr>)"

definition makeEntry :: "(byte list \<Rightarrow> u32 \<Rightarrow> u64) \<Rightarrow> name \<Rightarrow> u32 \<Rightarrow> u64 res" where
  "makeEntry hash n nonce = (case Name_wireEncode n of Inl e \<Rightarrow> Inl e | Inr w \<Rightarrow> Inr (hash (wire_bytes w) nonce))"

definition countMarks :: "dead_nonce_list \<Rightarrow> nat" where
  "countMarks l = count_list (dnl_queue l) MARK"

definition DNL_size :: "dead_nonce_list \<Rightarrow> nat" where
  "DNL_size l = length (dnl_queue l) - countMarks l"

definition DNL_has_entry :: "u64 \<Rightarrow> dead_nonce_list \<Rightarrow> bool" where
  "DNL_has_entry e l \<longleftrightarrow> e \<in> set (dnl_queue l)"

definition DNL_has :: "(byte list \<Rightarrow> u32 \<Rightarrow> u64) \<Rightarrow> name \<Rightarrow> u32 \<Rightarrow> dead_nonce_list \<Rightarrow> bool res" where
  "DNL_has hash n nonce l = map_sum id (\<lambda>e. DNL_has_entry e l) (makeEntry hash n nonce)"

definition DNL_evictEntries :: "dead_nonce_list \<Rightarrow> dead_nonce_list res" where
  "DNL_evictEntries l =
     (let nOverCapacity = int (length (dnl_queue l)) - int (dnl_capacity l)
      in if nOverCapacity \<le> 0 then Inr l
         else
           (let l' = l\<lparr>dnl_queue := drop (nat (min nOverCapacity (int EVICT_LIMIT))) (dnl_queue l)\<rparr>
            in if length (dnl_queue l') < dnl_capacity l' then Inl (UndefinedBehaviour ''assertion failed: m_queue.size() >= m_capacity'')
               else Inr l'))"

definition DNL_add_entry :: "u64 \<Rightarrow> dead_nonce_list \<Rightarrow> dead_nonce_list res" where
  "DNL_add_entry e l = DNL_evictEntries (l\<lparr>dnl_queue := dnl_queue l @ [e]\<rparr>)"

definition DNL_add :: "(byte list \<Rightarrow> u32 \<Rightarrow> u64) \<Rightarrow> name \<Rightarrow> u32 \<Rightarrow> dead_nonce_list \<Rightarrow> dead_nonce_list res" where
  "DNL_add hash n nonce l = (case makeEntry hash n nonce of Inl e \<Rightarrow> Inl e | Inr entry \<Rightarrow> DNL_add_entry entry l)"

definition DNL_mark :: "dead_nonce_list \<Rightarrow> dead_nonce_list" where
  "DNL_mark l =
     (let l' = l\<lparr>dnl_queue := dnl_queue l @ [MARK]\<rparr>
      in l'\<lparr>dnl_actualMarkCounts := add_mset (countMarks l') (dnl_actualMarkCounts l')\<rparr>)"

text \<open>The two ends of \<^verbatim>\<open>equal_range\<close>: no count is at most, or at least, the expected one.\<close>

definition adjusted_capacity :: "dead_nonce_list \<Rightarrow> nat" where
  "adjusted_capacity l =
     (if filter_mset (\<lambda>c. c \<le> EXPECTED_MARK_COUNT) (dnl_actualMarkCounts l) = {#} then max MIN_CAPACITY (capacity_down (dnl_capacity l))
      else if filter_mset (\<lambda>c. c \<ge> EXPECTED_MARK_COUNT) (dnl_actualMarkCounts l) = {#} then min MAX_CAPACITY (capacity_up (dnl_capacity l))
      else dnl_capacity l)"

definition DNL_adjustCapacity :: "dead_nonce_list \<Rightarrow> dead_nonce_list res" where
  "DNL_adjustCapacity l = DNL_evictEntries (l\<lparr>dnl_capacity := adjusted_capacity l, dnl_actualMarkCounts := {#}\<rparr>)"

section \<open>Bounds\<close>

definition dnl_ok :: "nat \<Rightarrow> dead_nonce_list \<Rightarrow> bool" where
  "dnl_ok m l \<longleftrightarrow> MIN_CAPACITY \<le> dnl_capacity l \<and> dnl_capacity l \<le> MAX_CAPACITY \<and> length (dnl_queue l) \<le> MAX_CAPACITY + m"

lemmas dnl_constants = MIN_CAPACITY_def MAX_CAPACITY_def INITIAL_CAPACITY_def EVICT_LIMIT_def EXPECTED_MARK_COUNT_def

text \<open>An eviction never fails its assertion, and keeps at least as many of the latest entries as the capacity.\<close>

lemma DNL_evictEntries_ok:
  "\<exists>j. DNL_evictEntries l = Inr (l\<lparr>dnl_queue := drop j (dnl_queue l)\<rparr>) \<and> j = min (length (dnl_queue l) - dnl_capacity l) EVICT_LIMIT"
proof -
  have "nat (min (int (length (dnl_queue l)) - int (dnl_capacity l)) (int EVICT_LIMIT)) = min (length (dnl_queue l) - dnl_capacity l) EVICT_LIMIT"
    by linarith
  then show ?thesis by (auto simp: DNL_evictEntries_def Let_def)
qed

lemma adjusted_capacity_ok: "dnl_ok m l \<Longrightarrow> MIN_CAPACITY \<le> adjusted_capacity l \<and> adjusted_capacity l \<le> MAX_CAPACITY"
  by (auto simp: dnl_ok_def adjusted_capacity_def dnl_constants capacity_up_def capacity_down_def)

lemma DNL_add_entry_ok:
  assumes "dnl_ok m l"
  shows "\<exists>l' j. DNL_add_entry e l = Inr l' \<and> dnl_ok m l' \<and> dnl_queue l' = drop j (dnl_queue l @ [e]) \<and> (j = 0 \<or> dnl_capacity l \<le> length (dnl_queue l'))
     \<and> dnl_capacity l' = dnl_capacity l \<and> dnl_lifetime l' = dnl_lifetime l"
proof -
  obtain j where j: "DNL_add_entry e l = Inr (l\<lparr>dnl_queue := drop j (dnl_queue l @ [e])\<rparr>)"
    "j = min (length (dnl_queue l @ [e]) - dnl_capacity l) EVICT_LIMIT"
    using DNL_evictEntries_ok [of "l\<lparr>dnl_queue := dnl_queue l @ [e]\<rparr>"] by (auto simp: DNL_add_entry_def)
  have "length (drop j (dnl_queue l @ [e])) \<le> MAX_CAPACITY + m" "j = 0 \<or> dnl_capacity l \<le> length (drop j (dnl_queue l @ [e]))"
    using assms j(2) by (auto simp: dnl_ok_def EVICT_LIMIT_def)
  then show ?thesis using j(1) assms by (auto simp: dnl_ok_def)
qed

lemma DNL_adjustCapacity_ok:
  assumes "dnl_ok m l" and "m \<le> EVICT_LIMIT"
  shows "\<exists>l' j. DNL_adjustCapacity l = Inr l' \<and> dnl_ok 0 l' \<and> dnl_queue l' = drop j (dnl_queue l) \<and> (j = 0 \<or> dnl_capacity l' \<le> length (dnl_queue l'))
     \<and> dnl_lifetime l' = dnl_lifetime l"
proof -
  let ?l = "l\<lparr>dnl_capacity := adjusted_capacity l, dnl_actualMarkCounts := {#}\<rparr>"
  obtain j where j: "DNL_adjustCapacity l = Inr (?l\<lparr>dnl_queue := drop j (dnl_queue l)\<rparr>)" "j = min (length (dnl_queue l) - adjusted_capacity l) EVICT_LIMIT"
    using DNL_evictEntries_ok [of ?l] by (auto simp: DNL_adjustCapacity_def)
  have c: "MIN_CAPACITY \<le> adjusted_capacity l" "adjusted_capacity l \<le> MAX_CAPACITY" using adjusted_capacity_ok [OF assms(1)] by simp_all
  have "length (drop j (dnl_queue l)) \<le> MAX_CAPACITY" "j = 0 \<or> adjusted_capacity l \<le> length (drop j (dnl_queue l))"
    using assms j(2) c by (auto simp: dnl_ok_def)
  then show ?thesis using j(1) c by (auto simp: dnl_ok_def)
qed

lemma DNL_mark_ok: "dnl_ok m l \<Longrightarrow> dnl_ok (m + 1) (DNL_mark l) \<and> dnl_queue (DNL_mark l) = dnl_queue l @ [MARK]"
  by (simp add: DNL_mark_def Let_def dnl_ok_def)

lemma DeadNonceList_new_ok: "DeadNonceList_new lifetime = Inr l \<Longrightarrow> dnl_ok 0 l"
  by (auto simp: DeadNonceList_new_def dnl_ok_def dnl_constants split: if_splits)

section \<open>The list over time\<close>

text \<open>What happens to the list; \<open>es\<close> is what is pushed and \<open>m\<close> counts the marks since the last adjustment.\<close>

inductive dnl_run :: "dead_nonce_list \<Rightarrow> u64 list \<Rightarrow> nat \<Rightarrow> dead_nonce_list \<Rightarrow> bool" for l where
  run_start: "dnl_run l [] 0 l"
| run_add: "dnl_run l es m x \<Longrightarrow> DNL_add_entry e x = Inr y \<Longrightarrow> dnl_run l (es @ [e]) m y"
| run_mark: "dnl_run l es m x \<Longrightarrow> m < EVICT_LIMIT \<Longrightarrow> dnl_run l (es @ [MARK]) (m + 1) (DNL_mark x)"
| run_adjust: "dnl_run l es m x \<Longrightarrow> DNL_adjustCapacity x = Inr y \<Longrightarrow> dnl_run l es 0 y"

lemma drop_again: "drop j (drop i xs @ ys) = drop (min i (length xs) + j) (xs @ ys)"
  by (cases "i \<le> length xs") (simp_all add: drop_drop add.commute)

lemma dnl_run_ok:
  "dnl_run l es m x \<Longrightarrow> dnl_ok 0 l \<Longrightarrow> dnl_ok m x \<and> m \<le> EVICT_LIMIT
     \<and> (\<exists>j. dnl_queue x = drop j (dnl_queue l @ es) \<and> (j = 0 \<or> MIN_CAPACITY \<le> length (dnl_queue x)))"
proof (induction rule: dnl_run.induct)
  case run_start
  then show ?case by (intro conjI exI [of _ 0]) simp_all
next
  case (run_add es m x e y)
  then obtain i where x: "dnl_ok m x" "m \<le> EVICT_LIMIT" "dnl_queue x = drop i (dnl_queue l @ es)" "i = 0 \<or> MIN_CAPACITY \<le> length (dnl_queue x)" by blast
  obtain j where y: "dnl_ok m y" "dnl_queue y = drop j (dnl_queue x @ [e])" "j = 0 \<or> dnl_capacity x \<le> length (dnl_queue y)"
    using DNL_add_entry_ok [OF x(1), of e] run_add.hyps(2) by auto
  have "dnl_queue y = drop (min i (length (dnl_queue l @ es)) + j) (dnl_queue l @ es @ [e])" using y(2) x(3) drop_again [of j i "dnl_queue l @ es" "[e]"] by simp
  moreover have "min i (length (dnl_queue l @ es)) + j = 0 \<or> MIN_CAPACITY \<le> length (dnl_queue y)" using x(1,4) y(2,3) by (auto simp: dnl_ok_def)
  ultimately show ?case using y(1) x(2) by blast
next
  case (run_mark es m x)
  then obtain i where x: "dnl_ok m x" "dnl_queue x = drop i (dnl_queue l @ es)" "i = 0 \<or> MIN_CAPACITY \<le> length (dnl_queue x)" by blast
  have "dnl_queue (DNL_mark x) = drop (min i (length (dnl_queue l @ es))) (dnl_queue l @ es @ [MARK])"
    using DNL_mark_ok [OF x(1)] x(2) drop_again [of 0 i "dnl_queue l @ es" "[MARK]"] by simp
  moreover have "min i (length (dnl_queue l @ es)) = 0 \<or> MIN_CAPACITY \<le> length (dnl_queue (DNL_mark x))" using x(3) DNL_mark_ok [OF x(1)] by auto
  moreover have "dnl_ok (m + 1) (DNL_mark x)" "m + 1 \<le> EVICT_LIMIT" using DNL_mark_ok [OF x(1)] run_mark.hyps(2) by simp_all
  ultimately show ?case by blast
next
  case (run_adjust es m x y)
  then obtain i where x: "dnl_ok m x" "m \<le> EVICT_LIMIT" "dnl_queue x = drop i (dnl_queue l @ es)" "i = 0 \<or> MIN_CAPACITY \<le> length (dnl_queue x)" by blast
  obtain j where y: "dnl_ok 0 y" "dnl_queue y = drop j (dnl_queue x)" "j = 0 \<or> dnl_capacity y \<le> length (dnl_queue y)"
    using DNL_adjustCapacity_ok [OF x(1,2)] run_adjust.hyps(2) by auto
  have "dnl_queue y = drop (j + i) (dnl_queue l @ es)" using y(2) x(3) by (simp add: drop_drop del: drop_append)
  moreover have "j + i = 0 \<or> MIN_CAPACITY \<le> length (dnl_queue y)" using x(4) y by (auto simp: dnl_ok_def)
  ultimately show ?case using y(1) by blast
qed

section \<open>Property\<close>

text \<open>
  C40: the Dead Nonce List through any sequence of additions, marks and adjustments of its capacity, with at most
  64 marks between two adjustments: the capacity stays between its limits, the queue within the
  greatest capacity and 64 more, no eviction fails its assertion, and whatever was added is found again
  until at least \<^verbatim>\<open>MIN_CAPACITY\<close> further entries have been pushed.
\<close>

theorem DNL_bounded_and_recent:
  assumes "DeadNonceList_new lifetime = Inr l" and "dnl_run l es m x"
  shows "MIN_CAPACITY \<le> dnl_capacity x \<and> dnl_capacity x \<le> MAX_CAPACITY \<and> length (dnl_queue x) \<le> MAX_CAPACITY + EVICT_LIMIT
     \<and> (\<forall>e \<in> set (drop (length es - MIN_CAPACITY) es). DNL_has_entry e x)
     \<and> (\<forall>e. \<exists>y. DNL_add_entry e x = Inr y) \<and> (\<exists>y. DNL_adjustCapacity x = Inr y)"
proof -
  obtain j where x: "dnl_ok m x" "m \<le> EVICT_LIMIT" "dnl_queue x = drop j (dnl_queue l @ es)" "j = 0 \<or> MIN_CAPACITY \<le> length (dnl_queue x)"
    using dnl_run_ok [OF assms(2) DeadNonceList_new_ok [OF assms(1)]] by blast
  have "j \<le> length (dnl_queue l @ es) - MIN_CAPACITY" using x(3,4) by (auto simp: MIN_CAPACITY_def simp del: drop_append)
  then have "set (drop (length (dnl_queue l @ es) - MIN_CAPACITY) (dnl_queue l @ es)) \<subseteq> set (dnl_queue x)"
    unfolding x(3) by (rule set_drop_subset_set_drop)
  moreover have "length (dnl_queue l @ es) - MIN_CAPACITY - length (dnl_queue l) = length es - MIN_CAPACITY" by simp
  ultimately have "set (drop (length es - MIN_CAPACITY) es) \<subseteq> set (dnl_queue x)" by simp
  then have "\<forall>e \<in> set (drop (length es - MIN_CAPACITY) es). DNL_has_entry e x" by (auto simp: DNL_has_entry_def)
  moreover have "\<exists>y. DNL_add_entry e x = Inr y" for e using DNL_add_entry_ok [OF x(1)] by blast
  moreover have "\<exists>y. DNL_adjustCapacity x = Inr y" using DNL_adjustCapacity_ok [OF x(1,2)] by blast
  ultimately show ?thesis using x(1,2) by (auto simp: dnl_ok_def)
qed

theorem DNL_bounded_and_recent_witness:
  "\<exists>l x. DeadNonceList_new DNL_DEFAULT_LIFETIME = Inr l \<and> dnl_run l [7, MARK] 1 x \<and> DNL_has_entry 7 x"
proof -
  obtain l where l: "DeadNonceList_new DNL_DEFAULT_LIFETIME = Inr l"
    by (simp add: DeadNonceList_new_def DNL_DEFAULT_LIFETIME_def DNL_MIN_LIFETIME_def)
  obtain y where y: "DNL_add_entry 7 l = Inr y" using DNL_add_entry_ok [OF DeadNonceList_new_ok [OF l]] by blast
  have "dnl_run l ([] @ [7]) 0 y" by (rule run_add [OF run_start y])
  then have run: "dnl_run l [7, MARK] 1 (DNL_mark y)" using run_mark [of l "[7]" 0 y] by (simp add: EVICT_LIMIT_def)
  have "DNL_has_entry 7 (DNL_mark y)" using DNL_bounded_and_recent [OF l run] by (simp add: MIN_CAPACITY_def)
  then show ?thesis using l run by blast
qed

end
