(* ===== verification/Link.thy ===== *)
theory Link
  imports Interest NameMap
begin

text \<open>
  The Link object, \<^verbatim>\<open>link.cpp\<close>: Data whose content is a set of delegations, each a preference and a
  name. The set is a sorted container whose keys are preferences and the values of the names.
\<close>

type_synonym delegations = "((u32 \<times> full_name) \<times> name) list"

record link =
  lk_data :: data
  lk_delegations :: delegations

definition delegation_less :: "u32 \<times> full_name \<Rightarrow> u32 \<times> full_name \<Rightarrow> bool" where
  "delegation_less a b \<longleftrightarrow> fst a < fst b \<or> fst a = fst b \<and> snd a < snd b"

definition insert_delegation :: "u32 \<Rightarrow> name \<Rightarrow> delegations \<Rightarrow> delegations" where
  "insert_delegation preference n ds = snd (snd (emplace delegation_less (preference, name_of n) n ds))"

section \<open>Decoding\<close>

definition decode_delegation :: "block \<Rightarrow> (u32 \<times> name) res" where
  "decode_delegation b =
     (case parsed b of
        Inl e \<Rightarrow> Inl e
      | Inr d \<Rightarrow>
          (case m_subBlocks d of
             [] \<Rightarrow> Inl (DataError ''Unexpected Link Encoding'')
           | p # vs \<Rightarrow>
               (case readNonNegativeInteger_block p of
                  Inl e \<Rightarrow> Inl (DataError ''Missing Preference field in Link Encoding'')
                | Inr preference \<Rightarrow>
                    (case vs of
                       [] \<Rightarrow> Inl (DataError ''Missing Name field in Link Encoding'')
                     | v # _ \<Rightarrow> (case Name_of_block v of Inl e \<Rightarrow> Inl e | Inr n \<Rightarrow> Inr (ucast preference, n))))))"

fun decode_delegations :: "block list \<Rightarrow> delegations \<Rightarrow> delegations res" where
  "decode_delegations [] ds = Inr ds"
| "decode_delegations (b # bs) ds =
     (case decode_delegation b of
        Inl e \<Rightarrow> Inl e
      | Inr (preference, n) \<Rightarrow> decode_delegations bs (insert_delegation preference n ds))"

definition Link_decodeContent :: "link \<Rightarrow> link res" where
  "Link_decodeContent l =
     (if mi_type (d_metaInfo (lk_data l)) \<noteq> ContentType_Link then Inl (DataError ''Expected Content Type Link'')
      else case Data_getContent (lk_data l) of
        Inl e \<Rightarrow> Inl e
      | Inr (content, d) \<Rightarrow>
          (case parsed content of
             Inl e \<Rightarrow> Inl e
           | Inr c \<Rightarrow> map_sum id (\<lambda>ds. \<lparr>lk_data = d, lk_delegations = ds\<rparr>) (decode_delegations (m_subBlocks c) (lk_delegations l))))"

definition Link_of_block :: "block \<Rightarrow> link res" where
  "Link_of_block b = (case Data_of_block b of Inl e \<Rightarrow> Inl e | Inr d \<Rightarrow> Link_decodeContent \<lparr>lk_data = d, lk_delegations = []\<rparr>)"

text \<open>The link of an Interest; the cached object is the one decoded before.\<close>

definition Interest_getLink :: "interest \<Rightarrow> link res" where
  "Interest_getLink i = (if Interest_hasLink i then Link_of_block (i_link i) else Inl (InterestError ''There is no encapsulated link object''))"

section \<open>Encoding\<close>

fun Link_encode_delegations :: "'s encoding_ops \<Rightarrow> delegations \<Rightarrow> nat \<Rightarrow> ('s, nat) state" where
  "Link_encode_delegations ops [] totalLength = State_Monad.return totalLength"
| "Link_encode_delegations ops (d # ds) totalLength = do {
     n1 \<leftarrow> Name_wireEncode_template ops (snd d);
     n2 \<leftarrow> prependNonNegativeIntegerBlock ops tlv_LinkPreference (ucast (fst (fst d)));
     n3 \<leftarrow> op_prependVarNumber ops (word_of_nat (n1 + n2));
     n4 \<leftarrow> op_prependVarNumber ops (ucast tlv_LinkDelegation);
     Link_encode_delegations ops ds (totalLength + (n1 + n2 + n3 + n4))
   }"

definition Link_encodeContent_template :: "'s encoding_ops \<Rightarrow> delegations \<Rightarrow> ('s, nat) state" where
  "Link_encodeContent_template ops ds = do {
     totalLength \<leftarrow> Link_encode_delegations ops (rev ds) 0;
     n1 \<leftarrow> op_prependVarNumber ops (word_of_nat totalLength);
     n2 \<leftarrow> op_prependVarNumber ops (ucast tlv_Content);
     State_Monad.return (totalLength + n1 + n2)
   }"

definition Link_encodeContent :: "link \<Rightarrow> link res" where
  "Link_encodeContent l =
     (case estimate_and_encode (Link_encodeContent_template estimator_ops (lk_delegations l)) (Link_encodeContent_template encoder_ops (lk_delegations l)) of
        Inl e \<Rightarrow> Inl e
      | Inr b \<Rightarrow> map_sum id (\<lambda>d. l\<lparr>lk_data := d\<rparr>) (Data_setContent (Data_setContentType (Data_onChanged (lk_data l)) ContentType_Link) b))"

definition removeDelegationNoEncode :: "name \<Rightarrow> delegations \<Rightarrow> bool \<times> delegations" where
  "removeDelegationNoEncode n ds =
     (let ds' = filter (\<lambda>d. \<not> Name_equals (snd d) n) ds in (length ds' < length ds, ds'))"

definition addDelegation :: "u32 \<Rightarrow> name \<Rightarrow> link \<Rightarrow> link res" where
  "addDelegation preference n l =
     Link_encodeContent (l\<lparr>lk_delegations := insert_delegation preference n (snd (removeDelegationNoEncode n (lk_delegations l)))\<rparr>)"

definition removeDelegation :: "name \<Rightarrow> link \<Rightarrow> (bool \<times> link) res" where
  "removeDelegation n l =
     (case removeDelegationNoEncode n (lk_delegations l) of
        (hasRemoved, ds) \<Rightarrow>
          if hasRemoved then map_sum id (Pair True) (Link_encodeContent (l\<lparr>lk_delegations := ds\<rparr>))
          else Inr (False, l))"

end
