(* ===== verification/Forwarder.thy ===== *)
theory Forwarder
  imports Pit DeadNonceList Link
begin

text \<open>
  The forwarding pipelines, \<^verbatim>\<open>ndn/NFD/daemon/fw/forwarder.cpp\<close>, with \<^verbatim>\<open>unsolicited-data-policy.cpp\<close> and
  \<^verbatim>\<open>table/network-region-table.cpp\<close>. What is sent on faces is a list; every pipeline runs at one time
  \<open>now\<close>. The effective strategy of an entry is an argument: the trigger functions of the strategies,
  which enter the pipelines in turn. An exception leaves the forwarder as it is at that moment, so a
  pipeline returns the exception, if any, beside the forwarder.
\<close>

section \<open>The forwarder\<close>

datatype unsolicited_policy = DropAll | AdmitLocal | AdmitNetwork | AdmitAll

datatype unsolicited_decision = DROP | CACHE

definition unsolicited_decide :: "unsolicited_policy \<Rightarrow> face \<Rightarrow> unsolicited_decision" where
  "unsolicited_decide p inFace =
     (case p of
        DropAll \<Rightarrow> DROP
      | AdmitLocal \<Rightarrow> (if fc_local inFace then CACHE else DROP)
      | AdmitNetwork \<Rightarrow> (if \<not> fc_local inFace then CACHE else DROP)
      | AdmitAll \<Rightarrow> CACHE)"

datatype sent = SentInterest u64 interest_packet | SentData face data | SentNack u64 interest_packet nack_reason

record forwarder =
  fw_faces :: "u64 \<Rightarrow> face option"
  fw_pit :: pit
  fw_nFib :: u64
  fw_cs :: cs
  fw_dnl :: dead_nonce_list
  fw_unsolicited :: unsolicited_policy
  fw_regions :: "full_name list"
  fw_sent :: "sent list"

text \<open>The hash functions the forwarder uses: SHA-256 and the one of the Dead Nonce List.\<close>

record hashes =
  h_sha256 :: "byte list \<Rightarrow> byte list"
  h_nonce :: "byte list \<Rightarrow> u32 \<Rightarrow> u64"

type_synonym fw_result = "error option \<times> forwarder"

definition fw_seq :: "fw_result \<Rightarrow> (forwarder \<Rightarrow> fw_result) \<Rightarrow> fw_result" where
  "fw_seq r k = (case r of (None, f) \<Rightarrow> k f | (Some e, f) \<Rightarrow> (Some e, f))"

definition fw_try :: "'a res \<Rightarrow> forwarder \<Rightarrow> ('a \<Rightarrow> fw_result) \<Rightarrow> fw_result" where
  "fw_try r f k = (case r of Inl e \<Rightarrow> (Some e, f) | Inr x \<Rightarrow> k x)"

text \<open>A call that may not return; an endless loop without effects is undefined.\<close>

definition fw_await :: "'a res option \<Rightarrow> forwarder \<Rightarrow> ('a \<Rightarrow> fw_result) \<Rightarrow> fw_result" where
  "fw_await r f k = (case r of None \<Rightarrow> (Some (UndefinedBehaviour ''endless loop''), f) | Some s \<Rightarrow> fw_try s f k)"

definition fw_send :: "sent \<Rightarrow> forwarder \<Rightarrow> forwarder" where
  "fw_send s f = f\<lparr>fw_sent := fw_sent f @ [s]\<rparr>"

definition fw_entry :: "forwarder \<Rightarrow> nat \<Rightarrow> pit_entry option" where
  "fw_entry f j = pit_entries (fw_pit f) j"

text \<open>The FIB shares the name tree with the PIT.\<close>

definition fw_fib :: "forwarder \<Rightarrow> fib_table" where
  "fw_fib f = \<lparr>ft_nameTree = pit_nameTree (fw_pit f), ft_nItems = fw_nFib f\<rparr>"

definition change_entry_of :: "nat \<Rightarrow> (pit_entry \<Rightarrow> pit_entry) \<Rightarrow> forwarder \<Rightarrow> forwarder" where
  "change_entry_of j g f = f\<lparr>fw_pit := change_pit_entry j g (fw_pit f)\<rparr>"

text \<open>Access through a pointer to an entry.\<close>

definition with_entry :: "nat \<Rightarrow> forwarder \<Rightarrow> (pit_entry \<Rightarrow> fw_result) \<Rightarrow> fw_result" where
  "with_entry j f k = (case fw_entry f j of None \<Rightarrow> (Some (UndefinedBehaviour ''dangling pointer to a PIT entry''), f) | Some e \<Rightarrow> k e)"

section \<open>Timers\<close>

definition cancelUnsatisfyAndStragglerTimer :: "nat \<Rightarrow> forwarder \<Rightarrow> forwarder" where
  "cancelUnsatisfyAndStragglerTimer j f = change_entry_of j (\<lambda>e. e\<lparr>pe_unsatisfyTimer := None, pe_stragglerTimer := None\<rparr>) f"

text \<open>\<^verbatim>\<open>std::max_element\<close> by the expiry; it must not be the end.\<close>

definition setUnsatisfyTimer :: "nat \<Rightarrow> forwarder \<Rightarrow> fw_result" where
  "setUnsatisfyTimer j f =
     with_entry j f (\<lambda>e.
       if pe_inRecords e = [] then (Some (UndefinedBehaviour ''dereference of the end of the in-records''), f)
       else
         (let lastExpiry = Max (set (map in_expiry (pe_inRecords e)))
          in (None, change_entry_of j (\<lambda>e. e\<lparr>pe_unsatisfyTimer := Some lastExpiry\<rparr>) f)))"

definition stragglerTime :: int where
  "stragglerTime = 100 * 10 ^ 6"

definition setStragglerTimer :: "int \<Rightarrow> nat \<Rightarrow> bool \<Rightarrow> int \<Rightarrow> forwarder \<Rightarrow> forwarder" where
  "setStragglerTimer now j isSatisfied dataFreshnessPeriod f =
     change_entry_of j (\<lambda>e. e\<lparr>pe_stragglerTimer := Some (chrono64 (now + stragglerTime), isSatisfied, dataFreshnessPeriod)\<rparr>) f"

section \<open>Outgoing packets\<close>

definition onOutgoingInterest :: "int \<Rightarrow> nat \<Rightarrow> u64 \<Rightarrow> interest_packet \<Rightarrow> forwarder \<Rightarrow> fw_result" where
  "onOutgoingInterest now j outFace p f =
     with_entry j f (\<lambda>e.
       fw_try (insertOrUpdateOutRecord now outFace p e) f (\<lambda>e'.
         (None, fw_send (SentInterest outFace p) (change_entry_of j (\<lambda>_. e') f))))"

definition violates_localhost :: "face \<Rightarrow> full_name \<Rightarrow> bool" where
  "violates_localhost f n \<longleftrightarrow> \<not> fc_local f \<and> is_prefix LOCALHOST n"

definition onOutgoingData :: "data \<Rightarrow> face \<Rightarrow> forwarder \<Rightarrow> forwarder" where
  "onOutgoingData d outFace f =
     (if fc_id outFace = INVALID_FACEID then f
      else if violates_localhost outFace (name_of (d_name d)) then f
      else fw_send (SentData outFace d) f)"

text \<open>A face that is not in the table has the invalid number.\<close>

definition onOutgoingNack :: "nat \<Rightarrow> u64 \<Rightarrow> nack_reason \<Rightarrow> forwarder \<Rightarrow> fw_result" where
  "onOutgoingNack j outFace reason f =
     (case fw_faces f outFace of
        None \<Rightarrow> (None, f)
      | Some fc \<Rightarrow>
          with_entry j f (\<lambda>e.
            case getInRecord outFace e of
              None \<Rightarrow> (None, f)
            | Some r \<Rightarrow>
                if fc_multiAccess fc then (None, f)
                else (None, fw_send (SentNack outFace (in_interest r) reason) (change_entry_of j (deleteInRecord outFace) f))))"

definition onInterestReject :: "int \<Rightarrow> nat \<Rightarrow> forwarder \<Rightarrow> fw_result" where
  "onInterestReject now j f =
     with_entry j f (\<lambda>e.
       if hasPendingOutRecords now e then (None, f)
       else (None, setStragglerTimer now j False (- 1) (cancelUnsatisfyAndStragglerTimer j f)))"

section \<open>The strategy\<close>

datatype strategy_trigger =
    AfterReceiveInterest face interest_packet
  | BeforeSatisfyInterest face data
  | BeforeExpirePendingInterest
  | AfterReceiveNack face interest_packet nack_reason

text \<open>The effective strategy of an entry, run at a time on the entry that a trigger is about.\<close>

type_synonym strategy = "int \<Rightarrow> nat \<Rightarrow> strategy_trigger \<Rightarrow> forwarder \<Rightarrow> fw_result"

definition dispatchToStrategy :: "strategy \<Rightarrow> int \<Rightarrow> nat \<Rightarrow> strategy_trigger \<Rightarrow> forwarder \<Rightarrow> fw_result" where
  "dispatchToStrategy strat now j trigger f = strat now j trigger f"

section \<open>The Dead Nonce List\<close>

fun insert_nonces :: "hashes \<Rightarrow> interest_packet \<Rightarrow> out_record list \<Rightarrow> forwarder \<Rightarrow> fw_result" where
  "insert_nonces h p [] f = (None, f)"
| "insert_nonces h p (r # rs) f =
     fw_try (DNL_add (h_nonce h) (i_name (ip_interest p)) (out_lastNonce r) (fw_dnl f)) f (\<lambda>l. insert_nonces h p rs (f\<lparr>fw_dnl := l\<rparr>))"

definition insertDeadNonceList :: "hashes \<Rightarrow> nat \<Rightarrow> bool \<Rightarrow> int \<Rightarrow> u64 option \<Rightarrow> forwarder \<Rightarrow> fw_result" where
  "insertDeadNonceList h j isSatisfied dataFreshnessPeriod upstream f =
     with_entry j f (\<lambda>e.
       let needDnl = (if isSatisfied
             then sel_mustBeFresh (ip_selectors (pe_interest e))
               \<and> (dataFreshnessPeriod \<ge> 0 \<and> ns_of_ms dataFreshnessPeriod < dnl_lifetime (fw_dnl f))
             else True)
       in if \<not> needDnl then (None, f)
          else insert_nonces h (pe_interest e) (case upstream of
              None \<Rightarrow> pe_outRecords e
            | Some u \<Rightarrow> (case getOutRecord u e of None \<Rightarrow> [] | Some r \<Rightarrow> [r])) f)"

section \<open>Incoming Interests\<close>

definition onInterestLoop :: "face \<Rightarrow> interest_packet \<Rightarrow> forwarder \<Rightarrow> forwarder" where
  "onInterestLoop inFace p f = (if fc_multiAccess inFace then f else fw_send (SentNack (fc_id inFace) p Duplicate) f)"

definition onContentStoreMiss :: "strategy \<Rightarrow> int \<Rightarrow> face \<Rightarrow> nat \<Rightarrow> interest_packet \<Rightarrow> forwarder \<Rightarrow> fw_result" where
  "onContentStoreMiss strat now inFace j p f =
     with_entry j f (\<lambda>e.
       fw_try (insertOrUpdateInRecord now (fc_id inFace) p e) f (\<lambda>e'.
         fw_seq (setUnsatisfyTimer j (change_entry_of j (\<lambda>_. e') f)) (\<lambda>f.
           case ip_nextHopFaceId p of
             Some k \<Rightarrow> (case fw_faces f k of None \<Rightarrow> (None, f) | Some fc \<Rightarrow> onOutgoingInterest now j k p f)
           | None \<Rightarrow> dispatchToStrategy strat now j (AfterReceiveInterest inFace p) f)))"

definition onContentStoreHit :: "int \<Rightarrow> face \<Rightarrow> nat \<Rightarrow> data \<Rightarrow> forwarder \<Rightarrow> forwarder" where
  "onContentStoreHit now inFace j d f =
     onOutgoingData d inFace (setStragglerTimer now j True (mi_freshnessPeriod (d_metaInfo d)) f)"

definition onIncomingInterest :: "hashes \<Rightarrow> strategy \<Rightarrow> int \<Rightarrow> face \<Rightarrow> interest_packet \<Rightarrow> forwarder \<Rightarrow> fw_result" where
  "onIncomingInterest h strat now inFace p f =
     (if violates_localhost inFace (ip_name p) then (None, f)
      else fw_try (DNL_has (h_nonce h) (i_name (ip_interest p)) (ip_nonce p) (fw_dnl f)) f (\<lambda>hasDuplicateNonceInDnl.
        if hasDuplicateNonceInDnl then (None, onInterestLoop inFace p f)
        else fw_try (Pit_insert p (fw_pit f)) f (\<lambda>(pit, r, isNew).
          let j = the r; f1 = f\<lparr>fw_pit := pit\<rparr>
          in with_entry j f1 (\<lambda>e.
            if findDuplicateNonce e (ip_nonce p) (fc_id inFace) \<noteq> 0 then (None, onInterestLoop inFace p f1)
            else
              (let f2 = cancelUnsatisfyAndStragglerTimer j f1
               in if \<not> hasInRecords e
                  then fw_try (Cs_find (h_sha256 h) now (ip_interest p) (fw_cs f2)) f2 (\<lambda>(result, cs).
                    case result of
                      Hit d \<Rightarrow> (None, onContentStoreHit now inFace j d (f2\<lparr>fw_cs := cs\<rparr>))
                    | Miss \<Rightarrow> onContentStoreMiss strat now inFace j p (f2\<lparr>fw_cs := cs\<rparr>))
                  else onContentStoreMiss strat now inFace j p f2)))))"

text \<open>An Interest whose link cannot be decoded is dropped; other exceptions pass through.\<close>

definition is_tlv_error :: "error \<Rightarrow> bool" where
  "is_tlv_error e = (case e of StdError _ \<Rightarrow> False | RepoError _ \<Rightarrow> False | UndefinedBehaviour _ \<Rightarrow> False | _ \<Rightarrow> True)"

definition link_well_formed :: "interest_packet \<Rightarrow> unit res" where
  "link_well_formed p = (if Interest_hasLink (ip_interest p) then map_sum id (\<lambda>_. ()) (Interest_getLink (ip_interest p)) else Inr ())"

definition startProcessInterest :: "hashes \<Rightarrow> strategy \<Rightarrow> int \<Rightarrow> face \<Rightarrow> interest_packet \<Rightarrow> forwarder \<Rightarrow> fw_result" where
  "startProcessInterest h strat now inFace p f =
     (case link_well_formed p of
        Inl e \<Rightarrow> if is_tlv_error e then (None, f) else (Some e, f)
      | Inr _ \<Rightarrow> onIncomingInterest h strat now inFace p f)"

section \<open>Incoming Data\<close>

definition onDataUnsolicited :: "hashes \<Rightarrow> int \<Rightarrow> face \<Rightarrow> data \<Rightarrow> bool \<Rightarrow> forwarder \<Rightarrow> fw_result" where
  "onDataUnsolicited h now inFace d noCache f =
     (case unsolicited_decide (fw_unsolicited f) inFace of
        CACHE \<Rightarrow> fw_try (Cs_insert (h_sha256 h) now d True noCache (fw_cs f)) f (\<lambda>cs. (None, f\<lparr>fw_cs := cs\<rparr>))
      | DROP \<Rightarrow> (None, f))"

text \<open>The loop over the matching entries, which collects the downstreams.\<close>

definition satisfy_entry :: "hashes \<Rightarrow> strategy \<Rightarrow> int \<Rightarrow> face \<Rightarrow> data \<Rightarrow> nat \<Rightarrow> forwarder \<Rightarrow> fw_result" where
  "satisfy_entry h strat now inFace d j f =
     fw_seq (dispatchToStrategy strat now j (BeforeSatisfyInterest inFace d) f) (\<lambda>f.
       fw_seq (insertDeadNonceList h j True (mi_freshnessPeriod (d_metaInfo d)) (Some (fc_id inFace)) f) (\<lambda>f.
         (None, setStragglerTimer now j True (mi_freshnessPeriod (d_metaInfo d))
            (change_entry_of j (\<lambda>e. deleteOutRecord (fc_id inFace) (clearInRecords e)) f))))"

fun satisfy_entries :: "hashes \<Rightarrow> strategy \<Rightarrow> int \<Rightarrow> face \<Rightarrow> data \<Rightarrow> nat list \<Rightarrow> u64 set \<Rightarrow> (u64 set \<Rightarrow> forwarder \<Rightarrow> fw_result) \<Rightarrow> forwarder \<Rightarrow> fw_result" where
  "satisfy_entries h strat now inFace d [] downs k f = k downs f"
| "satisfy_entries h strat now inFace d (j # js) downs k f =
     (let f1 = cancelUnsatisfyAndStragglerTimer j f
      in with_entry j f1 (\<lambda>e.
        let downs' = downs \<union> set (map in_face (filter (\<lambda>r. in_expiry r > now) (pe_inRecords e)))
        in fw_seq (satisfy_entry h strat now inFace d j f1) (satisfy_entries h strat now inFace d js downs' k)))"

text \<open>The set of downstreams is visited in the order of the addresses of the faces, here that of their numbers.\<close>

definition send_downstream :: "data \<Rightarrow> u64 \<Rightarrow> u64 \<Rightarrow> forwarder \<Rightarrow> forwarder" where
  "send_downstream d inFace k f =
     (if k = inFace then f else case fw_faces f k of None \<Rightarrow> f | Some fc \<Rightarrow> onOutgoingData d fc f)"

definition onIncomingData :: "hashes \<Rightarrow> strategy \<Rightarrow> int \<Rightarrow> face \<Rightarrow> data \<Rightarrow> bool \<Rightarrow> forwarder \<Rightarrow> fw_result" where
  "onIncomingData h strat now inFace d noCache f =
     (if violates_localhost inFace (name_of (d_name d)) then (None, f)
      else fw_await (findAllDataMatches (h_sha256 h) d (fw_pit f)) f (\<lambda>pitMatches.
        if pitMatches = [] then onDataUnsolicited h now inFace d noCache f
        else fw_try (Cs_insert (h_sha256 h) now d False noCache (fw_cs f)) f (\<lambda>cs.
          satisfy_entries h strat now inFace d pitMatches {} (\<lambda>pendingDownstreams f.
            (None, fold (send_downstream d (fc_id inFace)) (sorted_list_of_set pendingDownstreams) f)) (f\<lparr>fw_cs := cs\<rparr>))))"

section \<open>Incoming Nacks\<close>

definition onIncomingNack :: "strategy \<Rightarrow> int \<Rightarrow> face \<Rightarrow> interest_packet \<Rightarrow> nack_reason \<Rightarrow> forwarder \<Rightarrow> fw_result" where
  "onIncomingNack strat now inFace p reason f =
     (if fc_multiAccess inFace then (None, f)
      else fw_try (Pit_find p (fw_pit f)) f (\<lambda>r.
        case r of
          None \<Rightarrow> (None, f)
        | Some j \<Rightarrow>
            with_entry j f (\<lambda>e.
              case getOutRecord (fc_id inFace) e of
                None \<Rightarrow> (None, f)
              | Some outRecord \<Rightarrow>
                  if ip_nonce p \<noteq> out_lastNonce outRecord then (None, f)
                  else
                    dispatchToStrategy strat now j (AfterReceiveNack inFace p reason)
                      (change_entry_of j (\<lambda>e. e\<lparr>pe_outRecords :=
                         update_first (\<lambda>r. out_face r = fc_id inFace) (setIncomingNack (ip_nonce p) reason) (pe_outRecords e)\<rparr>) f))))"

definition startProcessNack :: "strategy \<Rightarrow> int \<Rightarrow> face \<Rightarrow> interest_packet \<Rightarrow> nack_reason \<Rightarrow> forwarder \<Rightarrow> fw_result" where
  "startProcessNack strat now inFace p reason f =
     (case link_well_formed p of
        Inl e \<Rightarrow> if is_tlv_error e then (None, f) else (Some e, f)
      | Inr _ \<Rightarrow> onIncomingNack strat now inFace p reason f)"

section \<open>The end of an Interest\<close>

definition onInterestFinalize :: "hashes \<Rightarrow> nat \<Rightarrow> bool \<Rightarrow> int \<Rightarrow> forwarder \<Rightarrow> fw_result" where
  "onInterestFinalize h j isSatisfied dataFreshnessPeriod f =
     fw_seq (insertDeadNonceList h j isSatisfied dataFreshnessPeriod None f) (\<lambda>f.
       let f1 = cancelUnsatisfyAndStragglerTimer j f
       in fw_await (Pit_erase j True (fw_pit f1)) f1 (\<lambda>pit. (None, f1\<lparr>fw_pit := pit\<rparr>)))"

definition onInterestUnsatisfied :: "hashes \<Rightarrow> strategy \<Rightarrow> int \<Rightarrow> nat \<Rightarrow> forwarder \<Rightarrow> fw_result" where
  "onInterestUnsatisfied h strat now j f =
     fw_seq (dispatchToStrategy strat now j BeforeExpirePendingInterest f) (onInterestFinalize h j False (- 1))"

text \<open>The scheduler runs an event of an entry that is due; the event is then gone.\<close>

definition unsatisfy_event :: "hashes \<Rightarrow> strategy \<Rightarrow> int \<Rightarrow> nat \<Rightarrow> forwarder \<Rightarrow> fw_result" where
  "unsatisfy_event h strat now j f =
     onInterestUnsatisfied h strat now j (change_entry_of j (\<lambda>e. e\<lparr>pe_unsatisfyTimer := None\<rparr>) f)"

definition straggler_event :: "hashes \<Rightarrow> nat \<Rightarrow> forwarder \<Rightarrow> fw_result" where
  "straggler_event h j f =
     with_entry j f (\<lambda>e.
       case pe_stragglerTimer e of
         None \<Rightarrow> (None, f)
       | Some (t, isSatisfied, dataFreshnessPeriod) \<Rightarrow>
           onInterestFinalize h j isSatisfied dataFreshnessPeriod (change_entry_of j (\<lambda>e. e\<lparr>pe_stragglerTimer := None\<rparr>) f))"

end
