(* ===== verification/Strategy.thy ===== *)
theory Strategy
  imports Forwarder
begin

text \<open>
  The strategies best-route (both versions) and multicast of
  \<^verbatim>\<open>ndn/NFD/daemon/fw\<close>, with their shared parts: \<^verbatim>\<open>strategy.cpp\<close>, \<^verbatim>\<open>process-nack-traits.cpp\<close>,
  \<^verbatim>\<open>retx-suppression*.cpp\<close> and \<^verbatim>\<open>table/network-region-table.cpp\<close>. A strategy enters the pipelines, so its
  trigger functions are functions on the forwarder.
\<close>

section \<open>Lookup of the next hops\<close>

definition isInProducerRegion :: "full_name list \<Rightarrow> link \<Rightarrow> bool" where
  "isInProducerRegion regions l \<longleftrightarrow> list_ex (\<lambda>region. list_ex (\<lambda>d. is_prefix (name_of (snd d)) region) (lk_delegations l)) regions"

text \<open>
  The longest prefix match from the name tree entry of a PIT entry; \<open>None\<close> is a loop that does not end.
\<close>

definition findLongestPrefixMatch_pit :: "(nt_entry \<Rightarrow> bool) \<Rightarrow> pit_entry \<Rightarrow> hashtable \<Rightarrow> full_name option res option" where
  "findLongestPrefixMatch_pit selector e t =
     (let name = ip_name (pe_interest e)
      in case pe_nameTreeEntry e of
           None \<Rightarrow> Some (Inl (UndefinedBehaviour ''assertion failed: nte != nullptr''))
         | Some n \<Rightarrow>
             if length n < length name then
               (if \<not> is_digest (last name) \<or> n \<noteq> butlast name
                then Some (Inl (UndefinedBehaviour ''assertion failed: nte->getName() == pitEntry.getName().getPrefix(-1)''))
                else map_option Inr (findLongestPrefixMatch_entry selector
                       (case NameTree_findExactMatch name t of None \<Rightarrow> Some n | Some m \<Rightarrow> Some m) t))
             else map_option Inr (findLongestPrefixMatch_entry selector (Some n) t))"

definition fib_ref_of :: "full_name option \<Rightarrow> fib_ref" where
  "fib_ref_of m = (case m of None \<Rightarrow> EmptyEntry | Some n \<Rightarrow> Attached n)"

definition Fib_findLongestPrefixMatch_pit :: "pit_entry \<Rightarrow> fib_table \<Rightarrow> fib_ref res option" where
  "Fib_findLongestPrefixMatch_pit e F = map_option (map_sum id fib_ref_of) (findLongestPrefixMatch_pit nteHasFibEntry e (ft_nameTree F))"

definition fib_entry_of :: "fib_ref \<Rightarrow> fib_table \<Rightarrow> fib_entry" where
  "fib_entry_of r F = (case r of EmptyEntry \<Rightarrow> fib_Entry [] | Attached n \<Rightarrow> fib_entry_at F n)"

text \<open>
  The Interests of an entry are shared objects: a change of one is seen by everybody who points to it,
  which are the in-records, the entry itself and the pipeline that is running.
\<close>

definition change_object :: "nat \<Rightarrow> interest \<Rightarrow> pit_entry \<Rightarrow> pit_entry" where
  "change_object k i e =
     (let change = (\<lambda>p. if ip_object p = k then p\<lparr>ip_interest := i\<rparr> else p)
      in e\<lparr>pe_interest := change (pe_interest e), pe_inRecords := map (\<lambda>r. r\<lparr>in_interest := change (in_interest r)\<rparr>) (pe_inRecords e)\<rparr>)"

definition through_pointer :: "interest_packet \<Rightarrow> nat \<Rightarrow> forwarder \<Rightarrow> interest_packet" where
  "through_pointer p j f =
     (case fw_entry f j of
        None \<Rightarrow> p
      | Some e \<Rightarrow> (case List.find (\<lambda>q. ip_object q = ip_object p) (pe_interest e # map in_interest (pe_inRecords e)) of
          None \<Rightarrow> p | Some q \<Rightarrow> p\<lparr>ip_interest := ip_interest q\<rparr>))"

fun select_delegation :: "name \<Rightarrow> in_record list \<Rightarrow> pit_entry \<Rightarrow> error option \<times> pit_entry" where
  "select_delegation n [] e = (None, e)"
| "select_delegation n (r # rs) e =
     (case Interest_setSelectedDelegation (ip_interest (in_interest r)) n of
        Inl err \<Rightarrow> (Some err, e)
      | Inr i \<Rightarrow> select_delegation n rs (change_object (ip_object (in_interest r)) i e))"

text \<open>The first delegation whose FIB entry has next hops.\<close>

fun first_routable :: "(_ \<times> name) list \<Rightarrow> fib_table \<Rightarrow> (name \<times> fib_ref) option res" where
  "first_routable [] F = Inr None"
| "first_routable (d # ds) F =
     (case Fib_findLongestPrefixMatch (name_of (snd d)) F of
        Inl err \<Rightarrow> Inl err
      | Inr r \<Rightarrow> if fe_nextHops (fib_entry_of r F) \<noteq> [] then Inr (Some (snd d, r)) else first_routable ds F)"

definition lookupFib :: "nat \<Rightarrow> forwarder \<Rightarrow> (fib_ref \<Rightarrow> forwarder \<Rightarrow> fw_result) \<Rightarrow> fw_result" where
  "lookupFib j f k =
     with_entry j f (\<lambda>e.
       let i = ip_interest (pe_interest e); F = fw_fib f; by_name = fw_await (Fib_findLongestPrefixMatch_pit e F) f (\<lambda>r. k r f)
       in if \<not> Interest_hasLink i then by_name
          else fw_try (Interest_getLink i) f (\<lambda>link.
            if isInProducerRegion (fw_regions f) link then by_name
            else if Interest_hasSelectedDelegation i
            then fw_try (Interest_getSelectedDelegation i) f (\<lambda>n. fw_try (Fib_findLongestPrefixMatch (name_of n) F) f (\<lambda>r. k r f))
            else (case lk_delegations link of
                [] \<Rightarrow> (Some (UndefinedBehaviour ''dereference of the end of the delegations''), f)
              | d # ds \<Rightarrow>
                  fw_try (Fib_findLongestPrefixMatch (name_of (snd d)) F) f (\<lambda>r0.
                    if fe_prefix (fib_entry_of r0 F) = [] \<and> fe_nextHops (fib_entry_of r0 F) \<noteq> [] then k r0 f
                    else fw_try (first_routable (d # ds) F) f (\<lambda>found.
                      case found of
                        None \<Rightarrow> (Some (UndefinedBehaviour ''assertion failed: false''), f)
                      | Some (n, r) \<Rightarrow>
                          (case select_delegation n (pe_inRecords e) e of
                             (Some err, e') \<Rightarrow> (Some err, change_entry_of j (\<lambda>_. e') f)
                           | (None, e') \<Rightarrow> k r (change_entry_of j (\<lambda>_. e') f)))))))"

text \<open>A next hop holds a reference to its face.\<close>

fun hop_faces :: "forwarder \<Rightarrow> next_hop list \<Rightarrow> face list res" where
  "hop_faces f [] = Inr []"
| "hop_faces f (x # xs) =
     (case fw_faces f (nh_face x) of
        None \<Rightarrow> Inl (UndefinedBehaviour ''dangling reference to a face'')
      | Some fc \<Rightarrow> map_sum id (Cons fc) (hop_faces f xs))"

text \<open>The next hops of the entry found, and the Interest as it is after the lookup.\<close>

definition with_next_hops :: "nat \<Rightarrow> interest_packet \<Rightarrow> forwarder \<Rightarrow> (face list \<Rightarrow> interest_packet \<Rightarrow> forwarder \<Rightarrow> fw_result) \<Rightarrow> fw_result" where
  "with_next_hops j p f k =
     lookupFib j f (\<lambda>r f. fw_try (hop_faces f (fe_nextHops (fib_entry_of r (fw_fib f)))) f (\<lambda>hops. k hops (through_pointer p j f) f))"

section \<open>Nacks\<close>

fun send_nacks :: "nat \<Rightarrow> nack_reason \<Rightarrow> u64 list \<Rightarrow> forwarder \<Rightarrow> fw_result" where
  "send_nacks j reason [] f = (None, f)"
| "send_nacks j reason (k # ks) f = fw_seq (onOutgoingNack j k reason f) (send_nacks j reason ks)"

text \<open>An unordered set of faces, visited in the order of their numbers.\<close>

definition sendNacks :: "nat \<Rightarrow> nack_reason \<Rightarrow> u64 list \<Rightarrow> forwarder \<Rightarrow> fw_result" where
  "sendNacks j reason exceptFaces f =
     with_entry j f (\<lambda>e. send_nacks j reason (sorted_list_of_set (set (map in_face (pe_inRecords e)) - set exceptFaces)) f)"

fun nack_code :: "nack_reason \<Rightarrow> nat" where
  "nack_code NackNone = 0"
| "nack_code Congestion = 50"
| "nack_code Duplicate = 100"
| "nack_code NoRoute = 150"

definition isLessSevere :: "nack_reason \<Rightarrow> nack_reason \<Rightarrow> bool" where
  "isLessSevere x y = (if x = NackNone then False else if y = NackNone then True else nack_code x < nack_code y)"

definition leastSevereReason :: "out_record list \<Rightarrow> nack_reason" where
  "leastSevereReason rs =
     fold (\<lambda>r least. case out_incomingNack r of None \<Rightarrow> least | Some x \<Rightarrow> if isLessSevere x least then x else least) rs NackNone"

definition processNack :: "nat \<Rightarrow> forwarder \<Rightarrow> fw_result" where
  "processNack j f =
     with_entry j f (\<lambda>e.
       let notNacked = filter (\<lambda>r. out_incomingNack r = None) (pe_outRecords e); reason = leastSevereReason (pe_outRecords e)
       in if length notNacked = 1 \<and> getInRecord (out_face (last notNacked)) e \<noteq> None
          then onOutgoingNack j (out_face (last notNacked)) reason f
          else if length notNacked > 0 then (None, f)
          else sendNacks j reason [] f)"

section \<open>Suppression of retransmissions\<close>

datatype retx_result = RetxNew | RetxForward | RetxSuppress

definition getLastOutgoing :: "pit_entry \<Rightarrow> int res" where
  "getLastOutgoing e =
     (if pe_outRecords e = [] then Inl (UndefinedBehaviour ''assertion failed: lastOutgoing != pitEntry.out_end()'')
      else Inr (Max (set (map out_lastRenewed (pe_outRecords e)))))"

text \<open>Intervals are in microseconds, times in nanoseconds; the multiplier is 2.\<close>

definition RetxExponential_decide :: "int \<Rightarrow> int \<Rightarrow> int \<Rightarrow> pit_entry \<Rightarrow> (retx_result \<times> pit_entry) res" where
  "RetxExponential_decide initialInterval maxInterval now e =
     (if \<not> hasPendingOutRecords now e then Inr (RetxNew, e)
      else case getLastOutgoing e of
        Inl err \<Rightarrow> Inl err
      | Inr lastOutgoing \<Rightarrow>
          (let interval = (case pe_suppression e of None \<Rightarrow> initialInterval | Some i \<Rightarrow> i)
           in if time_since lastOutgoing now < interval * 10 ^ 3 then Inr (RetxSuppress, e\<lparr>pe_suppression := Some interval\<rparr>)
              else Inr (RetxForward, e\<lparr>pe_suppression := Some (min maxInterval (interval * 2))\<rparr>)))"

definition RetxFixed_decide :: "int \<Rightarrow> int \<Rightarrow> pit_entry \<Rightarrow> retx_result res" where
  "RetxFixed_decide minRetxInterval now e =
     (if \<not> hasPendingOutRecords now e then Inr RetxNew
      else map_sum id (\<lambda>lastOutgoing. if time_since lastOutgoing now < ns_of_ms minRetxInterval then RetxSuppress else RetxForward) (getLastOutgoing e))"

section \<open>The strategies\<close>

definition isNextHopEligible :: "face \<Rightarrow> interest_packet \<Rightarrow> face \<Rightarrow> pit_entry \<Rightarrow> bool \<Rightarrow> int \<Rightarrow> bool" where
  "isNextHopEligible inFace p outFace e wantUnused now =
     (if fc_id outFace = fc_id inFace then False
      else if wouldViolateScope inFace p outFace then False
      else if wantUnused then (case getOutRecord (fc_id outFace) e of None \<Rightarrow> True | Some r \<Rightarrow> \<not> out_expiry r > now)
      else True)"

fun earliest_out_record :: "face \<Rightarrow> interest_packet \<Rightarrow> pit_entry \<Rightarrow> face list \<Rightarrow> (face \<times> int) option \<Rightarrow> face option res" where
  "earliest_out_record inFace p e [] best = Inr (map_option fst best)"
| "earliest_out_record inFace p e (h # hs) best =
     (if \<not> isNextHopEligible inFace p h e False 0 then earliest_out_record inFace p e hs best
      else case getOutRecord (fc_id h) e of
        None \<Rightarrow> Inl (UndefinedBehaviour ''assertion failed: outRecord != pitEntry->out_end()'')
      | Some r \<Rightarrow> earliest_out_record inFace p e hs
          (if (case best of None \<Rightarrow> True | Some (_, t) \<Rightarrow> out_lastRenewed r < t) then Some (h, out_lastRenewed r) else best))"

definition findEligibleNextHopWithEarliestOutRecord :: "face \<Rightarrow> interest_packet \<Rightarrow> face list \<Rightarrow> pit_entry \<Rightarrow> face option res" where
  "findEligibleNextHopWithEarliestOutRecord inFace p hops e = earliest_out_record inFace p e hops None"

definition RETX_SUPPRESSION_INITIAL :: int where "RETX_SUPPRESSION_INITIAL = 10 * 10 ^ 3"
definition RETX_SUPPRESSION_MAX :: int where "RETX_SUPPRESSION_MAX = 250 * 10 ^ 3"

text \<open>What version 2 of best-route does with an Interest that is not suppressed.\<close>

definition best_route2_forward :: "int \<Rightarrow> nat \<Rightarrow> face \<Rightarrow> bool \<Rightarrow> face list \<Rightarrow> interest_packet \<Rightarrow> forwarder \<Rightarrow> fw_result" where
  "best_route2_forward now j inFace isNew hops p f =
     with_entry j f (\<lambda>e.
       if isNew then
         (case List.find (\<lambda>h. isNextHopEligible inFace p h e False now) hops of
            None \<Rightarrow> fw_seq (onOutgoingNack j (fc_id inFace) NoRoute f) (onInterestReject now j)
          | Some h \<Rightarrow> onOutgoingInterest now j (fc_id h) p f)
       else
         (case List.find (\<lambda>h. isNextHopEligible inFace p h e True now) hops of
            Some h \<Rightarrow> onOutgoingInterest now j (fc_id h) p f
          | None \<Rightarrow> fw_try (findEligibleNextHopWithEarliestOutRecord inFace p hops e) f (\<lambda>r.
              case r of None \<Rightarrow> (None, f) | Some h \<Rightarrow> onOutgoingInterest now j (fc_id h) p f)))"

definition BestRouteStrategy2 :: strategy where
  "BestRouteStrategy2 now j t f =
     (case t of
        AfterReceiveInterest inFace p \<Rightarrow>
          with_entry j f (\<lambda>e.
            fw_try (RetxExponential_decide RETX_SUPPRESSION_INITIAL RETX_SUPPRESSION_MAX now e) f (\<lambda>(suppression, e').
              let f1 = change_entry_of j (\<lambda>_. e') f
              in if suppression = RetxSuppress then (None, f1)
                 else with_next_hops j p f1 (best_route2_forward now j inFace (suppression = RetxNew))))
      | AfterReceiveNack inFace p reason \<Rightarrow> processNack j f
      | _ \<Rightarrow> (None, f))"

definition BestRouteStrategyBase :: strategy where
  "BestRouteStrategyBase now j t f =
     (case t of
        AfterReceiveInterest inFace p \<Rightarrow>
          with_entry j f (\<lambda>e.
            if hasPendingOutRecords now e then (None, f)
            else with_next_hops j p f (\<lambda>hops p f.
              with_entry j f (\<lambda>e.
                case List.find (\<lambda>h. \<not> wouldViolateScope inFace p h \<and> canForwardToLegacy now e (fc_id h)) hops of
                  Some h \<Rightarrow> onOutgoingInterest now j (fc_id h) p f
                | None \<Rightarrow> onInterestReject now j f)))
      | _ \<Rightarrow> (None, f))"

fun multicast_send :: "int \<Rightarrow> nat \<Rightarrow> face \<Rightarrow> interest_packet \<Rightarrow> face list \<Rightarrow> forwarder \<Rightarrow> fw_result" where
  "multicast_send now j inFace p [] f = (None, f)"
| "multicast_send now j inFace p (h # hs) f =
     with_entry j f (\<lambda>e.
       fw_seq (if \<not> wouldViolateScope inFace p h \<and> canForwardToLegacy now e (fc_id h) then onOutgoingInterest now j (fc_id h) p f else (None, f))
         (multicast_send now j inFace p hs))"

definition MulticastStrategy :: strategy where
  "MulticastStrategy now j t f =
     (case t of
        AfterReceiveInterest inFace p \<Rightarrow>
          with_next_hops j p f (\<lambda>hops p f.
            fw_seq (multicast_send now j inFace p hops f) (\<lambda>f.
              with_entry j f (\<lambda>e. if \<not> hasPendingOutRecords now e then onInterestReject now j f else (None, f))))
      | _ \<Rightarrow> (None, f))"

end
