(* ===== verification/FibOk.thy ===== *)
theory FibOk
  imports FibTable
begin

text \<open>
  The forwarder's FIB as a function from names and faces to costs: what the manager's commands do to it,
  and what a longest prefix match finds.
\<close>

section \<open>Next hops\<close>

definition hop_cost :: "fib_entry \<Rightarrow> u64 \<Rightarrow> u64 option" where
  "hop_cost e f = map_option nh_cost (List.find (\<lambda>h. nh_face h = f) (fe_nextHops e))"

definition fe_ok :: "full_name \<Rightarrow> fib_entry \<Rightarrow> bool" where
  "fe_ok n e \<longleftrightarrow> fe_prefix e = n \<and> distinct (map nh_face (fe_nextHops e)) \<and> sorted (map nh_cost (fe_nextHops e))"

lemma hop_find:
  assumes "distinct (map nh_face hs)"
  shows "map_option nh_cost (List.find (\<lambda>h. nh_face h = f) hs) = Some c \<longleftrightarrow> \<lparr>nh_face = f, nh_cost = c\<rparr> \<in> set hs"
  using assms
proof (induction hs)
  case (Cons h hs)
  then show ?case by (cases h) (auto simp: image_iff)
qed simp

lemma hop_cost_Some: "fe_ok n e \<Longrightarrow> hop_cost e f = Some c \<longleftrightarrow> \<lparr>nh_face = f, nh_cost = c\<rparr> \<in> set (fe_nextHops e)"
  using hop_find by (simp add: fe_ok_def hop_cost_def)

lemma hop_cost_none: "hop_cost e = (\<lambda>_. None) \<longleftrightarrow> fe_nextHops e = []"
proof
  assume h: "hop_cost e = (\<lambda>_. None)"
  show "fe_nextHops e = []"
  proof (cases "fe_nextHops e")
    case (Cons x xs)
    then have "hop_cost e (nh_face x) = Some (nh_cost x)" by (simp add: hop_cost_def)
    then show ?thesis using h by simp
  qed
qed (simp add: hop_cost_def fun_eq_iff)

lemma set_hop:
  assumes "distinct (map nh_face hs)"
  shows "List.find (\<lambda>h. nh_face h = f) hs = None \<Longrightarrow> find_if (\<lambda>h. nh_face h = f) hs = length hs"
    and "find_if (\<lambda>h. nh_face h = f) hs \<noteq> length hs \<Longrightarrow> distinct (map nh_face (hs[find_if (\<lambda>h. nh_face h = f) hs := (hs ! find_if (\<lambda>h. nh_face h = f) hs)\<lparr>nh_cost := c\<rparr>]))
       \<and> set (hs[find_if (\<lambda>h. nh_face h = f) hs := (hs ! find_if (\<lambda>h. nh_face h = f) hs)\<lparr>nh_cost := c\<rparr>])
         = insert \<lparr>nh_face = f, nh_cost = c\<rparr> {h \<in> set hs. nh_face h \<noteq> f}"
    and "find_if (\<lambda>h. nh_face h = f) hs \<noteq> length hs \<Longrightarrow> distinct (map nh_face (remove_at (find_if (\<lambda>h. nh_face h = f) hs) hs))
       \<and> set (remove_at (find_if (\<lambda>h. nh_face h = f) hs) hs) = {h \<in> set hs. nh_face h \<noteq> f}"
proof -
  let ?i = "find_if (\<lambda>h. nh_face h = f) hs"
  show "List.find (\<lambda>h. nh_face h = f) hs = None \<Longrightarrow> ?i = length hs" by (simp add: find_None_iff find_if_end)
  assume "?i \<noteq> length hs"
  then have i: "?i < length hs" "nh_face (hs ! ?i) = f" using find_if_hit [of "\<lambda>h. nh_face h = f" hs] by auto
  define a where "a = take ?i hs"
  define x where "x = hs ! ?i"
  define b where "b = drop (Suc ?i) hs"
  have p: "hs = a @ x # b" using remove_at_parts [OF i(1)] by (simp add: a_def x_def b_def)
  have l: "length a = ?i" using i(1) by (simp add: a_def)
  have d: "distinct (map nh_face (a @ x # b))" using assms unfolding p .
  have fx: "nh_face x = f" using i(2) by (simp add: x_def)
  have others: "nh_face h \<noteq> f" if "h \<in> set a \<or> h \<in> set b" for h
  proof -
    have "nh_face x \<notin> nh_face ` set a" "nh_face x \<notin> nh_face ` set b" using d by simp_all
    then show ?thesis using fx that by (metis imageI)
  qed
  have u: "hs[?i := (hs ! ?i)\<lparr>nh_cost := c\<rparr>] = a @ x\<lparr>nh_cost := c\<rparr> # b" unfolding x_def [symmetric] by (subst p) (simp add: l [symmetric])
  have r: "remove_at ?i hs = a @ b" by (simp add: remove_at_def a_def b_def)
  have x: "nh_face x = f" "x\<lparr>nh_cost := c\<rparr> = \<lparr>nh_face = f, nh_cost = c\<rparr>" using i(2) by (simp_all add: x_def)
  have s: "{h \<in> set hs. nh_face h \<noteq> f} = set a \<union> set b" unfolding p using others x(1) by auto
  show "distinct (map nh_face (hs[?i := (hs ! ?i)\<lparr>nh_cost := c\<rparr>])) \<and> set (hs[?i := (hs ! ?i)\<lparr>nh_cost := c\<rparr>])
      = insert \<lparr>nh_face = f, nh_cost = c\<rparr> {h \<in> set hs. nh_face h \<noteq> f}"
    unfolding u s using d x by auto
  show "distinct (map nh_face (remove_at ?i hs)) \<and> set (remove_at ?i hs) = {h \<in> set hs. nh_face h \<noteq> f}"
    unfolding r s using d by simp
qed

lemma fe_addNextHop_ok:
  assumes "fe_ok n e"
  shows "fe_ok n (fe_addNextHop f c e)" "hop_cost (fe_addNextHop f c e) = (hop_cost e)(f := Some c)" "fe_nextHops (fe_addNextHop f c e) \<noteq> []"
proof -
  let ?hs = "fe_nextHops e" and ?i = "find_if (\<lambda>h. nh_face h = f) (fe_nextHops e)"
  have d: "distinct (map nh_face ?hs)" using assms by (simp add: fe_ok_def)
  define hs' where "hs' = (if ?i = length ?hs then ?hs @ [\<lparr>nh_face = f, nh_cost = c\<rparr>] else ?hs[?i := (?hs ! ?i)\<lparr>nh_cost := c\<rparr>])"
  have e': "fe_addNextHop f c e = sortNextHops (e\<lparr>fe_nextHops := hs'\<rparr>)"
    by (simp add: fe_addNextHop_def Let_def findNextHop_def hs'_def)
  have hs': "distinct (map nh_face hs') \<and> set hs' = insert \<lparr>nh_face = f, nh_cost = c\<rparr> {h \<in> set ?hs. nh_face h \<noteq> f}"
  proof (cases "?i = length ?hs")
    case True
    then have "\<forall>h \<in> set ?hs. nh_face h \<noteq> f" by (simp add: find_if_end)
    then show ?thesis using d True by (auto simp: hs'_def)
  qed (use set_hop(2) [OF d] in \<open>simp add: hs'_def\<close>)
  have "mset (map nh_face (sort_key nh_cost hs')) = mset (map nh_face hs')" by simp
  then have "distinct (map nh_face (sort_key nh_cost hs'))" using hs' mset_eq_imp_distinct_iff by blast
  then show ok: "fe_ok n (fe_addNextHop f c e)" using assms by (simp add: e' sortNextHops_def fe_ok_def)
  show "hop_cost (fe_addNextHop f c e) = (hop_cost e)(f := Some c)"
  proof
    fix g
    have "hop_cost (fe_addNextHop f c e) g = Some k \<longleftrightarrow> ((hop_cost e)(f := Some c)) g = Some k" for k
      unfolding hop_cost_Some [OF ok] fun_upd_apply using hs' by (auto simp: e' sortNextHops_def hop_cost_Some [OF assms])
    then show "hop_cost (fe_addNextHop f c e) g = ((hop_cost e)(f := Some c)) g" by (rule option_ext)
  qed
  show "fe_nextHops (fe_addNextHop f c e) \<noteq> []"
  proof
    assume "fe_nextHops (fe_addNextHop f c e) = []"
    then have "set (sort_key nh_cost hs') = {}" by (simp add: e' sortNextHops_def)
    then show False using hs' by simp
  qed
qed

lemma fe_removeNextHop_ok:
  assumes "fe_ok n e"
  shows "fe_ok n (fe_removeNextHop f e)" "hop_cost (fe_removeNextHop f e) = (hop_cost e)(f := None)"
proof -
  let ?hs = "fe_nextHops e" and ?i = "find_if (\<lambda>h. nh_face h = f) (fe_nextHops e)"
  have d: "distinct (map nh_face ?hs)" "sorted (map nh_cost ?hs)" using assms by (simp_all add: fe_ok_def)
  define hs' where "hs' = (if ?i = length ?hs then ?hs else remove_at ?i ?hs)"
  have e': "fe_removeNextHop f e = e\<lparr>fe_nextHops := hs'\<rparr>"
    by (simp add: fe_removeNextHop_def Let_def findNextHop_def hs'_def)
  have hs': "distinct (map nh_face hs') \<and> set hs' = {h \<in> set ?hs. nh_face h \<noteq> f}"
  proof (cases "?i = length ?hs")
    case True
    then have "\<forall>h \<in> set ?hs. nh_face h \<noteq> f" by (simp add: find_if_end)
    then show ?thesis using d True by (auto simp: hs'_def)
  qed (use set_hop(3) [OF d(1)] in \<open>simp add: hs'_def\<close>)
  have "sorted (map nh_cost hs')"
  proof (cases "?i = length ?hs")
    case False
    have "?hs = take ?i ?hs @ ?hs ! ?i # drop (Suc ?i) ?hs" using remove_at_parts find_if_hit [OF False] by blast
    then have "sorted (map nh_cost (take ?i ?hs @ ?hs ! ?i # drop (Suc ?i) ?hs))" using d(2) by metis
    then have "sorted (map nh_cost (take ?i ?hs @ drop (Suc ?i) ?hs))" by (simp only: map_append list.map sorted_append sorted_simps set_append list.set) blast
    then show ?thesis using False by (simp add: hs'_def remove_at_def)
  qed (use d(2) in \<open>simp add: hs'_def\<close>)
  then show ok: "fe_ok n (fe_removeNextHop f e)" using assms hs' by (simp add: e' fe_ok_def)
  show "hop_cost (fe_removeNextHop f e) = (hop_cost e)(f := None)"
  proof
    fix g
    have "hop_cost (fe_removeNextHop f e) g = Some k \<longleftrightarrow> ((hop_cost e)(f := None)) g = Some k" for k
      unfolding hop_cost_Some [OF ok] fun_upd_apply using hs' by (auto simp: e' hop_cost_Some [OF assms])
    then show "hop_cost (fe_removeNextHop f e) g = ((hop_cost e)(f := None)) g" by (rule option_ext)
  qed
qed

section \<open>The table\<close>

lemma tables_update:
  assumes "tree_ok t" and "ht_map t n \<noteq> None" and f: "\<And>e. f e = e\<lparr>ne_fibEntry := g (ne_fibEntry e)\<rparr>"
  shows "tree_ok (ht_update n f t)" "nt_tables (ht_update n f t) = (nt_tables t)(n := f (nt_tables t n))"
    "ht_map (ht_update n f t) m = None \<longleftrightarrow> ht_map t m = None"
proof -
  have "ht_ok t" using assms(1) by (simp add: tree_ok_def)
  then have u: "ht_ok (ht_update n f t)" "\<And>m. ht_map (ht_update n f t) m = map_option (if m = n then f else id) (ht_map t m)"
    using ht_update_ok [of t f n] by (simp_all add: f)
  have dom: "ht_map (ht_update n f t) m = None \<longleftrightarrow> ht_map t m = None" for m using u(2) by simp
  then show "ht_map (ht_update n f t) m = None \<longleftrightarrow> ht_map t m = None" .
  have "linked_entry (ht_map (ht_update n f t)) m e" if e: "ht_map (ht_update n f t) m = Some e" for m e
  proof -
    obtain e0 where e0: "ht_map t m = Some e0" "e = (if m = n then f e0 else e0)" using e u(2) [of m] by (cases "ht_map t m") auto
    then show ?thesis using tree_okD [OF assms(1) e0(1)] by (simp add: linked_entry_def dom f)
  qed
  then show "tree_ok (ht_update n f t)" using u(1) by (simp add: tree_ok_def)
  show "nt_tables (ht_update n f t) = (nt_tables t)(n := f (nt_tables t n))"
    using assms(2) by (auto simp: nt_tables_map u(2) fun_eq_iff unlinked_def f split: option.split)
qed

lemma empty_tables: "ne_isEmpty e \<longleftrightarrow> ne_children e = [] \<and> \<not> hasTableEntries (unlinked e)"
  by (simp add: ne_isEmpty_def hasTableEntries_def unlinked_def)

lemma nonempty_iff:
  assumes "tree_ok t" and "ht_map t n = Some e"
  shows "\<not> ne_isEmpty e \<longleftrightarrow> hasTableEntries (nt_tables t n) \<or> (\<exists>m. ht_map t m \<noteq> None \<and> m \<noteq> [] \<and> butlast m = n)"
proof -
  have "ne_children e \<noteq> [] \<longleftrightarrow> set (ne_children e) \<noteq> {}" by simp
  also have "\<dots> \<longleftrightarrow> (\<exists>m. ht_map t m \<noteq> None \<and> m \<noteq> [] \<and> butlast m = n)" unfolding tree_okD(4) [OF assms] by blast
  finally have "ne_children e \<noteq> [] \<longleftrightarrow> (\<exists>m. ht_map t m \<noteq> None \<and> m \<noteq> [] \<and> butlast m = n)" .
  then show ?thesis using assms(2) by (auto simp: empty_tables nt_tables_map)
qed

definition fib_at :: "fib_table \<Rightarrow> full_name \<Rightarrow> fib_entry option" where
  "fib_at F n = ne_fibEntry (nt_tables (ft_nameTree F) n)"

definition fib_view :: "fib_table \<Rightarrow> fib" where
  "fib_view F n = (case fib_at F n of None \<Rightarrow> (\<lambda>_. None) | Some e \<Rightarrow> hop_cost e)"

text \<open>
  The invariant: the tree is linked, an entry of the tree is there for something, the entries of the FIB
  have the right prefix, next hops of different faces in the order of their costs, and at least one,
  and the entries are counted.
\<close>

definition fib_ok :: "fib_table \<Rightarrow> bool" where
  "fib_ok F \<longleftrightarrow> tree_ok (ft_nameTree F) \<and> tidy (ft_nameTree F) \<and> (\<forall>n e. fib_at F n = Some e \<longrightarrow> fe_ok n e \<and> fe_nextHops e \<noteq> [])
     \<and> ft_nItems F = of_nat (card {n. fib_at F n \<noteq> None})"

lemma fib_at_entry: "fib_at F n = ne_fibEntry (ht_entry (ft_nameTree F) n)"
  by (simp add: fib_at_def nt_tables_def unlinked_def)

lemma fib_at_dom: "fib_at F n \<noteq> None \<Longrightarrow> ht_map (ft_nameTree F) n \<noteq> None"
  by (auto simp: fib_at_def nt_tables_map nt_entry_new_def split: option.splits)

lemma finite_fib: "finite {n. fib_at F n \<noteq> None}"
proof (rule finite_subset)
  show "{n. fib_at F n \<noteq> None} \<subseteq> dom (ht_map (ft_nameTree F))" using fib_at_dom by blast
  show "finite (dom (ht_map (ft_nameTree F)))" by (simp add: ht_map_def finite_dom_map_of)
qed

lemma fib_view_none: "fib_ok F \<Longrightarrow> fib_view F n = (\<lambda>_. None) \<longleftrightarrow> fib_at F n = None"
  by (auto simp: fib_ok_def fib_view_def hop_cost_none split: option.splits)

lemma exact_match: "fib_ok F \<Longrightarrow> Fib_findExactMatch n F = (if fib_at F n = None then None else Some n)"
  using Hashtable_find_ok [of "ft_nameTree F" n "length n"] fib_at_dom [of F n]
  by (auto simp: Fib_findExactMatch_def NameTree_findExactMatch_def fib_ok_def tree_ok_def fib_at_entry split: option.splits)

lemma longest_match:
  assumes "fib_ok F"
  shows "Fib_findLongestPrefixMatch n F
     = Inr (case longest_prefix (\<lambda>m. fib_view F m \<noteq> (\<lambda>_. None)) n of None \<Rightarrow> EmptyEntry | Some m \<Rightarrow> Attached m)"
proof -
  have "ht_ok (ft_nameTree F)" using assms by (simp add: fib_ok_def tree_ok_def)
  moreover have "selected nteHasFibEntry (ft_nameTree F) = (\<lambda>m. fib_view F m \<noteq> (\<lambda>_. None))"
    using fib_view_none [OF assms] fib_at_dom [of F] by (auto simp: selected_def nteHasFibEntry_def fib_at_entry fun_eq_iff)
  ultimately show ?thesis by (simp add: Fib_findLongestPrefixMatch_def match_name_ok split: option.split)
qed

section \<open>The commands of the manager\<close>

lemma tidyI:
  assumes "tree_ok t" and "\<And>m. ht_map t m \<noteq> None \<Longrightarrow> hasTableEntries (nt_tables t m) \<or> (\<exists>k. ht_map t k \<noteq> None \<and> k \<noteq> [] \<and> butlast k = m)"
  shows "tidy t"
  unfolding tidy_def using nonempty_iff [OF assms(1)] assms(2) by blast

lemma tidyD: "tidy t \<Longrightarrow> tree_ok t \<Longrightarrow> ht_map t m \<noteq> None \<Longrightarrow> hasTableEntries (nt_tables t m) \<or> (\<exists>k. ht_map t k \<noteq> None \<and> k \<noteq> [] \<and> butlast k = m)"
  using nonempty_iff [of t m] by (auto simp: tidy_def)

lemma fib_put:
  assumes "fib_ok F" and "tree_ok t" and "tidy t" and "\<And>m. ne_fibEntry (nt_tables t m) = (if m = n then Some e else fib_at F m)"
    and "fe_ok n e" and "fe_nextHops e \<noteq> []" and "k = (if fib_at F n = None then ft_nItems F + 1 else ft_nItems F)"
  shows "fib_ok \<lparr>ft_nameTree = t, ft_nItems = k\<rparr>" "fib_view \<lparr>ft_nameTree = t, ft_nItems = k\<rparr> = (fib_view F)(n := hop_cost e)"
proof -
  let ?F = "\<lparr>ft_nameTree = t, ft_nItems = k\<rparr>"
  have fib_at: "fib_at ?F m = (if m = n then Some e else fib_at F m)" for m using assms(4) by (simp add: fib_at_def)
  have "{m. fib_at ?F m \<noteq> None} = insert n {m. fib_at F m \<noteq> None}" by (auto simp: fib_at)
  then have "card {m. fib_at ?F m \<noteq> None} = (if fib_at F n = None then Suc (card {m. fib_at F m \<noteq> None}) else card {m. fib_at F m \<noteq> None})"
    using card_insert_if [OF finite_fib, of n F] by simp
  then show "fib_ok ?F" using assms(1-3,5-7) fib_at by (auto simp: fib_ok_def split: if_splits)
  show "fib_view ?F = (fib_view F)(n := hop_cost e)" by (auto simp: fib_view_def fib_at fun_eq_iff)
qed

lemma fib_view_entry: "fib_at F n = Some e \<Longrightarrow> fib_view F n = hop_cost e"
  by (simp add: fib_view_def)

lemma fib_drop:
  assumes "fib_ok F" and "tree_ok t" and "tidy t" and "\<And>m. ne_fibEntry (nt_tables t m) = (if m = n then None else fib_at F m)"
    and "fib_at F n \<noteq> None"
  shows "fib_ok \<lparr>ft_nameTree = t, ft_nItems = ft_nItems F - 1\<rparr>" "fib_view \<lparr>ft_nameTree = t, ft_nItems = ft_nItems F - 1\<rparr> = (fib_view F)(n := (\<lambda>_. None))"
proof -
  let ?F = "\<lparr>ft_nameTree = t, ft_nItems = ft_nItems F - 1\<rparr>"
  have fib_at: "fib_at ?F m = (if m = n then None else fib_at F m)" for m using assms(4) by (simp add: fib_at_def)
  have "{m. fib_at F m \<noteq> None} = insert n {m. fib_at ?F m \<noteq> None}" "n \<notin> {m. fib_at ?F m \<noteq> None}" using assms(5) by (auto simp: fib_at)
  then have "card {m. fib_at F m \<noteq> None} = Suc (card {m. fib_at ?F m \<noteq> None})" using finite_fib [of ?F] by simp
  then show "fib_ok ?F" using assms(1-3) fib_at by (auto simp: fib_ok_def split: if_splits)
  show "fib_view ?F = (fib_view F)(n := (\<lambda>_. None))" by (auto simp: fib_view_def fib_at fun_eq_iff)
qed

lemma looked_up_tidy:
  assumes "tidy t" and "tree_ok t" and "tree_ok t'" and "\<And>m. m \<noteq> n \<Longrightarrow> nt_tables t' m = nt_tables t m" and "hasTableEntries (nt_tables t' n)"
    and dom: "\<And>m. ht_map t' m \<noteq> None \<longleftrightarrow> ht_map t m \<noteq> None \<or> (\<exists>r. n = m @ r)"
  shows "tidy t'"
proof (rule tidyI [OF assms(3)])
  fix m assume m: "ht_map t' m \<noteq> None"
  consider "m = n" | "m \<noteq> n" "\<exists>r. n = m @ r" | "m \<noteq> n" "ht_map t m \<noteq> None" using m dom by blast
  then show "hasTableEntries (nt_tables t' m) \<or> (\<exists>k. ht_map t' k \<noteq> None \<and> k \<noteq> [] \<and> butlast k = m)"
  proof cases
    case 1
    then show ?thesis using assms(5) by simp
  next
    case 2
    then obtain c r where n: "n = m @ c # r" by (metis append_Nil2 neq_Nil_conv)
    then have "ht_map t' (m @ [c]) \<noteq> None" unfolding dom by simp
    moreover have "m @ [c] \<noteq> []" "butlast (m @ [c]) = m" by simp_all
    ultimately show ?thesis by blast
  next
    case 3
    then show ?thesis using tidyD [OF assms(1,2) 3(2)] assms(4) dom by auto
  qed
qed

text \<open>The PIT shares the tree.\<close>

definition same_pit :: "hashtable \<Rightarrow> hashtable \<Rightarrow> bool" where
  "same_pit t t' \<longleftrightarrow> (\<forall>n. ne_pitEntries (nt_tables t' n) = ne_pitEntries (nt_tables t n))"

text \<open>Adding a next hop.\<close>

lemma FibManager_addNextHop_ok:
  assumes "fib_ok F" and "f \<noteq> 0" and "f \<in> faces"
  shows "\<exists>F'. FibManager_addNextHop faces tag \<lparr>cp_name = n, cp_faceId = f, cp_cost = Some c\<rparr> F = Inr (F', 200, Some \<lparr>cp_name = n, cp_faceId = f, cp_cost = Some c\<rparr>)
     \<and> fib_ok F' \<and> fib_view F' = (fib_view F)(n := (fib_view F n)(f := Some c)) \<and> same_pit (ft_nameTree F) (ft_nameTree F')"
proof -
  let ?t0 = "ft_nameTree F" and ?g = "\<lambda>e. e\<lparr>ne_fibEntry := map_option (fe_addNextHop f c) (ne_fibEntry e)\<rparr>" and ?h = "\<lambda>e. e\<lparr>ne_fibEntry := Some (fib_Entry n)\<rparr>"
  have F: "tree_ok ?t0" "tidy ?t0" "\<And>e. fib_at F n = Some e \<Longrightarrow> fe_ok n e" using assms(1) by (simp_all add: fib_ok_def)
  obtain t where t: "NameTree_lookup n ?t0 = Inr t" "tree_ok t" "nt_tables t = nt_tables ?t0"
    "\<forall>m. ht_map t m \<noteq> None \<longleftrightarrow> ht_map ?t0 m \<noteq> None \<or> (\<exists>r. n = m @ r)" using NameTree_lookup_ok [OF F(1), of n] by blast
  have n: "ht_map t n \<noteq> None" using t(4) by simp
  have en: "ne_fibEntry (ht_entry t n) = fib_at F n" unfolding fib_at_def t(3) [symmetric] by (simp add: nt_tables_def unlinked_def)
  define e where "e = (case fib_at F n of None \<Rightarrow> fib_Entry n | Some e \<Rightarrow> e)"
  have e: "fe_ok n e" "hop_cost e = fib_view F n"
    using F(3) by (auto simp: e_def fib_Entry_def fe_ok_def fib_view_def hop_cost_def fun_eq_iff split: option.split)
  define t1 where "t1 = (if fib_at F n = None then setFibEntry n (Some (fib_Entry n)) t else t)"
  have t1: "tree_ok t1" "nt_tables t1 = (nt_tables ?t0)(n := (nt_tables ?t0 n)\<lparr>ne_fibEntry := Some e\<rparr>)" "\<And>m. ht_map t1 m = None \<longleftrightarrow> ht_map t m = None"
  proof -
    show "tree_ok t1" "\<And>m. ht_map t1 m = None \<longleftrightarrow> ht_map t m = None"
      using tables_update [OF t(2) n, of ?h "\<lambda>_. Some (fib_Entry n)"] t(2) by (simp_all add: t1_def setFibEntry_def)
    show "nt_tables t1 = (nt_tables ?t0)(n := (nt_tables ?t0 n)\<lparr>ne_fibEntry := Some e\<rparr>)"
      using tables_update(2) [OF t(2) n, of ?h "\<lambda>_. Some (fib_Entry n)"] t(3)
      by (cases "fib_at F n") (auto simp: t1_def setFibEntry_def e_def fib_at_def fun_eq_iff)
  qed
  have n1: "ht_map t1 n \<noteq> None" using t1(3) n by simp
  define t2 where "t2 = ht_update n ?g t1"
  note up = tables_update [OF t1(1) n1, of ?g "map_option (fe_addNextHop f c)"]
  have t2: "tree_ok t2" "nt_tables t2 = (nt_tables ?t0)(n := (nt_tables ?t0 n)\<lparr>ne_fibEntry := Some (fe_addNextHop f c e)\<rparr>)"
    "\<And>m. ht_map t2 m \<noteq> None \<longleftrightarrow> ht_map ?t0 m \<noteq> None \<or> (\<exists>r. n = m @ r)"
    using up t1(2,3) t(4) by (simp_all add: t2_def)
  have "tidy t2" by (rule looked_up_tidy [OF F(2,1) t2(1) _ _ t2(3)]) (simp_all add: t2(2) hasTableEntries_def)
  define k where "k = (if fib_at F n = None then ft_nItems F + 1 else ft_nItems F)"
  note put = fib_put [OF assms(1) t2(1) \<open>tidy t2\<close> _ fe_addNextHop_ok(1,3) [OF e(1)] k_def]
  have "ne_fibEntry (nt_tables t2 m) = (if m = n then Some (fe_addNextHop f c e) else fib_at F m)" for m by (simp add: t2(2) fib_at_def)
  note put = put [OF this]
  have "FibManager_addNextHop faces tag \<lparr>cp_name = n, cp_faceId = f, cp_cost = Some c\<rparr> F
      = Inr (\<lparr>ft_nameTree = t2, ft_nItems = k\<rparr>, 200, Some \<lparr>cp_name = n, cp_faceId = f, cp_cost = Some c\<rparr>)"
    using assms(2,3) t(1) en by (simp add: FibManager_addNextHop_def setFaceForSelfRegistration_def Fib_insert_def change_fib_entry_def t2_def t1_def k_def)
  moreover have "same_pit ?t0 t2" by (simp add: same_pit_def t2(2))
  ultimately show ?thesis using put fe_addNextHop_ok(2) [OF e(1), of f c] e(2) by auto
qed

text \<open>Removing one.\<close>

lemma FibManager_removeNextHop_ok:
  assumes "fib_ok F" and "f \<noteq> 0" and "f \<in> faces"
  shows "\<exists>F'. FibManager_removeNextHop faces tag \<lparr>cp_name = n, cp_faceId = f, cp_cost = c\<rparr> F = Some (Inr (F', 200, Some \<lparr>cp_name = n, cp_faceId = f, cp_cost = c\<rparr>))
     \<and> fib_ok F' \<and> fib_view F' = (fib_view F)(n := (fib_view F n)(f := None)) \<and> same_pit (ft_nameTree F) (ft_nameTree F')"
proof (cases "fib_at F n")
  case None
  then have "(fib_view F)(n := (fib_view F n)(f := None)) = fib_view F" using fib_view_none [OF assms(1), of n] by (auto simp: fun_eq_iff)
  then show ?thesis using assms None exact_match [OF assms(1), of n]
    by (simp add: FibManager_removeNextHop_def setFaceForSelfRegistration_def same_pit_def)
next
  case (Some e)
  let ?t0 = "ft_nameTree F" and ?g = "\<lambda>e. e\<lparr>ne_fibEntry := map_option (fe_removeNextHop f) (ne_fibEntry e)\<rparr>" and ?h = "\<lambda>e. e\<lparr>ne_fibEntry := None\<rparr>"
  let ?p = "\<lparr>cp_name = n, cp_faceId = f, cp_cost = c\<rparr>"
  have F: "tree_ok ?t0" "tidy ?t0" "fe_ok n e" using assms(1) Some by (simp_all add: fib_ok_def)
  have n: "ht_map ?t0 n \<noteq> None" using fib_at_dom [of F n] Some by simp
  define t1 where "t1 = ht_update n ?g ?t0"
  note up = tables_update [OF F(1) n, of ?g "map_option (fe_removeNextHop f)", folded t1_def, simplified]
  define e' where "e' = fe_removeNextHop f e"
  note e' = fe_removeNextHop_ok [OF F(3), of f, folded e'_def]
  have fib1: "ne_fibEntry (nt_tables t1 m) = (if m = n then Some e' else fib_at F m)" for m using Some by (simp add: up(2) fib_at_def e'_def)
  have at1: "fib_entry_at (F\<lparr>ft_nameTree := t1\<rparr>) n = e'" using fib1 [of n] by (simp add: fib_entry_at_def nt_tables_def unlinked_def)
  have view: "(fib_view F n)(f := None) = hop_cost e'" using e'(2) Some by (simp add: fib_view_def)
  have run: "FibManager_removeNextHop faces tag ?p F
      = (if fe_nextHops e' = [] then map_option (map_sum id (\<lambda>F2. (F2, 200, Some ?p))) (Fib_erase_nte n True (F\<lparr>ft_nameTree := t1\<rparr>))
         else Some (Inr (F\<lparr>ft_nameTree := t1\<rparr>, 200, Some ?p)))"
    using assms Some exact_match [OF assms(1), of n] at1
    by (simp add: FibManager_removeNextHop_def setFaceForSelfRegistration_def change_fib_entry_def t1_def [symmetric] Let_def Fib_erase_entry_def)
  show ?thesis
  proof (cases "fe_nextHops e' = []")
    case False
    have "tidy t1"
    proof (rule tidyI [OF up(1)])
      fix m assume "ht_map t1 m \<noteq> None"
      then have "ht_map ?t0 m \<noteq> None" using up(3) by simp
      then show "hasTableEntries (nt_tables t1 m) \<or> (\<exists>k. ht_map t1 k \<noteq> None \<and> k \<noteq> [] \<and> butlast k = m)"
        using tidyD [OF F(2,1), of m] up(2,3) Some by (auto simp: hasTableEntries_def fib_at_def)
    qed
    note put = fib_put [OF assms(1) up(1) this fib1 e'(1) False]
    have "F\<lparr>ft_nameTree := t1\<rparr> = \<lparr>ft_nameTree = t1, ft_nItems = ft_nItems F\<rparr>" by (cases F) simp
    note run' = run [unfolded this]
    have "same_pit ?t0 t1" by (simp add: same_pit_def up(2))
    then show ?thesis using run' False put [of "ft_nItems F"] Some view by auto
  next
    case True
    define t2 where "t2 = ht_update n ?h t1"
    have n1: "ht_map t1 n \<noteq> None" using up(3) n by simp
    note up2 = tables_update [OF up(1) n1, of ?h "\<lambda>_. None", folded t2_def, simplified]
    have "ht_map t2 n \<noteq> None" using up2(3) n1 by simp
    then obtain t3 k where t3: "erase_loop True (Some n) 0 t2 = Some (Inr (t3, k))" "tree_ok t3" "nt_tables t3 = nt_tables t2"
      "\<forall>m e. ht_map t2 m = Some e \<and> m \<noteq> n \<longrightarrow> \<not> ne_isEmpty e \<Longrightarrow> tidy t3"
      using erase_loop_ok [OF up2(1), of n True 0] by blast
    have "\<not> ne_isEmpty x" if x: "ht_map t2 m = Some x" "m \<noteq> n" for m x
    proof -
      have "ht_map ?t0 m \<noteq> None" using x(1) up2(3) [of m] up(3) [of m] by simp
      then show ?thesis using tidyD [OF F(2,1), of m] x(2) unfolding nonempty_iff [OF up2(1) x(1)] by (simp add: up2(2,3) up(2,3))
    qed
    then have "tidy t3" using t3(4) by blast
    moreover have "ne_fibEntry (nt_tables t3 m) = (if m = n then None else fib_at F m)" for m by (simp add: t3(3) up2(2) up(2) fib_at_def)
    ultimately have d: "fib_ok \<lparr>ft_nameTree = t3, ft_nItems = ft_nItems F - 1\<rparr>" "fib_view \<lparr>ft_nameTree = t3, ft_nItems = ft_nItems F - 1\<rparr> = (fib_view F)(n := (\<lambda>_. None))"
      using fib_drop [OF assms(1) t3(2)] Some by simp_all
    have "Fib_erase_nte n True (F\<lparr>ft_nameTree := t1\<rparr>) = Some (Inr \<lparr>ft_nameTree = t3, ft_nItems = ft_nItems F - 1\<rparr>)"
      using t3(1) by (simp add: Fib_erase_nte_def setFibEntry_def t2_def [symmetric] Let_def eraseIfEmpty_def)
    moreover have "same_pit ?t0 t3" by (simp add: same_pit_def t3(3) up2(2) up(2))
    ultimately show ?thesis using run True d view hop_cost_none [of e'] by simp
  qed
qed

end
