(* ===== verification/PitOk.thy ===== *)
theory PitOk
  imports Pit FibOk
begin

text \<open>
  The pending Interest table is a map from names and selectors to entries, kept in the name tree, and a
  Data match finds exactly the entries that the Data satisfies.
\<close>

section \<open>Packets\<close>

definition selectors_ok :: "selectors \<Rightarrow> bool" where
  "selectors_ok s \<longleftrightarrow> (\<exists>w s'. Selectors_wireEncode s = Inr (w, s') \<and> block_wf w \<and> Block_hasWire w)"

definition selectors_bytes :: "selectors \<Rightarrow> byte list" where
  "selectors_bytes s = (case Selectors_wireEncode s of Inl e \<Rightarrow> [] | Inr (w, s') \<Rightarrow> wire_bytes w)"

definition packet_ok :: "interest_packet \<Rightarrow> bool" where
  "packet_ok p \<longleftrightarrow> name_block (i_name (ip_interest p)) \<and> selectors_ok (ip_selectors p)
     \<and> (\<exists>w. Name_wireEncode (i_name (ip_interest p)) = Inr w)"

definition packet_key :: "interest_packet \<Rightarrow> full_name \<times> byte list" where
  "packet_key p = (ip_name p, selectors_bytes (ip_selectors p))"

lemma Block_equals_wires:
  assumes "block_wf a" and "Block_hasWire a" and "block_wf b" and "Block_hasWire b"
  shows "Block_equals a b = Inr (wire_bytes a = wire_bytes b)"
proof -
  have "Block_size a = Inr (length (wire_bytes a))" "Block_size b = Inr (length (wire_bytes b))"
    using assms wf_wire_size by (simp_all add: Block_size_def)
  then show ?thesis using assms(2,4) by (auto simp: Block_equals_def Block_begin_def Block_end_def)
qed

lemma Selectors_equals_bytes:
  "selectors_ok s \<Longrightarrow> selectors_ok t \<Longrightarrow> Selectors_equals s t = Inr (selectors_bytes s = selectors_bytes t)"
  by (auto simp: selectors_ok_def Selectors_equals_def selectors_bytes_def Block_equals_wires)

lemma canMatch_key:
  assumes "packet_ok (pe_interest e)" and "packet_ok p" and "take k (ip_name (pe_interest e)) = take k (ip_name p)"
  shows "canMatch e p k = Inr (packet_key (pe_interest e) = packet_key p)"
proof -
  have "ip_name (pe_interest e) = ip_name p \<longleftrightarrow> drop k (ip_name (pe_interest e)) = drop k (ip_name p)"
    using assms(3) by (metis append_take_drop_id)
  then show ?thesis using assms Selectors_equals_bytes by (auto simp: canMatch_def Let_def packet_key_def packet_ok_def)
qed

section \<open>Records\<close>

definition entry_ok :: "pit_entry \<Rightarrow> bool" where
  "entry_ok e \<longleftrightarrow> packet_ok (pe_interest e) \<and> distinct (map in_face (pe_inRecords e)) \<and> distinct (map out_face (pe_outRecords e))
     \<and> (\<forall>r \<in> set (pe_inRecords e). packet_ok (in_interest r) \<and> packet_key (in_interest r) = packet_key (pe_interest e))"

lemma find_record: "List.find (\<lambda>r. g r = f) rs = None \<longleftrightarrow> f \<notin> set (map g rs)"
  by (auto simp: find_None_iff)

lemma map_update_first: "(\<And>x. g (u x) = g x) \<Longrightarrow> map g (update_first P u xs) = map g xs"
  by (induction xs) auto

lemma set_update_first: "set (update_first P u xs) \<subseteq> set xs \<union> u ` set xs"
  by (induction xs) auto

text \<open>In a list in which the numbers differ, the first element of a number is the only one.\<close>

lemma head_differs: "distinct (map g (x # xs)) \<Longrightarrow> y \<in> set xs \<Longrightarrow> g y \<noteq> g x"
  by (metis distinct.simps(2) image_eqI list.set_map list.simps(9))

lemma update_first_map:
  "distinct (map g xs) \<Longrightarrow> update_first (\<lambda>x. g x = f) u xs = map (\<lambda>x. if g x = f then u x else x) xs"
proof (induction xs)
  case (Cons x xs)
  have "map (\<lambda>y. if g y = f then u y else y) xs = xs" if "g x = f" by (rule map_idI) (use head_differs [OF Cons.prems] that in auto)
  then show ?case using Cons by simp
qed simp

lemma remove_first_filter: "distinct (map g xs) \<Longrightarrow> remove_first (\<lambda>x. g x = f) xs = filter (\<lambda>x. g x \<noteq> f) xs"
proof (induction xs)
  case (Cons x xs)
  have "filter (\<lambda>y. g y \<noteq> f) xs = xs" if "g x = f" using head_differs [OF Cons.prems] that by (auto simp: filter_id_conv)
  then show ?case using Cons by simp
qed simp

lemma distinct_map_filter': "distinct (map g xs) \<Longrightarrow> distinct (map g (filter P xs))"
  by (induction xs) auto

lemma insertOrUpdateInRecord_ok:
  assumes "entry_ok e" and "packet_ok p" and "packet_key p = packet_key (pe_interest e)"
  shows "\<exists>e'. insertOrUpdateInRecord now f p e = Inr e' \<and> entry_ok e' \<and> e' = e\<lparr>pe_inRecords := pe_inRecords e'\<rparr>
     \<and> set (map in_face (pe_inRecords e')) = insert f (set (map in_face (pe_inRecords e)))
     \<and> (\<forall>r. r \<in> set (pe_inRecords e') \<longleftrightarrow> r \<in> set (pe_inRecords e) \<and> in_face r \<noteq> f
          \<or> r = \<lparr>in_face = f, in_lastNonce = ip_nonce p, in_lastRenewed = now, in_expiry = record_expiry now p, in_interest = p\<rparr>)"
proof -
  let ?new = "\<lparr>in_face = f, in_lastNonce = ip_nonce p, in_lastRenewed = now, in_expiry = record_expiry now p, in_interest = p\<rparr>"
  define rs where "rs = (if getInRecord f e = None then InRecord_new f p # pe_inRecords e else pe_inRecords e)"
  have mem: "getInRecord f e = None \<longleftrightarrow> f \<notin> set (map in_face (pe_inRecords e))" unfolding getInRecord_def by (rule find_record)
  have d: "distinct (map in_face rs)" "set (map in_face rs) = insert f (set (map in_face (pe_inRecords e)))"
    using assms(1) mem by (auto simp: rs_def entry_ok_def InRecord_new_def)
  define e' where "e' = e\<lparr>pe_inRecords := update_first (\<lambda>r. in_face r = f) (InRecord_update now p) rs\<rparr>"
  have "canMatch e p 0 = Inr True" using canMatch_key [of e p 0] assms by (simp add: entry_ok_def)
  then have run: "insertOrUpdateInRecord now f p e = Inr e'"
    by (simp add: insertOrUpdateInRecord_def assert_canMatch_def e'_def rs_def)
  have upd: "pe_inRecords e' = map (\<lambda>r. if in_face r = f then InRecord_update now p r else r) rs"
    by (simp add: e'_def update_first_map [OF d(1)])
  have new: "in_face r = f \<Longrightarrow> InRecord_update now p r = ?new" for r by (cases r) (simp add: InRecord_update_def)
  have faces: "map in_face (pe_inRecords e') = map in_face rs" unfolding upd by (auto simp: InRecord_update_def)
  have "r \<in> set (pe_inRecords e') \<longleftrightarrow> (r \<in> set rs \<and> in_face r \<noteq> f) \<or> r = ?new" for r
  proof -
    have "f \<in> in_face ` set rs" using d(2) by simp
    then obtain r0 where "r0 \<in> set rs" "in_face r0 = f" by blast
    then show ?thesis unfolding upd using new by (auto simp: image_iff)
  qed
  moreover have "r \<in> set rs \<and> in_face r \<noteq> f \<longleftrightarrow> r \<in> set (pe_inRecords e) \<and> in_face r \<noteq> f" for r by (auto simp: rs_def InRecord_new_def)
  ultimately have recs: "r \<in> set (pe_inRecords e') \<longleftrightarrow> r \<in> set (pe_inRecords e) \<and> in_face r \<noteq> f \<or> r = ?new" for r by simp
  have "entry_ok e'"
    unfolding entry_ok_def
  proof (intro conjI ballI)
    show "distinct (map in_face (pe_inRecords e'))" using faces d(1) by simp
    fix r assume "r \<in> set (pe_inRecords e')"
    then show "packet_ok (in_interest r)" "packet_key (in_interest r) = packet_key (pe_interest e')"
      unfolding recs using assms by (auto simp: entry_ok_def e'_def)
  qed (use assms(1) in \<open>simp_all add: entry_ok_def e'_def\<close>)
  then show ?thesis using run faces d(2) recs by (intro exI [of _ e']) (simp add: e'_def)
qed

lemma insertOrUpdateOutRecord_ok:
  assumes "entry_ok e" and "packet_ok p" and "packet_key p = packet_key (pe_interest e)"
  shows "\<exists>e'. insertOrUpdateOutRecord now f p e = Inr e' \<and> entry_ok e' \<and> e' = e\<lparr>pe_outRecords := pe_outRecords e'\<rparr>
     \<and> (\<forall>r. r \<in> set (pe_outRecords e') \<longleftrightarrow> r \<in> set (pe_outRecords e) \<and> out_face r \<noteq> f
          \<or> r = \<lparr>out_face = f, out_lastNonce = ip_nonce p, out_lastRenewed = now, out_expiry = record_expiry now p,
                 out_incomingNack = Option.bind (getOutRecord f e) out_incomingNack\<rparr>)"
proof -
  let ?new = "\<lparr>out_face = f, out_lastNonce = ip_nonce p, out_lastRenewed = now, out_expiry = record_expiry now p,
                 out_incomingNack = Option.bind (getOutRecord f e) out_incomingNack\<rparr>"
  define rs where "rs = (if getOutRecord f e = None then OutRecord_new f # pe_outRecords e else pe_outRecords e)"
  have mem: "getOutRecord f e = None \<longleftrightarrow> f \<notin> set (map out_face (pe_outRecords e))" unfolding getOutRecord_def by (rule find_record)
  have d: "distinct (map out_face rs)" "set (map out_face rs) = insert f (set (map out_face (pe_outRecords e)))"
    using assms(1) mem by (auto simp: rs_def entry_ok_def OutRecord_new_def)
  define e' where "e' = e\<lparr>pe_outRecords := update_first (\<lambda>r. out_face r = f) (OutRecord_update now p) rs\<rparr>"
  have "canMatch e p 0 = Inr True" using canMatch_key [of e p 0] assms by (simp add: entry_ok_def)
  then have run: "insertOrUpdateOutRecord now f p e = Inr e'"
    by (simp add: insertOrUpdateOutRecord_def assert_canMatch_def e'_def rs_def)
  have upd: "pe_outRecords e' = map (\<lambda>r. if out_face r = f then OutRecord_update now p r else r) rs"
    by (simp add: e'_def update_first_map [OF d(1)])
  have only: "r \<in> set rs \<Longrightarrow> out_face r = f \<Longrightarrow> out_incomingNack r = Option.bind (getOutRecord f e) out_incomingNack" for r
  proof (cases "getOutRecord f e")
    case None
    assume "r \<in> set rs" "out_face r = f"
    then have "r = OutRecord_new f" using None mem by (auto simp: rs_def)
    then show ?thesis using None by (simp add: OutRecord_new_def)
  next
    case (Some r1)
    assume r: "r \<in> set rs" "out_face r = f"
    have "r1 \<in> set rs" "out_face r1 = f" using Some by (auto simp: getOutRecord_def rs_def find_Some_iff)
    then have "r1 = r" using r d(1) by (auto simp: distinct_map dest: inj_onD)
    then show ?thesis using Some by simp
  qed
  have new: "r \<in> set rs \<Longrightarrow> out_face r = f \<Longrightarrow> OutRecord_update now p r = ?new" for r using only [of r] by (cases r) (simp add: OutRecord_update_def)
  have faces: "map out_face (pe_outRecords e') = map out_face rs" unfolding upd by (auto simp: OutRecord_update_def)
  have "r \<in> set (pe_outRecords e') \<longleftrightarrow> (r \<in> set rs \<and> out_face r \<noteq> f) \<or> r = ?new" for r
  proof -
    have "f \<in> out_face ` set rs" using d(2) by simp
    then obtain r0 where "r0 \<in> set rs" "out_face r0 = f" by blast
    then show ?thesis unfolding upd using new by (auto simp: image_iff)
  qed
  moreover have "r \<in> set rs \<and> out_face r \<noteq> f \<longleftrightarrow> r \<in> set (pe_outRecords e) \<and> out_face r \<noteq> f" for r by (auto simp: rs_def OutRecord_new_def)
  moreover have "entry_ok e'" using assms(1) faces d(1) by (simp add: entry_ok_def e'_def)
  ultimately show ?thesis using run by (intro exI [of _ e']) (simp add: e'_def)
qed

lemma delete_records_ok:
  assumes "entry_ok e"
  shows "entry_ok (deleteInRecord f e)" "entry_ok (deleteOutRecord f e)" "entry_ok (clearInRecords e)"
    "pe_inRecords (deleteInRecord f e) = filter (\<lambda>r. in_face r \<noteq> f) (pe_inRecords e)"
    "pe_outRecords (deleteOutRecord f e) = filter (\<lambda>r. out_face r \<noteq> f) (pe_outRecords e)"
  using assms distinct_map_filter' by (auto simp: entry_ok_def deleteInRecord_def deleteOutRecord_def clearInRecords_def remove_first_filter)

section \<open>The table\<close>

lemma tables_change:
  assumes "tree_ok t" and "ht_map t n \<noteq> None"
    and f: "\<And>e. f e = e\<lparr>ne_pitEntries := g (ne_pitEntries e)\<rparr>"
  shows "tree_ok (ht_update n f t)" "nt_tables (ht_update n f t) = (nt_tables t)(n := f (nt_tables t n))"
    "ht_map (ht_update n f t) m = None \<longleftrightarrow> ht_map t m = None"
proof -
  have "ht_ok t" using assms(1) by (simp add: tree_ok_def)
  then have u: "ht_ok (ht_update n f t)" "\<And>m. ht_map (ht_update n f t) m = map_option (if m = n then f else id) (ht_map t m)"
    using ht_update_ok [of t f n] by (simp_all add: f)
  have dom: "ht_map (ht_update n f t) m = None \<longleftrightarrow> ht_map t m = None" for m using u(2) by simp
  then show "ht_map (ht_update n f t) m = None \<longleftrightarrow> ht_map t m = None" .
  have "linked_entry (ht_map (ht_update n f t)) m e" if e: "ht_map (ht_update n f t) m = Some e" for m e
  proof -
    obtain e0 where e0: "ht_map t m = Some e0" "e = (if m = n then f e0 else e0)" using e u(2) [of m] by (cases "ht_map t m") auto
    then show ?thesis using tree_okD [OF assms(1) e0(1)] by (simp add: linked_entry_def dom f)
  qed
  then show "tree_ok (ht_update n f t)" using u(1) by (simp add: tree_ok_def)
  show "nt_tables (ht_update n f t) = (nt_tables t)(n := f (nt_tables t n))"
    using assms(2) by (auto simp: nt_tables_map u(2) fun_eq_iff unlinked_def f split: option.split)
qed

text \<open>The entries attached to a name.\<close>

definition attached :: "pit \<Rightarrow> full_name \<Rightarrow> nat list" where
  "attached x n = ne_pitEntries (nt_tables (pit_nameTree x) n)"

definition pit_ok :: "pit \<Rightarrow> bool" where
  "pit_ok x \<longleftrightarrow> tree_ok (pit_nameTree x) \<and> tidy (pit_nameTree x) \<and> (\<forall>n. distinct (attached x n))
     \<and> (\<forall>n j. j \<in> set (attached x n) \<longleftrightarrow> (\<exists>e. pit_entries x j = Some e \<and> pe_nameTreeEntry e = Some n))
     \<and> (\<forall>j e. pit_entries x j = Some e \<longrightarrow> j < pit_next x \<and> entry_ok e \<and> pe_nameTreeEntry e = Some (nte_name (ip_name (pe_interest e))))
     \<and> (\<forall>i j d e. pit_entries x i = Some d \<and> pit_entries x j = Some e \<and> packet_key (pe_interest d) = packet_key (pe_interest e) \<longrightarrow> i = j)
     \<and> pit_nItems x = of_nat (card (dom (pit_entries x)))"

lemma pit_okD:
  assumes "pit_ok x"
  shows "tree_ok (pit_nameTree x)" "tidy (pit_nameTree x)" "distinct (attached x n)"
    "j \<in> set (attached x n) \<longleftrightarrow> (\<exists>e. pit_entries x j = Some e \<and> pe_nameTreeEntry e = Some n)"
    "pit_entries x j = Some e \<Longrightarrow> j < pit_next x" "pit_entries x j = Some e \<Longrightarrow> entry_ok e"
    "pit_entries x j = Some e \<Longrightarrow> pe_nameTreeEntry e = Some (nte_name (ip_name (pe_interest e)))"
    "pit_entries x i = Some d \<Longrightarrow> pit_entries x j = Some e \<Longrightarrow> packet_key (pe_interest d) = packet_key (pe_interest e) \<Longrightarrow> i = j"
    "pit_nItems x = of_nat (card (dom (pit_entries x)))"
  using assms unfolding pit_ok_def by blast+

lemma finite_entries: "pit_ok x \<Longrightarrow> finite (dom (pit_entries x))"
  by (rule finite_subset [of _ "{..< pit_next x}"]) (auto dest: pit_okD(5))

lemma attached_entry: "attached x n = ne_pitEntries (ht_entry (pit_nameTree x) n)"
  by (simp add: attached_def nt_tables_def unlinked_def)

lemma attached_dom: "attached x n \<noteq> [] \<Longrightarrow> ht_map (pit_nameTree x) n \<noteq> None"
  by (auto simp: attached_def nt_tables_map nt_entry_new_def split: option.splits)

text \<open>A change of an entry that keeps its Interest and its place.\<close>

lemma change_pit_entry_ok:
  assumes "pit_ok x" and "\<And>e. pit_entries x j = Some e \<Longrightarrow> entry_ok (g e) \<and> pe_interest (g e) = pe_interest e \<and> pe_nameTreeEntry (g e) = pe_nameTreeEntry e"
  shows "pit_ok (change_pit_entry j g x)"
proof -
  let ?y = "change_pit_entry j g x"
  have at: "attached ?y n = attached x n" for n by (simp add: attached_def change_pit_entry_def)
  have old: "\<exists>d. pit_entries x i = Some d \<and> pe_interest d = pe_interest e \<and> pe_nameTreeEntry d = pe_nameTreeEntry e \<and> entry_ok e"
    if "pit_entries ?y i = Some e" for i e
    using that assms(2) pit_okD(6) [OF assms(1), of i] by (auto simp: change_pit_entry_def split: if_splits)
  have fwd: "\<exists>e. pit_entries ?y i = Some e \<and> pe_nameTreeEntry e = pe_nameTreeEntry d" if "pit_entries x i = Some d" for i d
    using that assms(2) by (cases "i = j") (auto simp: change_pit_entry_def)
  have "dom (pit_entries ?y) = dom (pit_entries x)" by (auto simp: change_pit_entry_def split: if_splits)
  moreover have "pit_nameTree ?y = pit_nameTree x" "pit_next ?y = pit_next x" "pit_nItems ?y = pit_nItems x" by (simp_all add: change_pit_entry_def)
  moreover have "i \<in> set (attached ?y n) \<longleftrightarrow> (\<exists>e. pit_entries ?y i = Some e \<and> pe_nameTreeEntry e = Some n)" for i n
    unfolding at pit_okD(4) [OF assms(1)] using old fwd by metis
  moreover have "i < pit_next x \<and> entry_ok e \<and> pe_nameTreeEntry e = Some (nte_name (ip_name (pe_interest e)))" if "pit_entries ?y i = Some e" for i e
    using old [OF that] pit_okD(5,7) [OF assms(1), of i] by metis
  moreover have "i = k" if "pit_entries ?y i = Some d" "pit_entries ?y k = Some e" "packet_key (pe_interest d) = packet_key (pe_interest e)" for i k d e
    using old [OF that(1)] old [OF that(2)] that(3) pit_okD(8) [OF assms(1), of i _ k] by metis
  ultimately show ?thesis using pit_okD(1-3,9) [OF assms(1)] at unfolding pit_ok_def by simp
qed

lemma find_pit_entry_ok:
  assumes "packet_ok p" and "\<forall>j \<in> set js. \<exists>e. pit_entries x j = Some e \<and> packet_ok (pe_interest e) \<and> take k (ip_name (pe_interest e)) = take k (ip_name p)"
  shows "find_pit_entry x p k js = Inr (List.find (\<lambda>j. \<exists>e. pit_entries x j = Some e \<and> packet_key (pe_interest e) = packet_key p) js)"
  using assms(2)
proof (induction js)
  case (Cons j js)
  then obtain e where e: "pit_entries x j = Some e" "packet_ok (pe_interest e)" "take k (ip_name (pe_interest e)) = take k (ip_name p)" by auto
  then show ?case using Cons canMatch_key [OF e(2) assms(1) e(3)] by (cases "packet_key (pe_interest e) = packet_key p") auto
qed simp

lemma nte_name_take: "nte_name n = take (length (nte_name n)) n"
  by (auto simp: nte_name_def butlast_conv_take)

text \<open>The entry of an Interest, if there is one, is the only one with its key, among those of its name.\<close>

definition pit_lookup :: "pit \<Rightarrow> interest_packet \<Rightarrow> nat option" where
  "pit_lookup x p = List.find (\<lambda>j. \<exists>e. pit_entries x j = Some e \<and> packet_key (pe_interest e) = packet_key p) (attached x (nte_name (ip_name p)))"

lemma pit_lookup_Some: "pit_ok x \<Longrightarrow> pit_lookup x p = Some j \<longleftrightarrow> (\<exists>e. pit_entries x j = Some e \<and> packet_key (pe_interest e) = packet_key p)"
proof
  assume "pit_lookup x p = Some j"
  then show "\<exists>e. pit_entries x j = Some e \<and> packet_key (pe_interest e) = packet_key p" unfolding pit_lookup_def find_Some_iff by auto
next
  assume x: "pit_ok x" and "\<exists>e. pit_entries x j = Some e \<and> packet_key (pe_interest e) = packet_key p"
  then obtain e where e: "pit_entries x j = Some e" "packet_key (pe_interest e) = packet_key p" by blast
  then have "pe_nameTreeEntry e = Some (nte_name (ip_name p))" using pit_okD(7) [OF x e(1)] by (simp add: packet_key_def)
  then have "j \<in> set (attached x (nte_name (ip_name p)))" using pit_okD(4) [OF x] e(1) by blast
  then have "pit_lookup x p \<noteq> None" using e unfolding pit_lookup_def find_None_iff by blast
  then obtain i where i: "pit_lookup x p = Some i" by blast
  then obtain d where "pit_entries x i = Some d" "packet_key (pe_interest d) = packet_key p" unfolding pit_lookup_def find_Some_iff by auto
  then have "i = j" using pit_okD(8) [OF x _ e(1)] e(2) by simp
  then show "pit_lookup x p = Some j" using i by simp
qed

lemma pit_lookup_None: "pit_ok x \<Longrightarrow> pit_lookup x p = None \<longleftrightarrow> (\<forall>j e. pit_entries x j = Some e \<longrightarrow> packet_key (pe_interest e) \<noteq> packet_key p)"
  using pit_lookup_Some [of x p] by (metis not_None_eq)

lemma search_ok:
  assumes "pit_ok x" and "packet_ok p" and "ne_pitEntries (ht_entry t n) = attached x n" and "n = nte_name (ip_name p)"
  shows "find_pit_entry x p (length n) (ne_pitEntries (ht_entry t n)) = Inr (pit_lookup x p)"
  unfolding assms(3) unfolding pit_lookup_def assms(4)
proof (rule find_pit_entry_ok [OF assms(2)], intro ballI)
  fix j assume "j \<in> set (attached x (nte_name (ip_name p)))"
  then obtain e where e: "pit_entries x j = Some e" "pe_nameTreeEntry e = Some (nte_name (ip_name p))" using pit_okD(4) [OF assms(1)] by blast
  have "nte_name (ip_name (pe_interest e)) = nte_name (ip_name p)" using e pit_okD(7) [OF assms(1) e(1)] by simp
  then have "take (length (nte_name (ip_name p))) (ip_name (pe_interest e)) = take (length (nte_name (ip_name p))) (ip_name p)"
    using nte_name_take [of "ip_name p"] nte_name_take [of "ip_name (pe_interest e)"] by simp
  moreover have "packet_ok (pe_interest e)" using pit_okD(6) [OF assms(1) e(1)] by (simp add: entry_ok_def)
  ultimately show "\<exists>e. pit_entries x j = Some e \<and> packet_ok (pe_interest e)
      \<and> take (length (nte_name (ip_name p))) (ip_name (pe_interest e)) = take (length (nte_name (ip_name p))) (ip_name p)" using e(1) by blast
qed

text \<open>Finding, which never fails.\<close>

lemma Pit_find_ok:
  assumes "pit_ok x" and "packet_ok p"
  shows "Pit_find p x = Inr (pit_lookup x p)"
proof -
  let ?n = "nte_name (ip_name p)" and ?t = "pit_nameTree x"
  have ht: "ht_ok ?t" using pit_okD(1) [OF assms(1)] by (simp add: tree_ok_def)
  show ?thesis
  proof (cases "ht_map ?t ?n")
    case None
    then have "attached x ?n = []" using attached_dom by blast
    then have "pit_lookup x p = None" by (simp add: pit_lookup_def)
    then show ?thesis using None by (simp add: Pit_find_def Pit_findOrInsert_def NameTree_findExactMatch_def Hashtable_find_ok [OF ht])
  next
    case (Some e)
    have s: "find_pit_entry x p (length ?n) (ne_pitEntries (ht_entry ?t ?n)) = Inr (pit_lookup x p)"
      by (rule search_ok [OF assms]) (simp_all add: attached_entry)
    have "\<not> ne_isEmpty (ht_entry ?t ?n)" using pit_okD(2) [OF assms(1)] Some by (simp add: tidy_def ht_entry_map)
    then show ?thesis using Some s
      by (simp add: Pit_find_def Pit_findOrInsert_def NameTree_findExactMatch_def Hashtable_find_ok [OF ht] Let_def split: option.split)
  qed
qed

text \<open>The entries of the FIB, which share the tree, stay.\<close>

definition same_fib :: "hashtable \<Rightarrow> hashtable \<Rightarrow> bool" where
  "same_fib t t' \<longleftrightarrow> (\<forall>n. ne_fibEntry (nt_tables t' n) = ne_fibEntry (nt_tables t n))"

lemma same_fib_ok: "fib_ok \<lparr>ft_nameTree = t, ft_nItems = k\<rparr> \<Longrightarrow> same_fib t t' \<Longrightarrow> tree_ok t' \<Longrightarrow> tidy t' \<Longrightarrow> fib_ok \<lparr>ft_nameTree = t', ft_nItems = k\<rparr>"
  by (simp add: fib_ok_def same_fib_def fib_at_def)

text \<open>Insertion.\<close>

lemma Pit_insert_ok:
  assumes "pit_ok x" and "packet_ok p"
  shows "case pit_lookup x p of
      Some j \<Rightarrow> \<exists>y. Pit_insert p x = Inr (y, Some j, False) \<and> pit_ok y \<and> pit_entries y = pit_entries x \<and> pit_next y = pit_next x
        \<and> pit_nItems y = pit_nItems x \<and> same_fib (pit_nameTree x) (pit_nameTree y)
    | None \<Rightarrow> \<exists>y. Pit_insert p x = Inr (y, Some (pit_next x), True) \<and> pit_ok y \<and> pit_nItems y = pit_nItems x + 1 \<and> same_fib (pit_nameTree x) (pit_nameTree y)
        \<and> pit_entries y = (pit_entries x)(pit_next x \<mapsto> (PitEntry_new p)\<lparr>pe_nameTreeEntry := Some (nte_name (ip_name p))\<rparr>)"
proof -
  let ?n = "nte_name (ip_name p)" and ?t0 = "pit_nameTree x" and ?j = "pit_next x"
  have T: "tree_ok ?t0" "tidy ?t0" using pit_okD(1,2) [OF assms(1)] by simp_all
  obtain t where t: "NameTree_lookup ?n ?t0 = Inr t" "tree_ok t" "nt_tables t = nt_tables ?t0"
    "\<And>m. ht_map t m \<noteq> None \<longleftrightarrow> ht_map ?t0 m \<noteq> None \<or> (\<exists>r. ?n = m @ r)" using NameTree_lookup_ok [OF T(1), of ?n] by blast
  have n: "ht_map t ?n \<noteq> None" using t(4) by simp
  have "ne_pitEntries (ht_entry t ?n) = ne_pitEntries (nt_tables t ?n)" by (simp add: nt_tables_def unlinked_def)
  then have at: "ne_pitEntries (ht_entry t ?n) = attached x ?n" unfolding t(3) by (simp add: attached_def)
  have s: "find_pit_entry x p (length ?n) (ne_pitEntries (ht_entry t ?n)) = Inr (pit_lookup x p)" by (rule search_ok [OF assms at refl])
  show ?thesis
  proof (cases "pit_lookup x p")
    case (Some j)
    let ?y = "x\<lparr>pit_nameTree := t\<rparr>"
    have run: "Pit_insert p x = Inr (?y, Some j, False)" using t(1) s Some by (simp add: Pit_insert_def Pit_findOrInsert_def Let_def)
    have "j \<in> set (attached x ?n)" using Some unfolding pit_lookup_def find_Some_iff by auto
    then have h: "hasTableEntries (nt_tables t ?n)" unfolding t(3) by (auto simp: hasTableEntries_def attached_def)
    have "tidy t" by (rule looked_up_tidy [OF T(2,1) t(2) _ h t(4)]) (simp add: t(3))
    moreover have "attached ?y m = attached x m" for m by (simp add: attached_def t(3))
    ultimately have "pit_ok ?y" using assms(1) t(2) by (simp add: pit_ok_def)
    then show ?thesis using run Some by (simp add: same_fib_def t(3))
  next
    case None
    let ?f = "\<lambda>e. e\<lparr>ne_pitEntries := ne_pitEntries e @ [?j]\<rparr>" and ?e = "(PitEntry_new p)\<lparr>pe_nameTreeEntry := Some ?n\<rparr>"
    define t1 where "t1 = ht_update ?n ?f t"
    note t1 = tables_change [OF t(2) n, of ?f "\<lambda>js. js @ [?j]", folded t1_def]
    define y where "y = \<lparr>pit_nameTree = t1, pit_entries = (pit_entries x)(?j \<mapsto> ?e), pit_next = ?j + 1, pit_nItems = pit_nItems x + 1\<rparr>"
    have run: "Pit_insert p x = Inr (y, Some ?j, True)" using t(1) s None
      by (cases x) (simp add: Pit_insert_def Pit_findOrInsert_def Let_def nte_insertPitEntry_def change_pit_entry_def y_def t1_def)
    have at1: "attached y m = (if m = ?n then attached x ?n @ [?j] else attached x m)" for m
      using t1(2) t(3) by (simp add: attached_def y_def)
    have h: "hasTableEntries (nt_tables t1 ?n)" using t1(2) by (simp add: hasTableEntries_def)
    have dom1: "\<And>m. ht_map t1 m \<noteq> None \<longleftrightarrow> ht_map ?t0 m \<noteq> None \<or> (\<exists>r. ?n = m @ r)" using t1(3) t(4) by simp
    have "tidy t1" by (rule looked_up_tidy [OF T(2,1) _ _ h dom1]) (use t1(1,2) t(3) in simp_all)
    have fresh: "pit_entries x ?j = None" using pit_okD(5) [OF assms(1), of ?j] by (cases "pit_entries x ?j") auto
    then have new: "?j \<notin> set (attached x m)" for m using pit_okD(4) [OF assms(1)] by simp
    have ents: "pit_entries y = (pit_entries x)(?j \<mapsto> ?e)" by (simp add: y_def)
    have ent: "i = ?j \<and> e = ?e \<or> i \<noteq> ?j \<and> pit_entries x i = Some e" if "pit_entries y i = Some e" for i e
      using that by (auto simp: y_def split: if_splits)
    have key: "packet_key (pe_interest e) \<noteq> packet_key p" if "pit_entries x i = Some e" for i e
      using None that pit_lookup_None [OF assms(1)] by blast
    have "pit_ok y"
      unfolding pit_ok_def
    proof (intro conjI allI impI)
      show "tree_ok (pit_nameTree y)" "tidy (pit_nameTree y)" using t1(1) \<open>tidy t1\<close> by (simp_all add: y_def)
      show "distinct (attached y m)" for m using at1 new pit_okD(3) [OF assms(1)] by simp
      show "i \<in> set (attached y m) \<longleftrightarrow> (\<exists>e. pit_entries y i = Some e \<and> pe_nameTreeEntry e = Some m)" for m i
        using pit_okD(4) [OF assms(1)] new fresh by (auto simp: at1 ents)
      fix i e assume i: "pit_entries y i = Some e"
      show "i < pit_next y" "pe_nameTreeEntry e = Some (nte_name (ip_name (pe_interest e)))" "entry_ok e"
        using ent [OF i] pit_okD(5-7) [OF assms(1), of i e] assms(2) by (auto simp: y_def PitEntry_new_def entry_ok_def)
    next
      fix i k d e assume "pit_entries y i = Some d \<and> pit_entries y k = Some e \<and> packet_key (pe_interest d) = packet_key (pe_interest e)"
      then show "i = k" using ent [of i d] ent [of k e] key [of i d] key [of k e] pit_okD(8) [OF assms(1), of i d k e] by (auto simp: PitEntry_new_def)
    next
      have "dom (pit_entries y) = insert ?j (dom (pit_entries x))" by (auto simp: y_def)
      then show "pit_nItems y = of_nat (card (dom (pit_entries y)))"
        using finite_entries [OF assms(1)] fresh pit_okD(9) [OF assms(1)] by (simp add: y_def domIff)
    qed
    moreover have "same_fib ?t0 t1" using t1(2) t(3) by (simp add: same_fib_def)
    ultimately show ?thesis using run None by (auto simp: y_def)
  qed
qed

section \<open>Erasure\<close>

lemma swap_remove_set: "distinct xs \<Longrightarrow> k < length xs \<Longrightarrow> distinct (swap_remove k xs) \<and> set (swap_remove k xs) = set xs - {xs ! k}"
proof (induction xs rule: rev_induct)
  case (snoc z xs)
  show ?case
  proof (cases "k = length xs")
    case True
    then show ?thesis using snoc.prems by (simp add: swap_remove_def)
  next
    case False
    then have k: "k < length xs" using snoc.prems by simp
    have "swap_remove k (xs @ [z]) = xs[k := z]" using k by (simp add: swap_remove_def list_update_append)
    moreover have "distinct (xs[k := z])" using snoc.prems(1) by (auto intro: distinct_list_update)
    moreover have "set (xs[k := z]) = insert z (set xs - {xs ! k})" using snoc.prems(1) k by (simp add: set_update_distinct)
    ultimately show ?thesis using snoc.prems(1) k by (auto simp: nth_append)
  qed
qed simp

lemma find_if_index: "j \<in> set js \<Longrightarrow> find_if (\<lambda>i. i = j) js < length js \<and> js ! find_if (\<lambda>i. i = j) js = j"
  by (induction js) (auto simp: find_if_def)

lemma nte_name_of_empty_tidy:
  assumes "tidy t" and "tree_ok t" and "\<And>m. m \<noteq> n \<Longrightarrow> nt_tables t1 m = nt_tables t m" and "tree_ok t1"
    and "\<And>m. ht_map t1 m = None \<longleftrightarrow> ht_map t m = None"
  shows "\<forall>m e. ht_map t1 m = Some e \<and> m \<noteq> n \<longrightarrow> \<not> ne_isEmpty e"
  using nonempty_iff [OF assms(4)] tidyD [OF assms(1,2)] assms(3,5) by (metis not_Some_eq)

lemma Pit_erase_ok:
  assumes "pit_ok x" and "pit_entries x j = Some e"
  shows "\<exists>y. Pit_erase j True x = Some (Inr y) \<and> pit_ok y \<and> pit_entries y = (pit_entries x)(j := None) \<and> pit_next y = pit_next x
     \<and> pit_nItems y = pit_nItems x - 1 \<and> same_fib (pit_nameTree x) (pit_nameTree y)"
proof -
  define n where "n = nte_name (ip_name (pe_interest e))"
  let ?t0 = "pit_nameTree x"
  have T: "tree_ok ?t0" "tidy ?t0" using pit_okD(1,2) [OF assms(1)] by simp_all
  have en: "pe_nameTreeEntry e = Some n" using pit_okD(7) [OF assms] by (simp add: n_def)
  then have jn: "j \<in> set (attached x n)" using assms(2) pit_okD(4) [OF assms(1)] by blast
  then have n: "ht_map ?t0 n \<noteq> None" using attached_dom by (metis empty_iff list.set(1))
  define k where "k = find_if (\<lambda>i. i = j) (attached x n)"
  have k: "k < length (attached x n)" "attached x n ! k = j" using find_if_index [OF jn] by (simp_all add: k_def)
  let ?f = "\<lambda>e. e\<lparr>ne_pitEntries := swap_remove k (ne_pitEntries e)\<rparr>"
  define t1 where "t1 = ht_update n ?f ?t0"
  note t1 = tables_change [OF T(1) n, of ?f "swap_remove k", folded t1_def]
  have n1: "ht_map t1 n \<noteq> None" using t1(3) n by simp
  have "\<forall>m e. ht_map t1 m = Some e \<and> m \<noteq> n \<longrightarrow> \<not> ne_isEmpty e"
    by (rule nte_name_of_empty_tidy [OF T(2,1)]) (use t1 in simp_all)
  then obtain t2 i where t2: "eraseIfEmpty n True t1 = Some (Inr (t2, i))" "tree_ok t2" "nt_tables t2 = nt_tables t1" "tidy t2"
    using erase_loop_ok [OF t1(1) n1, of True 0] t1(1) by (auto simp: eraseIfEmpty_def)
  define y where "y = x\<lparr>pit_nameTree := t2, pit_entries := (pit_entries x)(j := None), pit_nItems := pit_nItems x - 1\<rparr>"
  have run: "Pit_erase j True x = Some (Inr y)"
    using assms(2) en k(1) t2(1) by (simp add: Pit_erase_def nte_erasePitEntry_def Let_def flip: attached_entry k_def t1_def) (simp add: y_def)
  have sw: "distinct (swap_remove k (attached x n))" "set (swap_remove k (attached x n)) = set (attached x n) - {j}"
    using swap_remove_set [OF pit_okD(3) [OF assms(1)] k(1)] k(2) by simp_all
  have at: "attached y m = (if m = n then swap_remove k (attached x n) else attached x m)" for m
    using t1(2) t2(3) by (simp add: attached_def y_def)
  have ents: "pit_entries y = (pit_entries x)(j := None)" "pit_next y = pit_next x" by (simp_all add: y_def)
  have ent: "pit_entries x i = Some d \<and> i \<noteq> j" if "pit_entries y i = Some d" for i d using that by (simp add: ents split: if_splits)
  have other: "j \<in> set (attached x m) \<longleftrightarrow> m = n" for m using pit_okD(4) [OF assms(1)] assms(2) en by auto
  have "pit_ok y"
    unfolding pit_ok_def
  proof (intro conjI allI impI)
    show "tree_ok (pit_nameTree y)" "tidy (pit_nameTree y)" using t2(2,4) by (simp_all add: y_def)
    show "distinct (attached y m)" for m using at sw(1) pit_okD(3) [OF assms(1)] by simp
    show "i \<in> set (attached y m) \<longleftrightarrow> (\<exists>e. pit_entries y i = Some e \<and> pe_nameTreeEntry e = Some m)" for m i
      using pit_okD(4) [OF assms(1)] other [of m] by (auto simp: at ents sw(2))
    fix i d assume i: "pit_entries y i = Some d"
    show "i < pit_next y" "pe_nameTreeEntry d = Some (nte_name (ip_name (pe_interest d)))" "entry_ok d"
      using ent [OF i] pit_okD(5-7) [OF assms(1), of i d] by (simp_all add: ents)
  next
    fix i k d e assume "pit_entries y i = Some d \<and> pit_entries y k = Some e \<and> packet_key (pe_interest d) = packet_key (pe_interest e)"
    then show "i = k" using ent [of i d] ent [of k e] pit_okD(8) [OF assms(1), of i d k e] by blast
  next
    have "dom (pit_entries y) = dom (pit_entries x) - {j}" by (simp add: ents)
    moreover have "card (dom (pit_entries x)) = Suc (card (dom (pit_entries x) - {j}))"
      using finite_entries [OF assms(1)] assms(2) by (intro card.remove [symmetric, THEN sym]) auto
    ultimately show "pit_nItems y = of_nat (card (dom (pit_entries y)))" using pit_okD(9) [OF assms(1)] by (simp add: y_def)
  qed
  moreover have "same_fib ?t0 t2" using t1(2) t2(3) by (simp add: same_fib_def)
  ultimately show ?thesis using run by (auto simp: y_def)
qed

section \<open>Data matches\<close>

definition prefixes_of :: "full_name \<Rightarrow> full_name list" where
  "prefixes_of n = map (\<lambda>k. take k n) (rev [0..<Suc (length n)])"

lemma prefixes_of_step: "prefixes_of n = n # (if n = [] then [] else prefixes_of (butlast n))"
proof (cases "n = []")
  case False
  have "map (\<lambda>k. take k n) (rev [0..<length n]) = map (\<lambda>k. take k (butlast n)) (rev [0..<Suc (length (butlast n))])"
    using False by (intro map_cong) (auto simp: take_butlast)
  moreover have "rev [0..<Suc (length n)] = length n # rev [0..<length n]" by simp
  ultimately show ?thesis using False by (simp only: prefixes_of_def list.map take_all order_refl if_False)
qed (simp add: prefixes_of_def)

lemma set_prefixes_of: "set (prefixes_of n) = {m. \<exists>r. n = m @ r}"
proof -
  have "m \<in> set (prefixes_of n) \<longleftrightarrow> (\<exists>k \<le> length n. m = take k n)" for m
    unfolding prefixes_of_def set_map set_rev set_upt by (auto simp: image_iff less_Suc_eq_le)
  moreover have "(\<exists>k \<le> length n. m = take k n) \<longleftrightarrow> (\<exists>r. n = m @ r)" for m
    by (metis append_eq_conv_conj append_take_drop_id length_take min.absorb2 nat_le_linear take_all)
  ultimately show ?thesis by blast
qed

lemma distinct_prefixes_of: "distinct (prefixes_of n)"
proof -
  have "inj_on (\<lambda>k. take k n) {0..<Suc (length n)}" by (rule inj_onI) (metis atLeastLessThan_iff length_take less_Suc_eq_le min.absorb2)
  then show ?thesis unfolding prefixes_of_def distinct_map by (simp del: upt_Suc)
qed

lemma enumerate_matches_ok:
  assumes "tree_ok t"
  shows "enumerate_matches P (longest_prefix (selected P t) n) t = Some (filter (selected P t) (prefixes_of n))"
proof (induction "length n" arbitrary: n rule: less_induct)
  case less
  have IH: "enumerate_matches P (longest_prefix (selected P t) (butlast n)) t = Some (filter (selected P t) (prefixes_of (butlast n)))" if "n \<noteq> []"
    using less that by simp
  show ?case
  proof (cases "selected P t n")
    case False
    then show ?thesis using IH by (auto simp: longest_prefix_step [of _ n] prefixes_of_step [of n] enumerate_matches.simps)
  next
    case True
    then obtain e where e: "ht_map t n = Some e" by (auto simp: selected_def)
    note par = tree_okD(1,2) [OF assms e]
    have "findLongestPrefixMatch_entry P (ne_parent e) t = Some (if n = [] then None else longest_prefix (selected P t) (butlast n))"
      using par match_entry_ok [OF assms, of "butlast n" P] by (auto simp: findLongestPrefixMatch_entry.simps)
    moreover have "ht_entry t n = e" by (simp add: ht_entry_map e)
    ultimately show ?thesis using True IH
      by (subst enumerate_matches.simps) (auto simp: longest_prefix_step [of _ n] prefixes_of_step [of n] enumerate_matches.simps)
  qed
qed

definition data_comparable :: "(byte list \<Rightarrow> byte list) \<Rightarrow> data \<Rightarrow> pit \<Rightarrow> bool" where
  "data_comparable sha256 d x \<longleftrightarrow> (\<forall>j e. pit_entries x j = Some e \<longrightarrow> (\<exists>b. Interest_matchesData sha256 (ip_interest (pe_interest e)) d = Inr b))"

text \<open>The entries that the Data satisfies.\<close>

definition satisfied_entries :: "(byte list \<Rightarrow> byte list) \<Rightarrow> data \<Rightarrow> pit \<Rightarrow> nat set" where
  "satisfied_entries sha256 d x = {j. \<exists>e. pit_entries x j = Some e \<and> Interest_matchesData sha256 (ip_interest (pe_interest e)) d = Inr True}"

lemma filter_matches_ok:
  assumes "data_comparable sha256 d x" and "\<forall>j \<in> set js. pit_entries x j \<noteq> None"
  shows "filter_matches sha256 d x js = Inr (filter (\<lambda>j. j \<in> satisfied_entries sha256 d x) js)"
  using assms(2)
proof (induction js)
  case (Cons j js)
  then obtain e where e: "pit_entries x j = Some e" by auto
  then obtain b where "Interest_matchesData sha256 (ip_interest (pe_interest e)) d = Inr b" using assms(1) unfolding data_comparable_def by blast
  then show ?case using Cons e by (auto simp: satisfied_entries_def)
qed simp

lemma matching_name:
  assumes "has_digest sha256 d" and "packet_ok p" and "Interest_matchesData sha256 (ip_interest p) d = Inr True"
  shows "\<exists>r. name_of (d_name d) = nte_name (ip_name p) @ r"
proof -
  let ?D = "name_of (d_name d)" and ?n = "ip_name p"
  have "admits (ip_selectors p) ?n (?D @ [digest_component sha256 d])"
    using assms(3) Interest_matchesData_iff [OF assms(1), of "ip_interest p"] assms(2) by (simp add: packet_ok_def split: if_splits)
  then have t: "take (length ?n) (?D @ [digest_component sha256 d]) = ?n" by (simp add: admits_def)
  have "is_digest (digest_component sha256 d)" using assms(1) by (simp add: is_digest_def digest_component_def has_digest_def)
  then have "nte_name ?n = take (length (nte_name ?n)) ?D"
  proof (cases "length ?n \<le> length ?D")
    case True
    then have "?n = take (length ?n) ?D" using t by simp
    then show ?thesis using nte_name_take [of ?n] by (metis min.cobounded2 length_take take_take min.absorb2 min.commute)
  next
    case False
    then have n: "?n = ?D @ [digest_component sha256 d]" using t by simp
    assume "is_digest (digest_component sha256 d)"
    then have "nte_name ?n = ?D" unfolding n nte_name_def by simp
    then show ?thesis by simp
  qed
  then show ?thesis by (metis append_take_drop_id)
qed

lemma findAllDataMatches_ok:
  assumes "pit_ok x" and "has_digest sha256 d" and "data_comparable sha256 d x"
  shows "\<exists>js. findAllDataMatches sha256 d x = Some (Inr js) \<and> distinct js \<and> set js = satisfied_entries sha256 d x"
proof -
  let ?t = "pit_nameTree x" and ?D = "name_of (d_name d)"
  let ?ns = "filter (selected nteHasPitEntries ?t) (prefixes_of ?D)"
  have T: "tree_ok ?t" "ht_ok ?t" using pit_okD(1) [OF assms(1)] by (simp_all add: tree_ok_def)
  have all: "NameTree_findAllMatches nteHasPitEntries ?D ?t = Some (Inr ?ns)"
    by (simp add: NameTree_findAllMatches_def match_name_ok [OF T(2)] enumerate_matches_ok [OF T(1)])
  define js where "js = concat (map (attached x) ?ns)"
  have ex: "\<forall>j \<in> set js. pit_entries x j \<noteq> None" using pit_okD(4) [OF assms(1)] unfolding js_def by fastforce
  have run: "findAllDataMatches sha256 d x = Some (Inr (filter (\<lambda>j. j \<in> satisfied_entries sha256 d x) js))"
    using all filter_matches_ok [OF assms(3) ex] by (simp add: findAllDataMatches_def js_def attached_entry [abs_def])
  have "j \<in> set js" if sat: "j \<in> satisfied_entries sha256 d x" for j
  proof -
    obtain e where e: "pit_entries x j = Some e" "Interest_matchesData sha256 (ip_interest (pe_interest e)) d = Inr True"
      using sat by (auto simp: satisfied_entries_def)
    define n where "n = nte_name (ip_name (pe_interest e))"
    have jn: "j \<in> set (attached x n)" using pit_okD(4,7) [OF assms(1)] e(1) unfolding n_def by blast
    have "packet_ok (pe_interest e)" using pit_okD(6) [OF assms(1) e(1)] by (simp add: entry_ok_def)
    then have "n \<in> set (prefixes_of ?D)" using matching_name [OF assms(2) _ e(2)] by (simp add: set_prefixes_of n_def)
    moreover have "attached x n \<noteq> []" using jn by auto
    then have "selected nteHasPitEntries ?t n" using attached_dom [of x n] by (simp add: selected_def nteHasPitEntries_def attached_entry)
    ultimately show ?thesis using jn by (auto simp: js_def)
  qed
  moreover have "distinct js"
  proof -
    have "distinct ns \<Longrightarrow> distinct (concat (map (attached x) ns))" for ns
    proof (induction ns)
      case (Cons n ns)
      have "set (attached x n) \<inter> set (attached x m) = {}" if m: "m \<in> set ns" for m
      proof -
        have "m \<noteq> n" using Cons.prems m by auto
        then show ?thesis using pit_okD(4) [OF assms(1)] by fastforce
      qed
      then have "set (attached x n) \<inter> set (concat (map (attached x) ns)) = {}" unfolding set_concat set_map by blast
      then show ?case using Cons pit_okD(3) [OF assms(1)] by simp
    qed simp
    then show ?thesis unfolding js_def using distinct_prefixes_of by simp
  qed
  ultimately show ?thesis using run by auto
qed

end
