(* ===== verification/CsPolicy.thy ===== *)
theory CsPolicy
  imports ContentStore
begin

text \<open>
  What the content store asks of a replacement policy, as a locale: it keeps an order of eviction over
  exactly the entries of the store, under insertions, refreshments, uses and evictions. Both policies and
  the virtual functions that select one are interpretations; the eviction loop is shown once over them.
\<close>

section \<open>The order of entries\<close>

lemma three_way_simps [simp]:
  "three_way a b < 0 \<longleftrightarrow> a < b" "three_way a b = 0 \<longleftrightarrow> a = b" "three_way a b > 0 \<longleftrightarrow> b < a" "three_way a b \<noteq> 0 \<longleftrightarrow> a \<noteq> b"
  by (auto simp: three_way_def)

lemma stored_less_iff: "stored_less a b \<longleftrightarrow> fst a < fst b \<or> fst a = fst b \<and> snd a < snd b"
  by (auto simp: stored_less_def compareDataWithData_def Let_def)

interpretation st: comparator stored_less
proof
  fix x y z :: cs_key
  show "\<not> stored_less x x" by (simp add: stored_less_iff)
  show "stored_less x y \<Longrightarrow> stored_less y z \<Longrightarrow> stored_less x z" by (auto simp: stored_less_iff)
  show "stored_less x y \<or> x = y \<or> stored_less y x" by (cases x; cases y) (auto simp: stored_less_iff)
qed

section \<open>The interface\<close>

text \<open>Entries are given to a policy with a stale time of that moment.\<close>

definition just_timed :: "int \<Rightarrow> cs_entry \<Rightarrow> bool" where
  "just_timed now e \<longleftrightarrow> ce_staleTime e = stale_time now (ce_data e)"

locale replacement_policy =
  fixes order :: "'p \<Rightarrow> cs_key list" and valid :: "(cs_key \<Rightarrow> cs_entry option) \<Rightarrow> 'p \<Rightarrow> bool"
    and insert_op :: "int \<Rightarrow> cs_key \<Rightarrow> cs_entry \<Rightarrow> 'p \<Rightarrow> 'p res" and refresh_op :: "int \<Rightarrow> cs_key \<Rightarrow> cs_entry \<Rightarrow> 'p \<Rightarrow> 'p res"
    and use_op :: "cs_key \<Rightarrow> 'p \<Rightarrow> 'p res" and evict_op :: "'p \<Rightarrow> (cs_key \<times> 'p) res"
  assumes valid_order: "valid M p \<Longrightarrow> distinct (order p) \<and> set (order p) = dom M"
    and insert_valid: "valid M p \<Longrightarrow> M k = None \<Longrightarrow> just_timed now e \<Longrightarrow> \<exists>p'. insert_op now k e p = Inr p' \<and> valid (M(k \<mapsto> e)) p'"
    and refresh_valid: "valid M p \<Longrightarrow> M k \<noteq> None \<Longrightarrow> just_timed now e \<Longrightarrow> \<exists>p'. refresh_op now k e p = Inr p' \<and> valid (M(k \<mapsto> e)) p'"
    and use_valid: "valid M p \<Longrightarrow> M k \<noteq> None \<Longrightarrow> \<exists>p'. use_op k p = Inr p' \<and> valid M p'"
    and evict_valid: "valid M p \<Longrightarrow> order p = k # ks \<Longrightarrow> \<exists>p'. evict_op p = Inr (k, p') \<and> order p' = ks \<and> valid (M(k := None)) p'"
begin

lemma evicts_an_entry:
  assumes "valid M p" and "M \<noteq> Map.empty"
  shows "\<exists>k p'. evict_op p = Inr (k, p') \<and> order p = k # order p' \<and> M k \<noteq> None \<and> valid (M(k := None)) p'"
proof -
  have "set (order p) \<noteq> {}" using valid_order [OF assms(1)] assms(2) by simp
  then obtain k ks where k: "order p = k # ks" by (cases "order p") auto
  then have "M k \<noteq> None" using valid_order [OF assms(1)] by (metis domIff list.set_intros(1))
  then show ?thesis using evict_valid [OF assms(1) k] k by metis
qed

end

section \<open>The priority FIFO policy\<close>

definition pf_order :: "priority_fifo \<Rightarrow> cs_key list" where
  "pf_order pf = pf_queues pf QUEUE_UNSOLICITED @ pf_queues pf QUEUE_STALE @ pf_queues pf QUEUE_FIFO"

text \<open>
  Each entry is in the one queue that its information names, the unsolicited ones in the first, and those
  in the third that can become stale have an event for that time.
\<close>

definition pf_valid :: "(cs_key \<Rightarrow> cs_entry option) \<Rightarrow> priority_fifo \<Rightarrow> bool" where
  "pf_valid M pf \<longleftrightarrow> (\<forall>q. distinct (pf_queues pf q)) \<and> (\<forall>q k. k \<in> set (pf_queues pf q) \<longleftrightarrow> map_option nfo_queueType (pf_entryInfoMap pf k) = Some q)
     \<and> (\<forall>k. pf_entryInfoMap pf k = None \<longleftrightarrow> M k = None)
     \<and> (\<forall>k i e. pf_entryInfoMap pf k = Some i \<and> M k = Some e \<longrightarrow> (nfo_queueType i = QUEUE_UNSOLICITED \<longleftrightarrow> ce_isUnsolicited e)
          \<and> nfo_moveStale i = (if nfo_queueType i = QUEUE_FIFO then ce_staleTime e else None))"

lemma pf_validD:
  assumes "pf_valid M pf"
  shows "distinct (pf_queues pf q)" "k \<in> set (pf_queues pf q) \<longleftrightarrow> map_option nfo_queueType (pf_entryInfoMap pf k) = Some q"
    "pf_entryInfoMap pf k = None \<longleftrightarrow> M k = None"
    "pf_entryInfoMap pf k = Some i \<Longrightarrow> M k = Some e \<Longrightarrow> nfo_queueType i = QUEUE_UNSOLICITED \<longleftrightarrow> ce_isUnsolicited e"
    "pf_entryInfoMap pf k = Some i \<Longrightarrow> M k = Some e \<Longrightarrow> nfo_moveStale i = (if nfo_queueType i = QUEUE_FIFO then ce_staleTime e else None)"
  using assms unfolding pf_valid_def by blast+

lemma stale_event_time: "just_timed now e \<Longrightarrow> canStale e \<Longrightarrow> ce_staleTime e = Some (time_after now (mi_freshnessPeriod (d_metaInfo (ce_data e))))"
  by (auto simp: just_timed_def canStale_def stale_time_def split: if_splits)

lemma pf_attach:
  assumes "pf_valid M pf" and "M k = None" and "just_timed now e"
  shows "\<exists>pf'. attachQueue now k e pf = Inr pf' \<and> pf_valid (M(k \<mapsto> e)) pf'"
proof -
  note v = pf_validD [OF assms(1)]
  have i: "pf_entryInfoMap pf k = None" using v(3) assms(2) by simp
  then have q: "k \<notin> set (pf_queues pf q)" for q unfolding v(2) by simp
  define ty where "ty = (if ce_isUnsolicited e then QUEUE_UNSOLICITED else if isStale now e then QUEUE_STALE else QUEUE_FIFO)"
  define ev where "ev = (if ty = QUEUE_FIFO \<and> canStale e then Some (time_after now (mi_freshnessPeriod (d_metaInfo (ce_data e)))) else None)"
  define pf' where "pf' = \<lparr>pf_queues = (pf_queues pf)(ty := pf_queues pf ty @ [k]), pf_entryInfoMap = (pf_entryInfoMap pf)(k \<mapsto> \<lparr>nfo_queueType = ty, nfo_moveStale = ev\<rparr>)\<rparr>"
  have ev': "ev = (if ty = QUEUE_FIFO then ce_staleTime e else None)"
    using stale_event_time [OF assms(3)] by (auto simp: ev_def canStale_def)
  have ty': "ty = QUEUE_UNSOLICITED \<longleftrightarrow> ce_isUnsolicited e" by (simp add: ty_def)
  have "pf_valid (M(k \<mapsto> e)) pf'"
    unfolding pf_valid_def
  proof (intro conjI allI)
    fix p show "distinct (pf_queues pf' p)" using v(1) q by (simp add: pf'_def)
  next
    fix p m show "m \<in> set (pf_queues pf' p) \<longleftrightarrow> map_option nfo_queueType (pf_entryInfoMap pf' m) = Some p"
      using v(2) [of m p] q i by (auto simp: pf'_def)
  next
    fix m show "pf_entryInfoMap pf' m = None \<longleftrightarrow> (M(k \<mapsto> e)) m = None" using v(3) by (simp add: pf'_def)
  next
    fix m i' x show "pf_entryInfoMap pf' m = Some i' \<and> (M(k \<mapsto> e)) m = Some x \<longrightarrow> (nfo_queueType i' = QUEUE_UNSOLICITED \<longleftrightarrow> ce_isUnsolicited x)
          \<and> nfo_moveStale i' = (if nfo_queueType i' = QUEUE_FIFO then ce_staleTime x else None)"
      using v(4,5) [of m i' x] ev' ty' by (auto simp: pf'_def)
  qed
  moreover have "attachQueue now k e pf = Inr pf'" using i by (simp add: attachQueue_def Let_def pf'_def ty_def ev_def)
  ultimately show ?thesis by blast
qed

lemma pf_detach:
  assumes "pf_valid M pf" and "pf_entryInfoMap pf k = Some i"
  shows "\<exists>pf'. detachQueue k pf = Inr pf' \<and> pf_valid (M(k := None)) pf' \<and> pf_queues pf' = (pf_queues pf)(nfo_queueType i := remove1 k (pf_queues pf (nfo_queueType i)))"
proof -
  note v = pf_validD [OF assms(1)]
  define pf' where "pf' = \<lparr>pf_queues = (pf_queues pf)(nfo_queueType i := remove1 k (pf_queues pf (nfo_queueType i))), pf_entryInfoMap = (pf_entryInfoMap pf)(k := None)\<rparr>"
  have k: "k \<in> set (pf_queues pf q) \<longleftrightarrow> q = nfo_queueType i" for q unfolding v(2) using assms(2) by auto
  have "pf_valid (M(k := None)) pf'"
    unfolding pf_valid_def
  proof (intro conjI allI)
    fix p show "distinct (pf_queues pf' p)" using v(1) by (simp add: pf'_def distinct_remove1)
  next
    fix p m show "m \<in> set (pf_queues pf' p) \<longleftrightarrow> map_option nfo_queueType (pf_entryInfoMap pf' m) = Some p"
      using v(1) v(2) [of m p] k by (auto simp: pf'_def)
  next
    fix m show "pf_entryInfoMap pf' m = None \<longleftrightarrow> (M(k := None)) m = None" using v(3) by (simp add: pf'_def)
  next
    fix m i' x show "pf_entryInfoMap pf' m = Some i' \<and> (M(k := None)) m = Some x \<longrightarrow> (nfo_queueType i' = QUEUE_UNSOLICITED \<longleftrightarrow> ce_isUnsolicited x)
          \<and> nfo_moveStale i' = (if nfo_queueType i' = QUEUE_FIFO then ce_staleTime x else None)"
      using v(4,5) [of m i' x] by (auto simp: pf'_def)
  qed
  then show ?thesis using assms(2) by (simp add: detachQueue_def pf'_def)
qed

lemma pf_order_keys: "pf_valid M pf \<Longrightarrow> distinct (pf_order pf) \<and> set (pf_order pf) = dom M"
proof -
  assume "pf_valid M pf"
  note v = pf_validD [OF this]
  have d: "set (pf_queues pf q) \<inter> set (pf_queues pf p) = {}" if "q \<noteq> p" for q p using that v(2) by auto
  have "k \<in> set (pf_order pf) \<longleftrightarrow> M k \<noteq> None" for k
  proof -
    have "k \<in> set (pf_order pf) \<longleftrightarrow> pf_entryInfoMap pf k \<noteq> None"
      unfolding pf_order_def set_append Un_iff v(2) by (cases "pf_entryInfoMap pf k") (auto, metis queue_type.exhaust)
    then show ?thesis using v(3) by simp
  qed
  moreover have "distinct (pf_order pf)"
    using v(1) d [of QUEUE_UNSOLICITED QUEUE_STALE] d [of QUEUE_UNSOLICITED QUEUE_FIFO] d [of QUEUE_STALE QUEUE_FIFO] by (simp add: pf_order_def Int_Un_distrib)
  ultimately show ?thesis by blast
qed

lemma pf_evicts:
  assumes "pf_valid M pf" and "pf_order pf = k # ks"
  shows "\<exists>pf'. pf_evict pf = Inr (k, pf') \<and> pf_order pf' = ks \<and> pf_valid (M(k := None)) pf'"
proof -
  note v = pf_validD [OF assms(1)]
  have "M k \<noteq> None" using pf_order_keys [OF assms(1)] assms(2) by (metis domIff list.set_intros(1))
  then obtain i where i: "pf_entryInfoMap pf k = Some i" using v(3) [of k] by (cases "pf_entryInfoMap pf k") simp_all
  obtain pf' where pf': "detachQueue k pf = Inr pf'" "pf_valid (M(k := None)) pf'"
    "pf_queues pf' = (pf_queues pf)(nfo_queueType i := remove1 k (pf_queues pf (nfo_queueType i)))" using pf_detach [OF assms(1) i] by blast
  have k: "k \<in> set (pf_queues pf q) \<longleftrightarrow> q = nfo_queueType i" for q unfolding v(2) using i by auto
  have front: "pf_front pf = Inr k" using assms(2)
    by (cases "pf_queues pf QUEUE_UNSOLICITED"; cases "pf_queues pf QUEUE_STALE"; cases "pf_queues pf QUEUE_FIFO") (simp_all add: pf_front_def pf_order_def)
  let ?U = "pf_queues pf QUEUE_UNSOLICITED" and ?S = "pf_queues pf QUEUE_STALE" and ?F = "pf_queues pf QUEUE_FIFO"
  consider U where "?U = k # U" | S where "?U = []" "?S = k # S" | F where "?U = []" "?S = []" "?F = k # F"
    using assms(2) by (cases ?U; cases ?S) (auto simp: pf_order_def)
  then have "pf_order pf' = ks"
  proof cases
    case 1
    then have "nfo_queueType i = QUEUE_UNSOLICITED" using k [of QUEUE_UNSOLICITED] by simp
    then show ?thesis using 1 assms(2) pf'(3) by (simp add: pf_order_def)
  next
    case 2
    then have "nfo_queueType i = QUEUE_STALE" using k [of QUEUE_STALE] by simp
    then show ?thesis using 2 assms(2) pf'(3) by (simp add: pf_order_def)
  next
    case 3
    then have "nfo_queueType i = QUEUE_FIFO" using k [of QUEUE_FIFO] by simp
    then show ?thesis using 3 assms(2) pf'(3) by (simp add: pf_order_def)
  qed
  then show ?thesis using front pf'(1,2) by (simp add: pf_evict_def)
qed

interpretation pf: replacement_policy pf_order pf_valid attachQueue pf_refresh pf_beforeUse pf_evict
proof
  fix M pf k now e ks
  assume v: "pf_valid M pf"
  show "distinct (pf_order pf) \<and> set (pf_order pf) = dom M" by (rule pf_order_keys [OF v])
  show "M k = None \<Longrightarrow> just_timed now e \<Longrightarrow> \<exists>p'. attachQueue now k e pf = Inr p' \<and> pf_valid (M(k \<mapsto> e)) p'" by (rule pf_attach [OF v])
  show "\<exists>p'. pf_refresh now k e pf = Inr p' \<and> pf_valid (M(k \<mapsto> e)) p'" if k: "M k \<noteq> None" and e: "just_timed now e"
  proof -
    obtain i where "pf_entryInfoMap pf k = Some i" using k pf_validD(3) [OF v, of k] by auto
    then obtain pf1 where "detachQueue k pf = Inr pf1" "pf_valid (M(k := None)) pf1" using pf_detach [OF v] by blast
    then show ?thesis using pf_attach [of "M(k := None)" pf1 k now e] e by (simp add: pf_refresh_def)
  qed
  show "M k \<noteq> None \<Longrightarrow> \<exists>p'. pf_beforeUse k pf = Inr p' \<and> pf_valid M p'" using v pf_validD(3) [OF v, of k] by (simp add: pf_beforeUse_def)
  show "pf_order pf = k # ks \<Longrightarrow> \<exists>p'. pf_evict pf = Inr (k, p') \<and> pf_order p' = ks \<and> pf_valid (M(k := None)) p'" by (rule pf_evicts [OF v])
qed

text \<open>The event moves an entry from the third queue to the second.\<close>

lemma pf_stale_event:
  assumes "pf_valid M pf" and "pf_entryInfoMap pf k = Some i" and "nfo_moveStale i \<noteq> None"
  shows "\<exists>pf'. moveToStaleQueue k pf = Inr pf' \<and> pf_valid M pf'"
proof -
  note v = pf_validD [OF assms(1)]
  obtain e where e: "M k = Some e" using v(3) [of k] assms(2) by auto
  have ty: "nfo_queueType i = QUEUE_FIFO" "\<not> ce_isUnsolicited e"
    using v(4,5) [OF assms(2) e] assms(3) by (auto split: if_splits)
  define pf' where "pf' = \<lparr>pf_queues = (pf_queues pf)(QUEUE_FIFO := remove1 k (pf_queues pf QUEUE_FIFO), QUEUE_STALE := pf_queues pf QUEUE_STALE @ [k]),
      pf_entryInfoMap = (pf_entryInfoMap pf)(k \<mapsto> \<lparr>nfo_queueType = QUEUE_STALE, nfo_moveStale = None\<rparr>)\<rparr>"
  have k: "k \<in> set (pf_queues pf q) \<longleftrightarrow> q = QUEUE_FIFO" for q unfolding v(2) using assms(2) ty by auto
  have "pf_valid M pf'"
    unfolding pf_valid_def
  proof (intro conjI allI)
    fix p show "distinct (pf_queues pf' p)" using v(1) k by (simp add: pf'_def distinct_remove1)
  next
    fix p m show "m \<in> set (pf_queues pf' p) \<longleftrightarrow> map_option nfo_queueType (pf_entryInfoMap pf' m) = Some p"
      using v(1) v(2) [of m p] k by (auto simp: pf'_def)
  next
    fix m show "pf_entryInfoMap pf' m = None \<longleftrightarrow> M m = None" using v(3) e by (auto simp: pf'_def)
  next
    fix m i' x show "pf_entryInfoMap pf' m = Some i' \<and> M m = Some x \<longrightarrow> (nfo_queueType i' = QUEUE_UNSOLICITED \<longleftrightarrow> ce_isUnsolicited x)
          \<and> nfo_moveStale i' = (if nfo_queueType i' = QUEUE_FIFO then ce_staleTime x else None)"
      using v(4,5) [of m i' x] e ty by (auto simp: pf'_def)
  qed
  then show ?thesis using assms(2) ty by (simp add: moveToStaleQueue_def pf'_def Let_def)
qed

section \<open>The LRU policy\<close>

definition lru_valid :: "(cs_key \<Rightarrow> cs_entry option) \<Rightarrow> cs_key list \<Rightarrow> bool" where
  "lru_valid M q \<longleftrightarrow> distinct q \<and> set q = dom M"

interpretation lru: replacement_policy "\<lambda>q. q" lru_valid "\<lambda>now k e. insertToQueue k True" "\<lambda>now k e. insertToQueue k False"
    "\<lambda>k. insertToQueue k False" lru_evict
  by unfold_locales (auto simp: lru_valid_def insertToQueue_def lru_evict_def domIff)

section \<open>The virtual functions\<close>

definition policy_order :: "cs_policy \<Rightarrow> cs_key list" where
  "policy_order p = (case p of PriorityFifo pf \<Rightarrow> pf_order pf | Lru q \<Rightarrow> q)"

definition policy_valid :: "(cs_key \<Rightarrow> cs_entry option) \<Rightarrow> cs_policy \<Rightarrow> bool" where
  "policy_valid M p = (case p of PriorityFifo pf \<Rightarrow> pf_valid M pf | Lru q \<Rightarrow> lru_valid M q)"

interpretation policy: replacement_policy policy_order policy_valid policy_insert policy_refresh policy_use policy_evict
proof
  fix M p k now e ks
  assume v: "policy_valid M p"
  show "distinct (policy_order p) \<and> set (policy_order p) = dom M"
    using v pf.valid_order lru.valid_order by (cases p) (simp_all add: policy_order_def policy_valid_def)
  show "M k = None \<Longrightarrow> just_timed now e \<Longrightarrow> \<exists>p'. policy_insert now k e p = Inr p' \<and> policy_valid (M(k \<mapsto> e)) p'"
    using v pf.insert_valid [of M _ k now e] lru.insert_valid [of M _ k now e] by (cases p) (force simp: policy_insert_def policy_valid_def)+
  show "M k \<noteq> None \<Longrightarrow> just_timed now e \<Longrightarrow> \<exists>p'. policy_refresh now k e p = Inr p' \<and> policy_valid (M(k \<mapsto> e)) p'"
    using v pf.refresh_valid [of M _ k now e] lru.refresh_valid [of M _ k now e] by (cases p) (force simp: policy_refresh_def policy_valid_def)+
  show "M k \<noteq> None \<Longrightarrow> \<exists>p'. policy_use k p = Inr p' \<and> policy_valid M p'"
    using v pf.use_valid [of M _ k] lru.use_valid [of M _ k] by (cases p) (force simp: policy_use_def policy_valid_def)+
  show "policy_order p = k # ks \<Longrightarrow> \<exists>p'. policy_evict p = Inr (k, p') \<and> policy_order p' = ks \<and> policy_valid (M(k := None)) p'"
    using v pf.evict_valid [of M _ k ks] lru.evict_valid [of M _ k ks]
    by (cases p) (force simp: policy_evict_def policy_order_def policy_valid_def)+
qed

section \<open>The eviction loop\<close>

definition cs_map :: "cs \<Rightarrow> cs_key \<Rightarrow> cs_entry option" where
  "cs_map x = map_of (cs_table x)"

text \<open>The invariant but for the bound on the number of entries.\<close>

definition cs_wf :: "(byte list \<Rightarrow> byte list) \<Rightarrow> cs \<Rightarrow> bool" where
  "cs_wf sha256 x \<longleftrightarrow> sorted_map stored_less (cs_table x) \<and> policy_valid (cs_map x) (cs_policy x)
     \<and> (\<forall>k e. cs_map x k = Some e \<longrightarrow> has_digest sha256 (ce_data e) \<and> k = data_key sha256 (ce_data e))"

lemma key_distinct: "sorted_map stored_less t \<Longrightarrow> distinct (map fst t)"
  by (induction t) (auto simp: st.irrefl)

lemma map_of_erase: "map_of (filter (\<lambda>e. fst e \<noteq> k) t) = (map_of t)(k := None)"
  by (induction t) (auto simp: fun_eq_iff)

lemma map_of_keep: "map_of (filter (\<lambda>e. fst e \<notin> K) t) = (\<lambda>k. if k \<in> K then None else map_of t k)"
  by (induction t) (auto simp: fun_eq_iff)

lemma key_in_table: "k \<in> fst ` set (cs_table x) \<longleftrightarrow> cs_map x k \<noteq> None"
  by (auto simp: cs_map_def map_of_eq_None_iff)

lemma order_length:
  assumes "cs_wf sha256 x"
  shows "length (policy_order (cs_policy x)) = length (cs_table x)"
proof -
  have v: "policy_valid (cs_map x) (cs_policy x)" "distinct (map fst (cs_table x))" using assms key_distinct [of "cs_table x"] by (simp_all add: cs_wf_def)
  have "set (policy_order (cs_policy x)) = set (map fst (cs_table x))"
    using policy.valid_order [OF v(1)] by (simp add: cs_map_def dom_map_of_conv_image_fst)
  then show ?thesis using policy.valid_order [OF v(1)] v(2) by (metis distinct_card length_map)
qed

lemma evictOne_ok:
  assumes "cs_wf sha256 x" and "cs_table x \<noteq> []"
  shows "\<exists>k y. evictOne x = Inr y \<and> cs_wf sha256 y \<and> cs_limit y = cs_limit x \<and> policy_order (cs_policy x) = k # policy_order (cs_policy y)
     \<and> cs_table y = filter (\<lambda>e. fst e \<noteq> k) (cs_table x) \<and> length (cs_table x) = Suc (length (cs_table y))"
proof -
  have v: "policy_valid (cs_map x) (cs_policy x)" "sorted_map stored_less (cs_table x)" using assms(1) by (simp_all add: cs_wf_def)
  have "cs_map x \<noteq> Map.empty" using assms(2) by (simp add: cs_map_def)
  from policy.evicts_an_entry [OF v(1) this]
  obtain k p where k: "policy_evict (cs_policy x) = Inr (k, p)" "policy_order (cs_policy x) = k # policy_order p" "cs_map x k \<noteq> None"
    "policy_valid ((cs_map x)(k := None)) p" by blast
  define y where "y = x\<lparr>cs_table := filter (\<lambda>e. fst e \<noteq> k) (cs_table x), cs_policy := p\<rparr>"
  have "evictOne x = Inr y" using k(1,3) key_in_table [of k x] by (simp add: evictOne_def Table_erase_def y_def)
  moreover have m: "cs_map y = (cs_map x)(k := None)" by (simp add: y_def cs_map_def map_of_erase)
  moreover have wf: "cs_wf sha256 y" using assms(1) k(4) m by (simp add: cs_wf_def sorted_map_filter) (simp add: y_def sorted_map_filter)
  moreover have "length (cs_table x) = Suc (length (cs_table y))"
    using order_length [OF assms(1)] order_length [OF wf] k(2) by (simp add: y_def)
  ultimately show ?thesis using k(2) by (intro exI [of _ k] exI [of _ y]) (simp add: y_def)
qed

lemma evictEntries_ok:
  "cs_wf sha256 x \<Longrightarrow> n = length (cs_table x) - cs_limit x \<Longrightarrow>
   \<exists>y. Policy_evictEntries x = Inr y \<and> cs_wf sha256 y \<and> cs_limit y = cs_limit x \<and> length (cs_table y) = length (cs_table x) - n
     \<and> policy_order (cs_policy y) = drop n (policy_order (cs_policy x))
     \<and> cs_table y = filter (\<lambda>e. fst e \<notin> set (take n (policy_order (cs_policy x)))) (cs_table x)"
proof (induction n arbitrary: x)
  case 0
  then have "Policy_evictEntries x = Inr x" by (simp add: Policy_evictEntries.simps)
  then show ?case using 0 by (intro exI [of _ x]) simp
next
  case (Suc n)
  have more: "length (cs_table x) > cs_limit x" using Suc.prems(2) by simp
  then have "cs_table x \<noteq> []" by auto
  from evictOne_ok [OF Suc.prems(1) this]
  obtain k x1 where x1: "evictOne x = Inr x1" "cs_wf sha256 x1" "cs_limit x1 = cs_limit x"
    "policy_order (cs_policy x) = k # policy_order (cs_policy x1)" "cs_table x1 = filter (\<lambda>e. fst e \<noteq> k) (cs_table x)"
    "length (cs_table x) = Suc (length (cs_table x1))" by blast
  have "n = length (cs_table x1) - cs_limit x1" using Suc.prems(2) x1(3,6) by simp
  from Suc.IH [OF x1(2) this]
  obtain y where y: "Policy_evictEntries x1 = Inr y" "cs_wf sha256 y" "cs_limit y = cs_limit x1" "length (cs_table y) = length (cs_table x1) - n"
    "policy_order (cs_policy y) = drop n (policy_order (cs_policy x1))"
    "cs_table y = filter (\<lambda>e. fst e \<notin> set (take n (policy_order (cs_policy x1)))) (cs_table x1)" by blast
  have "Policy_evictEntries x = Inr y" using more x1(1) y(1) by (simp add: Policy_evictEntries.simps [of x])
  moreover have "cs_table y = filter (\<lambda>e. fst e \<notin> set (take (Suc n) (policy_order (cs_policy x)))) (cs_table x)"
    unfolding y(6) x1(5) filter_filter by (rule filter_cong) (auto simp: x1(4))
  ultimately show ?case using y(2-5) x1 by (intro exI [of _ y]) simp
qed

end
