(* ===== verification/CsOk.thy ===== *)
theory CsOk
  imports CsPolicy
begin

text \<open>
  The content store keeps its invariant and its bound, what an insertion stores and evicts, and what a
  lookup finds.
\<close>

definition cs_ok :: "(byte list \<Rightarrow> byte list) \<Rightarrow> cs \<Rightarrow> bool" where
  "cs_ok sha256 x \<longleftrightarrow> cs_wf sha256 x \<and> length (cs_table x) \<le> cs_limit x"

section \<open>Insertion\<close>

context comparator
begin

lemma emplaced_entry:
  assumes "sorted_map lt es" and "emplace lt k v es = (i, new, t)"
  shows "new \<longleftrightarrow> map_of es k = None" "sorted_map lt t" "t ! i = (k, if new then v else the (map_of es k))"
    "map_of t = (if new then (map_of es)(k \<mapsto> v) else map_of es)" "length t = length es + (if new then 1 else 0)"
proof -
  have d: "distinct (map fst es)" using assms(1) by (induction es) (use irrefl in fastforce)+
  have new: "new \<longleftrightarrow> k \<notin> fst ` set es" using assms(2) by (simp add: emplace_eq [OF assms(1)] split: if_splits)
  then show n: "new \<longleftrightarrow> map_of es k = None" by (simp add: map_of_eq_None_iff)
  show s: "sorted_map lt t" using sorted_emplace [OF assms(1), of k v] assms(2) by simp
  have dt: "distinct (map fst t)" using s by (induction t) (use irrefl in fastforce)+
  have t: "t = (if new then take (lower_bound lt k es) es @ (k, v) # drop (lower_bound lt k es) es else es)" "i = lower_bound lt k es"
    using assms(2) by (auto simp: emplace_def Let_def split: if_splits)
  show l: "length t = length es + (if new then 1 else 0)" using t(1) lower_bound_length [of k es] by simp
  show "t ! i = (k, if new then v else the (map_of es k))"
  proof (cases new)
    case True
    then show ?thesis using t lower_bound_length [of k es] by (simp add: nth_append)
  next
    case False
    then have h: "fst (es ! i) = k" "i < length es" using lower_bound_entry [OF assms(1)] new t(2) by simp_all
    then have "(k, snd (es ! i)) \<in> set es" by (metis nth_mem prod.collapse)
    then have "map_of es k = Some (snd (es ! i))" using d by simp
    then show ?thesis using False t(1) h by (simp add: prod_eq_iff)
  qed
  have set: "set t = (if new then insert (k, v) (set es) else set es)" using set_emplace [OF assms(1), of k v] assms(2) new by simp
  show "map_of t = (if new then (map_of es)(k \<mapsto> v) else map_of es)"
  proof (cases new)
    case True
    have "map_of t j = Some w \<longleftrightarrow> ((map_of es)(k \<mapsto> v)) j = Some w" for j w
    proof -
      have "(k, w) \<notin> set es" using True n map_of_eq_Some_iff [OF d, of k w] by simp
      then show ?thesis unfolding map_of_eq_Some_iff [OF dt] set using True map_of_eq_Some_iff [OF d] by auto
    qed
    then have "map_of t j = ((map_of es)(k \<mapsto> v)) j" for j by (metis not_Some_eq)
    then show ?thesis using True by auto
  qed (use t in simp)
qed

end

lemma change_entry_map: "map_of (change_entry k f t) j = map_option (if j = k then f else id) (map_of t j)"
  by (induction t) (auto simp: change_entry_def option.map_id)

lemma change_entry_sorted: "sorted_map stored_less t \<Longrightarrow> sorted_map stored_less (change_entry k f t)"
proof -
  have "map fst (change_entry k f t) = map fst t" by (induction t) (auto simp: change_entry_def)
  moreover have "sorted_map stored_less t \<longleftrightarrow> sorted_wrt stored_less (map fst t)" for t :: cs_table by (simp add: sorted_map_def sorted_wrt_map)
  ultimately show "sorted_map stored_less t \<Longrightarrow> sorted_map stored_less (change_entry k f t)" by simp
qed

lemma change_entry_length [simp]: "length (change_entry k f t) = length t"
  by (simp add: change_entry_def)

text \<open>What an entry becomes when its Data is inserted.\<close>

definition inserted_entry :: "int \<Rightarrow> data \<Rightarrow> bool \<Rightarrow> cs_entry option \<Rightarrow> cs_entry" where
  "inserted_entry now d isUnsolicited old =
     (case old of None \<Rightarrow> \<lparr>ce_data = d, ce_isUnsolicited = isUnsolicited, ce_staleTime = stale_time now d\<rparr>
      | Some e \<Rightarrow> \<lparr>ce_data = ce_data e, ce_isUnsolicited = (ce_isUnsolicited e \<and> isUnsolicited), ce_staleTime = stale_time now (ce_data e)\<rparr>)"

lemma inserted_just_timed: "just_timed now (inserted_entry now d u old)"
  by (simp add: just_timed_def inserted_entry_def split: option.split)

text \<open>The order of eviction once a new entry has been inserted.\<close>

definition order_with :: "int \<Rightarrow> cs_key \<Rightarrow> cs_entry \<Rightarrow> cs_policy \<Rightarrow> cs_key list" where
  "order_with now k e p =
     (case p of
        PriorityFifo pf \<Rightarrow>
          pf_queues pf QUEUE_UNSOLICITED @ (if ce_isUnsolicited e then [k] else [])
          @ pf_queues pf QUEUE_STALE @ (if \<not> ce_isUnsolicited e \<and> isStale now e then [k] else [])
          @ pf_queues pf QUEUE_FIFO @ (if \<not> ce_isUnsolicited e \<and> \<not> isStale now e then [k] else [])
      | Lru q \<Rightarrow> q @ [k])"

lemma policy_insert_order: "policy_insert now k e p = Inr p' \<Longrightarrow> policy_order p' = order_with now k e p"
  by (auto simp: policy_insert_def attachQueue_def insertToQueue_def order_with_def policy_order_def pf_order_def Let_def
      split: cs_policy.splits if_splits)

lemma with_policy_Inr: "with_policy x (Inr p) = Inr (x\<lparr>cs_policy := p\<rparr>)"
  by (simp add: with_policy_def)

lemma Cs_insert_ok:
  fixes k :: cs_key and e :: cs_entry and now :: int and u :: bool
  assumes "cs_ok sha256 x" and "has_digest sha256 d" and "0 < cs_limit x"
  defines "k \<equiv> data_key sha256 d"
  defines "e \<equiv> inserted_entry now d u (cs_map x k)"
  shows "\<exists>y. Cs_insert sha256 now d u False x = Inr y \<and> cs_ok sha256 y \<and> cs_limit y = cs_limit x
     \<and> cs_map y = (if cs_map x k \<noteq> None \<or> length (cs_table x) < cs_limit x then (cs_map x)(k \<mapsto> e)
                   else ((cs_map x)(k \<mapsto> e))(hd (order_with now k e (cs_policy x)) := None))"
proof -
  have wf: "sorted_map stored_less (cs_table x)" "policy_valid (cs_map x) (cs_policy x)"
    "\<And>k e. cs_map x k = Some e \<Longrightarrow> has_digest sha256 (ce_data e) \<and> k = data_key sha256 (ce_data e)" "length (cs_table x) \<le> cs_limit x"
    using assms(1) unfolding cs_ok_def cs_wf_def by blast+
  obtain i new t where em: "emplace stored_less k (CsEntry_setData now d u) (cs_table x) = (i, new, t)" by (metis prod_cases3)
  note t = st.emplaced_entry [OF wf(1) em]
  define y where "y = x\<lparr>cs_table := change_entry k (\<lambda>_. e) t\<rparr>"
  have new: "new \<longleftrightarrow> cs_map x k = None" using t(1) by (simp add: cs_map_def)
  have upd: "(if \<not> new \<and> ce_isUnsolicited (updateStaleTime now (snd (t ! i))) \<and> \<not> u then unsetUnsolicited now (updateStaleTime now (snd (t ! i)))
      else updateStaleTime now (snd (t ! i))) = e"
    using new by (auto simp: t(3) e_def inserted_entry_def updateStaleTime_def unsetUnsolicited_def CsEntry_setData_def cs_map_def Let_def split: option.splits)
  have run: "Cs_insert sha256 now d u False x = (if \<not> new then Policy_afterRefresh now k e y else Policy_afterInsert now k e y)"
    using assms(3) unfolding Cs_insert_def k_def [symmetric] em prod.case Let_def upd by (simp add: t(3) y_def)
  have my: "cs_map y = (cs_map x)(k \<mapsto> e)"
    unfolding cs_map_def y_def by (auto simp: change_entry_map t(4) fun_eq_iff option.map_id new cs_map_def split: if_splits)
  have e: "just_timed now e" "has_digest sha256 (ce_data e)" "k = data_key sha256 (ce_data e)"
    using inserted_just_timed assms(2) wf(3) [of k] by (auto simp: e_def inserted_entry_def k_def split: option.splits)
  have y: "sorted_map stored_less (cs_table y)" "cs_policy y = cs_policy x" "cs_limit y = cs_limit x"
    "length (cs_table y) = length (cs_table x) + (if new then 1 else 0)"
    using change_entry_sorted [OF t(2)] t(5) by (simp_all add: y_def)
  have wfy: "cs_wf sha256 (y\<lparr>cs_policy := p\<rparr>)" if "policy_valid ((cs_map x)(k \<mapsto> e)) p" for p
    using that y(1) wf(3) e(2,3) my unfolding cs_wf_def by (auto simp: cs_map_def)
  show ?thesis
  proof (cases new)
    case False
    then obtain p where p: "policy_refresh now k e (cs_policy x) = Inr p" "policy_valid ((cs_map x)(k \<mapsto> e)) p"
      using policy.refresh_valid [OF wf(2) _ e(1), of k] new by auto
    have "Cs_insert sha256 now d u False x = Inr (y\<lparr>cs_policy := p\<rparr>)" using run False p(1) y(2) by (simp add: Policy_afterRefresh_def with_policy_Inr)
    moreover have "cs_map (y\<lparr>cs_policy := p\<rparr>) = (cs_map x)(k \<mapsto> e)" using my by (simp add: cs_map_def)
    ultimately show ?thesis using wfy [OF p(2)] y(3,4) wf(4) False new by (auto simp: cs_ok_def)
  next
    case True
    then obtain p where p: "policy_insert now k e (cs_policy x) = Inr p" "policy_valid ((cs_map x)(k \<mapsto> e)) p"
      using policy.insert_valid [OF wf(2) _ e(1), of k] new by auto
    let ?y = "y\<lparr>cs_policy := p\<rparr>" and ?n = "length (cs_table (y\<lparr>cs_policy := p\<rparr>)) - cs_limit (y\<lparr>cs_policy := p\<rparr>)"
    obtain z where z: "Policy_evictEntries ?y = Inr z" "cs_wf sha256 z" "cs_limit z = cs_limit x" "length (cs_table z) = length (cs_table ?y) - ?n"
      "cs_table z = filter (\<lambda>e. fst e \<notin> set (take ?n (policy_order p))) (cs_table ?y)"
      using evictEntries_ok [OF wfy [OF p(2)] refl] y(3) by auto
    have "Cs_insert sha256 now d u False x = Inr z" using run True p(1) y(2) z(1) by (simp add: Policy_afterInsert_def with_policy_Inr)
    moreover have "length (cs_table z) \<le> cs_limit z" using z(3,4) y(3) by simp
    moreover have o: "policy_order p = order_with now k e (cs_policy x)" by (rule policy_insert_order [OF p(1)])
    moreover have "cs_map z = (\<lambda>j. if j \<in> set (take ?n (policy_order p)) then None else ((cs_map x)(k \<mapsto> e)) j)"
      unfolding cs_map_def z(5) map_of_keep my [unfolded cs_map_def, symmetric] by (simp add: fun_eq_iff)
    moreover have "policy_order p \<noteq> []" unfolding o order_with_def by (auto split: cs_policy.split)
    then have "take 1 (policy_order p) = [hd (policy_order p)]" by (cases "policy_order p") auto
    moreover have "?n = (if length (cs_table x) < cs_limit x then 0 else 1)" using y(3,4) True wf(4) by auto
    ultimately show ?thesis using z(2,3) True new by (intro exI [of _ z]) (auto simp: cs_ok_def fun_eq_iff)
  qed
qed

lemma Cs_insert_skips: "cs_limit x = 0 \<or> noCache \<Longrightarrow> Cs_insert sha256 now d u noCache x = Inr x"
  by (auto simp: Cs_insert_def)

lemma Cs_setLimit_ok:
  assumes "cs_ok sha256 x"
  shows "\<exists>y. Cs_setLimit n x = Inr y \<and> cs_ok sha256 y \<and> cs_limit y = n \<and> length (cs_table y) = min n (length (cs_table x))
     \<and> policy_order (cs_policy y) = drop (length (cs_table x) - n) (policy_order (cs_policy x))
     \<and> cs_table y = filter (\<lambda>e. fst e \<notin> set (take (length (cs_table x) - n) (policy_order (cs_policy x)))) (cs_table x)"
proof -
  have "cs_wf sha256 (x\<lparr>cs_limit := n\<rparr>)" using assms by (simp add: cs_ok_def cs_wf_def cs_map_def)
  from evictEntries_ok [OF this refl] show ?thesis by (auto simp: Cs_setLimit_def cs_ok_def)
qed

section \<open>Lookup\<close>

definition satisfies :: "(byte list \<Rightarrow> byte list) \<Rightarrow> int \<Rightarrow> interest \<Rightarrow> cs_item \<Rightarrow> bool" where
  "satisfies sha256 now i e \<longleftrightarrow> canSatisfy sha256 now i (snd e) = Inr True"

text \<open>No comparison of key locators throws.\<close>

definition comparable :: "(byte list \<Rightarrow> byte list) \<Rightarrow> int \<Rightarrow> interest \<Rightarrow> cs_table \<Rightarrow> bool" where
  "comparable sha256 now i t \<longleftrightarrow> (\<forall>e \<in> set t. \<exists>b. canSatisfy sha256 now i (snd e) = Inr b)"

lemma find_entry_find: "\<forall>e \<in> set es. p (snd e) = Inr (S e) \<Longrightarrow> find_entry p es = Inr (List.find S es)"
proof (induction es)
  case (Cons e es)
  then show ?case by (cases "S e") auto
qed simp

text \<open>A query that is not a full name compares by name.\<close>

definition plain_query :: "full_name \<Rightarrow> bool" where
  "plain_query q \<longleftrightarrow> q = [] \<or> \<not> is_digest (last q)"

lemma plain_query_greater: "plain_query q \<Longrightarrow> compareQueryWithData q k > 0 \<longleftrightarrow> fst k < q"
  by (auto simp: compareQueryWithData_def plain_query_def Let_def)

definition names_sorted :: "cs_table \<Rightarrow> bool" where
  "names_sorted t \<longleftrightarrow> sorted (map (fst \<circ> fst) t)"

lemma table_names_sorted: "sorted_map stored_less t \<Longrightarrow> names_sorted t"
  unfolding names_sorted_def sorted_map_def sorted_wrt_map
  by (rule sorted_wrt_mono_rel) (auto simp: stored_less_iff)

lemma takeWhile_names: "names_sorted t \<Longrightarrow> takeWhile (\<lambda>e. fst (fst e) < q) t = filter (\<lambda>e. fst (fst e) < q) t"
proof (induction t)
  case (Cons e t)
  have "filter (\<lambda>e. fst (fst e) < q) t = []" if "\<not> fst (fst e) < q"
    using that Cons.prems by (fastforce simp: names_sorted_def filter_empty_conv)
  then show ?case using Cons by (simp add: names_sorted_def)
qed simp

lemma query_bound: "plain_query q \<Longrightarrow> query_lower_bound q t = length (takeWhile (\<lambda>e. fst (fst e) < q) t)"
  by (simp add: query_lower_bound_def plain_query_greater)

lemma drop_names:
  assumes "names_sorted t"
  shows "drop (length (takeWhile (\<lambda>e. fst (fst e) < q) t)) t = filter (\<lambda>e. \<not> fst (fst e) < q) t"
  unfolding dropWhile_eq_drop [symmetric] using assms
proof (induction t)
  case (Cons e t)
  have "filter (\<lambda>e. \<not> fst (fst e) < q) t = t" if "\<not> fst (fst e) < q"
    using that Cons.prems by (fastforce simp: names_sorted_def filter_id_conv)
  then show ?case using Cons by (simp add: names_sorted_def)
qed simp

lemma slice_names:
  assumes "names_sorted t" and "plain_query a" and "plain_query b" and "a \<le> b"
  shows "query_lower_bound a t \<le> query_lower_bound b t" "query_lower_bound b t \<le> length t"
    "slice (query_lower_bound a t) (query_lower_bound b t) t = filter (\<lambda>e. a \<le> fst (fst e) \<and> fst (fst e) < b) t"
proof -
  let ?A = "\<lambda>e. fst (fst e) < a" and ?B = "\<lambda>e. fst (fst e) < b"
  have ba: "query_lower_bound a t = length (filter ?A t)" "query_lower_bound b t = length (filter ?B t)"
    using assms(2,3) by (simp_all add: query_bound takeWhile_names [OF assms(1)])
  have AB: "filter ?A (filter ?B t) = filter ?A t" unfolding filter_filter by (rule filter_cong) (use assms(4) in auto)
  show "query_lower_bound a t \<le> query_lower_bound b t" unfolding ba AB [symmetric] by (rule length_filter_le)
  show "query_lower_bound b t \<le> length t" by (simp add: ba)
  have t': "names_sorted (filter ?B t)" using assms(1) by (simp add: names_sorted_def sorted_wrt_map sorted_wrt_filter)
  have "take (length (filter ?B t)) t = filter ?B t"
    unfolding takeWhile_names [OF assms(1), symmetric] by (metis takeWhile_eq_take)
  then have "slice (query_lower_bound a t) (query_lower_bound b t) t = drop (length (filter ?A (filter ?B t))) (filter ?B t)"
    unfolding ba AB by (simp add: slice_def drop_take [symmetric])
  also have "\<dots> = filter (\<lambda>e. \<not> fst (fst e) < a) (filter ?B t)" using drop_names [OF t'] unfolding takeWhile_names [OF t'] by simp
  also have "\<dots> = filter (\<lambda>e. a \<le> fst (fst e) \<and> fst (fst e) < b) t" unfolding filter_filter by (rule filter_cong) auto
  finally show "slice (query_lower_bound a t) (query_lower_bound b t) t = filter (\<lambda>e. a \<le> fst (fst e) \<and> fst (fst e) < b) t" .
qed

text \<open>
  What a lookup asks for: of the entries that satisfy the Interest those in the greatest child of its name
  when the child selector is 1, and then the first; the last one if their name is that of the Interest.
\<close>

definition child_of :: "nat \<Rightarrow> cs_item \<Rightarrow> full_name" where
  "child_of n e = take (n + 1) (fst (fst e))"

definition rightmost_item :: "(cs_item \<Rightarrow> bool) \<Rightarrow> nat \<Rightarrow> cs_item set \<Rightarrow> cs_item \<Rightarrow> bool" where
  "rightmost_item S n es m \<longleftrightarrow> m \<in> es \<and> S m \<and> (\<forall>f \<in> es. S f \<longrightarrow> child_of n f \<le> child_of n m
     \<and> (child_of n f = child_of n m \<longrightarrow> (if length (fst (fst m)) = n then \<not> stored_less (fst m) (fst f) else \<not> stored_less (fst f) (fst m))))"

lemma rightmost_more: "rightmost_item S n A m \<Longrightarrow> \<forall>e \<in> B. \<not> S e \<Longrightarrow> rightmost_item S n (A \<union> B) m"
  unfolding rightmost_item_def by blast

text \<open>Names of Data without implicit digests in them.\<close>

definition plain_names :: "cs_table \<Rightarrow> bool" where
  "plain_names t \<longleftrightarrow> (\<forall>e \<in> set t. \<forall>c \<in> set (fst (fst e)). \<not> is_digest c)"

lemma plain_child: "plain_names t \<Longrightarrow> e \<in> set t \<Longrightarrow> plain_query (take k (fst (fst e)))"
  unfolding plain_names_def plain_query_def using last_in_set in_set_takeD by fast

lemma slice_parts: "a \<le> b \<Longrightarrow> b \<le> c \<Longrightarrow> slice a c xs = slice a b xs @ slice b c xs"
proof -
  assume h: "a \<le> b" "b \<le> c"
  then have "take (c - a) (drop a xs) = take (b - a) (drop a xs) @ take (c - b) (drop (b - a) (drop a xs))"
    by (metis add_diff_inverse_nat diff_add_assoc2 diff_diff_left le_add_diff_inverse not_less take_add)
  then show ?thesis using h by (simp add: slice_def)
qed

lemma slice_last: "a < b \<Longrightarrow> b \<le> length xs \<Longrightarrow> xs ! (b - 1) \<in> set (slice a b xs)"
proof -
  assume h: "a < b" "b \<le> length xs"
  then have "slice a b xs ! (b - 1 - a) = xs ! (b - 1)" "b - 1 - a < length (slice a b xs)" by (simp_all add: slice_def)
  then show ?thesis by (metis nth_mem)
qed

lemma find_first_sorted:
  assumes "sorted_map stored_less es" and "List.find S es = Some m"
  shows "m \<in> set es" "S m" "\<And>f. f \<in> set es \<Longrightarrow> S f \<Longrightarrow> \<not> stored_less (fst f) (fst m)"
proof -
  obtain j where j: "j < length es" "S (es ! j)" "m = es ! j" "\<forall>l < j. \<not> S (es ! l)" using assms(2) by (auto simp: find_Some_iff)
  then show "m \<in> set es" "S m" by simp_all
  fix f assume f: "f \<in> set es" "S f"
  then obtain l where l: "l < length es" "f = es ! l" by (metis in_set_conv_nth)
  then have "j \<le> l" using j(4) f(2) not_le by blast
  then show "\<not> stored_less (fst f) (fst m)"
    using assms(1) l j(3) st.irrefl st.asym unfolding sorted_map_def sorted_wrt_iff_nth_less by (metis le_neq_implies_less)
qed

lemma find_last_sorted:
  assumes "sorted_map stored_less es" and "List.find S (rev es) = Some m"
  shows "m \<in> set es" "S m" "\<And>f. f \<in> set es \<Longrightarrow> S f \<Longrightarrow> \<not> stored_less (fst m) (fst f)"
proof -
  obtain j where j: "j < length es" "S (rev es ! j)" "m = rev es ! j" "\<forall>l < j. \<not> S (rev es ! l)" using assms(2) by (auto simp: find_Some_iff)
  then show "m \<in> set es" "S m" by (metis length_rev nth_mem set_rev, simp)
  fix f assume f: "f \<in> set es" "S f"
  then obtain l where l: "l < length es" "f = es ! l" by (metis in_set_conv_nth)
  then have "f = rev es ! (length es - Suc l)" by (simp add: rev_nth)
  then have "j \<le> length es - Suc l" using j(4) f(2) not_le by blast
  then have "l \<le> length es - Suc j" using l(1) j(1) by linarith
  moreover have "m = es ! (length es - Suc j)" using j(1,3) by (simp add: rev_nth)
  ultimately show "\<not> stored_less (fst m) (fst f)"
    using assms(1) l j(1) st.irrefl st.asym unfolding sorted_map_def sorted_wrt_iff_nth_less
    by (metis diff_less le_neq_implies_less length_greater_0_conv list.size(3) not_less_zero zero_less_Suc)
qed

lemma sorted_slice: "sorted_map lt t \<Longrightarrow> sorted_map lt (slice a b t)"
  by (simp add: sorted_map_def slice_def sorted_wrt_take sorted_wrt_drop)

lemma set_slice_table: "set (slice a b t) \<subseteq> set t"
  by (auto simp: slice_def dest: in_set_takeD in_set_dropD)

lemma findRightmost_step:
  assumes "right \<noteq> first" and "\<not> (right = 0 \<or> length t < right)"
  shows "findRightmost_loop p n first t right = (if length (fst (fst (t ! (right - 1)))) = n then findRightmostAmongExact p first right t
        else case findLeftmost p (query_lower_bound (take (n + 1) (fst (fst (t ! (right - 1))))) t) right t of
            Inl e \<Rightarrow> Inl e | Inr (Some m) \<Rightarrow> Inr (Some m)
          | Inr None \<Rightarrow> findRightmost_loop p n first t (query_lower_bound (take (n + 1) (fst (fst (t ! (right - 1))))) t))"
  using assms by (subst findRightmost_loop.simps) (simp only: if_False Let_def)

text \<open>The loop over the children, from the greatest, over the entries below the name \<open>own\<close>.\<close>

lemma findRightmost_loop_ok:
  fixes S :: "cs_item \<Rightarrow> bool" and right :: nat
  assumes "sorted_map stored_less t" and "plain_names t" and "plain_query own" and p: "\<forall>e \<in> set t. p (snd e) = Inr (S e)"
    and first: "first = query_lower_bound own t"
  shows "first \<le> right \<Longrightarrow> right \<le> length t \<Longrightarrow> \<forall>e \<in> set (slice first right t). is_prefix own (fst (fst e)) \<Longrightarrow>
     \<exists>r. findRightmost_loop p (length own) first t right = Inr r
       \<and> (case r of None \<Rightarrow> \<forall>e \<in> set (slice first right t). \<not> S e | Some m \<Rightarrow> rightmost_item S (length own) (set (slice first right t)) m)"
proof (induction right rule: less_induct)
  case (less right)
  let ?n = "length own" and ?R = "set (slice first right t)"
  have ns: "names_sorted t" by (rule table_names_sorted [OF assms(1)])
  show ?case
  proof (cases "right = first")
    case True
    then show ?thesis by (simp add: findRightmost_loop.simps slice_def)
  next
    case False
    then have lt: "first < right" using less.prems(1) by simp
    define prev where "prev = t ! (right - 1)"
    have prev: "prev \<in> ?R" "prev \<in> set t" "is_prefix own (fst (fst prev))"
      using slice_last [OF lt less.prems(2)] less.prems(3) set_slice_table [of first right t] by (auto simp: prev_def)
    have srt: "sorted_map stored_less (slice first right t)" by (rule sorted_slice [OF assms(1)])
    have le_prev: "fst (fst e) \<le> fst (fst prev)" if e: "e \<in> ?R" for e
    proof -
      obtain j where j: "j < right - first" "e = t ! (first + j)" using e less.prems(1,2) by (auto simp: in_set_conv_nth slice_def)
      have "sorted (map (fst \<circ> fst) t)" using ns by (simp add: names_sorted_def)
      from sorted_nth_mono [OF this, of "first + j" "right - 1"] show ?thesis using j lt less.prems(2) by (simp add: prev_def)
    qed
    have step: "findRightmost_loop p ?n first t right = (if length (fst (fst prev)) = ?n then findRightmostAmongExact p first right t
        else case findLeftmost p (query_lower_bound (take (?n + 1) (fst (fst prev))) t) right t of
            Inl e \<Rightarrow> Inl e | Inr (Some m) \<Rightarrow> Inr (Some m)
          | Inr None \<Rightarrow> findRightmost_loop p ?n first t (query_lower_bound (take (?n + 1) (fst (fst prev))) t))"
      unfolding prev_def by (rule findRightmost_step) (use False lt less.prems(2) in auto)
    show ?thesis
    proof (cases "length (fst (fst prev)) = ?n")
      case True
      then have own: "fst (fst prev) = own" using prev(3) by (simp add: is_prefix_def)
      have exact: "fst (fst e) = own" if e: "e \<in> ?R" for e
      proof -
        have "is_prefix own (fst (fst e))" using less.prems(3) e by blast
        then have "own \<le> fst (fst e)" by (rule is_prefix_le)
        then show ?thesis using le_prev [OF e] own by simp
      qed
      have "findRightmostAmongExact p first right t = Inr (List.find S (rev (slice first right t)))"
      proof -
        have "\<forall>e \<in> set (rev (slice first right t)). p (snd e) = Inr (S e)" using p set_slice_table [of first right t] by auto
        then show ?thesis using less.prems(1) find_entry_find by (simp add: findRightmostAmongExact_def)
      qed
      then have "findRightmost_loop p ?n first t right = Inr (List.find S (rev (slice first right t)))" using step True by simp
      moreover have "rightmost_item S ?n ?R m" if "List.find S (rev (slice first right t)) = Some m" for m
        using find_last_sorted [OF srt that] exact by (simp add: rightmost_item_def child_of_def)
      ultimately show ?thesis by (auto simp: find_None_iff split: option.split)
    next
      case False
      then have long: "?n < length (fst (fst prev))" using prev(3) by (simp add: is_prefix_def)
      define c where "c = take (?n + 1) (fst (fst prev))"
      have c: "length c = ?n + 1" "is_prefix own c" "is_prefix c (fst (fst prev))" "plain_query c"
        using long prev(3) plain_child [OF assms(2) prev(2)] by (simp_all add: c_def is_prefix_def min_def)
      have own_c: "own \<le> c" by (rule is_prefix_le [OF c(2)])
      define left where "left = query_lower_bound c t"
      have fl: "first \<le> left" unfolding first left_def by (rule slice_names(1) [OF ns assms(3) c(4) own_c])
      have "right - 1 < length t" using lt less.prems(2) by simp
      from query_lower_bound_prefix [OF this, of "?n + 1"] have "left \<le> right - 1" by (simp add: left_def c_def prev_def)
      then have lr: "left < right" using lt by linarith
      have parts: "slice first right t = slice first left t @ slice left right t" using slice_parts [OF fl, of right t] lr by simp
      have low: "fst (fst e) < c" if "e \<in> set (slice first left t)" for e
        using that slice_names(3) [OF ns assms(3) c(4) own_c] by (simp add: first left_def)
      have high: "take (?n + 1) (fst (fst e)) = c" if e: "e \<in> set (slice left right t)" for e
      proof -
        have "\<not> fst (fst e) < c"
        proof -
          have "e \<in> set (drop left t)" using e by (auto simp: slice_def dest: in_set_takeD)
          then show ?thesis unfolding left_def query_bound [OF c(4)] drop_names [OF ns] by simp
        qed
        moreover have "fst (fst e) \<le> fst (fst prev)" using le_prev e parts by simp
        ultimately have "is_prefix c (fst (fst e))" using is_prefix_convex [OF c(3)] by simp
        then show ?thesis using c(1) by (simp add: is_prefix_def)
      qed
      have left_find: "findLeftmost p left right t = Inr (List.find S (slice left right t))"
      proof -
        have "\<forall>e \<in> set (slice left right t). p (snd e) = Inr (S e)" using p set_slice_table [of left right t] by auto
        then show ?thesis using lr find_entry_find by (simp add: findLeftmost_def)
      qed
      show ?thesis
      proof (cases "List.find S (slice left right t)")
        case None
        have eq: "findRightmost_loop p ?n first t right = findRightmost_loop p ?n first t left"
          using step False left_find None by (simp add: left_def c_def)
        have pre: "\<forall>e \<in> set (slice first left t). is_prefix own (fst (fst e))" using less.prems(3) parts by simp
        have ll: "left \<le> length t" using lr less.prems(2) by simp
        have none: "\<forall>e \<in> set (slice left right t). \<not> S e" using None unfolding find_None_iff by blast
        obtain r where r: "findRightmost_loop p ?n first t right = Inr r"
          "case r of None \<Rightarrow> \<forall>e \<in> set (slice first left t). \<not> S e | Some m \<Rightarrow> rightmost_item S ?n (set (slice first left t)) m"
          using less.IH [OF lr fl ll pre] unfolding eq by blast
        have "?R = set (slice first left t) \<union> set (slice left right t)" using parts by simp
        then have "case r of None \<Rightarrow> \<forall>e \<in> ?R. \<not> S e | Some m \<Rightarrow> rightmost_item S ?n ?R m"
          using r(2) none rightmost_more [of S ?n "set (slice first left t)"] by (cases r) (simp_all add: ball_Un)
        then show ?thesis using r(1) by blast
      next
        case (Some m)
        note m = find_first_sorted [OF sorted_slice [OF assms(1)] Some]
        have "rightmost_item S ?n ?R m"
          unfolding rightmost_item_def
        proof (intro conjI ballI impI)
          show "m \<in> ?R" "S m" using m(1,2) parts by simp_all
          fix f assume f: "f \<in> ?R" "S f"
          have cm: "child_of ?n m = c" using high [OF m(1)] by (simp add: child_of_def)
          have "child_of ?n f < c \<and> f \<in> set (slice first left t) \<or> child_of ?n f = c \<and> f \<in> set (slice left right t)"
            using f(1) parts low [of f] high [of f] take_le [of "?n + 1" "fst (fst f)"] by (auto simp: child_of_def)
          then show "child_of ?n f \<le> child_of ?n m" using cm by auto
          assume "child_of ?n f = child_of ?n m"
          then have "f \<in> set (slice left right t)" using \<open>child_of ?n f < c \<and> _ \<or> _\<close> cm by auto
          moreover have "length (fst (fst m)) \<noteq> ?n" using high [OF m(1)] c(1) by (metis add.right_neutral add_le_cancel_left length_take min.cobounded1 not_one_le_zero)
          ultimately show "if length (fst (fst m)) = ?n then \<not> stored_less (fst m) (fst f) else \<not> stored_less (fst f) (fst m)" using m(3) f(2) by simp
        qed
        then show ?thesis using step False left_find Some by (simp add: left_def c_def)
      qed
    qed
  qed
qed

section \<open>Whole lookups\<close>

text \<open>An Interest whose name is empty or ends in a generic component.\<close>

definition searchable :: "interest \<Rightarrow> bool" where
  "searchable i \<longleftrightarrow> name_block (i_name i) \<and> (name_of (i_name i) = [] \<or> has_successor (i_name i))"

lemma searchable_last: "searchable i \<Longrightarrow> name_of (i_name i) \<noteq> [] \<Longrightarrow> comp_type (last (name_of (i_name i))) = tlv_NameComponent"
  by (auto simp: searchable_def has_successor_def name_of_def last_map component_of_def Component_isGeneric_def)

lemma searchable_plain: "searchable i \<Longrightarrow> plain_query (name_of (i_name i))"
  using searchable_last [of i] by (auto simp: plain_query_def is_digest_def tlv_codes)

lemma satisfies_prefix:
  assumes "cs_wf sha256 x" and "searchable i" and "e \<in> set (cs_table x)" and "satisfies sha256 now i e"
  shows "is_prefix (name_of (i_name i)) (fst (fst e))"
proof -
  let ?own = "name_of (i_name i)" and ?d = "ce_data (snd e)"
  have "distinct (map fst (cs_table x))" using assms(1) key_distinct [of "cs_table x"] by (simp add: cs_wf_def)
  then have "cs_map x (fst e) = Some (snd e)" using assms(3) by (simp add: cs_map_def)
  then have d: "has_digest sha256 ?d" "fst e = data_key sha256 ?d" using assms(1) unfolding cs_wf_def by blast+
  have "admits (i_selectors i) ?own (name_of (d_name ?d) @ [digest_component sha256 ?d])"
    using assms(4) Interest_matchesData_iff [OF d(1), of i] assms(2)
    by (auto simp: satisfies_def canSatisfy_def searchable_def split: if_splits sum.splits)
  then have t: "take (length ?own) (name_of (d_name ?d) @ [digest_component sha256 ?d]) = ?own" by (simp add: admits_def)
  have name: "fst (fst e) = name_of (d_name ?d)" using d(2) by (simp add: data_key_def)
  show ?thesis
  proof (cases "length ?own \<le> length (name_of (d_name ?d))")
    case True
    then show ?thesis using t name by (simp add: is_prefix_def)
  next
    case False
    then have "?own = name_of (d_name ?d) @ [digest_component sha256 ?d]" using t by simp
    then have "?own \<noteq> []" "last ?own = digest_component sha256 ?d" by simp_all
    then show ?thesis using searchable_last [OF assms(2)] by (simp add: digest_component_def tlv_codes)
  qed
qed

lemma lookup_range:
  assumes "names_sorted t" and "searchable i"
  shows "\<exists>lst. (if name_of (i_name i) = [] then Inr (length t)
               else case Name_getSuccessor (i_name i) of Inl e \<Rightarrow> Inl e | Inr s \<Rightarrow> Inr (query_lower_bound (name_of s) t)) = Inr lst
     \<and> query_lower_bound (name_of (i_name i)) t \<le> lst \<and> lst \<le> length t
     \<and> slice (query_lower_bound (name_of (i_name i)) t) lst t = filter (\<lambda>e. is_prefix (name_of (i_name i)) (fst (fst e))) t"
proof (cases "name_of (i_name i) = []")
  case True
  have "query_lower_bound [] t = 0" by (simp add: query_bound plain_query_def takeWhile_eq_Nil_iff)
  then show ?thesis using True by (simp add: slice_def is_prefix_def)
next
  case False
  then have suc: "has_successor (i_name i)" using assms(2) by (simp add: searchable_def)
  then obtain s where s: "Name_getSuccessor (i_name i) = Inr s" "\<And>m. is_prefix (name_of (i_name i)) m \<longleftrightarrow> name_of (i_name i) \<le> m \<and> m < name_of s"
    using successor_range by blast
  have "name_of s = butlast (name_of (i_name i)) @ [Component tlv_NameComponent (successor_value (comp_value (last (name_of (i_name i)))))]"
    using Name_getSuccessor_nonempty [of "i_name i"] suc s(1) by (auto simp: has_successor_def)
  then have "plain_query (name_of s)" by (simp add: plain_query_def is_digest_def tlv_codes)
  moreover have "name_of (i_name i) \<le> name_of s" using s(2) [of "name_of (i_name i)"] by (simp add: is_prefix_def)
  ultimately show ?thesis
    using slice_names [OF assms(1) searchable_plain [OF assms(2)]] s(1) False by (simp flip: s(2))
qed

text \<open>The entry to be found: a satisfying one, the first or by the rule of the rightmost child.\<close>

definition best_match :: "(byte list \<Rightarrow> byte list) \<Rightarrow> int \<Rightarrow> interest \<Rightarrow> cs_table \<Rightarrow> cs_item \<Rightarrow> bool" where
  "best_match sha256 now i t m \<longleftrightarrow> m \<in> set t \<and> satisfies sha256 now i m
     \<and> (if sel_childSelector (i_selectors i) = 1 then rightmost_item (satisfies sha256 now i) (length (name_of (i_name i))) (set t) m
        else \<forall>f \<in> set t. satisfies sha256 now i f \<longrightarrow> \<not> stored_less (fst f) (fst m))"

lemma Cs_find_ok:
  assumes "cs_ok sha256 x" and "searchable i" and "comparable sha256 now i (cs_table x)"
    and "sel_childSelector (i_selectors i) = 1 \<Longrightarrow> plain_names (cs_table x)"
  shows "\<exists>r y. Cs_find sha256 now i x = Inr (r, y) \<and> cs_ok sha256 y \<and> cs_table y = cs_table x \<and> cs_limit y = cs_limit x
     \<and> (case r of Miss \<Rightarrow> y = x \<and> (\<forall>e \<in> set (cs_table x). \<not> satisfies sha256 now i e)
        | Hit d \<Rightarrow> \<exists>m. best_match sha256 now i (cs_table x) m \<and> d = ce_data (snd m))"
proof -
  let ?t = "cs_table x" and ?S = "satisfies sha256 now i" and ?own = "name_of (i_name i)" and ?p = "canSatisfy sha256 now i"
  have wf: "cs_wf sha256 x" "sorted_map stored_less ?t" "policy_valid (cs_map x) (cs_policy x)" using assms(1) by (simp_all add: cs_ok_def cs_wf_def)
  have ns: "names_sorted ?t" by (rule table_names_sorted [OF wf(2)])
  have p: "\<forall>e \<in> set ?t. ?p (snd e) = Inr (?S e)" using assms(3) unfolding comparable_def satisfies_def by fastforce
  define first where "first = query_lower_bound ?own ?t"
  obtain lst where lst: "(if ?own = [] then Inr (length ?t) else case Name_getSuccessor (i_name i) of Inl e \<Rightarrow> Inl e
      | Inr s \<Rightarrow> Inr (query_lower_bound (name_of s) ?t)) = Inr lst" "first \<le> lst" "lst \<le> length ?t"
    "slice first lst ?t = filter (\<lambda>e. is_prefix ?own (fst (fst e))) ?t"
    using lookup_range [OF ns assms(2)] unfolding first_def by blast
  have out: "\<not> ?S e" if "e \<in> set ?t" "e \<notin> set (slice first lst ?t)" for e
    using satisfies_prefix [OF wf(1) assms(2) that(1)] that unfolding lst(4) by auto
  define res where "res = (if sel_childSelector (i_selectors i) = 1 then findRightmost_loop ?p (length ?own) first ?t lst else findLeftmost ?p first lst ?t)"
  have "\<exists>r. res = Inr r \<and> (case r of None \<Rightarrow> \<forall>e \<in> set ?t. \<not> ?S e | Some m \<Rightarrow> best_match sha256 now i ?t m)"
  proof (cases "sel_childSelector (i_selectors i) = 1")
    case True
    have pre: "\<forall>e \<in> set (slice first lst ?t). is_prefix ?own (fst (fst e))" unfolding lst(4) by simp
    obtain r where r: "findRightmost_loop ?p (length ?own) first ?t lst = Inr r"
      "case r of None \<Rightarrow> \<forall>e \<in> set (slice first lst ?t). \<not> ?S e | Some m \<Rightarrow> rightmost_item ?S (length ?own) (set (slice first lst ?t)) m"
      using findRightmost_loop_ok [OF wf(2) assms(4) [OF True] searchable_plain [OF assms(2)] p first_def lst(2,3) pre] by blast
    have "rightmost_item ?S (length ?own) (set ?t) m \<and> m \<in> set ?t \<and> ?S m" if "r = Some m" for m
    proof -
      have m: "rightmost_item ?S (length ?own) (set (slice first lst ?t)) m" using r(2) that by simp
      then have "rightmost_item ?S (length ?own) (set (slice first lst ?t) \<union> (set ?t - set (slice first lst ?t))) m"
        by (rule rightmost_more) (use out in auto)
      moreover have "set (slice first lst ?t) \<union> (set ?t - set (slice first lst ?t)) = set ?t" using set_slice_table [of first lst ?t] by auto
      ultimately show ?thesis by (auto simp: rightmost_item_def)
    qed
    then show ?thesis using r True out by (auto simp: res_def best_match_def split: option.splits)
  next
    case False
    have "\<forall>e \<in> set (slice first lst ?t). ?p (snd e) = Inr (?S e)" using p set_slice_table [of first lst ?t] by auto
    then have f: "res = Inr (List.find ?S (slice first lst ?t))" using False lst(2) by (simp add: res_def findLeftmost_def find_entry_find)
    show ?thesis
    proof (cases "List.find ?S (slice first lst ?t)")
      case None
      then have "\<forall>e \<in> set ?t. \<not> ?S e" using out unfolding find_None_iff by blast
      then show ?thesis using f None by simp
    next
      case (Some m)
      note m = find_first_sorted [OF sorted_slice [OF wf(2)] Some]
      then have "m \<in> set ?t" "\<forall>f \<in> set ?t. ?S f \<longrightarrow> \<not> stored_less (fst f) (fst m)" using out set_slice_table [of first lst ?t] by blast+
      then show ?thesis using f Some m(2) False by (simp add: best_match_def)
    qed
  qed
  then obtain r where r: "res = Inr r" "case r of None \<Rightarrow> \<forall>e \<in> set ?t. \<not> ?S e | Some m \<Rightarrow> best_match sha256 now i ?t m" by blast
  have run: "Cs_find sha256 now i x = (case r of None \<Rightarrow> Inr (Miss, x)
      | Some m \<Rightarrow> (case Policy_beforeUse (fst m) x of Inl e \<Rightarrow> Inl e | Inr y \<Rightarrow> Inr (Hit (ce_data (snd m)), y)))"
    using r(1) lst(1) unfolding res_def first_def by (simp add: Cs_find_def Let_def split: option.split)
  show ?thesis
  proof (cases r)
    case None
    then show ?thesis using run r(2) assms(1) by simp
  next
    case (Some m)
    then have m: "m \<in> set ?t" using r(2) by (simp add: best_match_def)
    then have "cs_map x (fst m) \<noteq> None" using key_in_table [of "fst m" x] by simp
    then obtain q where q: "policy_use (fst m) (cs_policy x) = Inr q" "policy_valid (cs_map x) q" using policy.use_valid [OF wf(3)] by blast
    have "cs_ok sha256 (x\<lparr>cs_policy := q\<rparr>)" using assms(1) q(2) by (simp add: cs_ok_def cs_wf_def cs_map_def)
    moreover have "Cs_find sha256 now i x = Inr (Hit (ce_data (snd m)), x\<lparr>cs_policy := q\<rparr>)" using run Some q(1) by (simp add: Policy_beforeUse_def with_policy_Inr)
    moreover have "best_match sha256 now i ?t m" using r(2) Some by simp
    ultimately show ?thesis by (intro exI [of _ "Hit (ce_data (snd m))"] exI [of _ "x\<lparr>cs_policy := q\<rparr>"]) (auto simp del: split_paired_Ex)
  qed
qed

end
