(* ===== verification/CsBehaviour.thy ===== *)
theory CsBehaviour
  imports CsOk
begin

text \<open>
  The content store as a state machine over its operations and the events of its policy, and the two
  lookups by full name that go wrong.
\<close>

section \<open>The store over time\<close>

text \<open>An event of the policy that is due.\<close>

definition event_due :: "int \<Rightarrow> cs_key \<Rightarrow> cs_policy \<Rightarrow> bool" where
  "event_due now k p =
     (case p of PriorityFifo pf \<Rightarrow> (\<exists>i t. pf_entryInfoMap pf k = Some i \<and> nfo_moveStale i = Some t \<and> t \<le> now) | Lru q \<Rightarrow> False)"

inductive cs_step :: "(byte list \<Rightarrow> byte list) \<Rightarrow> cs \<Rightarrow> cs \<Rightarrow> bool" for sha256 where
  step_insert: "has_digest sha256 d \<Longrightarrow> Cs_insert sha256 now d u noCache x = Inr y \<Longrightarrow> cs_step sha256 x y"
| step_find: "Cs_find sha256 now i x = Inr (r, y) \<Longrightarrow> cs_step sha256 x y"
| step_limit: "Cs_setLimit n x = Inr y \<Longrightarrow> cs_step sha256 x y"
| step_event: "event_due now k (cs_policy x) \<Longrightarrow> Policy_staleEvent k x = Inr y \<Longrightarrow> cs_step sha256 x y"

inductive cs_reachable :: "(byte list \<Rightarrow> byte list) \<Rightarrow> cs_policy \<Rightarrow> nat \<Rightarrow> cs \<Rightarrow> bool" for sha256 p n where
  reach_start: "cs_reachable sha256 p n \<lparr>cs_table = [], cs_policy = p, cs_limit = n\<rparr>"
| reach_step: "cs_reachable sha256 p n x \<Longrightarrow> cs_step sha256 x y \<Longrightarrow> cs_reachable sha256 p n y"

lemma find_entry_in: "find_entry p es = Inr (Some m) \<Longrightarrow> m \<in> set es"
  by (induction es) (auto split: sum.splits bool.splits if_splits)

lemma findRightmost_in: "findRightmost_loop p n first t right = Inr (Some m) \<Longrightarrow> m \<in> set t"
proof (induction p n first t right rule: findRightmost_loop.induct)
  case (1 p n first t right)
  show ?case
  proof (cases "right = first \<or> right = 0 \<or> right > length t")
    case True
    then show ?thesis using "1.prems" by (subst (asm) findRightmost_loop.simps) (auto split: if_splits)
  next
    case False
    define prev where "prev = t ! (right - 1)"
    have step: "findRightmost_loop p n first t right = (if length (fst (fst prev)) = n then findRightmostAmongExact p first right t
        else case findLeftmost p (query_lower_bound (take (n + 1) (fst (fst prev))) t) right t of
            Inl e \<Rightarrow> Inl e | Inr (Some m) \<Rightarrow> Inr (Some m)
          | Inr None \<Rightarrow> findRightmost_loop p n first t (query_lower_bound (take (n + 1) (fst (fst prev))) t))"
      unfolding prev_def by (rule findRightmost_step) (use False in auto)
    show ?thesis
    proof (cases "length (fst (fst prev)) = n")
      case True
      then show ?thesis using "1.prems" step find_entry_in [of p "rev (slice first right t)" m] set_slice_table [of first right t]
        by (auto simp: findRightmostAmongExact_def split: if_splits)
    next
      case long: False
      let ?l = "query_lower_bound (take (n + 1) (fst (fst prev))) t"
      consider err where "findLeftmost p ?l right t = Inl err" | "findLeftmost p ?l right t = Inr None"
        | f where "findLeftmost p ?l right t = Inr (Some f)" by (metis option.exhaust sum.exhaust)
      then show ?thesis
      proof cases
        case 1
        then show ?thesis using "1.prems" step long by simp
      next
        case 2
        then have "findRightmost_loop p n first t ?l = Inr (Some m)" using "1.prems" step long by simp
        then show ?thesis using "1.IH" [of prev ?l None] False long 2 by (simp add: prev_def)
      next
        case 3
        then show ?thesis using "1.prems" step long find_entry_in [of p "slice ?l right t" m] set_slice_table [of ?l right t]
          by (auto simp: findLeftmost_def split: if_splits)
      qed
    qed
  qed
qed

lemma Cs_find_keeps:
  assumes "cs_ok sha256 x" and "Cs_find sha256 now i x = Inr (r, y)"
  shows "cs_ok sha256 y \<and> cs_table y = cs_table x \<and> cs_limit y = cs_limit x"
proof -
  let ?f = "query_lower_bound (name_of (i_name i)) (cs_table x)"
  obtain lst res where res: "(if sel_childSelector (i_selectors i) = 1
        then findRightmost_loop (canSatisfy sha256 now i) (length (name_of (i_name i))) ?f (cs_table x) lst
        else findLeftmost (canSatisfy sha256 now i) ?f lst (cs_table x)) = Inr res"
    and r: "(case res of None \<Rightarrow> Inr (Miss, x)
      | Some m \<Rightarrow> (case Policy_beforeUse (fst m) x of Inl e \<Rightarrow> Inl e | Inr y \<Rightarrow> Inr (Hit (ce_data (snd m)), y))) = Inr (r, y)"
    using assms(2) unfolding Cs_find_def Let_def by (auto split: sum.split_asm)
  have "m \<in> set (cs_table x)" if "res = Some m" for m
    using res that findRightmost_in find_entry_in [of _ "slice ?f lst (cs_table x)" m] set_slice_table [of ?f lst "cs_table x"]
    by (auto simp: findLeftmost_def split: if_splits)
  then consider "y = x" | m where "m \<in> set (cs_table x)" "Policy_beforeUse (fst m) x = Inr y"
    using r by (cases res) (auto split: sum.split_asm)
  then show ?thesis
  proof cases
    case 2
    have v: "policy_valid (cs_map x) (cs_policy x)" using assms(1) by (simp add: cs_ok_def cs_wf_def)
    have "cs_map x (fst m) \<noteq> None" using 2(1) key_in_table [of "fst m" x] by simp
    then obtain q where q: "policy_use (fst m) (cs_policy x) = Inr q" "policy_valid (cs_map x) q" using policy.use_valid [OF v] by blast
    then have "y = x\<lparr>cs_policy := q\<rparr>" using 2(2) by (simp add: Policy_beforeUse_def with_policy_Inr)
    then show ?thesis using assms(1) q(2) by (simp add: cs_ok_def cs_wf_def cs_map_def)
  qed (use assms(1) in simp)
qed

lemma stale_event_keeps:
  assumes "cs_ok sha256 x" and "event_due now k (cs_policy x)"
  shows "\<exists>y. Policy_staleEvent k x = Inr y \<and> cs_ok sha256 y \<and> cs_table y = cs_table x \<and> cs_limit y = cs_limit x"
proof -
  obtain pf i where p: "cs_policy x = PriorityFifo pf" "pf_entryInfoMap pf k = Some i" "nfo_moveStale i \<noteq> None"
    using assms(2) by (auto simp: event_due_def split: cs_policy.splits)
  have "pf_valid (cs_map x) pf" using assms(1) p(1) by (simp add: cs_ok_def cs_wf_def policy_valid_def)
  from pf_stale_event [OF this p(2,3)] obtain pf' where "moveToStaleQueue k pf = Inr pf'" "pf_valid (cs_map x) pf'" by blast
  then show ?thesis using assms(1) p(1) by (simp add: Policy_staleEvent_def policy_staleEvent_def with_policy_Inr cs_ok_def cs_wf_def cs_map_def policy_valid_def)
qed

lemma insert_keeps:
  assumes "cs_ok sha256 x" and "has_digest sha256 d"
  shows "\<exists>y. Cs_insert sha256 now d u noCache x = Inr y \<and> cs_ok sha256 y"
proof (cases "cs_limit x = 0 \<or> noCache")
  case True
  then show ?thesis using Cs_insert_skips [OF True] assms(1) by blast
next
  case False
  then show ?thesis using Cs_insert_ok [OF assms, of now u] by auto
qed

lemma cs_step_ok: "cs_step sha256 x y \<Longrightarrow> cs_ok sha256 x \<Longrightarrow> cs_ok sha256 y"
proof (induction rule: cs_step.induct)
  case (step_insert d now u noCache x y)
  then show ?case using insert_keeps [of sha256 x d now u noCache] by auto
next
  case (step_find now i x r y)
  then show ?case using Cs_find_keeps by blast
next
  case (step_limit n x y)
  then show ?case using Cs_setLimit_ok [of sha256 x n] by auto
next
  case (step_event now k x y)
  then show ?case using stale_event_keeps [of sha256 x now k] by auto
qed

lemma cs_reachable_ok:
  assumes "p \<in> {PriorityFifo_new, Lru_new}"
  shows "cs_reachable sha256 p n x \<Longrightarrow> cs_ok sha256 x"
proof (induction rule: cs_reachable.induct)
  case reach_start
  have "policy_valid Map.empty p" using assms
    by (auto simp: PriorityFifo_new_def Lru_new_def policy_valid_def pf_valid_def lru_valid_def)
  then show ?case by (simp add: cs_ok_def cs_wf_def cs_map_def)
next
  case (reach_step x y)
  then show ?case using cs_step_ok by blast
qed

section \<open>Successors of digests\<close>

lemma Component_getSuccessor_digest:
  assumes "component_block c" and "Component_isImplicitSha256Digest c" and "Block_hasValue c"
  shows "Component_getSuccessor c = (if be_value (value_bytes c) + 1 < 256 ^ 32 then Component_getSuccessor c else
      Inl (ComponentError ''Cannot construct name::Component from not a NameComponent or ImplicitSha256DigestComponent TLV wire block''))"
    and "be_value (value_bytes c) + 1 < 256 ^ 32 \<Longrightarrow> \<exists>b. Component_getSuccessor c = Inr b \<and> component_block b
      \<and> component_of b = Component tlv_ImplicitSha256DigestComponent (successor_value (value_bytes c))"
proof -
  let ?v = "successor_value (value_bytes c)"
  have c: "m_type c = tlv_ImplicitSha256DigestComponent" "length (value_bytes c) = 32"
    using assms(1,2) wf_value_size [of c] by (simp_all add: Component_isImplicitSha256Digest_def component_block_def SHA256_DIGEST_SIZE_def)
  have fits: "fits ?v" using assms(1) length_successor_value [of "value_bytes c"] by (simp add: component_block_def fits_def)
  obtain n where n: "Block_size c = Inr n" using assms(3) by (simp add: Block_size_def)
  have "enc_rel (tlv_wire (m_type c) ?v) (snd (run_state (successor_encode (m_type c) (value_bytes c)) (Encoder_new (n + 1) 1)))"
    by (rule successor_bytes [OF fits enc_rel_new])
  from Encoder_block_rel [OF this fits]
  obtain b where b: "Encoder_block (snd (run_state (successor_encode (m_type c) (value_bytes c)) (Encoder_new (n + 1) 1))) True = Inr b"
    "block_tlv b = (m_type c, ?v)" "wire_bytes b = tlv_wire (m_type c) ?v" "block_wf b" "Block_hasWire b" by blast
  have run: "Component_getSuccessor c = Component_of_block b" using n b(1) by (simp add: Component_getSuccessor_def)
  have mb: "m_type b = tlv_ImplicitSha256DigestComponent" "value_bytes b = ?v" "Block_value_size b = length ?v"
    using b(2,4) c(1) wf_value_size [of b] by (simp_all add: block_tlv_def)
  show "be_value (value_bytes c) + 1 < 256 ^ 32 \<Longrightarrow> \<exists>b. Component_getSuccessor c = Inr b \<and> component_block b
      \<and> component_of b = Component tlv_ImplicitSha256DigestComponent (successor_value (value_bytes c))"
  proof -
    assume "be_value (value_bytes c) + 1 < 256 ^ 32"
    then have "length ?v = 32" using c(2) by (simp add: successor_value_def)
    then have "Component_of_block b = Inr b" "component_block b"
      using mb b(3,4) c(1) by (simp_all add: Component_of_block_def Component_isImplicitSha256Digest_def SHA256_DIGEST_SIZE_def component_block_def)
    then show ?thesis using run mb by (simp add: component_of_def)
  qed
  have "\<not> be_value (value_bytes c) + 1 < 256 ^ 32 \<Longrightarrow> length ?v = 33" using c(2) by (simp add: successor_value_def del: replicate.simps)
  then show "Component_getSuccessor c = (if be_value (value_bytes c) + 1 < 256 ^ 32 then Component_getSuccessor c else
      Inl (ComponentError ''Cannot construct name::Component from not a NameComponent or ImplicitSha256DigestComponent TLV wire block''))"
    using run mb by (simp add: Component_of_block_def Component_isGeneric_def Component_isImplicitSha256Digest_def SHA256_DIGEST_SIZE_def tlv_codes)
qed

lemma Name_getSuccessor_digest:
  assumes "name_block n" and "m_subBlocks n \<noteq> []" and "Component_isImplicitSha256Digest (last (m_subBlocks n))"
  shows "be_value (comp_value (last (name_of n))) + 1 < 256 ^ 32 \<Longrightarrow> \<exists>s. Name_getSuccessor n = Inr s \<and> name_block s \<and>
     name_of s = butlast (name_of n) @ [Component tlv_ImplicitSha256DigestComponent (successor_value (comp_value (last (name_of n))))]"
    and "\<not> be_value (comp_value (last (name_of n))) + 1 < 256 ^ 32 \<Longrightarrow> Name_getSuccessor n =
      Inl (ComponentError ''Cannot construct name::Component from not a NameComponent or ImplicitSha256DigestComponent TLV wire block'')"
proof -
  let ?c = "last (m_subBlocks n)"
  have c: "component_block ?c" using assms(1,2) by (simp add: name_block_def)
  have h: "Block_hasValue ?c"
    using assms(3) by (simp add: Component_isImplicitSha256Digest_def Block_value_size_def SHA256_DIGEST_SIZE_def split: if_splits)
  have v: "comp_value (last (name_of n)) = value_bytes ?c" using assms(2) by (simp add: name_of_def last_map component_of_def)
  note suc = Component_getSuccessor_digest [OF c assms(3) h]
  have run: "Name_getSuccessor n = Name_append_made (Name_getPrefix n (- 1)) (Component_getSuccessor ?c)"
    using assms(2) by (simp add: Name_getSuccessor_def Name_empty_def last_conv_get)
  show "be_value (comp_value (last (name_of n))) + 1 < 256 ^ 32 \<Longrightarrow> \<exists>s. Name_getSuccessor n = Inr s \<and> name_block s \<and>
     name_of s = butlast (name_of n) @ [Component tlv_ImplicitSha256DigestComponent (successor_value (comp_value (last (name_of n))))]"
  proof -
    assume "be_value (comp_value (last (name_of n))) + 1 < 256 ^ 32"
    then obtain b where b: "Component_getSuccessor ?c = Inr b" "component_block b"
      "component_of b = Component tlv_ImplicitSha256DigestComponent (successor_value (value_bytes ?c))" using suc(2) unfolding v by blast
    have p: "m_subBlocks (Name_getPrefix n (- 1)) = butlast (m_subBlocks n)"
      using subBlocks_getPrefix_neg1 assms(1,2) name_block_size by blast
    have "Name_getSuccessor n = Inr (Name_append (Name_getPrefix n (- 1)) b)" using run b(1) by (simp add: Name_append_made_def Name_append_def)
    moreover have "name_block (Name_append (Name_getPrefix n (- 1)) b)"
      using b(2) assms(1,2) by (auto simp: name_block_def p dest: in_set_butlastD)
    ultimately show ?thesis using b(3) assms(2) v by (simp add: name_of_def p map_butlast)
  qed
  show "\<not> be_value (comp_value (last (name_of n))) + 1 < 256 ^ 32 \<Longrightarrow> Name_getSuccessor n =
      Inl (ComponentError ''Cannot construct name::Component from not a NameComponent or ImplicitSha256DigestComponent TLV wire block'')"
    using run suc(1) by (simp add: v Name_append_made_def)
qed

lemma digest_name_last:
  assumes "name_of n = N @ [c]" and "is_digest c" and "name_block n"
  shows "m_subBlocks n \<noteq> []" "Component_isImplicitSha256Digest (last (m_subBlocks n))"
proof -
  show ne: "m_subBlocks n \<noteq> []" using assms(1) by (auto simp: name_of_def)
  then have "component_of (last (m_subBlocks n)) = c" using assms(1) by (metis last_map last_snoc name_of_def)
  moreover have "block_wf (last (m_subBlocks n))" using assms(3) ne by (simp add: name_block_def component_block_def)
  ultimately show "Component_isImplicitSha256Digest (last (m_subBlocks n))"
    using assms(2) by (auto simp: is_digest_def component_of_def Component_isImplicitSha256Digest_def wf_value_size)
qed

section \<open>Full names\<close>

lemma be_value_ones: "be_value (replicate n (255 :: byte)) + 1 = 256 ^ n"
proof (induction n)
  case (Suc n)
  have "be_value (replicate n (255 :: byte) @ [255]) = be_value (replicate n (255 :: byte)) * 256 + 255" by simp
  then show ?case using Suc.IH by (simp flip: replicate_append_same del: be_value_snoc)
qed simp

lemma Cs_find_greatest_digest:
  assumes "name_block (i_name i)" and "name_of (i_name i) = N @ [c]" and "is_digest c" and "comp_value c = replicate 32 255"
  shows "Cs_find sha256 now i x =
     Inl (ComponentError ''Cannot construct name::Component from not a NameComponent or ImplicitSha256DigestComponent TLV wire block'')"
proof -
  have "\<not> be_value (comp_value (last (name_of (i_name i)))) + 1 < 256 ^ 32"
    using be_value_ones [of 32] assms(2,4) by (simp del: replicate.simps)
  from Name_getSuccessor_digest(2) [OF assms(1) digest_name_last [OF assms(2,3,1)] this]
  show ?thesis using assms(2) by (simp add: Cs_find_def Let_def)
qed

lemma lower_bound_beyond:
  "\<forall>e \<in> set t. compareQueryWithData q (fst e) > 0 \<Longrightarrow> query_lower_bound q (t @ r) = length t + query_lower_bound q r"
  by (induction t) (simp_all add: query_lower_bound_def)

lemma Cs_find_digest_runs_off:
  assumes "name_block (i_name i)" and "name_of (i_name i) = N @ [c]" and "is_digest c" and "be_value (comp_value c) + 1 < 256 ^ 32"
    and "plain_query N" and "sel_childSelector (i_selectors i) = 1"
    and "cs_table x = es @ [((N, c), e)]" and "es \<noteq> []" and "\<forall>f \<in> set es. fst (fst f) = N \<and> snd (fst f) < c"
    and "\<forall>f \<in> set (cs_table x). canSatisfy sha256 now i (snd f) = Inr False"
  shows "Cs_find sha256 now i x = Inl (UndefinedBehaviour ''iterator moved before the first entry'')"
proof -
  let ?t = "cs_table x" and ?p = "canSatisfy sha256 now i"
  obtain v where c: "c = Component tlv_ImplicitSha256DigestComponent v" "length v = 32"
    using assms(3) by (cases c) (simp add: is_digest_def SHA256_DIGEST_SIZE_def)
  define s where "s = Component tlv_ImplicitSha256DigestComponent (successor_value (comp_value c))"
  have "c < s" using component_less_successor by (simp add: s_def c(1))
  moreover have "is_digest s" using c assms(4) by (simp add: s_def is_digest_def successor_value_def SHA256_DIGEST_SIZE_def)
  ultimately have sd: "is_digest s" "c < s" by simp_all
  obtain n where n: "Name_getSuccessor (i_name i) = Inr n" "name_of n = N @ [s]"
    using Name_getSuccessor_digest(1) [OF assms(1) digest_name_last [OF assms(2,3,1)]] assms(2,4) unfolding s_def by auto
  have "\<forall>f \<in> set ?t. compareQueryWithData (N @ [s]) (fst f) > 0"
    using assms(7,9) sd by (auto simp: compareQueryWithData_def intro: less_trans)
  from lower_bound_beyond [OF this, of "[]"] have l: "query_lower_bound (N @ [s]) ?t = length ?t" by (simp add: query_lower_bound_def)
  have "\<forall>f \<in> set es. compareQueryWithData (N @ [c]) (fst f) > 0" using assms(3,9) by (auto simp: compareQueryWithData_def)
  from lower_bound_beyond [OF this, of "[((N, c), e)]"] have f: "query_lower_bound (N @ [c]) ?t = length es"
    using assms(3,7) by (simp add: query_lower_bound_def compareQueryWithData_def)
  have z: "query_lower_bound N ?t = 0" using assms(5,7,8,9) by (cases es) (simp_all add: query_bound)
  have none: "find_entry ?p fs = Inr None" if "set fs \<subseteq> set ?t" for fs using that assms(10) by (induction fs) auto
  have "findRightmost_loop ?p (length N + 1) (length es) ?t (length ?t) = findRightmost_loop ?p (length N + 1) (length es) ?t 0"
    using z none [of "slice 0 (length ?t) ?t"] assms(7) by (subst findRightmost_step) (simp_all add: findLeftmost_def slice_def)
  also have "\<dots> = Inl (UndefinedBehaviour ''iterator moved before the first entry'')"
    using assms(8) by (subst findRightmost_loop.simps) simp
  finally show ?thesis using assms(2,6) n f l by (simp add: Cs_find_def Let_def)
qed

end
