(* ===== verification/ForwarderOk.thy ===== *)
theory ForwarderOk
  imports Forwarder PitOk CsBehaviour
begin

text \<open>
  The pipelines keep the tables of the forwarder, and between two of them every entry of the PIT has a
  timer, which will erase it.
\<close>

section \<open>The invariant\<close>

definition timed :: "pit_entry \<Rightarrow> bool" where
  "timed e \<longleftrightarrow> pe_unsatisfyTimer e \<noteq> None \<or> pe_stragglerTimer e \<noteq> None"

text \<open>The representative Interest of an entry carries no Link object.\<close>

definition linkless :: "interest_packet \<Rightarrow> bool" where
  "linkless p \<longleftrightarrow> \<not> Interest_hasLink (ip_interest p)"

text \<open>Faces know their numbers, and next hops are faces that exist.\<close>

definition faces_ok :: "forwarder \<Rightarrow> bool" where
  "faces_ok f \<longleftrightarrow> (\<forall>k fc. fw_faces f k = Some fc \<longrightarrow> fc_id fc = k \<and> k \<noteq> INVALID_FACEID)
     \<and> (\<forall>n e. fib_at (fw_fib f) n = Some e \<longrightarrow> (\<forall>x \<in> set (fe_nextHops e). fw_faces f (nh_face x) \<noteq> None))"

text \<open>The entries in \<open>J\<close> are being processed.\<close>

definition fw_ok :: "hashes \<Rightarrow> nat set \<Rightarrow> forwarder \<Rightarrow> bool" where
  "fw_ok h J f \<longleftrightarrow> pit_ok (fw_pit f) \<and> fib_ok (fw_fib f) \<and> faces_ok f \<and> cs_ok (h_sha256 h) (fw_cs f)
     \<and> (\<exists>m. m \<le> EVICT_LIMIT \<and> dnl_ok m (fw_dnl f)) \<and> (\<forall>j e. fw_entry f j = Some e \<longrightarrow> linkless (pe_interest e) \<and> (j \<notin> J \<longrightarrow> timed e))"

lemma fw_okD:
  assumes "fw_ok h J f"
  shows "pit_ok (fw_pit f)" "fib_ok (fw_fib f)" "cs_ok (h_sha256 h) (fw_cs f)" "\<exists>m. m \<le> EVICT_LIMIT \<and> dnl_ok m (fw_dnl f)"
    "fw_entry f j = Some e \<Longrightarrow> j \<notin> J \<Longrightarrow> timed e" "fw_entry f j = Some e \<Longrightarrow> entry_ok e" "fw_entry f j = Some e \<Longrightarrow> linkless (pe_interest e)"
    "faces_ok f"
  using assms pit_okD(6) [of "fw_pit f" j e] unfolding fw_ok_def fw_entry_def by blast+

lemma faces_ok_same: "faces_ok f \<Longrightarrow> fw_faces g = fw_faces f \<Longrightarrow> same_fib (pit_nameTree (fw_pit f)) (pit_nameTree (fw_pit g)) \<Longrightarrow> faces_ok g"
  by (simp add: faces_ok_def fib_at_def fw_fib_def same_fib_def)

lemma fw_ok_pit:
  assumes "fw_ok h J f" and "pit_ok y" and "same_fib (pit_nameTree (fw_pit f)) (pit_nameTree y)"
    and "\<And>j e. pit_entries y j = Some e \<Longrightarrow> linkless (pe_interest e) \<and> (j \<notin> K \<longrightarrow> timed e)"
  shows "fw_ok h K (f\<lparr>fw_pit := y\<rparr>)"
proof -
  have "fib_ok (fw_fib (f\<lparr>fw_pit := y\<rparr>))"
    using same_fib_ok [OF _ assms(3)] fw_okD(2) [OF assms(1)] pit_okD(1,2) [OF assms(2)] by (simp add: fw_fib_def)
  moreover have "faces_ok (f\<lparr>fw_pit := y\<rparr>)" using faces_ok_same [OF fw_okD(8) [OF assms(1)], of "f\<lparr>fw_pit := y\<rparr>"] assms(3) by simp
  ultimately show ?thesis using assms(2,4) fw_okD(3,4) [OF assms(1)] by (simp add: fw_ok_def fw_entry_def)
qed

lemma fw_ok_mono: "fw_ok h J f \<Longrightarrow> J \<subseteq> K \<Longrightarrow> fw_ok h K f"
  unfolding fw_ok_def by blast

text \<open>The same entries for the same Interests, and the same faces.\<close>

definition same_entries :: "forwarder \<Rightarrow> forwarder \<Rightarrow> bool" where
  "same_entries f g \<longleftrightarrow> (\<forall>j. map_option pe_interest (fw_entry g j) = map_option pe_interest (fw_entry f j)) \<and> fw_faces g = fw_faces f
     \<and> fw_cs g = fw_cs f \<and> fw_unsolicited g = fw_unsolicited f"

lemma same_entries_refl [simp]: "same_entries f f"
  by (simp add: same_entries_def)

lemma same_entries_trans: "same_entries f g \<Longrightarrow> same_entries g k \<Longrightarrow> same_entries f k"
  by (simp add: same_entries_def)

lemma same_entries_Some:
  assumes "same_entries f g" and "fw_entry f j = Some e"
  shows "\<exists>e'. fw_entry g j = Some e' \<and> pe_interest e' = pe_interest e"
proof -
  have "map_option pe_interest (fw_entry g j) = map_option pe_interest (fw_entry f j)" using assms(1) by (simp add: same_entries_def)
  then show ?thesis using assms(2) by auto
qed

text \<open>A pipeline that succeeds and keeps the invariant.\<close>

definition keeps :: "hashes \<Rightarrow> nat set \<Rightarrow> forwarder \<Rightarrow> fw_result \<Rightarrow> bool" where
  "keeps h J f r \<longleftrightarrow> (\<exists>g. r = (None, g) \<and> fw_ok h J g \<and> same_entries f g)"

lemma keepsI: "fw_ok h J g \<Longrightarrow> same_entries f g \<Longrightarrow> keeps h J f (None, g)"
  by (simp add: keeps_def)

lemma keeps_seq: "keeps h J f r \<Longrightarrow> (\<And>g. fw_ok h J g \<Longrightarrow> same_entries f g \<Longrightarrow> keeps h K g (k g)) \<Longrightarrow> keeps h K f (fw_seq r k)"
  unfolding keeps_def fw_seq_def using same_entries_trans by fastforce

lemma fw_send_ok [simp]: "fw_ok h J (fw_send s f) \<longleftrightarrow> fw_ok h J f" "same_entries f (fw_send s g) \<longleftrightarrow> same_entries f g"
  "fw_entry (fw_send s f) = fw_entry f" "fw_faces (fw_send s f) = fw_faces f"
  by (simp_all add: fw_ok_def faces_ok_def fw_send_def fw_fib_def fw_entry_def same_entries_def fun_eq_iff)

lemma change_entry_ok:
  assumes "fw_ok h J f" and "J \<subseteq> insert j K"
    and "\<And>e. fw_entry f j = Some e \<Longrightarrow> entry_ok (g e) \<and> pe_interest (g e) = pe_interest e \<and> pe_nameTreeEntry (g e) = pe_nameTreeEntry e \<and> (j \<notin> K \<longrightarrow> timed (g e))"
  shows "fw_ok h K (change_entry_of j g f)" "same_entries f (change_entry_of j g f)"
    "fw_entry (change_entry_of j g f) = (fw_entry f)(j := map_option g (fw_entry f j))"
proof -
  show ent: "fw_entry (change_entry_of j g f) = (fw_entry f)(j := map_option g (fw_entry f j))"
    by (simp add: fw_entry_def change_entry_of_def change_pit_entry_def fun_eq_iff)
  have "pit_ok (change_pit_entry j g (fw_pit f))" by (rule change_pit_entry_ok [OF fw_okD(1) [OF assms(1)]]) (use assms(3) in \<open>simp add: fw_entry_def\<close>)
  moreover have "fw_fib (change_entry_of j g f) = fw_fib f" by (simp add: fw_fib_def change_entry_of_def change_pit_entry_def)
  moreover have "faces_ok (change_entry_of j g f)"
    by (rule faces_ok_same [OF fw_okD(8) [OF assms(1)]]) (simp_all add: change_entry_of_def change_pit_entry_def same_fib_def)
  moreover have "linkless (pe_interest e) \<and> (i \<notin> K \<longrightarrow> timed e)" if "fw_entry (change_entry_of j g f) i = Some e" for i e
    using that assms fw_okD(5,7) [OF assms(1), of i] unfolding ent by (auto split: if_splits)
  moreover have "fw_pit (change_entry_of j g f) = change_pit_entry j g (fw_pit f)" "fw_cs (change_entry_of j g f) = fw_cs f"
    "fw_dnl (change_entry_of j g f) = fw_dnl f" by (simp_all add: change_entry_of_def)
  ultimately show "fw_ok h K (change_entry_of j g f)" using assms(1) unfolding fw_ok_def by metis
  have "map_option pe_interest (map_option g (fw_entry f j)) = map_option pe_interest (fw_entry f j)" using assms(3) by (cases "fw_entry f j") auto
  then show "same_entries f (change_entry_of j g f)" unfolding same_entries_def ent by (simp add: change_entry_of_def)
qed

lemma with_entry_Some: "fw_entry f j = Some e \<Longrightarrow> with_entry j f k = k e"
  by (simp add: with_entry_def)

section \<open>Outgoing packets\<close>

definition packet_for :: "pit_entry \<Rightarrow> interest_packet \<Rightarrow> bool" where
  "packet_for e p \<longleftrightarrow> packet_ok p \<and> packet_key p = packet_key (pe_interest e)"

lemma onOutgoingInterest_keeps:
  assumes "fw_ok h J f" and "fw_entry f j = Some e" and "packet_for e p"
  shows "keeps h J f (onOutgoingInterest now j outFace p f)"
proof -
  have e: "entry_ok e" by (rule fw_okD(6) [OF assms(1,2)])
  obtain e' where e': "insertOrUpdateOutRecord now outFace p e = Inr e'" "entry_ok e'" "e' = e\<lparr>pe_outRecords := pe_outRecords e'\<rparr>"
    using insertOrUpdateOutRecord_ok [OF e] assms(3) unfolding packet_for_def by blast
  then have fields: "pe_interest e' = pe_interest e" "pe_nameTreeEntry e' = pe_nameTreeEntry e" "timed e' \<longleftrightarrow> timed e"
    by (metis pit_entry.simps pit_entry.surjective timed_def pit_entry.update_convs)+
  have "j \<notin> J \<longrightarrow> timed e'" using fw_okD(5) [OF assms(1,2)] fields(3) by simp
  then have "fw_ok h J (change_entry_of j (\<lambda>_. e') f)" "same_entries f (change_entry_of j (\<lambda>_. e') f)"
    using change_entry_ok(1,2) [OF assms(1), of j J "\<lambda>_. e'"] assms(2) e'(2) fields(1,2) by auto
  then show ?thesis using assms(2) e'(1) by (simp add: onOutgoingInterest_def with_entry_Some fw_try_def keepsI)
qed

lemma onOutgoingNack_keeps:
  assumes "fw_ok h J f" and "fw_entry f j = Some e"
  shows "keeps h J f (onOutgoingNack j outFace reason f)"
proof -
  have "entry_ok (deleteInRecord outFace e)" "timed (deleteInRecord outFace e) \<longleftrightarrow> timed e"
    using delete_records_ok(1) [OF fw_okD(6) [OF assms]] by (simp_all add: timed_def deleteInRecord_def)
  then have "fw_ok h J (change_entry_of j (deleteInRecord outFace) f)" "same_entries f (change_entry_of j (deleteInRecord outFace) f)"
    using change_entry_ok(1,2) [OF assms(1), of j J "deleteInRecord outFace"] assms(2) fw_okD(5) [OF assms]
    by (auto simp: deleteInRecord_def)
  then show ?thesis using assms by (auto simp: onOutgoingNack_def with_entry_Some keepsI split: option.split)
qed

lemma straggler_ok:
  assumes "fw_ok h J f" and "J \<subseteq> insert j K"
  shows "fw_ok h K (setStragglerTimer now j s p f)" "same_entries f (setStragglerTimer now j s p f)"
proof -
  have "entry_ok e \<Longrightarrow> entry_ok (e\<lparr>pe_stragglerTimer := t\<rparr>)" for e t by (simp add: entry_ok_def)
  then show "fw_ok h K (setStragglerTimer now j s p f)" "same_entries f (setStragglerTimer now j s p f)"
    using change_entry_ok(1,2) [OF assms, of "\<lambda>e. e\<lparr>pe_stragglerTimer := Some (chrono64 (now + stragglerTime), s, p)\<rparr>"] fw_okD(6) [OF assms(1)]
    unfolding setStragglerTimer_def by (auto simp: timed_def)
qed

lemma cancel_ok:
  assumes "fw_ok h J f"
  shows "fw_ok h (insert j J) (cancelUnsatisfyAndStragglerTimer j f)" "same_entries f (cancelUnsatisfyAndStragglerTimer j f)"
    "fw_entry (cancelUnsatisfyAndStragglerTimer j f) = (fw_entry f)(j := map_option (\<lambda>e. e\<lparr>pe_unsatisfyTimer := None, pe_stragglerTimer := None\<rparr>) (fw_entry f j))"
proof -
  have "entry_ok e \<Longrightarrow> entry_ok (e\<lparr>pe_unsatisfyTimer := None, pe_stragglerTimer := None\<rparr>)" for e by (simp add: entry_ok_def)
  then show "fw_ok h (insert j J) (cancelUnsatisfyAndStragglerTimer j f)" "same_entries f (cancelUnsatisfyAndStragglerTimer j f)"
    "fw_entry (cancelUnsatisfyAndStragglerTimer j f) = (fw_entry f)(j := map_option (\<lambda>e. e\<lparr>pe_unsatisfyTimer := None, pe_stragglerTimer := None\<rparr>) (fw_entry f j))"
    using change_entry_ok [OF assms, of j "insert j J" "\<lambda>e. e\<lparr>pe_unsatisfyTimer := None, pe_stragglerTimer := None\<rparr>"] fw_okD(6) [OF assms]
    unfolding cancelUnsatisfyAndStragglerTimer_def by auto
qed

lemma onInterestReject_keeps:
  assumes "fw_ok h J f" and "fw_entry f j = Some e"
  shows "keeps h J f (onInterestReject now j f)"
proof -
  let ?f1 = "cancelUnsatisfyAndStragglerTimer j f"
  note f1 = cancel_ok(1,2) [OF assms(1), of j]
  have "fw_ok h J (setStragglerTimer now j False (- 1) ?f1)" "same_entries ?f1 (setStragglerTimer now j False (- 1) ?f1)"
    using straggler_ok [OF f1(1), of j J] by blast+
  then show ?thesis using assms f1(2) same_entries_trans by (auto simp: onInterestReject_def with_entry_Some intro!: keepsI)
qed

lemma onOutgoingData_ok [simp]: "fw_ok h J (onOutgoingData d fc f) \<longleftrightarrow> fw_ok h J f" "same_entries g (onOutgoingData d fc f) \<longleftrightarrow> same_entries g f"
  by (simp_all add: onOutgoingData_def)

section \<open>Strategies\<close>

text \<open>Everything but one entry, the Dead Nonce List, and the Interests and Nacks that are sent stays the same.\<close>

definition data_sent :: "forwarder \<Rightarrow> sent list" where
  "data_sent f = filter (\<lambda>s. case s of SentData fc d \<Rightarrow> True | _ \<Rightarrow> False) (fw_sent f)"

definition aside :: "nat \<Rightarrow> forwarder \<Rightarrow> forwarder \<Rightarrow> bool" where
  "aside j f g \<longleftrightarrow> (\<forall>i. i \<noteq> j \<longrightarrow> fw_entry g i = fw_entry f i) \<and> data_sent g = data_sent f \<and> fw_faces g = fw_faces f"

text \<open>What the trigger functions of a strategy may rely on.\<close>

definition trigger_ok :: "pit_entry \<Rightarrow> strategy_trigger \<Rightarrow> bool" where
  "trigger_ok e t \<longleftrightarrow> (case t of AfterReceiveInterest fc p \<Rightarrow> packet_for e p | AfterReceiveNack fc p r \<Rightarrow> packet_for e p | _ \<Rightarrow> True)"

text \<open>
  The contract between the pipelines and the strategies: a strategy succeeds on every trigger, keeps the
  tables, and touches only the entry that the trigger is about.
\<close>

locale forwarding_strategy =
  fixes strat :: strategy
  assumes strategy_keeps: "fw_ok h J f \<Longrightarrow> fw_entry f j = Some e \<Longrightarrow> trigger_ok e t \<Longrightarrow> keeps h J f (strat now j t f)"
    and strategy_aside: "aside j f (snd (strat now j t f))"

lemma packet_for_same: "pe_interest e' = pe_interest e \<Longrightarrow> packet_for e' p \<longleftrightarrow> packet_for e p"
  by (simp add: packet_for_def)

lemma dispatch_keeps:
  assumes "forwarding_strategy strat" and "fw_ok h J f" and "fw_entry f j = Some e" and "trigger_ok e t"
  shows "keeps h J f (dispatchToStrategy strat now j t f)"
  unfolding dispatchToStrategy_def by (rule forwarding_strategy.strategy_keeps [OF assms])

section \<open>The Dead Nonce List\<close>

lemma fw_ok_dnl: "fw_ok h J f \<Longrightarrow> m \<le> EVICT_LIMIT \<Longrightarrow> dnl_ok m l \<Longrightarrow> fw_ok h J (f\<lparr>fw_dnl := l\<rparr>) \<and> same_entries f (f\<lparr>fw_dnl := l\<rparr>)"
  by (auto simp: fw_ok_def faces_ok_def fw_fib_def fw_entry_def same_entries_def)

lemma DNL_add_works:
  assumes "\<exists>w. Name_wireEncode n = Inr w" and "dnl_ok m l"
  shows "\<exists>l'. DNL_add hash n nonce l = Inr l' \<and> dnl_ok m l' \<and> dnl_lifetime l' = dnl_lifetime l"
proof -
  obtain w where "Name_wireEncode n = Inr w" using assms(1) by blast
  then show ?thesis using DNL_add_entry_ok [OF assms(2), of "hash (wire_bytes w) nonce"] by (auto simp: DNL_add_def makeEntry_def)
qed

lemma insert_nonces_keeps:
  assumes "\<exists>w. Name_wireEncode (i_name (ip_interest p)) = Inr w"
  shows "fw_ok h J f \<Longrightarrow> keeps h J f (insert_nonces h p rs f)"
proof (induction rs arbitrary: f)
  case Nil
  then show ?case by (simp add: keepsI)
next
  case (Cons r rs)
  obtain m where m: "m \<le> EVICT_LIMIT" "dnl_ok m (fw_dnl f)" using fw_okD(4) [OF Cons.prems] by blast
  obtain l where l: "DNL_add (h_nonce h) (i_name (ip_interest p)) (out_lastNonce r) (fw_dnl f) = Inr l" "dnl_ok m l"
    using DNL_add_works [OF assms m(2)] by blast
  have f1: "fw_ok h J (f\<lparr>fw_dnl := l\<rparr>)" "same_entries f (f\<lparr>fw_dnl := l\<rparr>)" using fw_ok_dnl [OF Cons.prems m(1) l(2)] by blast+
  have "keeps h J (f\<lparr>fw_dnl := l\<rparr>) (insert_nonces h p rs (f\<lparr>fw_dnl := l\<rparr>))" by (rule Cons.IH [OF f1(1)])
  then have "keeps h J f (insert_nonces h p rs (f\<lparr>fw_dnl := l\<rparr>))" using same_entries_trans [OF f1(2)] unfolding keeps_def by blast
  then show ?case using l(1) by (simp add: fw_try_def)
qed

lemma insertDeadNonceList_keeps:
  assumes "fw_ok h J f" and "fw_entry f j = Some e"
  shows "keeps h J f (insertDeadNonceList h j s p u f)"
proof -
  have "\<exists>w. Name_wireEncode (i_name (ip_interest (pe_interest e))) = Inr w"
    using fw_okD(6) [OF assms] by (simp add: entry_ok_def packet_ok_def)
  from insert_nonces_keeps [OF this assms(1)] show ?thesis
    using assms by (auto simp: insertDeadNonceList_def with_entry_Some Let_def keepsI)
qed

section \<open>Incoming Interests\<close>

definition succeeds :: "hashes \<Rightarrow> fw_result \<Rightarrow> bool" where
  "succeeds h r \<longleftrightarrow> (\<exists>g. r = (None, g) \<and> fw_ok h {} g)"

lemma keeps_succeeds: "keeps h {} f r \<Longrightarrow> succeeds h r"
  by (auto simp: keeps_def succeeds_def)

lemma onContentStoreMiss_keeps:
  assumes "forwarding_strategy strat" and "fw_ok h {j} f" and "fw_entry f j = Some e" and "packet_for e p"
  shows "keeps h {} f (onContentStoreMiss strat now inFace j p f)"
proof -
  have e: "entry_ok e" by (rule fw_okD(6) [OF assms(2,3)])
  obtain e' where e': "insertOrUpdateInRecord now (fc_id inFace) p e = Inr e'" "entry_ok e'" "e' = e\<lparr>pe_inRecords := pe_inRecords e'\<rparr>"
    "set (map in_face (pe_inRecords e')) = insert (fc_id inFace) (set (map in_face (pe_inRecords e)))"
    using insertOrUpdateInRecord_ok [OF e assms(4) [unfolded packet_for_def, THEN conjunct1] assms(4) [unfolded packet_for_def, THEN conjunct2], of now "fc_id inFace"]
    by (elim exE conjE) (rule that)
  have fields: "pe_interest e' = pe_interest e" "pe_nameTreeEntry e' = pe_nameTreeEntry e"
    using arg_cong [OF e'(3), of pe_interest] arg_cong [OF e'(3), of pe_nameTreeEntry] by simp_all
  have ne: "pe_inRecords e' \<noteq> []" using e'(4) by auto
  define f1 where "f1 = change_entry_of j (\<lambda>_. e') f"
  have f1: "fw_ok h {j} f1" "same_entries f f1" "fw_entry f1 j = Some e'"
    using change_entry_ok [OF assms(2), of j "{j}" "\<lambda>_. e'"] assms(3) e'(2) fields by (simp_all add: f1_def)
  let ?g = "\<lambda>e. e\<lparr>pe_unsatisfyTimer := Some (Max (set (map in_expiry (pe_inRecords e'))))\<rparr>"
  define f2 where "f2 = change_entry_of j ?g f1"
  have "entry_ok (?g e')" using e'(2) by (simp add: entry_ok_def)
  then have f2: "fw_ok h {} f2" "same_entries f1 f2" "fw_entry f2 j = Some (?g e')"
    using change_entry_ok [OF f1(1), of j "{}" ?g] f1(3) by (simp_all add: f2_def timed_def)
  have timer: "setUnsatisfyTimer j f1 = (None, f2)"
    using ne by (simp add: setUnsatisfyTimer_def with_entry_Some [OF f1(3)] f2_def)
  have "onContentStoreMiss strat now inFace j p f = fw_seq (setUnsatisfyTimer j f1) (\<lambda>f. case ip_nextHopFaceId p of
      Some k \<Rightarrow> (case fw_faces f k of None \<Rightarrow> (None, f) | Some fc \<Rightarrow> onOutgoingInterest now j k p f)
    | None \<Rightarrow> dispatchToStrategy strat now j (AfterReceiveInterest inFace p) f)"
    unfolding onContentStoreMiss_def with_entry_Some [OF assms(3)] e'(1) fw_try_def f1_def by (simp only: sum.case)
  then have run: "onContentStoreMiss strat now inFace j p f = (case ip_nextHopFaceId p of
      Some k \<Rightarrow> (case fw_faces f2 k of None \<Rightarrow> (None, f2) | Some fc \<Rightarrow> onOutgoingInterest now j k p f2)
    | None \<Rightarrow> dispatchToStrategy strat now j (AfterReceiveInterest inFace p) f2)"
    unfolding timer fw_seq_def by (simp only: prod.case option.case)
  have pf: "packet_for (?g e') p" using assms(4) fields(1) by (simp add: packet_for_def)
  have "keeps h {} f2 (onContentStoreMiss strat now inFace j p f)"
  proof (cases "ip_nextHopFaceId p")
    case None
    have "trigger_ok (?g e') (AfterReceiveInterest inFace p)" using pf by (simp add: trigger_ok_def)
    then show ?thesis unfolding run None option.case by (rule dispatch_keeps [OF assms(1) f2(1,3)])
  next
    case (Some k)
    show ?thesis unfolding run Some option.case using onOutgoingInterest_keeps [OF f2(1,3) pf, of now k] keepsI [OF f2(1) same_entries_refl]
      by (cases "fw_faces f2 k") simp_all
  qed
  then show ?thesis using same_entries_trans [OF same_entries_trans [OF f1(2) f2(2)]] unfolding keeps_def by blast
qed

text \<open>The entry that \<^verbatim>\<open>insert\<close> finds or makes, before anything else happens to it.\<close>

lemma inserted:
  assumes "fw_ok h {} f" and "packet_ok p" and "linkless p"
  shows "\<exists>y j new e. Pit_insert p (fw_pit f) = Inr (y, Some j, new) \<and> fw_ok h {j} (f\<lparr>fw_pit := y\<rparr>) \<and> fw_entry (f\<lparr>fw_pit := y\<rparr>) j = Some e
     \<and> packet_for e p \<and> new = (pit_lookup (fw_pit f) p = None) \<and> (\<not> new \<longrightarrow> fw_ok h {} (f\<lparr>fw_pit := y\<rparr>) \<and> fw_entry f j = Some e)
     \<and> (new \<longrightarrow> e = (PitEntry_new p)\<lparr>pe_nameTreeEntry := Some (nte_name (ip_name p))\<rparr>)
     \<and> (\<forall>i. i \<noteq> j \<longrightarrow> fw_entry (f\<lparr>fw_pit := y\<rparr>) i = fw_entry f i)"
proof -
  let ?x = "fw_pit f"
  have x: "pit_ok ?x" "fib_ok (fw_fib f)" by (rule fw_okD [OF assms(1)])+
  have t: "linkless (pe_interest e) \<and> timed e" if "pit_entries ?x i = Some e" for i e using fw_okD(5,7) [OF assms(1), of i e] that by (simp add: fw_entry_def)
  show ?thesis
  proof (cases "pit_lookup ?x p")
    case None
    then obtain y where y: "Pit_insert p ?x = Inr (y, Some (pit_next ?x), True)" "pit_ok y" "same_fib (pit_nameTree ?x) (pit_nameTree y)"
      "pit_entries y = (pit_entries ?x)(pit_next ?x \<mapsto> (PitEntry_new p)\<lparr>pe_nameTreeEntry := Some (nte_name (ip_name p))\<rparr>)"
      using Pit_insert_ok [OF x(1) assms(2)] by auto
    have "fw_ok h {pit_next ?x} (f\<lparr>fw_pit := y\<rparr>)" by (rule fw_ok_pit [OF assms(1) y(2,3)]) (use t assms(3) in \<open>auto simp: y(4) PitEntry_new_def split: if_splits\<close>)
    then show ?thesis using y(1,4) None assms(2)
      by (intro exI [of _ y] exI [of _ "pit_next ?x"] exI [of _ True] exI [of _ "(PitEntry_new p)\<lparr>pe_nameTreeEntry := Some (nte_name (ip_name p))\<rparr>"])
        (simp add: fw_entry_def packet_for_def PitEntry_new_def)
  next
    case (Some j)
    then obtain y where y: "Pit_insert p ?x = Inr (y, Some j, False)" "pit_ok y" "same_fib (pit_nameTree ?x) (pit_nameTree y)" "pit_entries y = pit_entries ?x"
      using Pit_insert_ok [OF x(1) assms(2)] by auto
    obtain e where e: "pit_entries ?x j = Some e" "packet_key (pe_interest e) = packet_key p" using Some pit_lookup_Some [OF x(1)] by blast
    have "fw_ok h {} (f\<lparr>fw_pit := y\<rparr>)" by (rule fw_ok_pit [OF assms(1) y(2,3)]) (use t in \<open>auto simp: y(4)\<close>)
    then show ?thesis using y(1,4) Some assms(2) e fw_ok_mono [of h "{}" "f\<lparr>fw_pit := y\<rparr>" "{j}"]
      by (intro exI [of _ y] exI [of _ j] exI [of _ False] exI [of _ e]) (simp add: fw_entry_def packet_for_def)
  qed
qed

end
