(* ===== verification/ForwarderRun.thy ===== *)
theory ForwarderRun
  imports ForwarderOk
begin

text \<open>
  Every pipeline, run on a forwarder between two pipelines, succeeds and keeps the invariant; what the
  Data pipeline sends.
\<close>

section \<open>Incoming Interests\<close>

lemma fw_ok_cs: "fw_ok h J f \<Longrightarrow> cs_ok (h_sha256 h) x \<Longrightarrow> fw_ok h J (f\<lparr>fw_cs := x\<rparr>)"
  by (auto simp: fw_ok_def faces_ok_def fw_fib_def fw_entry_def)

lemma fw_entry_cs [simp]: "fw_entry (f\<lparr>fw_cs := x\<rparr>) = fw_entry f"
  by (simp add: fw_entry_def fun_eq_iff)

text \<open>The lookup in the Content Store returns.\<close>

definition cs_answers :: "hashes \<Rightarrow> int \<Rightarrow> interest_packet \<Rightarrow> forwarder \<Rightarrow> bool" where
  "cs_answers h now p f \<longleftrightarrow> (\<exists>r. Cs_find (h_sha256 h) now (ip_interest p) (fw_cs f) = Inr r)"

lemma DNL_has_works: "\<exists>w. Name_wireEncode n = Inr w \<Longrightarrow> \<exists>b. DNL_has hash n nonce l = Inr b"
  by (auto simp: DNL_has_def makeEntry_def)

lemma onInterestLoop_ok [simp]: "fw_ok h J (onInterestLoop fc p f) \<longleftrightarrow> fw_ok h J f" "same_entries g (onInterestLoop fc p f) \<longleftrightarrow> same_entries g f"
  by (simp_all add: onInterestLoop_def)

lemma new_entry_no_duplicates: "findDuplicateNonce ((PitEntry_new p)\<lparr>pe_nameTreeEntry := n\<rparr>) nonce k = 0"
  by (simp add: findDuplicateNonce_def PitEntry_new_def)

lemma cancelled_tables [simp]: "fw_cs (cancelUnsatisfyAndStragglerTimer j f) = fw_cs f" "fw_faces (cancelUnsatisfyAndStragglerTimer j f) = fw_faces f"
  by (simp_all add: cancelUnsatisfyAndStragglerTimer_def change_entry_of_def)

text \<open>What the pipeline does once the entry has been found or made and its timers are cancelled.\<close>

lemma Interest_served:
  assumes "forwarding_strategy strat" and "fw_ok h {j} f" and "fw_entry f j = Some e" and "packet_for e p"
    and "Cs_find (h_sha256 h) now (ip_interest p) (fw_cs f) = Inr (r, x)"
  shows "succeeds h (case r of Hit d \<Rightarrow> (None, onContentStoreHit now inFace j d (f\<lparr>fw_cs := x\<rparr>))
     | Miss \<Rightarrow> onContentStoreMiss strat now inFace j p (f\<lparr>fw_cs := x\<rparr>))"
proof -
  have f1: "fw_ok h {j} (f\<lparr>fw_cs := x\<rparr>)" using fw_ok_cs [OF assms(2)] Cs_find_keeps [OF fw_okD(3) [OF assms(2)] assms(5)] by blast
  have "fw_entry (f\<lparr>fw_cs := x\<rparr>) j = Some e" using assms(3) by simp
  from onContentStoreMiss_keeps [OF assms(1) f1 this assms(4), of now inFace] straggler_ok(1) [OF f1, of j "{}"]
  show ?thesis by (cases r) (auto simp: onContentStoreHit_def succeeds_def keeps_def)
qed

lemma onIncomingInterest_ok:
  assumes "forwarding_strategy strat" and "fw_ok h {} f" and "packet_ok p" and "linkless p" and "cs_answers h now p f"
  shows "succeeds h (onIncomingInterest h strat now inFace p f)"
proof (cases "violates_localhost inFace (ip_name p)")
  case True
  then show ?thesis using assms(2) by (simp add: onIncomingInterest_def succeeds_def)
next
  case in_scope: False
  obtain dup where dup: "DNL_has (h_nonce h) (i_name (ip_interest p)) (ip_nonce p) (fw_dnl f) = Inr dup"
    using DNL_has_works assms(3) unfolding packet_ok_def by blast
  show ?thesis
  proof (cases dup)
    case True
    then show ?thesis using assms(2) in_scope dup by (simp add: onIncomingInterest_def fw_try_def succeeds_def)
  next
    case False
    obtain y j new e where y: "Pit_insert p (fw_pit f) = Inr (y, Some j, new)" "fw_ok h {j} (f\<lparr>fw_pit := y\<rparr>)" "fw_entry (f\<lparr>fw_pit := y\<rparr>) j = Some e"
      "packet_for e p" "\<not> new \<longrightarrow> fw_ok h {} (f\<lparr>fw_pit := y\<rparr>) \<and> fw_entry f j = Some e"
      "new \<longrightarrow> e = (PitEntry_new p)\<lparr>pe_nameTreeEntry := Some (nte_name (ip_name p))\<rparr>"
      using inserted [OF assms(2-4)] by (elim exE conjE) (rule that)
    define f1 where "f1 = f\<lparr>fw_pit := y\<rparr>"
    define f2 where "f2 = cancelUnsatisfyAndStragglerTimer j f1"
    have run: "onIncomingInterest h strat now inFace p f =
      (if findDuplicateNonce e (ip_nonce p) (fc_id inFace) \<noteq> 0 then (None, onInterestLoop inFace p f1)
       else if \<not> hasInRecords e
         then fw_try (Cs_find (h_sha256 h) now (ip_interest p) (fw_cs f2)) f2 (\<lambda>(result, cs).
           case result of Hit d \<Rightarrow> (None, onContentStoreHit now inFace j d (f2\<lparr>fw_cs := cs\<rparr>))
           | Miss \<Rightarrow> onContentStoreMiss strat now inFace j p (f2\<lparr>fw_cs := cs\<rparr>))
         else onContentStoreMiss strat now inFace j p f2)"
      using in_scope dup False y(1) with_entry_Some [OF y(3)]
      by (simp add: onIncomingInterest_def fw_try_def Let_def flip: f1_def f2_def) (unfold option.sel, simp)
    let ?e2 = "e\<lparr>pe_unsatisfyTimer := None, pe_stragglerTimer := None\<rparr>"
    have f2: "fw_ok h {j} f2" "fw_entry f2 j = Some ?e2" "packet_for ?e2 p" "fw_cs f2 = fw_cs f"
      using cancel_ok(1,3) [OF y(2), of j] y(3,4) by (simp_all add: f1_def f2_def packet_for_def)
    show ?thesis
    proof (cases "findDuplicateNonce e (ip_nonce p) (fc_id inFace) = 0")
      case False
      then have "fw_ok h {} f1" using y(5,6) new_entry_no_duplicates f1_def by auto
      then show ?thesis unfolding run using False by (simp add: succeeds_def)
    next
      case True
      obtain r x where find: "Cs_find (h_sha256 h) now (ip_interest p) (fw_cs f2) = Inr (r, x)" using assms(5) f2(4) by (auto simp: cs_answers_def)
      show ?thesis unfolding run
        using True Interest_served [OF assms(1) f2(1-3) find, of inFace] keeps_succeeds [OF onContentStoreMiss_keeps [OF assms(1) f2(1-3), of now inFace]]
        by (simp add: find fw_try_def)
    qed
  qed
qed

lemma startProcessInterest_ok:
  assumes "forwarding_strategy strat" and "fw_ok h {} f" and "packet_ok p" and "linkless p" and "cs_answers h now p f"
  shows "succeeds h (startProcessInterest h strat now inFace p f)"
  using onIncomingInterest_ok [OF assms] assms(4) by (simp add: startProcessInterest_def link_well_formed_def linkless_def)

section \<open>What a pipeline leaves alone\<close>

lemma aside_refl [simp]: "aside j f f"
  by (simp add: aside_def)

lemma aside_trans: "aside j f g \<Longrightarrow> aside j g k \<Longrightarrow> aside j f k"
  by (simp add: aside_def)

lemma aside_change [simp]: "aside j f (change_entry_of j u f)"
  by (simp add: aside_def change_entry_of_def change_pit_entry_def fw_entry_def data_sent_def)

lemma aside_send: "aside j f g \<Longrightarrow> (case s of SentData fc d \<Rightarrow> False | _ \<Rightarrow> True) \<Longrightarrow> aside j f (fw_send s g)"
  by (cases s) (simp_all add: aside_def data_sent_def fw_send_def fw_entry_def)

lemma aside_dnl [simp]: "aside j f (f\<lparr>fw_dnl := l\<rparr>)"
  by (simp add: aside_def data_sent_def fw_entry_def)

lemma aside_seq: "aside j f (snd r) \<Longrightarrow> (\<And>g. aside j g (snd (k g))) \<Longrightarrow> aside j f (snd (fw_seq r k))"
  using aside_trans by (force simp: fw_seq_def split: prod.split option.split)

lemma aside_timers [simp]: "aside j f (cancelUnsatisfyAndStragglerTimer j f)" "aside j f (setStragglerTimer now j s p f)"
  by (simp_all add: cancelUnsatisfyAndStragglerTimer_def setStragglerTimer_def)

lemma aside_pipelines:
  "aside j f (snd (onOutgoingInterest now j k p f))" "aside j f (snd (onInterestReject now j f))" "aside j f (snd (onOutgoingNack j k r f))"
proof -
  show "aside j f (snd (onInterestReject now j f))"
    using aside_trans [OF aside_timers(1) aside_timers(2)] by (auto simp: onInterestReject_def with_entry_def split: option.split)
  show "aside j f (snd (onOutgoingInterest now j k p f))" "aside j f (snd (onOutgoingNack j k r f))"
    by (auto simp: onOutgoingInterest_def onOutgoingNack_def with_entry_def fw_try_def intro!: aside_send split: option.split sum.split)
qed

lemma aside_strategy: "forwarding_strategy strat \<Longrightarrow> aside j f (snd (dispatchToStrategy strat now j t f))"
  unfolding dispatchToStrategy_def by (rule forwarding_strategy.strategy_aside)

lemma aside_nonces: "aside j f (snd (insert_nonces h p rs f))"
  by (induction rs arbitrary: f) (auto simp: fw_try_def split: sum.split intro: aside_trans [OF aside_dnl])

lemma aside_insertDeadNonceList: "aside j f (snd (insertDeadNonceList h j s p u f))"
  by (auto simp: insertDeadNonceList_def with_entry_def Let_def aside_nonces split: option.split)

lemma aside_satisfy:
  assumes "forwarding_strategy strat"
  shows "aside j f (snd (satisfy_entry h strat now inFace d j f))"
proof -
  have last: "aside j g (snd (None, setStragglerTimer now j s p (change_entry_of j u g)))" for g s p u
    using aside_trans [OF aside_change aside_timers(2)] by simp
  show ?thesis unfolding satisfy_entry_def
    by (intro aside_seq aside_strategy [OF assms] aside_insertDeadNonceList) (rule last)
qed

section \<open>Incoming Data\<close>

lemma satisfy_entry_ok:
  assumes "forwarding_strategy strat" and "fw_ok h {j} f" and "fw_entry f j = Some e"
  shows "keeps h {} f (satisfy_entry h strat now inFace d j f)"
proof -
  have ok: "entry_ok (deleteOutRecord k (clearInRecords e))" if "entry_ok e" for k e
  proof -
    have "entry_ok (clearInRecords e)" using that by (simp add: entry_ok_def clearInRecords_def)
    then show ?thesis by (rule delete_records_ok)
  qed
  have last: "keeps h {} g (None, setStragglerTimer now j True p (change_entry_of j (\<lambda>e. deleteOutRecord k (clearInRecords e)) g))"
    if g: "fw_ok h {j} g" for g p k
  proof -
    have "pe_interest (deleteOutRecord k (clearInRecords e)) = pe_interest e" "pe_nameTreeEntry (deleteOutRecord k (clearInRecords e)) = pe_nameTreeEntry e" for e
      by (simp_all add: deleteOutRecord_def clearInRecords_def)
    then have c: "fw_ok h {j} (change_entry_of j (\<lambda>e. deleteOutRecord k (clearInRecords e)) g)" "same_entries g (change_entry_of j (\<lambda>e. deleteOutRecord k (clearInRecords e)) g)"
      using change_entry_ok(1,2) [OF g, of j "{j}" "\<lambda>e. deleteOutRecord k (clearInRecords e)"] ok fw_okD(6) [OF g] by auto
    show ?thesis using straggler_ok [OF c(1), of j "{}"] same_entries_trans [OF c(2)] by (auto intro: keepsI)
  qed
  have "trigger_ok e (BeforeSatisfyInterest inFace d)" by (simp add: trigger_ok_def)
  note dispatch = dispatch_keeps [OF assms this, of now]
  show ?thesis unfolding satisfy_entry_def
  proof (rule keeps_seq [OF dispatch], rule keeps_seq)
    fix g assume "fw_ok h {j} g" "same_entries f g"
    moreover obtain e' where "fw_entry g j = Some e'" using same_entries_Some [OF \<open>same_entries f g\<close> assms(3)] by blast
    ultimately show "keeps h {j} g (insertDeadNonceList h j True (mi_freshnessPeriod (d_metaInfo d)) (Some (fc_id inFace)) g)"
      by (blast intro: insertDeadNonceList_keeps)
  qed (rule last)
qed

text \<open>The downstreams of a satisfied entry are forgotten.\<close>

definition cleared :: "pit_entry option \<Rightarrow> bool" where
  "cleared e \<longleftrightarrow> map_option pe_inRecords e \<in> {None, Some []}"

lemma satisfy_entry_clears:
  assumes "satisfy_entry h strat now inFace d j f = (None, g)"
  shows "cleared (fw_entry g j)"
proof -
  obtain x where "g = setStragglerTimer now j True (mi_freshnessPeriod (d_metaInfo d)) (change_entry_of j (\<lambda>e. deleteOutRecord (fc_id inFace) (clearInRecords e)) x)"
    using assms by (auto simp: satisfy_entry_def fw_seq_def split: prod.splits option.splits)
  then show ?thesis
    by (cases "fw_entry x j") (auto simp: cleared_def fw_entry_def setStragglerTimer_def change_entry_of_def change_pit_entry_def deleteOutRecord_def clearInRecords_def)
qed

text \<open>The faces with a pending Interest that the Data satisfies.\<close>

definition downstreams :: "int \<Rightarrow> forwarder \<Rightarrow> nat set \<Rightarrow> u64 set" where
  "downstreams now f J = {in_face r | r j e. j \<in> J \<and> fw_entry f j = Some e \<and> r \<in> set (pe_inRecords e) \<and> in_expiry r > now}"

lemma satisfy_entries_ok:
  assumes "forwarding_strategy strat"
  shows "fw_ok h {} f \<Longrightarrow> distinct js \<Longrightarrow> \<forall>j \<in> set js. fw_entry f j \<noteq> None \<Longrightarrow>
    \<exists>g. satisfy_entries h strat now inFace d js downs k f = k (downs \<union> downstreams now f (set js)) g
      \<and> fw_ok h {} g \<and> same_entries f g \<and> data_sent g = data_sent f
      \<and> (\<forall>j. if j \<in> set js then cleared (fw_entry g j) else fw_entry g j = fw_entry f j)"
proof (induction js arbitrary: f downs)
  case Nil
  then show ?case by (intro exI [of _ f]) (simp add: downstreams_def)
next
  case (Cons j js)
  obtain e where e: "fw_entry f j = Some e" using Cons.prems(3) by auto
  define f1 where "f1 = cancelUnsatisfyAndStragglerTimer j f"
  let ?e1 = "e\<lparr>pe_unsatisfyTimer := None, pe_stragglerTimer := None\<rparr>"
  let ?new = "set (map in_face (filter (\<lambda>r. in_expiry r > now) (pe_inRecords ?e1)))"
  have f1: "fw_ok h {j} f1" "same_entries f f1" "fw_entry f1 j = Some ?e1" "aside j f f1"
    using cancel_ok [OF Cons.prems(1), of j] e by (simp_all add: f1_def)
  obtain g where g: "satisfy_entry h strat now inFace d j f1 = (None, g)" "fw_ok h {} g" "same_entries f1 g"
    using satisfy_entry_ok [OF assms f1(1,3)] unfolding keeps_def by blast
  have a: "aside j f g" using aside_satisfy [OF assms, of j f1 h now inFace d] g(1) aside_trans [OF f1(4)] by simp
  have ex: "\<forall>i \<in> set js. fw_entry g i \<noteq> None" using Cons.prems(2,3) a by (auto simp: aside_def)
  have "distinct js" using Cons.prems(2) by simp
  from Cons.IH [OF g(2) this ex, of "downs \<union> ?new"]
  obtain g' where g': "satisfy_entries h strat now inFace d js (downs \<union> ?new) k g = k ((downs \<union> ?new) \<union> downstreams now g (set js)) g'"
    "fw_ok h {} g'" "same_entries g g'" "data_sent g' = data_sent g"
    "\<forall>i. if i \<in> set js then cleared (fw_entry g' i) else fw_entry g' i = fw_entry g i" by blast
  have clears: "\<forall>i. if i \<in> set (j # js) then cleared (fw_entry g' i) else fw_entry g' i = fw_entry f i"
    using g'(5) satisfy_entry_clears [OF g(1)] a unfolding aside_def by (metis list.set_intros set_ConsD)
  have "downstreams now g (set js) = downstreams now f (set js)"
    using a Cons.prems(2) unfolding downstreams_def aside_def by (metis distinct.simps(2))
  moreover have "downstreams now f (set (j # js)) = ?new \<union> downstreams now f (set js)" using e by (auto simp: downstreams_def)
  ultimately have "(downs \<union> ?new) \<union> downstreams now g (set js) = downs \<union> downstreams now f (set (j # js))" by auto
  moreover have "satisfy_entries h strat now inFace d (j # js) downs k f = satisfy_entries h strat now inFace d js (downs \<union> ?new) k g"
    using with_entry_Some [OF f1(3)] g(1) by (simp add: fw_seq_def flip: f1_def)
  ultimately show ?case using clears g'(1-4) a same_entries_trans [OF same_entries_trans [OF f1(2) g(3)] g'(3)]
    by (intro exI [of _ g']) (simp add: aside_def del: list.set)
qed

text \<open>A face to which the Data may be sent.\<close>

definition deliverable :: "data \<Rightarrow> u64 \<Rightarrow> forwarder \<Rightarrow> u64 \<Rightarrow> bool" where
  "deliverable d inFace f k \<longleftrightarrow> k \<noteq> inFace
     \<and> (case fw_faces f k of None \<Rightarrow> False | Some fc \<Rightarrow> fc_id fc \<noteq> INVALID_FACEID \<and> \<not> violates_localhost fc (name_of (d_name d)))"

lemma send_downstream_ok: "send_downstream d inFace k f = (if deliverable d inFace f k then fw_send (SentData (the (fw_faces f k)) d) f else f)"
  by (simp add: send_downstream_def deliverable_def onOutgoingData_def split: option.split)

lemma data_sent_send [simp]: "data_sent (fw_send (SentData fc d) f) = data_sent f @ [SentData fc d]"
  by (simp add: data_sent_def fw_send_def)

lemma send_downstreams_ok:
  "data_sent (fold (send_downstream d inFace) ks f) = data_sent f @ map (\<lambda>k. SentData (the (fw_faces f k)) d) (filter (deliverable d inFace f) ks)
   \<and> fw_entry (fold (send_downstream d inFace) ks f) = fw_entry f \<and> fw_faces (fold (send_downstream d inFace) ks f) = fw_faces f
   \<and> fw_cs (fold (send_downstream d inFace) ks f) = fw_cs f
   \<and> (fw_ok h J (fold (send_downstream d inFace) ks f) \<longleftrightarrow> fw_ok h J f)"
proof (induction ks arbitrary: f)
  case (Cons k ks)
  have "fw_faces (send_downstream d inFace k f) = fw_faces f" by (simp add: send_downstream_ok)
  then have "deliverable d inFace (send_downstream d inFace k f) = deliverable d inFace f" by (simp add: deliverable_def fun_eq_iff)
  moreover have "fw_cs (fw_send s f) = fw_cs f" for s by (simp add: fw_send_def)
  ultimately show ?case using Cons.IH [of "send_downstream d inFace k f"] by (simp add: send_downstream_ok [of d inFace k f])
qed simp

lemma onDataUnsolicited_ok:
  assumes "fw_ok h {} f" and "has_digest (h_sha256 h) d"
  shows "\<exists>g. onDataUnsolicited h now inFace d noCache f = (None, g) \<and> fw_ok h {} g \<and> fw_sent g = fw_sent f \<and> fw_pit g = fw_pit f"
proof -
  obtain x where "Cs_insert (h_sha256 h) now d True noCache (fw_cs f) = Inr x" "cs_ok (h_sha256 h) x"
    using insert_keeps [OF fw_okD(3) [OF assms(1)] assms(2)] by blast
  then show ?thesis using fw_ok_cs [OF assms(1)] assms(1) by (simp add: onDataUnsolicited_def fw_try_def split: unsolicited_decision.split)
qed

lemma finite_downstreams: "fw_ok h J f \<Longrightarrow> finite (downstreams now f K)"
proof -
  assume "fw_ok h J f"
  then have "finite (dom (fw_entry f))" using finite_entries [OF fw_okD(1)] by (simp add: fw_entry_def [abs_def])
  then have "finite (\<Union>e \<in> ran (fw_entry f). in_face ` set (pe_inRecords e))" by (simp add: finite_ran)
  then show ?thesis by (rule rev_finite_subset) (auto simp: downstreams_def intro: ranI)
qed

lemma onIncomingData_ok:
  assumes "forwarding_strategy strat" and "fw_ok h {} f" and "has_digest (h_sha256 h) d" and "data_comparable (h_sha256 h) d (fw_pit f)"
  defines "J \<equiv> satisfied_entries (h_sha256 h) d (fw_pit f)"
  shows "\<exists>g. onIncomingData h strat now inFace d noCache f = (None, g) \<and> fw_ok h {} g
    \<and> data_sent g = data_sent f @ (if violates_localhost inFace (name_of (d_name d)) then []
        else map (\<lambda>k. SentData (the (fw_faces f k)) d) (filter (deliverable d (fc_id inFace) f) (sorted_list_of_set (downstreams now f J))))
    \<and> (\<forall>j. if j \<in> J \<and> \<not> violates_localhost inFace (name_of (d_name d)) then cleared (fw_entry g j) else fw_entry g j = fw_entry f j)"
proof (cases "violates_localhost inFace (name_of (d_name d))")
  case True
  then show ?thesis using assms(2) by (simp add: onIncomingData_def)
next
  case in_scope: False
  obtain js where js: "findAllDataMatches (h_sha256 h) d (fw_pit f) = Some (Inr js)" "distinct js" "set js = J"
    using findAllDataMatches_ok [OF fw_okD(1) [OF assms(2)] assms(3,4)] unfolding J_def by blast
  show ?thesis
  proof (cases "js = []")
    case True
    obtain g where g: "onDataUnsolicited h now inFace d noCache f = (None, g)" "fw_ok h {} g" "fw_sent g = fw_sent f" "fw_pit g = fw_pit f"
      using onDataUnsolicited_ok [OF assms(2,3)] by blast
    have "onIncomingData h strat now inFace d noCache f = (None, g)" using in_scope js(1) True g(1) by (simp add: onIncomingData_def fw_await_def fw_try_def)
    then show ?thesis using g(2-4) js(3) True by (simp add: data_sent_def downstreams_def fw_entry_def)
  next
    case False
    obtain x where x: "Cs_insert (h_sha256 h) now d False noCache (fw_cs f) = Inr x" "cs_ok (h_sha256 h) x"
      using insert_keeps [OF fw_okD(3) [OF assms(2)] assms(3)] by blast
    let ?f = "f\<lparr>fw_cs := x\<rparr>" and ?k = "\<lambda>D f. (None, fold (send_downstream d (fc_id inFace)) (sorted_list_of_set D) f)"
    have f1: "fw_ok h {} ?f" by (rule fw_ok_cs [OF assms(2) x(2)])
    have "\<forall>j \<in> set js. fw_entry ?f j \<noteq> None" unfolding js(3) J_def satisfied_entries_def by (auto simp: fw_entry_def)
    from satisfy_entries_ok [OF assms(1) f1 js(2) this, of now inFace d "{}" ?k]
    obtain g where g: "satisfy_entries h strat now inFace d js {} ?k ?f = ?k ({} \<union> downstreams now ?f (set js)) g"
      "fw_ok h {} g" "same_entries ?f g" "data_sent g = data_sent ?f"
      "\<forall>j. if j \<in> set js then cleared (fw_entry g j) else fw_entry g j = fw_entry ?f j" by blast
    have same: "downstreams now ?f J = downstreams now f J" by (simp add: downstreams_def)
    let ?r = "fold (send_downstream d (fc_id inFace)) (sorted_list_of_set (downstreams now f J)) g"
    have "onIncomingData h strat now inFace d noCache f = (None, ?r)"
      using in_scope js(1,3) False x(1) g(1) same by (simp add: onIncomingData_def fw_await_def fw_try_def)
    moreover have "fw_faces g = fw_faces f" using g(3) by (simp add: same_entries_def)
    then have "deliverable d (fc_id inFace) g = deliverable d (fc_id inFace) f" "(\<lambda>k. SentData (the (fw_faces g k)) d) = (\<lambda>k. SentData (the (fw_faces f k)) d)"
      by (simp_all add: deliverable_def fun_eq_iff)
    moreover have "data_sent ?f = data_sent f" by (simp add: data_sent_def)
    ultimately show ?thesis using in_scope g(2,4,5) js(3) send_downstreams_ok [of d "fc_id inFace" "sorted_list_of_set (downstreams now f J)" g h "{}"]
      by (intro exI [of _ ?r]) simp
  qed
qed

section \<open>Incoming Nacks\<close>

lemma onIncomingNack_ok:
  assumes "forwarding_strategy strat" and "fw_ok h {} f" and "packet_ok p"
  shows "succeeds h (onIncomingNack strat now inFace p reason f)"
proof -
  note find = Pit_find_ok [OF fw_okD(1) [OF assms(2)] assms(3)]
  show ?thesis
  proof (cases "fc_multiAccess inFace \<or> pit_lookup (fw_pit f) p = None")
    case True
    then show ?thesis using assms(2) find by (auto simp: onIncomingNack_def fw_try_def succeeds_def)
  next
    case False
    then obtain j where j: "pit_lookup (fw_pit f) p = Some j" by auto
    obtain e where e: "fw_entry f j = Some e" "packet_for e p"
      using pit_lookup_Some [OF fw_okD(1) [OF assms(2)]] j assms(3) by (auto simp: fw_entry_def packet_for_def)
    let ?g = "\<lambda>e. e\<lparr>pe_outRecords := update_first (\<lambda>r. out_face r = fc_id inFace) (setIncomingNack (ip_nonce p) reason) (pe_outRecords e)\<rparr>"
    define f1 where "f1 = change_entry_of j ?g f"
    have "map out_face (update_first (\<lambda>r. out_face r = fc_id inFace) (setIncomingNack (ip_nonce p) reason) rs) = map out_face rs" for rs
      by (rule map_update_first) (simp add: setIncomingNack_def)
    then have "entry_ok (?g e)" "timed (?g e)" using fw_okD(5,6) [OF assms(2) e(1)] by (simp_all add: entry_ok_def timed_def)
    then have f1: "fw_ok h {} f1" "fw_entry f1 j = Some (?g e)"
      using change_entry_ok [OF assms(2), of j "{}" ?g] e(1) by (simp_all add: f1_def)
    have "trigger_ok (?g e) (AfterReceiveNack inFace p reason)" using e(2) by (simp add: trigger_ok_def packet_for_def)
    then have "succeeds h (dispatchToStrategy strat now j (AfterReceiveNack inFace p reason) f1)"
      by (rule keeps_succeeds [OF dispatch_keeps [OF assms(1) f1]])
    moreover have "succeeds h (None, f)" using assms(2) by (simp add: succeeds_def)
    ultimately show ?thesis using False find j with_entry_Some [OF e(1)]
      by (auto simp: onIncomingNack_def fw_try_def f1_def split: option.split)
  qed
qed

section \<open>The end of an Interest\<close>

lemma onInterestFinalize_ok:
  assumes "fw_ok h {j} f" and "fw_entry f j = Some e"
  shows "\<exists>g. onInterestFinalize h j s p f = (None, g) \<and> fw_ok h {} g \<and> fw_entry g j = None \<and> (\<forall>i. i \<noteq> j \<longrightarrow> fw_entry g i = fw_entry f i)
    \<and> data_sent g = data_sent f \<and> fw_cs g = fw_cs f"
proof -
  obtain f1 where f1: "insertDeadNonceList h j s p None f = (None, f1)" "fw_ok h {j} f1" "same_entries f f1"
    using insertDeadNonceList_keeps [OF assms] unfolding keeps_def by blast
  have a1: "aside j f f1" using aside_insertDeadNonceList [of j f h s p None] f1(1) by simp
  define f2 where "f2 = cancelUnsatisfyAndStragglerTimer j f1"
  have f2: "fw_ok h {j} f2" "same_entries f f2" "aside j f f2"
    using cancel_ok(1,2) [OF f1(2), of j] same_entries_trans [OF f1(3)] aside_trans [OF a1 aside_timers(1)] by (simp_all add: f2_def)
  obtain e2 where e2: "fw_entry f2 j = Some e2" using same_entries_Some [OF f2(2) assms(2)] by blast
  obtain y where y: "Pit_erase j True (fw_pit f2) = Some (Inr y)" "pit_ok y" "pit_entries y = (pit_entries (fw_pit f2))(j := None)"
    "same_fib (pit_nameTree (fw_pit f2)) (pit_nameTree y)"
    using Pit_erase_ok [OF fw_okD(1) [OF f2(1)], of j e2] e2 unfolding fw_entry_def by blast
  let ?g = "f2\<lparr>fw_pit := y\<rparr>"
  have run: "onInterestFinalize h j s p f = (None, ?g)"
    using f1(1) y(1) by (simp add: onInterestFinalize_def fw_seq_def fw_await_def fw_try_def Let_def flip: f2_def)
  have ent: "fw_entry ?g = (fw_entry f2)(j := None)" using y(3) by (simp add: fw_entry_def fun_eq_iff)
  have "fw_ok h {} ?g"
    by (rule fw_ok_pit [OF f2(1) y(2,4)]) (use fw_okD(5,7) [OF f2(1)] in \<open>auto simp: y(3) fw_entry_def split: if_splits\<close>)
  moreover have "data_sent ?g = data_sent f2" by (simp add: data_sent_def)
  ultimately show ?thesis using run ent f2(2,3) by (intro exI [of _ ?g]) (simp add: aside_def same_entries_def)
qed

text \<open>The event that runs is gone from its entry.\<close>

lemma fired_ok:
  assumes "fw_ok h {} f" and "fw_entry f j = Some e" and "g \<in> {\<lambda>e. e\<lparr>pe_unsatisfyTimer := None\<rparr>, \<lambda>e. e\<lparr>pe_stragglerTimer := None\<rparr>}"
  shows "fw_ok h {j} (change_entry_of j g f)" "fw_entry (change_entry_of j g f) j = Some (g e)"
proof -
  have "entry_ok (g e)" "pe_interest (g e) = pe_interest e" "pe_nameTreeEntry (g e) = pe_nameTreeEntry e"
    using fw_okD(6) [OF assms(1,2)] assms(3) by (auto simp: entry_ok_def)
  then show "fw_ok h {j} (change_entry_of j g f)" "fw_entry (change_entry_of j g f) j = Some (g e)"
    using change_entry_ok(1,3) [OF assms(1), of j "{j}" g] assms(2) by auto
qed

lemma unsatisfy_event_ok:
  assumes "forwarding_strategy strat" and "fw_ok h {} f" and "fw_entry f j = Some e"
  shows "\<exists>g. unsatisfy_event h strat now j f = (None, g) \<and> fw_ok h {} g \<and> fw_entry g j = None \<and> (\<forall>i. i \<noteq> j \<longrightarrow> fw_entry g i = fw_entry f i)
    \<and> data_sent g = data_sent f \<and> fw_cs g = fw_cs f"
proof -
  let ?u = "\<lambda>e :: pit_entry. e\<lparr>pe_unsatisfyTimer := None\<rparr>"
  define f1 where "f1 = change_entry_of j ?u f"
  have f1: "fw_ok h {j} f1" "fw_entry f1 j = Some (?u e)" using fired_ok [OF assms(2,3), of ?u] by (simp_all add: f1_def)
  have a1: "aside j f f1" "fw_cs f1 = fw_cs f" by (simp_all add: f1_def) (simp add: change_entry_of_def)
  have "trigger_ok (?u e) BeforeExpirePendingInterest" by (simp add: trigger_ok_def)
  from dispatch_keeps [OF assms(1) f1 this, of now] obtain f2 where f2: "dispatchToStrategy strat now j BeforeExpirePendingInterest f1 = (None, f2)"
    "fw_ok h {j} f2" "same_entries f1 f2" unfolding keeps_def by blast
  have a2: "aside j f f2" using aside_strategy [OF assms(1), of j f1 now BeforeExpirePendingInterest] f2(1) aside_trans [OF a1(1)] by simp
  obtain e2 where e2: "fw_entry f2 j = Some e2" using same_entries_Some [OF f2(3) f1(2)] by blast
  have "unsatisfy_event h strat now j f = onInterestFinalize h j False (- 1) f2"
    using f2(1) by (simp add: unsatisfy_event_def onInterestUnsatisfied_def fw_seq_def flip: f1_def)
  then show ?thesis using onInterestFinalize_ok [OF f2(2) e2, of False "- 1"] a2 a1(2) f2(3) by (auto simp: aside_def same_entries_def)
qed

lemma straggler_event_ok:
  assumes "fw_ok h {} f" and "fw_entry f j = Some e" and "pe_stragglerTimer e \<noteq> None"
  shows "\<exists>g. straggler_event h j f = (None, g) \<and> fw_ok h {} g \<and> fw_entry g j = None \<and> (\<forall>i. i \<noteq> j \<longrightarrow> fw_entry g i = fw_entry f i)
    \<and> data_sent g = data_sent f \<and> fw_cs g = fw_cs f"
proof -
  let ?u = "\<lambda>e :: pit_entry. e\<lparr>pe_stragglerTimer := None\<rparr>"
  obtain t s p where t: "pe_stragglerTimer e = Some (t, s, p)" using assms(3) by auto
  define f1 where "f1 = change_entry_of j ?u f"
  have f1: "fw_ok h {j} f1" "fw_entry f1 j = Some (?u e)" using fired_ok [OF assms(1,2), of ?u] by (simp_all add: f1_def)
  have a1: "aside j f f1" "fw_cs f1 = fw_cs f" by (simp_all add: f1_def) (simp add: change_entry_of_def)
  have "straggler_event h j f = onInterestFinalize h j s p f1"
    by (simp add: straggler_event_def with_entry_Some [OF assms(2)] t f1_def)
  then show ?thesis using onInterestFinalize_ok [OF f1, of s p] a1 by (auto simp: aside_def)
qed

end
