(* ===== verification/StrategyOk.thy ===== *)
theory StrategyOk
  imports Strategy ForwarderRun
begin

text \<open>
  The strategies keep the contract of \<open>forwarding_strategy\<close>; they never send an Interest to a face whose
  scope forbids it.
\<close>

section \<open>Lookup\<close>

lemma nte_name_digest: "n \<noteq> [] \<and> is_digest (last n) \<Longrightarrow> nte_name n = butlast n \<and> length (nte_name n) < length n"
  by (simp add: nte_name_def)

lemma longest_prefix_Some: "longest_prefix S n = Some m \<Longrightarrow> S m"
  unfolding longest_prefix_def find_Some_iff by blast

text \<open>The lookup from the entry finds what the lookup by its name finds.\<close>

lemma pit_match_ok:
  assumes "tree_ok t" and "pe_nameTreeEntry e = Some (nte_name (ip_name (pe_interest e)))" and "ht_map t (nte_name (ip_name (pe_interest e))) \<noteq> None"
  shows "findLongestPrefixMatch_pit P e t = Some (Inr (longest_prefix (selected P t) (ip_name (pe_interest e))))"
proof -
  let ?name = "ip_name (pe_interest e)"
  let ?n = "nte_name ?name"
  have T: "ht_ok t" using assms(1) by (simp add: tree_ok_def)
  note match = match_entry_ok [OF assms(1)]
  show ?thesis
  proof (cases "?name \<noteq> [] \<and> is_digest (last ?name)")
    case False
    then have "?n = ?name" by (auto simp: nte_name_def)
    then show ?thesis using match [OF assms(3), of P] assms(2) by (simp add: findLongestPrefixMatch_pit_def Let_def)
  next
    case True
    then have n: "?n = butlast ?name" "length ?n < length ?name" using nte_name_digest by blast+
    have exact: "NameTree_findExactMatch ?name t = (if ht_map t ?name = None then None else Some ?name)"
      using Hashtable_find_ok [OF T, of ?name "length ?name"] by (simp add: NameTree_findExactMatch_def)
    have "longest_prefix (selected P t) ?name = longest_prefix (selected P t) (butlast ?name)" if "ht_map t ?name = None"
      using that True by (subst longest_prefix_step) (simp add: selected_def)
    then show ?thesis using match [of ?name P] match [OF assms(3), of P] assms(2) True n exact
      by (auto simp: findLongestPrefixMatch_pit_def Let_def)
  qed
qed

lemma Fib_pit_match_ok:
  assumes "fw_ok h J f" and "fw_entry f j = Some e"
  shows "Fib_findLongestPrefixMatch_pit e (fw_fib f) = Some (Fib_findLongestPrefixMatch (ip_name (pe_interest e)) (fw_fib f))"
proof -
  let ?t = "pit_nameTree (fw_pit f)"
  have t: "tree_ok ?t" "ht_ok ?t" using pit_okD(1) [OF fw_okD(1) [OF assms(1)]] by (simp_all add: tree_ok_def)
  have e: "pe_nameTreeEntry e = Some (nte_name (ip_name (pe_interest e)))"
    using pit_okD(7) [OF fw_okD(1) [OF assms(1)]] assms(2) by (simp add: fw_entry_def)
  have "j \<in> set (attached (fw_pit f) (nte_name (ip_name (pe_interest e))))"
    using pit_okD(4) [OF fw_okD(1) [OF assms(1)]] assms(2) e by (simp add: fw_entry_def)
  then have "ht_map ?t (nte_name (ip_name (pe_interest e))) \<noteq> None" by (metis attached_dom empty_iff list.set(1))
  from pit_match_ok [OF t(1) e this, of nteHasFibEntry] show ?thesis
    by (simp add: Fib_findLongestPrefixMatch_pit_def Fib_findLongestPrefixMatch_def fw_fib_def match_name_ok [OF t(2)] fib_ref_of_def split: option.split)
qed

lemma hop_faces_ok:
  assumes "\<forall>k fc. fw_faces f k = Some fc \<longrightarrow> fc_id fc = k"
  shows "\<forall>x \<in> set xs. fw_faces f (nh_face x) \<noteq> None \<Longrightarrow> \<exists>hs. hop_faces f xs = Inr hs \<and> map fc_id hs = map nh_face xs \<and> (\<forall>h \<in> set hs. fw_faces f (fc_id h) = Some h)"
proof (induction xs)
  case (Cons x xs)
  then obtain hs fc where "hop_faces f xs = Inr hs \<and> map fc_id hs = map nh_face xs \<and> (\<forall>h \<in> set hs. fw_faces f (fc_id h) = Some h)" "fw_faces f (nh_face x) = Some fc"
    by auto
  then show ?case using assms by (intro exI [of _ "fc # hs"]) auto
qed simp

lemma through_pointer_ok:
  assumes "fw_ok h J f" and "fw_entry f j = Some e" and "packet_for e p"
  shows "packet_for e (through_pointer p j f)"
proof (cases "List.find (\<lambda>q. ip_object q = ip_object p) (pe_interest e # map in_interest (pe_inRecords e))")
  case None
  then show ?thesis using assms(2,3) by (simp add: through_pointer_def del: find.simps)
next
  case (Some q)
  then have "q \<in> insert (pe_interest e) (in_interest ` set (pe_inRecords e))" by (auto simp: find_Some_iff dest: nth_mem split: if_splits)
  then have "packet_ok q" "packet_key q = packet_key (pe_interest e)" using fw_okD(6) [OF assms(1,2)] by (auto simp: entry_ok_def)
  then have "packet_for e (p\<lparr>ip_interest := ip_interest q\<rparr>)" by (simp add: packet_for_def packet_ok_def packet_key_def)
  then show ?thesis using Some assms(2) by (simp add: through_pointer_def del: find.simps)
qed

text \<open>The next hops of the longest prefix match, with their costs.\<close>

definition next_hops :: "fib_table \<Rightarrow> full_name \<Rightarrow> u64 \<Rightarrow> u64 option" where
  "next_hops F n = (case longest_prefix (\<lambda>m. fib_view F m \<noteq> (\<lambda>_. None)) n of None \<Rightarrow> (\<lambda>_. None) | Some m \<Rightarrow> fib_view F m)"

text \<open>For an Interest without a Link object the lookup finds these, in the order of the costs, and changes nothing.\<close>

lemma with_next_hops_view:
  assumes "fw_ok h J f" and "fw_entry f j = Some e"
  shows "\<exists>hops nhs. with_next_hops j p f k = k hops (through_pointer p j f) f \<and> map fc_id hops = map nh_face nhs
    \<and> (\<forall>x \<in> set hops. fw_faces f (fc_id x) = Some x) \<and> distinct (map nh_face nhs) \<and> sorted (map nh_cost nhs)
    \<and> (\<forall>x c. next_hops (fw_fib f) (ip_name (pe_interest e)) x = Some c \<longleftrightarrow> \<lparr>nh_face = x, nh_cost = c\<rparr> \<in> set nhs)"
proof -
  let ?F = "fw_fib f" and ?n = "ip_name (pe_interest e)"
  have F: "fib_ok ?F" "faces_ok f" by (rule fw_okD [OF assms(1)])+
  let ?S = "\<lambda>m. fib_view ?F m \<noteq> (\<lambda>_. None)"
  define r where "r = (case longest_prefix ?S ?n of None \<Rightarrow> EmptyEntry | Some m \<Rightarrow> Attached m)"
  have r: "Fib_findLongestPrefixMatch ?n ?F = Inr r" unfolding r_def by (rule longest_match [OF F(1)])
  let ?x = "fib_entry_of r ?F"
  have x: "distinct (map nh_face (fe_nextHops ?x)) \<and> sorted (map nh_cost (fe_nextHops ?x)) \<and> (\<forall>y \<in> set (fe_nextHops ?x). fw_faces f (nh_face y) \<noteq> None)
    \<and> (\<forall>y c. next_hops ?F ?n y = Some c \<longleftrightarrow> \<lparr>nh_face = y, nh_cost = c\<rparr> \<in> set (fe_nextHops ?x))"
  proof (cases "longest_prefix ?S ?n")
    case None
    then show ?thesis by (simp add: r_def next_hops_def fib_entry_of_def fib_Entry_def)
  next
    case (Some m)
    then have "?S m" by (rule longest_prefix_Some)
    then obtain y where y: "fib_at ?F m = Some y" using fib_view_none [OF F(1), of m] by blast
    then have "?x = y" "next_hops ?F ?n = hop_cost y" "fe_ok m y" using Some F(1)
      by (simp_all add: r_def next_hops_def fib_entry_of_def fib_entry_at_def fib_at_entry fib_view_entry [OF y] fib_ok_def)
    then show ?thesis using y F hop_cost_Some [of m y] by (auto simp: fe_ok_def faces_ok_def)
  qed
  have "\<forall>k fc. fw_faces f k = Some fc \<longrightarrow> fc_id fc = k" using F(2) by (simp add: faces_ok_def)
  from hop_faces_ok [OF this] x obtain hs where hs: "hop_faces f (fe_nextHops ?x) = Inr hs" "map fc_id hs = map nh_face (fe_nextHops ?x)"
    "\<forall>y \<in> set hs. fw_faces f (fc_id y) = Some y" by blast
  have "with_next_hops j p f k = k hs (through_pointer p j f) f"
    using fw_okD(7) [OF assms(1,2)] Fib_pit_match_ok [OF assms(1,2)] r hs(1)
    by (simp add: with_next_hops_def lookupFib_def with_entry_Some [OF assms(2)] linkless_def fw_await_def fw_try_def)
  then show ?thesis using hs(2,3) x by (intro exI [of _ hs] exI [of _ "fe_nextHops ?x"]) simp
qed

lemma with_next_hops_ok:
  assumes "fw_ok h J f" and "fw_entry f j = Some e" and "packet_for e p"
  shows "\<exists>hops q. with_next_hops j p f k = k hops q f \<and> packet_for e q \<and> distinct (map fc_id hops) \<and> (\<forall>x \<in> set hops. fw_faces f (fc_id x) = Some x)"
proof -
  obtain hops and nhs :: "next_hop list" where "with_next_hops j p f k = k hops (through_pointer p j f) f" "map fc_id hops = map nh_face nhs"
    "\<forall>x \<in> set hops. fw_faces f (fc_id x) = Some x" "distinct (map nh_face nhs)"
    using with_next_hops_view [OF assms(1,2), of p k] by (elim exE conjE) (rule that, assumption+)
  then show ?thesis using through_pointer_ok [OF assms] by (intro exI [of _ hops] exI [of _ "through_pointer p j f"]) simp
qed

section \<open>The parts of the strategies\<close>

lemma keeps_None: "fw_ok h J f \<Longrightarrow> keeps h J f (None, f)"
  by (rule keepsI) simp_all

lemma send_nacks_keeps:
  "fw_ok h J f \<Longrightarrow> fw_entry f j = Some e \<Longrightarrow> keeps h J f (send_nacks j reason ks f)"
proof (induction ks arbitrary: f e)
  case Nil
  then show ?case by (simp add: keeps_None)
next
  case (Cons k ks)
  have rest: "keeps h J g (send_nacks j reason ks g)" if "fw_ok h J g" "same_entries f g" for g
    using Cons.IH [OF that(1)] same_entries_Some [OF that(2) Cons.prems(2)] by blast
  show ?case using keeps_seq [OF onOutgoingNack_keeps [OF Cons.prems, of k reason] rest] by simp
qed

lemma processNack_keeps:
  assumes "fw_ok h J f" and "fw_entry f j = Some e"
  shows "keeps h J f (processNack j f)"
  using onOutgoingNack_keeps [OF assms] keeps_None [OF assms(1)] send_nacks_keeps [OF assms]
  by (simp add: processNack_def sendNacks_def with_entry_Some [OF assms(2)] Let_def)

lemma pending_nonempty: "hasPendingOutRecords now e \<Longrightarrow> pe_outRecords e \<noteq> []"
  by (auto simp: hasPendingOutRecords_def)

lemma RetxExponential_decide_ok:
  "\<exists>r s. RetxExponential_decide initial maximum now e = Inr (r, e\<lparr>pe_suppression := s\<rparr>) \<and> (r = RetxNew \<longleftrightarrow> \<not> hasPendingOutRecords now e)"
proof (cases "hasPendingOutRecords now e")
  case False
  then show ?thesis by (intro exI [of _ RetxNew] exI [of _ "pe_suppression e"]) (simp add: RetxExponential_decide_def)
next
  case True
  then show ?thesis using pending_nonempty [OF True] by (auto simp: RetxExponential_decide_def getLastOutgoing_def Let_def)
qed

lemma earliest_out_record_ok:
  "\<forall>x \<in> set hs. isNextHopEligible inFace p x e False 0 \<longrightarrow> getOutRecord (fc_id x) e \<noteq> None \<Longrightarrow>
   \<exists>r. earliest_out_record inFace p e hs b = Inr r"
  by (induction hs arbitrary: b) auto

lemma earliest_out_record_from:
  "earliest_out_record inFace p e hs b = Inr (Some x) \<Longrightarrow> x \<in> set hs \<and> isNextHopEligible inFace p x e False 0 \<or> map_option fst b = Some x"
proof (induction hs arbitrary: b)
  case (Cons y hs)
  show ?case
  proof (cases "isNextHopEligible inFace p y e False 0")
    case False
    then show ?thesis using Cons.IH [of b] Cons.prems by auto
  next
    case True
    then obtain r where r: "getOutRecord (fc_id y) e = Some r" using Cons.prems by (auto split: option.splits)
    let ?b = "if (case b of None \<Rightarrow> True | Some (_, t) \<Rightarrow> out_lastRenewed r < t) then Some (y, out_lastRenewed r) else b"
    have "earliest_out_record inFace p e hs ?b = Inr (Some x)" using Cons.prems True r by simp
    then show ?thesis using Cons.IH [of ?b] True by (auto split: if_splits)
  qed
qed simp

text \<open>When no next hop is unused, all eligible ones have an out-record, so that the assertion holds.\<close>

lemma none_unused:
  assumes "List.find (\<lambda>x. isNextHopEligible inFace p x e True now) hops = None"
  shows "\<exists>r. findEligibleNextHopWithEarliestOutRecord inFace p hops e = Inr r"
  unfolding findEligibleNextHopWithEarliestOutRecord_def
proof (rule earliest_out_record_ok, intro ballI impI)
  fix x assume "x \<in> set hops" "isNextHopEligible inFace p x e False 0"
  moreover have "\<not> isNextHopEligible inFace p x e True now" using assms \<open>x \<in> set hops\<close> unfolding find_None_iff by blast
  ultimately show "getOutRecord (fc_id x) e \<noteq> None" by (auto simp: isNextHopEligible_def split: if_splits option.splits)
qed

lemma best_route2_forward_keeps:
  assumes "fw_ok h J f" and "fw_entry f j = Some e" and "packet_for e q"
  shows "keeps h J f (best_route2_forward now j inFace isNew hops q f)"
proof -
  note out = onOutgoingInterest_keeps [OF assms]
  have reject: "keeps h J f (fw_seq (onOutgoingNack j (fc_id inFace) NoRoute f) (onInterestReject now j))"
  proof (rule keeps_seq [OF onOutgoingNack_keeps [OF assms(1,2)]])
    fix g assume g: "fw_ok h J g" "same_entries f g"
    then show "keeps h J g (onInterestReject now j g)" using same_entries_Some [OF g(2) assms(2)] onInterestReject_keeps [OF g(1)] by blast
  qed
  show ?thesis
  proof (cases isNew)
    case True
    then show ?thesis using out reject by (simp add: best_route2_forward_def with_entry_Some [OF assms(2)] split: option.split)
  next
    case False
    show ?thesis
    proof (cases "List.find (\<lambda>x. isNextHopEligible inFace q x e True now) hops")
      case None
      then obtain r where "findEligibleNextHopWithEarliestOutRecord inFace q hops e = Inr r" using none_unused by blast
      then show ?thesis using False None out keeps_None [OF assms(1)]
        by (simp add: best_route2_forward_def with_entry_Some [OF assms(2)] fw_try_def split: option.split)
    next
      case (Some x)
      then show ?thesis using False out by (simp add: best_route2_forward_def with_entry_Some [OF assms(2)])
    qed
  qed
qed

lemma multicast_send_keeps:
  "fw_ok h J f \<Longrightarrow> fw_entry f j = Some e \<Longrightarrow> packet_for e q \<Longrightarrow> keeps h J f (multicast_send now j inFace q hs f)"
proof (induction hs arbitrary: f e)
  case Nil
  then show ?case by (simp add: keeps_None)
next
  case (Cons x hs)
  have first: "keeps h J f (if \<not> wouldViolateScope inFace q x \<and> canForwardToLegacy now e (fc_id x) then onOutgoingInterest now j (fc_id x) q f else (None, f))"
    using onOutgoingInterest_keeps [OF Cons.prems] keeps_None [OF Cons.prems(1)] by simp
  have "keeps h J g (multicast_send now j inFace q hs g)" if g: "fw_ok h J g" "same_entries f g" for g
  proof -
    obtain e' where "fw_entry g j = Some e'" "pe_interest e' = pe_interest e" using same_entries_Some [OF g(2) Cons.prems(2)] by blast
    then show ?thesis using Cons.IH [OF g(1)] Cons.prems(3) packet_for_same by blast
  qed
  from keeps_seq [OF first this] show ?case by (simp add: with_entry_Some [OF Cons.prems(2)])
qed

section \<open>The strategies keep the tables\<close>

lemma BestRouteStrategy2_keeps:
  assumes "fw_ok h J f" and "fw_entry f j = Some e" and "trigger_ok e t"
  shows "keeps h J f (BestRouteStrategy2 now j t f)"
proof (cases t)
  case (AfterReceiveInterest inFace p)
  have p: "packet_for e p" using assms(3) AfterReceiveInterest by (simp add: trigger_ok_def)
  obtain r s where d: "RetxExponential_decide RETX_SUPPRESSION_INITIAL RETX_SUPPRESSION_MAX now e = Inr (r, e\<lparr>pe_suppression := s\<rparr>)"
    using RetxExponential_decide_ok by blast
  let ?e = "e\<lparr>pe_suppression := s\<rparr>"
  define f1 where "f1 = change_entry_of j (\<lambda>_. ?e) f"
  have "entry_ok ?e" "timed ?e \<longleftrightarrow> timed e" "packet_for ?e p"
    using fw_okD(6) [OF assms(1,2)] p by (simp_all add: entry_ok_def timed_def packet_for_def)
  then have f1: "fw_ok h J f1" "same_entries f f1" "packet_for ?e p"
    using change_entry_ok(1,2) [OF assms(1), of j J "\<lambda>_. ?e"] assms(2) fw_okD(5) [OF assms(1,2)] by (auto simp: f1_def)
  have f1e: "fw_entry f1 j = Some ?e" using assms(2) by (simp add: f1_def fw_entry_def change_entry_of_def change_pit_entry_def)
  obtain hops q where n: "with_next_hops j p f1 (best_route2_forward now j inFace (r = RetxNew)) = best_route2_forward now j inFace (r = RetxNew) hops q f1"
    "packet_for ?e q" using with_next_hops_ok [OF f1(1) f1e f1(3)] by blast
  have "keeps h J f1 (BestRouteStrategy2 now j t f)"
    using d n(1) best_route2_forward_keeps [OF f1(1) f1e n(2), of now inFace "r = RetxNew" hops] keeps_None [OF f1(1)]
    by (simp add: BestRouteStrategy2_def AfterReceiveInterest with_entry_Some [OF assms(2)] fw_try_def Let_def flip: f1_def)
  then show ?thesis using same_entries_trans [OF f1(2)] unfolding keeps_def by blast
qed (use keeps_None [OF assms(1)] processNack_keeps [OF assms(1,2)] in \<open>simp_all add: BestRouteStrategy2_def\<close>)

lemma BestRouteStrategyBase_keeps:
  assumes "fw_ok h J f" and "fw_entry f j = Some e" and "trigger_ok e t"
  shows "keeps h J f (BestRouteStrategyBase now j t f)"
proof (cases t)
  case (AfterReceiveInterest inFace p)
  have p: "packet_for e p" using assms(3) AfterReceiveInterest by (simp add: trigger_ok_def)
  let ?k = "\<lambda>hops p f. with_entry j f (\<lambda>e. case List.find (\<lambda>x. \<not> wouldViolateScope inFace p x \<and> canForwardToLegacy now e (fc_id x)) hops of
      Some x \<Rightarrow> onOutgoingInterest now j (fc_id x) p f | None \<Rightarrow> onInterestReject now j f)"
  obtain hops q where n: "with_next_hops j p f ?k = ?k hops q f" "packet_for e q" using with_next_hops_ok [OF assms(1,2) p] by blast
  show ?thesis
    using n(1) onOutgoingInterest_keeps [OF assms(1,2) n(2)] onInterestReject_keeps [OF assms(1,2)] keeps_None [OF assms(1)]
    by (simp add: BestRouteStrategyBase_def AfterReceiveInterest with_entry_Some [OF assms(2)] split: option.split)
qed (use keeps_None [OF assms(1)] in \<open>simp_all add: BestRouteStrategyBase_def\<close>)

lemma MulticastStrategy_keeps:
  assumes "fw_ok h J f" and "fw_entry f j = Some e" and "trigger_ok e t"
  shows "keeps h J f (MulticastStrategy now j t f)"
proof (cases t)
  case (AfterReceiveInterest inFace p)
  have p: "packet_for e p" using assms(3) AfterReceiveInterest by (simp add: trigger_ok_def)
  let ?last = "\<lambda>f. with_entry j f (\<lambda>e. if \<not> hasPendingOutRecords now e then onInterestReject now j f else (None, f))"
  let ?k = "\<lambda>hops p f. fw_seq (multicast_send now j inFace p hops f) ?last"
  obtain hops q where n: "with_next_hops j p f ?k = ?k hops q f" "packet_for e q" using with_next_hops_ok [OF assms(1,2) p] by blast
  have "keeps h J g (?last g)" if g: "fw_ok h J g" "same_entries f g" for g
  proof -
    obtain e' where e': "fw_entry g j = Some e'" using same_entries_Some [OF g(2) assms(2)] by blast
    show ?thesis using onInterestReject_keeps [OF g(1) e', of now] keeps_None [OF g(1)] by (simp add: with_entry_Some [OF e'])
  qed
  from keeps_seq [OF multicast_send_keeps [OF assms(1,2) n(2)] this] show ?thesis
    by (simp add: MulticastStrategy_def AfterReceiveInterest n(1))
qed (use keeps_None [OF assms(1)] in \<open>simp_all add: MulticastStrategy_def\<close>)

section \<open>What the strategies do\<close>

text \<open>
  A relation between the forwarder before and after, to which the steps of a strategy belong: changes of its
  entry, Nacks, and Interests to faces whose scope allows it.
\<close>

locale strategy_relation =
  fixes R :: "forwarder \<Rightarrow> forwarder \<Rightarrow> bool" and j :: nat and inFace :: face
  assumes R_refl: "R f f" and R_trans: "R f g \<Longrightarrow> R g k \<Longrightarrow> R f k" and R_faces: "R f g \<Longrightarrow> fw_faces g = fw_faces f"
    and R_change: "R f (change_entry_of j u f)"
    and R_nack: "R f (fw_send (SentNack i p r) f)"
    and R_interest: "x \<in> ran (fw_faces f) \<Longrightarrow> \<not> wouldViolateScope inFace q x \<Longrightarrow> R f (fw_send (SentInterest (fc_id x) q) f)"
begin

lemma R_seq: "R f (snd r) \<Longrightarrow> (\<And>g. R f g \<Longrightarrow> R g (snd (k g))) \<Longrightarrow> R f (snd (fw_seq r k))"
  using R_trans by (force simp: fw_seq_def split: prod.split option.split)

lemma R_with_entry: "(\<And>e. R f (snd (k e))) \<Longrightarrow> R f (snd (with_entry i f k))"
  by (simp add: with_entry_def R_refl split: option.split)

lemma R_try: "(\<And>x. r = Inr x \<Longrightarrow> R f (snd (k x))) \<Longrightarrow> R f (snd (fw_try r f k))"
  by (simp add: fw_try_def R_refl split: sum.split)

lemma R_await: "(\<And>x. R f (snd (k x))) \<Longrightarrow> R f (snd (fw_await r f k))"
  by (simp add: fw_await_def R_refl R_try split: option.split)

lemma R_send_interest:
  assumes "x \<in> ran (fw_faces f)" and "\<not> wouldViolateScope inFace q x"
  shows "R f (snd (onOutgoingInterest now j (fc_id x) q f))"
proof -
  have "R f (fw_send (SentInterest (fc_id x) q) (change_entry_of j u f))" for u
    using R_trans [OF R_change R_interest [OF _ assms(2)]] R_faces [OF R_change] assms(1) by simp
  then show ?thesis unfolding onOutgoingInterest_def by (intro R_with_entry R_try) simp
qed

lemma R_send_nack: "R f (snd (onOutgoingNack j k reason f))"
proof -
  have nacked: "R f (fw_send (SentNack k p r) (change_entry_of j u f))" for p r u by (rule R_trans [OF R_change R_nack])
  show ?thesis unfolding onOutgoingNack_def
    by (auto intro!: R_with_entry nacked R_refl split: option.split)
qed

lemma R_reject: "R f (snd (onInterestReject now j f))"
  unfolding onInterestReject_def setStragglerTimer_def cancelUnsatisfyAndStragglerTimer_def
  by (rule R_with_entry) (simp add: R_refl R_trans [OF R_change R_change])

lemma R_processNack: "R f (snd (processNack j f))"
proof -
  have "R f (snd (send_nacks j reason ks f))" for reason ks f
    by (induction ks arbitrary: f) (simp_all add: R_refl R_seq R_send_nack)
  then show ?thesis unfolding processNack_def sendNacks_def
    by (auto intro!: R_with_entry R_send_nack R_refl simp: Let_def)
qed

lemma R_lookupFib:
  assumes "\<And>r g. R f g \<Longrightarrow> R g (snd (k r g))"
  shows "R f (snd (lookupFib j f k))"
proof -
  have same: "R f (snd (k r f))" for r by (rule assms [OF R_refl])
  have "R f (snd (k r (change_entry_of j u f)))" for r u by (rule R_trans [OF R_change assms [OF R_change]])
  then show ?thesis unfolding lookupFib_def Let_def
    by (intro R_with_entry) (auto intro!: R_await R_try same R_refl R_change split: list.split option.split prod.split)
qed

lemma hop_faces_exist: "hop_faces f xs = Inr hs \<Longrightarrow> set hs \<subseteq> ran (fw_faces f)"
proof (induction xs arbitrary: hs)
  case (Cons x xs)
  then obtain fc hs' where "fw_faces f (nh_face x) = Some fc" "hop_faces f xs = Inr hs'" "hs = fc # hs'"
    by (auto split: option.splits simp: map_sum_def case_sum_if split: if_splits sum.splits)
  then show ?case using Cons.IH by (auto intro: ranI)
qed simp

lemma R_with_next_hops:
  assumes "\<And>hops q g. R f g \<Longrightarrow> set hops \<subseteq> ran (fw_faces g) \<Longrightarrow> R g (snd (k hops q g))"
  shows "R f (snd (with_next_hops j p f k))"
  unfolding with_next_hops_def using assms hop_faces_exist by (intro R_lookupFib R_try) blast

lemma find_hop: "List.find P hops = Some x \<Longrightarrow> x \<in> set hops \<and> P x"
  by (auto simp: find_Some_iff)

lemma eligible_scope: "isNextHopEligible inFace q x e wantUnused now \<Longrightarrow> \<not> wouldViolateScope inFace q x"
  by (simp add: isNextHopEligible_def split: if_splits)

lemma R_best_route2_forward:
  assumes "set hops \<subseteq> ran (fw_faces f)"
  shows "R f (snd (best_route2_forward now j inFace isNew hops q f))"
proof -
  have send: "R f (snd (onOutgoingInterest now j (fc_id x) q f))" if "x \<in> set hops" "isNextHopEligible inFace q x e u t" for x e u t
    using R_send_interest that assms eligible_scope by blast
  have reject: "R f (snd (fw_seq (onOutgoingNack j (fc_id inFace) NoRoute f) (onInterestReject now j)))"
    by (intro R_seq R_send_nack R_reject)
  have earliest: "R f (snd (onOutgoingInterest now j (fc_id x) q f))"
    if "findEligibleNextHopWithEarliestOutRecord inFace q hops e = Inr (Some x)" for x e
    using earliest_out_record_from [OF that [unfolded findEligibleNextHopWithEarliestOutRecord_def]] send by auto
  have last: "R f (snd (fw_try (findEligibleNextHopWithEarliestOutRecord inFace q hops e) f
      (\<lambda>r. case r of None \<Rightarrow> (None, f) | Some x \<Rightarrow> onOutgoingInterest now j (fc_id x) q f)))" for e
    by (rule R_try) (auto intro: earliest R_refl split: option.split)
  show ?thesis unfolding best_route2_forward_def
    by (rule R_with_entry) (auto intro: reject last send dest!: find_hop split: option.split)
qed

lemma R_multicast_send:
  assumes "set hops \<subseteq> ran (fw_faces f)"
  shows "R f (snd (multicast_send now j inFace q hops f))"
  using assms
proof (induction hops arbitrary: f)
  case (Cons x hops)
  have rest: "R g (snd (multicast_send now j inFace q hops g))" if "R f g" for g
    using Cons R_faces [OF that] by simp
  show ?case unfolding multicast_send.simps
    by (intro R_with_entry R_seq rest) (use Cons.prems in \<open>auto intro: R_send_interest R_refl\<close>)
qed (simp add: R_refl)

lemma R_strategies:
  assumes "\<And>fc p. t = AfterReceiveInterest fc p \<Longrightarrow> fc = inFace"
  shows "R f (snd (BestRouteStrategy2 now j t f))" "R f (snd (BestRouteStrategyBase now j t f))" "R f (snd (MulticastStrategy now j t f))"
proof -
  have next_hops: "R f (snd (with_next_hops j p (change_entry_of j u f) (best_route2_forward now j inFace b)))" for p u b
    by (rule R_trans [OF R_change R_with_next_hops [OF R_best_route2_forward]])
  show "R f (snd (BestRouteStrategy2 now j t f))"
    using assms unfolding BestRouteStrategy2_def Let_def
    by (auto intro!: R_with_entry R_try R_refl R_processNack R_change next_hops split: strategy_trigger.split)
  have branch: "R g (snd (with_entry j g (\<lambda>e. case List.find (\<lambda>x. \<not> wouldViolateScope inFace q x \<and> canForwardToLegacy now e (fc_id x)) hops of
      Some x \<Rightarrow> onOutgoingInterest now j (fc_id x) q g | None \<Rightarrow> onInterestReject now j g)))" if "set hops \<subseteq> ran (fw_faces g)" for hops q g
  proof (rule R_with_entry)
    fix e
    show "R g (snd (case List.find (\<lambda>x. \<not> wouldViolateScope inFace q x \<and> canForwardToLegacy now e (fc_id x)) hops of
      Some x \<Rightarrow> onOutgoingInterest now j (fc_id x) q g | None \<Rightarrow> onInterestReject now j g))"
    proof (cases "List.find (\<lambda>x. \<not> wouldViolateScope inFace q x \<and> canForwardToLegacy now e (fc_id x)) hops")
      case (Some x)
      then show ?thesis using find_hop [OF Some] R_send_interest [of x g q now] that by auto
    qed (simp add: R_reject)
  qed
  show "R f (snd (BestRouteStrategyBase now j t f))"
    using assms unfolding BestRouteStrategyBase_def
    by (auto intro!: R_with_entry R_with_next_hops R_refl branch split: strategy_trigger.split)
  show "R f (snd (MulticastStrategy now j t f))"
    using assms unfolding MulticastStrategy_def
    by (auto intro!: R_with_next_hops R_seq R_with_entry R_multicast_send R_refl R_reject split: strategy_trigger.split)
qed

end

text \<open>Interests go only to existing faces, and to none whose scope forbids it.\<close>

definition forwards :: "face \<Rightarrow> forwarder \<Rightarrow> forwarder \<Rightarrow> bool" where
  "forwards inFace f g \<longleftrightarrow> fw_faces g = fw_faces f \<and> (\<exists>new. fw_sent g = fw_sent f @ new
     \<and> (\<forall>k q. SentInterest k q \<in> set new \<longrightarrow> (\<exists>x \<in> ran (fw_faces f). fc_id x = k \<and> \<not> wouldViolateScope inFace q x)))"

lemma forwards_same: "fw_faces g = fw_faces f \<Longrightarrow> fw_sent g = fw_sent f \<Longrightarrow> forwards inFace f g"
  by (simp add: forwards_def)

lemma forwards_trans:
  assumes "forwards inFace f g" and "forwards inFace g k"
  shows "forwards inFace f k"
proof -
  obtain a where a: "fw_faces g = fw_faces f" "fw_sent g = fw_sent f @ a"
    "\<forall>k q. SentInterest k q \<in> set a \<longrightarrow> (\<exists>x \<in> ran (fw_faces f). fc_id x = k \<and> \<not> wouldViolateScope inFace q x)"
    using assms(1) unfolding forwards_def by blast
  obtain b where b: "fw_faces k = fw_faces g" "fw_sent k = fw_sent g @ b"
    "\<forall>k q. SentInterest k q \<in> set b \<longrightarrow> (\<exists>x \<in> ran (fw_faces g). fc_id x = k \<and> \<not> wouldViolateScope inFace q x)"
    using assms(2) unfolding forwards_def by blast
  have "\<forall>k q. SentInterest k q \<in> set (a @ b) \<longrightarrow> (\<exists>x \<in> ran (fw_faces f). fc_id x = k \<and> \<not> wouldViolateScope inFace q x)"
    using a(1,3) b(3) by auto
  then show ?thesis unfolding forwards_def using a(1,2) b(1,2) by (intro conjI exI [of _ "a @ b"]) simp_all
qed

lemma forwards_send: "(\<And>k q. s = SentInterest k q \<Longrightarrow> \<exists>x \<in> ran (fw_faces f). fc_id x = k \<and> \<not> wouldViolateScope inFace q x) \<Longrightarrow> forwards inFace f (fw_send s f)"
  unfolding forwards_def by (intro conjI exI [of _ "[s]"]) (auto simp: fw_send_def)

interpretation leaves_others: strategy_relation "aside j" j inFace for j inFace
  by unfold_locales (auto simp: aside_def data_sent_def fw_send_def change_entry_of_def change_pit_entry_def fw_entry_def)

interpretation respects_scope: strategy_relation "forwards inFace" j inFace for j inFace
proof unfold_locales
  show "fw_faces g = fw_faces f" if "forwards inFace f g" for f g using that by (simp add: forwards_def)
  show "forwards inFace f (change_entry_of j u f)" for f u by (rule forwards_same) (simp_all add: change_entry_of_def)
qed (auto intro: forwards_same forwards_trans forwards_send)

text \<open>The contract of a strategy that takes care of the scope of faces.\<close>

locale scoped_strategy = forwarding_strategy +
  assumes strategy_scope: "(\<And>fc p. t = AfterReceiveInterest fc p \<Longrightarrow> fc = inFace) \<Longrightarrow> forwards inFace f (snd (strat now j t f))"

definition trigger_face :: "strategy_trigger \<Rightarrow> face" where
  "trigger_face t = (case t of AfterReceiveInterest fc p \<Rightarrow> fc | _ \<Rightarrow> \<lparr>fc_id = 0, fc_local = True, fc_multiAccess = False\<rparr>)"

lemma trigger_face: "t = AfterReceiveInterest fc p \<Longrightarrow> fc = trigger_face t"
  by (simp add: trigger_face_def)

interpretation best_route2: forwarding_strategy BestRouteStrategy2
  by unfold_locales (rule BestRouteStrategy2_keeps leaves_others.R_strategies(1) [OF trigger_face]; assumption)+

interpretation best_route: forwarding_strategy BestRouteStrategyBase
  by unfold_locales (rule BestRouteStrategyBase_keeps leaves_others.R_strategies(2) [OF trigger_face]; assumption)+

interpretation multicast: forwarding_strategy MulticastStrategy
  by unfold_locales (rule MulticastStrategy_keeps leaves_others.R_strategies(3) [OF trigger_face]; assumption)+

interpretation best_route2_scoped: scoped_strategy BestRouteStrategy2
  by unfold_locales (rule respects_scope.R_strategies(1); blast)

interpretation best_route_scoped: scoped_strategy BestRouteStrategyBase
  by unfold_locales (rule respects_scope.R_strategies(2); blast)

interpretation multicast_scoped: scoped_strategy MulticastStrategy
  by unfold_locales (rule respects_scope.R_strategies(3); blast)

end
