(* ===== verification/Forwarding.thy ===== *)
theory Forwarding
  imports FibOk
begin

text \<open>
  From the routing information base to forwarding: the commands of the FIB updater, executed by the
  FIB manager on the tables of the forwarder, and what a longest prefix match then finds. The properties
  of the name tree, of its hash table and of the FIB are stated here as well.
\<close>

section \<open>Commands\<close>

text \<open>The parameters of a command; one that removes a next hop has no cost.\<close>

definition update_parameters :: "fib_update \<Rightarrow> control_parameters" where
  "update_parameters u = \<lparr>cp_name = fb_name u, cp_faceId = fb_faceId u, cp_cost = (case fb_action u of ADD_NEXTHOP \<Rightarrow> Some (fb_cost u) | REMOVE_NEXTHOP \<Rightarrow> None)\<rparr>"

definition execute_update :: "u64 set \<Rightarrow> u64 option \<Rightarrow> fib_update \<Rightarrow> fib_table \<Rightarrow> (fib_table \<times> control_response) res option" where
  "execute_update faces tag u F =
     (case fb_action u of
        ADD_NEXTHOP \<Rightarrow> Some (FibManager_addNextHop faces tag (update_parameters u) F)
      | REMOVE_NEXTHOP \<Rightarrow> FibManager_removeNextHop faces tag (update_parameters u) F)"

fun execute_updates :: "u64 set \<Rightarrow> u64 option \<Rightarrow> fib_update list \<Rightarrow> fib_table \<Rightarrow> (fib_table \<times> control_response list) res option" where
  "execute_updates faces tag [] F = Some (Inr (F, []))"
| "execute_updates faces tag (u # us) F =
     (case execute_update faces tag u F of
        None \<Rightarrow> None
      | Some (Inl e) \<Rightarrow> Some (Inl e)
      | Some (Inr (F1, r)) \<Rightarrow>
          (case execute_updates faces tag us F1 of
             None \<Rightarrow> None
           | Some (Inl e) \<Rightarrow> Some (Inl e)
           | Some (Inr (F2, rs)) \<Rightarrow> Some (Inr (F2, r # rs))))"

lemma execute_update_ok:
  assumes "fib_ok F" and "fb_faceId u \<noteq> 0" and "fb_faceId u \<in> faces"
  shows "\<exists>F'. execute_update faces tag u F = Some (Inr (F', 200, Some (update_parameters u))) \<and> fib_ok F' \<and> fib_view F' = apply_command u (fib_view F)
    \<and> same_pit (ft_nameTree F) (ft_nameTree F')"
proof (cases "fb_action u")
  case ADD_NEXTHOP
  then show ?thesis using FibManager_addNextHop_ok [OF assms, of tag "fb_name u" "fb_cost u"]
    by (auto simp: execute_update_def update_parameters_def apply_command_def)
next
  case REMOVE_NEXTHOP
  then show ?thesis using FibManager_removeNextHop_ok [OF assms, of tag "fb_name u" None]
    by (auto simp: execute_update_def update_parameters_def apply_command_def)
qed

lemma execute_updates_run:
  "fib_ok F \<Longrightarrow> \<forall>u \<in> set us. fb_faceId u \<noteq> 0 \<and> fb_faceId u \<in> faces \<Longrightarrow>
   \<exists>F'. execute_updates faces tag us F = Some (Inr (F', map (\<lambda>u. (200, Some (update_parameters u))) us)) \<and> fib_ok F' \<and> fib_view F' = apply_commands us (fib_view F)"
proof (induction us arbitrary: F)
  case (Cons u us)
  obtain F1 where F1: "execute_update faces tag u F = Some (Inr (F1, 200, Some (update_parameters u)))" "fib_ok F1" "fib_view F1 = apply_command u (fib_view F)"
    using execute_update_ok [OF Cons.prems(1), of u faces tag] Cons.prems(2) by auto
  obtain F2 where "execute_updates faces tag us F1 = Some (Inr (F2, map (\<lambda>u. (200, Some (update_parameters u))) us))" "fib_ok F2"
    "fib_view F2 = apply_commands us (fib_view F1)" using Cons.IH [OF F1(2)] Cons.prems(2) by auto
  then show ?case using F1 by (simp add: apply_commands_def)
qed (simp add: apply_commands_def)

section \<open>Trees without empty entries\<close>

text \<open>Such a tree has the prefixes of the names that something is attached to, and no other names.\<close>

lemma tidy_names:
  assumes "tree_ok t" and "tidy t"
  shows "ht_map t m \<noteq> None \<longleftrightarrow> (\<exists>r. hasTableEntries (nt_tables t (m @ r)))"
proof
  define L where "L = Max (length ` dom (ht_map t))"
  have fin: "finite (dom (ht_map t))" by (simp add: ht_map_def finite_dom_map_of)
  have L: "length k \<le> L" if "ht_map t k \<noteq> None" for k using that fin by (auto simp: L_def domIff intro: Max_ge)
  have "ht_map t m \<noteq> None \<Longrightarrow> \<exists>r. hasTableEntries (nt_tables t (m @ r))" for m
  proof (induction "L - length m" arbitrary: m rule: less_induct)
    case less
    from tidyD [OF assms(2,1) less.prems] show ?case
    proof
      assume "hasTableEntries (nt_tables t m)"
      then show ?thesis by (intro exI [of _ "[]"]) simp
    next
      assume "\<exists>k. ht_map t k \<noteq> None \<and> k \<noteq> [] \<and> butlast k = m"
      then obtain c where k: "ht_map t (m @ [c]) \<noteq> None" by (metis append_butlast_last_id)
      have "L - length (m @ [c]) < L - length m" using L [OF k] by simp
      from less.hyps [OF this k] obtain r where "hasTableEntries (nt_tables t ((m @ [c]) @ r))" by blast
      then show ?thesis by (intro exI [of _ "c # r"]) simp
    qed
  qed
  then show "ht_map t m \<noteq> None \<Longrightarrow> \<exists>r. hasTableEntries (nt_tables t (m @ r))" .
  assume "\<exists>r. hasTableEntries (nt_tables t (m @ r))"
  then obtain r where r: "hasTableEntries (nt_tables t (m @ r))" by blast
  have "ht_map t (m @ r) \<noteq> None"
  proof
    assume "ht_map t (m @ r) = None"
    then show False using r by (simp add: nt_tables_map nt_entry_new_def hasTableEntries_def)
  qed
  then show "ht_map t m \<noteq> None" using prefix_closed [OF assms(1), of "m @ r" "length m"] by (simp del: not_None_eq)
qed

text \<open>An entry that was looked up and to which nothing got attached leaves no trace.\<close>

lemma looked_up_and_erased:
  assumes "tree_ok t" and "tidy t" and "tree_ok t1" and "nt_tables t1 = nt_tables t"
    and dom: "\<And>m. ht_map t1 m \<noteq> None \<longleftrightarrow> ht_map t m \<noteq> None \<or> (\<exists>r. n = m @ r)"
  shows "\<exists>t2 k. eraseIfEmpty n True t1 = Some (Inr (t2, k)) \<and> tree_ok t2 \<and> tidy t2 \<and> nt_tables t2 = nt_tables t \<and> (\<forall>m. ht_map t2 m \<noteq> None \<longleftrightarrow> ht_map t m \<noteq> None)"
proof -
  have n: "ht_map t1 n \<noteq> None" unfolding dom by simp
  obtain t2 k where t2: "erase_loop True (Some n) 0 t1 = Some (Inr (t2, k))" "tree_ok t2" "nt_tables t2 = nt_tables t1"
    "\<forall>m e. ht_map t1 m = Some e \<and> m \<noteq> n \<longrightarrow> \<not> ne_isEmpty e \<Longrightarrow> tidy t2" using erase_loop_ok [OF assms(3) n, of True 0] by blast
  have "\<not> ne_isEmpty e" if e: "ht_map t1 m = Some e" "m \<noteq> n" for m e
  proof -
    consider r where "n = m @ r" "r \<noteq> []" | "ht_map t m \<noteq> None" using dom [of m] e by auto
    then have "hasTableEntries (nt_tables t1 m) \<or> (\<exists>k. ht_map t1 k \<noteq> None \<and> k \<noteq> [] \<and> butlast k = m)"
    proof cases
      case 1
      then obtain c r' where n: "n = m @ c # r'" by (metis neq_Nil_conv)
      then have "ht_map t1 (m @ [c]) \<noteq> None" unfolding dom by simp
      moreover have "m @ [c] \<noteq> []" "butlast (m @ [c]) = m" by simp_all
      ultimately show ?thesis by blast
    next
      case 2
      then show ?thesis using tidyD [OF assms(2,1) 2] dom unfolding assms(4) by blast
    qed
    then show ?thesis unfolding nonempty_iff [OF assms(3) e(1)] .
  qed
  then have "tidy t2" using t2(4) by blast
  then have "\<forall>m. ht_map t2 m \<noteq> None \<longleftrightarrow> ht_map t m \<noteq> None"
    unfolding tidy_names [OF t2(2) \<open>tidy t2\<close>] tidy_names [OF assms(1,2)] t2(3) assms(4) by simp
  then show ?thesis using t2(1-3) \<open>tidy t2\<close> assms(4) unfolding eraseIfEmpty_def by (intro exI [of _ t2] exI [of _ k]) (simp del: not_None_eq)
qed

section \<open>Examples\<close>

definition example_options :: ht_options where
  "example_options = \<lparr>ho_compute = (\<lambda>_. 0), ho_initialSize = 16, ho_minSize = 16, ho_expandThreshold = (\<lambda>n. n div 2), ho_expand = (\<lambda>n. 2 * n),
     ho_shrinkThreshold = (\<lambda>n. n div 10), ho_shrink = (\<lambda>n. n div 2)\<rparr>"

lemma example_options_ok: "options_ok example_options"
  by (simp add: options_ok_def example_options_def)

lemma new_tree_ok: "tree_ok (Hashtable_new example_options)" "tidy (Hashtable_new example_options)" "ht_map (Hashtable_new example_options) = Map.empty"
  using Hashtable_new_ok [OF example_options_ok] by (simp_all add: tree_ok_def tidy_def)

lemma new_fib_ok: "fib_ok (Fib_new example_options)" "fib_view (Fib_new example_options) = (\<lambda>_ _. None)"
proof -
  have "fib_at (Fib_new example_options) n = None" for n
    using new_tree_ok(3) by (simp add: fib_at_def Fib_new_def nt_tables_map nt_entry_new_def)
  then show "fib_ok (Fib_new example_options)" "fib_view (Fib_new example_options) = (\<lambda>_ _. None)"
    using new_tree_ok by (simp_all add: fib_ok_def fib_view_def fun_eq_iff) (simp_all add: Fib_new_def)
qed

lemma new_rib: "in_sync Rib_new" "Rib_find Rib_new n = None" "fib_of Rib_new = (\<lambda>_ _. None)" "route_faces Rib_new = {}"
proof -
  have n: "Rib_find Rib_new n = None" for n by (simp add: Rib_new_def Rib_find_def map_find_def lower_bound_def)
  then have "names_in Rib_new = {}" by (simp add: names_in_def)
  then show "in_sync Rib_new" "Rib_find Rib_new n = None" "fib_of Rib_new = (\<lambda>_ _. None)" "route_faces Rib_new = {}"
    using n by (simp_all add: in_sync_def fib_of_def route_faces_def fun_eq_iff)
qed

section \<open>Properties\<close>

text \<open>
  C30: The two lookups of the longest matching prefix are equivalent, as the header of the name tree says:
  the one that hashes all prefixes of a name and tries them from the longest, and the one that follows the
  parents of an entry. Both return the longest prefix of the name whose entry satisfies the selector,
  neither fails an assertion, and following the parents ends.
\<close>

theorem findLongestPrefixMatch_equivalent:
  assumes "tree_ok t" and "ht_map t n \<noteq> None"
  shows "findLongestPrefixMatch_name P n t = Inr (longest_prefix (selected P t) n)
     \<and> findLongestPrefixMatch_entry P (Some n) t = Some (longest_prefix (selected P t) n)"
  using match_name_ok match_entry_ok [OF assms] assms(1) by (simp add: tree_ok_def)

theorem findLongestPrefixMatch_equivalent_witness:
  "\<exists>t. NameTree_lookup [Component 8 [97], Component 8 [98]] (Hashtable_new example_options) = Inr t
     \<and> findLongestPrefixMatch_entry (\<lambda>_. True) (Some [Component 8 [97]]) t = Some (longest_prefix (selected (\<lambda>_. True) t) [Component 8 [97]])"
proof -
  let ?n = "[Component 8 [97], Component 8 [98]] :: full_name"
  obtain t where t: "NameTree_lookup ?n (Hashtable_new example_options) = Inr t" "tree_ok t"
    "\<forall>m. ht_map t m \<noteq> None \<longleftrightarrow> ht_map (Hashtable_new example_options) m \<noteq> None \<or> (\<exists>r. ?n = m @ r)"
    using NameTree_lookup_ok [OF new_tree_ok(1), of ?n] by blast
  have "ht_map t [Component 8 [97]] \<noteq> None" using t(3) by simp
  then show ?thesis using findLongestPrefixMatch_equivalent [OF t(2), of "[Component 8 [97]]" "\<lambda>_. True"] t(1) by blast
qed

text \<open>
  C25: The hash table of the name tree is a map from names to entries, whatever the hash function and the
  load factors are: with the hashes computed for a name, inserting any prefix of it returns the prefix's
  node and whether it is new, adds only that entry, and moves nodes to new buckets without losing one;
  finding tells whether the entry is there; erasing an entry without parent removes only that entry. No
  assertion fails.
\<close>

theorem Hashtable_is_map:
  assumes "ht_ok t" and "k \<le> length n"
  shows "\<exists>t1. Hashtable_insert n k (computeHashes (ht_options t) n) t = Inr (t1, Some (take k n), ht_map t (take k n) = None)
     \<and> ht_ok t1 \<and> ht_map t1 = (if ht_map t (take k n) = None then (ht_map t)(take k n \<mapsto> nt_entry_new (take k n)) else ht_map t)
     \<and> Hashtable_find_hashes n k (computeHashes (ht_options t) n) t = Inr (if ht_map t (take k n) = None then None else Some (take k n))
     \<and> (\<forall>e. ht_map t (take k n) = Some e \<and> ne_parent e = None \<longrightarrow>
          (\<exists>t2. Hashtable_erase (take k n) t = Inr t2 \<and> ht_ok t2 \<and> ht_map t2 = (ht_map t)(take k n := None)))"
proof (cases "ht_map t (take k n)")
  case None
  then show ?thesis using Hashtable_insert_ok(2) [OF assms] Hashtable_find_hashes_ok [OF assms] by auto
next
  case (Some e)
  then show ?thesis using Hashtable_insert_ok(1) [OF assms] Hashtable_find_hashes_ok [OF assms] Hashtable_erase_ok [OF assms(1) Some] assms(1) by auto
qed

theorem Hashtable_is_map_witness:
  "\<exists>t1. Hashtable_insert [Component 8 [97]] 1 (computeHashes example_options [Component 8 [97]]) (Hashtable_new example_options)
       = Inr (t1, Some [Component 8 [97]], True) \<and> ht_ok t1"
proof -
  have "ht_ok (Hashtable_new example_options)" "ht_options (Hashtable_new example_options) = example_options"
    using Hashtable_new_ok [OF example_options_ok] by simp_all
  then show ?thesis using Hashtable_is_map [of "Hashtable_new example_options" 1 "[Component 8 [97]]"] new_tree_ok(3) by auto
qed

text \<open>
  C10: Looking a name up in the name tree adds the missing entries of the name and its prefixes, linked to
  each other, and nothing else; it leaves everything attached to names alone and fails no assertion. If
  then nothing gets attached, erasing the entry if it is empty removes exactly what the lookup has added:
  the walk along the parents ends, the tree is linked, has no empty entries, and has the names it had.
\<close>

theorem NameTree_lookup_eraseIfEmpty:
  assumes "tree_ok t" and "tidy t"
  shows "\<exists>t1 t2 k. NameTree_lookup n t = Inr t1 \<and> tree_ok t1 \<and> nt_tables t1 = nt_tables t
     \<and> (\<forall>m. ht_map t1 m \<noteq> None \<longleftrightarrow> ht_map t m \<noteq> None \<or> is_prefix_of m n)
     \<and> eraseIfEmpty n True t1 = Some (Inr (t2, k)) \<and> tree_ok t2 \<and> tidy t2 \<and> nt_tables t2 = nt_tables t
     \<and> (\<forall>m. ht_map t2 m \<noteq> None \<longleftrightarrow> ht_map t m \<noteq> None)"
proof -
  obtain t1 where t1: "NameTree_lookup n t = Inr t1" "tree_ok t1" "nt_tables t1 = nt_tables t"
    "\<And>m. ht_map t1 m \<noteq> None \<longleftrightarrow> ht_map t m \<noteq> None \<or> (\<exists>r. n = m @ r)" using NameTree_lookup_ok [OF assms(1), of n] by blast
  obtain t2 k where t2: "eraseIfEmpty n True t1 = Some (Inr (t2, k))" "tree_ok t2" "tidy t2" "nt_tables t2 = nt_tables t"
    "\<forall>m. ht_map t2 m \<noteq> None \<longleftrightarrow> ht_map t m \<noteq> None" using looked_up_and_erased [OF assms t1(2,3), of n] t1(4) by blast
  show ?thesis using t1 t2 by (intro exI [of _ t1] exI [of _ t2] exI [of _ k]) (simp add: is_prefix_of_append del: not_None_eq)
qed

theorem NameTree_lookup_eraseIfEmpty_witness:
  "\<exists>t1 t2 k. NameTree_lookup [Component 8 [97]] (Hashtable_new example_options) = Inr t1 \<and> eraseIfEmpty [Component 8 [97]] True t1 = Some (Inr (t2, k))
     \<and> tree_ok t2 \<and> tidy t2"
  using NameTree_lookup_eraseIfEmpty [OF new_tree_ok(1,2), of "[Component 8 [97]]"] by blast

text \<open>
  C26: Any sequence of commands of the FIB updater that names existing faces is executed by the FIB manager
  with the code 200 for each; its effect on the FIB, seen as a function from names and faces to costs, is
  the abstract one of the commands, and the FIB keeps its invariant: the entries have at least one next
  hop, one per face, in the order of costs, and the name tree has no entry that is there for nothing.
\<close>

theorem execute_updates_refines:
  assumes "fib_ok F" and "\<forall>u \<in> set us. fb_faceId u \<noteq> 0 \<and> fb_faceId u \<in> faces"
  shows "\<exists>F'. execute_updates faces tag us F = Some (Inr (F', map (\<lambda>u. (200, Some (update_parameters u))) us))
     \<and> fib_ok F' \<and> fib_view F' = apply_commands us (fib_view F)"
  by (rule execute_updates_run [OF assms])

theorem execute_updates_refines_witness:
  "\<exists>F'. execute_updates {1} None [createAddUpdate [Component 8 [97]] 1 5, createRemoveUpdate [Component 8 [97]] 1] (Fib_new example_options)
      = Some (Inr (F', [(200, Some (update_parameters (createAddUpdate [Component 8 [97]] 1 5))), (200, Some (update_parameters (createRemoveUpdate [Component 8 [97]] 1)))]))
    \<and> fib_view F' = (\<lambda>_ _. None)"
proof -
  let ?us = "[createAddUpdate [Component 8 [97]] 1 5, createRemoveUpdate [Component 8 [97]] 1]"
  have "\<forall>u \<in> set ?us. fb_faceId u \<noteq> 0 \<and> fb_faceId u \<in> {1}" by (simp add: createAddUpdate_def createRemoveUpdate_def)
  moreover have "apply_commands ?us (\<lambda>_ _. None) = (\<lambda>_ _. None)"
    by (simp add: apply_commands_def apply_command_def createAddUpdate_def createRemoveUpdate_def fun_eq_iff)
  ultimately show ?thesis using execute_updates_refines [OF new_fib_ok(1), of ?us "{1}" None] new_fib_ok(2) by auto
qed

text \<open>
  C2: from a registration to forwarding. In an idle system with a well-formed table whose forwarder's
  FIB is the one the table stands for, a route is registered for a new name; the faces of the routes
  exist, no entry of the table has two routes of one face, the counts of capture routes are true and the
  inherited routes on record are those that the names inherit. Commands for the route's face only are
  sent; the FIB manager executes each with the code 200; when these answers have come, in whatever
  order, commands for other faces only are sent and executed, and when their answers have come the route
  is in the table, the manager has been told of the success, and the forwarder's FIB is the one the new
  routing table stands for. A lookup of any name then finds its longest prefix that has a next hop by
  route inheritance in the new table.
\<close>

theorem registration_reaches_forwarder:
  assumes "rib_ok (sy_rib y)" and "in_sync (sy_rib y)" and "Rib_find (sy_rib y) n = None" and "sy_queue y = []" and "\<not> sy_inProgress y"
    and "fib_ok F" and "fib_view F = fib_of (sy_rib y)" and "\<forall>f \<in> insert (rt_faceId r) (route_faces (sy_rib y)). f \<noteq> 0 \<and> f \<in> faces"
  shows "\<exists>y1 us vs F1 F2. beginApplyUpdate \<lparr>ru_action = REGISTER, ru_name = n, ru_route = r\<rparr> (Some k) y = Some (Inr y1)
     \<and> map cm_update (sy_commands y1) = map cm_update (sy_commands y) @ us
     \<and> (\<forall>u \<in> set us. fb_faceId u = rt_faceId r) \<and> (\<forall>v \<in> set vs. fb_faceId v \<noteq> rt_faceId r)
     \<and> execute_updates faces tag us F = Some (Inr (F1, map (\<lambda>u. (200, Some (update_parameters u))) us))
     \<and> execute_updates faces tag vs F1 = Some (Inr (F2, map (\<lambda>u. (200, Some (update_parameters u))) vs)) \<and> fib_ok F2
     \<and> (\<forall>us' vs'. mset us' = mset us \<and> mset vs' = mset vs \<longrightarrow>
         (\<exists>y2. answers (register_item n r k) (us' @ vs') y1 = Some (Inr y2)
            \<and> map cm_update (sy_commands y2) = map cm_update (sy_commands y) @ us @ vs
            \<and> \<not> sy_inProgress y2 \<and> sy_notified y2 = sy_notified y @ [(k, True)] \<and> routes_at (sy_rib y2) = (routes_at (sy_rib y))(n := [r])
            \<and> fib_view F2 = fib_of (sy_rib y2)
            \<and> (\<forall>m. Fib_findLongestPrefixMatch m F2
                 = Inr (case longest_prefix (\<lambda>p. fib_of (sy_rib y2) p \<noteq> (\<lambda>_. None)) m of None \<Rightarrow> EmptyEntry | Some p \<Rightarrow> Attached p))))"
proof -
  obtain y1 us vs where y1: "beginApplyUpdate \<lparr>ru_action = REGISTER, ru_name = n, ru_route = r\<rparr> (Some k) y = Some (Inr y1)"
    "map cm_update (sy_commands y1) = map cm_update (sy_commands y) @ us"
    "\<forall>u \<in> set (us @ vs). fb_faceId u = rt_faceId r \<or> fb_faceId u \<in> route_faces (sy_rib y)"
    and batch: "\<forall>u \<in> set us. fb_faceId u = rt_faceId r" "\<forall>v \<in> set vs. fb_faceId v \<noteq> rt_faceId r"
    and finished: "\<forall>us' vs'. mset us' = mset us \<and> mset vs' = mset vs \<longrightarrow>
         (\<exists>y2. answers (register_item n r k) (us' @ vs') y1 = Some (Inr y2)
            \<and> map cm_update (sy_commands y2) = map cm_update (sy_commands y) @ us @ vs
            \<and> \<not> sy_inProgress y2 \<and> sy_queue y2 = [] \<and> sy_notified y2 = sy_notified y @ [(k, True)]
            \<and> rib_ok (sy_rib y2) \<and> routes_at (sy_rib y2) = (routes_at (sy_rib y))(n := [r])
            \<and> apply_commands (us @ vs) (fib_of (sy_rib y)) = fib_of (sy_rib y2))"
    using new_prefix_run [OF assms(1-5), of r k] by blast
  have faces: "\<forall>u \<in> set (us @ vs). fb_faceId u \<noteq> 0 \<and> fb_faceId u \<in> faces" using y1(3) assms(8) by blast
  obtain F1 where F1: "execute_updates faces tag us F = Some (Inr (F1, map (\<lambda>u. (200, Some (update_parameters u))) us))" "fib_ok F1"
    "fib_view F1 = apply_commands us (fib_view F)" using execute_updates_run [OF assms(6), of us faces tag] faces by auto
  obtain F2 where F2: "execute_updates faces tag vs F1 = Some (Inr (F2, map (\<lambda>u. (200, Some (update_parameters u))) vs))" "fib_ok F2"
    "fib_view F2 = apply_commands vs (fib_view F1)" using execute_updates_run [OF F1(2), of vs faces tag] faces by auto
  have view: "fib_view F2 = apply_commands (us @ vs) (fib_of (sy_rib y))" by (simp add: F1(3) F2(3) assms(7) apply_commands_def)
  show ?thesis
  proof (rule exI [of _ y1], rule exI [of _ us], rule exI [of _ vs], rule exI [of _ F1], rule exI [of _ F2], intro conjI y1(1,2) batch F1(1) F2(1,2) allI impI)
    fix us' vs' assume h: "mset us' = mset us \<and> mset vs' = mset vs"
    from finished [rule_format, OF h] obtain y2 where y2: "answers (register_item n r k) (us' @ vs') y1 = Some (Inr y2)"
      "map cm_update (sy_commands y2) = map cm_update (sy_commands y) @ us @ vs" "\<not> sy_inProgress y2"
      "sy_notified y2 = sy_notified y @ [(k, True)]" "routes_at (sy_rib y2) = (routes_at (sy_rib y))(n := [r])"
      "apply_commands (us @ vs) (fib_of (sy_rib y)) = fib_of (sy_rib y2)" by blast
    have v: "fib_view F2 = fib_of (sy_rib y2)" using view y2(6) by simp
    show "\<exists>y2. answers (register_item n r k) (us' @ vs') y1 = Some (Inr y2)
        \<and> map cm_update (sy_commands y2) = map cm_update (sy_commands y) @ us @ vs
        \<and> \<not> sy_inProgress y2 \<and> sy_notified y2 = sy_notified y @ [(k, True)] \<and> routes_at (sy_rib y2) = (routes_at (sy_rib y))(n := [r])
        \<and> fib_view F2 = fib_of (sy_rib y2)
        \<and> (\<forall>m. Fib_findLongestPrefixMatch m F2
             = Inr (case longest_prefix (\<lambda>p. fib_of (sy_rib y2) p \<noteq> (\<lambda>_. None)) m of None \<Rightarrow> EmptyEntry | Some p \<Rightarrow> Attached p))"
      using y2(1-5) v longest_match [OF F2(2), unfolded v] by (intro exI [of _ y2] conjI) auto
  qed
qed

theorem registration_reaches_forwarder_witness:
  "\<exists>y1 us vs F1 F2. beginApplyUpdate \<lparr>ru_action = REGISTER, ru_name = [Component 8 [97]], ru_route = example_route 1 0 0 10\<rparr> (Some 7) (idle_system Rib_new) = Some (Inr y1)
     \<and> execute_updates {rt_faceId (example_route 1 0 0 10)} None us (Fib_new example_options) = Some (Inr (F1, map (\<lambda>u. (200, Some (update_parameters u))) us))
     \<and> execute_updates {rt_faceId (example_route 1 0 0 10)} None vs F1 = Some (Inr (F2, map (\<lambda>u. (200, Some (update_parameters u))) vs))
     \<and> (\<exists>y2. answers (register_item [Component 8 [97]] (example_route 1 0 0 10) 7) (us @ vs) y1 = Some (Inr y2) \<and> fib_view F2 = fib_of (sy_rib y2))"
proof -
  have e: "sy_rib (idle_system Rib_new) = Rib_new" "sy_queue (idle_system Rib_new) = []" "\<not> sy_inProgress (idle_system Rib_new)"
    by (simp_all add: idle_system_def)
  have f: "rt_faceId (example_route 1 0 0 10) \<noteq> 0" by (simp add: example_route_def)
  have p: "rib_ok (sy_rib (idle_system Rib_new))" "in_sync (sy_rib (idle_system Rib_new))" "Rib_find (sy_rib (idle_system Rib_new)) [Component 8 [97]] = None"
    "fib_view (Fib_new example_options) = fib_of (sy_rib (idle_system Rib_new))"
    "\<forall>f \<in> insert (rt_faceId (example_route 1 0 0 10)) (route_faces (sy_rib (idle_system Rib_new))). f \<noteq> 0 \<and> f \<in> {rt_faceId (example_route 1 0 0 10)}"
    using f by (simp_all add: e(1) new_rib new_fib_ok(2) Rib_new_ok(1))
  from registration_reaches_forwarder [OF p(1-3) e(2,3) new_fib_ok(1) p(4,5), of 7 None] show ?thesis
  proof (elim exE conjE, goal_cases)
    case (1 y1 us vs F1 F2)
    from 1(8) [rule_format, of us vs] 1(1,5,6) show ?case by (intro exI [of _ y1] exI [of _ us] exI [of _ vs] exI [of _ F1] exI [of _ F2]) auto
  qed
qed

text \<open>
  Erasing a name from the FIB counts an entry as erased even when the name has none: for a name that is
  in the name tree only because a longer name is, the FIB stays as it is but its number of entries goes
  down, from 0 to 2^64 - 1 if there is none.
\<close>

theorem Fib_erase_name_miscounts:
  assumes "fib_ok F" and "ht_map (ft_nameTree F) n \<noteq> None" and "fib_view F n = (\<lambda>_. None)"
  shows "\<exists>F'. Fib_erase_name n F = Some (Inr F') \<and> fib_view F' = fib_view F \<and> ft_nItems F' = ft_nItems F - 1 \<and> \<not> fib_ok F'"
proof -
  let ?t = "ft_nameTree F" and ?h = "\<lambda>e. e\<lparr>ne_fibEntry := None\<rparr>"
  have F: "tree_ok ?t" "tidy ?t" "ht_ok ?t" "ft_nItems F = of_nat (card {m. fib_at F m \<noteq> None})" using assms(1) by (simp_all add: fib_ok_def tree_ok_def)
  have none: "ne_fibEntry (nt_tables ?t n) = None" using assms(3) fib_view_none [OF assms(1)] by (simp add: fib_at_def)
  define t1 where "t1 = ht_update n ?h ?t"
  note up = tables_update [OF F(1) assms(2), of ?h "\<lambda>_. None", folded t1_def, simplified]
  have "(nt_tables ?t n)\<lparr>ne_fibEntry := None\<rparr> = nt_tables ?t n" using none by (cases "nt_tables ?t n") simp
  then have same: "nt_tables t1 = nt_tables ?t" by (simp add: up(2))
  obtain e where e: "ht_map t1 n = Some e" using up(3) [of n] assms(2) by auto
  have "\<not> ne_isEmpty e"
    unfolding nonempty_iff [OF up(1) e] same using tidyD [OF F(2,1) assms(2)] up(3) by simp
  then have "eraseIfEmpty n True t1 = Some (Inr (t1, 0))" using e by (simp add: eraseIfEmpty_def erase_loop.simps ht_entry_map)
  moreover have "NameTree_findExactMatch n ?t = Some n" using Hashtable_find_ok [OF F(3), of n "length n"] assms(2) by (simp add: NameTree_findExactMatch_def)
  ultimately have "Fib_erase_name n F = Some (Inr \<lparr>ft_nameTree = t1, ft_nItems = ft_nItems F - 1\<rparr>)"
    by (simp add: Fib_erase_name_def Fib_erase_nte_def setFibEntry_def t1_def [symmetric] Let_def)
  moreover have at: "fib_at \<lparr>ft_nameTree = t1, ft_nItems = ft_nItems F - 1\<rparr> = fib_at F" by (simp add: fib_at_def same fun_eq_iff)
  moreover have "\<not> fib_ok \<lparr>ft_nameTree = t1, ft_nItems = ft_nItems F - 1\<rparr>" using F(4) unfolding fib_ok_def at by simp
  ultimately show ?thesis by (intro exI [of _ "\<lparr>ft_nameTree = t1, ft_nItems = ft_nItems F - 1\<rparr>"]) (simp add: fib_view_def fun_eq_iff at)
qed

theorem Fib_erase_name_miscounts_witness:
  "\<exists>F F'. FibManager_addNextHop {1} None \<lparr>cp_name = [Component 8 [97], Component 8 [98]], cp_faceId = 1, cp_cost = Some 5\<rparr> (Fib_new example_options)
       = Inr (F, 200, Some \<lparr>cp_name = [Component 8 [97], Component 8 [98]], cp_faceId = 1, cp_cost = Some 5\<rparr>)
     \<and> Fib_erase_name [Component 8 [97]] F = Some (Inr F') \<and> ft_nItems F' = ft_nItems F - 1 \<and> \<not> fib_ok F'"
proof -
  let ?n = "[Component 8 [97], Component 8 [98]] :: full_name"
  obtain F where F: "FibManager_addNextHop {1} None \<lparr>cp_name = ?n, cp_faceId = 1, cp_cost = Some 5\<rparr> (Fib_new example_options)
       = Inr (F, 200, Some \<lparr>cp_name = ?n, cp_faceId = 1, cp_cost = Some 5\<rparr>)" "fib_ok F"
    "fib_view F = (fib_view (Fib_new example_options))(?n := (fib_view (Fib_new example_options) ?n)(1 := Some 5))"
    using FibManager_addNextHop_ok [OF new_fib_ok(1), of 1 "{1}" None ?n 5] by auto
  have "fib_view F ?n \<noteq> (\<lambda>_. None)" unfolding F(3) by (auto simp: fun_eq_iff)
  then have "fib_at F ?n \<noteq> None" using fib_view_none [OF F(2)] by simp
  then have "ht_map (ft_nameTree F) ?n \<noteq> None" by (rule fib_at_dom)
  then have "ht_map (ft_nameTree F) [Component 8 [97]] \<noteq> None"
    using prefix_closed [of "ft_nameTree F" ?n 1] F(2) by (simp add: fib_ok_def del: not_None_eq)
  moreover have "fib_view F [Component 8 [97]] = (\<lambda>_. None)" unfolding F(3) new_fib_ok(2) by simp
  ultimately show ?thesis using Fib_erase_name_miscounts [OF F(2)] F(1) by blast
qed

end
