(* ===== verification/ForwarderEvents.thy ===== *)
theory ForwarderEvents
  imports StrategyOk Forwarding
begin

text \<open>
  The forwarder as a whole: its events, the states that they reach, and what holds of them. The names of
  the network regions stay the same between the events.
\<close>

section \<open>The choice of strategies\<close>

text \<open>
  Every name has an effective strategy, one of those below; which one is an argument, fixed during a run.
\<close>

definition strategies :: "strategy set" where
  "strategies = {BestRouteStrategy2, BestRouteStrategyBase, MulticastStrategy}"

definition effective :: "(full_name \<Rightarrow> strategy) \<Rightarrow> strategy" where
  "effective chosen now j t f = with_entry j f (\<lambda>e. chosen (ip_name (pe_interest e)) now j t f)"

lemma effective_contract:
  assumes "\<forall>n. chosen n \<in> strategies"
  shows "forwarding_strategy (effective chosen)" "scoped_strategy (effective chosen)"
proof -
  have s: "scoped_strategy (chosen n)" for n
    using assms best_route2_scoped.scoped_strategy_axioms best_route_scoped.scoped_strategy_axioms multicast_scoped.scoped_strategy_axioms
    unfolding strategies_def by (metis insertE singletonD)
  have k: "forwarding_strategy (chosen n)" for n using s [of n] by (simp add: scoped_strategy_def)
  show c: "forwarding_strategy (effective chosen)"
  proof unfold_locales
    show "keeps h J f (effective chosen now j t f)" if "fw_ok h J f" "fw_entry f j = Some e" "trigger_ok e t" for h J f j e t now
      using forwarding_strategy.strategy_keeps [OF k that] by (simp add: effective_def with_entry_Some [OF that(2)])
    show "aside j f (snd (effective chosen now j t f))" for j f now t
      using forwarding_strategy.strategy_aside [OF k] by (simp add: effective_def with_entry_def split: option.split)
  qed
  show "scoped_strategy (effective chosen)"
  proof (intro scoped_strategy.intro c scoped_strategy_axioms.intro)
    fix t inFace f now j
    assume "\<And>fc p. t = AfterReceiveInterest fc p \<Longrightarrow> fc = inFace"
    then have "forwards inFace f (snd (chosen n now j t f))" for n using scoped_strategy.strategy_scope [OF s] by blast
    then show "forwards inFace f (snd (effective chosen now j t f))"
      by (simp add: effective_def with_entry_def forwards_same split: option.split)
  qed
qed

section \<open>Events\<close>

text \<open>
  Packets arrive, timers that are due run, next hops are added to the FIB and removed from it, entries
  of the Content Store become stale, faces are added and the Dead Nonce List is marked and adjusted. Five marks are made per adjustment, so that the bound of
  \<open>event_mark\<close> is never reached. An Interest is well-formed, carries no Link object, and the lookup in the
  Content Store returns for it.
\<close>

definition use_fib :: "fib_table \<Rightarrow> forwarder \<Rightarrow> forwarder" where
  "use_fib F f = f\<lparr>fw_pit := (fw_pit f)\<lparr>pit_nameTree := ft_nameTree F\<rparr>, fw_nFib := ft_nItems F\<rparr>"

inductive fw_event :: "hashes \<Rightarrow> strategy \<Rightarrow> forwarder \<Rightarrow> fw_result \<Rightarrow> bool" for h strat f where
  event_Interest: "packet_ok p \<Longrightarrow> linkless p \<Longrightarrow> cs_answers h now p f \<Longrightarrow> fw_event h strat f (startProcessInterest h strat now inFace p f)"
| event_Data: "has_digest (h_sha256 h) d \<Longrightarrow> data_comparable (h_sha256 h) d (fw_pit f) \<Longrightarrow> fw_event h strat f (onIncomingData h strat now inFace d noCache f)"
| event_Nack: "packet_ok p \<Longrightarrow> linkless p \<Longrightarrow> fw_event h strat f (startProcessNack strat now inFace p reason f)"
| event_unsatisfied: "fw_entry f j = Some e \<Longrightarrow> pe_unsatisfyTimer e = Some t \<Longrightarrow> t \<le> now \<Longrightarrow> fw_event h strat f (unsatisfy_event h strat now j f)"
| event_straggler: "fw_entry f j = Some e \<Longrightarrow> pe_stragglerTimer e = Some (t, s, p) \<Longrightarrow> t \<le> now \<Longrightarrow> fw_event h strat f (straggler_event h j f)"
| event_fib: "fw_faces f (fb_faceId u) \<noteq> None \<Longrightarrow> execute_update (dom (fw_faces f)) tag u (fw_fib f) = Some (Inr (F', response)) \<Longrightarrow>
    fw_event h strat f (None, use_fib F' f)"
| event_cs: "cs_step (h_sha256 h) (fw_cs f) x \<Longrightarrow> fw_event h strat f (None, f\<lparr>fw_cs := x\<rparr>)"
| event_face: "fw_faces f (fc_id fc) = None \<Longrightarrow> fc_id fc \<noteq> INVALID_FACEID \<Longrightarrow> fw_event h strat f (None, f\<lparr>fw_faces := (fw_faces f)(fc_id fc \<mapsto> fc)\<rparr>)"
| event_mark: "length (dnl_queue (fw_dnl f)) < MAX_CAPACITY + EVICT_LIMIT \<Longrightarrow> fw_event h strat f (None, f\<lparr>fw_dnl := DNL_mark (fw_dnl f)\<rparr>)"
| event_adjust: "DNL_adjustCapacity (fw_dnl f) = Inr l \<Longrightarrow> fw_event h strat f (None, f\<lparr>fw_dnl := l\<rparr>)"

text \<open>A command of the FIB manager leaves the PIT alone, and the next hop it adds is a face.\<close>

lemma use_fib_ok:
  assumes "fw_ok h {} f" and "fw_faces f (fb_faceId u) \<noteq> None"
  shows "\<exists>F' response. execute_update (dom (fw_faces f)) tag u (fw_fib f) = Some (Inr (F', response)) \<and> fw_ok h {} (use_fib F' f)
    \<and> fib_view (fw_fib (use_fib F' f)) = apply_command u (fib_view (fw_fib f))"
proof -
  have f: "pit_ok (fw_pit f)" "fib_ok (fw_fib f)" "faces_ok f" by (rule fw_okD [OF assms(1)])+
  have u: "fb_faceId u \<noteq> 0" "fb_faceId u \<in> dom (fw_faces f)" using f(3) assms(2) by (auto simp: faces_ok_def INVALID_FACEID_def)
  obtain F' where F': "execute_update (dom (fw_faces f)) tag u (fw_fib f) = Some (Inr (F', 200, Some (update_parameters u)))" "fib_ok F'"
    "fib_view F' = apply_command u (fib_view (fw_fib f))" "same_pit (pit_nameTree (fw_pit f)) (ft_nameTree F')"
    using execute_update_ok [OF f(2) u, of tag] by (auto simp: fw_fib_def)
  let ?y = "(fw_pit f)\<lparr>pit_nameTree := ft_nameTree F'\<rparr>"
  have "attached ?y n = attached (fw_pit f) n" for n using F'(4) by (simp add: attached_def same_pit_def)
  then have "pit_ok ?y" using f(1) F'(2) by (simp add: pit_ok_def fib_ok_def)
  moreover have fib: "fw_fib (use_fib F' f) = F'" by (simp add: fw_fib_def use_fib_def)
  have "fw_faces f (nh_face x) \<noteq> None" if "fib_at F' n = Some e" "x \<in> set (fe_nextHops e)" for n e x
  proof -
    have hop: "hop_cost d k = Some c \<longleftrightarrow> \<lparr>nh_face = k, nh_cost = c\<rparr> \<in> set (fe_nextHops d)" if "fib_ok G" "fib_at G n = Some d" for G d k c
      using that hop_cost_Some [of n d k c] by (simp add: fib_ok_def)
    have "\<lparr>nh_face = nh_face x, nh_cost = nh_cost x\<rparr> = x" by simp
    then have "fib_view F' n (nh_face x) = Some (nh_cost x)" using hop [OF F'(2) that(1), of "nh_face x" "nh_cost x"] that(2)
      by (simp only: fib_view_entry [OF that(1)])
    then have "nh_face x = fb_faceId u \<or> fib_view (fw_fib f) n (nh_face x) \<noteq> None"
      by (auto simp: F'(3) apply_command_def split: fib_action.splits if_splits)
    then show ?thesis
    proof
      assume "fib_view (fw_fib f) n (nh_face x) \<noteq> None"
      then obtain d c where "fib_at (fw_fib f) n = Some d" "hop_cost d (nh_face x) = Some c" by (auto simp: fib_view_def split: option.splits)
      then have "fib_at (fw_fib f) n = Some d" "\<lparr>nh_face = nh_face x, nh_cost = c\<rparr> \<in> set (fe_nextHops d)" using hop [OF f(2)] by simp_all
      then show ?thesis using f(3) unfolding faces_ok_def by fastforce
    qed (use assms(2) in simp)
  qed
  then have "faces_ok (use_fib F' f)" using f(3) fib by (auto simp: faces_ok_def use_fib_def)
  ultimately have "fw_ok h {} (use_fib F' f)" using assms(1) fib F'(2) by (simp add: fw_ok_def) (simp add: use_fib_def fw_entry_def)
  then show ?thesis using F'(1,3) fib by auto
qed

text \<open>A forwarder without pending Interests, with the FIB \<open>F\<close>.\<close>

definition fw_start :: "hashes \<Rightarrow> fib_table \<Rightarrow> (u64 \<Rightarrow> face option) \<Rightarrow> forwarder \<Rightarrow> bool" where
  "fw_start h F faces f \<longleftrightarrow> fib_ok F \<and> (\<forall>n. ne_pitEntries (nt_tables (ft_nameTree F) n) = []) \<and> fw_pit f = Pit_new (ft_nameTree F)
     \<and> fw_nFib f = ft_nItems F \<and> fw_faces f = faces \<and> faces_ok f \<and> cs_ok (h_sha256 h) (fw_cs f) \<and> dnl_ok 0 (fw_dnl f) \<and> fw_sent f = []"

inductive fw_reachable :: "hashes \<Rightarrow> strategy \<Rightarrow> fib_table \<Rightarrow> (u64 \<Rightarrow> face option) \<Rightarrow> forwarder \<Rightarrow> bool" for h strat F faces where
  start: "fw_start h F faces f \<Longrightarrow> fw_reachable h strat F faces f"
| event: "fw_reachable h strat F faces f \<Longrightarrow> fw_event h strat f (err, g) \<Longrightarrow> fw_reachable h strat F faces g"

lemma fw_start_ok: "fw_start h F faces f \<Longrightarrow> fw_ok h {} f"
proof -
  assume s: "fw_start h F faces f"
  then have t: "tree_ok (ft_nameTree F)" "tidy (ft_nameTree F)" "fib_ok F" by (simp_all add: fw_start_def fib_ok_def)
  have "attached (Pit_new (ft_nameTree F)) n = []" for n using s by (simp add: fw_start_def attached_def Pit_new_def)
  then have "pit_ok (Pit_new (ft_nameTree F))" using t(1,2) by (simp add: pit_ok_def) (simp add: Pit_new_def)
  moreover have "fw_fib f = F" using s by (simp add: fw_start_def fw_fib_def Pit_new_def)
  moreover have "fw_entry f j = None" for j using s by (simp add: fw_start_def fw_entry_def Pit_new_def)
  moreover have "\<exists>m. m \<le> EVICT_LIMIT \<and> dnl_ok m (fw_dnl f)" using s by (intro exI [of _ 0]) (simp add: fw_start_def)
  ultimately show ?thesis using s t(3) by (simp add: fw_ok_def fw_start_def)
qed

text \<open>An event succeeds, and keeps the tables in order.\<close>

lemma event_ok:
  assumes "forwarding_strategy strat" and "fw_ok h {} f" and "fw_event h strat f r"
  shows "succeeds h r"
  using assms(3)
proof cases
  case (event_Interest p now inFace)
  then show ?thesis using startProcessInterest_ok [OF assms(1,2)] by simp
next
  case (event_Data d now inFace noCache)
  then show ?thesis using onIncomingData_ok [OF assms(1,2), of d now inFace noCache] by (auto simp: succeeds_def)
next
  case (event_Nack p now inFace reason)
  then show ?thesis using onIncomingNack_ok [OF assms(1,2)] by (simp add: startProcessNack_def link_well_formed_def linkless_def)
next
  case (event_unsatisfied j e t now)
  then show ?thesis using unsatisfy_event_ok [OF assms(1,2) event_unsatisfied(2), of now] by (auto simp: succeeds_def)
next
  case (event_straggler j e t s p)
  then show ?thesis using straggler_event_ok [OF assms(2) event_straggler(2)] by (auto simp: succeeds_def)
next
  case (event_fib u tag F' response)
  then show ?thesis using use_fib_ok [OF assms(2) event_fib(2), of tag] by (auto simp: succeeds_def)
next
  case (event_cs x)
  then show ?thesis using fw_ok_cs [OF assms(2)] cs_step_ok fw_okD(3) [OF assms(2)] by (auto simp: succeeds_def)
next
  case (event_face fc)
  have "faces_ok (f\<lparr>fw_faces := (fw_faces f)(fc_id fc \<mapsto> fc)\<rparr>)"
    using fw_okD(8) [OF assms(2)] event_face by (auto simp: faces_ok_def fw_fib_def)
  then show ?thesis using event_face assms(2) by (auto simp: succeeds_def fw_ok_def fw_fib_def fw_entry_def)
next
  case event_mark
  obtain m where "dnl_ok m (fw_dnl f)" using fw_okD(4) [OF assms(2)] by blast
  then have "dnl_ok EVICT_LIMIT (DNL_mark (fw_dnl f))" using event_mark by (simp add: dnl_ok_def DNL_mark_def Let_def)
  then show ?thesis using event_mark fw_ok_dnl [OF assms(2), of EVICT_LIMIT] by (auto simp: succeeds_def)
next
  case (event_adjust l)
  obtain m where m: "dnl_ok m (fw_dnl f)" "m \<le> EVICT_LIMIT" using fw_okD(4) [OF assms(2)] by blast
  then have "dnl_ok 0 l" using DNL_adjustCapacity_ok [OF m] event_adjust by auto
  then show ?thesis using event_adjust fw_ok_dnl [OF assms(2), of 0] by (auto simp: succeeds_def)
qed

lemma fw_reachable_ok:
  assumes "forwarding_strategy strat"
  shows "fw_reachable h strat F faces f \<Longrightarrow> fw_ok h {} f"
proof (induction rule: fw_reachable.induct)
  case (start f)
  then show ?case by (rule fw_start_ok)
next
  case (event f err g)
  then show ?case using event_ok [OF assms] by (auto simp: succeeds_def)
qed

section \<open>A new Interest\<close>

text \<open>The first Interest of its name and selectors, for which the Content Store has nothing.\<close>

definition fresh_Interest :: "hashes \<Rightarrow> int \<Rightarrow> face \<Rightarrow> interest_packet \<Rightarrow> forwarder \<Rightarrow> bool" where
  "fresh_Interest h now inFace p f \<longleftrightarrow> packet_ok p \<and> linkless p \<and> \<not> violates_localhost inFace (ip_name p)
     \<and> DNL_has (h_nonce h) (i_name (ip_interest p)) (ip_nonce p) (fw_dnl f) = Inr False \<and> pit_lookup (fw_pit f) p = None
     \<and> (\<exists>x. Cs_find (h_sha256 h) now (ip_interest p) (fw_cs f) = Inr (Miss, x))"

text \<open>The entry that such an Interest gets, before it is forwarded.\<close>

definition waiting_entry :: "int \<Rightarrow> u64 \<Rightarrow> interest_packet \<Rightarrow> pit_entry \<Rightarrow> bool" where
  "waiting_entry now i p e \<longleftrightarrow> pe_interest e = p
     \<and> pe_inRecords e = [\<lparr>in_face = i, in_lastNonce = ip_nonce p, in_lastRenewed = now, in_expiry = record_expiry now p, in_interest = p\<rparr>]
     \<and> pe_outRecords e = [] \<and> pe_unsatisfyTimer e = Some (record_expiry now p) \<and> pe_stragglerTimer e = None \<and> pe_suppression e = None"

lemma linkless_start: "linkless p \<Longrightarrow> startProcessInterest h strat now inFace p f = onIncomingInterest h strat now inFace p f"
  by (simp add: startProcessInterest_def link_well_formed_def linkless_def)

lemma assert_canMatch_ok: "packet_ok (pe_interest e) \<Longrightarrow> packet_for e p \<Longrightarrow> assert_canMatch e p x = Inr x"
  using canMatch_key [of e p 0] by (simp add: assert_canMatch_def packet_for_def)

lemma fw_entry_change: "fw_entry (change_entry_of j u f) i = (if i = j then map_option u (fw_entry f i) else fw_entry f i)"
  by (simp add: fw_entry_def change_entry_of_def change_pit_entry_def)

lemma changed_tables [simp]: "fw_cs (change_entry_of j u f) = fw_cs f" "fw_faces (change_entry_of j u f) = fw_faces f" "fw_sent (change_entry_of j u f) = fw_sent f"
  "fw_dnl (change_entry_of j u f) = fw_dnl f"
  by (simp_all add: change_entry_of_def)

lemma sent_tables [simp]: "fw_entry (fw_send s f) = fw_entry f" "fw_sent (fw_send s f) = fw_sent f @ [s]"
  by (simp_all add: fw_send_def fw_entry_def fun_eq_iff)

lemma onIncomingInterest_enters:
  assumes "fw_ok h {} f" and "packet_ok p" and "linkless p" and "\<not> violates_localhost inFace (ip_name p)"
    and "DNL_has (h_nonce h) (i_name (ip_interest p)) (ip_nonce p) (fw_dnl f) = Inr False" and "pit_lookup (fw_pit f) p = None"
  shows "\<exists>g j. onIncomingInterest h strat now inFace p f = fw_try (Cs_find (h_sha256 h) now (ip_interest p) (fw_cs f)) g (\<lambda>(result, cs).
        case result of Hit d \<Rightarrow> (None, onContentStoreHit now inFace j d (g\<lparr>fw_cs := cs\<rparr>))
        | Miss \<Rightarrow> onContentStoreMiss strat now inFace j p (g\<lparr>fw_cs := cs\<rparr>))
    \<and> fw_ok h {j} g \<and> fw_entry g j = Some ((PitEntry_new p)\<lparr>pe_nameTreeEntry := Some (nte_name (ip_name p))\<rparr>) \<and> fw_entry f j = None
    \<and> (\<forall>i. i \<noteq> j \<longrightarrow> fw_entry g i = fw_entry f i) \<and> fw_cs g = fw_cs f \<and> fw_sent g = fw_sent f \<and> fw_faces g = fw_faces f
    \<and> fib_view (fw_fib g) = fib_view (fw_fib f)"
proof -
  define j where "j = pit_next (fw_pit f)"
  let ?e0 = "(PitEntry_new p)\<lparr>pe_nameTreeEntry := Some (nte_name (ip_name p))\<rparr>"
  obtain y where y: "Pit_insert p (fw_pit f) = Inr (y, Some j, True)" "same_fib (pit_nameTree (fw_pit f)) (pit_nameTree y)" "pit_ok y"
    "pit_entries y = (pit_entries (fw_pit f))(j \<mapsto> ?e0)"
    using Pit_insert_ok [OF fw_okD(1) [OF assms(1)] assms(2)] assms(6) by (auto simp: j_def)
  define f0 where "f0 = f\<lparr>fw_pit := y\<rparr>"
  have e0: "fw_entry f0 i = (if i = j then Some ?e0 else fw_entry f i)" for i using y(4) by (simp add: fw_entry_def f0_def)
  have "linkless (pe_interest e) \<and> (i \<notin> {j} \<longrightarrow> timed e)" if "pit_entries y i = Some e" for i e
    using that fw_okD(5,7) [OF assms(1), of i e] assms(3) by (auto simp: y(4) fw_entry_def PitEntry_new_def split: if_splits)
  then have f0: "fw_ok h {j} f0" unfolding f0_def by (rule fw_ok_pit [OF assms(1) y(3,2)])
  have new: "fw_entry f j = None" using pit_okD(5) [OF fw_okD(1) [OF assms(1)], of j] by (cases "fw_entry f j") (auto simp: fw_entry_def j_def)
  define g where "g = cancelUnsatisfyAndStragglerTimer j f0"
  have e1: "fw_entry g i = (if i = j then Some ?e0 else fw_entry f i)" for i
    by (simp add: g_def cancelUnsatisfyAndStragglerTimer_def fw_entry_change e0) (simp add: PitEntry_new_def)
  have same: "fw_cs g = fw_cs f" "fw_sent g = fw_sent f" "fw_faces g = fw_faces f" "pit_nameTree (fw_pit g) = pit_nameTree y" "fw_nFib g = fw_nFib f"
    by (simp_all add: g_def f0_def cancelUnsatisfyAndStragglerTimer_def change_entry_of_def change_pit_entry_def)
  have "fw_ok h (insert j {j}) g" unfolding g_def by (rule cancel_ok(1) [OF f0])
  moreover have no_in: "\<not> hasInRecords ?e0" by (simp add: hasInRecords_def PitEntry_new_def)
  have "onIncomingInterest h strat now inFace p f = fw_try (Cs_find (h_sha256 h) now (ip_interest p) (fw_cs f)) g (\<lambda>(result, cs).
        case result of Hit d \<Rightarrow> (None, onContentStoreHit now inFace j d (g\<lparr>fw_cs := cs\<rparr>))
        | Miss \<Rightarrow> onContentStoreMiss strat now inFace j p (g\<lparr>fw_cs := cs\<rparr>))"
    using assms(4,5) y(1) with_entry_Some [OF e0 [of j, unfolded if_P [OF refl]]] same(1) new_entry_no_duplicates no_in
    by (simp add: onIncomingInterest_def fw_try_def [of "Inr x" for x] Let_def flip: g_def f0_def) (simp only: option.sel)
  moreover have "fib_view (fw_fib g) = fib_view (fw_fib f)"
    using y(2) same(4) by (simp add: fib_view_def fib_at_def fw_fib_def same_fib_def fun_eq_iff)
  ultimately show ?thesis using new e1 same by (intro exI [of _ g] exI [of _ j]) simp
qed

lemma onIncomingInterest_new:
  assumes "fw_ok h {} f" and "fresh_Interest h now inFace p f"
  shows "\<exists>g j e. onIncomingInterest h strat now inFace p f = (case ip_nextHopFaceId p of
        Some k \<Rightarrow> (case fw_faces g k of None \<Rightarrow> (None, g) | Some fc \<Rightarrow> onOutgoingInterest now j k p g)
      | None \<Rightarrow> dispatchToStrategy strat now j (AfterReceiveInterest inFace p) g)
    \<and> fw_ok h {} g \<and> fw_entry g j = Some e \<and> waiting_entry now (fc_id inFace) p e \<and> fw_entry f j = None
    \<and> (\<forall>i. i \<noteq> j \<longrightarrow> fw_entry g i = fw_entry f i) \<and> fw_sent g = fw_sent f \<and> fw_faces g = fw_faces f \<and> fib_view (fw_fib g) = fib_view (fw_fib f)"
proof -
  have p: "packet_ok p" "linkless p" "\<not> violates_localhost inFace (ip_name p)"
    "DNL_has (h_nonce h) (i_name (ip_interest p)) (ip_nonce p) (fw_dnl f) = Inr False" "pit_lookup (fw_pit f) p = None"
    using assms(2) by (simp_all add: fresh_Interest_def)
  obtain x where x: "Cs_find (h_sha256 h) now (ip_interest p) (fw_cs f) = Inr (Miss, x)" using assms(2) by (auto simp: fresh_Interest_def)
  let ?e0 = "(PitEntry_new p)\<lparr>pe_nameTreeEntry := Some (nte_name (ip_name p))\<rparr>"
  obtain f1 j where f1: "onIncomingInterest h strat now inFace p f = fw_try (Cs_find (h_sha256 h) now (ip_interest p) (fw_cs f)) f1 (\<lambda>(result, cs).
        case result of Hit d \<Rightarrow> (None, onContentStoreHit now inFace j d (f1\<lparr>fw_cs := cs\<rparr>))
        | Miss \<Rightarrow> onContentStoreMiss strat now inFace j p (f1\<lparr>fw_cs := cs\<rparr>))"
    and ok1: "fw_ok h {j} f1" and e0: "fw_entry f1 j = Some ?e0" and new: "fw_entry f j = None" and others: "\<forall>i. i \<noteq> j \<longrightarrow> fw_entry f1 i = fw_entry f i"
    and same: "fw_cs f1 = fw_cs f" "fw_sent f1 = fw_sent f" "fw_faces f1 = fw_faces f" "fib_view (fw_fib f1) = fib_view (fw_fib f)"
    using onIncomingInterest_enters [OF assms(1) p, where strat = strat and now = now] by (elim exE conjE) (rule that)
  let ?f2 = "f1\<lparr>fw_cs := x\<rparr>"
  have e1: "fw_entry ?f2 i = (if i = j then Some ?e0 else fw_entry f i)" for i using e0 others by simp
  note e1' = e1 [unfolded fw_entry_cs]
  have f2: "fw_ok h {j} ?f2" using fw_ok_cs [OF ok1] Cs_find_keeps [OF fw_okD(3) [OF assms(1)] x] by simp
  have "onIncomingInterest h strat now inFace p f = onContentStoreMiss strat now inFace j p ?f2" unfolding f1 x by (simp add: fw_try_def)
  moreover
  let ?in = "\<lparr>in_face = fc_id inFace, in_lastNonce = ip_nonce p, in_lastRenewed = now, in_expiry = record_expiry now p, in_interest = p\<rparr>"
  let ?e1 = "?e0\<lparr>pe_inRecords := [?in]\<rparr>"
  let ?u = "\<lambda>e. e\<lparr>pe_unsatisfyTimer := Some (record_expiry now p)\<rparr>"
  have for_p: "packet_for ?e0 p" "packet_ok (pe_interest ?e0)" using p(1) by (simp_all add: packet_for_def PitEntry_new_def)
  have in_rec: "insertOrUpdateInRecord now (fc_id inFace) p ?e0 = Inr ?e1"
    using assert_canMatch_ok [OF for_p(2,1)] by (simp add: insertOrUpdateInRecord_def getInRecord_def PitEntry_new_def InRecord_new_def InRecord_update_def)
  define f3 where "f3 = change_entry_of j (\<lambda>_. ?e1) ?f2"
  define g where "g = change_entry_of j ?u f3"
  have e3: "fw_entry f3 j = Some ?e1" and e4: "fw_entry g j = Some (?u ?e1)" by (simp_all add: f3_def g_def fw_entry_change e1')
  have ok: "entry_ok ?e1" "entry_ok (?u ?e1)" "timed (?u ?e1)" using p(1) by (simp_all add: entry_ok_def PitEntry_new_def timed_def)
  have f3: "fw_ok h {j} f3" using change_entry_ok(1) [OF f2, of j "{j}" "\<lambda>_. ?e1"] ok(1) e1 by (simp add: f3_def)
  have g: "fw_ok h {} g" using change_entry_ok(1) [OF f3, of j "{}" ?u] ok(2,3) e3 by (simp add: g_def)
  have timer: "setUnsatisfyTimer j f3 = (None, g)" by (simp add: setUnsatisfyTimer_def with_entry_Some [OF e3] g_def)
  have "onContentStoreMiss strat now inFace j p ?f2 = (case ip_nextHopFaceId p of
        Some k \<Rightarrow> (case fw_faces g k of None \<Rightarrow> (None, g) | Some fc \<Rightarrow> onOutgoingInterest now j k p g)
      | None \<Rightarrow> dispatchToStrategy strat now j (AfterReceiveInterest inFace p) g)"
    using e1 [of j] timer in_rec by (simp add: onContentStoreMiss_def with_entry_Some fw_try_def fw_seq_def flip: f3_def)
  moreover have "fib_view (fw_fib g) = fib_view (fw_fib f)"
    using same(4) by (simp add: fib_view_def fib_at_def fw_fib_def g_def f3_def change_entry_of_def change_pit_entry_def fun_eq_iff)
  moreover have "waiting_entry now (fc_id inFace) p (?u ?e1)" by (simp add: waiting_entry_def PitEntry_new_def)
  moreover have "\<forall>i. i \<noteq> j \<longrightarrow> fw_entry g i = fw_entry f i" by (simp add: fw_entry_change g_def f3_def e1')
  moreover have "fw_sent g = fw_sent f" "fw_faces g = fw_faces f" using same by (simp_all add: g_def f3_def)
  ultimately show ?thesis using new g e4 by (intro exI [of _ g] exI [of _ j] exI [of _ "?u ?e1"]) simp
qed

section \<open>An Interest that names its next hop\<close>

definition first_Interest :: "hashes \<Rightarrow> int \<Rightarrow> face \<Rightarrow> interest_packet \<Rightarrow> u64 \<Rightarrow> forwarder \<Rightarrow> bool" where
  "first_Interest h now inFace p k f \<longleftrightarrow> fresh_Interest h now inFace p f \<and> ip_nextHopFaceId p = Some k \<and> fw_faces f k \<noteq> None"

text \<open>The entry of an Interest that has been forwarded to one face.\<close>

definition forwarded_entry :: "int \<Rightarrow> u64 \<Rightarrow> interest_packet \<Rightarrow> u64 \<Rightarrow> pit_entry \<Rightarrow> bool" where
  "forwarded_entry now i p k e \<longleftrightarrow> (\<exists>d. waiting_entry now i p d
     \<and> e = d\<lparr>pe_outRecords := [\<lparr>out_face = k, out_lastNonce = ip_nonce p, out_lastRenewed = now, out_expiry = record_expiry now p, out_incomingNack = None\<rparr>]\<rparr>)"

lemma forwarded_entryD:
  assumes "forwarded_entry now i p k e"
  shows "pe_interest e = p" "pe_unsatisfyTimer e = Some (record_expiry now p)" "pe_stragglerTimer e = None"
    "pe_inRecords e = [\<lparr>in_face = i, in_lastNonce = ip_nonce p, in_lastRenewed = now, in_expiry = record_expiry now p, in_interest = p\<rparr>]"
    "pe_outRecords e = [\<lparr>out_face = k, out_lastNonce = ip_nonce p, out_lastRenewed = now, out_expiry = record_expiry now p, out_incomingNack = None\<rparr>]"
  using assms by (auto simp: forwarded_entry_def waiting_entry_def)

lemma send_waiting:
  assumes "fw_ok h {} g" and "fw_entry g j = Some e" and "waiting_entry now i p e" and "packet_ok p" and "q = p\<lparr>ip_interest := ip_interest q\<rparr>" and "packet_for e q"
    and "i_interestLifetime (ip_interest q) = i_interestLifetime (ip_interest p)"
  shows "\<exists>g' e'. onOutgoingInterest now j k q g = (None, g') \<and> fw_entry g' = (fw_entry g)(j \<mapsto> e') \<and> forwarded_entry now i p k e'
    \<and> fw_sent g' = fw_sent g @ [SentInterest k q] \<and> fw_faces g' = fw_faces g"
proof -
  let ?out = "\<lparr>out_face = k, out_lastNonce = ip_nonce p, out_lastRenewed = now, out_expiry = record_expiry now p, out_incomingNack = None\<rparr>"
  have q: "ip_nonce q = ip_nonce p" "record_expiry now q = record_expiry now p"
    using assms(5,7) by (metis interest_packet.simps(2) interest_packet.select_convs(2) interest_packet.update_convs(1) interest_packet.surjective, simp add: record_expiry_def)
  have e: "packet_ok (pe_interest e)" "pe_outRecords e = []" using assms(3,4) by (simp_all add: waiting_entry_def)
  have "insertOrUpdateOutRecord now k q e = Inr (e\<lparr>pe_outRecords := [?out]\<rparr>)"
    using assert_canMatch_ok [OF e(1) assms(6)] e(2) q by (simp add: insertOrUpdateOutRecord_def getOutRecord_def OutRecord_new_def OutRecord_update_def)
  then have "onOutgoingInterest now j k q g = (None, fw_send (SentInterest k q) (change_entry_of j (\<lambda>_. e\<lparr>pe_outRecords := [?out]\<rparr>) g))"
    by (simp add: onOutgoingInterest_def with_entry_Some [OF assms(2)] fw_try_def)
  then show ?thesis using assms(2,3)
    by (intro exI conjI) (assumption, auto simp: fw_entry_change fun_eq_iff forwarded_entry_def)
qed

lemma onIncomingInterest_forwards:
  assumes "fw_ok h {} f" and "first_Interest h now inFace p k f"
  shows "\<exists>g j e. onIncomingInterest h strat now inFace p f = (None, g) \<and> fw_entry g j = Some e \<and> forwarded_entry now (fc_id inFace) p k e
    \<and> fw_entry f j = None \<and> (\<forall>i. i \<noteq> j \<longrightarrow> fw_entry g i = fw_entry f i) \<and> fw_sent g = fw_sent f @ [SentInterest k p] \<and> fw_faces g = fw_faces f"
proof -
  have p: "fresh_Interest h now inFace p f" "ip_nextHopFaceId p = Some k" "fw_faces f k \<noteq> None" "packet_ok p"
    using assms(2) by (simp_all add: first_Interest_def fresh_Interest_def)
  obtain g j e where g: "onIncomingInterest h strat now inFace p f = onOutgoingInterest now j k p g" "fw_ok h {} g" "fw_entry g j = Some e"
    "waiting_entry now (fc_id inFace) p e" "fw_entry f j = None" "\<forall>i. i \<noteq> j \<longrightarrow> fw_entry g i = fw_entry f i" "fw_sent g = fw_sent f" "fw_faces g = fw_faces f"
    using onIncomingInterest_new [OF assms(1) p(1), of strat] p(2,3) by (auto split: option.splits)
  have "packet_for e p" using g(4) p(4) by (simp add: packet_for_def waiting_entry_def)
  from send_waiting [OF g(2-4) p(4) _ this, of k] obtain g' e' where "onOutgoingInterest now j k p g = (None, g')" "fw_entry g' = (fw_entry g)(j \<mapsto> e')"
    "forwarded_entry now (fc_id inFace) p k e'" "fw_sent g' = fw_sent g @ [SentInterest k p]" "fw_faces g' = fw_faces g" by auto
  then show ?thesis using g by (intro exI [of _ g'] exI [of _ j] exI [of _ e']) simp
qed

section \<open>Best route\<close>

text \<open>A face to which best-route may forward.\<close>

definition usable :: "face \<Rightarrow> interest_packet \<Rightarrow> forwarder \<Rightarrow> u64 \<Rightarrow> bool" where
  "usable inFace p f k \<longleftrightarrow> k \<noteq> fc_id inFace \<and> (case fw_faces f k of None \<Rightarrow> False | Some fc \<Rightarrow> \<not> wouldViolateScope inFace p fc)"

lemma change_entry_same: "fw_entry f j = Some e \<Longrightarrow> change_entry_of j (\<lambda>_. e) f = f"
  by (simp add: change_entry_of_def change_pit_entry_def fw_entry_def fun_upd_idem)

text \<open>The first usable face in the order of the costs is the cheapest.\<close>

lemma first_usable:
  assumes "map fc_id hops = map nh_face nhs" and "\<forall>x \<in> set hops. fw_faces f (fc_id x) = Some x" and "sorted (map nh_cost nhs)"
    and "List.find (\<lambda>x. isNextHopEligible inFace p x e False now) hops = Some x"
  shows "\<exists>c. \<lparr>nh_face = fc_id x, nh_cost = c\<rparr> \<in> set nhs \<and> usable inFace p f (fc_id x)
    \<and> (\<forall>k d. \<lparr>nh_face = k, nh_cost = d\<rparr> \<in> set nhs \<and> usable inFace p f k \<longrightarrow> c \<le> d)"
proof -
  let ?P = "\<lambda>x. isNextHopEligible inFace p x e False now"
  have P: "?P y \<longleftrightarrow> usable inFace p f (fc_id y)" if "y \<in> set hops" for y
    using assms(2) that by (simp add: isNextHopEligible_def usable_def)
  have len: "length hops = length nhs" using arg_cong [OF assms(1), of length] by simp
  have nth: "fc_id (hops ! a) = nh_face (nhs ! a)" if "a < length hops" for a using arg_cong [OF assms(1), of "\<lambda>xs. xs ! a"] that len by simp
  obtain a where a: "a < length hops" "?P x" "x = hops ! a" "\<And>b. b < a \<Longrightarrow> \<not> ?P (hops ! b)"
    using assms(4) by (auto simp: find_Some_iff)
  have "nh_cost (nhs ! a) \<le> d" if d: "\<lparr>nh_face = k, nh_cost = d\<rparr> \<in> set nhs" "usable inFace p f k" for k d
  proof -
    obtain b where b: "b < length nhs" "nhs ! b = \<lparr>nh_face = k, nh_cost = d\<rparr>" using d(1) by (auto simp: in_set_conv_nth)
    then have "?P (hops ! b)" using P [of "hops ! b"] nth [of b] len d(2) by simp
    then have "a \<le> b" using a(4) not_less by blast
    then have "map nh_cost nhs ! a \<le> map nh_cost nhs ! b" using b(1) by (intro sorted_nth_mono [OF assms(3)]) simp_all
    then show ?thesis using a(1) b len by simp
  qed
  moreover have "\<lparr>nh_face = fc_id x, nh_cost = nh_cost (nhs ! a)\<rparr> = nhs ! a" using nth [OF a(1)] a(3) by simp
  then have "\<lparr>nh_face = fc_id x, nh_cost = nh_cost (nhs ! a)\<rparr> \<in> set nhs" using a(1) len by simp
  ultimately show ?thesis using P [of x] a(1-3) by auto
qed

lemma BestRouteStrategy2_new:
  assumes "fw_ok h {} f" and "fw_entry f j = Some e" and "waiting_entry now (fc_id inFace) p e" and "packet_ok p" and "fw_faces f (fc_id inFace) = Some inFace"
  defines "V \<equiv> next_hops (fw_fib f) (ip_name p)"
  shows "\<exists>g. BestRouteStrategy2 now j (AfterReceiveInterest inFace p) f = (None, g)
    \<and> (if \<exists>k. V k \<noteq> None \<and> usable inFace p f k
       then \<exists>k c e'. V k = Some c \<and> usable inFace p f k \<and> (\<forall>l d. V l = Some d \<and> usable inFace p f l \<longrightarrow> c \<le> d)
         \<and> fw_sent g = fw_sent f @ [SentInterest k p] \<and> fw_entry g j = Some e' \<and> forwarded_entry now (fc_id inFace) p k e'
       else fw_sent g = fw_sent f @ (if fc_multiAccess inFace then [] else [SentNack (fc_id inFace) p NoRoute])
         \<and> map_option pe_stragglerTimer (fw_entry g j) = Some (Some (chrono64 (now + stragglerTime), False, - 1)))"
proof -
  have e: "pe_interest e = p" "pe_outRecords e = []"
    "pe_inRecords e = [\<lparr>in_face = fc_id inFace, in_lastNonce = ip_nonce p, in_lastRenewed = now, in_expiry = record_expiry now p, in_interest = p\<rparr>]"
    using assms(3) by (simp_all add: waiting_entry_def)
  then have "\<not> hasPendingOutRecords now e" by (simp add: hasPendingOutRecords_def)
  then have "BestRouteStrategy2 now j (AfterReceiveInterest inFace p) f = with_next_hops j p f (best_route2_forward now j inFace True)"
    by (simp add: BestRouteStrategy2_def with_entry_Some [OF assms(2)] RetxExponential_decide_def fw_try_def Let_def change_entry_same [OF assms(2)])
  moreover have "through_pointer p j f = p" by (simp add: through_pointer_def assms(2) e(1))
  ultimately obtain hops nhs where run: "BestRouteStrategy2 now j (AfterReceiveInterest inFace p) f = best_route2_forward now j inFace True hops p f"
    and hops: "map fc_id hops = map nh_face nhs" "\<forall>x \<in> set hops. fw_faces f (fc_id x) = Some x" "sorted (map nh_cost nhs)"
    and V: "\<And>x c. V x = Some c \<longleftrightarrow> \<lparr>nh_face = x, nh_cost = c\<rparr> \<in> set nhs"
    using with_next_hops_view [OF assms(1,2), of p "best_route2_forward now j inFace True"] unfolding e(1) by (elim exE conjE) (rule that, simp_all add: V_def)
  have pf: "packet_for e p" using e(1) assms(4) by (simp add: packet_for_def)
  show ?thesis
  proof (cases "List.find (\<lambda>x. isNextHopEligible inFace p x e False now) hops")
    case (Some x)
    obtain c where c: "V (fc_id x) = Some c" "usable inFace p f (fc_id x)" "\<forall>l d. V l = Some d \<and> usable inFace p f l \<longrightarrow> c \<le> d"
      using first_usable [OF hops Some] unfolding V by blast
    from send_waiting [OF assms(1-4) _ pf, of "fc_id x"] obtain g e' where g: "onOutgoingInterest now j (fc_id x) p f = (None, g)" "fw_entry g = (fw_entry f)(j \<mapsto> e')"
      "forwarded_entry now (fc_id inFace) p (fc_id x) e'" "fw_sent g = fw_sent f @ [SentInterest (fc_id x) p]" by auto
    have "best_route2_forward now j inFace True hops p f = (None, g)"
      using Some g(1) by (simp add: best_route2_forward_def with_entry_Some [OF assms(2)])
    moreover have "\<exists>k. V k \<noteq> None \<and> usable inFace p f k" using c by auto
    ultimately show ?thesis using c g(2-4) run by auto
  next
    case None
    have "\<not> (\<exists>k. V k \<noteq> None \<and> usable inFace p f k)"
    proof
      assume "\<exists>k. V k \<noteq> None \<and> usable inFace p f k"
      then obtain k c where k: "\<lparr>nh_face = k, nh_cost = c\<rparr> \<in> set nhs" "usable inFace p f k" using V by auto
      then have "k \<in> set (map nh_face nhs)" by force
      then obtain x where "x \<in> set hops" "fc_id x = k" unfolding hops(1) [symmetric] by auto
      then have "isNextHopEligible inFace p x e False now" using k(2) hops(2) by (auto simp: isNextHopEligible_def usable_def)
      then show False using None \<open>x \<in> set hops\<close> by (auto simp: find_None_iff)
    qed
    moreover
    let ?nack = "if fc_multiAccess inFace then f else fw_send (SentNack (fc_id inFace) p NoRoute) (change_entry_of j (deleteInRecord (fc_id inFace)) f)"
    have "onOutgoingNack j (fc_id inFace) NoRoute f = (None, ?nack)"
      using assms(5) e(3) by (simp add: onOutgoingNack_def with_entry_Some [OF assms(2)] getInRecord_def)
    moreover obtain e' where e': "fw_entry ?nack j = Some e'" "pe_outRecords e' = []"
      using assms(2) e(2) by (cases "fc_multiAccess inFace") (auto simp: fw_entry_change deleteInRecord_def)
    have "\<not> hasPendingOutRecords now e'" using e'(2) by (simp add: hasPendingOutRecords_def)
    then have "onInterestReject now j ?nack = (None, setStragglerTimer now j False (- 1) (cancelUnsatisfyAndStragglerTimer j ?nack))"
      by (simp only: onInterestReject_def with_entry_Some [OF e'(1)] if_False)
    ultimately have g: "best_route2_forward now j inFace True hops p f = (None, setStragglerTimer now j False (- 1) (cancelUnsatisfyAndStragglerTimer j ?nack))"
      using None by (simp add: best_route2_forward_def with_entry_Some [OF assms(2)] fw_seq_def)
    have "map_option pe_stragglerTimer (fw_entry (setStragglerTimer now j False (- 1) (cancelUnsatisfyAndStragglerTimer j ?nack)) j) = Some (Some (chrono64 (now + stragglerTime), False, - 1))"
      using e'(1) by (simp add: setStragglerTimer_def cancelUnsatisfyAndStragglerTimer_def fw_entry_change)
    moreover have "fw_sent (setStragglerTimer now j False (- 1) (cancelUnsatisfyAndStragglerTimer j ?nack))
        = fw_sent f @ (if fc_multiAccess inFace then [] else [SentNack (fc_id inFace) p NoRoute])"
      by (simp add: setStragglerTimer_def cancelUnsatisfyAndStragglerTimer_def)
    ultimately show ?thesis using run g \<open>\<not> (\<exists>k. V k \<noteq> None \<and> usable inFace p f k)\<close> by simp
  qed
qed

end
