(* ===== verification/ForwarderScope.thy ===== *)
theory ForwarderScope
  imports ForwarderEvents
begin

text \<open>
  Every pipeline keeps Data of the scope \<open>/localhost\<close> on local faces, and every Interest without
  \<^verbatim>\<open>NextHopFaceId\<close> within its scope.
\<close>

section \<open>Incoming Interests\<close>

context strategy_relation begin

text \<open>A relation that the last steps of the pipeline of incoming Interests belong to holds over all of it.\<close>

lemma R_incoming_Interest:
  assumes loop: "\<And>g. R g (onInterestLoop inFace p g)"
    and hit: "\<And>g i d. R g (onContentStoreHit now inFace i d g)"
    and miss: "\<And>g i. R g (snd (onContentStoreMiss strat now inFace i p g))"
    and pit: "\<And>g x. R g (g\<lparr>fw_pit := x\<rparr>)" and cs: "\<And>g x. R g (g\<lparr>fw_cs := x\<rparr>)"
  shows "R f (snd (onIncomingInterest h strat now inFace p f))"
proof -
  have found: "R g (snd (fw_try found g (\<lambda>(result, cs). case result of
      Hit d \<Rightarrow> (None, onContentStoreHit now inFace i d (g\<lparr>fw_cs := cs\<rparr>)) | Miss \<Rightarrow> onContentStoreMiss strat now inFace i p (g\<lparr>fw_cs := cs\<rparr>))))" for g i found
    by (rule R_try) (auto intro: R_trans [OF cs hit] R_trans [OF cs miss] split: cs_result.split)
  have cancelled: "R g k" if "R (cancelUnsatisfyAndStragglerTimer i g) k" for g i k
    using R_trans [OF pit that [unfolded cancelUnsatisfyAndStragglerTimer_def change_entry_of_def]] .
  show ?thesis unfolding onIncomingInterest_def Let_def
    apply (cases "violates_localhost inFace (ip_name p)")
     apply (simp add: R_refl)
    apply (simp only: if_False)
    apply (rule R_try)
    subgoal for duplicate
      apply (cases duplicate)
       apply (simp add: loop)
      apply (simp only: if_False)
      apply (rule R_try)
      apply (simp only: split_beta)
      apply (rule R_trans [OF pit])
      apply (rule R_with_entry)
      subgoal for y e
        apply (cases "findDuplicateNonce e (ip_nonce p) (fc_id inFace) = 0"; cases "hasInRecords e")
           apply (simp_all only: simp_thms if_True if_False snd_conv)
           apply (rule cancelled [OF miss] cancelled [OF found] loop)+
        done
      done
    done
qed

end

section \<open>Data\<close>

text \<open>Data of the scope \<open>/localhost\<close> is sent to local faces only.\<close>

definition data_in_scope :: "forwarder \<Rightarrow> bool" where
  "data_in_scope f \<longleftrightarrow> (\<forall>fc d. SentData fc d \<in> set (fw_sent f) \<longrightarrow> \<not> violates_localhost fc (name_of (d_name d)))"

definition keeps_scope :: "forwarder \<Rightarrow> forwarder \<Rightarrow> bool" where
  "keeps_scope f g \<longleftrightarrow> fw_faces g = fw_faces f \<and> (data_in_scope f \<longrightarrow> data_in_scope g)"

lemma keeps_scope_same: "fw_faces g = fw_faces f \<Longrightarrow> fw_sent g = fw_sent f \<Longrightarrow> keeps_scope f g"
  by (simp add: keeps_scope_def data_in_scope_def)

lemma keeps_scope_trans: "keeps_scope f g \<Longrightarrow> keeps_scope g k \<Longrightarrow> keeps_scope f k"
  by (simp add: keeps_scope_def)

interpretation scope_of_data: strategy_relation keeps_scope j inFace for j inFace
proof unfold_locales
  show "keeps_scope f (change_entry_of j u f)" for f u by (rule keeps_scope_same) (simp_all add: change_entry_of_def)
  show "keeps_scope f (fw_send (SentNack i p r) f)" "keeps_scope f (fw_send (SentInterest i p) f)" for f i p r
    by (simp_all add: keeps_scope_def data_in_scope_def fw_send_def)
qed (simp_all add: keeps_scope_def)

lemma aside_keeps_scope: "aside j f g \<Longrightarrow> keeps_scope f g"
proof -
  assume a: "aside j f g"
  have "SentData fc d \<in> set (fw_sent f) \<longleftrightarrow> SentData fc d \<in> set (data_sent f)" for f fc d by (simp add: data_sent_def)
  then show ?thesis using a by (simp add: keeps_scope_def data_in_scope_def aside_def)
qed

lemma onOutgoingData_scope: "keeps_scope f (onOutgoingData d fc f)"
  by (simp add: onOutgoingData_def keeps_scope_def data_in_scope_def fw_send_def)

lemma onContentStoreMiss_scope:
  assumes "forwarding_strategy strat"
  shows "keeps_scope f (snd (onContentStoreMiss strat now inFace j p f))"
proof -
  have "aside j g (snd (setUnsatisfyTimer j (change_entry_of j u g)))" for g u
    by (auto simp: setUnsatisfyTimer_def with_entry_def Let_def intro: aside_trans [OF aside_change aside_change] split: option.split)
  then have timer: "keeps_scope g (snd (setUnsatisfyTimer j (change_entry_of j u g)))" for g u by (rule aside_keeps_scope)
  have "aside j g (snd (dispatchToStrategy strat now j t g))" for g t by (rule aside_strategy [OF assms])
  then have strategy: "keeps_scope g (snd (dispatchToStrategy strat now j t g))" for g t by (rule aside_keeps_scope)
  have "aside j g (snd (onOutgoingInterest now j k p g))" for g k by (rule aside_pipelines)
  then have out: "keeps_scope g (snd (onOutgoingInterest now j k p g))" for g k by (rule aside_keeps_scope)
  show ?thesis unfolding onContentStoreMiss_def
    by (intro scope_of_data.R_with_entry scope_of_data.R_try scope_of_data.R_seq timer)
      (auto intro: strategy out keeps_scope_same split: option.split)
qed

lemma onIncomingInterest_scope:
  assumes "forwarding_strategy strat"
  shows "keeps_scope f (snd (onIncomingInterest h strat now inFace p f))"
proof (rule scope_of_data.R_incoming_Interest)
  show "keeps_scope g (onInterestLoop inFace p g)" for g
    by (simp add: onInterestLoop_def keeps_scope_def data_in_scope_def fw_send_def)
  show "keeps_scope g (onContentStoreHit now inFace j d g)" for g j d
    unfolding onContentStoreHit_def by (rule keeps_scope_trans [OF aside_keeps_scope [OF aside_timers(2)] onOutgoingData_scope])
  show "keeps_scope g (snd (onContentStoreMiss strat now inFace j p g))" for g j by (rule onContentStoreMiss_scope [OF assms])
qed (rule keeps_scope_same; simp)+

lemma satisfy_entries_scope:
  assumes "forwarding_strategy strat" and "\<And>D g. keeps_scope g (snd (k D g))"
  shows "keeps_scope f (snd (satisfy_entries h strat now inFace d js downs k f))"
proof (induction js arbitrary: f downs)
  case (Cons j js)
  have "keeps_scope g (snd (satisfy_entry h strat now inFace d j g))" for g by (rule aside_keeps_scope [OF aside_satisfy [OF assms(1)]])
  then have "keeps_scope g (snd (fw_seq (satisfy_entry h strat now inFace d j g) (satisfy_entries h strat now inFace d js D k)))" for g D
    by (rule scope_of_data.R_seq) (rule Cons.IH)
  then show ?case unfolding satisfy_entries.simps Let_def
    by (rule keeps_scope_trans [OF aside_keeps_scope [OF aside_timers(1)] scope_of_data.R_with_entry])
qed (simp add: assms(2))

lemma onIncomingData_scope:
  assumes "forwarding_strategy strat"
  shows "keeps_scope f (snd (onIncomingData h strat now inFace d noCache f))"
proof -
  have same: "keeps_scope g g" and cs: "keeps_scope g (g\<lparr>fw_cs := c\<rparr>)" for g c by (rule keeps_scope_same; simp)+
  have "keeps_scope g (send_downstream d i x g)" for g x i by (auto simp: send_downstream_def same onOutgoingData_scope split: option.split)
  then have "keeps_scope g (fold (send_downstream d i) ks g)" for ks g i
    by (induction ks arbitrary: g) (simp_all add: same, blast intro: keeps_scope_trans)
  then have "keeps_scope f (snd (satisfy_entries h strat now inFace d js {} (\<lambda>D f. (None, fold (send_downstream d (fc_id inFace)) (sorted_list_of_set D) f)) (f\<lparr>fw_cs := c\<rparr>)))" for js c
    by (intro keeps_scope_trans [OF cs satisfy_entries_scope [OF assms]]) simp
  moreover have "keeps_scope f (snd (onDataUnsolicited h now inFace d noCache f))"
    by (auto simp: onDataUnsolicited_def same cs intro: scope_of_data.R_try split: unsolicited_decision.split)
  ultimately show ?thesis unfolding onIncomingData_def
    by (auto intro!: scope_of_data.R_await scope_of_data.R_try same)
qed

lemma onInterestFinalize_scope: "keeps_scope f (snd (onInterestFinalize h j s p f))"
proof -
  have "keeps_scope g (snd (fw_await r g (\<lambda>pit. (None, g\<lparr>fw_pit := pit\<rparr>))))" for g r
    by (rule scope_of_data.R_await) (simp add: keeps_scope_same)
  then have "keeps_scope g (snd (let f1 = cancelUnsatisfyAndStragglerTimer j g in fw_await (Pit_erase j True (fw_pit f1)) f1 (\<lambda>pit. (None, f1\<lparr>fw_pit := pit\<rparr>))))" for g
    unfolding Let_def by (rule keeps_scope_trans [OF aside_keeps_scope [OF aside_timers(1)]])
  then show ?thesis unfolding onInterestFinalize_def
    by (rule scope_of_data.R_seq [OF aside_keeps_scope [OF aside_insertDeadNonceList]])
qed

lemma event_scope:
  assumes "forwarding_strategy strat" and "fw_event h strat f r" and "data_in_scope f"
  shows "data_in_scope (snd r)"
proof -
  have strategy: "keeps_scope g (snd (dispatchToStrategy strat now j t g))" for now j t g by (rule aside_keeps_scope [OF aside_strategy [OF assms(1)]])
  have same: "keeps_scope g g" for g by (rule keeps_scope_same) simp_all
  have changed: "keeps_scope g k" if "keeps_scope (change_entry_of j u g) k" for g k j u by (rule keeps_scope_trans [OF scope_of_data.R_change that])
  have final: "keeps_scope g (snd (onInterestFinalize h j s p (change_entry_of j u g)))" for g j s p u by (rule changed [OF onInterestFinalize_scope])
  have "keeps_scope f (snd r) \<or> data_in_scope (snd r)"
    using assms(2)
  proof cases
    case (event_Interest p now inFace)
    then show ?thesis using onIncomingInterest_scope [OF assms(1)] by (simp add: linkless_start)
  next
    case (event_Data d now inFace noCache)
    then show ?thesis using onIncomingData_scope [OF assms(1)] by simp
  next
    case (event_Nack p now inFace reason)
    have "keeps_scope f (snd (onIncomingNack strat now inFace p reason f))"
      unfolding onIncomingNack_def
      by (auto intro!: scope_of_data.R_try scope_of_data.R_with_entry changed [OF strategy] same split: option.split)
    then show ?thesis using event_Nack by (simp add: startProcessNack_def link_well_formed_def linkless_def)
  next
    case (event_unsatisfied j e t now)
    have "keeps_scope f (snd (unsatisfy_event h strat now j f))" unfolding unsatisfy_event_def onInterestUnsatisfied_def
      by (rule changed [OF scope_of_data.R_seq [OF strategy onInterestFinalize_scope]])
    then show ?thesis using event_unsatisfied by simp
  next
    case (event_straggler j e t s p)
    have "keeps_scope f (snd (straggler_event h j f))" unfolding straggler_event_def
      by (rule scope_of_data.R_with_entry) (auto intro: final same split: option.split)
    then show ?thesis using event_straggler by simp
  qed (use assms(3) in \<open>simp_all add: data_in_scope_def use_fib_def\<close>)
  then show ?thesis using assms(3) by (auto simp: keeps_scope_def)
qed

section \<open>Interests\<close>

lemma onIncomingInterest_forwards_in_scope:
  assumes "scoped_strategy strat" and "ip_nextHopFaceId p = None"
  shows "forwards inFace f (snd (onIncomingInterest h strat now inFace p f))"
proof (rule respects_scope.R_incoming_Interest)
  have same: "forwards inFace g g" for g by (rule forwards_same) simp_all
  show "forwards inFace g (onInterestLoop inFace p g)" for g by (auto simp: onInterestLoop_def same intro: forwards_send)
  show "forwards inFace g (onContentStoreHit now inFace j d g)" for g j d
    unfolding onContentStoreHit_def setStragglerTimer_def onOutgoingData_def
    by (auto intro: respects_scope.R_change forwards_trans [OF respects_scope.R_change forwards_send])
  have "forwards inFace g (snd (setUnsatisfyTimer j (change_entry_of j u g)))" for g j u
    by (auto simp: setUnsatisfyTimer_def with_entry_def Let_def intro: respects_scope.R_change forwards_trans [OF respects_scope.R_change respects_scope.R_change] split: option.split)
  moreover have "forwards inFace g (snd (dispatchToStrategy strat now j (AfterReceiveInterest inFace p) g))" for g j
    unfolding dispatchToStrategy_def by (rule scoped_strategy.strategy_scope [OF assms(1)]) simp
  ultimately show "forwards inFace g (snd (onContentStoreMiss strat now inFace j p g))" for g j
    unfolding onContentStoreMiss_def by (intro respects_scope.R_with_entry respects_scope.R_try respects_scope.R_seq) (simp_all add: assms(2))
qed (rule forwards_same; simp)+

lemma reachable_scope:
  assumes "forwarding_strategy strat"
  shows "fw_reachable h strat F faces f \<Longrightarrow> data_in_scope f"
proof (induction rule: fw_reachable.induct)
  case (start f)
  then show ?case by (simp add: fw_start_def data_in_scope_def)
next
  case (event f err g)
  then show ?case using event_scope [OF assms event.hyps(2)] by simp
qed

end
