(* ===== verification/CsTheorems.thy ===== *)
theory CsTheorems
  imports CsBehaviour
begin

text \<open>
  What the content store guarantees, and the lookups by full name in which it fails, each on an example.
\<close>

section \<open>Example packets\<close>

text \<open>Packets \<open>/a\<close> with wires that differ in one byte, and a hash that repeats that byte.\<close>

definition example_sha256 :: "byte list \<Rightarrow> byte list" where
  "example_sha256 w = replicate 32 (last w)"

definition example_packet :: "byte \<Rightarrow> int \<Rightarrow> data" where
  "example_packet v freshness = example_data\<lparr>d_wire := Block (Some [6, v]) tlv_Data 0 2 2 2 2 [],
     d_metaInfo := MetaInfo_default\<lparr>mi_freshnessPeriod := freshness\<rparr>\<rparr>"

definition example_key :: "byte \<Rightarrow> cs_key" where
  "example_key v = ([Component 8 [97]], Component 1 (replicate 32 v))"

definition cached_entry :: "byte \<Rightarrow> int \<Rightarrow> cs_entry" where
  "cached_entry v freshness = inserted_entry 0 (example_packet v freshness) False None"

lemma example_packet_ok: "has_digest example_sha256 (example_packet v f)" "data_key example_sha256 (example_packet v f) = example_key v"
proof -
  have n: "d_name (example_packet v f) = name_a" by (simp add: example_packet_def example_data_def Data_of_name_def)
  have w: "wire_bytes (d_wire (example_packet v f)) = [6, v]" by (simp add: example_packet_def wire_bytes_def slice_def)
  show "has_digest example_sha256 (example_packet v f)"
    by (simp add: has_digest_def n w example_names Name_size_def example_sha256_def) (simp add: example_packet_def Block_hasWire_def
        example_data_def Data_of_name_def Data_default_def Name_empty_def Name_default_def Block_of_type_def SHA256_DIGEST_SIZE_def)
  show "data_key example_sha256 (example_packet v f) = example_key v"
    by (simp add: data_key_def digest_component_def n w example_names example_key_def example_sha256_def tlv_codes)
qed

lemma cached_entry_data: "ce_data (cached_entry v f) = example_packet v f"
  by (simp add: cached_entry_def inserted_entry_def)

lemma be_value_replicate: "be_value (replicate (Suc n) a) = be_value (replicate n a) * 256 + unat a"
  using be_value_snoc [of "replicate n a" a] by (simp only: replicate_append_same replicate_Suc)

lemma be_value_replicate_less: "a < b \<Longrightarrow> be_value (replicate (Suc n) a) < be_value (replicate (Suc n) b)"
proof (induction n)
  case 0
  then show ?case by (simp add: be_value_def word_less_nat_alt)
next
  case (Suc n)
  then show ?case unfolding be_value_replicate [of "Suc n"] using word_less_nat_alt [of a b] by linarith
qed

lemma example_key_less: "a < b \<Longrightarrow> stored_less (example_key a) (example_key b)" "a \<noteq> b \<Longrightarrow> example_key a \<noteq> example_key b"
proof -
  show "a \<noteq> b \<Longrightarrow> example_key a \<noteq> example_key b" by (simp add: example_key_def numeral_eq_Suc)
  have "(32 :: nat) = Suc 31" by simp
  then show "a < b \<Longrightarrow> stored_less (example_key a) (example_key b)"
    using be_value_replicate_less [of a b 31] by (simp add: stored_less_iff example_key_def less_component_def del: replicate.simps)
qed

lemma example_matches:
  "canSatisfy example_sha256 now (Interest_of_name name_a) (cached_entry v f) = Inr True"
proof -
  let ?i = "Interest_of_name name_a" and ?d = "example_packet v f"
  have n: "i_name ?i = name_a" "d_name ?d = name_a" by (simp_all add: Interest_of_name_def example_packet_def example_data_def Data_of_name_def)
  have "comp_type (digest_component example_sha256 ?d) = 1" by (simp add: digest_component_def tlv_codes)
  then have "admits (i_selectors ?i) (name_of name_a) (name_of name_a @ [digest_component example_sha256 ?d])"
    by (auto simp: admits_def Interest_of_name_def Interest_default_def Selectors_default_def example_names
        isExcluded_empty Exclude_default_def Exclude_empty_def)
  moreover have "matches_keyLocator ?i ?d = Inr True"
    by (simp add: matches_keyLocator_def Interest_of_name_def Interest_default_def Selectors_default_def KeyLocator_default_def KeyLocator_empty_def)
  ultimately have "Interest_matchesData example_sha256 ?i ?d = Inr True"
    using Interest_matchesData_iff [OF example_packet_ok(1) [of v f], of ?i] n example_names(1) by simp
  moreover have "\<not> sel_mustBeFresh (i_selectors ?i)" by (simp add: Interest_of_name_def Interest_default_def Selectors_default_def)
  ultimately show ?thesis by (simp add: canSatisfy_def cached_entry_data)
qed

lemma example_store_ok:
  assumes "distinct vs" and "sorted vs" and "length vs \<le> n"
  shows "cs_ok example_sha256 \<lparr>cs_table = map (\<lambda>v. (example_key v, cached_entry v f)) vs, cs_policy = Lru (map example_key vs), cs_limit = n\<rparr>"
    (is "cs_ok _ ?x")
proof -
  have "sorted_wrt (<) vs" using assms(1,2) by (simp add: strict_sorted_iff)
  then have "sorted_wrt (\<lambda>a b. stored_less (example_key a) (example_key b)) vs"
    by (rule sorted_wrt_mono_rel [rotated]) (simp add: example_key_less)
  then have s: "sorted_map stored_less (cs_table ?x)" by (simp add: sorted_map_def sorted_wrt_map)
  have "inj_on example_key (set vs)" unfolding inj_on_def using example_key_less(2) by blast
  then have d: "distinct (map example_key vs)" using assms(1) by (simp add: distinct_map)
  have "dom (cs_map ?x) = example_key ` set vs" by (simp add: cs_map_def dom_map_of_conv_image_fst image_image)
  then have "policy_valid (cs_map ?x) (cs_policy ?x)" using d by (simp add: policy_valid_def lru_valid_def)
  moreover have "has_digest example_sha256 (ce_data e) \<and> k = data_key example_sha256 (ce_data e)" if "cs_map ?x k = Some e" for k e
    using that map_of_SomeD [of "cs_table ?x" k e] example_packet_ok by (auto simp: cs_map_def cached_entry_data)
  ultimately show ?thesis using s assms(3) by (simp add: cs_ok_def cs_wf_def)
qed

section \<open>Properties\<close>

text \<open>
  C11: whatever packets are inserted and looked up, whenever the limit is changed and the events of the
  policy run, with either policy the content store stays a set of distinct packets, within its limit,
  and the queues of the policy hold every entry exactly once; no later insertion, change of
  the limit or event that is due fails an assertion of the policy or erases an invalid iterator.
\<close>

theorem Cs_reachable_bounded:
  assumes "p \<in> {PriorityFifo_new, Lru_new}" and "cs_reachable sha256 p n x"
  shows "length (cs_table x) \<le> cs_limit x \<and> sorted_map stored_less (cs_table x)
     \<and> distinct (policy_order (cs_policy x)) \<and> set (policy_order (cs_policy x)) = fst ` set (cs_table x)
     \<and> (\<forall>now d u noCache. has_digest sha256 d \<longrightarrow> (\<exists>y. Cs_insert sha256 now d u noCache x = Inr y))
     \<and> (\<forall>m. \<exists>y. Cs_setLimit m x = Inr y) \<and> (\<forall>now k. event_due now k (cs_policy x) \<longrightarrow> (\<exists>y. Policy_staleEvent k x = Inr y))"
proof -
  have ok: "cs_ok sha256 x" by (rule cs_reachable_ok [OF assms])
  then have "policy_valid (cs_map x) (cs_policy x)" by (simp add: cs_ok_def cs_wf_def)
  from policy.valid_order [OF this] have "distinct (policy_order (cs_policy x))" "set (policy_order (cs_policy x)) = fst ` set (cs_table x)"
    by (simp_all add: cs_map_def dom_map_of_conv_image_fst)
  moreover have "length (cs_table x) \<le> cs_limit x" "sorted_map stored_less (cs_table x)" using ok by (simp_all add: cs_ok_def cs_wf_def)
  moreover have "\<exists>y. Cs_insert sha256 now d u noCache x = Inr y" if "has_digest sha256 d" for now d u noCache using insert_keeps [OF ok that] by blast
  moreover have "\<exists>y. Cs_setLimit m x = Inr y" for m using Cs_setLimit_ok [OF ok] by blast
  moreover have "\<exists>y. Policy_staleEvent k x = Inr y" if "event_due now k (cs_policy x)" for now k using stale_event_keeps [OF ok that] by blast
  ultimately show ?thesis by (intro conjI allI impI) assumption+
qed

theorem Cs_reachable_bounded_witness:
  "\<exists>x. cs_reachable example_sha256 PriorityFifo_new 1 x \<and> cs_map x (example_key 1) \<noteq> None \<and> length (cs_table x) \<le> 1
     \<and> set (policy_order (cs_policy x)) = fst ` set (cs_table x)"
proof -
  let ?s = "\<lparr>cs_table = [], cs_policy = PriorityFifo_new, cs_limit = 1\<rparr> :: cs" and ?d = "example_packet 1 5"
  have start: "cs_reachable example_sha256 PriorityFifo_new 1 ?s" by (rule reach_start)
  then have "cs_ok example_sha256 ?s" by (rule cs_reachable_ok [rotated]) simp
  from Cs_insert_ok [OF this example_packet_ok(1) [of 1 5], of 0 True] obtain y where y: "Cs_insert example_sha256 0 ?d True False ?s = Inr y"
    "cs_limit y = 1" "cs_map y (example_key 1) \<noteq> None" by (auto simp: example_packet_ok(2))
  have r: "cs_reachable example_sha256 PriorityFifo_new 1 y" by (rule reach_step [OF start step_insert [OF example_packet_ok(1) y(1)]])
  then show ?thesis using Cs_reachable_bounded [of PriorityFifo_new example_sha256 1 y] y(2,3) by auto
qed

text \<open>
  C13: what an insertion stores and evicts, for Data with a wire and shortest component wires in its
  name. With a limit of 0, or for Data tagged not to be cached, nothing changes. Otherwise a packet that
  is in the store already is refreshed: its stale time, in the 64-bit nanoseconds of the clock, is
  computed anew and it becomes solicited when this Data is; a new one is stored. Nothing else changes
  while there is room; in a full store a new packet evicts exactly one entry, the first in the order of
  the policy with the new entry in it, which may be the new entry itself.
\<close>

theorem Cs_insert_evicts:
  assumes "cs_ok sha256 x" and "has_digest sha256 d"
  shows "\<exists>y. Cs_insert sha256 now d u noCache x = Inr y \<and> cs_limit y = cs_limit x
     \<and> (if cs_limit x = 0 \<or> noCache then y = x
        else cs_map y = (let k = data_key sha256 d; e = inserted_entry now d u (cs_map x k); M = (cs_map x)(k \<mapsto> e)
                   in if cs_map x k \<noteq> None \<or> length (cs_table x) < cs_limit x then M else M(hd (order_with now k e (cs_policy x)) := None)))"
proof (cases "cs_limit x = 0 \<or> noCache")
  case True
  then show ?thesis by (auto simp: Cs_insert_def)
next
  case False
  then have limit: "0 < cs_limit x" and cached: "noCache = False" by simp_all
  show ?thesis using Cs_insert_ok [OF assms limit, of now u] unfolding eq_False [THEN iffD2, OF False] if_False Let_def unfolding cached by blast
qed

theorem Cs_insert_evicts_witness:
  "\<exists>y. Cs_insert example_sha256 0 (example_packet 2 0) True False
      \<lparr>cs_table = [(example_key 1, cached_entry 1 0)], cs_policy = Lru [example_key 1], cs_limit = 1\<rparr> = Inr y
     \<and> cs_map y (example_key 1) = None \<and> cs_map y (example_key 2) \<noteq> None"
proof -
  let ?x = "\<lparr>cs_table = [(example_key 1, cached_entry 1 0)], cs_policy = Lru [example_key 1], cs_limit = 1\<rparr> :: cs"
  have "cs_ok example_sha256 ?x" using example_store_ok [of "[1]" 1 0] by simp
  from Cs_insert_evicts [OF this example_packet_ok(1) [of 2 0], of 0 True False]
  obtain y where y: "Cs_insert example_sha256 0 (example_packet 2 0) True False ?x = Inr y"
    "cs_map y = ((cs_map ?x)(example_key 2 \<mapsto> inserted_entry 0 (example_packet 2 0) True (cs_map ?x (example_key 2))))
       (hd (order_with 0 (example_key 2) (inserted_entry 0 (example_packet 2 0) True (cs_map ?x (example_key 2))) (cs_policy ?x)) := None)"
    using example_key_less(2) [of 1 2] by (auto simp: example_packet_ok(2) cs_map_def Let_def)
  moreover have "hd (order_with 0 (example_key 2) e (cs_policy ?x)) = example_key 1" for e by (simp add: order_with_def)
  ultimately show ?thesis using example_key_less(2) [of 1 2] by auto
qed

text \<open>
  C12: what a lookup finds. The store is well-formed; the Interest's name has shortest component wires
  and is empty or ends in a generic component, no comparison of key locators throws, and, for
  \<^verbatim>\<open>ChildSelector=1\<close>, no stored Data name has a component that is an implicit
  digest. Then \<^verbatim>\<open>find\<close> reports a miss only when no entry of the store, wherever
  it is in the table, may satisfy the Interest, and else the first one in the order of names and
  digests, or with \<^verbatim>\<open>ChildSelector=1\<close> the first below the last child that has
  one, among packets of the Interest's own name the last; the packets and the limit stay.
\<close>

theorem Cs_find_best_match:
  assumes "cs_ok sha256 x" and "searchable i" and "comparable sha256 now i (cs_table x)"
    and "sel_childSelector (i_selectors i) = 1 \<Longrightarrow> plain_names (cs_table x)"
  shows "\<exists>r y. Cs_find sha256 now i x = Inr (r, y) \<and> cs_table y = cs_table x \<and> cs_limit y = cs_limit x
     \<and> (case r of Miss \<Rightarrow> y = x \<and> (\<forall>e \<in> set (cs_table x). \<not> satisfies sha256 now i e)
        | Hit d \<Rightarrow> \<exists>m. best_match sha256 now i (cs_table x) m \<and> d = ce_data (snd m))"
  using Cs_find_ok [OF assms] by blast

theorem Cs_find_best_match_witness:
  "\<exists>y. Cs_find example_sha256 9 (Interest_of_name name_a)
      \<lparr>cs_table = map (\<lambda>v. (example_key v, cached_entry v 0)) [1, 2], cs_policy = Lru (map example_key [1, 2]), cs_limit = 2\<rparr>
     = Inr (Hit (example_packet 1 0), y)"
proof -
  let ?x = "\<lparr>cs_table = map (\<lambda>v. (example_key v, cached_entry v 0)) [1, 2], cs_policy = Lru (map example_key [1, 2]), cs_limit = 2\<rparr> :: cs"
  let ?i = "Interest_of_name name_a"
  have ok: "cs_ok example_sha256 ?x" using example_store_ok [of "[1, 2]" 2 0] by simp
  have child: "sel_childSelector (i_selectors ?i) \<noteq> 1" by (simp add: Interest_of_name_def Interest_default_def Selectors_default_def)
  have "Component_isGeneric (Component_of_buffer [97])" "Block_hasValue (Component_of_buffer [97])" "length (value_bytes (Component_of_buffer [97])) = 1"
    by (simp_all add: Component_of_buffer_def Component_isGeneric_def Block_of_type_value_ok)
  then have s: "searchable ?i" using example_names by (simp add: searchable_def has_successor_def Interest_of_name_def)
  have "comparable example_sha256 9 ?i (cs_table ?x)" using example_matches by (auto simp: comparable_def)
  from Cs_find_best_match [OF ok s this notE [OF child]] have found: "\<exists>r y. Cs_find example_sha256 9 ?i ?x = Inr (r, y)
      \<and> cs_table y = cs_table ?x \<and> cs_limit y = cs_limit ?x \<and> (case r of Miss \<Rightarrow> y = ?x \<and> (\<forall>e \<in> set (cs_table ?x). \<not> satisfies example_sha256 9 ?i e)
      | Hit d \<Rightarrow> \<exists>m. best_match example_sha256 9 ?i (cs_table ?x) m \<and> d = ce_data (snd m))" by assumption
  obtain r y where f: "Cs_find example_sha256 9 ?i ?x = Inr (r, y)" "(case r of Miss \<Rightarrow> y = ?x \<and> (\<forall>e \<in> set (cs_table ?x). \<not> satisfies example_sha256 9 ?i e)
      | Hit d \<Rightarrow> \<exists>m. best_match example_sha256 9 ?i (cs_table ?x) m \<and> d = ce_data (snd m))"
    using found by (elim exE conjE) (rule that)
  have "r \<noteq> Miss"
  proof
    assume "r = Miss"
    then have "\<not> satisfies example_sha256 9 ?i (example_key 1, cached_entry 1 0)" using f(2) by simp
    then show False using example_matches by (simp add: satisfies_def)
  qed
  then obtain d where d: "r = Hit d" by (cases r) auto
  have "\<exists>m. best_match example_sha256 9 ?i (cs_table ?x) m \<and> d = ce_data (snd m)" using f(2) unfolding d cs_result.case .
  then obtain m where m: "best_match example_sha256 9 ?i (cs_table ?x) m" "d = ce_data (snd m)" by (elim exE conjE) (rule that)
  have "m = (example_key 1, cached_entry 1 0)"
  proof (rule ccontr)
    assume "\<not> ?thesis"
    then have "m = (example_key 2, cached_entry 2 0)" using m(1) by (auto simp: best_match_def)
    moreover have "\<not> stored_less (example_key 1) (fst m)" using m(1) child example_matches by (auto simp: best_match_def satisfies_def)
    ultimately show False using example_key_less(1) [of 1 2] by simp
  qed
  then show ?thesis using f(1) m(2) d by (intro exI [of _ y]) (simp add: cached_entry_data)
qed

text \<open>
  An Interest whose name ends in the implicit digest of 32 bytes 255 makes \<^verbatim>\<open>find\<close> throw
  \<^verbatim>\<open>name::Component::Error\<close>, whatever is stored: the successor of that component would need 33 bytes and
  is no component. Any node that sends such an Interest raises the exception in the forwarder.
\<close>

theorem Cs_find_greatest_digest_throws:
  assumes "name_block (i_name i)" and "name_of (i_name i) = N @ [Component tlv_ImplicitSha256DigestComponent (replicate 32 255)]"
  shows "Cs_find sha256 now i x =
     Inl (ComponentError ''Cannot construct name::Component from not a NameComponent or ImplicitSha256DigestComponent TLV wire block'')"
  by (rule Cs_find_greatest_digest [OF assms]) (simp_all add: is_digest_def SHA256_DIGEST_SIZE_def)

theorem Cs_find_greatest_digest_throws_witness:
  "\<exists>n. name_of n = [Component 8 [97], Component 1 (replicate 32 255)]
     \<and> (\<exists>e. Cs_find example_sha256 0 (Interest_of_name n) (Cs_new 10) = Inl (ComponentError e))"
proof -
  obtain n where n: "name_block n" "name_of n = name_of (d_name (example_packet 255 0)) @ [digest_component example_sha256 (example_packet 255 0)]"
    using Data_getFullName_digest [OF example_packet_ok(1)] by blast
  moreover have "digest_component example_sha256 (example_packet 255 0) = Component tlv_ImplicitSha256DigestComponent (replicate 32 255)"
    "name_of (d_name (example_packet 255 0)) = [Component 8 [97]]"
    using example_packet_ok(2) [of 255 0] by (simp_all add: data_key_def example_key_def tlv_codes)
  ultimately have "name_of (i_name (Interest_of_name n)) = [Component 8 [97]] @ [Component tlv_ImplicitSha256DigestComponent (replicate 32 255)]"
    "name_block (i_name (Interest_of_name n))" by (simp_all add: Interest_of_name_def del: replicate.simps)
  from Cs_find_greatest_digest_throws [OF this(2,1)] this(1) show ?thesis
    by (intro exI [of _ n]) (simp add: Interest_of_name_def tlv_codes del: replicate.simps)
qed

text \<open>
  With \<^verbatim>\<open>ChildSelector=1\<close> and a full name, \<^verbatim>\<open>find\<close> may run off the table. When the store holds
  several packets of one name, the Interest asks for the one with the greatest digest and that one does
  not satisfy it, because it must be fresh and is stale, the loop goes back to the first packet of that
  name, past the lower bound of the full name, and then before the first entry of the table.
\<close>

theorem Cs_find_stale_digest_undefined:
  assumes "name_block (i_name i)" and "name_of (i_name i) = N @ [c]" and "is_digest c" and "be_value (comp_value c) + 1 < 256 ^ 32"
    and "plain_query N" and "sel_childSelector (i_selectors i) = 1"
    and "cs_table x = es @ [((N, c), e)]" and "es \<noteq> []" and "\<forall>f \<in> set es. fst (fst f) = N \<and> snd (fst f) < c"
    and "\<forall>f \<in> set (cs_table x). canSatisfy sha256 now i (snd f) = Inr False"
  shows "Cs_find sha256 now i x = Inl (UndefinedBehaviour ''iterator moved before the first entry'')"
  by (rule Cs_find_digest_runs_off [OF assms])

theorem Cs_find_stale_digest_undefined_witness:
  "\<exists>i e. name_of (i_name i) = [Component 8 [97], Component 1 (replicate 32 2)]
     \<and> Cs_find example_sha256 1 i
         \<lparr>cs_table = map (\<lambda>v. (example_key v, cached_entry v 0)) [1, 2], cs_policy = Lru (map example_key [1, 2]), cs_limit = 2\<rparr>
       = Inl (UndefinedBehaviour e)"
proof -
  let ?x = "\<lparr>cs_table = map (\<lambda>v. (example_key v, cached_entry v 0)) [1, 2], cs_policy = Lru (map example_key [1, 2]), cs_limit = 2\<rparr> :: cs"
  let ?N = "[Component 8 [97]]" and ?c = "Component 1 (replicate 32 (2 :: byte))"
  obtain n where n: "name_block n" "name_of n = name_of (d_name (example_packet 2 0)) @ [digest_component example_sha256 (example_packet 2 0)]"
    using Data_getFullName_digest [OF example_packet_ok(1)] by blast
  define i where "i = (Interest_of_name n)\<lparr>i_selectors := Selectors_default\<lparr>sel_mustBeFresh := True, sel_childSelector := 1\<rparr>\<rparr>"
  have key: "(name_of (d_name (example_packet v f)), digest_component example_sha256 (example_packet v f)) = example_key v" for v f
    using example_packet_ok(2) [of v f] by (simp add: data_key_def)
  have i: "name_block (i_name i)" "name_of (i_name i) = ?N @ [?c]" "sel_childSelector (i_selectors i) = 1" "sel_mustBeFresh (i_selectors i)"
    using n key [of 2 0] by (simp_all add: i_def Interest_of_name_def example_key_def)
  have kl: "matches_keyLocator i d = Inr True" for d
    by (simp add: matches_keyLocator_def i_def Selectors_default_def KeyLocator_default_def KeyLocator_empty_def)
  have match: "Interest_matchesData example_sha256 i (example_packet v 0) \<in> {Inr True, Inr False}" for v
    using Interest_matchesData_iff [OF example_packet_ok(1) [of v 0] i(1)] kl by simp
  have "isStale 1 (cached_entry v 0)" for v
    by (simp add: isStale_def cached_entry_def inserted_entry_def stale_time_def example_packet_def time_after_def ns_of_ms_def chrono64_id)
  then have no: "canSatisfy example_sha256 1 i (cached_entry v 0) = Inr False" for v
    using i(4) match [of v] by (auto simp: canSatisfy_def cached_entry_data split: sum.split)
  have dig: "is_digest ?c" "be_value (comp_value ?c) + 1 < 256 ^ 32"
    using be_value_replicate_less [of 2 255 31] be_value_ones [of 32] by (simp_all add: is_digest_def tlv_codes SHA256_DIGEST_SIZE_def del: replicate.simps)
  have "snd (example_key 1) < ?c" using example_key_less(1) [of 1 2] by (simp add: stored_less_iff example_key_def)
  then have "Cs_find example_sha256 1 i ?x = Inl (UndefinedBehaviour ''iterator moved before the first entry'')"
    using no by (intro Cs_find_stale_digest_undefined [OF i(1,2) dig _ i(3), of _ "[(example_key 1, cached_entry 1 0)]" "cached_entry 2 0"])
      (simp_all add: plain_query_def is_digest_def tlv_codes example_key_def del: replicate.simps)
  then show ?thesis using i(2) by (intro exI [of _ i] exI) simp
qed

end
