(* ===== verification/ForwarderTheorems.thy ===== *)
theory ForwarderTheorems
  imports ForwarderScope CsTheorems RepoCommand
begin

text \<open>
  What the forwarder guarantees, and where it fails, each on an example.
\<close>

section \<open>An example\<close>

text \<open>Two faces to other hosts, empty tables, and an Interest \<open>/a\<close> with a nonce, which face 2 shall get.\<close>

definition example_hashes :: hashes where
  "example_hashes = \<lparr>h_sha256 = example_sha256, h_nonce = (\<lambda>w nonce. ucast nonce)\<rparr>"

definition example_face :: "u64 \<Rightarrow> face" where
  "example_face k = \<lparr>fc_id = k, fc_local = False, fc_multiAccess = False\<rparr>"

definition example_forwarder :: forwarder where
  "example_forwarder = \<lparr>fw_faces = [1 \<mapsto> example_face 1, 2 \<mapsto> example_face 2], fw_pit = Pit_new (Hashtable_new example_options), fw_nFib = 0,
     fw_cs = Cs_new 10, fw_dnl = \<lparr>dnl_lifetime = DNL_DEFAULT_LIFETIME, dnl_queue = replicate 5 0, dnl_capacity = 128, dnl_actualMarkCounts = {#}\<rparr>,
     fw_unsolicited = DropAll, fw_regions = [], fw_sent = []\<rparr>"

definition example_Interest :: "u32 \<Rightarrow> interest_packet" where
  "example_Interest nonce = \<lparr>ip_interest = Interest_of_name name_a, ip_nonce = nonce, ip_nextHopFaceId = Some 2, ip_object = 0\<rparr>"

lemma selectors_okI:
  assumes "sel_ok s" and "\<not> Block_hasWire (sel_wire s)"
  shows "selectors_ok s"
proof -
  have s: "kl_ok (sel_publisherPublicKeyLocator s)" "fits (tlvs_wire (sel_tlvs s))" using assms(1) by (simp_all add: sel_ok_def)
  obtain me where me: "Selectors_wireEncode_template estimator_ops s = Inr me"
    "prepends (\<lambda>_ _. True) me (tlv_wire tlv_Selectors (tlvs_wire (sel_tlvs s))) (length (tlv_wire tlv_Selectors (tlvs_wire (sel_tlvs s))))"
    using est.Selectors_wireEncode_prepends [OF s(1)] by blast
  obtain mn where mn: "Selectors_wireEncode_template encoder_ops s = Inr mn"
    "prepends enc_rel mn (tlv_wire tlv_Selectors (tlvs_wire (sel_tlvs s))) (length (tlv_wire tlv_Selectors (tlvs_wire (sel_tlvs s))))"
    using enc.Selectors_wireEncode_prepends [OF s(1)] by blast
  obtain b where "estimate_and_encode me mn = Inr b" "block_wf b" "Block_hasWire b" using estimate_and_encode_wire [OF me(2) mn(2) s(2)] by blast
  then show ?thesis using assms(2) me(1) mn(1) by (simp add: selectors_ok_def Selectors_wireEncode_def try_encode_def)
qed

lemma name_of_plain [simp]: "i_name (Interest_of_name n) = n"
  by (simp add: Interest_of_name_def)

lemma example_Interest_fields [simp]:
  "i_name (ip_interest (example_Interest nonce)) = name_a" "ip_nonce (example_Interest nonce) = nonce" "ip_nextHopFaceId (example_Interest nonce) = Some 2"
  "ip_interest (example_Interest nonce) = Interest_of_name name_a"
  by (simp_all add: example_Interest_def Interest_of_name_def)

lemma plain_packet_ok:
  assumes "name_block n" and "\<exists>w. Name_wireEncode n = Inr w" and "ip_interest p = Interest_of_name n"
  shows "packet_ok p" "linkless p"
proof -
  have "selectors_ok Selectors_default"
    by (rule selectors_okI [OF Selectors_default_ok(1)]) (simp add: Selectors_default_def Block_hasWire_def Block_default_def)
  then show "packet_ok p" using assms by (simp add: packet_ok_def) (simp add: Interest_of_name_def Interest_default_def)
  show "linkless p" using assms(3)
    by (simp add: linkless_def Interest_hasLink_def Interest_of_name_def Interest_default_def Block_hasWire_def Block_default_def)
qed

lemma example_Interest_ok: "packet_ok (example_Interest nonce)" "linkless (example_Interest nonce)" "\<exists>w. Name_wireEncode name_a = Inr w"
proof -
  have "fits (tlvs_wire (map block_tlv (m_subBlocks name_a)))"
    by (simp add: example_names fits_def block_tlv_def size_simps tlv_codes sizeOfVarNumber_def)
  then show w: "\<exists>w. Name_wireEncode name_a = Inr w" using Name_wireEncode_wire [OF example_names(1,8)] by blast
  show "packet_ok (example_Interest nonce)" "linkless (example_Interest nonce)"
    by (rule plain_packet_ok [OF example_names(1) w]; simp)+
qed

lemma example_store: "cs_ok example_sha256 (Cs_new 10)"
  using cs_reachable_ok [OF _ reach_start, of PriorityFifo_new example_sha256 10] by (simp add: Cs_new_def)

lemma example_miss: "\<exists>x. Cs_find example_sha256 now (Interest_of_name name_a) (Cs_new 10) = Inr (Miss, x)"
proof -
  let ?i = "Interest_of_name name_a"
  have "Component_isGeneric (Component_of_buffer [97])" "Block_hasValue (Component_of_buffer [97])" "length (value_bytes (Component_of_buffer [97])) = 1"
    by (simp_all add: Component_of_buffer_def Component_isGeneric_def Block_of_type_value_ok)
  then have s: "searchable ?i" using example_names by (simp add: searchable_def has_successor_def Interest_of_name_def)
  have t: "cs_table (Cs_new 10) = []" by (simp add: Cs_new_def)
  have "comparable example_sha256 now ?i (cs_table (Cs_new 10))" "plain_names (cs_table (Cs_new 10))" by (simp_all add: t comparable_def plain_names_def)
  from Cs_find_ok [OF example_store s this] obtain r y where f: "Cs_find example_sha256 now ?i (Cs_new 10) = Inr (r, y)"
    "case r of Miss \<Rightarrow> True | Hit d \<Rightarrow> \<exists>m. best_match example_sha256 now ?i (cs_table (Cs_new 10)) m"
    by (elim exE conjE) (rule that, assumption, auto split: cs_result.splits)
  then have "r = Miss" by (cases r) (auto simp: t best_match_def)
  then show ?thesis using f(1) by blast
qed

lemma example_start: "fw_start example_hashes (Fib_new example_options) (fw_faces example_forwarder) example_forwarder"
proof -
  have F: "fib_ok (Fib_new example_options)" "fib_at (Fib_new example_options) n = None" for n
    using new_fib_ok fib_view_none [OF new_fib_ok(1), of n] by auto
  have "cs_ok example_sha256 (Cs_new 10)" by (rule example_store)
  moreover have "dnl_ok 0 (fw_dnl example_forwarder)" by (simp add: example_forwarder_def dnl_ok_def dnl_constants)
  moreover have "fw_fib example_forwarder = Fib_new example_options" by (simp add: fw_fib_def example_forwarder_def Pit_new_def Fib_new_def)
  then have "faces_ok example_forwarder" using F(2) by (auto simp: faces_ok_def example_forwarder_def example_face_def INVALID_FACEID_def split: if_splits)
  moreover have "ne_pitEntries (nt_tables (ft_nameTree (Fib_new example_options)) n) = []" for n
    using new_tree_ok(3) by (simp add: Fib_new_def nt_tables_map nt_entry_new_def)
  ultimately show ?thesis using F(1) by (simp add: fw_start_def) (simp add: example_forwarder_def example_hashes_def Fib_new_def)
qed

lemma example_reachable: "fw_reachable example_hashes strat (Fib_new example_options) (fw_faces example_forwarder) example_forwarder"
  by (rule fw_reachable.start [OF example_start])

lemma example_first: "first_Interest example_hashes now (example_face 1) (example_Interest 7) 2 example_forwarder"
proof -
  have "\<not> violates_localhost (example_face 1) (name_of name_a)"
    by (simp add: violates_localhost_def example_names LOCALHOST_def is_prefix_def)
  moreover obtain w where "Name_wireEncode name_a = Inr w" using example_Interest_ok(3) by blast
  then have "DNL_has (h_nonce example_hashes) name_a 7 (fw_dnl example_forwarder) = Inr False"
    by (simp add: DNL_has_def makeEntry_def DNL_has_entry_def example_hashes_def example_forwarder_def)
  moreover have "pit_lookup (fw_pit example_forwarder) p = None" for p
    using pit_lookup_None [OF fw_okD(1) [OF fw_start_ok [OF example_start]]] by (simp add: example_forwarder_def Pit_new_def)
  moreover have "\<exists>x. Cs_find example_sha256 now (Interest_of_name name_a) (Cs_new 10) = Inr (Miss, x)" by (rule example_miss)
  moreover have "fw_faces example_forwarder 2 \<noteq> None" "fw_cs example_forwarder = Cs_new 10" by (simp_all add: example_forwarder_def)
  ultimately show ?thesis using example_Interest_ok(1,2) [of 7] example_Interest_ok(3)
    by (simp add: first_Interest_def fresh_Interest_def) (simp add: example_hashes_def)
qed

text \<open>The forwarder once face 2 has been sent the Interest.\<close>

definition example_choice :: "full_name \<Rightarrow> strategy" where
  "example_choice n = BestRouteStrategy2"

lemma example_choice_ok: "\<forall>n. example_choice n \<in> strategies"
  by (simp add: example_choice_def strategies_def)

lemma example_forwarded:
  "\<exists>g j e. fw_reachable example_hashes (effective example_choice) (Fib_new example_options) (fw_faces example_forwarder) g
     \<and> fw_event example_hashes (effective example_choice) example_forwarder (None, g)
     \<and> fw_entry g j = Some e \<and> forwarded_entry 5 1 (example_Interest 7) 2 e \<and> (\<forall>i. i \<noteq> j \<longrightarrow> fw_entry g i = None)
     \<and> fw_sent g = [SentInterest 2 (example_Interest 7)] \<and> fw_faces g = fw_faces example_forwarder"
proof -
  let ?s = "effective example_choice" and ?F = "Fib_new example_options"
  have r: "fw_reachable example_hashes ?s ?F (fw_faces example_forwarder) example_forwarder" by (rule example_reachable)
  obtain g j e where g: "onIncomingInterest example_hashes ?s 5 (example_face 1) (example_Interest 7) example_forwarder = (None, g)" "fw_entry g j = Some e"
    "forwarded_entry 5 (fc_id (example_face 1)) (example_Interest 7) 2 e" "\<forall>i. i \<noteq> j \<longrightarrow> fw_entry g i = fw_entry example_forwarder i"
    "fw_sent g = fw_sent example_forwarder @ [SentInterest 2 (example_Interest 7)]" "fw_faces g = fw_faces example_forwarder"
    using onIncomingInterest_forwards [OF fw_start_ok [OF example_start] example_first [of 5], of ?s] by (elim exE conjE) (rule that)
  have "cs_answers example_hashes 5 (example_Interest 7) example_forwarder"
    using example_first [of 5] by (auto simp: first_Interest_def fresh_Interest_def cs_answers_def)
  from event_Interest [OF example_Interest_ok(1,2) this, of ?s "example_face 1"]
  have ev: "fw_event example_hashes ?s example_forwarder (None, g)" by (simp add: linkless_start [OF example_Interest_ok(2)] g(1))
  have "fw_entry example_forwarder i = None" "fw_sent example_forwarder = []" for i by (simp_all add: fw_entry_def example_forwarder_def Pit_new_def)
  then show ?thesis using fw_reachable.event [OF r ev] ev g(2-6) by (intro exI [of _ g] exI [of _ j] exI [of _ e]) (simp add: example_face_def)
qed

text \<open>The forwarder with a route of \<open>/a\<close> to face 2, and an Interest that does not name its next hop.\<close>

definition example_plain :: "u32 \<Rightarrow> interest_packet" where
  "example_plain nonce = (example_Interest nonce)\<lparr>ip_nextHopFaceId := None\<rparr>"

lemma example_plain_fields [simp]:
  "ip_nonce (example_plain nonce) = nonce" "ip_nextHopFaceId (example_plain nonce) = None" "ip_interest (example_plain nonce) = Interest_of_name name_a"
  by (simp_all add: example_plain_def)

lemma example_plain_ok: "packet_ok (example_plain nonce)" "linkless (example_plain nonce)"
  by (rule plain_packet_ok [OF example_names(1) example_Interest_ok(3)]; simp)+

lemma fresh_plain:
  assumes "fresh_Interest h now inFace (example_Interest nonce) f"
  shows "fresh_Interest h now inFace (example_plain nonce) f"
proof -
  have "pit_lookup (fw_pit f) (example_plain nonce) = pit_lookup (fw_pit f) (example_Interest nonce)"
    by (simp add: pit_lookup_def packet_key_def)
  then show ?thesis using assms example_plain_ok by (simp add: fresh_Interest_def)
qed

lemma example_routed:
  "\<exists>f. fw_reachable example_hashes (effective example_choice) (Fib_new example_options) (fw_faces example_forwarder) f
     \<and> next_hops (fw_fib f) (name_of name_a) = [2 \<mapsto> 10] \<and> fresh_Interest example_hashes 5 (example_face 1) (example_plain 7) f
     \<and> fw_sent f = [] \<and> fw_faces f = fw_faces example_forwarder"
proof -
  let ?u = "createAddUpdate (name_of name_a) 2 10" and ?s = "effective example_choice"
  have faces: "fw_faces example_forwarder (fb_faceId ?u) \<noteq> None" by (simp add: example_forwarder_def createAddUpdate_def)
  obtain F' r where F': "execute_update (dom (fw_faces example_forwarder)) None ?u (fw_fib example_forwarder) = Some (Inr (F', r))"
    "fw_ok example_hashes {} (use_fib F' example_forwarder)"
    "fib_view (fw_fib (use_fib F' example_forwarder)) = apply_command ?u (fib_view (fw_fib example_forwarder))"
    using use_fib_ok [OF fw_start_ok [OF example_start] faces, of None] by blast
  define f where "f = use_fib F' example_forwarder"
  have "fw_fib example_forwarder = Fib_new example_options" by (simp add: fw_fib_def example_forwarder_def Pit_new_def Fib_new_def)
  then have "fib_view (fw_fib f) = (\<lambda>_ _. None)(name_of name_a := [2 \<mapsto> 10])"
    using F'(3) new_fib_ok(2) by (simp add: f_def apply_command_def createAddUpdate_def)
  then have "next_hops (fw_fib f) (name_of name_a) = [2 \<mapsto> 10]"
    by (simp add: next_hops_def longest_prefix_step [of _ "name_of name_a"])
  moreover have "fw_reachable example_hashes ?s (Fib_new example_options) (fw_faces example_forwarder) f"
    using fw_reachable.event [OF example_reachable event_fib [OF faces F'(1)]] by (simp add: f_def)
  moreover have same: "fw_cs f = fw_cs example_forwarder" "fw_dnl f = fw_dnl example_forwarder" "fw_faces f = fw_faces example_forwarder" "fw_sent f = []"
    by (simp_all add: f_def use_fib_def example_forwarder_def)
  moreover have "pit_entries (fw_pit f) j = None" for j by (simp add: f_def use_fib_def example_forwarder_def Pit_new_def)
  then have "pit_lookup (fw_pit f) p = None" for p using pit_lookup_None [of "fw_pit f"] fw_okD(1) [OF F'(2)] by (simp add: f_def)
  then have "fresh_Interest example_hashes 5 (example_face 1) (example_Interest 7) f"
    using example_first [of 5] same(1,2) by (simp add: first_Interest_def fresh_Interest_def)
  ultimately show ?thesis using fresh_plain by blast
qed

section \<open>Best route\<close>

lemma best_route_new:
  assumes "\<forall>n. chosen n \<in> strategies" and "chosen (ip_name p) = BestRouteStrategy2" and "fw_reachable h (effective chosen) F faces f"
    and "fresh_Interest h now inFace p f" and "ip_nextHopFaceId p = None" and "fw_faces f (fc_id inFace) = Some inFace"
  shows "\<exists>g j. onIncomingInterest h (effective chosen) now inFace p f = (None, g)
    \<and> (if \<exists>k. next_hops (fw_fib f) (ip_name p) k \<noteq> None \<and> usable inFace p f k
       then \<exists>k c e. next_hops (fw_fib f) (ip_name p) k = Some c \<and> usable inFace p f k
         \<and> (\<forall>l d. next_hops (fw_fib f) (ip_name p) l = Some d \<and> usable inFace p f l \<longrightarrow> c \<le> d)
         \<and> fw_sent g = fw_sent f @ [SentInterest k p] \<and> fw_entry g j = Some e \<and> forwarded_entry now (fc_id inFace) p k e
       else fw_sent g = fw_sent f @ (if fc_multiAccess inFace then [] else [SentNack (fc_id inFace) p NoRoute])
         \<and> map_option pe_stragglerTimer (fw_entry g j) = Some (Some (chrono64 (now + stragglerTime), False, - 1)))"
proof -
  have f: "fw_ok h {} f" by (rule fw_reachable_ok [OF effective_contract(1) [OF assms(1)] assms(3)])
  have p: "packet_ok p" using assms(4) by (simp add: fresh_Interest_def)
  obtain g j e where g: "onIncomingInterest h (effective chosen) now inFace p f = dispatchToStrategy (effective chosen) now j (AfterReceiveInterest inFace p) g"
    "fw_ok h {} g" "fw_entry g j = Some e" "waiting_entry now (fc_id inFace) p e" "fw_sent g = fw_sent f" "fw_faces g = fw_faces f"
    "fib_view (fw_fib g) = fib_view (fw_fib f)"
    using onIncomingInterest_new [OF f assms(4), of "effective chosen"] assms(5) by auto
  have "pe_interest e = p" using g(4) by (simp add: waiting_entry_def)
  then have run: "onIncomingInterest h (effective chosen) now inFace p f = BestRouteStrategy2 now j (AfterReceiveInterest inFace p) g"
    using g(1,3) assms(2) by (simp add: dispatchToStrategy_def effective_def with_entry_Some)
  have same: "next_hops (fw_fib g) = next_hops (fw_fib f)" "usable inFace p g = usable inFace p f"
    by (rule ext, simp only: next_hops_def g(7)) (rule ext, simp only: usable_def g(6))
  show ?thesis using BestRouteStrategy2_new [OF g(2-4) p] assms(6) unfolding run same g(5,6) by blast
qed

lemma example_usable:
  assumes "next_hops (fw_fib f) (name_of name_a) = [2 \<mapsto> 10]" and "fw_faces f = fw_faces example_forwarder"
  shows "\<exists>k. next_hops (fw_fib f) (ip_name (example_plain 7)) k \<noteq> None \<and> usable (example_face 1) (example_plain 7) f k"
  using assms by (intro exI [of _ 2])
    (simp add: usable_def example_forwarder_def example_face_def wouldViolateScope_def example_names LOCALHOST_def LOCALHOP_def is_prefix_def)

lemma example_best_route:
  "\<exists>f g. fw_reachable example_hashes (effective example_choice) (Fib_new example_options) (fw_faces example_forwarder) f
     \<and> fresh_Interest example_hashes 5 (example_face 1) (example_plain 7) f \<and> next_hops (fw_fib f) (name_of name_a) = [2 \<mapsto> 10]
     \<and> fw_faces f = fw_faces example_forwarder
     \<and> onIncomingInterest example_hashes (effective example_choice) 5 (example_face 1) (example_plain 7) f = (None, g)
     \<and> fw_sent f = [] \<and> fw_sent g = [SentInterest 2 (example_plain 7)]"
proof -
  obtain f where f: "fw_reachable example_hashes (effective example_choice) (Fib_new example_options) (fw_faces example_forwarder) f"
    "next_hops (fw_fib f) (name_of name_a) = [2 \<mapsto> 10]" "fresh_Interest example_hashes 5 (example_face 1) (example_plain 7) f"
    "fw_sent f = []" "fw_faces f = fw_faces example_forwarder" using example_routed by blast
  have "ip_nextHopFaceId (example_plain 7) = None" "fw_faces f (fc_id (example_face 1)) = Some (example_face 1)"
    by (simp_all add: f(5)) (simp add: example_forwarder_def example_face_def)
  from best_route_new [OF example_choice_ok example_choice_def f(1,3) this]
  obtain g k where g: "onIncomingInterest example_hashes (effective example_choice) 5 (example_face 1) (example_plain 7) f = (None, g)"
    "next_hops (fw_fib f) (ip_name (example_plain 7)) k \<noteq> None" "fw_sent g = fw_sent f @ [SentInterest k (example_plain 7)]"
    unfolding if_P [OF example_usable [OF f(2,5)]] by (elim exE conjE) (rule that, assumption, simp_all)
  then have "k = 2" using f(2) by (auto split: if_splits)
  then show ?thesis using f g(1,3) by (intro exI [of _ f] exI [of _ g]) simp
qed

section \<open>The tables\<close>

text \<open>
  C3: the forwarder's tables stay in order. Every name has one of three strategies, two of best-route
  and multicast; Interests are well-formed, carry no Link object and have a Content Store lookup that
  returns, Data has a wire and its comparison with the pending Interests returns, and marks in the Dead
  Nonce List stay within its eviction limit. Whatever Interests, Data and Nacks then arrive on whatever
  faces, whatever timers run and whatever next hops the FIB manager adds and removes, every pipeline
  ends without an exception or a failed assertion; the PIT has one entry per name and selectors and
  counts them right, every entry has its unsatisfy or straggler timer set, its in-records and its
  out-records have distinct faces and its in-records Interests of its name and selectors; the Content
  Store stays within its limit and the Dead Nonce List within its greatest capacity and 64 more.
\<close>

theorem Forwarder_keeps_tables:
  assumes "\<forall>n. chosen n \<in> strategies" and "fw_reachable h (effective chosen) F faces f" and "fw_event h (effective chosen) f (err, g)"
  shows "err = None \<and> (\<forall>i j d e. fw_entry g i = Some d \<and> fw_entry g j = Some e \<and> packet_key (pe_interest d) = packet_key (pe_interest e) \<longrightarrow> i = j)
    \<and> (\<forall>j e. fw_entry g j = Some e \<longrightarrow> (pe_unsatisfyTimer e \<noteq> None \<or> pe_stragglerTimer e \<noteq> None)
        \<and> distinct (map in_face (pe_inRecords e)) \<and> distinct (map out_face (pe_outRecords e))
        \<and> (\<forall>r \<in> set (pe_inRecords e). packet_key (in_interest r) = packet_key (pe_interest e)))
    \<and> pit_nItems (fw_pit g) = of_nat (card (dom (fw_entry g)))
    \<and> length (cs_table (fw_cs g)) \<le> cs_limit (fw_cs g) \<and> length (dnl_queue (fw_dnl g)) \<le> MAX_CAPACITY + EVICT_LIMIT"
proof -
  note c = effective_contract(1) [OF assms(1)]
  have g: "err = None" "fw_ok h {} g" using event_ok [OF c fw_reachable_ok [OF c assms(2)] assms(3)] by (auto simp: succeeds_def)
  have p: "pit_ok (fw_pit g)" by (rule fw_okD(1) [OF g(2)])
  have "dom (fw_entry g) = dom (pit_entries (fw_pit g))" by (simp add: dom_def fw_entry_def)
  then have "pit_nItems (fw_pit g) = of_nat (card (dom (fw_entry g)))" using p by (simp add: pit_ok_def)
  moreover have "i = j" if "fw_entry g i = Some d" "fw_entry g j = Some e" "packet_key (pe_interest d) = packet_key (pe_interest e)" for i j d e
    using p that unfolding pit_ok_def fw_entry_def by blast
  moreover have "entry_ok e" "timed e" if "fw_entry g j = Some e" for j e using fw_okD(5,6) [OF g(2) that] by simp_all
  moreover have "length (cs_table (fw_cs g)) \<le> cs_limit (fw_cs g)" using fw_okD(3) [OF g(2)] by (simp add: cs_ok_def)
  moreover obtain m where "m \<le> EVICT_LIMIT" "dnl_ok m (fw_dnl g)" using fw_okD(4) [OF g(2)] by blast
  then have "length (dnl_queue (fw_dnl g)) \<le> MAX_CAPACITY + EVICT_LIMIT" by (simp add: dnl_ok_def)
  ultimately show ?thesis using g(1) unfolding entry_ok_def timed_def by blast
qed

theorem Forwarder_keeps_tables_witness:
  "\<exists>g. fw_event example_hashes (effective example_choice) example_forwarder (None, g) \<and> card (dom (fw_entry g)) = 1 \<and> pit_nItems (fw_pit g) = 1"
proof -
  obtain g j e where g: "fw_event example_hashes (effective example_choice) example_forwarder (None, g)" "fw_entry g j = Some e" "\<forall>i. i \<noteq> j \<longrightarrow> fw_entry g i = None"
    using example_forwarded by blast
  have "pit_nItems (fw_pit g) = of_nat (card (dom (fw_entry g)))"
    using Forwarder_keeps_tables [OF example_choice_ok example_reachable g(1)] by blast
  moreover have "dom (fw_entry g) = {j}" using g(2,3) by (auto simp: dom_def)
  ultimately show ?thesis using g(1) by (intro exI [of _ g]) simp
qed



section \<open>Data and scopes\<close>

text \<open>A face with a pending Interest that the Data satisfies.\<close>

definition awaits :: "hashes \<Rightarrow> int \<Rightarrow> data \<Rightarrow> forwarder \<Rightarrow> u64 \<Rightarrow> bool" where
  "awaits h now d f k \<longleftrightarrow> (\<exists>j e r. fw_entry f j = Some e \<and> Interest_matchesData (h_sha256 h) (ip_interest (pe_interest e)) d = Inr True
     \<and> r \<in> set (pe_inRecords e) \<and> in_face r = k \<and> now < in_expiry r)"

lemma awaits_downstreams: "downstreams now f (satisfied_entries (h_sha256 h) d (fw_pit f)) = {k. awaits h now d f k}"
  unfolding downstreams_def satisfied_entries_def awaits_def fw_entry_def set_eq_iff mem_Collect_eq by (metis option.inject)

lemma Data_delivered:
  assumes "\<forall>n. chosen n \<in> strategies" and "fw_reachable h (effective chosen) F faces f"
    and "has_digest (h_sha256 h) d" and "data_comparable (h_sha256 h) d (fw_pit f)" and "\<not> violates_localhost inFace (name_of (d_name d))"
  shows "\<exists>g new. onIncomingData h (effective chosen) now inFace d noCache f = (None, g) \<and> data_sent g = data_sent f @ new \<and> distinct new
    \<and> set new = {SentData fc d | k fc. fw_faces f k = Some fc \<and> k \<noteq> fc_id inFace \<and> \<not> violates_localhost fc (name_of (d_name d)) \<and> awaits h now d f k}
    \<and> (\<forall>j e. fw_entry f j = Some e \<longrightarrow>
        (if Interest_matchesData (h_sha256 h) (ip_interest (pe_interest e)) d = Inr True
         then \<forall>e'. fw_entry g j = Some e' \<longrightarrow> pe_inRecords e' = [] else fw_entry g j = Some e))"
proof -
  note c = effective_contract(1) [OF assms(1)]
  have f: "fw_ok h {} f" by (rule fw_reachable_ok [OF c assms(2)])
  let ?J = "satisfied_entries (h_sha256 h) d (fw_pit f)" and ?s = "\<lambda>k. SentData (the (fw_faces f k)) d"
  let ?ks = "filter (deliverable d (fc_id inFace) f) (sorted_list_of_set (downstreams now f ?J))"
  obtain g where g: "onIncomingData h (effective chosen) now inFace d noCache f = (None, g)" "data_sent g = data_sent f @ map ?s ?ks"
    "\<forall>j. if j \<in> ?J then cleared (fw_entry g j) else fw_entry g j = fw_entry f j"
    using onIncomingData_ok [OF c f assms(3,4), of now inFace noCache] assms(5) by auto
  have ids: "fc_id fc = k \<and> k \<noteq> INVALID_FACEID" if "fw_faces f k = Some fc" for k fc using fw_okD(8) [OF f] that by (simp add: faces_ok_def)
  have ks: "set ?ks = {k. deliverable d (fc_id inFace) f k \<and> awaits h now d f k}"
    using finite_downstreams [OF f] by (auto simp: awaits_downstreams)
  have "inj_on ?s (set ?ks)"
  proof (rule inj_onI)
    fix x y assume "x \<in> set ?ks" "y \<in> set ?ks" "?s x = ?s y"
    then obtain a b where "fw_faces f x = Some a" "fw_faces f y = Some b" "a = b" by (auto simp: deliverable_def split: option.splits)
    then show "x = y" using ids by metis
  qed
  then have "distinct (map ?s ?ks)" by (simp add: distinct_map)
  moreover have "set (map ?s ?ks) = {SentData fc d | k fc. fw_faces f k = Some fc \<and> k \<noteq> fc_id inFace \<and> \<not> violates_localhost fc (name_of (d_name d)) \<and> awaits h now d f k}"
    unfolding set_map ks using ids by (force simp: deliverable_def split: option.splits)
  moreover have "if Interest_matchesData (h_sha256 h) (ip_interest (pe_interest e)) d = Inr True
      then \<forall>e'. fw_entry g j = Some e' \<longrightarrow> pe_inRecords e' = [] else fw_entry g j = Some e" if "fw_entry f j = Some e" for j e
    using g(3) [rule_format, of j] that by (auto simp: satisfied_entries_def cleared_def fw_entry_def)
  ultimately show ?thesis using g(1,2) by blast
qed


lemma example_Data:
  "Interest_matchesData example_sha256 (Interest_of_name name_a) (example_packet v fp) = Inr True" "d_name (example_packet v fp) = name_a"
proof -
  show "Interest_matchesData example_sha256 (Interest_of_name name_a) (example_packet v fp) = Inr True"
    using example_matches [of 0 v fp] by (simp add: canSatisfy_def cached_entry_data split: sum.splits if_splits)
  show "d_name (example_packet v fp) = name_a" by (simp add: example_packet_def example_data_def Data_of_name_def)
qed

text \<open>Face 1 waits for the Data.\<close>

lemma example_Data_ok: "has_digest (h_sha256 example_hashes) (example_packet 1 0)" "\<not> violates_localhost fc (name_of (d_name (example_packet 1 0)))"
  using example_packet_ok(1) [of 1 0] by (simp add: example_hashes_def)
    (simp add: violates_localhost_def example_Data(2) example_names LOCALHOST_def is_prefix_def)

lemma example_awaiting:
  "\<exists>f. fw_reachable example_hashes (effective example_choice) (Fib_new example_options) (fw_faces example_forwarder) f
     \<and> data_comparable (h_sha256 example_hashes) (example_packet 1 0) (fw_pit f) \<and> awaits example_hashes 6 (example_packet 1 0) f 1
     \<and> fw_faces f = fw_faces example_forwarder"
proof -
  let ?d = "example_packet 1 0"
  obtain f j e where f: "fw_reachable example_hashes (effective example_choice) (Fib_new example_options) (fw_faces example_forwarder) f"
    "fw_entry f j = Some e" "forwarded_entry 5 1 (example_Interest 7) 2 e" "\<forall>i. i \<noteq> j \<longrightarrow> fw_entry f i = None" "fw_faces f = fw_faces example_forwarder"
    using example_forwarded by blast
  have "ip_interest (pe_interest e) = Interest_of_name name_a" using forwarded_entryD [OF f(3)] by simp
  then have m: "Interest_matchesData (h_sha256 example_hashes) (ip_interest (pe_interest e)) ?d = Inr True"
    using example_Data(1) by (simp add: example_hashes_def)
  have "data_comparable (h_sha256 example_hashes) ?d (fw_pit f)"
    unfolding data_comparable_def
  proof (intro allI impI)
    fix i x assume "pit_entries (fw_pit f) i = Some x"
    then have "x = e" using f(2,4) by (metis fw_entry_def option.inject option.distinct(1))
    then show "\<exists>b. Interest_matchesData (h_sha256 example_hashes) (ip_interest (pe_interest x)) ?d = Inr b" using m by auto
  qed
  moreover let ?r = "\<lparr>in_face = 1, in_lastNonce = 7, in_lastRenewed = 5, in_expiry = record_expiry 5 (example_Interest 7), in_interest = example_Interest 7\<rparr>"
  have "i_interestLifetime (Interest_of_name name_a) < 0" by (simp add: Interest_of_name_def Interest_default_def milliseconds_min_def)
  then have "6 < in_expiry ?r" by (simp add: record_expiry_def DEFAULT_INTEREST_LIFETIME_def time_after_def ns_of_ms_def chrono64_id)
  moreover have "?r \<in> set (pe_inRecords e)" using forwarded_entryD [OF f(3)] by simp
  ultimately have "awaits example_hashes 6 ?d f 1" unfolding awaits_def using f(2) m by fastforce
  then show ?thesis using f(1,5) \<open>data_comparable _ ?d (fw_pit f)\<close> by blast
qed

lemma example_delivered:
  assumes "set new = {SentData fc (example_packet 1 0) | k fc. fw_faces f k = Some fc \<and> k \<noteq> fc_id (example_face 2)
      \<and> \<not> violates_localhost fc (name_of (d_name (example_packet 1 0))) \<and> awaits example_hashes 6 (example_packet 1 0) f k}"
    and "awaits example_hashes 6 (example_packet 1 0) f 1" and "fw_faces f = fw_faces example_forwarder"
  shows "SentData (example_face 1) (example_packet 1 0) \<in> set new"
proof -
  have "fw_faces f 1 = Some (example_face 1)" "fc_id (example_face 2) = 2" using assms(3) by (simp_all add: example_forwarder_def example_face_def)
  then show ?thesis unfolding assms(1) using assms(2) example_Data_ok(2) by force
qed


text \<open>
  C14: in every state the forwarder can reach, Data whose name is under \<open>/localhost\<close> has
  been sent to local faces only, whether it came from a face or from the Content Store and whatever
  Interests it satisfied.
\<close>

theorem Data_stays_in_scope:
  assumes "\<forall>n. chosen n \<in> strategies" and "fw_reachable h (effective chosen) F faces f"
  shows "\<forall>fc d. SentData fc d \<in> set (fw_sent f) \<and> is_prefix LOCALHOST (name_of (d_name d)) \<longrightarrow> fc_local fc"
  using reachable_scope [OF effective_contract(1) [OF assms(1)] assms(2)] by (auto simp: data_in_scope_def violates_localhost_def)

theorem Data_stays_in_scope_witness:
  "\<exists>g d. fw_reachable example_hashes (effective example_choice) (Fib_new example_options) (fw_faces example_forwarder) g
     \<and> SentData (example_face 1) (example_packet 1 0) \<in> set (fw_sent g)
     \<and> name_of (d_name d) = LOCALHOST \<and> SentData (example_face 1) d \<notin> set (fw_sent g)"
proof -
  obtain f where f: "fw_reachable example_hashes (effective example_choice) (Fib_new example_options) (fw_faces example_forwarder) f"
    "data_comparable (h_sha256 example_hashes) (example_packet 1 0) (fw_pit f)" "awaits example_hashes 6 (example_packet 1 0) f 1"
    "fw_faces f = fw_faces example_forwarder" using example_awaiting by blast
  obtain g new where g: "onIncomingData example_hashes (effective example_choice) 6 (example_face 2) (example_packet 1 0) False f = (None, g)"
    "data_sent g = data_sent f @ new" "SentData (example_face 1) (example_packet 1 0) \<in> set new"
    using Data_delivered [OF example_choice_ok f(1) example_Data_ok(1) f(2) example_Data_ok(2) [of "example_face 2"], of 6 False]
      example_delivered [OF _ f(3,4)] by blast
  have r: "fw_reachable example_hashes (effective example_choice) (Fib_new example_options) (fw_faces example_forwarder) g"
    using fw_reachable.event [OF f(1)] event_Data [OF example_Data_ok(1) f(2), of "effective example_choice" 6 "example_face 2" False] g(1) by simp
  have "SentData (example_face 1) (example_packet 1 0) \<in> set (data_sent g)" using g(2,3) by simp
  then have sent: "SentData (example_face 1) (example_packet 1 0) \<in> set (fw_sent g)" by (simp add: data_sent_def)
  define d where "d = Data_of_name (Name_append Name_default (Component_of_buffer (comp_value (hd LOCALHOST))))"
  have d: "name_of (d_name d) = LOCALHOST"
    by (simp add: d_def Data_of_name_def LOCALHOST_def name_of_def component_of_def tlv_codes Name_append_def Block_push_back_def Block_with_elements_def)
  then have "SentData (example_face 1) d \<notin> set (fw_sent g)"
    using Data_stays_in_scope [OF example_choice_ok r, rule_format, of "example_face 1" d] by (simp only: d) (auto simp: is_prefix_def example_face_def)
  then show ?thesis using r sent d by blast
qed

text \<open>
  C15: in any state, the pipeline of incoming Interests, with each of the three strategies and whether it
  succeeds or throws, sends an Interest that does not name its next hop only on to faces that exist and
  are in scope: to a face that is not local goes no Interest under \<open>/localhost\<close>, and one
  under \<open>/localhop\<close> only when it came from a local face.
\<close>

theorem Interests_stay_in_scope:
  assumes "\<forall>n. chosen n \<in> strategies" and "ip_nextHopFaceId p = None" and "onIncomingInterest h (effective chosen) now inFace p f = (err, g)"
  shows "\<exists>new. fw_sent g = fw_sent f @ new \<and> (\<forall>k q. SentInterest k q \<in> set new \<longrightarrow>
     (\<exists>fc \<in> ran (fw_faces f). fc_id fc = k
        \<and> (fc_local fc \<or> \<not> is_prefix LOCALHOST (ip_name q) \<and> (is_prefix LOCALHOP (ip_name q) \<longrightarrow> fc_local inFace))))"
proof -
  have "forwards inFace f g"
    using onIncomingInterest_forwards_in_scope [OF effective_contract(2) [OF assms(1)] assms(2), of inFace f h now] assms(3) by simp
  then obtain new where new: "fw_sent g = fw_sent f @ new"
    "\<And>k q. SentInterest k q \<in> set new \<Longrightarrow> \<exists>fc \<in> ran (fw_faces f). fc_id fc = k \<and> \<not> wouldViolateScope inFace q fc"
    unfolding forwards_def by blast
  have "\<exists>fc \<in> ran (fw_faces f). fc_id fc = k \<and> (fc_local fc \<or> \<not> is_prefix LOCALHOST (ip_name q) \<and> (is_prefix LOCALHOP (ip_name q) \<longrightarrow> fc_local inFace))"
    if "SentInterest k q \<in> set new" for k q using new(2) [OF that] unfolding wouldViolateScope_def by meson
  then show ?thesis using new(1) by blast
qed

theorem Interests_stay_in_scope_witness:
  "\<exists>f g. onIncomingInterest example_hashes (effective example_choice) 5 (example_face 1) (example_plain 7) f = (None, g)
     \<and> SentInterest 2 (example_plain 7) \<in> set (fw_sent g) \<and> (\<exists>fc \<in> ran (fw_faces f). fc_id fc = 2 \<and> (fc_local fc \<or> \<not> is_prefix LOCALHOST (name_of name_a)))"
proof -
  obtain f g where f: "onIncomingInterest example_hashes (effective example_choice) 5 (example_face 1) (example_plain 7) f = (None, g)"
    "fw_sent f = []" "fw_sent g = [SentInterest 2 (example_plain 7)]" using example_best_route by blast
  then show ?thesis using Interests_stay_in_scope [OF example_choice_ok _ f(1)] by (intro exI [of _ f] exI [of _ g]) auto
qed

section \<open>Loops\<close>






text \<open>
  C6: best-route takes the cheapest usable next hop. In a state the forwarder can reach, with
  \<^verbatim>\<open>BestRouteStrategy2\<close> chosen for its name, an Interest comes from a face of
  the table: it is well-formed and in scope, carries no Link object, names no next hop, has no dead
  nonce, no entry in the PIT and no answer in the Content Store. It is sent to exactly one face: a
  cheapest one of the next hops that the FIB has for the longest prefix of the name with next hops,
  among those that are not the face it came from and are in scope; its new entry then has one in-record
  and one out-record, for these faces. Without such a next hop it is sent nowhere, is answered by a Nack
  of reason NoRoute unless its face is multi-access, and the entry gets the straggler timer.
\<close>

theorem best_route_picks_cheapest:
  assumes "\<forall>n. chosen n \<in> strategies" and "chosen (ip_name p) = BestRouteStrategy2" and "fw_reachable h (effective chosen) F faces f"
    and "fresh_Interest h now inFace p f" and "ip_nextHopFaceId p = None" and "fw_faces f (fc_id inFace) = Some inFace"
  shows "\<exists>g j. onIncomingInterest h (effective chosen) now inFace p f = (None, g)
    \<and> (if \<exists>k. next_hops (fw_fib f) (ip_name p) k \<noteq> None \<and> usable inFace p f k
       then \<exists>k c e. next_hops (fw_fib f) (ip_name p) k = Some c \<and> usable inFace p f k
         \<and> (\<forall>l d. next_hops (fw_fib f) (ip_name p) l = Some d \<and> usable inFace p f l \<longrightarrow> c \<le> d)
         \<and> fw_sent g = fw_sent f @ [SentInterest k p] \<and> fw_entry g j = Some e \<and> forwarded_entry now (fc_id inFace) p k e
       else fw_sent g = fw_sent f @ (if fc_multiAccess inFace then [] else [SentNack (fc_id inFace) p NoRoute])
         \<and> map_option pe_stragglerTimer (fw_entry g j) = Some (Some (chrono64 (now + stragglerTime), False, - 1)))"
  by (rule best_route_new [OF assms])

theorem best_route_picks_cheapest_witness:
  "\<exists>f g. next_hops (fw_fib f) (name_of name_a) = [2 \<mapsto> 10] \<and> fresh_Interest example_hashes 5 (example_face 1) (example_plain 7) f
     \<and> onIncomingInterest example_hashes (effective example_choice) 5 (example_face 1) (example_plain 7) f = (None, g)
     \<and> fw_sent f = [] \<and> fw_sent g = [SentInterest 2 (example_plain 7)]"
proof -
  obtain f where f: "fw_reachable example_hashes (effective example_choice) (Fib_new example_options) (fw_faces example_forwarder) f"
    "next_hops (fw_fib f) (name_of name_a) = [2 \<mapsto> 10]" "fresh_Interest example_hashes 5 (example_face 1) (example_plain 7) f"
    "fw_sent f = []" "fw_faces f = fw_faces example_forwarder" using example_routed by blast
  have "ip_nextHopFaceId (example_plain 7) = None" "fw_faces f (fc_id (example_face 1)) = Some (example_face 1)"
    by (simp_all add: f(5)) (simp add: example_forwarder_def example_face_def)
  from best_route_picks_cheapest [OF example_choice_ok example_choice_def f(1,3) this]
  obtain g k where g: "onIncomingInterest example_hashes (effective example_choice) 5 (example_face 1) (example_plain 7) f = (None, g)"
    "next_hops (fw_fib f) (ip_name (example_plain 7)) k \<noteq> None" "fw_sent g = fw_sent f @ [SentInterest k (example_plain 7)]"
    unfolding if_P [OF example_usable [OF f(2,5)]] by (elim exE conjE) (rule that, assumption, simp_all)
  then show ?thesis using f by (intro exI [of _ f] exI [of _ g]) (auto split: if_splits)
qed

end
