(* ===== verification/Spec2Isabelle.thy ===== *)
theory Spec2Isabelle
  imports WriteLiveness WatchHandle DeleteHandle FibDefects ForwarderTheorems
begin

text \<open>
  A verification of the data layer, the repository and the forwarder of an ICN database: the packet library ndn-cxx
  (\<^verbatim>\<open>src/ndn/ndn-cxx\<close>), the repository daemon built on it (\<^verbatim>\<open>src/repo-ng-mongo\<close>), the routing
  information base (\<^verbatim>\<open>src/ndn/NFD/rib\<close>), and the tables, the forwarding pipelines and the main strategies of
  the forwarder (\<^verbatim>\<open>src/ndn/NFD/daemon\<close>).

  \<^bold>\<open>The program.\<close> Clients and the repository exchange Interests and Data packets, which are NDN-TLV
  encodings. A command to the repository is an Interest whose name ends with a component that holds
  encoded parameters. The insert handler fetches the named content, segment by segment, and stores it;
  the delete handler removes it; the watch handler keeps asking for new content under a name and stores
  what comes; all answer with a Data packet that holds an encoded response. Stored packets are found
  through an ordered index of full names. Interests reach the repository because it registers its
  prefixes: the routing information base keeps the routes of each name and passes them down to longer
  names according to their flags; for each change the FIB updater computes the next hops to add and
  remove, sends them to the forwarder one batch at a time, and the table changes when they are accepted.
  The forwarder keeps its next hops in a tree of names over a hash table, in which it looks up the longest
  prefix of a name that has next hops. An Interest that arrives on a face gets an entry in the pending Interest
  table, which hangs in the same tree; unless the content store answers it, the strategy chosen for its name
  sends it to next hops or rejects it. Data that comes back goes to every face with a pending Interest that
  it satisfies, and into the content store; timers end the entries, and the nonces of those that ended stay
  in the Dead Nonce List for a while, so that loops are found.

  \<^bold>\<open>Theories\<close>, each importing those before it that it calls:
  \<^item> \<open>Prelude\<close>: error values, 8- to 64-bit words, byte lists, big-endian numbers.
  \<^item> \<open>Tlv\<close>: \<^verbatim>\<open>encoding/tlv.hpp\<close>. Type and length numbers and non-negative integers, from buffers and streams.
  \<^item> \<open>Block\<close>: \<^verbatim>\<open>encoding/block.cpp\<close>. A TLV element with its buffer, offsets and lazily parsed elements.
  \<^item> \<open>Encoding\<close>: \<^verbatim>\<open>encoding/encoder.cpp\<close>, \<^verbatim>\<open>estimator.cpp\<close>, \<^verbatim>\<open>block-helpers.cpp\<close>. The two instances of
    \<^verbatim>\<open>EncodingImpl\<close> as interpretations of one locale, in which every encoding is proved once for both passes.
  \<^item> \<open>StringHelper\<close>, \<open>NameComponent\<close>, \<open>Name\<close>: \<^verbatim>\<open>name-component.cpp\<close>, \<^verbatim>\<open>name.cpp\<close> with URIs, markers,
    canonical order, successors. \<open>component_of\<close> and \<open>name_of\<close> are the abstract values.
  \<^item> \<open>StdMap\<close>: \<^verbatim>\<open>std::map\<close> and \<^verbatim>\<open>std::set\<close> as sorted association lists over a comparator, a locale.
  \<^item> \<open>Exclude\<close>, \<open>Selectors\<close>, \<open>Data\<close>, \<open>Interest\<close>: the packet types, their wire and the matching rules.
  \<^item> \<open>NameMap\<close>: names without caches in their order, and maps over them.
  \<^item> \<open>RepoIndex\<close>: \<^verbatim>\<open>storage/index.cpp\<close>. The index refines a bounded map; lookups with child selectors.
  \<^item> \<open>RepoCommand\<close>: \<^verbatim>\<open>repo-command-parameter.hpp\<close>, \<^verbatim>\<open>repo-command-response.hpp\<close>.
  \<^item> \<open>RepoStorage\<close>: \<^verbatim>\<open>storage/repo-storage.cpp\<close> over the abstract database class.
  \<^item> \<open>DeleteHandle\<close>, \<open>WriteHandle\<close>: \<^verbatim>\<open>handles/base-handle.hpp\<close>, \<^verbatim>\<open>delete-handle.cpp\<close>, \<^verbatim>\<open>write-handle.cpp\<close>.
  \<^item> \<open>WriteLiveness\<close>: safety and progress of the segmented fetches of the insert handler.
  \<^item> \<open>WatchHandle\<close>: \<^verbatim>\<open>watch-handle.cpp\<close>.
  \<^item> \<open>Rib\<close>: \<^verbatim>\<open>rib.cpp\<close>, \<^verbatim>\<open>rib-entry.cpp\<close>, \<^verbatim>\<open>route.hpp\<close>. The table with its links and its queue of updates.
  \<^item> \<open>FibUpdater\<close>: \<^verbatim>\<open>fib-updater.cpp\<close> and the queue of \<^verbatim>\<open>rib.cpp\<close>.
  \<^item> \<open>RibTree\<close>: the invariant of the table: every entry is linked to its longest prefix.
  \<^item> \<open>FibSync\<close>: route inheritance stated on names alone (\<open>fib_of\<close>), and that the updates of a new
    prefix realise it. \<open>FibProtocol\<close>: commands, answers and the queue. \<open>FibDefects\<close>: where the updater fails.
  \<^item> \<open>NameTree\<close>: \<^verbatim>\<open>name-tree-hashtable.cpp\<close>, \<^verbatim>\<open>name-tree-entry.cpp\<close>, \<^verbatim>\<open>name-tree.cpp\<close>. \<open>HashTable\<close>: the hash
    table is a map from names (\<open>ht_map\<close>). \<open>TreeShape\<close>: the entries are linked to their parents
    (\<open>tree_ok\<close>) under lookup and erasure, and the longest prefix match.
  \<^item> \<open>FibTable\<close>: \<^verbatim>\<open>fib-entry.cpp\<close>, \<^verbatim>\<open>fib.cpp\<close>, \<^verbatim>\<open>mgmt/fib-manager.cpp\<close>. \<open>FibOk\<close>: the FIB as a function from
    names and faces to costs (\<open>fib_view\<close>) under the commands of the manager. \<open>Forwarding\<close>: the updater's
    commands executed there, from a registration to the lookup of the forwarder.
  \<^item> \<open>ContentStore\<close>: \<^verbatim>\<open>cs.cpp\<close>, \<^verbatim>\<open>cs-entry.cpp\<close>, \<^verbatim>\<open>cs-entry-impl.cpp\<close> and the replacement policies
    \<^verbatim>\<open>cs-policy-priority-fifo.cpp\<close>, \<^verbatim>\<open>cs-policy-lru.cpp\<close>. \<open>CsPolicy\<close>: the policies as one interface, a locale,
    and the eviction loop. \<open>CsOk\<close>: insertion and lookup. \<open>CsBehaviour\<close>, \<open>CsTheorems\<close>: the store under
    its operations and events, and lookups by full name.
  \<^item> \<open>DeadNonceList\<close>: \<^verbatim>\<open>dead-nonce-list.cpp\<close>. \<open>Link\<close>: \<^verbatim>\<open>link.cpp\<close> and the Link object of an Interest.
  \<^item> \<open>Pit\<close>: \<^verbatim>\<open>pit.cpp\<close>, \<^verbatim>\<open>pit-entry.cpp\<close> with the records of faces, and \<^verbatim>\<open>fw/algorithm.cpp\<close>. \<open>PitOk\<close>: the
    invariant of the table, and insertion, lookup, matching and erasure under it.
  \<^item> \<open>Forwarder\<close>: \<^verbatim>\<open>fw/forwarder.cpp\<close>. The record \<open>forwarder\<close> holds the tables and the list of what was sent; one
    definition per pipeline, the strategy an argument. \<open>Strategy\<close>: \<^verbatim>\<open>fw/strategy.cpp\<close>, \<^verbatim>\<open>best-route-strategy2.cpp\<close>,
    \<^verbatim>\<open>best-route-strategy.cpp\<close>, \<^verbatim>\<open>multicast-strategy.cpp\<close> and the parts they share.
  \<^item> \<open>ForwarderOk\<close>, \<open>ForwarderRun\<close>: what the pipelines rely on from a strategy, a locale, and that under
    it they keep the tables. \<open>StrategyOk\<close>: the strategies are instances of the locale. \<open>ForwarderEvents\<close>: packets, timers
    and commands as a step relation, the reachable states, and what happens to a new Interest. \<open>ForwarderScope\<close>:
    scopes are kept. \<open>ForwarderTheorems\<close>: the theorems, each on an example too.

  \<^bold>\<open>How code becomes definitions.\<close> Classes are records, methods are functions on them that return the
  updated object; \<^verbatim>\<open>mutable\<close> caches such as \<^verbatim>\<open>m_wire\<close> are fields and are returned too. An exception is
  the \<open>Inl\<close> of a result, or, where the object survives it, an optional error beside the object.
  Undefined behaviour and failed assertions are error values of their own, so that a theorem which
  gives a result also says that neither happens. Integers have their width; times are 64-bit nanoseconds, and
  adding to them and converting milliseconds wraps around (\<open>chrono64\<close>). Encoders are
  state transformers over an interface of operations. SHA-256, signing, the database, the clock and
  random numbers are arguments. A pointer to an entry of
  the routing table or the name tree is the entry's name, one to an entry of the PIT is its number; an
  access through a pointer to an entry that is gone is undefined behaviour. A pipeline that throws leaves
  the forwarder as it is at that moment: its result is an optional error beside the forwarder. Loops are total functions with measures; the loops that may
  run forever (deletion by Interest, deletion of a segment range, the walks along parents and
  children) are partial functions whose \<open>None\<close> is a loop that does not end, and their theorems say
  when they return. Nothing uses fuel.

  \<^bold>\<open>What is shown.\<close> Round trips of every wire format, including the rejection of incomplete ones; that
  the order of names decided on wires is the canonical order, that prefixes are ranges of it and
  what \<^verbatim>\<open>getSuccessor\<close> gives; that exclude filters exclude exactly what was added, and when they do
  not; that matching an Interest against Data is matching its full name; that the index is a bounded
  map and that its searches return the leftmost and rightmost admitted entry; that deletion by
  Interest removes exactly the admitted entries; what delete commands report; that the flow control
  of the insert handler keeps its bounds and assertions under every interleaving of events, and that
  a segmented insert ends; that a watch never receives the same Data twice and keeps its limit; that
  the routing table keeps its tree under every change, that computing FIB updates ends, and that a
  route registered for a new name, once the forwarder has answered, leaves the FIB that route
  inheritance prescribes, in the forwarder's own tables, where a lookup finds it; that these tables are
  a map and a tree under every operation; that the content store stays within its limit, with every
  packet in one queue of its policy, which packets it evicts and which it finds. Of the forwarder as a whole: that no
  pipeline throws or fails an assertion and that the tables stay in order, whatever packets arrive; that every
  entry of the PIT has a timer that removes it; that Data reaches exactly the faces that wait for it; that best-route
  takes the cheapest usable next hop; that an Interest that loops is caught after its entry is gone; and that
  packets stay in their scope. Several theorems describe defects precisely: where the code does not do
  what its comments say, the theorem says what it does.

  \<^bold>\<open>Limits of the statements.\<close> Many theorems are about names whose component wires are the shortest ones
  (\<open>name_block\<close>), which is what the library writes; for longer wires the order of names is not what \<^verbatim>\<open>equals\<close>
  says, and \<open>Component_compare_nonminimal\<close> shows it. The theorems on registrations are about tables without
  two routes of one face in an entry; \<open>FibDefects\<close> shows what goes wrong otherwise. The events of the forwarder are about Interests
  without Link objects, because \<^verbatim>\<open>lookupFib\<close>, which is modelled in full, throws or fails an assertion for some.

  \<^bold>\<open>Not modelled.\<close> The database clients (\<^verbatim>\<open>mongo-storage.cpp\<close>, \<^verbatim>\<open>sqlite-storage.cpp\<close>) and the read
  and TCP handlers; start-up and configuration; the security and management parts of ndn-cxx; of the
  NFD forwarder the other strategies, the choice of a strategy (an argument of the events) and the measurements, the packet
  counters and IncomingFaceId tags, which no pipeline reads, and the transports of the faces; the tools; vendored libraries; the Java services.
  They are input and output, third-party code, or left for later extensions.
\<close>

end
